(* ===== verification/Prelude.thy ===== *)
theory Prelude
  imports Main "HOL-Library.AList" "HOL-Library.Word" "HOL-Library.Sublist"
    "HOL-Library.Char_ord" "HOL-Library.List_Lexorder"
begin

text \<open>
  Shared vocabulary of the wasmsh development: Rust's \<open>Result\<close> with the panic outcome, bytes,
  saturating and checked machine arithmetic, insertion-ordered maps (\<open>IndexMap\<close> and
  \<open>HashMap\<close> are association lists with distinct keys), and the string operations of the
  standard library that the components call (\<open>split\<close>, \<open>join\<close>, \<open>strip_prefix\<close>,
  \<open>to_string\<close> and \<open>parse\<close> on integers).  A Rust \<open>str\<close> is the list of its UTF-8
  bytes, one Isabelle \<^typ>\<open>char\<close> per byte.
\<close>

named_theorems model_defs \<open>definitions that the component proofs unfold\<close>
named_theorems inv_intros \<open>preservation facts: an operation keeps its component's invariant\<close>
named_theorems alist_simps \<open>lookup, keys and size of association lists after an update\<close>

section \<open>Results\<close>

text \<open>
  \<open>Result<T, E>\<close>, plus the third way a Rust call can end: a panic (an \<open>expect\<close>, an
  \<open>unreachable!\<close>, an out-of-range slice).
\<close>

datatype ('a, 'e) result = Ok (the_ok: 'a) | Err (the_err: 'e) | Panic string

definition result_bind :: "('a, 'e) result \<Rightarrow> ('a \<Rightarrow> ('b, 'e) result) \<Rightarrow> ('b, 'e) result" where
  "result_bind r f = (case r of Ok x \<Rightarrow> f x | Err e \<Rightarrow> Err e | Panic m \<Rightarrow> Panic m)"

lemma result_bind_simps [simp]:
  "result_bind (Ok x) f = f x"
  "result_bind (Err e) f = Err e"
  "result_bind (Panic m) f = Panic m"
  by (simp_all add: result_bind_def)

lemma result_bind_cong [fundef_cong]:
  "r = r' \<Longrightarrow> (\<And>x. r' = Ok x \<Longrightarrow> f x = f' x) \<Longrightarrow> result_bind r f = result_bind r' f'"
  by (cases r') (simp_all add: result_bind_def)

lemma result_bind_Ok_iff:
  "result_bind r f = Ok y \<longleftrightarrow> (\<exists>x. r = Ok x \<and> f x = Ok y)"
  by (cases r) simp_all

lemma result_bind_Err_iff:
  "result_bind r f = Err e \<longleftrightarrow> r = Err e \<or> (\<exists>x. r = Ok x \<and> f x = Err e)"
  by (cases r) simp_all

lemma result_bind_Panic_iff:
  "result_bind r f = Panic m \<longleftrightarrow> r = Panic m \<or> (\<exists>x. r = Ok x \<and> f x = Panic m)"
  by (cases r) simp_all

lemmas result_bind_iffs = result_bind_Ok_iff result_bind_Err_iff result_bind_Panic_iff

section \<open>Machine integers\<close>

type_synonym u8 = "8 word"
type_synonym u32 = "32 word"
type_synonym u64 = "64 word"
type_synonym bytes = "u8 list"

text \<open>\<open>usize\<close> on \<open>wasm32-unknown-unknown\<close>, the primary delivery target.\<close>

type_synonym usize = "32 word"

definition sat_add :: "'a::len word \<Rightarrow> 'a word \<Rightarrow> 'a word" where
  "sat_add x y = (if unat x + unat y < 2 ^ LENGTH('a) then x + y else - 1)"

definition sat_sub :: "'a::len word \<Rightarrow> 'a word \<Rightarrow> 'a word" where
  "sat_sub x y = (if x < y then 0 else x - y)"

lemma unat_max_word_eq: "unat (- 1 :: 'a::len word) = 2 ^ LENGTH('a) - 1"
  by (simp add: unsigned_minus_1_eq_mask mask_eq_exp_minus_1)

lemma unat_of_nat_less:
  "n < 2 ^ LENGTH('a) \<Longrightarrow> unat (of_nat n :: 'a::len word) = n"
  by (simp add: unsigned_of_nat take_bit_nat_eq_self)

lemma unat_sat_add:
  "unat (sat_add x y) = min (unat x + unat y) (2 ^ LENGTH('a) - 1)" for x y :: "'a::len word"
  by (auto simp: sat_add_def unat_word_ariths unat_max_word_eq min_def)

lemma sat_add_le: "x \<le> sat_add x y" for x y :: "'a::len word"
proof -
  have "unat x < 2 ^ LENGTH('a)"
    by (rule unsigned_less)
  then have "unat x \<le> unat (sat_add x y)"
    unfolding unat_sat_add by linarith
  then show ?thesis by (simp add: word_le_nat_alt)
qed

lemma unat_sat_sub: "unat (sat_sub x y) = unat x - unat y" for x y :: "'a::len word"
  by (auto simp: sat_sub_def word_less_nat_alt unat_sub_if')

lemma sat_sub_sat_add:
  "unat x + unat y < 2 ^ LENGTH('a) \<Longrightarrow> sat_sub (sat_add x y) y = x" for x y :: "'a::len word"
  by (simp add: sat_sub_def sat_add_def word_less_nat_alt unat_word_ariths)

lemma unat_Suc_less:
  fixes x y :: "'a::len word"
  assumes "x < y"
  shows "unat (x + 1) = Suc (unat x)"
proof -
  have "unat x < unat y" and "unat y < 2 ^ LENGTH('a)"
    using assms by (simp_all only: word_less_nat_alt unsigned_less)
  then have "unat x + 1 < 2 ^ LENGTH('a)"
    by linarith
  then show ?thesis by (simp add: unat_word_ariths)
qed

lemma word_less_succ:
  fixes x y :: "'a::len word"
  assumes "x \<le> y" "y \<noteq> - 1"
  shows "x < y + 1"
proof -
  have "y < - 1"
    using assms(2) max_word_max [of y] by (rule le_neq_trans [rotated])
  then have "unat (y + 1) = Suc (unat y)"
    by (rule unat_Suc_less)
  then show ?thesis
    using assms(1) by (simp add: word_less_nat_alt word_le_nat_alt)
qed

section \<open>Maps in insertion order\<close>

text \<open>
  \<open>AList.update\<close> replaces the value of a present key in place and appends a new key at the
  end, which is \<open>IndexMap::insert\<close>; \<open>AList.delete\<close> is \<open>shift_remove\<close>.  For a
  \<open>HashMap\<close> only the lookups and the number of entries are observable.
\<close>

type_synonym ('k, 'v) alist_map = "('k \<times> 'v) list"

abbreviation keys_distinct :: "('k, 'v) alist_map \<Rightarrow> bool" where
  "keys_distinct m \<equiv> distinct (map fst m)"

lemma map_of_update [alist_simps]: "map_of (AList.update k v m) = (map_of m)(k \<mapsto> v)"
  by (rule update_conv')

lemma map_of_delete [alist_simps]: "map_of (AList.delete k m) = (map_of m)(k := None)"
  by (rule delete_conv')

lemma keys_distinct_update [simp, intro]: "keys_distinct m \<Longrightarrow> keys_distinct (AList.update k v m)"
  by (rule distinct_update)

lemma keys_distinct_delete [simp, intro]: "keys_distinct m \<Longrightarrow> keys_distinct (AList.delete k m)"
  by (rule distinct_delete)

lemma length_update_new [alist_simps]:
  "map_of m k = None \<Longrightarrow> length (AList.update k v m) = Suc (length m)"
  by (induction m) (auto split: if_splits)

lemma length_update_old [alist_simps]:
  "map_of m k = Some w \<Longrightarrow> length (AList.update k v m) = length m"
  by (induction m) (auto split: if_splits)

lemma length_update_le: "length m \<le> length (AList.update k v m)"
  by (cases "map_of m k") (simp_all add: alist_simps)

lemma length_delete_bound: "length (AList.delete k m) \<le> length m"
  by (rule length_delete_le)

text \<open>A weight summed over the entries of a map, such as the bytes held by its files.\<close>

definition weight :: "('v \<Rightarrow> nat) \<Rightarrow> ('k, 'v) alist_map \<Rightarrow> nat" where
  "weight f m = sum_list (map (f \<circ> snd) m)"

lemma weight_Nil [simp]: "weight f [] = 0"
  by (simp add: weight_def)

lemma weight_Cons [simp]: "weight f ((k, v) # m) = f v + weight f m"
  by (simp add: weight_def)

lemma weight_lookup_le: "map_of m k = Some v \<Longrightarrow> f v \<le> weight f m"
  by (induction m) (auto split: if_splits)

lemma weight_update_new [alist_simps]:
  "map_of m k = None \<Longrightarrow> weight f (AList.update k v m) = weight f m + f v"
  by (induction m) (auto split: if_splits)

lemma weight_update_old [alist_simps]:
  "map_of m k = Some w \<Longrightarrow> weight f (AList.update k v m) + f w = weight f m + f v"
  by (induction m) (auto split: if_splits)

lemma weight_update_zero: "f v = 0 \<Longrightarrow> weight f (AList.update k v m) \<le> weight f m"
  by (induction m) (auto split: if_splits)

lemma delete_absent [alist_simps]: "map_of m k = None \<Longrightarrow> AList.delete k m = m"
  by (simp add: delete_id map_of_eq_None_iff)

lemma weight_delete_absent: "map_of m k = None \<Longrightarrow> weight f (AList.delete k m) = weight f m"
  by (simp add: alist_simps)

lemma weight_delete_old [alist_simps]:
  "keys_distinct m \<Longrightarrow> map_of m k = Some w \<Longrightarrow> weight f (AList.delete k m) + f w = weight f m"
proof (induction m)
  case (Cons p m)
  obtain a b where p: "p = (a, b)" by (cases p)
  show ?case
  proof (cases "a = k")
    case True
    with Cons.prems(1) p have "map_of m k = None"
      by (simp add: map_of_eq_None_iff)
    then have "weight f (AList.delete k m) = weight f m"
      by (rule weight_delete_absent)
    with True Cons.prems(2) p show ?thesis by simp
  next
    case False
    then have "weight f (AList.delete k m) + f w = weight f m"
      using Cons.IH Cons.prems p by simp
    with False p show ?thesis by simp
  qed
qed simp

section \<open>Strings\<close>

text \<open>\<open>str::split(c)\<close>: the pieces between the separators, at least one.\<close>

fun split_on :: "char \<Rightarrow> string \<Rightarrow> string list" where
  "split_on c [] = [[]]"
| "split_on c (x # xs) =
     (if x = c then [] # split_on c xs
      else (case split_on c xs of [] \<Rightarrow> [[x]] | p # ps \<Rightarrow> (x # p) # ps))"

text \<open>\<open>[S]::join(sep)\<close>.\<close>

fun join_with :: "string \<Rightarrow> string list \<Rightarrow> string" where
  "join_with sep [] = []"
| "join_with sep [x] = x"
| "join_with sep (x # y # ys) = x @ sep @ join_with sep (y # ys)"

definition strip_prefix :: "string \<Rightarrow> string \<Rightarrow> string option" where
  "strip_prefix p s = (if prefix p s then Some (drop (length p) s) else None)"

lemma split_on_not_Nil [simp]: "split_on c s \<noteq> []"
  by (cases s) (auto split: list.splits)

lemma split_on_no_sep: "p \<in> set (split_on c s) \<Longrightarrow> c \<notin> set p"
proof (induction s arbitrary: p)
  case (Cons x xs)
  then show ?case by (cases "split_on c xs") (auto split: if_splits)
qed simp

lemma split_on_plain: "c \<notin> set s \<Longrightarrow> split_on c s = [s]"
  by (induction s) auto

lemma split_on_append_sep: "split_on c (s @ c # t) = split_on c s @ split_on c t"
proof (induction s)
  case (Cons x xs)
  then show ?case by (cases "split_on c xs") auto
qed simp

lemma split_on_join:
  "ps \<noteq> [] \<Longrightarrow> (\<And>p. p \<in> set ps \<Longrightarrow> c \<notin> set p) \<Longrightarrow> split_on c (join_with [c] ps) = ps"
  by (induction "[c]" ps rule: join_with.induct)
    (simp_all add: split_on_plain split_on_append_sep)

text \<open>Decimal rendering of integers, and \<open>str::parse::<usize>\<close>.\<close>

fun show_nat :: "nat \<Rightarrow> string" where
  "show_nat n =
     (if n < 10 then [char_of (48 + n)] else show_nat (n div 10) @ [char_of (48 + n mod 10)])"

declare show_nat.simps [simp del]

definition show_int :: "int \<Rightarrow> string" where
  "show_int i = (if i < 0 then ''-'' @ show_nat (nat (- i)) else show_nat (nat i))"

definition is_digit :: "char \<Rightarrow> bool" where
  "is_digit c \<longleftrightarrow> 48 \<le> (of_char c :: nat) \<and> (of_char c :: nat) \<le> 57"

definition digit_val :: "char \<Rightarrow> nat" where
  "digit_val c = of_char c - 48"

definition digits_val :: "string \<Rightarrow> nat" where
  "digits_val s = foldl (\<lambda>n c. n * 10 + digit_val c) 0 s"

text \<open>
  \<open>usize::from_str\<close> accepts one leading plus sign, then at least one digit, and fails on
  overflow.
\<close>

definition parse_usize :: "string \<Rightarrow> usize option" where
  "parse_usize s =
     (let d = (case s of [] \<Rightarrow> [] | c # cs \<Rightarrow> if c = CHR ''+'' then cs else s) in
      if d \<noteq> [] \<and> list_all is_digit d \<and> digits_val d < 2 ^ 32
      then Some (of_nat (digits_val d)) else None)"

lemma digits_val_append [simp]:
  "digits_val (s @ [c]) = digits_val s * 10 + digit_val c"
  by (simp add: digits_val_def)

lemma digit_char: "d < 10 \<Longrightarrow> is_digit (char_of (48 + d)) \<and> digit_val (char_of (48 + d)) = d"
  for d :: nat
  by (simp add: is_digit_def digit_val_def of_char_of take_bit_eq_mod)

lemma show_nat_digits: "list_all is_digit (show_nat n) \<and> show_nat n \<noteq> []"
proof (induction n rule: show_nat.induct)
  case (1 n)
  then show ?case
    using digit_char [of n] digit_char [of "n mod 10"] by (simp add: show_nat.simps [of n])
qed

lemma digits_val_show_nat: "digits_val (show_nat n) = n"
proof (induction n rule: show_nat.induct)
  case (1 n)
  show ?case
  proof (cases "n < 10")
    case True
    then show ?thesis
      using digit_char [of n] by (subst show_nat.simps) (simp add: digits_val_def)
  next
    case False
    then show ?thesis
      using "1" digit_char [of "n mod 10"] by (subst show_nat.simps) simp
  qed
qed

lemma parse_usize_show_nat:
  assumes "n < 2 ^ 32"
  shows "parse_usize (show_nat n) = Some (of_nat n)"
proof -
  obtain c cs where s: "show_nat n = c # cs"
    using show_nat_digits [of n] by (cases "show_nat n") auto
  then have "is_digit c"
    using show_nat_digits [of n] by simp
  then have "c \<noteq> CHR ''+''"
    by (auto simp: is_digit_def)
  with s assms show ?thesis
    using show_nat_digits [of n] digits_val_show_nat [of n]
    by (simp add: parse_usize_def)
qed

end
