(* ===== verification/Pipe.thy ===== *)
theory Pipe
  imports Prelude
begin

text \<open>
  The bounded byte pipe that connects two pipeline stages
  (\<^verbatim>\<open>crates/wasmsh-vm/src/pipe.rs\<close>): its record, every operation of \<open>PipeBuffer\<close>, the
  interface a stage relies on (a FIFO byte channel) as a locale, and the interpretation of
  that locale on \<open>PipeBuffer\<close>.  The closing lemmas say that no byte is lost, duplicated or
  reordered, that the buffer stays within its bounds, and that end of stream is reported
  only after every accepted byte was delivered.
\<close>

section \<open>Data and operations\<close>

record pipe_buffer =
  pipe_data :: bytes
  pipe_capacity :: nat
  write_closed :: bool
  read_closed :: bool

datatype write_result = Written nat | WriteWouldBlock nat | BrokenPipe

datatype read_result = Read nat | ReadWouldBlock | Eof

definition pipe_new :: "nat \<Rightarrow> pipe_buffer" where
  "pipe_new capacity =
     \<lparr>pipe_data = [], pipe_capacity = capacity, write_closed = False, read_closed = False\<rparr>"

definition pipe_default_size :: pipe_buffer where
  "pipe_default_size = pipe_new (64 * 1024)"

definition pipe_write :: "pipe_buffer \<Rightarrow> bytes \<Rightarrow> pipe_buffer \<times> write_result" where
  "pipe_write p buf =
     (if read_closed p then (p, BrokenPipe)
      else if buf = [] then (p, Written 0)
      else
        let available = pipe_capacity p - length (pipe_data p) in
        if available = 0 then (p, WriteWouldBlock 0)
        else
          let to_write = min (length buf) available;
              p' = p\<lparr>pipe_data := pipe_data p @ take to_write buf\<rparr>
          in (p', if to_write < length buf then WriteWouldBlock to_write else Written to_write))"

definition max_pipe_total :: nat where
  "max_pipe_total = 64 * 1024 * 1024"

definition pipe_write_all :: "pipe_buffer \<Rightarrow> bytes \<Rightarrow> pipe_buffer" where
  "pipe_write_all p buf =
     (let remaining = max_pipe_total - length (pipe_data p);
          to_write = min (length buf) remaining
      in p\<lparr>pipe_data := pipe_data p @ take to_write buf\<rparr>)"

definition pipe_read_all :: "pipe_buffer \<Rightarrow> read_result" where
  "pipe_read_all p =
     (if pipe_data p = [] then (if write_closed p then Eof else ReadWouldBlock)
      else Read (length (pipe_data p)))"

text \<open>
  The slot loop of \<open>read\<close>: each slot takes the front byte, and a \<open>pop_front\<close> on an empty
  deque would panic.
\<close>

fun pop_slots :: "nat \<Rightarrow> bytes \<Rightarrow> (bytes \<times> bytes, unit) result" where
  "pop_slots 0 d = Ok ([], d)"
| "pop_slots (Suc n) [] = Panic ''pipe read length exceeded available data''"
| "pop_slots (Suc n) (b # d) = result_bind (pop_slots n d) (\<lambda>(got, rest). Ok (b # got, rest))"

definition pipe_read ::
  "pipe_buffer \<Rightarrow> bytes \<Rightarrow> (pipe_buffer \<times> bytes \<times> read_result, unit) result" where
  "pipe_read p buf =
     (if buf = [] then Ok (p, buf, Read 0)
      else if pipe_data p = [] then
        Ok (p, buf, if write_closed p then Eof else ReadWouldBlock)
      else
        let to_read = min (length buf) (length (pipe_data p)) in
        result_bind (pop_slots to_read (pipe_data p))
          (\<lambda>(got, rest). Ok (p\<lparr>pipe_data := rest\<rparr>, got @ drop to_read buf, Read to_read)))"

definition pipe_drain :: "pipe_buffer \<Rightarrow> pipe_buffer \<times> bytes" where
  "pipe_drain p = (p\<lparr>pipe_data := []\<rparr>, pipe_data p)"

definition pipe_close_write :: "pipe_buffer \<Rightarrow> pipe_buffer" where
  "pipe_close_write p = p\<lparr>write_closed := True\<rparr>"

definition pipe_close_read :: "pipe_buffer \<Rightarrow> pipe_buffer" where
  "pipe_close_read p = p\<lparr>read_closed := True\<rparr>"

definition is_write_closed :: "pipe_buffer \<Rightarrow> bool" where
  "is_write_closed p = write_closed p"

definition is_read_closed :: "pipe_buffer \<Rightarrow> bool" where
  "is_read_closed p = read_closed p"

definition has_data :: "pipe_buffer \<Rightarrow> bool" where
  "has_data p \<longleftrightarrow> pipe_data p \<noteq> []"

definition has_space :: "pipe_buffer \<Rightarrow> bool" where
  "has_space p \<longleftrightarrow> length (pipe_data p) < pipe_capacity p"

definition pipe_len :: "pipe_buffer \<Rightarrow> nat" where
  "pipe_len p = length (pipe_data p)"

definition pipe_is_empty :: "pipe_buffer \<Rightarrow> bool" where
  "pipe_is_empty p \<longleftrightarrow> pipe_data p = []"

lemmas pipe_defs =
  pipe_new_def pipe_write_def pipe_write_all_def pipe_drain_def
  pipe_close_write_def pipe_close_read_def

section \<open>Stream machines: the interface of a pipeline stage\<close>

text \<open>
  A stage sees the pipe as a machine whose steps each accept some bytes and deliver some
  bytes; a run concatenates both.
\<close>

fun run_stream ::
  "('c \<Rightarrow> 'o \<Rightarrow> 'c \<times> 'a list \<times> 'a list) \<Rightarrow> 'c \<Rightarrow> 'o list \<Rightarrow> 'c \<times> 'a list \<times> 'a list" where
  "run_stream step c [] = (c, [], [])"
| "run_stream step c (x # xs) =
     (let (c', a, d) = step c x; (c'', as, ds) = run_stream step c' xs in (c'', a @ as, d @ ds))"

text \<open>
  The law a provider promises: what a step accepts goes behind the contents and what it
  delivers comes from their front.
\<close>

locale byte_stream =
  fixes step :: "'c \<Rightarrow> 'o \<Rightarrow> 'c \<times> 'a list \<times> 'a list"
    and contents :: "'c \<Rightarrow> 'a list"
  assumes step_conserves: "step c x = (c', a, d) \<Longrightarrow> contents c @ a = d @ contents c'"
begin

lemma run_conserves:
  "run_stream step c xs = (c', as, ds) \<Longrightarrow> contents c @ as = ds @ contents c'"
proof (induction xs arbitrary: c c' as ds)
  case (Cons x xs)
  obtain m a d where s: "step c x = (m, a, d)" by (cases "step c x") auto
  obtain e as' ds' where r: "run_stream step m xs = (e, as', ds')"
    by (cases "run_stream step m xs") auto
  have "contents c @ a @ as' = d @ contents m @ as'"
    using step_conserves [OF s] by (metis append.assoc)
  also have "contents m @ as' = ds' @ contents e"
    by (rule Cons.IH [OF r])
  finally show ?case using Cons.prems s r by simp
qed simp

end

text \<open>A stream with a pull operation that makes progress is drained by repeating it.\<close>

locale draining_stream = byte_stream +
  fixes pull :: 'o
  assumes pull_accepts_nothing: "fst (snd (step c pull)) = []"
    and pull_progress: "contents c \<noteq> [] \<Longrightarrow> snd (snd (step c pull)) \<noteq> []"
begin

lemma pulls_drain:
  "length (contents c) \<le> k \<Longrightarrow>
   \<exists>c'. run_stream step c (replicate k pull) = (c', [], contents c) \<and> contents c' = []"
proof (induction k arbitrary: c)
  case (Suc k)
  obtain m a d where s: "step c pull = (m, a, d)" by (cases "step c pull") auto
  have a: "a = []" using pull_accepts_nothing [of c] s by simp
  have split: "contents c = d @ contents m" using step_conserves [OF s] a by simp
  have "d \<noteq> [] \<or> contents c = []" using pull_progress [of c] s by auto
  then have "length (contents m) \<le> k" using split Suc.prems by (cases d) auto
  from Suc.IH [OF this] show ?case using s a split by auto
qed simp

end

section \<open>The pipe is such a stream\<close>

datatype pipe_op =
  OpWrite bytes | OpWriteAll bytes | OpRead nat | OpDrain | OpCloseWrite | OpCloseRead

definition accepted_count :: "write_result \<Rightarrow> nat" where
  "accepted_count r = (case r of Written n \<Rightarrow> n | WriteWouldBlock n \<Rightarrow> n | BrokenPipe \<Rightarrow> 0)"

text \<open>
  One operation as a stage issues it, with the bytes it was told were accepted and the bytes
  it received; \<open>OpRead n\<close> reads into a fresh buffer of \<open>n\<close> slots, and what
  \<open>write_all\<close> accepted is what the buffer grew by.
\<close>

fun pipe_step :: "pipe_buffer \<Rightarrow> pipe_op \<Rightarrow> pipe_buffer \<times> bytes \<times> bytes" where
  "pipe_step p (OpWrite buf) =
     (let (p', r) = pipe_write p buf in (p', take (accepted_count r) buf, []))"
| "pipe_step p (OpWriteAll buf) =
     (let p' = pipe_write_all p buf in (p', drop (pipe_len p) (pipe_data p'), []))"
| "pipe_step p (OpRead n) =
     (case pipe_read p (replicate n 0) of
        Ok (p', buf, Read k) \<Rightarrow> (p', [], take k buf)
      | _ \<Rightarrow> (p, [], []))"
| "pipe_step p OpDrain = (let (p', d) = pipe_drain p in (p', [], d))"
| "pipe_step p OpCloseWrite = (pipe_close_write p, [], [])"
| "pipe_step p OpCloseRead = (pipe_close_read p, [], [])"

lemma pop_slots_within:
  "n \<le> length d \<Longrightarrow> pop_slots n d = Ok (take n d, drop n d)"
  by (induction n d rule: pop_slots.induct) auto

lemma pipe_read_eq:
  "pipe_read p buf =
     Ok (if buf = [] then (p, buf, Read 0)
         else if pipe_data p = [] then (p, buf, if write_closed p then Eof else ReadWouldBlock)
         else let k = min (length buf) (length (pipe_data p)) in
           (p\<lparr>pipe_data := drop k (pipe_data p)\<rparr>, take k (pipe_data p) @ drop k buf, Read k))"
  by (simp add: pipe_read_def pop_slots_within Let_def)

lemma pipe_step_read:
  "pipe_step p (OpRead n) = (p\<lparr>pipe_data := drop n (pipe_data p)\<rparr>, [], take n (pipe_data p))"
  by (auto simp: pipe_read_eq Let_def min_def)

lemma pipe_write_data:
  "pipe_write p buf = (p', r) \<Longrightarrow> pipe_data p' = pipe_data p @ take (accepted_count r) buf"
  by (auto simp: pipe_write_def accepted_count_def Let_def split: if_splits)

lemma pipe_step_conserves:
  "pipe_step p x = (p', a, d) \<Longrightarrow> pipe_data p @ a = d @ pipe_data p'"
proof (cases x)
  case (OpWrite buf)
  assume "pipe_step p x = (p', a, d)"
  with OpWrite show ?thesis by (auto split: prod.splits dest: pipe_write_data)
next
  case (OpRead n)
  assume "pipe_step p x = (p', a, d)"
  with OpRead show ?thesis by (auto simp: pipe_step_read simp del: pipe_step.simps)
qed (auto simp: pipe_defs pipe_len_def Let_def)

interpretation pipe: draining_stream pipe_step pipe_data "OpRead (Suc n)" for n
proof unfold_locales
  show "pipe_data c @ a = d @ pipe_data c'" if "pipe_step c x = (c', a, d)" for c x c' a d
    using that by (rule pipe_step_conserves)
  show "fst (snd (pipe_step c (OpRead (Suc n)))) = []" for c
    by (simp add: pipe_step_read del: pipe_step.simps)
  show "snd (snd (pipe_step c (OpRead (Suc n)))) \<noteq> []" if "pipe_data c \<noteq> []" for c
    using that by (simp add: pipe_step_read del: pipe_step.simps)
qed

section \<open>Bounds\<close>

definition pipe_within :: "nat \<Rightarrow> pipe_buffer \<Rightarrow> bool" where
  "pipe_within cap p \<longleftrightarrow>
     pipe_capacity p = cap \<and> length (pipe_data p) \<le> max cap max_pipe_total"

lemma pipe_write_within: "pipe_within cap p \<Longrightarrow> pipe_within cap (fst (pipe_write p buf))"
  by (auto simp: pipe_within_def pipe_write_def Let_def)

lemma pipe_step_within [inv_intros]:
  "pipe_within cap p \<Longrightarrow> pipe_within cap (fst (pipe_step p x))"
proof (cases x)
  case (OpWrite buf)
  assume "pipe_within cap p"
  then show ?thesis using OpWrite pipe_write_within [of cap p buf] by (auto split: prod.splits)
next
  case (OpRead n)
  assume "pipe_within cap p"
  then show ?thesis
    using OpRead
    by (auto simp: pipe_step_read pipe_within_def intro: diff_le_self le_trans
        simp del: pipe_step.simps)
qed (auto simp: pipe_within_def pipe_defs Let_def)

lemma run_stream_invariant:
  "P c \<Longrightarrow> (\<And>c x. P c \<Longrightarrow> P (fst (step c x))) \<Longrightarrow> P (fst (run_stream step c xs))"
  by (induction xs arbitrary: c) (auto split: prod.splits, metis fst_conv)

section \<open>Properties\<close>

text \<open>
  C16 (pipe streams are FIFO): whatever operations the two stages of a pipeline interleave on
  a fresh pipe, the bytes the writer was told were accepted are exactly the bytes the reader
  received followed by the bytes still buffered: none lost, duplicated or reordered.
\<close>

theorem pipe_stream_fifo:
  "(let (p, accepted, delivered) = run_stream pipe_step (pipe_new capacity) ops
    in accepted = delivered @ pipe_data p)"
proof -
  obtain p acc del where r: "run_stream pipe_step (pipe_new capacity) ops = (p, acc, del)"
    by (cases "run_stream pipe_step (pipe_new capacity) ops") auto
  then show ?thesis
    using pipe.run_conserves [OF r] by (simp add: pipe_new_def)
qed

text \<open>
  A reader drains the pipe and then sees end of stream: once the writer has closed its
  end, as many reads of at least one slot as there are buffered bytes deliver exactly the
  buffered bytes, and the next read reports \<open>Eof\<close>, never \<open>WouldBlock\<close>.
\<close>

theorem pipe_reads_to_eof:
  "\<exists>p'. run_stream pipe_step (pipe_close_write p)
           (replicate (pipe_len p) (OpRead (Suc n))) = (p', [], pipe_data p) \<and>
        pipe_read p' (b # buf) = Ok (p', b # buf, Eof)"
proof -
  let ?q = "pipe_close_write p" and ?xs = "replicate (pipe_len p) (OpRead (Suc n))"
  have len: "length (pipe_data ?q) \<le> pipe_len p"
    by (simp add: pipe_close_write_def pipe_len_def)
  obtain p' where r: "run_stream pipe_step ?q ?xs = (p', [], pipe_data ?q)" "pipe_data p' = []"
    using pipe.pulls_drain [OF len, of n] by auto
  have closed: "write_closed (fst (run_stream pipe_step ?q (replicate k (OpRead (Suc n)))))" for k
  proof -
    have "write_closed q \<Longrightarrow>
      write_closed (fst (run_stream pipe_step q (replicate k (OpRead (Suc n)))))" for q
      by (induction k arbitrary: q)
        (simp_all add: pipe_step_read split_beta del: pipe_step.simps)
    then show ?thesis by (simp add: pipe_close_write_def)
  qed
  have "write_closed p'" using closed [of "pipe_len p"] r by simp
  with r show ?thesis by (auto simp: pipe_read_eq pipe_close_write_def)
qed

text \<open>
  Pipe memory is bounded: no sequence of operations makes a pipe hold more than the
  larger of its capacity and the 64 MiB total that \<open>write_all\<close> enforces.
\<close>

theorem pipe_memory_bounded:
  "length (pipe_data (fst (run_stream pipe_step (pipe_new capacity) ops)))
     \<le> max capacity max_pipe_total"
proof -
  have "pipe_within capacity (fst (run_stream pipe_step (pipe_new capacity) ops))"
    by (rule run_stream_invariant) (simp add: pipe_within_def pipe_new_def, rule pipe_step_within)
  then show ?thesis by (simp add: pipe_within_def)
qed

end
