(* ===== verification/Vfs.thy ===== *)
theory Vfs
  imports Prelude
begin

text \<open>
  The filesystem vocabulary of \<^verbatim>\<open>crates/wasmsh-fs/src/lib.rs\<close>: errors, metadata, open
  options, and \<open>normalize_path\<close>, through which every path enters the virtual filesystem.
  The lemmas characterise the normalised paths (joined lists of clean components) and show
  that normalisation is idempotent and cannot leave the root.
\<close>

unbundle bit_operations_syntax

section \<open>Errors, metadata and options\<close>

datatype fs_error =
    NotFound string
  | AlreadyExists string
  | NotADirectory string
  | IsADirectory string
  | PermissionDenied string
  | NotSupported string
  | Io string

record metadata =
  is_dir :: bool
  is_symlink :: bool
  size_of :: u64
  mode :: u32

text \<open>The octal constants \<open>0o644\<close>, \<open>0o755\<close> and \<open>0o777\<close> in decimal.\<close>

definition default_file_mode :: u32 where "default_file_mode = 420"

definition default_dir_mode :: u32 where "default_dir_mode = 493"

definition mode_perm_mask :: u32 where "mode_perm_mask = 511"

definition is_readable :: "metadata \<Rightarrow> bool" where
  "is_readable m \<longleftrightarrow> mode m AND 256 \<noteq> 0"

definition is_writable :: "metadata \<Rightarrow> bool" where
  "is_writable m \<longleftrightarrow> mode m AND 128 \<noteq> 0"

definition is_executable :: "metadata \<Rightarrow> bool" where
  "is_executable m \<longleftrightarrow> mode m AND 64 \<noteq> 0"

record dir_entry =
  entry_name :: string
  entry_is_dir :: bool
  entry_is_symlink :: bool

record open_options =
  opt_read :: bool
  opt_write :: bool
  opt_append :: bool
  opt_create :: bool
  opt_truncate :: bool

definition open_read :: open_options where
  "open_read = \<lparr>opt_read = True, opt_write = False, opt_append = False,
                opt_create = False, opt_truncate = False\<rparr>"

definition open_write :: open_options where
  "open_write = \<lparr>opt_read = False, opt_write = True, opt_append = False,
                 opt_create = True, opt_truncate = True\<rparr>"

definition open_append :: open_options where
  "open_append = \<lparr>opt_read = False, opt_write = True, opt_append = True,
                  opt_create = True, opt_truncate = False\<rparr>"

type_synonym file_handle = u64

section \<open>Path normalisation\<close>

definition normalize_part :: "string list \<Rightarrow> string \<Rightarrow> string list" where
  "normalize_part components part =
     (if part = '''' \<or> part = ''.'' then components
      else if part = ''..'' then (if components \<noteq> [] then butlast components else components)
      else components @ [part])"

definition normalize_path :: "string \<Rightarrow> string" where
  "normalize_path path =
     (let components = foldl normalize_part [] (split_on (CHR ''/'') path);
          is_absolute = prefix ''/'' path;
          joined = join_with ''/'' components
      in if is_absolute then ''/'' @ joined
         else if joined = '''' then ''.''
         else joined)"

text \<open>A component as it can stand in a normalised path.\<close>

definition clean_component :: "string \<Rightarrow> bool" where
  "clean_component c \<longleftrightarrow> c \<notin> {'''', ''.'', ''..''} \<and> CHR ''/'' \<notin> set c"

definition components_of :: "string \<Rightarrow> string list" where
  "components_of path = foldl normalize_part [] (split_on (CHR ''/'') path)"

lemma normalize_part_clean:
  "list_all clean_component cs \<Longrightarrow> CHR ''/'' \<notin> set part \<Longrightarrow>
   list_all clean_component (normalize_part cs part)"
  by (auto simp: normalize_part_def clean_component_def list_all_iff dest: in_set_butlastD)

lemma foldl_normalize_clean:
  "list_all clean_component cs \<Longrightarrow> (\<And>p. p \<in> set ps \<Longrightarrow> CHR ''/'' \<notin> set p) \<Longrightarrow>
   list_all clean_component (foldl normalize_part cs ps)"
  by (induction ps arbitrary: cs) (simp_all add: normalize_part_clean)

lemma components_clean: "list_all clean_component (components_of path)"
  unfolding components_of_def
  by (rule foldl_normalize_clean) (auto dest: split_on_no_sep)

lemma foldl_normalize_id:
  "list_all clean_component ps \<Longrightarrow> foldl normalize_part cs ps = cs @ ps"
  by (induction ps arbitrary: cs) (simp_all add: normalize_part_def clean_component_def)

lemma join_empty_iff:
  "list_all clean_component cs \<Longrightarrow> join_with ''/'' cs = '''' \<longleftrightarrow> cs = []"
  by (cases "(''/'', cs)" rule: join_with.cases) (auto simp: clean_component_def)

lemma split_join_clean:
  "list_all clean_component cs \<Longrightarrow> cs \<noteq> [] \<Longrightarrow> split_on (CHR ''/'') (join_with ''/'' cs) = cs"
  by (rule split_on_join) (auto simp: list_all_iff clean_component_def)

lemma join_not_absolute:
  "list_all clean_component cs \<Longrightarrow> \<not> prefix ''/'' (join_with ''/'' cs)"
  by (cases "(''/'', cs)" rule: join_with.cases)
    (auto simp: clean_component_def prefix_def append_eq_Cons_conv Cons_eq_append_conv)

lemma normalize_path_eq:
  "normalize_path path =
     (if prefix ''/'' path then ''/'' @ join_with ''/'' (components_of path)
      else if components_of path = [] then ''.''
      else join_with ''/'' (components_of path))"
  using join_empty_iff [OF components_clean, of path]
  by (simp add: normalize_path_def components_of_def Let_def)

lemma components_of_absolute:
  assumes "list_all clean_component cs"
  shows "components_of (''/'' @ join_with ''/'' cs) = cs"
proof (cases "cs = []")
  case True
  then show ?thesis by (simp add: components_of_def normalize_part_def)
next
  case False
  then show ?thesis
    using assms
    by (simp add: components_of_def split_join_clean foldl_normalize_id normalize_part_def)
qed

lemma components_of_relative:
  assumes "list_all clean_component cs"
  shows "components_of (join_with ''/'' cs) = cs"
proof (cases "cs = []")
  case True
  then show ?thesis by (simp add: components_of_def normalize_part_def)
next
  case False
  then show ?thesis
    using assms by (simp add: components_of_def split_join_clean foldl_normalize_id)
qed

lemma normalize_components:
  "components_of (normalize_path path) = components_of path"
proof -
  have dot: "components_of ''.'' = []"
    by (simp add: components_of_def normalize_part_def)
  show ?thesis
    using components_of_absolute [OF components_clean, of path]
      components_of_relative [OF components_clean, of path] dot
    by (simp add: normalize_path_eq)
qed

lemma normalize_absolute_iff: "prefix ''/'' (normalize_path path) \<longleftrightarrow> prefix ''/'' path"
  using join_not_absolute [OF components_clean, of path] by (auto simp: normalize_path_eq)

lemma normalize_path_cong:
  "components_of p = components_of q \<Longrightarrow> prefix ''/'' p = prefix ''/'' q \<Longrightarrow>
   normalize_path p = normalize_path q"
  by (simp add: normalize_path_eq)

lemma normalize_path_idem [simp]: "normalize_path (normalize_path path) = normalize_path path"
  by (rule normalize_path_cong [OF normalize_components normalize_absolute_iff])

text \<open>
  C22 (paths cannot leave the root): normalising an absolute path, whatever dots and slashes
  it has, yields a slash followed by components none of which is empty, a dot, two dots or
  contains a slash; normalising again changes nothing.
\<close>

theorem normalize_path_confined:
  "(\<exists>cs. list_all clean_component cs \<and> normalize_path (''/'' @ path) = ''/'' @ join_with ''/'' cs) \<and>
   normalize_path (normalize_path (''/'' @ path)) = normalize_path (''/'' @ path)"
proof
  show "\<exists>cs. list_all clean_component cs \<and>
      normalize_path (''/'' @ path) = ''/'' @ join_with ''/'' cs"
    using components_clean [of "''/'' @ path"] normalize_path_eq [of "''/'' @ path"] by auto
qed (rule normalize_path_idem)

end
