(* ===== verification/Memfs.thy ===== *)
theory Memfs
  imports Vfs
begin

text \<open>
  The in-memory filesystem of \<^verbatim>\<open>crates/wasmsh-fs/src/memfs.rs\<close>: its state as a record and
  every operation of its \<open>Vfs\<close> implementation by explicit state passing.  An operation
  returns the state beside its result, because a failing operation may have changed the
  state before it failed (\<open>ensure_parents\<close>).  The hash maps are association lists with
  distinct keys; a \<open>Box<dyn Read>\<close> installed by a client is an entry of a reader heap,
  and the \<open>Rc\<close> that shares it is its index.
\<close>

section \<open>State\<close>

definition max_file_size :: nat where "max_file_size = 64 * 1024 * 1024"

definition max_total_bytes :: nat where "max_total_bytes = 256 * 1024 * 1024"

definition max_inodes :: nat where "max_inodes = 100000"

definition max_symlink_depth :: nat where "max_symlink_depth = 40"

datatype fs_node = File bytes | Dir | Symlink string

type_synonym reader_ref = nat

datatype open_file_source = Path string | Virtual reader_ref

record open_file =
  file_source :: open_file_source
  file_opts :: open_options

text \<open>
  A client's reader: the bytes it has yet to deliver, and the I/O error it ends with, if any.
\<close>

record reader =
  pending :: bytes
  failure :: "string option"

record memory_fs =
  nodes :: "(string, fs_node) alist_map"
  modes :: "(string, u32) alist_map"
  virtual_readers :: "(string, reader_ref) alist_map"
  handles :: "(u64, open_file) alist_map"
  next_handle :: u64
  total_bytes :: nat
  reader_heap :: "reader list"

type_synonym 'a fs_result = "memory_fs \<times> ('a, fs_error) result"

definition memfs_new :: memory_fs where
  "memfs_new = \<lparr>nodes = [(''/'', Dir)], modes = [], virtual_readers = [], handles = [],
                next_handle = 1, total_bytes = 0, reader_heap = []\<rparr>"

abbreviation node_at :: "memory_fs \<Rightarrow> string \<Rightarrow> fs_node option" where
  "node_at fs p \<equiv> map_of (nodes fs) p"

abbreviation set_node :: "string \<Rightarrow> fs_node \<Rightarrow> memory_fs \<Rightarrow> memory_fs" where
  "set_node p n fs \<equiv> fs\<lparr>nodes := AList.update p n (nodes fs)\<rparr>"

section \<open>Helpers of the implementation\<close>

definition alloc_handle :: "memory_fs \<Rightarrow> u64 fs_result" where
  "alloc_handle fs =
     (let h = next_handle fs in
      if h = - 1 then (fs, Panic ''file handle counter overflow'')
      else (fs\<lparr>next_handle := h + 1\<rparr>, Ok h))"

fun ensure_parents_loop :: "memory_fs \<Rightarrow> string \<Rightarrow> string list \<Rightarrow> unit fs_result" where
  "ensure_parents_loop fs current [] = (fs, Ok ())"
| "ensure_parents_loop fs current (part # parts) =
     (let current = current @ ''/'' @ part in
      if node_at fs current \<noteq> None then ensure_parents_loop fs current parts
      else if length (nodes fs) \<ge> max_inodes then (fs, Err (Io ''filesystem inode limit exceeded''))
      else ensure_parents_loop (set_node current Dir fs) current parts)"

definition path_parts :: "string \<Rightarrow> string list" where
  "path_parts path = filter (\<lambda>s. s \<noteq> '''') (split_on (CHR ''/'') path)"

definition ensure_parents :: "memory_fs \<Rightarrow> string \<Rightarrow> unit fs_result" where
  "ensure_parents fs path = ensure_parents_loop fs '''' (butlast (path_parts path))"

definition check_inode_room :: "memory_fs \<Rightarrow> (unit, fs_error) result" where
  "check_inode_room fs =
     (if length (nodes fs) \<ge> max_inodes then Err (Io ''filesystem inode limit exceeded'')
      else Ok ())"

definition mode_of :: "memory_fs \<Rightarrow> string \<Rightarrow> bool \<Rightarrow> u32" where
  "mode_of fs path dir =
     (case map_of (modes fs) path of
        Some m \<Rightarrow> m
      | None \<Rightarrow> if dir then default_dir_mode else default_file_mode)"

text \<open>\<open>current.rsplit_once('/').map_or("", |(b, _)| b)\<close>: what precedes the last slash.\<close>

definition before_last_slash :: "string \<Rightarrow> string" where
  "before_last_slash s = rev (tl (dropWhile (\<lambda>c. c \<noteq> CHR ''/'') (rev s)))"

definition link_target :: "string \<Rightarrow> string \<Rightarrow> string" where
  "link_target current target =
     (if prefix ''/'' target then normalize_path target
      else
        let base = before_last_slash current;
            joined = (if base = '''' then ''/'' @ target else base @ ''/'' @ target)
        in normalize_path joined)"

fun resolve_loop :: "nat \<Rightarrow> memory_fs \<Rightarrow> string \<Rightarrow> (string, fs_error) result" where
  "resolve_loop 0 fs current = Err (Io ''too many levels of symbolic links'')"
| "resolve_loop (Suc n) fs current =
     (case node_at fs current of
        Some (Symlink target) \<Rightarrow> resolve_loop n fs (link_target current target)
      | _ \<Rightarrow> Ok current)"

definition resolve_normalized :: "memory_fs \<Rightarrow> string \<Rightarrow> (string, fs_error) result" where
  "resolve_normalized fs norm = resolve_loop max_symlink_depth fs norm"

section \<open>Write sinks\<close>

record write_sink =
  sink_path :: string
  sink_append :: bool

definition write_chunk ::
  "memory_fs \<Rightarrow> write_sink \<Rightarrow> bytes \<Rightarrow> memory_fs \<times> write_sink \<times> (unit, fs_error) result" where
  "write_chunk fs sink data =
     (let total_before = total_bytes fs in
      case node_at fs (sink_path sink) of
        Some (File contents) \<Rightarrow>
          (let old_size = length contents;
               new_size = (if sink_append sink then old_size + length data else length data)
           in
             if new_size > max_file_size then (fs, sink, Err (Io ''file size limit exceeded''))
             else
               let projected_total = total_before - old_size + new_size in
               if projected_total > max_total_bytes
               then (fs, sink, Err (Io ''filesystem quota exceeded''))
               else
                 let contents' = (if sink_append sink then contents @ data else data) in
                 ((set_node (sink_path sink) (File contents') fs)\<lparr>total_bytes := projected_total\<rparr>,
                  sink\<lparr>sink_append := True\<rparr>, Ok ()))
      | _ \<Rightarrow> (fs, sink, Err (NotFound (sink_path sink))))"

section \<open>Opening, reading and writing files\<close>

definition finish_open ::
  "memory_fs \<Rightarrow> open_file_source \<Rightarrow> open_options \<Rightarrow> file_handle fs_result" where
  "finish_open fs source opts =
     (case alloc_handle fs of
        (fs', Ok h) \<Rightarrow>
          (fs'\<lparr>handles := AList.update h \<lparr>file_source = source, file_opts = opts\<rparr> (handles fs')\<rparr>,
           Ok h)
      | (fs', Err e) \<Rightarrow> (fs', Err e)
      | (fs', Panic m) \<Rightarrow> (fs', Panic m))"

definition read_only :: "open_options \<Rightarrow> bool" where
  "read_only opts \<longleftrightarrow>
     opt_read opts \<and> \<not> opt_write opts \<and> \<not> opt_append opts \<and> \<not> opt_create opts
     \<and> \<not> opt_truncate opts"

definition open_file_node ::
  "memory_fs \<Rightarrow> string \<Rightarrow> bytes \<Rightarrow> open_options \<Rightarrow> file_handle fs_result" where
  "open_file_node fs norm contents opts =
     (let m = mode_of fs norm False in
      if opt_read opts \<and> m AND 256 = 0 then (fs, Err (PermissionDenied norm))
      else if (opt_write opts \<or> opt_append opts \<or> opt_truncate opts) \<and> m AND 128 = 0
      then (fs, Err (PermissionDenied norm))
      else if opt_write opts \<and> opt_truncate opts \<and> \<not> opt_append opts
      then finish_open
             ((set_node norm (File []) fs)\<lparr>total_bytes := total_bytes fs - length contents\<rparr>)
             (Path norm) opts
      else finish_open fs (Path norm) opts)"

definition open_missing :: "memory_fs \<Rightarrow> string \<Rightarrow> open_options \<Rightarrow> file_handle fs_result" where
  "open_missing fs norm opts =
     (if opt_create opts then
        (case ensure_parents fs norm of
           (fs1, Err e) \<Rightarrow> (fs1, Err e)
         | (fs1, Panic m) \<Rightarrow> (fs1, Panic m)
         | (fs1, Ok _) \<Rightarrow>
             (case check_inode_room fs1 of
                Err e \<Rightarrow> (fs1, Err e)
              | Panic m \<Rightarrow> (fs1, Panic m)
              | Ok _ \<Rightarrow> finish_open (set_node norm (File []) fs1) (Path norm) opts))
      else (fs, Err (NotFound norm)))"

definition memfs_open :: "memory_fs \<Rightarrow> string \<Rightarrow> open_options \<Rightarrow> file_handle fs_result" where
  "memfs_open fs path opts =
     (case resolve_normalized fs (normalize_path path) of
        Err e \<Rightarrow> (fs, Err e)
      | Panic m \<Rightarrow> (fs, Panic m)
      | Ok norm \<Rightarrow>
          (case (if read_only opts then map_of (virtual_readers fs) norm else None) of
             Some r \<Rightarrow>
               finish_open
                 (fs\<lparr>virtual_readers := AList.delete norm (virtual_readers fs),
                     nodes := AList.delete norm (nodes fs)\<rparr>) (Virtual r) opts
           | None \<Rightarrow>
               (case node_at fs norm of
                  Some Dir \<Rightarrow> (fs, Err (IsADirectory norm))
                | Some (Symlink _) \<Rightarrow> (fs, Err (Io ''too many levels of symbolic links''))
                | Some (File contents) \<Rightarrow> open_file_node fs norm contents opts
                | None \<Rightarrow> open_missing fs norm opts)))"

text \<open>The handle checks that \<open>read_file\<close> and \<open>stream_file\<close> share.\<close>

definition readable_source :: "memory_fs \<Rightarrow> file_handle \<Rightarrow> (open_file_source, fs_error) result" where
  "readable_source fs h =
     (case map_of (handles fs) h of
        None \<Rightarrow> Err (Io ''invalid handle'')
      | Some f \<Rightarrow>
          if \<not> opt_read (file_opts f) then Err (PermissionDenied ''not opened for reading'')
          else Ok (file_source f))"

definition read_to_end :: "memory_fs \<Rightarrow> reader_ref \<Rightarrow> bytes fs_result" where
  "read_to_end fs r =
     (let rd = reader_heap fs ! r;
          fs' = fs\<lparr>reader_heap := (reader_heap fs)[r := rd\<lparr>pending := []\<rparr>]\<rparr>
      in (fs', case failure rd of None \<Rightarrow> Ok (pending rd) | Some e \<Rightarrow> Err (Io e)))"

definition read_file :: "memory_fs \<Rightarrow> file_handle \<Rightarrow> bytes fs_result" where
  "read_file fs h =
     (case readable_source fs h of
        Err e \<Rightarrow> (fs, Err e)
      | Panic m \<Rightarrow> (fs, Panic m)
      | Ok (Path path) \<Rightarrow>
          (case node_at fs path of
             Some (File data) \<Rightarrow> (fs, Ok data)
           | _ \<Rightarrow> (fs, Err (NotFound path)))
      | Ok (Virtual r) \<Rightarrow> read_to_end fs r)"

text \<open>
  A streaming reader is a cursor over a snapshot of the contents, or shares the client's
  reader.
\<close>

datatype file_stream = CursorStream bytes | SharedStream reader_ref

definition stream_file :: "memory_fs \<Rightarrow> file_handle \<Rightarrow> (file_stream, fs_error) result" where
  "stream_file fs h =
     result_bind (readable_source fs h)
       (\<lambda>source. case source of
          Path path \<Rightarrow>
            (case node_at fs path of
               Some (File data) \<Rightarrow> Ok (CursorStream data)
             | _ \<Rightarrow> Err (NotFound path))
        | Virtual r \<Rightarrow> Ok (SharedStream r))"

definition write_file :: "memory_fs \<Rightarrow> file_handle \<Rightarrow> bytes \<Rightarrow> unit fs_result" where
  "write_file fs h data =
     (case map_of (handles fs) h of
        None \<Rightarrow> (fs, Err (Io ''invalid handle''))
      | Some f \<Rightarrow>
          if \<not> opt_write (file_opts f)
          then (fs, Err (PermissionDenied ''not opened for writing''))
          else
            (case file_source f of
               Virtual _ \<Rightarrow> (fs, Err (PermissionDenied ''virtual reader is read-only''))
             | Path path \<Rightarrow>
                 (let (fs', _, r) =
                    write_chunk fs \<lparr>sink_path = path, sink_append = opt_append (file_opts f)\<rparr> data
                  in (fs', r))))"

definition close_handle :: "memory_fs \<Rightarrow> file_handle \<Rightarrow> memory_fs" where
  "close_handle fs h = fs\<lparr>handles := AList.delete h (handles fs)\<rparr>"

definition truncate_for_sink :: "memory_fs \<Rightarrow> string \<Rightarrow> memory_fs" where
  "truncate_for_sink fs norm =
     (set_node norm (File []) fs)
       \<lparr>total_bytes := (case node_at fs norm of
                          Some (File old) \<Rightarrow> total_bytes fs - length old
                        | _ \<Rightarrow> total_bytes fs)\<rparr>"

definition open_write_sink :: "memory_fs \<Rightarrow> string \<Rightarrow> bool \<Rightarrow> write_sink fs_result" where
  "open_write_sink fs path appending =
     (case resolve_normalized fs (normalize_path path) of
        Err e \<Rightarrow> (fs, Err e)
      | Panic m \<Rightarrow> (fs, Panic m)
      | Ok norm \<Rightarrow>
          (let fs1 = fs\<lparr>virtual_readers := AList.delete norm (virtual_readers fs)\<rparr>;
               sink = \<lparr>sink_path = norm, sink_append = appending\<rparr>;
               finish = (\<lambda>fs2. (if appending then fs2 else truncate_for_sink fs2 norm, Ok sink))
           in
             case node_at fs1 norm of
               Some Dir \<Rightarrow> (fs1, Err (IsADirectory norm))
             | Some (Symlink _) \<Rightarrow> (fs1, Err (Io ''too many levels of symbolic links''))
             | Some (File _) \<Rightarrow> finish fs1
             | None \<Rightarrow>
                 (case ensure_parents fs1 norm of
                    (fs2, Err e) \<Rightarrow> (fs2, Err e)
                  | (fs2, Panic m) \<Rightarrow> (fs2, Panic m)
                  | (fs2, Ok _) \<Rightarrow>
                      (case check_inode_room fs2 of
                         Err e \<Rightarrow> (fs2, Err e)
                       | Panic m \<Rightarrow> (fs2, Panic m)
                       | Ok _ \<Rightarrow> finish (set_node norm (File []) fs2)))))"

definition install_stream_reader :: "memory_fs \<Rightarrow> string \<Rightarrow> reader \<Rightarrow> unit fs_result" where
  "install_stream_reader fs path rd =
     (let norm = normalize_path path in
      if node_at fs norm = Some Dir then (fs, Err (IsADirectory norm))
      else
        let pre_exists = (node_at fs norm \<noteq> None) in
        case ensure_parents fs norm of
          (fs1, Err e) \<Rightarrow> (fs1, Err e)
        | (fs1, Panic m) \<Rightarrow> (fs1, Panic m)
        | (fs1, Ok _) \<Rightarrow>
            (case (if pre_exists then Ok () else check_inode_room fs1) of
               Err e \<Rightarrow> (fs1, Err e)
             | Panic m \<Rightarrow> (fs1, Panic m)
             | Ok _ \<Rightarrow>
                 (let fs2 = truncate_for_sink fs1 norm;
                      r = length (reader_heap fs2)
                  in (fs2\<lparr>virtual_readers := AList.update norm r (virtual_readers fs2),
                          reader_heap := reader_heap fs2 @ [rd]\<rparr>, Ok ()))))"

section \<open>Metadata, links and directories\<close>

definition memfs_stat :: "memory_fs \<Rightarrow> string \<Rightarrow> (metadata, fs_error) result" where
  "memfs_stat fs path =
     result_bind (resolve_normalized fs (normalize_path path))
       (\<lambda>resolved. case node_at fs resolved of
          Some (File data) \<Rightarrow>
            Ok \<lparr>is_dir = False, is_symlink = False, size_of = of_nat (length data),
                mode = mode_of fs resolved False\<rparr>
        | Some Dir \<Rightarrow>
            Ok \<lparr>is_dir = True, is_symlink = False, size_of = 0, mode = mode_of fs resolved True\<rparr>
        | _ \<Rightarrow> Err (NotFound resolved))"

definition memfs_lstat :: "memory_fs \<Rightarrow> string \<Rightarrow> (metadata, fs_error) result" where
  "memfs_lstat fs path =
     (let norm = normalize_path path in
      case node_at fs norm of
        Some (File data) \<Rightarrow>
          Ok \<lparr>is_dir = False, is_symlink = False, size_of = of_nat (length data),
              mode = mode_of fs norm False\<rparr>
      | Some Dir \<Rightarrow>
          Ok \<lparr>is_dir = True, is_symlink = False, size_of = 0, mode = mode_of fs norm True\<rparr>
      | Some (Symlink target) \<Rightarrow>
          Ok \<lparr>is_dir = False, is_symlink = True, size_of = of_nat (length target), mode = 511\<rparr>
      | None \<Rightarrow> Err (NotFound norm))"

definition read_link :: "memory_fs \<Rightarrow> string \<Rightarrow> (string, fs_error) result" where
  "read_link fs path =
     (let norm = normalize_path path in
      case node_at fs norm of
        Some (Symlink target) \<Rightarrow> Ok target
      | _ \<Rightarrow> Err (NotFound norm))"

fun symlink_parents :: "memory_fs \<Rightarrow> string \<Rightarrow> string list \<Rightarrow> unit fs_result" where
  "symlink_parents fs parent [] = (fs, Ok ())"
| "symlink_parents fs parent (part # parts) =
     (let parent = parent @ ''/'' @ part in
      case node_at fs parent of
        Some Dir \<Rightarrow> symlink_parents fs parent parts
      | Some _ \<Rightarrow> (fs, Err (NotADirectory parent))
      | None \<Rightarrow>
          (case check_inode_room fs of
             Err e \<Rightarrow> (fs, Err e)
           | Panic m \<Rightarrow> (fs, Panic m)
           | Ok _ \<Rightarrow> symlink_parents (set_node parent Dir fs) parent parts))"

definition memfs_symlink :: "memory_fs \<Rightarrow> string \<Rightarrow> string \<Rightarrow> unit fs_result" where
  "memfs_symlink fs target link_path =
     (let norm = normalize_path link_path in
      if node_at fs norm \<noteq> None then (fs, Err (AlreadyExists norm))
      else
        case symlink_parents fs '''' (butlast (path_parts norm)) of
          (fs1, Err e) \<Rightarrow> (fs1, Err e)
        | (fs1, Panic m) \<Rightarrow> (fs1, Panic m)
        | (fs1, Ok _) \<Rightarrow>
            (case check_inode_room fs1 of
               Err e \<Rightarrow> (fs1, Err e)
             | Panic m \<Rightarrow> (fs1, Panic m)
             | Ok _ \<Rightarrow> (set_node norm (Symlink target) fs1, Ok ())))"

definition dir_prefix :: "string \<Rightarrow> string" where
  "dir_prefix norm = (if norm = ''/'' then ''/'' else norm @ ''/'')"

definition child_entry :: "memory_fs \<Rightarrow> string \<Rightarrow> string \<times> fs_node \<Rightarrow> dir_entry list" where
  "child_entry fs pre = (\<lambda>(k, v).
     case strip_prefix pre k of
       None \<Rightarrow> []
     | Some rest \<Rightarrow>
         if CHR ''/'' \<notin> set rest \<and> rest \<noteq> '''' then
           (let (d, l) =
              (case v of
                 Dir \<Rightarrow> (True, False)
               | Symlink _ \<Rightarrow>
                   ((case resolve_normalized fs k of
                       Ok t \<Rightarrow> node_at fs t = Some Dir
                     | _ \<Rightarrow> False), True)
               | File _ \<Rightarrow> (False, False))
            in [\<lparr>entry_name = rest, entry_is_dir = d, entry_is_symlink = l\<rparr>])
         else [])"

definition read_dir :: "memory_fs \<Rightarrow> string \<Rightarrow> (dir_entry list, fs_error) result" where
  "read_dir fs path =
     result_bind (resolve_normalized fs (normalize_path path))
       (\<lambda>norm. case node_at fs norm of
          Some Dir \<Rightarrow>
            Ok (sort_key entry_name (concat (map (child_entry fs (dir_prefix norm)) (nodes fs))))
        | Some (File _) \<Rightarrow> Err (NotADirectory norm)
        | _ \<Rightarrow> Err (NotFound norm))"

definition create_dir :: "memory_fs \<Rightarrow> string \<Rightarrow> unit fs_result" where
  "create_dir fs path =
     (let norm = normalize_path path in
      if node_at fs norm \<noteq> None then (fs, Err (AlreadyExists norm))
      else
        case ensure_parents fs norm of
          (fs1, Err e) \<Rightarrow> (fs1, Err e)
        | (fs1, Panic m) \<Rightarrow> (fs1, Panic m)
        | (fs1, Ok _) \<Rightarrow>
            (case check_inode_room fs1 of
               Err e \<Rightarrow> (fs1, Err e)
             | Panic m \<Rightarrow> (fs1, Panic m)
             | Ok _ \<Rightarrow> (set_node norm Dir fs1, Ok ())))"

definition is_link_at :: "memory_fs \<Rightarrow> string \<Rightarrow> bool" where
  "is_link_at fs p = (case node_at fs p of Some (Symlink _) \<Rightarrow> True | _ \<Rightarrow> False)"

definition remove_file :: "memory_fs \<Rightarrow> string \<Rightarrow> unit fs_result" where
  "remove_file fs path =
     (let norm = normalize_path path in
      if is_link_at fs norm
      then (fs\<lparr>nodes := AList.delete norm (nodes fs), modes := AList.delete norm (modes fs)\<rparr>, Ok ())
      else
        case resolve_normalized fs norm of
          Err e \<Rightarrow> (fs, Err e)
        | Panic m \<Rightarrow> (fs, Panic m)
        | Ok resolved \<Rightarrow>
            (case node_at fs resolved of
               Some Dir \<Rightarrow> (fs, Err (IsADirectory resolved))
             | Some (File contents) \<Rightarrow>
                 (fs\<lparr>nodes := AList.delete resolved (nodes fs),
                     modes := AList.delete resolved (modes fs),
                     virtual_readers := AList.delete resolved (virtual_readers fs),
                     total_bytes := total_bytes fs - length contents\<rparr>, Ok ())
             | _ \<Rightarrow> (fs, Err (NotFound norm))))"

definition remove_dir :: "memory_fs \<Rightarrow> string \<Rightarrow> unit fs_result" where
  "remove_dir fs path =
     (let norm = normalize_path path in
      case node_at fs norm of
        None \<Rightarrow> (fs, Err (NotFound norm))
      | Some Dir \<Rightarrow>
          if list_ex (\<lambda>k. prefix (dir_prefix norm) k) (map fst (nodes fs))
          then (fs, Err (Io (''directory not empty: '' @ norm)))
          else (fs\<lparr>nodes := AList.delete norm (nodes fs), modes := AList.delete norm (modes fs)\<rparr>, Ok ())
      | Some _ \<Rightarrow> (fs, Err (NotADirectory norm)))"

definition set_mode :: "memory_fs \<Rightarrow> string \<Rightarrow> u32 \<Rightarrow> unit fs_result" where
  "set_mode fs path m =
     (let norm = normalize_path path in
      if node_at fs norm = None then (fs, Err (NotFound norm))
      else (fs\<lparr>modes := AList.update norm (m AND mode_perm_mask) (modes fs)\<rparr>, Ok ()))"

end
