(* ===== verification/Memfs_Inv.thy ===== *)
theory Memfs_Inv
  imports Memfs
begin

text \<open>
  The well-formedness invariant of the in-memory filesystem and its preservation by every
  operation: the root directory exists, the inode limit, the file size limit and the total
  quota hold, the byte counter never undercounts the bytes stored, handles are never reused,
  and every handle or path that refers to a client's reader refers to a live one.
\<close>

section \<open>The invariant\<close>

fun node_bytes :: "fs_node \<Rightarrow> nat" where
  "node_bytes (File d) = length d"
| "node_bytes Dir = 0"
| "node_bytes (Symlink t) = 0"

definition store_ok :: "(string, fs_node) alist_map \<Rightarrow> nat \<Rightarrow> bool" where
  "store_ok ns t \<longleftrightarrow>
     keys_distinct ns \<and> map_of ns ''/'' = Some Dir \<and> length ns \<le> max_inodes \<and>
     weight node_bytes ns \<le> t \<and> t \<le> max_total_bytes \<and>
     (\<forall>p d. map_of ns p = Some (File d) \<longrightarrow> length d \<le> max_file_size)"

fun source_ok :: "nat \<Rightarrow> open_file_source \<Rightarrow> bool" where
  "source_ok n (Path p) = True"
| "source_ok n (Virtual r) = (r < n)"

definition tables_ok ::
  "(string, reader_ref) alist_map \<Rightarrow> (u64, open_file) alist_map \<Rightarrow> u64 \<Rightarrow> nat \<Rightarrow> bool" where
  "tables_ok vr hs nh n \<longleftrightarrow>
     map_of vr ''/'' = None \<and> (\<forall>p r. map_of vr p = Some r \<longrightarrow> r < n) \<and>
     (\<forall>h f. map_of hs h = Some f \<longrightarrow> h < nh \<and> source_ok n (file_source f))"

definition fs_inv :: "memory_fs \<Rightarrow> bool" where
  "fs_inv fs \<longleftrightarrow>
     store_ok (nodes fs) (total_bytes fs) \<and>
     tables_ok (virtual_readers fs) (handles fs) (next_handle fs) (length (reader_heap fs))"

section \<open>Updates of the node table\<close>

text \<open>Setting a path other than the root to a node without bytes.\<close>

lemma store_set_empty:
  assumes "store_ok ns t" "p \<noteq> ''/''" "node_bytes n = 0"
    "length ns < max_inodes \<or> map_of ns p \<noteq> None"
  shows "store_ok (AList.update p n ns) t"
proof -
  have "length d = 0" if "n = File d" for d
    using that assms(3) by simp
  moreover have "weight node_bytes (AList.update p n ns) \<le> weight node_bytes ns"
    using assms(3) by (rule weight_update_zero)
  moreover have "length (AList.update p n ns) \<le> max_inodes"
    using assms(1,4) by (cases "map_of ns p") (auto simp: alist_simps store_ok_def)
  ultimately show ?thesis
    using assms by (auto simp: store_ok_def alist_simps split: if_splits)
qed

lemma store_write:
  assumes "store_ok ns t" "map_of ns p = Some (File c)" "length d \<le> max_file_size"
    "t - length c + length d \<le> max_total_bytes"
  shows "store_ok (AList.update p (File d) ns) (t - length c + length d)"
proof -
  have "weight node_bytes (AList.update p (File d) ns) + length c
      = weight node_bytes ns + length d"
    using weight_update_old [OF assms(2), of node_bytes "File d"] by simp
  moreover have "length c \<le> weight node_bytes ns"
    using weight_lookup_le [OF assms(2), of node_bytes] by simp
  moreover have "p \<noteq> ''/''"
    using assms(1,2) by (auto simp: store_ok_def)
  ultimately show ?thesis
    using assms by (auto simp: store_ok_def alist_simps split: if_splits)
qed

lemma store_truncate:
  assumes "store_ok ns t" "map_of ns p = Some (File c)"
  shows "store_ok (AList.update p (File []) ns) (t - length c)"
proof -
  have "t - length c \<le> max_total_bytes"
    using assms(1) diff_le_self [of t "length c"] unfolding store_ok_def by linarith
  then show ?thesis
    using store_write [OF assms, of "[]"] by simp
qed

lemma store_delete:
  assumes "store_ok ns t" "p \<noteq> ''/''"
  shows "store_ok (AList.delete p ns) t"
proof -
  have "weight node_bytes (AList.delete p ns) \<le> weight node_bytes ns"
    using assms(1) weight_delete_old [of ns p _ node_bytes]
    by (cases "map_of ns p") (auto simp: store_ok_def weight_delete_absent intro: le_add1)
  then show ?thesis
    using assms length_delete_bound [of p ns]
    by (auto simp: store_ok_def alist_simps split: if_splits)
qed

lemma store_delete_file:
  assumes "store_ok ns t" "map_of ns p = Some (File c)"
  shows "store_ok (AList.delete p ns) (t - length c)"
proof -
  have "weight node_bytes (AList.delete p ns) + length c = weight node_bytes ns"
    using weight_delete_old [of ns p "File c" node_bytes] assms by (simp add: store_ok_def)
  moreover have "p \<noteq> ''/''"
    using assms by (auto simp: store_ok_def)
  ultimately show ?thesis
    using assms length_delete_bound [of p ns]
    by (auto simp: store_ok_def alist_simps split: if_splits)
qed

lemma store_root: "store_ok ns t \<Longrightarrow> map_of ns p \<noteq> Some Dir \<Longrightarrow> p \<noteq> ''/''"
  by (auto simp: store_ok_def)

section \<open>Helpers of the implementation\<close>

lemma check_inode_room_iff: "check_inode_room fs = Ok u \<longleftrightarrow> length (nodes fs) < max_inodes"
  by (auto simp: check_inode_room_def)

lemma check_inode_room_not_Panic [simp]: "check_inode_room fs \<noteq> Panic m"
  by (simp add: check_inode_room_def)

text \<open>
  The two parent loops only add directories: every other field is unchanged, present nodes
  stay, and the invariant is kept whether they succeed or stop at the inode limit.
\<close>

definition adds_dirs :: "memory_fs \<Rightarrow> memory_fs \<Rightarrow> bool" where
  "adds_dirs fs fs' \<longleftrightarrow>
     fs' = fs\<lparr>nodes := nodes fs'\<rparr> \<and>
     (\<forall>p n. node_at fs p = Some n \<longrightarrow> node_at fs' p = Some n) \<and>
     (\<forall>p. node_at fs p = None \<longrightarrow> node_at fs' p \<in> {None, Some Dir}) \<and>
     (\<forall>t. store_ok (nodes fs) t \<longrightarrow> store_ok (nodes fs') t)"

lemma adds_dirs_old: "adds_dirs fs fs' \<Longrightarrow> node_at fs p = Some n \<Longrightarrow> node_at fs' p = Some n"
  unfolding adds_dirs_def by blast

lemma adds_dirs_fresh:
  "adds_dirs fs fs' \<Longrightarrow> node_at fs p = None \<Longrightarrow> node_at fs' p = None \<or> node_at fs' p = Some Dir"
  unfolding adds_dirs_def by blast

lemma adds_dirs_frame:
  assumes "adds_dirs fs fs'"
  shows "virtual_readers fs' = virtual_readers fs" "handles fs' = handles fs"
    "next_handle fs' = next_handle fs" "total_bytes fs' = total_bytes fs" "modes fs' = modes fs"
    "reader_heap fs' = reader_heap fs"
proof -
  have "fs' = fs\<lparr>nodes := nodes fs'\<rparr>" using assms by (simp add: adds_dirs_def)
  then obtain ns where "fs' = fs\<lparr>nodes := ns\<rparr>" ..
  then show "virtual_readers fs' = virtual_readers fs" "handles fs' = handles fs"
    "next_handle fs' = next_handle fs" "total_bytes fs' = total_bytes fs" "modes fs' = modes fs"
    "reader_heap fs' = reader_heap fs"
    by simp_all
qed

lemma adds_dirs_refl [simp]: "adds_dirs fs fs"
  by (simp add: adds_dirs_def)

lemma adds_dirs_trans: "adds_dirs a b \<Longrightarrow> adds_dirs b c \<Longrightarrow> adds_dirs a c"
  unfolding adds_dirs_def
  by (intro conjI allI impI)
    (simp_all, metis memory_fs.update_convs(1) memory_fs.surjective, metis insertE singletonD)

lemma adds_dirs_new:
  "node_at fs p = None \<Longrightarrow> length (nodes fs) < max_inodes \<Longrightarrow> adds_dirs fs (set_node p Dir fs)"
  by (auto simp: adds_dirs_def alist_simps store_ok_def [of "nodes fs"] intro!: store_set_empty)

lemma adds_dirs_inv: "adds_dirs fs fs' \<Longrightarrow> fs_inv fs \<Longrightarrow> fs_inv fs'"
  using adds_dirs_frame [of fs fs'] by (simp add: adds_dirs_def fs_inv_def)

lemma ensure_parents_loop_adds: "adds_dirs fs (fst (ensure_parents_loop fs cur parts))"
proof (induction fs cur parts rule: ensure_parents_loop.induct)
  case (2 fs cur part parts)
  let ?cur = "cur @ ''/'' @ part"
  show ?case
  proof (cases "node_at fs ?cur = None \<and> length (nodes fs) < max_inodes")
    case True
    then have "adds_dirs fs (set_node ?cur Dir fs)"
      by (intro adds_dirs_new) auto
    moreover have "adds_dirs (set_node ?cur Dir fs)
        (fst (ensure_parents_loop (set_node ?cur Dir fs) ?cur parts))"
      using "2.IH"(2) [OF refl] True by simp
    ultimately show ?thesis
      using True adds_dirs_trans by (simp add: Let_def)
  next
    case False
    then show ?thesis
      using "2.IH"(1) [OF refl] by (auto simp: Let_def not_less)
  qed
qed simp

lemma ensure_parents_adds:
  "ensure_parents fs p = (fs', r) \<Longrightarrow> adds_dirs fs fs'"
  using ensure_parents_loop_adds [of fs "''''" "butlast (path_parts p)"]
  by (simp add: ensure_parents_def)

lemma ensure_parents_not_Panic: "ensure_parents fs p \<noteq> (fs', Panic m)"
proof -
  have "snd (ensure_parents_loop fs cur parts) \<noteq> Panic m" for fs cur parts
    by (induction fs cur parts rule: ensure_parents_loop.induct) (auto simp: Let_def)
  then show ?thesis
    unfolding ensure_parents_def by (metis snd_conv)
qed

lemma symlink_parents_adds: "adds_dirs fs (fst (symlink_parents fs parent parts))"
proof (induction fs parent parts rule: symlink_parents.induct)
  case (2 fs parent part parts)
  let ?p = "parent @ ''/'' @ part"
  show ?case
  proof (cases "node_at fs ?p")
    case None
    show ?thesis
    proof (cases "length (nodes fs) < max_inodes")
      case True
      then have "adds_dirs fs (set_node ?p Dir fs)"
        using None by (intro adds_dirs_new) auto
      moreover have "adds_dirs (set_node ?p Dir fs)
          (fst (symlink_parents (set_node ?p Dir fs) ?p parts))"
        using "2.IH"(1) [OF refl None] True by (simp add: check_inode_room_iff)
      ultimately show ?thesis
        using None True adds_dirs_trans by (auto simp: Let_def check_inode_room_def)
    next
      case False
      then show ?thesis using None by (simp add: Let_def check_inode_room_def)
    qed
  next
    case (Some n)
    then show ?thesis
      using "2.IH"(2) [OF refl Some] by (cases n) (auto simp: Let_def)
  qed
qed simp

section \<open>Every operation keeps the invariant\<close>

lemma tables_open:
  "tables_ok vr hs nh n \<Longrightarrow> nh \<noteq> - 1 \<Longrightarrow> source_ok n s \<Longrightarrow>
   tables_ok vr (AList.update nh \<lparr>file_source = s, file_opts = opts\<rparr> hs) (nh + 1) n"
proof -
  assume *: "tables_ok vr hs nh n" "nh \<noteq> - 1" "source_ok n s"
  then show ?thesis
    by (auto simp: tables_ok_def alist_simps word_less_succ less_imp_le)
qed

lemma finish_open_inv:
  "fs_inv fs \<Longrightarrow> source_ok (length (reader_heap fs)) s \<Longrightarrow> fs_inv (fst (finish_open fs s opts))"
  by (auto simp: fs_inv_def finish_open_def alloc_handle_def Let_def intro: tables_open)

text \<open>
  The common tail of the creating operations: parents, room for one more inode, then an
  empty node at a path that did not exist.
\<close>

lemma create_node_inv:
  assumes "fs_inv fs" "node_at fs p = None" "adds_dirs fs fs1" "check_inode_room fs1 = Ok u"
    "node_bytes n = 0"
  shows "fs_inv (set_node p n fs1)"
proof -
  have "fs_inv fs1" using assms(3,1) by (rule adds_dirs_inv)
  moreover have "p \<noteq> ''/''" using assms(1,2) by (auto simp: fs_inv_def store_ok_def)
  ultimately show ?thesis
    using assms(4,5) by (auto simp: fs_inv_def check_inode_room_iff intro!: store_set_empty)
qed

lemma open_missing_inv:
  assumes "fs_inv fs" "node_at fs p = None"
  shows "fs_inv (fst (open_missing fs p opts))"
proof -
  obtain fs1 r where e: "ensure_parents fs p = (fs1, r)" by (cases "ensure_parents fs p")
  then have a: "adds_dirs fs fs1" by (rule ensure_parents_adds)
  then have "fs_inv fs1" using assms(1) by (rule adds_dirs_inv)
  moreover have "fs_inv (fst (finish_open (set_node p (File []) fs1) (Path p) opts))"
    if "check_inode_room fs1 = Ok u" for u
    using create_node_inv [OF assms a that, of "File []"] by (intro finish_open_inv) auto
  ultimately show ?thesis
    using assms(1) e by (auto simp: open_missing_def split: result.splits)
qed

lemma fs_inv_truncate:
  "fs_inv fs \<Longrightarrow> node_at fs p = Some (File c) \<Longrightarrow>
   fs_inv ((set_node p (File []) fs)\<lparr>total_bytes := total_bytes fs - length c\<rparr>)"
  by (simp add: fs_inv_def store_truncate)

lemma fs_inv_consume_reader:
  assumes "fs_inv fs" "map_of (virtual_readers fs) p = Some r"
  shows "fs_inv (fs\<lparr>virtual_readers := AList.delete p (virtual_readers fs),
                    nodes := AList.delete p (nodes fs)\<rparr>)"
    and "r < length (reader_heap fs)"
proof -
  have "p \<noteq> ''/''" using assms by (auto simp: fs_inv_def tables_ok_def)
  then show "fs_inv (fs\<lparr>virtual_readers := AList.delete p (virtual_readers fs),
                    nodes := AList.delete p (nodes fs)\<rparr>)"
    using assms(1) by (auto simp: fs_inv_def tables_ok_def alist_simps intro: store_delete)
  show "r < length (reader_heap fs)"
    using assms by (auto simp: fs_inv_def tables_ok_def)
qed

lemma memfs_open_inv [inv_intros]:
  assumes "fs_inv fs"
  shows "fs_inv (fst (memfs_open fs path opts))"
proof (cases "resolve_normalized fs (normalize_path path)")
  case (Ok norm)
  show ?thesis
  proof (cases "if read_only opts then map_of (virtual_readers fs) norm else None")
    case None
    have "fs_inv (fst (open_file_node fs norm c opts))" if "node_at fs norm = Some (File c)" for c
      using assms fs_inv_truncate [OF assms that]
      by (auto simp: open_file_node_def Let_def intro!: finish_open_inv)
    then show ?thesis
      using assms Ok None open_missing_inv [OF assms, of norm opts]
      by (auto simp: memfs_open_def split: option.splits fs_node.splits)
  next
    case (Some r)
    then have "map_of (virtual_readers fs) norm = Some r" by (simp split: if_splits)
    from fs_inv_consume_reader [OF assms this] show ?thesis
      using Ok Some by (auto simp: memfs_open_def intro!: finish_open_inv)
  qed
qed (use assms in \<open>auto simp: memfs_open_def\<close>)

lemma read_file_inv [inv_intros]: "fs_inv fs \<Longrightarrow> fs_inv (fst (read_file fs h))"
  by (auto simp: read_file_def read_to_end_def Let_def fs_inv_def
      split: result.splits open_file_source.splits option.splits fs_node.splits)

lemma write_chunk_inv [inv_intros]:
  assumes "fs_inv fs"
  shows "fs_inv (fst (write_chunk fs sink d))"
proof (cases "\<exists>c. node_at fs (sink_path sink) = Some (File c)")
  case True
  then obtain c where c: "node_at fs (sink_path sink) = Some (File c)" by blast
  let ?new = "if sink_append sink then c @ d else d"
  have "store_ok (AList.update (sink_path sink) (File ?new) (nodes fs))
      (total_bytes fs - length c + length ?new)"
    if "length ?new \<le> max_file_size" "total_bytes fs - length c + length ?new \<le> max_total_bytes"
    using assms c that by (intro store_write) (auto simp: fs_inv_def)
  then show ?thesis
    using assms c by (auto simp: write_chunk_def Let_def fs_inv_def not_less split: if_splits)
next
  case False
  then show ?thesis
    using assms by (auto simp: write_chunk_def split: option.splits fs_node.splits)
qed

lemma write_file_inv [inv_intros]: "fs_inv fs \<Longrightarrow> fs_inv (fst (write_file fs h d))"
  using write_chunk_inv [of fs]
  by (auto simp: write_file_def Let_def split: option.splits open_file_source.splits prod.splits)
    (metis fst_conv)

lemma close_handle_inv [inv_intros]: "fs_inv fs \<Longrightarrow> fs_inv (close_handle fs h)"
  by (auto simp: fs_inv_def tables_ok_def close_handle_def alist_simps)

lemma truncate_for_sink_inv:
  assumes "fs_inv fs" "p \<noteq> ''/''" "length (nodes fs) < max_inodes \<or> node_at fs p \<noteq> None"
  shows "fs_inv (truncate_for_sink fs p)"
proof -
  have "store_ok (AList.update p (File []) (nodes fs)) (total_bytes fs)"
    using assms by (intro store_set_empty) (auto simp: fs_inv_def)
  then show ?thesis
    using assms fs_inv_truncate [OF assms(1), of p]
    by (auto simp: truncate_for_sink_def fs_inv_def split: option.splits fs_node.splits)
qed

lemma fs_inv_root: "fs_inv fs \<Longrightarrow> node_at fs p \<noteq> Some Dir \<Longrightarrow> p \<noteq> ''/''"
  by (auto simp: fs_inv_def store_ok_def)

lemma source_ok_mono: "source_ok n s \<Longrightarrow> n \<le> m \<Longrightarrow> source_ok m s"
  by (cases s) auto

lemma fs_inv_install:
  assumes "fs_inv fs" "p \<noteq> ''/''"
  shows "fs_inv (fs\<lparr>virtual_readers := AList.update p (length (reader_heap fs)) (virtual_readers fs),
                    reader_heap := reader_heap fs @ [rd]\<rparr>)"
  using assms
  by (fastforce simp: fs_inv_def tables_ok_def alist_simps less_SucI
      intro: source_ok_mono split: if_splits)

lemma open_write_sink_inv [inv_intros]:
  assumes "fs_inv fs"
  shows "fs_inv (fst (open_write_sink fs path a))"
proof (cases "resolve_normalized fs (normalize_path path)")
  case (Ok norm)
  define fs1 where "fs1 = fs\<lparr>virtual_readers := AList.delete norm (virtual_readers fs)\<rparr>"
  have inv1: "fs_inv fs1"
    using assms by (auto simp: fs1_def fs_inv_def tables_ok_def alist_simps)
  show ?thesis
  proof (cases "node_at fs1 norm")
    case None
    obtain fs2 r where e: "ensure_parents fs1 norm = (fs2, r)"
      by (cases "ensure_parents fs1 norm")
    then have d: "adds_dirs fs1 fs2" by (rule ensure_parents_adds)
    have "fs_inv (set_node norm (File []) fs2) \<and>
        fs_inv (truncate_for_sink (set_node norm (File []) fs2) norm)"
      if "check_inode_room fs2 = Ok u" for u
      using create_node_inv [OF inv1 None d that, of "File []"] fs_inv_root [OF inv1, of norm] None
      by (auto simp: alist_simps intro!: truncate_for_sink_inv)
    moreover have "fs_inv fs2" using d inv1 by (rule adds_dirs_inv)
    ultimately show ?thesis
      using Ok None e
      by (auto simp: open_write_sink_def Let_def simp flip: fs1_def split: result.splits)
  next
    case (Some n)
    have "fs_inv (truncate_for_sink fs1 norm)" if "n \<noteq> Dir"
      using inv1 Some that fs_inv_root [OF inv1, of norm] by (intro truncate_for_sink_inv) auto
    then show ?thesis
      using Ok Some inv1
      by (auto simp: open_write_sink_def Let_def simp flip: fs1_def split: fs_node.splits)
  qed
qed (use assms in \<open>auto simp: open_write_sink_def\<close>)

lemma install_stream_reader_inv [inv_intros]:
  assumes "fs_inv fs"
  shows "fs_inv (fst (install_stream_reader fs path rd))"
proof (cases "node_at fs (normalize_path path) = Some Dir")
  case False
  define p where "p = normalize_path path"
  have root: "p \<noteq> ''/''" using fs_inv_root [OF assms] False by (simp add: p_def)
  obtain fs1 r where e: "ensure_parents fs p = (fs1, r)" by (cases "ensure_parents fs p")
  then have d: "adds_dirs fs fs1" by (rule ensure_parents_adds)
  then have inv1: "fs_inv fs1" using assms by (rule adds_dirs_inv)
  have "node_at fs1 p \<noteq> None" if "node_at fs p \<noteq> None"
    using d that by (auto simp: adds_dirs_def)
  then have "fs_inv (truncate_for_sink fs1 p)"
    if "node_at fs p \<noteq> None \<or> check_inode_room fs1 = Ok u" for u
    using that inv1 root by (intro truncate_for_sink_inv) (auto simp: check_inode_room_iff)
  then have "fs_inv (let fs2 = truncate_for_sink fs1 p in
      fs2\<lparr>virtual_readers := AList.update p (length (reader_heap fs2)) (virtual_readers fs2),
          reader_heap := reader_heap fs2 @ [rd]\<rparr>)"
    if "node_at fs p \<noteq> None \<or> check_inode_room fs1 = Ok u" for u
    unfolding Let_def using that root by (intro fs_inv_install) auto
  then show ?thesis
    using False e inv1
    by (auto simp: install_stream_reader_def Let_def p_def [symmetric] split: result.splits)
qed (use assms in \<open>auto simp: install_stream_reader_def Let_def\<close>)

lemma memfs_symlink_inv [inv_intros]:
  assumes "fs_inv fs"
  shows "fs_inv (fst (memfs_symlink fs target path))"
proof (cases "node_at fs (normalize_path path)")
  case None
  define p where "p = normalize_path path"
  obtain fs1 r where e: "symlink_parents fs '''' (butlast (path_parts p)) = (fs1, r)"
    by (cases "symlink_parents fs '''' (butlast (path_parts p))")
  then have d: "adds_dirs fs fs1"
    using symlink_parents_adds [of fs "''''" "butlast (path_parts p)"] by simp
  then have "fs_inv fs1" using assms by (rule adds_dirs_inv)
  then show ?thesis
    using None e create_node_inv [OF assms _ d, of p _ "Symlink target"]
    by (auto simp: memfs_symlink_def Let_def p_def [symmetric] split: result.splits)
qed (use assms in \<open>auto simp: memfs_symlink_def Let_def\<close>)

lemma create_dir_inv [inv_intros]:
  assumes "fs_inv fs"
  shows "fs_inv (fst (create_dir fs path))"
proof (cases "node_at fs (normalize_path path)")
  case None
  define p where "p = normalize_path path"
  obtain fs1 r where e: "ensure_parents fs p = (fs1, r)" by (cases "ensure_parents fs p")
  then have d: "adds_dirs fs fs1" by (rule ensure_parents_adds)
  then have "fs_inv fs1" using assms by (rule adds_dirs_inv)
  then show ?thesis
    using None e create_node_inv [OF assms _ d, of p _ Dir]
    by (auto simp: create_dir_def Let_def p_def [symmetric] split: result.splits)
qed (use assms in \<open>auto simp: create_dir_def Let_def\<close>)

lemma remove_file_inv [inv_intros]:
  assumes "fs_inv fs"
  shows "fs_inv (fst (remove_file fs path))"
proof -
  have "fs_inv (fs\<lparr>nodes := AList.delete p (nodes fs), modes := ms\<rparr>)" if "is_link_at fs p" for p ms
    using assms that fs_inv_root [OF assms, of p]
    by (auto simp: fs_inv_def is_link_at_def intro!: store_delete
        split: option.splits fs_node.splits)
  moreover have "fs_inv (fs\<lparr>nodes := AList.delete p (nodes fs), modes := ms,
      virtual_readers := AList.delete p (virtual_readers fs),
      total_bytes := total_bytes fs - length c\<rparr>)" if "node_at fs p = Some (File c)" for p ms c
    using assms that
    by (auto simp: fs_inv_def tables_ok_def alist_simps intro: store_delete_file)
  ultimately show ?thesis
    using assms
    by (auto simp: remove_file_def Let_def split: result.splits option.splits fs_node.splits)
qed

lemma remove_dir_inv [inv_intros]:
  assumes "fs_inv fs"
  shows "fs_inv (fst (remove_dir fs path))"
proof -
  have "list_ex (prefix (dir_prefix ''/'')) (map fst (nodes fs))"
    using assms by (force simp: fs_inv_def store_ok_def dir_prefix_def list_ex_iff
        dest: map_of_SomeD)
  then have "fs_inv (fs\<lparr>nodes := AList.delete p (nodes fs), modes := ms\<rparr>)"
    if "\<not> list_ex (prefix (dir_prefix p)) (map fst (nodes fs))" for p ms
    using assms that by (auto simp: fs_inv_def intro!: store_delete)
  then show ?thesis
    using assms by (auto simp: remove_dir_def Let_def split: option.splits fs_node.splits)
qed

lemma set_mode_inv [inv_intros]: "fs_inv fs \<Longrightarrow> fs_inv (fst (set_mode fs path m))"
  by (auto simp: set_mode_def Let_def fs_inv_def)

section \<open>Reachable filesystems\<close>

text \<open>
  The operations of the \<open>Vfs\<close> interface that change state, and the states a client can
  reach with them from a new filesystem.
\<close>

datatype fs_op =
    OpOpen string open_options
  | OpReadFile file_handle
  | OpWriteFile file_handle bytes
  | OpClose file_handle
  | OpOpenSink string bool
  | OpSinkWrite write_sink bytes
  | OpInstall string reader
  | OpSymlink string string
  | OpCreateDir string
  | OpRemoveFile string
  | OpRemoveDir string
  | OpSetMode string u32

fun fs_step :: "memory_fs \<Rightarrow> fs_op \<Rightarrow> memory_fs" where
  "fs_step fs (OpOpen p opts) = fst (memfs_open fs p opts)"
| "fs_step fs (OpReadFile h) = fst (read_file fs h)"
| "fs_step fs (OpWriteFile h d) = fst (write_file fs h d)"
| "fs_step fs (OpClose h) = close_handle fs h"
| "fs_step fs (OpOpenSink p a) = fst (open_write_sink fs p a)"
| "fs_step fs (OpSinkWrite s d) = fst (write_chunk fs s d)"
| "fs_step fs (OpInstall p rd) = fst (install_stream_reader fs p rd)"
| "fs_step fs (OpSymlink t p) = fst (memfs_symlink fs t p)"
| "fs_step fs (OpCreateDir p) = fst (create_dir fs p)"
| "fs_step fs (OpRemoveFile p) = fst (remove_file fs p)"
| "fs_step fs (OpRemoveDir p) = fst (remove_dir fs p)"
| "fs_step fs (OpSetMode p m) = fst (set_mode fs p m)"

inductive fs_reachable :: "memory_fs \<Rightarrow> bool" where
  reach_new: "fs_reachable memfs_new"
| reach_step: "fs_reachable fs \<Longrightarrow> fs_reachable (fs_step fs op)"

lemma fs_step_inv: "fs_inv fs \<Longrightarrow> fs_inv (fs_step fs op)"
  by (cases op) (simp_all add: inv_intros)

lemma memfs_new_inv: "fs_inv memfs_new"
  by (simp add: fs_inv_def memfs_new_def store_ok_def tables_ok_def max_inodes_def)

lemma fs_reachable_inv: "fs_reachable fs \<Longrightarrow> fs_inv fs"
  by (induction rule: fs_reachable.induct) (auto intro: memfs_new_inv fs_step_inv)

lemma fs_reachable_foldl: "fs_reachable fs \<Longrightarrow> fs_reachable (foldl fs_step fs ops)"
  by (induction ops arbitrary: fs) (auto intro: reach_step)

end
