(* ===== verification/Memfs_Props.thy ===== *)
theory Memfs_Props
  imports Memfs_Inv
begin

text \<open>
  What the in-memory filesystem promises its clients: resource limits in every reachable
  state, symbolic link resolution, write-then-read and frame, streaming writes through a
  sink (an interface locale interpreted on \<open>MemoryWriteSink\<close>), directory listings and
  removal; and the places where the byte counter and the directory structure are weaker
  than the code's comments say.
\<close>

section \<open>Symbolic links\<close>

definition link_at :: "memory_fs \<Rightarrow> string \<Rightarrow> string option" where
  "link_at fs p = (case node_at fs p of Some (Symlink t) \<Rightarrow> Some t | _ \<Rightarrow> None)"

lemma resolve_loop_link:
  "resolve_loop (Suc n) fs cur =
     (case link_at fs cur of Some t \<Rightarrow> resolve_loop n fs (link_target cur t) | None \<Rightarrow> Ok cur)"
  by (auto simp: link_at_def split: option.splits fs_node.splits)

lemma resolve_loop_cong: "link_at fs = link_at fs' \<Longrightarrow> resolve_loop n fs cur = resolve_loop n fs' cur"
  by (induction n arbitrary: cur)
    (simp_all add: resolve_loop_link del: resolve_loop.simps(2) split: option.splits)

lemma resolve_cong: "link_at fs = link_at fs' \<Longrightarrow> resolve_normalized fs p = resolve_normalized fs' p"
  unfolding resolve_normalized_def by (rule resolve_loop_cong)

lemma resolve_loop_not_Panic: "resolve_loop n fs cur \<noteq> Panic m"
  by (induction n arbitrary: cur)
    (simp_all add: resolve_loop_link del: resolve_loop.simps(2) split: option.splits)

lemma resolve_loop_final: "resolve_loop n fs cur = Ok q \<Longrightarrow> link_at fs q = None"
  by (induction n arbitrary: cur)
    (auto simp: resolve_loop_link simp del: resolve_loop.simps(2) split: option.splits)

text \<open>A set of links that only point at one another never resolves.\<close>

lemma resolve_loop_cycle:
  "cur \<in> S \<Longrightarrow> (\<And>p. p \<in> S \<Longrightarrow> \<exists>t. link_at fs p = Some t \<and> link_target p t \<in> S) \<Longrightarrow>
   resolve_loop n fs cur = Err (Io ''too many levels of symbolic links'')"
proof (induction n arbitrary: cur)
  case (Suc n)
  from Suc.prems(2) [OF Suc.prems(1)] obtain t
    where "link_at fs cur = Some t" "link_target cur t \<in> S" by blast
  with Suc show ?case by (simp add: resolve_loop_link del: resolve_loop.simps(2))
qed simp

text \<open>
  Link resolution is total and final: following the links of a path stops after at most
  forty of them with a path that is not a symbolic link, or with an error and never a panic,
  and every set of links that only point into the set ends in the error.
\<close>

theorem resolve_final_or_error:
  "(case resolve_normalized fs p of
      Ok q \<Rightarrow> link_at fs q = None
    | Err e \<Rightarrow> e = Io ''too many levels of symbolic links''
    | Panic m \<Rightarrow> False) \<and>
   (p \<in> S \<and> (\<forall>r\<in>S. \<exists>t. link_at fs r = Some t \<and> link_target r t \<in> S) \<longrightarrow>
    resolve_normalized fs p = Err (Io ''too many levels of symbolic links''))"
proof -
  have "resolve_loop n fs cur = Err e \<Longrightarrow> e = Io ''too many levels of symbolic links''"
    for n cur e
    by (induction n arbitrary: cur)
      (auto simp: resolve_loop_link simp del: resolve_loop.simps(2) split: option.splits)
  then show ?thesis
    using resolve_loop_final [of _ fs p] resolve_loop_not_Panic [of _ fs p]
      resolve_loop_cycle [of p S fs]
    by (auto simp: resolve_normalized_def split: result.splits)
qed

definition two_links :: memory_fs where
  "two_links = memfs_new\<lparr>nodes := [(''/'', Dir), (''/a'', Symlink ''b''), (''/b'', Symlink ''/a'')]\<rparr>"

lemma resolve_final_or_error_witness:
  "resolve_normalized two_links ''/a'' = Err (Io ''too many levels of symbolic links'')"
  using resolve_final_or_error [of two_links "''/a''" "{''/a'', ''/b''}"]
  by (simp add: two_links_def link_at_def link_target_def normalize_path_def normalize_part_def
      before_last_slash_def)

section \<open>Resource limits\<close>

text \<open>
  C9 (resource limits hold in every reachable state): whatever operations a client performs
  on a new filesystem, the root stays a directory, there are at most 100000 nodes, no file
  is longer than 64 MiB, and the bytes stored never exceed the counter that the 256 MiB
  quota is enforced on.
\<close>

theorem memfs_limits_hold:
  "(let fs = foldl fs_step memfs_new ops in
      node_at fs ''/'' = Some Dir \<and> length (nodes fs) \<le> max_inodes \<and>
      list_all (\<lambda>(p, n). node_bytes n \<le> max_file_size) (nodes fs) \<and>
      weight node_bytes (nodes fs) \<le> total_bytes fs \<and> total_bytes fs \<le> max_total_bytes)"
proof -
  let ?fs = "foldl fs_step memfs_new ops"
  have inv: "store_ok (nodes ?fs) (total_bytes ?fs)"
    using fs_reachable_inv [OF fs_reachable_foldl [OF reach_new]] by (simp add: fs_inv_def)
  have "node_bytes n \<le> max_file_size" if "(p, n) \<in> set (nodes ?fs)" for p n
    using inv that by (cases n) (auto simp: store_ok_def)
  with inv show ?thesis by (auto simp: store_ok_def list_all_iff)
qed

definition leak_ops :: "bytes \<Rightarrow> fs_op list" where
  "leak_ops d =
     [OpInstall ''/f'' \<lparr>pending = [], failure = None\<rparr>, OpOpen ''/f'' open_append,
      OpWriteFile 1 d, OpOpen ''/f'' open_read]"

lemma normalize_f: "normalize_path ''/f'' = ''/f''"
  by (simp add: normalize_path_def normalize_part_def)

lemma resolve_loop_plain: "link_at fs p = None \<Longrightarrow> resolve_loop (Suc n) fs p = Ok p"
  by (simp add: resolve_loop_link del: resolve_loop.simps(2))

lemma resolve_plain: "link_at fs p = None \<Longrightarrow> resolve_normalized fs p = Ok p"
  using resolve_loop_plain [of fs p 39]
  by (simp add: resolve_normalized_def max_symlink_depth_def del: resolve_loop.simps)

text \<open>
  The quota counter is not exact: installing a stream reader at a path, writing through
  an ordinary handle opened on it, and then opening it for reading removes the file without
  subtracting its bytes.  The filesystem then stores nothing while the quota counts the
  written bytes for ever.
\<close>

theorem quota_counter_leaks:
  "length d \<le> max_file_size \<Longrightarrow>
   (let fs = foldl fs_step memfs_new (leak_ops d) in
      weight node_bytes (nodes fs) = 0 \<and> total_bytes fs = length d)"
  by (simp add: leak_ops_def memfs_new_def install_stream_reader_def normalize_f ensure_parents_def
      path_parts_def check_inode_room_def max_inodes_def truncate_for_sink_def memfs_open_def
      resolve_plain link_at_def open_append_def open_read_def read_only_def open_file_node_def
      mode_of_def default_file_mode_def finish_open_def alloc_handle_def write_file_def
      write_chunk_def max_file_size_def max_total_bytes_def Let_def)

lemmas witness_simps = memfs_new_def normalize_f ensure_parents_def
  path_parts_def check_inode_room_def max_inodes_def truncate_for_sink_def memfs_open_def
  resolve_plain link_at_def open_append_def open_read_def open_write_def read_only_def
  open_file_node_def open_missing_def mode_of_def default_file_mode_def finish_open_def
  alloc_handle_def write_file_def close_handle_def open_write_sink_def
  write_chunk_def max_file_size_def max_total_bytes_def Let_def

theorem quota_counter_leaks_witness:
  "(let fs = foldl fs_step memfs_new (leak_ops [1, 2, 3]) in
      weight node_bytes (nodes fs) = 0 \<and> total_bytes fs = 3)"
  using quota_counter_leaks [of "[1, 2, 3]"] by (simp add: max_file_size_def numeral_3_eq_3)

section \<open>Streaming writes\<close>

text \<open>
  The write side of the filesystem as its clients see it (\<open>VfsWriteSink\<close>): a sink appends
  what it is given, and a failed write changes nothing.
\<close>

fun write_chunks ::
  "('s \<Rightarrow> 'k \<Rightarrow> 'd \<Rightarrow> 's \<times> 'k \<times> (unit, 'e) result) \<Rightarrow> 's \<Rightarrow> 'k \<Rightarrow> 'd list \<Rightarrow>
   's \<times> 'k \<times> (unit, 'e) result" where
  "write_chunks w s k [] = (s, k, Ok ())"
| "write_chunks w s k (d # ds) =
     (case w s k d of (s', k', Ok _) \<Rightarrow> write_chunks w s' k' ds | r \<Rightarrow> r)"

locale byte_sink =
  fixes sink_write :: "'s \<Rightarrow> 'k \<Rightarrow> 'b list \<Rightarrow> 's \<times> 'k \<times> (unit, 'e) result"
    and content :: "'s \<Rightarrow> 'k \<Rightarrow> 'b list"
    and live :: "'s \<Rightarrow> 'k \<Rightarrow> bool"
  assumes write_live: "live s k \<Longrightarrow> live (fst (sink_write s k d)) (fst (snd (sink_write s k d)))"
    and write_content:
      "live s k \<Longrightarrow> sink_write s k d = (s', k', Ok u) \<Longrightarrow> content s' k' = content s k @ d"
    and write_failed: "live s k \<Longrightarrow> snd (snd (sink_write s k d)) \<noteq> Ok () \<Longrightarrow>
      fst (sink_write s k d) = s \<and> fst (snd (sink_write s k d)) = k"
begin

text \<open>
  Writing a list of chunks delivers a prefix of it, all of it when the result is \<open>Ok\<close>.
\<close>

lemma write_chunks_prefix:
  assumes "live s k" "write_chunks sink_write s k ds = (s', k', r)"
  shows "\<exists>n \<le> length ds. content s' k' = content s k @ concat (take n ds) \<and>
    (r = Ok () \<longleftrightarrow> n = length ds)"
  using assms
proof (induction ds arbitrary: s k)
  case (Cons d ds)
  obtain s1 k1 r1 where w: "sink_write s k d = (s1, k1, r1)" by (cases "sink_write s k d") auto
  show ?case
  proof (cases r1)
    case (Ok u)
    have "live s1 k1" using write_live [OF Cons.prems(1), of d] w by simp
    moreover have "write_chunks sink_write s1 k1 ds = (s', k', r)" using Cons.prems(2) w Ok by simp
    ultimately obtain n where "n \<le> length ds" "content s' k' = content s1 k1 @ concat (take n ds)"
      "r = Ok () \<longleftrightarrow> n = length ds"
      using Cons.IH by blast
    moreover have "content s1 k1 = content s k @ d"
      using write_content [OF Cons.prems(1)] w Ok by blast
    ultimately show ?thesis by (intro exI [of _ "Suc n"]) auto
  next
    case (Err e)
    then have "s' = s \<and> k' = k \<and> r = Err e"
      using write_failed [OF Cons.prems(1), of d] Cons.prems(2) w by auto
    then show ?thesis by (intro exI [of _ 0]) auto
  next
    case (Panic m)
    then have "s' = s \<and> k' = k \<and> r = Panic m"
      using write_failed [OF Cons.prems(1), of d] Cons.prems(2) w by auto
    then show ?thesis by (intro exI [of _ 0]) auto
  qed
qed simp

end

text \<open>
  The bytes a \<open>MemoryWriteSink\<close> builds on: the file's contents, or nothing while its
  first write will still replace them.
\<close>

definition file_bytes :: "memory_fs \<Rightarrow> string \<Rightarrow> bytes" where
  "file_bytes fs p = (case node_at fs p of Some (File c) \<Rightarrow> c | _ \<Rightarrow> [])"

definition sink_content :: "memory_fs \<Rightarrow> write_sink \<Rightarrow> bytes" where
  "sink_content fs sink = (if sink_append sink then file_bytes fs (sink_path sink) else [])"

definition sink_live :: "memory_fs \<Rightarrow> write_sink \<Rightarrow> bool" where
  "sink_live fs sink \<longleftrightarrow> node_at fs (sink_path sink) = Some (File (file_bytes fs (sink_path sink)))"

lemma write_chunk_Ok:
  assumes "write_chunk fs sink d = (fs', sink', Ok u)" "sink_live fs sink"
  shows "sink' = sink\<lparr>sink_append := True\<rparr>"
    and "\<exists>t. fs' = (set_node (sink_path sink) (File (sink_content fs sink @ d)) fs)\<lparr>total_bytes := t\<rparr>"
  using assms
  by (auto simp: write_chunk_def sink_live_def sink_content_def Let_def split: if_splits)

lemma write_chunk_failed:
  "snd (snd (write_chunk fs sink d)) \<noteq> Ok () \<Longrightarrow>
   fst (write_chunk fs sink d) = fs \<and> fst (snd (write_chunk fs sink d)) = sink"
  by (auto simp: write_chunk_def Let_def split: option.splits fs_node.splits if_splits)

lemma write_chunk_after:
  assumes "write_chunk fs sink d = (fs', sink', Ok u)" "sink_live fs sink"
  shows "sink_live fs' sink'" "sink_content fs' sink' = sink_content fs sink @ d"
  using write_chunk_Ok [OF assms]
  by (auto simp: sink_live_def sink_content_def file_bytes_def alist_simps)

interpretation memfs_sink: byte_sink write_chunk sink_content sink_live
proof unfold_locales
  show "sink_live (fst (write_chunk s k d)) (fst (snd (write_chunk s k d)))"
    if "sink_live s k" for s k d
  proof -
    obtain s' k' r where w: "write_chunk s k d = (s', k', r)" by (cases "write_chunk s k d")
    show ?thesis
    proof (cases "r = Ok ()")
      case True
      then show ?thesis using w write_chunk_after(1) [OF _ that] by simp
    next
      case False
      then show ?thesis using w that write_chunk_failed [of s k d] by simp
    qed
  qed
qed (auto dest: write_chunk_after(2) write_chunk_failed)

lemma link_at_simps [simp]:
  "link_at (fs\<lparr>virtual_readers := v\<rparr>) = link_at fs"
  "link_at (fs\<lparr>total_bytes := t\<rparr>) = link_at fs"
  "link_at (fs\<lparr>handles := h\<rparr>) = link_at fs"
  "link_at (fs\<lparr>next_handle := nh\<rparr>) = link_at fs"
  "link_at (fs\<lparr>modes := ms\<rparr>) = link_at fs"
  "link_at (fs\<lparr>reader_heap := rh\<rparr>) = link_at fs"
  by (simp_all add: link_at_def fun_eq_iff)

text \<open>Nodes that are not links, before and after, do not change how paths resolve.\<close>

lemma link_at_set_node:
  "link_at fs p = None \<Longrightarrow> (\<And>t. n \<noteq> Symlink t) \<Longrightarrow> link_at (set_node p n fs) = link_at fs"
  by (auto simp: link_at_def fun_eq_iff alist_simps split: fs_node.splits)

lemma adds_dirs_link_at: "adds_dirs fs fs' \<Longrightarrow> link_at fs' = link_at fs"
proof
  fix p
  assume "adds_dirs fs fs'"
  then show "link_at fs' p = link_at fs p"
    using adds_dirs_old [of fs fs' p] adds_dirs_fresh [of fs fs' p]
    by (cases "node_at fs p") (auto simp: link_at_def)
qed

lemma finish_open_Ok:
  "finish_open fs s opts = (fs', Ok h) \<Longrightarrow>
   h = next_handle fs \<and>
   fs' = fs\<lparr>next_handle := h + 1,
            handles := AList.update h \<lparr>file_source = s, file_opts = opts\<rparr> (handles fs)\<rparr>"
  by (auto simp: finish_open_def alloc_handle_def Let_def split: if_splits)

text \<open>
  A path that resolves to \<open>q\<close>, opened for writing: the handle is on \<open>q\<close>, which is now
  an empty file, directories may have been added, and nothing else changed.
\<close>

lemma open_write_Ok:
  assumes "memfs_open fs p open_write = (fs1, Ok h)"
    and q: "resolve_normalized fs (normalize_path p) = Ok q"
  shows "map_of (handles fs1) h = Some \<lparr>file_source = Path q, file_opts = open_write\<rparr>"
    and "node_at fs1 q = Some (File [])"
    and "link_at fs1 = link_at fs"
    and "virtual_readers fs1 = virtual_readers fs"
    and "\<And>r n. r \<noteq> q \<Longrightarrow> node_at fs r = Some n \<Longrightarrow> node_at fs1 r = Some n"
proof -
  have nl: "link_at fs q = None"
    using q resolve_loop_final unfolding resolve_normalized_def by blast
  obtain fs0 where f: "finish_open fs0 (Path q) open_write = (fs1, Ok h)"
    and m: "node_at fs0 q = Some (File [])"
    and l: "link_at fs0 = link_at fs"
    and v: "virtual_readers fs0 = virtual_readers fs"
    and k: "\<And>r n. r \<noteq> q \<Longrightarrow> node_at fs r = Some n \<Longrightarrow> node_at fs0 r = Some n"
  proof (cases "node_at fs q")
    case None
    obtain fsd r where e: "ensure_parents fs q = (fsd, r)" by (cases "ensure_parents fs q")
    then have d: "adds_dirs fs fsd" by (rule ensure_parents_adds)
    have "finish_open (set_node q (File []) fsd) (Path q) open_write = (fs1, Ok h)"
      using assms None e
      by (auto simp: memfs_open_def open_missing_def read_only_def open_write_def split: result.splits)
    then show ?thesis
      using that nl adds_dirs_frame(1) [OF d] adds_dirs_old [OF d]
      by (simp add: alist_simps link_at_set_node adds_dirs_link_at [OF d])
  next
    case (Some n)
    then obtain c where "n = File c"
      using assms nl by (cases n) (auto simp: memfs_open_def read_only_def open_write_def link_at_def)
    then have "finish_open ((set_node q (File []) fs)\<lparr>total_bytes := total_bytes fs - length c\<rparr>)
        (Path q) open_write = (fs1, Ok h)"
      using assms Some
      by (auto simp: memfs_open_def read_only_def open_write_def open_file_node_def Let_def
          split: if_splits)
    then show ?thesis
      using that nl by (simp add: alist_simps link_at_set_node)
  qed
  from finish_open_Ok [OF f] m l v k
  show "map_of (handles fs1) h = Some \<lparr>file_source = Path q, file_opts = open_write\<rparr>"
    "node_at fs1 q = Some (File [])" "link_at fs1 = link_at fs"
    "virtual_readers fs1 = virtual_readers fs"
    "\<And>r n. r \<noteq> q \<Longrightarrow> node_at fs r = Some n \<Longrightarrow> node_at fs1 r = Some n"
    by (simp_all add: alist_simps)
qed

text \<open>
  C6 (write then read): a file opened for writing, written once and closed, and then opened
  for reading through the same path (links included), yields exactly the bytes written; every
  other existing file, directory and link is as before.
\<close>

theorem memfs_write_read:
  assumes "resolve_normalized fs (normalize_path p) = Ok q"
    and "map_of (virtual_readers fs) q = None"
    and "memfs_open fs p open_write = (fs1, Ok h)"
    and "write_file fs1 h d = (fs2, Ok ())"
    and "memfs_open (close_handle fs2 h) p open_read = (fs3, Ok h')"
  shows "read_file fs3 h' = (fs3, Ok d) \<and>
    (\<forall>r n. r \<noteq> q \<and> node_at fs r = Some n \<longrightarrow> node_at fs3 r = Some n)"
proof -
  note w = open_write_Ok [OF assms(3,1)]
  let ?sink = "\<lparr>sink_path = q, sink_append = False\<rparr>"
  obtain k' where wc: "write_chunk fs1 ?sink d = (fs2, k', Ok ())"
    using assms(4) w(1)
    by (auto simp: write_file_def open_write_def split: prod.splits)
  have live: "sink_live fs1 ?sink" using w(2) by (simp add: sink_live_def file_bytes_def)
  obtain t where fs2: "fs2 = (set_node q (File d) fs1)\<lparr>total_bytes := t\<rparr>"
    using write_chunk_Ok(2) [OF wc live] by (auto simp: sink_content_def)
  have "link_at fs1 q = None" using w(2) by (simp add: link_at_def)
  then have "link_at (close_handle fs2 h) = link_at fs"
    using link_at_set_node [of fs1 q "File d"] w(3) fs2 by (simp add: close_handle_def)
  then have "resolve_normalized (close_handle fs2 h) (normalize_path p) = Ok q"
    using assms(1) resolve_cong by metis
  moreover have "map_of (virtual_readers (close_handle fs2 h)) q = None"
    using assms(2) w(4) fs2 by (simp add: close_handle_def)
  ultimately have "finish_open (close_handle fs2 h) (Path q) open_read = (fs3, Ok h')"
    using assms(5) fs2
    by (auto simp: memfs_open_def open_file_node_def open_read_def read_only_def Let_def
        close_handle_def alist_simps split: if_splits)
  from finish_open_Ok [OF this] show ?thesis
    using w(5) fs2
    by (auto simp: read_file_def readable_source_def open_read_def close_handle_def alist_simps)
qed

definition sample_write :: memory_fs where
  "sample_write = fst (write_file (fst (memfs_open memfs_new ''/f'' open_write)) 1 [7, 8])"

definition sample_reopened :: memory_fs where
  "sample_reopened = fst (memfs_open (close_handle sample_write 1) ''/f'' open_read)"

theorem memfs_write_read_witness: "read_file sample_reopened 2 = (sample_reopened, Ok [7, 8])"
  by (rule memfs_write_read [where q = "''/f''" and fs = memfs_new and p = "''/f''" and h = 1
        and ?fs1.0 = "fst (memfs_open memfs_new ''/f'' open_write)" and ?fs2.0 = sample_write,
        THEN conjunct1])
    (simp_all add: sample_write_def sample_reopened_def witness_simps)

section \<open>Streaming through a sink\<close>

text \<open>Once a sink appends, its contents are the file's contents.\<close>

definition sink_tight :: "memory_fs \<Rightarrow> write_sink \<Rightarrow> bool" where
  "sink_tight fs sink \<longleftrightarrow>
     sink_live fs sink \<and> sink_content fs sink = file_bytes fs (sink_path sink)"

lemma write_chunks_tight:
  "write_chunks write_chunk fs k ds = (fs', k', r) \<Longrightarrow> sink_tight fs k \<Longrightarrow>
   sink_tight fs' k' \<and> sink_path k' = sink_path k"
proof (induction ds arbitrary: fs k)
  case (Cons d ds)
  obtain fs1 k1 r1 where w: "write_chunk fs k d = (fs1, k1, r1)" by (cases "write_chunk fs k d")
  show ?case
  proof (cases "r1 = Ok ()")
    case True
    have live: "sink_live fs k" using Cons.prems(2) by (simp add: sink_tight_def)
    have k1: "k1 = k\<lparr>sink_append := True\<rparr>" and "sink_live fs1 k1"
      using write_chunk_Ok(1) [OF _ live] write_chunk_after(1) [OF _ live] w True by auto
    then have "sink_tight fs1 k1" by (simp add: sink_tight_def sink_content_def)
    then show ?thesis using Cons.IH [of fs1 k1] Cons.prems(1) w True k1 by simp
  next
    case False
    then have "fs1 = fs \<and> k1 = k" using write_chunk_failed [of fs k d] w by simp
    then show ?thesis using False w Cons.prems by (cases r1) auto
  qed
qed simp

lemma truncate_for_sink_bytes [simp]:
  "node_at (truncate_for_sink fs q) q = Some (File [])"
  by (simp add: truncate_for_sink_def alist_simps)

lemma open_write_sink_tight:
  assumes "open_write_sink fs p app = (fs1, Ok k)"
  shows "sink_tight fs1 k"
    and "sink_content fs1 k = (if app then file_bytes fs (sink_path k) else [])"
proof -
  obtain q where q: "resolve_normalized fs (normalize_path p) = Ok q"
    using assms by (auto simp: open_write_sink_def split: result.splits)
  have k: "k = \<lparr>sink_path = q, sink_append = app\<rparr>"
    using assms q
    by (auto simp: open_write_sink_def Let_def split: option.splits fs_node.splits result.splits
        prod.splits)
  have "node_at fs1 q = Some (File (if app then file_bytes fs q else []))"
  proof (cases "node_at fs q")
    case None
    then show ?thesis
      using assms q
      by (auto simp: open_write_sink_def Let_def file_bytes_def alist_simps
          split: result.splits prod.splits if_splits)
  next
    case (Some n)
    then show ?thesis
      using assms q
      by (cases n) (auto simp: open_write_sink_def Let_def file_bytes_def)
  qed
  then show "sink_tight fs1 k"
    "sink_content fs1 k = (if app then file_bytes fs (sink_path k) else [])"
    by (simp_all add: k sink_tight_def sink_live_def sink_content_def file_bytes_def)
qed

text \<open>
  C24 (streaming writes): after a sink has been opened and given a list of chunks, the file
  holds the old contents (when appending) or nothing, followed by the chunks that were
  accepted: all of them when every write succeeded, and otherwise those before the first
  rejected one, which leaves no partial chunk behind.
\<close>

theorem sink_streams_chunks:
  assumes "open_write_sink fs p app = (fs1, Ok k)"
    and "write_chunks write_chunk fs1 k ds = (fs2, k', r)"
  shows "\<exists>n \<le> length ds. (r = Ok () \<longleftrightarrow> n = length ds) \<and>
    node_at fs2 (sink_path k) =
      Some (File ((if app then file_bytes fs (sink_path k) else []) @ concat (take n ds)))"
proof -
  note o = open_write_sink_tight [OF assms(1)]
  have "sink_live fs1 k" using o(1) by (simp add: sink_tight_def)
  from memfs_sink.write_chunks_prefix [OF this assms(2)] obtain n
    where n: "n \<le> length ds" "r = Ok () \<longleftrightarrow> n = length ds"
      "sink_content fs2 k' = sink_content fs1 k @ concat (take n ds)"
    by blast
  moreover have "node_at fs2 (sink_path k) = Some (File (sink_content fs2 k'))"
    using write_chunks_tight [OF assms(2) o(1)] by (auto simp: sink_tight_def sink_live_def)
  ultimately show ?thesis using o(2) by auto
qed

theorem sink_streams_chunks_witness:
  "\<exists>n \<le> 2. node_at (fst (write_chunks write_chunk (fst (open_write_sink memfs_new ''/f'' False))
       \<lparr>sink_path = ''/f'', sink_append = False\<rparr> [[1], [2, 3]])) ''/f'' =
     Some (File (concat (take n [[1], [2, 3]])))"
  using sink_streams_chunks [of memfs_new "''/f''" False
      "fst (open_write_sink memfs_new ''/f'' False)" "\<lparr>sink_path = ''/f'', sink_append = False\<rparr>"
      "[[1], [2, 3]]"]
  by (cases "write_chunks write_chunk (fst (open_write_sink memfs_new ''/f'' False))
       \<lparr>sink_path = ''/f'', sink_append = False\<rparr> [[1], [2, 3]]")
    (auto simp: witness_simps)

section \<open>Directory listings\<close>

definition child_of :: "string \<Rightarrow> string \<Rightarrow> bool" where
  "child_of pre k \<longleftrightarrow> prefix pre k \<and> drop (length pre) k \<noteq> '''' \<and> CHR ''/'' \<notin> set (drop (length pre) k)"

lemma child_names:
  "map entry_name (concat (map (child_entry fs pre) ns)) =
     map (drop (length pre)) (filter (child_of pre) (map fst ns))"
  by (induction ns) (auto simp: child_entry_def child_of_def strip_prefix_def split: prod.splits)

lemma child_names_set:
  "set (map entry_name (concat (map (child_entry fs pre) ns))) =
     {name. name \<noteq> '''' \<and> CHR ''/'' \<notin> set name \<and> map_of ns (pre @ name) \<noteq> None}" (is "_ = ?R")
proof -
  have "name \<in> drop (length pre) ` {k \<in> fst ` set ns. child_of pre k}" if "name \<in> ?R" for name
    using that by (intro image_eqI [of _ _ "pre @ name"]) (auto simp: map_of_eq_None_iff child_of_def)
  then show ?thesis
    unfolding child_names by (auto simp: child_of_def prefix_def map_of_eq_None_iff rev_image_eqI)
qed

lemma child_names_distinct:
  assumes "keys_distinct ns"
  shows "distinct (map entry_name (concat (map (child_entry fs pre) ns)))"
proof -
  have "inj_on (drop (length pre)) {k. child_of pre k}"
    by (auto simp: inj_on_def child_of_def prefix_def)
  then show ?thesis
    using assms unfolding child_names by (auto simp: distinct_map intro: inj_on_subset)
qed

text \<open>
  Directory listings are exact: in a well-formed filesystem, listing a directory yields
  each of its children exactly once, in increasing order of their names, and nothing else:
  an entry for every stored path that is the directory followed by one non-empty component.
\<close>

theorem read_dir_exact:
  assumes "fs_inv fs" "resolve_normalized fs (normalize_path p) = Ok q" "node_at fs q = Some Dir"
  shows "\<exists>es. read_dir fs p = Ok es \<and> sorted (map entry_name es) \<and> distinct (map entry_name es) \<and>
    set (map entry_name es) =
      {name. name \<noteq> '''' \<and> CHR ''/'' \<notin> set name \<and> node_at fs (dir_prefix q @ name) \<noteq> None}"
proof -
  let ?es = "concat (map (child_entry fs (dir_prefix q)) (nodes fs))"
  have "keys_distinct (nodes fs)" using assms(1) by (simp add: fs_inv_def store_ok_def)
  then have "distinct (map entry_name ?es)" by (rule child_names_distinct)
  then have "distinct (map entry_name (sort_key entry_name ?es))"
    by (simp only: distinct_map distinct_sort set_sort)
  then show ?thesis
    using assms(2,3) child_names_set [of fs "dir_prefix q" "nodes fs"]
    by (simp add: read_dir_def)
qed

text \<open>The listing of the root after one file has been created.\<close>

theorem read_dir_exact_witness:
  "\<exists>es. read_dir (fst (memfs_open memfs_new ''/f'' open_write)) ''/'' = Ok es \<and>
     ''f'' \<in> set (map entry_name es)"
proof -
  let ?fs = "fst (memfs_open memfs_new ''/f'' open_write)"
  have "fs_inv ?fs" by (intro memfs_open_inv memfs_new_inv)
  moreover have "normalize_path ''/'' = ''/''" by (simp add: normalize_path_def normalize_part_def)
  then have "resolve_normalized ?fs (normalize_path ''/'') = Ok ''/''" by (simp add: witness_simps)
  moreover have "node_at ?fs ''/'' = Some Dir" "node_at ?fs ''/f'' \<noteq> None"
    by (simp_all add: witness_simps)
  ultimately show ?thesis
    using read_dir_exact [of ?fs "''/''" "''/''"] by (auto simp: dir_prefix_def)
qed

section \<open>Files below files\<close>

lemma normalize_f_g: "normalize_path ''/f/g'' = ''/f/g''"
  by (simp add: normalize_path_def normalize_part_def)

text \<open>
  A file can have children: creating a file and then a file below it succeeds, because
  \<open>ensure_parents\<close> accepts any existing node as a parent.  The listing of the parent fails,
  and when the parent is removed the child stays, stored below no directory.
\<close>

theorem file_below_file:
  "(let fs = foldl fs_step memfs_new [OpOpen ''/f'' open_write, OpOpen ''/f/g'' open_write] in
      node_at fs ''/f'' = Some (File []) \<and> node_at fs ''/f/g'' = Some (File []) \<and>
      read_dir fs ''/f'' = Err (NotADirectory ''/f'') \<and>
      snd (remove_file fs ''/f'') = Ok () \<and>
      node_at (fst (remove_file fs ''/f'')) ''/f'' = None \<and>
      node_at (fst (remove_file fs ''/f'')) ''/f/g'' = Some (File []))"
  by (simp add: witness_simps normalize_f_g read_dir_def remove_file_def is_link_at_def)

end
