(* ===== verification/Ast.thy ===== *)
theory Ast
  imports Prelude
begin

text \<open>
  The abstract syntax tree of \<^verbatim>\<open>crates/wasmsh-ast/src/lib.rs\<close>.  The structs that are not
  recursive are records.  The command grammar is one mutually recursive datatype; a struct that
  a variant of \<open>Command\<close> wraps is inlined, so that the constructor carries the struct's name
  and its fields in the order of the source.
\<close>

section \<open>Words, assignments and redirections\<close>

record span =
  span_start :: u32
  span_end :: u32



datatype word_part =
    Literal string
  | SingleQuoted string
  | DoubleQuoted "word_part list"
  | Parameter string
  | CommandSubstitution string
  | Arithmetic string
  | ProcessSubstIn string
  | ProcessSubstOut string

record shell_word =
  word_parts :: "word_part list"
  word_span :: span

datatype redirection_op =
    Input | Output | Append | Clobber | AppendBoth | ReadWrite
  | HereDoc | HereDocStrip | HereString | DupOutput | DupInput

record here_doc_body =
  doc_content :: string
  doc_expand :: bool
  body_span :: span

record redirection =
  redir_fd :: "u32 option"
  redir_op :: redirection_op
  redir_target :: shell_word
  redir_here_doc :: "here_doc_body option"
  redir_span :: span

record assignment =
  assign_name :: string
  assign_value :: "shell_word option"
  assign_span :: span

section \<open>Commands\<close>

datatype and_or_op = And | Or

datatype case_terminator = Break | Fallthrough | ContinueTesting

datatype complete_command = CompleteCommand "and_or_list list" span
  and and_or_list = AndOrList pipeline "(and_or_op \<times> pipeline) list"
  and pipeline = Pipeline bool bool bool "command list" "bool list"
  and command =
      SimpleCommand "assignment list" "shell_word list" "redirection list" span
    | SubshellCommand "complete_command list" "redirection list" span
    | GroupCommand "complete_command list" "redirection list" span
    | IfCommand "complete_command list" "complete_command list" "elif_clause list"
        "complete_command list option" "redirection list" span
    | WhileCommand "complete_command list" "complete_command list" "redirection list" span
    | UntilCommand "complete_command list" "complete_command list" "redirection list" span
    | ForCommand string "shell_word list option" "complete_command list" "redirection list" span
    | ArithForCommand string string string "complete_command list" "redirection list" span
    | FunctionDef string command span
    | CaseCommand shell_word "case_item list" "redirection list" span
    | DoubleBracketCommand "shell_word list" span
    | ArithCommandNode string span
    | SelectCommand string "shell_word list option" "complete_command list" "redirection list" span
  and elif_clause = ElifClause "complete_command list" "complete_command list"
  and case_item = CaseItem "shell_word list" "complete_command list" case_terminator

text \<open>A \<open>Program\<close> has one field, \<open>commands\<close>.\<close>

type_synonym program = "complete_command list"

end
