(* ===== verification/Hir.thy ===== *)
theory Hir
  imports Ast
begin

text \<open>
  The high-level intermediate representation of \<^verbatim>\<open>crates/wasmsh-hir/src/lib.rs\<close> and the
  lowering from the syntax tree, \<^verbatim>\<open>crates/wasmsh-hir/src/lower.rs\<close>.  The lowering splits
  simple commands into three kinds and otherwise keeps everything: it is shown to have an
  inverse, and to produce only well-formed commands.
\<close>

section \<open>The representation\<close>

record hir_assignment =
  hassign_name :: string
  hassign_value :: "shell_word option"
  hassign_span :: span

record hir_redirection =
  hredir_fd :: "u32 option"
  hredir_op :: redirection_op
  hredir_target :: shell_word
  hredir_here_doc :: "here_doc_body option"
  hredir_span :: span

datatype hir_and_or_op = HirAnd | HirOr

datatype hir_complete_command = HirCompleteCommand "hir_and_or list" span
  and hir_and_or = HirAndOr hir_pipeline "(hir_and_or_op \<times> hir_pipeline) list"
  and hir_pipeline = HirPipeline bool bool bool "hir_command list" "bool list"
  and hir_command =
      HirExec "shell_word list" "hir_assignment list" "hir_redirection list" span
    | HirAssign "hir_assignment list" "hir_redirection list" span
    | HirRedirectOnly "hir_redirection list" span
    | HirIf "hir_complete_command list" "hir_complete_command list" "hir_elif list"
        "hir_complete_command list option" "hir_redirection list" span
    | HirWhile "hir_complete_command list" "hir_complete_command list" "hir_redirection list" span
    | HirUntil "hir_complete_command list" "hir_complete_command list" "hir_redirection list" span
    | HirFor string "shell_word list option" "hir_complete_command list" "hir_redirection list" span
    | HirSubshell "hir_complete_command list" "hir_redirection list" span
    | HirGroup "hir_complete_command list" "hir_redirection list" span
    | HirFunctionDef string hir_command span
    | HirCase shell_word "hir_case_item list" "hir_redirection list" span
    | HirDoubleBracket "shell_word list" span
    | HirArithFor string string string "hir_complete_command list" "hir_redirection list" span
    | HirArithCommand string span
    | HirSelect string "shell_word list option" "hir_complete_command list"
        "hir_redirection list" span
  and hir_elif = HirElif "hir_complete_command list" "hir_complete_command list"
  and hir_case_item = HirCaseItem "shell_word list" "hir_complete_command list" case_terminator

type_synonym hir_program = "hir_complete_command list"

section \<open>Lowering\<close>

definition lower_assignment :: "assignment \<Rightarrow> hir_assignment" where
  "lower_assignment a =
     \<lparr>hassign_name = assign_name a, hassign_value = assign_value a, hassign_span = assign_span a\<rparr>"

definition lower_redirection :: "redirection \<Rightarrow> hir_redirection" where
  "lower_redirection r =
     \<lparr>hredir_fd = redir_fd r, hredir_op = redir_op r, hredir_target = redir_target r,
      hredir_here_doc = redir_here_doc r, hredir_span = redir_span r\<rparr>"

fun lower_and_or_op :: "and_or_op \<Rightarrow> hir_and_or_op" where
  "lower_and_or_op Or = HirOr"
| "lower_and_or_op _ = HirAnd"

definition lower_simple_command ::
  "assignment list \<Rightarrow> shell_word list \<Rightarrow> redirection list \<Rightarrow> span \<Rightarrow> hir_command" where
  "lower_simple_command assigns words redirs sp =
     (let assignments = map lower_assignment assigns;
          redirections = map lower_redirection redirs
      in
        if words \<noteq> [] then HirExec words assignments redirections sp
        else if assignments \<noteq> [] then HirAssign assignments redirections sp
        else HirRedirectOnly redirections sp)"

fun lower_complete_command :: "complete_command \<Rightarrow> hir_complete_command"
  and lower_and_or :: "and_or_list \<Rightarrow> hir_and_or"
  and lower_pipeline :: "pipeline \<Rightarrow> hir_pipeline"
  and lower_command :: "command \<Rightarrow> hir_command"
  and lower_elif :: "elif_clause \<Rightarrow> hir_elif"
  and lower_case_item :: "case_item \<Rightarrow> hir_case_item"
  where
  "lower_complete_command (CompleteCommand list sp) = HirCompleteCommand (map lower_and_or list) sp"
| "lower_and_or (AndOrList first rest) =
     HirAndOr (lower_pipeline first)
       (map (\<lambda>(op, pipeline). (lower_and_or_op op, lower_pipeline pipeline)) rest)"
| "lower_pipeline (Pipeline timed time_posix negated commands pipe_stderr) =
     HirPipeline timed time_posix negated (map lower_command commands) pipe_stderr"
| "lower_command (SimpleCommand assigns words redirs sp) =
     lower_simple_command assigns words redirs sp"
| "lower_command (SubshellCommand body redirs sp) =
     HirSubshell (map lower_complete_command body) (map lower_redirection redirs) sp"
| "lower_command (GroupCommand body redirs sp) =
     HirGroup (map lower_complete_command body) (map lower_redirection redirs) sp"
| "lower_command (IfCommand condition then_body elifs else_body redirs sp) =
     HirIf (map lower_complete_command condition) (map lower_complete_command then_body)
       (map lower_elif elifs) (map_option (map lower_complete_command) else_body)
       (map lower_redirection redirs) sp"
| "lower_command (WhileCommand condition body redirs sp) =
     HirWhile (map lower_complete_command condition) (map lower_complete_command body)
       (map lower_redirection redirs) sp"
| "lower_command (UntilCommand condition body redirs sp) =
     HirUntil (map lower_complete_command condition) (map lower_complete_command body)
       (map lower_redirection redirs) sp"
| "lower_command (ForCommand var_name words body redirs sp) =
     HirFor var_name words (map lower_complete_command body) (map lower_redirection redirs) sp"
| "lower_command (FunctionDef name body sp) = HirFunctionDef name (lower_command body) sp"
| "lower_command (CaseCommand w items redirs sp) =
     HirCase w (map lower_case_item items) (map lower_redirection redirs) sp"
| "lower_command (DoubleBracketCommand words sp) = HirDoubleBracket words sp"
| "lower_command (ArithForCommand init cond step body redirs sp) =
     HirArithFor init cond step (map lower_complete_command body) (map lower_redirection redirs) sp"
| "lower_command (ArithCommandNode expr sp) = HirArithCommand expr sp"
| "lower_command (SelectCommand var_name words body redirs sp) =
     HirSelect var_name words (map lower_complete_command body) (map lower_redirection redirs) sp"
| "lower_elif (ElifClause condition then_body) =
     HirElif (map lower_complete_command condition) (map lower_complete_command then_body)"
| "lower_case_item (CaseItem patterns body terminator) =
     HirCaseItem patterns (map lower_complete_command body) terminator"

definition lower :: "program \<Rightarrow> hir_program" where
  "lower commands = map lower_complete_command commands"

section \<open>The inverse\<close>

definition raise_assignment :: "hir_assignment \<Rightarrow> assignment" where
  "raise_assignment a =
     \<lparr>assign_name = hassign_name a, assign_value = hassign_value a, assign_span = hassign_span a\<rparr>"

definition raise_redirection :: "hir_redirection \<Rightarrow> redirection" where
  "raise_redirection r =
     \<lparr>redir_fd = hredir_fd r, redir_op = hredir_op r, redir_target = hredir_target r,
      redir_here_doc = hredir_here_doc r, redir_span = hredir_span r\<rparr>"

fun raise_and_or_op :: "hir_and_or_op \<Rightarrow> and_or_op" where
  "raise_and_or_op HirOr = Or"
| "raise_and_or_op HirAnd = And"

fun raise_complete_command :: "hir_complete_command \<Rightarrow> complete_command"
  and raise_and_or :: "hir_and_or \<Rightarrow> and_or_list"
  and raise_pipeline :: "hir_pipeline \<Rightarrow> pipeline"
  and raise_command :: "hir_command \<Rightarrow> command"
  and raise_elif :: "hir_elif \<Rightarrow> elif_clause"
  and raise_case_item :: "hir_case_item \<Rightarrow> case_item"
  where
  "raise_complete_command (HirCompleteCommand list sp) = CompleteCommand (map raise_and_or list) sp"
| "raise_and_or (HirAndOr first rest) =
     AndOrList (raise_pipeline first)
       (map (\<lambda>(op, pipeline). (raise_and_or_op op, raise_pipeline pipeline)) rest)"
| "raise_pipeline (HirPipeline timed time_posix negated commands pipe_stderr) =
     Pipeline timed time_posix negated (map raise_command commands) pipe_stderr"
| "raise_command (HirExec argv env redirs sp) =
     SimpleCommand (map raise_assignment env) argv (map raise_redirection redirs) sp"
| "raise_command (HirAssign assigns redirs sp) =
     SimpleCommand (map raise_assignment assigns) [] (map raise_redirection redirs) sp"
| "raise_command (HirRedirectOnly redirs sp) =
     SimpleCommand [] [] (map raise_redirection redirs) sp"
| "raise_command (HirSubshell body redirs sp) =
     SubshellCommand (map raise_complete_command body) (map raise_redirection redirs) sp"
| "raise_command (HirGroup body redirs sp) =
     GroupCommand (map raise_complete_command body) (map raise_redirection redirs) sp"
| "raise_command (HirIf condition then_body elifs else_body redirs sp) =
     IfCommand (map raise_complete_command condition) (map raise_complete_command then_body)
       (map raise_elif elifs) (map_option (map raise_complete_command) else_body)
       (map raise_redirection redirs) sp"
| "raise_command (HirWhile condition body redirs sp) =
     WhileCommand (map raise_complete_command condition) (map raise_complete_command body)
       (map raise_redirection redirs) sp"
| "raise_command (HirUntil condition body redirs sp) =
     UntilCommand (map raise_complete_command condition) (map raise_complete_command body)
       (map raise_redirection redirs) sp"
| "raise_command (HirFor var_name words body redirs sp) =
     ForCommand var_name words (map raise_complete_command body) (map raise_redirection redirs) sp"
| "raise_command (HirFunctionDef name body sp) = FunctionDef name (raise_command body) sp"
| "raise_command (HirCase w items redirs sp) =
     CaseCommand w (map raise_case_item items) (map raise_redirection redirs) sp"
| "raise_command (HirDoubleBracket words sp) = DoubleBracketCommand words sp"
| "raise_command (HirArithFor init cond step body redirs sp) =
     ArithForCommand init cond step (map raise_complete_command body)
       (map raise_redirection redirs) sp"
| "raise_command (HirArithCommand expr sp) = ArithCommandNode expr sp"
| "raise_command (HirSelect var_name words body redirs sp) =
     SelectCommand var_name words (map raise_complete_command body)
       (map raise_redirection redirs) sp"
| "raise_elif (HirElif condition then_body) =
     ElifClause (map raise_complete_command condition) (map raise_complete_command then_body)"
| "raise_case_item (HirCaseItem patterns body terminator) =
     CaseItem patterns (map raise_complete_command body) terminator"

section \<open>Well-formed commands\<close>

text \<open>
  The normal form the lowering promises: a command to execute has a command word, an
  assignment command has an assignment.
\<close>

fun wf_complete_command :: "hir_complete_command \<Rightarrow> bool"
  and wf_and_or :: "hir_and_or \<Rightarrow> bool"
  and wf_pipeline :: "hir_pipeline \<Rightarrow> bool"
  and wf_command :: "hir_command \<Rightarrow> bool"
  and wf_elif :: "hir_elif \<Rightarrow> bool"
  and wf_case_item :: "hir_case_item \<Rightarrow> bool"
  where
  "wf_complete_command (HirCompleteCommand list sp) = (\<forall>a\<in>set list. wf_and_or a)"
| "wf_and_or (HirAndOr first rest) = (wf_pipeline first \<and> (\<forall>p\<in>set rest. wf_pipeline (snd p)))"
| "wf_pipeline (HirPipeline _ _ _ commands _) = (\<forall>c\<in>set commands. wf_command c)"
| "wf_command (HirExec argv env redirs sp) = (argv \<noteq> [])"
| "wf_command (HirAssign assigns redirs sp) = (assigns \<noteq> [])"
| "wf_command (HirRedirectOnly redirs sp) = True"
| "wf_command (HirSubshell body redirs sp) = (\<forall>c\<in>set body. wf_complete_command c)"
| "wf_command (HirGroup body redirs sp) = (\<forall>c\<in>set body. wf_complete_command c)"
| "wf_command (HirIf condition then_body elifs else_body redirs sp) =
     ((\<forall>c\<in>set condition. wf_complete_command c) \<and> (\<forall>c\<in>set then_body. wf_complete_command c) \<and>
      (\<forall>e\<in>set elifs. wf_elif e) \<and>
      (\<forall>b\<in>set_option else_body. \<forall>c\<in>set b. wf_complete_command c))"
| "wf_command (HirWhile condition body redirs sp) =
     ((\<forall>c\<in>set condition. wf_complete_command c) \<and> (\<forall>c\<in>set body. wf_complete_command c))"
| "wf_command (HirUntil condition body redirs sp) =
     ((\<forall>c\<in>set condition. wf_complete_command c) \<and> (\<forall>c\<in>set body. wf_complete_command c))"
| "wf_command (HirFor var_name words body redirs sp) = (\<forall>c\<in>set body. wf_complete_command c)"
| "wf_command (HirFunctionDef name body sp) = wf_command body"
| "wf_command (HirCase w items redirs sp) = (\<forall>i\<in>set items. wf_case_item i)"
| "wf_command (HirDoubleBracket words sp) = True"
| "wf_command (HirArithFor init cond step body redirs sp) = (\<forall>c\<in>set body. wf_complete_command c)"
| "wf_command (HirArithCommand expr sp) = True"
| "wf_command (HirSelect var_name words body redirs sp) = (\<forall>c\<in>set body. wf_complete_command c)"
| "wf_elif (HirElif condition then_body) =
     ((\<forall>c\<in>set condition. wf_complete_command c) \<and> (\<forall>c\<in>set then_body. wf_complete_command c))"
| "wf_case_item (HirCaseItem patterns body terminator) = (\<forall>c\<in>set body. wf_complete_command c)"

lemma raise_lower_leaves [simp]:
  "raise_assignment (lower_assignment a) = a" "raise_redirection (lower_redirection r) = r"
  "lower_assignment (raise_assignment ha) = ha" "lower_redirection (raise_redirection hr) = hr"
  by (simp_all add: raise_assignment_def lower_assignment_def raise_redirection_def
      lower_redirection_def)

lemma raise_lower_op [simp]:
  "raise_and_or_op (lower_and_or_op op) = op" "lower_and_or_op (raise_and_or_op hop) = hop"
  by (cases op; simp) (cases hop; simp)

lemma lower_simple_command_wf: "wf_command (lower_simple_command assigns words redirs sp)"
  by (simp add: lower_simple_command_def Let_def)

lemma raise_lower_simple [simp]:
  "raise_command (lower_simple_command assigns words redirs sp) =
     SimpleCommand assigns words redirs sp"
  by (simp add: lower_simple_command_def map_idI Let_def)

lemma lower_raise_simple:
  "argv \<noteq> [] \<Longrightarrow> lower_simple_command (map raise_assignment env) argv (map raise_redirection rs) sp =
     HirExec argv env rs sp"
  "env \<noteq> [] \<Longrightarrow> lower_simple_command (map raise_assignment env) [] (map raise_redirection rs) sp =
     HirAssign env rs sp"
  "lower_simple_command [] [] (map raise_redirection rs) sp = HirRedirectOnly rs sp"
  by (simp_all add: lower_simple_command_def map_idI)

lemma raise_lower_all:
  "raise_complete_command (lower_complete_command cc) = cc"
  "raise_and_or (lower_and_or ao) = ao"
  "raise_pipeline (lower_pipeline pl) = pl"
  "raise_command (lower_command cmd) = cmd"
  "raise_elif (lower_elif el) = el"
  "raise_case_item (lower_case_item ci) = ci"
  by (induction cc and ao and pl and cmd and el and ci)
    (auto simp: map_idI option.map_comp comp_def intro!: map_idI option.map_ident_strong)

lemma lower_wf_all:
  "wf_complete_command (lower_complete_command cc)"
  "wf_and_or (lower_and_or ao)"
  "wf_pipeline (lower_pipeline pl)"
  "wf_command (lower_command cmd)"
  "wf_elif (lower_elif el)"
  "wf_case_item (lower_case_item ci)"
  by (induction cc and ao and pl and cmd and el and ci)
    (auto simp: lower_simple_command_wf)

lemma lower_raise_all:
  "wf_complete_command hcc \<Longrightarrow> lower_complete_command (raise_complete_command hcc) = hcc"
  "wf_and_or hao \<Longrightarrow> lower_and_or (raise_and_or hao) = hao"
  "wf_pipeline hpl \<Longrightarrow> lower_pipeline (raise_pipeline hpl) = hpl"
  "wf_command hcmd \<Longrightarrow> lower_command (raise_command hcmd) = hcmd"
  "wf_elif hel \<Longrightarrow> lower_elif (raise_elif hel) = hel"
  "wf_case_item hci \<Longrightarrow> lower_case_item (raise_case_item hci) = hci"
  by (induction hcc and hao and hpl and hcmd and hel and hci)
    (auto simp: map_idI option.map_comp comp_def lower_raise_simple
      intro!: map_idI option.map_ident_strong)

text \<open>
  C15 (lowering loses nothing and normalises): the lowering is a bijection between syntax
  trees and the well-formed intermediate programs, in which every command to execute has a
  command word and every assignment command an assignment; \<open>raise_complete_command\<close>
  recovers the syntax tree, spans included.
\<close>

theorem lower_bijective:
  "bij_betw lower UNIV {hir. list_all wf_complete_command hir} \<and>
   map raise_complete_command (lower p) = p"
proof -
  have "lower (map raise_complete_command hir) = hir"
    if "list_all wf_complete_command hir" for hir
    using that by (auto simp: lower_def list_all_iff lower_raise_all intro!: map_idI)
  moreover have "map raise_complete_command (lower q) = q" for q
    by (auto simp: lower_def raise_lower_all intro!: map_idI)
  moreover have "list_all wf_complete_command (lower q)" for q
    by (auto simp: lower_def list_all_iff lower_wf_all)
  ultimately show ?thesis
    by (auto intro!: bij_betw_byWitness [where f' = "map raise_complete_command"])
qed

end
