(* ===== verification/Ir.thy ===== *)
theory Ir
  imports Hir
begin

text \<open>
  The linear instructions of \<^verbatim>\<open>crates/wasmsh-ir/src/lib.rs\<close> and the lowering of the supported
  subset of the intermediate representation into them.  The instruction buffer that the code
  extends in place is threaded through; on an error the caller discards it.  Positions in the
  buffer are natural numbers: a \<open>Vec\<close> is never longer than the address space.
\<close>

section \<open>Instructions\<close>

record ir_redirection =
  ir_fd :: "u32 option"
  ir_op :: redirection_op
  ir_target :: shell_word
  ir_here_doc :: "here_doc_body option"

type_synonym i32 = "32 word"

datatype ir =
    Assign string "shell_word option"
  | ExecuteBuiltin string "shell_word list" "ir_redirection list"
  | JumpIfFailure nat
  | JumpIfSuccess nat
  | ReturnLastStatus
  | Return i32
  | Nop

datatype lowering_error = Unsupported string

type_synonym ir_program = "ir list"

definition usize_max :: nat where "usize_max = 2 ^ 32 - 1"

section \<open>Lowering\<close>

definition ir_redirection_from :: "hir_redirection \<Rightarrow> ir_redirection" where
  "ir_redirection_from v =
     \<lparr>ir_fd = hredir_fd v, ir_op = hredir_op v, ir_target = hredir_target v,
      ir_here_doc = hredir_here_doc v\<rparr>"

fun append_literal_part :: "word_part \<Rightarrow> string \<Rightarrow> string option"
  and append_literal_parts :: "word_part list \<Rightarrow> string \<Rightarrow> string option"
  where
  "append_literal_part (Literal segment) text = Some (text @ segment)"
| "append_literal_part (SingleQuoted segment) text = Some (text @ segment)"
| "append_literal_part (DoubleQuoted inner) text = append_literal_parts inner text"
| "append_literal_part _ text = None"
| "append_literal_parts [] text = Some text"
| "append_literal_parts (part # rest) text =
     Option.bind (append_literal_part part text) (append_literal_parts rest)"

definition literal_word_text :: "shell_word option \<Rightarrow> string option" where
  "literal_word_text w = Option.bind w (\<lambda>w. append_literal_parts (word_parts w) [])"

fun lower_supported_command ::
  "hir_command \<Rightarrow> ir list \<Rightarrow> (ir list, lowering_error) result" where
  "lower_supported_command (HirAssign assigns redirs sp) instructions =
     (if redirs \<noteq> [] then Err (Unsupported ''assignment redirections are outside the VM subset'')
      else Ok (instructions @ map (\<lambda>a. Assign (hassign_name a) (hassign_value a)) assigns))"
| "lower_supported_command (HirExec argv env redirs sp) instructions =
     (if env \<noteq> [] then Err (Unsupported ''command env prefixes are outside the VM subset'')
      else
        case literal_word_text (case argv of [] \<Rightarrow> None | w # _ \<Rightarrow> Some w) of
          None \<Rightarrow> Err (Unsupported ''builtin name must be a literal word in the VM subset'')
        | Some name \<Rightarrow>
            Ok (instructions @ [ExecuteBuiltin name argv (map ir_redirection_from redirs)]))"
| "lower_supported_command _ instructions =
     Err (Unsupported ''command kind is outside the VM subset'')"

fun lower_supported_pipeline ::
  "hir_pipeline \<Rightarrow> ir list \<Rightarrow> (ir list, lowering_error) result" where
  "lower_supported_pipeline (HirPipeline timed time_posix negated commands pipe_stderr) instructions =
     (if negated then Err (Unsupported ''negated pipelines are outside the VM subset'')
      else if length commands \<noteq> 1
      then Err (Unsupported ''multi-stage pipelines are outside the VM subset'')
      else lower_supported_command (commands ! 0) instructions)"

fun jump_placeholder :: "hir_and_or_op \<Rightarrow> ir" where
  "jump_placeholder HirAnd = JumpIfFailure usize_max"
| "jump_placeholder HirOr = JumpIfSuccess usize_max"

definition patch_jump :: "ir list \<Rightarrow> nat \<Rightarrow> nat \<Rightarrow> (ir list, lowering_error) result" where
  "patch_jump instructions jump_index target =
     (if jump_index < length instructions then
        (case instructions ! jump_index of
           JumpIfFailure _ \<Rightarrow> Ok (instructions[jump_index := JumpIfFailure target])
         | JumpIfSuccess _ \<Rightarrow> Ok (instructions[jump_index := JumpIfSuccess target])
         | _ \<Rightarrow> Panic ''jump placeholder must remain a jump'')
      else Panic ''index out of bounds'')"

fun lower_supported_rest ::
  "(hir_and_or_op \<times> hir_pipeline) list \<Rightarrow> ir list \<Rightarrow> (ir list, lowering_error) result" where
  "lower_supported_rest [] instructions = Ok instructions"
| "lower_supported_rest ((op, pipeline) # rest) instructions =
     (let jump_index = length instructions in
      result_bind (lower_supported_pipeline pipeline (instructions @ [jump_placeholder op]))
        (\<lambda>instructions. result_bind (patch_jump instructions jump_index (length instructions))
           (lower_supported_rest rest)))"

fun lower_supported_and_or :: "hir_and_or \<Rightarrow> (ir_program, lowering_error) result" where
  "lower_supported_and_or (HirAndOr first rest) =
     result_bind (lower_supported_pipeline first [])
       (\<lambda>instructions. result_bind (lower_supported_rest rest instructions)
          (\<lambda>instructions. Ok (instructions @ [ReturnLastStatus])))"

section \<open>The shape of lowered code\<close>

text \<open>The code of one pipeline, when it is in the subset.\<close>

definition pipeline_code :: "hir_pipeline \<Rightarrow> ir list option" where
  "pipeline_code p = (case lower_supported_pipeline p [] of Ok c \<Rightarrow> Some c | _ \<Rightarrow> None)"

lemma lower_supported_command_append:
  "lower_supported_command c is =
     (case lower_supported_command c [] of Ok code \<Rightarrow> Ok (is @ code) | Err e \<Rightarrow> Err e | Panic m \<Rightarrow> Panic m)"
  by (cases c) (auto split: option.splits)

lemma lower_supported_pipeline_append:
  "lower_supported_pipeline p is =
     (case lower_supported_pipeline p [] of Ok code \<Rightarrow> Ok (is @ code) | Err e \<Rightarrow> Err e | Panic m \<Rightarrow> Panic m)"
proof (cases p)
  case (HirPipeline timed time_posix negated commands pipe_stderr)
  then show ?thesis
    using lower_supported_command_append [of "commands ! 0" "is"] by simp
qed

lemma lower_supported_command_not_Panic [simp]: "lower_supported_command c is \<noteq> Panic m"
  by (cases c) (auto split: option.splits)

lemma lower_supported_pipeline_not_Panic [simp]: "lower_supported_pipeline p is \<noteq> Panic m"
  by (cases p) simp

lemma lower_supported_pipeline_code:
  "lower_supported_pipeline p is = Ok c \<longleftrightarrow> (\<exists>code. pipeline_code p = Some code \<and> c = is @ code)"
  using lower_supported_pipeline_append [of p "is"]
  by (auto simp: pipeline_code_def split: result.splits)

text \<open>The jump that guards a pipeline, with the position it was patched to.\<close>

fun jump_to :: "hir_and_or_op \<Rightarrow> nat \<Rightarrow> ir" where
  "jump_to HirAnd t = JumpIfFailure t"
| "jump_to HirOr t = JumpIfSuccess t"

lemma patch_jump_placeholder:
  "patch_jump (pre @ jump_placeholder op # code) (length pre) t = Ok (pre @ jump_to op t # code)"
  by (cases op) (simp_all add: patch_jump_def)

text \<open>
  Reference code generation: the target of a jump is computed before the code is laid out.
\<close>

fun rest_code :: "nat \<Rightarrow> (hir_and_or_op \<times> hir_pipeline) list \<Rightarrow> ir list option" where
  "rest_code pos [] = Some []"
| "rest_code pos ((op, p) # rest) =
     Option.bind (pipeline_code p) (\<lambda>code.
       let next = pos + 1 + length code in
       map_option (\<lambda>tl_code. jump_to op next # code @ tl_code) (rest_code next rest))"

lemma lower_supported_rest_code:
  "lower_supported_rest rest is = Ok c \<longleftrightarrow>
     (\<exists>code. rest_code (length is) rest = Some code \<and> c = is @ code)"
proof (induction rest arbitrary: "is")
  case (Cons p rest)
  obtain op pl where p: "p = (op, pl)" by (cases p)
  show ?case
  proof (cases "pipeline_code pl")
    case None
    then show ?thesis
      using lower_supported_pipeline_code [of pl "is @ [jump_placeholder op]"]
      by (auto simp: p Let_def result_bind_Ok_iff)
  next
    case (Some code)
    then have "lower_supported_pipeline pl (is @ [jump_placeholder op]) =
        Ok (is @ jump_placeholder op # code)"
      using lower_supported_pipeline_code [of pl "is @ [jump_placeholder op]"] by simp
    then show ?thesis
      using Cons.IH Some by (auto simp: p Let_def patch_jump_placeholder)
  qed
qed auto

lemma lower_supported_and_or_code:
  "lower_supported_and_or (HirAndOr first rest) = Ok c \<longleftrightarrow>
     (\<exists>code tl_code. pipeline_code first = Some code \<and> rest_code (length code) rest = Some tl_code \<and>
        c = code @ tl_code @ [ReturnLastStatus])"
  using lower_supported_pipeline_code [of first "[]"]
  by (auto simp: result_bind_Ok_iff lower_supported_rest_code)

lemma patch_jump_rest_not_Panic: "lower_supported_rest rest is \<noteq> Panic m"
proof (induction rest arbitrary: "is")
  case (Cons p rest)
  obtain op pl where p: "p = (op, pl)" by (cases p)
  show ?case
    using Cons lower_supported_pipeline_code [of pl "is @ [jump_placeholder op]"]
    by (auto simp: p Let_def result_bind_Panic_iff patch_jump_placeholder)
qed simp

text \<open>Straight-line instructions: what a single pipeline lowers to.\<close>

fun straight :: "ir \<Rightarrow> bool" where
  "straight (Assign _ _) = True"
| "straight (ExecuteBuiltin _ _ _) = True"
| "straight _ = False"

lemma pipeline_code_straight: "pipeline_code p = Some code \<Longrightarrow> list_all straight code"
proof -
  have "lower_supported_command c [] = Ok code \<Longrightarrow> list_all straight code" for c
    by (cases c) (auto simp: list_all_iff split: option.splits if_splits)
  then show "pipeline_code p = Some code \<Longrightarrow> list_all straight code"
    by (cases p) (auto simp: pipeline_code_def split: result.splits if_splits)
qed

section \<open>Properties\<close>

text \<open>The pipelines of the subset.\<close>

fun supported_command :: "hir_command \<Rightarrow> bool" where
  "supported_command (HirAssign assigns redirs sp) = (redirs = [])"
| "supported_command (HirExec argv env redirs sp) =
     (env = [] \<and> argv \<noteq> [] \<and> literal_word_text (Some (hd argv)) \<noteq> None)"
| "supported_command _ = False"

fun supported_pipeline :: "hir_pipeline \<Rightarrow> bool" where
  "supported_pipeline (HirPipeline timed time_posix negated commands pipe_stderr) =
     (\<not> negated \<and> length commands = 1 \<and> list_all supported_command commands)"

fun supported :: "hir_and_or \<Rightarrow> bool" where
  "supported (HirAndOr first rest) =
     (supported_pipeline first \<and> list_all (supported_pipeline \<circ> snd) rest)"

lemma pipeline_code_supported: "pipeline_code p \<noteq> None \<longleftrightarrow> supported_pipeline p"
proof -
  have "(\<exists>code. lower_supported_command c [] = Ok code) \<longleftrightarrow> supported_command c" for c
    by (cases c) (auto simp: literal_word_text_def split: list.splits option.splits)
  then show ?thesis
    by (cases p) (auto simp: pipeline_code_def length_Suc_conv split: result.splits,
        (metis result.distinct(1))+)
qed

lemma rest_code_supported: "rest_code n rest \<noteq> None \<longleftrightarrow> list_all (supported_pipeline \<circ> snd) rest"
proof (induction rest arbitrary: n)
  case (Cons p rest)
  then show ?case
    using pipeline_code_supported [of "snd p"]
    by (cases p; cases "pipeline_code (snd p)") (auto simp: Let_def)
qed simp

lemma rest_code_length_pos: "rest_code pos ((op, p) # rest) = Some code \<Longrightarrow> code \<noteq> []"
  by (auto simp: Let_def split: bind_splits)

text \<open>A jump at position \<open>pos + k\<close> of the code laid out from \<open>pos\<close>.\<close>

fun jump_ok :: "nat \<Rightarrow> nat \<Rightarrow> ir \<Rightarrow> bool" where
  "jump_ok pc bound (JumpIfFailure t) = (pc < t \<and> t \<le> bound)"
| "jump_ok pc bound (JumpIfSuccess t) = (pc < t \<and> t \<le> bound)"
| "jump_ok pc bound _ = True"

lemma straight_jump_ok: "straight i \<Longrightarrow> jump_ok pc bound i"
  by (cases i) simp_all

lemma jump_ok_mono: "jump_ok pc b i \<Longrightarrow> b \<le> b' \<Longrightarrow> jump_ok pc b' i"
  by (cases i) simp_all

lemma rest_code_jumps:
  "rest_code pos rest = Some code \<Longrightarrow> k < length code \<Longrightarrow>
   jump_ok (pos + k) (pos + length code) (code ! k)"
proof (induction rest arbitrary: pos code k)
  case (Cons x rest)
  obtain op p where x: "x = (op, p)" by (cases x)
  from Cons.prems(1) obtain pc tl_code where
    c: "pipeline_code p = Some pc" "rest_code (pos + 1 + length pc) rest = Some tl_code"
    "code = jump_to op (pos + 1 + length pc) # pc @ tl_code"
    by (auto simp: x Let_def Option.bind_eq_Some_conv)
  consider "k = 0" | "0 < k" "k \<le> length pc" | j where "k = 1 + length pc + j"
    by (metis less_eq_Suc_le not_less_eq_eq gr0I le_add_diff_inverse plus_1_eq_Suc)
  then show ?case
  proof cases
    case 1
    then show ?thesis using c(3) by (cases op) simp_all
  next
    case 2
    then have "straight (code ! k)"
      using pipeline_code_straight [OF c(1)] c(3)
      by (cases k) (auto simp: nth_append list_all_length)
    then show ?thesis by (rule straight_jump_ok)
  next
    case (3 j)
    then have "code ! k = tl_code ! j" "j < length tl_code"
      using c(3) Cons.prems(2) by (simp_all add: nth_append)
    then show ?thesis
      using Cons.IH [OF c(2), of j] 3 c(3) by (simp add: algebra_simps)
  qed
qed simp

text \<open>
  Every jump of a program leads forward, to a position inside the program.
\<close>

definition forward_jumps :: "ir list \<Rightarrow> bool" where
  "forward_jumps is \<longleftrightarrow> list_all (\<lambda>pc. jump_ok pc (length is - 1) (is ! pc)) [0..<length is]"

lemma forward_jumpsI:
  "(\<And>pc. pc < length is \<Longrightarrow> jump_ok pc (length is - 1) (is ! pc)) \<Longrightarrow> forward_jumps is"
  by (simp add: forward_jumps_def list_all_iff)

lemma lowered_forward_jumps:
  assumes "pipeline_code first = Some code" "rest_code (length code) rest = Some tl_code"
  shows "forward_jumps (code @ tl_code @ [ReturnLastStatus])"
proof (rule forward_jumpsI)
  fix pc assume pc: "pc < length (code @ tl_code @ [ReturnLastStatus])"
  let ?is = "code @ tl_code @ [ReturnLastStatus]"
  consider "pc < length code" | k where "pc = length code + k" "k < length tl_code"
    | "pc = length code + length tl_code"
    using pc by (metis (no_types, lifting) add_diff_inverse_nat length_append length_append_singleton
        less_antisym nat_add_left_cancel_less append_assoc)
  then show "jump_ok pc (length ?is - 1) (?is ! pc)"
  proof cases
    case 1
    then have "straight (?is ! pc)"
      using pipeline_code_straight [OF assms(1)] by (simp add: nth_append list_all_length)
    then show ?thesis by (rule straight_jump_ok)
  next
    case (2 k)
    then show ?thesis using rest_code_jumps [OF assms(2)] by (simp add: nth_append)
  next
    case 3
    then show ?thesis by (simp add: nth_append)
  qed
qed

lemma lowering_shape:
  assumes "lower_supported_and_or ao = Ok code"
  shows "forward_jumps code" "last code = ReturnLastStatus" "code \<noteq> []"
proof -
  obtain first rest where ao: "ao = HirAndOr first rest" by (cases ao)
  obtain c cs where "pipeline_code first = Some c" "rest_code (length c) rest = Some cs"
    "code = c @ cs @ [ReturnLastStatus]"
    using assms unfolding ao lower_supported_and_or_code by blast
  then show "forward_jumps code" "last code = ReturnLastStatus" "code \<noteq> []"
    using lowered_forward_jumps by simp_all
qed

text \<open>
  C23 (lowering to instructions is exact): an and-or list lowers if and only if each of its
  pipelines is a single command of the supported subset, not negated; lowering never panics;
  and in the code it produces no placeholder is left: every jump leads forward to a position
  inside the program, whose last instruction returns the status.
\<close>

theorem lowering_exact:
  "case lower_supported_and_or ao of
     Ok code \<Rightarrow> supported ao \<and> forward_jumps code \<and> last code = ReturnLastStatus
   | Err e \<Rightarrow> \<not> supported ao
   | Panic m \<Rightarrow> False"
proof (cases ao)
  case (HirAndOr first rest)
  have sup: "(\<exists>c. lower_supported_and_or ao = Ok c) \<longleftrightarrow> supported ao"
  proof (cases "pipeline_code first")
    case None
    then show ?thesis
      unfolding HirAndOr lower_supported_and_or_code
      using pipeline_code_supported [of first] by simp
  next
    case (Some code)
    then show ?thesis
      unfolding HirAndOr lower_supported_and_or_code
      using pipeline_code_supported [of first] rest_code_supported [of "length code" rest] by auto
  qed
  show ?thesis
  proof (cases "lower_supported_and_or ao")
    case (Ok c)
    then show ?thesis using sup lowering_shape [OF Ok] by auto
  next
    case (Err e)
    then show ?thesis using sup by auto
  next
    case (Panic m)
    then show ?thesis
      by (simp add: HirAndOr result_bind_Panic_iff patch_jump_rest_not_Panic)
  qed
qed

end
