(* ===== verification/Shell_State.thy ===== *)
theory Shell_State
  imports Prelude
begin

text \<open>
  The shell's state, \<^verbatim>\<open>crates/wasmsh-state/src/lib.rs\<close>: variable scopes, special parameters,
  arrays and pending errors.  An \<open>IndexMap\<close> is an association list in insertion order.  The
  \<open>Cell\<close> fields that a read updates are threaded through \<open>get_var\<close>.  The model is of the
  \<open>wasm32\<close> build: \<open>shell_pid\<close> is 1 and \<open>$SECONDS\<close> is 0 until a clock reading is given.
\<close>

section \<open>Variables\<close>

unbundle bit_operations_syntax

datatype var_value =
    Scalar string
  | IndexedArray "(usize, string) alist_map"
  | AssocArray "(string, string) alist_map"

fun as_scalar :: "var_value \<Rightarrow> string" where
  "as_scalar (Scalar s) = s"
| "as_scalar (IndexedArray m) = join_with '' '' (map snd m)"
| "as_scalar (AssocArray m) = join_with '' '' (map snd m)"

record shell_var =
  var_val :: var_value
  exported :: bool
  readonly :: bool
  integer_attr :: bool
  nameref :: bool

definition scalar_var :: "string \<Rightarrow> shell_var" where
  "scalar_var v = \<lparr>var_val = Scalar v, exported = False, readonly = False,
                   integer_attr = False, nameref = False\<rparr>"

type_synonym scope = "(string, shell_var) alist_map"

text \<open>The scopes of an environment, the global one first and the innermost last.\<close>

type_synonym shell_env = "scope list"

definition env_new :: shell_env where
  "env_new = [[]]"

text \<open>The searches of \<open>get\<close> and \<open>get_mut\<close>, over the scopes from the innermost outward.\<close>

fun find_var :: "scope list \<Rightarrow> string \<Rightarrow> shell_var option" where
  "find_var [] name = None"
| "find_var (scope # outer) name =
     (case map_of scope name of Some var \<Rightarrow> Some var | None \<Rightarrow> find_var outer name)"

definition env_get :: "shell_env \<Rightarrow> string \<Rightarrow> shell_var option" where
  "env_get env name = find_var (rev env) name"

fun update_found :: "scope list \<Rightarrow> string \<Rightarrow> (shell_var \<Rightarrow> shell_var) \<Rightarrow> scope list" where
  "update_found [] name f = []"
| "update_found (scope # outer) name f =
     (case map_of scope name of
        Some var \<Rightarrow> AList.update name (f var) scope # outer
      | None \<Rightarrow> scope # update_found outer name f)"

text \<open>An update of the variable that \<open>get_mut\<close> finds.\<close>

definition env_get_mut :: "shell_env \<Rightarrow> string \<Rightarrow> (shell_var \<Rightarrow> shell_var) \<Rightarrow> shell_env" where
  "env_get_mut env name f = rev (update_found (rev env) name f)"

definition env_set :: "shell_env \<Rightarrow> string \<Rightarrow> shell_var \<Rightarrow> shell_env" where
  "env_set env name var =
     (if env = [] then env else butlast env @ [AList.update name var (last env)])"

definition push_scope :: "shell_env \<Rightarrow> shell_env" where
  "push_scope env = env @ [[]]"

definition pop_scope :: "shell_env \<Rightarrow> shell_env \<times> scope option" where
  "pop_scope env = (if 1 < length env then (butlast env, Some (last env)) else (env, None))"

definition env_remove :: "shell_env \<Rightarrow> string \<Rightarrow> shell_env" where
  "env_remove env name =
     (if env = [] then env else butlast env @ [AList.delete name (last env)])"

definition exported_vars :: "shell_env \<Rightarrow> (string, string) alist_map" where
  "exported_vars env =
     foldl (\<lambda>result (name, var).
         if exported var then AList.update name (as_scalar (var_val var)) result else result)
       [] (concat env)"

section \<open>State\<close>

record shell_state =
  env :: shell_env
  positional :: "string list"
  last_status :: "32 word"
  cwd :: string
  lineno :: u32
  random_seed :: u32
  seconds_elapsed_ms :: "u64 option"
  func_stack :: "string list"
  source_stack :: "string list"
  script_name :: "string option"
  shell_pid :: u32
  last_background_pid :: "u32 option"
  last_argument :: string
  dir_stack :: "string list"
  umask :: u32

definition state_new :: shell_state where
  "state_new =
     \<lparr>env = env_new, positional = [], last_status = 0, cwd = ''/'', lineno = 0,
      random_seed = 12345, seconds_elapsed_ms = None, func_stack = [], source_stack = [],
      script_name = None, shell_pid = 1, last_background_pid = None, last_argument = [],
      dir_stack = [], umask = 18\<rparr>"

definition xorshift :: "u32 \<Rightarrow> u32" where
  "xorshift x0 =
     (let x1 = x0 XOR push_bit 13 x0;
          x2 = x1 XOR drop_bit 17 x1
      in x2 XOR push_bit 5 x2)"

definition next_random :: "shell_state \<Rightarrow> shell_state \<times> u32" where
  "next_random st =
     (let x = xorshift (random_seed st) in (st\<lparr>random_seed := x\<rparr>, x mod 32768))"

definition show_u :: "'a::len word \<Rightarrow> string" where
  "show_u w = show_nat (unat w)"

definition show_i :: "'a::len word \<Rightarrow> string" where
  "show_i w = show_int (sint w)"

definition stack_last_or_default :: "string list \<Rightarrow> string" where
  "stack_last_or_default stack = (if stack = [] then [] else last stack)"

definition positional_param_index :: "string \<Rightarrow> usize option" where
  "positional_param_index name =
     Option.bind (parse_usize name) (\<lambda>n. if n \<ge> 1 then Some (n - 1) else None)"

definition nameref_target :: "shell_var \<Rightarrow> string \<Rightarrow> string option" where
  "nameref_target var name =
     (if \<not> nameref var then None
      else let target = as_scalar (var_val var) in
        if target \<noteq> [] \<and> target \<noteq> name then Some target else None)"

definition seconds_value :: "shell_state \<Rightarrow> string" where
  "seconds_value st =
     (case seconds_elapsed_ms st of Some ms \<Rightarrow> show_u (ms div 1000) | None \<Rightarrow> ''0'')"

definition get_env_var :: "shell_state \<Rightarrow> string \<Rightarrow> string option" where
  "get_env_var st name =
     Option.bind (env_get (env st) name) (\<lambda>var.
       case nameref_target var name of
         Some target \<Rightarrow> map_option (\<lambda>v. as_scalar (var_val v)) (env_get (env st) target)
       | None \<Rightarrow> Some (as_scalar (var_val var)))"

definition option_flag_vars :: "(string \<times> char) list" where
  "option_flag_vars =
     [(''SHOPT_a'', CHR ''a''), (''SHOPT_C'', CHR ''C''), (''SHOPT_E'', CHR ''E''),
      (''SHOPT_e'', CHR ''e''), (''SHOPT_f'', CHR ''f''), (''SHOPT_n'', CHR ''n''),
      (''SHOPT_p'', CHR ''p''), (''SHOPT_T'', CHR ''T''), (''SHOPT_u'', CHR ''u''),
      (''SHOPT_v'', CHR ''v''), (''SHOPT_x'', CHR ''x'')]"

definition option_flags :: "shell_state \<Rightarrow> string" where
  "option_flags st =
     map snd (filter (\<lambda>(name, flag). get_env_var st name = Some ''1'') option_flag_vars)"

definition get_named_or_positional_var :: "shell_state \<Rightarrow> string \<Rightarrow> string option" where
  "get_named_or_positional_var st name =
     (case positional_param_index name of
        Some index \<Rightarrow>
          if unat index < length (positional st) then Some (positional st ! unat index) else None
      | None \<Rightarrow> get_env_var st name)"

definition get_var :: "shell_state \<Rightarrow> string \<Rightarrow> shell_state \<times> string option" where
  "get_var st name =
     (if name = ''?'' then (st, Some (show_i (last_status st)))
      else if name = ''$$'' then (st, Some (show_u (shell_pid st)))
      else if name = ''!'' then
        (st, Some (case last_background_pid st of None \<Rightarrow> [] | Some pid \<Rightarrow> show_u pid))
      else if name = ''#'' then (st, Some (show_nat (length (positional st))))
      else if name = ''-'' then (st, Some (option_flags st))
      else if name = ''0'' then
        (st, Some (case script_name st of Some s \<Rightarrow> s | None \<Rightarrow> ''wasmsh''))
      else if name = ''_'' then (st, Some (last_argument st))
      else if name = ''@'' \<or> name = ''*'' then (st, Some (join_with '' '' (positional st)))
      else if name = ''RANDOM'' then
        (let (st', r) = next_random st in (st', Some (show_u r)))
      else if name = ''LINENO'' then (st, Some (show_u (lineno st)))
      else if name = ''SECONDS'' then (st, Some (seconds_value st))
      else if name = ''FUNCNAME'' then (st, Some (stack_last_or_default (func_stack st)))
      else if name = ''BASH_SOURCE'' then (st, Some (stack_last_or_default (source_stack st)))
      else (st, get_named_or_positional_var st name))"

definition set_monotonic_elapsed_ms :: "shell_state \<Rightarrow> u64 \<Rightarrow> shell_state" where
  "set_monotonic_elapsed_ms st ms = st\<lparr>seconds_elapsed_ms := Some ms\<rparr>"

definition set_last_argument :: "shell_state \<Rightarrow> string \<Rightarrow> shell_state" where
  "set_last_argument st arg = st\<lparr>last_argument := arg\<rparr>"

definition set_last_background_pid :: "shell_state \<Rightarrow> u32 option \<Rightarrow> shell_state" where
  "set_last_background_pid st pid = st\<lparr>last_background_pid := pid\<rparr>"

section \<open>Assignment\<close>

definition allexport :: "shell_env \<Rightarrow> bool" where
  "allexport e =
     (case env_get e ''SHOPT_a'' of Some v \<Rightarrow> var_val v = Scalar ''1'' | None \<Rightarrow> False)"

definition flags_of :: "shell_env \<Rightarrow> string \<Rightarrow> bool \<times> bool" where
  "flags_of e name =
     (case env_get e name of None \<Rightarrow> (False, False) | Some v \<Rightarrow> (exported v, readonly v))"

definition attrs_of :: "shell_env \<Rightarrow> string \<Rightarrow> bool \<times> bool" where
  "attrs_of e name =
     (case env_get e name of None \<Rightarrow> (False, False) | Some v \<Rightarrow> (integer_attr v, nameref v))"

text \<open>\<open>set_var\<close> past the nameref check.\<close>

definition set_var_here :: "shell_state \<Rightarrow> string \<Rightarrow> string \<Rightarrow> shell_state" where
  "set_var_here st name v =
     (let (ex, ro) = flags_of (env st) name in
      if ro then st
      else
        let ex' = (if \<not> ex \<and> \<not> prefix ''SHOPT_'' name \<and> \<not> prefix ''_'' name \<and> allexport (env st)
                   then True else ex);
            (int_attr, nref) = attrs_of (env st) name
        in st\<lparr>env := env_set (env st) name
                \<lparr>var_val = Scalar v, exported = ex', readonly = ro,
                 integer_attr = int_attr, nameref = nref\<rparr>\<rparr>)"

definition set_var_ref :: "shell_env \<Rightarrow> string \<Rightarrow> string option" where
  "set_var_ref e name = Option.bind (env_get e name) (\<lambda>var. nameref_target var name)"

text \<open>
  \<open>set_var\<close> calls itself on the target of a nameref.  \<open>None\<close> is a call that does not
  return: the recursion is unbounded when namerefs form a cycle.
\<close>

partial_function (option) set_var :: "shell_state \<Rightarrow> string \<Rightarrow> string \<Rightarrow> shell_state option" where
  "set_var st name v =
     (case set_var_ref (env st) name of
        Some target \<Rightarrow> set_var st target v
      | None \<Rightarrow> Some (set_var_here st name v))"

definition readonly_msg :: "string \<Rightarrow> string" where
  "readonly_msg name = name @ '': readonly variable''"

definition is_var_readonly :: "shell_state \<Rightarrow> string \<Rightarrow> bool" where
  "is_var_readonly st name = (case env_get (env st) name of Some v \<Rightarrow> readonly v | None \<Rightarrow> False)"

definition set_var_checked ::
  "shell_state \<Rightarrow> string \<Rightarrow> string \<Rightarrow> (shell_state \<times> (unit, string) result) option" where
  "set_var_checked st name v =
     (if is_var_readonly st name then Some (st, Err (readonly_msg name))
      else map_option (\<lambda>st'. (st', Ok ())) (set_var st name v))"

definition set_readonly :: "shell_state \<Rightarrow> string \<Rightarrow> string \<Rightarrow> shell_state" where
  "set_readonly st name v =
     (let (ex, int_attr, nref) =
        (case env_get (env st) name of
           None \<Rightarrow> (False, False, False)
         | Some w \<Rightarrow> (exported w, integer_attr w, nameref w))
      in st\<lparr>env := env_set (env st) name
             \<lparr>var_val = Scalar v, exported = ex, readonly = True,
              integer_attr = int_attr, nameref = nref\<rparr>\<rparr>)"

definition unset_var :: "shell_state \<Rightarrow> string \<Rightarrow> shell_state \<times> (unit, string) result" where
  "unset_var st name =
     (if is_var_readonly st name then (st, Err (readonly_msg name))
      else (st\<lparr>env := env_remove (env st) name\<rparr>, Ok ()))"

section \<open>Pending errors\<close>

definition NOUNSET_ERROR_VAR :: string where "NOUNSET_ERROR_VAR = ''_NOUNSET_ERROR''"

definition ARITH_ERROR_VAR :: string where "ARITH_ERROR_VAR = ''_ARITH_ERROR''"

definition SHELL_ERROR_VAR :: string where "SHELL_ERROR_VAR = ''_SHELL_ERROR''"

definition SHELL_ERROR_FATAL_PREFIX :: char where "SHELL_ERROR_FATAL_PREFIX = CHR 0x01"

definition set_pending :: "string \<Rightarrow> shell_state \<Rightarrow> string \<Rightarrow> shell_state" where
  "set_pending key st msg = st\<lparr>env := env_set (env st) key (scalar_var msg)\<rparr>"

definition take_pending :: "string \<Rightarrow> shell_state \<Rightarrow> shell_state \<times> string option" where
  "take_pending key st =
     (case env_get (env st) key of
        None \<Rightarrow> (st, None)
      | Some var \<Rightarrow>
          (let msg = as_scalar (var_val var) in
           if msg = [] then (st, None)
           else (st\<lparr>env := env_remove (env st) key\<rparr>, Some msg)))"

definition set_nounset_error :: "shell_state \<Rightarrow> string \<Rightarrow> shell_state" where
  "set_nounset_error = set_pending NOUNSET_ERROR_VAR"

definition take_nounset_error :: "shell_state \<Rightarrow> shell_state \<times> string option" where
  "take_nounset_error = take_pending NOUNSET_ERROR_VAR"

definition set_arith_error :: "shell_state \<Rightarrow> string \<Rightarrow> shell_state" where
  "set_arith_error = set_pending ARITH_ERROR_VAR"

definition take_arith_error :: "shell_state \<Rightarrow> shell_state \<times> string option" where
  "take_arith_error = take_pending ARITH_ERROR_VAR"

definition set_shell_error_inner :: "shell_state \<Rightarrow> string \<Rightarrow> bool \<Rightarrow> shell_state" where
  "set_shell_error_inner st message fatal =
     set_pending SHELL_ERROR_VAR st
       (if fatal then SHELL_ERROR_FATAL_PREFIX # message else message)"

definition set_shell_error :: "shell_state \<Rightarrow> string \<Rightarrow> shell_state" where
  "set_shell_error st message = set_shell_error_inner st message False"

definition set_fatal_shell_error :: "shell_state \<Rightarrow> string \<Rightarrow> shell_state" where
  "set_fatal_shell_error st message = set_shell_error_inner st message True"

definition take_shell_error :: "shell_state \<Rightarrow> shell_state \<times> (bool \<times> string) option" where
  "take_shell_error st =
     (let (st', r) = take_pending SHELL_ERROR_VAR st in
      (st', map_option (\<lambda>msg.
         case strip_prefix [SHELL_ERROR_FATAL_PREFIX] msg of
           Some rest \<Rightarrow> (True, rest)
         | None \<Rightarrow> (False, msg)) r))"

definition var_names_with_prefix :: "shell_state \<Rightarrow> string \<Rightarrow> string list" where
  "var_names_with_prefix st pre =
     sort (map fst (foldl (\<lambda>seen name. if prefix pre name then
         (case map_of seen name of None \<Rightarrow> AList.update name () seen | Some _ \<Rightarrow> seen) else seen)
       [] (concat (map (map fst) (rev (env st))))))"

section \<open>Arrays\<close>

definition next_array_index :: "(usize, string) alist_map \<Rightarrow> usize" where
  "next_array_index m = (if m = [] then 0 else Max (set (map fst m)) + 1)"

fun insert_from ::
  "usize \<Rightarrow> string list \<Rightarrow> (usize, string) alist_map \<Rightarrow> (usize, string) alist_map" where
  "insert_from k [] m = m"
| "insert_from k (v # vs) m = insert_from (k + 1) vs (AList.update k v m)"

definition append_to_indexed_array ::
  "(usize, string) alist_map \<Rightarrow> string list \<Rightarrow> (usize, string) alist_map" where
  "append_to_indexed_array m vs = insert_from (next_array_index m) vs m"

definition scalar_to_indexed_array :: "string \<Rightarrow> string list \<Rightarrow> (usize, string) alist_map" where
  "scalar_to_indexed_array s vs = append_to_indexed_array (if s \<noteq> [] then [(0, s)] else []) vs"

definition values_to_indexed_array :: "string list \<Rightarrow> (usize, string) alist_map" where
  "values_to_indexed_array vs = append_to_indexed_array [] vs"

definition get_array_element :: "shell_state \<Rightarrow> string \<Rightarrow> string \<Rightarrow> string option" where
  "get_array_element st name index =
     Option.bind (env_get (env st) name) (\<lambda>var.
       case var_val var of
         Scalar s \<Rightarrow> if index = ''0'' then Some s else None
       | IndexedArray m \<Rightarrow> Option.bind (parse_usize index) (map_of m)
       | AssocArray m \<Rightarrow> map_of m index)"

definition insert_parsed ::
  "string \<Rightarrow> string \<Rightarrow> (usize, string) alist_map \<Rightarrow> (usize, string) alist_map" where
  "insert_parsed index v m =
     (case parse_usize index of Some idx \<Rightarrow> AList.update idx v m | None \<Rightarrow> m)"

fun set_element :: "string \<Rightarrow> string \<Rightarrow> var_value \<Rightarrow> var_value" where
  "set_element index v (IndexedArray m) = IndexedArray (insert_parsed index v m)"
| "set_element index v (AssocArray m) = AssocArray (AList.update index v m)"
| "set_element index v (Scalar s) = IndexedArray (insert_parsed index v [])"

definition set_array_element :: "shell_state \<Rightarrow> string \<Rightarrow> string \<Rightarrow> string \<Rightarrow> shell_state" where
  "set_array_element st name index v =
     (let (ex, ro) = flags_of (env st) name in
      if ro then st
      else if env_get (env st) name \<noteq> None then
        st\<lparr>env := env_get_mut (env st) name
             (\<lambda>var. var\<lparr>var_val := set_element index v (var_val var)\<rparr>)\<rparr>
      else
        st\<lparr>env := env_set (env st) name
             \<lparr>var_val = IndexedArray (insert_parsed index v []), exported = ex, readonly = ro,
              integer_attr = False, nameref = False\<rparr>\<rparr>)"

definition get_array_keys :: "shell_state \<Rightarrow> string \<Rightarrow> string list" where
  "get_array_keys st name =
     (case env_get (env st) name of
        None \<Rightarrow> []
      | Some var \<Rightarrow>
          (case var_val var of
             Scalar s \<Rightarrow> if s = [] then [] else [''0'']
           | IndexedArray m \<Rightarrow> map (show_u \<circ> fst) m
           | AssocArray m \<Rightarrow> map fst m))"

definition get_array_values :: "shell_state \<Rightarrow> string \<Rightarrow> string list" where
  "get_array_values st name =
     (case env_get (env st) name of
        None \<Rightarrow> []
      | Some var \<Rightarrow>
          (case var_val var of
             Scalar s \<Rightarrow> if s = [] then [] else [s]
           | IndexedArray m \<Rightarrow> map snd m
           | AssocArray m \<Rightarrow> map snd m))"

definition get_array_length :: "shell_state \<Rightarrow> string \<Rightarrow> nat" where
  "get_array_length st name =
     (case env_get (env st) name of
        None \<Rightarrow> 0
      | Some var \<Rightarrow>
          (case var_val var of
             Scalar s \<Rightarrow> if s = [] then 0 else 1
           | IndexedArray m \<Rightarrow> length m
           | AssocArray m \<Rightarrow> length m))"

fun append_values :: "string list \<Rightarrow> var_value \<Rightarrow> var_value" where
  "append_values vs (IndexedArray m) = IndexedArray (append_to_indexed_array m vs)"
| "append_values vs (AssocArray m) = AssocArray m"
| "append_values vs (Scalar s) = IndexedArray (scalar_to_indexed_array s vs)"

definition append_array :: "shell_state \<Rightarrow> string \<Rightarrow> string list \<Rightarrow> shell_state" where
  "append_array st name vs =
     (if is_var_readonly st name then st
      else if env_get (env st) name \<noteq> None then
        st\<lparr>env := env_get_mut (env st) name
             (\<lambda>var. var\<lparr>var_val := append_values vs (var_val var)\<rparr>)\<rparr>
      else
        st\<lparr>env := env_set (env st) name
             \<lparr>var_val = IndexedArray (values_to_indexed_array vs), exported = False,
              readonly = False, integer_attr = False, nameref = False\<rparr>\<rparr>)"

fun unset_element :: "string \<Rightarrow> var_value \<Rightarrow> var_value" where
  "unset_element index (IndexedArray m) =
     (case parse_usize index of
        Some idx \<Rightarrow> IndexedArray (AList.delete idx m)
      | None \<Rightarrow> IndexedArray m)"
| "unset_element index (AssocArray m) = AssocArray (AList.delete index m)"
| "unset_element index (Scalar s) = (if index = ''0'' then Scalar [] else Scalar s)"

definition unset_array_element :: "shell_state \<Rightarrow> string \<Rightarrow> string \<Rightarrow> shell_state" where
  "unset_array_element st name index =
     (if is_var_readonly st name then st
      else st\<lparr>env := env_get_mut (env st) name
             (\<lambda>var. var\<lparr>var_val := unset_element index (var_val var)\<rparr>)\<rparr>)"

definition init_array :: "var_value \<Rightarrow> shell_state \<Rightarrow> string \<Rightarrow> shell_state" where
  "init_array empty_val st name =
     (let (ex, ro) = flags_of (env st) name in
      if ro then st
      else st\<lparr>env := env_set (env st) name
             \<lparr>var_val = empty_val, exported = ex, readonly = ro,
              integer_attr = False, nameref = False\<rparr>\<rparr>)"

definition init_indexed_array :: "shell_state \<Rightarrow> string \<Rightarrow> shell_state" where
  "init_indexed_array = init_array (IndexedArray [])"

definition init_assoc_array :: "shell_state \<Rightarrow> string \<Rightarrow> shell_state" where
  "init_assoc_array = init_array (AssocArray [])"

end
