(* ===== verification/Vm.thy ===== *)
theory Vm
  imports Ir Shell_State
begin

text \<open>
  The cooperative virtual machine of \<^verbatim>\<open>crates/wasmsh-vm/src/lib.rs\<close>: budgets, cancellation,
  output accounting and the instruction loop.  Counters are 64-bit words.  An executor (the
  trait \<open>VmExecutor\<close>) is a pair of functions on the executor's own state and the machine;
  \<open>None\<close> is a call that does not return.  A check that may stop the machine returns the
  reason as an option, which is \<open>Err\<close> of the code's \<open>Result<(), _>\<close>.
\<close>

section \<open>Limits, budgets and diagnostics\<close>

datatype step_result = Done i32 | Yield | Cancelled | OutputLimitExceeded

record execution_limits =
  step_limit :: u64
  output_byte_limit :: u64
  pipe_byte_limit :: u64
  recursion_limit :: u32

datatype diag_level = Trace | Info | Warning | Error

datatype diag_category =
    DiagParse | DiagExpansion | DiagRuntime | DiagFilesystem | DiagBuiltin | DiagBudget

record diagnostic_event =
  diag_level :: diag_level
  diag_category :: diag_category
  diag_message :: string

datatype budget_category = Steps | VisibleOutputBytes | PipeBytes | RecursionDepth

record exhaustion_reason =
  reason_category :: budget_category
  reason_used :: u64
  reason_limit :: u64

definition diagnostic_message :: "exhaustion_reason \<Rightarrow> string" where
  "diagnostic_message r =
     (let used = show_u (reason_used r); limit = show_u (reason_limit r) in
      case reason_category r of
        Steps \<Rightarrow> ''step budget exhausted: '' @ used @ '' steps (limit: '' @ limit @ '')''
      | VisibleOutputBytes \<Rightarrow>
          ''output limit exceeded: '' @ used @ '' bytes (limit: '' @ limit @ '')''
      | PipeBytes \<Rightarrow>
          ''pipe buffer limit exceeded: '' @ used @ '' bytes (limit: '' @ limit @ '')''
      | RecursionDepth \<Rightarrow>
          ''maximum recursion depth exceeded: '' @ used @ '' frames (limit: '' @ limit @ '')'')"

datatype stop_reason = Exhausted exhaustion_reason | StopCancelled

record budget_tracker =
  budget_steps :: u64
  visible_output_bytes :: u64
  pipe_bytes :: u64
  recursion_depth :: u32
  stop_reason :: "stop_reason option"

definition budget_default :: budget_tracker where
  "budget_default =
     \<lparr>budget_steps = 0, visible_output_bytes = 0, pipe_bytes = 0, recursion_depth = 0,
      stop_reason = None\<rparr>"

definition clear_stop_reason :: "budget_tracker \<Rightarrow> budget_tracker" where
  "clear_stop_reason b = b\<lparr>stop_reason := None\<rparr>"

definition exhaust ::
  "budget_tracker \<Rightarrow> exhaustion_reason \<Rightarrow> budget_tracker \<times> exhaustion_reason option" where
  "exhaust b reason = (b\<lparr>stop_reason := Some (Exhausted reason)\<rparr>, Some reason)"

definition note_cancelled :: "budget_tracker \<Rightarrow> budget_tracker" where
  "note_cancelled b = b\<lparr>stop_reason := Some StopCancelled\<rparr>"

definition budget_begin_step ::
  "budget_tracker \<Rightarrow> u64 \<Rightarrow> budget_tracker \<times> exhaustion_reason option" where
  "budget_begin_step b limit =
     (if limit > 0 \<and> budget_steps b \<ge> limit
      then exhaust b \<lparr>reason_category = Steps, reason_used = budget_steps b, reason_limit = limit\<rparr>
      else (b\<lparr>budget_steps := budget_steps b + 1\<rparr>, None))"

definition track_visible_output ::
  "budget_tracker \<Rightarrow> u64 \<Rightarrow> u64 \<Rightarrow> budget_tracker \<times> exhaustion_reason option" where
  "track_visible_output b n limit =
     (let b = b\<lparr>visible_output_bytes := sat_add (visible_output_bytes b) n\<rparr> in
      if limit > 0 \<and> visible_output_bytes b > limit
      then exhaust b \<lparr>reason_category = VisibleOutputBytes, reason_used = visible_output_bytes b,
                      reason_limit = limit\<rparr>
      else (b, None))"

definition set_pipe_bytes ::
  "budget_tracker \<Rightarrow> u64 \<Rightarrow> u64 \<Rightarrow> budget_tracker \<times> exhaustion_reason option" where
  "set_pipe_bytes b n limit =
     (let b = b\<lparr>pipe_bytes := n\<rparr> in
      if limit > 0 \<and> pipe_bytes b > limit
      then exhaust b \<lparr>reason_category = PipeBytes, reason_used = pipe_bytes b, reason_limit = limit\<rparr>
      else (b, None))"

definition enter_recursion ::
  "budget_tracker \<Rightarrow> u32 \<Rightarrow> budget_tracker \<times> exhaustion_reason option" where
  "enter_recursion b limit =
     (let b = b\<lparr>recursion_depth := sat_add (recursion_depth b) 1\<rparr> in
      if limit > 0 \<and> recursion_depth b > limit
      then exhaust b \<lparr>reason_category = RecursionDepth, reason_used = ucast (recursion_depth b),
                      reason_limit = ucast limit\<rparr>
      else (b, None))"

definition exit_recursion :: "budget_tracker \<Rightarrow> budget_tracker" where
  "exit_recursion b = b\<lparr>recursion_depth := sat_sub (recursion_depth b) 1\<rparr>"

section \<open>The machine\<close>

text \<open>
  \<open>cancel_flag\<close> is the atomic flag that the machine and the holders of its token share.  The
  builtin registry, which \<open>run\<close> moves into its executor and back, is that executor's state.
\<close>

record vm =
  vm_state :: shell_state
  vm_steps :: u64
  limits :: execution_limits
  output_bytes :: u64
  budget :: budget_tracker
  cancel_flag :: bool
  diagnostics :: "diagnostic_event list"
  vm_stdout :: bytes
  vm_stderr :: bytes

definition vm_with_limits :: "shell_state \<Rightarrow> execution_limits \<Rightarrow> vm" where
  "vm_with_limits st lim =
     \<lparr>vm_state = st, vm_steps = 0, limits = lim, output_bytes = 0, budget = budget_default,
      cancel_flag = False, diagnostics = [], vm_stdout = [], vm_stderr = []\<rparr>"

definition vm_new :: "shell_state \<Rightarrow> u64 \<Rightarrow> vm" where
  "vm_new st step_budget =
     vm_with_limits st \<lparr>step_limit = step_budget, output_byte_limit = 0, pipe_byte_limit = 0,
                        recursion_limit = 0\<rparr>"

definition token_cancel :: "vm \<Rightarrow> vm" where
  "token_cancel v = v\<lparr>cancel_flag := True\<rparr>"

definition token_reset :: "vm \<Rightarrow> vm" where
  "token_reset v = v\<lparr>cancel_flag := False\<rparr>"

definition emit_diagnostic :: "vm \<Rightarrow> diag_level \<Rightarrow> diag_category \<Rightarrow> string \<Rightarrow> vm" where
  "emit_diagnostic v level category message =
     v\<lparr>diagnostics := diagnostics v @
         [\<lparr>diag_level = level, diag_category = category, diag_message = message\<rparr>]\<rparr>"

definition budget_stop :: "vm \<Rightarrow> step_result \<Rightarrow> string \<Rightarrow> vm \<times> step_result option" where
  "budget_stop v result message = (emit_diagnostic v Error DiagBudget message, Some result)"

definition track_output :: "vm \<Rightarrow> u64 \<Rightarrow> vm" where
  "track_output v n =
     v\<lparr>output_bytes := output_bytes v + n,
       budget := fst (track_visible_output (budget v) n (output_byte_limit (limits v)))\<rparr>"

definition write_stdout :: "vm \<Rightarrow> bytes \<Rightarrow> vm" where
  "write_stdout v data = track_output (v\<lparr>vm_stdout := vm_stdout v @ data\<rparr>) (of_nat (length data))"

definition write_stderr :: "vm \<Rightarrow> bytes \<Rightarrow> vm" where
  "write_stderr v data = track_output (v\<lparr>vm_stderr := vm_stderr v @ data\<rparr>) (of_nat (length data))"

definition write_streams :: "vm \<Rightarrow> bytes \<Rightarrow> bytes \<Rightarrow> vm" where
  "write_streams v out err =
     track_output (v\<lparr>vm_stdout := vm_stdout v @ out, vm_stderr := vm_stderr v @ err\<rparr>)
       (of_nat (length out + length err))"

definition check_output_limit :: "vm \<Rightarrow> vm \<times> step_result option" where
  "check_output_limit v =
     (case stop_reason (budget v) of
        Some (Exhausted reason) \<Rightarrow>
          if reason_category reason = VisibleOutputBytes
          then budget_stop v OutputLimitExceeded (diagnostic_message reason)
          else (v, None)
      | _ \<Rightarrow> (v, None))"

definition begin_step :: "vm \<Rightarrow> vm \<times> step_result option" where
  "begin_step v =
     (if cancel_flag v
      then budget_stop (v\<lparr>budget := note_cancelled (budget v)\<rparr>) Cancelled ''execution cancelled''
      else
        case check_output_limit v of
          (v1, Some stop) \<Rightarrow> (v1, Some stop)
        | (v1, None) \<Rightarrow>
            (case budget_begin_step (budget v1) (step_limit (limits v1)) of
               (b, Some reason) \<Rightarrow>
                 budget_stop (v1\<lparr>budget := b, vm_steps := budget_steps b\<rparr>) Yield
                   (diagnostic_message reason)
             | (b, None) \<Rightarrow> (v1\<lparr>budget := b, vm_steps := budget_steps b\<rparr>, None)))"

section \<open>Executors and the instruction loop\<close>

type_synonym 'x assign_fn = "'x \<Rightarrow> vm \<Rightarrow> string \<Rightarrow> shell_word option \<Rightarrow> ('x \<times> vm) option"

type_synonym 'x execute_fn =
  "'x \<Rightarrow> vm \<Rightarrow> string \<Rightarrow> shell_word list \<Rightarrow> ir_redirection list \<Rightarrow> ('x \<times> vm \<times> i32) option"

abbreviation status_of :: "vm \<Rightarrow> i32" where
  "status_of v \<equiv> last_status (vm_state v)"

definition set_status :: "vm \<Rightarrow> i32 \<Rightarrow> vm" where
  "set_status v s = v\<lparr>vm_state := (vm_state v)\<lparr>last_status := s\<rparr>\<rparr>"

datatype next_pc = Goto nat | Halt step_result

text \<open>The body of the loop, past the step check: the effect of one instruction.\<close>

fun vm_instr ::
  "'x assign_fn \<Rightarrow> 'x execute_fn \<Rightarrow> 'x \<Rightarrow> vm \<Rightarrow> nat \<Rightarrow> ir \<Rightarrow> ('x \<times> vm \<times> next_pc) option" where
  "vm_instr asg exe x v pc (Assign name val) =
     map_option (\<lambda>(x, v). (x, v, Goto (pc + 1))) (asg x v name val)"
| "vm_instr asg exe x v pc (ExecuteBuiltin name argv redirs) =
     map_option (\<lambda>(x, v, status). (x, set_status v status, Goto (pc + 1))) (exe x v name argv redirs)"
| "vm_instr asg exe x v pc (JumpIfFailure target) =
     Some (x, v, Goto (if status_of v \<noteq> 0 then target else pc + 1))"
| "vm_instr asg exe x v pc (JumpIfSuccess target) =
     Some (x, v, Goto (if status_of v = 0 then target else pc + 1))"
| "vm_instr asg exe x v pc ReturnLastStatus = Some (x, v, Halt (Done (status_of v)))"
| "vm_instr asg exe x v pc (Return status) = Some (x, set_status v status, Halt (Done status))"
| "vm_instr asg exe x v pc Nop = Some (x, v, Goto (pc + 1))"

partial_function (option) run_loop ::
  "'x assign_fn \<Rightarrow> 'x execute_fn \<Rightarrow> ir list \<Rightarrow> 'x \<Rightarrow> vm \<Rightarrow> nat \<Rightarrow> ('x \<times> vm \<times> step_result) option"
  where
  "run_loop asg exe is x v pc =
     (if pc < length is then
        (case begin_step v of
           (v1, Some stop) \<Rightarrow> Some (x, v1, stop)
         | (v1, None) \<Rightarrow>
             Option.bind (vm_instr asg exe x v1 pc (is ! pc)) (\<lambda>(x2, v2, next).
               case next of
                 Goto pc' \<Rightarrow> run_loop asg exe is x2 v2 pc'
               | Halt r \<Rightarrow> Some (x2, v2, r)))
      else Some (x, v, Done (status_of v)))"

definition run_with_executor ::
  "'x assign_fn \<Rightarrow> 'x execute_fn \<Rightarrow> vm \<Rightarrow> ir_program \<Rightarrow> 'x \<Rightarrow> ('x \<times> vm \<times> step_result) option" where
  "run_with_executor asg exe v program x = run_loop asg exe program x v 0"

section \<open>The builtin executor\<close>

text \<open>
  \<open>wasmsh_expand::expand_word\<close> is a parameter, as are the functions in the registry, which
  the code, too, takes as values: a builtin gets the shell state and its arguments, and gives
  back the state, what it wrote to the two streams, and its status.
\<close>

type_synonym expand_fn = "shell_word \<Rightarrow> shell_state \<Rightarrow> shell_state \<times> string"

type_synonym builtin_fn = "shell_state \<Rightarrow> string list \<Rightarrow> shell_state \<times> bytes \<times> bytes \<times> i32"

type_synonym registry = "string \<Rightarrow> builtin_fn option"

definition builtin_assign :: "expand_fn \<Rightarrow> registry assign_fn" where
  "builtin_assign expand_word builtins v name val =
     (let (st, text) =
        (case val of None \<Rightarrow> (vm_state v, []) | Some word \<Rightarrow> expand_word word (vm_state v))
      in map_option (\<lambda>st'. (builtins, v\<lparr>vm_state := st'\<lparr>last_status := 0\<rparr>\<rparr>)) (set_var st name text))"

fun expand_all :: "expand_fn \<Rightarrow> shell_word list \<Rightarrow> shell_state \<Rightarrow> shell_state \<times> string list" where
  "expand_all expand_word [] st = (st, [])"
| "expand_all expand_word (word # words) st =
     (let (st1, text) = expand_word word st; (st2, texts) = expand_all expand_word words st1
      in (st2, text # texts))"

definition builtin_execute :: "expand_fn \<Rightarrow> registry execute_fn" where
  "builtin_execute expand_word builtins v name argv redirs =
     (case builtins name of
        None \<Rightarrow>
          (let v1 = emit_diagnostic v Error DiagBuiltin (''unknown builtin: '' @ name)
           in Some (builtins, set_status v1 127, 127))
      | Some builtin_fn \<Rightarrow>
          (let (st1, expanded) = expand_all expand_word argv (vm_state v);
               (st2, out, err, status) = builtin_fn st1 expanded;
               v1 = write_streams (v\<lparr>vm_state := st2\<rparr>) out err
           in Some (builtins, set_status v1 status, status)))"

definition vm_run :: "expand_fn \<Rightarrow> registry \<Rightarrow> vm \<Rightarrow> ir_program \<Rightarrow> (vm \<times> step_result) option" where
  "vm_run expand_word builtins v program =
     map_option (\<lambda>(_, v', r). (v', r))
       (run_with_executor (builtin_assign expand_word) (builtin_execute expand_word) v program builtins)"

end
