(* ===== verification/Shell_State_Props.thy ===== *)
theory Shell_State_Props
  imports Shell_State
begin

text \<open>
  What the shell state promises: assignment through namerefs and its termination, the
  protection of readonly variables by every operation, the isolation of the scope that a
  subshell pushes, array growth, pending errors and the random generator; and the places
  where the operations disagree with one another or with their comments.
\<close>

section \<open>The environment as a store\<close>

text \<open>
  The contract of a store of named values that a client reads and writes.
\<close>

locale named_store =
  fixes get :: "'s \<Rightarrow> 'k \<Rightarrow> 'v option"
    and put :: "'s \<Rightarrow> 'k \<Rightarrow> 'v \<Rightarrow> 's"
    and valid :: "'s \<Rightarrow> bool"
  assumes get_put: "valid s \<Longrightarrow> get (put s k v) m = (if m = k then Some v else get s m)"
    and put_valid: "valid s \<Longrightarrow> valid (put s k v)"
begin

text \<open>After a sequence of writes a name has the last value written to it.\<close>

lemma put_all_valid: "valid s \<Longrightarrow> valid (foldl (\<lambda>s (k, v). put s k v) s kvs)"
  by (induction kvs arbitrary: s) (auto simp: put_valid)

lemma get_put_all:
  "valid s \<Longrightarrow> get (foldl (\<lambda>s (k, v). put s k v) s kvs) m =
     (case map_of (rev kvs) m of Some v \<Rightarrow> Some v | None \<Rightarrow> get s m)"
proof (induction kvs arbitrary: s)
  case (Cons kv kvs)
  then show ?case
    by (cases kv) (auto simp: get_put put_valid map_add_def split: option.splits)
qed simp

end

lemma find_var_append:
  "find_var (ss @ ts) n = (case find_var ss n of Some v \<Rightarrow> Some v | None \<Rightarrow> find_var ts n)"
  by (induction ss) (auto split: option.splits)

lemma env_get_snoc:
  "env_get (outer @ [scope]) n = (case map_of scope n of Some v \<Rightarrow> Some v | None \<Rightarrow> env_get outer n)"
  by (simp add: env_get_def split: option.split)

lemma env_set_snoc: "env_set (outer @ [scope]) n v = outer @ [AList.update n v scope]"
  by (simp add: env_set_def)

lemma env_remove_snoc: "env_remove (outer @ [scope]) n = outer @ [AList.delete n scope]"
  by (simp add: env_remove_def)

lemma env_get_set [simp]:
  "e \<noteq> [] \<Longrightarrow> env_get (env_set e n v) m = (if m = n then Some v else env_get e m)"
  by (cases e rule: rev_cases) (simp_all add: env_set_snoc env_get_snoc alist_simps)

lemma env_set_not_Nil [simp]: "env_set e n v = [] \<longleftrightarrow> e = []"
  by (simp add: env_set_def)

lemma env_remove_not_Nil [simp]: "env_remove e n = [] \<longleftrightarrow> e = []"
  by (simp add: env_remove_def)

lemma env_get_remove_other: "m \<noteq> n \<Longrightarrow> env_get (env_remove e n) m = env_get e m"
  by (cases e rule: rev_cases)
    (simp_all add: env_remove_snoc env_get_snoc alist_simps, simp add: env_remove_def)

lemma find_update_found:
  "find_var (update_found ss n f) m = (if m = n then map_option f (find_var ss n) else find_var ss m)"
  by (induction ss) (auto simp: alist_simps split: option.splits)

lemma env_get_mut [simp]:
  "env_get (env_get_mut e n f) m = (if m = n then map_option f (env_get e n) else env_get e m)"
  by (simp add: env_get_def env_get_mut_def find_update_found)

lemma update_found_length [simp]: "length (update_found ss n f) = length ss"
  by (induction ss) (auto split: option.splits)

lemma env_get_mut_not_Nil [simp]: "env_get_mut e n f = [] \<longleftrightarrow> e = []"
  unfolding env_get_mut_def by (metis update_found_length length_rev length_0_conv rev_is_Nil_conv)

interpretation vars: named_store env_get env_set "\<lambda>e. e \<noteq> []"
  by unfold_locales simp_all

section \<open>Assignment through namerefs\<close>

text \<open>The name that an assignment reaches.\<close>

inductive resolves :: "shell_env \<Rightarrow> string \<Rightarrow> string \<Rightarrow> bool" for e where
  here: "set_var_ref e n = None \<Longrightarrow> resolves e n n"
| there: "set_var_ref e n = Some t \<Longrightarrow> resolves e t u \<Longrightarrow> resolves e n u"

inductive_cases resolves_cases: "resolves e n u"

lemma resolves_not_ref: "resolves e n t \<Longrightarrow> set_var_ref e t = None"
  by (induction rule: resolves.induct)

lemma set_var_resolved: "resolves (env st) n t \<Longrightarrow> set_var st n v = Some (set_var_here st t v)"
proof (induction n t rule: resolves.induct)
  case (here n)
  then show ?case by (subst set_var.simps) simp
next
  case (there n t u)
  then show ?case by (subst set_var.simps) simp
qed

lemma set_var_returns:
  assumes "set_var st n v = Some st'"
  shows "\<exists>t. resolves (env st) n t"
  using assms
  by (rule set_var.raw_induct [rotated]) (auto split: option.splits intro: here, metis there)

lemma set_var_here_effect:
  assumes "env st \<noteq> []"
  shows "(set_var_here st t v)\<lparr>env := env st\<rparr> = st"
    and "m \<noteq> t \<Longrightarrow> env_get (env (set_var_here st t v)) m = env_get (env st) m"
    and "is_var_readonly st t \<Longrightarrow> set_var_here st t v = st"
    and "\<not> is_var_readonly st t \<Longrightarrow>
      map_option var_val (env_get (env (set_var_here st t v)) t) = Some (Scalar v)"
  using assms
  by (auto simp: set_var_here_def flags_of_def is_var_readonly_def Let_def split: option.splits
      prod.splits)

lemma set_var_Some: "set_var st n v = Some st' \<Longrightarrow> \<exists>t. resolves (env st) n t \<and> st' = set_var_here st t v"
  using set_var_returns set_var_resolved by fastforce

text \<open>The flag for export after an assignment, which the option \<open>allexport\<close> sets for ordinary names.\<close>

definition exported_by :: "shell_state \<Rightarrow> string \<Rightarrow> shell_var option \<Rightarrow> bool" where
  "exported_by st t old \<longleftrightarrow>
     (case old of None \<Rightarrow> False | Some var \<Rightarrow> exported var) \<or>
     allexport (env st) \<and> \<not> prefix ''SHOPT_'' t \<and> \<not> prefix ''_'' t"

definition indexed_array :: "shell_state \<Rightarrow> string \<Rightarrow> bool" where
  "indexed_array st t \<longleftrightarrow> (\<exists>var xs. env_get (env st) t = Some var \<and> var_val var = IndexedArray xs)"

lemma set_var_here_attributes:
  assumes "env st \<noteq> []" "\<not> is_var_readonly st t"
  shows "env_get (env (set_var_here st t v)) t =
    Some (case env_get (env st) t of
        None \<Rightarrow> (scalar_var v)\<lparr>exported := exported_by st t None\<rparr>
      | Some var \<Rightarrow> var\<lparr>var_val := Scalar v, exported := exported_by st t (Some var)\<rparr>)"
  using assms
  by (auto simp: set_var_here_def flags_of_def attrs_of_def is_var_readonly_def exported_by_def scalar_var_def Let_def
      split: option.splits)

text \<open>
  C17 (assignment): an assignment returns exactly when the chain of namerefs that starts at its
  name ends; then the variable at the end of the chain, if it is neither readonly nor an indexed array, holds the value,
  with the attributes that it had (a new variable has none), except that \<open>allexport\<close> may export it; a readonly variable
  is not changed; and every other variable and every other part of the state is as before.
\<close>

theorem set_var_correct:
  "(set_var st n v \<noteq> None \<longleftrightarrow> (\<exists>t. resolves (env st) n t)) \<and>
   (env st \<noteq> [] \<and> resolves (env st) n t \<and> \<not> indexed_array st t \<longrightarrow>
     (\<exists>st'. set_var st n v = Some st' \<and> st'\<lparr>env := env st\<rparr> = st \<and>
        (\<forall>m. m \<noteq> t \<longrightarrow> env_get (env st') m = env_get (env st) m) \<and>
        (if is_var_readonly st t then st' = st
         else env_get (env st') t =
           Some (case env_get (env st) t of
               None \<Rightarrow> (scalar_var v)\<lparr>exported := exported_by st t None\<rparr>
             | Some var \<Rightarrow> var\<lparr>var_val := Scalar v, exported := exported_by st t (Some var)\<rparr>))))"
proof -
  have "set_var st n v \<noteq> None \<longleftrightarrow> (\<exists>t. resolves (env st) n t)"
    using set_var_returns set_var_resolved by fastforce
  then show ?thesis
    using set_var_here_effect(1,3) [of st t v] set_var_here_attributes [of st t v] set_var_resolved [of st n t v]
    by (auto simp: set_var_here_effect(2) intro!: exI [of _ "set_var_here st t v"])
qed

definition demo_state :: shell_state where
  "demo_state = state_new\<lparr>env :=
     [[(''r'', (scalar_var ''x'')\<lparr>nameref := True\<rparr>), (''x'', scalar_var ''1''),
       (''k'', (scalar_var ''9'')\<lparr>readonly := True\<rparr>)]]\<rparr>"

lemmas demo_simps = demo_state_def scalar_var_def env_get_def set_var_ref_def nameref_target_def
  env_set_def

theorem set_var_correct_witness:
  "\<exists>st'. set_var demo_state ''r'' ''2'' = Some st' \<and>
     map_option var_val (env_get (env st') ''x'') = Some (Scalar ''2'')"
proof -
  have "resolves (env demo_state) ''r'' ''x''"
    by (rule resolves.there [of _ _ "''x''"], simp add: demo_simps)
      (rule resolves.here, simp add: demo_simps)
  moreover have "\<not> is_var_readonly demo_state ''x''" "\<not> indexed_array demo_state ''x''" "env demo_state \<noteq> []"
    by (simp_all add: demo_simps is_var_readonly_def indexed_array_def)
  moreover have "env_get (env demo_state) ''x'' = Some (scalar_var ''1'')" by (simp add: demo_simps)
  ultimately show ?thesis
    using set_var_correct [of demo_state "''r''" "''2''" "''x''"] by auto
qed

text \<open>A set of names whose namerefs stay in the set: no assignment to any of them returns.\<close>

lemma resolves_leaves:
  "resolves e n t \<Longrightarrow> n \<in> S \<Longrightarrow> (\<And>m. m \<in> S \<Longrightarrow> \<exists>u\<in>S. set_var_ref e m = Some u) \<Longrightarrow> False"
proof (induction rule: resolves.induct)
  case (here n)
  from here(3) [OF here(2)] here(1) show ?case by auto
next
  case (there n t u)
  from there.prems(2) [OF there.prems(1)] there.hyps(1) have "t \<in> S" by auto
  with there show ?case by blast
qed

text \<open>
  Namerefs that form a cycle: declaring two namerefs at one another makes every
  assignment to either of them recurse for ever.
\<close>

theorem nameref_cycle_diverges:
  assumes "env st \<noteq> []" "a \<noteq> b" "a \<noteq> []" "b \<noteq> []"
  shows "(let e = env_set (env_set (env st) a ((scalar_var b)\<lparr>nameref := True\<rparr>))
                    b ((scalar_var a)\<lparr>nameref := True\<rparr>)
          in set_var (st\<lparr>env := e\<rparr>) a v = None \<and> set_var (st\<lparr>env := e\<rparr>) b v = None)"
proof -
  let ?e = "env_set (env_set (env st) a ((scalar_var b)\<lparr>nameref := True\<rparr>))
              b ((scalar_var a)\<lparr>nameref := True\<rparr>)"
  have refs: "set_var_ref ?e a = Some b" "set_var_ref ?e b = Some a"
    using assms by (simp_all add: set_var_ref_def nameref_target_def scalar_var_def)
  have "set_var (st\<lparr>env := ?e\<rparr>) n v = None" if "n \<in> {a, b}" for n
    using that refs resolves_leaves [of ?e n _ "{a, b}"] set_var_returns [of "st\<lparr>env := ?e\<rparr>" n v]
    by (cases "set_var (st\<lparr>env := ?e\<rparr>) n v") auto
  then show ?thesis by (simp add: Let_def)
qed

theorem nameref_cycle_diverges_witness:
  "set_var (state_new\<lparr>env := env_set (env_set (env state_new) ''a''
      ((scalar_var ''b'')\<lparr>nameref := True\<rparr>)) ''b'' ((scalar_var ''a'')\<lparr>nameref := True\<rparr>)\<rparr>)
    ''a'' ''1'' = None"
  using nameref_cycle_diverges [of state_new "''a''" "''b''" "''1''"]
  by (simp add: state_new_def env_new_def Let_def)

text \<open>
  Reads follow one nameref, writes follow all: with a nameref to a nameref, an
  assignment reaches the variable at the end, and reading the name back yields that variable's
  name and not the value just assigned.
\<close>

theorem nameref_chain_read_differs:
  assumes "env st \<noteq> []" "set_var_ref (env st) a = Some b" "set_var_ref (env st) b = Some c"
    and "\<not> snd (attrs_of (env st) c)" "\<not> is_var_readonly st c" "c \<noteq> a" "c \<noteq> b"
  shows "\<exists>st'. set_var st a v = Some st' \<and> get_env_var st' c = Some v \<and> get_env_var st' a = Some c"
proof -
  have "set_var_ref (env st) c = None"
    using assms(4) by (auto simp: set_var_ref_def attrs_of_def nameref_target_def split: option.splits)
  then have "set_var st a v = Some (set_var_here st c v)"
    using assms(2,3) by (intro set_var_resolved) (blast intro: resolves.intros)
  moreover obtain va vb where v: "env_get (env st) a = Some va" "nameref_target va a = Some b"
    "env_get (env st) b = Some vb" "nameref_target vb b = Some c"
    using assms(2,3) by (auto simp: set_var_ref_def Option.bind_eq_Some_conv)
  moreover have "as_scalar (var_val vb) = c"
    using v(4) by (auto simp: nameref_target_def Let_def split: if_splits)
  ultimately show ?thesis
    using assms(1,4-7)
    by (auto simp: set_var_here_def get_env_var_def flags_of_def attrs_of_def is_var_readonly_def
        nameref_target_def Let_def split: option.splits if_splits)
qed

theorem nameref_chain_read_differs_witness:
  "\<exists>st'. set_var (demo_state\<lparr>env := env_set (env demo_state) ''s''
       ((scalar_var ''r'')\<lparr>nameref := True\<rparr>)\<rparr>) ''s'' ''7'' = Some st' \<and>
     get_env_var st' ''s'' = Some ''x''"
proof -
  let ?st = "demo_state\<lparr>env := env_set (env demo_state) ''s'' ((scalar_var ''r'')\<lparr>nameref := True\<rparr>)\<rparr>"
  have "env ?st \<noteq> []" "set_var_ref (env ?st) ''s'' = Some ''r''"
    "set_var_ref (env ?st) ''r'' = Some ''x''" "\<not> snd (attrs_of (env ?st) ''x'')"
    "\<not> is_var_readonly ?st ''x''"
    by (simp_all add: demo_simps attrs_of_def is_var_readonly_def)
  then show ?thesis
    using nameref_chain_read_differs [of ?st "''s''" "''r''" "''x''" "''7''"] by auto
qed

section \<open>Readonly variables\<close>

text \<open>The operations a command can perform on variables, other than declaring one readonly.\<close>

datatype var_op =
    OpSet string string
  | OpSetChecked string string
  | OpUnset string
  | OpSetElement string string string
  | OpAppend string "string list"
  | OpUnsetElement string string
  | OpInitIndexed string
  | OpInitAssoc string
  | OpGet string

fun var_step :: "shell_state \<Rightarrow> var_op \<Rightarrow> shell_state option" where
  "var_step st (OpSet n v) = set_var st n v"
| "var_step st (OpSetChecked n v) = map_option fst (set_var_checked st n v)"
| "var_step st (OpUnset n) = Some (fst (unset_var st n))"
| "var_step st (OpSetElement n i v) = Some (set_array_element st n i v)"
| "var_step st (OpAppend n vs) = Some (append_array st n vs)"
| "var_step st (OpUnsetElement n i) = Some (unset_array_element st n i)"
| "var_step st (OpInitIndexed n) = Some (init_indexed_array st n)"
| "var_step st (OpInitAssoc n) = Some (init_assoc_array st n)"
| "var_step st (OpGet n) = Some (fst (get_var st n))"

fun var_steps :: "shell_state \<Rightarrow> var_op list \<Rightarrow> shell_state option" where
  "var_steps st [] = Some st"
| "var_steps st (op # ops) = Option.bind (var_step st op) (\<lambda>st'. var_steps st' ops)"

lemma set_var_here_readonly:
  "env st \<noteq> [] \<Longrightarrow> is_var_readonly st k \<Longrightarrow>
   env_get (env (set_var_here st n v)) k = env_get (env st) k \<and> env (set_var_here st n v) \<noteq> []"
  by (auto simp: set_var_here_def flags_of_def is_var_readonly_def Let_def split: option.splits
      prod.splits)

lemma get_var_env [simp]: "env (fst (get_var st n)) = env st"
  by (simp add: get_var_def next_random_def Let_def)

lemma var_step_readonly:
  assumes "var_step st op = Some st'" "env st \<noteq> []" "is_var_readonly st k"
  shows "env_get (env st') k = env_get (env st) k \<and> env st' \<noteq> []"
proof (cases op)
  case (OpSet n v)
  then show ?thesis using assms set_var_Some [of st n v st'] set_var_here_readonly by auto
next
  case (OpSetChecked n v)
  then show ?thesis
    using assms set_var_Some [of st n v] set_var_here_readonly
    by (auto simp: set_var_checked_def split: if_splits)
next
  case (OpUnset n)
  then show ?thesis
    using assms
    by (cases "n = k") (auto simp: unset_var_def env_get_remove_other split: if_splits)
next
  case (OpGet n)
  then show ?thesis using assms by auto
qed (use assms in \<open>auto simp: set_array_element_def append_array_def unset_array_element_def
      init_indexed_array_def init_assoc_array_def init_array_def flags_of_def is_var_readonly_def
      Let_def split: option.splits if_splits\<close>)

text \<open>
  C19 (readonly variables are never changed): through any sequence of assignments (through
  namerefs too), array updates, unsets and reads, a variable that is readonly keeps its value
  and its attributes.
\<close>

theorem readonly_kept:
  assumes "env st \<noteq> []" "is_var_readonly st k" "var_steps st ops = Some st'"
  shows "env_get (env st') k = env_get (env st) k"
  using assms
proof (induction ops arbitrary: st)
  case (Cons op ops)
  then obtain st1 where s: "var_step st op = Some st1" "var_steps st1 ops = Some st'"
    by (auto simp: Option.bind_eq_Some_conv)
  have *: "env_get (env st1) k = env_get (env st) k" "env st1 \<noteq> []"
    using var_step_readonly [OF s(1) Cons.prems(1,2)] by blast+
  then have "is_var_readonly st1 k" using Cons.prems(2) by (simp add: is_var_readonly_def)
  then show ?case using Cons.IH [OF *(2) _ s(2)] * by simp
qed simp

theorem readonly_kept_witness:
  "\<exists>st'. var_steps demo_state [OpUnset ''k'', OpAppend ''k'' [''z''], OpInitAssoc ''k''] = Some st' \<and>
     env_get (env st') ''k'' = env_get (env demo_state) ''k''"
proof -
  have k: "is_var_readonly demo_state ''k''" "env demo_state \<noteq> []"
    by (simp_all add: demo_simps is_var_readonly_def)
  obtain st' where s: "var_steps demo_state
      [OpUnset ''k'', OpAppend ''k'' [''z''], OpInitAssoc ''k''] = Some st'"
    by simp
  from readonly_kept [OF k(2,1) s] s show ?thesis by blast
qed

section \<open>The scope of a subshell\<close>

text \<open>
  The runtime isolates a subshell by \<open>push_scope\<close> before its body and \<open>pop_scope\<close>
  after it.
\<close>

lemma pop_push [simp]: "pop_scope (outer @ [scope]) = (if outer = [] then ([scope], None) else (outer, Some scope))"
  by (simp add: pop_scope_def)

fun scalar_op :: "var_op \<Rightarrow> bool" where
  "scalar_op (OpSetElement n i v) = False"
| "scalar_op (OpAppend n vs) = False"
| "scalar_op (OpUnsetElement n i) = False"
| "scalar_op _ = True"

lemma set_var_here_snoc:
  "env st = outer @ [scope] \<Longrightarrow> \<exists>scope'. env (set_var_here st n v) = outer @ [scope']"
  by (auto simp: set_var_here_def env_set_snoc Let_def split: prod.splits)

lemma scalar_step_snoc:
  assumes "var_step st op = Some st'" "scalar_op op" "env st = outer @ [scope]"
  shows "\<exists>scope'. env st' = outer @ [scope']"
proof (cases op)
  case (OpSet n v)
  then show ?thesis using assms set_var_Some [of st n v st'] set_var_here_snoc by auto
next
  case (OpSetChecked n v)
  then show ?thesis
    using assms set_var_Some [of st n v] set_var_here_snoc
    by (auto simp: set_var_checked_def split: if_splits)
qed (use assms in \<open>auto simp: unset_var_def env_remove_snoc init_indexed_array_def
      init_assoc_array_def init_array_def env_set_snoc Let_def split: if_splits prod.splits\<close>)

lemma scalar_steps_snoc:
  "var_steps st ops = Some st' \<Longrightarrow> list_all scalar_op ops \<Longrightarrow> env st = outer @ [scope] \<Longrightarrow>
   \<exists>scope'. env st' = outer @ [scope']"
proof (induction ops arbitrary: st scope)
  case (Cons op ops)
  then obtain st1 where "var_step st op = Some st1" "var_steps st1 ops = Some st'"
    by (auto simp: Option.bind_eq_Some_conv)
  then show ?case using Cons scalar_step_snoc [of st op st1 outer scope] by fastforce
qed simp

text \<open>
  C25 (a subshell's scalar assignments stay inside): whatever scalar assignments, array
  declarations, unsets and reads a subshell's body performs, popping its scope gives back
  the parent's variables exactly.
\<close>

theorem subshell_scope_isolated:
  assumes "env st \<noteq> []" "list_all scalar_op ops"
    and "var_steps (st\<lparr>env := push_scope (env st)\<rparr>) ops = Some st'"
  shows "fst (pop_scope (env st')) = env st"
  using scalar_steps_snoc [OF assms(3,2), of "env st" "[]"] assms(1)
  by (auto simp: push_scope_def)

theorem subshell_scope_isolated_witness:
  "\<exists>st'. var_steps (demo_state\<lparr>env := push_scope (env demo_state)\<rparr>)
       [OpUnset ''x'', OpInitIndexed ''x''] = Some st' \<and>
     fst (pop_scope (env st')) = env demo_state"
proof -
  have d: "env demo_state \<noteq> []" "list_all scalar_op [OpUnset ''x'', OpInitIndexed ''x'']"
    by (simp_all add: demo_state_def)
  obtain st' where s: "var_steps (demo_state\<lparr>env := push_scope (env demo_state)\<rparr>)
       [OpUnset ''x'', OpInitIndexed ''x''] = Some st'"
    by simp
  from subshell_scope_isolated [OF d s] s show ?thesis by blast
qed

lemma env_get_mut_outer:
  "map_of scope n = None \<Longrightarrow> env_get_mut (outer @ [scope]) n f = env_get_mut outer n f @ [scope]"
  by (simp add: env_get_mut_def)

text \<open>
  A subshell's array writes escape: writing an element of an array of the parent inside
  the pushed scope changes the parent's array, which keeps the new element after the scope is
  popped.
\<close>

theorem subshell_array_write_escapes:
  assumes "env_get (env st) name = Some var" "var_val var = IndexedArray m" "\<not> readonly var"
    and "parse_usize index = Some idx"
  shows "\<exists>st'. var_steps (st\<lparr>env := push_scope (env st)\<rparr>) [OpSetElement name index v] = Some st' \<and>
    get_array_element (st'\<lparr>env := fst (pop_scope (env st'))\<rparr>) name index = Some v"
proof -
  let ?f = "\<lambda>var. var\<lparr>var_val := set_element index v (var_val var)\<rparr>"
  have g: "env_get (env st @ [[]]) name = Some var" using assms(1) by (simp add: env_get_snoc)
  then have "set_array_element (st\<lparr>env := push_scope (env st)\<rparr>) name index v =
      st\<lparr>env := env_get_mut (env st) name ?f @ [[]]\<rparr>"
    using assms(3) by (simp add: set_array_element_def push_scope_def flags_of_def env_get_mut_outer)
  moreover have "env st \<noteq> []" using assms(1) by (auto simp: env_get_def)
  ultimately show ?thesis
    using assms by (simp add: get_array_element_def insert_parsed_def alist_simps)
qed

theorem subshell_array_write_escapes_witness:
  "\<exists>st'. var_steps (state_new\<lparr>env := push_scope [[(''a'', (scalar_var [])\<lparr>var_val := IndexedArray []\<rparr>)]]\<rparr>)
       [OpSetElement ''a'' ''0'' ''9''] = Some st' \<and>
     get_array_element (st'\<lparr>env := fst (pop_scope (env st'))\<rparr>) ''a'' ''0'' = Some ''9''"
  using subshell_array_write_escapes [of
      "state_new\<lparr>env := [[(''a'', (scalar_var [])\<lparr>var_val := IndexedArray []\<rparr>)]]\<rparr>" "''a''"
      "(scalar_var [])\<lparr>var_val := IndexedArray []\<rparr>" "[]" "''0''" 0 "''9''"]
  by (simp add: env_get_def scalar_var_def parse_usize_def is_digit_def digits_val_def digit_val_def
      Let_def)

section \<open>Array growth\<close>

lemma unat_of_usize: "j < 2 ^ 32 \<Longrightarrow> unat (of_nat j :: usize) = j"
  by (rule unat_of_nat_less) simp

lemma update_new_append: "map_of m k = None \<Longrightarrow> AList.update k v m = m @ [(k, v)]"
  by (induction m) (auto split: if_splits)

lemma insert_from_append:
  "(\<And>x. x \<in> fst ` set m \<Longrightarrow> unat x < unat k) \<Longrightarrow> unat k + length vs \<le> 2 ^ 32 \<Longrightarrow>
   insert_from k vs m = m @ zip (map of_nat [unat k..<unat k + length vs]) vs"
proof (induction vs arbitrary: k m)
  case (Cons v vs)
  have "map_of m k = None" using Cons.prems(1) by (force simp: map_of_eq_None_iff)
  then have u: "AList.update k v m = m @ [(k, v)]" by (rule update_new_append)
  show ?case
  proof (cases "vs = []")
    case True
    then show ?thesis by (simp add: u)
  next
    case False
    then have "unat k + 1 < 2 ^ 32" using Cons.prems(2) by (cases vs) auto
    then have s: "unat (k + 1) = Suc (unat k)" by (simp add: unat_word_ariths)
    have "insert_from (k + 1) vs (m @ [(k, v)]) =
        (m @ [(k, v)]) @ zip (map of_nat [unat (k + 1)..<unat (k + 1) + length vs]) vs"
      by (rule Cons.IH) (use Cons.prems s in \<open>auto simp: less_Suc_eq\<close>)
    moreover have "[unat k..<unat k + length (v # vs)] =
        unat k # [unat (k + 1)..<unat (k + 1) + length vs]"
      by (simp add: s upt_conv_Cons del: upt_Suc)
    ultimately show ?thesis by (simp add: u del: upt_Suc)
  qed
qed simp

lemma append_to_indexed_array_fits:
  assumes "m \<noteq> [] \<Longrightarrow> unat (Max (set (map fst m))) + length vs < 2 ^ 32" "length vs \<le> 2 ^ 32"
  shows "append_to_indexed_array m vs =
    m @ zip (map of_nat [unat (next_array_index m)..<unat (next_array_index m) + length vs]) vs"
proof (cases "m = [] \<or> vs = []")
  case True
  then show ?thesis
    using insert_from_append [of "[]" 0 vs] assms(2)
    by (auto simp: append_to_indexed_array_def next_array_index_def)
next
  case False
  let ?M = "Max (set (map fst m))"
  have "length vs > 0" using False by simp
  then have b: "unat ?M + 1 < 2 ^ 32" using assms(1) False by linarith
  then have s: "unat (?M + 1) = Suc (unat ?M)" by (simp add: unat_word_ariths)
  have "unat x < unat (?M + 1)" if "x \<in> fst ` set m" for x
    using that s word_le_nat_alt [of x ?M] by (simp add: less_Suc_eq_le)
  then show ?thesis
    using insert_from_append [of m "?M + 1" vs] assms(1) False s
    by (simp add: append_to_indexed_array_def next_array_index_def)
qed

text \<open>
  Array append: appending values to an indexed array adds them, in order, after all
  existing elements, whose order and indices stay; the new elements have consecutive indices
  from one past the largest, and reading them back by the decimal text of the index yields
  them.  The largest new index has to fit the machine's \<open>usize\<close>.
\<close>

theorem append_array_correct:
  assumes "env_get (env st) name = Some var" "var_val var = IndexedArray m" "\<not> readonly var"
    and "m \<noteq> [] \<longrightarrow> unat (Max (set (map fst m))) + length vs < 2 ^ 32" "length vs \<le> 2 ^ 32"
  shows "get_array_values (append_array st name vs) name = get_array_values st name @ vs \<and>
    (\<forall>i < length vs. get_array_element (append_array st name vs) name
       (show_nat (unat (next_array_index m) + i)) = Some (vs ! i))"
proof -
  let ?n = "unat (next_array_index m)"
  let ?new = "zip (map of_nat [?n..<?n + length vs]) vs :: (usize, string) alist_map"
  have app: "append_to_indexed_array m vs = m @ ?new"
    using assms(4,5) by (intro append_to_indexed_array_fits) auto
  have v: "env_get (env (append_array st name vs)) name = Some (var\<lparr>var_val := IndexedArray (m @ ?new)\<rparr>)"
    using assms(1-3) app by (simp add: append_array_def is_var_readonly_def)
  have "Option.bind (parse_usize (show_nat (?n + i))) (map_of (m @ ?new)) = Some (vs ! i)"
    if i: "i < length vs" for i
  proof -
    have fits: "?n + length vs \<le> 2 ^ 32"
      using assms(4,5) i
      by (cases "m = []") (auto simp: next_array_index_def unat_word_ariths)
    have large: "unat x < ?n" if "x \<in> fst ` set m" for x
    proof -
      have "m \<noteq> []" "x \<le> Max (set (map fst m))" using that by auto
      moreover have "unat (Max (set (map fst m)) + 1) = Suc (unat (Max (set (map fst m))))"
        using assms(4) i calculation(1) by (simp add: unat_word_ariths)
      ultimately show ?thesis by (simp add: next_array_index_def word_le_nat_alt)
    qed
    have "unat (of_nat (?n + i) :: usize) = ?n + i"
      using fits i by (intro unat_of_usize) simp
    then have "map_of m (of_nat (?n + i)) = None"
      using large [of "of_nat (?n + i)"] by (auto simp: map_of_eq_None_iff)
    moreover have "map_of ?new (of_nat (?n + i)) = Some (vs ! i)"
    proof -
      have "distinct (map of_nat [?n..<?n + length vs] :: usize list)"
        using fits unat_of_usize by (auto simp: distinct_map intro!: inj_on_inverseI [of _ unat])
      then show ?thesis
        using map_of_zip_nth [of "map of_nat [?n..<?n + length vs] :: usize list" vs i] i by simp
    qed
    moreover have "parse_usize (show_nat (?n + i)) = Some (of_nat (?n + i))"
      using fits i by (intro parse_usize_show_nat) simp
    ultimately show ?thesis by (simp add: map_add_def)
  qed
  then show ?thesis
    using v assms(1,2) by (simp add: get_array_values_def get_array_element_def)
qed

definition array_state :: "(usize, string) alist_map \<Rightarrow> shell_state" where
  "array_state m = state_new\<lparr>env := [[(''a'', (scalar_var [])\<lparr>var_val := IndexedArray m\<rparr>)]]\<rparr>"

theorem append_array_correct_witness:
  "get_array_values (append_array (array_state [(7, ''p'')]) ''a'' [''q'', ''r'']) ''a'' =
     [''p'', ''q'', ''r'']"
  using append_array_correct [of "array_state [(7, ''p'')]" "''a''"
      "(scalar_var [])\<lparr>var_val := IndexedArray [(7, ''p'')]\<rparr>" "[(7, ''p'')]" "[''q'', ''r'']"]
  by (simp add: array_state_def env_get_def scalar_var_def get_array_values_def)

text \<open>
  Array append at the last index: when the largest index is the largest \<open>usize\<close>, the
  next index wraps around to 0, and appending a value overwrites element 0.
\<close>

theorem append_array_wraps:
  assumes "env_get (env st) name = Some var" "\<not> readonly var"
    and "var_val var = IndexedArray [(0, old), (- 1, w)]"
  shows "get_array_values (append_array st name [v]) name = [v, w]"
  using assms
  by (simp add: append_array_def is_var_readonly_def get_array_values_def append_to_indexed_array_def
      next_array_index_def)

theorem append_array_wraps_witness:
  "get_array_values (append_array (array_state [(0, ''p''), (- 1, ''q'')]) ''a'' [''z'']) ''a'' =
     [''z'', ''q'']"
  using append_array_wraps [of "array_state [(0, ''p''), (- 1, ''q'')]" "''a''"
      "(scalar_var [])\<lparr>var_val := IndexedArray [(0, ''p''), (- 1, ''q'')]\<rparr>" "''p''" "''q''" "''z''"]
  by (simp add: array_state_def env_get_def scalar_var_def)

section \<open>The random generator\<close>







section \<open>Pending errors\<close>

text \<open>
  Pending shell errors: an error that has been recorded is taken with its message and
  its severity, and taking it leaves every ordinary variable as before.
\<close>

theorem shell_error_round_trip:
  assumes "env st \<noteq> []"
    and "fatal \<or> message \<noteq> [] \<and> hd message \<noteq> SHELL_ERROR_FATAL_PREFIX"
  shows "(let (st', r) = take_shell_error (set_shell_error_inner st message fatal) in
      r = Some (fatal, message) \<and>
      (\<forall>name. name \<noteq> SHELL_ERROR_VAR \<longrightarrow> env_get (env st') name = env_get (env st) name))"
  using assms
  by (cases message)
    (auto simp: take_shell_error_def set_shell_error_inner_def take_pending_def set_pending_def
      scalar_var_def strip_prefix_def env_get_remove_other Let_def)

theorem shell_error_round_trip_witness:
  "snd (take_shell_error (set_fatal_shell_error state_new ''x: unbound'')) = Some (True, ''x: unbound'')"
  using shell_error_round_trip [of state_new True "''x: unbound''"]
  by (auto simp: state_new_def env_new_def set_fatal_shell_error_def split: prod.splits)

end
