(* ===== verification/Vm_Props.thy ===== *)
theory Vm_Props
  imports Vm Shell_State_Props
begin

text \<open>
  The machine's correctness: the code of an and-or list computes, with any executor and any
  budget, what a structured evaluation of the list does; under a step limit the loop ends; and
  what a run that reports completion has guaranteed about limits and cancellation.
\<close>

section \<open>Structured evaluation\<close>

text \<open>
  The outcome of a part of a program: executor, machine, and the reason for a stop, if any.
\<close>

type_synonym 'x outcome = "('x \<times> vm \<times> step_result option) option"

definition and_then :: "'x outcome \<Rightarrow> ('x \<Rightarrow> vm \<Rightarrow> 'x outcome) \<Rightarrow> 'x outcome" where
  "and_then m f =
     Option.bind m (\<lambda>(x, v, s). case s of Some r \<Rightarrow> Some (x, v, Some r) | None \<Rightarrow> f x v)"

definition ticked :: "'x \<Rightarrow> vm \<Rightarrow> (vm \<Rightarrow> 'x outcome) \<Rightarrow> 'x outcome" where
  "ticked x v f =
     (case begin_step v of (v1, Some stop) \<Rightarrow> Some (x, v1, Some stop) | (v1, None) \<Rightarrow> f v1)"

fun eval_assigns :: "'x assign_fn \<Rightarrow> hir_assignment list \<Rightarrow> 'x \<Rightarrow> vm \<Rightarrow> 'x outcome" where
  "eval_assigns asg [] x v = Some (x, v, None)"
| "eval_assigns asg (a # as) x v =
     ticked x v (\<lambda>v. Option.bind (asg x v (hassign_name a) (hassign_value a))
       (\<lambda>(x, v). eval_assigns asg as x v))"

fun eval_pipeline ::
  "'x assign_fn \<Rightarrow> 'x execute_fn \<Rightarrow> hir_pipeline \<Rightarrow> 'x \<Rightarrow> vm \<Rightarrow> 'x outcome" where
  "eval_pipeline asg exe (HirPipeline _ _ _ [HirAssign assigns _ _] _) x v = eval_assigns asg assigns x v"
| "eval_pipeline asg exe (HirPipeline _ _ _ [HirExec (w # ws) _ redirs _] _) x v =
     ticked x v (\<lambda>v.
       map_option (\<lambda>(x, v, status). (x, set_status v status, None))
         (exe x v (the (literal_word_text (Some w))) (w # ws) (map ir_redirection_from redirs)))"
| "eval_pipeline asg exe _ x v = None"

fun proceeds :: "hir_and_or_op \<Rightarrow> i32 \<Rightarrow> bool" where
  "proceeds HirAnd status = (status = 0)"
| "proceeds HirOr status = (status \<noteq> 0)"

fun eval_rest ::
  "'x assign_fn \<Rightarrow> 'x execute_fn \<Rightarrow> (hir_and_or_op \<times> hir_pipeline) list \<Rightarrow> 'x \<Rightarrow> vm \<Rightarrow> 'x outcome" where
  "eval_rest asg exe [] x v = Some (x, v, None)"
| "eval_rest asg exe ((op, p) # rest) x v =
     ticked x v (\<lambda>v.
       if proceeds op (status_of v)
       then and_then (eval_pipeline asg exe p x v) (eval_rest asg exe rest)
       else eval_rest asg exe rest x v)"

text \<open>
  The meaning of an and-or list: run the first pipeline, then each further one if the status
  so far asks for it, then report the status; one step of the budget for each command, each
  connective and the report.
\<close>

fun eval_and_or ::
  "'x assign_fn \<Rightarrow> 'x execute_fn \<Rightarrow> hir_and_or \<Rightarrow> 'x \<Rightarrow> vm \<Rightarrow> 'x outcome" where
  "eval_and_or asg exe (HirAndOr first rest) x v =
     and_then (eval_pipeline asg exe first x v) (\<lambda>x v.
       and_then (eval_rest asg exe rest x v) (\<lambda>x v.
         ticked x v (\<lambda>v. Some (x, v, Some (Done (status_of v))))))"

section \<open>Correctness of the compiled code\<close>

text \<open>The loop from a position of the program, as an outcome.\<close>

definition run_from ::
  "'x assign_fn \<Rightarrow> 'x execute_fn \<Rightarrow> ir list \<Rightarrow> nat \<Rightarrow> 'x \<Rightarrow> vm \<Rightarrow> 'x outcome" where
  "run_from asg exe is pc x v = map_option (\<lambda>(x, v, r). (x, v, Some r)) (run_loop asg exe is x v pc)"

lemma and_then_simps [simp]:
  "and_then None f = None"
  "and_then (Some (x, v, None)) f = f x v"
  "and_then (Some (x, v, Some r)) f = Some (x, v, Some r)"
  by (simp_all add: and_then_def)

lemma and_then_assoc: "and_then (and_then m f) g = and_then m (\<lambda>x v. and_then (f x v) g)"
proof (cases m)
  case (Some t)
  then show ?thesis by (cases t; cases "snd (snd t)") auto
qed simp

lemma and_then_ticked: "and_then (ticked x v f) g = ticked x v (\<lambda>v. and_then (f v) g)"
  by (simp add: ticked_def split: prod.split option.split)

lemma and_then_if: "and_then (if b then m else n) g = (if b then and_then m g else and_then n g)"
  by simp

lemma and_then_bind:
  "and_then (Option.bind m (\<lambda>(x, v). f x v)) g = Option.bind m (\<lambda>(x, v). and_then (f x v) g)"
  by (cases m) auto

lemma run_from_at:
  assumes "pc < length is"
  shows "run_from asg exe is pc x v =
    ticked x v (\<lambda>v. Option.bind (vm_instr asg exe x v pc (is ! pc)) (\<lambda>(x, v, next).
      case next of Goto pc' \<Rightarrow> run_from asg exe is pc' x v | Halt r \<Rightarrow> Some (x, v, Some r)))"
  unfolding run_from_def
  by (subst run_loop.simps)
    (simp add: assms ticked_def map_option_bind split: prod.split option.split next_pc.split
      Option.bind_split)

text \<open>Straight-line code, without its position.\<close>

fun eval_code :: "'x assign_fn \<Rightarrow> 'x execute_fn \<Rightarrow> ir list \<Rightarrow> 'x \<Rightarrow> vm \<Rightarrow> 'x outcome" where
  "eval_code asg exe [] x v = Some (x, v, None)"
| "eval_code asg exe (i # is) x v =
     ticked x v (\<lambda>v. Option.bind (vm_instr asg exe x v 0 i) (\<lambda>(x, v, _). eval_code asg exe is x v))"

lemma straight_goto:
  "straight i \<Longrightarrow> vm_instr asg exe x v pc i =
     map_option (\<lambda>(x, v, _). (x, v, Goto (pc + 1))) (vm_instr asg exe x v 0 i)"
  by (cases i) (auto simp: option.map_comp comp_def split_def)

lemma bind_map_option': "Option.bind (map_option g m) f = Option.bind m (\<lambda>y. f (g y))"
  by (cases m) simp_all

lemma run_straight:
  "list_all straight code \<Longrightarrow>
   run_from asg exe (pre @ code @ post) (length pre) x v =
     and_then (eval_code asg exe code x v)
       (run_from asg exe (pre @ code @ post) (length pre + length code))"
proof (induction code arbitrary: pre x v)
  case (Cons i code)
  have IH: "run_from asg exe (pre @ i # code @ post) (Suc (length pre)) x v =
      and_then (eval_code asg exe code x v)
        (run_from asg exe (pre @ i # code @ post) (Suc (length pre + length code)))" for x v
    using Cons.IH [of "pre @ [i]" x v] Cons.prems by simp
  have "vm_instr asg exe x v (length pre) i =
      map_option (\<lambda>(x, v, _). (x, v, Goto (length pre + 1))) (vm_instr asg exe x v 0 i)" for v
    using Cons.prems by (intro straight_goto) simp
  then have "run_from asg exe (pre @ i # code @ post) (length pre) x v =
      ticked x v (\<lambda>v. Option.bind (vm_instr asg exe x v 0 i) (\<lambda>(x, v, _).
        run_from asg exe (pre @ i # code @ post) (Suc (length pre)) x v))"
    by (simp add: run_from_at bind_map_option' split_def)
  also have "\<dots> = and_then (eval_code asg exe (i # code) x v)
      (run_from asg exe (pre @ i # code @ post) (Suc (length pre + length code)))"
    by (simp add: IH and_then_ticked split_def)
      (simp add: and_then_def split_def)
  finally show ?case by simp
qed simp

lemma eval_assigns_code:
  "eval_code asg exe (map (\<lambda>a. Assign (hassign_name a) (hassign_value a)) assigns) x v =
     eval_assigns asg assigns x v"
  by (induction assigns arbitrary: x v) (simp_all add: bind_map_option' split_def)

lemma pipeline_code_eval:
  assumes "pipeline_code p = Some code"
  shows "eval_code asg exe code x v = eval_pipeline asg exe p x v"
proof (cases p)
  case (HirPipeline timed time_posix negated commands pipe_stderr)
  then obtain c where c: "commands = [c]" "lower_supported_command c [] = Ok code"
    using assms by (auto simp: pipeline_code_def length_Suc_conv split: result.splits if_splits)
  show ?thesis
  proof (cases c)
    case (HirAssign assigns redirs sp)
    then show ?thesis
      using c by (auto simp: HirPipeline eval_assigns_code split: if_splits)
  next
    case (HirExec argv env redirs sp)
    then obtain w ws where "argv = w # ws"
      using c by (cases argv) (auto simp: literal_word_text_def split: if_splits)
    then show ?thesis
      using c HirExec
      by (auto simp: HirPipeline ticked_def bind_map_option' split_def map_conv_bind_option comp_def
          split: if_splits option.splits)
  qed (use c in simp_all)
qed

lemma run_pipeline:
  assumes "pipeline_code p = Some code"
  shows "run_from asg exe (pre @ code @ post) (length pre) x v =
    and_then (eval_pipeline asg exe p x v) (run_from asg exe (pre @ code @ post) (length pre + length code))"
  using run_straight [OF pipeline_code_straight [OF assms]] pipeline_code_eval [OF assms] by metis

lemma run_rest:
  "rest_code (length pre) rest = Some code \<Longrightarrow>
   run_from asg exe (pre @ code @ post) (length pre) x v =
     and_then (eval_rest asg exe rest x v)
       (run_from asg exe (pre @ code @ post) (length pre + length code))"
proof (induction rest arbitrary: pre code x v)
  case (Cons y rest)
  obtain op p where y: "y = (op, p)" by (cases y)
  obtain c cs where c: "pipeline_code p = Some c" "rest_code (length pre + 1 + length c) rest = Some cs"
    "code = jump_to op (length pre + 1 + length c) # c @ cs"
    using Cons.prems by (auto simp: y Let_def Option.bind_eq_Some_conv)
  let ?is = "pre @ code @ post" and ?j = "jump_to op (length pre + 1 + length c)"
  have rest: "run_from asg exe ?is (length pre + 1 + length c) = (\<lambda>x v.
      and_then (eval_rest asg exe rest x v) (run_from asg exe ?is (length pre + length code)))"
    using Cons.IH [of "pre @ ?j # c" cs] c by (simp add: add.assoc fun_eq_iff)
  have pipe: "run_from asg exe ?is (length pre + 1) x v =
      and_then (eval_pipeline asg exe p x v) (run_from asg exe ?is (length pre + 1 + length c))" for x v
    using run_pipeline [OF c(1), of asg exe "pre @ [?j]" "cs @ post"] c(3) by simp
  have "run_from asg exe ?is (length pre) x v = ticked x v (\<lambda>v.
      if proceeds op (status_of v) then run_from asg exe ?is (length pre + 1) x v
      else run_from asg exe ?is (length pre + 1 + length c) x v)"
    using c(3)
    by (cases op) (auto simp: run_from_at intro!: arg_cong [of _ _ "ticked x v"] ext)
  also have "\<dots> = ticked x v (\<lambda>v.
      and_then (if proceeds op (status_of v)
        then and_then (eval_pipeline asg exe p x v) (eval_rest asg exe rest)
        else eval_rest asg exe rest x v) (run_from asg exe ?is (length pre + length code)))"
    by (simp only: pipe rest and_then_if and_then_assoc)
  finally show ?case by (simp add: y and_then_ticked)
qed simp

text \<open>
  C1 (the compiled code is correct): running the code that an and-or list of the subset lowers
  to gives, for every executor, budget and cancellation state, exactly the outcome of
  evaluating the list by its short-circuit meaning, including the machine's state and where
  a stop occurs.
\<close>

theorem compiled_code_correct:
  assumes "lower_supported_and_or ao = Ok program"
  shows "map_option (\<lambda>(x, v, r). (x, v, Some r)) (run_with_executor asg exe v program x) =
    eval_and_or asg exe ao x v"
proof (cases ao)
  case (HirAndOr first rest)
  obtain code cs where c: "pipeline_code first = Some code" "rest_code (length code) rest = Some cs"
    "program = code @ cs @ [ReturnLastStatus]"
    using assms unfolding HirAndOr lower_supported_and_or_code by blast
  have ret: "run_from asg exe program (length code + length cs) =
      (\<lambda>x v. ticked x v (\<lambda>v. Some (x, v, Some (Done (status_of v)))))"
    by (simp add: c(3) run_from_at nth_append fun_eq_iff)
  have "run_from asg exe program 0 x v =
      and_then (eval_pipeline asg exe first x v) (run_from asg exe program (length code))"
    using run_pipeline [OF c(1), of asg exe "[]"] c(3) by simp
  also have "run_from asg exe program (length code) = (\<lambda>x v. and_then (eval_rest asg exe rest x v)
      (run_from asg exe program (length code + length cs)))"
    using run_rest [of code rest cs asg exe "[ReturnLastStatus]"] c(2,3) by (simp add: fun_eq_iff)
  finally show ?thesis
    unfolding HirAndOr run_with_executor_def run_from_def [symmetric] ret by simp
qed

text \<open>An executor that echoes: every builtin writes one byte and succeeds unless it is \<open>false\<close>.\<close>

definition demo_registry :: registry where
  "demo_registry name =
     Some (\<lambda>st args. (st, [65], [], if name = ''false'' then 1 else 0))"

definition demo_expand :: expand_fn where
  "demo_expand word st = (st, [])"

definition demo_word :: "string \<Rightarrow> shell_word" where
  "demo_word text = \<lparr>word_parts = [Literal text], word_span = \<lparr>span_start = 0, span_end = 0\<rparr>\<rparr>"

definition demo_pipeline :: "string \<Rightarrow> hir_pipeline" where
  "demo_pipeline text =
     HirPipeline False False False
       [HirExec [demo_word text] [] [] \<lparr>span_start = 0, span_end = 0\<rparr>] []"

definition demo_list :: hir_and_or where
  "demo_list = HirAndOr (demo_pipeline ''false'') [(HirAnd, demo_pipeline ''true'')]"

definition demo_program :: ir_program where
  "demo_program =
     [ExecuteBuiltin ''false'' [demo_word ''false''] [], JumpIfFailure 3,
      ExecuteBuiltin ''true'' [demo_word ''true''] [], ReturnLastStatus]"

lemma demo_lowered: "lower_supported_and_or demo_list = Ok demo_program"
  by (simp add: demo_list_def demo_pipeline_def demo_word_def demo_program_def literal_word_text_def
      patch_jump_def Let_def)

theorem compiled_code_correct_witness:
  "map_option (\<lambda>(x, v, r). (x, v, Some r))
     (run_with_executor (builtin_assign demo_expand) (builtin_execute demo_expand)
        (vm_new state_new 100) demo_program demo_registry) =
   eval_and_or (builtin_assign demo_expand) (builtin_execute demo_expand) demo_list demo_registry
     (vm_new state_new 100)"
  by (rule compiled_code_correct [OF demo_lowered])

section \<open>Termination under a step limit\<close>

text \<open>
  What the machine relies on in an executor: a call that returns leaves the limits and the
  step counter alone.
\<close>

locale vm_executor =
  fixes asg :: "'x assign_fn" and exe :: "'x execute_fn"
  assumes assign_keeps: "asg x v name val = Some (x', v') \<Longrightarrow>
      limits v' = limits v \<and> budget_steps (budget v') = budget_steps (budget v)"
    and execute_keeps: "exe x v name argv redirs = Some (x', v', status) \<Longrightarrow>
      limits v' = limits v \<and> budget_steps (budget v') = budget_steps (budget v)"
begin

lemma instr_keeps:
  "vm_instr asg exe x v pc i = Some (x', v', next) \<Longrightarrow>
   limits v' = limits v \<and> budget_steps (budget v') = budget_steps (budget v)"
  by (cases i) (auto simp: set_status_def dest: assign_keeps execute_keeps)

end

lemma begin_step_None:
  assumes "begin_step v = (v1, None)"
  shows "v1 = v\<lparr>budget := (budget v)\<lparr>budget_steps := budget_steps (budget v) + 1\<rparr>,
                vm_steps := budget_steps (budget v) + 1\<rparr>"
    and "\<not> cancel_flag v" "check_output_limit v = (v, None)"
    and "0 < step_limit (limits v) \<Longrightarrow> budget_steps (budget v) < step_limit (limits v)"
  using assms
  by (auto simp: begin_step_def budget_stop_def check_output_limit_def budget_begin_step_def exhaust_def
      not_le split: if_splits option.splits stop_reason.splits)

lemma begin_step_Some:
  assumes "begin_step v = (v1, Some r)"
  shows "limits v1 = limits v" "budget_steps (budget v1) = budget_steps (budget v)"
    and "r \<in> {Cancelled, OutputLimitExceeded, Yield}"
  using assms
  by (auto simp: begin_step_def budget_stop_def check_output_limit_def budget_begin_step_def exhaust_def
      emit_diagnostic_def note_cancelled_def split: if_splits option.splits stop_reason.splits)

text \<open>The terminating runs of the loop, as a relation.\<close>

inductive runs ::
  "'x assign_fn \<Rightarrow> 'x execute_fn \<Rightarrow> ir list \<Rightarrow> 'x \<Rightarrow> vm \<Rightarrow> nat \<Rightarrow> 'x \<times> vm \<times> step_result \<Rightarrow> bool"
  for asg exe "is" where
  runs_end: "length is \<le> pc \<Longrightarrow> runs asg exe is x v pc (x, v, Done (status_of v))"
| runs_stop: "pc < length is \<Longrightarrow> begin_step v = (v1, Some s) \<Longrightarrow> runs asg exe is x v pc (x, v1, s)"
| runs_halt: "pc < length is \<Longrightarrow> begin_step v = (v1, None) \<Longrightarrow>
    vm_instr asg exe x v1 pc (is ! pc) = Some (x2, v2, Halt r) \<Longrightarrow>
    runs asg exe is x v pc (x2, v2, r)"
| runs_goto: "pc < length is \<Longrightarrow> begin_step v = (v1, None) \<Longrightarrow>
    vm_instr asg exe x v1 pc (is ! pc) = Some (x2, v2, Goto pc') \<Longrightarrow>
    runs asg exe is x2 v2 pc' r \<Longrightarrow> runs asg exe is x v pc r"

lemma run_loop_runs:
  assumes "run_loop asg exe is x v pc = Some r"
  shows "runs asg exe is x v pc r"
  using assms
  by (rule run_loop.raw_induct [where P = runs and xa = "(((((asg, exe), is), x), v), pc)",
        unfolded prod.case, rotated])
    (auto simp: Option.bind_eq_Some_conv split: if_splits option.splits prod.splits next_pc.splits
      intro: runs.intros, metis next_pc.exhaust runs_goto runs_halt)

text \<open>The positions that a run comes to: the executor, the machine and the counter in front of an instruction.\<close>

inductive reaches ::
  "'x assign_fn \<Rightarrow> 'x execute_fn \<Rightarrow> ir list \<Rightarrow> 'x \<Rightarrow> vm \<Rightarrow> nat \<Rightarrow> 'x \<Rightarrow> vm \<Rightarrow> nat \<Rightarrow> bool"
  for asg exe "is" where
  reaches_here: "reaches asg exe is x v pc x v pc"
| reaches_goto: "pc < length is \<Longrightarrow> begin_step v = (v1, None) \<Longrightarrow>
    vm_instr asg exe x v1 pc (is ! pc) = Some (x2, v2, Goto pc') \<Longrightarrow>
    reaches asg exe is x2 v2 pc' x3 v3 pc3 \<Longrightarrow> reaches asg exe is x v pc x3 v3 pc3"

text \<open>The run comes to an instruction whose execution does not return.\<close>

definition gets_stuck :: "'x assign_fn \<Rightarrow> 'x execute_fn \<Rightarrow> ir list \<Rightarrow> 'x \<Rightarrow> vm \<Rightarrow> nat \<Rightarrow> bool" where
  "gets_stuck asg exe is x v pc \<longleftrightarrow>
     (\<exists>x' v' v1 pc'. reaches asg exe is x v pc x' v' pc' \<and> pc' < length is \<and> begin_step v' = (v1, None) \<and>
        vm_instr asg exe x' v1 pc' (is ! pc') = None)"

context vm_executor
begin

text \<open>Under a step limit the loop itself ends: only a call of the executor can fail to return.\<close>

lemma run_returns:
  assumes "0 < step_limit (limits v)"
  shows "\<not> gets_stuck asg exe is x v pc \<Longrightarrow> \<exists>r. run_loop asg exe is x v pc = Some r"
  using assms
proof (induction "unat (step_limit (limits v)) - unat (budget_steps (budget v))"
    arbitrary: x v pc rule: less_induct)
  case less
  show ?case
  proof (cases "pc < length is")
    case True
    obtain v1 s where b: "begin_step v = (v1, s)" by (cases "begin_step v")
    show ?thesis
    proof (cases s)
      case None
      note bn = begin_step_None [OF b [unfolded None]]
      have "vm_instr asg exe x v1 pc (is ! pc) \<noteq> None"
        using less.prems(1) True b [unfolded None] reaches_here [of asg exe "is" x v pc] unfolding gets_stuck_def by metis
      then obtain x2 v2 nxt where i: "vm_instr asg exe x v1 pc (is ! pc) = Some (x2, v2, nxt)" by auto
      have lt: "budget_steps (budget v) < step_limit (limits v)"
        using bn(4) less.prems by auto
      have "limits v2 = limits v" "budget_steps (budget v2) = budget_steps (budget v) + 1"
        using instr_keeps [OF i] bn(1) by simp_all
      moreover have "\<not> gets_stuck asg exe is x2 v2 pc'" if "nxt = Goto pc'" for pc'
        using less.prems(1) True b None i that unfolding gets_stuck_def by (metis reaches_goto)
      ultimately have "\<exists>r. run_loop asg exe is x2 v2 pc' = Some r" if "nxt = Goto pc'" for pc'
        using less.hyps [of v2 x2 pc'] less.prems lt unat_Suc_less [OF lt] that
        by (simp add: word_less_nat_alt)
      then show ?thesis
        using True b None i by (subst run_loop.simps) (auto split: next_pc.split)
    next
      case (Some r)
      then show ?thesis using True b by (subst run_loop.simps) simp
    qed
  next
    case False
    then show ?thesis by (subst run_loop.simps) simp
  qed
qed

text \<open>The step counter never passes the limit, and the limits stay.\<close>

lemma run_steps_bounded:
  "runs asg exe is x v pc r \<Longrightarrow>
   limits (fst (snd r)) = limits v \<and>
   (0 < step_limit (limits v) \<longrightarrow>
    budget_steps (budget (fst (snd r))) \<le> max (budget_steps (budget v)) (step_limit (limits v)))"
proof (induction rule: runs.induct)
  case (runs_stop pc v v1 s x)
  then show ?case using begin_step_Some [of v v1 s] by simp
next
  case (runs_halt pc v v1 x x2 v2 r)
  then show ?case
    using begin_step_None(1,4) [OF runs_halt(2)] instr_keeps [OF runs_halt(3)]
    by (auto simp: le_max_iff_disj inc_le)
next
  case (runs_goto pc v v1 x x2 v2 pc' r)
  have "budget_steps (budget v) + 1 \<le> step_limit (limits v)" if "0 < step_limit (limits v)"
    using begin_step_None(4) [OF runs_goto(2) that] by (rule inc_le)
  then show ?case
    using runs_goto.IH begin_step_None(1) [OF runs_goto(2)] instr_keeps [OF runs_goto(3)]
    by (auto simp: le_max_iff_disj)
qed simp

end

lemma goto_in_bounds:
  assumes "forward_jumps is" "last is = ReturnLastStatus" "pc < length is"
    and "vm_instr asg exe x v pc (is ! pc) = Some (x2, v2, Goto pc')"
  shows "pc < pc'" "pc' < length is"
proof -
  have ok: "jump_ok pc (length is - 1) (is ! pc)"
    using assms(1,3) by (simp add: forward_jumps_def list_all_iff)
  have "is ! pc \<noteq> ReturnLastStatus" using assms(4) by auto
  then have "pc \<noteq> length is - 1"
    using assms(2,3) by (metis last_conv_nth length_0_conv not_less_zero)
  then have "pc + 1 < length is" using assms(3) by linarith
  then show "pc < pc'" "pc' < length is"
    using ok assms(4) by (cases "is ! pc"; auto split: if_splits)+
qed

section \<open>The builtin executor\<close>

lemma track_output_keeps [simp]:
  "limits (track_output v n) = limits v"
  "budget_steps (budget (track_output v n)) = budget_steps (budget v)"
  by (simp_all add: track_output_def track_visible_output_def exhaust_def Let_def)

lemma builtin_assign_Some:
  "builtin_assign expand_word reg v name val = Some (reg', v') \<Longrightarrow>
   reg' = reg \<and> (\<exists>st. v' = v\<lparr>vm_state := st\<rparr>)"
  by (auto simp: builtin_assign_def split: prod.splits)

lemma builtin_execute_Some:
  assumes "builtin_execute expand_word reg v name argv redirs = Some (reg', v', status)"
  obtains "reg' = reg" "reg name = None"
      "v' = set_status (emit_diagnostic v Error DiagBuiltin (''unknown builtin: '' @ name)) 127"
  | f st args st' out err where "reg' = reg" "reg name = Some f" "f st args = (st', out, err, status)"
      "v' = set_status (write_streams (v\<lparr>vm_state := st'\<rparr>) out err) status"
  using assms
  by (auto simp: builtin_execute_def Let_def split: option.splits prod.splits)

interpretation builtin: vm_executor "builtin_assign expand_word" "builtin_execute expand_word"
  for expand_word
proof unfold_locales
  show "limits v' = limits v \<and> budget_steps (budget v') = budget_steps (budget v)"
    if "builtin_assign expand_word x v name val = Some (x', v')" for x v name val x' v'
    using builtin_assign_Some [OF that] by auto
  show "limits v' = limits v \<and> budget_steps (budget v') = budget_steps (budget v)"
    if "builtin_execute expand_word x v name argv redirs = Some (x', v', status)"
    for x v name argv redirs x' v' status
    using that by (rule builtin_execute_Some)
      (simp_all add: set_status_def emit_diagnostic_def write_streams_def)
qed





section \<open>What completion means\<close>

text \<open>
  The output counter is the number of bytes written, up to saturation, and an excess over the
  limit is on record.
\<close>

definition over_limit :: "vm \<Rightarrow> bool" where
  "over_limit v \<longleftrightarrow>
     0 < output_byte_limit (limits v) \<and> output_byte_limit (limits v) < visible_output_bytes (budget v)"

definition accounted :: "vm \<Rightarrow> bool" where
  "accounted v \<longleftrightarrow>
     unat (visible_output_bytes (budget v)) =
       min (length (vm_stdout v) + length (vm_stderr v)) (2 ^ 64 - 1) \<and>
     (over_limit v \<longrightarrow> (\<exists>r. stop_reason (budget v) = Some (Exhausted r) \<and>
        reason_category r = VisibleOutputBytes))"

text \<open>Executors that write to the streams only through the machine's accounting.\<close>

locale accounting_executor = vm_executor asg exe
  for asg :: "'x assign_fn" and exe :: "'x execute_fn" +
  fixes ok :: "'x \<Rightarrow> bool"
  assumes assign_accounted: "asg x v name val = Some (x', v') \<Longrightarrow> ok x \<Longrightarrow> accounted v \<Longrightarrow>
      ok x' \<and> accounted v'"
    and execute_accounted: "exe x v name argv redirs = Some (x', v', status) \<Longrightarrow> ok x \<Longrightarrow>
      accounted v \<Longrightarrow> ok x' \<and> accounted v'"
begin

lemma instr_accounted:
  "vm_instr asg exe x v pc i = Some (x', v', next) \<Longrightarrow> ok x \<Longrightarrow> accounted v \<Longrightarrow> ok x' \<and> accounted v'"
  by (cases i)
    (auto simp: set_status_def accounted_def over_limit_def dest: assign_accounted execute_accounted)

lemma begin_step_accounted:
  assumes "begin_step v = (v1, None)" "accounted v"
  shows "accounted v1" "\<not> over_limit v1" "\<not> cancel_flag v1"
  using assms begin_step_None [OF assms(1)]
  by (auto simp: accounted_def over_limit_def check_output_limit_def budget_stop_def
      split: option.splits stop_reason.splits if_splits)

text \<open>
  A program that ends in an explicit return reports completion only after its last output has
  been checked.
\<close>

lemma done_checked:
  assumes "runs asg exe is x v pc r" "ok x" "accounted v" "pc < length is"
    and "forward_jumps is" "last is = ReturnLastStatus" "snd (snd r) = Done s"
  shows "accounted (fst (snd r)) \<and> \<not> over_limit (fst (snd r)) \<and> \<not> cancel_flag (fst (snd r)) \<and>
    s = status_of (fst (snd r))"
  using assms
proof (induction rule: runs.induct)
  case (runs_stop pc v v1 s' x)
  then show ?case using begin_step_Some(3) [OF runs_stop(2)] by auto
next
  case (runs_halt pc v v1 x x2 v2 r)
  then show ?case
    using begin_step_accounted [OF runs_halt(2)]
    by (cases "is ! pc") (auto simp: set_status_def accounted_def over_limit_def)
next
  case (runs_goto pc v v1 x x2 v2 pc' r)
  have "ok x2 \<and> accounted v2"
    using instr_accounted [OF runs_goto(3)] begin_step_accounted(1) [OF runs_goto(2)]
      runs_goto.prems by blast
  then show ?case
    using runs_goto goto_in_bounds(2) [OF runs_goto.prems(4,5) runs_goto(1,3)] by blast
qed simp

end

text \<open>The functions of a registry write less than \<open>2 ^ 64\<close> bytes in one call.\<close>

definition registry_bounded :: "registry \<Rightarrow> bool" where
  "registry_bounded reg \<longleftrightarrow>
     (\<forall>name f st args st' out err status.
        reg name = Some f \<and> f st args = (st', out, err, status) \<longrightarrow> length out + length err < 2 ^ 64)"

lemma write_streams_accounted:
  assumes "accounted v" "length out + length err < 2 ^ 64"
  shows "accounted (write_streams v out err)"
proof -
  let ?b = "budget v" and ?n = "of_nat (length out + length err) :: u64"
  have n: "unat ?n = length out + length err"
    using assms(2) by (intro unat_of_nat_less) simp
  have "unat (sat_add (visible_output_bytes ?b) ?n) =
      min (length (vm_stdout v @ out) + length (vm_stderr v @ err)) (2 ^ 64 - 1)"
    using assms(1) by (simp only: unat_sat_add n accounted_def) (simp add: min_def)
  then show ?thesis
    by (simp add: accounted_def over_limit_def write_streams_def track_output_def
        track_visible_output_def exhaust_def Let_def)
qed

lemma accounted_state [simp]: "accounted (v\<lparr>vm_state := st\<rparr>) = accounted v"
  "accounted (set_status v s) = accounted v"
  "accounted (emit_diagnostic v l c m) = accounted v"
  by (simp_all add: accounted_def over_limit_def set_status_def emit_diagnostic_def)

interpretation builtin_io: accounting_executor
  "builtin_assign expand_word" "builtin_execute expand_word" registry_bounded
  for expand_word
proof unfold_locales
  show "registry_bounded x' \<and> accounted v'"
    if "builtin_assign expand_word x v name val = Some (x', v')" "registry_bounded x" "accounted v"
    for x v name val x' v'
    using builtin_assign_Some [OF that(1)] that(2,3) by auto
  show "registry_bounded x' \<and> accounted v'"
    if "builtin_execute expand_word x v name argv redirs = Some (x', v', status)"
      "registry_bounded x" "accounted v" for x v name argv redirs x' v' status
    using that(1)
  proof (rule builtin_execute_Some)
    fix f st args st' out err
    assume f: "x' = x" "x name = Some f" "f st args = (st', out, err, status)"
      "v' = set_status (write_streams (v\<lparr>vm_state := st'\<rparr>) out err) status"
    then have "length out + length err < 2 ^ 64" using that(2) unfolding registry_bounded_def by blast
    then show ?thesis using f(1,4) that(2,3) by (simp add: write_streams_accounted)
  qed (use that in simp)
qed

text \<open>
  C13 (completion implies the limits were kept): when the code of an and-or list, run on a new
  machine, reports that it is done, it was not cancelled, the status it reports is the shell's
  last status, everything it wrote fits the output limit, and its steps fit the step limit.
\<close>

theorem done_within_limits:
  assumes "lower_supported_and_or ao = Ok program" "registry_bounded builtins"
    and "vm_run expand_word builtins (vm_with_limits st lim) program = Some (v', Done s)"
  shows "\<not> cancel_flag v' \<and> s = status_of v' \<and>
    (0 < output_byte_limit lim \<and> output_byte_limit lim < - 1 \<longrightarrow>
     length (vm_stdout v') + length (vm_stderr v') \<le> unat (output_byte_limit lim)) \<and>
    (0 < step_limit lim \<longrightarrow> budget_steps (budget v') \<le> step_limit lim)"
proof -
  let ?v = "vm_with_limits st lim"
  have low: "forward_jumps program" "last program = ReturnLastStatus" "0 < length program"
    using lowering_shape [OF assms(1)] by simp_all
  obtain x' where r: "runs (builtin_assign expand_word) (builtin_execute expand_word) program builtins ?v 0
      (x', v', Done s)"
    using assms(3) by (auto simp: vm_run_def run_with_executor_def intro: run_loop_runs)
  have acc: "accounted ?v"
    by (simp add: accounted_def over_limit_def vm_with_limits_def budget_default_def)
  have steps: "limits v' = lim" "0 < step_limit lim \<Longrightarrow> budget_steps (budget v') \<le> step_limit lim"
    using builtin.run_steps_bounded [OF r] by (simp_all add: vm_with_limits_def budget_default_def)
  have d: "accounted v'" "\<not> over_limit v'" "\<not> cancel_flag v'" "s = status_of v'"
    using builtin_io.done_checked [OF r assms(2) acc low(3,1,2)] by simp_all
  have "length (vm_stdout v') + length (vm_stderr v') \<le> unat (output_byte_limit lim)"
    if lim: "0 < output_byte_limit lim" "output_byte_limit lim < - 1"
  proof -
    have "unat (visible_output_bytes (budget v')) \<le> unat (output_byte_limit lim)"
      using d(2) lim(1) steps(1) by (simp add: over_limit_def word_le_nat_alt not_less)
    moreover have "unat (output_byte_limit lim) < 2 ^ 64 - 1"
      using lim(2) unfolding word_less_nat_alt unat_max_word_eq by simp
    ultimately show ?thesis using d(1) by (simp add: accounted_def min_def split: if_splits)
  qed
  with d steps(2) show ?thesis by blast
qed

theorem done_within_limits_witness:
  "length (vm_stdout (fst (the (vm_run demo_expand demo_registry
      (vm_with_limits state_new \<lparr>step_limit = 9, output_byte_limit = 4, pipe_byte_limit = 0,
         recursion_limit = 0\<rparr>) demo_program)))) \<le> 4"
proof -
  let ?lim = "\<lparr>step_limit = 9, output_byte_limit = 4, pipe_byte_limit = 0, recursion_limit = 0\<rparr>"
  let ?v = "vm_with_limits state_new ?lim"
  have run: "\<exists>v'. vm_run demo_expand demo_registry ?v demo_program = Some (v', Done 1)"
    by (simp add: vm_run_def run_with_executor_def demo_program_def run_loop.simps begin_step_def
        check_output_limit_def budget_begin_step_def vm_with_limits_def budget_default_def
        builtin_execute_def demo_registry_def demo_expand_def set_status_def write_streams_def
        track_output_def track_visible_output_def sat_add_def word_le_nat_alt Let_def)
  have "registry_bounded demo_registry" by (auto simp: registry_bounded_def demo_registry_def)
  then show ?thesis
    using run done_within_limits [OF demo_lowered, of demo_registry demo_expand state_new ?lim] by auto
qed

end
