(* ===== verification/Fd_Table.thy ===== *)
theory Fd_Table
  imports Vm Pipe Memfs_Props
begin

text \<open>
  The descriptor table of \<^verbatim>\<open>crates/wasmsh-runtime/src/fd_table.rs\<close> and the part of
  \<^verbatim>\<open>crates/wasmsh-runtime/src/lib.rs\<close> that attaches redirections to it and routes output
  through it.  A file sink and a pipe are shared by reference (\<open>Rc<RefCell<..>>\<close>): a target holds
  the index of its entry in a heap, so that duplicated descriptors write to the same sink.  The
  sinks of process substitutions, which live outside this part, are a parameter: a function that
  delivers data to the sink of a path, or \<open>None\<close> when there is none.
\<close>

section \<open>Targets and the table\<close>

datatype input_kind =
    InInherit
  | InBytes bytes
  | InFile string bool
  | InPipe
  | InClosed

datatype output_kind =
    OutInheritStdout
  | OutInheritStderr
  | OutFile string bool
  | OutProcessSubst string
  | OutPipe
  | OutClosed

type_synonym pipe_ref = nat
type_synonym sink_ref = nat

datatype input_target =
    Inherit
  | Bytes bytes
  | FileInput string bool
  | PipeInput pipe_ref
  | ClosedInput

datatype output_target =
    InheritStdout
  | InheritStderr
  | FileOutput string bool sink_ref
  | ProcessSubst string
  | PipeOutput pipe_ref
  | ClosedOutput

fun input_kind_of :: "input_target \<Rightarrow> input_kind" where
  "input_kind_of Inherit = InInherit"
| "input_kind_of (Bytes data) = InBytes data"
| "input_kind_of (FileInput path remove_after_read) = InFile path remove_after_read"
| "input_kind_of (PipeInput _) = InPipe"
| "input_kind_of ClosedInput = InClosed"

fun output_kind_of :: "output_target \<Rightarrow> output_kind" where
  "output_kind_of InheritStdout = OutInheritStdout"
| "output_kind_of InheritStderr = OutInheritStderr"
| "output_kind_of (FileOutput path appending _) = OutFile path appending"
| "output_kind_of (ProcessSubst path) = OutProcessSubst path"
| "output_kind_of (PipeOutput _) = OutPipe"
| "output_kind_of ClosedOutput = OutClosed"

record fd_table =
  fd_stdin :: input_target
  fd_stdout :: output_target
  fd_stderr :: output_target

definition fd_default :: fd_table where
  "fd_default = \<lparr>fd_stdin = Inherit, fd_stdout = InheritStdout, fd_stderr = InheritStderr\<rparr>"

definition take_stdin :: "fd_table \<Rightarrow> fd_table \<times> input_target" where
  "take_stdin t = (t\<lparr>fd_stdin := Inherit\<rparr>, fd_stdin t)"

definition set_input :: "input_target \<Rightarrow> fd_table \<Rightarrow> fd_table" where
  "set_input target t = t\<lparr>fd_stdin := target\<rparr>"

definition open_output :: "u32 \<Rightarrow> output_target \<Rightarrow> fd_table \<Rightarrow> fd_table" where
  "open_output fd target t =
     (if fd = 2 then t\<lparr>fd_stderr := target\<rparr> else t\<lparr>fd_stdout := target\<rparr>)"

definition dup_output :: "u32 \<Rightarrow> u32 \<Rightarrow> fd_table \<Rightarrow> fd_table" where
  "dup_output source_fd target_fd t =
     (let target = (if target_fd = 2 then fd_stderr t else fd_stdout t) in
      if source_fd = 2 then t\<lparr>fd_stderr := target\<rparr> else t\<lparr>fd_stdout := target\<rparr>)"

definition dup_input :: "u32 \<Rightarrow> u32 \<Rightarrow> fd_table \<Rightarrow> fd_table" where
  "dup_input source_fd target_fd t =
     (if source_fd \<noteq> 0 then t
      else t\<lparr>fd_stdin := (if target_fd = 0 then fd_stdin t else ClosedInput)\<rparr>)"

definition fd_close :: "u32 \<Rightarrow> fd_table \<Rightarrow> fd_table" where
  "fd_close fd t =
     (if fd = 0 then t\<lparr>fd_stdin := ClosedInput\<rparr>
      else if fd = 2 then t\<lparr>fd_stderr := ClosedOutput\<rparr>
      else t\<lparr>fd_stdout := ClosedOutput\<rparr>)"

definition connect_pipe :: "u32 \<Rightarrow> pipe_ref \<Rightarrow> fd_table \<Rightarrow> fd_table" where
  "connect_pipe fd pipe t = open_output fd (PipeOutput pipe) t"

text \<open>\<open>ExecIo\<close> wraps one table.\<close>

definition output_target_of :: "fd_table \<Rightarrow> bool \<Rightarrow> output_target" where
  "output_target_of t stdout = (if stdout then fd_stdout t else fd_stderr t)"

section \<open>Attaching redirections\<close>

definition FD_BOTH :: u32 where "FD_BOTH = - 1"

definition attach_write_destination ::
  "u32 option \<Rightarrow> redirection_op \<Rightarrow> output_target \<Rightarrow> fd_table \<Rightarrow> fd_table" where
  "attach_write_destination fd_opt op destination t =
     (let default_fd = (if op = AppendBoth then FD_BOTH else 1);
          fd = (case fd_opt of Some n \<Rightarrow> n | None \<Rightarrow> default_fd)
      in
        if fd = FD_BOTH then open_output 2 destination (open_output 1 destination t)
        else if fd = 2 then open_output 2 destination t
        else open_output 1 destination t)"

text \<open>
  \<open>str::parse::<u32>\<close> is \<open>parse_usize\<close> on a 32-bit target.  The text of the target is the
  result of \<open>resolve_redir_target\<close>.
\<close>

definition apply_dup_output_redir :: "u32 option \<Rightarrow> string \<Rightarrow> fd_table \<Rightarrow> fd_table" where
  "apply_dup_output_redir fd_opt target t =
     (let source_fd = (case fd_opt of Some n \<Rightarrow> n | None \<Rightarrow> 1) in
      if target = ''-'' then fd_close source_fd t
      else case parse_usize target of
        Some target_fd \<Rightarrow> dup_output source_fd target_fd t
      | None \<Rightarrow> t)"

definition apply_dup_input_redir :: "u32 option \<Rightarrow> string \<Rightarrow> fd_table \<Rightarrow> fd_table" where
  "apply_dup_input_redir fd_opt target t =
     (let source_fd = (case fd_opt of Some n \<Rightarrow> n | None \<Rightarrow> 0) in
      if target = ''-'' then fd_close source_fd t
      else case parse_usize target of
        Some target_fd \<Rightarrow> dup_input source_fd target_fd t
      | None \<Rightarrow> t)"

section \<open>Routing output\<close>

record output_capture =
  capture_stdout :: bool
  capture_stderr :: bool
  captured_stdout :: bytes
  captured_stderr :: bytes

record io_state =
  io_vm :: vm
  io_fs :: memory_fs
  io_sinks :: "write_sink list"
  io_pipes :: "pipe_buffer list"
  output_captures :: "output_capture list"
  resource_exhausted :: bool
  current_exec_io :: "fd_table option"

type_synonym subst_write = "string \<Rightarrow> bytes \<Rightarrow> io_state \<Rightarrow> io_state option"

fun show_fs_error :: "fs_error \<Rightarrow> string" where
  "show_fs_error (NotFound p) = ''not found: '' @ p"
| "show_fs_error (AlreadyExists p) = ''already exists: '' @ p"
| "show_fs_error (NotADirectory p) = ''not a directory: '' @ p"
| "show_fs_error (IsADirectory p) = ''is a directory: '' @ p"
| "show_fs_error (PermissionDenied p) = ''permission denied: '' @ p"
| "show_fs_error (NotSupported p) = ''not supported: '' @ p"
| "show_fs_error (Io p) = ''io error: '' @ p"

text \<open>The bytes of a string.\<close>

definition bytes_of :: "string \<Rightarrow> bytes" where
  "bytes_of s = map of_char s"

definition append_visible_output_direct :: "bytes \<Rightarrow> bool \<Rightarrow> io_state \<Rightarrow> io_state" where
  "append_visible_output_direct data stdout st =
     st\<lparr>io_vm := (if stdout then (io_vm st)\<lparr>vm_stdout := vm_stdout (io_vm st) @ data\<rparr>
                  else (io_vm st)\<lparr>vm_stderr := vm_stderr (io_vm st) @ data\<rparr>)\<rparr>"

definition flag_output_limit_if_needed :: "io_state \<Rightarrow> io_state" where
  "flag_output_limit_if_needed st =
     (if resource_exhausted st then st
      else case check_output_limit (io_vm st) of
        (v, Some _) \<Rightarrow> st\<lparr>io_vm := v, resource_exhausted := True\<rparr>
      | (v, None) \<Rightarrow> st\<lparr>io_vm := v\<rparr>)"

definition account_output :: "nat \<Rightarrow> io_state \<Rightarrow> io_state" where
  "account_output n st =
     flag_output_limit_if_needed (st\<lparr>io_vm := track_output (io_vm st) (of_nat n)\<rparr>)"

definition emit_visible_stderr_direct :: "bytes \<Rightarrow> io_state \<Rightarrow> io_state" where
  "emit_visible_stderr_direct data st =
     account_output (length data) (append_visible_output_direct data False st)"

definition write_output_destination_direct ::
  "subst_write \<Rightarrow> output_target \<Rightarrow> bytes \<Rightarrow> io_state \<Rightarrow> io_state \<times> bool" where
  "write_output_destination_direct psw destination data st =
     (case destination of
        InheritStdout \<Rightarrow> (append_visible_output_direct data True st, True)
      | InheritStderr \<Rightarrow> (append_visible_output_direct data False st, True)
      | FileOutput path _ r \<Rightarrow>
          (let (fs', sink', res) = write_chunk (io_fs st) (io_sinks st ! r) data;
               st1 = st\<lparr>io_fs := fs', io_sinks := (io_sinks st)[r := sink']\<rparr>
           in case res of
                Err err \<Rightarrow>
                  (let st2 = emit_visible_stderr_direct
                         (bytes_of (''wasmsh: write error: '' @ show_fs_error err @ [CHR 0x0A])) st1
                   in (st2\<lparr>io_vm := emit_diagnostic (io_vm st2) Error DiagFilesystem
                         (''write failed for '' @ path @ '': '' @ show_fs_error err)\<rparr>, False))
              | _ \<Rightarrow> (st1, False))
      | ProcessSubst path \<Rightarrow>
          (case psw path data st of
             Some st1 \<Rightarrow> (st1, False)
           | None \<Rightarrow>
               (emit_visible_stderr_direct (bytes_of (''wasmsh: '' @ path @
                  '': process substitution sink not found'' @ [CHR 0x0A])) st, False))
      | PipeOutput r \<Rightarrow>
          (st\<lparr>io_pipes := (io_pipes st)[r := pipe_write_all (io_pipes st ! r) data]\<rparr>, False)
      | ClosedOutput \<Rightarrow> (st, False))"

text \<open>The innermost capture that takes the stream; the stack grows at the end.\<close>

fun capture_first :: "bool \<Rightarrow> bytes \<Rightarrow> output_capture list \<Rightarrow> output_capture list option" where
  "capture_first stdout data [] = None"
| "capture_first stdout data (c # outer) =
     (if (if stdout then capture_stdout c else capture_stderr c)
      then Some ((if stdout then c\<lparr>captured_stdout := captured_stdout c @ data\<rparr>
                  else c\<lparr>captured_stderr := captured_stderr c @ data\<rparr>) # outer)
      else map_option ((#) c) (capture_first stdout data outer))"

definition route_captured :: "bytes \<Rightarrow> bool \<Rightarrow> io_state \<Rightarrow> io_state \<times> bool" where
  "route_captured data routed_stdout st =
     (case capture_first routed_stdout data (rev (output_captures st)) of
        Some caps \<Rightarrow> (st\<lparr>output_captures := rev caps\<rparr>, False)
      | None \<Rightarrow> (append_visible_output_direct data routed_stdout st, True))"

definition route_output :: "subst_write \<Rightarrow> bytes \<Rightarrow> bool \<Rightarrow> io_state \<Rightarrow> io_state \<times> bool" where
  "route_output psw data stdout st =
     (case current_exec_io st of
        None \<Rightarrow> route_captured data stdout st
      | Some t \<Rightarrow>
          (case output_target_of t stdout of
             InheritStdout \<Rightarrow> route_captured data True st
           | InheritStderr \<Rightarrow> route_captured data False st
           | destination \<Rightarrow> write_output_destination_direct psw destination data st))"

definition runtime_write :: "subst_write \<Rightarrow> bool \<Rightarrow> bytes \<Rightarrow> io_state \<Rightarrow> io_state" where
  "runtime_write psw stdout data st =
     (case route_output psw data stdout st of
        (st', visible) \<Rightarrow> if visible then account_output (length data) st' else st')"

definition runtime_write_stdout :: "subst_write \<Rightarrow> bytes \<Rightarrow> io_state \<Rightarrow> io_state" where
  "runtime_write_stdout psw = runtime_write psw True"

definition runtime_write_stderr :: "subst_write \<Rightarrow> bytes \<Rightarrow> io_state \<Rightarrow> io_state" where
  "runtime_write_stderr psw = runtime_write psw False"

definition runtime_write_streams :: "subst_write \<Rightarrow> bytes \<Rightarrow> bytes \<Rightarrow> io_state \<Rightarrow> io_state" where
  "runtime_write_streams psw stdout stderr st =
     (let (st1, visible_stdout) = route_output psw stdout True st;
          (st2, visible_stderr) = route_output psw stderr False st1;
          visible_bytes = of_bool visible_stdout * length stdout + of_bool visible_stderr * length stderr
      in if visible_bytes > 0 then account_output visible_bytes st2 else st2)"

text \<open>
  Opening the destination of a write redirection.  \<open>subst_open\<close> looks for the sink of a process
  substitution at the path, and clears it when asked to.  A new file sink is entered in the heap.
  The error message is what the runtime prints.
\<close>

type_synonym subst_open = "string \<Rightarrow> bool \<Rightarrow> io_state \<Rightarrow> io_state option"

definition open_write_destination ::
  "subst_open \<Rightarrow> subst_write \<Rightarrow> string \<Rightarrow> string \<Rightarrow> bool \<Rightarrow> bool \<Rightarrow> io_state \<Rightarrow>
   io_state \<times> (output_target, unit) result" where
  "open_write_destination subst_open psw path target appending clear_before st =
     (case subst_open path clear_before st of
        Some st1 \<Rightarrow> (st1, Ok (ProcessSubst path))
      | None \<Rightarrow>
          (case open_write_sink (io_fs st) path appending of
             (fs', Ok sink) \<Rightarrow>
               (st\<lparr>io_fs := fs', io_sinks := io_sinks st @ [sink]\<rparr>,
                Ok (FileOutput path appending (length (io_sinks st))))
           | (fs', Err err) \<Rightarrow>
               (let st1 = runtime_write_stderr psw
                      (bytes_of (''wasmsh: '' @ target @ '': '' @ show_fs_error err @ [CHR 0x0A]))
                      (st\<lparr>io_fs := fs'\<rparr>)
                in (st1\<lparr>io_vm := set_status (io_vm st1) 1\<rparr>, Err ()))
           | (fs', Panic m) \<Rightarrow> (st\<lparr>io_fs := fs'\<rparr>, Panic m)))"

section \<open>Properties\<close>

text \<open>Both output streams of a state go to the file sink \<open>r\<close>.\<close>

definition both_to_sink :: "sink_ref \<Rightarrow> io_state \<Rightarrow> bool" where
  "both_to_sink r st \<longleftrightarrow> r < length (io_sinks st) \<and>
     (\<exists>t path a. current_exec_io st = Some t \<and> fd_stdout t = FileOutput path a r \<and>
        fd_stderr t = FileOutput path a r)"

lemma account_output_frame [simp]:
  "io_fs (account_output n st) = io_fs st" "io_sinks (account_output n st) = io_sinks st"
  "current_exec_io (account_output n st) = current_exec_io st"
  by (simp_all add: account_output_def flag_output_limit_if_needed_def split: prod.split option.split)

lemma emit_visible_frame [simp]:
  "io_fs (emit_visible_stderr_direct d st) = io_fs st"
  "io_sinks (emit_visible_stderr_direct d st) = io_sinks st"
  "current_exec_io (emit_visible_stderr_direct d st) = current_exec_io st"
  by (simp_all add: emit_visible_stderr_direct_def append_visible_output_direct_def)

text \<open>A write to either stream is one write to the shared sink.\<close>

lemma runtime_write_sink:
  assumes "both_to_sink r st" "write_chunk (io_fs st) (io_sinks st ! r) d = (fs', k', res)"
  shows "io_fs (runtime_write psw out d st) = fs'"
    and "io_sinks (runtime_write psw out d st) = (io_sinks st)[r := k']"
    and "current_exec_io (runtime_write psw out d st) = current_exec_io st"
proof -
  obtain t path a where t: "current_exec_io st = Some t" "output_target_of t out = FileOutput path a r"
    using assms(1) by (auto simp: both_to_sink_def output_target_of_def)
  then have "route_output psw d out st = write_output_destination_direct psw (FileOutput path a r) d st"
    by (simp add: route_output_def)
  then show "io_fs (runtime_write psw out d st) = fs'"
    "io_sinks (runtime_write psw out d st) = (io_sinks st)[r := k']"
    "current_exec_io (runtime_write psw out d st) = current_exec_io st"
    using assms(2)
    by (simp_all add: runtime_write_def write_output_destination_direct_def Let_def
        split: result.split)
qed

text \<open>While it fits the file limit and the quota, a write is appended in full.\<close>

definition room_for :: "nat \<Rightarrow> sink_ref \<Rightarrow> io_state \<Rightarrow> bool" where
  "room_for n r st \<longleftrightarrow>
     (let fs = io_fs st; old = length (sink_content fs (io_sinks st ! r)) in
      old + n \<le> max_file_size \<and> old \<le> total_bytes fs \<and> total_bytes fs + n \<le> max_total_bytes)"

lemma runtime_write_appends:
  fixes psw d out st
  defines "st' \<equiv> runtime_write psw out d st"
  assumes both: "both_to_sink r st" and tight: "sink_tight (io_fs st) (io_sinks st ! r)"
    and room: "room_for (length d + n) r st"
  shows "both_to_sink r st' \<and> sink_tight (io_fs st') (io_sinks st' ! r) \<and> room_for n r st' \<and>
    sink_path (io_sinks st' ! r) = sink_path (io_sinks st ! r) \<and>
    sink_content (io_fs st') (io_sinks st' ! r) = sink_content (io_fs st) (io_sinks st ! r) @ d"
proof -
  let ?fs = "io_fs st" and ?k = "io_sinks st ! r"
  let ?c = "file_bytes ?fs (sink_path ?k)"
  have live: "sink_live ?fs ?k" and c: "sink_content ?fs ?k = ?c" using tight by (simp_all add: sink_tight_def)
  have node: "node_at ?fs (sink_path ?k) = Some (File ?c)" using live by (simp add: sink_live_def)
  have ap: "sink_append ?k \<or> ?c = []" using c by (auto simp: sink_content_def split: if_splits)
  obtain fs' k' res where w: "write_chunk ?fs ?k d = (fs', k', res)" by (cases "write_chunk ?fs ?k d")
  have res: "res = Ok ()" "total_bytes fs' = total_bytes ?fs + length d"
    using w node ap room c
    by (auto simp: write_chunk_def room_for_def Let_def split: if_splits)
  have k': "k' = ?k\<lparr>sink_append := True\<rparr>"
    using write_chunk_Ok(1) [OF _ live] w res(1) by simp
  have after: "sink_live fs' k'" "sink_content fs' k' = sink_content ?fs ?k @ d"
    using write_chunk_after [OF _ live] w res(1) by simp_all
  then have t': "sink_tight fs' k'" by (simp add: sink_tight_def sink_content_def k')
  have st': "io_fs st' = fs'" "io_sinks st' = (io_sinks st)[r := k']" "current_exec_io st' = current_exec_io st"
    unfolding st'_def using runtime_write_sink [OF both w] by simp_all
  have "io_sinks st' ! r = k'" using both st'(2) by (simp add: both_to_sink_def)
  then show ?thesis
    using both after t' room res(2) st' k'
    by (auto simp: both_to_sink_def room_for_def Let_def)
qed

definition write_all_to :: "subst_write \<Rightarrow> (bool \<times> bytes) list \<Rightarrow> io_state \<Rightarrow> io_state" where
  "write_all_to psw ws st = foldl (\<lambda>st (out, d). runtime_write psw out d st) st ws"

lemma write_all_to_appends:
  assumes "both_to_sink r st" "sink_tight (io_fs st) (io_sinks st ! r)"
    and "room_for (length (concat (map snd ws))) r st"
  shows "node_at (io_fs (write_all_to psw ws st)) (sink_path (io_sinks st ! r)) =
    Some (File (sink_content (io_fs st) (io_sinks st ! r) @ concat (map snd ws)))"
  using assms
proof (induction ws arbitrary: st)
  case Nil
  then show ?case by (auto simp: write_all_to_def sink_tight_def sink_live_def)
next
  case (Cons w ws)
  obtain out d where w: "w = (out, d)" by (cases w)
  let ?st = "runtime_write psw out d st"
  have room: "room_for (length d + length (concat (map snd ws))) r st"
    using Cons.prems(3) w by simp
  note step = runtime_write_appends [OF Cons.prems(1,2) room, of psw out]
  have "node_at (io_fs (write_all_to psw ws ?st)) (sink_path (io_sinks ?st ! r)) =
    Some (File (sink_content (io_fs ?st) (io_sinks ?st ! r) @ concat (map snd ws)))"
    using Cons.IH [of ?st] step by blast
  then show ?case using step by (simp add: write_all_to_def w)
qed

text \<open>
  C18 (\<open>> file 2>&1\<close>): after a file has been opened for the standard output and descriptor 2
  duplicated onto it, whatever is written to the two streams, in any interleaving, ends up in
  the file in the order of the writes, as long as it fits the limits of the filesystem; the
  former contents of the file are gone.
\<close>

theorem redirect_both_in_order:
  assumes "subst_open path True st = None"
    and "open_write_destination subst_open psw path target False True st = (st1, Ok dest)"
    and "st2 = st1\<lparr>current_exec_io := Some (apply_dup_output_redir (Some 2) ''1''
           (attach_write_destination None Output dest t))\<rparr>"
    and "length (concat (map snd ws)) \<le> max_file_size"
    and "total_bytes (io_fs st1) + length (concat (map snd ws)) \<le> max_total_bytes"
  shows "node_at (io_fs (write_all_to psw ws st2)) (sink_path (last (io_sinks st1))) =
    Some (File (concat (map snd ws)))"
proof -
  obtain fs' sink where o: "open_write_sink (io_fs st) path False = (fs', Ok sink)"
    and st1: "st1 = st\<lparr>io_fs := fs', io_sinks := io_sinks st @ [sink]\<rparr>"
    and dest: "dest = FileOutput path False (length (io_sinks st))"
    using assms(1,2)
    by (auto simp: open_write_destination_def Let_def split: prod.splits result.splits)
  let ?r = "length (io_sinks st)"
  note tight = open_write_sink_tight [OF o]
  have p: "parse_usize ''1'' = Some 1"
    by (simp add: parse_usize_def is_digit_def digits_val_def digit_val_def Let_def)
  have "both_to_sink ?r st2"
    using p by (auto simp: assms(3) st1 both_to_sink_def dest apply_dup_output_redir_def dup_output_def
        attach_write_destination_def open_output_def FD_BOTH_def Let_def)
  moreover have "sink_tight (io_fs st2) (io_sinks st2 ! ?r)" "sink_content (io_fs st2) (io_sinks st2 ! ?r) = []"
    using tight by (simp_all add: assms(3) st1)
  ultimately show ?thesis
    using write_all_to_appends [of ?r st2 ws psw] assms(4,5)
    by (simp add: assms(3) st1 room_for_def Let_def)
qed

definition demo_io :: io_state where
  "demo_io =
     \<lparr>io_vm = vm_new state_new 0, io_fs = memfs_new, io_sinks = [], io_pipes = [],
      output_captures = [], resource_exhausted = False, current_exec_io = None\<rparr>"

definition demo_opened :: io_state where
  "demo_opened =
     fst (open_write_destination (\<lambda>_ _ _. None) (\<lambda>_ _ _. None) ''/f'' ''/f'' False True demo_io)"

definition demo_redirected :: io_state where
  "demo_redirected = demo_opened\<lparr>current_exec_io := Some (apply_dup_output_redir (Some 2) ''1''
     (attach_write_destination None Output (FileOutput ''/f'' False 0) fd_default))\<rparr>"

theorem redirect_both_in_order_witness:
  "node_at (io_fs (write_all_to (\<lambda>_ _ _. None) [(True, [1]), (False, [2]), (True, [3])]
       demo_redirected)) (sink_path (last (io_sinks demo_opened))) = Some (File [1, 2, 3])"
proof -
  have "open_write_destination (\<lambda>_ _ _. None) (\<lambda>_ _ _. None) ''/f'' ''/f'' False True demo_io =
      (demo_opened, Ok (FileOutput ''/f'' False 0))"
    and z: "total_bytes (io_fs demo_opened) = 0"
    by (simp_all add: demo_opened_def open_write_destination_def demo_io_def witness_simps)
  from redirect_both_in_order [OF refl this(1) demo_redirected_def,
      of "[(True, [1]), (False, [2]), (True, [3])]"] z
  show ?thesis by (simp add: max_file_size_def max_total_bytes_def)
qed

text \<open>
  Order of redirections: \<open>2>&1 > file\<close> is not \<open>> file 2>&1\<close>.  Duplicating first
  leaves descriptor 2 on the old standard output; and any descriptor other than 2 that is opened,
  duplicated or closed stands for the standard output, descriptors above 2 too.
\<close>

theorem redirection_order:
  "(let t' = attach_write_destination None Output dest (apply_dup_output_redir (Some 2) ''1'' t) in
      fd_stdout t' = dest \<and> fd_stderr t' = fd_stdout t) \<and>
   (let t' = apply_dup_output_redir (Some 2) ''1'' (attach_write_destination None Output dest t) in
      fd_stdout t' = dest \<and> fd_stderr t' = dest) \<and>
   attach_write_destination (Some 3) Output dest t = attach_write_destination (Some 1) Output dest t \<and>
   apply_dup_output_redir (Some 3) ''-'' t = apply_dup_output_redir (Some 1) ''-'' t"
proof -
  have "parse_usize ''1'' = Some 1"
    by (simp add: parse_usize_def is_digit_def digits_val_def digit_val_def Let_def)
  then show ?thesis
    by (simp add: attach_write_destination_def apply_dup_output_redir_def open_output_def
        dup_output_def fd_close_def FD_BOTH_def Let_def)
qed

end
