(* ===== verification/Glob.thy ===== *)
theory Glob
  imports Prelude
begin

text \<open>
  Shell globbing, \<^verbatim>\<open>crates/wasmsh-runtime/src/pattern.rs\<close>: the byte-level matcher with one
  backtracking point.  Patterns and names are the lists of
  their bytes.  The matcher is shown to decide exactly the language of the pattern, which is
  given by a list of tokens read from it; \<open>usize::MAX\<close>, which the code uses for an absent
  backtracking point and which no index reaches, is \<open>None\<close>.
\<close>

section \<open>Character classes\<close>

definition glob_match_char_class_item :: "string \<Rightarrow> nat \<Rightarrow> char \<Rightarrow> nat \<times> bool" where
  "glob_match_char_class_item pattern pi ch =
     (if pi + 2 < length pattern \<and> pattern ! (pi + 1) = CHR ''-''
      then (pi + 3, ch \<ge> pattern ! pi \<and> ch \<le> pattern ! (pi + 2))
      else (pi + 1, pattern ! pi = ch))"

function class_loop :: "string \<Rightarrow> char \<Rightarrow> bool \<Rightarrow> nat \<Rightarrow> bool \<Rightarrow> nat \<times> bool" where
  "class_loop pattern ch first pi matched =
     (if pi < length pattern \<and> (first \<or> pattern ! pi \<noteq> CHR '']'') then
        (let (next_pi, item_matched) = glob_match_char_class_item pattern pi ch
         in class_loop pattern ch False next_pi (matched \<or> item_matched))
      else (pi, matched))"
  by pat_completeness auto
termination
  by (relation "measure (\<lambda>(pattern, ch, first, pi, matched). length pattern - pi)")
    (auto simp: glob_match_char_class_item_def split: if_splits)

declare class_loop.simps [simp del]

definition glob_match_char_class :: "string \<Rightarrow> nat \<Rightarrow> char \<Rightarrow> nat \<times> bool" where
  "glob_match_char_class pattern pi ch =
     (let negate = (pi < length pattern \<and> (pattern ! pi = CHR ''!'' \<or> pattern ! pi = CHR ''^''));
          pi = (if negate then pi + 1 else pi);
          (pi, matched) = class_loop pattern ch True pi False;
          pi = (if pi < length pattern \<and> pattern ! pi = CHR '']'' then pi + 1 else pi)
      in (pi, matched \<noteq> negate))"

section \<open>The matcher\<close>

datatype glob_pattern_step = Consume nat | Star | Class nat bool | Mismatch

definition glob_step :: "string \<Rightarrow> nat \<Rightarrow> char \<Rightarrow> glob_pattern_step" where
  "glob_step pattern pi ch =
     (if pi \<ge> length pattern then Mismatch
      else if pattern ! pi = CHR ''?'' then Consume (pi + 1)
      else if pattern ! pi = CHR ''*'' then Star
      else if pattern ! pi = CHR ''['' then
        (let (new_pi, matched) = glob_match_char_class pattern (pi + 1) ch in Class new_pi matched)
      else if pattern ! pi = CHR 0x5C \<and> pi + 1 < length pattern then
        (if pattern ! (pi + 1) = ch then Consume (pi + 2) else Mismatch)
      else if pattern ! pi = ch then Consume (pi + 1)
      else Mismatch)"

lemma class_item_next: "pi < fst (glob_match_char_class_item pattern pi ch)"
  by (simp add: glob_match_char_class_item_def)

lemma class_loop_next: "pi \<le> fst (class_loop pattern ch first pi matched)"
proof (induction pattern ch first pi matched rule: class_loop.induct)
  case (1 pattern ch first pi matched)
  then show ?case
    using class_item_next [of pi pattern ch]
    by (subst class_loop.simps) (fastforce simp: Let_def split: prod.splits)
qed

lemma glob_step_next:
  "glob_step pattern pi ch = Consume n \<or> glob_step pattern pi ch = Class n b \<Longrightarrow>
   pi < n \<and> pi < length pattern"
  using class_loop_next [of "Suc pi" pattern ch True False]
    class_loop_next [of "Suc (Suc pi)" pattern ch True False]
  by (auto simp: glob_step_def glob_match_char_class_def Let_def split: if_splits prod.splits)

lemma glob_step_shrinks:
  "glob_step pattern pi ch = Consume n \<Longrightarrow> length pattern - n < length pattern - pi"
  "glob_step pattern pi ch = Class n b \<Longrightarrow> length pattern - n < length pattern - pi"
  using glob_step_next [of pattern pi ch n] by auto

lemma class_loop_bound:
  "pi \<le> length pattern \<Longrightarrow> fst (class_loop pattern ch first pi matched) \<le> length pattern"
proof (induction pattern ch first pi matched rule: class_loop.induct)
  case (1 pattern ch first pi matched)
  then show ?case
    by (subst class_loop.simps) (auto simp: glob_match_char_class_item_def)
qed

lemma glob_step_bound:
  "glob_step pattern pi ch = Consume n \<or> glob_step pattern pi ch = Class n b \<Longrightarrow> n \<le> length pattern"
  using class_loop_bound [of "Suc pi" pattern ch True False]
    class_loop_bound [of "Suc (Suc pi)" pattern ch True False]
  by (auto simp: glob_step_def glob_match_char_class_def Let_def split: if_splits prod.splits)

lemma glob_step_star: "glob_step pattern pi ch = Star \<Longrightarrow> pi < length pattern"
  by (auto simp: glob_step_def split: if_splits)

function skip_stars :: "string \<Rightarrow> nat \<Rightarrow> nat" where
  "skip_stars pattern pi =
     (if pi < length pattern \<and> pattern ! pi = CHR ''*'' then skip_stars pattern (pi + 1) else pi)"
  by pat_completeness auto
termination by (relation "measure (\<lambda>(pattern, pi). length pattern - pi)") auto

declare skip_stars.simps [simp del]

text \<open>
  The loop of \<open>glob_match_inner\<close>; \<open>star\<close> holds \<open>star_pi\<close> and \<open>star_ni\<close>.
\<close>

function glob_loop :: "string \<Rightarrow> string \<Rightarrow> nat \<Rightarrow> nat \<Rightarrow> (nat \<times> nat) option \<Rightarrow> bool" where
  "glob_loop pattern name pi ni star =
     (if ni < length name then
        (case glob_step pattern pi (name ! ni) of
           Star \<Rightarrow> glob_loop pattern name (pi + 1) ni (Some (pi, ni))
         | Consume new_pi \<Rightarrow> glob_loop pattern name new_pi (ni + 1) star
         | Class new_pi True \<Rightarrow> glob_loop pattern name new_pi (ni + 1) star
         | _ \<Rightarrow>
             (case star of
                None \<Rightarrow> False
              | Some (star_pi, star_ni) \<Rightarrow>
                  glob_loop pattern name (star_pi + 1) (star_ni + 1) (Some (star_pi, star_ni + 1))))
      else skip_stars pattern pi = length pattern)"
  by pat_completeness auto

text \<open>
  Termination: the backtracking point moves forward in the name, or the position moves forward
  in the pattern.  (A state whose backtracking point is ahead of the position, which the matcher
  never reaches, is left at the first star or backtracking.)
\<close>

termination glob_loop
  by (relation "measures
      [\<lambda>(pattern, name, pi, ni, star). case star of None \<Rightarrow> 0 | Some (sp, sn) \<Rightarrow> of_bool (ni < sn),
       \<lambda>(pattern, name, pi, ni, star). case star of None \<Rightarrow> Suc (length name) | Some (sp, sn) \<Rightarrow> length name - sn,
       \<lambda>(pattern, name, pi, ni, star). length pattern - pi]")
    (auto intro: glob_step_shrinks dest!: glob_step_star split: option.splits)

declare glob_loop.simps [simp del]

definition glob_match_inner :: "string \<Rightarrow> string \<Rightarrow> bool" where
  "glob_match_inner pattern name = glob_loop pattern name 0 0 None"

section \<open>The language of a pattern\<close>

text \<open>
  A pattern read as a list of tokens: a wildcard for any sequence, or one character of a class.
  A class is a list of ranges; its first item may be a closing bracket.
\<close>

datatype glob_token = AnySeq | OneOf "char \<Rightarrow> bool"

function class_items :: "bool \<Rightarrow> string \<Rightarrow> (char \<times> char) list \<times> string" where
  "class_items first [] = ([], [])"
| "class_items first (a # p) =
     (if \<not> first \<and> a = CHR '']'' then ([], p)
      else if 2 \<le> length p \<and> p ! 0 = CHR ''-'' then
        (let (rs, rest) = class_items False (drop 2 p) in ((a, p ! 1) # rs, rest))
      else (let (rs, rest) = class_items False p in ((a, a) # rs, rest)))"
  by pat_completeness auto
termination by (relation "measure (length \<circ> snd)") auto

definition in_ranges :: "(char \<times> char) list \<Rightarrow> char \<Rightarrow> bool" where
  "in_ranges rs c \<longleftrightarrow> list_ex (\<lambda>(lo, hi). lo \<le> c \<and> c \<le> hi) rs"

definition class_of :: "string \<Rightarrow> (char \<Rightarrow> bool) \<times> string" where
  "class_of p =
     (if p \<noteq> [] \<and> (hd p = CHR ''!'' \<or> hd p = CHR ''^'')
      then (let (rs, rest) = class_items True (tl p) in (\<lambda>c. \<not> in_ranges rs c, rest))
      else (let (rs, rest) = class_items True p in (in_ranges rs, rest)))"

lemma class_items_length: "length (snd (class_items first p)) \<le> length p"
proof (induction first p rule: class_items.induct)
  case (2 first a p)
  then show ?case
    by (cases "\<not> first \<and> a = CHR '']''"; cases "2 \<le> length p \<and> p ! 0 = CHR ''-''")
      (auto simp: Let_def case_prod_beta)
qed simp

lemma class_of_length: "length (snd (class_of p)) \<le> length p"
  using class_items_length [of True p] class_items_length [of True "tl p"]
  by (auto simp: class_of_def Let_def split: prod.splits)

function glob_tokens :: "string \<Rightarrow> glob_token list" where
  "glob_tokens [] = []"
| "glob_tokens (c # p) =
     (if c = CHR ''?'' then OneOf (\<lambda>_. True) # glob_tokens p
      else if c = CHR ''*'' then AnySeq # glob_tokens p
      else if c = CHR ''['' then (let (P, rest) = class_of p in OneOf P # glob_tokens rest)
      else if c = CHR 0x5C \<and> p \<noteq> [] then OneOf ((=) (hd p)) # glob_tokens (tl p)
      else OneOf ((=) c) # glob_tokens p)"
  by pat_completeness auto
termination
  by (relation "measure length")
    (auto simp: le_imp_less_Suc dest!: arg_cong [where f = snd] intro: class_of_length [THEN le_imp_less_Suc])

declare glob_tokens.simps(2) [simp del]

fun glob_lang :: "glob_token list \<Rightarrow> string set" where
  "glob_lang [] = {[]}"
| "glob_lang (AnySeq # ts) = {u @ v | u v. v \<in> glob_lang ts}"
| "glob_lang (OneOf P # ts) = {c # v | c v. P c \<and> v \<in> glob_lang ts}"

lemma in_ranges_Cons: "in_ranges ((lo, hi) # rs) c \<longleftrightarrow> lo \<le> c \<and> c \<le> hi \<or> in_ranges rs c"
  by (simp add: in_ranges_def)

lemma in_ranges_Nil: "\<not> in_ranges [] c"
  by (simp add: in_ranges_def)

text \<open>The index loop over a class reads the same items as the list function.\<close>

lemma class_loop_items:
  "class_loop pattern ch first pi matched = (pi', m) \<Longrightarrow>
   class_items first (drop pi pattern) = (rs, rest) \<Longrightarrow>
   m = (matched \<or> in_ranges rs ch) \<and>
   drop (if pi' < length pattern \<and> pattern ! pi' = CHR '']'' then pi' + 1 else pi') pattern = rest"
proof (induction pattern ch first pi matched arbitrary: rs rule: class_loop.induct)
  case (1 pattern ch first pi matched)
  show ?case
  proof (cases "pi < length pattern \<and> (first \<or> pattern ! pi \<noteq> CHR '']'')")
    case True
    then have drop: "drop pi pattern = pattern ! pi # drop (Suc pi) pattern"
      by (simp add: Cons_nth_drop_Suc)
    show ?thesis
    proof (cases "pi + 2 < length pattern \<and> pattern ! (pi + 1) = CHR ''-''")
      case range: True
      then obtain rs' where rs: "class_items False (drop (pi + 3) pattern) = (rs', rest)"
          "rs = (pattern ! pi, pattern ! (pi + 2)) # rs'"
        using True "1.prems"(2) unfolding drop
        by (auto simp: Let_def eval_nat_numeral split: prod.splits if_splits)
      have loop: "class_loop pattern ch False (pi + 3)
          (matched \<or> pattern ! pi \<le> ch \<and> ch \<le> pattern ! (pi + 2)) = (pi', m)"
        using True range "1.prems"(1)
        by (subst (asm) class_loop.simps) (simp add: glob_match_char_class_item_def)
      show ?thesis
        using "1.IH" [OF True refl _ loop rs(1)] range rs(2)
        by (auto simp: glob_match_char_class_item_def in_ranges_Cons)
    next
      case single: False
      then obtain rs' where rs: "class_items False (drop (pi + 1) pattern) = (rs', rest)"
          "rs = (pattern ! pi, pattern ! pi) # rs'"
        using True "1.prems"(2) unfolding drop
        by (auto simp: Let_def split: prod.splits if_splits)
      have loop: "class_loop pattern ch False (pi + 1) (matched \<or> pattern ! pi = ch) = (pi', m)"
        using True single "1.prems"(1)
        by (subst (asm) class_loop.simps) (auto simp: glob_match_char_class_item_def)
      show ?thesis
        using "1.IH" [OF True refl _ loop rs(1)] single rs(2)
        by (auto simp: glob_match_char_class_item_def in_ranges_Cons)
    qed
  next
    case False
    then have "pi' = pi" "m = matched"
      using "1.prems"(1) by (auto simp: class_loop.simps [of pattern ch first pi])
    moreover have "pi < length pattern \<Longrightarrow> drop pi pattern = CHR '']'' # drop (Suc pi) pattern"
      using False by (metis Cons_nth_drop_Suc)
    ultimately show ?thesis
      using False "1.prems"(2) by (cases "pi < length pattern") (auto simp: in_ranges_Nil)
  qed
qed

lemma glob_match_char_class_of:
  assumes "glob_match_char_class pattern pi ch = (pi', m)" "class_of (drop pi pattern) = (P, rest)"
  shows "m = P ch \<and> drop pi' pattern = rest"
proof -
  define neg where "neg \<longleftrightarrow> pi < length pattern \<and> (pattern ! pi = CHR ''!'' \<or> pattern ! pi = CHR ''^'')"
  define pj where "pj = (if neg then pi + 1 else pi)"
  obtain pk mk where loop: "class_loop pattern ch True pj False = (pk, mk)" by (cases "class_loop pattern ch True pj False")
  obtain rs rest' where items: "class_items True (drop pj pattern) = (rs, rest')"
    by (cases "class_items True (drop pj pattern)")
  have "hd (drop pi pattern) = pattern ! pi" if "pi < length pattern"
    using that by (simp add: hd_drop_conv_nth)
  then have "P = (if neg then (\<lambda>c. \<not> in_ranges rs c) else in_ranges rs) \<and> rest = rest'"
    using assms(2) items by (auto simp: class_of_def neg_def pj_def tl_drop drop_Suc [symmetric]
        drop_tl [symmetric] split: if_splits)
  then show ?thesis
    using assms(1) loop class_loop_items [OF loop items]
    by (auto simp: glob_match_char_class_def neg_def [symmetric] pj_def [symmetric] split: if_splits)
qed

lemma glob_tokens_drop:
  assumes "pi < length pattern"
  shows "glob_tokens (drop pi pattern) = glob_tokens (pattern ! pi # drop (Suc pi) pattern)"
  using assms by (simp add: Cons_nth_drop_Suc)

abbreviation tokens_from :: "string \<Rightarrow> nat \<Rightarrow> glob_token list" where
  "tokens_from pattern pi \<equiv> glob_tokens (drop pi pattern)"

text \<open>One step of the matcher reads one token.\<close>

lemma glob_step_tokens:
  "glob_step pattern pi ch = Star \<Longrightarrow> tokens_from pattern pi = AnySeq # tokens_from pattern (pi + 1)"
  "glob_step pattern pi ch = Consume n \<Longrightarrow>
     \<exists>P. P ch \<and> tokens_from pattern pi = OneOf P # tokens_from pattern n"
  "glob_step pattern pi ch = Class n b \<Longrightarrow>
     \<exists>P. P ch = b \<and> tokens_from pattern pi = OneOf P # tokens_from pattern n"
  "glob_step pattern pi ch = Mismatch \<Longrightarrow>
     tokens_from pattern pi = [] \<or> (\<exists>P ts. \<not> P ch \<and> tokens_from pattern pi = OneOf P # ts)"
proof -
  show "tokens_from pattern pi = AnySeq # tokens_from pattern (pi + 1)" if "glob_step pattern pi ch = Star"
    using that glob_tokens_drop [of pi pattern]
    by (auto simp: glob_step_def Let_def glob_tokens.simps(2) split: if_splits prod.splits)
  show "\<exists>P. P ch \<and> tokens_from pattern pi = OneOf P # tokens_from pattern n"
    if "glob_step pattern pi ch = Consume n"
    using that glob_tokens_drop [of pi pattern]
    by (auto simp: glob_step_def Let_def glob_tokens.simps(2) hd_drop_conv_nth tl_drop drop_Suc [symmetric]
        drop_tl [symmetric] split: if_splits prod.splits)
  show "\<exists>P. P ch = b \<and> tokens_from pattern pi = OneOf P # tokens_from pattern n"
    if "glob_step pattern pi ch = Class n b"
  proof -
    have step: "pi < length pattern" "pattern ! pi = CHR ''[''"
        "glob_match_char_class pattern (pi + 1) ch = (n, b)"
      using that by (auto simp: glob_step_def Let_def split: if_splits prod.splits)
    obtain P rest where P: "class_of (drop (pi + 1) pattern) = (P, rest)"
      by (cases "class_of (drop (pi + 1) pattern)")
    then show ?thesis
      using glob_match_char_class_of [OF step(3) P] glob_tokens_drop [OF step(1)] step(2)
      by (auto simp: glob_tokens.simps(2) Let_def)
  qed
  show "tokens_from pattern pi = [] \<or> (\<exists>P ts. \<not> P ch \<and> tokens_from pattern pi = OneOf P # ts)"
    if "glob_step pattern pi ch = Mismatch"
    using that glob_tokens_drop [of pi pattern]
    by (auto simp: glob_step_def Let_def glob_tokens.simps(2) hd_drop_conv_nth
        split: if_splits prod.splits)
qed

text \<open>Only wildcards accept the empty name.\<close>

lemma skip_stars_lang:
  "pi \<le> length pattern \<Longrightarrow> skip_stars pattern pi = length pattern \<longleftrightarrow> [] \<in> glob_lang (tokens_from pattern pi)"
proof (induction pattern pi rule: skip_stars.induct)
  case (1 pattern pi)
  show ?case
  proof (cases "pi < length pattern")
    case True
    then have "pattern ! pi \<noteq> CHR ''*'' \<Longrightarrow> \<exists>P ts. tokens_from pattern pi = OneOf P # ts"
      using glob_tokens_drop [of pi pattern] by (auto simp: glob_tokens.simps(2) Let_def split: prod.splits)
    moreover have "pattern ! pi = CHR ''*'' \<Longrightarrow> tokens_from pattern pi = AnySeq # tokens_from pattern (Suc pi)"
      using True glob_tokens_drop [of pi pattern] by (simp add: glob_tokens.simps(2))
    ultimately show ?thesis
      using 1 True by (subst skip_stars.simps) auto
  qed (use 1 in \<open>simp add: skip_stars.simps\<close>)
qed

section \<open>The matcher decides the language\<close>

lemma lang_ones:
  "s \<in> glob_lang (map OneOf Ps @ ts) \<Longrightarrow> length Ps \<le> length s \<and> drop (length Ps) s \<in> glob_lang ts"
  by (induction Ps arbitrary: s) auto

lemma any_seq_absorbs:
  assumes "drop k s \<in> glob_lang (AnySeq # ts)" "n \<le> k"
  shows "drop n s \<in> glob_lang (AnySeq # ts)"
proof -
  have "drop n s = take (k - n) (drop n s) @ drop k s"
    using assms(2) by (metis append_take_drop_id drop_drop le_add_diff_inverse2)
  then show ?thesis using assms(1) by auto (metis append_assoc)
qed

lemma any_seq_drop:
  assumes "n \<le> length s"
  shows "drop n s \<in> glob_lang (AnySeq # ts) \<longleftrightarrow> (\<exists>k. n \<le> k \<and> k \<le> length s \<and> drop k s \<in> glob_lang ts)"
proof
  assume "drop n s \<in> glob_lang (AnySeq # ts)"
  then obtain u v where uv: "drop n s = u @ v" "v \<in> glob_lang ts" by auto
  then have "drop (n + length u) s = v" by (metis add.commute append_eq_conv_conj drop_drop)
  moreover have "n + length u \<le> length s" using arg_cong [OF uv(1), of length] assms by simp
  ultimately show "\<exists>k. n \<le> k \<and> k \<le> length s \<and> drop k s \<in> glob_lang ts"
    using uv(2) by (auto intro!: exI [of _ "n + length u"])
next
  assume "\<exists>k. n \<le> k \<and> k \<le> length s \<and> drop k s \<in> glob_lang ts"
  then obtain k where k: "n \<le> k" "drop k s \<in> glob_lang ts" by blast
  from k(2) have "drop k s \<in> glob_lang (AnySeq # ts)" by (auto intro: exI [of _ "[]"])
  then show "drop n s \<in> glob_lang (AnySeq # ts)" using k(1) by (rule any_seq_absorbs)
qed

text \<open>
  A matcher with one backtracking point, over any way to read a pattern: \<open>tokens\<close> from a position of the
  pattern, one \<open>step\<close> per character of the name, and the test at the end of the name.
\<close>

locale backtracking_matcher =
  fixes plen :: nat
    and tokens :: "nat \<Rightarrow> glob_token list"
    and step :: "nat \<Rightarrow> char \<Rightarrow> glob_pattern_step"
    and finish :: "nat \<Rightarrow> bool"
    and name :: string
    and loop :: "nat \<Rightarrow> nat \<Rightarrow> (nat \<times> nat) option \<Rightarrow> bool"
  assumes loop: "loop pi ni star =
     (if ni < length name then
        (case step pi (name ! ni) of
           Star \<Rightarrow> loop (pi + 1) ni (Some (pi, ni))
         | Consume new_pi \<Rightarrow> loop new_pi (ni + 1) star
         | Class new_pi True \<Rightarrow> loop new_pi (ni + 1) star
         | _ \<Rightarrow>
             (case star of
                None \<Rightarrow> False
              | Some (star_pi, star_ni) \<Rightarrow> loop (star_pi + 1) (star_ni + 1) (Some (star_pi, star_ni + 1))))
      else finish pi)"
    and finish: "pi \<le> plen \<Longrightarrow> finish pi \<longleftrightarrow> [] \<in> glob_lang (tokens pi)"
    and step_star: "step pi c = Star \<Longrightarrow> pi < plen \<and> tokens pi = AnySeq # tokens (pi + 1)"
    and step_consume: "step pi c = Consume n \<Longrightarrow>
      pi < n \<and> n \<le> plen \<and> (\<exists>P. P c \<and> tokens pi = OneOf P # tokens n)"
    and step_class: "step pi c = Class n b \<Longrightarrow>
      pi < n \<and> n \<le> plen \<and> (\<exists>P. P c = b \<and> tokens pi = OneOf P # tokens n)"
    and step_mismatch: "step pi c = Mismatch \<Longrightarrow>
      tokens pi = [] \<or> (\<exists>P ts. \<not> P c \<and> tokens pi = OneOf P # ts)"
begin

text \<open>
  What holds between the backtracking point and the position: the tokens after the wildcard are
  single characters up to the position, one for each character of the name passed.
\<close>

definition star_ok :: "nat \<Rightarrow> nat \<Rightarrow> (nat \<times> nat) option \<Rightarrow> bool" where
  "star_ok pi ni star \<longleftrightarrow>
     (case star of
        None \<Rightarrow> True
      | Some (sp, sn) \<Rightarrow> sp < plen \<and> sn \<le> ni \<and>
          (\<exists>Ps. length Ps = ni - sn \<and> tokens (sp + 1) = map OneOf Ps @ tokens pi))"

text \<open>What a later start of the wildcard could still match.\<close>

definition retry :: "(nat \<times> nat) option \<Rightarrow> bool" where
  "retry star \<longleftrightarrow>
     (case star of
        None \<Rightarrow> False
      | Some (sp, sn) \<Rightarrow> \<exists>k. sn < k \<and> k \<le> length name \<and> drop k name \<in> glob_lang (tokens (sp + 1)))"

text \<open>
  A retry of an earlier wildcard is no loss at a later one, and none is left at the end.
\<close>

lemma retry_covered:
  assumes "star_ok pi ni star" "retry star"
  shows "ni < length name \<and> (\<exists>k. ni \<le> k \<and> drop k name \<in> glob_lang (tokens pi))"
proof -
  obtain sp sn k where star: "star = Some (sp, sn)" and k: "sn < k" "k \<le> length name"
      "drop k name \<in> glob_lang (tokens (sp + 1))"
    using assms(2) by (auto simp: retry_def split: option.splits)
  obtain Ps where Ps: "sn \<le> ni" "length Ps = ni - sn"
      "tokens (sp + 1) = map OneOf Ps @ tokens pi"
    using assms(1) star by (auto simp: star_ok_def)
  have "length Ps \<le> length (drop k name)" "drop (length Ps + k) name \<in> glob_lang (tokens pi)"
    using lang_ones [of "drop k name" Ps] k(3) Ps(3) by (simp_all add: add.commute)
  then show ?thesis using Ps k by (auto intro: exI [of _ "length Ps + k"])
qed

lemma star_ok_consume:
  assumes "star_ok pi ni star" "tokens pi = OneOf P # tokens n"
  shows "star_ok n (ni + 1) star"
proof (cases star)
  case (Some s)
  obtain sp sn where s: "s = (sp, sn)" by (cases s)
  obtain Ps where "sp < plen" "sn \<le> ni" "length Ps = ni - sn"
      "tokens (sp + 1) = map OneOf Ps @ tokens pi"
    using assms(1) Some s by (auto simp: star_ok_def)
  then show ?thesis
    using Some s assms(2) by (auto simp: star_ok_def intro!: exI [of _ "Ps @ [P]"])
qed (simp add: star_ok_def)

lemma retry_Suc:
  assumes "sn < length name"
  shows "retry (Some (sp, sn)) \<longleftrightarrow>
    drop (sn + 1) name \<in> glob_lang (tokens (sp + 1)) \<or> retry (Some (sp, sn + 1))"
proof -
  have "drop k name \<in> glob_lang (tokens (sp + 1)) \<and> sn < k \<and> k \<le> length name \<longleftrightarrow>
      k = sn + 1 \<and> drop k name \<in> glob_lang (tokens (sp + 1)) \<or>
      drop k name \<in> glob_lang (tokens (sp + 1)) \<and> sn + 1 < k \<and> k \<le> length name" for k
    using assms by (cases "k = sn + 1") auto
  then show ?thesis
    unfolding retry_def by (simp only: option.case prod.case conj_ac ex_disj_distrib) auto
qed

lemma fail_retry:
  assumes "star_ok pi ni star" "ni < length name"
    and "\<And>sp sn. star = Some (sp, sn) \<Longrightarrow> star_ok (sp + 1) (sn + 1) (Some (sp, sn + 1)) \<Longrightarrow>
      sp + 1 \<le> plen \<Longrightarrow> sn + 1 \<le> length name \<Longrightarrow>
      f sp sn \<longleftrightarrow> drop (sn + 1) name \<in> glob_lang (tokens (sp + 1)) \<or>
        retry (Some (sp, sn + 1))"
  shows "(case star of None \<Rightarrow> False | Some (sp, sn) \<Rightarrow> f sp sn) \<longleftrightarrow> retry star"
proof (cases star)
  case (Some s)
  obtain sp sn where s: "s = (sp, sn)" by (cases s)
  have "sp < plen" "sn \<le> ni" using assms(1) Some s by (auto simp: star_ok_def)
  then show ?thesis
    using assms(2) assms(3) [of sp sn] Some s retry_Suc [of sn sp]
    by (simp add: star_ok_def)
qed (simp add: retry_def)

text \<open>What is left to try for the wildcard, then in the pattern.\<close>

definition to_try :: "nat \<Rightarrow> (nat \<times> nat) option \<Rightarrow> nat \<times> nat" where
  "to_try pi star = (case star of None \<Rightarrow> Suc (length name) | Some (sp, sn) \<Rightarrow> length name - sn, plen - pi)"

lemma loop_lang:
  "star_ok pi ni star \<Longrightarrow> pi \<le> plen \<Longrightarrow> ni \<le> length name \<Longrightarrow>
   loop pi ni star \<longleftrightarrow> drop ni name \<in> glob_lang (tokens pi) \<or> retry star"
proof (induction "to_try pi star" arbitrary: pi ni star rule: wf_induct_rule [OF wf_lex_prod [OF wf_less wf_less]])
  case 1
  note ok = "1.prems"(1)
  note ni = "1.prems"(3)
  show ?case
  proof (cases "ni < length name")
    case False
    then show ?thesis
      using "1.prems" finish [of pi] retry_covered [OF ok] by (subst loop) auto
  next
    case True
    let ?ch = "name ! ni"
    have name: "drop ni name = ?ch # drop (ni + 1) name"
      using True by (simp add: Cons_nth_drop_Suc)
    have forward: "loop n (ni + 1) star \<longleftrightarrow> drop (ni + 1) name \<in> glob_lang (tokens n) \<or> retry star"
      if "pi < n" "n \<le> plen" "tokens pi = OneOf P # tokens n" for n P
      using that True by (intro "1.hyps" star_ok_consume [OF ok]) (auto simp: to_try_def)
    have again:
      "(case star of None \<Rightarrow> False | Some (sp, sn) \<Rightarrow> loop (sp + 1) (sn + 1) (Some (sp, sn + 1))) \<longleftrightarrow> retry star"
    proof (rule fail_retry [OF ok True])
      fix sp sn
      assume star: "star = Some (sp, sn)" and ok': "star_ok (sp + 1) (sn + 1) (Some (sp, sn + 1))"
        and le: "sp + 1 \<le> plen" "sn + 1 \<le> length name"
      show "loop (sp + 1) (sn + 1) (Some (sp, sn + 1)) \<longleftrightarrow>
          drop (sn + 1) name \<in> glob_lang (tokens (sp + 1)) \<or> retry (Some (sp, sn + 1))"
        using le by (intro "1.hyps" ok') (auto simp: to_try_def star)
    qed
    show ?thesis
    proof (cases "step pi ?ch")
      case Star
      note T = conjunct2 [OF step_star [OF Star]]
      have "retry star \<Longrightarrow> drop ni name \<in> glob_lang (tokens pi)"
        using retry_covered [OF ok] any_seq_absorbs [of _ name _ ni] unfolding T by blast
      moreover have "drop ni name \<in> glob_lang (tokens pi) \<longleftrightarrow>
          drop ni name \<in> glob_lang (tokens (pi + 1)) \<or> retry (Some (pi, ni))"
        unfolding T any_seq_drop [OF ni] using ni by (auto simp: retry_def le_less)
      moreover have "loop (pi + 1) ni (Some (pi, ni)) \<longleftrightarrow>
          drop ni name \<in> glob_lang (tokens (pi + 1)) \<or> retry (Some (pi, ni))"
        using step_star [OF Star] ni ok
        by (intro "1.hyps") (auto simp: to_try_def star_ok_def split: option.splits)
      ultimately show ?thesis using True Star by (subst loop) auto
    next
      case (Consume n)
      from step_consume [OF Consume] obtain P where P: "pi < n" "n \<le> plen" "P ?ch" "tokens pi = OneOf P # tokens n"
        by blast
      then show ?thesis using forward [OF P(1,2,4)] True name by (subst loop) (simp add: Consume)
    next
      case (Class n b)
      from step_class [OF Class] obtain P where P: "pi < n" "n \<le> plen" "P ?ch = b" "tokens pi = OneOf P # tokens n"
        by blast
      then show ?thesis using forward [OF P(1,2,4)] again True name by (subst loop) (cases b, simp_all add: Class)
    next
      case Mismatch
      then show ?thesis using True again step_mismatch [OF Mismatch] name by (subst loop) auto
    qed
  qed
qed

lemma matches: "loop 0 0 None \<longleftrightarrow> name \<in> glob_lang (tokens 0)"
  using loop_lang [of 0 0 None] by (simp add: star_ok_def retry_def)

end

interpretation name_matcher: backtracking_matcher "length pattern" "tokens_from pattern" "glob_step pattern"
  "\<lambda>pi. skip_stars pattern pi = length pattern" name "glob_loop pattern name" for pattern name
proof unfold_locales
  fix pi c n b
  show "pi < n \<and> n \<le> length pattern \<and> (\<exists>P. P c \<and> tokens_from pattern pi = OneOf P # tokens_from pattern n)"
    if "glob_step pattern pi c = Consume n"
    using glob_step_next [OF disjI1 [OF that]] glob_step_bound [OF disjI1 [OF that]] glob_step_tokens(2) [OF that] by blast
  show "pi < n \<and> n \<le> length pattern \<and> (\<exists>P. P c = b \<and> tokens_from pattern pi = OneOf P # tokens_from pattern n)"
    if "glob_step pattern pi c = Class n b"
    using glob_step_next [OF disjI2 [OF that]] glob_step_bound [OF disjI2 [OF that]] glob_step_tokens(3) [OF that] by blast
  show "glob_loop pattern name pi ni star =
     (if ni < length name then
        (case glob_step pattern pi (name ! ni) of
           Star \<Rightarrow> glob_loop pattern name (pi + 1) ni (Some (pi, ni))
         | Consume new_pi \<Rightarrow> glob_loop pattern name new_pi (ni + 1) star
         | Class new_pi True \<Rightarrow> glob_loop pattern name new_pi (ni + 1) star
         | _ \<Rightarrow>
             (case star of
                None \<Rightarrow> False
              | Some (star_pi, star_ni) \<Rightarrow>
                  glob_loop pattern name (star_pi + 1) (star_ni + 1) (Some (star_pi, star_ni + 1))))
      else skip_stars pattern pi = length pattern)" for pi ni star
    by (rule glob_loop.simps)
qed (use skip_stars_lang glob_step_star glob_step_tokens in \<open>simp_all\<close>)

lemma glob_match_inner_iff: "glob_match_inner pattern name \<longleftrightarrow> name \<in> glob_lang (glob_tokens pattern)"
  using name_matcher.matches [of pattern name] by (simp add: glob_match_inner_def)

section \<open>Properties\<close>

text \<open>
  C10 (globbing): the matcher, which keeps a single backtracking point, accepts exactly the names in
  the language of the pattern: a wildcard stands for any sequence, a question mark for any byte, a
  bracket for a byte of its ranges (or outside them), and a backslash quotes the next byte.
\<close>

theorem glob_match_exact: "glob_match_inner pattern name \<longleftrightarrow> name \<in> glob_lang (glob_tokens pattern)"
  by (rule glob_match_inner_iff)

end
