(* ===== verification/Extglob.thy ===== *)
theory Extglob
  imports Glob
begin

text \<open>
  The extended patterns of \<^verbatim>\<open>crates/wasmsh-runtime/src/pattern.rs\<close>, \<open>?(..)\<close>, \<open>*(..)\<close>,
  \<open>+(..)\<close>, \<open>@(..)\<close> and \<open>!(..)\<close>: the matcher rewrites the pattern by its alternatives and
  ends in plain globbing.  The weight of a pattern shows that the rewriting ends; the meaning of a
  group is then exact, with the bound on repetitions that the code has.
\<close>

section \<open>Extended patterns\<close>

definition is_extglob_op :: "char \<Rightarrow> bool" where
  "is_extglob_op c \<longleftrightarrow> c \<in> {CHR ''?'', CHR ''*'', CHR ''+'', CHR ''@'', CHR ''!''}"

definition has_extglob_pattern :: "string \<Rightarrow> bool" where
  "has_extglob_pattern pattern \<longleftrightarrow>
     list_ex (\<lambda>i. pattern ! (i + 1) = CHR ''('' \<and> is_extglob_op (pattern ! i)) [0..<length pattern - 1]"

function find_paren_loop :: "string \<Rightarrow> nat \<Rightarrow> nat \<Rightarrow> nat option" where
  "find_paren_loop pattern depth i =
     (if i < length pattern then
        (if pattern ! i = CHR ''('' then find_paren_loop pattern (depth + 1) (i + 1)
         else if pattern ! i = CHR '')'' then
           (if depth - 1 = 0 then Some i else find_paren_loop pattern (depth - 1) (i + 1))
         else find_paren_loop pattern depth (i + 1))
      else None)"
  by pat_completeness auto
termination by (relation "measure (\<lambda>(pattern, depth, i). length pattern - i)") auto

declare find_paren_loop.simps [simp del]

definition find_matching_paren :: "string \<Rightarrow> nat \<Rightarrow> nat option" where
  "find_matching_paren pattern open = find_paren_loop pattern 1 open"

text \<open>
  \<open>split_alternatives\<close>: the accumulators are the pieces so far and the current piece.  The
  depth is a \<open>u32\<close> that is at most the length of the pattern, and that the pieces between
  matching parentheses never count below zero.
\<close>

fun split_alt_loop :: "string list \<Rightarrow> string \<Rightarrow> nat \<Rightarrow> string \<Rightarrow> string list" where
  "split_alt_loop acc current depth [] = acc @ [current]"
| "split_alt_loop acc current depth (b # pat) =
     (if b = CHR ''('' then split_alt_loop acc (current @ [b]) (depth + 1) pat
      else if b = CHR '')'' then split_alt_loop acc (current @ [b]) (depth - 1) pat
      else if b = CHR ''|'' \<and> depth = 0 then split_alt_loop (acc @ [current]) [] depth pat
      else split_alt_loop acc (current @ [b]) depth pat)"

definition split_alternatives :: "string \<Rightarrow> string list" where
  "split_alternatives pat = split_alt_loop [] [] 0 pat"

function find_extglob_loop :: "string \<Rightarrow> nat \<Rightarrow> (nat \<times> char \<times> nat) option" where
  "find_extglob_loop pattern pi =
     (if pi < length pattern then
        (if pi + 1 < length pattern \<and> pattern ! (pi + 1) = CHR ''('' \<and> is_extglob_op (pattern ! pi)
         then (case find_matching_paren pattern (pi + 2) of
                 Some close \<Rightarrow> Some (pi, pattern ! pi, close)
               | None \<Rightarrow> find_extglob_loop pattern (pi + 1))
         else find_extglob_loop pattern (pi + 1))
      else None)"
  by pat_completeness auto
termination by (relation "measure (\<lambda>(pattern, pi). length pattern - pi)") auto

declare find_extglob_loop.simps [simp del]

definition find_extglob_operator :: "string \<Rightarrow> (nat \<times> char \<times> nat) option" where
  "find_extglob_operator pattern = find_extglob_loop pattern 0"

definition build_combined :: "string \<Rightarrow> string \<Rightarrow> string \<Rightarrow> string" where
  "build_combined pre mid suf = pre @ mid @ suf"

subsection \<open>Why the rewriting of extended patterns ends\<close>

text \<open>
  The matcher replaces the first group by copies of its alternatives, which may themselves hold
  groups.  A group weighs more than the copies together: one more than 22 times the groups inside
  it, where at most 21 copies are made.  The weights are computed with a stack, one entry for each
  parenthesis that is open.
\<close>

fun weigh :: "nat list \<Rightarrow> string \<Rightarrow> nat list" where
  "weigh st [] = st"
| "weigh st (c # s) =
     weigh (if c = CHR ''('' then 0 # st
            else if c = CHR '')'' then
              (case st of v # u # st' \<Rightarrow> (u + 1 + 22 * v) # st' | _ \<Rightarrow> st)
            else st) s"

definition pattern_weight :: "string \<Rightarrow> nat" where
  "pattern_weight s = sum_list (weigh [0] s)"

fun scan_parens :: "nat \<Rightarrow> string \<Rightarrow> nat option" where
  "scan_parens d [] = Some d"
| "scan_parens d (c # s) =
     (if c = CHR ''('' then scan_parens (Suc d) s
      else if c = CHR '')'' then (if d = 0 then None else scan_parens (d - 1) s)
      else scan_parens d s)"

abbreviation balanced :: "string \<Rightarrow> bool" where
  "balanced s \<equiv> scan_parens 0 s = Some 0"

lemma weigh_append: "weigh st (s @ t) = weigh (weigh st s) t"
  by (induction st s rule: weigh.induct) auto

lemma scan_append: "scan_parens d (s @ t) = Option.bind (scan_parens d s) (\<lambda>e. scan_parens e t)"
  by (induction d s rule: scan_parens.induct) auto

lemma weigh_scanned:
  "scan_parens d s = Some e \<Longrightarrow> length st1 = d \<Longrightarrow>
   \<exists>st1' v'. length st1' = e \<and> (\<forall>u st. weigh (st1 @ (v + u) # st) s = st1' @ (v' + u) # st)"
proof (induction d s arbitrary: st1 v rule: scan_parens.induct)
  case (2 d c s)
  consider (opens) "c = CHR ''(''" | (closes) "c = CHR '')''" | (other) "c \<noteq> CHR ''(''" "c \<noteq> CHR '')''" by blast
  then show ?case
  proof cases
    case opens
    then show ?thesis using "2.IH"(1) [of "0 # st1" v] "2.prems" by simp
  next
    case closes
    with "2.prems" obtain a st2 where a: "st1 = a # st2" "d \<noteq> 0" "scan_parens (d - 1) s = Some e"
      by (cases st1) (auto split: if_splits)
    show ?thesis
    proof (cases st2)
      case Nil
      then show ?thesis
        using "2.IH"(2) [of "[]" "v + 1 + 22 * a"] "2.prems" a closes
        by (auto simp: algebra_simps)
    next
      case (Cons b st3)
      then show ?thesis
        using "2.IH"(2) [of "(b + 1 + 22 * a) # st3" v] "2.prems" a closes by simp
    qed
  next
    case other
    then show ?thesis using "2.IH"(3) [of st1 v] "2.prems" by simp
  qed
qed simp

definition group_weight :: "string \<Rightarrow> nat" where
  "group_weight s = hd (weigh [0] s)"

lemma weigh_balanced: "balanced s \<Longrightarrow> weigh (v # st) s = (v + group_weight s) # st"
proof -
  assume "balanced s"
  then obtain v' where "\<forall>u st. weigh (u # st) s = (v' + u) # st"
    using weigh_scanned [of 0 s 0 "[]" 0] by auto
  then show ?thesis by (simp add: group_weight_def)
qed

lemma weigh_mono:
  "list_all2 (\<le>) st st' \<Longrightarrow> sum_list st < sum_list st' \<Longrightarrow> sum_list (weigh st s) < sum_list (weigh st' s)"
proof (induction s arbitrary: st st')
  case (Cons c s)
  show ?case
  proof (cases "c = CHR '')'' \<and> (\<exists>v u r. st = v # u # r)")
    case True
    then obtain v u r v' u' r' where st: "st = v # u # r" "st' = v' # u' # r'"
        "v \<le> v'" "u \<le> u'" "list_all2 (\<le>) r r'"
      using Cons.prems(1) by (auto simp: list_all2_Cons1)
    moreover have "sum_list r \<le> sum_list r'" using st(5) by induction auto
    ultimately show ?thesis
      using Cons.IH [of "(u + 1 + 22 * v) # r" "(u' + 1 + 22 * v') # r'"] Cons.prems(2) True by auto
  next
    case False
    have "list_all2 (\<le>) (0 # st) (0 # st')" using Cons.prems(1) by simp
    moreover have "c = CHR '')'' \<Longrightarrow> length st' < 2"
      using False list_all2_lengthD [OF Cons.prems(1)] by (cases st; cases "tl st") auto
    then have "c = CHR '')'' \<Longrightarrow> weigh st' (c # s) = weigh st' s" "c = CHR '')'' \<Longrightarrow> weigh st (c # s) = weigh st s"
      using False by (auto split: list.splits)
    ultimately show ?thesis
      using Cons.IH [of "0 # st" "0 # st'"] Cons.IH [OF Cons.prems] Cons.prems(2) by (cases "c = CHR '')''") simp_all
  qed
qed simp

lemma group_weight_append: "balanced s \<Longrightarrow> balanced t \<Longrightarrow> group_weight (s @ t) = group_weight s + group_weight t"
  using weigh_balanced [of s 0 "[]"] weigh_balanced [of t _ "[]"]
  by (simp add: group_weight_def [of "s @ t"] weigh_append)

lemma split_alt_loop_balanced:
  "scan_parens 0 current = Some depth \<Longrightarrow> scan_parens depth pat = Some 0 \<Longrightarrow>
   \<exists>alts. split_alt_loop acc current depth pat = acc @ alts \<and> list_all balanced alts \<and>
     sum_list (map group_weight alts) = group_weight (current @ pat)"
proof (induction acc current depth pat rule: split_alt_loop.induct)
  case (2 acc current depth b pat)
  show ?case
  proof (cases "b = CHR ''|'' \<and> depth = 0")
    case True
    then obtain alts where "split_alt_loop (acc @ [current]) [] depth pat = (acc @ [current]) @ alts"
        "list_all balanced alts" "sum_list (map group_weight alts) = group_weight pat"
      using "2.IH"(3) "2.prems" by auto
    moreover have "group_weight (current @ b # pat) = group_weight current + group_weight pat"
      using True "2.prems" group_weight_append [of current "b # pat"] by (simp add: group_weight_def)
    ultimately show ?thesis using True "2.prems" by auto
  next
    case False
    then show ?thesis
      using 2 by (auto simp: scan_append split: if_splits)
  qed
qed simp

lemma split_alternatives_balanced:
  "balanced pat \<Longrightarrow> list_all balanced (split_alternatives pat) \<and>
     sum_list (map group_weight (split_alternatives pat)) = group_weight pat"
  using split_alt_loop_balanced [of "[]" 0 pat "[]"] by (auto simp: split_alternatives_def)

text \<open>The group that the matcher finds is balanced, so its parts are.\<close>

lemma find_paren_loop_scan:
  "find_paren_loop pattern depth i = Some close \<Longrightarrow> 0 < depth \<Longrightarrow>
   i \<le> close \<and> close < length pattern \<and> pattern ! close = CHR '')'' \<and>
   scan_parens (depth - 1) (take (close - i) (drop i pattern)) = Some 0"
proof (induction pattern depth i rule: find_paren_loop.induct)
  case (1 pattern depth i)
  have i: "i < length pattern" using "1.prems"(1) by (subst (asm) find_paren_loop.simps) (auto split: if_splits)
  have step: "take (close - i) (drop i pattern) = pattern ! i # take (close - (i + 1)) (drop (i + 1) pattern)"
    if "i + 1 \<le> close"
    using that i by (simp add: Cons_nth_drop_Suc [symmetric] take_Cons' Suc_diff_Suc del: Cons_nth_drop_Suc)
  consider (opens) "pattern ! i = CHR ''(''" | (found) "pattern ! i = CHR '')''" "depth = 1"
    | (closes) "pattern ! i = CHR '')''" "1 < depth" | (other) "pattern ! i \<noteq> CHR ''(''" "pattern ! i \<noteq> CHR '')''"
    using "1.prems"(2) by linarith
  then show ?case
  proof cases
    case opens
    then have "find_paren_loop pattern (depth + 1) (i + 1) = Some close"
      using "1.prems"(1) i by (subst (asm) find_paren_loop.simps) simp
    then show ?thesis using "1.IH"(1) [OF i opens] step opens "1.prems"(2) by simp
  next
    case found
    then show ?thesis using "1.prems"(1) i by (subst (asm) find_paren_loop.simps) auto
  next
    case closes
    then have "find_paren_loop pattern (depth - 1) (i + 1) = Some close"
      using "1.prems"(1) i by (subst (asm) find_paren_loop.simps) simp
    then show ?thesis using "1.IH"(2) [OF i] step closes "1.prems"(2) by simp
  next
    case other
    then have "find_paren_loop pattern depth (i + 1) = Some close"
      using "1.prems"(1) i by (subst (asm) find_paren_loop.simps) simp
    then show ?thesis using "1.IH"(3) [OF i] step other "1.prems"(2) by simp
  qed
qed

lemma find_extglob_loop_group:
  "find_extglob_loop pattern pi0 = Some (pi, op, close) \<Longrightarrow>
   pi + 1 < length pattern \<and> pattern ! pi = op \<and> is_extglob_op op \<and> pattern ! (pi + 1) = CHR ''('' \<and>
   find_matching_paren pattern (pi + 2) = Some close"
proof (induction pattern pi0 rule: find_extglob_loop.induct)
  case (1 pattern pi0)
  then show ?case
    by (subst (asm) (3) find_extglob_loop.simps) (auto split: if_splits option.splits)
qed

lemma extglob_group:
  assumes "find_extglob_operator pattern = Some (pi, op, close)"
  defines "inner \<equiv> take (close - (pi + 2)) (drop (pi + 2) pattern)"
  shows "pattern = take pi pattern @ op # CHR ''('' # inner @ CHR '')'' # drop (close + 1) pattern"
    and "balanced inner" and "is_extglob_op op"
proof -
  have grp: "pi + 1 < length pattern" "pattern ! pi = op" "is_extglob_op op" "pattern ! (pi + 1) = CHR ''(''"
      "find_paren_loop pattern 1 (pi + 2) = Some close"
    using find_extglob_loop_group assms(1) unfolding find_extglob_operator_def find_matching_paren_def by auto
  note close = find_paren_loop_scan [OF grp(5), simplified]
  show "is_extglob_op op" "balanced inner" using grp close by (simp_all add: inner_def)
  have "drop (pi + 2) pattern = inner @ drop close pattern"
    unfolding inner_def using close by (metis append_take_drop_id drop_drop le_add_diff_inverse2 add_2_eq_Suc')
  moreover have "drop close pattern = CHR '')'' # drop (close + 1) pattern"
    using close by (metis Cons_nth_drop_Suc Suc_eq_plus1)
  moreover have "drop pi pattern = op # CHR ''('' # drop (pi + 2) pattern"
    using grp by (metis Cons_nth_drop_Suc Suc_eq_plus1 Suc_lessD add_2_eq_Suc')
  ultimately show "pattern = take pi pattern @ op # CHR ''('' # inner @ CHR '')'' # drop (close + 1) pattern"
    by (metis append_take_drop_id)
qed

lemma weigh_not_Nil: "st \<noteq> [] \<Longrightarrow> weigh st s \<noteq> []"
  by (induction st s rule: weigh.induct) (auto split: list.splits)

text \<open>Copies of the alternatives weigh less than the group.\<close>

lemma group_outweighs_copies:
  assumes "find_extglob_operator pattern = Some (pi, op, close)"
    and "alts = split_alternatives (take (close - (pi + 2)) (drop (pi + 2) pattern))"
    and "set xs \<subseteq> set alts" "length xs \<le> 21"
  shows "pattern_weight (take pi pattern @ concat xs @ drop (close + 1) pattern) < pattern_weight pattern"
proof -
  define inner where "inner = take (close - (pi + 2)) (drop (pi + 2) pattern)"
  note grp = extglob_group [OF assms(1), folded inner_def]
  note alts = split_alternatives_balanced [OF grp(2)]
  have bal: "balanced x" and light: "group_weight x \<le> group_weight inner" if "x \<in> set alts" for x
    using that alts member_le_sum_list [of "group_weight x" "map group_weight alts"] assms(2)
    by (auto simp: list_all_iff inner_def)
  have copies: "balanced (concat xs) \<and> group_weight (concat xs) \<le> length xs * group_weight inner"
    using assms(3)
  proof (induction xs)
    case (Cons x xs)
    then show ?case using bal [of x] light [of x] by (auto simp: scan_append group_weight_append)
  qed (simp add: group_weight_def)
  obtain a st where pre: "weigh [0] (take pi pattern) = a # st"
    using weigh_not_Nil [of "[0]" "take pi pattern"] by (cases "weigh [0] (take pi pattern)") auto
  have "op \<noteq> CHR ''(''" "op \<noteq> CHR '')''" using grp(3) by (auto simp: is_extglob_op_def)
  then have "weigh [0] pattern = weigh ((a + 1 + 22 * group_weight inner) # st) (drop (close + 1) pattern)"
    by (subst grp(1)) (simp add: weigh_append pre weigh_balanced [OF grp(2)])
  moreover have "weigh [0] (take pi pattern @ concat xs @ drop (close + 1) pattern) =
      weigh ((a + group_weight (concat xs)) # st) (drop (close + 1) pattern)"
    by (simp add: weigh_append pre weigh_balanced copies)
  moreover have "group_weight (concat xs) < 1 + 22 * group_weight inner"
    using copies mult_le_mono1 [OF assms(4), of "group_weight inner"] by linarith
  ultimately show ?thesis
    unfolding pattern_weight_def by (simp add: weigh_mono list.rel_refl)
qed

text \<open>The heaviest pattern that at most \<open>n\<close> further copies can build.\<close>

definition reach :: "nat \<Rightarrow> string \<Rightarrow> string list \<Rightarrow> string \<Rightarrow> nat" where
  "reach n pre alts suf =
     Max {pattern_weight (pre @ concat xs @ suf) | xs. set xs \<subseteq> set alts \<and> length xs \<le> n}"

lemma reach_finite: "finite {pattern_weight (pre @ concat xs @ suf) | xs. set xs \<subseteq> set alts \<and> length xs \<le> n}"
  using finite_lists_length_le [of "set alts" n] by simp

lemma reach_ge: "set xs \<subseteq> set alts \<Longrightarrow> length xs \<le> n \<Longrightarrow> pattern_weight (pre @ concat xs @ suf) \<le> reach n pre alts suf"
  unfolding reach_def by (intro Max_ge reach_finite) auto

lemma reach_le:
  assumes "\<And>xs. set xs \<subseteq> set alts \<Longrightarrow> length xs \<le> n \<Longrightarrow> pattern_weight (pre @ concat xs @ suf) \<le> m"
  shows "reach n pre alts suf \<le> m"
  unfolding reach_def using assms by (subst Max_le_iff [OF reach_finite]) (auto intro: exI [of _ "[]"])

lemma reach_zero: "pattern_weight (pre @ suf) \<le> reach n pre alts suf"
  using reach_ge [of "[]" alts n pre suf] by simp

lemma reach_one: "alt \<in> set alts \<Longrightarrow> 0 < n \<Longrightarrow> pattern_weight (pre @ alt @ suf) \<le> reach n pre alts suf"
  using reach_ge [of "[alt]" alts n pre suf] by simp

lemma reach_extend: "alt \<in> set alts \<Longrightarrow> reach n (pre @ alt) alts suf \<le> reach (Suc n) pre alts suf"
  by (rule reach_le) (use reach_ge [of "alt # _" alts "Suc n" pre suf] in simp)

lemma reach_group:
  assumes "find_extglob_operator pattern = Some (pi, op, close)"
    and "alts = split_alternatives (take (close - (pi + 2)) (drop (pi + 2) pattern))" "n \<le> 21"
  shows "reach n (take pi pattern) alts (drop (close + 1) pattern) < pattern_weight pattern"
proof -
  have "reach n (take pi pattern) alts (drop (close + 1) pattern) \<le> pattern_weight pattern - 1"
  proof (rule reach_le)
    fix xs assume "set xs \<subseteq> set alts" "length xs \<le> n"
    then show "pattern_weight (take pi pattern @ concat xs @ drop (close + 1) pattern) \<le> pattern_weight pattern - 1"
      using group_outweighs_copies [OF assms(1,2), of xs] assms(3) by linarith
  qed
  moreover have "0 < pattern_weight pattern"
    using group_outweighs_copies [OF assms(1,2), of "[]"] by simp
  ultimately show ?thesis by linarith
qed

text \<open>
  The matcher.  The operator that \<open>find_extglob_operator\<close> returns is one of the five, so the
  last branch of the dispatch is \<open>!\<close>.
\<close>

function extglob_match_recursive :: "string \<Rightarrow> string \<Rightarrow> bool"
  and extglob_match_at_or_opt :: "char \<Rightarrow> string \<Rightarrow> string list \<Rightarrow> string \<Rightarrow> string \<Rightarrow> bool"
  and extglob_match_negate :: "string \<Rightarrow> string list \<Rightarrow> string \<Rightarrow> string \<Rightarrow> bool"
  and extglob_star :: "string \<Rightarrow> string list \<Rightarrow> string \<Rightarrow> string \<Rightarrow> nat \<Rightarrow> bool"
  and extglob_try_extend :: "string \<Rightarrow> string list \<Rightarrow> string \<Rightarrow> string \<Rightarrow> nat \<Rightarrow> bool"
  and extglob_plus :: "string \<Rightarrow> string list \<Rightarrow> string \<Rightarrow> string \<Rightarrow> nat \<Rightarrow> bool" where
  "extglob_match_recursive pattern name =
     (case find_extglob_operator pattern of
        None \<Rightarrow> glob_match_inner pattern name
      | Some (pi, op, close) \<Rightarrow>
          (let alternatives = split_alternatives (take (close - (pi + 2)) (drop (pi + 2) pattern));
               pre = take pi pattern;
               suf = drop (close + 1) pattern
           in
             if op = CHR ''@'' \<or> op = CHR ''?'' then extglob_match_at_or_opt op pre alternatives suf name
             else if op = CHR ''*'' then extglob_star pre alternatives suf name 0
             else if op = CHR ''+'' then extglob_plus pre alternatives suf name 0
             else extglob_match_negate pre alternatives suf name))"
| "extglob_match_at_or_opt op pre alternatives suf name =
     (if op = CHR ''?'' \<and> extglob_match_recursive (build_combined pre [] suf) name then True
      else list_ex (\<lambda>alt. extglob_match_recursive (build_combined pre alt suf) name) alternatives)"
| "extglob_match_negate pre alternatives suf name =
     (if list_ex (\<lambda>alt. extglob_match_recursive (build_combined pre alt suf) name) alternatives then False
      else glob_match_inner (build_combined pre ''*'' suf) name)"
| "extglob_star pre alternatives suf name depth =
     (if depth > 20 then False
      else if extglob_match_recursive (build_combined pre [] suf) name then True
      else extglob_try_extend pre alternatives suf name depth)"
| "extglob_try_extend pre alternatives suf name depth =
     list_ex (\<lambda>alt. length (build_combined pre alt []) > length pre \<and>
         extglob_star (build_combined pre alt []) alternatives suf name (depth + 1)) alternatives"
| "extglob_plus pre alternatives suf name depth =
     (if depth > 20 then False
      else list_ex (\<lambda>alt. extglob_star (build_combined pre alt []) alternatives suf name (depth + 1)) alternatives)"
  by pat_completeness auto

definition star_measure :: "nat \<Rightarrow> string \<Rightarrow> string list \<Rightarrow> string \<Rightarrow> nat" where
  "star_measure depth pre alts suf = (if depth > 20 then 0 else reach (21 - depth) pre alts suf)"

lemma star_measure_zero: "depth \<le> 20 \<Longrightarrow> pattern_weight (pre @ suf) \<le> star_measure depth pre alts suf"
  by (simp add: star_measure_def reach_zero)

lemma star_measure_extend:
  "alt \<in> set alts \<Longrightarrow> star_measure (Suc depth) (pre @ alt) alts suf \<le> star_measure depth pre alts suf"
  using reach_extend [of alt alts "20 - depth" pre suf]
  by (auto simp: star_measure_def Suc_diff_le [of depth 20, symmetric])

lemmas reach_less = reach_zero [THEN le_neq_implies_less] reach_one [THEN le_neq_implies_less]
  star_measure_zero [THEN le_neq_implies_less] star_measure_extend [THEN le_neq_implies_less]

lemma star_measure_group:
  "find_extglob_operator pattern = Some (pi, op, close) \<Longrightarrow>
   star_measure 0 (take pi pattern) (split_alternatives (take (close - (pi + 2)) (drop (pi + 2) pattern)))
     (drop (close + 1) pattern) < pattern_weight pattern"
  using reach_group [OF _ refl, of pattern pi op close 21] by (simp add: star_measure_def)

lemmas group_less = star_measure_group [simplified] reach_group [OF _ refl, of _ _ _ _ "Suc 0", simplified]

termination extglob_match_recursive
proof (relation "measures
    [case_sum (case_sum (pattern_weight \<circ> fst)
        (case_sum (\<lambda>(op, pre, alts, suf, name). reach 1 pre alts suf) (\<lambda>(pre, alts, suf, name). reach 1 pre alts suf)))
       (case_sum (\<lambda>(pre, alts, suf, name, depth). star_measure depth pre alts suf)
         (case_sum (\<lambda>(pre, alts, suf, name, depth). star_measure depth pre alts suf)
           (\<lambda>(pre, alts, suf, name, depth). star_measure depth pre alts suf))),
     case_sum (case_sum (\<lambda>_. 0) (case_sum (\<lambda>_. 1) (\<lambda>_. 1)))
       (case_sum (\<lambda>(pre, alts, suf, name, depth). if depth > 20 then 1 else 2 * (22 - depth) + 1)
         (case_sum (\<lambda>(pre, alts, suf, name, depth). if depth > 20 then 2 else 2 * (22 - depth)) (\<lambda>_. 100)))]", goal_cases)
qed (auto simp: build_combined_def not_less intro: reach_less group_less)

declare extglob_match_recursive.simps [simp del] extglob_match_at_or_opt.simps [simp del]
  extglob_match_negate.simps [simp del] extglob_star.simps [simp del]
  extglob_try_extend.simps [simp del] extglob_plus.simps [simp del]

definition extglob_match :: "string \<Rightarrow> string \<Rightarrow> bool" where
  "extglob_match pattern name = extglob_match_recursive pattern name"

definition glob_match_ext :: "string \<Rightarrow> string \<Rightarrow> bool \<Rightarrow> bool \<Rightarrow> bool" where
  "glob_match_ext pattern name dotglob extglob =
     (if prefix ''.'' name \<and> \<not> prefix ''.'' pattern \<and> \<not> dotglob then False
      else if extglob \<and> has_extglob_pattern pattern then extglob_match pattern name
      else glob_match_inner pattern name)"

section \<open>Properties\<close>

text \<open>The lists of copies of its alternatives that the matcher tries for a group: a repetition is cut at twenty.\<close>

definition copies_allowed :: "char \<Rightarrow> string list \<Rightarrow> bool" where
  "copies_allowed op xs \<longleftrightarrow>
     (if op = CHR ''@'' then length xs = 1
      else if op = CHR ''?'' then length xs \<le> 1
      else if op = CHR ''*'' then length xs \<le> 20 \<and> [] \<notin> set xs
      else op = CHR ''+'' \<and> xs \<noteq> [] \<and> length xs \<le> 20 \<and> [] \<notin> set (tl xs))"

lemma ex_list_Suc:
  "(\<exists>xs. set xs \<subseteq> A \<and> length xs \<le> Suc n \<and> P xs) \<longleftrightarrow>
   P [] \<or> (\<exists>x xs. x \<in> A \<and> set xs \<subseteq> A \<and> length xs \<le> n \<and> P (x # xs))"
  (is "?lhs \<longleftrightarrow> ?rhs")
proof
  assume ?lhs
  then obtain xs where "set xs \<subseteq> A" "length xs \<le> Suc n" "P xs" by blast
  then show ?rhs by (cases xs) auto
next
  assume ?rhs
  then show ?lhs
  proof
    assume "\<exists>x xs. x \<in> A \<and> set xs \<subseteq> A \<and> length xs \<le> n \<and> P (x # xs)"
    then obtain x xs where "x \<in> A" "set xs \<subseteq> A" "length xs \<le> n" "P (x # xs)" by blast
    then show ?lhs by (intro exI [of _ "x # xs"]) simp
  qed (auto intro: exI [of _ "[]"])
qed

lemma extglob_star_iff:
  "n + depth = 20 \<Longrightarrow>
   extglob_star pre alts suf name depth \<longleftrightarrow>
     (\<exists>xs. set xs \<subseteq> {alt \<in> set alts. alt \<noteq> []} \<and> length xs \<le> n \<and>
        extglob_match_recursive (pre @ concat xs @ suf) name)"
proof (induction n arbitrary: pre depth)
  case 0
  then have "\<not> extglob_try_extend pre alts suf name depth"
    by (auto simp: extglob_try_extend.simps extglob_star.simps list_ex_iff)
  then show ?case using 0 by (simp add: extglob_star.simps [of pre] build_combined_def)
next
  case (Suc n)
  have IH: "extglob_star (pre @ alt) alts suf name (depth + 1) \<longleftrightarrow>
      (\<exists>xs. set xs \<subseteq> {alt \<in> set alts. alt \<noteq> []} \<and> length xs \<le> n \<and>
        extglob_match_recursive (pre @ alt @ concat xs @ suf) name)" for alt
    using Suc.IH [of "depth + 1" "pre @ alt"] Suc.prems by simp
  have "extglob_try_extend pre alts suf name depth \<longleftrightarrow>
      (\<exists>x xs. x \<in> {alt \<in> set alts. alt \<noteq> []} \<and> set xs \<subseteq> {alt \<in> set alts. alt \<noteq> []} \<and> length xs \<le> n \<and>
        extglob_match_recursive (pre @ concat (x # xs) @ suf) name)"
    unfolding extglob_try_extend.simps build_combined_def using IH by (auto simp: list_ex_iff)
  then show ?case
    using Suc.prems unfolding ex_list_Suc by (simp add: extglob_star.simps [of pre] build_combined_def)
qed

lemma extglob_plus_iff:
  "extglob_plus pre alts suf name 0 \<longleftrightarrow>
     (\<exists>xs. set xs \<subseteq> set alts \<and> xs \<noteq> [] \<and> length xs \<le> 20 \<and> [] \<notin> set (tl xs) \<and>
        extglob_match_recursive (pre @ concat xs @ suf) name)" (is "_ \<longleftrightarrow> ?r")
proof -
  have "extglob_plus pre alts suf name 0 \<longleftrightarrow>
      (\<exists>x xs. x \<in> set alts \<and> set xs \<subseteq> {alt \<in> set alts. alt \<noteq> []} \<and> length xs \<le> 19 \<and>
         extglob_match_recursive (pre @ x @ concat xs @ suf) name)" (is "_ \<longleftrightarrow> ?l")
    using extglob_star_iff [of 19 1] by (auto simp: extglob_plus.simps build_combined_def list_ex_iff)
  also have "?l \<longleftrightarrow> ?r"
  proof
    assume ?l
    then obtain x xs where "x \<in> set alts" "set xs \<subseteq> {alt \<in> set alts. alt \<noteq> []}" "length xs \<le> 19"
        "extglob_match_recursive (pre @ x @ concat xs @ suf) name" by blast
    then show ?r by (intro exI [of _ "x # xs"]) auto
  next
    assume ?r
    then obtain xs where "set xs \<subseteq> set alts" "xs \<noteq> []" "length xs \<le> 20" "[] \<notin> set (tl xs)"
        "extglob_match_recursive (pre @ concat xs @ suf) name" by blast
    then show ?l by (cases xs) (auto intro!: exI [of _ "hd xs"] exI [of _ "tl xs"])
  qed
  finally show ?thesis .
qed

text \<open>
  A pattern with a group matches a name exactly when the pattern in which the group is replaced by one of these lists
  does; the group of \<open>!\<close> matches when no alternative does and a wildcard in its place does.
\<close>

lemma extglob_group_copies:
  assumes "find_extglob_operator pattern = Some (pi, op, close)"
  shows "extglob_match pattern name \<longleftrightarrow>
    (let alts = split_alternatives (take (close - (pi + 2)) (drop (pi + 2) pattern));
         with = (\<lambda>mid. take pi pattern @ mid @ drop (close + 1) pattern)
     in if op = CHR ''!''
        then list_all (\<lambda>alt. \<not> extglob_match (with alt) name) alts \<and> name \<in> glob_lang (glob_tokens (with ''*''))
        else \<exists>xs. set xs \<subseteq> set alts \<and> copies_allowed op xs \<and> extglob_match (with (concat xs)) name)"
proof -
  define alts where "alts = split_alternatives (take (close - (pi + 2)) (drop (pi + 2) pattern))"
  define pre where "pre = take pi pattern"
  define suf where "suf = drop (close + 1) pattern"
  note unfolded = extglob_match_recursive.simps [of pattern name, unfolded assms option.case prod.case Let_def,
      folded alts_def pre_def suf_def]
  have op: "is_extglob_op op" by (rule extglob_group(3) [OF assms])
  have one: "(\<exists>xs. set xs \<subseteq> set alts \<and> length xs = 1 \<and> P xs) \<longleftrightarrow> list_ex (\<lambda>alt. P [alt]) alts" for P
  proof
    assume "list_ex (\<lambda>alt. P [alt]) alts"
    then obtain alt where "alt \<in> set alts" "P [alt]" by (auto simp: list_ex_iff)
    then show "\<exists>xs. set xs \<subseteq> set alts \<and> length xs = 1 \<and> P xs" by (intro exI [of _ "[alt]"]) simp
  qed (auto simp: list_ex_iff length_Suc_conv)
  have opt: "(\<exists>xs. set xs \<subseteq> set alts \<and> length xs \<le> 1 \<and> P xs) \<longleftrightarrow> P [] \<or> list_ex (\<lambda>alt. P [alt]) alts" for P
    using ex_list_Suc [of "set alts" 0 P] by (auto simp: list_ex_iff)
  have star: "extglob_star pre alts suf name 0 \<longleftrightarrow> (\<exists>xs. set xs \<subseteq> set alts \<and> length xs \<le> 20 \<and> [] \<notin> set xs \<and>
      extglob_match_recursive (pre @ concat xs @ suf) name)"
    unfolding extglob_star_iff [of 20 0, simplified] by (intro arg_cong [where f = Ex] ext) auto
  consider "op = CHR ''@''" | "op = CHR ''?''" | "op = CHR ''*''" | "op = CHR ''+''" | "op = CHR ''!''"
    using op by (auto simp: is_extglob_op_def)
  then have "extglob_match_recursive pattern name \<longleftrightarrow>
      (if op = CHR ''!''
       then list_all (\<lambda>alt. \<not> extglob_match_recursive (pre @ alt @ suf) name) alts \<and>
         name \<in> glob_lang (glob_tokens (pre @ ''*'' @ suf))
       else \<exists>xs. set xs \<subseteq> set alts \<and> copies_allowed op xs \<and> extglob_match_recursive (pre @ concat xs @ suf) name)"
  proof cases
    case 1
    then show ?thesis
      using one [of "\<lambda>xs. extglob_match_recursive (pre @ concat xs @ suf) name"]
      by (simp add: unfolded copies_allowed_def extglob_match_at_or_opt.simps build_combined_def)
  next
    case 2
    then show ?thesis
      using opt [of "\<lambda>xs. extglob_match_recursive (pre @ concat xs @ suf) name"]
      by (simp add: unfolded copies_allowed_def extglob_match_at_or_opt.simps build_combined_def)
  next
    case 3
    then show ?thesis by (simp add: unfolded copies_allowed_def star)
  next
    case 4
    then show ?thesis by (simp add: unfolded copies_allowed_def extglob_plus_iff)
  next
    case 5
    then show ?thesis
      by (auto simp: unfolded extglob_match_negate.simps build_combined_def list_all_iff list_ex_iff
          glob_match_inner_iff)
  qed
  then show ?thesis by (simp add: extglob_match_def alts_def pre_def suf_def)
qed

text \<open>Groups of literal alternatives between simple patterns, with wildcards but without classes, escapes or groups.\<close>

definition literal_char :: "char \<Rightarrow> bool" where
  "literal_char c \<longleftrightarrow> c \<notin> set ''*?[(|)'' \<union> {CHR 0x5C}"

definition simple_char :: "char \<Rightarrow> bool" where
  "simple_char c \<longleftrightarrow> c \<notin> set ''[(|)'' \<union> {CHR 0x5C}"

definition group_pattern :: "string \<Rightarrow> char \<Rightarrow> string list \<Rightarrow> string \<Rightarrow> string" where
  "group_pattern pre op alts suf = pre @ op # ''('' @ join_with ''|'' alts @ '')'' @ suf"

text \<open>How many occurrences the operator of a group stands for.\<close>

definition occurrences :: "char \<Rightarrow> nat \<Rightarrow> bool" where
  "occurrences op n \<longleftrightarrow>
     (if op = CHR ''@'' then n = 1 else if op = CHR ''?'' then n \<le> 1 else if op = CHR ''*'' then True else 1 \<le> n)"

lemma literal_simple: "list_all literal_char s \<Longrightarrow> list_all simple_char s"
  by (auto simp: list_all_iff literal_char_def simple_char_def)

lemma simple_no_group: "list_all simple_char s \<Longrightarrow> find_extglob_operator s = None"
proof -
  assume s: "list_all simple_char s"
  have "find_extglob_loop s i = None" for i
    using s
  proof (induction s i rule: find_extglob_loop.induct)
    case (1 s i)
    then have "i + 1 < length s \<Longrightarrow> s ! (i + 1) \<noteq> CHR ''(''" by (auto simp: list_all_length simple_char_def)
    then show ?case using 1 by (subst find_extglob_loop.simps) auto
  qed
  then show ?thesis by (simp add: find_extglob_operator_def)
qed

lemma simple_match: "list_all simple_char s \<Longrightarrow> extglob_match s name \<longleftrightarrow> name \<in> glob_lang (glob_tokens s)"
  by (simp add: extglob_match_def extglob_match_recursive.simps simple_no_group glob_match_inner_iff)

lemma group_free_tokens: "list_all simple_char s \<Longrightarrow> glob_tokens (s @ t) = glob_tokens s @ glob_tokens t"
  by (induction s) (auto simp: glob_tokens.simps(2) simple_char_def)

lemma glob_lang_append: "glob_lang (ts @ us) = {u @ v | u v. u \<in> glob_lang ts \<and> v \<in> glob_lang us}"
proof (induction ts rule: glob_lang.induct)
  case (2 ts)
  then show ?case by auto (metis append.assoc)+
next
  case (3 P ts)
  then show ?case by auto (metis append_Cons)+
qed simp

lemma literal_lang: "list_all literal_char s \<Longrightarrow> glob_lang (glob_tokens s) = {s}"
  by (induction s) (auto simp: glob_tokens.simps(2) literal_char_def)

lemma find_paren_skips:
  assumes "\<And>j. i \<le> j \<Longrightarrow> j < k \<Longrightarrow> p ! j \<notin> {CHR ''('', CHR '')''}" "i \<le> k" "k < length p" "p ! k = CHR '')''"
  shows "find_paren_loop p 1 i = Some k"
  using assms
proof (induction "k - i" arbitrary: i)
  case (Suc n)
  then have "find_paren_loop p 1 (i + 1) = Some k" by simp
  then show ?case using Suc by (subst find_paren_loop.simps) auto
qed (simp add: find_paren_loop.simps)

lemma join_literal: "list_all (list_all literal_char) alts \<Longrightarrow> c \<in> set (join_with ''|'' alts) \<Longrightarrow> c \<notin> {CHR ''('', CHR '')''}"
proof (induction alts)
  case (Cons s alts)
  then show ?case by (cases alts) (auto simp: list_all_iff literal_char_def)
qed simp

lemma group_found:
  assumes "list_all simple_char pre" "list_all (list_all literal_char) alts" "is_extglob_op op"
  shows "find_extglob_operator (group_pattern pre op alts suf) =
    Some (length pre, op, length pre + 2 + length (join_with ''|'' alts))"
proof -
  let ?p = "group_pattern pre op alts suf" and ?j = "join_with ''|'' alts"
  have skip: "find_extglob_loop ?p i = find_extglob_loop ?p (length pre)" if "i \<le> length pre" for i
    using that
  proof (induction "length pre - i" arbitrary: i)
    case (Suc n)
    then have "?p ! (i + 1) \<noteq> CHR ''(''"
      using assms(1,3) by (auto simp: group_pattern_def nth_append list_all_length simple_char_def is_extglob_op_def less_Suc_eq_le)
    then show ?case using Suc by (subst find_extglob_loop.simps) (simp add: group_pattern_def)
  qed simp
  have at: "?p ! length pre = op" "?p ! (length pre + 1) = CHR ''(''" by (simp_all add: group_pattern_def nth_append)
  have "find_matching_paren ?p (length pre + 2) = Some (length pre + 2 + length ?j)"
    unfolding find_matching_paren_def
  proof (rule find_paren_skips)
    fix j assume j: "length pre + 2 \<le> j" "j < length pre + 2 + length ?j"
    define m where "m = j - (length pre + 2)"
    have "j = length pre + 2 + m" "m < length ?j" using j by (simp_all add: m_def)
    then have "?p ! j = ?j ! m" by (simp add: group_pattern_def nth_append)
    then show "?p ! j \<notin> {CHR ''('', CHR '')''}" using join_literal [OF assms(2)] \<open>m < length ?j\<close> by (metis nth_mem)
  qed (simp_all add: group_pattern_def nth_append)
  then show ?thesis
    using skip [of 0] at assms(3) unfolding find_extglob_operator_def
    by (simp add: find_extglob_loop.simps [of ?p "length pre"]) (simp add: group_pattern_def)
qed

lemma split_literal: "list_all literal_char s \<Longrightarrow> split_alt_loop acc cur 0 (s @ t) = split_alt_loop acc (cur @ s) 0 t"
  by (induction s arbitrary: cur) (auto simp: literal_char_def)

lemma split_joined:
  "alts \<noteq> [] \<Longrightarrow> list_all (list_all literal_char) alts \<Longrightarrow> split_alt_loop acc [] 0 (join_with ''|'' alts) = acc @ alts"
proof (induction alts arbitrary: acc)
  case (Cons s alts)
  then show ?case
    using split_literal [of s acc "[]"] split_literal [of s acc "[]" "[]"] by (cases alts) auto
qed simp

lemma group_expanded:
  assumes "list_all simple_char pre" "list_all (list_all literal_char) alts" "alts \<noteq> []" "is_extglob_op op"
  shows "extglob_match (group_pattern pre op alts suf) name \<longleftrightarrow>
    (if op = CHR ''!''
     then list_all (\<lambda>alt. \<not> extglob_match (pre @ alt @ suf) name) alts \<and> name \<in> glob_lang (glob_tokens (pre @ ''*'' @ suf))
     else \<exists>xs. set xs \<subseteq> set alts \<and> copies_allowed op xs \<and> extglob_match (pre @ concat xs @ suf) name)"
proof -
  let ?p = "group_pattern pre op alts suf" and ?j = "join_with ''|'' alts"
  have parts: "take (length pre) ?p = pre" "drop (length pre + 2 + length ?j + 1) ?p = suf"
    "take (length pre + 2 + length ?j - (length pre + 2)) (drop (length pre + 2) ?p) = ?j"
    by (simp_all add: group_pattern_def numeral_eq_Suc)
  have alts: "split_alternatives ?j = alts"
    using split_joined [OF assms(3,2), of "[]"] by (simp add: split_alternatives_def)
  show ?thesis
    using extglob_group_copies [OF group_found [OF assms(1,2,4)], of suf name] unfolding Let_def parts alts .
qed

text \<open>Copies of the empty word can be left out, and a copy that is not empty takes a character of the name.\<close>

lemma copies_of_name:
  assumes "op \<in> set ''@?*+''" "occurrences op (length xs)" "op \<in> set ''@?'' \<or> length (concat xs) \<le> 20"
  shows "\<exists>ys. set ys \<subseteq> set xs \<and> copies_allowed op ys \<and> concat ys = concat xs"
proof (cases "op \<in> set ''@?''")
  case True
  then show ?thesis using assms(1,2) by (intro exI [of _ xs]) (auto simp: copies_allowed_def occurrences_def)
next
  case False
  let ?ys = "filter (\<lambda>x. x \<noteq> []) xs"
  have len: "length ?ys \<le> length (concat xs)"
  proof (induction xs)
    case (Cons x xs)
    then show ?case by (cases x) auto
  qed simp
  have same: "concat ?ys = concat xs" by (induction xs) auto
  show ?thesis
  proof (cases "?ys = [] \<and> op = CHR ''+''")
    case True
    then have "concat xs = []" using same by simp
    moreover have "xs \<noteq> []" using assms(2) True by (auto simp: occurrences_def)
    ultimately show ?thesis using True by (cases xs) (auto simp: copies_allowed_def intro!: exI [of _ "[[]]"])
  next
    case F: False
    then show ?thesis using False assms(1,3) len same
      by (intro exI [of _ ?ys]) (auto simp: copies_allowed_def dest: list.set_sel(2))
  qed
qed

lemma copies_occur: "copies_allowed op xs \<Longrightarrow> occurrences op (length xs)"
  by (auto simp: copies_allowed_def occurrences_def Suc_le_eq split: if_splits)

text \<open>
  C21 (extended globbing): a group of literal alternatives between simple patterns stands for its occurrences, exactly one for
  \<open>@\<close>, at most one for \<open>?\<close>, any number for \<open>*\<close> and at least one for \<open>+\<close>, each of them any of the alternatives, for
  repetitions in names of at most twenty characters; and \<open>!\<close> on its own stands for every name that is not an
  alternative.
\<close>

theorem extglob_group_meaning:
  assumes "op \<in> set ''@?*+''" "list_all simple_char pre" "list_all simple_char suf"
    and "alts \<noteq> []" "list_all (list_all literal_char) alts" "op \<in> set ''@?'' \<or> length name \<le> 20"
  shows "(extglob_match (group_pattern pre op alts suf) name \<longleftrightarrow>
      (\<exists>u xs w. name = u @ concat xs @ w \<and> u \<in> glob_lang (glob_tokens pre) \<and> w \<in> glob_lang (glob_tokens suf) \<and>
         set xs \<subseteq> set alts \<and> occurrences op (length xs))) \<and>
    (extglob_match (group_pattern [] CHR ''!'' alts []) name \<longleftrightarrow> name \<notin> set alts)"
proof
  have lits: "list_all literal_char (concat xs)" if "set xs \<subseteq> set alts" for xs
    using that assms(5) by (auto simp: list_all_iff)
  have matched: "extglob_match (pre @ concat xs @ suf) name \<longleftrightarrow>
      (\<exists>u w. name = u @ concat xs @ w \<and> u \<in> glob_lang (glob_tokens pre) \<and> w \<in> glob_lang (glob_tokens suf))"
    if "set xs \<subseteq> set alts" for xs
    using assms(2,3) lits [OF that] literal_simple [OF lits [OF that]]
    by (auto simp: simple_match group_free_tokens glob_lang_append literal_lang)
  have "extglob_match (group_pattern pre op alts suf) name \<longleftrightarrow>
      (\<exists>xs. set xs \<subseteq> set alts \<and> copies_allowed op xs \<and> extglob_match (pre @ concat xs @ suf) name)"
    using group_expanded [OF assms(2,5,4), of op suf name] assms(1) by (auto simp: is_extglob_op_def)
  also have "\<dots> \<longleftrightarrow> (\<exists>u xs w. name = u @ concat xs @ w \<and> u \<in> glob_lang (glob_tokens pre) \<and> w \<in> glob_lang (glob_tokens suf) \<and>
      set xs \<subseteq> set alts \<and> occurrences op (length xs))" (is "?l \<longleftrightarrow> ?r")
  proof
    assume ?l
    then show ?r using matched copies_occur by blast
  next
    assume ?r
    then obtain u xs w where r: "name = u @ concat xs @ w" "u \<in> glob_lang (glob_tokens pre)" "w \<in> glob_lang (glob_tokens suf)"
        "set xs \<subseteq> set alts" "occurrences op (length xs)" by blast
    then have "op \<in> set ''@?'' \<or> length (concat xs) \<le> 20" using assms(6) by auto
    from copies_of_name [OF assms(1) r(5) this] obtain ys where "set ys \<subseteq> set xs" "copies_allowed op ys" "concat ys = concat xs" by blast
    then show ?l using matched [of ys] r by (intro exI [of _ ys]) auto
  qed
  finally show "extglob_match (group_pattern pre op alts suf) name \<longleftrightarrow>
      (\<exists>u xs w. name = u @ concat xs @ w \<and> u \<in> glob_lang (glob_tokens pre) \<and> w \<in> glob_lang (glob_tokens suf) \<and>
         set xs \<subseteq> set alts \<and> occurrences op (length xs))" .
  have "extglob_match alt name \<longleftrightarrow> name = alt" if "alt \<in> set alts" for alt
    using that assms(5) literal_simple by (auto simp: list_all_iff simple_match literal_lang)
  moreover have "glob_lang (glob_tokens ''*'') = UNIV" by (simp add: glob_tokens.simps(2))
  ultimately show "extglob_match (group_pattern [] CHR ''!'' alts []) name \<longleftrightarrow> name \<notin> set alts"
    using group_expanded [of "[]" alts "CHR ''!''" "[]" name] assms(4,5) by (auto simp: is_extglob_op_def list_all_iff)
qed

theorem extglob_group_meaning_witness: "extglob_match ''x*(ab|c)*'' ''xabcaby''"
proof -
  have "group_pattern ''x'' CHR ''*'' [''ab'', ''c''] ''*'' = ''x*(ab|c)*''" by (simp add: group_pattern_def)
  moreover have literals: "(CHR ''*'' \<in> set ''@?*+'') = True" "list_all simple_char ''x'' = True" "list_all simple_char ''*'' = True"
    "list_all (list_all literal_char) [''ab'', ''c''] = True" "(length ''xabcaby'' \<le> 20) = True" "([''ab'', ''c''] \<noteq> []) = True"
    by (simp_all add: simple_char_def literal_char_def)
  moreover have "''xabcaby'' = ''x'' @ concat [''ab'', ''c'', ''ab''] @ ''y''" by simp
  moreover have "''x'' \<in> glob_lang (glob_tokens ''x'')" "''y'' \<in> glob_lang (glob_tokens ''*'')"
    by (simp_all add: glob_tokens.simps(2))
  moreover have "set [''ab'', ''c'', ''ab''] \<subseteq> set [''ab'', ''c'']" "occurrences CHR ''*'' (length [''ab'', ''c'', ''ab''])"
    by (simp_all add: occurrences_def)
  ultimately show ?thesis
    using extglob_group_meaning [of "CHR ''*''" "''x''" "''*''" "[''ab'', ''c'']" "''xabcaby''"]
    unfolding literals by metis
qed

lemma star_group_operator: "find_extglob_operator ''*(a)'' = Some (0, CHR ''*'', 3)"
  by (simp add: find_extglob_operator_def find_extglob_loop.simps find_matching_paren_def
      find_paren_loop.simps is_extglob_op_def)

lemma plain_a_operator: "find_extglob_operator (replicate n (CHR ''a'')) = None"
proof -
  have "find_extglob_loop (replicate n (CHR ''a'')) i = None" for i
  proof (induction "replicate n (CHR ''a'')" i rule: find_extglob_loop.induct)
    case (1 i)
    then show ?case by (subst find_extglob_loop.simps) (auto simp: is_extglob_op_def)
  qed
  then show ?thesis by (simp add: find_extglob_operator_def)
qed

lemma plain_a_lang: "glob_lang (glob_tokens (replicate n (CHR ''a''))) = {replicate n (CHR ''a'')}"
  by (induction n) (auto simp: glob_tokens.simps(2))

text \<open>
  A repetition has at most twenty copies: \<open>*(a)\<close> matches a sequence of the letter only up
  to length twenty, although a repetition has no bound in the shells the code follows.
\<close>

theorem extglob_repetition_capped: "extglob_match ''*(a)'' (replicate n (CHR ''a'')) \<longleftrightarrow> n \<le> 20"
proof -
  have "{alt \<in> set [''a'']. alt \<noteq> []} = {''a''}" by auto
  then have "extglob_match ''*(a)'' (replicate n (CHR ''a'')) \<longleftrightarrow>
      (\<exists>xs. set xs \<subseteq> {''a''} \<and> length xs \<le> 20 \<and> extglob_match_recursive (concat xs) (replicate n (CHR ''a'')))"
    unfolding extglob_match_def extglob_match_recursive.simps [of "''*(a)''"]
    using extglob_star_iff [of 20 0 "[]" "[''a'']" "[]"] star_group_operator
    by (simp add: split_alternatives_def Let_def)
  also have "\<dots> \<longleftrightarrow> (\<exists>k \<le> 20. extglob_match_recursive (replicate k (CHR ''a'')) (replicate n (CHR ''a'')))"
  proof -
    have "xs = replicate (length xs) ''a''" if "set xs \<subseteq> {''a''}" for xs
      using that by (induction xs) auto
    moreover have "concat (replicate k ''a'') = replicate k (CHR ''a'')" for k
      by (induction k) auto
    ultimately have "concat xs = replicate (length xs) (CHR ''a'')" if "set xs \<subseteq> {''a''}" for xs
      using that by metis
    moreover have "set (replicate k ''a'') \<subseteq> {''a''}" "length (replicate k ''a'') = k" for k by auto
    ultimately show ?thesis by metis
  qed
  also have "\<dots> \<longleftrightarrow> n \<le> 20"
    by (simp add: extglob_match_recursive.simps plain_a_operator glob_match_inner_iff plain_a_lang replicate_eq_replicate)
  finally show ?thesis .
qed

end
