(* ===== verification/Utf8.thy ===== *)
theory Utf8
  imports Prelude
begin

text \<open>
  Rust's strings as the lists of their UTF-8 bytes: the bytes that the scanners name, validity,
  character boundaries, and slices, which panic unless both ends are in range and on character
  boundaries.  The lemmas say where boundaries are next to ASCII bytes.
\<close>

section \<open>Bytes\<close>

abbreviation ch_tab :: char where "ch_tab \<equiv> CHR 0x09"
abbreviation ch_newline :: char where "ch_newline \<equiv> CHR 0x0A"
abbreviation ch_return :: char where "ch_return \<equiv> CHR 0x0D"
abbreviation ch_dquote :: char where "ch_dquote \<equiv> CHR 0x22"
abbreviation ch_squote :: char where "ch_squote \<equiv> CHR 0x27"
abbreviation ch_backslash :: char where "ch_backslash \<equiv> CHR 0x5C"
abbreviation ch_backtick :: char where "ch_backtick \<equiv> CHR 0x60"

definition is_alpha :: "char \<Rightarrow> bool" where
  "is_alpha c \<longleftrightarrow>
     (let n = of_char c :: nat in (65 \<le> n \<and> n \<le> 90) \<or> (97 \<le> n \<and> n \<le> 122))"

section \<open>Validity and slices\<close>

definition byte_in :: "nat \<Rightarrow> nat \<Rightarrow> char \<Rightarrow> bool" where
  "byte_in lo hi c \<longleftrightarrow> lo \<le> (of_char c :: nat) \<and> (of_char c :: nat) \<le> hi"

abbreviation is_cont :: "char \<Rightarrow> bool" where
  "is_cont \<equiv> byte_in 128 191"

definition second_of_three :: "char \<Rightarrow> char \<Rightarrow> bool" where
  "second_of_three a b =
     (if byte_in 224 224 a then byte_in 160 191 b
      else if byte_in 237 237 a then byte_in 128 159 b
      else is_cont b)"

definition second_of_four :: "char \<Rightarrow> char \<Rightarrow> bool" where
  "second_of_four a b =
     (if byte_in 240 240 a then byte_in 144 191 b
      else if byte_in 244 244 a then byte_in 128 143 b
      else is_cont b)"

fun valid_utf8 :: "string \<Rightarrow> bool" where
  "valid_utf8 [] = True"
| "valid_utf8 (a # s) =
     (if byte_in 0 127 a then valid_utf8 s
      else if byte_in 194 223 a then
        (case s of b # s1 \<Rightarrow> is_cont b \<and> valid_utf8 s1 | _ \<Rightarrow> False)
      else if byte_in 224 239 a then
        (case s of
           b # c # s2 \<Rightarrow> second_of_three a b \<and> is_cont c \<and> valid_utf8 s2
         | _ \<Rightarrow> False)
      else if byte_in 240 244 a then
        (case s of
           b # c # d # s3 \<Rightarrow>
             second_of_four a b \<and> is_cont c \<and> is_cont d \<and> valid_utf8 s3
         | _ \<Rightarrow> False)
      else False)"

definition is_char_boundary :: "string \<Rightarrow> nat \<Rightarrow> bool" where
  "is_char_boundary s i \<longleftrightarrow> i = 0 \<or> i = length s \<or> (i < length s \<and> \<not> is_cont (s ! i))"

definition str_slice :: "string \<Rightarrow> nat \<Rightarrow> nat \<Rightarrow> (string, 'e) result" where
  "str_slice s i j =
     (if i \<le> j \<and> j \<le> length s \<and> is_char_boundary s i \<and> is_char_boundary s j
      then Ok (take (j - i) (drop i s)) else Panic ''slice index'')"

section \<open>UTF-8\<close>

abbreviation is_ascii :: "char \<Rightarrow> bool" where
  "is_ascii \<equiv> byte_in 0 127"

lemma not_cont_ascii: "is_ascii c \<Longrightarrow> \<not> is_cont c"
  by (simp add: byte_in_def)

text \<open>In a valid string a continuation byte never follows an ASCII byte.\<close>

fun ascii_adjacent :: "string \<Rightarrow> bool" where
  "ascii_adjacent (a # b # s) = ((is_ascii a \<longrightarrow> \<not> is_cont b) \<and> ascii_adjacent (b # s))"
| "ascii_adjacent _ = True"

lemma ascii_adjacent_skip: "\<not> is_ascii a \<Longrightarrow> ascii_adjacent s \<Longrightarrow> ascii_adjacent (a # s)"
  by (cases s) simp_all

lemma valid_utf8_hd: "valid_utf8 (a # s) \<Longrightarrow> \<not> is_cont a"
  by (auto simp: byte_in_def split: if_splits)

lemma byte_high: "byte_in lo hi a \<Longrightarrow> 127 < lo \<Longrightarrow> \<not> is_ascii a"
  by (simp add: byte_in_def)

lemma second_not_ascii: "second_of_three a b \<Longrightarrow> \<not> is_ascii b" "second_of_four a b \<Longrightarrow> \<not> is_ascii b"
  by (auto simp: second_of_three_def second_of_four_def dest: byte_high split: if_splits)

lemma cont_not_ascii: "is_cont b \<Longrightarrow> \<not> is_ascii b"
  by (simp add: byte_in_def)

lemma valid_utf8_cases:
  assumes "valid_utf8 (a # s)" "\<not> is_ascii a"
  obtains (two) b s1 where "s = b # s1" "\<not> is_ascii b" "valid_utf8 s1"
  | (three) b c s2 where "s = b # c # s2" "\<not> is_ascii b" "\<not> is_ascii c" "valid_utf8 s2"
  | (four) b c d s3 where "s = b # c # d # s3" "\<not> is_ascii b" "\<not> is_ascii c" "\<not> is_ascii d"
      "valid_utf8 s3"
proof -
  consider "byte_in 194 223 a" | "\<not> byte_in 194 223 a" "byte_in 224 239 a"
    | "\<not> byte_in 194 223 a" "\<not> byte_in 224 239 a" "byte_in 240 244 a"
    using assms by (simp only: valid_utf8.simps if_False) metis
  then show ?thesis
  proof cases
    case 1
    then show ?thesis using assms two cont_not_ascii by (simp split: list.splits)
  next
    case 2
    then obtain b c s2 where "s = b # c # s2" "second_of_three a b" "is_cont c" "valid_utf8 s2"
      using assms by (auto split: list.splits)
    then show ?thesis using three cont_not_ascii second_not_ascii(1) by blast
  next
    case 3
    then obtain b c d s3 where "s = b # c # d # s3" "second_of_four a b" "is_cont c" "is_cont d"
      "valid_utf8 s3"
      using assms by (auto split: list.splits)
    then show ?thesis using four cont_not_ascii second_not_ascii(2) by blast
  qed
qed

lemma valid_utf8_adjacent: "valid_utf8 s \<Longrightarrow> ascii_adjacent s"
proof (induction s rule: length_induct)
  case (1 s)
  show ?case
  proof (cases s)
    case (Cons a t)
    show ?thesis
    proof (cases "is_ascii a")
      case True
      then have v: "valid_utf8 t" using "1.prems" Cons by simp
      then have "ascii_adjacent t" using "1.IH" Cons by simp
      then show ?thesis using v valid_utf8_hd Cons by (cases t) auto
    next
      case False
      with "1.prems" Cons have "valid_utf8 (a # t)" by simp
      then show ?thesis
        using False
      proof (cases rule: valid_utf8_cases)
        case (two b s1)
        then show ?thesis using "1.IH" Cons False by (auto intro!: ascii_adjacent_skip)
      next
        case (three b c s2)
        then show ?thesis using "1.IH" Cons False by (auto intro!: ascii_adjacent_skip)
      next
        case (four b c d s3)
        then show ?thesis using "1.IH" Cons False by (auto intro!: ascii_adjacent_skip)
      qed
    qed
  qed simp
qed

lemma ascii_adjacent_nth:
  "ascii_adjacent s \<Longrightarrow> Suc i < length s \<Longrightarrow> is_ascii (s ! i) \<Longrightarrow> \<not> is_cont (s ! Suc i)"
proof (induction s arbitrary: i rule: ascii_adjacent.induct)
  case (1 a b s)
  then show ?case by (cases i) auto
qed auto

lemma boundary_after_ascii:
  assumes "valid_utf8 s" "i < length s" "is_ascii (s ! i)"
  shows "is_char_boundary s (Suc i)"
  using ascii_adjacent_nth [OF valid_utf8_adjacent [OF assms(1)], of i] assms(2,3)
  by (auto simp: is_char_boundary_def)

lemma boundary_at_ascii: "i < length s \<Longrightarrow> is_ascii (s ! i) \<Longrightarrow> is_char_boundary s i"
  using not_cont_ascii by (auto simp: is_char_boundary_def)

text \<open>Valid text can be cut at character boundaries.\<close>

lemma valid_utf8_append: "valid_utf8 s \<Longrightarrow> valid_utf8 t \<Longrightarrow> valid_utf8 (s @ t)"
proof (induction s rule: valid_utf8.induct)
  case (2 a s)
  then show ?case by (auto split: if_splits list.splits)
qed simp

lemma valid_utf8_ascii: "list_all is_ascii s \<Longrightarrow> valid_utf8 s"
  by (induction s) simp_all

lemma valid_utf8_concat: "list_all valid_utf8 ss \<Longrightarrow> valid_utf8 (concat ss)"
  by (induction ss) (simp_all add: valid_utf8_append)

lemma first_char:
  assumes "valid_utf8 s" "s \<noteq> []"
  obtains k where "0 < k" "k \<le> length s" "valid_utf8 (take k s)" "valid_utf8 (drop k s)"
    "\<And>j. 0 < j \<Longrightarrow> j < k \<Longrightarrow> is_cont (s ! j)"
proof -
  obtain a t where s: "s = a # t" using assms(2) by (cases s) auto
  have second: "is_cont b" if "second_of_three a b \<or> second_of_four a b" for b
    using that by (auto simp: second_of_three_def second_of_four_def byte_in_def split: if_splits)
  have v: "valid_utf8 (a # t)" using assms(1) s by simp
  consider (one) "is_ascii a" | (two) "\<not> is_ascii a" "byte_in 194 223 a"
    | (three) "\<not> is_ascii a" "\<not> byte_in 194 223 a" "byte_in 224 239 a"
    | (four) "\<not> is_ascii a" "\<not> byte_in 194 223 a" "\<not> byte_in 224 239 a" "byte_in 240 244 a"
    using v by (simp only: valid_utf8.simps if_False) metis
  then show ?thesis
  proof cases
    case one
    then show ?thesis using that [of 1] s v by simp
  next
    case two
    then obtain b u where "t = b # u" "is_cont b" "valid_utf8 u" using v by (simp split: list.splits)
    then show ?thesis using that [of 2] s two by (simp add: less_Suc_eq numeral_2_eq_2)
  next
    case three
    then obtain b c u where "t = b # c # u" "second_of_three a b" "is_cont c" "valid_utf8 u"
      using v by (simp split: list.splits)
    moreover from this have "is_cont (s ! j)" if "0 < j" "j < 3" for j
      using that s second [of b] by (auto simp: less_Suc_eq numeral_3_eq_3)
    ultimately show ?thesis using that [of 3] s three by simp
  next
    case four
    then obtain b c d u where "t = b # c # d # u" "second_of_four a b" "is_cont c" "is_cont d" "valid_utf8 u"
      using v by (simp split: list.splits)
    moreover from this have "is_cont (s ! j)" if "0 < j" "j < 4" for j
      using that s second [of b] by (auto simp: less_Suc_eq eval_nat_numeral)
    ultimately show ?thesis using that [of 4] s four by simp
  qed
qed

lemma valid_utf8_split:
  "valid_utf8 s \<Longrightarrow> i \<le> length s \<Longrightarrow> is_char_boundary s i \<Longrightarrow> valid_utf8 (take i s) \<and> valid_utf8 (drop i s)"
proof (induction s arbitrary: i rule: length_induct)
  case (1 s)
  show ?case
  proof (cases "i = 0 \<or> s = []")
    case False
    then obtain k where k: "0 < k" "k \<le> length s" "valid_utf8 (take k s)" "valid_utf8 (drop k s)"
        "\<And>j. 0 < j \<Longrightarrow> j < k \<Longrightarrow> is_cont (s ! j)"
      using first_char "1.prems"(1) by metis
    have ki: "k \<le> i"
    proof (rule ccontr)
      assume "\<not> k \<le> i"
      then have "is_cont (s ! i)" using k(5) False by simp
      then show False using "1.prems" False k(2) \<open>\<not> k \<le> i\<close> by (auto simp: is_char_boundary_def)
    qed
    have b: "is_char_boundary (drop k s) (i - k)"
      using "1.prems"(2,3) ki k(1) by (auto simp: is_char_boundary_def)
    have "valid_utf8 (take (i - k) (drop k s)) \<and> valid_utf8 (drop (i - k) (drop k s))"
      by (rule "1.IH" [rule_format]) (use k b "1.prems"(2) ki False in \<open>auto\<close>)
    moreover have "take i s = take k s @ take (i - k) (drop k s)"
      using ki by (metis le_add_diff_inverse take_add)
    ultimately show ?thesis using valid_utf8_append [OF k(3)] ki by simp
  qed (use "1.prems" in auto)
qed

lemma valid_utf8_slice:
  assumes "valid_utf8 s" "str_slice s i j = Ok t"
  shows "valid_utf8 t"
proof -
  have ij: "i \<le> j" "j \<le> length s" "is_char_boundary s i" "is_char_boundary s j" "t = take (j - i) (drop i s)"
    using assms(2) by (auto simp: str_slice_def split: if_splits)
  then have "valid_utf8 (take j s)" using valid_utf8_split [OF assms(1)] by blast
  moreover have "is_char_boundary (take j s) i" "i \<le> length (take j s)"
    using ij by (auto simp: is_char_boundary_def)
  ultimately have "valid_utf8 (drop i (take j s))" using valid_utf8_split by blast
  then show ?thesis using ij by (simp add: drop_take)
qed
text \<open>ASCII text can be cut anywhere.\<close>

lemma slice_ascii: "list_all is_ascii s \<Longrightarrow> i \<le> j \<Longrightarrow> j \<le> length s \<Longrightarrow> str_slice s i j = Ok (take (j - i) (drop i s))"
  using not_cont_ascii by (auto simp: str_slice_def is_char_boundary_def list_all_length)

end
