(* ===== verification/Lexer.thy ===== *)
theory Lexer
  imports Ast Utf8
begin

text \<open>
  The lexer of \<^verbatim>\<open>crates/wasmsh-lex/src/lib.rs\<close>.  The source is the list of its UTF-8 bytes,
  one character per byte.  Every \<open>consume_\<close> function takes the lexer and gives back the
  moved lexer beside its result, because the code leaves the position where an error occurred.
  Positions and nesting counters are natural numbers: they never pass the length of the source.
  The mutually recursive scanners are total functions.  Where a loop continues after a nested
  scan, the model checks that the scan moved forward; that it always does is a theorem of
  \<^verbatim>\<open>Lexer_Props\<close>, so the other branch is dead.
\<close>

section \<open>Tokens and state\<close>

datatype lexer_mode = Normal | Comment

datatype token_kind =
    Word bool
  | Semi | Newline | PipeTok | AndAnd | OrOr | Amp | PipeAmp | Less | Greater | GreaterGreater
  | GreaterPipe | LessLess | LessLessDash | LessLessLess | LessGreater | AmpGreater
  | AmpGreaterGreater | LParen | RParen | DblLBracket | DblRBracket | Eof

record token =
  tok_kind :: token_kind
  tok_span :: span

record lexer_error =
  lex_message :: string
  lex_span :: span

record lexer =
  source :: string
  pos :: nat
  mode :: lexer_mode
  subst_depth :: u32

type_synonym 'a lex_result = "lexer \<times> ('a, lexer_error) result"

definition RESERVED_WORDS :: "string list" where
  "RESERVED_WORDS =
     [''if'', ''then'', ''else'', ''elif'', ''fi'', ''do'', ''done'', ''case'', ''esac'', ''while'',
      ''until'', ''for'', ''in'', ''function'', ''select'', ''time'', ''!'', ''{'', ''}'', ''[['',
      '']]'']"

definition is_reserved_word :: "string \<Rightarrow> bool" where
  "is_reserved_word s \<longleftrightarrow> s \<in> set RESERVED_WORDS"

definition MAX_LEX_DEPTH :: u32 where "MAX_LEX_DEPTH = 48"

definition lexer_new :: "string \<Rightarrow> lexer" where
  "lexer_new s = \<lparr>source = s, pos = 0, mode = Normal, subst_depth = 0\<rparr>"

definition span_from :: "lexer \<Rightarrow> nat \<Rightarrow> span" where
  "span_from lx st = \<lparr>span_start = of_nat st, span_end = of_nat (pos lx)\<rparr>"

definition token_text :: "token \<Rightarrow> string \<Rightarrow> string" where
  "token_text t s =
     take (unat (span_end (tok_span t)) - unat (span_start (tok_span t)))
       (drop (unat (span_start (tok_span t))) s)"

definition lex_fail :: "lexer \<Rightarrow> string \<Rightarrow> nat \<Rightarrow> 'a lex_result" where
  "lex_fail lx msg st = (lx, Err \<lparr>lex_message = msg, lex_span = span_from lx st\<rparr>)"

definition enter_subst :: "lexer \<Rightarrow> u32 lex_result" where
  "enter_subst lx =
     (if subst_depth lx \<ge> MAX_LEX_DEPTH
      then lex_fail lx (''maximum substitution nesting depth ('' @ show_nat (unat MAX_LEX_DEPTH) @
             '') exceeded'') (pos lx)
      else
        let lx = lx\<lparr>subst_depth := subst_depth lx + 1\<rparr>
        in (lx, Ok (subst_depth lx)))"

definition exit_subst :: "lexer \<Rightarrow> lexer" where
  "exit_subst lx = lx\<lparr>subst_depth := sat_sub (subst_depth lx) 1\<rparr>"

definition set_position :: "lexer \<Rightarrow> nat \<Rightarrow> lexer" where
  "set_position lx p = lx\<lparr>pos := p, mode := Normal\<rparr>"

definition peek_ahead :: "lexer \<Rightarrow> nat \<Rightarrow> char option" where
  "peek_ahead lx off =
     (if pos lx + off < length (source lx) then Some (source lx ! (pos lx + off)) else None)"

definition peek :: "lexer \<Rightarrow> char option" where
  "peek lx = (if pos lx < length (source lx) then Some (source lx ! pos lx) else None)"

definition advance :: "nat \<Rightarrow> lexer \<Rightarrow> lexer" where
  "advance n lx = lx\<lparr>pos := pos lx + n\<rparr>"

text \<open>What is left of the source: the measure of every loop.\<close>

definition remaining :: "lexer \<Rightarrow> nat" where
  "remaining lx = length (source lx) - pos lx"

lemma peek_Some: "peek lx = Some c \<longleftrightarrow> pos lx < length (source lx) \<and> c = source lx ! pos lx"
  by (auto simp: peek_def)

lemma pos_advance_le: "pos lx \<le> pos (advance n lx)"
  by (simp add: advance_def)

lemma remaining_advance: "peek lx = Some c \<Longrightarrow> 0 < n \<Longrightarrow> remaining (advance n lx) < remaining lx"
  by (auto simp: peek_Some remaining_def advance_def)

text \<open>
  A scanner that only moves the position: \<open>ahead\<close>, with the rules that follow the branches of
  its body.
\<close>

definition ahead :: "lexer \<Rightarrow> lexer \<Rightarrow> bool" where
  "ahead lx lx' \<longleftrightarrow>
     (\<exists>p. lx' = lx\<lparr>pos := p\<rparr> \<and> pos lx \<le> p \<and> (pos lx \<le> length (source lx) \<longrightarrow> p \<le> length (source lx)))"

lemma ahead_refl: "ahead lx lx"
  by (auto simp: ahead_def intro!: exI [of _ "pos lx"])

lemma ahead_trans: "ahead lx lx1 \<Longrightarrow> ahead lx1 lx2 \<Longrightarrow> ahead lx lx2"
  by (auto simp: ahead_def)

lemma ahead_if: "(b \<Longrightarrow> ahead lx x) \<Longrightarrow> (\<not> b \<Longrightarrow> ahead lx y) \<Longrightarrow> ahead lx (if b then x else y)"
  by simp

lemma ahead_option:
  "(m = None \<Longrightarrow> ahead lx x) \<Longrightarrow> (\<And>c. m = Some c \<Longrightarrow> ahead lx (g c)) \<Longrightarrow>
   ahead lx (case m of None \<Rightarrow> x | Some c \<Rightarrow> g c)"
  by (cases m) simp_all

lemma ahead_advance: "peek lx = Some c \<Longrightarrow> ahead lx (advance 1 lx)"
  by (auto simp: ahead_def advance_def peek_Some)

lemma ahead_advance2: "peek_ahead lx 1 = Some c \<Longrightarrow> ahead lx (advance 2 lx)"
  by (auto simp: ahead_def advance_def peek_ahead_def split: if_splits)

lemma ahead_advance3: "peek_ahead lx 2 = Some c \<Longrightarrow> ahead lx (advance 3 lx)"
  by (auto simp: ahead_def advance_def peek_ahead_def split: if_splits)

lemmas ahead_next = ahead_advance [THEN ahead_trans] ahead_advance2 [THEN ahead_trans]
  ahead_advance3 [THEN ahead_trans]

lemma ahead_frame:
  "ahead lx lx' \<Longrightarrow> source lx' = source lx" "ahead lx lx' \<Longrightarrow> mode lx' = mode lx"
  "ahead lx lx' \<Longrightarrow> subst_depth lx' = subst_depth lx" "ahead lx lx' \<Longrightarrow> pos lx \<le> pos lx'"
  by (auto simp: ahead_def)

section \<open>Blanks, comments and quotes\<close>

function skip_blanks :: "lexer \<Rightarrow> lexer" where
  "skip_blanks lx =
     (case peek lx of
        None \<Rightarrow> lx
      | Some c \<Rightarrow>
          if c = CHR '' '' \<or> c = ch_tab then skip_blanks (advance 1 lx)
          else if c = ch_backslash \<and> peek_ahead lx 1 = Some ch_newline then skip_blanks (advance 2 lx)
          else if c = ch_backslash \<and> peek_ahead lx 1 = Some ch_return \<and>
                  peek_ahead lx 2 = Some ch_newline then skip_blanks (advance 3 lx)
          else lx)"
  by pat_completeness auto
termination by (relation "measure remaining") (auto intro: remaining_advance)

declare skip_blanks.simps [simp del]

function consume_comment :: "lexer \<Rightarrow> lexer" where
  "consume_comment lx =
     (case peek lx of
        None \<Rightarrow> lx
      | Some c \<Rightarrow> if c = ch_newline then lx else consume_comment (advance 1 lx))"
  by pat_completeness auto
termination by (relation "measure remaining") (auto intro: remaining_advance)

declare consume_comment.simps [simp del]

function single_quoted_loop :: "nat \<Rightarrow> lexer \<Rightarrow> unit lex_result" where
  "single_quoted_loop st lx =
     (case peek lx of
        None \<Rightarrow> lex_fail lx ''unterminated single quote'' st
      | Some c \<Rightarrow>
          if c = ch_squote then (advance 1 lx, Ok ())
          else single_quoted_loop st (advance 1 lx))"
  by pat_completeness auto
termination by (relation "measure (remaining \<circ> snd)") (auto intro: remaining_advance)

declare single_quoted_loop.simps [simp del]

definition consume_single_quoted :: "lexer \<Rightarrow> unit lex_result" where
  "consume_single_quoted lx = single_quoted_loop (pos lx) (advance 1 lx)"

definition consume_backslash :: "lexer \<Rightarrow> lexer" where
  "consume_backslash lx =
     (let lx = advance 1 lx in if peek lx \<noteq> None then advance 1 lx else lx)"

lemma pos_consume_backslash: "pos lx < pos (consume_backslash lx)"
  by (simp add: consume_backslash_def advance_def Let_def)

lemma source_consume_backslash [simp]: "source (consume_backslash lx) = source lx"
  by (simp add: consume_backslash_def advance_def Let_def)

lemma remaining_backslash: "peek lx = Some c \<Longrightarrow> remaining (consume_backslash lx) < remaining lx"
  using pos_consume_backslash [of lx] by (auto simp: peek_Some remaining_def)

function backtick_loop :: "nat \<Rightarrow> lexer \<Rightarrow> unit lex_result" where
  "backtick_loop st lx =
     (case peek lx of
        None \<Rightarrow> lex_fail lx ''unterminated backquote'' st
      | Some c \<Rightarrow>
          if c = ch_backtick then (advance 1 lx, Ok ())
          else if c = ch_backslash then backtick_loop st (consume_backslash lx)
          else backtick_loop st (advance 1 lx))"
  by pat_completeness auto
termination
  by (relation "measure (remaining \<circ> snd)") (auto intro: remaining_advance remaining_backslash)

declare backtick_loop.simps [simp del]

definition consume_backtick :: "lexer \<Rightarrow> unit lex_result" where
  "consume_backtick lx = backtick_loop (pos lx) (advance 1 lx)"

definition is_special_param :: "char \<Rightarrow> bool" where
  "is_special_param b \<longleftrightarrow> b \<in> set ''?!#$@*-'' \<or> is_digit b"

function consume_identifier :: "lexer \<Rightarrow> lexer" where
  "consume_identifier lx =
     (case peek lx of
        None \<Rightarrow> lx
      | Some c \<Rightarrow>
          if is_alpha c \<or> is_digit c \<or> c = CHR ''_'' then consume_identifier (advance 1 lx) else lx)"
  by pat_completeness auto
termination by (relation "measure remaining") (auto intro: remaining_advance)

declare consume_identifier.simps [simp del]

section \<open>Expansions\<close>

definition moved :: "lexer \<Rightarrow> lexer \<Rightarrow> bool" where
  "moved lx lx' \<longleftrightarrow> source lx' = source lx \<and> pos lx < pos lx'"

lemma remaining_moved: "peek lx = Some c \<Longrightarrow> moved lx lx' \<Longrightarrow> remaining lx' < remaining lx"
  by (auto simp: peek_Some remaining_def moved_def)

definition arithmetic_close_paren :: "nat \<Rightarrow> nat \<Rightarrow> lexer \<Rightarrow> lexer \<times> nat \<times> nat \<times> bool" where
  "arithmetic_close_paren paren_depth dbl_depth lx =
     (if paren_depth > 0 then (advance 1 lx, paren_depth - 1, dbl_depth, False)
      else if peek_ahead lx 1 = Some CHR '')''
      then (advance 2 lx, paren_depth, dbl_depth - 1, dbl_depth - 1 = 0)
      else (advance 1 lx, paren_depth, dbl_depth, False))"

lemma remaining_close_paren:
  "peek lx = Some c \<Longrightarrow> remaining (fst (arithmetic_close_paren p d lx)) < remaining lx"
  by (simp add: arithmetic_close_paren_def remaining_advance)

text \<open>
  Go on with a loop after a nested scan: the error of the scan is the error of the loop (the
  operator \<open>?\<close> of the source).
\<close>

definition then_scan ::
  "lexer \<Rightarrow> unit lex_result \<Rightarrow> (lexer \<Rightarrow> 'a lex_result) \<Rightarrow> 'a lex_result" where
  "then_scan lx r k =
     (case snd r of
        Ok _ \<Rightarrow> if moved lx (fst r) then k (fst r) else (fst r, Panic ''scan did not advance'')
      | Err e \<Rightarrow> (fst r, Err e)
      | Panic m \<Rightarrow> (fst r, Panic m))"

lemma then_scan_cong [fundef_cong]:
  "lx = lx' \<Longrightarrow> r = r' \<Longrightarrow>
   (\<And>y. snd r' = Ok () \<Longrightarrow> y = fst r' \<Longrightarrow> moved lx' y \<Longrightarrow> k y = k' y) \<Longrightarrow>
   then_scan lx r k = then_scan lx' r' k'"
  by (auto simp: then_scan_def split: result.split)

text \<open>
  The scanners that call one another.  \<open>consume_command_subst\<close>, \<open>consume_arithmetic\<close> and
  \<open>consume_brace_param\<close> are their loops, entered with the start of the error span and the
  initial nesting.
\<close>

function double_quoted_loop :: "nat \<Rightarrow> lexer \<Rightarrow> unit lex_result"
  and consume_dollar :: "lexer \<Rightarrow> unit lex_result"
  and consume_dollar_paren :: "lexer \<Rightarrow> unit lex_result"
  and command_subst_loop :: "nat \<Rightarrow> nat \<Rightarrow> lexer \<Rightarrow> unit lex_result"
  and arithmetic_loop :: "nat \<Rightarrow> nat \<Rightarrow> nat \<Rightarrow> lexer \<Rightarrow> unit lex_result"
  and brace_param_loop :: "nat \<Rightarrow> nat \<Rightarrow> lexer \<Rightarrow> unit lex_result"
  where
  "double_quoted_loop st lx =
     (case peek lx of
        None \<Rightarrow> lex_fail lx ''unterminated double quote'' st
      | Some c \<Rightarrow>
          if c = ch_dquote then (advance 1 lx, Ok ())
          else if c = ch_backslash then double_quoted_loop st (consume_backslash lx)
          else if c = CHR ''$'' then then_scan lx (consume_dollar lx) (double_quoted_loop st)
          else if c = ch_backtick then then_scan lx (consume_backtick lx) (double_quoted_loop st)
          else double_quoted_loop st (advance 1 lx))"
| "consume_dollar lx0 =
     (let lx = advance 1 lx0 in
      case peek lx of
        None \<Rightarrow> (lx, Ok ())
      | Some c \<Rightarrow>
          if c = ch_squote then consume_single_quoted lx
          else if c = CHR ''('' then consume_dollar_paren lx
          else if c = CHR ''{'' then
            (let lx = advance 1 lx in brace_param_loop (pos lx - 2) 1 lx)
          else if is_alpha c \<or> c = CHR ''_'' then (consume_identifier lx, Ok ())
          else if is_special_param c then (advance 1 lx, Ok ())
          else (lx, Ok ()))"
| "consume_dollar_paren lx0 =
     (let lx1 = advance 1 lx0 in
      case enter_subst lx1 of
        (lx2, Ok _) \<Rightarrow>
          (let (lx3, result) =
             (if peek lx2 = Some CHR ''('' then
                (let lx = advance 1 lx2 in arithmetic_loop (pos lx - 3) 0 1 lx)
              else command_subst_loop (pos lx2 - 2) 1 lx2)
           in (exit_subst lx3, result))
      | (lx2, Err e) \<Rightarrow> (lx2, Err e)
      | (lx2, Panic m) \<Rightarrow> (lx2, Panic m))"
| "command_subst_loop st depth lx =
     (case peek lx of
        None \<Rightarrow> lex_fail lx ''unterminated command substitution'' st
      | Some c \<Rightarrow>
          if c = CHR ''('' then command_subst_loop st (depth + 1) (advance 1 lx)
          else if c = CHR '')'' then
            (if depth - 1 = 0 then (advance 1 lx, Ok ())
             else command_subst_loop st (depth - 1) (advance 1 lx))
          else if c = ch_squote then
            then_scan lx (consume_single_quoted lx) (command_subst_loop st depth)
          else if c = ch_dquote then
            then_scan lx (double_quoted_loop (pos lx) (advance 1 lx)) (command_subst_loop st depth)
          else if c = ch_backslash then command_subst_loop st depth (consume_backslash lx)
          else if c = CHR ''$'' then then_scan lx (consume_dollar lx) (command_subst_loop st depth)
          else command_subst_loop st depth (advance 1 lx))"
| "arithmetic_loop st paren_depth dbl_depth lx =
     (case peek lx of
        None \<Rightarrow> lex_fail lx ''unterminated arithmetic expansion'' st
      | Some c \<Rightarrow>
          if c = CHR ''('' then
            (let lx1 = advance 1 lx in
             if peek lx1 = Some CHR ''(''
             then arithmetic_loop st paren_depth (dbl_depth + 1) (advance 1 lx1)
             else arithmetic_loop st (paren_depth + 1) dbl_depth lx1)
          else if c = CHR '')'' then
            (case arithmetic_close_paren paren_depth dbl_depth lx of
               (lx1, paren_depth, dbl_depth, closed) \<Rightarrow>
                 if closed then (lx1, Ok ()) else arithmetic_loop st paren_depth dbl_depth lx1)
          else if c = ch_squote then
            then_scan lx (consume_single_quoted lx) (arithmetic_loop st paren_depth dbl_depth)
          else if c = ch_dquote then
            then_scan lx (double_quoted_loop (pos lx) (advance 1 lx))
              (arithmetic_loop st paren_depth dbl_depth)
          else if c = ch_backslash then arithmetic_loop st paren_depth dbl_depth (consume_backslash lx)
          else if c = CHR ''$'' then
            then_scan lx (consume_dollar lx) (arithmetic_loop st paren_depth dbl_depth)
          else arithmetic_loop st paren_depth dbl_depth (advance 1 lx))"
| "brace_param_loop st depth lx =
     (case peek lx of
        None \<Rightarrow> lex_fail lx ''unterminated parameter expansion'' st
      | Some c \<Rightarrow>
          if c = CHR ''{'' then brace_param_loop st (depth + 1) (advance 1 lx)
          else if c = CHR ''}'' then
            (if depth - 1 = 0 then (advance 1 lx, Ok ())
             else brace_param_loop st (depth - 1) (advance 1 lx))
          else if c = ch_squote then
            then_scan lx (consume_single_quoted lx) (brace_param_loop st depth)
          else if c = ch_dquote then
            then_scan lx (double_quoted_loop (pos lx) (advance 1 lx)) (brace_param_loop st depth)
          else if c = ch_backslash then brace_param_loop st depth (consume_backslash lx)
          else brace_param_loop st depth (advance 1 lx))"
  by pat_completeness auto

lemma remaining_enter_subst: "enter_subst lx = (lx', r) \<Longrightarrow> remaining lx' = remaining lx"
  by (auto simp: enter_subst_def lex_fail_def remaining_def Let_def split: if_splits)

lemma remaining_advance_le: "remaining (advance n lx) \<le> remaining lx"
  by (simp add: remaining_def advance_def)

lemma remaining_advance_peek:
  "peek (advance n lx) = Some c \<Longrightarrow> 0 < n \<Longrightarrow> remaining (advance n lx) < remaining lx"
  by (auto simp: peek_Some remaining_def advance_def)

lemma remaining_close_paren_eq:
  "peek lx = Some c \<Longrightarrow> (lx', t) = arithmetic_close_paren p d lx \<Longrightarrow> remaining lx' < remaining lx"
  using remaining_close_paren [of lx c p d] by (metis fst_conv)

lemma remaining_advance_twice:
  "peek (advance n lx) = Some c \<Longrightarrow> 0 < n \<Longrightarrow> remaining (advance m (advance n lx)) < remaining lx"
  using remaining_advance_peek remaining_advance_le le_less_trans by blast

lemma remaining_entered:
  assumes "(lx', r) = enter_subst (advance n lx)"
  shows "remaining lx' \<noteq> remaining lx \<Longrightarrow> remaining lx' < remaining lx"
    and "remaining (advance m lx') \<noteq> remaining lx \<Longrightarrow> remaining (advance m lx') < remaining lx"
  using remaining_enter_subst [OF assms [symmetric]] remaining_advance_le [of n lx]
    remaining_advance_le [of m lx'] by linarith+

text \<open>
  Termination: the rest of the source shrinks, or a scanner hands over, at the same position, to
  one of lower rank.
\<close>

termination double_quoted_loop
proof (relation "measures
    [case_sum (case_sum (remaining \<circ> snd) (case_sum remaining remaining))
       (case_sum (remaining \<circ> snd \<circ> snd)
          (case_sum (remaining \<circ> snd \<circ> snd \<circ> snd) (remaining \<circ> snd \<circ> snd))),
     case_sum (case_sum (\<lambda>_. 1) (case_sum (\<lambda>_. 0) (\<lambda>_. 5)))
       (case_sum (\<lambda>_. 3) (case_sum (\<lambda>_. 3) (\<lambda>_. 3)))]", goal_cases)
qed (auto intro: remaining_advance remaining_backslash remaining_moved remaining_close_paren_eq
    remaining_advance_peek remaining_advance_twice remaining_entered)

declare double_quoted_loop.simps [simp del] consume_dollar.simps [simp del]
  consume_dollar_paren.simps [simp del] command_subst_loop.simps [simp del]
  arithmetic_loop.simps [simp del] brace_param_loop.simps [simp del]

definition consume_double_quoted :: "lexer \<Rightarrow> unit lex_result" where
  "consume_double_quoted lx = double_quoted_loop (pos lx) (advance 1 lx)"

function extglob_loop :: "nat \<Rightarrow> nat \<Rightarrow> lexer \<Rightarrow> unit lex_result" where
  "extglob_loop st depth lx =
     (case peek lx of
        None \<Rightarrow> lex_fail lx ''unterminated extglob pattern'' st
      | Some c \<Rightarrow>
          if c = CHR ''('' then extglob_loop st (depth + 1) (advance 1 lx)
          else if c = CHR '')'' then
            (if depth - 1 = 0 then (advance 1 lx, Ok ())
             else extglob_loop st (depth - 1) (advance 1 lx))
          else if c = ch_backslash then extglob_loop st depth (consume_backslash lx)
          else extglob_loop st depth (advance 1 lx))"
  by pat_completeness auto
termination
  by (relation "measure (remaining \<circ> snd \<circ> snd)") (auto intro: remaining_advance remaining_backslash)

declare extglob_loop.simps [simp del]

definition consume_extglob :: "lexer \<Rightarrow> unit lex_result" where
  "consume_extglob lx = extglob_loop (pos lx) 1 (advance 2 lx)"

section \<open>Words\<close>

definition is_word_break :: "char \<Rightarrow> bool" where
  "is_word_break b \<longleftrightarrow>
     b = CHR '' '' \<or> b = ch_tab \<or> b = ch_newline \<or> b \<in> set '';&|<>()''"

definition plain_word_token_kind :: "string \<Rightarrow> bool \<Rightarrow> token_kind option" where
  "plain_word_token_kind text is_plain =
     (if \<not> is_plain then None
      else if text = ''[['' then Some DblLBracket
      else if text = '']]'' then Some DblRBracket
      else None)"

definition make_word_token :: "lexer \<Rightarrow> string \<Rightarrow> nat \<Rightarrow> (token, lexer_error) result" where
  "make_word_token lx source_str st =
     result_bind (str_slice source_str st (pos lx)) (\<lambda>text.
       let span = span_from lx st;
           is_plain = (ch_squote \<notin> set text \<and> ch_dquote \<notin> set text \<and> ch_backslash \<notin> set text \<and>
                       CHR ''$'' \<notin> set text);
           kind = (case plain_word_token_kind text is_plain of
                     Some k \<Rightarrow> k
                   | None \<Rightarrow> Word (is_plain \<and> is_reserved_word text))
       in Ok \<lparr>tok_kind = kind, tok_span = span\<rparr>)"

definition consume_word_plain :: "lexer \<Rightarrow> unit lex_result" where
  "consume_word_plain lx =
     (case peek lx of
        None \<Rightarrow> (lx, Panic ''index out of bounds'')
      | Some cur \<Rightarrow>
          if cur \<in> set ''?*+@!'' \<and> peek_ahead lx 1 = Some CHR ''('' then consume_extglob lx
          else (advance 1 lx, Ok ()))"

definition consume_word_dollar :: "lexer \<Rightarrow> unit lex_result" where
  "consume_word_dollar lx =
     (if peek_ahead lx 1 = Some ch_dquote \<and> peek_ahead lx 2 \<noteq> Some CHR ''(''
      then consume_double_quoted (advance 1 lx)
      else consume_dollar lx)"

definition read_word_part :: "lexer \<Rightarrow> char \<Rightarrow> unit lex_result" where
  "read_word_part lx next =
     (if next = ch_squote then consume_single_quoted lx
      else if next = ch_dquote then consume_double_quoted lx
      else if next = ch_backtick then consume_backtick lx
      else if next = ch_backslash then (consume_backslash lx, Ok ())
      else if next = CHR ''$'' then consume_word_dollar lx
      else consume_word_plain lx)"

function read_word_loop :: "lexer \<Rightarrow> unit lex_result" where
  "read_word_loop lx =
     (case peek lx of
        None \<Rightarrow> (lx, Ok ())
      | Some next \<Rightarrow>
          if is_word_break next then (lx, Ok ())
          else then_scan lx (read_word_part lx next) read_word_loop)"
  by pat_completeness auto
termination by (relation "measure remaining") (auto intro: remaining_moved)

declare read_word_loop.simps [simp del]

definition read_word :: "lexer \<Rightarrow> token lex_result" where
  "read_word lx =
     (if \<not> valid_utf8 (source lx) then (lx, Panic ''lexer source must be valid UTF-8'')
      else
        case read_word_loop lx of
          (lx', Ok _) \<Rightarrow> (lx', make_word_token lx' (source lx') (pos lx))
        | (lx', Err e) \<Rightarrow> (lx', Err e)
        | (lx', Panic m) \<Rightarrow> (lx', Panic m))"

section \<open>Tokens\<close>

definition op_token :: "nat \<Rightarrow> token_kind \<Rightarrow> lexer \<Rightarrow> lexer \<times> token" where
  "op_token n kind lx =
     (let lx' = advance n lx in (lx', \<lparr>tok_kind = kind, tok_span = span_from lx' (pos lx)\<rparr>))"

definition single_op :: "token_kind \<Rightarrow> lexer \<Rightarrow> lexer \<times> token" where "single_op = op_token 1"

definition double_op :: "token_kind \<Rightarrow> lexer \<Rightarrow> lexer \<times> token" where "double_op = op_token 2"

definition triple_op :: "token_kind \<Rightarrow> lexer \<Rightarrow> lexer \<times> token" where "triple_op = op_token 3"

definition ok_token :: "lexer \<times> token \<Rightarrow> token lex_result" where
  "ok_token r = (fst r, Ok (snd r))"

definition amp_token :: "lexer \<Rightarrow> lexer \<times> token" where
  "amp_token lx =
     (if peek_ahead lx 1 = Some CHR ''&'' then double_op AndAnd lx
      else if peek_ahead lx 1 = Some CHR ''>'' \<and> peek_ahead lx 2 = Some CHR ''>''
      then triple_op AmpGreaterGreater lx
      else if peek_ahead lx 1 = Some CHR ''>'' then double_op AmpGreater lx
      else single_op Amp lx)"

definition pipe_token :: "lexer \<Rightarrow> lexer \<times> token" where
  "pipe_token lx =
     (if peek_ahead lx 1 = Some CHR ''|'' then double_op OrOr lx
      else if peek_ahead lx 1 = Some CHR ''&'' then double_op PipeAmp lx
      else single_op PipeTok lx)"

function process_subst_loop :: "nat \<Rightarrow> nat \<Rightarrow> lexer \<Rightarrow> token lex_result" where
  "process_subst_loop st depth lx =
     (case peek lx of
        None \<Rightarrow> lex_fail lx ''unterminated process substitution'' st
      | Some c \<Rightarrow>
          if c = CHR ''('' then process_subst_loop st (depth + 1) (advance 1 lx)
          else if c = CHR '')'' then
            (if depth - 1 = 0
             then (let lx' = advance 1 lx in
                   (lx', Ok \<lparr>tok_kind = Word False, tok_span = span_from lx' st\<rparr>))
             else process_subst_loop st (depth - 1) (advance 1 lx))
          else if c = ch_squote then
            then_scan lx (consume_single_quoted lx) (process_subst_loop st depth)
          else if c = ch_dquote then
            then_scan lx (consume_double_quoted lx) (process_subst_loop st depth)
          else if c = ch_backslash then process_subst_loop st depth (consume_backslash lx)
          else if c = CHR ''$'' then then_scan lx (consume_dollar lx) (process_subst_loop st depth)
          else process_subst_loop st depth (advance 1 lx))"
  by pat_completeness auto
termination
  by (relation "measure (remaining \<circ> snd \<circ> snd)")
    (auto intro: remaining_advance remaining_backslash remaining_moved)

declare process_subst_loop.simps [simp del]

definition consume_process_subst :: "lexer \<Rightarrow> token lex_result" where
  "consume_process_subst lx = process_subst_loop (pos lx) 1 (advance 2 lx)"

definition greater_token :: "lexer \<Rightarrow> token lex_result" where
  "greater_token lx =
     (if peek_ahead lx 1 = Some CHR ''('' then consume_process_subst lx
      else if peek_ahead lx 1 = Some CHR ''>'' then ok_token (double_op GreaterGreater lx)
      else if peek_ahead lx 1 = Some CHR ''|'' then ok_token (double_op GreaterPipe lx)
      else ok_token (single_op Greater lx))"

definition less_token :: "lexer \<Rightarrow> token lex_result" where
  "less_token lx =
     (if peek_ahead lx 1 = Some CHR ''('' then consume_process_subst lx
      else ok_token
        (if peek_ahead lx 1 = Some CHR ''<'' \<and> peek_ahead lx 2 = Some CHR ''<''
         then triple_op LessLessLess lx
         else if peek_ahead lx 1 = Some CHR ''<'' \<and> peek_ahead lx 2 = Some CHR ''-''
         then triple_op LessLessDash lx
         else if peek_ahead lx 1 = Some CHR ''<'' then double_op LessLess lx
         else if peek_ahead lx 1 = Some CHR ''>'' then double_op LessGreater lx
         else single_op Less lx))"

lemma consume_comment_ahead: "ahead lx (consume_comment lx)"
proof (induction lx rule: consume_comment.induct)
  case (1 lx)
  show ?case
    unfolding consume_comment.simps [of lx]
    by (intro ahead_option ahead_if ahead_refl) (rule ahead_next(1), assumption, rule "1")
qed

lemma skip_blanks_ahead: "ahead lx (skip_blanks lx)"
proof (induction lx rule: skip_blanks.induct)
  case (1 lx)
  show ?case
    unfolding skip_blanks.simps [of lx]
    by (intro ahead_option ahead_if ahead_refl)
      (blast intro: "1" ahead_next)+
qed

lemmas frames [simp] =
  ahead_frame [OF consume_comment_ahead] ahead_frame [OF skip_blanks_ahead]

lemma consume_comment_progress:
  assumes "peek lx = Some c" "c \<noteq> ch_newline"
  shows "remaining (consume_comment lx) < remaining lx"
proof -
  have "consume_comment lx = consume_comment (advance 1 lx)"
    using assms by (subst consume_comment.simps) simp
  then have "pos lx < pos (consume_comment lx)"
    using ahead_frame(4) [OF consume_comment_ahead [of "advance 1 lx"]] by (simp add: advance_def)
  then show ?thesis using assms(1) by (auto simp: remaining_def peek_Some)
qed

lemma remaining_mode [simp]: "remaining (lx\<lparr>mode := m\<rparr>) = remaining lx"
  by (simp add: remaining_def)

lemma peek_mode [simp]: "peek (lx\<lparr>mode := m\<rparr>) = peek lx"
  by (simp add: peek_def)

lemma remaining_skip_blanks: "remaining (skip_blanks lx) \<le> remaining lx"
  by (simp add: remaining_def diff_le_mono2)

text \<open>\<open>next_token\<close> in comment mode finishes the comment and then runs in normal mode.\<close>

function next_token :: "lexer \<Rightarrow> token lex_result"
  and next_normal_token :: "lexer \<Rightarrow> token lex_result"
  where
  "next_token lx =
     (case mode lx of
        Comment \<Rightarrow> next_normal_token ((consume_comment lx)\<lparr>mode := Normal\<rparr>)
      | Normal \<Rightarrow> next_normal_token lx)"
| "next_normal_token lx0 =
     (let lx = skip_blanks lx0 in
      case peek lx of
        None \<Rightarrow> (lx, Ok \<lparr>tok_kind = Eof, tok_span = span_from lx (pos lx)\<rparr>)
      | Some b \<Rightarrow>
          if b = ch_newline then ok_token (single_op Newline lx)
          else if b = CHR '';'' then ok_token (single_op Semi lx)
          else if b = CHR ''('' then ok_token (single_op LParen lx)
          else if b = CHR '')'' then ok_token (single_op RParen lx)
          else if b = CHR ''#'' then next_token (lx\<lparr>mode := Comment\<rparr>)
          else if b = CHR ''&'' then ok_token (amp_token lx)
          else if b = CHR ''|'' then ok_token (pipe_token lx)
          else if b = CHR ''>'' then greater_token lx
          else if b = CHR ''<'' then less_token lx
          else read_word lx)"
  by pat_completeness auto

lemma comment_after_blanks:
  assumes "peek (skip_blanks lx) = Some CHR ''#''"
  shows "Suc (remaining (consume_comment ((skip_blanks lx)\<lparr>mode := m\<rparr>))) \<le> remaining lx"
  using consume_comment_progress [of "(skip_blanks lx)\<lparr>mode := m\<rparr>" "CHR ''#''"] assms
    remaining_skip_blanks [of lx] by simp

text \<open>
  Termination: a comment is not empty, and what follows it is a newline or the end.
\<close>

termination next_token
proof (relation "measure (case_sum
    (\<lambda>lx. 2 * remaining (if mode lx = Comment then consume_comment lx else lx) + 2)
    (\<lambda>lx. 2 * remaining lx + 1))", goal_cases)
  case (4 lx0 lx b)
  then show ?case using comment_after_blanks [of lx0 Comment] by simp
qed auto

declare next_token.simps [simp del] next_normal_token.simps [simp del]

function tokenize_loop :: "token list \<Rightarrow> lexer \<Rightarrow> token list lex_result" where
  "tokenize_loop tokens lx =
     (case next_token lx of
        (lx', Ok tok) \<Rightarrow>
          if tok_kind tok = Eof then (lx', Ok tokens)
          else if remaining lx' < remaining lx then tokenize_loop (tokens @ [tok]) lx'
          else (lx', Panic ''scan did not advance'')
      | (lx', Err e) \<Rightarrow> (lx', Err e)
      | (lx', Panic m) \<Rightarrow> (lx', Panic m))"
  by pat_completeness auto
termination by (relation "measure (remaining \<circ> snd)") auto

declare tokenize_loop.simps [simp del]

definition tokenize_all :: "lexer \<Rightarrow> token list lex_result" where
  "tokenize_all = tokenize_loop []"

definition tokenize :: "string \<Rightarrow> (token list, lexer_error) result" where
  "tokenize s = snd (tokenize_all (lexer_new s))"

end
