(* ===== verification/Word_Parser.thy ===== *)
theory Word_Parser
  imports Ast Utf8
begin

text \<open>
  The word parser of \<^verbatim>\<open>crates/wasmsh-parse/src/word_parser.rs\<close>, which splits the text of a word
  token into literal, quoted and expanded parts.  A function that moves the position \<open>*pos\<close> gives
  back the new one.  A slice of the text may panic, so the functions that take slices return a
  \<open>result\<close> without an error.  Nesting depths are natural numbers: they never pass the length
  of the text.
\<close>

section \<open>Pieces of wd\<close>

type_synonym 'a parsed = "('a, unit) result"

text \<open>
  \<open>String::push(b as char)\<close>: the byte is taken as the Unicode scalar with its number, which has
  two bytes in UTF-8 from 128 on.
\<close>

definition byte_char :: "char \<Rightarrow> string" where
  "byte_char b =
     (let n = of_char b :: nat in
      if n < 128 then [b] else [char_of (192 + n div 64), char_of (128 + n mod 64)])"

definition pos_peek :: "string \<Rightarrow> nat \<Rightarrow> char option" where
  "pos_peek wd i = (if i < length wd then Some (wd ! i) else None)"

definition flush :: "string \<Rightarrow> word_part list \<Rightarrow> word_part list" where
  "flush buf parts = (if buf \<noteq> [] then parts @ [Literal buf] else parts)"

definition is_special_parameter :: "char \<Rightarrow> bool" where
  "is_special_parameter b \<longleftrightarrow> b \<in> set ''?!#$@*-'' \<or> is_digit b"

text \<open>Scanning to the closing quote.\<close>

function to_squote :: "string \<Rightarrow> nat \<Rightarrow> nat" where
  "to_squote wd i = (if i < length wd \<and> wd ! i \<noteq> ch_squote then to_squote wd (i + 1) else i)"
  by pat_completeness auto
termination by (relation "measure (\<lambda>(wd, i). length wd - i)") auto

declare to_squote.simps [simp del]

definition skip_single_quoted :: "string \<Rightarrow> nat \<Rightarrow> nat" where
  "skip_single_quoted wd i =
     (let i = to_squote wd (i + 1) in if i < length wd then i + 1 else i)"

function to_dquote :: "string \<Rightarrow> nat \<Rightarrow> nat" where
  "to_dquote wd i =
     (if i < length wd \<and> wd ! i \<noteq> ch_dquote then
        (if wd ! i = ch_backslash then
           (if i + 1 \<ge> length wd then i + 1 else to_dquote wd (i + 2))
         else to_dquote wd (i + 1))
      else i)"
  by pat_completeness auto
termination by (relation "measure (\<lambda>(wd, i). length wd - i)") auto

declare to_dquote.simps [simp del]

definition skip_double_quoted :: "string \<Rightarrow> nat \<Rightarrow> nat" where
  "skip_double_quoted wd i =
     (let i = to_dquote wd (i + 1) in if i < length wd then i + 1 else i)"

section \<open>Backticks, escapes and ANSI-C quotes\<close>

function backtick_text :: "string \<Rightarrow> string \<Rightarrow> nat \<Rightarrow> nat \<times> string" where
  "backtick_text wd inner i =
     (if i < length wd then
        (if wd ! i = ch_backtick then (i + 1, inner)
         else if wd ! i = ch_backslash \<and>
             (case pos_peek wd (i + 1) of
                Some c \<Rightarrow> c = ch_backtick \<or> c = CHR ''$'' \<or> c = ch_backslash | None \<Rightarrow> False)
         then backtick_text wd (inner @ byte_char (wd ! (i + 1))) (i + 2)
         else backtick_text wd (inner @ byte_char (wd ! i)) (i + 1))
      else (i, inner))"
  by pat_completeness auto
termination by (relation "measure (\<lambda>(wd, inner, i). length wd - i)") auto

declare backtick_text.simps [simp del]

definition parse_backtick_part :: "string \<Rightarrow> nat \<Rightarrow> string \<Rightarrow> word_part list \<Rightarrow> nat \<times> word_part list" where
  "parse_backtick_part wd i lit parts =
     (let (i, inner) = backtick_text wd [] (i + 1)
      in (i, flush lit parts @ [CommandSubstitution inner]))"

definition parse_escaped_literal :: "string \<Rightarrow> nat \<Rightarrow> string \<Rightarrow> nat \<times> string" where
  "parse_escaped_literal wd i lit =
     (let i = i + 1 in
      if i \<ge> length wd then (i, lit)
      else if wd ! i = ch_newline then (i + 1, lit)
      else (i + 1, lit @ byte_char (wd ! i)))"

definition dq_backslash :: "string \<Rightarrow> nat \<Rightarrow> string \<Rightarrow> nat \<times> string" where
  "dq_backslash wd i lit =
     (let i = i + 1 in
      if i \<ge> length wd then (i, lit)
      else
        let c = wd ! i in
        if c = ch_newline then (i + 1, lit)
        else if c = CHR ''$'' \<or> c = ch_backtick \<or> c = ch_dquote \<or> c = ch_backslash
        then (i + 1, lit @ byte_char c)
        else (i + 1, lit @ [ch_backslash] @ byte_char c))"

text \<open>The accumulators of the digit loops are bytes and wrap around.\<close>

function octal_loop :: "string \<Rightarrow> nat \<Rightarrow> u8 \<Rightarrow> nat \<Rightarrow> nat \<times> u8" where
  "octal_loop wd left val i =
     (if i < length wd \<and> left > 0 \<and> CHR ''0'' \<le> wd ! i \<and> wd ! i \<le> CHR ''7''
      then octal_loop wd (left - 1) (val * 8 + (of_char (wd ! i) - 48)) (i + 1)
      else (i, val))"
  by pat_completeness auto
termination by (relation "measure (\<lambda>(wd, left, val, i). length wd - i)") auto

definition parse_octal_digits :: "string \<Rightarrow> nat \<Rightarrow> nat \<Rightarrow> nat \<times> u8" where
  "parse_octal_digits wd i max_digits = octal_loop wd max_digits 0 i"

definition hex_digit :: "char \<Rightarrow> u8 option" where
  "hex_digit c =
     (if CHR ''0'' \<le> c \<and> c \<le> CHR ''9'' then Some (of_char c - 48)
      else if CHR ''a'' \<le> c \<and> c \<le> CHR ''f'' then Some (of_char c - 97 + 10)
      else if CHR ''A'' \<le> c \<and> c \<le> CHR ''F'' then Some (of_char c - 65 + 10)
      else None)"

function hex_loop :: "string \<Rightarrow> nat \<Rightarrow> u8 \<Rightarrow> nat \<Rightarrow> nat \<times> u8" where
  "hex_loop wd left val i =
     (if i < length wd \<and> left > 0 then
        (case hex_digit (wd ! i) of
           Some digit \<Rightarrow> hex_loop wd (left - 1) (val * 16 + digit) (i + 1)
         | None \<Rightarrow> (i, val))
      else (i, val))"
  by pat_completeness auto
termination by (relation "measure (\<lambda>(wd, left, val, i). length wd - i)") auto

definition parse_hex_digits :: "string \<Rightarrow> nat \<Rightarrow> nat \<Rightarrow> nat \<times> u8" where
  "parse_hex_digits wd i max_digits = hex_loop wd max_digits 0 i"

declare octal_loop.simps [simp del] hex_loop.simps [simp del]

definition simple_escape :: "char \<Rightarrow> char option" where
  "simple_escape c = map_of
     [(CHR ''n'', CHR 0x0A), (CHR ''t'', CHR 0x09), (CHR ''r'', CHR 0x0D), (CHR ''a'', CHR 0x07),
      (CHR ''b'', CHR 0x08), (CHR ''e'', CHR 0x1B), (CHR ''E'', CHR 0x1B), (CHR ''f'', CHR 0x0C),
      (CHR ''v'', CHR 0x0B), (ch_backslash, ch_backslash), (ch_squote, ch_squote),
      (ch_dquote, ch_dquote)] c"

definition u8_char :: "u8 \<Rightarrow> string" where
  "u8_char v = byte_char (char_of (unat v))"

definition ansi_c_escape :: "string \<Rightarrow> nat \<Rightarrow> string \<Rightarrow> nat \<times> string" where
  "ansi_c_escape wd i acc =
     (let c = wd ! i in
      case simple_escape c of
        Some d \<Rightarrow> (i + 1, acc @ [d])
      | None \<Rightarrow>
          if CHR ''0'' \<le> c \<and> c \<le> CHR ''7'' then
            (let (i, v) = parse_octal_digits wd i 3 in (i, acc @ u8_char v))
          else if c = CHR ''x'' then
            (let (i, v) = parse_hex_digits wd (i + 1) 2 in (i, acc @ u8_char v))
          else (i + 1, acc @ [ch_backslash] @ byte_char c))"

lemma octal_loop_next:
  "i \<le> fst (octal_loop wd left val i)"
  "i < length wd \<Longrightarrow> 0 < left \<Longrightarrow> CHR ''0'' \<le> wd ! i \<Longrightarrow> wd ! i \<le> CHR ''7'' \<Longrightarrow>
     i < fst (octal_loop wd left val i)"
proof -
  show le: "i \<le> fst (octal_loop wd left val i)" for left val i
  proof (induction wd left val i rule: octal_loop.induct)
    case (1 wd left val i)
    then show ?case by (subst octal_loop.simps) auto
  qed
  show "i < fst (octal_loop wd left val i)"
    if "i < length wd" "0 < left" "CHR ''0'' \<le> wd ! i" "wd ! i \<le> CHR ''7''"
    using that le [of "i + 1" "left - 1" "val * 8 + (of_char (wd ! i) - 48)"]
    by (subst octal_loop.simps) auto
qed

lemma hex_loop_next: "i \<le> fst (hex_loop wd left val i)"
proof (induction wd left val i rule: hex_loop.induct)
  case (1 wd left val i)
  then show ?case by (subst hex_loop.simps) (auto split: option.splits)
qed

lemma ansi_c_escape_next: "i < length wd \<Longrightarrow> i < fst (ansi_c_escape wd i acc)"
  using octal_loop_next(2) [of i wd 3 0] hex_loop_next [of "Suc i" wd 2 0]
  by (auto simp: ansi_c_escape_def parse_octal_digits_def parse_hex_digits_def Let_def
      split: option.splits prod.splits)

lemma ansi_c_moved:
  "(i', acc') = ansi_c_escape wd (Suc i) acc \<Longrightarrow> Suc i < length wd \<Longrightarrow> length wd - i' < length wd - i"
  using ansi_c_escape_next [of "Suc i" wd acc] by (metis Suc_lessD diff_less_mono2 fst_conv)

function ansi_c_loop :: "string \<Rightarrow> string \<Rightarrow> nat \<Rightarrow> nat \<times> string" where
  "ansi_c_loop wd acc i =
     (if i < length wd then
        (if wd ! i = ch_squote then (i + 1, acc)
         else if wd ! i = ch_backslash then
           (if i + 1 < length wd then
              (let (i', acc') = ansi_c_escape wd (i + 1) acc in ansi_c_loop wd acc' i')
            else ansi_c_loop wd acc (i + 1))
         else ansi_c_loop wd (acc @ byte_char (wd ! i)) (i + 1))
      else (i, acc))"
  by pat_completeness auto
termination
  by (relation "measure (\<lambda>(wd, acc, i). length wd - i)")
    (auto simp: diff_less_mono2 dest!: ansi_c_moved)

declare ansi_c_loop.simps [simp del]

definition parse_ansi_c_quoted :: "string \<Rightarrow> nat \<Rightarrow> nat \<times> string" where
  "parse_ansi_c_quoted wd i = ansi_c_loop wd [] i"

section \<open>Expansions\<close>

text \<open>
  The three loops that look for the end of an expansion give back the position where they stop
  and whether they stopped at the closing delimiter.
\<close>

function arith_end :: "string \<Rightarrow> nat \<Rightarrow> nat \<Rightarrow> nat \<times> bool" where
  "arith_end wd depth i =
     (if i < length wd \<and> depth > 0 then
        (if wd ! i = CHR ''('' \<and> pos_peek wd (i + 1) = Some CHR ''('' then arith_end wd (depth + 1) (i + 2)
         else if wd ! i = CHR '')'' \<and> pos_peek wd (i + 1) = Some CHR '')'' then
           (if depth - 1 = 0 then (i, True) else arith_end wd (depth - 1) (i + 2))
         else arith_end wd depth (i + 1))
      else (i, False))"
  by pat_completeness auto
termination by (relation "measure (\<lambda>(wd, depth, i). length wd - i)") auto

lemma skip_single_quoted_next: "i < skip_single_quoted wd i"
proof -
  have "j \<le> to_squote wd j" for j
  proof (induction wd j rule: to_squote.induct)
    case (1 wd j)
    then show ?case by (subst to_squote.simps) auto
  qed
  from this [of "i + 1"] show ?thesis by (simp add: skip_single_quoted_def Let_def)
qed

lemma skip_double_quoted_next: "i < skip_double_quoted wd i"
proof -
  have "j \<le> to_dquote wd j" for j
  proof (induction wd j rule: to_dquote.induct)
    case (1 wd j)
    then show ?case by (subst to_dquote.simps) auto
  qed
  from this [of "i + 1"] show ?thesis by (simp add: skip_double_quoted_def Let_def)
qed

function paren_end :: "string \<Rightarrow> nat \<Rightarrow> nat \<Rightarrow> nat \<times> bool" where
  "paren_end wd depth i =
     (if i < length wd \<and> depth > 0 then
        (if wd ! i = CHR ''('' then paren_end wd (depth + 1) (i + 1)
         else if wd ! i = CHR '')'' then
           (if depth - 1 = 0 then (i, True) else paren_end wd (depth - 1) (i + 1))
         else if wd ! i = ch_squote then paren_end wd depth (skip_single_quoted wd i)
         else if wd ! i = ch_dquote then paren_end wd depth (skip_double_quoted wd i)
         else paren_end wd depth (i + 1))
      else (i, False))"
  by pat_completeness auto
termination
  by (relation "measure (\<lambda>(wd, depth, i). length wd - i)")
    (auto intro: diff_less_mono2 skip_single_quoted_next skip_double_quoted_next)

function brace_end :: "string \<Rightarrow> nat \<Rightarrow> nat \<Rightarrow> nat \<times> bool" where
  "brace_end wd depth i =
     (if i < length wd \<and> depth > 0 then
        (if wd ! i = CHR ''{'' then brace_end wd (depth + 1) (i + 1)
         else if wd ! i = CHR ''}'' then
           (if depth - 1 = 0 then (i, True) else brace_end wd (depth - 1) (i + 1))
         else if wd ! i = ch_backslash then
           brace_end wd depth (if i + 1 < length wd then i + 2 else i + 1)
         else brace_end wd depth (i + 1))
      else (i, False))"
  by pat_completeness auto
termination by (relation "measure (\<lambda>(wd, depth, i). length wd - i)") auto

declare arith_end.simps [simp del] paren_end.simps [simp del] brace_end.simps [simp del]

text \<open>
  The part between \<open>start\<close> and the end that was found, and the position after the closing
  delimiter of \<open>n\<close> bytes.
\<close>

definition delimited ::
  "string \<Rightarrow> nat \<Rightarrow> nat \<Rightarrow> (string \<Rightarrow> word_part) \<Rightarrow> nat \<times> bool \<Rightarrow> (nat \<times> word_part) parsed" where
  "delimited wd start n mk e =
     (case e of (j, closed) \<Rightarrow>
        result_bind (str_slice wd start j) (\<lambda>inner. Ok (if closed then j + n else j, mk inner)))"

definition parse_dollar_arith :: "string \<Rightarrow> nat \<Rightarrow> (nat \<times> word_part) parsed" where
  "parse_dollar_arith wd i = delimited wd (i + 1) 2 Arithmetic (arith_end wd 1 (i + 1))"

definition parse_dollar_cmd_subst :: "string \<Rightarrow> nat \<Rightarrow> (nat \<times> word_part) parsed" where
  "parse_dollar_cmd_subst wd i = delimited wd i 1 CommandSubstitution (paren_end wd 1 i)"

definition parse_dollar_brace :: "string \<Rightarrow> nat \<Rightarrow> (nat \<times> word_part) parsed" where
  "parse_dollar_brace wd i = delimited wd (i + 1) 1 Parameter (brace_end wd 1 (i + 1))"

definition parse_dollar_paren :: "string \<Rightarrow> nat \<Rightarrow> (nat \<times> word_part) parsed" where
  "parse_dollar_paren wd i =
     (if pos_peek wd (i + 1) = Some CHR ''('' then parse_dollar_arith wd (i + 1)
      else parse_dollar_cmd_subst wd (i + 1))"

function name_end :: "string \<Rightarrow> nat \<Rightarrow> nat" where
  "name_end wd i =
     (if i < length wd \<and> (is_alpha (wd ! i) \<or> is_digit (wd ! i) \<or> wd ! i = CHR ''_'')
      then name_end wd (i + 1) else i)"
  by pat_completeness auto
termination by (relation "measure (\<lambda>(wd, i). length wd - i)") auto

declare name_end.simps [simp del]

definition parse_named_parameter :: "string \<Rightarrow> nat \<Rightarrow> (nat \<times> word_part) parsed" where
  "parse_named_parameter wd i = delimited wd i 0 Parameter (name_end wd i, True)"

definition parse_special_parameter :: "string \<Rightarrow> nat \<Rightarrow> (nat \<times> word_part) parsed" where
  "parse_special_parameter wd i = delimited wd i 0 Parameter (i + 1, True)"

definition parse_dollar :: "string \<Rightarrow> nat \<Rightarrow> (nat \<times> word_part option) parsed" where
  "parse_dollar wd i =
     (let some = (\<lambda>r. result_bind r (\<lambda>(i, part). Ok (i, Some part))) in
      if i \<ge> length wd then Ok (i, None)
      else
        let b = wd ! i in
        if b = CHR ''('' then some (parse_dollar_paren wd i)
        else if b = CHR ''{'' then some (parse_dollar_brace wd i)
        else if is_alpha b \<or> b = CHR ''_'' then some (parse_named_parameter wd i)
        else if is_special_parameter b then some (parse_special_parameter wd i)
        else Ok (i, None))"

definition parse_process_subst :: "string \<Rightarrow> nat \<Rightarrow> string \<Rightarrow> word_part list \<Rightarrow> (nat \<times> word_part list) parsed" where
  "parse_process_subst wd i lit parts =
     (let mk = (if wd ! i = CHR ''<'' then ProcessSubstIn else ProcessSubstOut)
      in result_bind (delimited wd (i + 2) 1 mk (paren_end wd 1 (i + 2))) (\<lambda>(j, part).
           Ok (j, flush lit parts @ [part])))"

section \<open>Words\<close>

text \<open>
  The state of a loop over a word is the position, the pending literal and the parts.  A step
  that stays in place, which none does, would end the loop.
\<close>

type_synonym word_state = "nat \<times> string \<times> word_part list"

definition dollar_step :: "string \<Rightarrow> nat \<Rightarrow> string \<Rightarrow> word_part list \<Rightarrow> word_state parsed" where
  "dollar_step wd i lit parts =
     result_bind (parse_dollar wd (i + 1)) (\<lambda>(j, part).
       Ok (case part of Some part \<Rightarrow> (j, [], flush lit parts @ [part]) | None \<Rightarrow> (j, ''$'', flush lit parts)))"

definition dquoted_step :: "string \<Rightarrow> word_state \<Rightarrow> word_state parsed" where
  "dquoted_step wd st =
     (case st of (i, lit, parts) \<Rightarrow>
        if wd ! i = ch_backslash then (let (j, lit) = dq_backslash wd i lit in Ok (j, lit, parts))
        else if wd ! i = CHR ''$'' then dollar_step wd i lit parts
        else if wd ! i = ch_backtick then
          (let (j, parts) = parse_backtick_part wd i lit parts in Ok (j, [], parts))
        else Ok (i + 1, lit @ byte_char (wd ! i), parts))"

function double_quoted_parts :: "string \<Rightarrow> word_state \<Rightarrow> (nat \<times> word_part list) parsed" where
  "double_quoted_parts wd (i, lit, parts) =
     (if i < length wd then
        (if wd ! i = ch_dquote then Ok (i + 1, flush lit parts)
         else result_bind (dquoted_step wd (i, lit, parts)) (\<lambda>(j, lit, parts).
           if i < j then double_quoted_parts wd (j, lit, parts) else Ok (j, flush lit parts)))
      else Ok (i, flush lit parts))"
  by pat_completeness auto
termination by (relation "measure (\<lambda>(wd, i, lit, parts). length wd - i)") auto

declare double_quoted_parts.simps [simp del]

definition parse_double_quoted :: "string \<Rightarrow> nat \<Rightarrow> (nat \<times> word_part list) parsed" where
  "parse_double_quoted wd i = double_quoted_parts wd (i, [], [])"

definition parse_single_quoted_part :: "string \<Rightarrow> nat \<Rightarrow> string \<Rightarrow> word_part list \<Rightarrow> (nat \<times> word_part list) parsed" where
  "parse_single_quoted_part wd i lit parts =
     (let j = to_squote wd (i + 1)
      in result_bind (str_slice wd (i + 1) j) (\<lambda>inner.
           Ok (if j < length wd then j + 1 else j, flush lit parts @ [SingleQuoted inner])))"

definition parse_double_quoted_part :: "string \<Rightarrow> nat \<Rightarrow> string \<Rightarrow> word_part list \<Rightarrow> (nat \<times> word_part list) parsed" where
  "parse_double_quoted_part wd i lit parts =
     result_bind (parse_double_quoted wd (i + 1)) (\<lambda>(j, inner).
       Ok (j, flush lit parts @ [DoubleQuoted inner]))"

definition parse_dollar_part :: "string \<Rightarrow> nat \<Rightarrow> string \<Rightarrow> word_part list \<Rightarrow> word_state parsed" where
  "parse_dollar_part wd i lit parts =
     (if pos_peek wd (i + 1) = Some ch_squote then
        (let (j, s) = parse_ansi_c_quoted wd (i + 2) in Ok (j, [], flush lit parts @ [Literal s]))
      else if pos_peek wd (i + 1) = Some ch_dquote then
        result_bind (parse_double_quoted wd (i + 2)) (\<lambda>(j, inner).
          Ok (j, [], flush lit parts @ [DoubleQuoted inner]))
      else dollar_step wd i lit parts)"

definition parse_word_part :: "string \<Rightarrow> word_state \<Rightarrow> word_state parsed" where
  "parse_word_part wd st =
     (case st of (i, lit, parts) \<Rightarrow>
        let b = wd ! i; flushed = (\<lambda>r. result_bind r (\<lambda>(j, parts). Ok (j, [], parts))) in
        if b = ch_squote then flushed (parse_single_quoted_part wd i lit parts)
        else if b = ch_dquote then flushed (parse_double_quoted_part wd i lit parts)
        else if b = ch_backslash then (let (j, lit) = parse_escaped_literal wd i lit in Ok (j, lit, parts))
        else if b = CHR ''$'' then parse_dollar_part wd i lit parts
        else if b = ch_backtick then flushed (Ok (parse_backtick_part wd i lit parts))
        else if (b = CHR ''<'' \<or> b = CHR ''>'') \<and> pos_peek wd (i + 1) = Some CHR ''(''
        then flushed (parse_process_subst wd i lit parts)
        else Ok (i + 1, lit @ byte_char b, parts))"

function word_parts_loop :: "string \<Rightarrow> word_state \<Rightarrow> word_part list parsed" where
  "word_parts_loop wd (i, lit, parts) =
     (if i < length wd then
        result_bind (parse_word_part wd (i, lit, parts)) (\<lambda>(j, lit, parts).
          if i < j then word_parts_loop wd (j, lit, parts) else Ok (flush lit parts))
      else Ok (flush lit parts))"
  by pat_completeness auto
termination by (relation "measure (\<lambda>(wd, i, lit, parts). length wd - i)") auto

declare word_parts_loop.simps [simp del]

definition parse_word_parts :: "string \<Rightarrow> word_part list parsed" where
  "parse_word_parts wd = word_parts_loop wd (0, [], [])"

end
