(* ===== verification/Str_Ops.thy ===== *)
theory Str_Ops
  imports Utf8
begin

text \<open>
  Operations of the standard library's \<open>str\<close> that the shell uses, on the bytes of valid UTF-8
  text: trimming white space, splitting, and lines.
\<close>

section \<open>Trimming\<close>

text \<open>
  The characters with the Unicode property \<open>White_Space\<close>, each as its bytes.  Their first bytes
  are ASCII or leading bytes, so in valid text such a sequence of bytes is a whole character,
  read from either end.
\<close>

definition white_space :: "string list" where
  "white_space =
     [[CHR 0x09], [CHR 0x0A], [CHR 0x0B], [CHR 0x0C], [CHR 0x0D], [CHR 0x20],
      [CHR 0xC2, CHR 0x85], [CHR 0xC2, CHR 0xA0], [CHR 0xE1, CHR 0x9A, CHR 0x80],
      [CHR 0xE2, CHR 0x80, CHR 0x80], [CHR 0xE2, CHR 0x80, CHR 0x81], [CHR 0xE2, CHR 0x80, CHR 0x82],
      [CHR 0xE2, CHR 0x80, CHR 0x83], [CHR 0xE2, CHR 0x80, CHR 0x84], [CHR 0xE2, CHR 0x80, CHR 0x85],
      [CHR 0xE2, CHR 0x80, CHR 0x86], [CHR 0xE2, CHR 0x80, CHR 0x87], [CHR 0xE2, CHR 0x80, CHR 0x88],
      [CHR 0xE2, CHR 0x80, CHR 0x89], [CHR 0xE2, CHR 0x80, CHR 0x8A], [CHR 0xE2, CHR 0x80, CHR 0xA8],
      [CHR 0xE2, CHR 0x80, CHR 0xA9], [CHR 0xE2, CHR 0x80, CHR 0xAF], [CHR 0xE2, CHR 0x81, CHR 0x9F],
      [CHR 0xE3, CHR 0x80, CHR 0x80]]"

text \<open>Remove leading occurrences of the given byte sequences.\<close>

definition strip_one :: "string list \<Rightarrow> string \<Rightarrow> nat" where
  "strip_one ws s = (case List.find (\<lambda>w. w \<noteq> [] \<and> prefix w s) ws of None \<Rightarrow> 0 | Some w \<Rightarrow> length w)"

lemma strip_one_le: "strip_one ws s \<le> length s"
  by (auto simp: strip_one_def find_Some_iff dest: prefix_length_le split: option.splits)

function strip_leading :: "string list \<Rightarrow> string \<Rightarrow> string" where
  "strip_leading ws s = (if strip_one ws s = 0 then s else strip_leading ws (drop (strip_one ws s) s))"
  by pat_completeness auto
termination
proof (relation "measure (length \<circ> snd)")
  fix ws s assume "strip_one ws s \<noteq> 0"
  then show "((ws, drop (strip_one ws s) s), ws, s) \<in> measure (length \<circ> snd)"
    using strip_one_le [of ws s] by simp
qed simp

declare strip_leading.simps [simp del]

definition trim_start :: "string \<Rightarrow> string" where
  "trim_start = strip_leading white_space"

definition trim_end :: "string \<Rightarrow> string" where
  "trim_end s = rev (strip_leading (map rev white_space) (rev s))"

definition trim :: "string \<Rightarrow> string" where
  "trim s = trim_end (trim_start s)"

text \<open>\<open>str::trim_start_matches(c)\<close> for an ASCII character.\<close>

definition trim_start_matches :: "char \<Rightarrow> string \<Rightarrow> string" where
  "trim_start_matches c s = dropWhile (\<lambda>x. x = c) s"

section \<open>Splitting\<close>

text \<open>\<open>str::splitn(n, c)\<close>.\<close>

fun splitn :: "nat \<Rightarrow> char \<Rightarrow> string \<Rightarrow> string list" where
  "splitn 0 c s = []"
| "splitn (Suc 0) c s = [s]"
| "splitn (Suc (Suc n)) c s =
     (case dropWhile (\<lambda>x. x \<noteq> c) s of
        [] \<Rightarrow> [s]
      | _ # rest \<Rightarrow> takeWhile (\<lambda>x. x \<noteq> c) s # splitn (Suc n) c rest)"

text \<open>
  \<open>str::lines\<close>: what a newline ends, without the newline and a carriage return before it, and
  then what is left after the last newline, unless that is empty.
\<close>

definition strip_return :: "string \<Rightarrow> string" where
  "strip_return line = (if line \<noteq> [] \<and> last line = ch_return then butlast line else line)"

definition str_lines :: "string \<Rightarrow> string list" where
  "str_lines s =
     (let ps = split_on ch_newline s in
      map strip_return (butlast ps) @ (if last ps = [] then [] else [last ps]))"

text \<open>\<open>str::find(c)\<close>.\<close>

definition find_char :: "char \<Rightarrow> string \<Rightarrow> nat option" where
  "find_char c s = (let i = length (takeWhile (\<lambda>x. x \<noteq> c) s) in if i < length s then Some i else None)"

lemma find_char_Some:
  "find_char c s = Some i \<Longrightarrow> i < length s \<and> s ! i = c \<and> (\<forall>j < i. s ! j \<noteq> c)"
  using nth_length_takeWhile [of "\<lambda>x. x \<noteq> c" s]
  by (auto simp: find_char_def Let_def split: if_splits)
    (metis (full_types) nth_mem set_takeWhileD takeWhile_nth)

lemma find_char_None: "find_char c s = None \<longleftrightarrow> c \<notin> set s"
proof -
  have "length (takeWhile (\<lambda>x. x \<noteq> c) s) < length s \<longleftrightarrow> takeWhile (\<lambda>x. x \<noteq> c) s \<noteq> s"
    by (metis length_takeWhile_le nat_less_le takeWhile_eq_take take_all_iff nle_le)
  then show ?thesis by (auto simp: find_char_def Let_def takeWhile_eq_all_conv)
qed

section \<open>Searching\<close>

text \<open>\<open>str::find\<close> of a string.\<close>

fun find_str :: "string \<Rightarrow> string \<Rightarrow> nat option" where
  "find_str p s =
     (if prefix p s then Some 0
      else (case s of [] \<Rightarrow> None | _ # t \<Rightarrow> map_option Suc (find_str p t)))"

declare find_str.simps [simp del]

definition str_contains :: "string \<Rightarrow> string \<Rightarrow> bool" where
  "str_contains p s \<longleftrightarrow> find_str p s \<noteq> None"

lemma find_str_Some: "find_str p s = Some i \<Longrightarrow> i \<le> length s \<and> prefix p (drop i s)"
proof (induction p s arbitrary: i rule: find_str.induct)
  case (1 p s)
  show ?case
  proof (cases "prefix p s")
    case True
    then show ?thesis using "1.prems" by (simp add: find_str.simps)
  next
    case False
    then obtain c t j where "s = c # t" "find_str p t = Some j" "i = Suc j"
      using "1.prems" by (auto simp: find_str.simps [of p s] split: list.splits)
    then show ?thesis using "1.IH" [OF False] by auto
  qed
qed

lemma str_contains_sublist: "str_contains p s \<longleftrightarrow> (\<exists>a b. s = a @ p @ b)"
proof (induction s)
  case Nil
  then show ?case by (simp add: str_contains_def find_str.simps)
next
  case (Cons c t)
  have "(\<exists>a b. c # t = a @ p @ b) \<longleftrightarrow> prefix p (c # t) \<or> (\<exists>a b. t = a @ p @ b)"
    by (auto simp: prefix_def Cons_eq_append_conv)
  then show ?case using Cons by (auto simp: str_contains_def find_str.simps [of p "c # t"])
qed

end
