(* ===== verification/Parser.thy ===== *)
theory Parser
  imports Lexer Word_Parser Str_Ops
begin

text \<open>
  The recursive-descent parser of \<^verbatim>\<open>crates/wasmsh-parse/src/lib.rs\<close>.  Every method takes the
  parser and gives it back beside its result, because peeking fills a queue of tokens also
  when the lexer fails, and some callers go on after such an error.

  A loop of the source is \<open>parse_loop\<close> of its body, which says whether to go on; it checks
  that an iteration which goes on has moved the current token forward.  The methods that parse a
  command inside another command take the parser of that command as an argument; \<open>parse_command\<close>
  ties the knot to one level more than the nesting the code admits.  The check and the last level are
  dead: \<^verbatim>\<open>Parser_Props\<close> shows that no valid source makes the parser panic.  There it is
  also shown that the spans of tokens are character boundaries, so their texts are taken without a
  check here.  Counters that the length of the source bounds are natural numbers.
\<close>

section \<open>State\<close>

record parse_error =
  perr_message :: string
  perr_offset :: u32

definition TERMINATOR_WORDS :: "string list" where
  "TERMINATOR_WORDS = [''then'', ''elif'', ''else'', ''fi'', ''do'', ''done'', ''esac'', ''}'']"

definition MAX_NESTING_DEPTH :: u32 where "MAX_NESTING_DEPTH = 24"

record pending_here_doc =
  delimiter :: string
  strip_tabs :: bool
  expand_body :: bool

record parser =
  parser_source :: string
  parser_lexer :: lexer
  current :: token
  peeked :: "token list"
  prev_end :: u32
  pending_heredocs :: "pending_here_doc list"
  nesting_depth :: u32

type_synonym 'a presult = "parser \<times> ('a, parse_error) result"

text \<open>The operator \<open>?\<close>: go on with the value, or return the error.\<close>

definition pbind :: "'a presult \<Rightarrow> ('a \<Rightarrow> parser \<Rightarrow> 'b presult) \<Rightarrow> 'b presult" where
  "pbind m k =
     (case m of (p, r) \<Rightarrow>
        (case r of Ok x \<Rightarrow> k x p | Err e \<Rightarrow> (p, Err e) | Panic s \<Rightarrow> (p, Panic s)))"

text \<open>Evaluation of a concrete source does not go into a continuation before its argument is known.\<close>

declare pbind_def [code_unfold] result_bind_def [code_unfold]

definition parse_fail :: "parser \<Rightarrow> string \<Rightarrow> u32 \<Rightarrow> 'a presult" where
  "parse_fail p msg off = (p, Err \<lparr>perr_message = msg, perr_offset = off\<rparr>)"

definition lex_err :: "lexer_error \<Rightarrow> parse_error" where
  "lex_err e = \<lparr>perr_message = lex_message e, perr_offset = span_start (lex_span e)\<rparr>"

definition lex_next :: "parser \<Rightarrow> token presult" where
  "lex_next p =
     (case next_token (parser_lexer p) of (lx, r) \<Rightarrow>
        (p\<lparr>parser_lexer := lx\<rparr>,
         case r of Ok t \<Rightarrow> Ok t | Err e \<Rightarrow> Err (lex_err e) | Panic m \<Rightarrow> Panic m))"

definition parser_new :: "string \<Rightarrow> (parser, parse_error) result" where
  "parser_new s =
     (case next_token (lexer_new s) of
        (lx, Ok tok) \<Rightarrow>
          Ok \<lparr>parser_source = s, parser_lexer = lx, current = tok, peeked = [], prev_end = 0,
              pending_heredocs = [], nesting_depth = 0\<rparr>
      | (lx, Err e) \<Rightarrow> Err (lex_err e)
      | (lx, Panic m) \<Rightarrow> Panic m)"

abbreviation cur_kind :: "parser \<Rightarrow> token_kind" where
  "cur_kind p \<equiv> tok_kind (current p)"

abbreviation cur_start :: "parser \<Rightarrow> u32" where
  "cur_start p \<equiv> span_start (tok_span (current p))"

definition enter_nesting :: "parser \<Rightarrow> unit presult" where
  "enter_nesting p =
     (if nesting_depth p \<ge> MAX_NESTING_DEPTH
      then parse_fail p (''maximum nesting depth ('' @ show_nat (unat MAX_NESTING_DEPTH) @ '') exceeded'')
             (cur_start p)
      else (p\<lparr>nesting_depth := nesting_depth p + 1\<rparr>, Ok ()))"

definition exit_nesting :: "parser \<Rightarrow> parser" where
  "exit_nesting p = p\<lparr>nesting_depth := sat_sub (nesting_depth p) 1\<rparr>"

definition advance_token :: "parser \<Rightarrow> token presult" where
  "advance_token p =
     (let prev = current p; p = p\<lparr>prev_end := span_end (tok_span prev)\<rparr> in
      case peeked p of
        tok # rest \<Rightarrow> (p\<lparr>peeked := rest, current := tok\<rparr>, Ok prev)
      | [] \<Rightarrow> pbind (lex_next p) (\<lambda>tok p. (p\<lparr>current := tok\<rparr>, Ok prev)))"

function peek_nth :: "nat \<Rightarrow> parser \<Rightarrow> token presult" where
  "peek_nth n p =
     (if length (peeked p) \<le> n then
        (case lex_next p of
           (p', Ok t) \<Rightarrow> peek_nth n (p'\<lparr>peeked := peeked p @ [t]\<rparr>)
         | (p', Err e) \<Rightarrow> (p', Err e)
         | (p', Panic m) \<Rightarrow> (p', Panic m))
      else (p, Ok (peeked p ! n)))"
  by pat_completeness auto
termination by (relation "measure (\<lambda>(n, p). Suc n - length (peeked p))") auto

declare peek_nth.simps [simp del]

text \<open>The callers that treat an error of the lexer like a token that does not match.\<close>

definition try_peek :: "nat \<Rightarrow> parser \<Rightarrow> token option presult" where
  "try_peek n p =
     (case peek_nth n p of
        (p', Ok t) \<Rightarrow> (p', Ok (Some t))
      | (p', Err e) \<Rightarrow> (p', Ok None)
      | (p', Panic m) \<Rightarrow> (p', Panic m))"

definition peek_kind_is :: "nat \<Rightarrow> token_kind \<Rightarrow> parser \<Rightarrow> bool presult" where
  "peek_kind_is n k p =
     pbind (try_peek n p) (\<lambda>t p. (p, Ok (case t of None \<Rightarrow> False | Some t \<Rightarrow> tok_kind t = k)))"

definition at_word :: "parser \<Rightarrow> bool" where
  "at_word p \<longleftrightarrow> (case cur_kind p of Word _ \<Rightarrow> True | _ \<Rightarrow> False)"

definition current_text :: "parser \<Rightarrow> string" where
  "current_text p = token_text (current p) (parser_source p)"

definition at_word_eq :: "string \<Rightarrow> parser \<Rightarrow> bool" where
  "at_word_eq wd p \<longleftrightarrow> at_word p \<and> current_text p = wd"

definition parser_span_from :: "parser \<Rightarrow> u32 \<Rightarrow> span" where
  "parser_span_from p st = \<lparr>span_start = st, span_end = prev_end p\<rparr>"

section \<open>Loops\<close>

text \<open>
  The body of a loop gives the new accumulator and whether to go on.  The start of the current
  token is the measure of every loop.
\<close>

definition later :: "parser \<Rightarrow> parser \<Rightarrow> bool" where
  "later p p' \<longleftrightarrow> cur_start p < cur_start p'"

lemma later_measure:
  assumes "later p q"
  shows "2 ^ 32 - unat (cur_start q) < 2 ^ 32 - unat (cur_start p)"
proof -
  have "unat (cur_start p) < unat (cur_start q)"
    using assms by (simp add: later_def word_less_nat_alt)
  moreover have "unat (cur_start q) < 2 ^ 32"
    using unsigned_less [of "cur_start q", where ?'a = nat] by simp
  ultimately show ?thesis by simp
qed

function parse_loop :: "('a \<Rightarrow> parser \<Rightarrow> ('a \<times> bool) presult) \<Rightarrow> 'a \<Rightarrow> parser \<Rightarrow> 'a presult" where
  "parse_loop body acc p =
     (case body acc p of
        (p', Ok (acc', go)) \<Rightarrow>
          if \<not> go then (p', Ok acc')
          else if later p p' then parse_loop body acc' p'
          else (p', Panic ''no token was consumed'')
      | (p', Err e) \<Rightarrow> (p', Err e)
      | (p', Panic m) \<Rightarrow> (p', Panic m))"
  by pat_completeness auto

termination
  by (relation "measure (\<lambda>(body, acc, p). 2 ^ 32 - unat (cur_start p))") (auto dest: later_measure)

declare parse_loop.simps [simp del]

abbreviation go_on :: "parser \<Rightarrow> 'a \<Rightarrow> ('a \<times> bool) presult" where
  "go_on p acc \<equiv> (p, Ok (acc, True))"

abbreviation leave :: "parser \<Rightarrow> 'a \<Rightarrow> ('a \<times> bool) presult" where
  "leave p acc \<equiv> (p, Ok (acc, False))"

definition newline_step :: "unit \<Rightarrow> parser \<Rightarrow> (unit \<times> bool) presult" where
  "newline_step u p =
     (if cur_kind p = Newline then pbind (advance_token p) (\<lambda>_ p. go_on p ()) else leave p ())"

definition skip_newlines :: "parser \<Rightarrow> unit presult" where
  "skip_newlines p = parse_loop newline_step () p"

definition expect_word :: "string \<Rightarrow> parser \<Rightarrow> token presult" where
  "expect_word wd p =
     (if at_word_eq wd p then advance_token p
      else parse_fail p (''expected '' @ [ch_squote] @ wd @ [ch_squote] @ '', got '' @ [ch_squote] @
             current_text p @ [ch_squote]) (cur_start p))"

section \<open>What the current token starts\<close>

definition at_redirection :: "parser \<Rightarrow> bool" where
  "at_redirection p \<longleftrightarrow> cur_kind p \<in>
     {Less, Greater, GreaterGreater, GreaterPipe, LessLess, LessLessDash, LessLessLess, LessGreater,
      AmpGreater, AmpGreaterGreater}"

definition at_fd_prefix_redirection :: "parser \<Rightarrow> bool presult" where
  "at_fd_prefix_redirection p =
     (if \<not> at_word p then (p, Ok False)
      else
        let wd = current_text p in
        if length wd \<noteq> 1 \<or> \<not> is_digit (wd ! 0) then (p, Ok False)
        else pbind (try_peek 0 p) (\<lambda>next p.
          (p, Ok (case next of
                    None \<Rightarrow> False
                  | Some t \<Rightarrow> tok_kind t \<in>
                      {Less, Greater, GreaterGreater, GreaterPipe, LessLess, LessLessDash,
                       LessLessLess, LessGreater}))))"

definition peek_is_lparen :: "parser \<Rightarrow> bool presult" where
  "peek_is_lparen p = peek_kind_is 0 LParen p"

definition is_double_semi :: "parser \<Rightarrow> bool presult" where
  "is_double_semi p = (if cur_kind p \<noteq> Semi then (p, Ok False) else peek_kind_is 0 Semi p)"

definition is_case_fallthrough :: "parser \<Rightarrow> bool presult" where
  "is_case_fallthrough p = (if cur_kind p \<noteq> Semi then (p, Ok False) else peek_kind_is 0 Amp p)"

definition is_case_continue_testing :: "parser \<Rightarrow> bool presult" where
  "is_case_continue_testing p =
     (if cur_kind p \<noteq> Semi then (p, Ok False)
      else pbind (peek_kind_is 0 Semi p) (\<lambda>b p.
        if \<not> b then (p, Ok False) else peek_kind_is 1 Amp p))"

definition at_command_start :: "parser \<Rightarrow> bool" where
  "at_command_start p \<longleftrightarrow>
     (if cur_kind p = LParen \<or> cur_kind p = DblLBracket then True
      else if at_word p then current_text p \<notin> set TERMINATOR_WORDS
      else at_redirection p)"

definition is_arith_for_start :: "parser \<Rightarrow> bool presult" where
  "is_arith_for_start p =
     (let current_end = span_end (tok_span (current p)) in
      if cur_kind p \<noteq> LParen then (p, Ok False)
      else pbind (try_peek 0 p) (\<lambda>next p.
        (p, Ok (case next of
                  None \<Rightarrow> False
                | Some t \<Rightarrow> tok_kind t = LParen \<and> span_start (tok_span t) = current_end))))"

definition show_kind :: "token_kind \<Rightarrow> string" where
  "show_kind k =
     (case k of
        Word b \<Rightarrow> ''Word { is_reserved_candidate: '' @ (if b then ''true'' else ''false'') @ '' }''
      | Semi \<Rightarrow> ''Semi'' | Newline \<Rightarrow> ''Newline'' | PipeTok \<Rightarrow> ''Pipe'' | AndAnd \<Rightarrow> ''AndAnd''
      | OrOr \<Rightarrow> ''OrOr'' | Amp \<Rightarrow> ''Amp'' | PipeAmp \<Rightarrow> ''PipeAmp'' | Less \<Rightarrow> ''Less''
      | Greater \<Rightarrow> ''Greater'' | GreaterGreater \<Rightarrow> ''GreaterGreater'' | GreaterPipe \<Rightarrow> ''GreaterPipe''
      | LessLess \<Rightarrow> ''LessLess'' | LessLessDash \<Rightarrow> ''LessLessDash'' | LessLessLess \<Rightarrow> ''LessLessLess''
      | LessGreater \<Rightarrow> ''LessGreater'' | AmpGreater \<Rightarrow> ''AmpGreater''
      | AmpGreaterGreater \<Rightarrow> ''AmpGreaterGreater'' | LParen \<Rightarrow> ''LParen'' | RParen \<Rightarrow> ''RParen''
      | DblLBracket \<Rightarrow> ''DblLBracket'' | DblRBracket \<Rightarrow> ''DblRBracket'' | Eof \<Rightarrow> ''Eof'')"

section \<open>Words\<close>

definition parse_parts :: "string \<Rightarrow> parser \<Rightarrow> word_part list presult" where
  "parse_parts wd p =
     (p, case parse_word_parts wd of
           Ok ps \<Rightarrow> Ok ps
         | Err _ \<Rightarrow> Panic ''unreachable''
         | Panic m \<Rightarrow> Panic m)"

definition parse_word :: "parser \<Rightarrow> shell_word presult" where
  "parse_word p =
     pbind (advance_token p) (\<lambda>tok p.
     pbind (parse_parts (token_text tok (parser_source p)) p) (\<lambda>parts p.
       (p, Ok \<lparr>word_parts = parts, word_span = tok_span tok\<rparr>)))"

definition process_subst_step :: "u32 \<Rightarrow> nat \<Rightarrow> parser \<Rightarrow> (nat \<times> bool) presult" where
  "process_subst_step st depth p =
     (if cur_kind p = Eof then parse_fail p ''unterminated process substitution'' st
      else if cur_kind p = RParen \<and> depth - 1 = 0 then leave p (depth - 1)
      else
        let depth = (if cur_kind p = LParen then depth + 1
                     else if cur_kind p = RParen then depth - 1 else depth)
        in pbind (advance_token p) (\<lambda>_ p. go_on p depth))"

definition parse_process_substitution_word :: "parser \<Rightarrow> shell_word presult" where
  "parse_process_substitution_word p =
     (let st = cur_start p; is_input = (cur_kind p = Less) in
      pbind (advance_token p) (\<lambda>_ p.
      pbind (advance_token p) (\<lambda>_ p.
        let inner_start = unat (cur_start p) in
        pbind (parse_loop (process_subst_step st) 1 p) (\<lambda>_ p.
          let inner_end = unat (cur_start p) in
          pbind (p, str_slice (parser_source p) inner_start inner_end) (\<lambda>inner p.
          pbind (advance_token p) (\<lambda>_ p.
            let part = (if is_input then ProcessSubstIn (trim inner) else ProcessSubstOut (trim inner))
            in (p, Ok \<lparr>word_parts = [part], word_span = parser_span_from p st\<rparr>)))))))"

text \<open>The elements of a compound value \<open>(x y z)\<close>, and the end of its span.\<close>

definition elements_step :: "string list \<Rightarrow> parser \<Rightarrow> (string list \<times> bool) presult" where
  "elements_step elements p =
     (if cur_kind p = RParen \<or> cur_kind p = Eof then leave p elements
      else if cur_kind p = Newline then pbind (advance_token p) (\<lambda>_ p. go_on p elements)
      else if at_word p then
        pbind (advance_token p) (\<lambda>w p. go_on p (elements @ [token_text w (parser_source p)]))
      else leave p elements)"

definition elements_end :: "parser \<Rightarrow> u32 presult" where
  "elements_end p =
     (if cur_kind p = RParen then pbind (advance_token p) (\<lambda>tok p. (p, Ok (span_end (tok_span tok))))
      else (p, Ok (span_end (tok_span (current p)))))"

definition compound_value :: "parser \<Rightarrow> (string \<times> u32) presult" where
  "compound_value p =
     pbind (advance_token p) (\<lambda>_ p.
     pbind (parse_loop elements_step [] p) (\<lambda>elements p.
     pbind (elements_end p) (\<lambda>end_span p.
       (p, Ok (''('' @ join_with '' '' elements @ '')'', end_span)))))"

definition parse_compound_assign_word :: "parser \<Rightarrow> shell_word presult" where
  "parse_compound_assign_word p =
     pbind (advance_token p) (\<lambda>tok p.
     pbind (compound_value p) (\<lambda>(compound, end_span) p.
       (p, Ok \<lparr>word_parts = [Literal (token_text tok (parser_source p) @ compound)],
               word_span = \<lparr>span_start = span_start (tok_span tok), span_end = end_span\<rparr>\<rparr>)))"

section \<open>Assignments\<close>

definition is_name :: "string \<Rightarrow> bool" where
  "is_name name \<longleftrightarrow>
     (case name of
        [] \<Rightarrow> False
      | first # rest \<Rightarrow>
          (is_alpha first \<or> first = CHR ''_'') \<and>
          list_all (\<lambda>c. is_alpha c \<or> is_digit c \<or> c = CHR ''_'') rest)"

definition is_assignment_text :: "string \<Rightarrow> bool" where
  "is_assignment_text wd =
     (case find_char (CHR ''='') wd of
        None \<Rightarrow> False
      | Some eq_pos \<Rightarrow>
          let name = take eq_pos wd in
          if name = [] then False
          else
            let plus = (last name = CHR ''+''); name = (if plus then butlast name else name) in
            if plus \<and> name = [] then False
            else
              case find_char (CHR ''['') name of
                Some bracket_start \<Rightarrow>
                  if last name = CHR '']'' then is_name (take bracket_start name) else False
              | None \<Rightarrow> is_name name)"

definition parse_assignment_compound_value :: "token \<Rightarrow> nat \<Rightarrow> parser \<Rightarrow> shell_word option presult" where
  "parse_assignment_compound_value tok eq_pos p =
     (if cur_kind p \<noteq> LParen then (p, Ok None)
      else pbind (compound_value p) (\<lambda>(compound, end_span) p.
        (p, Ok (Some \<lparr>word_parts = [Literal compound],
           word_span = \<lparr>span_start = span_start (tok_span tok) + of_nat eq_pos + 1,
                        span_end = end_span\<rparr>\<rparr>))))"

definition make_assignment_word :: "token \<Rightarrow> nat \<Rightarrow> string \<Rightarrow> parser \<Rightarrow> shell_word presult" where
  "make_assignment_word tok eq_pos val_str p =
     pbind (parse_parts val_str p) (\<lambda>parts p.
       (p, Ok \<lparr>word_parts = parts,
               word_span = \<lparr>span_start = span_start (tok_span tok) + of_nat eq_pos + 1,
                            span_end = span_end (tok_span tok)\<rparr>\<rparr>))"

definition assignment_of :: "token \<Rightarrow> parser \<Rightarrow> assignment presult" where
  "assignment_of tok p =
     (let wd = token_text tok (parser_source p) in
      case find_char (CHR ''='') wd of
        None \<Rightarrow> (p, Panic ''assignment must contain an equals sign'')
      | Some eq_pos \<Rightarrow>
          let name = take eq_pos wd; val_str = drop (eq_pos + 1) wd in
          pbind (if val_str = [] then parse_assignment_compound_value tok eq_pos p
                 else pbind (make_assignment_word tok eq_pos val_str p) (\<lambda>v p. (p, Ok (Some v))))
            (\<lambda>val p. (p, Ok \<lparr>assign_name = name, assign_value = val, assign_span = tok_span tok\<rparr>)))"

definition parse_assignment :: "parser \<Rightarrow> assignment presult" where
  "parse_assignment p = pbind (advance_token p) assignment_of"

section \<open>Redirections\<close>

primrec delimiter_part :: "word_part \<Rightarrow> string" where
  "delimiter_part (Literal s) = s"
| "delimiter_part (SingleQuoted s) = s"
| "delimiter_part (DoubleQuoted parts) =
     concat (map (\<lambda>p. case p of Literal s \<Rightarrow> s | _ \<Rightarrow> []) parts)"
| "delimiter_part (Parameter s) = []"
| "delimiter_part (CommandSubstitution s) = []"
| "delimiter_part (Arithmetic s) = []"
| "delimiter_part (ProcessSubstIn s) = []"
| "delimiter_part (ProcessSubstOut s) = []"

definition heredoc_delimiter :: "shell_word \<Rightarrow> string" where
  "heredoc_delimiter w = concat (map delimiter_part (word_parts w))"

definition heredoc_delimiter_is_quoted :: "string \<Rightarrow> shell_word \<Rightarrow> bool" where
  "heredoc_delimiter_is_quoted src w \<longleftrightarrow>
     (if list_ex (\<lambda>part. case part of Literal _ \<Rightarrow> False | _ \<Rightarrow> True) (word_parts w) then True
      else case str_slice src (unat (span_start (word_span w))) (unat (span_end (word_span w))) :: (string, unit) result of
             Ok wd \<Rightarrow> ch_squote \<in> set wd \<or> ch_dquote \<in> set wd
           | _ \<Rightarrow> False)"

definition redirection_kind :: "token_kind \<Rightarrow> (redirection_op \<times> bool) option" where
  "redirection_kind k =
     (case k of
        Less \<Rightarrow> Some (Input, False)
      | Greater \<Rightarrow> Some (Output, False)
      | AmpGreater \<Rightarrow> Some (Output, False)
      | GreaterGreater \<Rightarrow> Some (Append, False)
      | GreaterPipe \<Rightarrow> Some (Clobber, False)
      | AmpGreaterGreater \<Rightarrow> Some (AppendBoth, False)
      | LessGreater \<Rightarrow> Some (ReadWrite, False)
      | LessLess \<Rightarrow> Some (HereDoc, True)
      | LessLessDash \<Rightarrow> Some (HereDocStrip, True)
      | LessLessLess \<Rightarrow> Some (HereString, False)
      | _ \<Rightarrow> None)"

definition parse_dup :: "token \<Rightarrow> parser \<Rightarrow> redirection presult" where
  "parse_dup op_tok p =
     pbind (advance_token p) (\<lambda>_ p.
       if at_word p then
         pbind (parse_word p) (\<lambda>target p.
           (p, Ok \<lparr>redir_fd = None,
                   redir_op = (if tok_kind op_tok = Greater then DupOutput else DupInput),
                   redir_target = target, redir_here_doc = None,
                   redir_span = \<lparr>span_start = span_start (tok_span op_tok),
                                 span_end = span_end (word_span target)\<rparr>\<rparr>))
       else parse_fail p ''expected fd number after >&'' (cur_start p))"

text \<open>The file descriptor \<open>u32::MAX\<close> marks \<open>&>\<close> and \<open>&>>\<close>.\<close>

definition redirection_to :: "token \<Rightarrow> redirection_op \<Rightarrow> bool \<Rightarrow> parser \<Rightarrow> redirection presult" where
  "redirection_to op_tok op is_heredoc p =
     pbind (parse_word p) (\<lambda>target p.
       let p = (if is_heredoc
                then p\<lparr>pending_heredocs := pending_heredocs p @
                       [\<lparr>delimiter = heredoc_delimiter target, strip_tabs = (op = HereDocStrip),
                         expand_body = (\<not> heredoc_delimiter_is_quoted (parser_source p) target)\<rparr>]\<rparr>
                else p);
           fd = (if tok_kind op_tok = AmpGreater \<or> tok_kind op_tok = AmpGreaterGreater
                 then Some (- 1) else None)
       in (p, Ok \<lparr>redir_fd = fd, redir_op = op, redir_target = target, redir_here_doc = None,
                  redir_span = \<lparr>span_start = span_start (tok_span op_tok),
                                span_end = span_end (word_span target)\<rparr>\<rparr>))"

definition redirection_after :: "token \<Rightarrow> parser \<Rightarrow> redirection presult" where
  "redirection_after op_tok p =
     (case redirection_kind (tok_kind op_tok) of
        None \<Rightarrow> parse_fail p (''unexpected redirection operator: '' @ show_kind (tok_kind op_tok))
                  (span_start (tok_span op_tok))
      | Some (op, is_heredoc) \<Rightarrow>
          if cur_kind p = Amp \<and> (tok_kind op_tok = Greater \<or> tok_kind op_tok = Less)
          then parse_dup op_tok p
          else if \<not> at_word p
          then parse_fail p ''expected word after redirection operator'' (cur_start p)
          else redirection_to op_tok op is_heredoc p)"

definition parse_redirection :: "parser \<Rightarrow> redirection presult" where
  "parse_redirection p = pbind (advance_token p) redirection_after"

definition parse_fd_prefixed_redirection :: "parser \<Rightarrow> redirection presult" where
  "parse_fd_prefixed_redirection p =
     (let fd = (case parse_usize (current_text p) of None \<Rightarrow> 0 | Some n \<Rightarrow> n) in
      pbind (advance_token p) (\<lambda>_ p.
      pbind (parse_redirection p) (\<lambda>redir p. (p, Ok (redir\<lparr>redir_fd := Some fd\<rparr>)))))"

definition trailing_step :: "redirection list \<Rightarrow> parser \<Rightarrow> (redirection list \<times> bool) presult" where
  "trailing_step redirections p =
     pbind (if at_redirection p then (p, Ok True) else at_fd_prefix_redirection p) (\<lambda>b p.
       if \<not> b then leave p redirections
       else pbind (at_fd_prefix_redirection p) (\<lambda>b p.
         pbind (if b then parse_fd_prefixed_redirection p else parse_redirection p) (\<lambda>redir p.
           go_on p (redirections @ [redir]))))"

definition parse_trailing_redirections :: "parser \<Rightarrow> redirection list presult" where
  "parse_trailing_redirections p = parse_loop trailing_step [] p"

section \<open>Here-documents\<close>

definition heredoc_line :: "string \<Rightarrow> nat \<Rightarrow> (nat \<times> nat \<times> string, parse_error) result" where
  "heredoc_line src scan_pos =
     result_bind (str_slice src scan_pos (length src)) (\<lambda>rest.
       let line_start = scan_pos;
           line_end = (case find_char ch_newline rest of None \<Rightarrow> length src | Some i \<Rightarrow> scan_pos + i)
       in result_bind (str_slice src line_start line_end) (\<lambda>line. Ok (line_start, line_end, line)))"

definition heredoc_check_line :: "string \<Rightarrow> bool \<Rightarrow> string" where
  "heredoc_check_line line strip = (if strip then trim_start_matches ch_tab line else line)"

definition build_heredoc_body ::
    "string \<Rightarrow> nat \<Rightarrow> nat \<Rightarrow> bool \<Rightarrow> bool \<Rightarrow> (here_doc_body, parse_error) result" where
  "build_heredoc_body src body_start line_start strip expand =
     result_bind (str_slice src body_start line_start) (\<lambda>raw_body.
       let content =
             (if strip then
                join_with [ch_newline] (map (trim_start_matches ch_tab) (str_lines raw_body)) @
                  (if raw_body \<noteq> [] \<and> last raw_body = ch_newline then [ch_newline] else [])
              else raw_body)
       in Ok \<lparr>doc_content = content, doc_expand = expand,
              body_span = \<lparr>span_start = of_nat body_start, span_end = of_nat line_start\<rparr>\<rparr>)"

definition advance_heredoc_scan :: "string \<Rightarrow> nat \<Rightarrow> nat" where
  "advance_heredoc_scan src line_end = (if line_end < length src then line_end + 1 else line_end)"

lemma heredoc_line_ends:
  "heredoc_line src scan_pos = Ok (line_start, line_end, line) \<Longrightarrow>
   line_start = scan_pos \<and> scan_pos \<le> line_end \<and> line_end \<le> length src"
  by (auto simp: heredoc_line_def result_bind_def str_slice_def Let_def
      split: result.splits if_splits option.splits dest: find_char_Some)

text \<open>The loop over the lines of one here-document, up to its delimiter.\<close>

function heredoc_loop ::
    "string \<Rightarrow> pending_here_doc \<Rightarrow> nat \<Rightarrow> nat \<Rightarrow> (here_doc_body \<times> nat, parse_error) result" where
  "heredoc_loop src h body_start scan_pos =
     (case heredoc_line src scan_pos of
        Ok (line_start, line_end, line) \<Rightarrow>
          if heredoc_check_line line (strip_tabs h) = delimiter h then
            result_bind (build_heredoc_body src body_start line_start (strip_tabs h) (expand_body h))
              (\<lambda>body. Ok (body, advance_heredoc_scan src line_end))
          else if line_end \<ge> length src then
            Err \<lparr>perr_message = ''unterminated here-doc, expected '' @ [ch_squote] @ delimiter h @ [ch_squote],
                 perr_offset = of_nat body_start\<rparr>
          else heredoc_loop src h body_start (line_end + 1)
      | Err e \<Rightarrow> Err e
      | Panic m \<Rightarrow> Panic m)"
  by pat_completeness auto

termination heredoc_loop
  by (relation "measure (\<lambda>(src, h, body_start, scan_pos). length src - scan_pos)")
    (auto dest: heredoc_line_ends)

declare heredoc_loop.simps [simp del]

fun heredoc_bodies ::
    "string \<Rightarrow> pending_here_doc list \<Rightarrow> nat \<Rightarrow> (here_doc_body list \<times> nat, parse_error) result" where
  "heredoc_bodies src [] scan_pos = Ok ([], scan_pos)"
| "heredoc_bodies src (h # hds) scan_pos =
     result_bind (heredoc_loop src h scan_pos scan_pos) (\<lambda>(body, scan_pos).
       result_bind (heredoc_bodies src hds scan_pos) (\<lambda>(bodies, scan_pos).
         Ok (body # bodies, scan_pos)))"

text \<open>The bodies go, in source order, to the redirections that wait for one.\<close>

fun assign_heredoc_bodies_redirs ::
    "redirection list \<Rightarrow> here_doc_body list \<Rightarrow> redirection list \<times> here_doc_body list" where
  "assign_heredoc_bodies_redirs [] bodies = ([], bodies)"
| "assign_heredoc_bodies_redirs (r # rs) bodies =
     (let (r, bodies) =
        (if (redir_op r = HereDoc \<or> redir_op r = HereDocStrip) \<and> redir_here_doc r = None
         then (case bodies of
                 [] \<Rightarrow> (r\<lparr>redir_here_doc := None\<rparr>, [])
               | b # bs \<Rightarrow> (r\<lparr>redir_here_doc := Some b\<rparr>, bs))
         else (r, bodies));
          (rs, bodies) = assign_heredoc_bodies_redirs rs bodies
      in (r # rs, bodies))"

definition assign_heredoc_bodies_cmd ::
    "command \<Rightarrow> here_doc_body list \<Rightarrow> command \<times> here_doc_body list" where
  "assign_heredoc_bodies_cmd cmd bodies =
     (let assign = (\<lambda>rs f. let (rs, bodies) = assign_heredoc_bodies_redirs rs bodies in (f rs, bodies)) in
      case cmd of
        SimpleCommand asgs ws rs sp \<Rightarrow> assign rs (\<lambda>rs. SimpleCommand asgs ws rs sp)
      | SubshellCommand body rs sp \<Rightarrow> assign rs (\<lambda>rs. SubshellCommand body rs sp)
      | GroupCommand body rs sp \<Rightarrow> assign rs (\<lambda>rs. GroupCommand body rs sp)
      | IfCommand c b es el rs sp \<Rightarrow> assign rs (\<lambda>rs. IfCommand c b es el rs sp)
      | WhileCommand c b rs sp \<Rightarrow> assign rs (\<lambda>rs. WhileCommand c b rs sp)
      | UntilCommand c b rs sp \<Rightarrow> assign rs (\<lambda>rs. UntilCommand c b rs sp)
      | ForCommand v ws b rs sp \<Rightarrow> assign rs (\<lambda>rs. ForCommand v ws b rs sp)
      | ArithForCommand i c s b rs sp \<Rightarrow> assign rs (\<lambda>rs. ArithForCommand i c s b rs sp)
      | CaseCommand w items rs sp \<Rightarrow> assign rs (\<lambda>rs. CaseCommand w items rs sp)
      | SelectCommand v ws b rs sp \<Rightarrow> assign rs (\<lambda>rs. SelectCommand v ws b rs sp)
      | FunctionDef n b sp \<Rightarrow> (cmd, bodies)
      | DoubleBracketCommand ws sp \<Rightarrow> (cmd, bodies)
      | ArithCommandNode e sp \<Rightarrow> (cmd, bodies))"

text \<open>The \<open>for\<close> loops over the iterator of bodies.\<close>

fun assign_each :: "('a \<Rightarrow> 'b \<Rightarrow> 'a \<times> 'b) \<Rightarrow> 'a list \<Rightarrow> 'b \<Rightarrow> 'a list \<times> 'b" where
  "assign_each f [] bodies = ([], bodies)"
| "assign_each f (x # xs) bodies =
     (let (x, bodies) = f x bodies; (xs, bodies) = assign_each f xs bodies in (x # xs, bodies))"

fun assign_heredoc_bodies_pipeline ::
    "pipeline \<Rightarrow> here_doc_body list \<Rightarrow> pipeline \<times> here_doc_body list" where
  "assign_heredoc_bodies_pipeline (Pipeline timed posix negated cmds errs) bodies =
     (let (cmds, bodies) = assign_each assign_heredoc_bodies_cmd cmds bodies
      in (Pipeline timed posix negated cmds errs, bodies))"

fun assign_heredoc_bodies_and_or ::
    "and_or_list \<Rightarrow> here_doc_body list \<Rightarrow> and_or_list \<times> here_doc_body list" where
  "assign_heredoc_bodies_and_or (AndOrList first rest) bodies =
     (let (first, bodies) = assign_heredoc_bodies_pipeline first bodies;
          (rest, bodies) = assign_each (\<lambda>(op, pl) bodies.
              let (pl, bodies) = assign_heredoc_bodies_pipeline pl bodies in ((op, pl), bodies)) rest bodies
      in (AndOrList first rest, bodies))"

fun assign_heredoc_bodies_cc ::
    "complete_command \<Rightarrow> here_doc_body list \<Rightarrow> complete_command \<times> here_doc_body list" where
  "assign_heredoc_bodies_cc (CompleteCommand cmds sp) bodies =
     (let (cmds, bodies) = assign_each assign_heredoc_bodies_and_or cmds bodies
      in (CompleteCommand cmds sp, bodies))"

text \<open>Go on lexing at a position; the tokens read ahead are dropped.\<close>

definition reposition :: "nat \<Rightarrow> parser \<Rightarrow> unit presult" where
  "reposition i p =
     pbind (lex_next (p\<lparr>parser_lexer := set_position (parser_lexer p) i, peeked := []\<rparr>))
       (\<lambda>tok p. (p\<lparr>current := tok\<rparr>, Ok ()))"

definition resolve_heredocs :: "complete_command \<Rightarrow> parser \<Rightarrow> complete_command presult" where
  "resolve_heredocs cc p =
     pbind (p, heredoc_bodies (parser_source p) (pending_heredocs p) (unat (span_end (tok_span (current p)))))
       (\<lambda>(bodies, scan_pos) p.
          pbind (reposition scan_pos (p\<lparr>pending_heredocs := []\<rparr>))
            (\<lambda>_ p. (p, Ok (fst (assign_heredoc_bodies_cc cc bodies)))))"

section \<open>Simple commands\<close>

type_synonym simple_parts = "assignment list \<times> shell_word list \<times> redirection list \<times> bool"

definition parse_simple_word_part :: "simple_parts \<Rightarrow> parser \<Rightarrow> simple_parts presult" where
  "parse_simple_word_part parts p =
     (case parts of (assignments, wds, redirections, past_assignments) \<Rightarrow>
        let wd = current_text p in
        if \<not> past_assignments \<and> is_assignment_text wd then
          pbind (parse_assignment p) (\<lambda>a p. (p, Ok (assignments @ [a], wds, redirections, past_assignments)))
        else
          pbind (if wd \<noteq> [] \<and> last wd = CHR ''='' then peek_is_lparen p else (p, Ok False)) (\<lambda>b p.
          pbind (if b then parse_compound_assign_word p else parse_word p) (\<lambda>w p.
            (p, Ok (assignments, wds @ [w], redirections, True)))))"

definition parse_simple_command_part :: "simple_parts \<Rightarrow> parser \<Rightarrow> (simple_parts \<times> bool) presult" where
  "parse_simple_command_part parts p =
     (case parts of (assignments, wds, redirections, past_assignments) \<Rightarrow>
        pbind (at_fd_prefix_redirection p) (\<lambda>b p.
          if b then
            pbind (parse_fd_prefixed_redirection p) (\<lambda>r p.
              go_on p (assignments, wds, redirections @ [r], past_assignments))
          else
            pbind (if cur_kind p = Less \<or> cur_kind p = Greater then peek_is_lparen p else (p, Ok False)) (\<lambda>b p.
              if b then
                pbind (parse_process_substitution_word p) (\<lambda>w p.
                  go_on p (assignments, wds @ [w], redirections, True))
              else if at_redirection p then
                pbind (parse_redirection p) (\<lambda>r p.
                  go_on p (assignments, wds, redirections @ [r], past_assignments))
              else if at_word p then
                pbind (parse_simple_word_part parts p) (\<lambda>parts p. go_on p parts)
              else leave p parts)))"

definition parse_simple_command :: "parser \<Rightarrow> command presult" where
  "parse_simple_command p =
     (let st = cur_start p in
      pbind (parse_loop parse_simple_command_part ([], [], [], False) p)
        (\<lambda>(assignments, wds, redirections, _) p.
           if assignments = [] \<and> wds = [] \<and> redirections = []
           then parse_fail p ''expected a command'' (cur_start p)
           else (p, Ok (SimpleCommand assignments wds redirections (parser_span_from p st)))))"

section \<open>Lists of commands\<close>

text \<open>In this section and the next, \<open>pc\<close> is the parser of a command one level deeper.\<close>

type_synonym command_parser = "parser \<Rightarrow> command presult"

definition pipe_step ::
    "command_parser \<Rightarrow> command list \<times> bool list \<Rightarrow> parser \<Rightarrow> ((command list \<times> bool list) \<times> bool) presult" where
  "pipe_step pc acc p =
     (case acc of (cmds, pipe_stderr) \<Rightarrow>
        if cur_kind p = PipeTok \<or> cur_kind p = PipeAmp then
          let pipe_stderr = pipe_stderr @ [cur_kind p = PipeAmp] in
          pbind (advance_token p) (\<lambda>_ p.
          pbind (skip_newlines p) (\<lambda>_ p.
          pbind (pc p) (\<lambda>cmd p. go_on p (cmds @ [cmd], pipe_stderr))))
        else leave p acc)"

definition take_flag :: "bool \<Rightarrow> parser \<Rightarrow> bool presult" where
  "take_flag b p = (if b then pbind (advance_token p) (\<lambda>_ p. (p, Ok True)) else (p, Ok False))"

definition parse_pipeline :: "command_parser \<Rightarrow> parser \<Rightarrow> pipeline presult" where
  "parse_pipeline pc p =
     pbind (take_flag (at_word_eq ''time'' p) p) (\<lambda>timed p.
     pbind (take_flag (timed \<and> at_word_eq ''-p'' p) p) (\<lambda>time_posix p.
     pbind (take_flag (at_word_eq ''!'' p) p) (\<lambda>negated p.
     pbind (pc p) (\<lambda>cmd p.
     pbind (parse_loop (pipe_step pc) ([cmd], []) p) (\<lambda>(cmds, pipe_stderr) p.
       (p, Ok (Pipeline timed time_posix negated cmds pipe_stderr)))))))"

definition and_or_step ::
    "command_parser \<Rightarrow> (and_or_op \<times> pipeline) list \<Rightarrow> parser \<Rightarrow> ((and_or_op \<times> pipeline) list \<times> bool) presult" where
  "and_or_step pc rest p =
     (if cur_kind p = AndAnd \<or> cur_kind p = OrOr then
        let op = (if cur_kind p = AndAnd then And else Or) in
        pbind (advance_token p) (\<lambda>_ p.
        pbind (skip_newlines p) (\<lambda>_ p.
        pbind (parse_pipeline pc p) (\<lambda>pl p. go_on p (rest @ [(op, pl)]))))
      else leave p rest)"

definition parse_and_or :: "command_parser \<Rightarrow> parser \<Rightarrow> and_or_list presult" where
  "parse_and_or pc p =
     pbind (parse_pipeline pc p) (\<lambda>first p.
     pbind (parse_loop (and_or_step pc) [] p) (\<lambda>rest p. (p, Ok (AndOrList first rest))))"

text \<open>A semicolon that does not start a terminator of a case item.\<close>

definition at_list_semi :: "parser \<Rightarrow> bool presult" where
  "at_list_semi p =
     (if cur_kind p \<noteq> Semi then (p, Ok False)
      else pbind (is_double_semi p) (\<lambda>b p. if b then (p, Ok False)
      else pbind (is_case_fallthrough p) (\<lambda>b p. if b then (p, Ok False)
      else pbind (is_case_continue_testing p) (\<lambda>b p. (p, Ok (\<not> b))))))"

definition complete_step ::
    "command_parser \<Rightarrow> and_or_list list \<Rightarrow> parser \<Rightarrow> (and_or_list list \<times> bool) presult" where
  "complete_step pc cmds p =
     pbind (at_list_semi p) (\<lambda>b p.
       if \<not> b then leave p cmds
       else
         pbind (advance_token p) (\<lambda>_ p.
         pbind (if pending_heredocs p = [] then skip_newlines p else (p, Ok ())) (\<lambda>_ p.
           if at_command_start p then pbind (parse_and_or pc p) (\<lambda>a p. go_on p (cmds @ [a]))
           else go_on p cmds)))"

definition parse_complete_command :: "command_parser \<Rightarrow> parser \<Rightarrow> complete_command presult" where
  "parse_complete_command pc p =
     (let st = cur_start p in
      pbind (parse_and_or pc p) (\<lambda>first p.
      pbind (parse_loop (complete_step pc) [first] p) (\<lambda>cmds p.
        let cc = CompleteCommand cmds (parser_span_from p st) in
        if pending_heredocs p \<noteq> [] \<and> cur_kind p = Newline then resolve_heredocs cc p
        else (p, Ok cc))))"

definition compound_list_step ::
    "command_parser \<Rightarrow> complete_command list \<Rightarrow> parser \<Rightarrow> (complete_command list \<times> bool) presult" where
  "compound_list_step pc cmds p =
     (if at_command_start p then
        pbind (parse_complete_command pc p) (\<lambda>cc p.
        pbind (skip_newlines p) (\<lambda>_ p. go_on p (cmds @ [cc])))
      else leave p cmds)"

definition parse_compound_list :: "command_parser \<Rightarrow> parser \<Rightarrow> complete_command list presult" where
  "parse_compound_list pc p =
     pbind (skip_newlines p) (\<lambda>_ p. parse_loop (compound_list_step pc) [] p)"

section \<open>Compound commands\<close>

definition parse_subshell :: "command_parser \<Rightarrow> parser \<Rightarrow> command presult" where
  "parse_subshell pc p =
     (let st = cur_start p in
      pbind (advance_token p) (\<lambda>_ p.
      pbind (parse_compound_list pc p) (\<lambda>body p.
        if cur_kind p \<noteq> RParen
        then parse_fail p (''expected '' @ [ch_squote] @ '')'' @ [ch_squote] @ '' to close subshell'') (cur_start p)
        else
          pbind (advance_token p) (\<lambda>_ p.
          pbind (parse_trailing_redirections p) (\<lambda>redirs p.
            (p, Ok (SubshellCommand body redirs (parser_span_from p st))))))))"

definition parse_group :: "command_parser \<Rightarrow> parser \<Rightarrow> command presult" where
  "parse_group pc p =
     (let st = cur_start p in
      pbind (expect_word ''{'' p) (\<lambda>_ p.
      pbind (parse_compound_list pc p) (\<lambda>body p.
      pbind (expect_word ''}'' p) (\<lambda>_ p.
      pbind (parse_trailing_redirections p) (\<lambda>redirs p.
        (p, Ok (GroupCommand body redirs (parser_span_from p st))))))))"

definition elif_step ::
    "command_parser \<Rightarrow> elif_clause list \<Rightarrow> parser \<Rightarrow> (elif_clause list \<times> bool) presult" where
  "elif_step pc elifs p =
     (if at_word_eq ''elif'' p then
        pbind (advance_token p) (\<lambda>_ p.
        pbind (parse_compound_list pc p) (\<lambda>elif_cond p.
        pbind (expect_word ''then'' p) (\<lambda>_ p.
        pbind (parse_compound_list pc p) (\<lambda>elif_body p.
          go_on p (elifs @ [ElifClause elif_cond elif_body])))))
      else leave p elifs)"

definition parse_else :: "command_parser \<Rightarrow> parser \<Rightarrow> complete_command list option presult" where
  "parse_else pc p =
     (if at_word_eq ''else'' p then
        pbind (advance_token p) (\<lambda>_ p.
        pbind (parse_compound_list pc p) (\<lambda>body p. (p, Ok (Some body))))
      else (p, Ok None))"

definition parse_if :: "command_parser \<Rightarrow> parser \<Rightarrow> command presult" where
  "parse_if pc p =
     (let st = cur_start p in
      pbind (expect_word ''if'' p) (\<lambda>_ p.
      pbind (parse_compound_list pc p) (\<lambda>condition p.
      pbind (expect_word ''then'' p) (\<lambda>_ p.
      pbind (parse_compound_list pc p) (\<lambda>then_body p.
      pbind (parse_loop (elif_step pc) [] p) (\<lambda>elifs p.
      pbind (parse_else pc p) (\<lambda>else_body p.
      pbind (expect_word ''fi'' p) (\<lambda>_ p.
      pbind (parse_trailing_redirections p) (\<lambda>redirs p.
        (p, Ok (IfCommand condition then_body elifs else_body redirs (parser_span_from p st))))))))))))"

text \<open>The part \<open>do body done\<close> and the redirections of the loops.\<close>

definition parse_do_group :: "command_parser \<Rightarrow> parser \<Rightarrow> (complete_command list \<times> redirection list) presult" where
  "parse_do_group pc p =
     pbind (expect_word ''do'' p) (\<lambda>_ p.
     pbind (parse_compound_list pc p) (\<lambda>body p.
     pbind (expect_word ''done'' p) (\<lambda>_ p.
     pbind (parse_trailing_redirections p) (\<lambda>redirs p. (p, Ok (body, redirs))))))"

definition parse_while :: "command_parser \<Rightarrow> parser \<Rightarrow> command presult" where
  "parse_while pc p =
     (let st = cur_start p in
      pbind (expect_word ''while'' p) (\<lambda>_ p.
      pbind (parse_compound_list pc p) (\<lambda>condition p.
      pbind (parse_do_group pc p) (\<lambda>(body, redirs) p.
        (p, Ok (WhileCommand condition body redirs (parser_span_from p st)))))))"

definition parse_until :: "command_parser \<Rightarrow> parser \<Rightarrow> command presult" where
  "parse_until pc p =
     (let st = cur_start p in
      pbind (expect_word ''until'' p) (\<lambda>_ p.
      pbind (parse_compound_list pc p) (\<lambda>condition p.
      pbind (parse_do_group pc p) (\<lambda>(body, redirs) p.
        (p, Ok (UntilCommand condition body redirs (parser_span_from p st)))))))"

definition loop_word_step :: "shell_word list \<Rightarrow> parser \<Rightarrow> (shell_word list \<times> bool) presult" where
  "loop_word_step wds p =
     (if at_word p \<and> \<not> at_word_eq ''do'' p \<and> current_text p \<notin> set TERMINATOR_WORDS
      then pbind (parse_word p) (\<lambda>w p. go_on p (wds @ [w]))
      else leave p wds)"

definition consume_optional_semi :: "parser \<Rightarrow> unit presult" where
  "consume_optional_semi p =
     (if cur_kind p = Semi then pbind (advance_token p) (\<lambda>_ p. (p, Ok ())) else (p, Ok ()))"

definition parse_loop_words_clause :: "parser \<Rightarrow> shell_word list option presult" where
  "parse_loop_words_clause p =
     (if \<not> at_word_eq ''in'' p then pbind (consume_optional_semi p) (\<lambda>_ p. (p, Ok None))
      else
        pbind (advance_token p) (\<lambda>_ p.
        pbind (parse_loop loop_word_step [] p) (\<lambda>wds p.
        pbind (consume_optional_semi p) (\<lambda>_ p. (p, Ok (Some wds))))))"

text \<open>
  \<open>collect_arith_expr\<close> reads raw bytes up to the closing \<open>))\<close>: its position, or the position
  of a single closing parenthesis, or nothing at the end of the source.
\<close>

function arith_close :: "string \<Rightarrow> nat \<Rightarrow> nat \<Rightarrow> (nat, nat option) result" where
  "arith_close src i depth =
     (if i < length src then
        if src ! i = CHR ''('' then arith_close src (i + 1) (depth + 1)
        else if src ! i = CHR '')'' then
          (if depth > 0 then arith_close src (i + 1) (depth - 1)
           else if i + 1 < length src \<and> src ! (i + 1) = CHR '')'' then Ok i
           else Err (Some i))
        else arith_close src (i + 1) depth
      else Err None)"
  by pat_completeness auto
termination by (relation "measure (\<lambda>(src, i, depth). length src - i)") auto

declare arith_close.simps [simp del]

definition collect_arith_expr :: "parser \<Rightarrow> string presult" where
  "collect_arith_expr p =
     (let expr_start = unat (cur_start p); src = parser_source p in
      case arith_close src expr_start 0 of
        Ok i \<Rightarrow>
          pbind (p, str_slice src expr_start i) (\<lambda>expr p.
          pbind (reposition (i + 2) (p\<lparr>prev_end := of_nat (i + 2)\<rparr>)) (\<lambda>_ p. (p, Ok (trim expr))))
      | Err (Some i) \<Rightarrow>
          parse_fail p (''expected '' @ [ch_squote] @ ''))'' @ [ch_squote] @ '' to close arithmetic expression'')
            (of_nat i)
      | Err None \<Rightarrow>
          parse_fail p (''unterminated arithmetic expression, expected '' @ [ch_squote] @ ''))'' @ [ch_squote])
            (of_nat expr_start)
      | Panic m \<Rightarrow> (p, Panic m))"

definition parse_arith_command :: "parser \<Rightarrow> command presult" where
  "parse_arith_command p =
     (let st = cur_start p in
      pbind (advance_token p) (\<lambda>_ p.
      pbind (advance_token p) (\<lambda>_ p.
      pbind (collect_arith_expr p) (\<lambda>expr p.
        (p, Ok (ArithCommandNode expr (parser_span_from p st)))))))"

definition nth_part :: "string list \<Rightarrow> nat \<Rightarrow> string" where
  "nth_part parts i = (if i < length parts then trim (parts ! i) else [])"

definition parse_arith_for :: "command_parser \<Rightarrow> u32 \<Rightarrow> parser \<Rightarrow> command presult" where
  "parse_arith_for pc st p =
     pbind (advance_token p) (\<lambda>_ p.
     pbind (advance_token p) (\<lambda>_ p.
     pbind (collect_arith_expr p) (\<lambda>inner p.
       let parts = splitn 3 (CHR '';'') inner in
       pbind (consume_optional_semi p) (\<lambda>_ p.
       pbind (skip_newlines p) (\<lambda>_ p.
       pbind (parse_do_group pc p) (\<lambda>(body, redirs) p.
         (p, Ok (ArithForCommand (nth_part parts 0) (nth_part parts 1) (nth_part parts 2) body redirs
                   (parser_span_from p st)))))))))"

definition parse_for :: "command_parser \<Rightarrow> parser \<Rightarrow> command presult" where
  "parse_for pc p =
     (let st = cur_start p in
      pbind (expect_word ''for'' p) (\<lambda>_ p.
      pbind (is_arith_for_start p) (\<lambda>b p.
        if b then parse_arith_for pc st p
        else if \<not> at_word p
        then parse_fail p (''expected variable name after '' @ [ch_squote] @ ''for'' @ [ch_squote]) (cur_start p)
        else
          let var_name = current_text p in
          pbind (advance_token p) (\<lambda>_ p.
          pbind (parse_loop_words_clause p) (\<lambda>wds p.
          pbind (skip_newlines p) (\<lambda>_ p.
          pbind (parse_do_group pc p) (\<lambda>(body, redirs) p.
            (p, Ok (ForCommand var_name wds body redirs (parser_span_from p st))))))))))"

definition parse_select :: "command_parser \<Rightarrow> parser \<Rightarrow> command presult" where
  "parse_select pc p =
     (let st = cur_start p in
      pbind (expect_word ''select'' p) (\<lambda>_ p.
        if \<not> at_word p
        then parse_fail p (''expected variable name after '' @ [ch_squote] @ ''select'' @ [ch_squote]) (cur_start p)
        else
          let var_name = current_text p in
          pbind (advance_token p) (\<lambda>_ p.
          pbind (parse_loop_words_clause p) (\<lambda>wds p.
          pbind (skip_newlines p) (\<lambda>_ p.
          pbind (parse_do_group pc p) (\<lambda>(body, redirs) p.
            (p, Ok (SelectCommand var_name wds body redirs (parser_span_from p st)))))))))"

definition pattern_step :: "shell_word list \<Rightarrow> parser \<Rightarrow> (shell_word list \<times> bool) presult" where
  "pattern_step patterns p =
     (if cur_kind p = PipeTok then
        pbind (advance_token p) (\<lambda>_ p.
        pbind (parse_word p) (\<lambda>w p. go_on p (patterns @ [w])))
      else leave p patterns)"

definition parse_case_patterns :: "parser \<Rightarrow> shell_word list presult" where
  "parse_case_patterns p =
     pbind (take_flag (cur_kind p = LParen) p) (\<lambda>_ p.
     pbind (parse_word p) (\<lambda>w p.
     pbind (parse_loop pattern_step [w] p) (\<lambda>patterns p.
       if cur_kind p \<noteq> RParen
       then parse_fail p (''expected '' @ [ch_squote] @ '')'' @ [ch_squote] @ '' after case pattern'') (cur_start p)
       else pbind (advance_token p) (\<lambda>_ p. (p, Ok patterns)))))"

definition case_body_step ::
    "command_parser \<Rightarrow> complete_command list \<Rightarrow> parser \<Rightarrow> (complete_command list \<times> bool) presult" where
  "case_body_step pc body p =
     (if \<not> at_command_start p then leave p body
      else pbind (is_double_semi p) (\<lambda>b p. if b then leave p body
      else pbind (is_case_fallthrough p) (\<lambda>b p. if b then leave p body
      else
        pbind (parse_complete_command pc p) (\<lambda>cc p.
        pbind (skip_newlines p) (\<lambda>_ p. go_on p (body @ [cc]))))))"

definition parse_case_body :: "command_parser \<Rightarrow> parser \<Rightarrow> complete_command list presult" where
  "parse_case_body pc p = parse_loop (case_body_step pc) [] p"

definition parse_case_terminator :: "parser \<Rightarrow> case_terminator presult" where
  "parse_case_terminator p =
     pbind (is_case_continue_testing p) (\<lambda>b p.
       if b then
         pbind (advance_token p) (\<lambda>_ p.
         pbind (advance_token p) (\<lambda>_ p.
         pbind (advance_token p) (\<lambda>_ p. (p, Ok ContinueTesting))))
       else pbind (is_double_semi p) (\<lambda>b p.
         if b then
           pbind (advance_token p) (\<lambda>_ p.
           pbind (advance_token p) (\<lambda>_ p. (p, Ok Break)))
         else pbind (is_case_fallthrough p) (\<lambda>b p.
           if b then
             pbind (advance_token p) (\<lambda>_ p.
             pbind (advance_token p) (\<lambda>_ p. (p, Ok Fallthrough)))
           else (p, Ok Break))))"

definition case_item_step ::
    "command_parser \<Rightarrow> case_item list \<Rightarrow> parser \<Rightarrow> (case_item list \<times> bool) presult" where
  "case_item_step pc items p =
     (if at_word_eq ''esac'' p \<or> cur_kind p = Eof then leave p items
      else
        pbind (parse_case_patterns p) (\<lambda>patterns p.
        pbind (skip_newlines p) (\<lambda>_ p.
        pbind (parse_case_body pc p) (\<lambda>body p.
        pbind (parse_case_terminator p) (\<lambda>terminator p.
        pbind (skip_newlines p) (\<lambda>_ p.
          go_on p (items @ [CaseItem patterns body terminator])))))))"

definition parse_case :: "command_parser \<Rightarrow> parser \<Rightarrow> command presult" where
  "parse_case pc p =
     (let st = cur_start p in
      pbind (expect_word ''case'' p) (\<lambda>_ p.
        if \<not> at_word p
        then parse_fail p (''expected word after '' @ [ch_squote] @ ''case'' @ [ch_squote]) (cur_start p)
        else
          pbind (parse_word p) (\<lambda>w p.
          pbind (skip_newlines p) (\<lambda>_ p.
          pbind (expect_word ''in'' p) (\<lambda>_ p.
          pbind (skip_newlines p) (\<lambda>_ p.
          pbind (parse_loop (case_item_step pc) [] p) (\<lambda>items p.
          pbind (expect_word ''esac'' p) (\<lambda>_ p.
          pbind (parse_trailing_redirections p) (\<lambda>redirs p.
            (p, Ok (CaseCommand w items redirs (parser_span_from p st))))))))))))"

definition double_bracket_step :: "shell_word list \<Rightarrow> parser \<Rightarrow> (shell_word list \<times> bool) presult" where
  "double_bracket_step wds p =
     (if cur_kind p = DblRBracket then pbind (advance_token p) (\<lambda>_ p. leave p wds)
      else if cur_kind p = Eof
      then parse_fail p (''expected '' @ [ch_squote] @ '']]'' @ [ch_squote] @ '' to close extended test'') (cur_start p)
      else if at_word p then pbind (parse_word p) (\<lambda>w p. go_on p (wds @ [w]))
      else
        pbind (advance_token p) (\<lambda>tok p.
          go_on p (wds @ [\<lparr>word_parts = [Literal (token_text tok (parser_source p))],
                           word_span = tok_span tok\<rparr>])))"

definition parse_double_bracket :: "parser \<Rightarrow> command presult" where
  "parse_double_bracket p =
     (let st = cur_start p in
      pbind (advance_token p) (\<lambda>_ p.
      pbind (parse_loop double_bracket_step [] p) (\<lambda>wds p.
        (p, Ok (DoubleBracketCommand wds (parser_span_from p st))))))"

definition parse_function_posix :: "command_parser \<Rightarrow> parser \<Rightarrow> command presult" where
  "parse_function_posix pc p =
     (let st = cur_start p; name = current_text p in
      pbind (advance_token p) (\<lambda>_ p.
      pbind (advance_token p) (\<lambda>_ p.
      pbind (advance_token p) (\<lambda>_ p.
      pbind (skip_newlines p) (\<lambda>_ p.
      pbind (pc p) (\<lambda>body p.
        (p, Ok (FunctionDef name body (parser_span_from p st)))))))))"

definition parse_function_parens :: "parser \<Rightarrow> unit presult" where
  "parse_function_parens p =
     (if cur_kind p = LParen then
        pbind (advance_token p) (\<lambda>_ p.
          if cur_kind p \<noteq> RParen
          then parse_fail p (''expected '' @ [ch_squote] @ '')'' @ [ch_squote] @ '' after '' @ [ch_squote] @
                 ''('' @ [ch_squote] @ '' in function definition'') (cur_start p)
          else pbind (advance_token p) (\<lambda>_ p. (p, Ok ())))
      else (p, Ok ()))"

definition parse_function_bash :: "command_parser \<Rightarrow> parser \<Rightarrow> command presult" where
  "parse_function_bash pc p =
     (let st = cur_start p in
      pbind (expect_word ''function'' p) (\<lambda>_ p.
        if \<not> at_word p
        then parse_fail p (''expected function name after '' @ [ch_squote] @ ''function'' @ [ch_squote]) (cur_start p)
        else
          let name = current_text p in
          pbind (advance_token p) (\<lambda>_ p.
          pbind (parse_function_parens p) (\<lambda>_ p.
          pbind (skip_newlines p) (\<lambda>_ p.
          pbind (pc p) (\<lambda>body p.
            (p, Ok (FunctionDef name body (parser_span_from p st)))))))))"

section \<open>Commands and programs\<close>

definition parse_command_lparen :: "command_parser \<Rightarrow> parser \<Rightarrow> command presult" where
  "parse_command_lparen pc p =
     (let current_end = span_end (tok_span (current p)) in
      pbind (try_peek 0 p) (\<lambda>next p.
        if (case next of
              None \<Rightarrow> False
            | Some t \<Rightarrow> tok_kind t = LParen \<and> span_start (tok_span t) = current_end)
        then parse_arith_command p
        else parse_subshell pc p))"

text \<open>The word of a function definition \<open>name ()\<close>; here an error of the lexer is an error.\<close>

definition at_function_parens :: "parser \<Rightarrow> bool presult" where
  "at_function_parens p =
     pbind (peek_nth 0 p) (\<lambda>t p.
       if tok_kind t \<noteq> LParen then (p, Ok False)
       else pbind (peek_nth 1 p) (\<lambda>t p. (p, Ok (tok_kind t = RParen))))"

definition try_parse_compound_keyword :: "command_parser \<Rightarrow> parser \<Rightarrow> command option presult" where
  "try_parse_compound_keyword pc p =
     (let wd = current_text p; found = (\<lambda>m. pbind m (\<lambda>cmd p. (p, Ok (Some cmd)))) in
      if wd = ''{'' then found (parse_group pc p)
      else if wd = ''if'' then found (parse_if pc p)
      else if wd = ''while'' then found (parse_while pc p)
      else if wd = ''until'' then found (parse_until pc p)
      else if wd = ''for'' then found (parse_for pc p)
      else if wd = ''case'' then found (parse_case pc p)
      else if wd = ''select'' then found (parse_select pc p)
      else if wd = ''function'' then found (parse_function_bash pc p)
      else pbind (at_function_parens p) (\<lambda>b p.
        if b then found (parse_function_posix pc p) else (p, Ok None)))"

definition parse_command_inner :: "command_parser \<Rightarrow> parser \<Rightarrow> command presult" where
  "parse_command_inner pc p =
     (if cur_kind p = LParen then parse_command_lparen pc p
      else if cur_kind p = DblLBracket then parse_double_bracket p
      else
        pbind (if at_word p then try_parse_compound_keyword pc p else (p, Ok None)) (\<lambda>found p.
          case found of Some cmd \<Rightarrow> (p, Ok cmd) | None \<Rightarrow> parse_simple_command p))"

primrec parse_command_at :: "nat \<Rightarrow> command_parser" where
  "parse_command_at 0 = (\<lambda>p. (p, Panic ''nesting is not bounded''))"
| "parse_command_at (Suc n) = (\<lambda>p.
     pbind (enter_nesting p) (\<lambda>_ p.
       case parse_command_inner (parse_command_at n) p of (p, r) \<Rightarrow> (exit_nesting p, r)))"

lemma parse_command_at_code [code]:
  "parse_command_at 0 p = (p, Panic ''nesting is not bounded'')"
  "parse_command_at (Suc n) p =
     pbind (enter_nesting p) (\<lambda>_ p.
       case parse_command_inner (parse_command_at n) p of (p, r) \<Rightarrow> (exit_nesting p, r))"
  by simp_all

definition parse_command :: command_parser where
  "parse_command = parse_command_at (Suc (unat MAX_NESTING_DEPTH))"

definition parse_program :: "parser \<Rightarrow> program presult" where
  "parse_program p =
     pbind (skip_newlines p) (\<lambda>_ p.
     pbind (parse_loop (compound_list_step parse_command) [] p) (\<lambda>cmds p.
       if cur_kind p \<noteq> Eof
       then parse_fail p (''unexpected token: '' @ show_kind (cur_kind p)) (cur_start p)
       else (p, Ok cmds)))"

definition parse :: "string \<Rightarrow> (program, parse_error) result" where
  "parse s = result_bind (parser_new s) (\<lambda>p. snd (parse_program p))"

end
