(* ===== verification/Lexer_Props.thy ===== *)
theory Lexer_Props
  imports Lexer
begin

text \<open>
  The lexer's guarantees: every scanner moves forward and stays inside the source, the nesting
  depth is restored, tokens are in order and cover the source up to blanks and
  comments, and a source that is valid UTF-8 never makes it panic.
\<close>

section \<open>Scanners move forward\<close>

definition scan_ok :: "lexer \<Rightarrow> 'a lex_result \<Rightarrow> bool" where
  "scan_ok lx r \<longleftrightarrow>
     source (fst r) = source lx \<and> mode (fst r) = mode lx \<and> pos lx \<le> pos (fst r) \<and>
     (pos lx \<le> length (source lx) \<longrightarrow> pos (fst r) \<le> length (source lx)) \<and>
     subst_depth (fst r) = subst_depth lx \<and> (\<forall>m. snd r \<noteq> Panic m)"

definition scan_fwd :: "lexer \<Rightarrow> 'a lex_result \<Rightarrow> bool" where
  "scan_fwd lx r \<longleftrightarrow> scan_ok lx r \<and> (\<forall>x. snd r = Ok x \<longrightarrow> pos lx < pos (fst r))"

lemma scan_ok_if: "(b \<Longrightarrow> scan_ok lx x) \<Longrightarrow> (\<not> b \<Longrightarrow> scan_ok lx y) \<Longrightarrow> scan_ok lx (if b then x else y)"
  by simp

lemma scan_ok_option:
  "(m = None \<Longrightarrow> scan_ok lx x) \<Longrightarrow> (\<And>c. m = Some c \<Longrightarrow> scan_ok lx (g c)) \<Longrightarrow>
   scan_ok lx (case m of None \<Rightarrow> x | Some c \<Rightarrow> g c)"
  by (cases m) simp_all

lemma scan_ok_fail: "scan_ok lx (lex_fail lx msg st)"
  by (simp add: scan_ok_def lex_fail_def)

lemma scan_ok_Ok: "ahead lx lx' \<Longrightarrow> scan_ok lx (lx', Ok x)"
  by (auto simp: scan_ok_def ahead_def)

lemma scan_ok_ahead: "ahead lx lx1 \<Longrightarrow> scan_ok lx1 r \<Longrightarrow> scan_ok lx r"
  by (auto simp: scan_ok_def ahead_def split: result.splits)

lemma scan_ok_then:
  assumes "scan_fwd lx r" "snd r = Ok () \<Longrightarrow> moved lx (fst r) \<Longrightarrow> scan_ok (fst r) (k (fst r))"
  shows "scan_ok lx (then_scan lx r k)"
proof (cases "snd r")
  case (Ok u)
  then have m: "moved lx (fst r)" using assms(1) by (auto simp: scan_fwd_def scan_ok_def moved_def)
  then have "scan_ok (fst r) (k (fst r))" using assms(2) Ok by simp
  then show ?thesis
    using assms(1) Ok m
    by (auto simp: then_scan_def scan_fwd_def scan_ok_def split: result.splits)
qed (use assms(1) in \<open>auto simp: then_scan_def scan_fwd_def scan_ok_def\<close>)

lemma scan_fwd_advance: "peek lx = Some c \<Longrightarrow> scan_ok (advance 1 lx) r \<Longrightarrow> scan_fwd lx r"
  using scan_ok_ahead [OF ahead_advance, of lx c r]
  by (auto simp: scan_fwd_def scan_ok_def advance_def)

lemma ahead_backslash: "peek lx = Some c \<Longrightarrow> ahead lx (consume_backslash lx)"
  by (auto simp: consume_backslash_def ahead_def advance_def peek_def Let_def split: if_splits)

lemma scan_ok_prod:
  "(\<And>a b c d. t = (a, b, c, d) \<Longrightarrow> scan_ok lx (f a b c d)) \<Longrightarrow>
   scan_ok lx (case t of (a, b, c, d) \<Rightarrow> f a b c d)"
  by (cases t) simp

lemmas scan_step = scan_ok_ahead [OF ahead_advance] scan_ok_ahead [OF ahead_backslash]

lemma scan_fwd_ok: "scan_fwd lx r \<Longrightarrow> scan_ok lx r"
  by (simp add: scan_fwd_def)

lemmas scan_intros = scan_ok_option scan_ok_if

lemma single_quoted_loop_ok: "scan_ok lx (single_quoted_loop st lx)"
proof (induction st lx rule: single_quoted_loop.induct)
  case (1 st lx)
  show ?case
    unfolding single_quoted_loop.simps [of st lx]
    by (intro scan_intros scan_ok_fail scan_ok_Ok) (blast intro: "1" ahead_advance scan_ok_ahead)+
qed

lemma backtick_loop_ok: "scan_ok lx (backtick_loop st lx)"
proof (induction st lx rule: backtick_loop.induct)
  case (1 st lx)
  show ?case
    unfolding backtick_loop.simps [of st lx]
    by (intro scan_intros scan_ok_fail scan_ok_Ok)
      (blast intro: "1" ahead_advance ahead_backslash scan_ok_ahead)+
qed

lemma consume_single_quoted_fwd: "peek lx = Some c \<Longrightarrow> scan_fwd lx (consume_single_quoted lx)"
  unfolding consume_single_quoted_def by (rule scan_fwd_advance [OF _ single_quoted_loop_ok])

lemma consume_backtick_fwd: "peek lx = Some c \<Longrightarrow> scan_fwd lx (consume_backtick lx)"
  unfolding consume_backtick_def by (rule scan_fwd_advance [OF _ backtick_loop_ok])

lemma extglob_loop_ok: "scan_ok lx (extglob_loop st depth lx)"
proof (induction st depth lx rule: extglob_loop.induct)
  case (1 st depth lx)
  show ?case
    unfolding extglob_loop.simps [of st depth lx]
    by (intro scan_intros scan_ok_fail scan_ok_Ok)
      (blast intro: "1" ahead_advance ahead_backslash scan_ok_ahead)+
qed

lemma consume_identifier_ahead: "ahead lx (consume_identifier lx)"
proof (induction lx rule: consume_identifier.induct)
  case (1 lx)
  show ?case
    unfolding consume_identifier.simps [of lx]
    by (intro ahead_option ahead_if ahead_refl) (rule ahead_next(1), assumption, rule "1")
qed

lemma close_paren_ahead:
  "peek lx = Some c \<Longrightarrow> arithmetic_close_paren p d lx = (lx', t) \<Longrightarrow> ahead lx lx'"
  using ahead_advance [of lx c] ahead_advance2 [of lx]
  by (auto simp: arithmetic_close_paren_def split: if_splits)

text \<open>Entering and leaving one level of substitution.\<close>

lemma scan_ok_subst:
  assumes "scan_ok lx2 r" "lx2 = lx1\<lparr>subst_depth := subst_depth lx1 + 1\<rparr>"
    and "subst_depth lx1 < MAX_LEX_DEPTH"
  shows "scan_ok lx1 (exit_subst (fst r), snd r)"
proof -
  have s: "unat (subst_depth lx1 + 1) = Suc (unat (subst_depth lx1))"
    using assms(3) by (rule unat_Suc_less)
  have "sat_sub (subst_depth lx1 + 1) 1 = subst_depth lx1"
    using s by (simp add: sat_sub_def word_less_nat_alt)
  then show ?thesis using assms(1,2) by (auto simp: scan_ok_def exit_subst_def)
qed

lemma enter_subst_cases:
  "(\<exists>e. enter_subst lx = (lx, Err e)) \<or>
   (subst_depth lx < MAX_LEX_DEPTH \<and>
    enter_subst lx = (lx\<lparr>subst_depth := subst_depth lx + 1\<rparr>, Ok (subst_depth lx + 1)))"
  by (auto simp: enter_subst_def lex_fail_def Let_def not_le)

lemma scanners_ok:
  "scan_ok lx (double_quoted_loop st lx)"
  "peek lx1 = Some c1 \<Longrightarrow> scan_fwd lx1 (consume_dollar lx1)"
  "peek lx2 = Some c2 \<Longrightarrow> scan_ok lx2 (consume_dollar_paren lx2)"
  "scan_ok lx3 (command_subst_loop st3 d3 lx3)"
  "scan_ok lx4 (arithmetic_loop st4 p4 d4 lx4)"
  "scan_ok lx5 (brace_param_loop st5 d5 lx5)"
proof (induction st lx and lx1 and lx2 and st3 d3 lx3 and st4 p4 d4 lx4 and st5 d5 lx5 arbitrary: and c1 and c2
    rule: double_quoted_loop_consume_dollar_consume_dollar_paren_command_subst_loop_arithmetic_loop_brace_param_loop.induct)
  case (1 st lx)
  show ?case
    unfolding double_quoted_loop.simps [of st lx]
    by (intro scan_intros scan_ok_fail scan_ok_Ok scan_ok_then)
      (blast intro: "1" ahead_advance ahead_backslash scan_ok_ahead consume_backtick_fwd)+
next
  case (2 lx0)
  have "scan_ok (advance 1 lx0) (consume_dollar lx0)"
    unfolding consume_dollar.simps [of lx0] Let_def
    by (intro scan_intros scan_ok_Ok ahead_refl consume_identifier_ahead)
      (blast intro: "2"(1) "2"(2) ahead_advance scan_ok_ahead consume_single_quoted_fwd scan_fwd_ok)+
  then show ?case using "2.prems" by (rule scan_fwd_advance [rotated])
next
  case (3 lx0)
  let ?lx1 = "advance 1 lx0"
  have "scan_ok ?lx1 (consume_dollar_paren lx0)"
  proof (cases "subst_depth ?lx1 < MAX_LEX_DEPTH")
    case True
    let ?lx2 = "?lx1\<lparr>subst_depth := subst_depth ?lx1 + 1\<rparr>"
    let ?r = "if peek ?lx2 = Some CHR ''('' then
        (let lx = advance 1 ?lx2 in arithmetic_loop (pos lx - 3) 0 1 lx)
      else command_subst_loop (pos ?lx2 - 2) 1 ?lx2"
    have e: "enter_subst ?lx1 = (?lx2, Ok (subst_depth ?lx1 + 1))"
      using True leD by (auto simp: enter_subst_def Let_def)
    have "scan_ok ?lx2 ?r"
      unfolding Let_def
      by (intro scan_intros) (use "3.IH"(1,2) e in \<open>auto intro: scan_ok_ahead ahead_advance\<close>)
    then have "scan_ok ?lx1 (exit_subst (fst ?r), snd ?r)" using True by (rule scan_ok_subst [OF _ refl])
    then show ?thesis
      unfolding consume_dollar_paren.simps [of lx0] Let_def
      by (simp only: e prod.case result.case) (simp only: split_def fst_conv snd_conv)
  next
    case False
    then obtain err where e: "enter_subst ?lx1 = (?lx1, Err err)" using enter_subst_cases by blast
    show ?thesis
      unfolding consume_dollar_paren.simps [of lx0] Let_def
      by (simp only: e prod.case result.case) (simp add: scan_ok_def)
  qed
  then show ?case by (rule scan_ok_ahead [OF ahead_advance [OF "3.prems"]])
next
  case (4 st depth lx)
  show ?case
    unfolding command_subst_loop.simps [of st depth lx]
    by (intro scan_intros scan_ok_fail scan_ok_Ok scan_ok_then)
      (((rule scan_step, assumption)?, rule "4" consume_single_quoted_fwd consume_backtick_fwd
          ahead_advance; (assumption | rule refl))
        | (rule scan_fwd_advance, assumption, rule "4"; assumption))+
next
  case (5 st paren_depth dbl_depth lx)
  show ?case
    unfolding arithmetic_loop.simps [of st paren_depth dbl_depth lx] Let_def
    by (intro scan_intros scan_ok_prod scan_ok_fail scan_ok_Ok scan_ok_then)
      ((((rule scan_step, assumption)+)?, rule "5" consume_single_quoted_fwd close_paren_ahead;
          (assumption | rule refl))
        | (rule scan_fwd_advance, assumption, rule "5"; assumption)
        | (rule scan_ok_ahead, rule close_paren_ahead, assumption, assumption,
           rule "5"; (assumption | rule refl | erule sym)))+
next
  case (6 st depth lx)
  show ?case
    unfolding brace_param_loop.simps [of st depth lx]
    by (intro scan_intros scan_ok_fail scan_ok_Ok scan_ok_then)
      (((rule scan_step, assumption)?, rule "6" consume_single_quoted_fwd consume_backtick_fwd
          ahead_advance; (assumption | rule refl))
        | (rule scan_fwd_advance, assumption, rule "6"; assumption))+
qed

lemma consume_double_quoted_fwd: "peek lx = Some c \<Longrightarrow> scan_fwd lx (consume_double_quoted lx)"
  unfolding consume_double_quoted_def by (rule scan_fwd_advance [OF _ scanners_ok(1)])

lemma peek_advance: "peek (advance 1 lx) = peek_ahead lx 1"
  by (simp add: peek_def peek_ahead_def advance_def)

lemma consume_extglob_fwd:
  assumes "peek_ahead lx 1 = Some c"
  shows "scan_fwd lx (consume_extglob lx)"
  using scan_ok_ahead [OF ahead_advance2 [OF assms] extglob_loop_ok]
    extglob_loop_ok [of "advance 2 lx" "pos lx" 1]
  by (auto simp: consume_extglob_def scan_fwd_def scan_ok_def advance_def)

lemma scan_fwd_if: "(b \<Longrightarrow> scan_fwd lx x) \<Longrightarrow> (\<not> b \<Longrightarrow> scan_fwd lx y) \<Longrightarrow> scan_fwd lx (if b then x else y)"
  by simp

lemma scan_fwd_Ok: "ahead lx lx' \<Longrightarrow> pos lx < pos lx' \<Longrightarrow> scan_fwd lx (lx', Ok x)"
  by (simp add: scan_fwd_def scan_ok_Ok)

lemma consume_word_plain_fwd: "peek lx = Some c \<Longrightarrow> scan_fwd lx (consume_word_plain lx)"
  by (auto simp: consume_word_plain_def advance_def
      intro!: scan_fwd_if consume_extglob_fwd scan_fwd_Ok
      dest!: ahead_advance)

lemma consume_word_dollar_fwd: "peek lx = Some c \<Longrightarrow> scan_fwd lx (consume_word_dollar lx)"
proof (unfold consume_word_dollar_def, rule scan_fwd_if)
  assume "peek lx = Some c" "peek_ahead lx 1 = Some ch_dquote \<and> peek_ahead lx 2 \<noteq> Some CHR ''(''"
  then show "scan_fwd lx (consume_double_quoted (advance 1 lx))"
    unfolding peek_advance [symmetric]
    by (blast intro: scan_fwd_advance scan_fwd_ok consume_double_quoted_fwd)
qed (rule scanners_ok(2))

lemma read_word_part_fwd: "peek lx = Some c \<Longrightarrow> scan_fwd lx (read_word_part lx c)"
  unfolding read_word_part_def
  by (intro scan_fwd_if)
    (blast intro: consume_single_quoted_fwd consume_double_quoted_fwd consume_backtick_fwd
      scan_fwd_Ok ahead_backslash pos_consume_backslash consume_word_dollar_fwd
      consume_word_plain_fwd)+

lemma read_word_loop_ok: "scan_ok lx (read_word_loop lx)"
proof (induction lx rule: read_word_loop.induct)
  case (1 lx)
  show ?case
    unfolding read_word_loop.simps [of lx]
    by (intro scan_intros scan_ok_Ok ahead_refl scan_ok_then)
      (rule read_word_part_fwd "1"; (assumption | rule refl))+
qed

text \<open>A word that was read ends at the end of the source or at a word break.\<close>

definition at_break :: "lexer \<Rightarrow> bool" where
  "at_break lx \<longleftrightarrow> (case peek lx of None \<Rightarrow> True | Some c \<Rightarrow> is_word_break c)"

lemma read_word_loop_end: "snd (read_word_loop lx) = Ok u \<Longrightarrow> at_break (fst (read_word_loop lx))"
proof (induction lx rule: read_word_loop.induct)
  case (1 lx)
  show ?case
  proof (cases "at_break lx")
    case True
    then show ?thesis
      by (subst read_word_loop.simps) (auto simp: at_break_def split: option.splits)
  next
    case False
    then obtain c where c: "peek lx = Some c" "\<not> is_word_break c"
      by (auto simp: at_break_def split: option.splits)
    then have eq: "read_word_loop lx = then_scan lx (read_word_part lx c) read_word_loop"
      by (subst read_word_loop.simps) simp
    then have "snd (read_word_part lx c) = Ok ()" "moved lx (fst (read_word_part lx c))"
      "read_word_loop lx = read_word_loop (fst (read_word_part lx c))"
      using "1.prems" by (auto simp: then_scan_def split: result.splits if_splits)
    then show ?thesis using "1.IH" [OF c _ refl] "1.prems" by metis
  qed
qed

lemma read_word_loop_progress:
  assumes "peek lx = Some c" "\<not> is_word_break c"
  shows "scan_fwd lx (read_word_loop lx)"
proof -
  have eq: "read_word_loop lx = then_scan lx (read_word_part lx c) read_word_loop"
    using assms by (subst read_word_loop.simps) simp
  let ?r = "read_word_part lx c"
  have fwd: "scan_fwd lx ?r" using assms(1) by (rule read_word_part_fwd)
  have "pos lx < pos (fst (read_word_loop lx))" if "snd (read_word_loop lx) = Ok u" for u
    using that fwd read_word_loop_ok [of "fst ?r"] unfolding eq
    by (auto simp: then_scan_def scan_fwd_def scan_ok_def split: result.splits if_splits)
  then show ?thesis using read_word_loop_ok [of lx] by (auto simp: scan_fwd_def)
qed

section \<open>What lies between tokens\<close>

text \<open>
  The text from position \<open>i\<close> to \<open>j\<close> is made of blanks, line continuations and comments.
\<close>

inductive gap :: "string \<Rightarrow> nat \<Rightarrow> nat \<Rightarrow> bool" for s where
  gap_refl: "gap s i i"
| gap_blank: "i < length s \<Longrightarrow> s ! i = CHR '' '' \<or> s ! i = ch_tab \<Longrightarrow> gap s (i + 1) j \<Longrightarrow> gap s i j"
| gap_cont: "i + 1 < length s \<Longrightarrow> s ! i = ch_backslash \<Longrightarrow> s ! (i + 1) = ch_newline \<Longrightarrow>
    gap s (i + 2) j \<Longrightarrow> gap s i j"
| gap_cont_cr: "i + 2 < length s \<Longrightarrow> s ! i = ch_backslash \<Longrightarrow> s ! (i + 1) = ch_return \<Longrightarrow>
    s ! (i + 2) = ch_newline \<Longrightarrow> gap s (i + 3) j \<Longrightarrow> gap s i j"
| gap_comment: "i < k \<Longrightarrow> k \<le> length s \<Longrightarrow> s ! i = CHR ''#'' \<Longrightarrow>
    (\<And>m. i \<le> m \<Longrightarrow> m < k \<Longrightarrow> s ! m \<noteq> ch_newline) \<Longrightarrow>
    k = length s \<or> s ! k = ch_newline \<Longrightarrow> gap s k j \<Longrightarrow> gap s i j"

lemma gap_trans: "gap s i j \<Longrightarrow> gap s j k \<Longrightarrow> gap s i k"
  by (induction rule: gap.induct) (blast intro: gap.intros)+

lemma gap_boundary:
  "gap s i j \<Longrightarrow> valid_utf8 s \<Longrightarrow> is_char_boundary s i \<Longrightarrow> is_char_boundary s j"
proof (induction rule: gap.induct)
  case (gap_blank i j)
  then show ?case using boundary_after_ascii [of s i] by (auto simp: byte_in_def)
next
  case (gap_cont i j)
  then show ?case using boundary_after_ascii [of s "i + 1"] by (auto simp: byte_in_def)
next
  case (gap_cont_cr i j)
  then show ?case
    using boundary_after_ascii [of s "i + 2"] by (auto simp: byte_in_def eval_nat_numeral)
next
  case (gap_comment i k j)
  have "is_char_boundary s k"
  proof (cases "k = length s")
    case False
    then show ?thesis using gap_comment by (auto simp: byte_in_def intro!: boundary_at_ascii)
  qed (simp add: is_char_boundary_def)
  then show ?case using gap_comment by blast
qed

definition gap_to :: "lexer \<Rightarrow> lexer \<Rightarrow> bool" where
  "gap_to lx lx' \<longleftrightarrow> gap (source lx) (pos lx) (pos lx')"

lemma gap_to_if: "(b \<Longrightarrow> gap_to lx x) \<Longrightarrow> (\<not> b \<Longrightarrow> gap_to lx y) \<Longrightarrow> gap_to lx (if b then x else y)"
  by simp

lemma gap_to_option:
  "(m = None \<Longrightarrow> gap_to lx x) \<Longrightarrow> (\<And>c. m = Some c \<Longrightarrow> gap_to lx (g c)) \<Longrightarrow>
   gap_to lx (case m of None \<Rightarrow> x | Some c \<Rightarrow> g c)"
  by (cases m) simp_all

lemma gap_to_refl: "gap_to lx lx"
  by (simp add: gap_to_def gap_refl)

lemma gap_to_blank:
  "peek lx = Some c \<Longrightarrow> c = CHR '' '' \<or> c = ch_tab \<Longrightarrow> gap_to (advance 1 lx) lx' \<Longrightarrow> gap_to lx lx'"
  unfolding gap_to_def by (rule gap_blank) (auto simp: peek_Some advance_def)

lemma gap_to_cont:
  "peek lx = Some c \<Longrightarrow> c = ch_backslash \<and> peek_ahead lx 1 = Some ch_newline \<Longrightarrow>
   gap_to (advance 2 lx) lx' \<Longrightarrow> gap_to lx lx'"
  unfolding gap_to_def
  by (rule gap_cont) (auto simp: peek_Some peek_ahead_def advance_def split: if_splits)

lemma gap_to_cont_cr:
  "peek lx = Some c \<Longrightarrow> c = ch_backslash \<and> peek_ahead lx 1 = Some ch_return \<and>
     peek_ahead lx 2 = Some ch_newline \<Longrightarrow> gap_to (advance 3 lx) lx' \<Longrightarrow> gap_to lx lx'"
  unfolding gap_to_def
  by (rule gap_cont_cr) (auto simp: peek_Some peek_ahead_def advance_def split: if_splits)

lemma gap_skip_blanks: "gap_to lx (skip_blanks lx)"
proof (induction lx rule: skip_blanks.induct)
  case (1 lx)
  show ?case
    unfolding skip_blanks.simps [of lx]
    by (intro gap_to_option gap_to_if gap_to_refl)
      (rule gap_to_blank gap_to_cont gap_to_cont_cr, assumption, assumption, rule "1"; assumption)+
qed

text \<open>A comment is scanned up to the newline or the end.\<close>

lemma consume_comment_text:
  "pos lx \<le> length (source lx) \<Longrightarrow>
   pos (consume_comment lx) \<le> length (source lx) \<and>
   (\<forall>m. pos lx \<le> m \<and> m < pos (consume_comment lx) \<longrightarrow> source lx ! m \<noteq> ch_newline) \<and>
   (pos (consume_comment lx) = length (source lx) \<or>
    source lx ! pos (consume_comment lx) = ch_newline)"
proof (induction lx rule: consume_comment.induct)
  case (1 lx)
  show ?case
  proof (cases "\<exists>c. peek lx = Some c \<and> c \<noteq> ch_newline")
    case True
    then obtain c where c: "peek lx = Some c" "c \<noteq> ch_newline" by blast
    then have eq: "consume_comment lx = consume_comment (advance 1 lx)"
      by (subst consume_comment.simps) simp
    have l: "pos lx < length (source lx)" "source lx ! pos lx \<noteq> ch_newline"
      using c by (auto simp: peek_Some)
    have a: "source (advance 1 lx) = source lx" "pos (advance 1 lx) = Suc (pos lx)"
      by (simp_all add: advance_def)
    have "source lx ! m \<noteq> ch_newline" if "pos lx \<le> m" "m < pos (consume_comment (advance 1 lx))" for m
      using "1.IH" [OF c] l a that by (cases "m = pos lx") auto
    then show ?thesis using "1.IH" [OF c] l a unfolding eq by auto
  next
    case False
    then have "consume_comment lx = lx"
      by (subst consume_comment.simps) (auto split: option.splits)
    then show ?thesis using False "1.prems" by (auto simp: peek_def split: if_splits)
  qed
qed

lemma gap_to_comment:
  assumes "peek lx = Some CHR ''#''" "gap_to (consume_comment lx) lx'"
  shows "gap_to lx lx'"
proof -
  have "pos lx < pos (consume_comment lx)"
    using consume_comment_progress [OF assms(1)] by (simp add: remaining_def)
  then show ?thesis
    using assms consume_comment_text [of lx] unfolding gap_to_def
    by (intro gap_comment [of "pos lx" "pos (consume_comment lx)"]) (auto simp: peek_Some)
qed

section \<open>Tokens\<close>

definition tok_ok :: "lexer \<Rightarrow> token lex_result \<Rightarrow> bool" where
  "tok_ok lx r \<longleftrightarrow> scan_ok lx r \<and>
     (\<forall>t. snd r = Ok t \<longrightarrow> tok_kind t \<noteq> Eof \<and> tok_span t = span_from (fst r) (pos lx) \<and>
        pos lx < pos (fst r) \<and> is_char_boundary (source lx) (pos (fst r)))"

lemma tok_ok_if: "(b \<Longrightarrow> tok_ok lx x) \<Longrightarrow> (\<not> b \<Longrightarrow> tok_ok lx y) \<Longrightarrow> tok_ok lx (if b then x else y)"
  by simp

lemma ok_token_if: "ok_token (if b then x else y) = (if b then ok_token x else ok_token y)"
  by simp

text \<open>An operator of \<open>n + 1\<close> bytes, the last of which is ASCII.\<close>

lemma op_token_ok:
  assumes "valid_utf8 (source lx)" "peek_ahead lx n = Some c" "is_ascii c" "kind \<noteq> Eof"
  shows "tok_ok lx (ok_token (op_token (Suc n) kind lx))"
proof -
  have "pos lx + n < length (source lx)" "source lx ! (pos lx + n) = c"
    using assms(2) by (auto simp: peek_ahead_def split: if_splits)
  then show ?thesis
    using boundary_after_ascii [OF assms(1), of "pos lx + n"] assms(3,4)
    by (simp add: tok_ok_def scan_ok_def ok_token_def op_token_def advance_def Let_def)
qed

lemma single_op_ok:
  assumes "valid_utf8 (source lx)" "peek lx = Some c" "is_ascii c" "kind \<noteq> Eof"
  shows "tok_ok lx (ok_token (single_op kind lx))"
proof -
  have "peek_ahead lx 0 = Some c" using assms(2) by (simp add: peek_def peek_ahead_def split: if_splits)
  from op_token_ok [OF assms(1) this assms(3,4)] show ?thesis by (simp add: single_op_def)
qed

lemma double_op_ok:
  assumes "valid_utf8 (source lx)" "peek_ahead lx 1 = Some c" "is_ascii c" "kind \<noteq> Eof"
  shows "tok_ok lx (ok_token (double_op kind lx))"
  using op_token_ok [OF assms] by (simp add: double_op_def numeral_2_eq_2)

lemma triple_op_ok:
  assumes "valid_utf8 (source lx)" "peek_ahead lx 2 = Some c" "is_ascii c" "kind \<noteq> Eof"
  shows "tok_ok lx (ok_token (triple_op kind lx))"
  using op_token_ok [OF assms] by (simp add: triple_op_def numeral_3_eq_3 numeral_2_eq_2)

lemma ascii_ops: "c \<in> set ''&|<>();-#'' \<or> c = ch_newline \<or> c = ch_tab \<or> c = CHR '' '' \<Longrightarrow> is_ascii c"
  by (auto simp: byte_in_def)

lemmas op_tokens = single_op_ok double_op_ok triple_op_ok

lemma amp_token_ok:
  assumes "valid_utf8 (source lx)" "peek lx = Some CHR ''&''"
  shows "tok_ok lx (ok_token (amp_token lx))"
  using assms
  by (auto simp: amp_token_def byte_in_def simp del: One_nat_def intro: op_tokens)

lemma pipe_token_ok:
  assumes "valid_utf8 (source lx)" "peek lx = Some CHR ''|''"
  shows "tok_ok lx (ok_token (pipe_token lx))"
  using assms
  by (auto simp: pipe_token_def byte_in_def simp del: One_nat_def intro: op_tokens)

text \<open>Process substitutions end just after a closing parenthesis.\<close>

definition subst_ok :: "nat \<Rightarrow> lexer \<Rightarrow> token lex_result \<Rightarrow> bool" where
  "subst_ok st lx r \<longleftrightarrow> scan_ok lx r \<and>
     (\<forall>t. snd r = Ok t \<longrightarrow> tok_kind t = Word False \<and> tok_span t = span_from (fst r) st \<and>
        pos lx < pos (fst r) \<and> source lx ! (pos (fst r) - 1) = CHR '')'')"

lemma subst_ok_if: "(b \<Longrightarrow> subst_ok st lx x) \<Longrightarrow> (\<not> b \<Longrightarrow> subst_ok st lx y) \<Longrightarrow> subst_ok st lx (if b then x else y)"
  by simp

lemma subst_ok_option:
  "(m = None \<Longrightarrow> subst_ok st lx x) \<Longrightarrow> (\<And>c. m = Some c \<Longrightarrow> subst_ok st lx (g c)) \<Longrightarrow>
   subst_ok st lx (case m of None \<Rightarrow> x | Some c \<Rightarrow> g c)"
  by (cases m) simp_all

lemma subst_ok_fail: "subst_ok st lx (lex_fail lx msg n)"
  by (simp add: subst_ok_def scan_ok_fail) (simp add: lex_fail_def)

lemma subst_ok_ahead: "ahead lx lx1 \<Longrightarrow> subst_ok st lx1 r \<Longrightarrow> subst_ok st lx r"
  using scan_ok_ahead [of lx lx1 r] ahead_frame [of lx lx1] by (auto simp: subst_ok_def)

lemma subst_ok_then:
  assumes "scan_fwd lx r" "snd r = Ok () \<Longrightarrow> moved lx (fst r) \<Longrightarrow> subst_ok st (fst r) (k (fst r))"
  shows "subst_ok st lx (then_scan lx r k)"
proof -
  have "scan_ok lx (then_scan lx r k)" using assms by (intro scan_ok_then) (auto simp: subst_ok_def)
  then show ?thesis
    using assms(2)
    by (auto simp: subst_ok_def then_scan_def moved_def split: result.splits if_splits)
qed

lemma subst_ok_close:
  assumes "peek lx = Some c" "c = CHR '')''"
  shows "subst_ok st lx (let lx' = advance 1 lx in
      (lx', Ok \<lparr>tok_kind = Word False, tok_span = span_from lx' st\<rparr>))"
  using assms scan_ok_Ok [OF ahead_advance [OF assms(1)]]
  by (auto simp: subst_ok_def Let_def advance_def peek_Some)

lemmas subst_step = subst_ok_ahead [OF ahead_advance] subst_ok_ahead [OF ahead_backslash]

lemma process_subst_loop_ok: "subst_ok st lx (process_subst_loop st depth lx)"
proof (induction st depth lx rule: process_subst_loop.induct)
  case (1 st depth lx)
  show ?case
    unfolding process_subst_loop.simps [of st depth lx]
    by (intro subst_ok_option subst_ok_if subst_ok_fail subst_ok_then)
      ((rule subst_ok_close; assumption)
        | ((rule subst_step, assumption)?, rule "1" consume_single_quoted_fwd consume_double_quoted_fwd
          scanners_ok(2); (assumption | rule refl)))+
qed

lemma consume_process_subst_ok:
  assumes "valid_utf8 (source lx)" "peek_ahead lx 1 = Some c"
  shows "tok_ok lx (consume_process_subst lx)"
proof -
  let ?r = "consume_process_subst lx"
  have p: "subst_ok (pos lx) (advance 2 lx) ?r"
    unfolding consume_process_subst_def by (rule process_subst_loop_ok)
  then have q: "subst_ok (pos lx) lx ?r" by (rule subst_ok_ahead [OF ahead_advance2 [OF assms(2)]])
  have "is_char_boundary (source lx) (pos (fst ?r))" if "snd ?r = Ok t" for t
  proof -
    have "pos lx < pos (fst ?r)" "source lx ! (pos (fst ?r) - 1) = CHR '')''"
      "pos (fst ?r) \<le> length (source lx)"
      using q that assms(2)
      by (auto simp: subst_ok_def scan_ok_def peek_ahead_def split: if_splits)
    then show ?thesis
      using boundary_after_ascii [OF assms(1), of "pos (fst ?r) - 1"] by (simp add: byte_in_def)
  qed
  then show ?thesis using q by (auto simp: subst_ok_def tok_ok_def)
qed

lemma greater_token_ok:
  assumes "valid_utf8 (source lx)" "peek lx = Some CHR ''>''"
  shows "tok_ok lx (greater_token lx)"
  using assms
  by (auto simp: greater_token_def byte_in_def simp del: One_nat_def
      intro: op_tokens consume_process_subst_ok)

lemma less_token_ok:
  assumes "valid_utf8 (source lx)" "peek lx = Some CHR ''<''"
  shows "tok_ok lx (less_token lx)"
  using assms
  by (auto simp: less_token_def byte_in_def simp del: One_nat_def
      intro: op_tokens consume_process_subst_ok)

lemma read_word_ok:
  assumes "valid_utf8 (source lx)" "is_char_boundary (source lx) (pos lx)"
    and "peek lx = Some c" "\<not> is_word_break c"
  shows "tok_ok lx (read_word lx)"
proof -
  let ?r = "read_word_loop lx"
  have fwd: "scan_fwd lx ?r" using assms(3,4) by (rule read_word_loop_progress)
  show ?thesis
  proof (cases "snd ?r")
    case (Ok u)
    have f: "source (fst ?r) = source lx" "pos lx < pos (fst ?r)" "pos (fst ?r) \<le> length (source lx)"
      using fwd Ok assms(3) by (auto simp: scan_fwd_def scan_ok_def peek_Some)
    have "is_char_boundary (source lx) (pos (fst ?r))"
      using read_word_loop_end [OF Ok] f ascii_ops
      by (auto simp: at_break_def peek_def is_word_break_def is_char_boundary_def
          dest!: not_cont_ascii split: if_splits)
    then have "\<exists>t. make_word_token (fst ?r) (source (fst ?r)) (pos lx) = Ok t \<and> tok_kind t \<noteq> Eof \<and>
        tok_span t = span_from (fst ?r) (pos lx)"
      using f assms(2)
      by (auto simp: make_word_token_def str_slice_def plain_word_token_kind_def Let_def)
    then show ?thesis
      using fwd f Ok assms(1) \<open>is_char_boundary (source lx) (pos (fst ?r))\<close>
      by (auto simp: read_word_def tok_ok_def scan_fwd_def scan_ok_def split_def)
  qed (use fwd assms(1) in \<open>auto simp: read_word_def tok_ok_def scan_fwd_def scan_ok_def split_def\<close>)
qed

section \<open>Whole sources\<close>

lemma skip_blanks_stops: "peek (skip_blanks lx) = Some c \<Longrightarrow> c \<noteq> CHR '' '' \<and> c \<noteq> ch_tab"
proof (induction lx rule: skip_blanks.induct)
  case (1 lx)
  show ?case
  proof (cases "skip_blanks lx = lx")
    case True
    then show ?thesis
      using "1.prems" "1.IH"(1) [of c] skip_blanks.simps [of lx] by (cases "c = CHR '' '' \<or> c = ch_tab") auto
  next
    case False
    then show ?thesis
      using "1" skip_blanks.simps [of lx] by (auto split: option.splits if_splits)
  qed
qed

definition ready :: "lexer \<Rightarrow> bool" where
  "ready lx \<longleftrightarrow> mode lx = Normal \<and> valid_utf8 (source lx) \<and> pos lx \<le> length (source lx) \<and>
     is_char_boundary (source lx) (pos lx)"

definition next_ok :: "lexer \<Rightarrow> token lex_result \<Rightarrow> bool" where
  "next_ok lx r \<longleftrightarrow>
     source (fst r) = source lx \<and> mode (fst r) = Normal \<and> pos lx \<le> pos (fst r) \<and>
     pos (fst r) \<le> length (source lx) \<and>
     subst_depth (fst r) = subst_depth lx \<and>
     (case snd r of
        Ok t \<Rightarrow> is_char_boundary (source lx) (pos (fst r)) \<and>
          (\<exists>st. gap (source lx) (pos lx) st \<and> tok_span t = span_from (fst r) st \<and>
             (if tok_kind t = Eof then st = length (source lx) \<and> pos (fst r) = st else st < pos (fst r)))
      | Err _ \<Rightarrow> True
      | Panic _ \<Rightarrow> False)"

lemma gap_le: "gap s i j \<Longrightarrow> i \<le> j"
  by (induction rule: gap.induct) auto

lemma next_ok_tok:
  assumes "ready lx" "ahead lx lx1" "gap_to lx lx1" "tok_ok lx1 r"
  shows "next_ok lx r"
proof -
  have "pos lx1 \<le> length (source lx)" using assms(1,2) by (auto simp: ahead_def ready_def)
  then show ?thesis
    using assms ahead_frame [OF assms(2)]
    by (auto simp: next_ok_def tok_ok_def scan_ok_def ready_def gap_to_def split: result.splits)
qed

lemma next_ok_shift:
  assumes "gap_to lx lx1" "source lx1 = source lx" "subst_depth lx1 = subst_depth lx" "next_ok lx1 r"
  shows "next_ok lx r"
  using assms gap_le [of "source lx" "pos lx" "pos lx1"]
  by (auto simp: next_ok_def gap_to_def split: result.splits dest: gap_trans)

lemma next_normal_token_ok: "ready lx \<Longrightarrow> next_ok lx (next_normal_token lx)"
proof (induction "remaining lx" arbitrary: lx rule: less_induct)
  case less
  let ?lx1 = "skip_blanks lx"
  note a = skip_blanks_ahead [of lx] and g = gap_skip_blanks [of lx]
  have v: "valid_utf8 (source ?lx1)" "is_char_boundary (source ?lx1) (pos ?lx1)"
    "pos ?lx1 \<le> length (source lx)"
    using less.prems g a by (auto simp: ready_def gap_to_def ahead_def intro: gap_boundary)
  note tok = next_ok_tok [OF less.prems a g]
  show ?case
  proof (cases "peek ?lx1")
    case None
    then have "pos ?lx1 = length (source lx)" using v(3) by (simp add: peek_def split: if_splits)
    then show ?thesis
      using None v(2) less.prems g
      by (subst next_normal_token.simps)
        (auto simp: next_ok_def ready_def gap_to_def Let_def intro!: exI [of _ "length (source lx)"])
  next
    case (Some b)
    show ?thesis
    proof (cases "b = CHR ''#''")
      case True
      let ?lx2 = "(consume_comment (?lx1\<lparr>mode := Comment\<rparr>))\<lparr>mode := Normal\<rparr>"
      have eq: "next_normal_token lx = next_normal_token ?lx2"
        using Some True by (subst next_normal_token.simps) (simp add: Let_def next_token.simps)
      have p: "peek (?lx1\<lparr>mode := Comment\<rparr>) = Some CHR ''#''" using Some True by simp
      have "gap_to (?lx1\<lparr>mode := Comment\<rparr>) ?lx2"
        by (rule gap_to_comment [OF p]) (simp add: gap_to_def gap_refl)
      then have g2: "gap_to lx ?lx2" using g by (auto simp: gap_to_def intro: gap_trans)
      have "ready ?lx2"
        using consume_comment_text [of "?lx1\<lparr>mode := Comment\<rparr>"] v g2 less.prems
        by (auto simp: ready_def gap_to_def intro: gap_boundary)
      moreover have "remaining ?lx2 < remaining lx"
        using comment_after_blanks [of lx Comment] Some True by simp
      ultimately have "next_ok ?lx2 (next_normal_token ?lx2)" using less.hyps by blast
      then show ?thesis unfolding eq by (intro next_ok_shift [OF g2]) simp_all
    next
      case False
      have nb: "b \<noteq> CHR '' ''" "b \<noteq> ch_tab" using skip_blanks_stops [OF Some] by simp_all
      have "tok_ok ?lx1 (next_normal_token lx)"
        unfolding next_normal_token.simps [of lx] Let_def Some option.case
        by (intro tok_ok_if)
          ((rule single_op_ok [OF v(1) Some], simp add: byte_in_def, simp)
            | (rule notE [OF False], assumption)
            | (rule amp_token_ok pipe_token_ok greater_token_ok less_token_ok, rule v(1), simp add: Some)
            | (rule read_word_ok [OF v(1,2) Some], use nb in \<open>simp add: is_word_break_def\<close>))+
      then show ?thesis by (rule tok)
    qed
  qed
qed

text \<open>
  The tokens of a source, from position \<open>i\<close>: in order, not empty, and with nothing but
  blanks, line continuations and comments before, between and after them.
\<close>

fun covers :: "string \<Rightarrow> nat \<Rightarrow> token list \<Rightarrow> bool" where
  "covers s i [] = gap s i (length s)"
| "covers s i (t # ts) =
     (let b = unat (span_start (tok_span t)); e = unat (span_end (tok_span t))
      in gap s i b \<and> b < e \<and> e \<le> length s \<and> covers s e ts)"

lemma tokenize_loop_covers:
  assumes "ready lx" "length (source lx) < 2 ^ 32"
  shows "case snd (tokenize_loop toks lx) of
      Ok ts \<Rightarrow> \<exists>new. ts = toks @ new \<and> covers (source lx) (pos lx) new
    | Err e \<Rightarrow> True
    | Panic m \<Rightarrow> False"
  using assms
proof (induction toks lx rule: tokenize_loop.induct)
  case (1 toks lx)
  obtain lx' r where n: "next_token lx = (lx', r)" by (cases "next_token lx")
  have "next_ok lx (next_token lx)"
    using "1.prems"(1) next_normal_token_ok by (simp add: next_token.simps ready_def)
  then have ok: "next_ok lx (lx', r)" by (simp add: n)
  show ?case
  proof (cases r)
    case (Ok t)
    then obtain st where st: "gap (source lx) (pos lx) st" "tok_span t = span_from lx' st"
      "if tok_kind t = Eof then st = length (source lx) \<and> pos lx' = st else st < pos lx'"
      and lx': "source lx' = source lx" "mode lx' = Normal" "pos lx' \<le> length (source lx)"
        "is_char_boundary (source lx) (pos lx')"
      using ok [unfolded next_ok_def fst_conv snd_conv] by auto
    show ?thesis
    proof (cases "tok_kind t = Eof")
      case True
      then show ?thesis using n Ok st by (subst tokenize_loop.simps) simp
    next
      case False
      have r': "ready lx'" using "1.prems"(1) lx' by (simp add: ready_def)
      have rem: "remaining lx' < remaining lx"
        using st False lx' gap_le [OF st(1)] by (simp add: remaining_def)
      have u: "unat (of_nat st :: u32) = st" "unat (of_nat (pos lx') :: u32) = pos lx'"
        using st(3) False lx'(3) "1.prems"(2) by (auto intro!: unat_of_nat_less)
      have "tokenize_loop toks lx = tokenize_loop (toks @ [t]) lx'"
        using n Ok False rem by (subst tokenize_loop.simps) simp
      moreover have "case snd (tokenize_loop (toks @ [t]) lx') of
          Ok ts \<Rightarrow> \<exists>new. ts = (toks @ [t]) @ new \<and> covers (source lx') (pos lx') new
        | Err e \<Rightarrow> True | Panic m \<Rightarrow> False"
        using "1.IH" n Ok False rem r' "1.prems"(2) lx'(1) by simp
      ultimately show ?thesis
        using st u False lx' by (auto simp: span_from_def Let_def split: result.splits)
    qed
  next
    case (Err e)
    then show ?thesis using n by (subst tokenize_loop.simps) simp
  next
    case (Panic m)
    then show ?thesis using ok by (simp add: next_ok_def)
  qed
qed

text \<open>
  C2 (lexing is total and loses nothing): every valid source shorter than 4 GiB is tokenized
  without a panic; when there is no error, the tokens are in order and do not overlap, and
  everything outside them is blanks, line continuations and comments.
\<close>

theorem tokenize_lossless:
  assumes "valid_utf8 s" "length s < 2 ^ 32"
  shows "case tokenize s of Ok ts \<Rightarrow> covers s 0 ts | Err e \<Rightarrow> True | Panic m \<Rightarrow> False"
proof -
  have "ready (lexer_new s)"
    using assms(1) by (simp add: ready_def lexer_new_def is_char_boundary_def)
  from tokenize_loop_covers [OF this, of "[]"] show ?thesis
    using assms(2) by (simp add: tokenize_def tokenize_all_def lexer_new_def split: result.splits)
qed

theorem tokenize_lossless_witness:
  "case tokenize ''a; b #c'' of Ok ts \<Rightarrow> covers ''a; b #c'' 0 ts \<and> length ts = 3 | _ \<Rightarrow> False"
proof -
  have "case tokenize ''a; b #c'' of Ok ts \<Rightarrow> length ts = 3 | _ \<Rightarrow> False" by code_simp
  then show ?thesis
    using tokenize_lossless [of "''a; b #c''"] by (auto simp: byte_in_def split: result.splits)
qed

end
