(* ===== verification/Lexer_Stops.thy ===== *)
theory Lexer_Stops
  imports Lexer_Props
begin

text \<open>
  Where an error leaves the lexer: at the end of the source or just after an opening
  parenthesis, so at a character boundary.  With the guarantees of \<^verbatim>\<open>Lexer_Props\<close> this gives
  the contract of \<open>next_token\<close> that the parser relies on, which asks for tokens also after an error.
\<close>

section \<open>Errors\<close>

definition stopped :: "lexer \<Rightarrow> bool" where
  "stopped lx \<longleftrightarrow> peek lx = None \<or> (\<exists>i. pos lx = Suc i \<and> i < length (source lx) \<and> source lx ! i = CHR ''('')"

definition stops :: "'a lex_result \<Rightarrow> bool" where
  "stops r \<longleftrightarrow> (\<forall>e. snd r = Err e \<longrightarrow> stopped (fst r))"

lemma stops_if: "(b \<Longrightarrow> stops x) \<Longrightarrow> (\<not> b \<Longrightarrow> stops y) \<Longrightarrow> stops (if b then x else y)"
  by simp

lemma stops_option:
  "(m = None \<Longrightarrow> stops x) \<Longrightarrow> (\<And>c. m = Some c \<Longrightarrow> stops (g c)) \<Longrightarrow> stops (case m of None \<Rightarrow> x | Some c \<Rightarrow> g c)"
  by (cases m) simp_all

lemma stops_prod:
  "(\<And>a b c d. t = (a, b, c, d) \<Longrightarrow> stops (f a b c d)) \<Longrightarrow> stops (case t of (a, b, c, d) \<Rightarrow> f a b c d)"
  by (cases t) simp

lemma stops_fail: "peek lx = None \<Longrightarrow> stops (lex_fail lx msg st)"
  by (simp add: stops_def lex_fail_def stopped_def)

lemma stops_Ok: "stops (lx, Ok x)"
  by (simp add: stops_def)

lemma stops_ok_token: "stops (ok_token r)"
  by (simp add: stops_def ok_token_def)

lemma stops_then:
  "stops r \<Longrightarrow> (snd r = Ok () \<Longrightarrow> moved lx (fst r) \<Longrightarrow> stops (k (fst r))) \<Longrightarrow> stops (then_scan lx r k)"
  by (auto simp: stops_def then_scan_def split: result.splits)

lemma stops_exit: "stops r \<Longrightarrow> stops (exit_subst (fst r), snd r)"
  by (auto simp: stops_def stopped_def exit_subst_def peek_def)

lemmas stops_intros = stops_if stops_option stops_fail stops_Ok stops_then stops_prod

lemma single_quoted_loop_stops: "stops (single_quoted_loop st lx)"
proof (induction st lx rule: single_quoted_loop.induct)
  case (1 st lx)
  show ?case unfolding single_quoted_loop.simps [of st lx] by (intro stops_intros) (blast intro: "1" | simp add: "1")+
qed

lemma backtick_loop_stops: "stops (backtick_loop st lx)"
proof (induction st lx rule: backtick_loop.induct)
  case (1 st lx)
  show ?case unfolding backtick_loop.simps [of st lx] by (intro stops_intros) (blast intro: "1" | simp add: "1")+
qed

lemma extglob_loop_stops: "stops (extglob_loop st depth lx)"
proof (induction st depth lx rule: extglob_loop.induct)
  case (1 st depth lx)
  show ?case unfolding extglob_loop.simps [of st depth lx] by (intro stops_intros) (blast intro: "1" | simp add: "1")+
qed

lemmas quoted_stops =
  single_quoted_loop_stops [of "pos lx" "advance 1 lx" for lx, folded consume_single_quoted_def]
  backtick_loop_stops [of "pos lx" "advance 1 lx" for lx, folded consume_backtick_def]
  extglob_loop_stops [of "pos lx" 1 "advance 2 lx" for lx, folded consume_extglob_def]

lemma enter_subst_stops:
  assumes "peek lx = Some CHR ''(''" "enter_subst (advance 1 lx) = (lx2, Err e)"
  shows "stopped lx2"
  using assms by (auto simp: enter_subst_def lex_fail_def Let_def stopped_def advance_def peek_Some split: if_splits)

lemma scanners_stop:
  "stops (double_quoted_loop st lx)"
  "stops (consume_dollar lx1)"
  "peek lx2 = Some CHR ''('' \<Longrightarrow> stops (consume_dollar_paren lx2)"
  "stops (command_subst_loop st3 d3 lx3)"
  "stops (arithmetic_loop st4 p4 d4 lx4)"
  "stops (brace_param_loop st5 d5 lx5)"
proof (induction st lx and lx1 and lx2 and st3 d3 lx3 and st4 p4 d4 lx4 and st5 d5 lx5
    rule: double_quoted_loop_consume_dollar_consume_dollar_paren_command_subst_loop_arithmetic_loop_brace_param_loop.induct)
  case (1 st lx)
  show ?case
    unfolding double_quoted_loop.simps [of st lx]
    by (intro stops_intros quoted_stops) (blast intro: "1" | simp add: "1")+
next
  case (2 lx0)
  show ?case
    unfolding consume_dollar.simps [of lx0] Let_def
    by (intro stops_intros quoted_stops) (blast intro: "2" | simp add: "2")+
next
  case (3 lx0)
  let ?lx1 = "advance 1 lx0"
  show ?case
  proof (cases "subst_depth ?lx1 < MAX_LEX_DEPTH")
    case True
    let ?lx2 = "?lx1\<lparr>subst_depth := subst_depth ?lx1 + 1\<rparr>"
    let ?r = "if peek ?lx2 = Some CHR ''('' then
        (let lx = advance 1 ?lx2 in arithmetic_loop (pos lx - 3) 0 1 lx)
      else command_subst_loop (pos ?lx2 - 2) 1 ?lx2"
    have e: "enter_subst ?lx1 = (?lx2, Ok (subst_depth ?lx1 + 1))"
      using True leD by (auto simp: enter_subst_def Let_def)
    have "stops ?r" unfolding Let_def by (intro stops_intros) (use "3.IH"(1,2) e in auto)
    then have "stops (exit_subst (fst ?r), snd ?r)" by (rule stops_exit)
    then show ?thesis
      unfolding consume_dollar_paren.simps [of lx0] Let_def
      by (simp only: e prod.case result.case) (simp only: split_def fst_conv snd_conv)
  next
    case False
    then obtain err where e: "enter_subst ?lx1 = (?lx1, Err err)" using enter_subst_cases by blast
    show ?thesis
      unfolding consume_dollar_paren.simps [of lx0] Let_def
      using enter_subst_stops [OF "3.prems" e] by (simp only: e prod.case result.case) (simp add: stops_def)
  qed
next
  case (4 st depth lx)
  show ?case
    unfolding command_subst_loop.simps [of st depth lx]
    by (intro stops_intros quoted_stops) (blast intro: "4" | simp add: "4")+
next
  case (5 st paren_depth dbl_depth lx)
  show ?case
    unfolding arithmetic_loop.simps [of st paren_depth dbl_depth lx] Let_def
    by (intro stops_intros quoted_stops) (assumption | (rule "5"; (assumption | rule refl | erule sym)))+
next
  case (6 st depth lx)
  show ?case
    unfolding brace_param_loop.simps [of st depth lx]
    by (intro stops_intros quoted_stops) (blast intro: "6" | simp add: "6")+
qed

lemma read_word_part_stops: "stops (read_word_part lx c)"
  unfolding read_word_part_def consume_word_dollar_def consume_double_quoted_def consume_word_plain_def
  by (intro stops_intros quoted_stops scanners_stop(1,2)) (simp add: stops_def)

lemma read_word_loop_stops: "stops (read_word_loop lx)"
proof (induction lx rule: read_word_loop.induct)
  case (1 lx)
  show ?case
    unfolding read_word_loop.simps [of lx]
    by (intro stops_intros read_word_part_stops) (blast intro: "1" | simp add: "1")+
qed

lemma read_word_stops: "stops (read_word lx)"
  using read_word_loop_stops [of lx]
  by (auto simp: read_word_def stops_def make_word_token_def result_bind_def str_slice_def Let_def
      split: prod.splits result.splits if_splits)

lemma process_subst_loop_stops: "stops (process_subst_loop st depth lx)"
proof (induction st depth lx rule: process_subst_loop.induct)
  case (1 st depth lx)
  show ?case
    unfolding process_subst_loop.simps [of st depth lx] consume_double_quoted_def Let_def
    by (intro stops_intros quoted_stops scanners_stop(1,2)) (blast intro: "1" [unfolded consume_double_quoted_def] | simp add: "1")+
qed

lemma next_normal_token_stops: "stops (next_normal_token lx)"
proof (induction "remaining lx" arbitrary: lx rule: less_induct)
  case less
  have c: "stops (next_token ((skip_blanks lx)\<lparr>mode := Comment\<rparr>))"
    if "peek (skip_blanks lx) = Some CHR ''#''"
    using less comment_after_blanks [OF that, of Comment] by (simp add: next_token.simps)
  show ?case
    unfolding next_normal_token.simps [of lx] Let_def greater_token_def less_token_def
      consume_process_subst_def
    by (intro stops_intros stops_ok_token process_subst_loop_stops read_word_stops) (use c in simp)
qed

section \<open>The contract of a token\<close>

definition token_at :: "string \<Rightarrow> token \<Rightarrow> bool" where
  "token_at s t \<longleftrightarrow>
     (let b = unat (span_start (tok_span t)); e = unat (span_end (tok_span t)) in
      is_char_boundary s b \<and> is_char_boundary s e \<and> e \<le> length s \<and>
      (if tok_kind t = Eof then b = length s \<and> e = length s else b < e))"

lemma stopped_boundary:
  assumes "stopped lx" "valid_utf8 (source lx)" "pos lx \<le> length (source lx)"
  shows "is_char_boundary (source lx) (pos lx)"
proof (cases "peek lx = None")
  case True
  then show ?thesis using assms(3) by (simp add: peek_def is_char_boundary_def split: if_splits)
next
  case False
  then obtain i where "pos lx = Suc i" "i < length (source lx)" "source lx ! i = CHR ''(''"
    using assms(1) by (auto simp: stopped_def)
  then show ?thesis using boundary_after_ascii [OF assms(2), of i] by (simp add: byte_in_def)
qed

lemma next_token_contract:
  assumes "ready lx" "length (source lx) < 2 ^ 32" "next_token lx = (lx', r)"
  shows "ready lx'" "source lx' = source lx" "pos lx \<le> pos lx'"
    and "\<And>t. r = Ok t \<Longrightarrow> token_at (source lx) t \<and> pos lx \<le> unat (span_start (tok_span t)) \<and>
           unat (span_end (tok_span t)) = pos lx'"
    and "r \<noteq> Panic m"
proof -
  have eq: "next_token lx = next_normal_token lx"
    using assms(1) by (simp add: next_token.simps ready_def)
  then have ok: "next_ok lx (lx', r)" using next_normal_token_ok [OF assms(1)] assms(3) by simp
  then show src: "source lx' = source lx" and le: "pos lx \<le> pos lx'" and "r \<noteq> Panic m"
    by (auto simp: next_ok_def)
  have st: "stops (lx', r)" using next_normal_token_stops [of lx] eq assms(3) by simp
  have "is_char_boundary (source lx) (pos lx')"
  proof (cases r)
    case (Err e)
    then show ?thesis
      using st ok assms(1) stopped_boundary [of lx'] by (simp add: stops_def next_ok_def ready_def)
  qed (use ok in \<open>auto simp: next_ok_def\<close>)
  then show "ready lx'" using ok assms(1) by (simp add: next_ok_def ready_def)
  fix t assume "r = Ok t"
  then obtain st where st: "gap (source lx) (pos lx) st" "tok_span t = span_from lx' st"
      "if tok_kind t = Eof then st = length (source lx) \<and> pos lx' = st else st < pos lx'"
    and lx': "pos lx' \<le> length (source lx)" "is_char_boundary (source lx) (pos lx')"
    using ok [unfolded next_ok_def fst_conv snd_conv] by auto
  have "unat (of_nat st :: u32) = st" "unat (of_nat (pos lx') :: u32) = pos lx'"
    using st(3) lx'(1) assms(2) by (auto intro!: unat_of_nat_less split: if_splits)
  then show "token_at (source lx) t \<and> pos lx \<le> unat (span_start (tok_span t)) \<and>
      unat (span_end (tok_span t)) = pos lx'"
    using st lx' gap_le [OF st(1)] gap_boundary [OF st(1)] assms(1)
    by (auto simp: token_at_def span_from_def Let_def ready_def)
qed

text \<open>The text of a token is a slice that does not panic.\<close>

lemma token_text_slice:
  "token_at s t \<Longrightarrow>
   str_slice s (unat (span_start (tok_span t))) (unat (span_end (tok_span t))) = Ok (token_text t s)"
  by (auto simp: token_at_def str_slice_def token_text_def Let_def split: if_splits)

end
