(* ===== verification/Word_Parser_Props.thy ===== *)
theory Word_Parser_Props
  imports Word_Parser
begin

text \<open>
  The word parser's guarantees: it never panics on a valid string, every step moves forward, words
  that are printed with quotes are read back, and text outside ASCII is not kept.
\<close>

section \<open>No panics\<close>

text \<open>Where a search for a closing delimiter may stop.\<close>

definition end_ok :: "string \<Rightarrow> char \<Rightarrow> nat \<Rightarrow> nat \<times> bool \<Rightarrow> bool" where
  "end_ok wd c i e \<longleftrightarrow>
     (case e of (j, closed) \<Rightarrow> i \<le> j \<and> (if closed then j < length wd \<and> wd ! j = c else j = length wd))"

lemma end_ok_weaken: "end_ok wd c k e \<Longrightarrow> i \<le> k \<Longrightarrow> end_ok wd c i e"
  by (auto simp: end_ok_def split: prod.splits)

lemma end_ok_stop: "i \<le> length wd \<Longrightarrow> \<not> i < length wd \<Longrightarrow> end_ok wd c i (i, False)"
  by (simp add: end_ok_def)

lemma end_ok_found: "i < length wd \<Longrightarrow> wd ! i = c \<Longrightarrow> end_ok wd c i (i, True)"
  by (simp add: end_ok_def)

lemma brace_end_ok: "i \<le> length wd \<Longrightarrow> 0 < depth \<Longrightarrow> end_ok wd (CHR ''}'') i (brace_end wd depth i)"
proof (induction wd depth i rule: brace_end.induct)
  case (1 wd depth i)
  then show ?case
    by (subst brace_end.simps)
      (auto intro: end_ok_stop end_ok_found end_ok_weaken [of _ _ "Suc i"] end_ok_weaken [of _ _ "Suc (Suc i)"])
qed

lemma arith_end_ok: "i \<le> length wd \<Longrightarrow> 0 < depth \<Longrightarrow> end_ok wd (CHR '')'') i (arith_end wd depth i)"
proof (induction wd depth i rule: arith_end.induct)
  case (1 wd depth i)
  then show ?case
    by (subst arith_end.simps) (auto simp: pos_peek_def split: if_splits
        intro: end_ok_stop end_ok_found end_ok_weaken [of _ _ "Suc i"] end_ok_weaken [of _ _ "Suc (Suc i)"])
qed

lemma to_squote_bound: "i \<le> length wd \<Longrightarrow> i \<le> to_squote wd i \<and> to_squote wd i \<le> length wd"
proof (induction wd i rule: to_squote.induct)
  case (1 wd i)
  then show ?case by (subst (1 2) to_squote.simps) auto
qed

lemma to_squote_at: "to_squote wd i < length wd \<Longrightarrow> wd ! to_squote wd i = ch_squote"
proof (induction wd i rule: to_squote.induct)
  case (1 wd i)
  then show ?case by (subst (asm) (2) to_squote.simps, subst to_squote.simps) (auto split: if_splits)
qed

lemma to_dquote_bound: "i \<le> length wd \<Longrightarrow> to_dquote wd i \<le> length wd"
proof (induction wd i rule: to_dquote.induct)
  case (1 wd i)
  then show ?case by (subst to_dquote.simps) auto
qed

lemma skip_bound:
  "i < length wd \<Longrightarrow> skip_single_quoted wd i \<le> length wd"
  "i < length wd \<Longrightarrow> skip_double_quoted wd i \<le> length wd"
  using to_squote_bound [of "Suc i" wd] to_dquote_bound [of "Suc i" wd]
  by (auto simp: skip_single_quoted_def skip_double_quoted_def Let_def)

lemma paren_end_ok: "i \<le> length wd \<Longrightarrow> 0 < depth \<Longrightarrow> end_ok wd (CHR '')'') i (paren_end wd depth i)"
proof (induction wd depth i rule: paren_end.induct)
  case (1 wd depth i)
  then show ?case
    by (subst paren_end.simps)
      (auto simp: skip_bound intro: end_ok_stop end_ok_found end_ok_weaken [of _ _ "Suc i"]
        end_ok_weaken [OF _ less_imp_le [OF skip_single_quoted_next]]
        end_ok_weaken [OF _ less_imp_le [OF skip_double_quoted_next]])
qed

text \<open>
  What an expansion gives: a value and a position that moved from \<open>i\<close> and stays in the word.
\<close>

definition parsed_ok :: "string \<Rightarrow> nat \<Rightarrow> (nat \<times> 'a) parsed \<Rightarrow> bool" where
  "parsed_ok wd i r \<longleftrightarrow> (\<exists>j x. r = Ok (j, x) \<and> i < j)"

lemma delimited_ok:
  assumes "valid_utf8 wd" "end_ok wd c start e" "is_ascii c" "is_char_boundary wd start" "start \<le> length wd"
    and "i < start"
  shows "parsed_ok wd i (delimited wd start n mk e)"
proof -
  obtain j closed where e: "e = (j, closed)" by (cases e)
  then have j: "start \<le> j" "j \<le> length wd" "is_char_boundary wd j"
    using assms boundary_at_ascii [of j wd] by (auto simp: end_ok_def is_char_boundary_def [of wd "length wd"] split: if_splits)
  then show ?thesis using assms e by (auto simp: delimited_def str_slice_def parsed_ok_def)
qed

lemma name_char_ascii: "is_alpha c \<or> is_digit c \<or> c = CHR ''_'' \<Longrightarrow> is_ascii c"
  by (auto simp: is_alpha_def is_digit_def byte_in_def Let_def)

lemma name_end_boundary:
  "valid_utf8 wd \<Longrightarrow> i \<le> length wd \<Longrightarrow> is_char_boundary wd i \<Longrightarrow>
   i \<le> name_end wd i \<and> name_end wd i \<le> length wd \<and> is_char_boundary wd (name_end wd i)"
proof (induction wd i rule: name_end.induct)
  case (1 wd i)
  show ?case
  proof (cases "i < length wd \<and> (is_alpha (wd ! i) \<or> is_digit (wd ! i) \<or> wd ! i = CHR ''_'')")
    case True
    then have "is_char_boundary wd (i + 1)"
      using boundary_after_ascii [of wd i] name_char_ascii "1.prems"(1) by auto
    then show ?thesis using 1 True by (subst (1 2 3) name_end.simps) auto
  qed (use 1 in \<open>auto simp: name_end.simps [of wd i]\<close>)
qed

lemma special_ascii: "is_special_parameter c \<Longrightarrow> is_ascii c"
  by (auto simp: is_special_parameter_def is_digit_def byte_in_def)

lemma parsed_ok_bind:
  "parsed_ok wd i r \<Longrightarrow> (\<And>j x. i < j \<Longrightarrow> parsed_ok wd i (f (j, x))) \<Longrightarrow> parsed_ok wd i (result_bind r f)"
  by (auto simp: parsed_ok_def)

lemma parsed_ok_Ok: "i < j \<Longrightarrow> parsed_ok wd i (Ok (j, x))"
  by (simp add: parsed_ok_def)

lemma parsed_ok_weaken: "parsed_ok wd k r \<Longrightarrow> i \<le> k \<Longrightarrow> parsed_ok wd i r"
  by (auto simp: parsed_ok_def)

text \<open>After the dollar sign at \<open>i\<close>.\<close>

lemma parse_dollar_ok:
  assumes "valid_utf8 wd"
  shows "parsed_ok wd i (parse_dollar wd (i + 1))"
proof (cases "i + 1 < length wd")
  case True
  let ?j = "i + 1"
  note after = boundary_after_ascii [OF assms] and at = boundary_at_ascii [OF True]
  consider (arith) "wd ! ?j = CHR ''(''" "pos_peek wd (?j + 1) = Some CHR ''(''"
    | (cmd) "wd ! ?j = CHR ''(''" "pos_peek wd (?j + 1) \<noteq> Some CHR ''(''"
    | (brace) "wd ! ?j = CHR ''{''"
    | (name) "wd ! ?j \<noteq> CHR ''(''" "wd ! ?j \<noteq> CHR ''{''" "is_alpha (wd ! ?j) \<or> wd ! ?j = CHR ''_''"
    | (special) "wd ! ?j \<noteq> CHR ''(''" "wd ! ?j \<noteq> CHR ''{''" "\<not> (is_alpha (wd ! ?j) \<or> wd ! ?j = CHR ''_'')"
        "is_special_parameter (wd ! ?j)"
    | (none) "wd ! ?j \<noteq> CHR ''(''" "wd ! ?j \<noteq> CHR ''{''" "\<not> (is_alpha (wd ! ?j) \<or> wd ! ?j = CHR ''_'')"
        "\<not> is_special_parameter (wd ! ?j)" by blast
  then show ?thesis
  proof cases
    case arith
    then have "i + 2 < length wd" "wd ! (i + 2) = CHR ''(''" by (auto simp: pos_peek_def split: if_splits)
    then have "parsed_ok wd i (delimited wd (i + 3) 2 Arithmetic (arith_end wd 1 (i + 3)))"
      using after [of "i + 2"] arith_end_ok [of "i + 3" wd 1]
      by (intro delimited_ok [OF assms]) (auto simp: byte_in_def numeral_3_eq_3)
    then show ?thesis
      using True arith by (auto simp: parse_dollar_def parse_dollar_paren_def parse_dollar_arith_def Let_def
          numeral_3_eq_3 intro!: parsed_ok_bind parsed_ok_Ok)
  next
    case cmd
    then have "parsed_ok wd i (delimited wd (i + 2) 1 CommandSubstitution (paren_end wd 1 (i + 2)))"
      using True after [of "i + 1"] paren_end_ok [of "i + 2" wd 1]
      by (intro delimited_ok [OF assms]) (auto simp: byte_in_def)
    then show ?thesis
      using True cmd by (auto simp: parse_dollar_def parse_dollar_paren_def parse_dollar_cmd_subst_def Let_def
          intro!: parsed_ok_bind parsed_ok_Ok)
  next
    case brace
    then have "parsed_ok wd i (delimited wd (i + 2) 1 Parameter (brace_end wd 1 (i + 2)))"
      using True after [of "i + 1"] brace_end_ok [of "i + 2" wd 1]
      by (intro delimited_ok [OF assms]) (auto simp: byte_in_def)
    then show ?thesis
      using True brace by (auto simp: parse_dollar_def parse_dollar_brace_def Let_def
          intro!: parsed_ok_bind parsed_ok_Ok)
  next
    case name
    then have b: "is_char_boundary wd ?j" using at name_char_ascii by blast
    have "parsed_ok wd i (delimited wd ?j 0 Parameter (name_end wd ?j, True))"
      using name_end_boundary [OF assms less_imp_le [OF True] b] b
      by (auto simp: delimited_def str_slice_def parsed_ok_def)
    then show ?thesis
      using True name by (auto simp: parse_dollar_def parse_named_parameter_def Let_def
          intro!: parsed_ok_bind parsed_ok_Ok)
  next
    case special
    then have "is_char_boundary wd ?j" "is_char_boundary wd (?j + 1)"
      using at after [of ?j] True special_ascii by auto
    then have "parsed_ok wd i (delimited wd ?j 0 Parameter (?j + 1, True))"
      using True by (auto simp: delimited_def str_slice_def parsed_ok_def)
    then show ?thesis
      using True special by (auto simp: parse_dollar_def parse_special_parameter_def Let_def
          intro!: parsed_ok_bind parsed_ok_Ok)
  qed (use True in \<open>simp add: parse_dollar_def parsed_ok_def\<close>)
qed (simp add: parse_dollar_def parsed_ok_def)

lemma dollar_step_ok: "valid_utf8 wd \<Longrightarrow> parsed_ok wd i (dollar_step wd i lit parts)"
  unfolding dollar_step_def
  by (intro parsed_ok_bind parse_dollar_ok) (auto intro!: parsed_ok_Ok split: option.splits)

lemma backtick_text_next: "i \<le> fst (backtick_text wd inner i)"
proof (induction wd inner i rule: backtick_text.induct)
  case (1 wd inner i)
  then show ?case by (subst backtick_text.simps) (auto split: option.splits)
qed

lemma parse_backtick_part_next: "i < fst (parse_backtick_part wd i lit parts)"
  using backtick_text_next [of "Suc i" wd "[]"]
  by (auto simp: parse_backtick_part_def Let_def split: prod.splits)

lemma dquoted_step_ok: "valid_utf8 wd \<Longrightarrow> parsed_ok wd i (dquoted_step wd (i, lit, parts))"
  using parse_backtick_part_next [of i wd lit parts]
  by (auto simp: dquoted_step_def dq_backslash_def Let_def dollar_step_ok parsed_ok_Ok split: prod.splits)

lemma double_quoted_parts_ok:
  "valid_utf8 wd \<Longrightarrow> \<exists>j ps. double_quoted_parts wd (i, lit, parts) = Ok (j, ps) \<and> i \<le> j"
proof (induction wd "(i, lit, parts)" arbitrary: i lit parts rule: double_quoted_parts.induct)
  case (1 wd i lit parts)
  obtain j lit' parts' where step: "dquoted_step wd (i, lit, parts) = Ok (j, lit', parts')" "i < j"
    using dquoted_step_ok [OF "1.prems", of i lit parts] by (auto simp: parsed_ok_def)
  show ?case
  proof (cases "i < length wd \<and> wd ! i \<noteq> ch_dquote")
    case True
    then obtain k ps where "double_quoted_parts wd (j, lit', parts') = Ok (k, ps)" "j \<le> k"
      using "1.hyps" [OF _ _ step(1) refl refl step(2)] "1.prems" by blast
    then show ?thesis using True step by (subst double_quoted_parts.simps) auto
  qed (auto simp: double_quoted_parts.simps)
qed

lemma parse_double_quoted_ok: "valid_utf8 wd \<Longrightarrow> i < k \<Longrightarrow> parsed_ok wd i (parse_double_quoted wd k)"
  using double_quoted_parts_ok [of wd k "[]" "[]"] by (auto simp: parse_double_quoted_def parsed_ok_def)

lemma ansi_c_loop_next: "i \<le> fst (ansi_c_loop wd acc i)"
proof (induction wd acc i rule: ansi_c_loop.induct)
  case (1 wd acc i)
  obtain i' acc' where esc: "ansi_c_escape wd (i + 1) acc = (i', acc')" by (cases "ansi_c_escape wd (i + 1) acc")
  then have "i + 1 < length wd \<Longrightarrow> i < i'"
    using ansi_c_escape_next [of "i + 1" wd acc] by simp
  then show ?case
    using "1.IH"(1) [OF _ _ _ _ esc [symmetric] refl] "1.IH"(2,3) esc by (subst ansi_c_loop.simps) auto
qed

text \<open>Every step over a word succeeds and moves forward.\<close>

lemma parse_word_part_ok:
  assumes "valid_utf8 wd" "i < length wd"
  shows "parsed_ok wd i (parse_word_part wd (i, lit, parts))"
proof -
  let ?b = "wd ! i"
  have after: "is_char_boundary wd (i + 1)" if "is_ascii ?b"
    using boundary_after_ascii [OF assms that] by simp
  have squote: "parsed_ok wd i (parse_single_quoted_part wd i lit parts)" if "?b = ch_squote"
  proof -
    have "is_char_boundary wd (to_squote wd (i + 1))"
      using to_squote_bound [of "i + 1" wd] to_squote_at [of wd "i + 1"] boundary_at_ascii assms(2)
      by (cases "to_squote wd (i + 1) = length wd") (auto simp: is_char_boundary_def byte_in_def)
    then show ?thesis
      using that after to_squote_bound [of "i + 1" wd] assms(2)
      by (auto simp: parse_single_quoted_part_def str_slice_def parsed_ok_def byte_in_def Let_def)
  qed
  have subst: "parsed_ok wd i (parse_process_subst wd i lit parts)"
    if "pos_peek wd (i + 1) = Some CHR ''(''"
  proof -
    have "i + 1 < length wd" "wd ! (i + 1) = CHR ''(''" using that by (auto simp: pos_peek_def split: if_splits)
    then have "parsed_ok wd i (delimited wd (i + 2) 1 mk (paren_end wd 1 (i + 2)))" for mk
      using boundary_after_ascii [OF assms(1), of "i + 1"] paren_end_ok [of "i + 2" wd 1]
      by (intro delimited_ok [OF assms(1)]) (auto simp: byte_in_def)
    then show ?thesis
      by (auto simp: parse_process_subst_def Let_def intro!: parsed_ok_bind parsed_ok_Ok)
  qed
  have dollar: "parsed_ok wd i (parse_dollar_part wd i lit parts)"
    using ansi_c_loop_next [of "i + 2" wd "[]"] assms(1)
    by (auto simp: parse_dollar_part_def parse_ansi_c_quoted_def dollar_step_ok
        intro!: parsed_ok_bind parsed_ok_Ok parse_double_quoted_ok split: prod.splits)
  have dquote: "parsed_ok wd i (parse_double_quoted_part wd i lit parts)"
    using assms(1) by (auto simp: parse_double_quoted_part_def
        intro!: parsed_ok_bind parsed_ok_Ok parse_double_quoted_ok)
  show ?thesis
    using parse_backtick_part_next [of i wd lit parts] squote subst dollar dquote
    by (auto simp: parse_word_part_def parse_escaped_literal_def Let_def
        intro!: parsed_ok_bind parsed_ok_Ok split: prod.splits)
qed

lemma word_parts_loop_ok: "valid_utf8 wd \<Longrightarrow> \<exists>ps. word_parts_loop wd (i, lit, parts) = Ok ps"
proof (induction wd "(i, lit, parts)" arbitrary: i lit parts rule: word_parts_loop.induct)
  case (1 wd i lit parts)
  show ?case
  proof (cases "i < length wd")
    case True
    then obtain j lit' parts' where "parse_word_part wd (i, lit, parts) = Ok (j, lit', parts')" "i < j"
      using parse_word_part_ok [OF "1.prems" True, of lit parts] by (auto simp: parsed_ok_def)
    then show ?thesis using 1 True by (subst word_parts_loop.simps) auto
  qed (simp add: word_parts_loop.simps)
qed

section \<open>Printing words\<close>

text \<open>
  A printer for parts.  Literals are escaped, commands go between backticks, and the other
  parts between their delimiters.
\<close>

definition escape_if :: "string \<Rightarrow> char \<Rightarrow> string" where
  "escape_if special c = (if c \<in> set special then [ch_backslash, c] else [c])"

definition word_specials :: string where
  "word_specials = [ch_squote, ch_dquote, ch_backslash, CHR ''$'', ch_backtick, CHR ''<'', CHR ''>'']"

definition dquote_specials :: string where
  "dquote_specials = [CHR ''$'', ch_backtick, ch_dquote, ch_backslash]"

definition backtick_specials :: string where
  "backtick_specials = [CHR ''$'', ch_backtick, ch_backslash]"

fun print_part :: "string \<Rightarrow> word_part \<Rightarrow> string" where
  "print_part special (Literal s) = concat (map (escape_if special) s)"
| "print_part special (SingleQuoted s) = ch_squote # s @ [ch_squote]"
| "print_part special (DoubleQuoted ps) = ch_dquote # concat (map (print_part dquote_specials) ps) @ [ch_dquote]"
| "print_part special (Parameter n) = ''${'' @ n @ ''}''"
| "print_part special (CommandSubstitution s) =
     ch_backtick # concat (map (escape_if backtick_specials) s) @ [ch_backtick]"
| "print_part special (Arithmetic e) = ''$(('' @ e @ ''))''"
| "print_part special (ProcessSubstIn s) = ''<('' @ s @ '')''"
| "print_part special (ProcessSubstOut s) = ''>('' @ s @ '')''"

definition print_word :: "word_part list \<Rightarrow> string" where
  "print_word ps = concat (map (print_part word_specials) ps)"

text \<open>
  The texts that can stand between delimiters: the scan of the text, started at depth one, does
  not close before its end.
\<close>

fun brace_text :: "nat \<Rightarrow> string \<Rightarrow> bool" where
  "brace_text d [] = (d = 1)"
| "brace_text d (c # s) =
     (if c = CHR ''{'' then brace_text (d + 1) s
      else if c = CHR ''}'' then 1 < d \<and> brace_text (d - 1) s
      else if c = ch_backslash then s \<noteq> [] \<and> brace_text d (tl s)
      else brace_text d s)"

fun paren_text :: "nat \<Rightarrow> string \<Rightarrow> bool" where
  "paren_text d [] = (d = 1)"
| "paren_text d (c # s) =
     (if c = CHR ''('' then paren_text (d + 1) s
      else if c = CHR '')'' then 1 < d \<and> paren_text (d - 1) s
      else c \<noteq> ch_squote \<and> c \<noteq> ch_dquote \<and> paren_text d s)"

text \<open>The text of an arithmetic expansion is followed by two closing parentheses.\<close>

fun arith_text :: "nat \<Rightarrow> string \<Rightarrow> bool" where
  "arith_text d [] = (d = 1)"
| "arith_text d (c # s) =
     (if c = CHR ''('' \<and> s \<noteq> [] \<and> hd s = CHR ''('' then arith_text (d + 1) (tl s)
      else if c = CHR '')'' \<and> (s = [] \<or> hd s = CHR '')'') then s \<noteq> [] \<and> 1 < d \<and> arith_text (d - 1) (tl s)
      else arith_text d s)"

fun is_literal :: "word_part \<Rightarrow> bool" where
  "is_literal (Literal s) = True"
| "is_literal _ = False"

fun apart :: "word_part list \<Rightarrow> bool" where
  "apart (p # q # ps) = (\<not> (is_literal p \<and> is_literal q) \<and> apart (q # ps))"
| "apart _ = True"

fun inner_part :: "word_part \<Rightarrow> bool" where
  "inner_part (Literal s) = (s \<noteq> [] \<and> list_all is_ascii s)"
| "inner_part (Parameter n) = (brace_text 1 n \<and> valid_utf8 n)"
| "inner_part (CommandSubstitution s) = list_all is_ascii s"
| "inner_part (Arithmetic e) = (arith_text 1 e \<and> valid_utf8 e)"
| "inner_part _ = False"

fun outer_part :: "word_part \<Rightarrow> bool" where
  "outer_part (SingleQuoted s) = (ch_squote \<notin> set s \<and> valid_utf8 s)"
| "outer_part (DoubleQuoted ps) = (list_all inner_part ps \<and> apart ps)"
| "outer_part (ProcessSubstIn s) = (paren_text 1 s \<and> valid_utf8 s)"
| "outer_part (ProcessSubstOut s) = (paren_text 1 s \<and> valid_utf8 s)"
| "outer_part p = inner_part p"

definition printable :: "word_part list \<Rightarrow> bool" where
  "printable ps \<longleftrightarrow> list_all outer_part ps \<and> apart ps"

section \<open>Reading back what was printed\<close>

lemma drop_ConsD:
  assumes "drop i wd = c # r"
  shows "i < length wd" "wd ! i = c" "drop (i + 1) wd = r"
proof -
  show i: "i < length wd" using assms by (metis drop_all list.distinct(1) not_le)
  then have "drop i wd = wd ! i # drop (Suc i) wd" by (simp add: Cons_nth_drop_Suc)
  then show "wd ! i = c" "drop (i + 1) wd = r" using assms by auto
qed

lemma drop_appendD: "drop i wd = s @ r \<Longrightarrow> drop (i + length s) wd = r"
  by (metis add.commute append_eq_conv_conj drop_drop)

lemma pos_peek_drop: "drop i wd = c # r \<Longrightarrow> pos_peek wd i = Some c"
  using drop_ConsD [of i wd c r] by (simp add: pos_peek_def)

lemma pos_peek_next: "drop i wd = c # r \<Longrightarrow> pos_peek wd (i + 1) = (case r of [] \<Rightarrow> None | d # _ \<Rightarrow> Some d)"
  using drop_ConsD(3) [of i wd c r] pos_peek_drop [of "i + 1" wd]
  by (cases r) (auto simp: pos_peek_def)

lemma brace_end_text:
  "brace_text d n \<Longrightarrow> 0 < d \<Longrightarrow> drop i wd = n @ CHR ''}'' # r \<Longrightarrow> brace_end wd d i = (i + length n, True)"
proof (induction d n arbitrary: i rule: brace_text.induct)
  case (1 d)
  then show ?case using drop_ConsD [of i wd] by (subst brace_end.simps) simp
next
  case (2 d c s)
  from "2.prems"(3) have at: "i < length wd" "wd ! i = c" "drop (i + 1) wd = s @ CHR ''}'' # r"
    using drop_ConsD [of i wd c "s @ CHR ''}'' # r"] by simp_all
  have esc: "drop (i + 2) wd = tl s @ CHR ''}'' # r" "i + 1 < length wd" if "s \<noteq> []"
    using drop_ConsD [of "i + 1" wd "hd s" "tl s @ CHR ''}'' # r"] at that by simp_all
  show ?case
    using 2 at esc by (subst brace_end.simps) (auto split: if_splits)
qed

lemma paren_end_text:
  "paren_text d n \<Longrightarrow> 0 < d \<Longrightarrow> drop i wd = n @ CHR '')'' # r \<Longrightarrow> paren_end wd d i = (i + length n, True)"
proof (induction d n arbitrary: i rule: paren_text.induct)
  case (1 d)
  then show ?case using drop_ConsD [of i wd] by (subst paren_end.simps) simp
next
  case (2 d c s)
  from "2.prems"(3) have at: "i < length wd" "wd ! i = c" "drop (i + 1) wd = s @ CHR '')'' # r"
    using drop_ConsD [of i wd c "s @ CHR '')'' # r"] by simp_all
  show ?case using 2 at by (subst paren_end.simps) (auto split: if_splits)
qed

lemma arith_end_text:
  "arith_text d n \<Longrightarrow> 0 < d \<Longrightarrow> drop i wd = n @ CHR '')'' # CHR '')'' # r \<Longrightarrow> arith_end wd d i = (i + length n, True)"
proof (induction d n arbitrary: i rule: arith_text.induct)
  case (1 d)
  then show ?case using drop_ConsD [of i wd] pos_peek_next [of i wd] by (subst arith_end.simps) simp
next
  case (2 d c s)
  from "2.prems"(3) have at: "i < length wd" "wd ! i = c" "drop (i + 1) wd = s @ CHR '')'' # CHR '')'' # r"
    using drop_ConsD [of i wd c "s @ CHR '')'' # CHR '')'' # r"] by simp_all
  have peek: "pos_peek wd (i + 1) = Some (if s = [] then CHR '')'' else hd s)"
    using at(3) pos_peek_drop [of "i + 1" wd] by (cases s) auto
  have skip: "drop (i + 2) wd = tl s @ CHR '')'' # CHR '')'' # r" if "s \<noteq> []"
    using drop_ConsD(3) [of "i + 1" wd "hd s" "tl s @ CHR '')'' # CHR '')'' # r"] at(3) that by simp
  show ?case
    using 2 at peek skip by (subst arith_end.simps) (auto split: if_splits)
qed

lemma byte_char_ascii: "is_ascii c \<Longrightarrow> byte_char c = [c]"
  by (simp add: byte_char_def byte_in_def Let_def)

lemma slice_to_ascii:
  assumes "valid_utf8 wd" "drop i wd = s @ c # r" "is_ascii c" "is_char_boundary wd i"
  shows "str_slice wd i (i + length s) = Ok s"
proof -
  have "i + length s < length wd" "wd ! (i + length s) = c"
    using drop_ConsD [OF drop_appendD [OF assms(2)]] by auto
  then show ?thesis
    using boundary_at_ascii [of "i + length s" wd] assms(2-4) by (simp add: str_slice_def)
qed

lemma delimited_text:
  assumes "valid_utf8 wd" "drop i wd = d # s @ c # r" "is_ascii d" "is_ascii c"
  shows "delimited wd (i + 1) n mk (i + 1 + length s, True) = Ok (i + 1 + length s + n, mk s)"
proof -
  have at: "i < length wd" "wd ! i = d" "drop (i + 1) wd = s @ c # r"
    using drop_ConsD [OF assms(2)] by simp_all
  then have "is_char_boundary wd (i + 1)"
    using boundary_after_ascii [OF assms(1) at(1)] assms(3) by simp
  from slice_to_ascii [OF assms(1) at(3) assms(4) this]
  have "(str_slice wd (i + 1) (i + 1 + length s) :: string parsed) = Ok s" .
  then show ?thesis by (simp add: delimited_def)
qed

lemma ascii_literal: "is_ascii CHR ''('' " "is_ascii CHR '')''" "is_ascii CHR ''{''" "is_ascii CHR ''}''"
  "is_ascii ch_squote" "is_ascii ch_dquote" "is_ascii CHR ''$''" "is_ascii ch_backtick" "is_ascii CHR ''<''"
  "is_ascii CHR ''>''" "is_ascii ch_backslash"
  by (simp_all add: byte_in_def)

lemma escape_if_simps:
  "c \<in> set sp \<Longrightarrow> escape_if sp c = [ch_backslash, c]"
  "c \<notin> set sp \<Longrightarrow> escape_if sp c = [c]"
  by (simp_all add: escape_if_def)

lemma backtick_text_escaped:
  "list_all is_ascii s \<Longrightarrow> drop i wd = concat (map (escape_if backtick_specials) s) @ ch_backtick # r \<Longrightarrow>
   backtick_text wd inner i = (i + length (concat (map (escape_if backtick_specials) s)) + 1, inner @ s)"
proof (induction s arbitrary: i inner)
  case Nil
  then show ?case using drop_ConsD [of i wd] by (subst backtick_text.simps) simp
next
  case (Cons c s)
  let ?rest = "concat (map (escape_if backtick_specials) s) @ ch_backtick # r"
  show ?case
  proof (cases "c \<in> set backtick_specials")
    case True
    then have esc: "drop i wd = ch_backslash # c # ?rest" using Cons.prems(2) by (simp add: escape_if_simps)
    note at = drop_ConsD [OF esc] and at2 = drop_ConsD [OF drop_ConsD(3) [OF esc]]
    have "backtick_text wd inner i = backtick_text wd (inner @ [c]) (i + 2)"
      using at at2 True Cons.prems(1) pos_peek_next [OF esc]
      by (subst backtick_text.simps) (auto simp: byte_char_ascii backtick_specials_def)
    then show ?thesis using Cons at2 True by (simp add: escape_if_simps)
  next
    case False
    then have esc: "drop i wd = c # ?rest" using Cons.prems(2) by (simp add: escape_if_simps)
    note at = drop_ConsD [OF esc]
    have "backtick_text wd inner i = backtick_text wd (inner @ [c]) (i + 1)"
      using at False Cons.prems(1) by (subst backtick_text.simps) (auto simp: byte_char_ascii backtick_specials_def)
    then show ?thesis using Cons at False by (simp add: escape_if_simps)
  qed
qed

text \<open>A dollar expansion at \<open>i\<close>.\<close>

lemma dollar_step_parameter:
  assumes "valid_utf8 wd" "brace_text 1 n" "drop i wd = CHR ''$'' # CHR ''{'' # n @ CHR ''}'' # r"
  shows "dollar_step wd i lit parts = Ok (i + length n + 3, [], flush lit parts @ [Parameter n])"
proof -
  have d: "drop (i + 1) wd = CHR ''{'' # n @ CHR ''}'' # r" using drop_ConsD [OF assms(3)] by simp
  note at = drop_ConsD [OF d]
  have "brace_end wd 1 (i + 2) = (i + 2 + length n, True)"
    using brace_end_text [OF assms(2), of "i + 2" wd r] at by simp
  then show ?thesis
    using delimited_text [OF assms(1) d, of 1 Parameter] at
    by (simp add: dollar_step_def parse_dollar_def parse_dollar_brace_def Let_def ascii_literal)
qed

lemma dollar_step_arith:
  assumes "valid_utf8 wd" "arith_text 1 e" "drop i wd = CHR ''$'' # CHR ''('' # CHR ''('' # e @ CHR '')'' # CHR '')'' # r"
  shows "dollar_step wd i lit parts = Ok (i + length e + 5, [], flush lit parts @ [Arithmetic e])"
proof -
  have d1: "drop (i + 1) wd = CHR ''('' # CHR ''('' # e @ CHR '')'' # CHR '')'' # r"
    using drop_ConsD [OF assms(3)] by simp
  have d2: "drop (i + 2) wd = CHR ''('' # e @ CHR '')'' # CHR '')'' # r"
    using drop_ConsD [OF d1] by simp
  have pos: "i + 2 + 1 = i + 3" "i + 3 + length e + 2 = i + length e + 5" "i + 1 + 1 = i + 2" by simp_all
  have "arith_end wd 1 (i + 3) = (i + 3 + length e, True)"
    using arith_end_text [OF assms(2), of "i + 3" wd r] drop_ConsD(3) [OF d2] unfolding pos by simp
  moreover have "delimited wd (i + 3) 2 Arithmetic (i + 3 + length e, True) = Ok (i + length e + 5, Arithmetic e)"
    using delimited_text [OF assms(1) d2 ascii_literal(1,2), of 2 Arithmetic] unfolding pos .
  ultimately have "parse_dollar_arith wd (i + 2) = Ok (i + length e + 5, Arithmetic e)"
    unfolding parse_dollar_arith_def pos(1) by simp
  then show ?thesis
    using drop_ConsD [OF d1] pos_peek_next [OF d1]
    by (simp add: dollar_step_def parse_dollar_def parse_dollar_paren_def Let_def)
qed

lemma backtick_part_printed:
  assumes "list_all is_ascii s"
    and "drop i wd = ch_backtick # concat (map (escape_if backtick_specials) s) @ ch_backtick # r"
  shows "parse_backtick_part wd i lit parts =
    (i + length (concat (map (escape_if backtick_specials) s)) + 2, flush lit parts @ [CommandSubstitution s])"
  using backtick_text_escaped [OF assms(1), of "i + 1" wd r "[]"] drop_ConsD [OF assms(2)]
  by (simp add: parse_backtick_part_def)

subsection \<open>Inside double quotes\<close>

lemma dquoted_loop_step:
  "i < length wd \<Longrightarrow> wd ! i \<noteq> ch_dquote \<Longrightarrow> dquoted_step wd (i, lit, parts) = Ok (j, lit', parts') \<Longrightarrow> i < j \<Longrightarrow>
   double_quoted_parts wd (i, lit, parts) = double_quoted_parts wd (j, lit', parts')"
  by (simp add: double_quoted_parts.simps [of wd i])

lemma dquoted_literal:
  "list_all is_ascii s \<Longrightarrow> drop i wd = concat (map (escape_if dquote_specials) s) @ r \<Longrightarrow>
   double_quoted_parts wd (i, lit, parts) =
     double_quoted_parts wd (i + length (concat (map (escape_if dquote_specials) s)), lit @ s, parts)"
proof (induction s arbitrary: i lit)
  case (Cons c s)
  let ?rest = "concat (map (escape_if dquote_specials) s) @ r"
  show ?case
  proof (cases "c \<in> set dquote_specials")
    case True
    then have esc: "drop i wd = ch_backslash # c # ?rest" using Cons.prems(2) by (simp add: escape_if_simps)
    note at = drop_ConsD [OF esc] and at2 = drop_ConsD [OF drop_ConsD(3) [OF esc]]
    have "dquoted_step wd (i, lit, parts) = Ok (i + 2, lit @ [c], parts)"
      using at at2 True Cons.prems(1)
      by (auto simp: dquoted_step_def dq_backslash_def byte_char_ascii dquote_specials_def Let_def)
    with dquoted_loop_step [OF at(1), of lit parts "i + 2"] at Cons.IH [of "i + 2" "lit @ [c]"] at2 Cons.prems(1) True
    show ?thesis by (simp add: escape_if_simps)
  next
    case False
    then have esc: "drop i wd = c # ?rest" using Cons.prems(2) by (simp add: escape_if_simps)
    note at = drop_ConsD [OF esc]
    have "dquoted_step wd (i, lit, parts) = Ok (i + 1, lit @ [c], parts)"
      using at False Cons.prems(1) by (auto simp: dquoted_step_def byte_char_ascii dquote_specials_def)
    with dquoted_loop_step [OF at(1), of lit parts "i + 1"] at Cons.IH [of "i + 1" "lit @ [c]"] Cons.prems(1) False
    show ?thesis by (auto simp: escape_if_simps dquote_specials_def)
  qed
qed simp

lemma dquoted_part:
  assumes "valid_utf8 wd" "inner_part p" "\<not> is_literal p" "drop i wd = print_part dquote_specials p @ r"
  shows "double_quoted_parts wd (i, lit, parts) =
    double_quoted_parts wd (i + length (print_part dquote_specials p), [], flush lit parts @ [p])"
proof -
  have "wd ! i \<in> {CHR ''$'', ch_backtick} \<and> i < length wd \<and>
      dquoted_step wd (i, lit, parts) = Ok (i + length (print_part dquote_specials p), [], flush lit parts @ [p])"
  proof (cases p)
    case (Parameter n)
    then have d: "drop i wd = CHR ''$'' # CHR ''{'' # n @ CHR ''}'' # r" "brace_text 1 n" using assms by auto
    then show ?thesis
      using Parameter dollar_step_parameter [OF assms(1) d(2,1), of lit parts] drop_ConsD [OF d(1)] by (simp add: dquoted_step_def)
  next
    case (Arithmetic e)
    then have d: "drop i wd = CHR ''$'' # CHR ''('' # CHR ''('' # e @ CHR '')'' # CHR '')'' # r" "arith_text 1 e"
      using assms by auto
    then show ?thesis
      using Arithmetic dollar_step_arith [OF assms(1) d(2,1), of lit parts] drop_ConsD [OF d(1)] by (simp add: dquoted_step_def)
  next
    case (CommandSubstitution s)
    then have d: "drop i wd = ch_backtick # concat (map (escape_if backtick_specials) s) @ ch_backtick # r"
        "list_all is_ascii s" using assms by auto
    then show ?thesis
      using CommandSubstitution backtick_part_printed [OF d(2,1), of lit parts] drop_ConsD [OF d(1)]
      by (simp add: dquoted_step_def)
  qed (use assms in auto)
  then show ?thesis using assms(2,3) by (intro dquoted_loop_step) (cases p, auto)+
qed

lemma apart_tail: "apart (p # ps) \<Longrightarrow> apart ps"
  by (cases ps) auto

lemma dquoted_read_back:
  "valid_utf8 wd \<Longrightarrow> list_all inner_part ps \<Longrightarrow> apart ps \<Longrightarrow> lit \<noteq> [] \<and> ps \<noteq> [] \<longrightarrow> \<not> is_literal (hd ps) \<Longrightarrow>
   drop i wd = concat (map (print_part dquote_specials) ps) @ ch_dquote # r \<Longrightarrow>
   double_quoted_parts wd (i, lit, parts) =
     Ok (i + length (concat (map (print_part dquote_specials) ps)) + 1, flush lit parts @ ps)"
proof (induction ps arbitrary: i lit parts)
  case Nil
  then show ?case using drop_ConsD [of i wd] by (subst double_quoted_parts.simps) simp
next
  case (Cons p ps)
  let ?rest = "concat (map (print_part dquote_specials) ps) @ ch_dquote # r"
  have d: "drop i wd = print_part dquote_specials p @ ?rest" using Cons.prems(5) by simp
  note rest = drop_appendD [OF d]
  show ?case
  proof (cases "is_literal p")
    case True
    then obtain s where p: "p = Literal s" by (cases p) auto
    have "ps \<noteq> [] \<longrightarrow> \<not> is_literal (hd ps)" using Cons.prems(3) True by (cases ps) auto
    then show ?thesis
      using dquoted_literal [of s i wd ?rest lit parts] Cons.IH [of s "i + length (print_part dquote_specials p)" parts]
        Cons.prems p d rest apart_tail [OF Cons.prems(3)] by (auto simp: flush_def)
  next
    case False
    then show ?thesis
      using dquoted_part [OF Cons.prems(1) _ False d, of lit parts]
        Cons.IH [of "[]" "i + length (print_part dquote_specials p)" "flush lit parts @ [p]"]
        Cons.prems rest apart_tail [OF Cons.prems(3)] by (simp add: flush_def)
  qed
qed

subsection \<open>Whole words\<close>

lemma word_loop_step:
  "i < length wd \<Longrightarrow> parse_word_part wd (i, lit, parts) = Ok (j, lit', parts') \<Longrightarrow> i < j \<Longrightarrow>
   word_parts_loop wd (i, lit, parts) = word_parts_loop wd (j, lit', parts')"
  by (simp add: word_parts_loop.simps [of wd i])

lemma word_literal:
  "list_all is_ascii s \<Longrightarrow> drop i wd = concat (map (escape_if word_specials) s) @ r \<Longrightarrow>
   word_parts_loop wd (i, lit, parts) =
     word_parts_loop wd (i + length (concat (map (escape_if word_specials) s)), lit @ s, parts)"
proof (induction s arbitrary: i lit)
  case (Cons c s)
  let ?rest = "concat (map (escape_if word_specials) s) @ r"
  show ?case
  proof (cases "c \<in> set word_specials")
    case True
    then have esc: "drop i wd = ch_backslash # c # ?rest" using Cons.prems(2) by (simp add: escape_if_simps)
    note at = drop_ConsD [OF esc] and at2 = drop_ConsD [OF drop_ConsD(3) [OF esc]]
    have "parse_word_part wd (i, lit, parts) = Ok (i + 2, lit @ [c], parts)"
      using at at2 True Cons.prems(1)
      by (auto simp: parse_word_part_def parse_escaped_literal_def byte_char_ascii word_specials_def Let_def)
    with word_loop_step [OF at(1), of lit parts "i + 2"] at Cons.IH [of "i + 2" "lit @ [c]"] at2 Cons.prems(1) True
    show ?thesis by (simp add: escape_if_simps)
  next
    case False
    then have esc: "drop i wd = c # ?rest" using Cons.prems(2) by (simp add: escape_if_simps)
    note at = drop_ConsD [OF esc]
    have "parse_word_part wd (i, lit, parts) = Ok (i + 1, lit @ [c], parts)"
      using at False Cons.prems(1) by (auto simp: parse_word_part_def byte_char_ascii word_specials_def Let_def)
    with word_loop_step [OF at(1), of lit parts "i + 1"] at Cons.IH [of "i + 1" "lit @ [c]"] Cons.prems(1) False
    show ?thesis by (simp add: escape_if_simps)
  qed
qed simp

lemma to_squote_text: "ch_squote \<notin> set s \<Longrightarrow> drop i wd = s @ ch_squote # r \<Longrightarrow> to_squote wd i = i + length s"
proof (induction s arbitrary: i)
  case Nil
  then show ?case using drop_ConsD [of i wd] by (subst to_squote.simps) simp
next
  case (Cons c s)
  then show ?case using drop_ConsD [of i wd c "s @ ch_squote # r"] by (subst to_squote.simps) auto
qed

lemma process_subst_printed:
  assumes "valid_utf8 wd" "paren_text 1 s" "drop i wd = c # CHR ''('' # s @ CHR '')'' # r"
  shows "parse_process_subst wd i lit parts =
    Ok (i + length s + 3, flush lit parts @ [(if c = CHR ''<'' then ProcessSubstIn else ProcessSubstOut) s])"
proof -
  have d: "drop (i + 1) wd = CHR ''('' # s @ CHR '')'' # r" using drop_ConsD [OF assms(3)] by simp
  have pos: "i + 1 + 1 = i + 2" "i + 2 + length s + 1 = i + length s + 3" by simp_all
  have "paren_end wd 1 (i + 2) = (i + 2 + length s, True)"
    using paren_end_text [OF assms(2), of "i + 2" wd r] drop_ConsD(3) [OF d] unfolding pos by simp
  moreover have "delimited wd (i + 2) 1 mk (i + 2 + length s, True) = Ok (i + length s + 3, mk s)" for mk
    using delimited_text [OF assms(1) d ascii_literal(1,2), of 1 mk] unfolding pos .
  ultimately show ?thesis
    using drop_ConsD [OF assms(3)] by (simp add: parse_process_subst_def Let_def)
qed

lemma word_part_printed:
  assumes "valid_utf8 wd" "outer_part p" "\<not> is_literal p" "drop i wd = print_part word_specials p @ r"
  shows "parse_word_part wd (i, lit, parts) =
    Ok (i + length (print_part word_specials p), [], flush lit parts @ [p])"
proof (cases p)
  case (SingleQuoted s)
  then have d: "drop i wd = ch_squote # s @ ch_squote # r" "ch_squote \<notin> set s" using assms by auto
  note at = drop_ConsD [OF d(1)]
  have "is_char_boundary wd (i + 1)" using boundary_after_ascii [OF assms(1) at(1)] at(2) ascii_literal by simp
  then have "(str_slice wd (i + 1) (i + 1 + length s) :: string parsed) = Ok s"
    by (rule slice_to_ascii [OF assms(1) at(3) ascii_literal(5)])
  moreover have "i + 1 + length s < length wd" using drop_ConsD(1) [OF drop_appendD [OF at(3)]] .
  ultimately show ?thesis
    using SingleQuoted at to_squote_text [OF d(2) at(3)]
    by (simp add: parse_word_part_def parse_single_quoted_part_def Let_def)
next
  case (DoubleQuoted ps)
  then have d: "drop i wd = ch_dquote # concat (map (print_part dquote_specials) ps) @ ch_dquote # r"
    using assms(4) by simp
  note at = drop_ConsD [OF d]
  show ?thesis
    using DoubleQuoted assms(1,2) at dquoted_read_back [OF assms(1) _ _ _ at(3), of "[]" "[]"]
    by (simp add: parse_word_part_def parse_double_quoted_part_def parse_double_quoted_def flush_def Let_def)
next
  case (Parameter n)
  then have d: "drop i wd = CHR ''$'' # CHR ''{'' # n @ CHR ''}'' # r" "brace_text 1 n" using assms by auto
  show ?thesis
    using Parameter dollar_step_parameter [OF assms(1) d(2,1), of lit parts] drop_ConsD [OF d(1)] pos_peek_next [OF d(1)]
    by (simp add: parse_word_part_def parse_dollar_part_def Let_def)
next
  case (Arithmetic e)
  then have d: "drop i wd = CHR ''$'' # CHR ''('' # CHR ''('' # e @ CHR '')'' # CHR '')'' # r" "arith_text 1 e"
    using assms by auto
  show ?thesis
    using Arithmetic dollar_step_arith [OF assms(1) d(2,1), of lit parts] drop_ConsD [OF d(1)] pos_peek_next [OF d(1)]
    by (simp add: parse_word_part_def parse_dollar_part_def Let_def)
next
  case (CommandSubstitution s)
  then have d: "drop i wd = ch_backtick # concat (map (escape_if backtick_specials) s) @ ch_backtick # r"
      "list_all is_ascii s" using assms by auto
  show ?thesis
    using CommandSubstitution backtick_part_printed [OF d(2,1), of lit parts] drop_ConsD [OF d(1)]
    by (simp add: parse_word_part_def Let_def)
next
  case (ProcessSubstIn s)
  then have d: "drop i wd = CHR ''<'' # CHR ''('' # s @ CHR '')'' # r" "paren_text 1 s" using assms by auto
  show ?thesis
    using ProcessSubstIn process_subst_printed [OF assms(1) d(2,1), of lit parts] drop_ConsD [OF d(1)] pos_peek_next [OF d(1)]
    by (simp add: parse_word_part_def Let_def)
next
  case (ProcessSubstOut s)
  then have d: "drop i wd = CHR ''>'' # CHR ''('' # s @ CHR '')'' # r" "paren_text 1 s" using assms by auto
  show ?thesis
    using ProcessSubstOut process_subst_printed [OF assms(1) d(2,1), of lit parts] drop_ConsD [OF d(1)] pos_peek_next [OF d(1)]
    by (simp add: parse_word_part_def Let_def)
qed (use assms in auto)

lemma print_part_not_Nil: "outer_part p \<Longrightarrow> print_part special p \<noteq> []"
proof (cases p)
  case (Literal s)
  moreover assume "outer_part p"
  ultimately show ?thesis by (cases s) (simp_all add: escape_if_def)
qed simp_all

lemma word_read_back:
  "valid_utf8 wd \<Longrightarrow> list_all outer_part ps \<Longrightarrow> apart ps \<Longrightarrow> lit \<noteq> [] \<and> ps \<noteq> [] \<longrightarrow> \<not> is_literal (hd ps) \<Longrightarrow>
   drop i wd = print_word ps \<Longrightarrow> word_parts_loop wd (i, lit, parts) = Ok (flush lit parts @ ps)"
proof (induction ps arbitrary: i lit parts)
  case Nil
  then have "\<not> i < length wd" by (simp add: print_word_def)
  then show ?case by (simp add: word_parts_loop.simps [of wd i])
next
  case (Cons p ps)
  have d: "drop i wd = print_part word_specials p @ print_word ps" using Cons.prems(5) by (simp add: print_word_def)
  note rest = drop_appendD [OF d]
  have move: "0 < length (print_part word_specials p)" "i < length wd"
    using print_part_not_Nil [of p word_specials] Cons.prems(2) d by (auto simp: not_le [symmetric])
  show ?case
  proof (cases "is_literal p")
    case True
    then obtain s where p: "p = Literal s" by (cases p) auto
    have "ps \<noteq> [] \<longrightarrow> \<not> is_literal (hd ps)" using Cons.prems(3) True by (cases ps) auto
    then show ?thesis
      using word_literal [of s i wd "print_word ps" lit parts] Cons.IH [of s "i + length (print_part word_specials p)" parts]
        Cons.prems p d rest apart_tail [OF Cons.prems(3)] by (auto simp: flush_def)
  next
    case False
    have "word_parts_loop wd (i, lit, parts) =
        word_parts_loop wd (i + length (print_part word_specials p), [], flush lit parts @ [p])"
      using word_part_printed [OF Cons.prems(1) _ False d, of lit parts] Cons.prems(2) move
      by (intro word_loop_step) auto
    then show ?thesis
      using Cons.IH [of "[]" "i + length (print_part word_specials p)" "flush lit parts @ [p]"]
        Cons.prems rest apart_tail [OF Cons.prems(3)] by (simp add: flush_def)
  qed
qed

lemma valid_escaped: "list_all is_ascii s \<Longrightarrow> valid_utf8 (concat (map (escape_if sp) s))"
  by (induction s) (auto simp: escape_if_def ascii_literal)

lemma valid_inner: "inner_part p \<Longrightarrow> valid_utf8 (print_part sp p)"
  by (cases p) (auto simp: ascii_literal valid_utf8_append valid_utf8_ascii valid_escaped)

lemma valid_outer: "outer_part p \<Longrightarrow> valid_utf8 (print_part sp p)"
proof (cases p)
  case (DoubleQuoted ps)
  moreover assume "outer_part p"
  ultimately show ?thesis
    by (auto simp: ascii_literal list_all_iff valid_inner intro!: valid_utf8_append valid_utf8_concat)
qed (auto simp: ascii_literal valid_utf8_append valid_utf8_ascii valid_escaped valid_inner)

section \<open>Properties\<close>

text \<open>
  C12 (words are read back): a word printed part by part, with literals escaped, commands in
  backticks and every other part between its delimiters, is parsed into exactly these parts.
  Literals are ASCII text and no two of them are adjacent; a text between delimiters has to be
  balanced.
\<close>

theorem word_round_trip:
  assumes "printable ps"
  shows "parse_word_parts (print_word ps) = Ok ps"
proof -
  have "valid_utf8 (print_word ps)"
    using assms by (auto simp: print_word_def printable_def list_all_iff intro!: valid_utf8_concat valid_outer)
  then show ?thesis
    using word_read_back [of "print_word ps" ps "[]" 0 "[]"] assms
    by (simp add: parse_word_parts_def printable_def flush_def)
qed

theorem word_round_trip_witness:
  "parse_word_parts (print_word [Literal ''a$'', DoubleQuoted [Parameter ''x:-{}'', Literal ''b''], Arithmetic ''(1)+2'']) =
   Ok [Literal ''a$'', DoubleQuoted [Parameter ''x:-{}'', Literal ''b''], Arithmetic ''(1)+2'']"
  by (rule word_round_trip) (simp add: printable_def byte_in_def)

text \<open>
  No word makes the parser panic: every valid text of a word is parsed; no slice falls inside
  a character.
\<close>

theorem parse_word_parts_total:
  assumes "valid_utf8 wd"
  shows "\<exists>ps. parse_word_parts wd = Ok ps"
  using word_parts_loop_ok [OF assms] by (simp add: parse_word_parts_def)

theorem parse_word_parts_total_witness: "\<exists>ps. parse_word_parts ''a$(b \"'' = Ok ps"
  by (rule parse_word_parts_total) (simp add: byte_in_def)

text \<open>A word without special bytes is one literal, in which every byte has become a character.\<close>

lemma plain_word:
  "list_all (\<lambda>c. c \<notin> set word_specials) s \<Longrightarrow> drop i wd = s \<Longrightarrow>
   word_parts_loop wd (i, lit, parts) = Ok (flush (lit @ concat (map byte_char s)) parts)"
proof (induction s arbitrary: i lit)
  case Nil
  then show ?case by (simp add: word_parts_loop.simps [of wd i])
next
  case (Cons c s)
  note at = drop_ConsD [OF Cons.prems(2)]
  have "parse_word_part wd (i, lit, parts) = Ok (i + 1, lit @ byte_char c, parts)"
    using at Cons.prems(1) by (auto simp: parse_word_part_def word_specials_def Let_def)
  then show ?case
    using word_loop_step [OF at(1), of lit parts "i + 1"] Cons at by simp
qed

lemma byte_char_length: "length (byte_char c) = (if is_ascii c then 1 else 2)"
  by (simp add: byte_char_def byte_in_def Let_def)

lemma byte_chars_longer: "length s \<le> length (concat (map byte_char s)) \<and>
   (length (concat (map byte_char s)) = length s \<longleftrightarrow> list_all is_ascii s)"
  by (induction s) (auto simp: byte_char_length)

lemma byte_chars_ascii: "list_all is_ascii s \<Longrightarrow> concat (map byte_char s) = s"
  by (induction s) (simp_all add: byte_char_ascii)

text \<open>
  Text outside ASCII is not kept: a word without quotes and expansions is read as itself
  exactly when all its bytes are ASCII; otherwise each byte of a longer character is taken for a
  character of its own.
\<close>

theorem plain_word_kept_iff_ascii:
  assumes "s \<noteq> []" "list_all (\<lambda>c. c \<notin> set word_specials) s"
  shows "parse_word_parts s = Ok [Literal s] \<longleftrightarrow> list_all is_ascii s"
proof -
  have "concat (map byte_char s) \<noteq> []" using byte_chars_longer [of s] assms(1) by (metis le_zero_eq length_0_conv)
  then have "parse_word_parts s = Ok [Literal (concat (map byte_char s))]"
    using plain_word [OF assms(2), of 0 s "[]" "[]"] by (simp add: parse_word_parts_def flush_def)
  then show ?thesis using byte_chars_longer [of s] byte_chars_ascii [of s] by auto
qed

theorem plain_word_kept_iff_ascii_witness: "parse_word_parts [CHR 0xC3, CHR 0xA9] \<noteq> Ok [Literal [CHR 0xC3, CHR 0xA9]]"
  using plain_word_kept_iff_ascii [of "[CHR 0xC3, CHR 0xA9]"] by (simp add: word_specials_def byte_in_def)

end
