(* ===== verification/Parser_Logic.thy ===== *)
theory Parser_Logic
  imports Parser Lexer_Stops Word_Parser_Props
begin

text \<open>
  A program logic for the parser.  \<open>good d\<close> is the invariant of its state at nesting depth
  \<open>d\<close>: the tokens read ahead
  follow the current one in the source, the lexer is behind them, and every token is a slice of valid
  text.  \<open>runs d p Q r\<close> says that a method started in state \<open>p\<close> did not panic and, when it
  succeeded, left a good state whose current token is not before the old one and a value with
  \<open>Q\<close>; \<open>fwd d p Q r\<close> says in addition that on success it consumed a token.
\<close>

section \<open>The invariant\<close>

fun chain :: "string \<Rightarrow> nat \<Rightarrow> token list \<Rightarrow> nat \<Rightarrow> bool" where
  "chain s i [] j = (i \<le> j)"
| "chain s i (t # ts) j =
     (i \<le> unat (span_start (tok_span t)) \<and> token_at s t \<and> chain s (unat (span_end (tok_span t))) ts j)"

definition good :: "u32 \<Rightarrow> parser \<Rightarrow> bool" where
  "good d p \<longleftrightarrow>
     (let s = parser_source p; lx = parser_lexer p in
      nesting_depth p = d \<and> length s < 2 ^ 32 \<and> source lx = s \<and> ready lx \<and> token_at s (current p) \<and>
      chain s (unat (span_end (tok_span (current p)))) (peeked p) (pos lx))"

definition step :: "u32 \<Rightarrow> parser \<Rightarrow> parser \<Rightarrow> bool" where
  "step d p q \<longleftrightarrow> good d q \<and> parser_source q = parser_source p \<and>
     cur_start p \<le> cur_start q"

definition runs :: "u32 \<Rightarrow> parser \<Rightarrow> ('a \<Rightarrow> parser \<Rightarrow> bool) \<Rightarrow> 'a presult \<Rightarrow> bool" where
  "runs d p Q r \<longleftrightarrow>
     (case snd r of Ok x \<Rightarrow> step d p (fst r) \<and> Q x (fst r) | Err e \<Rightarrow> True | Panic m \<Rightarrow> False)"

definition fwd :: "u32 \<Rightarrow> parser \<Rightarrow> ('a \<Rightarrow> parser \<Rightarrow> bool) \<Rightarrow> 'a presult \<Rightarrow> bool" where
  "fwd d p Q r \<longleftrightarrow> runs d p (\<lambda>x q. Q x q \<and> later p q) r"

lemma step_refl: "good d p \<Longrightarrow> step d p p"
  by (simp add: step_def)

lemma step_trans: "step d p q \<Longrightarrow> step d q r \<Longrightarrow> step d p r"
  by (auto simp: step_def)

lemma step_good: "step d p q \<Longrightarrow> good d q"
  by (simp add: step_def)

lemma later_step: "later p q \<Longrightarrow> step d q r \<Longrightarrow> later p r"
  by (auto simp: later_def step_def)

lemma step_later: "step d p q \<Longrightarrow> later q r \<Longrightarrow> later p r"
  by (auto simp: later_def step_def)

section \<open>Rules\<close>

lemma runs_Ok: "good d p \<Longrightarrow> Q x p \<Longrightarrow> runs d p Q (p, Ok x)"
  by (simp add: runs_def step_refl)

lemma runs_fail: "good d p \<Longrightarrow> runs d p Q (parse_fail p msg off)"
  by (simp add: runs_def parse_fail_def step_refl)

lemma fwd_fail: "good d p \<Longrightarrow> fwd d p Q (parse_fail p msg off)"
  by (simp add: fwd_def runs_fail)

lemma fwd_runs: "fwd d p Q r \<Longrightarrow> runs d p Q r"
  by (auto simp: fwd_def runs_def split: result.splits)

lemma runs_weaken: "runs d p Q r \<Longrightarrow> (\<And>x q. Q x q \<Longrightarrow> step d p q \<Longrightarrow> Q' x q) \<Longrightarrow> runs d p Q' r"
  by (auto simp: runs_def split: result.splits)

lemma fwd_weaken: "fwd d p Q r \<Longrightarrow> (\<And>x q. Q x q \<Longrightarrow> step d p q \<Longrightarrow> Q' x q) \<Longrightarrow> fwd d p Q' r"
  by (auto simp: fwd_def runs_def split: result.splits)

lemma runs_bind:
  assumes "runs d p Q m" "\<And>x q. step d p q \<Longrightarrow> good d q \<Longrightarrow> Q x q \<Longrightarrow> runs d q Q' (k x q)"
  shows "runs d p Q' (pbind m k)"
proof -
  obtain q r where m: "m = (q, r)" by (cases m)
  show ?thesis
  proof (cases r)
    case (Ok x)
    then have "runs d q Q' (k x q)" using assms m by (auto simp: runs_def dest: step_good)
    then show ?thesis
      using assms(1) m Ok by (auto simp: runs_def pbind_def intro: step_trans split: result.splits)
  qed (use assms(1) m in \<open>auto simp: runs_def pbind_def\<close>)
qed

lemma runs_step: "step d p q \<Longrightarrow> runs d q Q r \<Longrightarrow> runs d p Q r"
  by (auto simp: runs_def intro: step_trans split: result.splits)

lemma fwd_step: "step d p q \<Longrightarrow> fwd d q Q r \<Longrightarrow> fwd d p Q r"
  unfolding fwd_def by (rule runs_step, assumption) (auto elim!: runs_weaken intro: step_later)

lemma fwd_bind1:
  assumes "fwd d p Q m" "\<And>x q. step d p q \<Longrightarrow> good d q \<Longrightarrow> Q x q \<Longrightarrow> runs d q Q' (k x q)"
  shows "fwd d p Q' (pbind m k)"
  unfolding fwd_def
proof (rule runs_bind [OF assms(1) [unfolded fwd_def]])
  fix x q assume "step d p q" "good d q" "Q x q \<and> later p q"
  then show "runs d q (\<lambda>x q. Q' x q \<and> later p q) (k x q)"
    by (auto intro: runs_weaken [OF assms(2)] later_step)
qed

lemma fwd_bind2:
  assumes "runs d p Q m" "\<And>x q. step d p q \<Longrightarrow> good d q \<Longrightarrow> Q x q \<Longrightarrow> fwd d q Q' (k x q)"
  shows "fwd d p Q' (pbind m k)"
  unfolding fwd_def
proof (rule runs_bind [OF assms(1)])
  fix x q assume s: "step d p q" "good d q" "Q x q"
  have "runs d q (\<lambda>x r. Q' x r \<and> later q r) (k x q)" using assms(2) [OF s] by (simp add: fwd_def)
  then show "runs d q (\<lambda>x q. Q' x q \<and> later p q) (k x q)"
    by (rule runs_weaken) (use s(1) step_later in blast)
qed

lemma runs_if: "(b \<Longrightarrow> runs d p Q x) \<Longrightarrow> (\<not> b \<Longrightarrow> runs d p Q y) \<Longrightarrow> runs d p Q (if b then x else y)"
  by simp

lemma fwd_if: "(b \<Longrightarrow> fwd d p Q x) \<Longrightarrow> (\<not> b \<Longrightarrow> fwd d p Q y) \<Longrightarrow> fwd d p Q (if b then x else y)"
  by simp

text \<open>
  A loop keeps \<open>J\<close> as long as it goes on, and its last iteration gives \<open>Q\<close>.
\<close>

lemma runs_loop:
  assumes body: "\<And>acc q. good d q \<Longrightarrow> step d p q \<Longrightarrow> J acc q \<Longrightarrow>
      runs d q (\<lambda>(acc', go) q'. if go then J acc' q' \<and> later q q' else Q acc' q') (body acc q)"
    and "good d p" "J acc p"
  shows "runs d p Q (parse_loop body acc p)"
proof -
  have "step d p q \<Longrightarrow> J acc q \<Longrightarrow> runs d q Q (parse_loop body acc q)" for q
  proof (induction "2 ^ 32 - unat (cur_start q)" arbitrary: acc q rule: less_induct)
    case less
    note B = body [OF step_good [OF less.prems(1)] less.prems]
    obtain q' r where b: "body acc q = (q', r)" by (cases "body acc q")
    show ?case
    proof (cases r)
      case (Ok x)
      obtain acc' go where x: "x = (acc', go)" by (cases x)
      show ?thesis
      proof (cases go)
        case True
        then have J: "J acc' q'" "later q q'" "step d q q'" using B b Ok x by (auto simp: runs_def)
        then have "runs d q' Q (parse_loop body acc' q')"
          using less.hyps [OF later_measure] less.prems(1) step_trans by blast
        moreover have "parse_loop body acc q = parse_loop body acc' q'"
          by (subst parse_loop.simps) (simp add: b Ok x True J(2))
        ultimately show ?thesis using runs_step [OF J(3)] by simp
      next
        case False
        then show ?thesis using B b Ok x by (subst parse_loop.simps) (simp add: runs_def)
      qed
    qed (use B b in \<open>subst parse_loop.simps, simp add: runs_def\<close>)+
  qed
  then show ?thesis using assms(2,3) step_refl by blast
qed

section \<open>Tokens\<close>

lemma chain_mono: "chain s i ts j \<Longrightarrow> j \<le> k \<Longrightarrow> chain s i ts k"
  by (induction ts arbitrary: i) auto

lemma chain_snoc:
  "chain s i ts j \<Longrightarrow> token_at s t \<Longrightarrow> j \<le> unat (span_start (tok_span t)) \<Longrightarrow>
   chain s i (ts @ [t]) (unat (span_end (tok_span t)))"
  by (induction ts arbitrary: i) auto

lemma chain_first:
  "token_at s t \<Longrightarrow> unat (span_start (tok_span t)) \<le> unat (span_end (tok_span t))"
  by (auto simp: token_at_def Let_def split: if_splits)

lemma lex_next_cases:
  assumes "length (parser_source p) < 2 ^ 32" "source (parser_lexer p) = parser_source p"
    and "ready (parser_lexer p)"
  obtains (token) lx t where "lex_next p = (p\<lparr>parser_lexer := lx\<rparr>, Ok t)" "ready lx"
      "source lx = parser_source p" "token_at (parser_source p) t"
      "pos (parser_lexer p) \<le> unat (span_start (tok_span t))" "pos lx = unat (span_end (tok_span t))"
  | (error) lx e where "lex_next p = (p\<lparr>parser_lexer := lx\<rparr>, Err e)" "ready lx"
      "source lx = parser_source p" "pos (parser_lexer p) \<le> pos lx"
proof -
  obtain lx r where n: "next_token (parser_lexer p) = (lx, r)" by (cases "next_token (parser_lexer p)")
  note c = next_token_contract [OF assms(3) _ n, unfolded assms(2), OF assms(1)]
  show ?thesis
  proof (cases r)
    case (Ok t)
    then show ?thesis using token [of lx t] c n by (simp add: lex_next_def)
  next
    case (Err e)
    then show ?thesis using error [of lx "lex_err e"] c n by (simp add: lex_next_def)
  next
    case (Panic m)
    then show ?thesis using c(5) by blast
  qed
qed

lemma good_parts:
  assumes "good d p"
  shows "length (parser_source p) < 2 ^ 32" "source (parser_lexer p) = parser_source p"
    "ready (parser_lexer p)" "valid_utf8 (parser_source p)" "token_at (parser_source p) (current p)"
    "chain (parser_source p) (unat (span_end (tok_span (current p)))) (peeked p) (pos (parser_lexer p))"
  using assms by (auto simp: good_def Let_def ready_def)

lemma advance_runs: "good d p \<Longrightarrow> runs d p (\<lambda>t q. t = current p \<and> (cur_kind p \<noteq> Eof \<longrightarrow> later p q)) (advance_token p)"
proof -
  assume g: "good d p"
  note gp = good_parts [OF g]
  have start: "unat (cur_start p) \<le> unat (span_end (tok_span (current p)))"
    "cur_kind p \<noteq> Eof \<Longrightarrow> unat (cur_start p) < unat (span_end (tok_span (current p)))"
    using gp(5) by (auto simp: token_at_def Let_def split: if_splits)
  let ?p = "p\<lparr>prev_end := span_end (tok_span (current p))\<rparr>"
  show ?thesis
  proof (cases "peeked p")
    case (Cons t ts)
    then show ?thesis
      using gp g start
      by (auto simp: advance_token_def runs_def step_def good_def later_def word_le_nat_alt word_less_nat_alt Let_def)
  next
    case Nil
    have "length (parser_source ?p) < 2 ^ 32" "source (parser_lexer ?p) = parser_source ?p"
      "ready (parser_lexer ?p)" using gp by simp_all
    then show ?thesis
    proof (cases rule: lex_next_cases)
      case (token lx t)
      then show ?thesis
        using gp g start Nil
        by (auto simp: advance_token_def pbind_def runs_def step_def good_def later_def word_le_nat_alt
            word_less_nat_alt Let_def)
    next
      case (error lx e)
      then show ?thesis
        using gp g start Nil
        by (auto simp: advance_token_def pbind_def runs_def step_def good_def Let_def)
    qed
  qed
qed

lemma advance_fwd: "good d p \<Longrightarrow> cur_kind p \<noteq> Eof \<Longrightarrow> fwd d p (\<lambda>t q. t = current p) (advance_token p)"
  unfolding fwd_def by (rule runs_weaken [OF advance_runs]) auto

text \<open>Looking ahead leaves a good state also when the lexer fails.\<close>

lemma peek_nth_step: "good d p \<Longrightarrow> step d p (fst (peek_nth n p)) \<and> (\<forall>m. snd (peek_nth n p) \<noteq> Panic m)"
proof (induction n p rule: peek_nth.induct)
  case (1 n p)
  note gp = good_parts [OF "1.prems"]
  show ?case
  proof (cases "length (peeked p) \<le> n")
    case True
    from gp(1-3) show ?thesis
    proof (cases rule: lex_next_cases)
      case (token lx t)
      let ?q = "p\<lparr>parser_lexer := lx, peeked := peeked p @ [t]\<rparr>"
      have q: "good d ?q" "step d p ?q"
        using token gp "1.prems" chain_snoc [OF gp(6) token(4,5)]
        by (auto simp: good_def step_def Let_def)
      then show ?thesis
        using "1.IH" [OF True token(1) [symmetric] refl] True token(1) step_trans [OF q(2)]
        by (subst (1 2) peek_nth.simps) simp
    next
      case (error lx e)
      then show ?thesis
        using True gp "1.prems" chain_mono [OF gp(6) error(4)]
        by (subst (1 2) peek_nth.simps) (auto simp: step_def good_def Let_def)
    qed
  next
    case False
    then show ?thesis using "1.prems" by (subst (1 2) peek_nth.simps) (simp add: step_refl)
  qed
qed

lemma peek_nth_current [simp]: "current (fst (peek_nth n p)) = current p"
proof (induction n p rule: peek_nth.induct)
  case (1 n p)
  have l: "current (fst (lex_next p)) = current p"
    by (simp add: lex_next_def split: prod.splits)
  show ?case
    using 1 l by (subst peek_nth.simps) (auto split: prod.splits result.splits)
qed

lemma peek_nth_runs: "good d p \<Longrightarrow> runs d p (\<lambda>t q. current q = current p) (peek_nth n p)"
  using peek_nth_step [of d p n] by (auto simp: runs_def split: result.splits)

lemma try_peek_runs: "good d p \<Longrightarrow> runs d p (\<lambda>t q. current q = current p) (try_peek n p)"
  using peek_nth_step [of d p n] peek_nth_current [of n p]
  by (cases "peek_nth n p") (auto simp: try_peek_def runs_def split: result.splits)

text \<open>The tests that look ahead keep the current token.\<close>

abbreviation peeks :: "u32 \<Rightarrow> parser \<Rightarrow> 'a presult \<Rightarrow> bool" where
  "peeks d p \<equiv> runs d p (\<lambda>x q. current q = current p)"

lemma peeks_bind:
  assumes "peeks d p m" "\<And>x q. good d q \<Longrightarrow> current q = current p \<Longrightarrow> peeks d q (k x q)"
  shows "peeks d p (pbind m k)"
  by (rule runs_bind [OF assms(1)]) (use assms(2) in \<open>auto elim!: runs_weaken\<close>)

lemma peeks_Ok: "good d p \<Longrightarrow> peeks d p (p, Ok x)"
  by (simp add: runs_Ok)

lemmas peeks_intros = runs_if peeks_bind try_peek_runs peek_nth_runs peeks_Ok

lemma lookahead_runs:
  assumes "good d p"
  shows "peeks d p (peek_kind_is n k p)" "peeks d p (at_fd_prefix_redirection p)" "peeks d p (peek_is_lparen p)"
    "peeks d p (is_double_semi p)" "peeks d p (is_case_fallthrough p)" "peeks d p (is_case_continue_testing p)"
    "peeks d p (is_arith_for_start p)" "peeks d p (at_list_semi p)" "peeks d p (at_function_parens p)"
proof -
  have k: "peeks d p (peek_kind_is n k p)" if "good d p" for n k p
    unfolding peek_kind_is_def using that by (intro peeks_intros)
  note k [intro]
  show "peeks d p (peek_kind_is n k p)" using assms by (rule k)
  show "peeks d p (peek_is_lparen p)" using assms by (simp add: peek_is_lparen_def k)
  have tests: "peeks d p (is_double_semi p)" "peeks d p (is_case_fallthrough p)"
    "peeks d p (is_case_continue_testing p)" if "good d p" for p
    unfolding is_double_semi_def is_case_fallthrough_def is_case_continue_testing_def
    using that by (auto intro!: peeks_intros k)
  show "peeks d p (is_double_semi p)" "peeks d p (is_case_fallthrough p)" "peeks d p (is_case_continue_testing p)"
    using tests assms by blast+
  show "peeks d p (at_list_semi p)"
    unfolding at_list_semi_def using assms by (intro peeks_intros tests)
  show "peeks d p (at_fd_prefix_redirection p)" "peeks d p (is_arith_for_start p)" "peeks d p (at_function_parens p)"
    unfolding at_fd_prefix_redirection_def is_arith_for_start_def at_function_parens_def Let_def
    using assms by (auto intro!: peeks_intros)
qed

section \<open>Loops\<close>

text \<open>The two halves of an iteration: before and after it has consumed a token.\<close>

definition iter ::
    "u32 \<Rightarrow> parser \<Rightarrow> ('a \<Rightarrow> parser \<Rightarrow> bool) \<Rightarrow> ('a \<Rightarrow> parser \<Rightarrow> bool) \<Rightarrow> ('a \<times> bool) presult \<Rightarrow> bool" where
  "iter d p J Q r \<longleftrightarrow> runs d p (\<lambda>(acc, go) q. if go then J acc q \<and> later p q else Q acc q) r"

definition ends ::
    "u32 \<Rightarrow> parser \<Rightarrow> ('a \<Rightarrow> parser \<Rightarrow> bool) \<Rightarrow> ('a \<Rightarrow> parser \<Rightarrow> bool) \<Rightarrow> ('a \<times> bool) presult \<Rightarrow> bool" where
  "ends d p J Q r \<longleftrightarrow> runs d p (\<lambda>(acc, go) q. if go then J acc q else Q acc q) r"

lemma iter_leave: "good d p \<Longrightarrow> Q acc p \<Longrightarrow> iter d p J Q (leave p acc)"
  by (simp add: iter_def runs_Ok)

lemma iter_fail: "good d p \<Longrightarrow> iter d p J Q (parse_fail p msg off)"
  by (simp add: iter_def runs_fail)

lemma iter_if: "(b \<Longrightarrow> iter d p J Q x) \<Longrightarrow> (\<not> b \<Longrightarrow> iter d p J Q y) \<Longrightarrow> iter d p J Q (if b then x else y)"
  by simp

lemma iter_bind:
  assumes "fwd d p R m" "\<And>x q. step d p q \<Longrightarrow> good d q \<Longrightarrow> R x q \<Longrightarrow> ends d q J Q (k x q)"
  shows "iter d p J Q (pbind m k)"
proof -
  have "fwd d p (\<lambda>(acc, go) q. if go then J acc q else Q acc q) (pbind m k)"
    using assms unfolding ends_def by (rule fwd_bind1)
  then show ?thesis
    unfolding iter_def fwd_def by (rule runs_weaken) (auto split: if_splits)
qed

lemma iter_bind_peek:
  assumes "runs d p R m" "\<And>x q. step d p q \<Longrightarrow> good d q \<Longrightarrow> R x q \<Longrightarrow> iter d q J Q (k x q)"
  shows "iter d p J Q (pbind m k)"
  unfolding iter_def
proof (rule runs_bind [OF assms(1)])
  fix x q assume s: "step d p q" "good d q" "R x q"
  show "runs d q (\<lambda>(acc, go) q. if go then J acc q \<and> later p q else Q acc q) (k x q)"
    by (rule runs_weaken [OF assms(2) [OF s, unfolded iter_def]])
      (use step_later [OF s(1)] in \<open>auto split: if_splits\<close>)
qed

lemma ends_go: "good d p \<Longrightarrow> J acc p \<Longrightarrow> ends d p J Q (go_on p acc)"
  by (simp add: ends_def runs_Ok)

lemma ends_leave: "good d p \<Longrightarrow> Q acc p \<Longrightarrow> ends d p J Q (leave p acc)"
  by (simp add: ends_def runs_Ok)

lemma ends_bind:
  "runs d p R m \<Longrightarrow> (\<And>x q. step d p q \<Longrightarrow> good d q \<Longrightarrow> R x q \<Longrightarrow> ends d q J Q (k x q)) \<Longrightarrow>
   ends d p J Q (pbind m k)"
  unfolding ends_def by (rule runs_bind)

lemma ends_if: "(b \<Longrightarrow> ends d p J Q x) \<Longrightarrow> (\<not> b \<Longrightarrow> ends d p J Q y) \<Longrightarrow> ends d p J Q (if b then x else y)"
  by simp

lemma loop_rule:
  assumes "\<And>acc q. step d p q \<Longrightarrow> good d q \<Longrightarrow> J acc q \<Longrightarrow> iter d q J Q (body acc q)" "good d p" "J acc p"
  shows "runs d p Q (parse_loop body acc p)"
  using assms unfolding iter_def by (rule runs_loop [where J = J]) blast

lemmas logic_intros = runs_if fwd_if iter_if ends_if iter_leave iter_fail ends_go ends_leave
  runs_fail fwd_fail ends_bind iter_bind

text \<open>A value about which nothing is said.\<close>

definition any :: "'a \<Rightarrow> parser \<Rightarrow> bool" where "any x q = True"

lemma any [simp, intro]: "any x q" by (simp add: any_def)

end
