(* ===== verification/Parser_Props.thy ===== *)
theory Parser_Props
  imports Parser_Logic
begin

text \<open>
  What the parser guarantees: no valid source makes it panic or run for ever, and every program
  it returns is well formed and nested no deeper than the limit.
\<close>

section \<open>Words\<close>

lemma skip_newlines_runs: "good d p \<Longrightarrow> runs d p any (skip_newlines p)"
  unfolding skip_newlines_def
  by (rule loop_rule [where J = any]) (auto simp: newline_step_def intro!: logic_intros advance_fwd)

lemma at_word_Eof: "at_word p \<Longrightarrow> cur_kind p \<noteq> Eof"
  by (auto simp: at_word_def)

lemma expect_word_fwd: "good d p \<Longrightarrow> fwd d p any (expect_word wd p)"
  unfolding expect_word_def
  by (auto simp: at_word_eq_def at_word_Eof intro!: logic_intros fwd_weaken [OF advance_fwd])

lemma token_text_valid: "valid_utf8 s \<Longrightarrow> token_at s t \<Longrightarrow> valid_utf8 (token_text t s)"
  using valid_utf8_slice token_text_slice [where ?'a = unit] by blast

lemma parse_parts_runs: "good d p \<Longrightarrow> valid_utf8 wd \<Longrightarrow> runs d p any (parse_parts wd p)"
  using word_parts_loop_ok [of wd 0 "[]" "[]"]
  by (auto simp: parse_parts_def parse_word_parts_def runs_def step_refl)

text \<open>The text of a token the parser held is valid also after it has moved on.\<close>

lemma held_text_valid:
  assumes "good d p" "step d p q"
  shows "valid_utf8 (token_text (current p) (parser_source q))"
  using good_parts(4,5) [OF assms(1)] assms(2) token_text_valid by (simp add: step_def)

lemma parse_word_runs: "good d p \<Longrightarrow> runs d p any (parse_word p)"
  unfolding parse_word_def
  by (rule runs_bind [OF advance_runs], assumption, rule runs_bind [OF parse_parts_runs])
    (auto intro!: runs_Ok held_text_valid)

lemma parse_word_fwd: "good d p \<Longrightarrow> cur_kind p \<noteq> Eof \<Longrightarrow> fwd d p any (parse_word p)"
  unfolding parse_word_def
  by (rule fwd_bind1 [OF advance_fwd], assumption+, rule runs_bind [OF parse_parts_runs])
    (auto intro!: runs_Ok held_text_valid)

lemma process_subst_loop_runs:
  "good d p \<Longrightarrow> runs d p any (parse_loop (process_subst_step st) depth p)"
  by (rule loop_rule [where J = any])
    (auto simp: process_subst_step_def Let_def intro!: logic_intros advance_fwd)

lemma start_slice:
  assumes "good d p" "step d p q"
  shows "\<exists>t. str_slice (parser_source q) (unat (cur_start p)) (unat (cur_start q)) = Ok t"
  using good_parts(5) [OF assms(1)] good_parts(5) [OF step_good [OF assms(2)]] assms(2)
  by (auto simp: str_slice_def token_at_def step_def word_le_nat_alt Let_def split: if_splits)

lemma slice_runs:
  "good d p \<Longrightarrow> \<exists>t. (str_slice s i j :: (string, parse_error) result) = Ok t \<Longrightarrow>
   runs d p any (p, str_slice s i j)"
  by (auto simp: runs_Ok)

lemma process_substitution_fwd:
  "good d p \<Longrightarrow> cur_kind p \<noteq> Eof \<Longrightarrow> fwd d p any (parse_process_substitution_word p)"
  unfolding parse_process_substitution_word_def Let_def
  by (rule fwd_bind1 [OF advance_fwd], assumption+, rule runs_bind [OF advance_runs], assumption,
      rule runs_bind [OF process_subst_loop_runs], assumption, rule runs_bind [OF slice_runs], assumption,
      rule start_slice, assumption+, rule runs_bind [OF advance_runs])
    (auto intro!: runs_Ok)
lemma at_word_word: "cur_kind p = Word b \<Longrightarrow> at_word p"
  by (simp add: at_word_def)

lemma elements_runs: "good d p \<Longrightarrow> runs d p any (parse_loop elements_step acc p)"
  by (rule loop_rule [where J = any])
    (auto simp: elements_step_def at_word_Eof intro!: logic_intros advance_fwd)

lemma elements_end_runs: "good d p \<Longrightarrow> runs d p any (elements_end p)"
  unfolding elements_end_def
  by (auto intro!: runs_if runs_bind [OF advance_runs] runs_Ok)

lemma compound_value_runs: "good d p \<Longrightarrow> runs d p any (compound_value p)"
  unfolding compound_value_def
  by (rule runs_bind [OF advance_runs], assumption, rule runs_bind [OF elements_runs], assumption,
      rule runs_bind [OF elements_end_runs], assumption) (auto intro!: runs_Ok)

lemma parse_compound_assign_word_fwd:
  "good d p \<Longrightarrow> cur_kind p \<noteq> Eof \<Longrightarrow> fwd d p any (parse_compound_assign_word p)"
  unfolding parse_compound_assign_word_def
  by (rule fwd_bind1 [OF advance_fwd], assumption+, rule runs_bind [OF compound_value_runs])
    (auto intro!: runs_Ok)

section \<open>Assignments\<close>

lemma is_assignment_find: "is_assignment_text wd \<Longrightarrow> \<exists>i. find_char (CHR ''='') wd = Some i"
  by (auto simp: is_assignment_text_def split: option.splits)

lemma valid_after_find:
  assumes "valid_utf8 wd" "find_char c wd = Some i" "is_ascii c"
  shows "valid_utf8 (drop (i + 1) wd)"
proof -
  have "i < length wd" "wd ! i = c" using find_char_Some [OF assms(2)] by auto
  then have "is_char_boundary wd (Suc i)" using boundary_after_ascii assms(1,3) by blast
  then show ?thesis using valid_utf8_split [OF assms(1), of "i + 1"] \<open>i < length wd\<close> by simp
qed

lemma assignment_value_runs:
  assumes "good d p" "valid_utf8 val_str"
  shows "runs d p any (if val_str = [] then parse_assignment_compound_value tok eq_pos p
    else pbind (make_assignment_word tok eq_pos val_str p) (\<lambda>v p. (p, Ok (Some v))))"
proof (rule runs_if)
  show "runs d p any (parse_assignment_compound_value tok eq_pos p)"
    unfolding parse_assignment_compound_value_def
    by (rule runs_if, rule runs_Ok [OF assms(1)], simp, rule runs_bind [OF compound_value_runs [OF assms(1)]])
      (auto intro!: runs_Ok)
  show "runs d p any (pbind (make_assignment_word tok eq_pos val_str p) (\<lambda>v p. (p, Ok (Some v))))"
    unfolding make_assignment_word_def
    by (rule runs_bind, rule runs_bind [OF parse_parts_runs [OF assms]]) (auto intro!: runs_Ok)
qed

lemma parse_assignment_fwd:
  assumes "good d p" "at_word p" "is_assignment_text (current_text p)"
  shows "fwd d p any (parse_assignment p)"
  unfolding parse_assignment_def
proof (rule fwd_bind1 [OF advance_fwd [OF assms(1) at_word_Eof [OF assms(2)]]])
  fix tok q assume q: "step d p q" "good d q" "tok = current p"
  let ?wd = "token_text tok (parser_source q)"
  have "?wd = current_text p" using q by (simp add: current_text_def step_def)
  then obtain i where i: "find_char (CHR ''='') ?wd = Some i" using assms(3) is_assignment_find by auto
  have "valid_utf8 ?wd" using held_text_valid [OF assms(1) q(1)] q(3) by simp
  then have "valid_utf8 (drop (i + 1) ?wd)" by (rule valid_after_find [OF _ i]) (simp add: byte_in_def)
  then show "runs d q any (assignment_of tok q)"
    unfolding assignment_of_def Let_def i option.case
    by (rule runs_bind [OF assignment_value_runs [OF q(2)]]) (auto intro!: runs_Ok)
qed

section \<open>Redirections\<close>

definition wf_redir :: "redirection \<Rightarrow> bool" where
  "wf_redir r \<longleftrightarrow> (redir_here_doc r \<noteq> None \<longrightarrow> redir_op r = HereDoc \<or> redir_op r = HereDocStrip)"

abbreviation redirs_ok :: "redirection list \<Rightarrow> parser \<Rightarrow> bool" where
  "redirs_ok rs q \<equiv> list_all wf_redir rs"

lemma good_pending [simp]: "good d (p\<lparr>pending_heredocs := hs\<rparr>) = good d p"
  by (simp add: good_def)

lemma runs_pending: "good d p \<Longrightarrow> Q x (p\<lparr>pending_heredocs := hs\<rparr>) \<Longrightarrow> runs d p Q (p\<lparr>pending_heredocs := hs\<rparr>, Ok x)"
  by (simp add: runs_def step_def)

lemma parse_dup_runs: "good d p \<Longrightarrow> runs d p (\<lambda>r q. wf_redir r) (parse_dup tok p)"
  unfolding parse_dup_def
  by (rule runs_bind [OF advance_runs], assumption)
    (auto intro!: runs_if runs_fail runs_bind [OF parse_word_runs] runs_Ok simp: wf_redir_def)

lemma redirection_to_runs: "good d p \<Longrightarrow> runs d p (\<lambda>r q. wf_redir r) (redirection_to tok op h p)"
  unfolding redirection_to_def Let_def
  by (rule runs_bind [OF parse_word_runs], assumption)
    (cases h, auto intro!: runs_Ok runs_pending simp: wf_redir_def)

lemma redirection_after_runs: "good d p \<Longrightarrow> runs d p (\<lambda>r q. wf_redir r) (redirection_after tok p)"
  unfolding redirection_after_def
  by (auto split: option.splits intro!: runs_fail parse_dup_runs redirection_to_runs)

lemma parse_redirection_runs: "good d p \<Longrightarrow> runs d p (\<lambda>r q. wf_redir r) (parse_redirection p)"
  unfolding parse_redirection_def by (rule runs_bind [OF advance_runs]) (auto intro: redirection_after_runs)

lemma parse_redirection_fwd:
  "good d p \<Longrightarrow> cur_kind p \<noteq> Eof \<Longrightarrow> fwd d p (\<lambda>r q. wf_redir r) (parse_redirection p)"
  unfolding parse_redirection_def by (rule fwd_bind1 [OF advance_fwd]) (auto intro: redirection_after_runs)

lemma at_redirection_Eof: "at_redirection p \<Longrightarrow> cur_kind p \<noteq> Eof"
  by (auto simp: at_redirection_def)

lemma parse_fd_prefixed_fwd:
  "good d p \<Longrightarrow> cur_kind p \<noteq> Eof \<Longrightarrow> fwd d p (\<lambda>r q. wf_redir r) (parse_fd_prefixed_redirection p)"
  unfolding parse_fd_prefixed_redirection_def Let_def
  by (rule fwd_bind1 [OF advance_fwd], assumption+, rule runs_bind [OF parse_redirection_runs])
    (auto intro!: runs_Ok simp: wf_redir_def)

lemma fd_prefix_word:
  "good d p \<Longrightarrow> runs d p (\<lambda>b q. current q = current p \<and> (b \<longrightarrow> at_word p)) (at_fd_prefix_redirection p)"
proof (cases "at_word p")
  case False
  then show "good d p \<Longrightarrow> ?thesis" by (simp add: at_fd_prefix_redirection_def runs_Ok)
qed (auto intro: runs_weaken [OF lookahead_runs(2)])

lemma current_Eof: "current q = current p \<Longrightarrow> at_word p \<or> at_redirection p \<Longrightarrow> cur_kind q \<noteq> Eof"
  using at_word_Eof [of p] at_redirection_Eof [of p] by auto

lemma trailing_runs: "good d p \<Longrightarrow> runs d p redirs_ok (parse_trailing_redirections p)"
  unfolding parse_trailing_redirections_def
proof (rule loop_rule [where J = redirs_ok])
  fix rs q assume q: "good d q" "redirs_ok rs q"
  have start: "runs d q (\<lambda>b q'. current q' = current q \<and> (b \<longrightarrow> at_word q \<or> at_redirection q))
      (if at_redirection q then (q, Ok True) else at_fd_prefix_redirection q)"
    using q(1) by (auto intro: runs_Ok runs_weaken [OF fd_prefix_word])
  show "iter d q redirs_ok redirs_ok (trailing_step rs q)"
    unfolding trailing_step_def
  proof (rule iter_bind_peek [OF start])
    fix b q1 assume q1: "good d q1" "current q1 = current q \<and> (b \<longrightarrow> at_word q \<or> at_redirection q)"
    have "iter d q1 redirs_ok redirs_ok
       (pbind (at_fd_prefix_redirection q1) (\<lambda>b p.
         pbind (if b then parse_fd_prefixed_redirection p else parse_redirection p) (\<lambda>redir p.
           go_on p (rs @ [redir]))))" if b
    proof (rule iter_bind_peek [OF lookahead_runs(2) [OF q1(1)]])
      fix c q2 assume q2: "good d q2" "current q2 = current q1"
      have "cur_kind q2 \<noteq> Eof" using current_Eof [of q2 q] q1(2) q2(2) that by simp
      then show "iter d q2 redirs_ok redirs_ok
         (pbind (if c then parse_fd_prefixed_redirection q2 else parse_redirection q2) (\<lambda>redir p.
           go_on p (rs @ [redir])))"
        using q2(1) q(2)
        by (intro iter_bind [where R = "\<lambda>r q. wf_redir r"] fwd_if)
          (auto intro: parse_fd_prefixed_fwd parse_redirection_fwd ends_go)
    qed
    then show "iter d q1 redirs_ok redirs_ok
       (if \<not> b then leave q1 rs else pbind (at_fd_prefix_redirection q1) (\<lambda>b p.
         pbind (if b then parse_fd_prefixed_redirection p else parse_redirection p) (\<lambda>redir p.
           go_on p (rs @ [redir]))))"
      using q1(1) q(2) by (simp add: iter_leave)
  qed
qed auto

section \<open>Repositioning\<close>

lemma good_prev_end [simp]: "good d (p\<lparr>prev_end := e\<rparr>) = good d p"
  by (simp add: good_def)

lemma reposition_fwd:
  assumes "good d p" "unat (cur_start p) < i" "i \<le> length (parser_source p)"
    "is_char_boundary (parser_source p) i"
  shows "fwd d p any (reposition i p)"
proof -
  note gp = good_parts [OF assms(1)]
  let ?p = "p\<lparr>parser_lexer := set_position (parser_lexer p) i, peeked := []\<rparr>"
  have "length (parser_source ?p) < 2 ^ 32" "source (parser_lexer ?p) = parser_source ?p"
    "ready (parser_lexer ?p)"
    using gp assms(3,4) by (simp_all add: set_position_def ready_def)
  then show ?thesis
  proof (cases rule: lex_next_cases)
    case (token lx t)
    then show ?thesis
      using gp assms
      by (auto simp: reposition_def pbind_def fwd_def runs_def step_def good_def later_def Let_def
          set_position_def word_le_nat_alt word_less_nat_alt)
  qed (simp add: reposition_def pbind_def fwd_def runs_def)
qed

text \<open>The raw scan for the end of an arithmetic expression.\<close>

definition close_found :: "string \<Rightarrow> nat \<Rightarrow> (nat, nat option) result \<Rightarrow> bool" where
  "close_found s i r \<longleftrightarrow>
     (case r of
        Ok j \<Rightarrow> i \<le> j \<and> j + 1 < length s \<and> s ! j = CHR '')'' \<and> s ! (j + 1) = CHR '')''
      | Err e \<Rightarrow> True
      | Panic m \<Rightarrow> False)"

lemma close_found_later: "close_found s (i + 1) r \<Longrightarrow> close_found s i r"
  by (auto simp: close_found_def split: result.splits)

lemma arith_close_found: "close_found s i (arith_close s i depth)"
proof (induction s i depth rule: arith_close.induct)
  case (1 s i depth)
  note later = "1.IH" [THEN close_found_later]
  show ?case
    unfolding arith_close.simps [of s i depth]
    using later by (auto simp: close_found_def [of s i "Ok i"] close_found_def [of _ _ "Err _"])
qed

lemma collect_arith_expr_fwd: "good d p \<Longrightarrow> fwd d p any (collect_arith_expr p)"
proof -
  assume g: "good d p"
  note gp = good_parts [OF g]
  let ?s = "parser_source p" and ?b = "unat (cur_start p)"
  show ?thesis
  proof (cases "arith_close ?s ?b 0")
    case (Ok j)
    have j: "?b \<le> j" "j + 1 < length ?s" "?s ! j = CHR '')''" "?s ! (j + 1) = CHR '')''"
      using arith_close_found [of ?s ?b 0] Ok by (simp_all add: close_found_def)
    have b: "is_char_boundary ?s j" "is_char_boundary ?s (j + 2)"
      using j boundary_at_ascii [of j ?s] boundary_after_ascii [OF gp(4), of "j + 1"]
      by (simp_all add: byte_in_def)
    have sl: "\<exists>t. (str_slice ?s ?b j :: (string, parse_error) result) = Ok t"
      using j b(1) gp(5) by (auto simp: str_slice_def token_at_def Let_def split: if_splits)
    have "fwd d p any (pbind (p, str_slice ?s ?b j) (\<lambda>expr p.
        pbind (reposition (j + 2) (p\<lparr>prev_end := of_nat (j + 2)\<rparr>)) (\<lambda>_ p. (p, Ok (trim expr)))))"
    proof (rule fwd_bind2 [where Q = "\<lambda>t q. q = p"])
      show "runs d p (\<lambda>t q. q = p) (p, str_slice ?s ?b j)" using sl g by (auto intro: runs_Ok)
      fix expr q assume "q = p"
      moreover have "fwd d (p\<lparr>prev_end := of_nat (j + 2)\<rparr>) any
          (pbind (reposition (j + 2) (p\<lparr>prev_end := of_nat (j + 2)\<rparr>)) (\<lambda>_ p. (p, Ok (trim expr))))"
        by (rule fwd_bind1 [OF reposition_fwd]) (use g j b in \<open>auto intro: runs_Ok\<close>)
      ultimately show "fwd d q any
          (pbind (reposition (j + 2) (q\<lparr>prev_end := of_nat (j + 2)\<rparr>)) (\<lambda>_ p. (p, Ok (trim expr))))"
        by (simp add: fwd_def runs_def step_def later_def split: result.splits)
    qed
    then show ?thesis by (simp add: collect_arith_expr_def Ok)
  next
    case (Err e)
    then show ?thesis using g by (cases e) (simp_all add: collect_arith_expr_def fwd_fail)
  next
    case (Panic m)
    then show ?thesis using arith_close_found [of ?s ?b 0] by (simp add: close_found_def)
  qed
qed

section \<open>Here-documents\<close>

definition body_found :: "string \<Rightarrow> nat \<Rightarrow> ('a \<times> nat, parse_error) result \<Rightarrow> bool" where
  "body_found s i r \<longleftrightarrow>
     (case r of
        Ok (_, j) \<Rightarrow> i \<le> j \<and> j \<le> length s \<and> is_char_boundary s j
      | Err e \<Rightarrow> True
      | Panic m \<Rightarrow> False)"

lemma heredoc_line_ok:
  assumes "valid_utf8 s" "i \<le> length s" "is_char_boundary s i"
  obtains e line where "heredoc_line s i = Ok (i, e, line)" "i \<le> e" "e \<le> length s" "is_char_boundary s e"
    "e < length s \<Longrightarrow> s ! e = ch_newline"
proof -
  let ?e = "case find_char ch_newline (drop i s) of None \<Rightarrow> length s | Some k \<Rightarrow> i + k"
  have e: "i \<le> ?e" "?e \<le> length s" "?e < length s \<Longrightarrow> s ! ?e = ch_newline"
    using find_char_Some [of ch_newline "drop i s"] assms(2) by (cases "find_char ch_newline (drop i s)", auto)+
  have b: "is_char_boundary s ?e"
  proof (cases "?e < length s")
    case True
    then show ?thesis using e(3) boundary_at_ascii [of ?e s] by (simp add: byte_in_def)
  qed (use e(2) in \<open>simp add: is_char_boundary_def\<close>)
  have "heredoc_line s i = Ok (i, ?e, take (?e - i) (drop i s))"
    using assms e b by (simp add: heredoc_line_def str_slice_def result_bind_def is_char_boundary_def Let_def)
  then show ?thesis using that e b by blast
qed

lemma next_line_boundary:
  assumes "valid_utf8 s" "e < length s" "s ! e = ch_newline"
  shows "is_char_boundary s (Suc e)"
  using boundary_after_ascii [OF assms(1,2)] assms(3) by (simp add: byte_in_def)

lemma heredoc_loop_found:
  assumes "valid_utf8 s" "b \<le> i" "i \<le> length s" "is_char_boundary s b" "is_char_boundary s i"
  shows "body_found s i (heredoc_loop s h b i)"
  using assms
proof (induction s h b i rule: heredoc_loop.induct)
  case (1 s h b i)
  obtain e line where l: "heredoc_line s i = Ok (i, e, line)" and e: "i \<le> e" "e \<le> length s"
      "is_char_boundary s e" "e < length s \<Longrightarrow> s ! e = ch_newline"
    using heredoc_line_ok [OF "1.prems"(1,3,5)] by blast
  have next_line: "is_char_boundary s (Suc e)" if "e < length s"
    using next_line_boundary "1.prems"(1) that e(4) by blast
  consider (found) "heredoc_check_line line (strip_tabs h) = delimiter h"
    | (eof) "heredoc_check_line line (strip_tabs h) \<noteq> delimiter h" "e \<ge> length s"
    | (more) "heredoc_check_line line (strip_tabs h) \<noteq> delimiter h" "\<not> e \<ge> length s" by blast
  then show ?case
  proof cases
    case found
    then show ?thesis
      using l e next_line "1.prems"
      by (subst heredoc_loop.simps)
        (auto simp: body_found_def build_heredoc_body_def result_bind_def str_slice_def advance_heredoc_scan_def)
  next
    case eof
    then show ?thesis using l by (subst heredoc_loop.simps) (simp add: body_found_def)
  next
    case more
    then have "body_found s (e + 1) (heredoc_loop s h b (e + 1))"
      using "1.IH" [OF l refl refl] e next_line "1.prems" by simp
    then show ?thesis
      using l more e(1) by (subst heredoc_loop.simps) (auto simp: body_found_def split: result.splits)
  qed
qed

lemma heredoc_bodies_found:
  "valid_utf8 s \<Longrightarrow> i \<le> length s \<Longrightarrow> is_char_boundary s i \<Longrightarrow> body_found s i (heredoc_bodies s hs i)"
proof (induction hs arbitrary: i)
  case (Cons h hs)
  have f: "body_found s i (heredoc_loop s h i i)" using heredoc_loop_found Cons.prems by blast
  show ?case
  proof (cases "heredoc_loop s h i i")
    case (Ok r)
    obtain body j where r: "r = (body, j)" by (cases r)
    have "body_found s j (heredoc_bodies s hs j)" using Cons f Ok r by (simp add: body_found_def)
    then show ?thesis
      using f Ok r by (auto simp: body_found_def result_bind_def split: result.splits)
  qed (use f in \<open>auto simp: body_found_def result_bind_def\<close>)
qed (simp add: body_found_def)

section \<open>Well-formed programs\<close>

text \<open>
  \<open>wf_command n c\<close>: lists of the grammar that cannot be empty are not, a pipeline has one mark for
  each of its pipes, only here-documents have bodies, and commands are nested at most \<open>n\<close> deep.
\<close>

fun wf_complete :: "nat \<Rightarrow> complete_command \<Rightarrow> bool"
  and wf_and_or :: "nat \<Rightarrow> and_or_list \<Rightarrow> bool"
  and wf_pipeline :: "nat \<Rightarrow> pipeline \<Rightarrow> bool"
  and wf_command :: "nat \<Rightarrow> command \<Rightarrow> bool"
  and wf_elif :: "nat \<Rightarrow> elif_clause \<Rightarrow> bool"
  and wf_item :: "nat \<Rightarrow> case_item \<Rightarrow> bool"
  where
  "wf_complete n (CompleteCommand cmds sp) = (cmds \<noteq> [] \<and> list_all (wf_and_or n) cmds)"
| "wf_and_or n (AndOrList first rest) =
     (wf_pipeline n first \<and> list_all (\<lambda>(op, pl). wf_pipeline n pl) rest)"
| "wf_pipeline n (Pipeline timed posix negated cmds errs) =
     (cmds \<noteq> [] \<and> Suc (length errs) = length cmds \<and> (posix \<longrightarrow> timed) \<and> list_all (wf_command n) cmds)"
| "wf_command n (SimpleCommand asgs wds rs sp) =
     (0 < n \<and> \<not> (asgs = [] \<and> wds = [] \<and> rs = []) \<and> list_all wf_redir rs)"
| "wf_command n (SubshellCommand body rs sp) =
     (0 < n \<and> list_all (wf_complete (n - 1)) body \<and> list_all wf_redir rs)"
| "wf_command n (GroupCommand body rs sp) =
     (0 < n \<and> list_all (wf_complete (n - 1)) body \<and> list_all wf_redir rs)"
| "wf_command n (IfCommand c b es el rs sp) =
     (0 < n \<and> list_all (wf_complete (n - 1)) c \<and> list_all (wf_complete (n - 1)) b \<and>
      list_all (wf_elif (n - 1)) es \<and>
      (case el of None \<Rightarrow> True | Some b \<Rightarrow> list_all (wf_complete (n - 1)) b) \<and> list_all wf_redir rs)"
| "wf_command n (WhileCommand c b rs sp) =
     (0 < n \<and> list_all (wf_complete (n - 1)) c \<and> list_all (wf_complete (n - 1)) b \<and> list_all wf_redir rs)"
| "wf_command n (UntilCommand c b rs sp) =
     (0 < n \<and> list_all (wf_complete (n - 1)) c \<and> list_all (wf_complete (n - 1)) b \<and> list_all wf_redir rs)"
| "wf_command n (ForCommand v wds b rs sp) =
     (0 < n \<and> list_all (wf_complete (n - 1)) b \<and> list_all wf_redir rs)"
| "wf_command n (ArithForCommand i c s b rs sp) =
     (0 < n \<and> list_all (wf_complete (n - 1)) b \<and> list_all wf_redir rs)"
| "wf_command n (FunctionDef nm b sp) = (0 < n \<and> wf_command (n - 1) b)"
| "wf_command n (CaseCommand w items rs sp) =
     (0 < n \<and> list_all (wf_item (n - 1)) items \<and> list_all wf_redir rs)"
| "wf_command n (DoubleBracketCommand wds sp) = (0 < n)"
| "wf_command n (ArithCommandNode e sp) = (0 < n)"
| "wf_command n (SelectCommand v wds b rs sp) =
     (0 < n \<and> list_all (wf_complete (n - 1)) b \<and> list_all wf_redir rs)"
| "wf_elif n (ElifClause c b) = (list_all (wf_complete n) c \<and> list_all (wf_complete n) b)"
| "wf_item n (CaseItem pats body t) = (pats \<noteq> [] \<and> list_all (wf_complete n) body)"

lemma assign_redirs_ok:
  "list_all wf_redir rs \<Longrightarrow> list_all wf_redir (fst (assign_heredoc_bodies_redirs rs bodies))"
  "(fst (assign_heredoc_bodies_redirs rs bodies) = []) = (rs = [])"
  by (induction rs bodies rule: assign_heredoc_bodies_redirs.induct)
    (auto simp: wf_redir_def Let_def split_def split: list.splits)

lemma assign_cmd_ok: "wf_command n c \<Longrightarrow> wf_command n (fst (assign_heredoc_bodies_cmd c bodies))"
  by (cases c) (simp_all add: assign_heredoc_bodies_cmd_def Let_def split_def assign_redirs_ok)

lemma assign_each_ok:
  assumes "\<And>x b. P x \<Longrightarrow> P (fst (f x b))"
  shows "list_all P xs \<Longrightarrow> list_all P (fst (assign_each f xs b))"
    and "length (fst (assign_each f xs b)) = length xs"
  by (induction xs arbitrary: b) (auto simp: Let_def split_def assms)

lemma assign_pipeline_ok:
  "wf_pipeline n pl \<Longrightarrow> wf_pipeline n (fst (assign_heredoc_bodies_pipeline pl bodies))"
  using assign_each_ok [where P = "wf_command n" and f = assign_heredoc_bodies_cmd, OF assign_cmd_ok]
  by (cases pl) (auto simp: Let_def split_def simp flip: length_greater_0_conv)

lemma assign_and_or_ok:
  "wf_and_or n a \<Longrightarrow> wf_and_or n (fst (assign_heredoc_bodies_and_or a bodies))"
  by (cases a) (auto simp: Let_def split_def assign_pipeline_ok intro!: assign_each_ok(1))

lemma assign_cc_ok: "wf_complete n cc \<Longrightarrow> wf_complete n (fst (assign_heredoc_bodies_cc cc bodies))"
  using assign_each_ok [where P = "wf_and_or n" and f = assign_heredoc_bodies_and_or, OF assign_and_or_ok]
  by (cases cc) (auto simp: Let_def split_def simp flip: length_greater_0_conv)

lemma resolve_heredocs_fwd:
  assumes "good d p" "cur_kind p \<noteq> Eof" "wf_complete n cc"
  shows "fwd d p (\<lambda>cc q. wf_complete n cc) (resolve_heredocs cc p)"
proof -
  note gp = good_parts [OF assms(1)]
  let ?s = "parser_source p" and ?e = "unat (span_end (tok_span (current p)))"
  let ?r = "heredoc_bodies ?s (pending_heredocs p) ?e"
  have e: "?e \<le> length ?s" "is_char_boundary ?s ?e" "unat (cur_start p) < ?e"
    using gp(5) assms(2) by (auto simp: token_at_def Let_def)
  have f: "body_found ?s ?e ?r" using heredoc_bodies_found [OF gp(4) e(1,2)] .
  let ?Q = "\<lambda>(bodies, i) q. q = p \<and> ?e \<le> i \<and> i \<le> length ?s \<and> is_char_boundary ?s i"
  have "runs d p ?Q (p, ?r)"
    using f assms(1) by (auto simp: runs_def body_found_def step_refl split: result.splits)
  then show ?thesis
    unfolding resolve_heredocs_def
  proof (rule fwd_bind2, goal_cases)
    case (1 x q)
    then obtain bodies i where x: "x = (bodies, i)" and q: "q = p" "?e \<le> i" "i \<le> length ?s"
      "is_char_boundary ?s i" by (cases x) auto
    let ?p = "p\<lparr>pending_heredocs := []\<rparr>"
    have "fwd d ?p (\<lambda>cc q. wf_complete n cc)
        (pbind (reposition i ?p) (\<lambda>_ p. (p, Ok (fst (assign_heredoc_bodies_cc cc bodies)))))"
      by (rule fwd_bind1 [OF reposition_fwd]) (use assms q e in \<open>auto intro: runs_Ok assign_cc_ok\<close>)
    then show ?case
      using x q(1) by (simp add: fwd_def runs_def step_def later_def split: result.splits)
  qed
qed

section \<open>Simple commands\<close>

lemma iter_weaken:
  assumes "iter d p J Q r"
    and "\<And>acc q. step d p q \<Longrightarrow> later p q \<Longrightarrow> J acc q \<Longrightarrow> J' acc q"
    and "\<And>acc q. step d p q \<Longrightarrow> Q acc q \<Longrightarrow> Q' acc q"
  shows "iter d p J' Q' r"
  using assms(1) unfolding iter_def by (rule runs_weaken) (use assms(2,3) in \<open>auto split: if_splits\<close>)

fun parts_ok :: "simple_parts \<Rightarrow> bool" where
  "parts_ok (asgs, wds, rs, past) = list_all wf_redir rs"

fun no_parts :: "simple_parts \<Rightarrow> bool" where
  "no_parts (asgs, wds, rs, past) = (asgs = [] \<and> wds = [] \<and> rs = [])"

lemma at_word_current: "current q = current p \<Longrightarrow> at_word q = at_word p"
  by (simp add: at_word_def)

lemma simple_word_part_fwd:
  assumes "good d p" "at_word p" "parts_ok parts"
  shows "fwd d p (\<lambda>parts q. parts_ok parts) (parse_simple_word_part parts p)"
proof -
  obtain asgs wds rs past where parts: "parts = (asgs, wds, rs, past)" by (cases parts)
  have b: "peeks d p (if current_text p \<noteq> [] \<and> last (current_text p) = CHR ''='' then peek_is_lparen p
      else (p, Ok False))"
    using assms(1) lookahead_runs(3) by (auto intro: runs_Ok)
  have w: "fwd d q any (if c then parse_compound_assign_word q else parse_word q)"
    if "good d q" "current q = current p" for c q
    using that at_word_Eof [OF assms(2)] parse_compound_assign_word_fwd parse_word_fwd by auto
  show ?thesis
    unfolding parse_simple_word_part_def parts prod.case Let_def
  proof (rule fwd_if)
    assume "\<not> past \<and> is_assignment_text (current_text p)"
    then show "fwd d p (\<lambda>parts q. parts_ok parts)
        (pbind (parse_assignment p) (\<lambda>a p. (p, Ok (asgs @ [a], wds, rs, past))))"
      using assms parts by (intro fwd_bind1 [OF parse_assignment_fwd]) (auto intro: runs_Ok)
  qed (rule fwd_bind2 [OF b], rule fwd_bind1 [OF w], use assms(3) parts in \<open>auto intro: runs_Ok\<close>)
qed

lemma process_subst_test:
  assumes "good d p"
  shows "runs d p (\<lambda>b q. current q = current p \<and> (b \<longrightarrow> cur_kind p = Less \<or> cur_kind p = Greater))
    (if cur_kind p = Less \<or> cur_kind p = Greater then peek_is_lparen p else (p, Ok False))"
  using assms by (auto intro: runs_Ok runs_weaken [OF lookahead_runs(3)])

lemma simple_part_iter:
  assumes "good d p" "parts_ok parts"
  shows "iter d p (\<lambda>parts q. parts_ok parts) (\<lambda>parts' q. parts' = parts) (parse_simple_command_part parts p)"
proof -
  obtain asgs wds rs past where parts: "parts = (asgs, wds, rs, past)" by (cases parts)
  note rs = assms(2) [unfolded parts parts_ok.simps]
  let ?I = "\<lambda>q. iter d q (\<lambda>parts q. parts_ok parts) (\<lambda>parts' q. parts' = parts)"
  have redir: "?I q (pbind m (\<lambda>r p. go_on p (asgs, wds, rs @ [r], past)))"
    if "fwd d q (\<lambda>r q. wf_redir r) m" for m q
    by (rule iter_bind [OF that]) (use rs in \<open>auto intro: ends_go\<close>)
  have psub: "?I q (pbind (parse_process_substitution_word q) (\<lambda>w p. go_on p (asgs, wds @ [w], rs, True)))"
    if "good d q" "cur_kind q \<noteq> Eof" for q
    by (rule iter_bind [OF process_substitution_fwd [OF that]]) (use rs in \<open>auto intro: ends_go\<close>)
  have word: "?I q (pbind (parse_simple_word_part parts q) (\<lambda>parts p. go_on p parts))"
    if "good d q" "at_word q" for q
    by (rule iter_bind [OF simple_word_part_fwd [OF that assms(2)]]) (auto intro: ends_go)
  show ?thesis
    unfolding parse_simple_command_part_def parts prod.case
    unfolding parts [symmetric]
  proof (rule iter_bind_peek [OF fd_prefix_word [OF assms(1)]], rule iter_if, goal_cases)
    case (1 b q)
    then have "cur_kind q \<noteq> Eof" using current_Eof [of q p] by blast
    then show ?case using 1 redir parse_fd_prefixed_fwd by blast
  next
    case (2 b q)
    show ?case
    proof (rule iter_bind_peek [OF process_subst_test [OF 2(2)]], goal_cases)
      case (1 c r)
      have "cur_kind r \<noteq> Eof" if c using that 1 by auto
      then show ?case
        using 1(2) psub word redir [OF parse_redirection_fwd [OF 1(2) at_redirection_Eof]]
        by (intro iter_if) (auto intro: iter_leave)
    qed
  qed
qed

lemma parse_simple_command_fwd:
  assumes "good d p" "0 < n"
  shows "fwd d p (\<lambda>c q. wf_command n c) (parse_simple_command p)"
proof -
  let ?J = "\<lambda>parts q. parts_ok parts \<and> (no_parts parts \<or> later p q)"
  have "runs d p ?J (parse_loop parse_simple_command_part ([], [], [], False) p)"
  proof (rule loop_rule [where J = ?J])
    fix parts q assume q: "step d p q" "good d q" "?J parts q"
    then have "parts_ok parts" by simp
    from simple_part_iter [OF q(2) this] show "iter d q ?J ?J (parse_simple_command_part parts q)"
      by (rule iter_weaken) (use q later_step step_later in blast)+
  qed (use assms in auto)
  then have "runs d p (\<lambda>c q. wf_command n c \<and> later p q) (parse_simple_command p)"
    unfolding parse_simple_command_def Let_def
    by (rule runs_bind) (use assms(2) in \<open>auto intro!: runs_fail runs_Ok\<close>)
  then show ?thesis by (simp add: fwd_def)
qed

section \<open>Commands inside commands\<close>

text \<open>
  What a parser of commands at one nesting depth promises to the parsers of lists and compound
  commands around it.
\<close>

lemmas seq = runs_if runs_fail runs_Ok
  runs_bind [OF advance_runs] runs_bind [OF fwd_runs [OF expect_word_fwd]]
  runs_bind [OF skip_newlines_runs] runs_bind [OF trailing_runs] runs_bind [OF parse_word_runs]

lemmas ends_seq = ends_if ends_go ends_leave ends_bind [OF advance_runs]
  ends_bind [OF fwd_runs [OF expect_word_fwd]] ends_bind [OF skip_newlines_runs]
  ends_bind [OF parse_word_runs]

lemma take_flag_runs: "good d p \<Longrightarrow> runs d p (\<lambda>x q. x = b) (take_flag b p)"
  unfolding take_flag_def by (auto intro!: seq)

lemma consume_optional_semi_runs: "good d p \<Longrightarrow> runs d p any (consume_optional_semi p)"
  unfolding consume_optional_semi_def by (auto intro!: seq)

lemma loop_words_runs: "good d p \<Longrightarrow> runs d p any (parse_loop_words_clause p)"
proof -
  have "runs d q any (parse_loop loop_word_step wds q)" if "good d q" for q wds
    by (rule loop_rule [where J = any])
      (use that in \<open>auto simp: loop_word_step_def at_word_Eof intro!: logic_intros parse_word_fwd\<close>)
  then show "good d p \<Longrightarrow> ?thesis"
    unfolding parse_loop_words_clause_def
    by (auto intro!: seq runs_bind [OF consume_optional_semi_runs] runs_bind [where Q = any and m = "parse_loop _ _ _"])
qed

abbreviation body_ok :: "nat \<Rightarrow> complete_command list \<Rightarrow> parser \<Rightarrow> bool" where
  "body_ok n cs q \<equiv> list_all (wf_complete n) cs"

locale command_level =
  fixes d :: u32 and n :: nat and pc :: command_parser
  assumes pc_fwd: "good d p \<Longrightarrow> fwd d p (\<lambda>c q. wf_command n c) (pc p)"
begin

lemma parse_pipeline_fwd: "good d p \<Longrightarrow> fwd d p (\<lambda>pl q. wf_pipeline n pl) (parse_pipeline pc p)"
proof -
  let ?J = "\<lambda>(cmds, errs) q. cmds \<noteq> [] \<and> Suc (length errs) = length cmds \<and> list_all (wf_command n) cmds"
  have loop: "runs d q ?J (parse_loop (pipe_step pc) ([c], []) q)" if "good d q" "wf_command n c" for q c
    by (rule loop_rule [where J = ?J])
      (use that in \<open>auto simp: pipe_step_def Let_def intro!: iter_if iter_leave iter_bind [OF advance_fwd]
         ends_seq ends_bind [OF fwd_runs [OF pc_fwd]]\<close>)
  assume "good d p"
  then show ?thesis
    unfolding parse_pipeline_def
    by (intro fwd_bind2 [OF take_flag_runs] fwd_bind1 [OF pc_fwd] runs_bind [OF loop]) (auto intro!: runs_Ok)
qed

lemma parse_and_or_fwd: "good d p \<Longrightarrow> fwd d p (\<lambda>a q. wf_and_or n a) (parse_and_or pc p)"
proof -
  let ?J = "\<lambda>rest q. list_all (\<lambda>(op, pl). wf_pipeline n pl) rest"
  have loop: "runs d q ?J (parse_loop (and_or_step pc) [] q)" if "good d q" for q
    by (rule loop_rule [where J = ?J])
      (use that in \<open>auto simp: and_or_step_def Let_def intro!: iter_if iter_leave iter_bind [OF advance_fwd]
         ends_seq ends_bind [OF fwd_runs [OF parse_pipeline_fwd]]\<close>)
  assume "good d p"
  then show ?thesis
    unfolding parse_and_or_def
    by (intro fwd_bind1 [OF parse_pipeline_fwd] runs_bind [OF loop]) (auto intro!: runs_Ok)
qed

lemma at_list_semi_kind: "good d p \<Longrightarrow> runs d p (\<lambda>b q. b \<longrightarrow> cur_kind q = Semi) (at_list_semi p)"
proof (cases "cur_kind p = Semi")
  case False
  then show "good d p \<Longrightarrow> ?thesis" by (simp add: at_list_semi_def runs_Ok)
qed (auto intro: runs_weaken [OF lookahead_runs(8)])

lemma parse_complete_command_fwd:
  assumes "good d p"
  shows "fwd d p (\<lambda>cc q. wf_complete n cc) (parse_complete_command pc p)"
proof -
  let ?J = "\<lambda>cmds q. cmds \<noteq> [] \<and> list_all (wf_and_or n) cmds"
  have skip: "runs d q any (if pending_heredocs q = [] then skip_newlines q else (q, Ok ()))" if "good d q" for q
    using that skip_newlines_runs by (auto intro: runs_Ok)
  have loop: "runs d q ?J (parse_loop (complete_step pc) [a] q)" if "good d q" "wf_and_or n a" for q a
    by (rule loop_rule [where J = ?J])
      (use that in \<open>auto simp: complete_step_def intro!: iter_bind_peek [OF at_list_semi_kind] iter_if iter_leave
         iter_bind [OF advance_fwd] ends_bind [OF skip] ends_if ends_go ends_bind [OF fwd_runs [OF parse_and_or_fwd]]\<close>)
  show ?thesis
    unfolding parse_complete_command_def Let_def
    by (rule fwd_bind1 [OF parse_and_or_fwd [OF assms]], rule runs_bind [OF loop])
      (auto intro!: runs_if runs_Ok fwd_runs [OF resolve_heredocs_fwd])
qed

lemma compound_loop_runs: "good d p \<Longrightarrow> runs d p (body_ok n) (parse_loop (compound_list_step pc) [] p)"
  by (rule loop_rule [where J = "body_ok n"])
    (auto simp: compound_list_step_def intro!: iter_if iter_leave iter_bind [OF parse_complete_command_fwd] ends_seq)

lemma parse_compound_list_runs: "good d p \<Longrightarrow> runs d p (body_ok n) (parse_compound_list pc p)"
  unfolding parse_compound_list_def by (auto intro!: seq compound_loop_runs)

lemmas body_seq = seq runs_bind [OF parse_compound_list_runs]

lemma parse_subshell_fwd:
  "good d p \<Longrightarrow> cur_kind p \<noteq> Eof \<Longrightarrow> fwd d p (\<lambda>c q. wf_command (Suc n) c) (parse_subshell pc p)"
  unfolding parse_subshell_def Let_def by (rule fwd_bind1 [OF advance_fwd]) (auto intro!: body_seq)

lemma parse_group_fwd: "good d p \<Longrightarrow> fwd d p (\<lambda>c q. wf_command (Suc n) c) (parse_group pc p)"
  unfolding parse_group_def Let_def by (rule fwd_bind1 [OF expect_word_fwd]) (auto intro!: body_seq)

lemma elif_loop_runs: "good d p \<Longrightarrow> runs d p (\<lambda>es q. list_all (wf_elif n) es) (parse_loop (elif_step pc) [] p)"
  by (rule loop_rule [where J = "\<lambda>es q. list_all (wf_elif n) es"])
    (auto simp: elif_step_def at_word_eq_def at_word_Eof
      intro!: iter_if iter_leave iter_bind [OF advance_fwd] ends_seq ends_bind [OF parse_compound_list_runs])

lemma parse_else_runs:
  "good d p \<Longrightarrow> runs d p (\<lambda>el q. case el of None \<Rightarrow> True | Some b \<Rightarrow> list_all (wf_complete n) b) (parse_else pc p)"
  unfolding parse_else_def by (auto intro!: body_seq)

lemma parse_if_fwd: "good d p \<Longrightarrow> fwd d p (\<lambda>c q. wf_command (Suc n) c) (parse_if pc p)"
  unfolding parse_if_def Let_def
  by (rule fwd_bind1 [OF expect_word_fwd])
    (auto intro!: body_seq runs_bind [OF elif_loop_runs] runs_bind [OF parse_else_runs] split: option.splits)

lemma parse_do_group_runs:
  "good d p \<Longrightarrow> runs d p (\<lambda>(body, rs) q. list_all (wf_complete n) body \<and> list_all wf_redir rs) (parse_do_group pc p)"
  unfolding parse_do_group_def by (auto intro!: body_seq)

lemmas do_seq = body_seq runs_bind [OF parse_do_group_runs] runs_bind [OF loop_words_runs]
  runs_bind [OF consume_optional_semi_runs]

lemma loops_fwd:
  assumes "good d p"
  shows "fwd d p (\<lambda>c q. wf_command (Suc n) c) (parse_while pc p)"
    and "fwd d p (\<lambda>c q. wf_command (Suc n) c) (parse_until pc p)"
    and "fwd d p (\<lambda>c q. wf_command (Suc n) c) (parse_select pc p)"
  unfolding parse_while_def parse_until_def parse_select_def Let_def
  by (rule fwd_bind1 [OF expect_word_fwd [OF assms]]; auto intro!: do_seq)+

lemma parse_arith_for_runs: "good d p \<Longrightarrow> runs d p (\<lambda>c q. wf_command (Suc n) c) (parse_arith_for pc st p)"
  unfolding parse_arith_for_def Let_def
  by (auto intro!: do_seq runs_bind [OF fwd_runs [OF collect_arith_expr_fwd]])

lemma parse_for_fwd: "good d p \<Longrightarrow> fwd d p (\<lambda>c q. wf_command (Suc n) c) (parse_for pc p)"
  unfolding parse_for_def Let_def
  by (rule fwd_bind1 [OF expect_word_fwd])
    (auto intro!: do_seq parse_arith_for_runs runs_bind [OF lookahead_runs(7)])

lemma parse_arith_command_fwd:
  "good d p \<Longrightarrow> cur_kind p \<noteq> Eof \<Longrightarrow> fwd d p (\<lambda>c q. wf_command (Suc n) c) (parse_arith_command p)"
  unfolding parse_arith_command_def Let_def
  by (rule fwd_bind1 [OF advance_fwd]) (auto intro!: seq runs_bind [OF fwd_runs [OF collect_arith_expr_fwd]])

lemma parse_case_patterns_fwd:
  assumes "good d p" "cur_kind p \<noteq> Eof"
  shows "fwd d p (\<lambda>ps q. ps \<noteq> []) (parse_case_patterns p)"
proof -
  have loop: "runs d q (\<lambda>ps q. ps \<noteq> []) (parse_loop pattern_step [w] q)" if "good d q" for q w
    by (rule loop_rule [where J = "\<lambda>ps q. ps \<noteq> []"])
      (use that in \<open>auto simp: pattern_step_def intro!: iter_if iter_leave iter_bind [OF advance_fwd] ends_seq\<close>)
  have more: "runs d q (\<lambda>ps q. ps \<noteq> []) (pbind (parse_loop pattern_step [w] q) (\<lambda>patterns p.
      if cur_kind p \<noteq> RParen then parse_fail p msg (cur_start p)
      else pbind (advance_token p) (\<lambda>_ p. (p, Ok patterns))))" if "good d q" for q w msg
    by (rule runs_bind [OF loop [OF that]]) (auto intro!: seq)
  show ?thesis
  proof (cases "cur_kind p = LParen")
    case True
    have "fwd d p (\<lambda>b q. True) (take_flag (cur_kind p = LParen) p)"
      using True assms by (auto simp: take_flag_def intro!: fwd_bind1 [OF advance_fwd] seq)
    then show ?thesis
      unfolding parse_case_patterns_def by (rule fwd_bind1) (auto intro!: seq more)
  next
    case False
    then show ?thesis
      unfolding parse_case_patterns_def using assms
      by (auto simp: take_flag_def pbind_def [of "(_, Ok False)"] intro!: fwd_bind1 [OF parse_word_fwd] more)
  qed
qed

lemma parse_case_body_runs: "good d p \<Longrightarrow> runs d p (body_ok n) (parse_case_body pc p)"
  unfolding parse_case_body_def
  by (rule loop_rule [where J = "body_ok n"])
    (auto simp: case_body_step_def intro!: iter_if iter_leave iter_bind_peek [OF lookahead_runs(4)]
      iter_bind_peek [OF lookahead_runs(5)] iter_bind [OF parse_complete_command_fwd] ends_seq)

lemma parse_case_terminator_runs: "good d p \<Longrightarrow> runs d p any (parse_case_terminator p)"
  unfolding parse_case_terminator_def
  by (auto intro!: seq runs_bind [OF lookahead_runs(6)] runs_bind [OF lookahead_runs(4)] runs_bind [OF lookahead_runs(5)])

lemma case_items_runs: "good d p \<Longrightarrow> runs d p (\<lambda>is q. list_all (wf_item n) is) (parse_loop (case_item_step pc) [] p)"
  by (rule loop_rule [where J = "\<lambda>is q. list_all (wf_item n) is"])
    (auto simp: case_item_step_def intro!: iter_if iter_leave iter_bind [OF parse_case_patterns_fwd] ends_seq
      ends_bind [OF parse_case_body_runs] ends_bind [OF parse_case_terminator_runs])

lemma parse_case_fwd: "good d p \<Longrightarrow> fwd d p (\<lambda>c q. wf_command (Suc n) c) (parse_case pc p)"
  unfolding parse_case_def Let_def
  by (rule fwd_bind1 [OF expect_word_fwd]) (auto intro!: seq runs_bind [OF case_items_runs])

lemma parse_double_bracket_fwd:
  "good d p \<Longrightarrow> cur_kind p \<noteq> Eof \<Longrightarrow> fwd d p (\<lambda>c q. wf_command (Suc n) c) (parse_double_bracket p)"
proof -
  have loop: "runs d q any (parse_loop double_bracket_step wds q)" if "good d q" for q wds
    by (rule loop_rule [where J = any])
      (use that in \<open>auto simp: double_bracket_step_def intro!: iter_if iter_fail
        iter_bind [OF advance_fwd] iter_bind [OF parse_word_fwd] ends_go ends_leave\<close>)
  show "good d p \<Longrightarrow> cur_kind p \<noteq> Eof \<Longrightarrow> ?thesis"
    unfolding parse_double_bracket_def Let_def
    by (rule fwd_bind1 [OF advance_fwd]) (auto intro!: seq runs_bind [OF loop])
qed

lemma parse_function_posix_fwd:
  "good d p \<Longrightarrow> cur_kind p \<noteq> Eof \<Longrightarrow> fwd d p (\<lambda>c q. wf_command (Suc n) c) (parse_function_posix pc p)"
  unfolding parse_function_posix_def Let_def
  by (rule fwd_bind1 [OF advance_fwd]) (auto intro!: seq runs_bind [OF fwd_runs [OF pc_fwd]])

lemma parse_function_bash_fwd: "good d p \<Longrightarrow> fwd d p (\<lambda>c q. wf_command (Suc n) c) (parse_function_bash pc p)"
proof -
  have parens: "runs d q any (parse_function_parens q)" if "good d q" for q
    using that unfolding parse_function_parens_def by (auto intro!: seq)
  show "good d p \<Longrightarrow> ?thesis"
    unfolding parse_function_bash_def Let_def
    by (rule fwd_bind1 [OF expect_word_fwd])
      (auto intro!: seq runs_bind [OF parens] runs_bind [OF fwd_runs [OF pc_fwd]])
qed

lemma parse_command_lparen_fwd:
  assumes "good d p" "cur_kind p \<noteq> Eof"
  shows "fwd d p (\<lambda>c q. wf_command (Suc n) c) (parse_command_lparen pc p)"
  unfolding parse_command_lparen_def Let_def
  by (rule fwd_bind2 [OF try_peek_runs [OF assms(1)]])
    (use assms(2) in \<open>auto intro!: fwd_if parse_arith_command_fwd parse_subshell_fwd\<close>)

lemma keyword_found:
  assumes "step d p q" "fwd d q (\<lambda>c q. wf_command (Suc n) c) r"
  shows "runs d q (\<lambda>c q. pred_option (wf_command (Suc n)) c \<and> (c \<noteq> None \<longrightarrow> later p q))
    (pbind r (\<lambda>cmd p. (p, Ok (Some cmd))))"
  by (rule runs_bind [OF assms(2) [unfolded fwd_def]])
    (use step_later [OF assms(1)] in \<open>auto intro!: runs_Ok\<close>)

lemma try_parse_compound_keyword_runs:
  assumes "good d p" "cur_kind p \<noteq> Eof"
  shows "runs d p (\<lambda>c q. pred_option (wf_command (Suc n)) c \<and> (c \<noteq> None \<longrightarrow> later p q))
    (try_parse_compound_keyword pc p)"
proof -
  note found = keyword_found [OF step_refl [OF assms(1)]]
  let ?R = "\<lambda>c q. pred_option (wf_command (Suc n)) c \<and> (c \<noteq> None \<longrightarrow> later p q)"
  have "runs d p ?R (pbind (at_function_parens p) (\<lambda>b p.
      if b then pbind (parse_function_posix pc p) (\<lambda>cmd p. (p, Ok (Some cmd))) else (p, Ok None)))"
  proof (rule runs_bind [OF lookahead_runs(9) [OF assms(1)]], goal_cases)
    case (1 b q)
    then show ?case
      using keyword_found [OF 1(1) parse_function_posix_fwd] assms(2) by (auto intro: runs_Ok)
  qed
  then show ?thesis
    unfolding try_parse_compound_keyword_def Let_def
    using assms(1) parse_group_fwd parse_if_fwd loops_fwd parse_for_fwd parse_case_fwd parse_function_bash_fwd
    by (intro runs_if) (blast intro: found)+
qed

lemma parse_command_inner_fwd:
  assumes "good d p"
  shows "fwd d p (\<lambda>c q. wf_command (Suc n) c) (parse_command_inner pc p)"
proof -
  let ?R = "\<lambda>c q. pred_option (wf_command (Suc n)) c \<and> (c \<noteq> None \<longrightarrow> later p q)"
  have kw: "runs d p ?R (if at_word p then try_parse_compound_keyword pc p else (p, Ok None))"
    using assms try_parse_compound_keyword_runs [OF assms at_word_Eof] by (auto intro: runs_Ok)
  have "runs d p (\<lambda>c q. wf_command (Suc n) c \<and> later p q)
      (pbind (if at_word p then try_parse_compound_keyword pc p else (p, Ok None)) (\<lambda>found p.
         case found of Some cmd \<Rightarrow> (p, Ok cmd) | None \<Rightarrow> parse_simple_command p))"
  proof (rule runs_bind [OF kw], goal_cases)
    case (1 found q)
    show ?case
    proof (cases found)
      case None
      have "fwd d q (\<lambda>c q. wf_command (Suc n) c) (parse_simple_command q)"
        using parse_simple_command_fwd [OF 1(2)] by simp
      then show ?thesis
        using None step_later [OF 1(1)] by (auto simp: fwd_def elim!: runs_weaken)
    qed (use 1 in \<open>auto intro: runs_Ok\<close>)
  qed
  then show ?thesis
    unfolding parse_command_inner_def
    using assms by (intro fwd_if) (auto simp: fwd_def [of _ _ _ "pbind _ _"]
        intro: parse_command_lparen_fwd parse_double_bracket_fwd)
qed

end

section \<open>The levels\<close>

lemma runs_exit:
  assumes "d < MAX_NESTING_DEPTH" "good d p"
    and "fwd (d + 1) (p\<lparr>nesting_depth := d + 1\<rparr>) (\<lambda>c q. W c) r"
  shows "fwd d p (\<lambda>c q. W c) (case r of (q, r) \<Rightarrow> (exit_nesting q, r))"
proof -
  have "unat (d + 1) = Suc (unat d)" using assms(1) by (rule unat_Suc_less)
  then have "sat_sub (d + 1) 1 = d" by (simp add: sat_sub_def word_less_nat_alt)
  then show ?thesis
    using assms(3)
    by (cases r) (auto simp: fwd_def runs_def step_def good_def later_def exit_nesting_def Let_def split: result.splits)
qed

lemma level_up:
  assumes "command_level (d + 1) n (parse_command_at m)" "d < MAX_NESTING_DEPTH"
  shows "command_level d (Suc n) (parse_command_at (Suc m))"
proof
  fix p assume g: "good d p"
  have dep: "nesting_depth p = d" using g by (simp add: good_def Let_def)
  let ?p = "p\<lparr>nesting_depth := d + 1\<rparr>"
  have e: "enter_nesting p = (?p, Ok ())"
    using assms(2) dep leD by (auto simp: enter_nesting_def)
  have "good (d + 1) ?p" using g by (simp add: good_def Let_def)
  then have "fwd (d + 1) ?p (\<lambda>c q. wf_command (Suc n) c) (parse_command_inner (parse_command_at m) ?p)"
    by (rule command_level.parse_command_inner_fwd [OF assms(1)])
  from runs_exit [OF assms(2) g this]
  show "fwd d p (\<lambda>c q. wf_command (Suc n) c) (parse_command_at (Suc m) p)"
    by (simp add: e pbind_def)
qed

lemma level_max: "command_level MAX_NESTING_DEPTH 0 (parse_command_at (Suc m))"
proof
  fix p assume "good MAX_NESTING_DEPTH p"
  then have "enter_nesting p = parse_fail p (''maximum nesting depth ('' @ show_nat (unat MAX_NESTING_DEPTH) @
      '') exceeded'') (cur_start p)"
    by (simp add: enter_nesting_def good_def Let_def)
  then show "fwd MAX_NESTING_DEPTH p (\<lambda>c q. wf_command 0 c) (parse_command_at (Suc m) p)"
    by (simp add: pbind_def parse_fail_def fwd_def runs_def)
qed

lemma level_at: "k \<le> 24 \<Longrightarrow> command_level (of_nat (24 - k)) k (parse_command_at (Suc k))"
proof (induction k)
  case 0
  then show ?case using level_max [of 0] by (simp add: MAX_NESTING_DEPTH_def)
next
  case (Suc k)
  have "of_nat (24 - Suc k) + 1 = (of_nat (24 - k) :: u32)"
    using Suc.prems by (simp flip: of_nat_Suc add: Suc_diff_Suc)
  moreover have "(of_nat (24 - Suc k) :: u32) < MAX_NESTING_DEPTH"
  proof -
    have "unat (of_nat (24 - Suc k) :: u32) = 24 - Suc k" by (rule unat_of_nat_less) simp
    then show ?thesis using Suc.prems by (simp add: MAX_NESTING_DEPTH_def word_less_nat_alt)
  qed
  ultimately show ?case using level_up Suc by (metis Suc_leD)
qed

interpretation top: command_level 0 24 parse_command
  using level_at [of 24] by (simp add: parse_command_def MAX_NESTING_DEPTH_def)

lemma parse_program_runs: "good 0 p \<Longrightarrow> runs 0 p (body_ok 24) (parse_program p)"
  unfolding parse_program_def
  by (auto intro!: seq runs_bind [OF top.compound_loop_runs])

text \<open>
  C4 (parsing is safe and well formed): no valid source shorter than 4 GiB makes the parser panic,
  overflow its nesting or loop; when it accepts, every list of the program that the grammar wants
  non-empty is so, a pipeline has one mark for each pipe, only here-documents have bodies, and commands are
  nested at most 24 deep.
\<close>

theorem parse_safe:
  assumes "valid_utf8 s" "length s < 2 ^ 32"
  shows "case parse s of
      Ok prog \<Rightarrow> list_all (wf_complete 24) prog
    | Err e \<Rightarrow> True
    | Panic m \<Rightarrow> False"
proof -
  have r: "ready (lexer_new s)" using assms(1) by (simp add: ready_def lexer_new_def is_char_boundary_def)
  obtain lx x where n: "next_token (lexer_new s) = (lx, x)" by (cases "next_token (lexer_new s)")
  note c = next_token_contract [OF r _ n]
  have src: "source (lexer_new s) = s" by (simp add: lexer_new_def)
  show ?thesis
  proof (cases x)
    case (Ok t)
    let ?p = "\<lparr>parser_source = s, parser_lexer = lx, current = t, peeked = [], prev_end = 0,
      pending_heredocs = [], nesting_depth = 0\<rparr>"
    have "good 0 ?p" using c assms src Ok by (simp add: good_def)
    then have "runs 0 ?p (body_ok 24) (parse_program ?p)" by (rule parse_program_runs)
    then show ?thesis
      using Ok n by (auto simp: parse_def parser_new_def result_bind_def runs_def split: result.splits)
  next
    case (Err e)
    then show ?thesis using n by (simp add: parse_def parser_new_def result_bind_def)
  next
    case (Panic m)
    then show ?thesis using c(5) [of m] assms(2) src by simp
  qed
qed

theorem parse_safe_witness:
  "case parse ''if a; then b | c; fi'' of
      Ok prog \<Rightarrow> list_all (wf_complete 24) prog
    | Err e \<Rightarrow> True
    | Panic m \<Rightarrow> False"
  by (rule parse_safe) (simp_all add: byte_in_def)

section \<open>What the parser loses\<close>

text \<open>
  An error in the token after a digit is dropped: the word \<open>1\<close> makes the parser peek for a
  redirection; when the lexer fails on what follows, here a quote that is never closed, the error
  is taken for the absence of a redirection and the rest of the source is ignored, although the
  lexer rejects it.
\<close>

theorem unterminated_quote_dropped:
  "parse (''echo 1 '' @ [ch_squote] @ ''abc'') = parse ''echo 1'' \<and>
   (\<exists>prog. parse ''echo 1'' = Ok prog) \<and>
   (\<exists>e. tokenize (''echo 1 '' @ [ch_squote] @ ''abc'') = Err e)"
proof (intro conjI)
  show "parse (''echo 1 '' @ [ch_squote] @ ''abc'') = parse ''echo 1''" by code_simp
  have "case parse ''echo 1'' of Ok prog \<Rightarrow> True | _ \<Rightarrow> False" by code_simp
  then show "\<exists>prog. parse ''echo 1'' = Ok prog" by (simp split: result.splits)
  have "case tokenize (''echo 1 '' @ [ch_squote] @ ''abc'') of Err e \<Rightarrow> True | _ \<Rightarrow> False" by code_simp
  then show "\<exists>e. tokenize (''echo 1 '' @ [ch_squote] @ ''abc'') = Err e" by (simp split: result.splits)
qed

text \<open>The redirections of a simple command inside a group.\<close>

fun group_redirs :: "complete_command list \<Rightarrow> redirection list" where
  "group_redirs [CompleteCommand [AndOrList (Pipeline _ _ _
     [GroupCommand [CompleteCommand [AndOrList (Pipeline _ _ _ [SimpleCommand _ _ rs _] _) _] _] _ _] _) _] _] = rs"
| "group_redirs _ = []"

text \<open>
  A here-document inside a group on one line is lost: the bodies are read when the outer
  command ends its line, and are given to the redirections of that command only, so the redirection
  inside the group is left without its body.
\<close>

theorem nested_heredoc_lost:
  "case parse (''{ cat <<E; }'' @ [ch_newline] @ ''x'' @ [ch_newline] @ ''E'') of
     Ok prog \<Rightarrow> map (\<lambda>r. (redir_op r, redir_here_doc r)) (group_redirs prog) = [(HereDoc, None)]
   | _ \<Rightarrow> False"
  by code_simp

end
