(* ===== verification/Parser_Lines.thy ===== *)
theory Parser_Lines
  imports Parser_Props
begin

text \<open>
  What the parser returns: the tokens the lexer still delivers as a list, the parser as a function of
  that list, and from it the result on lines of ordinary words and on assignments.
\<close>

section \<open>Lexing plain words\<close>

definition left :: "lexer \<Rightarrow> string" where
  "left lx = drop (pos lx) (source lx)"

lemma peek_left: "peek lx = (case left lx of [] \<Rightarrow> None | c # r \<Rightarrow> Some c)"
  by (auto simp: peek_def left_def split: list.splits) (metis Cons_nth_drop_Suc list.inject)

lemma left_advance: "left (advance n lx) = drop n (left lx)"
  by (simp add: left_def advance_def add.commute)

definition word_char :: "char \<Rightarrow> bool" where
  "word_char c \<longleftrightarrow> is_alpha c \<or> is_digit c \<or> c \<in> set ''_-./=''"

definition ordinary_word :: "string \<Rightarrow> bool" where
  "ordinary_word w \<longleftrightarrow> w \<noteq> [] \<and> list_all word_char w"

lemma word_char_ordinary:
  assumes "word_char c"
  shows "\<not> is_word_break c" "c \<notin> set ''?*+@!#''" "c \<noteq> ch_squote" "c \<noteq> ch_dquote" "c \<noteq> ch_backtick"
    "c \<noteq> ch_backslash" "c \<noteq> CHR ''$''" "is_ascii c" "c \<noteq> CHR ''[''" "c \<noteq> CHR '']''" "c \<noteq> CHR '' ''" "c \<noteq> ch_tab"
  using assms
  by (auto simp: word_char_def is_alpha_def is_digit_def is_word_break_def byte_in_def Let_def)

lemma read_plain_char:
  assumes "left lx = c # r" "word_char c"
  shows "read_word_part lx c = (advance 1 lx, Ok ())"
  using assms word_char_ordinary [OF assms(2)]
  by (simp add: read_word_part_def consume_word_plain_def peek_left)

lemma read_plain_loop:
  assumes "left lx = w @ r" "list_all word_char w" "r = [] \<or> is_word_break (hd r)"
  shows "read_word_loop lx = (advance (length w) lx, Ok ())"
  using assms
proof (induction w arbitrary: lx)
  case Nil
  have "advance 0 lx = lx" by (simp add: advance_def)
  then show ?case using Nil by (subst read_word_loop.simps) (cases r, auto simp: peek_left)
next
  case (Cons c w)
  have c: "left lx = c # (w @ r)" "word_char c" using Cons.prems by simp_all
  have "moved lx (advance 1 lx)" by (simp add: moved_def advance_def)
  then have "read_word_loop lx = read_word_loop (advance 1 lx)"
    using c read_plain_char [OF c] word_char_ordinary(1) [OF c(2)]
    by (subst read_word_loop.simps) (simp add: peek_left then_scan_def)
  moreover have "left (advance 1 lx) = w @ r" using Cons.prems by (simp add: left_advance)
  ultimately show ?case using Cons by (simp add: advance_def)
qed

definition word_token :: "nat \<Rightarrow> string \<Rightarrow> token" where
  "word_token i w = \<lparr>tok_kind = Word (is_reserved_word w),
     tok_span = \<lparr>span_start = of_nat i, span_end = of_nat (i + length w)\<rparr>\<rparr>"

definition eof_token :: "nat \<Rightarrow> token" where
  "eof_token i = \<lparr>tok_kind = Eof, tok_span = \<lparr>span_start = of_nat i, span_end = of_nat i\<rparr>\<rparr>"

lemma read_plain_word:
  assumes "valid_utf8 (source lx)" "left lx = w @ r" "ordinary_word w" "r = [] \<or> is_word_break (hd r)"
  shows "read_word lx = (advance (length w) lx, Ok (word_token (pos lx) w))"
proof -
  have w: "w \<noteq> []" "list_all word_char w" using assms(3) by (auto simp: ordinary_word_def)
  have l: "length (left lx) = length w + length r" using assms(2) by simp
  then have len: "pos lx + length w \<le> length (source lx)" "pos lx < length (source lx)"
    using w(1) by (cases w, simp_all add: left_def)+
  have at: "source lx ! (pos lx + i) = w ! i" if "i < length w" for i
    using that assms(2) len by (metis left_def nth_append nth_drop order_less_imp_le)
  have asc: "is_ascii (w ! i)" if "i < length w" for i
    using that w(2) word_char_ordinary(8) by (simp add: list_all_length)
  have b: "is_char_boundary (source lx) (pos lx)"
    using boundary_at_ascii [OF len(2)] at [of 0] asc [of 0] w(1) by simp
  have "is_char_boundary (source lx) (Suc (pos lx + (length w - 1)))"
    by (rule boundary_after_ascii [OF assms(1)]) (use at [of "length w - 1"] asc [of "length w - 1"] w(1) len in auto)
  then have b2: "is_char_boundary (source lx) (pos lx + length w)" using w(1) by (cases w) simp_all
  have "take (length w) (drop (pos lx) (source lx)) = w" using assms(2) by (simp add: left_def)
  then have sl: "(str_slice (source lx) (pos lx) (pos lx + length w) :: (string, lexer_error) result) = Ok w"
    using b b2 len by (simp add: str_slice_def)
  have no: "c \<notin> set w" if "\<not> word_char c" for c using w(2) that by (auto simp: list_all_iff)
  have quotes: "ch_squote \<notin> set w" "ch_dquote \<notin> set w" "ch_backslash \<notin> set w" "CHR ''$'' \<notin> set w"
    "CHR ''['' \<notin> set w" "CHR '']'' \<notin> set w"
    by (rule no, simp add: word_char_def is_alpha_def is_digit_def)+
  then have "w \<noteq> ''[[''" "w \<noteq> '']]''" by auto
  moreover note quotes
  ultimately show ?thesis
    using read_plain_loop [OF assms(2) w(2) assms(4)] assms(1) sl
    by (simp add: read_word_def make_word_token_def advance_def result_bind_def plain_word_token_kind_def
        word_token_def span_from_def Let_def)
qed

lemma skip_blanks_word:
  assumes "left lx = c # r" "word_char c"
  shows "skip_blanks lx = lx"
  using assms word_char_ordinary(6,11,12) [OF assms(2)] by (subst skip_blanks.simps) (simp add: peek_left)

lemma skip_blanks_end: "left lx = [] \<Longrightarrow> skip_blanks lx = lx"
  by (subst skip_blanks.simps) (simp add: peek_left)

lemma skip_blank_word:
  assumes "left lx = CHR '' '' # c # r" "word_char c"
  shows "skip_blanks lx = advance 1 lx"
proof -
  have "skip_blanks lx = skip_blanks (advance 1 lx)"
    using assms(1) by (subst skip_blanks.simps) (simp add: peek_left)
  then show ?thesis using skip_blanks_word [of "advance 1 lx" c r] assms by (simp add: left_advance)
qed

lemma next_plain_word:
  assumes "mode lx = Normal" "valid_utf8 (source lx)" "skip_blanks lx = lx1" "left lx1 = w @ r"
    "ordinary_word w" "r = [] \<or> is_word_break (hd r)"
  shows "next_token lx = (advance (length w) lx1, Ok (word_token (pos lx1) w))"
proof -
  obtain c u where w: "w = c # u" "word_char c" using assms(5) by (cases w) (auto simp: ordinary_word_def)
  have "source lx1 = source lx" using assms(3) by auto
  then have "read_word lx1 = (advance (length w) lx1, Ok (word_token (pos lx1) w))"
    using read_plain_word assms by simp
  moreover have "c \<noteq> ch_newline" "c \<noteq> CHR '';''" "c \<noteq> CHR ''(''" "c \<noteq> CHR '')''" "c \<noteq> CHR ''#''"
      "c \<noteq> CHR ''&''" "c \<noteq> CHR ''|''" "c \<noteq> CHR ''>''" "c \<noteq> CHR ''<''"
    using word_char_ordinary(1,2) [OF w(2)] by (auto simp: is_word_break_def)
  ultimately show ?thesis
    using assms w by (simp add: next_token.simps next_normal_token.simps Let_def peek_left)
qed

lemma next_at_end:
  assumes "mode lx = Normal" "left lx = []" "pos lx \<le> length (source lx)"
  shows "next_token lx = (lx, Ok (eof_token (pos lx)))"
  using assms skip_blanks_end [OF assms(2)]
  by (simp add: next_token.simps next_normal_token.simps peek_left eof_token_def span_from_def)

section \<open>Streams of tokens\<close>

text \<open>The tokens that a lexer, and a parser, still deliver.\<close>

fun lexes :: "lexer \<Rightarrow> token list \<Rightarrow> bool" where
  "lexes lx [] = True"
| "lexes lx (t # ts) = (\<exists>lx'. next_token lx = (lx', Ok t) \<and> lexes lx' ts)"

definition stream :: "parser \<Rightarrow> token list \<Rightarrow> bool" where
  "stream p ts \<longleftrightarrow> (\<exists>us. ts = current p # peeked p @ us \<and> lexes (parser_lexer p) us)"

text \<open>What reading tokens does not change.\<close>

definition same_rest :: "parser \<Rightarrow> parser \<Rightarrow> bool" where
  "same_rest p q \<longleftrightarrow> parser_source q = parser_source p \<and> pending_heredocs q = pending_heredocs p \<and>
     nesting_depth q = nesting_depth p"

lemma lexes_append: "lexes lx (ts @ us) \<Longrightarrow> lexes lx ts"
  by (induction ts arbitrary: lx) auto

lemma advance_stream:
  assumes "stream p (t # u # ts)"
  obtains q where "advance_token p = (q, Ok t)" "stream q (u # ts)" "same_rest p q"
    "prev_end q = span_end (tok_span t)" "current q = u"
proof -
  obtain us where us: "t # u # ts = current p # peeked p @ us" "lexes (parser_lexer p) us"
    using assms by (auto simp: stream_def)
  show ?thesis
  proof (cases "peeked p")
    case Nil
    then obtain lx' where "next_token (parser_lexer p) = (lx', Ok u)" "lexes lx' ts" using us by auto
    then show ?thesis
      using that us Nil
      by (auto simp: advance_token_def lex_next_def pbind_def stream_def same_rest_def Let_def)
  next
    case (Cons a list)
    then show ?thesis
      using that us by (auto simp: advance_token_def stream_def same_rest_def Let_def)
  qed
qed

lemma peek_stream:
  assumes "stream p (t # u # ts)"
  obtains q where "peek_nth 0 p = (q, Ok u)" "stream q (t # u # ts)" "same_rest p q"
    "prev_end q = prev_end p" "current q = t"
proof -
  obtain us where us: "t # u # ts = current p # peeked p @ us" "lexes (parser_lexer p) us"
    using assms by (auto simp: stream_def)
  show ?thesis
  proof (cases "peeked p")
    case Nil
    then obtain lx' where "next_token (parser_lexer p) = (lx', Ok u)" "lexes lx' ts" using us by auto
    then show ?thesis
      using that us Nil
      by (auto simp: peek_nth.simps lex_next_def stream_def same_rest_def Let_def)
  next
    case (Cons a list)
    then show ?thesis
      using that us by (auto simp: peek_nth.simps stream_def same_rest_def)
  qed
qed

text \<open>The tokens of ordinary words, each but the first after a blank.\<close>

fun blank_words :: "string list \<Rightarrow> string" where
  "blank_words [] = []"
| "blank_words (w # ws) = CHR '' '' # w @ blank_words ws"

fun line_tokens :: "nat \<Rightarrow> string list \<Rightarrow> token list" where
  "line_tokens i [] = []"
| "line_tokens i (w # ws) = word_token i w # line_tokens (i + length w + 1) ws"

lemma blank_words_break: "blank_words ws = [] \<or> is_word_break (hd (blank_words ws))"
  by (cases ws) (simp_all add: is_word_break_def)

lemma lexes_end:
  "mode lx = Normal \<Longrightarrow> left lx = [] \<Longrightarrow> pos lx = length (source lx) \<Longrightarrow>
   lexes lx (replicate k (eof_token (length (source lx))))"
  by (induction k) (auto simp: next_at_end)

lemma lexes_words:
  assumes "mode lx = Normal" "valid_utf8 (source lx)" "pos lx \<le> length (source lx)"
    "left lx = blank_words ws" "list_all ordinary_word ws"
  shows "lexes lx (line_tokens (pos lx + 1) ws @ replicate k (eof_token (length (source lx))))"
  using assms
proof (induction ws arbitrary: lx)
  case Nil
  then have "pos lx = length (source lx)" by (simp add: left_def)
  then show ?case using lexes_end [of lx k] Nil by simp
next
  case (Cons w ws)
  obtain c u where w: "w = c # u" "word_char c" using Cons.prems(5) by (cases w) (auto simp: ordinary_word_def)
  let ?lx1 = "advance 1 lx" and ?lx2 = "advance (length w) (advance 1 lx)"
  have l1: "left ?lx1 = w @ blank_words ws" using Cons.prems(4) by (simp add: left_advance)
  have "skip_blanks lx = ?lx1" using skip_blank_word [of lx c] Cons.prems(4) w by simp
  then have n: "next_token lx = (?lx2, Ok (word_token (pos lx + 1) w))"
    using next_plain_word [OF Cons.prems(1,2) _ l1 _ blank_words_break] Cons.prems(5) by (simp add: advance_def)
  have l2: "left ?lx2 = blank_words ws" using l1 by (simp add: left_advance)
  have "length (left lx) = Suc (length w + length (blank_words ws))" using Cons.prems(4) by simp
  then have "pos ?lx2 \<le> length (source ?lx2)" using Cons.prems(3) by (simp add: left_def advance_def)
  then have "lexes ?lx2 (line_tokens (pos ?lx2 + 1) ws @ replicate k (eof_token (length (source ?lx2))))"
    using Cons.IH [of ?lx2] Cons.prems l2 by (simp add: advance_def)
  then show ?case using n by (auto simp: advance_def add.commute add.left_commute)
qed

section \<open>Parsing words\<close>

definition plain_text :: "nat \<Rightarrow> string \<Rightarrow> shell_word" where
  "plain_text i w = \<lparr>word_parts = [Literal w],
     word_span = \<lparr>span_start = of_nat i, span_end = of_nat (i + length w)\<rparr>\<rparr>"

fun line_words :: "nat \<Rightarrow> string list \<Rightarrow> shell_word list" where
  "line_words i [] = []"
| "line_words i (w # ws) = plain_text i w # line_words (i + length w + 1) ws"

text \<open>The words stand in the source at the positions of their tokens.\<close>

fun placed :: "string \<Rightarrow> nat \<Rightarrow> string list \<Rightarrow> bool" where
  "placed s i [] = True"
| "placed s i (w # ws) =
     (take (length w) (drop i s) = w \<and> i + length w < 2 ^ 32 \<and> placed s (i + length w + 1) ws)"

lemma word_token_text:
  assumes "placed s i (w # ws)"
  shows "token_text (word_token i w) s = w"
proof -
  have "unat (of_nat i :: u32) = i" "unat (of_nat (i + length w) :: u32) = i + length w"
    using assms by (simp_all add: unat_of_nat_less del: of_nat_add)
  then show ?thesis using assms by (simp add: token_text_def word_token_def del: of_nat_add)
qed

lemma ordinary_parts: "ordinary_word w \<Longrightarrow> parse_word_parts w = Ok [Literal w]"
proof -
  assume o: "ordinary_word w"
  then have "list_all (\<lambda>c. c \<notin> set word_specials) w" "list_all is_ascii w"
    using word_char_ordinary
    by (auto simp: ordinary_word_def list_all_iff word_specials_def is_word_break_def)
  then show ?thesis
    using o plain_word [of w 0 w "[]" "[]"] byte_chars_ascii [of w]
    by (simp add: parse_word_parts_def flush_def ordinary_word_def)
qed

lemma word_token_kind [simp]: "tok_kind (word_token i w) = Word (is_reserved_word w)"
  by (simp add: word_token_def)

lemma parse_ordinary_word:
  assumes "stream p (word_token i w # u # ts)" "placed (parser_source p) i (w # ws)" "ordinary_word w"
  obtains q where "parse_word p = (q, Ok (plain_text i w))" "stream q (u # ts)" "same_rest p q"
    "prev_end q = of_nat (i + length w)" "current q = u"
proof -
  obtain q where q: "advance_token p = (q, Ok (word_token i w))" "stream q (u # ts)" "same_rest p q"
      "prev_end q = span_end (tok_span (word_token i w))" "current q = u"
    using advance_stream [OF assms(1)] by blast
  have "token_text (word_token i w) (parser_source q) = w"
    using word_token_text [OF assms(2)] q(3) by (simp add: same_rest_def)
  then have "parse_word p = (q, Ok (plain_text i w))"
    using q(1) ordinary_parts [OF assms(3)]
    by (simp add: parse_word_def pbind_def parse_parts_def plain_text_def word_token_def)
  then show ?thesis using that q by (simp add: word_token_def)
qed

definition no_operator :: "token \<Rightarrow> bool" where
  "no_operator t \<longleftrightarrow> (case tok_kind t of Word _ \<Rightarrow> True | Eof \<Rightarrow> True | _ \<Rightarrow> False)"

lemma stream_current: "stream p (t # ts) \<Longrightarrow> current p = t"
  by (auto simp: stream_def)

lemma no_fd_prefix:
  assumes "stream p (t # u # ts)" "no_operator u"
  obtains q where "at_fd_prefix_redirection p = (q, Ok False)" "stream q (t # u # ts)" "same_rest p q"
    "prev_end q = prev_end p" "current q = t"
proof (cases "at_word p \<and> length (current_text p) = 1 \<and> is_digit (current_text p ! 0)")
  case True
  obtain q where q: "peek_nth 0 p = (q, Ok u)" "stream q (t # u # ts)" "same_rest p q" "prev_end q = prev_end p"
      "current q = t"
    using peek_stream [OF assms(1)] by blast
  have "at_fd_prefix_redirection p = (q, Ok False)"
    using True q(1) assms(2)
    by (auto simp: at_fd_prefix_redirection_def try_peek_def pbind_def no_operator_def Let_def
        split: token_kind.splits)
  then show ?thesis using that q by blast
next
  case False
  then have "at_fd_prefix_redirection p = (p, Ok False)"
    by (auto simp: at_fd_prefix_redirection_def Let_def)
  then show ?thesis using that assms(1) stream_current [OF assms(1)] by (simp add: same_rest_def)
qed

lemma at_end_leaves:
  assumes "stream p [eof_token e, eof_token e]"
  obtains q where "parse_loop parse_simple_command_part acc p = (q, Ok acc)" "stream q [eof_token e, eof_token e]"
    "same_rest p q" "prev_end q = prev_end p"
proof -
  obtain a wds rs past where acc: "acc = (a, wds, rs, past)" by (cases acc)
  obtain q where q: "at_fd_prefix_redirection p = (q, Ok False)" "stream q [eof_token e, eof_token e]" "same_rest p q"
      "prev_end q = prev_end p" "current q = eof_token e"
    using no_fd_prefix [OF assms] by (auto simp: no_operator_def eof_token_def)
  then have "parse_simple_command_part acc p = leave q acc"
    by (simp add: acc parse_simple_command_part_def pbind_def at_redirection_def at_word_def eof_token_def)
  then have "parse_loop parse_simple_command_part acc p = (q, Ok acc)" by (subst parse_loop.simps) simp
  then show ?thesis using that q by blast
qed

lemma simple_word_step:
  assumes "stream p (word_token i w # u # ts)" "no_operator u" "placed (parser_source p) i (w # ws)"
    "ordinary_word w" "CHR ''='' \<notin> set w"
  obtains q where
    "parse_simple_command_part (a, wds, rs, past) p = go_on q (a, wds @ [plain_text i w], rs, True)"
    "stream q (u # ts)" "same_rest p q" "prev_end q = of_nat (i + length w)" "current q = u"
proof -
  obtain p1 where p1: "at_fd_prefix_redirection p = (p1, Ok False)" "stream p1 (word_token i w # u # ts)"
      "same_rest p p1" "current p1 = word_token i w"
    using no_fd_prefix [OF assms(1,2)] by metis
  have src: "placed (parser_source p1) i (w # ws)" using assms(3) p1(3) by (simp add: same_rest_def)
  obtain q where q: "parse_word p1 = (q, Ok (plain_text i w))" "stream q (u # ts)" "same_rest p1 q"
      "prev_end q = of_nat (i + length w)" "current q = u"
    using parse_ordinary_word [OF p1(2) src assms(4)] by blast
  have tx: "current_text p1 = w" using word_token_text [OF src] p1(4) by (simp add: current_text_def)
  have "find_char (CHR ''='') w = None" using assms(5) by (simp add: find_char_None)
  then have "\<not> is_assignment_text w" by (simp add: is_assignment_text_def)
  moreover have "last w \<noteq> CHR ''=''" if "w \<noteq> []" using last_in_set [OF that] assms(5) by auto
  ultimately have "parse_simple_word_part (a, wds, rs, past) p1 = (q, Ok (a, wds @ [plain_text i w], rs, True))"
    using q(1) tx by (auto simp: parse_simple_word_part_def pbind_def Let_def)
  then have "parse_simple_command_part (a, wds, rs, past) p = go_on q (a, wds @ [plain_text i w], rs, True)"
    using p1 by (simp add: parse_simple_command_part_def pbind_def at_redirection_def at_word_def)
  then show ?thesis using that q p1(3) by (auto simp: same_rest_def)
qed

lemma later_tokens:
  assumes "current p = word_token i w" "current q = u" "w \<noteq> []" "i + length w < 2 ^ 32"
    "u = word_token j v \<or> u = eof_token j" "i + length w \<le> j" "j < 2 ^ 32"
  shows "later p q"
proof -
  have "unat (of_nat i :: u32) = i" "unat (of_nat j :: u32) = j"
    using assms by (auto intro!: unat_of_nat_less)
  moreover have "i < j" using assms(3,6) by (cases w) auto
  ultimately show ?thesis
    using assms(1,2,5) by (auto simp: later_def word_token_def eof_token_def word_less_nat_alt)
qed

text \<open>The end of the last of the words that start at \<open>i\<close>.\<close>

fun line_end :: "nat \<Rightarrow> string list \<Rightarrow> nat" where
  "line_end i [] = i - 1"
| "line_end i (w # ws) = line_end (i + length w + 1) ws"

lemma line_end_ge: "0 < i \<Longrightarrow> i - 1 \<le> line_end i ws"
  by (induction i ws rule: line_end.induct) auto

abbreviation eofs :: "nat \<Rightarrow> token list" where
  "eofs e \<equiv> [eof_token e, eof_token e]"

lemma simple_words_loop:
  assumes "stream p (line_tokens i ws @ eofs (line_end i ws))" "placed (parser_source p) i ws"
    "list_all (\<lambda>w. ordinary_word w \<and> CHR ''='' \<notin> set w) ws" "line_end i ws < 2 ^ 32"
  shows "\<exists>q past'. parse_loop parse_simple_command_part (a, wds, rs, past) p =
      (q, Ok (a, wds @ line_words i ws, rs, past')) \<and>
    stream q (eofs (line_end i ws)) \<and> same_rest p q \<and>
    prev_end q = (if ws = [] then prev_end p else of_nat (line_end i ws))"
  using assms
proof (induction ws arbitrary: i p wds past)
  case Nil
  then obtain q where "parse_loop parse_simple_command_part (a, wds, rs, past) p = (q, Ok (a, wds, rs, past))"
      "stream q (eofs (i - 1))" "same_rest p q" "prev_end q = prev_end p"
    using at_end_leaves [of p "i - 1" "(a, wds, rs, past)"] by auto
  then show ?case by auto
next
  case (Cons w ws)
  let ?i = "i + length w + 1"
  let ?ts = "line_tokens ?i ws @ eofs (line_end ?i ws)"
  obtain u ts where u: "?ts = u # ts" "no_operator u"
      "(\<exists>v. u = word_token ?i v \<and> ws \<noteq> []) \<or> (u = eof_token (i + length w) \<and> ws = [])"
    by (cases ws) (auto simp: no_operator_def eof_token_def)
  obtain q where q: "parse_simple_command_part (a, wds, rs, past) p = go_on q (a, wds @ [plain_text i w], rs, True)"
      "stream q ?ts" "same_rest p q" "prev_end q = of_nat (i + length w)" "current q = u"
    using simple_word_step [of p i w u ts ws a wds rs past] Cons.prems u by auto
  have pl: "placed (parser_source q) ?i ws" "w \<noteq> []" "i + length w < 2 ^ 32"
    using Cons.prems q(3) by (simp_all add: same_rest_def ordinary_word_def)
  have cur: "current p = word_token i w" using stream_current Cons.prems(1) by fastforce
  have "later p q"
  proof (cases "ws = []")
    case True
    then show ?thesis using later_tokens [OF cur q(5) pl(2,3), of "i + length w"] u(3) pl(3) by auto
  next
    case False
    then have "i + length w + 1 < 2 ^ 32"
      using Cons.prems(4) line_end_ge [of "?i + length (hd ws) + 1" "tl ws"] by (cases ws) auto
    then show ?thesis using later_tokens [OF cur q(5) pl(2,3), of ?i] u(3) False by auto
  qed
  then have "parse_loop parse_simple_command_part (a, wds, rs, past) p =
      parse_loop parse_simple_command_part (a, wds @ [plain_text i w], rs, True) q"
    using q(1) by (subst parse_loop.simps) simp
  moreover obtain q' past' where "parse_loop parse_simple_command_part (a, wds @ [plain_text i w], rs, True) q =
      (q', Ok (a, (wds @ [plain_text i w]) @ line_words ?i ws, rs, past'))"
    "stream q' (eofs (line_end ?i ws))" "same_rest q q'"
    "prev_end q' = (if ws = [] then prev_end q else of_nat (line_end ?i ws))"
    using Cons.IH [where p = q and i = ?i and wds = "wds @ [plain_text i w]" and past = True] Cons.prems q(2) pl(1)
    by auto
  ultimately show ?case using q(3,4) by (auto simp: same_rest_def)
qed

section \<open>Whole lines\<close>

lemma skip_newlines_none: "cur_kind p \<noteq> Newline \<Longrightarrow> skip_newlines p = (p, Ok ())"
  by (simp add: skip_newlines_def parse_loop.simps [of newline_step] newline_step_def)

text \<open>A command that is a line of words, at any level.\<close>

definition line_command :: "nat \<Rightarrow> string list \<Rightarrow> command" where
  "line_command i ws = SimpleCommand [] (line_words i ws) []
     \<lparr>span_start = of_nat i, span_end = of_nat (line_end i ws)\<rparr>"

definition at_line :: "parser \<Rightarrow> nat \<Rightarrow> string list \<Rightarrow> bool" where
  "at_line p i ws \<longleftrightarrow>
     stream p (line_tokens i ws @ eofs (line_end i ws)) \<and> placed (parser_source p) i ws \<and> ws \<noteq> [] \<and>
     list_all (\<lambda>w. ordinary_word w \<and> CHR ''='' \<notin> set w) ws \<and> line_end i ws < 2 ^ 32 \<and>
     \<not> is_reserved_word (hd ws)"

lemma at_line_current:
  assumes "at_line p i ws"
  shows "current p = word_token i (hd ws)" "current_text p = hd ws" "cur_start p = of_nat i" "at_word p"
proof -
  obtain w ws' where ws: "ws = w # ws'" using assms by (cases ws) (auto simp: at_line_def)
  then show c: "current p = word_token i (hd ws)"
    using assms stream_current by (fastforce simp: at_line_def)
  then show "current_text p = hd ws" "cur_start p = of_nat i" "at_word p"
    using assms ws word_token_text [of "parser_source p" i w ws']
    by (auto simp: at_line_def current_text_def at_word_def word_token_def)
qed

lemma parse_simple_line:
  assumes "at_line p i ws"
  obtains q where "parse_simple_command p = (q, Ok (line_command i ws))"
    "stream q (eofs (line_end i ws))" "same_rest p q" "prev_end q = of_nat (line_end i ws)"
proof -
  obtain q past where "parse_loop parse_simple_command_part ([], [], [], False) p =
      (q, Ok ([], [] @ line_words i ws, [], past))" "stream q (eofs (line_end i ws))" "same_rest p q"
      "prev_end q = (if ws = [] then prev_end p else of_nat (line_end i ws))"
    using simple_words_loop [of p i ws "[]" "[]" "[]" False] assms by (auto simp: at_line_def)
  moreover have "line_words i ws \<noteq> []" "ws \<noteq> []" using assms by (cases ws; simp add: at_line_def)+
  ultimately show ?thesis
    using that at_line_current(3) [OF assms]
    by (simp add: parse_simple_command_def pbind_def line_command_def parser_span_from_def)
qed

lemma reserved_words_differ:
  assumes "\<not> is_reserved_word w"
  shows "w \<notin> set TERMINATOR_WORDS" "w \<noteq> ''{''" "w \<noteq> ''if''" "w \<noteq> ''while''" "w \<noteq> ''until''" "w \<noteq> ''for''"
    "w \<noteq> ''case''" "w \<noteq> ''select''" "w \<noteq> ''function''" "w \<noteq> ''time''" "w \<noteq> ''!''"
  using assms by (auto simp: is_reserved_word_def RESERVED_WORDS_def TERMINATOR_WORDS_def)

lemma parse_line_inner:
  assumes "at_line p i ws"
  obtains q where "parse_command_inner pc p = (q, Ok (line_command i ws))"
    "stream q (eofs (line_end i ws))" "same_rest p q" "prev_end q = of_nat (line_end i ws)"
proof -
  obtain w ws' where ws: "ws = w # ws'" using assms by (cases ws) (auto simp: at_line_def)
  obtain t u ts where tu: "line_tokens i ws @ eofs (line_end i ws) = t # u # ts" "no_operator u"
    unfolding ws by (cases ws') (auto simp: no_operator_def eof_token_def)
  then obtain p1 where p1: "peek_nth 0 p = (p1, Ok u)" "stream p1 (t # u # ts)" "same_rest p p1"
    using peek_stream [of p t u ts] assms by (auto simp: at_line_def)
  have line: "at_line p1 i ws" using assms p1(2,3) tu(1) by (simp add: at_line_def same_rest_def)
  have "at_function_parens p = (p1, Ok False)"
    using p1(1) tu(2) by (auto simp: at_function_parens_def pbind_def no_operator_def split: token_kind.splits)
  moreover have "\<not> is_reserved_word (current_text p)" using assms at_line_current(2) by (simp add: at_line_def)
  ultimately have "try_parse_compound_keyword pc p = (p1, Ok None)"
    using reserved_words_differ by (simp add: try_parse_compound_keyword_def pbind_def Let_def)
  moreover have "at_word p" "cur_kind p = Word (is_reserved_word (hd ws))" using at_line_current [OF assms] by simp_all
  ultimately have "parse_command_inner pc p = parse_simple_command p1"
    by (simp add: parse_command_inner_def pbind_def)
  then show ?thesis using parse_simple_line [OF line] that p1(3) by (auto simp: same_rest_def)
qed

text \<open>Around a source that is one command.\<close>

definition single_program :: "command \<Rightarrow> span \<Rightarrow> program" where
  "single_program c sp = [CompleteCommand [AndOrList (Pipeline False False False [c] []) []] sp]"

lemma parse_command_once:
  assumes "nesting_depth p = 0" "parse_command_inner (parse_command_at 24) (p\<lparr>nesting_depth := 1\<rparr>) = (q, Ok c)"
    "same_rest (p\<lparr>nesting_depth := 1\<rparr>) q"
  shows "parse_command p = (q\<lparr>nesting_depth := 0\<rparr>, Ok c)"
proof -
  have m: "unat MAX_NESTING_DEPTH = 24" by (simp add: MAX_NESTING_DEPTH_def)
  have "enter_nesting p = (p\<lparr>nesting_depth := 1\<rparr>, Ok ())"
    using assms(1) by (simp add: enter_nesting_def MAX_NESTING_DEPTH_def)
  then have "parse_command p = (exit_nesting q, Ok c)"
    using assms(2) unfolding parse_command_def m parse_command_at.simps(2) by (simp add: pbind_def)
  moreover have "exit_nesting q = q\<lparr>nesting_depth := 0\<rparr>"
    using assms(3) by (simp add: exit_nesting_def same_rest_def sat_sub_def)
  ultimately show ?thesis by simp
qed

lemma parse_single_program:
  assumes p: "nesting_depth p = 0" "pending_heredocs p = []" "at_word p" "\<not> is_reserved_word (current_text p)"
    and c: "parse_command p = (q, Ok c)" "cur_kind q = Eof" "same_rest p q" "later p q"
  shows "snd (parse_program p) = Ok (single_program c \<lparr>span_start = cur_start p, span_end = prev_end q\<rparr>)"
proof -
  have k: "cur_kind p \<noteq> Newline" "cur_kind p \<noteq> LParen" "cur_kind p \<noteq> DblLBracket"
    using p(3) by (auto simp: at_word_def)
  note kw = reserved_words_differ [OF p(4)]
  have "parse_pipeline parse_command p = (q, Ok (Pipeline False False False [c] []))"
    using c(1,2) kw by (simp add: parse_pipeline_def take_flag_def at_word_eq_def pbind_def
        parse_loop.simps [of "pipe_step _"] pipe_step_def)
  then have "parse_and_or parse_command p = (q, Ok (AndOrList (Pipeline False False False [c] []) []))"
    using c(2) by (simp add: parse_and_or_def pbind_def parse_loop.simps [of "and_or_step _"] and_or_step_def)
  then have cc: "parse_complete_command parse_command p =
      (q, Ok (CompleteCommand [AndOrList (Pipeline False False False [c] []) []]
        \<lparr>span_start = cur_start p, span_end = prev_end q\<rparr>))"
    using c(2,3) p(2)
    by (simp add: parse_complete_command_def pbind_def parse_loop.simps [of "complete_step _"] complete_step_def
        at_list_semi_def same_rest_def parser_span_from_def Let_def)
  have start: "at_command_start p" "\<not> at_command_start q"
    using p(3) k kw c(2) by (auto simp: at_command_start_def at_word_def at_redirection_def)
  then have "parse_loop (compound_list_step parse_command) [] p =
      (q, Ok (single_program c \<lparr>span_start = cur_start p, span_end = prev_end q\<rparr>))"
    using cc c(2,4)
    by (subst parse_loop.simps, simp add: compound_list_step_def pbind_def skip_newlines_none)
      (subst parse_loop.simps, simp add: compound_list_step_def single_program_def)
  then show ?thesis
    using c(2) skip_newlines_none [OF k(1)] by (simp add: parse_program_def pbind_def)
qed

lemma placed_words:
  "s = pre @ blank_words ws \<Longrightarrow> length s < 2 ^ 32 \<Longrightarrow> placed s (length pre + 1) ws"
proof (induction ws arbitrary: pre)
  case (Cons w ws)
  then show ?case using Cons.IH [of "pre @ CHR '' '' # w"] by (simp add: add.commute add.left_commute)
qed simp

lemma line_end_length: "line_end (i + 1) ws = i + length (blank_words ws)"
proof (induction ws arbitrary: i)
  case (Cons w ws)
  then show ?case using Cons.IH [of "i + 1 + length w"] by simp
qed simp

lemma join_blank_words: "join_with '' '' (w # ws) = w @ blank_words ws"
  by (induction ws arbitrary: w) simp_all

lemma ordinary_ascii: "ordinary_word w \<Longrightarrow> list_all is_ascii w"
  using word_char_ordinary(8) by (auto simp: ordinary_word_def list_all_iff)

lemma line_valid: "list_all ordinary_word (w # ws) \<Longrightarrow> valid_utf8 (w @ blank_words ws)"
proof (rule valid_utf8_ascii)
  assume a: "list_all ordinary_word (w # ws)"
  then have "list_all is_ascii (blank_words ws)"
    by (induction ws) (simp_all add: ordinary_ascii, simp add: byte_in_def)
  then show "list_all is_ascii (w @ blank_words ws)" using a ordinary_ascii by simp
qed

lemma line_start:
  assumes "list_all ordinary_word (w # ws)" "s = w @ blank_words ws" "length s < 2 ^ 32"
  obtains p where "parser_new s = Ok p" "stream p (line_tokens 0 (w # ws) @ eofs (line_end 0 (w # ws)))"
    "parser_source p = s" "nesting_depth p = 0" "pending_heredocs p = []" "placed s 0 (w # ws)"
    "line_end 0 (w # ws) = length s"
proof -
  let ?lx = "lexer_new s" and ?lx1 = "advance (length w) (lexer_new s)"
  obtain c u where w: "w = c # u" "word_char c" using assms(1) by (cases w) (auto simp: ordinary_word_def)
  have v: "valid_utf8 s" using line_valid assms(1,2) by blast
  have l: "left ?lx = w @ blank_words ws" using assms(2) by (simp add: left_def lexer_new_def)
  have "skip_blanks ?lx = ?lx" using skip_blanks_word [of ?lx c] l w by simp
  then have n: "next_token ?lx = (?lx1, Ok (word_token 0 w))"
    using next_plain_word [OF _ _ _ l _ blank_words_break] v assms(1) by (simp add: lexer_new_def)
  have e: "line_end 0 (w # ws) = length s" using line_end_length [of "length w" ws] assms(2) by simp
  have "left ?lx1 = blank_words ws" using l by (simp add: left_advance)
  then have "lexes ?lx1 (line_tokens (pos ?lx1 + 1) ws @ replicate 2 (eof_token (length (source ?lx1))))"
    using v assms by (intro lexes_words) (simp_all add: lexer_new_def advance_def)
  then have lx: "lexes ?lx1 (line_tokens (length w + 1) ws @ eofs (length s))"
    by (simp add: advance_def lexer_new_def numeral_2_eq_2)
  have pl: "placed s 0 (w # ws)" using placed_words [of s w ws] assms(2,3) by simp
  show ?thesis
    by (rule that [of "\<lparr>parser_source = s, parser_lexer = ?lx1, current = word_token 0 w, peeked = [], prev_end = 0,
        pending_heredocs = [], nesting_depth = 0\<rparr>"])
      (use n lx e pl in \<open>simp_all add: parser_new_def stream_def\<close>)
qed

text \<open>
  C5 (a line of words): a source that is a line of ordinary words, separated by single blanks and
  starting with a word that is not reserved, is parsed into one simple command with exactly
  these words, in order and with their positions in the source.
\<close>

theorem plain_line_parsed:
  assumes "ws \<noteq> []" "list_all (\<lambda>w. ordinary_word w \<and> CHR ''='' \<notin> set w) ws" "\<not> is_reserved_word (hd ws)"
    and "s = join_with '' '' ws" "length s < 2 ^ 32"
  shows "parse s = Ok [CompleteCommand [AndOrList (Pipeline False False False
      [SimpleCommand [] (line_words 0 ws) [] \<lparr>span_start = 0, span_end = of_nat (length s)\<rparr>] []) []]
      \<lparr>span_start = 0, span_end = of_nat (length s)\<rparr>]"
proof -
  obtain w ws' where ws: "ws = w # ws'" using assms(1) by (cases ws) auto
  have o: "list_all ordinary_word (w # ws')" using assms(2) ws by (auto simp: list_all_iff)
  have s: "s = w @ blank_words ws'" using assms(4) ws join_blank_words by simp
  obtain p where p: "parser_new s = Ok p" "stream p (line_tokens 0 ws @ eofs (line_end 0 ws))"
      "parser_source p = s" "nesting_depth p = 0" "pending_heredocs p = []" "placed s 0 ws" "line_end 0 ws = length s"
    using line_start [OF o s assms(5)] ws by metis
  let ?p = "p\<lparr>nesting_depth := 1\<rparr>"
  have line: "at_line ?p 0 ws" using p assms by (simp add: at_line_def stream_def)
  then obtain q where q: "parse_command_inner (parse_command_at 24) ?p = (q, Ok (line_command 0 ws))"
      "stream q (eofs (length s))" "same_rest ?p q" "prev_end q = of_nat (length s)"
    using parse_line_inner [OF line] p(7) by metis
  let ?q = "q\<lparr>nesting_depth := 0\<rparr>"
  have c: "parse_command p = (?q, Ok (line_command 0 ws))" by (rule parse_command_once [OF p(4) q(1,3)])
  note cur = at_line_current [OF line]
  have eof: "current q = eof_token (length s)" using q(2) by (rule stream_current)
  have "w \<noteq> []" "length w \<le> length s" using o s by (auto simp: ordinary_word_def)
  then have "later p ?q"
    using later_tokens [of p 0 w ?q "eof_token (length s)" "length s"] cur(1) eof assms(5) ws by simp
  then have "snd (parse_program p) = Ok (single_program (line_command 0 ws)
      \<lparr>span_start = cur_start p, span_end = prev_end ?q\<rparr>)"
    using parse_single_program [OF p(4,5) _ _ c] cur eof q(3) assms(3)
    by (simp add: same_rest_def eof_token_def current_text_def at_word_def p(4))
  then show ?thesis
    using p(1,7) cur(3) q(4) by (simp add: parse_def result_bind_def single_program_def line_command_def)
qed

theorem plain_line_parsed_witness:
  "parse ''git add .'' = Ok [CompleteCommand [AndOrList (Pipeline False False False
      [SimpleCommand [] (line_words 0 [''git'', ''add'', ''.'']) [] \<lparr>span_start = 0, span_end = 9\<rparr>] []) []]
      \<lparr>span_start = 0, span_end = 9\<rparr>]"
  using plain_line_parsed [of "[''git'', ''add'', ''.'']" "''git add .''"]
  by (simp add: ordinary_word_def word_char_def is_alpha_def is_digit_def is_reserved_word_def RESERVED_WORDS_def)

section \<open>Assignments\<close>

definition assignment_to :: "string \<Rightarrow> string \<Rightarrow> assignment" where
  "assignment_to name val =
     (let e = of_nat (length name + 1 + length val) in
      \<lparr>assign_name = name,
       assign_value = (if val = [] then None
         else Some \<lparr>word_parts = [Literal val],
                    word_span = \<lparr>span_start = of_nat (length name) + 1, span_end = e\<rparr>\<rparr>),
       assign_span = \<lparr>span_start = 0, span_end = e\<rparr>\<rparr>)"

lemma name_ordinary:
  assumes "is_name name"
  shows "list_all word_char name" "CHR ''='' \<notin> set name" "CHR ''+'' \<notin> set name" "CHR ''['' \<notin> set name" "name \<noteq> []"
  using assms
  by (auto simp: is_name_def word_char_def is_alpha_def is_digit_def list_all_iff split: list.splits)

lemma find_char_first: "c \<notin> set pre \<Longrightarrow> find_char c (pre @ c # post) = Some (length pre)"
proof -
  assume "c \<notin> set pre"
  then have "takeWhile (\<lambda>x. x \<noteq> c) pre = pre" by (auto simp: takeWhile_eq_all_conv)
  then show ?thesis by (simp add: find_char_def takeWhile_tail Let_def)
qed

lemma assignment_text:
  assumes "is_name name"
  shows "is_assignment_text (name @ CHR ''='' # val)"
proof -
  note n = name_ordinary [OF assms]
  have "find_char (CHR ''='') (name @ CHR ''='' # val) = Some (length name)" using find_char_first n(2) by blast
  moreover have "last name \<noteq> CHR ''+''" using n(3,5) last_in_set by metis
  moreover have "find_char (CHR ''['') name = None" using n(4) by (simp add: find_char_None)
  ultimately show ?thesis using assms n(5) by (simp add: is_assignment_text_def Let_def)
qed

lemma reserved_no_equals: "is_reserved_word w \<Longrightarrow> CHR ''='' \<notin> set w"
  by (auto simp: is_reserved_word_def RESERVED_WORDS_def)

lemma parse_assignment_source:
  assumes "stream p [word_token 0 s, eof_token (length s), eof_token (length s)]"
    "placed (parser_source p) 0 [s]" "s = name @ CHR ''='' # val" "is_name name" "list_all word_char val"
  obtains q where "parse_assignment p = (q, Ok (assignment_to name val))"
    "stream q [eof_token (length s), eof_token (length s)]" "same_rest p q" "prev_end q = of_nat (length s)"
proof -
  obtain q where q: "advance_token p = (q, Ok (word_token 0 s))" "stream q [eof_token (length s), eof_token (length s)]"
      "same_rest p q" "prev_end q = span_end (tok_span (word_token 0 s))" "current q = eof_token (length s)"
    using advance_stream [OF assms(1)] by blast
  have tx: "token_text (word_token 0 s) (parser_source q) = s"
    using word_token_text [OF assms(2)] q(3) by (simp add: same_rest_def)
  have f: "find_char (CHR ''='') s = Some (length name)"
    using find_char_first name_ordinary(2) [OF assms(4)] assms(3) by blast
  have "assignment_of (word_token 0 s) q = (q, Ok (assignment_to name val))"
  proof (cases "val = []")
    case True
    then show ?thesis
      using tx f q(5) assms(3)
      by (simp add: assignment_of_def pbind_def parse_assignment_compound_value_def assignment_to_def
          eof_token_def word_token_def Let_def)
  next
    case False
    then have "parse_word_parts val = Ok [Literal val]" using ordinary_parts assms(5) by (simp add: ordinary_word_def)
    then show ?thesis
      using tx f False assms(3)
      by (simp add: assignment_of_def pbind_def make_assignment_word_def parse_parts_def assignment_to_def
          word_token_def Let_def)
  qed
  then show ?thesis using that q by (simp add: parse_assignment_def pbind_def word_token_def)
qed

lemma assignment_inner:
  assumes "stream p [word_token 0 s, eof_token (length s), eof_token (length s)]"
    "placed (parser_source p) 0 [s]" "s = name @ CHR ''='' # val" "is_name name" "list_all word_char val"
    "length s < 2 ^ 32"
  obtains q where
    "parse_command_inner pc p = (q, Ok (SimpleCommand [assignment_to name val] [] []
       \<lparr>span_start = 0, span_end = of_nat (length s)\<rparr>))"
    "stream q [eof_token (length s), eof_token (length s)]" "same_rest p q" "prev_end q = of_nat (length s)"
proof -
  let ?ts = "[word_token 0 s, eof_token (length s), eof_token (length s)]"
  obtain p1 where p1: "peek_nth 0 p = (p1, Ok (eof_token (length s)))" "stream p1 ?ts" "same_rest p p1"
      "current p1 = word_token 0 s"
    using peek_stream [OF assms(1)] by metis
  obtain p2 where p2: "at_fd_prefix_redirection p1 = (p2, Ok False)" "stream p2 ?ts" "same_rest p1 p2"
      "current p2 = word_token 0 s"
    using no_fd_prefix [OF p1(2)] by (auto simp: no_operator_def eof_token_def)
  have pl: "placed (parser_source p2) 0 [s]" "parser_source p2 = parser_source p"
    using assms(2) p1(3) p2(3) by (simp_all add: same_rest_def)
  obtain p3 where p3: "parse_assignment p2 = (p3, Ok (assignment_to name val))"
      "stream p3 [eof_token (length s), eof_token (length s)]" "same_rest p2 p3" "prev_end p3 = of_nat (length s)"
    using parse_assignment_source [OF p2(2) pl(1) assms(3-5)] by blast
  obtain q where q: "parse_loop parse_simple_command_part ([assignment_to name val], [], [], False) p3 =
        (q, Ok ([assignment_to name val], [], [], False))"
      "stream q [eof_token (length s), eof_token (length s)]" "same_rest p3 q" "prev_end q = prev_end p3"
    using at_end_leaves [OF p3(2)] by blast
  have tx: "current_text p = s" "current_text p2 = s"
    using word_token_text [OF assms(2)] stream_current [OF assms(1)] p2(4) pl(2) by (simp_all add: current_text_def)
  have nr: "\<not> is_reserved_word s" using reserved_no_equals [of s] assms(3) by auto
  have "parse_simple_word_part ([], [], [], False) p2 = (p3, Ok ([assignment_to name val], [], [], False))"
    using p3(1) tx(2) assignment_text [OF assms(4)] assms(3) by (simp add: parse_simple_word_part_def pbind_def)
  then have "parse_simple_command_part ([], [], [], False) p1 = go_on p3 ([assignment_to name val], [], [], False)"
    using p2 by (simp add: parse_simple_command_part_def pbind_def at_redirection_def at_word_def)
  moreover have "later p1 p3"
    using later_tokens [OF p1(4) stream_current [OF p3(2)], of "length s"] assms(3,6) by simp
  ultimately have "parse_loop parse_simple_command_part ([], [], [], False) p1 =
      (q, Ok ([assignment_to name val], [], [], False))"
    using q(1) by (subst parse_loop.simps) simp
  then have sc: "parse_simple_command p1 = (q, Ok (SimpleCommand [assignment_to name val] [] []
      \<lparr>span_start = 0, span_end = of_nat (length s)\<rparr>))"
    using p1(4) q(4) p3(4)
    by (simp add: parse_simple_command_def pbind_def parser_span_from_def word_token_def)
  have "at_function_parens p = (p1, Ok False)"
    using p1(1) by (simp add: at_function_parens_def pbind_def eof_token_def)
  then have "try_parse_compound_keyword pc p = (p1, Ok None)"
    using reserved_words_differ [OF nr] tx(1) by (simp add: try_parse_compound_keyword_def pbind_def Let_def)
  then have "parse_command_inner pc p = parse_simple_command p1"
    using stream_current [OF assms(1)] by (simp add: parse_command_inner_def pbind_def at_word_def)
  then show ?thesis using that sc q p3(3,4) p2(3) p1(3) by (auto simp: same_rest_def)
qed

lemma assignment_source_parsed:
  assumes "s = name @ CHR ''='' # val" "is_name name" "list_all word_char val" "length s < 2 ^ 32"
  shows "parse s = Ok (single_program (SimpleCommand [assignment_to name val] [] []
      \<lparr>span_start = 0, span_end = of_nat (length s)\<rparr>) \<lparr>span_start = 0, span_end = of_nat (length s)\<rparr>)"
proof -
  have "word_char (CHR ''='')" by (simp add: word_char_def)
  then have o: "list_all ordinary_word [s]" using assms name_ordinary(1) by (simp add: ordinary_word_def)
  have sb: "s = s @ blank_words []" by simp
  obtain p where p: "parser_new s = Ok p" "stream p [word_token 0 s, eof_token (length s), eof_token (length s)]"
      "parser_source p = s" "nesting_depth p = 0" "pending_heredocs p = []" "placed s 0 [s]"
    using line_start [OF o sb assms(4)] by auto
  let ?p = "p\<lparr>nesting_depth := 1\<rparr>"
  have sp: "stream ?p [word_token 0 s, eof_token (length s), eof_token (length s)]" "placed (parser_source ?p) 0 [s]"
    using p by (simp_all add: stream_def)
  let ?c = "SimpleCommand [assignment_to name val] [] [] \<lparr>span_start = 0, span_end = of_nat (length s)\<rparr>"
  obtain q where q: "parse_command_inner (parse_command_at 24) ?p = (q, Ok ?c)"
      "stream q [eof_token (length s), eof_token (length s)]" "same_rest ?p q" "prev_end q = of_nat (length s)"
    using assignment_inner [OF sp assms] by blast
  let ?q = "q\<lparr>nesting_depth := 0\<rparr>"
  have c: "parse_command p = (?q, Ok ?c)" by (rule parse_command_once [OF p(4) q(1,3)])
  have cur: "current p = word_token 0 s" "current ?q = eof_token (length s)"
    using stream_current [OF p(2)] stream_current [OF q(2)] by simp_all
  have "later p ?q" using later_tokens [OF cur, of "length s"] assms(1,4) by simp
  moreover have "\<not> is_reserved_word s" using reserved_no_equals [of s] assms(1) by auto
  moreover have "current_text p = s" using word_token_text [OF p(6)] cur(1) p(3) by (simp add: current_text_def)
  ultimately have "snd (parse_program p) = Ok (single_program ?c \<lparr>span_start = cur_start p, span_end = prev_end ?q\<rparr>)"
    using parse_single_program [OF p(4,5) _ _ c] cur q(3)
    by (simp add: same_rest_def eof_token_def at_word_def p(4))
  then show ?thesis using p(1) cur(1) q(4) by (simp add: parse_def result_bind_def word_token_def)
qed

end
