(* ===== verification/Unicode.thy ===== *)
theory Unicode
  imports Str_Ops
begin

text \<open>
  Rust's \<open>char\<close>s as their code points: encoding, the decoding step that \<open>str::from_utf8\<close> takes at
  a position (with its \<open>error_len\<close>), \<open>String::from_utf8_lossy\<close> and \<open>str::chars\<close>.  Decoding what
  was encoded gives the characters back, and lossy decoding keeps valid text.
\<close>

section \<open>Encoding\<close>

type_synonym scalar = nat

definition is_scalar :: "scalar \<Rightarrow> bool" where
  "is_scalar c \<longleftrightarrow> c < 0xD800 \<or> (0xE000 \<le> c \<and> c \<le> 0x10FFFF)"

definition replacement_char :: scalar where
  "replacement_char = 0xFFFD"

definition encode_utf8 :: "scalar \<Rightarrow> string" where
  "encode_utf8 c =
     (if c < 0x80 then [char_of c]
      else if c < 0x800 then [char_of (192 + c div 64), char_of (128 + c mod 64)]
      else if c < 0x10000 then
        [char_of (224 + c div 4096), char_of (128 + c div 64 mod 64), char_of (128 + c mod 64)]
      else
        [char_of (240 + c div 262144), char_of (128 + c div 4096 mod 64),
         char_of (128 + c div 64 mod 64), char_of (128 + c mod 64)])"

definition encode_str :: "scalar list \<Rightarrow> string" where
  "encode_str cs = concat (map encode_utf8 cs)"

section \<open>Decoding\<close>

text \<open>
  What stands at the head of some bytes: a character and its width, an invalid sequence and its
  length (\<open>error_len\<close> is \<open>Some\<close>), or the beginning of a character that the input cuts short
  (\<open>error_len\<close> is \<open>None\<close>).
\<close>

datatype utf8_step = Decoded scalar nat | Broken nat | Cut_Short

abbreviation cont_bits :: "char \<Rightarrow> nat" where
  "cont_bits b \<equiv> of_char b mod 64"

definition utf8_third :: "nat \<Rightarrow> string \<Rightarrow> utf8_step" where
  "utf8_third acc s =
     (case s of
        [] \<Rightarrow> Cut_Short
      | c # _ \<Rightarrow> if is_cont c then Decoded (acc * 64 + cont_bits c) 3 else Broken 2)"

definition utf8_fourth :: "nat \<Rightarrow> string \<Rightarrow> utf8_step" where
  "utf8_fourth acc s =
     (case s of
        [] \<Rightarrow> Cut_Short
      | c # t \<Rightarrow>
          if is_cont c then
            (case t of
               [] \<Rightarrow> Cut_Short
             | d # _ \<Rightarrow>
                 if is_cont d then Decoded ((acc * 64 + cont_bits c) * 64 + cont_bits d) 4
                 else Broken 3)
          else Broken 2)"

fun utf8_at :: "string \<Rightarrow> utf8_step" where
  "utf8_at [] = Cut_Short"
| "utf8_at (a # s) =
     (if byte_in 0 127 a then Decoded (of_char a) 1
      else if byte_in 194 223 a then
        (case s of
           [] \<Rightarrow> Cut_Short
         | b # _ \<Rightarrow> if is_cont b then Decoded ((of_char a mod 32) * 64 + cont_bits b) 2 else Broken 1)
      else if byte_in 224 239 a then
        (case s of
           [] \<Rightarrow> Cut_Short
         | b # t \<Rightarrow>
             if second_of_three a b then utf8_third ((of_char a mod 16) * 64 + cont_bits b) t
             else Broken 1)
      else if byte_in 240 244 a then
        (case s of
           [] \<Rightarrow> Cut_Short
         | b # t \<Rightarrow>
             if second_of_four a b then utf8_fourth ((of_char a mod 8) * 64 + cont_bits b) t
             else Broken 1)
      else Broken 1)"

definition step_width :: "utf8_step \<Rightarrow> string \<Rightarrow> nat" where
  "step_width st s = (case st of Decoded _ k \<Rightarrow> k | Broken k \<Rightarrow> k | Cut_Short \<Rightarrow> length s)"

lemma step_width_pos: "s \<noteq> [] \<Longrightarrow> 0 < step_width (utf8_at s) s"
  by (cases s) (auto simp: step_width_def utf8_third_def utf8_fourth_def split: list.splits)

lemma step_width_le: "step_width (utf8_at s) s \<le> length s"
  by (cases s) (auto simp: step_width_def utf8_third_def utf8_fourth_def split: list.splits)

text \<open>The characters of lossily decoded bytes: one replacement per invalid sequence.\<close>

definition step_char :: "utf8_step \<Rightarrow> scalar" where
  "step_char st = (case st of Decoded c _ \<Rightarrow> c | _ \<Rightarrow> replacement_char)"

function decode_lossy :: "string \<Rightarrow> scalar list" where
  "decode_lossy s =
     (if s = [] then []
      else step_char (utf8_at s) # decode_lossy (drop (step_width (utf8_at s) s) s))"
  by pat_completeness auto
termination
proof (relation "measure length")
  fix s :: string assume "s \<noteq> []"
  then show "(drop (step_width (utf8_at s) s) s, s) \<in> measure length"
    using step_width_pos [of s] by simp
qed simp

declare decode_lossy.simps [simp del]

lemma decode_lossy_Nil [simp]: "decode_lossy [] = []"
  by (simp add: decode_lossy.simps)

definition from_utf8_lossy :: "string \<Rightarrow> string" where
  "from_utf8_lossy s = encode_str (decode_lossy s)"

text \<open>\<open>str::chars\<close>, on the bytes of a string.\<close>

definition str_chars :: "string \<Rightarrow> scalar list" where
  "str_chars s = decode_lossy s"

section \<open>Round trips\<close>

lemma of_char_of_byte [simp]: "n < 256 \<Longrightarrow> (of_char (char_of n) :: nat) = n"
  by (simp add: of_char_of)

lemma encode_Nil [simp]: "encode_str [] = []"
  by (simp add: encode_str_def)

lemma encode_Cons [simp]: "encode_str (c # cs) = encode_utf8 c @ encode_str cs"
  by (simp add: encode_str_def)

lemma encode_append [simp]: "encode_str (cs @ ds) = encode_str cs @ encode_str ds"
  by (simp add: encode_str_def)

text \<open>The groups of six bits of a code point, from the low end.\<close>

lemma code_bits:
  fixes c :: nat
  shows "c div 4096 = c div 64 div 64" "c div 262144 = c div 64 div 64 div 64"
    "c div 64 * 64 + c mod 64 = c"
    "(c div 64 div 64 * 64 + c div 64 mod 64) * 64 + c mod 64 = c"
    "((c div 64 div 64 div 64 * 64 + c div 64 div 64 mod 64) * 64 + c div 64 mod 64) * 64 + c mod 64 = c"
  using div_mult_mod_eq [of c 64] div_mult_mod_eq [of "c div 64" 64]
    div_mult_mod_eq [of "c div 64 div 64" 64]
  by (simp_all add: div_mult2_eq [symmetric] del: div_mult_mod_eq)

text \<open>The payload bits of leading and continuation bytes.\<close>

lemma payload_bits:
  fixes n :: nat
  shows "n < 32 \<Longrightarrow> (192 + n) mod 32 = n" "n < 16 \<Longrightarrow> (224 + n) mod 16 = n"
    "n < 8 \<Longrightarrow> (240 + n) mod 8 = n" "n < 64 \<Longrightarrow> (128 + n) mod 64 = n"
  using mod_mult_self2 [of n 32 6] mod_mult_self2 [of n 16 14] mod_mult_self2 [of n 8 30]
    mod_mult_self2 [of n 64 2]
  by (simp_all add: add.commute)

lemma second_of_three_char:
  assumes "q < 16" "r < 64" "q = 0 \<Longrightarrow> 32 \<le> r" "q = 13 \<Longrightarrow> r < 32"
  shows "second_of_three (char_of (224 + q :: nat)) (char_of (128 + r :: nat))"
  using assms by (auto simp: second_of_three_def byte_in_def)

lemma second_of_four_char:
  assumes "q < 5" "r < 64" "q = 0 \<Longrightarrow> 16 \<le> r" "q = 4 \<Longrightarrow> r < 16"
  shows "second_of_four (char_of (240 + q :: nat)) (char_of (128 + r :: nat))"
  using assms by (auto simp: second_of_four_def byte_in_def)

lemma cont_char: "is_cont (char_of (128 + n mod 64 :: nat))"
  using mod_less_divisor [of 64 n] by (simp add: byte_in_def del: mod_less_divisor)

lemma step_of_encode:
  assumes "is_scalar c"
  shows "utf8_at (encode_utf8 c @ s) = Decoded c (length (encode_utf8 c))"
proof -
  consider (one) "c < 0x80" | (two) "0x80 \<le> c" "c < 0x800"
    | (three) "0x800 \<le> c" "c < 0x10000" | (four) "0x10000 \<le> c" "c \<le> 0x10FFFF"
    using assms unfolding is_scalar_def by linarith
  then show ?thesis
  proof cases
    case one
    then show ?thesis by (simp add: encode_utf8_def byte_in_def)
  next
    case two
    then have d: "c div 64 < 32" by linarith
    moreover have "\<not> 192 + c div 64 < 194" using two by linarith
    moreover have e: "encode_utf8 c = [char_of (192 + c div 64), char_of (128 + c mod 64)]"
      using two by (simp add: encode_utf8_def)
    ultimately show ?thesis using code_bits(3) [of c]
      by (simp add: e byte_in_def payload_bits)
  next
    case three
    have d: "c div 64 div 64 < 16" using three by linarith
    note m = div_mult_mod_eq [of "c div 64" 64]
    have "32 \<le> c div 64 mod 64" if "c div 64 div 64 = 0" using that three m by linarith
    moreover have "c div 64 mod 64 < 32" if "c div 64 div 64 = 13"
      using that assms m unfolding is_scalar_def by linarith
    moreover have e: "encode_utf8 c =
        [char_of (224 + c div 64 div 64), char_of (128 + c div 64 mod 64), char_of (128 + c mod 64)]"
      using three by (simp add: encode_utf8_def code_bits(1))
    ultimately show ?thesis using d code_bits(4) [of c]
      by (simp add: e byte_in_def [of _ _ "char_of (224 + _)"] payload_bits second_of_three_char cont_char utf8_third_def)
  next
    case four
    have d: "c div 64 div 64 div 64 < 5" using four by linarith
    note m = div_mult_mod_eq [of "c div 64 div 64" 64]
    have "16 \<le> c div 64 div 64 mod 64" if "c div 64 div 64 div 64 = 0" using that four m by linarith
    moreover have "c div 64 div 64 mod 64 < 16" if "c div 64 div 64 div 64 = 4"
      using that four m by linarith
    moreover have e: "encode_utf8 c =
        [char_of (240 + c div 64 div 64 div 64), char_of (128 + c div 64 div 64 mod 64),
         char_of (128 + c div 64 mod 64), char_of (128 + c mod 64)]"
      using four by (simp add: encode_utf8_def code_bits(1,2))
    ultimately show ?thesis using d code_bits(5) [of c]
      by (simp add: e byte_in_def [of _ _ "char_of (240 + _)"] payload_bits second_of_four_char cont_char utf8_fourth_def)
  qed
qed

lemma encode_not_Nil [simp]: "encode_utf8 c \<noteq> []"
  by (simp add: encode_utf8_def)

lemma decode_encode_Cons: "is_scalar c \<Longrightarrow> decode_lossy (encode_utf8 c @ s) = c # decode_lossy s"
  by (subst decode_lossy.simps) (simp add: step_of_encode step_char_def step_width_def)

text \<open>Decoding gives the encoded characters back.\<close>

lemma decode_encode: "list_all is_scalar cs \<Longrightarrow> decode_lossy (encode_str cs @ s) = cs @ decode_lossy s"
  by (induction cs) (simp_all add: decode_encode_Cons)

lemma decode_encode_str [simp]: "list_all is_scalar cs \<Longrightarrow> decode_lossy (encode_str cs) = cs"
  using decode_encode [of cs "[]"] by simp

lemma replacement_is_scalar: "is_scalar replacement_char"
  by (simp add: is_scalar_def replacement_char_def)

text \<open>A decoded character is a scalar value and, encoded, is what was read.\<close>

lemma byte_bits:
  fixes a :: char
  shows "byte_in 192 223 a \<Longrightarrow> a = char_of (192 + of_char a mod 32 :: nat)"
    and "byte_in 224 239 a \<Longrightarrow> a = char_of (224 + of_char a mod 16 :: nat)"
    and "byte_in 240 247 a \<Longrightarrow> a = char_of (240 + of_char a mod 8 :: nat)"
    and "byte_in 128 191 a \<Longrightarrow> a = char_of (128 + of_char a mod 64 :: nat)"
proof -
  have *: "a = char_of (m + of_char a mod k)"
    if "m \<le> of_char a" "of_char a < m + k" "\<And>n. n < k \<Longrightarrow> (m + n) mod k = n" for m k :: nat
  proof -
    have "(m + (of_char a - m)) mod k = of_char a - m" by (rule that(3)) (use that(1,2) in linarith)
    then show ?thesis using that(1) by simp
  qed
  show "byte_in 192 223 a \<Longrightarrow> a = char_of (192 + of_char a mod 32 :: nat)"
    and "byte_in 224 239 a \<Longrightarrow> a = char_of (224 + of_char a mod 16 :: nat)"
    and "byte_in 240 247 a \<Longrightarrow> a = char_of (240 + of_char a mod 8 :: nat)"
    and "byte_in 128 191 a \<Longrightarrow> a = char_of (128 + of_char a mod 64 :: nat)"
    by (rule *; simp add: byte_in_def payload_bits)+
qed

lemma join_bits:
  fixes q r :: nat
  assumes "r < 64"
  shows "(q * 64 + r) div 64 = q" "(q * 64 + r) mod 64 = r"
  using assms by simp_all

text \<open>A decoded character is a scalar value and, encoded, is what was read.\<close>

lemma scalar_two:
  assumes "byte_in 194 223 a" "is_cont b"
  shows "is_scalar ((of_char a mod 32) * 64 + cont_bits b) \<and>
    encode_utf8 ((of_char a mod 32) * 64 + cont_bits b) = [a, b]"
proof -
  define q :: nat where "q = of_char a mod 32"
  define r :: nat where "r = cont_bits b"
  have a: "a = char_of (192 + q)" and b: "b = char_of (128 + r)" and r: "r < 64" "q < 32"
    using assms byte_bits(1) [of a] byte_bits(4) [of b] by (auto simp: byte_in_def q_def r_def)
  have q: "2 \<le> q" using assms(1) \<open>q < 32\<close> by (simp add: a byte_in_def)
  define n where "n = q * 64 + r"
  have n: "n div 64 = q" "n mod 64 = r" using r by (simp_all add: n_def)
  have "n < 2048" "128 \<le> n" using q r by (auto simp: n_def)
  then have "is_scalar n \<and> encode_utf8 n = [a, b]"
    using a b n by (simp add: encode_utf8_def is_scalar_def)
  then show ?thesis by (simp add: n_def q_def r_def)
qed

lemma scalar_three:
  assumes "byte_in 224 239 a" "second_of_three a b" "is_cont c"
  shows "is_scalar (((of_char a mod 16) * 64 + cont_bits b) * 64 + cont_bits c) \<and>
    encode_utf8 (((of_char a mod 16) * 64 + cont_bits b) * 64 + cont_bits c) = [a, b, c]"
proof -
  define q :: nat where "q = of_char a mod 16"
  define r :: nat where "r = cont_bits b"
  define t :: nat where "t = cont_bits c"
  have "is_cont b" using assms(2) by (auto simp: second_of_three_def byte_in_def split: if_splits)
  then have a: "a = char_of (224 + q)" and b: "b = char_of (128 + r)" and c: "c = char_of (128 + t)"
      and lt: "q < 16" "r < 64" "t < 64"
    using assms byte_bits(2) [of a] byte_bits(4) [of b] byte_bits(4) [of c]
    by (auto simp: q_def r_def t_def)
  have lo: "q = 0 \<Longrightarrow> 32 \<le> r" and hi: "q = 13 \<Longrightarrow> r < 32"
    using assms(2) lt by (simp_all add: a b second_of_three_def byte_in_def)
  define n where "n = (q * 64 + r) * 64 + t"
  have n: "n div 64 = q * 64 + r" "n mod 64 = t" unfolding n_def by (rule join_bits [OF lt(3)])+
  have "n div 4096 = q" "n div 64 mod 64 = r" using lt n by (simp_all add: code_bits(1))
  moreover have "n < 65536" "2048 \<le> n" using lt lo by (cases "q = 0"; simp add: n_def)+
  moreover have "q \<le> 12 \<or> q = 13 \<and> r < 32 \<or> 14 \<le> q" using hi by linarith
  then have "n < 0xD800 \<or> 0xE000 \<le> n"
    using lt by (elim disjE conjE) (simp_all add: n_def)
  then have "is_scalar n" using lt by (auto simp: is_scalar_def n_def)
  ultimately have "is_scalar n \<and> encode_utf8 n = [a, b, c]"
    using a b c n by (simp add: encode_utf8_def)
  then show ?thesis by (simp add: n_def q_def r_def t_def)
qed

lemma scalar_four:
  assumes "byte_in 240 244 a" "second_of_four a b" "is_cont c" "is_cont d"
  shows "is_scalar ((((of_char a mod 8) * 64 + cont_bits b) * 64 + cont_bits c) * 64 + cont_bits d) \<and>
    encode_utf8 ((((of_char a mod 8) * 64 + cont_bits b) * 64 + cont_bits c) * 64 + cont_bits d) =
      [a, b, c, d]"
proof -
  define q :: nat where "q = of_char a mod 8"
  define r :: nat where "r = cont_bits b"
  define t :: nat where "t = cont_bits c"
  define u :: nat where "u = cont_bits d"
  have "is_cont b" using assms(2) by (auto simp: second_of_four_def byte_in_def split: if_splits)
  then have a: "a = char_of (240 + q)" and b: "b = char_of (128 + r)" and c: "c = char_of (128 + t)"
      and d: "d = char_of (128 + u)" and lt: "q < 8" "r < 64" "t < 64" "u < 64"
    using assms byte_bits(3) [of a] byte_bits(4) [of b] byte_bits(4) [of c] byte_bits(4) [of d]
    by (auto simp: q_def r_def t_def u_def byte_in_def)
  have lo: "q = 0 \<Longrightarrow> 16 \<le> r" and hi: "q = 4 \<Longrightarrow> r < 16" and q: "q \<le> 4"
    using assms(1,2) lt by (simp_all add: a b second_of_four_def byte_in_def)
  define n where "n = ((q * 64 + r) * 64 + t) * 64 + u"
  have n: "n div 64 = (q * 64 + r) * 64 + t" "n mod 64 = u" unfolding n_def by (rule join_bits [OF lt(4)])+
  have "n div 262144 = q" "n div 4096 mod 64 = r" "n div 64 mod 64 = t"
    using join_bits [OF lt(3), of "q * 64 + r"] join_bits [OF lt(2), of q]
    by (simp_all only: code_bits(1,2) n)
  moreover have "65536 \<le> n" using lt lo by (cases "q = 0"; simp add: n_def)
  moreover have "q \<le> 3 \<or> q = 4 \<and> r < 16" using hi q by linarith
  then have "n \<le> 0x10FFFF" using lt by (elim disjE conjE) (simp_all add: n_def)
  ultimately have "is_scalar n \<and> encode_utf8 n = [a, b, c, d]"
    using a b c d n by (simp add: encode_utf8_def is_scalar_def)
  then show ?thesis by (simp add: n_def q_def r_def t_def u_def)
qed

lemma step_scalar:
  assumes "utf8_at s = Decoded c k"
  shows "is_scalar c \<and> encode_utf8 c = take k s"
proof (cases s)
  case (Cons a t)
  consider (one) "is_ascii a" | (two) "\<not> is_ascii a" "byte_in 194 223 a"
    | (three) "\<not> is_ascii a" "\<not> byte_in 194 223 a" "byte_in 224 239 a"
    | (four) "\<not> is_ascii a" "\<not> byte_in 194 223 a" "\<not> byte_in 224 239 a" "byte_in 240 244 a"
    using assms Cons by (simp only: utf8_at.simps if_False) (metis utf8_step.distinct(1))
  then show ?thesis
  proof cases
    case one
    then show ?thesis using assms Cons by (auto simp: byte_in_def encode_utf8_def is_scalar_def)
  next
    case two
    then show ?thesis using assms Cons scalar_two [of a] by (auto split: if_splits list.splits)
  next
    case three
    then show ?thesis using assms Cons scalar_three [of a]
      by (auto simp: utf8_third_def split: if_splits list.splits)
  next
    case four
    then show ?thesis using assms Cons scalar_four [of a]
      by (auto simp: utf8_fourth_def split: if_splits list.splits)
  qed
qed (use assms in simp)

lemma valid_step:
  assumes "valid_utf8 s" "s \<noteq> []"
  shows "\<exists>c k. utf8_at s = Decoded c k \<and> valid_utf8 (drop k s)"
proof (cases s)
  case (Cons a t)
  then show ?thesis using assms(1)
    by (auto simp: utf8_third_def utf8_fourth_def split: if_splits list.splits)
qed (use assms in simp)

text \<open>Lossy decoding yields scalar values and keeps valid text.\<close>

lemma decode_scalars: "list_all is_scalar (decode_lossy s)"
proof (induction s rule: decode_lossy.induct)
  case (1 s)
  have "is_scalar (step_char (utf8_at s))"
    using step_scalar [of s] replacement_is_scalar by (cases "utf8_at s") (simp_all add: step_char_def)
  then show ?case using 1 by (subst decode_lossy.simps) simp
qed

lemma lossy_valid: "valid_utf8 s \<Longrightarrow> from_utf8_lossy s = s"
proof (induction s rule: decode_lossy.induct)
  case (1 s)
  show ?case
  proof (cases "s = []")
    case False
    then obtain c k where c: "utf8_at s = Decoded c k" "valid_utf8 (drop k s)"
      using valid_step "1.prems" by blast
    then have "from_utf8_lossy (drop k s) = drop k s"
      using "1.IH" False by (simp add: step_width_def)
    then show ?thesis using c(1) step_scalar [OF c(1)] False
      by (simp add: from_utf8_lossy_def decode_lossy.simps [of s] step_char_def step_width_def)
  qed (simp add: from_utf8_lossy_def)
qed

text \<open>The characters of a lossily decoded string are the decoded ones.\<close>

lemma chars_lossy [simp]: "str_chars (from_utf8_lossy s) = decode_lossy s"
  by (simp add: str_chars_def from_utf8_lossy_def decode_scalars)

lemma encode_str_chars: "valid_utf8 s \<Longrightarrow> encode_str (str_chars s) = s"
  using lossy_valid by (simp add: str_chars_def from_utf8_lossy_def)

lemma step_valid: "utf8_at s = Decoded c k \<Longrightarrow> valid_utf8 (take k s)"
  by (cases s) (auto simp: utf8_third_def utf8_fourth_def split: if_splits list.splits)

lemma valid_encode: "is_scalar c \<Longrightarrow> valid_utf8 (encode_utf8 c)"
  using step_valid [OF step_of_encode, of c "[]"] by simp

lemma valid_encode_str: "list_all is_scalar cs \<Longrightarrow> valid_utf8 (encode_str cs)"
  by (induction cs) (simp_all add: valid_encode valid_utf8_append)

lemma valid_lossy: "valid_utf8 (from_utf8_lossy s)"
  by (simp add: from_utf8_lossy_def valid_encode_str decode_scalars)

text \<open>A complete step does not depend on what follows; so valid text splits after a valid prefix.\<close>

lemma utf8_at_append:
  "utf8_at s = Decoded c k \<Longrightarrow> utf8_at (s @ t) = Decoded c k"
  "utf8_at s = Broken k \<Longrightarrow> utf8_at (s @ t) = Broken k"
  by (cases s; auto simp: utf8_third_def utf8_fourth_def split: list.splits if_splits)+

lemma valid_utf8_rest: "valid_utf8 (p @ b) \<Longrightarrow> valid_utf8 p \<Longrightarrow> valid_utf8 b"
proof (induction p rule: decode_lossy.induct)
  case (1 p)
  show ?case
  proof (cases "p = []")
    case False
    obtain c k where p: "utf8_at p = Decoded c k" "valid_utf8 (drop k p)"
      using valid_step [OF "1.prems"(2) False] by blast
    obtain c' k' where pb: "utf8_at (p @ b) = Decoded c' k'" "valid_utf8 (drop k' (p @ b))"
      using valid_step [OF "1.prems"(1)] False by blast
    have "k \<le> length p" using step_width_le [of p] p(1) by (simp add: step_width_def)
    then have "valid_utf8 (drop k p @ b)" using pb utf8_at_append(1) [OF p(1), of b] by simp
    then show ?thesis using "1.IH" [OF False] p by (simp add: step_width_def)
  qed (use "1.prems" in simp)
qed

end
