(* ===== verification/Stream_Core.thy ===== *)
theory Stream_Core
  imports Unicode Pipe "HOL-Library.Extended_Nat"
begin

text \<open>
  The readers of the streaming pipelines of \<^verbatim>\<open>wasmsh-runtime/lib.rs\<close>: Rust's \<open>Read\<close>, the output
  buffer and the line reader that the filters share, and the interface of a reader as a locale.

  A reader is a function from its state and the length of the buffer to its new state and the
  bytes read, or an error; \<open>None\<close> stands for a call that never returns.  What a reader owes its
  client: it hands out its contents in order, an empty read of a non-empty buffer means that
  nothing is left, and an error is a stall that loses nothing.  A filter whose \<open>read\<close> is a loop
  around a pump satisfies that interface again when its pump keeps what is still to be delivered
  (locale \<open>pumped\<close>); a filter by lines satisfies it when its handler never panics (locale
  \<open>line_stage\<close>).
\<close>

section \<open>Readers\<close>

datatype error_kind = WouldBlock | InvalidData | OtherKind

record io_error =
  err_kind :: error_kind
  err_message :: string

type_synonym 'a io_result = "('a, io_error) result"

type_synonym ('s, 'a) io = "('s \<times> 'a io_result) option"

type_synonym 'r read_fn = "'r \<Rightarrow> nat \<Rightarrow> ('r, string) io"

definition would_block :: "io_error \<Rightarrow> bool" where
  "would_block e \<longleftrightarrow> err_kind e = WouldBlock"

text \<open>
  The contract.  \<open>content\<close> is all that the reader will still deliver, \<open>stalls\<close> bounds how often it
  will still report that it would block, which may be without bound, and \<open>stuck\<close> says what a reader
  that has just reported so is waiting for.
\<close>

definition read_law ::
  "('r \<Rightarrow> string) \<Rightarrow> ('r \<Rightarrow> enat) \<Rightarrow> ('r \<Rightarrow> bool) \<Rightarrow> ('r \<Rightarrow> bool) \<Rightarrow> 'r \<Rightarrow> nat \<Rightarrow> 'r \<Rightarrow> string io_result \<Rightarrow> bool" where
  "read_law content stalls stuck good r n r' res \<longleftrightarrow>
     good r' \<and>
     (case res of
        Ok bs \<Rightarrow> content r = bs @ content r' \<and> length bs \<le> n \<and> stalls r' \<le> stalls r \<and>
                 (0 < n \<and> bs = [] \<longrightarrow> content r = [])
      | Err e \<Rightarrow> would_block e \<and> stuck r' \<and> content r' = content r \<and> eSuc (stalls r') \<le> stalls r
      | Panic _ \<Rightarrow> False)"

locale reader =
  fixes rd :: "'r read_fn"
    and content :: "'r \<Rightarrow> string"
    and stalls :: "'r \<Rightarrow> enat"
    and stuck :: "'r \<Rightarrow> bool"
    and good :: "'r \<Rightarrow> bool"
  assumes read_returns:
    "good r \<Longrightarrow> \<exists>r' res. rd r n = Some (r', res) \<and> read_law content stalls stuck good r n r' res"

text \<open>A sequence of reads with buffers of the given sizes, up to the end of the contents.\<close>

fun read_seq :: "'r read_fn \<Rightarrow> 'r \<Rightarrow> nat list \<Rightarrow> ('r \<times> string \<times> bool) option" where
  "read_seq rd r [] = Some (r, [], False)"
| "read_seq rd r (n # ns) =
     (case rd r n of
        None \<Rightarrow> None
      | Some (r', Ok bs) \<Rightarrow>
          if 0 < n \<and> bs = [] then Some (r', [], True)
          else map_option (\<lambda>(r'', out, fin). (r'', bs @ out, fin)) (read_seq rd r' ns)
      | Some (r', Err e) \<Rightarrow> if would_block e then read_seq rd r' ns else None
      | Some (r', Panic p) \<Rightarrow> None)"

context reader
begin

lemma read_cases:
  assumes "good r"
  obtains (got) r' bs where "rd r n = Some (r', Ok bs)" "good r'" "content r = bs @ content r'"
      "length bs \<le> n" "stalls r' \<le> stalls r" "0 < n \<Longrightarrow> bs = [] \<Longrightarrow> content r = []"
  | (stall) r' e where "rd r n = Some (r', Err e)" "good r'" "would_block e" "stuck r'"
      "content r' = content r" "eSuc (stalls r') \<le> stalls r"
proof -
  obtain r' res where "rd r n = Some (r', res)" "read_law content stalls stuck good r n r' res"
    using read_returns [OF assms] by blast
  then show ?thesis using got stall by (cases res) (auto simp: read_law_def)
qed

text \<open>Whatever the sizes, what was read is a prefix of the contents.\<close>

lemma read_seq_prefix:
  "good r \<Longrightarrow> \<exists>r' out fin. read_seq rd r ns = Some (r', out, fin) \<and> good r' \<and> content r = out @ content r' \<and>
     (fin \<longrightarrow> content r' = [])"
proof (induction ns arbitrary: r)
  case (Cons n ns)
  from Cons.prems show ?case
  proof (cases rule: read_cases [where n = n])
    case (got r' bs)
    obtain r'' out fin where "read_seq rd r' ns = Some (r'', out, fin)" "good r''"
        "content r' = out @ content r''" "fin \<longrightarrow> content r'' = []"
      using Cons.IH got(2) by blast
    then show ?thesis using got by (cases "0 < n \<and> bs = []") (auto intro: exI [of _ True])
  next
    case (stall r' e)
    then show ?thesis using Cons.IH [of r'] by auto
  qed
qed (auto intro: exI [of _ False])

text \<open>Enough reads reach the end, whatever their sizes.\<close>

lemma read_seq_all:
  assumes "good r" "list_all (\<lambda>n. 0 < n) ns" "enat (length (content r)) + stalls r < enat (length ns)"
  shows "\<exists>r'. read_seq rd r ns = Some (r', content r, True)"
  using assms
proof (induction ns arbitrary: r)
  case (Cons n ns)
  from Cons.prems(1) show ?case
  proof (cases rule: read_cases [where n = n])
    case (got r' bs)
    show ?thesis
    proof (cases "bs = []")
      case False
      then have "eSuc (enat (length (content r')) + stalls r') \<le> enat (length (content r)) + stalls r"
        using got(3,5) by (cases "stalls r"; cases "stalls r'"; cases bs) (auto simp: eSuc_enat)
      then have "enat (length (content r')) + stalls r' < enat (length ns)"
        using Cons.prems(3) by (cases "stalls r"; cases "stalls r'") (auto simp: eSuc_enat)
      then obtain r'' where "read_seq rd r' ns = Some (r'', content r', True)"
        using Cons.IH got(2) Cons.prems(2) by fastforce
      then show ?thesis using got False by simp
    qed (use got Cons.prems(2) in simp)
  next
    case (stall r' e)
    then have "enat (length (content r')) + stalls r' < enat (length ns)"
      using Cons.prems(3) by (cases "stalls r"; cases "stalls r'") (auto simp: eSuc_enat)
    then show ?thesis using Cons.IH stall Cons.prems(2) by fastforce
  qed
qed (simp add: zero_enat_def [symmetric])

end

section \<open>Output buffers\<close>

text \<open>The bytes handed out, the buffer and its offset.\<close>

definition take_pending_output :: "string \<Rightarrow> nat \<Rightarrow> nat \<Rightarrow> string \<times> string \<times> nat" where
  "take_pending_output pending off n =
     (if off \<ge> length pending then ([], [], 0)
      else
        let remaining = drop off pending;
            to_copy = min (length remaining) n;
            off' = off + to_copy
        in if off' = length pending then (take to_copy remaining, [], 0)
           else (take to_copy remaining, pending, off'))"

lemma take_pending_output_law:
  assumes "take_pending_output pending off n = (bs, pending', off')"
  shows "drop off pending = bs @ drop off' pending'" "length bs \<le> n"
    "0 < n \<Longrightarrow> bs = [] \<Longrightarrow> drop off pending = [] \<and> pending' = [] \<and> off' = 0"
  using assms append_take_drop_id [of n "drop off pending"]
  by (auto simp: take_pending_output_def Let_def add.commute min_def split: if_splits)

text \<open>\<open>format!("{n:>width$}")\<close>: numbers and counts are padded with blanks on the left.\<close>

definition pad_left :: "nat \<Rightarrow> string \<Rightarrow> string" where
  "pad_left width s = replicate (width - length s) CHR '' '' @ s"

section \<open>The line reader\<close>

partial_function (option) streaming_read_next_line ::
  "'r read_fn \<Rightarrow> 'r \<Rightarrow> string \<Rightarrow> ('r \<times> string, (string \<times> bool) option) io" where
  "streaming_read_next_line rd r pending =
     (case find_char ch_newline pending of
        Some pos \<Rightarrow>
          Some ((r, drop (Suc pos) pending), Ok (Some (from_utf8_lossy (take pos pending), True)))
      | None \<Rightarrow>
          (case rd r 4096 of
             None \<Rightarrow> None
           | Some (r', Ok bs) \<Rightarrow>
               if bs = [] then
                 if pending = [] then Some ((r', pending), Ok None)
                 else Some ((r', []), Ok (Some (from_utf8_lossy pending, False)))
               else streaming_read_next_line rd r' (pending @ bs)
           | Some (r', Err e) \<Rightarrow> Some ((r', pending), Err e)
           | Some (r', Panic m) \<Rightarrow> Some ((r', pending), Panic m)))"

text \<open>The lines of a text: what newlines end, and what is left after the last one.\<close>

definition raw_lines :: "string \<Rightarrow> string list" where
  "raw_lines s =
     (let ps = split_on ch_newline s in butlast ps @ (if last ps = [] then [] else [last ps]))"

definition text_lines :: "string \<Rightarrow> string list" where
  "text_lines s = map from_utf8_lossy (raw_lines s)"

lemma raw_lines_Nil [simp]: "raw_lines [] = []"
  by (simp add: raw_lines_def)

lemma raw_lines_Cons: "ch_newline \<notin> set l \<Longrightarrow> raw_lines (l @ ch_newline # s) = l # raw_lines s"
  by (simp add: raw_lines_def split_on_append_sep split_on_plain Let_def)

lemma raw_lines_last: "ch_newline \<notin> set l \<Longrightarrow> l \<noteq> [] \<Longrightarrow> raw_lines l = [l]"
  by (simp add: raw_lines_def split_on_plain Let_def)

lemmas text_lines_simps = raw_lines_Cons raw_lines_last

text \<open>What one call finds ahead, in terms of all that is still to come.\<close>

definition line_law :: "string \<Rightarrow> string \<Rightarrow> (string \<times> bool) option \<Rightarrow> bool" where
  "line_law before after found \<longleftrightarrow>
     (case found of
        None \<Rightarrow> before = [] \<and> after = []
      | Some (line, _) \<Rightarrow>
          text_lines before = line # text_lines after \<and> length after < length before)"

lemma line_law_newline:
  assumes "find_char ch_newline p = Some pos"
  shows "line_law (p @ s) (drop (Suc pos) p @ s) (Some (from_utf8_lossy (take pos p), had))"
proof -
  have pos: "pos < length p" "p ! pos = ch_newline" "\<forall>j < pos. p ! j \<noteq> ch_newline"
    using find_char_Some [OF assms] by auto
  then have "p = take pos p @ ch_newline # drop (Suc pos) p" by (metis id_take_nth_drop)
  moreover have "ch_newline \<notin> set (take pos p)" using pos by (auto simp: in_set_conv_nth)
  ultimately have "raw_lines (p @ s) = take pos p # raw_lines (drop (Suc pos) p @ s)"
    using raw_lines_Cons [of "take pos p" "drop (Suc pos) p @ s"] by (metis append.assoc append_Cons)
  then show ?thesis using pos(1) by (simp add: line_law_def text_lines_def)
qed

lemma line_law_rest:
  assumes "find_char ch_newline p = None" "p \<noteq> []"
  shows "line_law p [] (Some (from_utf8_lossy p, had))"
  using assms by (simp add: line_law_def text_lines_def find_char_None raw_lines_last)

context reader
begin

lemma next_line_law:
  "good r \<Longrightarrow> \<exists>r' p' res. streaming_read_next_line rd r p = Some ((r', p'), res) \<and> good r' \<and>
     (case res of
        Ok l \<Rightarrow> line_law (p @ content r) (p' @ content r') l \<and> stalls r' \<le> stalls r
      | Err e \<Rightarrow> would_block e \<and> stuck r' \<and> p' @ content r' = p @ content r \<and> eSuc (stalls r') \<le> stalls r
      | Panic _ \<Rightarrow> False)"
proof (induction "length (content r)" arbitrary: r p rule: less_induct)
  case less
  show ?case
  proof (cases "find_char ch_newline p")
    case (Some pos)
    then show ?thesis using less.prems line_law_newline [OF Some]
      by (simp add: streaming_read_next_line.simps)
  next
    case None
    note here = streaming_read_next_line.simps [of rd r]
    from less.prems show ?thesis
    proof (cases rule: read_cases [where n = 4096])
      case (got r' bs)
      show ?thesis
      proof (cases "bs = []")
        case True
        then show ?thesis using got None line_law_rest [OF None]
          by (cases "p = []") (auto simp: here line_law_def)
      next
        case False
        then have "length (content r') < length (content r)" using got by simp
        then show ?thesis using less.hyps [of r' "p @ bs"] got None False
          by (fastforce simp: here split: result.splits)
      qed
    next
      case (stall r' e)
      then show ?thesis using None by (simp add: here)
    qed
  qed
qed

lemma next_line:
  assumes "good r"
  obtains (found) r' p' l where "streaming_read_next_line rd r p = Some ((r', p'), Ok l)" "good r'"
      "line_law (p @ content r) (p' @ content r') l" "stalls r' \<le> stalls r"
  | (stall) r' p' e where "streaming_read_next_line rd r p = Some ((r', p'), Err e)" "good r'"
      "would_block e" "stuck r'" "p' @ content r' = p @ content r" "eSuc (stalls r') \<le> stalls r"
proof -
  obtain r' p' res where "streaming_read_next_line rd r p = Some ((r', p'), res)" "good r'"
      "case res of
        Ok l \<Rightarrow> line_law (p @ content r) (p' @ content r') l \<and> stalls r' \<le> stalls r
      | Err e \<Rightarrow> would_block e \<and> stuck r' \<and> p' @ content r' = p @ content r \<and> eSuc (stalls r') \<le> stalls r
      | Panic _ \<Rightarrow> False"
    using next_line_law [OF assms] by blast
  then show ?thesis using found stall by (cases res) auto
qed

end

section \<open>Filters around a pump\<close>

text \<open>
  The fields that the filters share; each filter extends them with its options and its own state.
\<close>

record 'r stage_reader =
  inner :: 'r
  output_pending :: string
  output_offset :: nat
  finished :: bool

text \<open>
  The \<open>read\<close> of most filters: hand out pending output, stop at the end, and otherwise pump and
  try again.
\<close>

definition stage_take ::
  "('r, 'x) stage_reader_scheme \<Rightarrow> nat \<Rightarrow> ('r, 'x) stage_reader_scheme \<times> string" where
  "stage_take r n =
     (let (bs, pending, off) = take_pending_output (output_pending r) (output_offset r) n
      in (r\<lparr>output_pending := pending, output_offset := off\<rparr>, bs))"

partial_function (option) stage_loop ::
  "(('r, 'x) stage_reader_scheme \<Rightarrow> (('r, 'x) stage_reader_scheme, unit) io) \<Rightarrow>
   ('r, 'x) stage_reader_scheme read_fn" where
  "stage_loop pump r n =
     (let (r', bs) = stage_take r n in
      if bs \<noteq> [] then Some (r', Ok bs)
      else if finished r' then Some (r', Ok [])
      else
        (case pump r' of
           None \<Rightarrow> None
         | Some (r'', Ok _) \<Rightarrow> stage_loop pump r'' n
         | Some (r'', Err e) \<Rightarrow> Some (r'', Err e)
         | Some (r'', Panic m) \<Rightarrow> Some (r'', Panic m)))"

definition stage_read ::
  "(('r, 'x) stage_reader_scheme \<Rightarrow> (('r, 'x) stage_reader_scheme, unit) io) \<Rightarrow>
   ('r, 'x) stage_reader_scheme read_fn" where
  "stage_read pump r n = (if n = 0 then Some (r, Ok []) else stage_loop pump r n)"

text \<open>What a filter will still deliver: its pending output and what it makes of the rest.\<close>

definition undelivered :: "('r, 'x) stage_reader_scheme \<Rightarrow> string" where
  "undelivered r = drop (output_offset r) (output_pending r)"

definition stage_content ::
  "(('r, 'x) stage_reader_scheme \<Rightarrow> string) \<Rightarrow> ('r, 'x) stage_reader_scheme \<Rightarrow> string" where
  "stage_content rest r = undelivered r @ (if finished r then [] else rest r)"

locale pumped =
  fixes pump :: "('r, 'x) stage_reader_scheme \<Rightarrow> (('r, 'x) stage_reader_scheme, unit) io"
    and rest :: "('r, 'x) stage_reader_scheme \<Rightarrow> string"
    and stalls :: "('r, 'x) stage_reader_scheme \<Rightarrow> enat"
    and stuck :: "('r, 'x) stage_reader_scheme \<Rightarrow> bool"
    and good :: "('r, 'x) stage_reader_scheme \<Rightarrow> bool"
    and todo :: "('r, 'x) stage_reader_scheme \<Rightarrow> nat"
  assumes output_irrelevant:
      "rest (r\<lparr>output_pending := p, output_offset := off\<rparr>) = rest r"
      "stalls (r\<lparr>output_pending := p, output_offset := off\<rparr>) = stalls r"
      "good (r\<lparr>output_pending := p, output_offset := off\<rparr>) = good r"
      "todo (r\<lparr>output_pending := p, output_offset := off\<rparr>) = todo r"
    and pump_returns:
      "good r \<Longrightarrow> \<not> finished r \<Longrightarrow> output_pending r = [] \<Longrightarrow> output_offset r = 0 \<Longrightarrow>
       \<exists>r' res. pump r = Some (r', res) \<and> good r' \<and> stage_content rest r' = rest r \<and>
         (case res of
            Ok _ \<Rightarrow> stalls r' \<le> stalls r \<and> (finished r' \<or> todo r' < todo r)
          | Err e \<Rightarrow> would_block e \<and> stuck r' \<and> eSuc (stalls r') \<le> stalls r
          | Panic _ \<Rightarrow> False)"
begin

lemma take_law:
  assumes "stage_take r n = (r', bs)"
  shows "stage_content rest r = bs @ stage_content rest r'" "length bs \<le> n"
    "stalls r' = stalls r" "good r' = good r" "todo r' = todo r" "finished r' = finished r"
    "0 < n \<Longrightarrow> bs = [] \<Longrightarrow> undelivered r = [] \<and> output_pending r' = [] \<and> output_offset r' = 0"
proof -
  obtain p off where t: "take_pending_output (output_pending r) (output_offset r) n = (bs, p, off)"
      and r': "r' = r\<lparr>output_pending := p, output_offset := off\<rparr>"
    using assms by (auto simp: stage_take_def split: prod.splits)
  note law = take_pending_output_law [OF t]
  show "stage_content rest r = bs @ stage_content rest r'" "length bs \<le> n"
    "stalls r' = stalls r" "good r' = good r" "todo r' = todo r" "finished r' = finished r"
    "0 < n \<Longrightarrow> bs = [] \<Longrightarrow> undelivered r = [] \<and> output_pending r' = [] \<and> output_offset r' = 0"
    using law by (simp_all add: r' stage_content_def undelivered_def output_irrelevant)
qed

lemma loop_law:
  assumes "0 < n"
  shows "good r \<Longrightarrow> \<exists>r' res. stage_loop pump r n = Some (r', res) \<and>
    read_law (stage_content rest) stalls stuck good r n r' res"
proof (induction "if finished r then 0 else Suc (todo r)" arbitrary: r rule: less_induct)
  case less
  obtain r1 bs where t: "stage_take r n = (r1, bs)" by fastforce
  note law = take_law [OF t]
  note here = stage_loop.simps [of pump r n]
  show ?case
  proof (cases "bs = [] \<and> \<not> finished r")
    case False
    then show ?thesis using law less.prems assms t
      by (auto simp: here read_law_def stage_content_def)
  next
    case True
    then have "good r1" "\<not> finished r1" "output_pending r1 = []" "output_offset r1 = 0"
      using law less.prems assms by auto
    then obtain r2 res where p: "pump r1 = Some (r2, res)" "good r2" "stage_content rest r2 = rest r1"
        "case res of
            Ok _ \<Rightarrow> stalls r2 \<le> stalls r1 \<and> (finished r2 \<or> todo r2 < todo r1)
          | Err e \<Rightarrow> would_block e \<and> stuck r2 \<and> eSuc (stalls r2) \<le> stalls r1
          | Panic _ \<Rightarrow> False"
      using pump_returns by blast
    have c: "stage_content rest r2 = stage_content rest r" "stalls r1 = stalls r" "\<not> finished r1"
      using p(3) law True assms by (simp_all add: stage_content_def undelivered_def)
    show ?thesis
    proof (cases res)
      case (Ok u)
      then have "(if finished r2 then 0 else Suc (todo r2)) < (if finished r then 0 else Suc (todo r))"
        using p(4) law True by auto
      then obtain r3 res' where "stage_loop pump r2 n = Some (r3, res')"
          "read_law (stage_content rest) stalls stuck good r2 n r3 res'"
        using less.hyps p(2) by blast
      then show ?thesis using t True p Ok c
        by (auto simp: here read_law_def split: result.splits)
    next
      case (Err e)
      then show ?thesis using t True p c by (auto simp: here read_law_def)
    next
      case (Panic m)
      then show ?thesis using p(4) by simp
    qed
  qed
qed

end

sublocale pumped \<subseteq> reader "stage_read pump" "stage_content rest" stalls stuck good
proof
  fix r n assume "good r"
  then show "\<exists>r' res. stage_read pump r n = Some (r', res) \<and>
      read_law (stage_content rest) stalls stuck good r n r' res"
    using loop_law [of n r] by (cases "n = 0") (auto simp: stage_read_def read_law_def)
qed

context pumped
begin

lemma stage_is_reader: "reader (stage_read pump) (stage_content rest) stalls stuck good"
  by (rule reader_axioms)

end

section \<open>Filters by lines\<close>

text \<open>The fields of a filter by lines; what a filter has of its own is the last one.\<close>

record ('r, 'x) line_reader = "'r stage_reader" +
  input_pending :: string
  stage_state :: 'x

definition line_reader_new :: "'r \<Rightarrow> 'x \<Rightarrow> ('r, 'x) line_reader" where
  "line_reader_new r x =
     \<lparr>inner = r, output_pending = [], output_offset = 0, finished = False, input_pending = [],
      stage_state = x\<rparr>"

text \<open>
  The pump of a filter by lines.  A handler maps the filter's state and a line to the new state,
  the bytes it appends to the output, and whether the filter finishes early; at the end of the
  input the filter may append a last piece of output before it finishes.
\<close>

type_synonym 'x line_handler = "'x \<Rightarrow> string \<Rightarrow> ('x \<times> string \<times> bool) io_result"

definition line_pump ::
  "'r read_fn \<Rightarrow> 'x line_handler \<Rightarrow> ('x \<Rightarrow> 'x \<times> string) \<Rightarrow>
   ('r, 'x) line_reader \<Rightarrow> (('r, 'x) line_reader, unit) io" where
  "line_pump rd handle finish r =
     (case streaming_read_next_line rd (inner r) (input_pending r) of
        None \<Rightarrow> None
      | Some ((i, p), res) \<Rightarrow>
          let r' = r\<lparr>inner := i, input_pending := p\<rparr> in
          (case res of
             Ok None \<Rightarrow>
               let (x, out) = finish (stage_state r')
               in Some (r'\<lparr>stage_state := x, output_pending := output_pending r' @ out,
                          finished := True\<rparr>, Ok ())
           | Ok (Some (line, _)) \<Rightarrow>
               (case handle (stage_state r') line of
                  Ok (x, out, stop) \<Rightarrow>
                    Some (r'\<lparr>stage_state := x, output_pending := output_pending r' @ out,
                            finished := stop\<rparr>, Ok ())
                | Err e \<Rightarrow> Some (r', Err e)
                | Panic m \<Rightarrow> Some (r', Panic m))
           | Err e \<Rightarrow> Some (r', Err e)
           | Panic m \<Rightarrow> Some (r', Panic m)))"

text \<open>The meaning of a filter by lines.\<close>

fun run_lines :: "'x line_handler \<Rightarrow> ('x \<Rightarrow> 'x \<times> string) \<Rightarrow> 'x \<Rightarrow> string list \<Rightarrow> string" where
  "run_lines handle finish x [] = snd (finish x)"
| "run_lines handle finish x (l # ls) =
     (case handle x l of
        Ok (x', out, stop) \<Rightarrow> out @ (if stop then [] else run_lines handle finish x' ls)
      | _ \<Rightarrow> [])"

definition line_rest ::
  "('r \<Rightarrow> string) \<Rightarrow> 'x line_handler \<Rightarrow> ('x \<Rightarrow> 'x \<times> string) \<Rightarrow> ('r, 'x) line_reader \<Rightarrow> string" where
  "line_rest content handle finish r =
     run_lines handle finish (stage_state r) (text_lines (input_pending r @ content (inner r)))"

text \<open>What is left to read, for the termination of the loop.\<close>

definition line_todo :: "('r \<Rightarrow> string) \<Rightarrow> ('r, 'x) line_reader \<Rightarrow> nat" where
  "line_todo content r = length (input_pending r @ content (inner r))"

locale line_stage = reader rd content stalls stuck good
  for rd :: "'r read_fn" and content stalls stuck good +
  fixes handle :: "'x line_handler"
    and finish :: "'x \<Rightarrow> 'x \<times> string"
    and P :: "'x \<Rightarrow> bool"
  assumes handle_returns: "P x \<Longrightarrow> valid_utf8 line \<Longrightarrow> \<exists>x' out stop. handle x line = Ok (x', out, stop) \<and> P x'"
    and finish_keeps: "P x \<Longrightarrow> P (fst (finish x))"
begin

abbreviation stage_pump :: "('r, 'x) line_reader \<Rightarrow> (('r, 'x) line_reader, unit) io" where
  "stage_pump \<equiv> line_pump rd handle finish"

abbreviation stage_rest :: "('r, 'x) line_reader \<Rightarrow> string" where
  "stage_rest \<equiv> line_rest content handle finish"

abbreviation stage_good :: "('r, 'x) line_reader \<Rightarrow> bool" where
  "stage_good r \<equiv> good (inner r) \<and> P (stage_state r)"

lemma line_pump_law:
  assumes "stage_good r" "\<not> finished r" "output_pending r = []" "output_offset r = 0"
  shows "\<exists>r' res. stage_pump r = Some (r', res) \<and> stage_good r' \<and>
    stage_content stage_rest r' = stage_rest r \<and>
    (case res of
       Ok _ \<Rightarrow> stalls (inner r') \<le> stalls (inner r) \<and> (finished r' \<or> line_todo content r' < line_todo content r)
     | Err e \<Rightarrow> would_block e \<and> stuck (inner r') \<and> eSuc (stalls (inner r')) \<le> stalls (inner r)
     | Panic _ \<Rightarrow> False)"
proof -
  have "good (inner r)" "P (stage_state r)" using assms(1) by auto
  then show ?thesis
  proof (cases rule: next_line [where p = "input_pending r"])
    case (found i p l)
    show ?thesis
    proof (cases l)
      case None
      then show ?thesis using found assms finish_keeps [of "stage_state r"]
        by (cases "finish (stage_state r)")
          (auto simp: line_pump_def line_law_def stage_content_def undelivered_def line_rest_def text_lines_def)
    next
      case (Some lh)
      then obtain line had where l: "l = Some (line, had)" by (cases lh) auto
      have lines: "text_lines (input_pending r @ content (inner r)) = line # text_lines (p @ content i)"
        using found(3) by (simp add: line_law_def l)
      then have "valid_utf8 line" by (auto simp: text_lines_def valid_lossy Cons_eq_map_conv)
      then obtain x out stop where "handle (stage_state r) line = Ok (x, out, stop)" "P x"
        using handle_returns assms(1) by blast
      then show ?thesis using found assms lines
        by (simp add: line_pump_def l line_law_def stage_content_def undelivered_def line_rest_def line_todo_def)
    qed
  next
    case (stall i p e)
    then show ?thesis using assms
      by (simp add: line_pump_def stage_content_def undelivered_def line_rest_def)
  qed
qed

end

sublocale line_stage \<subseteq> flt: pumped stage_pump stage_rest "\<lambda>r. stalls (inner r)" "\<lambda>r. stuck (inner r)" stage_good
  "line_todo content"
proof (unfold_locales, goal_cases)
  case (5 r)
  then show ?case by (rule line_pump_law)
qed (simp_all add: line_rest_def line_todo_def)

context line_stage
begin

text \<open>A filter by lines is a reader again, of what it makes of the lines.\<close>

lemma filter_reader:
  "reader (stage_read stage_pump) (stage_content stage_rest) (\<lambda>r. stalls (inner r)) (\<lambda>r. stuck (inner r)) stage_good"
  by (rule flt.reader_axioms)

lemma new_content:
  "stage_content stage_rest (line_reader_new r x) = run_lines handle finish x (text_lines (content r))"
  by (simp add: stage_content_def undelivered_def line_reader_new_def line_rest_def)

end

end
