(* ===== verification/Stream_Sources.thy ===== *)
theory Stream_Sources
  imports Stream_Core
begin

text \<open>
  The readers at the head of a streaming pipeline (\<^verbatim>\<open>wasmsh-runtime/lib.rs\<close>): a pipe that another
  process fills, a literal, and \<open>yes\<close>, each an interpretation of the interface \<open>reader\<close>; and the
  reader that limits what an external command may read.
\<close>

section \<open>Literals\<close>

text \<open>\<open>std::io::Cursor\<close> over a vector.\<close>

record cursor =
  cursor_data :: string
  cursor_pos :: nat

definition cursor_read :: "cursor read_fn" where
  "cursor_read c n =
     (let bs = take n (drop (cursor_pos c) (cursor_data c))
      in Some (c\<lparr>cursor_pos := cursor_pos c + length bs\<rparr>, Ok bs))"

definition cursor_content :: "cursor \<Rightarrow> string" where
  "cursor_content c = drop (cursor_pos c) (cursor_data c)"

interpretation literal: reader cursor_read cursor_content "\<lambda>_. 0" "\<lambda>_. False" "\<lambda>_. True"
proof
  fix c n
  have "drop (n + cursor_pos c) (cursor_data c) = drop n (cursor_content c)"
    by (simp add: cursor_content_def)
  then show "\<exists>c' res. cursor_read c n = Some (c', res) \<and>
      read_law cursor_content (\<lambda>_. 0) (\<lambda>_. False) (\<lambda>_. True) c n c' res"
    using append_take_drop_id [of n "cursor_content c"]
    by (auto simp: cursor_read_def read_law_def cursor_content_def Let_def min_def add.commute)
qed

section \<open>Pipes\<close>

text \<open>A byte of a pipe as a character of a string.\<close>

definition pipe_char :: "u8 \<Rightarrow> char" where
  "pipe_char b = char_of (unat b)"

definition pipe_reader_read :: "pipe_buffer read_fn" where
  "pipe_reader_read p n =
     (case pipe_read p (replicate n 0) of
        Ok (p', buf, Read k) \<Rightarrow> Some (p', Ok (map pipe_char (take k buf)))
      | Ok (p', buf, ReadWouldBlock) \<Rightarrow>
          Some (p', Err \<lparr>err_kind = WouldBlock, err_message = ''pipe empty''\<rparr>)
      | Ok (p', buf, Eof) \<Rightarrow> Some (p', Ok [])
      | Err _ \<Rightarrow> None
      | Panic m \<Rightarrow> Some (p, Panic m))"

lemma pop_slots_take: "n \<le> length d \<Longrightarrow> pop_slots n d = Ok (take n d, drop n d)"
  by (induction n d rule: pop_slots.induct) auto

lemma pipe_reader_cases:
  "pipe_reader_read p n =
     Some (if n = 0 then (p, Ok [])
       else if pipe_data p = [] then
         (p, if write_closed p then Ok [] else Err \<lparr>err_kind = WouldBlock, err_message = ''pipe empty''\<rparr>)
       else (p\<lparr>pipe_data := drop n (pipe_data p)\<rparr>, Ok (map pipe_char (take n (pipe_data p)))))"
  by (cases "pipe_data p") (simp_all add: pipe_reader_read_def pipe_read_def pop_slots_take min_def)

text \<open>
  A pipe shared with a producer: its contents are the buffered bytes and then what the producer
  is still to write, which is nothing once the pipe is closed.  The law holds whatever that is.
\<close>

definition pipe_content :: "string \<Rightarrow> pipe_buffer \<Rightarrow> string" where
  "pipe_content future p = map pipe_char (pipe_data p) @ future"

definition pipe_stalls :: "pipe_buffer \<Rightarrow> enat" where
  "pipe_stalls p = (if write_closed p then 0 else \<infinity>)"

text \<open>A pipe that its reader waits for is empty.\<close>

definition pipe_waits :: "pipe_buffer \<Rightarrow> bool" where
  "pipe_waits p \<longleftrightarrow> pipe_data p = []"

text \<open>The pipe of a reader that is not dropped is open to writes and has room.\<close>

definition pipe_good :: "string \<Rightarrow> pipe_buffer \<Rightarrow> bool" where
  "pipe_good future p \<longleftrightarrow> (write_closed p \<longrightarrow> future = []) \<and> \<not> read_closed p \<and> 0 < pipe_capacity p"

interpretation pipe_end: reader pipe_reader_read "pipe_content future" pipe_stalls pipe_waits "pipe_good future"
  for future
proof
  fix p :: pipe_buffer and n assume "pipe_good future p"
  then show "\<exists>p' res. pipe_reader_read p n = Some (p', res) \<and>
      read_law (pipe_content future) pipe_stalls pipe_waits (pipe_good future) p n p' res"
    by (auto simp: pipe_reader_cases read_law_def pipe_content_def pipe_stalls_def
        pipe_waits_def pipe_good_def would_block_def simp flip: map_append append.assoc)
qed

section \<open>The command \<open>yes\<close>\<close>

record yes_reader =
  yes_line :: string
  yes_offset :: nat
  remaining_lines :: nat

definition yes_new :: "string \<Rightarrow> nat \<Rightarrow> yes_reader" where
  "yes_new line lines = \<lparr>yes_line = line, yes_offset = 0, remaining_lines = lines\<rparr>"

text \<open>One round of the loop: a slice of the line goes to the buffer.\<close>

definition yes_copy :: "yes_reader \<Rightarrow> nat \<Rightarrow> string \<Rightarrow> yes_reader \<times> string" where
  "yes_copy r n written =
     (let remaining_line = drop (yes_offset r) (yes_line r);
          to_copy = min (length remaining_line) (n - length written);
          off = yes_offset r + to_copy
      in (if off = length (yes_line r)
          then r\<lparr>yes_offset := 0, remaining_lines := remaining_lines r - 1\<rparr>
          else r\<lparr>yes_offset := off\<rparr>,
          written @ take to_copy remaining_line))"

function yes_loop :: "yes_reader \<Rightarrow> nat \<Rightarrow> string \<Rightarrow> (yes_reader \<times> string) io_result" where
  "yes_loop r n written =
     (if length written < n \<and> remaining_lines r > 0 then
        if yes_offset r > length (yes_line r) then Panic ''range start index out of range''
        else (let (r', written') = yes_copy r n written in yes_loop r' n written')
      else Ok (r, written))"
  by pat_completeness auto
termination
  by (relation "measure (\<lambda>(r, n, written). n - length written + remaining_lines r)")
    (auto simp: yes_copy_def Let_def split: if_splits)

declare yes_loop.simps [simp del]

definition yes_read :: "yes_reader read_fn" where
  "yes_read r n =
     (if n = 0 \<or> yes_line r = [] \<or> remaining_lines r = 0 then Some (r, Ok [])
      else
        (case yes_loop r n [] of
           Ok (r', written) \<Rightarrow> Some (r', Ok written)
         | Err e \<Rightarrow> Some (r, Err e)
         | Panic m \<Rightarrow> Some (r, Panic m)))"

definition yes_content :: "yes_reader \<Rightarrow> string" where
  "yes_content r =
     (if remaining_lines r = 0 then []
      else drop (yes_offset r) (yes_line r) @ concat (replicate (remaining_lines r - 1) (yes_line r)))"

definition yes_good :: "yes_reader \<Rightarrow> bool" where
  "yes_good r \<longleftrightarrow> yes_offset r < length (yes_line r) \<or> yes_line r = [] \<and> yes_offset r = 0"

lemma yes_content_more:
  "0 < k \<Longrightarrow> concat (replicate k line) = line @ concat (replicate (k - 1) line)"
  by (cases k) simp_all

lemma yes_copy_law:
  assumes "yes_offset r < length (yes_line r)" "length written < n" "remaining_lines r > 0"
    and "yes_copy r n written = (r', written')"
  shows "\<exists>x. written' = written @ x \<and> x \<noteq> [] \<and> yes_content r = x @ yes_content r'"
    and "length written' \<le> n" and "yes_offset r' < length (yes_line r')"
proof -
  define l where "l = drop (yes_offset r) (yes_line r)"
  define k where "k = min (length l) (n - length written)"
  have k: "0 < k" "k \<le> length l" using assms(1,2) by (simp_all add: k_def l_def)
  have w: "written' = written @ take k l"
    and r': "r' = (if yes_offset r + k = length (yes_line r)
               then r\<lparr>yes_offset := 0, remaining_lines := remaining_lines r - 1\<rparr>
               else r\<lparr>yes_offset := yes_offset r + k\<rparr>)"
    using assms(4) by (auto simp: yes_copy_def Let_def l_def k_def)
  have "yes_content r = take k l @ yes_content r'"
  proof (cases "yes_offset r + k = length (yes_line r)")
    case True
    then have "take k l = l" by (simp add: l_def)
    then show ?thesis using assms(3) True yes_content_more [of "remaining_lines r - 1" "yes_line r"]
      by (auto simp: r' yes_content_def l_def)
  next
    case False
    then show ?thesis using assms(3) append_take_drop_id [of k l]
      by (simp add: r' yes_content_def l_def add.commute flip: append.assoc)
  qed
  then show "\<exists>x. written' = written @ x \<and> x \<noteq> [] \<and> yes_content r = x @ yes_content r'"
    using w k by auto
  show "length written' \<le> n" "yes_offset r' < length (yes_line r')"
    using assms(1,2) w k by (auto simp: r' k_def l_def)
qed

lemma yes_loop_law:
  "yes_offset r < length (yes_line r) \<Longrightarrow> length written \<le> n \<Longrightarrow>
   \<exists>r' x. yes_loop r n written = Ok (r', written @ x) \<and> yes_content r = x @ yes_content r' \<and>
     length (written @ x) \<le> n \<and> (length written < n \<and> x = [] \<longrightarrow> remaining_lines r = 0) \<and>
     yes_offset r' < length (yes_line r')"
proof (induction r n written rule: yes_loop.induct)
  case (1 r n written)
  show ?case
  proof (cases "length written < n \<and> remaining_lines r > 0")
    case True
    obtain r1 w1 where c: "yes_copy r n written = (r1, w1)" by fastforce
    obtain x where x: "w1 = written @ x" "x \<noteq> []" "yes_content r = x @ yes_content r1"
      using yes_copy_law(1) [OF "1.prems"(1) _ _ c] True by auto
    obtain r2 y where "yes_loop r1 n w1 = Ok (r2, w1 @ y)" "yes_content r1 = y @ yes_content r2"
        "length (w1 @ y) \<le> n" "yes_offset r2 < length (yes_line r2)"
      using "1.IH" [OF True _ c [symmetric]] yes_copy_law(2,3) [OF "1.prems"(1) _ _ c] "1.prems"(1) True
      by auto
    then show ?thesis using True x c "1.prems"(1) by (subst yes_loop.simps) simp
  next
    case False
    then show ?thesis using "1.prems" by (subst yes_loop.simps) auto
  qed
qed

interpretation yes: reader yes_read yes_content "\<lambda>_. 0" "\<lambda>_. False" yes_good
proof
  fix r n assume good: "yes_good r"
  show "\<exists>r' res. yes_read r n = Some (r', res) \<and> read_law yes_content (\<lambda>_. 0) (\<lambda>_. False) yes_good r n r' res"
  proof (cases "n = 0 \<or> yes_line r = [] \<or> remaining_lines r = 0")
    case True
    then show ?thesis using good
      by (auto simp: yes_read_def read_law_def yes_content_def)
  next
    case False
    then obtain r' x where "yes_loop r n [] = Ok (r', x)" "yes_content r = x @ yes_content r'"
        "length x \<le> n" "x \<noteq> []" "yes_offset r' < length (yes_line r')"
      using yes_loop_law [of r "[]" n] good by (auto simp: yes_good_def)
    then show ?thesis using False by (simp add: yes_read_def read_law_def yes_good_def)
  qed
qed

lemma yes_new_content: "yes_content (yes_new line k) = concat (replicate k line)"
  using yes_content_more [of k line] by (auto simp: yes_content_def yes_new_def)

lemma yes_new_good: "yes_good (yes_new line k)"
  by (auto simp: yes_good_def yes_new_def)

section \<open>The head of a pipeline\<close>

text \<open>What the readers of a pipeline read from in the end: a literal, \<open>yes\<close>, or a pipe.\<close>

datatype feed = FromCursor cursor | FromYes yes_reader | FromPipe pipe_buffer

definition feed_read :: "feed read_fn" where
  "feed_read f n =
     (case f of
        FromCursor c \<Rightarrow> map_option (\<lambda>(c', res). (FromCursor c', res)) (cursor_read c n)
      | FromYes y \<Rightarrow> map_option (\<lambda>(y', res). (FromYes y', res)) (yes_read y n)
      | FromPipe p \<Rightarrow> map_option (\<lambda>(p', res). (FromPipe p', res)) (pipe_reader_read p n))"

definition feed_content :: "string \<Rightarrow> feed \<Rightarrow> string" where
  "feed_content future f =
     (case f of
        FromCursor c \<Rightarrow> cursor_content c
      | FromYes y \<Rightarrow> yes_content y
      | FromPipe p \<Rightarrow> pipe_content future p)"

definition feed_stalls :: "feed \<Rightarrow> enat" where
  "feed_stalls f = (case f of FromPipe p \<Rightarrow> pipe_stalls p | _ \<Rightarrow> 0)"

definition feed_waits :: "feed \<Rightarrow> bool" where
  "feed_waits f = (case f of FromPipe p \<Rightarrow> pipe_waits p | _ \<Rightarrow> False)"

definition feed_good :: "bool \<Rightarrow> string \<Rightarrow> feed \<Rightarrow> bool" where
  "feed_good piped future f =
     (case f of
        FromCursor c \<Rightarrow> \<not> piped
      | FromYes y \<Rightarrow> \<not> piped \<and> yes_good y
      | FromPipe p \<Rightarrow> piped \<and> pipe_good future p)"

lemma read_law_map:
  assumes "read_law c s w g r n r' res"
    "\<And>x. C (f x) = c x" "\<And>x. S (f x) = s x" "\<And>x. W (f x) = w x" "\<And>x. G (f x) = g x"
  shows "read_law C S W G (f r) n (f r') res"
  using assms by (simp add: read_law_def cong: result.case_cong)

lemma reader_map:
  assumes "reader rd c s w g" "g r"
    "\<And>x. C (f x) = c x" "\<And>x. S (f x) = s x" "\<And>x. W (f x) = w x" "\<And>x. G (f x) = g x"
  shows "\<exists>r' res. map_option (\<lambda>(x, res). (f x, res)) (rd r n) = Some (r', res) \<and> read_law C S W G (f r) n r' res"
proof -
  obtain r' res where "rd r n = Some (r', res)" "read_law c s w g r n r' res"
    using reader.read_returns [OF assms(1,2)] by blast
  then show ?thesis using read_law_map [of c s w g r n r' res C f S W G] assms(3-6) by auto
qed

interpretation feed: reader feed_read "feed_content future" feed_stalls feed_waits "feed_good piped future"
  for piped future
proof
  fix f n assume "feed_good piped future f"
  then show "\<exists>f' res. feed_read f n = Some (f', res) \<and>
      read_law (feed_content future) feed_stalls feed_waits (feed_good piped future) f n f' res"
    using reader_map [OF literal.reader_axioms, where f = FromCursor and C = "feed_content future" and
        S = feed_stalls and W = feed_waits and G = "feed_good piped future" and n = n]
      reader_map [OF yes.reader_axioms, where f = FromYes and C = "feed_content future" and
        S = feed_stalls and W = feed_waits and G = "feed_good piped future" and n = n]
      reader_map [OF pipe_end.reader_axioms [of future], where f = FromPipe and C = "feed_content future" and
        S = feed_stalls and W = feed_waits and G = "feed_good piped future" and n = n]
    by (cases f) (simp_all add: feed_read_def feed_content_def feed_stalls_def feed_waits_def feed_good_def)
qed

section \<open>A limit on the input of external commands\<close>

record 'r limited_reader =
  limited_inner :: 'r
  limited_remaining :: u64

definition limit_exceeded :: io_error where
  "limit_exceeded = \<lparr>err_kind = InvalidData, err_message = ''external stdin limit exceeded''\<rparr>"

text \<open>\<open>as usize\<close> keeps the low 32 bits of the remaining count.\<close>

definition limited_read :: "'r read_fn \<Rightarrow> 'r limited_reader read_fn" where
  "limited_read rd r n =
     (if n = 0 then Some (r, Ok [])
      else if limited_remaining r = 0 then
        (case rd (limited_inner r) 1 of
           None \<Rightarrow> None
         | Some (i, Ok bs) \<Rightarrow>
             Some (r\<lparr>limited_inner := i\<rparr>, if bs = [] then Ok [] else Err limit_exceeded)
         | Some (i, Err e) \<Rightarrow> Some (r\<lparr>limited_inner := i\<rparr>, Err e)
         | Some (i, Panic m) \<Rightarrow> Some (r\<lparr>limited_inner := i\<rparr>, Panic m))
      else
        (let read_len = min n (unat (ucast (limited_remaining r) :: usize)) in
         case rd (limited_inner r) read_len of
           None \<Rightarrow> None
         | Some (i, Ok bs) \<Rightarrow>
             Some (r\<lparr>limited_inner := i,
                     limited_remaining := sat_sub (limited_remaining r) (of_nat (length bs))\<rparr>, Ok bs)
         | Some (i, Err e) \<Rightarrow> Some (r\<lparr>limited_inner := i\<rparr>, Err e)
         | Some (i, Panic m) \<Rightarrow> Some (r\<lparr>limited_inner := i\<rparr>, Panic m)))"

text \<open>
  Below the limit and below \<open>2 ^ 32\<close>, the limited reader hands out what its reader has and the
  count goes down by what it handed out; past the limit, one more byte is an error.
\<close>

lemma limited_read_counts:
  assumes "reader rd content stalls stuck good" "good (limited_inner r)" "0 < n"
    and "0 < unat (limited_remaining r)" "unat (limited_remaining r) < 2 ^ 32"
    and "limited_read rd r n = Some (r', Ok bs)"
  shows "content (limited_inner r) = bs @ content (limited_inner r')"
    and "unat (limited_remaining r) = length bs + unat (limited_remaining r')"
    and "bs = [] \<Longrightarrow> content (limited_inner r) = []"
proof -
  let ?k = "min n (unat (ucast (limited_remaining r) :: usize))"
  have u: "unat (ucast (limited_remaining r) :: usize) = unat (limited_remaining r)"
    using assms(5) by (simp add: unsigned_ucast_eq take_bit_eq_mod)
  have nz: "limited_remaining r \<noteq> 0" using assms(4) by auto
  from assms(6) obtain i where rd: "rd (limited_inner r) ?k = Some (i, Ok bs)"
      and r': "r' = r\<lparr>limited_inner := i,
        limited_remaining := sat_sub (limited_remaining r) (of_nat (length bs))\<rparr>"
    using assms(3) nz by (auto simp: limited_read_def Let_def split: option.splits result.splits)
  have law: "content (limited_inner r) = bs @ content i" "length bs \<le> ?k"
      "0 < ?k \<Longrightarrow> bs = [] \<Longrightarrow> content (limited_inner r) = []"
    using reader.read_returns [OF assms(1,2), of ?k] rd by (auto simp: read_law_def)
  then show "content (limited_inner r) = bs @ content (limited_inner r')"
    and "bs = [] \<Longrightarrow> content (limited_inner r) = []"
    using assms(3,4) u by (simp_all add: r')
  have "length bs < 2 ^ 64" using law(2) u assms(5) by simp
  then have "unat (of_nat (length bs) :: u64) = length bs" by (simp add: unat_of_nat_less)
  then show "unat (limited_remaining r) = length bs + unat (limited_remaining r')"
    using law(2) u by (simp add: r' unat_sat_sub)
qed

text \<open>A limit that is a multiple of \<open>2 ^ 32\<close> reads nothing at all.\<close>

lemma limited_read_truncated:
  assumes "reader rd content stalls stuck good" "good (limited_inner r)"
    and "limited_remaining r \<noteq> 0" "2 ^ 32 dvd unat (limited_remaining r)"
    and "limited_read rd r n = Some (r', Ok bs)"
  shows "bs = []"
proof -
  have u: "unat (ucast (limited_remaining r) :: usize) = 0"
    using assms(4) by (simp add: unsigned_ucast_eq take_bit_eq_mod)
  then show ?thesis
    using reader.read_returns [OF assms(1,2), of 0] assms(3,5)
    by (auto simp: limited_read_def Let_def read_law_def split: option.splits result.splits if_splits)
qed

end
