(* ===== verification/Stream_Head.thy ===== *)
theory Stream_Head
  imports Stream_Core
begin

text \<open>
  The filter \<open>head\<close> of the streaming pipelines (\<^verbatim>\<open>wasmsh-runtime/lib.rs\<close>), by bytes and by lines.
  By lines it reads one byte at a time, so it takes no more of its input than it hands out.
\<close>

section \<open>head\<close>

datatype head_mode = HeadLines nat | HeadBytes nat

record 'r head_reader = "'r stage_reader" +
  head_mode :: head_mode
  lines_seen :: nat

definition head_new :: "'r \<Rightarrow> head_mode \<Rightarrow> 'r head_reader" where
  "head_new r mode =
     \<lparr>inner = r, output_pending = [], output_offset = 0, finished = False, head_mode = mode,
      lines_seen = 0\<rparr>"

definition read_bytes_mode :: "'r read_fn \<Rightarrow> 'r head_reader \<Rightarrow> nat \<Rightarrow> nat \<Rightarrow> ('r head_reader, string) io" where
  "read_bytes_mode rd r remaining n =
     (if remaining = 0 then Some (r\<lparr>finished := True\<rparr>, Ok [])
      else
        (case rd (inner r) (min remaining n) of
           None \<Rightarrow> None
         | Some (i, Ok bs) \<Rightarrow>
             let remaining' = remaining - length bs in
             Some (r\<lparr>inner := i, head_mode := HeadBytes remaining',
                     finished := finished r \<or> bs = [] \<or> remaining' = 0\<rparr>, Ok bs)
         | Some (i, Err e) \<Rightarrow> Some (r\<lparr>inner := i\<rparr>, Err e)
         | Some (i, Panic m) \<Rightarrow> Some (r\<lparr>inner := i\<rparr>, Panic m)))"

datatype head_lines_step = Produced char | EofBreak | WouldBlockYield

definition read_one_line_byte ::
  "'r read_fn \<Rightarrow> 'r head_reader \<Rightarrow> string \<Rightarrow> ('r head_reader, head_lines_step) io" where
  "read_one_line_byte rd r produced =
     (case rd (inner r) 1 of
        None \<Rightarrow> None
      | Some (i, Err e) \<Rightarrow>
          Some (r\<lparr>inner := i\<rparr>,
                if would_block e \<and> produced \<noteq> [] then Ok WouldBlockYield else Err e)
      | Some (i, Panic m) \<Rightarrow> Some (r\<lparr>inner := i\<rparr>, Panic m)
      | Some (i, Ok []) \<Rightarrow> Some (r\<lparr>inner := i, finished := True\<rparr>, Ok EofBreak)
      | Some (i, Ok (c # _)) \<Rightarrow>
          Some (r\<lparr>inner := i, lines_seen := (if c = ch_newline then lines_seen r + 1 else lines_seen r)\<rparr>,
                Ok (Produced c)))"

definition head_check_limit :: "nat \<Rightarrow> 'r head_reader \<Rightarrow> 'r head_reader" where
  "head_check_limit limit r = (if lines_seen r \<ge> limit then r\<lparr>finished := True\<rparr> else r)"

text \<open>The loop of \<open>read_lines_mode\<close>; the last argument counts the free slots of the buffer.\<close>

fun head_lines_loop ::
  "'r read_fn \<Rightarrow> nat \<Rightarrow> 'r head_reader \<Rightarrow> string \<Rightarrow> nat \<Rightarrow> ('r head_reader, string) io" where
  "head_lines_loop rd limit r produced 0 = Some (head_check_limit limit r, Ok produced)"
| "head_lines_loop rd limit r produced (Suc k) =
     (if lines_seen r < limit then
        (case read_one_line_byte rd r produced of
           None \<Rightarrow> None
         | Some (r', Ok (Produced c)) \<Rightarrow> head_lines_loop rd limit r' (produced @ [c]) k
         | Some (r', Ok EofBreak) \<Rightarrow> Some (head_check_limit limit r', Ok produced)
         | Some (r', Ok WouldBlockYield) \<Rightarrow> Some (r', Ok produced)
         | Some (r', Err e) \<Rightarrow> Some (r', Err e)
         | Some (r', Panic m) \<Rightarrow> Some (r', Panic m))
      else Some (head_check_limit limit r, Ok produced))"

definition read_lines_mode :: "'r read_fn \<Rightarrow> 'r head_reader \<Rightarrow> nat \<Rightarrow> nat \<Rightarrow> ('r head_reader, string) io" where
  "read_lines_mode rd r limit n =
     (if lines_seen r \<ge> limit then Some (r\<lparr>finished := True\<rparr>, Ok [])
      else head_lines_loop rd limit r [] n)"

definition head_read :: "'r read_fn \<Rightarrow> 'r head_reader read_fn" where
  "head_read rd r n =
     (if n = 0 then Some (r, Ok [])
      else
        let (r', bs) = stage_take r n in
        if bs \<noteq> [] then Some (r', Ok bs)
        else if finished r' then Some (r', Ok [])
        else
          (case head_mode r' of
             HeadBytes remaining \<Rightarrow> read_bytes_mode rd r' remaining n
           | HeadLines limit \<Rightarrow> read_lines_mode rd r' limit n))"

text \<open>The first lines of a text, with their newlines.\<close>

fun first_lines :: "nat \<Rightarrow> string \<Rightarrow> string" where
  "first_lines 0 s = []"
| "first_lines (Suc k) [] = []"
| "first_lines (Suc k) (c # s) = c # first_lines (if c = ch_newline then k else Suc k) s"

lemma first_lines_line: "ch_newline \<notin> set l \<Longrightarrow> first_lines (Suc k) (l @ ch_newline # s) = l @ ch_newline # first_lines k s"
  by (induction l) auto

lemma first_lines_last: "ch_newline \<notin> set l \<Longrightarrow> first_lines (Suc k) l = l"
  by (induction l) auto

definition head_text :: "head_mode \<Rightarrow> nat \<Rightarrow> string \<Rightarrow> string" where
  "head_text mode seen s =
     (case mode of HeadBytes k \<Rightarrow> take k s | HeadLines limit \<Rightarrow> first_lines (limit - seen) s)"

definition head_content :: "('r \<Rightarrow> string) \<Rightarrow> 'r head_reader \<Rightarrow> string" where
  "head_content content =
     stage_content (\<lambda>r. head_text (head_mode r) (lines_seen r) (content (inner r)))"

definition head_good :: "('r \<Rightarrow> bool) \<Rightarrow> 'r head_reader \<Rightarrow> bool" where
  "head_good good r \<longleftrightarrow> good (inner r) \<and> output_pending r = [] \<and> output_offset r = 0"

context reader
begin

abbreviation hd_rest :: "'r head_reader \<Rightarrow> string" where
  "hd_rest r \<equiv> head_text (head_mode r) (lines_seen r) (content (inner r))"

abbreviation head_stalls :: "'r head_reader \<Rightarrow> enat" where
  "head_stalls r \<equiv> stalls (inner r)"

lemma head_bytes_law:
  assumes "head_good good r" "\<not> finished r" "head_mode r = HeadBytes k" "0 < n"
  shows "\<exists>r' res. read_bytes_mode rd r k n = Some (r', res) \<and>
    read_law (head_content content) head_stalls (\<lambda>r. stuck (inner r)) (head_good good) r n r' res"
proof (cases "k = 0")
  case True
  then show ?thesis using assms
    by (simp add: read_bytes_mode_def read_law_def head_good_def head_content_def stage_content_def
        undelivered_def head_text_def)
next
  case False
  have g: "good (inner r)" using assms(1) by (simp add: head_good_def)
  then show ?thesis
  proof (cases rule: read_cases [where n = "min k n"])
    case (got i bs)
    then show ?thesis using assms False
      by (auto simp: read_bytes_mode_def read_law_def head_good_def head_content_def stage_content_def
        undelivered_def head_text_def)
  next
    case (stall i e)
    then show ?thesis using assms False
      by (auto simp: read_bytes_mode_def read_law_def head_good_def head_content_def stage_content_def
        undelivered_def head_text_def)
  qed
qed

lemma head_lines_law:
  assumes "head_good good r" "\<not> finished r" "head_mode r = HeadLines limit" "produced \<noteq> [] \<or> 0 < k"
    "lines_seen r < limit \<or> produced \<noteq> []"
  shows "\<exists>r' res. head_lines_loop rd limit r produced k = Some (r', res) \<and> head_good good r' \<and>
    (case res of
       Ok bs \<Rightarrow> \<exists>new. bs = produced @ new \<and> length new \<le> k \<and> head_stalls r' \<le> head_stalls r \<and>
         head_content content r = new @ head_content content r' \<and>
         (bs = [] \<longrightarrow> head_content content r = [])
     | Err e \<Rightarrow> produced = [] \<and> would_block e \<and> stuck (inner r') \<and> head_content content r' = head_content content r \<and>
         eSuc (head_stalls r') \<le> head_stalls r
     | Panic _ \<Rightarrow> False)"
  using assms
proof (induction k arbitrary: r produced)
  case 0
  then show ?case
    by (auto simp: head_check_limit_def head_good_def head_content_def stage_content_def head_text_def
        undelivered_def)
next
  case (Suc k)
  have g: "good (inner r)" "output_pending r = []" "output_offset r = 0"
    using Suc.prems(1) by (simp_all add: head_good_def)
  show ?case
  proof (cases "lines_seen r < limit")
    case False
    then show ?thesis using Suc.prems
      by (auto simp: head_check_limit_def head_good_def head_content_def stage_content_def head_text_def
        undelivered_def)
  next
    case True
    then obtain j where j: "limit - lines_seen r = Suc j" "limit - Suc (lines_seen r) = j"
      by (metis Suc_diff_Suc)
    have c: "head_content content r = first_lines (Suc j) (content (inner r))"
      using Suc.prems(2,3) g by (simp add: head_content_def stage_content_def undelivered_def head_text_def j)
    from g(1) show ?thesis
    proof (cases rule: read_cases [where n = 1])
      case (got i bs)
      show ?thesis
      proof (cases bs)
        case Nil
        then show ?thesis using got g True c
          by (auto simp: read_one_line_byte_def head_check_limit_def head_good_def head_content_def
            stage_content_def undelivered_def)
      next
        case (Cons b bs')
        then have b: "bs = [b]" using got(4) by simp
        define r1 where "r1 = r\<lparr>inner := i, lines_seen := (if b = ch_newline then lines_seen r + 1 else lines_seen r)\<rparr>"
        have "head_good good r1" "\<not> finished r1" "head_mode r1 = HeadLines limit"
          using got(2) g Suc.prems by (simp_all add: r1_def head_good_def)
        then obtain r' res where l: "head_lines_loop rd limit r1 (produced @ [b]) k = Some (r', res)"
            "head_good good r'"
            "case res of
               Ok bs \<Rightarrow> \<exists>new. bs = (produced @ [b]) @ new \<and> length new \<le> k \<and> head_stalls r' \<le> head_stalls r1 \<and>
                 head_content content r1 = new @ head_content content r' \<and> (bs = [] \<longrightarrow> head_content content r1 = [])
             | Err e \<Rightarrow> produced @ [b] = [] \<and> would_block e \<and> stuck (inner r') \<and> head_content content r' = head_content content r1 \<and>
                 eSuc (head_stalls r') \<le> head_stalls r1
             | Panic _ \<Rightarrow> False"
          using Suc.IH [of r1 "produced @ [b]"] by auto
        moreover have "head_content content r = b # head_content content r1"
          using c got(3) b j Suc.prems(2,3) g
          by (auto simp: r1_def head_content_def stage_content_def undelivered_def head_text_def)
        moreover have "head_stalls r1 \<le> head_stalls r" using got(5) by (simp add: r1_def)
        moreover have "head_lines_loop rd limit r produced (Suc k) = Some (r', res)"
          using l(1) got(1) b True by (simp add: read_one_line_byte_def r1_def)
        ultimately show ?thesis by (cases res) (auto intro: order_trans)
      qed
    next
      case (stall i e)
      then show ?thesis using g True Suc.prems
        by (cases "produced = []")
          (auto simp: read_one_line_byte_def head_good_def head_content_def stage_content_def
            undelivered_def head_text_def order_trans [OF ile_eSuc])
    qed
  qed
qed

lemma head_reader: "reader (head_read rd) (head_content content) head_stalls (\<lambda>r. stuck (inner r)) (head_good good)"
proof
  fix r :: "'r head_reader" and n assume g: "head_good good r"
  then have t: "stage_take r n = (r, [])"
    by (simp add: stage_take_def take_pending_output_def head_good_def)
  consider (stop) "n = 0 \<or> finished r" | (b) k where "0 < n" "\<not> finished r" "head_mode r = HeadBytes k"
    | (l) limit where "0 < n" "\<not> finished r" "head_mode r = HeadLines limit"
    by (cases "head_mode r") auto
  then show "\<exists>r' res. head_read rd r n = Some (r', res) \<and>
      read_law (head_content content) head_stalls (\<lambda>r. stuck (inner r)) (head_good good) r n r' res"
  proof cases
    case stop
    then show ?thesis using g t
      by (auto simp: head_read_def read_law_def head_content_def stage_content_def undelivered_def head_good_def)
  next
    case b
    then show ?thesis using head_bytes_law [OF g] t by (simp add: head_read_def)
  next
    case l
    show ?thesis
    proof (cases "lines_seen r < limit")
      case True
      then show ?thesis using head_lines_law [OF g l(2,3), of "[]" n] l t
        by (fastforce simp: head_read_def read_lines_mode_def read_law_def split: result.splits)
    next
      case False
      then show ?thesis using g l t
        by (auto simp: head_read_def read_lines_mode_def read_law_def head_content_def stage_content_def
          undelivered_def head_good_def head_text_def)
    qed
  qed
qed

end

end
