(* ===== verification/Stream_Absorb.thy ===== *)
theory Stream_Absorb
  imports Stream_Core
begin

text \<open>
  The filters \<open>tail\<close> and \<open>wc\<close> of the streaming pipelines (\<^verbatim>\<open>wasmsh-runtime/lib.rs\<close>), which absorb
  their whole input before they produce anything.  What they share is the locale \<open>absorber\<close>: a
  state that chunks change, blind to the chunks' boundaries, and the text it makes at the end.
\<close>

section \<open>Absorbing the input\<close>

text \<open>Read to the end in chunks and let each chunk change a state.\<close>

partial_function (option) absorb ::
  "'r read_fn \<Rightarrow> ('x \<Rightarrow> string \<Rightarrow> 'x) \<Rightarrow> 'r \<Rightarrow> 'x \<Rightarrow> ('r \<times> 'x, unit) io" where
  "absorb rd process_chunk r x =
     (case rd r 4096 of
        None \<Rightarrow> None
      | Some (r', Ok bs) \<Rightarrow>
          if bs = [] then Some ((r', x), Ok ())
          else absorb rd process_chunk r' (process_chunk x bs)
      | Some (r', Err e) \<Rightarrow> Some ((r', x), Err e)
      | Some (r', Panic m) \<Rightarrow> Some ((r', x), Panic m))"

text \<open>A function of chunks that does not see their boundaries, on states that it keeps.\<close>

definition chunkwise :: "('x \<Rightarrow> bool) \<Rightarrow> ('x \<Rightarrow> string \<Rightarrow> 'x) \<Rightarrow> bool" where
  "chunkwise P f \<longleftrightarrow>
     (\<forall>x. P x \<longrightarrow> f x [] = x) \<and> (\<forall>x s. P x \<longrightarrow> P (f x s)) \<and> (\<forall>x s t. P x \<longrightarrow> f (f x s) t = f x (s @ t))"

context reader
begin

lemma absorb_law:
  assumes "chunkwise P f" "good r" "P x"
  shows "\<exists>r' x' res. absorb rd f r x = Some ((r', x'), res) \<and> good r' \<and> P x' \<and>
    f x' (content r') = f x (content r) \<and>
    (case res of
       Ok _ \<Rightarrow> content r' = [] \<and> stalls r' \<le> stalls r
     | Err e \<Rightarrow> would_block e \<and> stuck r' \<and> eSuc (stalls r') \<le> stalls r
     | Panic _ \<Rightarrow> False)"
  using assms(2,3)
proof (induction "length (content r)" arbitrary: r x rule: less_induct)
  case less
  note here = absorb.simps [of rd f r]
  from less.prems(1) show ?case
  proof (cases rule: read_cases [where n = 4096])
    case (got r' bs)
    show ?thesis
    proof (cases "bs = []")
      case True
      then show ?thesis using got less.prems by (auto simp: here)
    next
      case False
      then have "length (content r') < length (content r)" "P (f x bs)"
        using got less.prems assms(1) by (auto simp: chunkwise_def)
      then obtain r2 x2 res where "absorb rd f r' (f x bs) = Some ((r2, x2), res)" "good r2" "P x2"
          "f x2 (content r2) = f (f x bs) (content r')"
          "case res of
             Ok _ \<Rightarrow> content r2 = [] \<and> stalls r2 \<le> stalls r'
           | Err e \<Rightarrow> would_block e \<and> stuck r2 \<and> eSuc (stalls r2) \<le> stalls r'
           | Panic _ \<Rightarrow> False"
        using less.hyps got(2) by blast
      then show ?thesis using got False less.prems(2) assms(1)
        by (cases res) (auto simp: here chunkwise_def intro: order_trans)
    qed
  next
    case (stall r' e)
    then show ?thesis using less.prems by (simp add: here)
  qed
qed

end

text \<open>
  The \<open>read\<close> of an absorbing filter.  The filters differ in how they hand out pending output, in
  their state, and in the text they make of it at the end.
\<close>

record ('r, 'x) absorb_reader = "'r stage_reader" +
  own :: 'x

definition absorb_new :: "'r \<Rightarrow> 'x \<Rightarrow> ('r, 'x) absorb_reader" where
  "absorb_new r x =
     \<lparr>inner = r, output_pending = [], output_offset = 0, finished = False, own = x\<rparr>"

definition absorb_read ::
  "(('r, 'x) absorb_reader \<Rightarrow> nat \<Rightarrow> ('r, 'x) absorb_reader \<times> string) \<Rightarrow> ('x \<Rightarrow> string \<Rightarrow> 'x) \<Rightarrow>
   ('x \<Rightarrow> 'x \<times> string) \<Rightarrow> 'r read_fn \<Rightarrow> ('r, 'x) absorb_reader read_fn" where
  "absorb_read take_out process_chunk finalize rd r n =
     (if n = 0 then Some (r, Ok [])
      else
        let (r1, bs) = take_out r n in
        if bs \<noteq> [] then Some (r1, Ok bs)
        else if finished r1 then Some (r1, Ok [])
        else
          (case absorb rd process_chunk (inner r1) (own r1) of
             None \<Rightarrow> None
           | Some ((i, x), Ok _) \<Rightarrow>
               let (x', out) = finalize x;
                   r2 = r1\<lparr>inner := i, own := x', output_pending := output_pending r1 @ out,
                           finished := True\<rparr>;
                   (r3, bs) = take_out r2 n
               in Some (r3, Ok bs)
           | Some ((i, x), Err e) \<Rightarrow> Some (r1\<lparr>inner := i, own := x\<rparr>, Err e)
           | Some ((i, x), Panic m) \<Rightarrow> Some (r1\<lparr>inner := i, own := x\<rparr>, Panic m)))"

definition absorb_content ::
  "('x \<Rightarrow> string \<Rightarrow> string) \<Rightarrow> ('r \<Rightarrow> string) \<Rightarrow> ('r, 'x) absorb_reader \<Rightarrow> string" where
  "absorb_content meaning content = stage_content (\<lambda>r. meaning (own r) (content (inner r)))"

text \<open>What handing out pending output may change.\<close>

definition take_law ::
  "('r, 'x) absorb_reader \<Rightarrow> nat \<Rightarrow> ('r, 'x) absorb_reader \<Rightarrow> string \<Rightarrow> bool" where
  "take_law r n r' bs \<longleftrightarrow>
     undelivered r = bs @ undelivered r' \<and> length bs \<le> n \<and> inner r' = inner r \<and> own r' = own r \<and>
     finished r' = finished r \<and> output_offset r' \<le> length (output_pending r') \<and>
     (0 < n \<and> bs = [] \<longrightarrow> undelivered r = [])"

locale absorber = reader rd content stalls stuck good
  for rd :: "'r read_fn" and content stalls stuck good +
  fixes take_out :: "('r, 'x) absorb_reader \<Rightarrow> nat \<Rightarrow> ('r, 'x) absorb_reader \<times> string"
    and process_chunk :: "'x \<Rightarrow> string \<Rightarrow> 'x"
    and finalize :: "'x \<Rightarrow> 'x \<times> string"
    and meaning :: "'x \<Rightarrow> string \<Rightarrow> string"
    and P :: "'x \<Rightarrow> bool"
  assumes take_out_law: "output_offset r \<le> length (output_pending r) \<Longrightarrow> take_out r n = (r', bs) \<Longrightarrow> take_law r n r' bs"
    and chunks: "chunkwise P process_chunk"
    and chunk_meaning: "P x \<Longrightarrow> meaning (process_chunk x c) s = meaning x (c @ s)"
    and finalize_meaning: "P x \<Longrightarrow> finalize x = (x', out) \<Longrightarrow> P x' \<and> out = meaning x []"
begin

abbreviation absorb_good :: "('r, 'x) absorb_reader \<Rightarrow> bool" where
  "absorb_good r \<equiv> good (inner r) \<and> P (own r) \<and> output_offset r \<le> length (output_pending r)"

lemma absorbed:
  assumes "absorb_good r"
  obtains (all) i x where "absorb rd process_chunk (inner r) (own r) = Some ((i, x), Ok ())" "good i" "P x"
      "content i = []" "meaning x [] = meaning (own r) (content (inner r))" "stalls i \<le> stalls (inner r)"
  | (stall) i x e where "absorb rd process_chunk (inner r) (own r) = Some ((i, x), Err e)" "good i" "P x"
      "meaning x (content i) = meaning (own r) (content (inner r))" "would_block e" "stuck i"
      "eSuc (stalls i) \<le> stalls (inner r)"
proof -
  obtain i x res where a: "absorb rd process_chunk (inner r) (own r) = Some ((i, x), res)"
      "good i" "P x" "process_chunk x (content i) = process_chunk (own r) (content (inner r))"
      "case res of
         Ok _ \<Rightarrow> content i = [] \<and> stalls i \<le> stalls (inner r)
       | Err e \<Rightarrow> would_block e \<and> stuck i \<and> eSuc (stalls i) \<le> stalls (inner r)
       | Panic _ \<Rightarrow> False"
    using absorb_law [OF chunks, of "inner r" "own r"] assms by blast
  have "meaning x (content i) = meaning (own r) (content (inner r))"
    using chunk_meaning [of x "content i" "[]"] chunk_meaning [of "own r" "content (inner r)" "[]"]
      a(3,4) assms by simp
  then show ?thesis using a all stall by (cases res) auto
qed

lemma absorber_reader:
  "reader (absorb_read take_out process_chunk finalize rd) (absorb_content meaning content)
     (\<lambda>r. stalls (inner r)) (\<lambda>r. stuck (inner r)) absorb_good"
proof
  fix r :: "('r, 'x) absorb_reader" and n assume g: "absorb_good r"
  obtain r1 bs where t: "take_out r n = (r1, bs)" by fastforce
  have law: "take_law r n r1 bs" using take_out_law g t by blast
  let ?read = "absorb_read take_out process_chunk finalize rd" and ?content = "absorb_content meaning content"
  let ?law = "read_law ?content (\<lambda>r. stalls (inner r)) (\<lambda>r. stuck (inner r)) absorb_good r n"
  show "\<exists>r' res. ?read r n = Some (r', res) \<and> ?law r' res"
  proof (cases "n = 0 \<or> bs \<noteq> [] \<or> finished r")
    case True
    then show ?thesis using g t law
      by (auto simp: absorb_read_def read_law_def absorb_content_def stage_content_def take_law_def)
  next
    case False
    then have idle: "undelivered r1 = []" and c: "?content r = meaning (own r) (content (inner r))"
        and r1: "inner r1 = inner r" "own r1 = own r" "\<not> finished r1"
        "output_offset r1 \<le> length (output_pending r1)"
      using law by (auto simp: absorb_content_def stage_content_def take_law_def)
    from g show ?thesis
    proof (cases rule: absorbed)
      case (all i x)
      obtain x2 out where f: "finalize x = (x2, out)" by fastforce
      define r2 where "r2 = r1\<lparr>inner := i, own := x2, output_pending := output_pending r1 @ out, finished := True\<rparr>"
      obtain r3 out' where t3: "take_out r2 n = (r3, out')" by fastforce
      have u: "undelivered r2 = ?content r"
        using idle all(5) c finalize_meaning [OF all(3) f] r1(4) by (simp add: undelivered_def r2_def)
      have "inner r2 = i" "own r2 = x2" "finished r2" by (simp_all add: r2_def)
      moreover have "take_law r2 n r3 out'" using take_out_law [OF _ t3] r1(4) by (simp add: r2_def)
      moreover have "?content r3 = undelivered r3 @ (if finished r3 then [] else meaning (own r3) (content (inner r3)))"
        by (simp add: absorb_content_def stage_content_def)
      ultimately have "?law r3 (Ok out')"
        using u all finalize_meaning [OF all(3) f] False by (auto simp: read_law_def take_law_def)
      moreover have "?read r n = Some (r3, Ok out')"
        using False t r1 all(1) f t3 by (simp add: absorb_read_def r2_def)
      ultimately show ?thesis by blast
    next
      case (stall i x e)
      then show ?thesis using False t r1 c idle
        by (simp add: absorb_read_def read_law_def absorb_content_def stage_content_def undelivered_def)
    qed
  qed
qed

lemma new_content: "absorb_content meaning content (absorb_new r x) = meaning x (content r)"
  by (simp add: absorb_content_def stage_content_def undelivered_def absorb_new_def)

end

text \<open>Handing out from the shared output buffer.\<close>

lemma take_pending_output_offset:
  "take_pending_output pending off n = (bs, pending', off') \<Longrightarrow> off' \<le> length pending'"
  by (auto simp: take_pending_output_def Let_def split: if_splits)

lemma stage_take_law:
  assumes "stage_take r n = (r', bs)"
  shows "take_law r n r' bs"
proof -
  obtain p off where t: "take_pending_output (output_pending r) (output_offset r) n = (bs, p, off)"
      and r': "r' = r\<lparr>output_pending := p, output_offset := off\<rparr>"
    using assms by (auto simp: stage_take_def split: prod.splits)
  show ?thesis using take_pending_output_law [OF t] take_pending_output_offset [OF t]
    by (simp add: take_law_def r' undelivered_def)
qed

section \<open>tail\<close>

datatype tail_mode = TailLines nat | TailBytes nat

text \<open>The rings are lists with the oldest entry first.\<close>

record tail_state =
  tail_mode :: tail_mode
  byte_ring :: string
  line_ring :: "string list"
  current_line :: string

definition push_tail_byte :: "tail_state \<Rightarrow> char \<Rightarrow> tail_state" where
  "push_tail_byte t b =
     (case tail_mode t of
        TailLines _ \<Rightarrow> t
      | TailBytes limit \<Rightarrow>
          if limit = 0 then t
          else
            let ring = (if length (byte_ring t) = limit then tl (byte_ring t) else byte_ring t)
            in t\<lparr>byte_ring := ring @ [b]\<rparr>)"

definition push_tail_line :: "tail_state \<Rightarrow> string \<Rightarrow> tail_state" where
  "push_tail_line t l =
     (case tail_mode t of
        TailBytes _ \<Rightarrow> t
      | TailLines limit \<Rightarrow>
          if limit = 0 then t
          else
            let ring = (if length (line_ring t) = limit then tl (line_ring t) else line_ring t)
            in t\<lparr>line_ring := ring @ [l]\<rparr>)"

definition tail_byte :: "tail_state \<Rightarrow> char \<Rightarrow> tail_state" where
  "tail_byte t b =
     (case tail_mode t of
        TailBytes _ \<Rightarrow> push_tail_byte t b
      | TailLines _ \<Rightarrow>
          if b = ch_newline then push_tail_line (t\<lparr>current_line := []\<rparr>) (current_line t)
          else t\<lparr>current_line := current_line t @ [b]\<rparr>)"

definition tail_process_chunk :: "tail_state \<Rightarrow> string \<Rightarrow> tail_state" where
  "tail_process_chunk t chunk = fold (\<lambda>b t. tail_byte t b) chunk t"

definition unlines :: "string list \<Rightarrow> string" where
  "unlines ls = concat (map (\<lambda>l. l @ [ch_newline]) ls)"

text \<open>\<open>finalize_output\<close>: the bytes it appends to the output and the state it leaves.\<close>

definition tail_finalize :: "tail_state \<Rightarrow> tail_state \<times> string" where
  "tail_finalize t =
     (case tail_mode t of
        TailBytes _ \<Rightarrow> (t\<lparr>byte_ring := []\<rparr>, byte_ring t)
      | TailLines _ \<Rightarrow>
          let t' = (if current_line t = [] then t
                    else push_tail_line (t\<lparr>current_line := []\<rparr>) (current_line t))
          in (t'\<lparr>line_ring := []\<rparr>, unlines (line_ring t')))"

type_synonym 'r tail_reader = "('r, tail_state) absorb_reader"

definition tail_new :: "'r \<Rightarrow> tail_mode \<Rightarrow> 'r tail_reader" where
  "tail_new r mode =
     absorb_new r \<lparr>tail_mode = mode, byte_ring = [], line_ring = [], current_line = []\<rparr>"

definition tail_read :: "'r read_fn \<Rightarrow> 'r tail_reader read_fn" where
  "tail_read = absorb_read stage_take tail_process_chunk tail_finalize"

text \<open>The last entries of a list.\<close>

definition last_n :: "nat \<Rightarrow> 'a list \<Rightarrow> 'a list" where
  "last_n k xs = drop (length xs - k) xs"

definition tail_text :: "tail_state \<Rightarrow> string \<Rightarrow> string" where
  "tail_text t s =
     (case tail_mode t of
        TailBytes k \<Rightarrow> last_n k (byte_ring t @ s)
      | TailLines k \<Rightarrow> unlines (last_n k (line_ring t @ raw_lines (current_line t @ s))))"

definition tail_good :: "tail_state \<Rightarrow> bool" where
  "tail_good t \<longleftrightarrow>
     ch_newline \<notin> set (current_line t) \<and>
     (case tail_mode t of
        TailBytes k \<Rightarrow> length (byte_ring t) \<le> k
      | TailLines k \<Rightarrow> length (line_ring t) \<le> k)"

lemma last_n_push:
  assumes "length ring \<le> k" "0 < k"
  shows "last_n k ((if length ring = k then tl ring else ring) @ x # xs) = last_n k (ring @ x # xs)"
proof (cases "length ring = k")
  case True
  then obtain a ring' where "ring = a # ring'" using assms(2) by (cases ring) auto
  then show ?thesis unfolding True [symmetric] by (simp add: last_n_def)
qed simp

lemma last_n_0 [simp]: "last_n 0 xs = []"
  by (simp add: last_n_def)

lemma tail_byte_text:
  assumes "tail_good t"
  shows "tail_good (tail_byte t b)" "tail_text (tail_byte t b) s = tail_text t (b # s)"
proof -
  show "tail_good (tail_byte t b)"
    using assms by (cases "tail_mode t") (auto simp: tail_byte_def tail_good_def push_tail_byte_def
      push_tail_line_def Let_def)
  show "tail_text (tail_byte t b) s = tail_text t (b # s)"
  proof (cases "tail_mode t")
    case (TailBytes k)
    then show ?thesis using assms last_n_push [of "byte_ring t" k b s]
      by (auto simp: tail_byte_def tail_text_def tail_good_def push_tail_byte_def Let_def split: if_splits)
  next
    case (TailLines k)
    then show ?thesis using assms last_n_push [of "line_ring t" k "current_line t" "raw_lines s"]
        raw_lines_Cons [of "current_line t" s]
      by (auto simp: tail_byte_def tail_text_def tail_good_def push_tail_line_def Let_def split: if_splits)
  qed
qed

lemma tail_process_text:
  "tail_good t \<Longrightarrow> tail_good (tail_process_chunk t c) \<and> tail_text (tail_process_chunk t c) s = tail_text t (c @ s)"
  by (induction c arbitrary: t) (simp_all add: tail_process_chunk_def tail_byte_text)

lemma tail_chunkwise: "chunkwise tail_good tail_process_chunk"
  using tail_process_text by (auto simp: chunkwise_def tail_process_chunk_def)

lemma last_n_short: "length xs \<le> k \<Longrightarrow> last_n k xs = xs"
  by (simp add: last_n_def)

lemma tail_finalize_text:
  assumes "tail_good t"
  shows "snd (tail_finalize t) = tail_text t []"
proof (cases "tail_mode t")
  case (TailBytes k)
  then show ?thesis using assms by (simp add: tail_finalize_def tail_text_def tail_good_def last_n_short)
next
  case (TailLines k)
  then show ?thesis
    using assms last_n_push [of "line_ring t" k "current_line t" "[]"] raw_lines_last [of "current_line t"]
    by (auto simp: tail_finalize_def tail_text_def tail_good_def push_tail_line_def Let_def last_n_short)
qed

lemma tail_finalize_good: "tail_good t \<Longrightarrow> tail_finalize t = (t', out) \<Longrightarrow> tail_good t'"
  by (auto simp: tail_finalize_def tail_good_def push_tail_line_def Let_def split: tail_mode.splits if_splits)

context reader
begin

lemma tail_absorber:
  "absorber rd content stalls stuck good stage_take tail_process_chunk tail_finalize tail_text tail_good"
proof (unfold_locales, goal_cases)
  case (4 x x' out)
  then show ?case using tail_finalize_text tail_finalize_good by fastforce
qed (use stage_take_law tail_chunkwise tail_process_text in auto)

end

section \<open>wc\<close>

record wc_flags =
  flag_lines :: bool
  flag_words :: bool
  flag_bytes :: bool
  flag_max_line_length :: bool

record wc_state =
  wc_flags :: wc_flags
  wc_lines :: nat
  wc_words :: nat
  wc_bytes :: nat
  max_line_length :: nat
  current_line_length :: nat
  in_word :: bool
  saw_input :: bool
  ended_with_newline :: bool

type_synonym 'r wc_reader = "('r, wc_state) absorb_reader"

definition wc_start :: "wc_flags \<Rightarrow> wc_state" where
  "wc_start flags =
     \<lparr>wc_flags = flags, wc_lines = 0, wc_words = 0, wc_bytes = 0, max_line_length = 0,
      current_line_length = 0, in_word = False, saw_input = False, ended_with_newline = False\<rparr>"

definition wc_new :: "'r \<Rightarrow> wc_flags \<Rightarrow> 'r wc_reader" where
  "wc_new r flags = absorb_new r (wc_start flags)"

text \<open>The summary is handed out like pending output, but its buffer is never cleared.\<close>

definition take_summary :: "'r wc_reader \<Rightarrow> nat \<Rightarrow> 'r wc_reader \<times> string" where
  "take_summary r n =
     (if output_offset r \<ge> length (output_pending r) then (r, [])
      else
        let remaining = drop (output_offset r) (output_pending r);
            to_copy = min (length remaining) n
        in (r\<lparr>output_offset := output_offset r + to_copy\<rparr>, take to_copy remaining))"

definition is_ascii_whitespace :: "char \<Rightarrow> bool" where
  "is_ascii_whitespace c \<longleftrightarrow>
     c \<in> {CHR '' '', ch_tab, ch_newline, CHR 0x0C, ch_return}"

definition wc_byte :: "wc_state \<Rightarrow> char \<Rightarrow> wc_state" where
  "wc_byte x b =
     (let x1 = (if is_ascii_whitespace b then x\<lparr>in_word := False\<rparr>
                else if \<not> in_word x then x\<lparr>wc_words := wc_words x + 1, in_word := True\<rparr>
                else x)
      in if b = ch_newline then
           x1\<lparr>wc_lines := wc_lines x1 + 1,
              max_line_length := max (max_line_length x1) (current_line_length x1),
              current_line_length := 0, ended_with_newline := True\<rparr>
         else
           x1\<lparr>current_line_length := current_line_length x1 + 1, ended_with_newline := False\<rparr>)"

definition wc_process_chunk :: "wc_state \<Rightarrow> string \<Rightarrow> wc_state" where
  "wc_process_chunk x chunk =
     (if chunk = [] then x
      else fold (\<lambda>b x. wc_byte x b) chunk
             (x\<lparr>saw_input := True, wc_bytes := wc_bytes x + length chunk\<rparr>))"

text \<open>The loop that counts the decimal digits of a column.\<close>

fun decimal_width :: "nat \<Rightarrow> nat" where
  "decimal_width v = (if v \<ge> 10 then decimal_width (v div 10) + 1 else 1)"

declare decimal_width.simps [simp del]

definition wc_columns :: "wc_state \<Rightarrow> nat list" where
  "wc_columns x =
     (if flag_lines (wc_flags x) then [wc_lines x] else []) @
     (if flag_words (wc_flags x) then [wc_words x] else []) @
     (if flag_bytes (wc_flags x) then [wc_bytes x] else []) @
     (if flag_max_line_length (wc_flags x) then [max_line_length x] else [])"

definition wc_format :: "nat list \<Rightarrow> string" where
  "wc_format cols =
     (let width = (if length cols > 1
                   then max (fold (\<lambda>v digits. max digits (decimal_width v)) cols 1) 7 else 1)
      in join_with '' '' (map (\<lambda>n. pad_left width (show_nat n)) cols) @ [ch_newline])"

definition finalize_summary :: "wc_state \<Rightarrow> wc_state \<times> string" where
  "finalize_summary x =
     (let x' = (if saw_input x \<and> \<not> ended_with_newline x
                then x\<lparr>max_line_length := max (max_line_length x) (current_line_length x)\<rparr> else x)
      in (x', wc_format (wc_columns x')))"

definition wc_read :: "'r read_fn \<Rightarrow> 'r wc_reader read_fn" where
  "wc_read = absorb_read take_summary wc_process_chunk finalize_summary"

definition wc_text :: "wc_state \<Rightarrow> string \<Rightarrow> string" where
  "wc_text x s = snd (finalize_summary (wc_process_chunk x s))"

lemma take_summary_law:
  assumes "take_summary r n = (r', bs)" "output_offset r \<le> length (output_pending r)"
  shows "take_law r n r' bs"
proof (cases "output_offset r \<ge> length (output_pending r)")
  case True
  then show ?thesis using assms by (auto simp: take_summary_def take_law_def undelivered_def)
next
  case False
  define l where "l = undelivered r"
  define k where "k = min (length l) n"
  have l: "l \<noteq> []" "length l = length (output_pending r) - output_offset r"
    using False by (auto simp: l_def undelivered_def)
  have "r' = r\<lparr>output_offset := output_offset r + k\<rparr>" "bs = take k l"
    using assms False by (auto simp: take_summary_def l_def k_def undelivered_def Let_def)
  moreover have "l = take k l @ drop (output_offset r + k) (output_pending r)"
    using append_take_drop_id [of k l] by (simp add: l_def undelivered_def add.commute)
  ultimately show ?thesis using l False unfolding take_law_def l_def [symmetric]
    by (auto simp: undelivered_def k_def)
qed

lemma wc_byte_frame:
  "saw_input (wc_byte x b) = saw_input x" "wc_bytes (wc_byte x b) = wc_bytes x"
  "wc_byte (x\<lparr>saw_input := u, wc_bytes := v\<rparr>) b = (wc_byte x b)\<lparr>saw_input := u, wc_bytes := v\<rparr>"
  by (simp_all add: wc_byte_def Let_def)

lemma wc_fold_frame:
  "fold (\<lambda>b x. wc_byte x b) s (x\<lparr>saw_input := u, wc_bytes := v\<rparr>) =
     (fold (\<lambda>b x. wc_byte x b) s x)\<lparr>saw_input := u, wc_bytes := v\<rparr>"
  "saw_input (fold (\<lambda>b x. wc_byte x b) s x) = saw_input x"
  "wc_bytes (fold (\<lambda>b x. wc_byte x b) s x) = wc_bytes x"
  by (induction s arbitrary: x) (simp_all add: wc_byte_frame)

lemma wc_process_append: "wc_process_chunk (wc_process_chunk x s) t = wc_process_chunk x (s @ t)"
  by (auto simp: wc_process_chunk_def wc_fold_frame add.assoc)

lemma wc_chunkwise: "chunkwise (\<lambda>_. True) wc_process_chunk"
  by (simp add: chunkwise_def wc_process_append) (simp add: wc_process_chunk_def)

context reader
begin

lemma wc_absorber:
  "absorber rd content stalls stuck good take_summary wc_process_chunk finalize_summary wc_text (\<lambda>_. True)"
proof (unfold_locales, goal_cases)
  case (4 x x' out)
  then show ?case by (simp add: wc_text_def wc_process_chunk_def)
qed (use take_summary_law wc_chunkwise in \<open>auto simp: wc_text_def wc_process_append\<close>)

end

text \<open>What the counters mean: newlines, starts of words, bytes, and the longest line.\<close>

definition word_starts :: "string \<Rightarrow> nat" where
  "word_starts s =
     length (filter (\<lambda>(a, b). is_ascii_whitespace a \<and> \<not> is_ascii_whitespace b) (zip (ch_newline # s) s))"

definition longest_line :: "string \<Rightarrow> nat" where
  "longest_line s = fold max (map length (raw_lines s)) 0"

lemma line_lengths:
  assumes "ch_newline \<notin> set u" "ch_newline \<notin> set v" "length u = length v"
  shows "map length (raw_lines (u @ s)) = map length (raw_lines (v @ s))"
proof (cases "ch_newline \<in> set s")
  case True
  then obtain l t where s: "s = l @ ch_newline # t" "ch_newline \<notin> set l" by (meson split_list_first)
  then show ?thesis using assms raw_lines_Cons [of "u @ l" t] raw_lines_Cons [of "v @ l" t] by simp
next
  case False
  have "u @ s = [] \<longleftrightarrow> v @ s = []" using assms(3) by auto
  then show ?thesis using False assms raw_lines_last [of "u @ s"] raw_lines_last [of "v @ s"]
    by (cases "u @ s = []") simp_all
qed

lemma wc_lines_count:
  "wc_lines (fold (\<lambda>b x. wc_byte x b) s x) = wc_lines x + count_list s ch_newline"
  "wc_flags (fold (\<lambda>b x. wc_byte x b) s x) = wc_flags x"
  by (induction s arbitrary: x) (simp_all add: wc_byte_def Let_def)

lemma newline_is_whitespace: "is_ascii_whitespace ch_newline" "\<not> is_ascii_whitespace CHR ''x''"
  by (simp_all add: is_ascii_whitespace_def)

lemma wc_words_count:
  "wc_words (fold (\<lambda>b x. wc_byte x b) s x) =
     wc_words x + length (filter (\<lambda>(a, b). is_ascii_whitespace a \<and> \<not> is_ascii_whitespace b)
       (zip ((if in_word x then CHR ''x'' else ch_newline) # s) s))"
proof (induction s arbitrary: x)
  case (Cons b s)
  have w: "in_word (wc_byte x b) \<longleftrightarrow> \<not> is_ascii_whitespace b" by (simp add: wc_byte_def Let_def)
  have n: "wc_words (wc_byte x b) = wc_words x + (if \<not> is_ascii_whitespace b \<and> \<not> in_word x then 1 else 0)"
    by (simp add: wc_byte_def Let_def)
  have starts: "length (filter (\<lambda>(a, b). is_ascii_whitespace a \<and> \<not> is_ascii_whitespace b) (zip (a # s) s)) =
      length (filter (\<lambda>(a, b). is_ascii_whitespace a \<and> \<not> is_ascii_whitespace b) (zip (b # s) s))"
    if "is_ascii_whitespace a = is_ascii_whitespace b" for a
    using that by (cases s) simp_all
  show ?case using Cons.IH [of "wc_byte x b"] newline_is_whitespace w n starts [of "CHR ''x''"] starts [of ch_newline]
    by (cases "is_ascii_whitespace b"; cases "in_word x") simp_all
qed simp

lemma wc_longest:
  "max (max_line_length (fold (\<lambda>b x. wc_byte x b) s x)) (current_line_length (fold (\<lambda>b x. wc_byte x b) s x)) =
     fold max (map length (raw_lines (replicate (current_line_length x) CHR ''x'' @ s))) (max_line_length x)"
proof (induction s arbitrary: x)
  case Nil
  then show ?case using raw_lines_last [of "replicate (current_line_length x) CHR ''x''"]
    by (cases "current_line_length x = 0") (simp_all add: max.commute)
next
  case (Cons b s)
  let ?u = "replicate (current_line_length x) CHR ''x''"
  show ?case
  proof (cases "b = ch_newline")
    case True
    then show ?thesis using Cons.IH [of "wc_byte x b"] raw_lines_Cons [of ?u s]
      by (simp add: wc_byte_def Let_def max.commute)
  next
    case False
    then show ?thesis
      using Cons.IH [of "wc_byte x b"] line_lengths [of "?u @ [b]" "CHR ''x'' # ?u" s]
      by (simp add: wc_byte_def Let_def)
  qed
qed

lemma wc_ended: "(ended_with_newline x \<longrightarrow> current_line_length x = 0) \<Longrightarrow>
    ended_with_newline (fold (\<lambda>b x. wc_byte x b) s x) \<longrightarrow> current_line_length (fold (\<lambda>b x. wc_byte x b) s x) = 0"
  by (induction s arbitrary: x) (simp_all add: wc_byte_def Let_def)

lemma wc_text_start:
  "wc_text (wc_start flags) s =
     wc_format
       ((if flag_lines flags then [count_list s ch_newline] else []) @
        (if flag_words flags then [word_starts s] else []) @
        (if flag_bytes flags then [length s] else []) @
        (if flag_max_line_length flags then [longest_line s] else []))"
proof (cases "s = []")
  case True
  then show ?thesis
    by (simp add: wc_text_def wc_process_chunk_def finalize_summary_def wc_columns_def wc_start_def
        word_starts_def longest_line_def)
next
  case False
  define y where "y = wc_process_chunk (wc_start flags) s"
  have y: "y = (fold (\<lambda>b x. wc_byte x b) s (wc_start flags))\<lparr>saw_input := True, wc_bytes := length s\<rparr>"
    using False by (simp add: y_def wc_process_chunk_def wc_fold_frame) (simp add: wc_start_def)
  have cols: "wc_lines y = count_list s ch_newline" "wc_words y = word_starts s" "wc_bytes y = length s"
      "wc_flags y = flags" "saw_input y"
    by (simp_all add: y wc_lines_count wc_words_count word_starts_def) (simp_all add: wc_start_def)
  have "max (max_line_length y) (current_line_length y) = longest_line s"
    "ended_with_newline y \<longrightarrow> current_line_length y = 0"
    using wc_longest [of s "wc_start flags"] wc_ended [of "wc_start flags" s]
    by (simp_all add: y longest_line_def) (simp_all add: wc_start_def)
  then show ?thesis unfolding wc_text_def y_def [symmetric]
    by (cases "ended_with_newline y") (auto simp: finalize_summary_def wc_columns_def cols)
qed

end
