(* ===== verification/Stream_Lines.thy ===== *)
theory Stream_Lines
  imports Stream_Core
begin

text \<open>
  The filters by lines \<open>rev\<close>, \<open>cut\<close> (\<^verbatim>\<open>streaming_cut.rs\<close>) and \<open>uniq\<close> (\<^verbatim>\<open>streaming_uniq.rs\<close>), \<open>bat\<close>, and
  \<open>column\<close> and \<open>paste\<close> of \<^verbatim>\<open>wasmsh-runtime/lib.rs\<close>.  Lines that are no valid UTF-8 are decoded with
  replacement characters, as the program does; characters are code points.
\<close>

section \<open>rev\<close>

definition rev_line :: "string \<Rightarrow> string" where
  "rev_line line = encode_str (rev (str_chars line)) @ [ch_newline]"

text \<open>\<open>rev\<close> reads a line and hands out what it can of it, without a loop.\<close>

type_synonym 'r rev_reader = "('r, unit) line_reader"

definition rev_read :: "'r read_fn \<Rightarrow> 'r rev_reader read_fn" where
  "rev_read rd r n =
     (if n = 0 then Some (r, Ok [])
      else
        let (r1, bs) = stage_take r n in
        if bs \<noteq> [] then Some (r1, Ok bs)
        else if finished r1 then Some (r1, Ok [])
        else
          (case streaming_read_next_line rd (inner r1) (input_pending r1) of
             None \<Rightarrow> None
           | Some ((i, p), res) \<Rightarrow>
               let r2 = r1\<lparr>inner := i, input_pending := p\<rparr> in
               (case res of
                  Ok (Some (line, _)) \<Rightarrow>
                    let (r3, bs) = stage_take (r2\<lparr>output_pending := output_pending r2 @ rev_line line\<rparr>) n
                    in Some (r3, Ok bs)
                | Ok None \<Rightarrow> Some (r2\<lparr>finished := True\<rparr>, Ok [])
                | Err e \<Rightarrow> Some (r2, Err e)
                | Panic m \<Rightarrow> Some (r2, Panic m))))"

definition rev_handle :: "unit line_handler" where
  "rev_handle x line = Ok (x, rev_line line, False)"

definition no_output :: "'x \<Rightarrow> 'x \<times> string" where
  "no_output x = (x, [])"

lemma stage_take_idle:
  "stage_take r n = (r', []) \<Longrightarrow> 0 < n \<Longrightarrow>
     r' = r\<lparr>output_pending := [], output_offset := 0\<rparr> \<and> undelivered r = []"
  by (auto simp: stage_take_def take_pending_output_def undelivered_def Let_def split: if_splits)

lemma stage_take_full:
  "output_offset r < length (output_pending r) \<Longrightarrow> 0 < n \<Longrightarrow> snd (stage_take r n) \<noteq> []"
  by (auto simp: stage_take_def take_pending_output_def Let_def)

text \<open>It is the general loop all the same, because a reversed line is never empty.\<close>

lemma rev_read_loop: "rev_read rd = stage_read (line_pump rd rev_handle no_output)"
proof (intro ext)
  fix r :: "'a rev_reader" and n
  obtain r1 bs where t: "stage_take r n = (r1, bs)" by fastforce
  show "rev_read rd r n = stage_read (line_pump rd rev_handle no_output) r n"
  proof (cases "n = 0 \<or> bs \<noteq> [] \<or> finished r1")
    case True
    then show ?thesis using t by (auto simp: rev_read_def stage_read_def stage_loop.simps)
  next
    case False
    then have idle: "output_pending r1 = []" "output_offset r1 = 0" using stage_take_idle [of r n r1] t by auto
    have again: "stage_loop (line_pump rd rev_handle no_output) r2 n = Some (fst (stage_take r2 n), Ok (snd (stage_take r2 n)))"
      if "snd (stage_take r2 n) \<noteq> [] \<or> finished r2" for r2
      using that by (subst stage_loop.simps) (auto simp: stage_take_def split: prod.splits)
    show ?thesis
    proof (cases "streaming_read_next_line rd (inner r1) (input_pending r1)")
      case None
      then show ?thesis using False t
        by (simp add: rev_read_def stage_read_def stage_loop.simps [of _ r] line_pump_def)
    next
      case (Some ipres)
      then obtain i p res where s: "streaming_read_next_line rd (inner r1) (input_pending r1) = Some ((i, p), res)"
        by (metis prod.collapse)
      show ?thesis
      proof (cases res)
        case (Ok l)
        show ?thesis
        proof (cases l)
          case None
          then show ?thesis using False t s Ok idle
            by (simp add: rev_read_def stage_read_def stage_loop.simps [of _ r] line_pump_def no_output_def again)
              (simp add: stage_take_def take_pending_output_def)
        next
          case (Some lh)
          let ?r3 = "r1\<lparr>inner := i, input_pending := p, output_pending := rev_line (fst lh)\<rparr>"
          have "snd (stage_take ?r3 n) \<noteq> []"
            by (rule stage_take_full) (use idle False in \<open>auto simp: rev_line_def\<close>)
          moreover have "line_pump rd rev_handle no_output r1 = Some (?r3, Ok ())"
            using False s Ok Some idle
            by (cases lh; cases r1) (simp add: line_pump_def rev_handle_def)
          ultimately show ?thesis using False t s Ok idle Some again [of ?r3]
            by (cases lh) (simp add: rev_read_def stage_read_def stage_loop.simps [of _ r] split: prod.splits)
        qed
      qed (use False t s in \<open>simp_all add: rev_read_def stage_read_def stage_loop.simps [of _ r] line_pump_def\<close>)
    qed
  qed
qed

lemma rev_text: "run_lines rev_handle no_output x ls = concat (map rev_line ls)"
  by (induction ls) (simp_all add: rev_handle_def no_output_def)

section \<open>cut\<close>

record cut_range =
  cut_start :: "nat option"
  cut_end :: "nat option"

datatype cut_mode =
  CutFields "cut_range list"
| CutChars "cut_range list"
| CutBytes "cut_range list"

record cut_stage =
  cut_mode :: cut_mode
  cut_delim :: scalar
  cut_complement :: bool
  only_delimited :: bool
  output_delim :: string

definition streaming_cut_range_includes :: "cut_range list \<Rightarrow> nat \<Rightarrow> bool" where
  "streaming_cut_range_includes ranges idx \<longleftrightarrow>
     list_ex (\<lambda>r. idx \<ge> (case cut_start r of None \<Rightarrow> 1 | Some s \<Rightarrow> s) \<and>
                  idx \<le> (case cut_end r of None \<Rightarrow> 2 ^ 32 - 1 | Some e \<Rightarrow> e)) ranges"

text \<open>The selection of entries by their positions, counted from one.\<close>

definition cut_keeps :: "cut_stage \<Rightarrow> cut_range list \<Rightarrow> nat \<Rightarrow> bool" where
  "cut_keeps stage ranges idx =
     (let included = streaming_cut_range_includes ranges (idx + 1)
      in if cut_complement stage then \<not> included else included)"

definition cut_select :: "cut_stage \<Rightarrow> cut_range list \<Rightarrow> 'a list \<Rightarrow> 'a list" where
  "cut_select stage ranges xs = map snd (filter (\<lambda>(idx, _). cut_keeps stage ranges idx) (List.enumerate 0 xs))"

text \<open>\<open>str::split\<close> at a character.\<close>

fun split_chars :: "scalar \<Rightarrow> scalar list \<Rightarrow> scalar list list" where
  "split_chars d [] = [[]]"
| "split_chars d (c # cs) =
     (if c = d then [] # split_chars d cs
      else (case split_chars d cs of [] \<Rightarrow> [[c]] | p # ps \<Rightarrow> (c # p) # ps))"

definition cut_chars :: "cut_stage \<Rightarrow> cut_range list \<Rightarrow> string \<Rightarrow> string option" where
  "cut_chars stage ranges line = Some (encode_str (cut_select stage ranges (str_chars line)))"

definition apply_streaming_cut :: "string \<Rightarrow> cut_stage \<Rightarrow> string option" where
  "apply_streaming_cut line stage =
     (case cut_mode stage of
        CutFields ranges \<Rightarrow>
          if only_delimited stage \<and> cut_delim stage \<notin> set (str_chars line) then None
          else
            let parts = map encode_str (split_chars (cut_delim stage) (str_chars line))
            in Some (join_with (output_delim stage) (cut_select stage ranges parts))
      | CutChars ranges \<Rightarrow> cut_chars stage ranges line
      | CutBytes ranges \<Rightarrow> cut_chars stage ranges line)"

definition cut_handle :: "cut_stage line_handler" where
  "cut_handle stage line =
     (case apply_streaming_cut line stage of
        None \<Rightarrow> Ok (stage, [], False)
      | Some out \<Rightarrow> Ok (stage, out @ [ch_newline], False))"

definition cut_new :: "'r \<Rightarrow> cut_stage \<Rightarrow> ('r, cut_stage) line_reader" where
  "cut_new r stage = line_reader_new r stage"

definition cut_read :: "'r read_fn \<Rightarrow> ('r, cut_stage) line_reader read_fn" where
  "cut_read rd = stage_read (line_pump rd cut_handle no_output)"

text \<open>What \<open>cut\<close> makes of a text: each line cut on its own, lines without a result left out.\<close>

definition cut_text :: "cut_stage \<Rightarrow> string \<Rightarrow> string" where
  "cut_text stage s =
     concat (map (\<lambda>out. out @ [ch_newline]) (List.map_filter (\<lambda>l. apply_streaming_cut l stage) (text_lines s)))"

lemma cut_run: "run_lines cut_handle no_output stage (text_lines s) = cut_text stage s"
proof -
  have "run_lines cut_handle no_output stage ls =
      concat (map (\<lambda>out. out @ [ch_newline]) (List.map_filter (\<lambda>l. apply_streaming_cut l stage) ls))" for ls
    by (induction ls) (simp_all add: cut_handle_def no_output_def List.map_filter_simps split: option.splits)
  then show ?thesis by (simp add: cut_text_def)
qed

section \<open>uniq\<close>

record uniq_flags =
  uniq_count :: bool
  duplicates_only :: bool
  unique_only :: bool
  ignore_case :: bool
  skip_fields :: nat
  skip_chars :: nat
  compare_chars :: "nat option"

text \<open>The characters with the property \<open>White_Space\<close>.\<close>

definition is_whitespace :: "scalar \<Rightarrow> bool" where
  "is_whitespace c \<longleftrightarrow>
     (9 \<le> c \<and> c \<le> 13) \<or> (0x2000 \<le> c \<and> c \<le> 0x200A) \<or>
     c \<in> {32, 0x85, 0xA0, 0x1680, 0x2028, 0x2029, 0x202F, 0x205F, 0x3000}"

text \<open>One round of the loop over \<open>skip_fields\<close>; after the last field nothing is left.\<close>

definition skip_field :: "scalar list \<Rightarrow> scalar list" where
  "skip_field cs = dropWhile (\<lambda>c. \<not> is_whitespace c) (dropWhile is_whitespace cs)"

text \<open>The key that lines are compared by; lower case is that of the standard library.\<close>

definition streaming_uniq_compare_key ::
  "(scalar list \<Rightarrow> scalar list) \<Rightarrow> string \<Rightarrow> uniq_flags \<Rightarrow> scalar list" where
  "streaming_uniq_compare_key to_lowercase line flags =
     (let cs1 = (skip_field ^^ skip_fields flags) (str_chars line);
          cs2 = (if skip_chars flags > 0
                 then (if skip_chars flags < length cs1 then drop (skip_chars flags) cs1 else [])
                 else cs1);
          cs3 = (case compare_chars flags of None \<Rightarrow> cs2 | Some limit \<Rightarrow> take limit cs2)
      in if ignore_case flags then to_lowercase cs3 else cs3)"

definition emit_streaming_uniq_line :: "string \<Rightarrow> nat \<Rightarrow> uniq_flags \<Rightarrow> string" where
  "emit_streaming_uniq_line line count flags =
     (if duplicates_only flags \<and> count < 2 then []
      else if unique_only flags \<and> count > 1 then []
      else if uniq_count flags then pad_left 7 (show_nat count) @ '' '' @ line @ [ch_newline]
      else line @ [ch_newline])"

record uniq_state =
  uniq_flags :: uniq_flags
  uniq_prev :: "(string \<times> scalar list) option"
  run_count :: nat

definition uniq_new :: "'r \<Rightarrow> uniq_flags \<Rightarrow> ('r, uniq_state) line_reader" where
  "uniq_new r flags = line_reader_new r \<lparr>uniq_flags = flags, uniq_prev = None, run_count = 0\<rparr>"

definition flush_uniq_prev :: "uniq_state \<Rightarrow> uniq_state \<times> string" where
  "flush_uniq_prev x =
     (case uniq_prev x of
        None \<Rightarrow> (x, [])
      | Some (prev_line, _) \<Rightarrow>
          (x\<lparr>uniq_prev := None\<rparr>, emit_streaming_uniq_line prev_line (run_count x) (uniq_flags x)))"

definition handle_uniq_line :: "(scalar list \<Rightarrow> scalar list) \<Rightarrow> uniq_state line_handler" where
  "handle_uniq_line to_lowercase x line =
     (let key = streaming_uniq_compare_key to_lowercase line (uniq_flags x) in
      if (case uniq_prev x of None \<Rightarrow> False | Some (_, prev_key) \<Rightarrow> prev_key = key)
      then Ok (x\<lparr>run_count := run_count x + 1\<rparr>, [], False)
      else
        let (x', out) = flush_uniq_prev x
        in Ok (x'\<lparr>uniq_prev := Some (line, key), run_count := 1\<rparr>, out, False))"

definition uniq_read :: "(scalar list \<Rightarrow> scalar list) \<Rightarrow> 'r read_fn \<Rightarrow> ('r, uniq_state) line_reader read_fn" where
  "uniq_read to_lowercase rd = stage_read (line_pump rd (handle_uniq_line to_lowercase) flush_uniq_prev)"

text \<open>The runs of adjacent lines with equal keys: the first line of each and its length.\<close>

function line_runs :: "('a \<Rightarrow> 'k) \<Rightarrow> 'a list \<Rightarrow> ('a \<times> nat) list" where
  "line_runs key [] = []"
| "line_runs key (l # ls) =
     (l, Suc (length (takeWhile (\<lambda>m. key m = key l) ls))) # line_runs key (dropWhile (\<lambda>m. key m = key l) ls)"
  by pat_completeness auto
termination
  by (relation "measure (length \<circ> snd)") (auto simp: length_dropWhile_le le_imp_less_Suc)

definition uniq_text :: "(scalar list \<Rightarrow> scalar list) \<Rightarrow> uniq_flags \<Rightarrow> string \<Rightarrow> string" where
  "uniq_text to_lowercase flags s =
     concat (map (\<lambda>(line, count). emit_streaming_uniq_line line count flags)
       (line_runs (\<lambda>l. streaming_uniq_compare_key to_lowercase l flags) (text_lines s)))"

lemma uniq_run_from:
  fixes to_lowercase :: "scalar list \<Rightarrow> scalar list" and flags :: uniq_flags
  defines "key \<equiv> \<lambda>l. streaming_uniq_compare_key to_lowercase l flags"
    and "emit \<equiv> \<lambda>(line, count). emit_streaming_uniq_line line count flags"
  shows "run_lines (handle_uniq_line to_lowercase) flush_uniq_prev
      \<lparr>uniq_flags = flags, uniq_prev = Some (line, key line), run_count = n\<rparr> ls =
    emit (line, n + length (takeWhile (\<lambda>m. key m = key line) ls)) @
    concat (map emit (line_runs key (dropWhile (\<lambda>m. key m = key line) ls)))"
proof (induction ls arbitrary: line n)
  case Nil
  then show ?case by (simp add: flush_uniq_prev_def emit_def)
next
  case (Cons l ls)
  show ?case
  proof (cases "key l = key line")
    case True
    then show ?thesis using Cons.IH [of line "Suc n"] by (simp add: handle_uniq_line_def key_def Let_def)
  next
    case False
    then show ?thesis using Cons.IH [of l 1]
      by (auto simp: handle_uniq_line_def flush_uniq_prev_def key_def emit_def Let_def)
  qed
qed

lemma uniq_run:
  "run_lines (handle_uniq_line to_lowercase) flush_uniq_prev
     \<lparr>uniq_flags = flags, uniq_prev = None, run_count = n\<rparr> (text_lines s) = uniq_text to_lowercase flags s"
proof (cases "text_lines s")
  case Nil
  then show ?thesis by (simp add: flush_uniq_prev_def uniq_text_def)
next
  case (Cons l ls)
  then show ?thesis
    using uniq_run_from [of to_lowercase flags l 1 ls]
    by (simp add: handle_uniq_line_def flush_uniq_prev_def uniq_text_def Let_def)
qed

section \<open>The filters as readers\<close>

context reader
begin

lemma rev_line_stage: "line_stage rd content stalls stuck good rev_handle no_output (\<lambda>_. True)"
  by unfold_locales (auto simp: rev_handle_def intro: exI [of _ False])

lemma cut_line_stage: "line_stage rd content stalls stuck good cut_handle no_output (\<lambda>_. True)"
  by unfold_locales (auto simp: cut_handle_def intro: exI [of _ False] split: option.splits)

lemma uniq_line_stage:
  "line_stage rd content stalls stuck good (handle_uniq_line to_lowercase) flush_uniq_prev (\<lambda>_. True)"
  by unfold_locales (auto simp: handle_uniq_line_def Let_def intro: exI [of _ False] split: prod.splits)

end

end
