(* ===== verification/Stream_Paste.thy ===== *)
theory Stream_Paste
  imports Stream_Lines
begin

text \<open>
  The filters \<open>column\<close>, \<open>paste\<close> and \<open>bat\<close> of the streaming pipelines (\<^verbatim>\<open>wasmsh-runtime/lib.rs\<close>).
\<close>

section \<open>column\<close>

record 'r column_reader = "'r stage_reader" +
  col_ended_with_newline :: bool

definition column_new :: "'r \<Rightarrow> 'r column_reader" where
  "column_new r =
     \<lparr>inner = r, output_pending = [], output_offset = 0, finished = False,
      col_ended_with_newline = True\<rparr>"

text \<open>Copy a chunk; at the end, end the last line.\<close>

definition column_pump ::
  "'r read_fn \<Rightarrow> ('r, 'x) column_reader_scheme \<Rightarrow> (('r, 'x) column_reader_scheme, unit) io" where
  "column_pump rd r =
     (case rd (inner r) 4096 of
        None \<Rightarrow> None
      | Some (i, Ok bs) \<Rightarrow>
          let r' = r\<lparr>inner := i\<rparr> in
          if bs = [] then
            Some (r'\<lparr>output_pending := output_pending r' @
                      (if col_ended_with_newline r' then [] else [ch_newline]),
                    finished := True\<rparr>, Ok ())
          else
            Some (r'\<lparr>col_ended_with_newline := (last bs = ch_newline),
                    output_pending := output_pending r' @ bs\<rparr>, Ok ())
      | Some (i, Err e) \<Rightarrow> Some (r\<lparr>inner := i\<rparr>, Err e)
      | Some (i, Panic m) \<Rightarrow> Some (r\<lparr>inner := i\<rparr>, Panic m))"

definition column_read :: "'r read_fn \<Rightarrow> 'r column_reader read_fn" where
  "column_read rd = stage_read (column_pump rd)"

text \<open>A text whose last line is ended.\<close>

definition end_line :: "bool \<Rightarrow> string \<Rightarrow> string" where
  "end_line ended s =
     s @ (if (if s = [] then ended else last s = ch_newline) then [] else [ch_newline])"

abbreviation column_rest :: "('r \<Rightarrow> string) \<Rightarrow> ('r, 'x) column_reader_scheme \<Rightarrow> string" where
  "column_rest content r \<equiv> end_line (col_ended_with_newline r) (content (inner r))"

context reader
begin

lemma column_pump_law:
  fixes r :: "('r, 'x) column_reader_scheme"
  assumes "good (inner r)" "\<not> finished r" "output_pending r = []" "output_offset r = 0"
  obtains (got) r' where "column_pump rd r = Some (r', Ok ())" "good (inner r')"
      "stalls (inner r') \<le> stalls (inner r)" "stage_content (column_rest content) r' = column_rest content r"
      "finished r' \<or> length (content (inner r')) < length (content (inner r))"
      "column_reader.more r' = column_reader.more r"
  | (stall) i e where "column_pump rd r = Some (r\<lparr>inner := i\<rparr>, Err e)" "good i" "would_block e" "stuck i"
      "content i = content (inner r)" "eSuc (stalls i) \<le> stalls (inner r)"
  using assms(1)
proof (cases rule: read_cases [where n = 4096])
  case (got i bs)
  then show ?thesis using assms(2-4) that(1)
    by (cases "bs = []") (auto simp: column_pump_def stage_content_def undelivered_def end_line_def)
next
  case (stall i e)
  then show ?thesis using that(2) by (simp add: column_pump_def)
qed

lemma column_pumped:
  "pumped (column_pump rd :: 'r column_reader \<Rightarrow> _) (column_rest content) (\<lambda>r. stalls (inner r)) (\<lambda>r. stuck (inner r)) (\<lambda>r. good (inner r))
     (\<lambda>r. length (content (inner r)))"
proof (unfold_locales, goal_cases)
  case (5 r)
  then show ?case
  proof (cases rule: column_pump_law)
    case (got r')
    then show ?thesis by simp
  next
    case (stall i e)
    then show ?thesis using 5 by (simp add: stage_content_def undelivered_def)
  qed
qed simp_all

end

section \<open>paste\<close>

record 'r paste_reader = "'r column_reader" +
  paste_delimiter :: string
  paste_serial :: bool
  paste_pending :: string
  serial_first :: bool

definition paste_new :: "'r \<Rightarrow> string \<Rightarrow> bool \<Rightarrow> 'r paste_reader" where
  "paste_new r delimiter serial =
     \<lparr>inner = r, output_pending = [], output_offset = 0, finished = False,
      col_ended_with_newline = True, paste_delimiter = delimiter, paste_serial = serial,
      paste_pending = [], serial_first = True\<rparr>"

partial_function (option) finalize_serial ::
  "'r read_fn \<Rightarrow> 'r paste_reader \<Rightarrow> ('r paste_reader, unit) io" where
  "finalize_serial rd r =
     (case streaming_read_next_line rd (inner r) (paste_pending r) of
        None \<Rightarrow> None
      | Some ((i, p), res) \<Rightarrow>
          let r' = r\<lparr>inner := i, paste_pending := p\<rparr> in
          (case res of
             Ok (Some (line, _)) \<Rightarrow>
               finalize_serial rd
                 (r'\<lparr>output_pending := output_pending r' @
                      (if serial_first r' then [] else paste_delimiter r') @ line,
                    serial_first := False\<rparr>)
           | Ok None \<Rightarrow> Some (r'\<lparr>output_pending := output_pending r' @ [ch_newline]\<rparr>, Ok ())
           | Err e \<Rightarrow> Some (r', Err e)
           | Panic m \<Rightarrow> Some (r', Panic m)))"

definition paste_pump :: "'r read_fn \<Rightarrow> 'r paste_reader \<Rightarrow> ('r paste_reader, unit) io" where
  "paste_pump rd r =
     (if paste_serial r then
        (case finalize_serial rd r of
           None \<Rightarrow> None
         | Some (r', Ok _) \<Rightarrow> Some (r'\<lparr>finished := True\<rparr>, Ok ())
         | Some (r', Err e) \<Rightarrow> Some (r', Err e)
         | Some (r', Panic m) \<Rightarrow> Some (r', Panic m))
      else column_pump rd r)"

definition paste_read :: "'r read_fn \<Rightarrow> 'r paste_reader read_fn" where
  "paste_read rd = stage_read (paste_pump rd)"

text \<open>All lines in one, with the delimiter between them.\<close>

fun serial_text :: "string \<Rightarrow> bool \<Rightarrow> string list \<Rightarrow> string" where
  "serial_text delim first [] = [ch_newline]"
| "serial_text delim first (l # ls) = (if first then [] else delim) @ l @ serial_text delim False ls"

lemma serial_text_join: "serial_text delim True ls = join_with delim ls @ [ch_newline]"
proof -
  have "serial_text delim False ls = concat (map (\<lambda>l. delim @ l) ls) @ [ch_newline]" for ls
    by (induction ls) simp_all
  moreover have "join_with delim (l # ls) = l @ concat (map (\<lambda>l. delim @ l) ls)" for l ls
    by (induction ls arbitrary: l) simp_all
  ultimately show ?thesis by (cases ls) simp_all
qed

definition paste_rest :: "('r \<Rightarrow> string) \<Rightarrow> 'r paste_reader \<Rightarrow> string" where
  "paste_rest content r =
     (if paste_serial r
      then serial_text (paste_delimiter r) (serial_first r) (text_lines (paste_pending r @ content (inner r)))
      else column_rest content r)"

context reader
begin

lemma finalize_serial_law:
  "good (inner r) \<Longrightarrow> paste_serial r \<Longrightarrow> \<not> finished r \<Longrightarrow> output_offset r = 0 \<Longrightarrow>
   \<exists>r' res. finalize_serial rd r = Some (r', res) \<and> good (inner r') \<and> output_offset r' = 0 \<and>
     (case res of
        Ok _ \<Rightarrow> output_pending r' = output_pending r @ paste_rest content r \<and> stalls (inner r') \<le> stalls (inner r)
      | Err e \<Rightarrow> would_block e \<and> stuck (inner r') \<and> stage_content (paste_rest content) r' = output_pending r @ paste_rest content r \<and>
          eSuc (stalls (inner r')) \<le> stalls (inner r)
      | Panic _ \<Rightarrow> False)"
proof (induction "length (paste_pending r @ content (inner r))" arbitrary: r rule: less_induct)
  case less
  note here = finalize_serial.simps [of rd r]
  from less.prems(1) show ?case
  proof (cases rule: next_line [where p = "paste_pending r"])
    case (found i p l)
    show ?thesis
    proof (cases l)
      case None
      then show ?thesis using found less.prems
        by (simp add: here line_law_def paste_rest_def text_lines_def)
    next
      case (Some lh)
      then obtain line had where l: "l = Some (line, had)" by (cases lh) auto
      define r1 where "r1 = r\<lparr>inner := i, paste_pending := p,
        output_pending := output_pending r @ (if serial_first r then [] else paste_delimiter r) @ line,
        serial_first := False\<rparr>"
      have r1: "good (inner r1)" "paste_serial r1" "\<not> finished r1" "output_offset r1 = 0"
          "length (paste_pending r1 @ content (inner r1)) < length (paste_pending r @ content (inner r))"
        using found less.prems by (simp_all add: r1_def line_law_def l)
      have rest: "output_pending r1 @ paste_rest content r1 = output_pending r @ paste_rest content r"
        using found(3) less.prems by (simp add: r1_def paste_rest_def line_law_def l)
      obtain r' res where h: "finalize_serial rd r1 = Some (r', res)" "good (inner r')" "output_offset r' = 0"
          "case res of
            Ok _ \<Rightarrow> output_pending r' = output_pending r1 @ paste_rest content r1 \<and> stalls (inner r') \<le> stalls (inner r1)
          | Err e \<Rightarrow> would_block e \<and> stuck (inner r') \<and> stage_content (paste_rest content) r' = output_pending r1 @ paste_rest content r1 \<and>
              eSuc (stalls (inner r')) \<le> stalls (inner r1)
          | Panic _ \<Rightarrow> False"
        using less.hyps [OF r1(5,1-4)] by blast
      moreover have "finalize_serial rd r = finalize_serial rd r1"
        using found(1) by (simp add: here l r1_def Let_def)
      moreover have "stalls (inner r1) \<le> stalls (inner r)" using found(4) by (simp add: r1_def)
      ultimately show ?thesis using rest by (cases res) (auto intro: order_trans)
    qed
  next
    case (stall i p e)
    then show ?thesis using less.prems
      by (simp add: here paste_rest_def stage_content_def undelivered_def)
  qed
qed

lemma paste_pumped:
  "pumped (paste_pump rd) (paste_rest content) (\<lambda>r. stalls (inner r)) (\<lambda>r. stuck (inner r)) (\<lambda>r. good (inner r))
     (\<lambda>r. length (content (inner r)))"
proof (unfold_locales, goal_cases)
  case (5 r)
  show ?case
  proof (cases "paste_serial r")
    case True
    then obtain r' res where h: "finalize_serial rd r = Some (r', res)" "good (inner r')" "output_offset r' = 0"
        "case res of
          Ok _ \<Rightarrow> output_pending r' = output_pending r @ paste_rest content r \<and> stalls (inner r') \<le> stalls (inner r)
        | Err e \<Rightarrow> would_block e \<and> stuck (inner r') \<and> stage_content (paste_rest content) r' = output_pending r @ paste_rest content r \<and>
            eSuc (stalls (inner r')) \<le> stalls (inner r)
        | Panic _ \<Rightarrow> False"
      using finalize_serial_law [of r] 5 by blast
    then show ?thesis using True 5
      by (cases res) (simp_all add: paste_pump_def stage_content_def undelivered_def)
  next
    case False
    from 5 show ?thesis
    proof (cases rule: column_pump_law)
      case (got r')
      then have "paste_serial r' = paste_serial r"
        by (cases r; cases r') simp
      then show ?thesis using got False
        by (auto simp: paste_pump_def paste_rest_def stage_content_def)
    next
      case (stall i e)
      then show ?thesis using 5 False
        by (simp add: paste_pump_def paste_rest_def stage_content_def undelivered_def)
    qed
  qed
qed (simp_all add: paste_rest_def)

end

section \<open>bat\<close>

record bat_stage =
  show_numbers :: bool
  show_header :: bool
  line_range :: "(nat option \<times> nat option) option"
  show_all :: bool

record bat_state =
  bat_stage :: bat_stage
  header_emitted :: bool
  footer_emitted :: bool
  line_num :: nat

definition bat_new :: "'r \<Rightarrow> bat_stage \<Rightarrow> ('r, bat_state) line_reader" where
  "bat_new r stage =
     line_reader_new r
       \<lparr>bat_stage = stage, header_emitted = False, footer_emitted = False, line_num = 0\<rparr>"

definition streaming_bat_in_range :: "nat \<Rightarrow> (nat option \<times> nat option) option \<Rightarrow> bool" where
  "streaming_bat_in_range n rng =
     (case rng of
        None \<Rightarrow> True
      | Some (start, stop) \<Rightarrow>
          if (case start of None \<Rightarrow> False | Some s \<Rightarrow> n < s) then False
          else (case stop of None \<Rightarrow> True | Some e \<Rightarrow> n \<le> e))"

text \<open>Two hexadecimal digits in lower case, as \<open>{:02x}\<close> prints a control character.\<close>

definition lower_hex :: "nat \<Rightarrow> char" where
  "lower_hex d = (if d < 10 then char_of (48 + d) else char_of (87 + d))"

text \<open>The characters of the general category \<open>Cc\<close>.\<close>

definition is_control :: "scalar \<Rightarrow> bool" where
  "is_control c \<longleftrightarrow> c < 32 \<or> (127 \<le> c \<and> c < 160)"

definition visible_char :: "scalar \<Rightarrow> string" where
  "visible_char c =
     (if c = 9 then [ch_backslash, CHR ''t'']
      else if c = 13 then [ch_backslash, CHR ''r'']
      else if is_control c then [ch_backslash, CHR ''x'', lower_hex (c div 16), lower_hex (c mod 16)]
      else encode_utf8 c)"

definition streaming_make_visible :: "string \<Rightarrow> string" where
  "streaming_make_visible s = concat (map visible_char (str_chars s))"

definition bat_rule :: "scalar \<Rightarrow> string" where
  "bat_rule corner =
     encode_str (replicate 7 0x2500 @ [corner] @ replicate 20 0x2500) @ [ch_newline]"

definition emit_header :: "bat_state \<Rightarrow> bat_state \<times> string" where
  "emit_header x =
     (if \<not> show_header (bat_stage x) \<or> header_emitted x then (x, [])
      else (x\<lparr>header_emitted := True\<rparr>, bat_rule 0x252C @ bat_rule 0x253C))"

definition emit_footer :: "bat_state \<Rightarrow> bat_state \<times> string" where
  "emit_footer x =
     (if \<not> show_header (bat_stage x) \<or> footer_emitted x then (x, [])
      else (x\<lparr>footer_emitted := True\<rparr>, bat_rule 0x2534))"

definition emit_bat_line :: "bat_state \<Rightarrow> string \<Rightarrow> string" where
  "emit_bat_line x line =
     (let display_line = (if show_all (bat_stage x) then streaming_make_visible line else line)
      in if show_numbers (bat_stage x)
         then pad_left 5 (show_nat (line_num x)) @ ''   '' @ encode_utf8 0x2502 @ '' '' @ display_line @ [ch_newline]
         else display_line @ [ch_newline])"

definition bat_handle :: "bat_state line_handler" where
  "bat_handle x line =
     (let x' = x\<lparr>line_num := line_num x + 1\<rparr>
      in Ok (x', if streaming_bat_in_range (line_num x') (line_range (bat_stage x'))
                 then emit_bat_line x' line else [], False))"

text \<open>
  A round of \<open>bat\<close> emits its header first; when there is one, the loop hands it out before it reads
  a line.
\<close>

definition bat_pump ::
  "'r read_fn \<Rightarrow> ('r, bat_state) line_reader \<Rightarrow> (('r, bat_state) line_reader, unit) io" where
  "bat_pump rd r =
     (let (x, out) = emit_header (stage_state r);
          r' = r\<lparr>stage_state := x, output_pending := output_pending r @ out\<rparr>
      in if out \<noteq> [] then Some (r', Ok ())
         else line_pump rd bat_handle emit_footer r')"

definition bat_read :: "'r read_fn \<Rightarrow> ('r, bat_state) line_reader read_fn" where
  "bat_read rd = stage_read (bat_pump rd)"

definition bat_rest :: "('r \<Rightarrow> string) \<Rightarrow> ('r, bat_state) line_reader \<Rightarrow> string" where
  "bat_rest content r =
     snd (emit_header (stage_state r)) @
     line_rest content bat_handle emit_footer (r\<lparr>stage_state := fst (emit_header (stage_state r))\<rparr>)"

text \<open>Between its rules, \<open>bat\<close> shows the lines of the range, each on its own with its number.\<close>

definition bat_text :: "bat_stage \<Rightarrow> string \<Rightarrow> string" where
  "bat_text stage s =
     (if show_header stage then bat_rule 0x252C @ bat_rule 0x253C else []) @
     concat (map (\<lambda>(n, line). emit_bat_line
         \<lparr>bat_stage = stage, header_emitted = True, footer_emitted = False, line_num = n\<rparr> line)
       (filter (\<lambda>(n, _). streaming_bat_in_range n (line_range stage)) (List.enumerate 1 (text_lines s)))) @
     (if show_header stage then bat_rule 0x2534 else [])"

lemma emit_bat_line_cong:
  "bat_stage x = bat_stage y \<Longrightarrow> line_num x = line_num y \<Longrightarrow> emit_bat_line x = emit_bat_line y"
  by (simp add: emit_bat_line_def fun_eq_iff)

lemma bat_run:
  assumes "\<not> footer_emitted x"
  shows "run_lines bat_handle emit_footer x ls =
    concat (map (\<lambda>(n, line). emit_bat_line
        \<lparr>bat_stage = bat_stage x, header_emitted = True, footer_emitted = False, line_num = n\<rparr> line)
      (filter (\<lambda>(n, _). streaming_bat_in_range n (line_range (bat_stage x))) (List.enumerate (Suc (line_num x)) ls))) @
    (if show_header (bat_stage x) then bat_rule 0x2534 else [])"
  using assms
proof (induction ls arbitrary: x)
  case Nil
  then show ?case by (simp add: emit_footer_def)
next
  case (Cons l ls)
  then show ?case
    by (simp add: bat_handle_def Let_def)
      (simp add: emit_bat_line_def)
qed

text \<open>The state after the header.\<close>

definition header_done :: "bat_state \<Rightarrow> bool" where
  "header_done x \<longleftrightarrow> \<not> show_header (bat_stage x) \<or> header_emitted x"

lemma emit_header_done:
  "header_done x \<Longrightarrow> emit_header x = (x, [])" "header_done (fst (emit_header x))"
  "snd (emit_header x) = [] \<longleftrightarrow> header_done x"
  by (auto simp: header_done_def emit_header_def bat_rule_def)

context reader
begin

lemma bat_line_stage: "line_stage rd content stalls stuck good bat_handle emit_footer header_done"
  by unfold_locales (auto simp: bat_handle_def emit_footer_def header_done_def Let_def)

lemma bat_pumped:
  "pumped (bat_pump rd) (bat_rest content) (\<lambda>r. stalls (inner r)) (\<lambda>r. stuck (inner r)) (\<lambda>r. good (inner r))
     (\<lambda>r. line_todo content r + (if header_done (stage_state r) then 0 else 1))"
proof (unfold_locales, goal_cases)
  case (5 r)
  show ?case
  proof (cases "header_done (stage_state r)")
    case False
    then have "snd (emit_header (stage_state r)) \<noteq> []" using emit_header_done(3) by blast
    then show ?thesis using 5 emit_header_done [of "stage_state r"] emit_header_done(1) [OF emit_header_done(2), of "stage_state r"]
      by (cases "emit_header (stage_state r)")
        (auto simp: bat_pump_def bat_rest_def stage_content_def undelivered_def line_rest_def line_todo_def False)
  next
    case True
    then have p: "bat_pump rd r = line_pump rd bat_handle emit_footer r"
      by (simp add: bat_pump_def emit_header_done(1))
    have rest: "bat_rest content r' = line_rest content bat_handle emit_footer r'"
      if "header_done (stage_state r')" for r'
      using that by (simp add: bat_rest_def emit_header_done(1))
    then have sc: "stage_content (bat_rest content) r' = stage_content (line_rest content bat_handle emit_footer) r'"
      if "header_done (stage_state r')" for r'
      using that by (simp add: stage_content_def)
    show ?thesis
      using line_stage.line_pump_law [OF bat_line_stage, of r] 5 True
      unfolding p by (fastforce simp: rest sc split: result.splits)
  qed
qed (simp_all add: bat_rest_def line_rest_def line_todo_def)

lemma bat_new_content: "stage_content (bat_rest content) (bat_new r stage) = bat_text stage (content r)"
  by (simp add: stage_content_def undelivered_def bat_new_def line_reader_new_def bat_rest_def line_rest_def
      emit_header_def bat_text_def bat_run)

end

end
