(* ===== verification/Stream_Tr.thy ===== *)
theory Stream_Tr
  imports Stream_Core
begin

text \<open>
  The filter \<open>tr\<close> of the streaming pipelines (\<^verbatim>\<open>wasmsh-runtime/streaming_tr.rs\<close>): the sets of its
  arguments, the decoding of a byte stream whose chunks may cut characters in two, and the
  translation, deletion and squeezing of characters.
\<close>

section \<open>Sets of characters\<close>

text \<open>ASCII text as code points.\<close>

definition ascii :: "string \<Rightarrow> scalar list" where
  "ascii s = map of_char s"

text \<open>\<open>lo..=hi\<close> over characters leaves out the surrogates.\<close>

definition char_range :: "scalar \<Rightarrow> scalar \<Rightarrow> scalar list" where
  "char_range lo hi = filter is_scalar [lo..<Suc hi]"

definition streaming_tr_expand_posix_class :: "scalar list \<Rightarrow> scalar list" where
  "streaming_tr_expand_posix_class name =
     (let upper = char_range 65 90; lower = char_range 97 122; digit = char_range 48 57 in
      if name = ascii ''upper'' then upper
      else if name = ascii ''lower'' then lower
      else if name = ascii ''digit'' then digit
      else if name = ascii ''alpha'' then upper @ lower
      else if name = ascii ''alnum'' then digit @ upper @ lower
      else if name = ascii ''space'' then [32, 9, 10, 13, 11, 12]
      else if name = ascii ''blank'' then [32, 9]
      else if name = ascii ''punct'' then [33..<48] @ [58..<65] @ [91..<97] @ [123..<127]
      else [])"

text \<open>A range after its first character: what it adds, and what is left to read.\<close>

definition streaming_tr_expand_range :: "scalar \<Rightarrow> scalar list \<Rightarrow> scalar list \<times> scalar list" where
  "streaming_tr_expand_range ch rest =
     (case tl rest of
        end_ch # after \<Rightarrow> if end_ch > ch then (char_range ch end_ch, after) else ([ch, 45], tl rest)
      | [] \<Rightarrow> ([ch, 45], []))"

definition streaming_tr_unescape :: "scalar list \<Rightarrow> scalar \<times> scalar list" where
  "streaming_tr_unescape rest =
     (case rest of
        [] \<Rightarrow> (92, [])
      | c # after \<Rightarrow>
          (if c = 110 then 10 else if c = 116 then 9 else if c = 114 then 13 else c, after))"

text \<open>What stands at the head of a set: the characters it names, and the rest.\<close>

definition tr_set_item :: "scalar \<Rightarrow> scalar list \<Rightarrow> scalar list \<times> scalar list" where
  "tr_set_item ch rest =
     (if ch = 91 \<and> rest \<noteq> [] \<and> hd rest = 58 then
        let name = takeWhile (\<lambda>c. c \<noteq> 58) (tl rest)
        in (streaming_tr_expand_posix_class name, drop (length name + 2) (tl rest))
      else if rest \<noteq> [] \<and> hd rest = 45 then streaming_tr_expand_range ch rest
      else if ch = 92 then (let (c, after) = streaming_tr_unescape rest in ([c], after))
      else ([ch], rest))"

lemma tr_set_item_shorter: "tr_set_item ch rest = (cs, after) \<Longrightarrow> length after \<le> length rest"
  by (cases rest) (auto simp: tr_set_item_def streaming_tr_expand_range_def streaming_tr_unescape_def Let_def
      split: if_splits list.splits prod.splits)

function streaming_tr_expand_set :: "scalar list \<Rightarrow> scalar list" where
  "streaming_tr_expand_set [] = []"
| "streaming_tr_expand_set (ch # rest) =
     fst (tr_set_item ch rest) @ streaming_tr_expand_set (snd (tr_set_item ch rest))"
  by pat_completeness auto
termination
proof (relation "measure length")
  fix ch rest
  show "(snd (tr_set_item ch rest), ch # rest) \<in> measure length"
    using tr_set_item_shorter [of ch rest "fst (tr_set_item ch rest)" "snd (tr_set_item ch rest)"] by simp
qed simp

section \<open>Decoding chunks\<close>

text \<open>\<open>Utf8Error::valid_up_to\<close>, the length of the longest valid prefix.\<close>

function valid_up_to :: "string \<Rightarrow> nat" where
  "valid_up_to s =
     (case utf8_at s of
        Decoded c k \<Rightarrow> k + valid_up_to (drop k s)
      | _ \<Rightarrow> 0)"
  by pat_completeness auto
termination
proof (relation "measure length")
  fix s c k assume "utf8_at s = Decoded c k"
  then show "(drop k s, s) \<in> measure length"
    using step_width_pos [of s] by (cases s) (auto simp: step_width_def)
qed simp

declare valid_up_to.simps [simp del]

text \<open>One round: the characters it finds, what stays pending, and whether to go on.\<close>

definition streaming_tr_consume_invalid_prefix :: "string \<Rightarrow> nat \<Rightarrow> scalar list \<times> string \<times> bool" where
  "streaming_tr_consume_invalid_prefix pending valid =
     (if valid > 0 then (str_chars (from_utf8_lossy (take valid pending)), drop valid pending, True)
      else
        (case utf8_at pending of
           Broken _ \<Rightarrow> (str_chars (from_utf8_lossy (take 1 pending)), drop 1 pending, True)
         | _ \<Rightarrow> ([], pending, False)))"

definition streaming_tr_drain_once :: "string \<Rightarrow> scalar list \<times> string \<times> bool" where
  "streaming_tr_drain_once pending =
     (if valid_up_to pending = length pending then (str_chars pending, [], False)
      else streaming_tr_consume_invalid_prefix pending (valid_up_to pending))"

lemma valid_up_to_Nil [simp]: "valid_up_to [] = 0"
  by (simp add: valid_up_to.simps)

lemma drain_once_shorter:
  "streaming_tr_drain_once s = (cs, s', True) \<Longrightarrow> length s' < length s"
  by (cases s) (auto simp: streaming_tr_drain_once_def streaming_tr_consume_invalid_prefix_def
      split: if_splits utf8_step.splits)

function streaming_tr_drain :: "string \<Rightarrow> scalar list \<times> string" where
  "streaming_tr_drain pending =
     (case streaming_tr_drain_once pending of
        (cs, pending', again) \<Rightarrow>
          if again then (let (ds, pending'') = streaming_tr_drain pending' in (cs @ ds, pending''))
          else (cs, pending'))"
  by pat_completeness auto
termination
proof (relation "measure length")
  fix s cs s' y again
  assume "(cs, y) = streaming_tr_drain_once s" "(s', again) = y" "again"
  then show "(s', s) \<in> measure length" using drain_once_shorter [of s cs s'] by auto
qed simp

declare streaming_tr_drain.simps [simp del]

definition streaming_tr_process_utf8_chunk :: "string \<Rightarrow> string \<Rightarrow> scalar list \<times> string" where
  "streaming_tr_process_utf8_chunk pending chunk = streaming_tr_drain (pending @ chunk)"

definition streaming_tr_flush_pending_lossy :: "string \<Rightarrow> scalar list" where
  "streaming_tr_flush_pending_lossy pending =
     (if pending = [] then [] else str_chars (from_utf8_lossy pending))"

text \<open>The characters of a stream that is cut into chunks anywhere.\<close>

function stream_decode :: "string \<Rightarrow> scalar list" where
  "stream_decode s =
     (if s = [] then []
      else
        (case utf8_at s of
           Decoded c k \<Rightarrow> c # stream_decode (drop k s)
         | Broken k \<Rightarrow> replacement_char # stream_decode (drop 1 s)
         | Cut_Short \<Rightarrow> [replacement_char]))"
  by pat_completeness auto
termination
proof (relation "measure length")
  fix s c k assume "s \<noteq> []" "utf8_at s = Decoded c k"
  then show "(drop k s, s) \<in> measure length"
    using step_width_pos [of s] by (simp add: step_width_def)
qed auto

declare stream_decode.simps [simp del]

lemma stream_decode_step:
  "utf8_at s = Decoded c k \<Longrightarrow> stream_decode s = c # stream_decode (drop k s)"
  by (cases "s = []") (simp_all add: stream_decode.simps [of s])

lemma decode_step: "utf8_at s = Decoded c k \<Longrightarrow> decode_lossy s = c # decode_lossy (drop k s)"
  by (cases "s = []") (simp_all add: decode_lossy.simps [of s] step_char_def step_width_def)

lemma valid_up_to_le: "valid_up_to s \<le> length s"
proof (induction s rule: valid_up_to.induct)
  case (1 s)
  then show ?case using step_width_le [of s]
    by (subst valid_up_to.simps) (fastforce simp: step_width_def split: utf8_step.splits)
qed

text \<open>The valid prefix decodes to its characters, whatever follows it.\<close>

lemma decode_valid_prefix:
  "stream_decode (s @ t) = str_chars (take (valid_up_to s) s) @ stream_decode (drop (valid_up_to s) s @ t)"
proof (induction s rule: valid_up_to.induct)
  case (1 s)
  show ?case
  proof (cases "utf8_at s")
    case (Decoded c k)
    define v where "v = valid_up_to (drop k s)"
    have k: "k \<le> length s" using step_width_le [of s] Decoded by (simp add: step_width_def)
    have v: "valid_up_to s = k + v" by (simp add: valid_up_to.simps [of s] Decoded v_def)
    have t: "take (k + v) s = take k s @ take v (drop k s)" by (simp add: take_add)
    have "utf8_at (take k s) = Decoded c k"
      using step_scalar [OF Decoded] step_of_encode [of c "[]"] k by simp
    then have "str_chars (take (k + v) s) = c # str_chars (take v (drop k s))"
      using decode_step [OF utf8_at_append(1), of "take k s" c k "take v (drop k s)"] k
      by (simp add: str_chars_def t)
    moreover have "stream_decode (s @ t) = c # stream_decode (drop k s @ t)" for t
      using stream_decode_step [OF utf8_at_append(1) [OF Decoded], of t] k by simp
    ultimately show ?thesis using 1 [OF Decoded] by (simp add: v v_def drop_drop add.commute)
  qed (simp_all add: valid_up_to.simps [of s] str_chars_def)
qed

lemma decode_broken_byte:
  assumes "utf8_at s = Broken k"
  shows "decode_lossy (take 1 s) = [replacement_char]" "stream_decode (s @ t) = replacement_char # stream_decode (drop 1 s @ t)"
proof -
  obtain a u where s: "s = a # u" using assms by (cases s) auto
  then have "\<not> is_ascii a" using assms by (auto split: if_splits)
  then have "step_char (utf8_at [a]) = replacement_char" "step_width (utf8_at [a]) [a] = 1"
    by (auto simp: step_char_def step_width_def)
  then show "decode_lossy (take 1 s) = [replacement_char]" by (simp add: s decode_lossy.simps [of "[a]"])
  show "stream_decode (s @ t) = replacement_char # stream_decode (drop 1 s @ t)"
    using utf8_at_append(2) [OF assms, of t] by (simp add: s stream_decode.simps [of "a # u @ t"])
qed

text \<open>Draining leaves at most the beginning of one character, and never sees where chunks end.\<close>

definition incomplete :: "string \<Rightarrow> bool" where
  "incomplete s \<longleftrightarrow> s = [] \<or> utf8_at s = Cut_Short"

lemma drain_law:
  "streaming_tr_drain s = (cs, s') \<Longrightarrow> stream_decode (s @ t) = cs @ stream_decode (s' @ t) \<and> incomplete s'"
proof (induction s arbitrary: cs s' rule: streaming_tr_drain.induct)
  case (1 s)
  note here = "1.prems" [unfolded streaming_tr_drain.simps [of s]]
  let ?v = "valid_up_to s"
  consider (all) "?v = length s" | (some) "?v \<noteq> length s" "0 < ?v"
    | (broken) k where "?v \<noteq> length s" "?v = 0" "utf8_at s = Broken k"
    | (short) "?v \<noteq> length s" "?v = 0" "utf8_at s = Cut_Short"
    | (one) c k where "?v = 0" "utf8_at s = Decoded c k"
    by (cases "utf8_at s") (metis gr0I)+
  then show ?case
  proof cases
    case all
    then show ?thesis using here decode_valid_prefix [of s t]
      by (auto simp: streaming_tr_drain_once_def incomplete_def)
  next
    case some
    then have once: "streaming_tr_drain_once s = (str_chars (take ?v s), drop ?v s, True)"
      by (simp add: streaming_tr_drain_once_def streaming_tr_consume_invalid_prefix_def)
        (simp add: str_chars_def)
    obtain ds r where "streaming_tr_drain (drop ?v s) = (ds, r)" by fastforce
    then show ?thesis using here once "1.IH" [OF once [symmetric] refl TrueI] decode_valid_prefix [of s t] by auto
  next
    case (broken k)
    then have once: "streaming_tr_drain_once s = ([replacement_char], drop 1 s, True)"
      using decode_broken_byte(1) [OF broken(3)]
      by (simp add: streaming_tr_drain_once_def streaming_tr_consume_invalid_prefix_def)
    obtain ds r where "streaming_tr_drain (drop 1 s) = (ds, r)" by fastforce
    then show ?thesis using here once "1.IH" [OF once [symmetric] refl TrueI] decode_broken_byte(2) [OF broken(3), of t]
      by auto
  next
    case short
    then show ?thesis using here
      by (auto simp: streaming_tr_drain_once_def streaming_tr_consume_invalid_prefix_def incomplete_def)
  next
    case (one c k)
    then have "0 < k" using step_width_pos [of s] by (cases "s = []") (auto simp: step_width_def)
    then show ?thesis using one by (simp add: valid_up_to.simps [of s])
  qed
qed

lemma flush_law: "incomplete s \<Longrightarrow> streaming_tr_flush_pending_lossy s = stream_decode s"
  by (auto simp: incomplete_def streaming_tr_flush_pending_lossy_def stream_decode.simps [of s]
      decode_lossy.simps [of s] step_char_def step_width_def)

lemma stream_decode_valid: "valid_utf8 s \<Longrightarrow> stream_decode s = str_chars s"
proof (induction s rule: stream_decode.induct)
  case (1 s)
  show ?case
  proof (cases "s = []")
    case False
    then obtain c k where c: "utf8_at s = Decoded c k" "valid_utf8 (drop k s)"
      using valid_step "1.prems" by blast
    then show ?thesis using "1.IH"(1) [OF False c(1)] stream_decode_step [OF c(1)] decode_step [OF c(1)]
      by (simp add: str_chars_def)
  qed (simp add: stream_decode.simps str_chars_def)
qed

section \<open>Characters\<close>

record tr_stage =
  tr_delete :: bool
  tr_squeeze :: bool
  tr_complement :: bool
  from_chars :: "scalar list"
  to_chars :: "scalar list"

definition is_in_from_set :: "tr_stage \<Rightarrow> scalar \<Rightarrow> bool" where
  "is_in_from_set stage ch =
     (let in_set = ch \<in> set (from_chars stage) in if tr_complement stage then \<not> in_set else in_set)"

text \<open>Each case emits a character or nothing; what is emitted becomes the previous character.\<close>

definition process_char_delete :: "tr_stage \<Rightarrow> scalar option \<Rightarrow> scalar \<Rightarrow> scalar option" where
  "process_char_delete stage prev ch =
     (if is_in_from_set stage ch then None
      else if tr_squeeze stage \<and> ch \<in> set (to_chars stage) \<and> prev = Some ch then None
      else Some ch)"

definition tr_from_set :: "tr_stage \<Rightarrow> scalar list" where
  "tr_from_set stage =
     (if tr_complement stage then filter (\<lambda>c. c \<notin> set (from_chars stage)) [0..<128] else from_chars stage)"

definition position :: "'a \<Rightarrow> 'a list \<Rightarrow> nat option" where
  "position x xs = (let i = length (takeWhile (\<lambda>y. y \<noteq> x) xs) in if i < length xs then Some i else None)"

definition tr_translate :: "tr_stage \<Rightarrow> scalar \<Rightarrow> scalar" where
  "tr_translate stage ch =
     (case position ch (tr_from_set stage) of
        None \<Rightarrow> ch
      | Some pos \<Rightarrow>
          if pos < length (to_chars stage) then to_chars stage ! pos
          else if to_chars stage \<noteq> [] then last (to_chars stage) else ch)"

definition process_char_translate :: "tr_stage \<Rightarrow> scalar option \<Rightarrow> scalar \<Rightarrow> scalar option" where
  "process_char_translate stage prev ch =
     (let translated = tr_translate stage ch in
      if tr_squeeze stage \<and> translated \<in> set (to_chars stage) \<and> prev = Some translated then None
      else Some translated)"

definition process_char :: "tr_stage \<Rightarrow> scalar option \<Rightarrow> scalar \<Rightarrow> scalar option" where
  "process_char stage prev ch =
     (if tr_delete stage then process_char_delete stage prev ch
      else if tr_squeeze stage \<and> to_chars stage = [] then
        if ch \<in> set (from_chars stage) \<and> prev = Some ch then None else Some ch
      else process_char_translate stage prev ch)"

text \<open>The characters emitted for a list, and the last one.\<close>

fun process_chars :: "tr_stage \<Rightarrow> scalar option \<Rightarrow> scalar list \<Rightarrow> scalar list \<times> scalar option" where
  "process_chars stage prev [] = ([], prev)"
| "process_chars stage prev (ch # chs) =
     (case process_char stage prev ch of
        None \<Rightarrow> process_chars stage prev chs
      | Some c \<Rightarrow> (let (cs, prev') = process_chars stage (Some c) chs in (c # cs, prev')))"

lemma process_chars_append:
  "process_chars stage prev (a @ b) =
     (let (cs, prev') = process_chars stage prev a; (ds, prev'') = process_chars stage prev' b
      in (cs @ ds, prev''))"
  by (induction a arbitrary: prev) (auto simp: Let_def split: prod.splits option.splits)

section \<open>The reader\<close>

record 'r tr_reader = "'r stage_reader" +
  tr_pending :: string
  tr_stage :: tr_stage
  tr_prev :: "scalar option"

definition tr_new :: "'r \<Rightarrow> tr_stage \<Rightarrow> 'r tr_reader" where
  "tr_new r stage =
     \<lparr>inner = r, output_pending = [], output_offset = 0, finished = False, tr_pending = [],
      tr_stage = stage, tr_prev = None\<rparr>"

definition tr_emit :: "scalar list \<Rightarrow> 'r tr_reader \<Rightarrow> 'r tr_reader" where
  "tr_emit chars r =
     (let (cs, prev) = process_chars (tr_stage r) (tr_prev r) chars
      in r\<lparr>output_pending := output_pending r @ encode_str cs, tr_prev := prev\<rparr>)"

definition tr_pump :: "'r read_fn \<Rightarrow> 'r tr_reader \<Rightarrow> ('r tr_reader, unit) io" where
  "tr_pump rd r =
     (case rd (inner r) 4096 of
        None \<Rightarrow> None
      | Some (i, Ok bs) \<Rightarrow>
          let r' = r\<lparr>inner := i\<rparr> in
          if bs = [] then
            let chars = streaming_tr_flush_pending_lossy (tr_pending r')
            in Some ((tr_emit chars (r'\<lparr>tr_pending := []\<rparr>))\<lparr>finished := True\<rparr>, Ok ())
          else
            let (chars, pending) = streaming_tr_process_utf8_chunk (tr_pending r') bs
            in Some (tr_emit chars (r'\<lparr>tr_pending := pending\<rparr>), Ok ())
      | Some (i, Err e) \<Rightarrow> Some (r\<lparr>inner := i\<rparr>, Err e)
      | Some (i, Panic m) \<Rightarrow> Some (r\<lparr>inner := i\<rparr>, Panic m))"

definition tr_read :: "'r read_fn \<Rightarrow> 'r tr_reader read_fn" where
  "tr_read rd = stage_read (tr_pump rd)"

text \<open>What \<open>tr\<close> makes of a text after a character.\<close>

definition tr_text :: "tr_stage \<Rightarrow> scalar option \<Rightarrow> string \<Rightarrow> string" where
  "tr_text stage prev s = encode_str (fst (process_chars stage prev (stream_decode s)))"

definition tr_rest :: "('r \<Rightarrow> string) \<Rightarrow> 'r tr_reader \<Rightarrow> string" where
  "tr_rest content r = tr_text (tr_stage r) (tr_prev r) (tr_pending r @ content (inner r))"

context reader
begin

lemma tr_pumped:
  "pumped (tr_pump rd) (tr_rest content) (\<lambda>r. stalls (inner r))
     (\<lambda>r. stuck (inner r)) (\<lambda>r. good (inner r) \<and> incomplete (tr_pending r)) (\<lambda>r. length (content (inner r)))"
proof (unfold_locales, goal_cases)
  case (5 r)
  then have "good (inner r)" by simp
  then show ?case
  proof (cases rule: read_cases [where n = 4096])
    case (got i bs)
    show ?thesis
    proof (cases "bs = []")
      case True
      then show ?thesis using got 5 flush_law [of "tr_pending r"]
        by (cases "process_chars (tr_stage r) (tr_prev r) (stream_decode (tr_pending r))")
          (auto simp: tr_pump_def tr_emit_def tr_rest_def tr_text_def stage_content_def undelivered_def incomplete_def)
    next
      case False
      obtain cs p where d: "streaming_tr_drain (tr_pending r @ bs) = (cs, p)" by fastforce
      obtain ds prev where ds: "process_chars (tr_stage r) (tr_prev r) cs = (ds, prev)" by fastforce
      show ?thesis using got 5 False d ds drain_law [OF d, of "content i"]
        by (auto simp: tr_pump_def tr_emit_def tr_rest_def tr_text_def stage_content_def undelivered_def
            streaming_tr_process_utf8_chunk_def process_chars_append split: prod.splits)
    qed
  next
    case (stall i e)
    then show ?thesis using 5 by (simp add: tr_pump_def tr_rest_def stage_content_def undelivered_def)
  qed
qed (simp_all add: tr_rest_def)

lemma tr_new_content: "stage_content (tr_rest content) (tr_new r stage) = tr_text stage None (content r)"
  by (simp add: stage_content_def undelivered_def tr_new_def tr_rest_def)

end

text \<open>Without squeezing, deleting is filtering and translating is mapping.\<close>

lemma tr_deletes:
  assumes "tr_delete stage" "\<not> tr_squeeze stage" "valid_utf8 s"
  shows "tr_text stage prev s = encode_str (filter (\<lambda>c. \<not> is_in_from_set stage c) (str_chars s))"
proof -
  have "fst (process_chars stage prev cs) = filter (\<lambda>c. \<not> is_in_from_set stage c) cs" for cs
    using assms(1,2)
    by (induction cs arbitrary: prev) (auto simp: process_char_def process_char_delete_def split_beta)
  then show ?thesis by (simp add: tr_text_def stream_decode_valid assms(3))
qed

lemma tr_translates:
  assumes "\<not> tr_delete stage" "\<not> tr_squeeze stage" "valid_utf8 s"
  shows "tr_text stage prev s = encode_str (map (tr_translate stage) (str_chars s))"
proof -
  have "fst (process_chars stage prev cs) = map (tr_translate stage) cs" for cs
    using assms(1,2)
    by (induction cs arbitrary: prev) (auto simp: process_char_def process_char_translate_def Let_def split_beta)
  then show ?thesis by (simp add: tr_text_def stream_decode_valid assms(3))
qed

end
