(* ===== verification/Stream_Grep.thy ===== *)
theory Stream_Grep
  imports Stream_Lines
begin

text \<open>
  The filter \<open>grep\<close> of the streaming pipelines (\<^verbatim>\<open>wasmsh-runtime/streaming_grep.rs\<close>): matching by words,
  by text or by the regular expressions of the crate \<open>posix_regex\<close>, which is an argument, like the
  standard library's lower case and its class of alphanumeric characters; context lines, counts
  and limits; and the lines that it prints.
\<close>

section \<open>Searching text\<close>

text \<open>A match of valid text in valid text can be cut out.\<close>

lemma slice_match:
  assumes "valid_utf8 s" "valid_utf8 p" "find_str p s = Some i"
  shows "str_slice s i (i + length p) = Ok p"
proof (cases "p = []")
  case True
  then show ?thesis using assms(3) by (simp add: find_str.simps str_slice_def is_char_boundary_def)
next
  case False
  obtain b where b: "drop i s = p @ b" "i \<le> length s" using find_str_Some [OF assms(3)] by (auto simp: prefix_def)
  then have len: "length s = i + length p + length b" using length_drop [of i s] by simp
  have nth: "s ! (i + j) = (p @ b) ! j" if "j < length (p @ b)" for j
    using b that nth_drop [of i s j] by simp
  have hd_ok: "\<not> is_cont (u ! 0)" if "valid_utf8 u" "u \<noteq> []" for u
    using that valid_utf8_hd by (cases u) auto
  have start: "is_char_boundary s i"
    using hd_ok [OF assms(2) False] False nth [of 0] len by (auto simp: is_char_boundary_def nth_append)
  have "valid_utf8 b"
    using valid_utf8_split [OF assms(1) b(2) start] b(1) assms(2) valid_utf8_rest by metis
  then have "is_char_boundary s (i + length p)"
    using hd_ok [of b] nth [of "length p"] len by (cases "b = []") (auto simp: is_char_boundary_def nth_append)
  then show ?thesis using start len b(1) by (simp add: str_slice_def)
qed

section \<open>Matching\<close>

record grep_flags =
  grep_ignore_case :: bool
  grep_invert :: bool
  count_only :: bool
  show_line_numbers :: bool
  files_only :: bool
  word_match :: bool
  only_matching :: bool
  grep_quiet :: bool
  grep_extended :: bool
  grep_fixed :: bool
  after_context :: nat
  before_context :: nat
  max_count :: "nat option"
  show_filename :: "bool option"

text \<open>What the stage takes from elsewhere: lower case, alphanumeric characters, and regular expressions.\<close>

record grep_env =
  to_lower :: "string \<Rightarrow> string"
  is_alphanumeric :: "scalar \<Rightarrow> bool"
  posix_matches :: "string \<Rightarrow> string \<Rightarrow> bool option"

text \<open>\<open>str::split\<close> at the characters that satisfy a predicate.\<close>

fun split_at :: "(scalar \<Rightarrow> bool) \<Rightarrow> scalar list \<Rightarrow> scalar list list" where
  "split_at P [] = [[]]"
| "split_at P (c # cs) =
     (if P c then [] # split_at P cs
      else (case split_at P cs of [] \<Rightarrow> [[c]] | w # ws \<Rightarrow> (c # w) # ws))"

definition streaming_grep_match_single :: "grep_env \<Rightarrow> string \<Rightarrow> string \<Rightarrow> grep_flags \<Rightarrow> bool" where
  "streaming_grep_match_single e line pattern flags =
     (if word_match flags then
        list_ex (\<lambda>w. encode_str w = pattern)
          (split_at (\<lambda>c. \<not> is_alphanumeric e c \<and> c \<noteq> 95) (str_chars line))
      else if grep_fixed flags then str_contains pattern line
      else
        (case posix_matches e pattern line of
           Some found \<Rightarrow> found
         | None \<Rightarrow> str_contains pattern line))"

definition grep_fold_case :: "grep_env \<Rightarrow> grep_flags \<Rightarrow> string \<Rightarrow> string" where
  "grep_fold_case e flags s = (if grep_ignore_case flags then to_lower e s else s)"

definition streaming_grep_match_pattern :: "grep_env \<Rightarrow> string \<Rightarrow> string \<Rightarrow> grep_flags \<Rightarrow> bool" where
  "streaming_grep_match_pattern e line pattern flags =
     (let line_cmp = grep_fold_case e flags line;
          pattern_cmp = grep_fold_case e flags pattern
      in if grep_extended flags \<and> CHR ''|'' \<in> set pattern_cmp
         then list_ex (\<lambda>alt. streaming_grep_match_single e line_cmp (trim alt) flags)
                (split_on CHR ''|'' pattern_cmp)
         else streaming_grep_match_single e line_cmp pattern_cmp flags)"

definition is_ascii_alphanumeric :: "char \<Rightarrow> bool" where
  "is_ascii_alphanumeric c \<longleftrightarrow> is_alpha c \<or> is_digit c"

text \<open>The match is searched in the folded line and cut out of the line itself, which may panic.\<close>

definition streaming_grep_find_match ::
  "grep_env \<Rightarrow> string \<Rightarrow> string \<Rightarrow> grep_flags \<Rightarrow> string option io_result" where
  "streaming_grep_find_match e line pattern flags =
     (let line_cmp = grep_fold_case e flags line;
          pattern_cmp = grep_fold_case e flags pattern
      in case find_str pattern_cmp line_cmp of
           None \<Rightarrow> Ok None
         | Some start \<Rightarrow>
             let stop = start + length pattern_cmp in
             if word_match flags \<and>
                (start > 0 \<and> is_ascii_alphanumeric (line_cmp ! (start - 1)) \<or>
                 stop < length line_cmp \<and> is_ascii_alphanumeric (line_cmp ! stop))
             then Ok None
             else result_bind (str_slice line start stop) (\<lambda>m. Ok (Some m)))"

definition streaming_grep_line_matches :: "grep_env \<Rightarrow> string \<Rightarrow> grep_flags \<Rightarrow> string list \<Rightarrow> bool" where
  "streaming_grep_line_matches e line flags patterns \<longleftrightarrow>
     list_ex (\<lambda>pattern. streaming_grep_match_pattern e line pattern flags) patterns \<noteq> grep_invert flags"

section \<open>Output\<close>

definition grep_prefix :: "nat \<Rightarrow> grep_flags \<Rightarrow> string" where
  "grep_prefix n flags =
     (if show_filename flags = Some True then ''(standard input):'' else []) @
     (if show_line_numbers flags then show_nat n @ '':'' else [])"

fun emit_matches :: "grep_env \<Rightarrow> string \<Rightarrow> string \<Rightarrow> grep_flags \<Rightarrow> string list \<Rightarrow> string io_result" where
  "emit_matches e pre line flags [] = Ok []"
| "emit_matches e pre line flags (p # ps) =
     result_bind (streaming_grep_find_match e line p flags) (\<lambda>found.
       result_bind (emit_matches e pre line flags ps) (\<lambda>out.
         Ok ((case found of None \<Rightarrow> [] | Some m \<Rightarrow> pre @ m @ [ch_newline]) @ out)))"

definition emit_streaming_grep_one ::
  "grep_env \<Rightarrow> string \<Rightarrow> nat \<Rightarrow> grep_flags \<Rightarrow> string list \<Rightarrow> string io_result" where
  "emit_streaming_grep_one e line n flags patterns =
     (let pre = grep_prefix n flags in
      if only_matching flags then emit_matches e pre line flags patterns
      else Ok (pre @ line @ [ch_newline]))"

record grep_state =
  grep_flags :: grep_flags
  grep_patterns :: "string list"
  grep_status :: int
  match_count :: nat
  grep_found :: bool
  remaining_after :: nat
  printed_separator :: bool
  before_buf :: "(nat \<times> string) list"
  grep_line_num :: nat
  emitted_count_summary :: bool

definition grep_start :: "grep_flags \<Rightarrow> string list \<Rightarrow> int \<Rightarrow> grep_state" where
  "grep_start flags patterns status =
     \<lparr>grep_flags = flags, grep_patterns = patterns, grep_status = status, match_count = 0,
      grep_found = False, remaining_after = 0, printed_separator = False, before_buf = [],
      grep_line_num = 0, emitted_count_summary = False\<rparr>"

definition grep_new :: "'r \<Rightarrow> grep_flags \<Rightarrow> string list \<Rightarrow> int \<Rightarrow> ('r, grep_state) line_reader" where
  "grep_new r flags patterns status = line_reader_new r (grep_start flags patterns status)"

definition emit_count_summary :: "grep_state \<Rightarrow> grep_state \<times> string" where
  "emit_count_summary x =
     (if count_only (grep_flags x) \<and> \<not> grep_quiet (grep_flags x) \<and> \<not> emitted_count_summary x
      then (x\<lparr>emitted_count_summary := True\<rparr>,
            (if show_filename (grep_flags x) = Some True then ''(standard input):'' else []) @
            show_nat (match_count x) @ [ch_newline])
      else (x, []))"

definition should_stop_for_max_count :: "grep_state \<Rightarrow> bool" where
  "should_stop_for_max_count x =
     (case max_count (grep_flags x) of None \<Rightarrow> False | Some m \<Rightarrow> match_count x \<ge> m)"

fun emit_before :: "grep_env \<Rightarrow> grep_state \<Rightarrow> (nat \<times> string) list \<Rightarrow> string io_result" where
  "emit_before e x [] = Ok []"
| "emit_before e x ((n, line) # bs) =
     result_bind (emit_streaming_grep_one e line n (grep_flags x) (grep_patterns x)) (\<lambda>out.
       result_bind (emit_before e x bs) (\<lambda>rest. Ok (out @ rest)))"

definition flush_before_context :: "grep_env \<Rightarrow> grep_state \<Rightarrow> (grep_state \<times> string) io_result" where
  "flush_before_context e x =
     (if before_context (grep_flags x) = 0 \<or> before_buf x = [] then Ok (x\<lparr>before_buf := []\<rparr>, [])
      else
        result_bind (emit_before e x (before_buf x)) (\<lambda>out.
          Ok (x\<lparr>before_buf := []\<rparr>,
              (if printed_separator x then ''--'' @ [ch_newline] else []) @ out)))"

definition grep_on_match :: "grep_env \<Rightarrow> grep_state \<Rightarrow> string \<Rightarrow> (grep_state \<times> string \<times> bool) io_result" where
  "grep_on_match e x line =
     (let x1 = x\<lparr>grep_found := True, grep_status := 0, match_count := match_count x + 1\<rparr> in
      if grep_quiet (grep_flags x1) \<or> files_only (grep_flags x1)
      then Ok (x1, [], should_stop_for_max_count x1)
      else
        result_bind
          (if count_only (grep_flags x1) then Ok (x1, [])
           else
             result_bind (flush_before_context e x1) (\<lambda>(x2, before).
               result_bind
                 (emit_streaming_grep_one e line (grep_line_num x2) (grep_flags x2) (grep_patterns x2))
                 (\<lambda>out. Ok (x2\<lparr>remaining_after := after_context (grep_flags x2),
                              printed_separator := True\<rparr>, before @ out))))
          (\<lambda>(x3, out).
             if should_stop_for_max_count x3
             then (let (x4, summary) = emit_count_summary x3 in Ok (x4, out @ summary, True))
             else Ok (x3, out, False)))"

definition grep_on_nonmatch :: "grep_env \<Rightarrow> grep_state \<Rightarrow> string \<Rightarrow> (grep_state \<times> string \<times> bool) io_result" where
  "grep_on_nonmatch e x line =
     (if remaining_after x > 0 \<and> \<not> count_only (grep_flags x) then
        result_bind
          (emit_streaming_grep_one e line (grep_line_num x) (grep_flags x) (grep_patterns x))
          (\<lambda>out. Ok (x\<lparr>remaining_after := remaining_after x - 1\<rparr>, out, False))
      else if before_context (grep_flags x) > 0 then
        let buf = before_buf x @ [(grep_line_num x, line)]
        in Ok (x\<lparr>before_buf := (if length buf > before_context (grep_flags x) then tl buf else buf)\<rparr>,
               [], False)
      else Ok (x, [], False))"

definition grep_handle :: "grep_env \<Rightarrow> grep_state line_handler" where
  "grep_handle e x line =
     (let x' = x\<lparr>grep_line_num := grep_line_num x + 1\<rparr> in
      if streaming_grep_line_matches e line (grep_flags x') (grep_patterns x')
      then grep_on_match e x' line else grep_on_nonmatch e x' line)"

definition grep_finish :: "grep_state \<Rightarrow> grep_state \<times> string" where
  "grep_finish x =
     (let (x', summary) = emit_count_summary x
      in (if grep_found x' then x' else x'\<lparr>grep_status := 1\<rparr>, summary))"

definition grep_read :: "grep_env \<Rightarrow> 'r read_fn \<Rightarrow> ('r, grep_state) line_reader read_fn" where
  "grep_read e rd = stage_read (line_pump rd (grep_handle e) grep_finish)"

section \<open>No panic\<close>

text \<open>
  Matches are cut out of the line at positions of the folded line, so \<open>-o\<close> is safe without \<open>-i\<close>.
\<close>

definition grep_safe :: "grep_state \<Rightarrow> bool" where
  "grep_safe x \<longleftrightarrow>
     \<not> (only_matching (grep_flags x) \<and> grep_ignore_case (grep_flags x)) \<and>
     list_all valid_utf8 (grep_patterns x) \<and> list_all (\<lambda>(_, l). valid_utf8 l) (before_buf x)"

lemma find_match_returns:
  assumes "\<not> grep_ignore_case flags" "valid_utf8 line" "valid_utf8 p"
  shows "\<exists>found. streaming_grep_find_match e line p flags = Ok found"
  using assms
  by (auto simp: streaming_grep_find_match_def grep_fold_case_def Let_def slice_match split: option.splits)

lemma emit_matches_returns:
  "\<not> grep_ignore_case flags \<Longrightarrow> valid_utf8 line \<Longrightarrow> list_all valid_utf8 ps \<Longrightarrow>
     \<exists>out. emit_matches e pre line flags ps = Ok out"
proof (induction ps)
  case (Cons p ps)
  then obtain found out where "streaming_grep_find_match e line p flags = Ok found" "emit_matches e pre line flags ps = Ok out"
    using find_match_returns by fastforce
  then show ?case by simp
qed simp

lemma emit_one_returns:
  "grep_safe x \<Longrightarrow> valid_utf8 line \<Longrightarrow>
     \<exists>out. emit_streaming_grep_one e line n (grep_flags x) (grep_patterns x) = Ok out"
  using emit_matches_returns [of "grep_flags x" line "grep_patterns x" e "grep_prefix n (grep_flags x)"]
  by (auto simp: emit_streaming_grep_one_def grep_safe_def Let_def)

lemma emit_before_returns:
  "grep_safe x \<Longrightarrow> list_all (\<lambda>(_, l). valid_utf8 l) bs \<Longrightarrow> \<exists>out. emit_before e x bs = Ok out"
proof (induction bs)
  case (Cons b bs)
  obtain n line where b: "b = (n, line)" by (cases b)
  obtain o1 o2 where "emit_streaming_grep_one e line n (grep_flags x) (grep_patterns x) = Ok o1" "emit_before e x bs = Ok o2"
    using Cons emit_one_returns [of x line e n] b by auto
  then show ?case by (simp add: b)
qed simp

text \<open>The parts of the state that a step on the counters leaves alone.\<close>

lemma grep_safe_cong:
  "grep_flags y = grep_flags x \<Longrightarrow> grep_patterns y = grep_patterns x \<Longrightarrow>
     list_all (\<lambda>(_, l). valid_utf8 l) (before_buf y) \<Longrightarrow> grep_safe x \<Longrightarrow> grep_safe y"
  by (simp add: grep_safe_def)

lemma emit_count_summary_safe: "grep_safe (fst (emit_count_summary x)) = grep_safe x"
  by (simp add: emit_count_summary_def grep_safe_def)

lemma flush_before_returns:
  assumes "grep_safe x"
  shows "\<exists>x' out. flush_before_context e x = Ok (x', out) \<and> grep_safe x' \<and> grep_flags x' = grep_flags x \<and>
    grep_patterns x' = grep_patterns x"
  using assms emit_before_returns [of x "before_buf x" e]
  by (auto simp: flush_before_context_def grep_safe_def)

lemma on_match_returns:
  assumes "grep_safe x" "valid_utf8 line"
  shows "\<exists>x' out stop. grep_on_match e x line = Ok (x', out, stop) \<and> grep_safe x'"
proof -
  let ?x1 = "x\<lparr>grep_found := True, grep_status := 0, match_count := match_count x + 1\<rparr>"
  have s1: "grep_safe ?x1" using assms(1) by (simp add: grep_safe_def)
  obtain x2 before where x2: "flush_before_context e ?x1 = Ok (x2, before)" "grep_safe x2"
    using flush_before_returns [OF s1] by blast
  obtain out where out: "emit_streaming_grep_one e line (grep_line_num x2) (grep_flags x2) (grep_patterns x2) = Ok out"
    using emit_one_returns [OF x2(2) assms(2)] by blast
  let ?x3 = "if count_only (grep_flags x) then (?x1, [])
    else (x2\<lparr>remaining_after := after_context (grep_flags x2), printed_separator := True\<rparr>, before @ out)"
  have "grep_safe (fst ?x3)" using s1 x2(2) by (simp add: grep_safe_def)
  then show ?thesis using s1 x2 out emit_count_summary_safe [of "fst ?x3"]
    by (cases "grep_quiet (grep_flags x) \<or> files_only (grep_flags x)"; cases "count_only (grep_flags x)")
      (auto simp: grep_on_match_def Let_def split: prod.splits)
qed

lemma on_nonmatch_returns:
  assumes "grep_safe x" "valid_utf8 line"
  shows "\<exists>x' out stop. grep_on_nonmatch e x line = Ok (x', out, stop) \<and> grep_safe x'"
proof -
  obtain out where "emit_streaming_grep_one e line (grep_line_num x) (grep_flags x) (grep_patterns x) = Ok out"
    using emit_one_returns [OF assms] by blast
  moreover have "list_all (\<lambda>(_, l). valid_utf8 l) (tl (before_buf x @ [(n, line)]))" for n
    using assms by (cases "before_buf x") (auto simp: grep_safe_def)
  ultimately show ?thesis using assms
    by (auto simp: grep_on_nonmatch_def grep_safe_def Let_def)
qed

lemma grep_handle_returns:
  assumes "grep_safe x" "valid_utf8 line"
  shows "\<exists>x' out stop. grep_handle e x line = Ok (x', out, stop) \<and> grep_safe x'"
proof -
  have "grep_safe (x\<lparr>grep_line_num := grep_line_num x + 1\<rparr>)" using assms(1) by (simp add: grep_safe_def)
  then show ?thesis using on_match_returns on_nonmatch_returns assms(2) by (simp add: grep_handle_def Let_def)
qed

context reader
begin

lemma grep_line_stage: "line_stage rd content stalls stuck good (grep_handle e) grep_finish grep_safe"
proof
  fix x assume "grep_safe x"
  then show "grep_safe (fst (grep_finish x))"
    using emit_count_summary_safe [of x] by (auto simp: grep_finish_def grep_safe_def split: prod.splits)
qed (rule grep_handle_returns)

end

section \<open>What is printed\<close>

text \<open>Plain printing of matches: no context, no counting, whole lines.\<close>

definition grep_plain :: "grep_flags \<Rightarrow> bool" where
  "grep_plain flags \<longleftrightarrow>
     \<not> count_only flags \<and> \<not> grep_quiet flags \<and> \<not> files_only flags \<and> \<not> only_matching flags \<and>
     before_context flags = 0 \<and> after_context flags = 0"

definition upto_max :: "nat option \<Rightarrow> nat \<Rightarrow> 'a list \<Rightarrow> 'a list" where
  "upto_max limit seen xs = (case limit of None \<Rightarrow> xs | Some m \<Rightarrow> take (max 1 (m - seen)) xs)"

lemma grep_plain_run:
  assumes "grep_plain flags"
  shows "\<lbrakk>grep_flags x = flags; grep_patterns x = patterns; remaining_after x = 0\<rbrakk> \<Longrightarrow>
    run_lines (grep_handle e) grep_finish x ls =
      concat (map (\<lambda>(n, line). grep_prefix n flags @ line @ [ch_newline])
        (upto_max (max_count flags) (match_count x)
          (filter (\<lambda>(_, line). streaming_grep_line_matches e line flags patterns)
            (List.enumerate (Suc (grep_line_num x)) ls))))"
proof (induction ls arbitrary: x)
  case Nil
  then show ?case using assms
    by (simp add: grep_finish_def emit_count_summary_def grep_plain_def upto_max_def split: option.splits)
next
  case (Cons l ls)
  show ?case
  proof (cases "streaming_grep_line_matches e l flags patterns")
    case False
    then have "grep_handle e x l = Ok (x\<lparr>grep_line_num := grep_line_num x + 1\<rparr>, [], False)"
      using Cons.prems assms by (simp add: grep_handle_def grep_on_nonmatch_def grep_plain_def)
    then show ?thesis using Cons False by simp
  next
    case True
    define x' where "x' = x\<lparr>grep_line_num := grep_line_num x + 1, grep_found := True, grep_status := 0,
      match_count := match_count x + 1, before_buf := [], remaining_after := 0, printed_separator := True\<rparr>"
    have stop: "should_stop_for_max_count x' = (case max_count flags of None \<Rightarrow> False | Some m \<Rightarrow> m \<le> match_count x + 1)"
      using Cons.prems by (cases "max_count flags") (simp_all add: should_stop_for_max_count_def x'_def)
    have h: "grep_handle e x l = Ok (x', grep_prefix (Suc (grep_line_num x)) flags @ l @ [ch_newline], should_stop_for_max_count x')"
      using Cons.prems assms True
      by (simp add: grep_handle_def grep_on_match_def grep_plain_def flush_before_context_def x'_def
          emit_streaming_grep_one_def emit_count_summary_def should_stop_for_max_count_def Let_def split: option.splits)
    have IH: "run_lines (grep_handle e) grep_finish x' ls =
      concat (map (\<lambda>(n, line). grep_prefix n flags @ line @ [ch_newline])
        (upto_max (max_count flags) (Suc (match_count x))
          (filter (\<lambda>(_, line). streaming_grep_line_matches e line flags patterns)
            (List.enumerate (Suc (Suc (grep_line_num x))) ls))))"
      using Cons.IH [of x'] Cons.prems by (simp add: x'_def)
    show ?thesis
    proof (cases "max_count flags")
      case None
      then show ?thesis using h stop IH True by (simp add: upto_max_def)
    next
      case (Some m)
      have "max 1 (m - match_count x) = Suc (max 1 (m - Suc (match_count x)))" if "\<not> m \<le> Suc (match_count x)"
        using that by linarith
      moreover have "max 1 (m - match_count x) = 1" if "m \<le> Suc (match_count x)"
        using that by linarith
      ultimately show ?thesis using h stop IH True Some
        by (cases "m \<le> Suc (match_count x)") (simp_all add: upto_max_def)
    qed
  qed
qed

definition below_max :: "nat option \<Rightarrow> nat \<Rightarrow> bool" where
  "below_max limit seen = (case limit of None \<Rightarrow> True | Some m \<Rightarrow> seen < max 1 m)"

text \<open>Counting: the number of matches, up to the limit, whatever the other options.\<close>

lemma grep_count_run:
  assumes "count_only flags" "\<not> grep_quiet flags" "\<not> files_only flags" 
  shows "\<lbrakk>grep_flags x = flags; grep_patterns x = patterns; \<not> emitted_count_summary x;
      below_max (max_count flags) (match_count x)\<rbrakk> \<Longrightarrow>
    run_lines (grep_handle e) grep_finish x ls =
      (if show_filename flags = Some True then ''(standard input):'' else []) @
      show_nat (match_count x + length (upto_max (max_count flags) (match_count x)
        (filter (\<lambda>line. streaming_grep_line_matches e line flags patterns) ls))) @ [ch_newline]"
proof (induction ls arbitrary: x)
  case Nil
  then show ?case using assms
    by (auto simp: grep_finish_def emit_count_summary_def upto_max_def split: option.splits)
next
  case (Cons l ls)
  show ?case
  proof (cases "streaming_grep_line_matches e l flags patterns")
    case False
    define buf where "buf = before_buf x @ [(Suc (grep_line_num x), l)]"
    define b where "b = (if before_context flags = 0 then before_buf x
      else if length buf > before_context flags then tl buf else buf)"
    have "grep_handle e x l = Ok (x\<lparr>grep_line_num := grep_line_num x + 1, before_buf := b\<rparr>, [], False)"
      using Cons.prems assms False
      by (cases x) (simp add: grep_handle_def grep_on_nonmatch_def b_def buf_def)
    then show ?thesis using Cons False by simp
  next
    case True
    define x' where "x' = x\<lparr>grep_line_num := grep_line_num x + 1, grep_found := True, grep_status := 0,
      match_count := match_count x + 1\<rparr>"
    have stop: "should_stop_for_max_count x' = (case max_count flags of None \<Rightarrow> False | Some m \<Rightarrow> m \<le> match_count x + 1)"
      using Cons.prems by (cases "max_count flags") (simp_all add: should_stop_for_max_count_def x'_def)
    have h: "grep_handle e x l = (if should_stop_for_max_count x'
        then Ok (fst (emit_count_summary x'), snd (emit_count_summary x'), True) else Ok (x', [], False))"
      using Cons.prems assms True
      by (simp add: grep_handle_def grep_on_match_def x'_def Let_def split_beta)
    show ?thesis
    proof (cases "should_stop_for_max_count x'")
      case False
      then have "below_max (max_count flags) (Suc (match_count x))"
        using stop by (auto simp: below_max_def split: option.splits)
      then have "run_lines (grep_handle e) grep_finish x' ls =
        (if show_filename flags = Some True then ''(standard input):'' else []) @
        show_nat (Suc (match_count x) + length (upto_max (max_count flags) (Suc (match_count x))
          (filter (\<lambda>line. streaming_grep_line_matches e line flags patterns) ls))) @ [ch_newline]"
        using Cons.IH [of x'] Cons.prems by (simp add: x'_def)
      moreover have "length (upto_max (max_count flags) (match_count x) (l # ks)) =
          Suc (length (upto_max (max_count flags) (Suc (match_count x)) ks))" for ks
        using False stop by (auto simp: upto_max_def max_def split: option.splits)
      ultimately show ?thesis using h False True by simp
    next
      case stopped: True
      then obtain m where m: "max_count flags = Some m" "m \<le> Suc (match_count x)" using stop by (auto split: option.splits)
      then have "max 1 (m - match_count x) = 1" by linarith
      then show ?thesis using h stopped True m assms Cons.prems
        by (auto simp: upto_max_def emit_count_summary_def x'_def)
    qed
  qed
qed

end
