(* ===== verification/Stream_Boxes.thy ===== *)
theory Stream_Boxes
  imports Stream_Sources Stream_Head Stream_Absorb Stream_Paste Stream_Tr Stream_Grep
begin

text \<open>
  The boxed readers of a streaming pipeline (\<^verbatim>\<open>wasmsh-runtime/lib.rs\<close>): the stages, the reader that
  a stage puts around its input (\<open>wrap_non_tee_streaming_stage\<close>), and dynamic dispatch over them.
  Over every reader the box is a reader again, and a fresh stage delivers the stage's text of what
  its input delivers.
\<close>

section \<open>Stages and their readers\<close>

datatype stage =
  StageCat
| StageHead head_mode
| StageTail tail_mode
| StageBat bat_stage
| StagePaste string bool
| StageColumn
| StageGrep grep_flags "string list"
| StageUniq uniq_flags
| StageRev
| StageCut cut_stage
| StageTr tr_stage
| StageWc wc_flags

datatype 'r boxed =
  BoxCat 'r
| BoxHead "'r head_reader"
| BoxTail "'r tail_reader"
| BoxBat "('r, bat_state) line_reader"
| BoxPaste "'r paste_reader"
| BoxColumn "'r column_reader"
| BoxGrep "('r, grep_state) line_reader"
| BoxUniq "('r, uniq_state) line_reader"
| BoxRev "'r rev_reader"
| BoxCut "('r, cut_stage) line_reader"
| BoxTr "'r tr_reader"
| BoxWc "'r wc_reader"

text \<open>The status of a \<open>grep\<close> stage is 1 until it finds a match (\<open>seed_stage_statuses\<close>).\<close>

fun wrap_stage :: "'r \<Rightarrow> stage \<Rightarrow> 'r boxed" where
  "wrap_stage r StageCat = BoxCat r"
| "wrap_stage r (StageHead mode) = BoxHead (head_new r mode)"
| "wrap_stage r (StageTail mode) = BoxTail (tail_new r mode)"
| "wrap_stage r (StageBat stage) = BoxBat (bat_new r stage)"
| "wrap_stage r (StagePaste delim serial) = BoxPaste (paste_new r delim serial)"
| "wrap_stage r StageColumn = BoxColumn (column_new r)"
| "wrap_stage r (StageGrep flags patterns) = BoxGrep (grep_new r flags patterns 1)"
| "wrap_stage r (StageUniq flags) = BoxUniq (uniq_new r flags)"
| "wrap_stage r StageRev = BoxRev (line_reader_new r ())"
| "wrap_stage r (StageCut stage) = BoxCut (cut_new r stage)"
| "wrap_stage r (StageTr stage) = BoxTr (tr_new r stage)"
| "wrap_stage r (StageWc flags) = BoxWc (wc_new r flags)"

text \<open>What the stages take from the standard library and from \<open>posix_regex\<close>.\<close>

record stage_env =
  lower_chars :: "scalar list \<Rightarrow> scalar list"
  grep_env :: grep_env

definition boxed_read :: "stage_env \<Rightarrow> 'r read_fn \<Rightarrow> 'r boxed read_fn" where
  "boxed_read e rd b n =
     (case b of
        BoxCat r \<Rightarrow> map_option (\<lambda>(x, res). (BoxCat x, res)) (rd r n)
      | BoxHead r \<Rightarrow> map_option (\<lambda>(x, res). (BoxHead x, res)) (head_read rd r n)
      | BoxTail r \<Rightarrow> map_option (\<lambda>(x, res). (BoxTail x, res)) (tail_read rd r n)
      | BoxBat r \<Rightarrow> map_option (\<lambda>(x, res). (BoxBat x, res)) (bat_read rd r n)
      | BoxPaste r \<Rightarrow> map_option (\<lambda>(x, res). (BoxPaste x, res)) (paste_read rd r n)
      | BoxColumn r \<Rightarrow> map_option (\<lambda>(x, res). (BoxColumn x, res)) (column_read rd r n)
      | BoxGrep r \<Rightarrow> map_option (\<lambda>(x, res). (BoxGrep x, res)) (grep_read (grep_env e) rd r n)
      | BoxUniq r \<Rightarrow> map_option (\<lambda>(x, res). (BoxUniq x, res)) (uniq_read (lower_chars e) rd r n)
      | BoxRev r \<Rightarrow> map_option (\<lambda>(x, res). (BoxRev x, res)) (rev_read rd r n)
      | BoxCut r \<Rightarrow> map_option (\<lambda>(x, res). (BoxCut x, res)) (cut_read rd r n)
      | BoxTr r \<Rightarrow> map_option (\<lambda>(x, res). (BoxTr x, res)) (tr_read rd r n)
      | BoxWc r \<Rightarrow> map_option (\<lambda>(x, res). (BoxWc x, res)) (wc_read rd r n))"

text \<open>The reader inside a box.\<close>

fun box_inner :: "'r boxed \<Rightarrow> 'r" where
  "box_inner (BoxCat r) = r"
| "box_inner (BoxHead r) = inner r"
| "box_inner (BoxTail r) = inner r"
| "box_inner (BoxBat r) = inner r"
| "box_inner (BoxPaste r) = inner r"
| "box_inner (BoxColumn r) = inner r"
| "box_inner (BoxGrep r) = inner r"
| "box_inner (BoxUniq r) = inner r"
| "box_inner (BoxRev r) = inner r"
| "box_inner (BoxCut r) = inner r"
| "box_inner (BoxTr r) = inner r"
| "box_inner (BoxWc r) = inner r"

fun set_box_inner :: "'r \<Rightarrow> 'r boxed \<Rightarrow> 'r boxed" where
  "set_box_inner i (BoxCat r) = BoxCat i"
| "set_box_inner i (BoxHead r) = BoxHead (r\<lparr>inner := i\<rparr>)"
| "set_box_inner i (BoxTail r) = BoxTail (r\<lparr>inner := i\<rparr>)"
| "set_box_inner i (BoxBat r) = BoxBat (r\<lparr>inner := i\<rparr>)"
| "set_box_inner i (BoxPaste r) = BoxPaste (r\<lparr>inner := i\<rparr>)"
| "set_box_inner i (BoxColumn r) = BoxColumn (r\<lparr>inner := i\<rparr>)"
| "set_box_inner i (BoxGrep r) = BoxGrep (r\<lparr>inner := i\<rparr>)"
| "set_box_inner i (BoxUniq r) = BoxUniq (r\<lparr>inner := i\<rparr>)"
| "set_box_inner i (BoxRev r) = BoxRev (r\<lparr>inner := i\<rparr>)"
| "set_box_inner i (BoxCut r) = BoxCut (r\<lparr>inner := i\<rparr>)"
| "set_box_inner i (BoxTr r) = BoxTr (r\<lparr>inner := i\<rparr>)"
| "set_box_inner i (BoxWc r) = BoxWc (r\<lparr>inner := i\<rparr>)"

section \<open>What a box delivers\<close>

fun boxed_content :: "stage_env \<Rightarrow> ('r \<Rightarrow> string) \<Rightarrow> 'r boxed \<Rightarrow> string" where
  "boxed_content e c (BoxCat r) = c r"
| "boxed_content e c (BoxHead r) = head_content c r"
| "boxed_content e c (BoxTail r) = absorb_content tail_text c r"
| "boxed_content e c (BoxBat r) = stage_content (bat_rest c) r"
| "boxed_content e c (BoxPaste r) = stage_content (paste_rest c) r"
| "boxed_content e c (BoxColumn r) = stage_content (column_rest c) r"
| "boxed_content e c (BoxGrep r) = stage_content (line_rest c (grep_handle (grep_env e)) grep_finish) r"
| "boxed_content e c (BoxUniq r) = stage_content (line_rest c (handle_uniq_line (lower_chars e)) flush_uniq_prev) r"
| "boxed_content e c (BoxRev r) = stage_content (line_rest c rev_handle no_output) r"
| "boxed_content e c (BoxCut r) = stage_content (line_rest c cut_handle no_output) r"
| "boxed_content e c (BoxTr r) = stage_content (tr_rest c) r"
| "boxed_content e c (BoxWc r) = absorb_content wc_text c r"

fun boxed_good :: "('r \<Rightarrow> bool) \<Rightarrow> 'r boxed \<Rightarrow> bool" where
  "boxed_good g (BoxCat r) = g r"
| "boxed_good g (BoxHead r) = head_good g r"
| "boxed_good g (BoxTail r) =
     (g (inner r) \<and> tail_good (own r) \<and> output_offset r \<le> length (output_pending r))"
| "boxed_good g (BoxGrep r) = (g (inner r) \<and> grep_safe (stage_state r))"
| "boxed_good g (BoxTr r) = (g (inner r) \<and> incomplete (tr_pending r))"
| "boxed_good g (BoxWc r) = (g (inner r) \<and> output_offset r \<le> length (output_pending r))"
| "boxed_good g b = g (box_inner b)"

context reader
begin

lemma boxed_read_law:
  assumes "boxed_good good b"
  shows "\<exists>b' res. boxed_read e rd b n = Some (b', res) \<and>
    read_law (boxed_content e content) (stalls \<circ> box_inner) (stuck \<circ> box_inner) (boxed_good good) b n b' res"
proof -
  note lift = reader_map [where C = "boxed_content e content" and S = "stalls \<circ> box_inner" and W = "stuck \<circ> box_inner" and
      G = "boxed_good good" and n = n]
  show ?thesis
  proof (cases b)
    case (BoxCat r)
    then show ?thesis using assms lift [OF reader_axioms, of r BoxCat]
      by (simp add: boxed_read_def)
  next
    case (BoxHead r)
    then show ?thesis using assms lift [OF head_reader, of r BoxHead]
      by (simp add: boxed_read_def)
  next
    case (BoxTail r)
    then show ?thesis using assms lift [OF absorber.absorber_reader [OF tail_absorber], of r BoxTail]
      by (simp add: boxed_read_def tail_read_def)
  next
    case (BoxWc r)
    then show ?thesis using assms lift [OF absorber.absorber_reader [OF wc_absorber], of r BoxWc]
      by (simp add: boxed_read_def wc_read_def)
  next
    case (BoxBat r)
    then show ?thesis using assms lift [OF pumped.stage_is_reader [OF bat_pumped], of r BoxBat]
      by (simp add: boxed_read_def bat_read_def)
  next
    case (BoxPaste r)
    then show ?thesis using assms lift [OF pumped.stage_is_reader [OF paste_pumped], of r BoxPaste]
      by (simp add: boxed_read_def paste_read_def)
  next
    case (BoxColumn r)
    then show ?thesis using assms lift [OF pumped.stage_is_reader [OF column_pumped], of r BoxColumn]
      by (simp add: boxed_read_def column_read_def)
  next
    case (BoxTr r)
    then show ?thesis using assms lift [OF pumped.stage_is_reader [OF tr_pumped], of r BoxTr]
      by (simp add: boxed_read_def tr_read_def)
  next
    case (BoxGrep r)
    then show ?thesis using assms lift [OF line_stage.filter_reader [OF grep_line_stage [of "grep_env e"]], of r BoxGrep]
      by (simp add: boxed_read_def grep_read_def)
  next
    case (BoxUniq r)
    then show ?thesis using assms lift [OF line_stage.filter_reader [OF uniq_line_stage [of "lower_chars e"]], of r BoxUniq]
      by (simp add: boxed_read_def uniq_read_def)
  next
    case (BoxRev r)
    then show ?thesis using assms lift [OF line_stage.filter_reader [OF rev_line_stage], of r BoxRev]
      by (simp add: boxed_read_def rev_read_loop)
  next
    case (BoxCut r)
    then show ?thesis using assms lift [OF line_stage.filter_reader [OF cut_line_stage], of r BoxCut]
      by (simp add: boxed_read_def cut_read_def)
  qed
qed

lemma boxed_reader:
  "reader (boxed_read e rd) (boxed_content e content) (stalls \<circ> box_inner) (stuck \<circ> box_inner) (boxed_good good)"
  by unfold_locales (rule boxed_read_law)

end

text \<open>A box sees its input only through what the input delivers.\<close>

lemma boxed_content_inner:
  "c i = c' (box_inner b) \<Longrightarrow> boxed_content e c (set_box_inner i b) = boxed_content e c' b"
  by (cases b) (simp_all add: head_content_def absorb_content_def stage_content_def undelivered_def
      bat_rest_def paste_rest_def line_rest_def tr_rest_def)

lemma boxed_good_inner:
  "g i = g' (box_inner b) \<Longrightarrow> boxed_good g (set_box_inner i b) = boxed_good g' b"
  by (cases b) (simp_all add: head_good_def)

lemma box_inner_set [simp]: "box_inner (set_box_inner i b) = i"
  by (cases b) simp_all

lemma boxed_good_input: "boxed_good g b \<Longrightarrow> g (box_inner b)"
  by (cases b) (simp_all add: head_good_def)

section \<open>The text of a stage\<close>

fun stage_text :: "stage_env \<Rightarrow> stage \<Rightarrow> string \<Rightarrow> string" where
  "stage_text e StageCat s = s"
| "stage_text e (StageHead mode) s = head_text mode 0 s"
| "stage_text e (StageTail (TailBytes k)) s = last_n k s"
| "stage_text e (StageTail (TailLines k)) s = unlines (last_n k (raw_lines s))"
| "stage_text e (StageBat stage) s = bat_text stage s"
| "stage_text e (StagePaste delim serial) s =
     (if serial then join_with delim (text_lines s) @ [ch_newline] else end_line True s)"
| "stage_text e StageColumn s = end_line True s"
| "stage_text e (StageGrep flags patterns) s =
     run_lines (grep_handle (grep_env e)) grep_finish (grep_start flags patterns 1) (text_lines s)"
| "stage_text e (StageUniq flags) s = uniq_text (lower_chars e) flags s"
| "stage_text e StageRev s = concat (map rev_line (text_lines s))"
| "stage_text e (StageCut stage) s = cut_text stage s"
| "stage_text e (StageTr stage) s = tr_text stage None s"
| "stage_text e (StageWc flags) s = wc_text (wc_start flags) s"

lemma wrap_content: "boxed_content e c (wrap_stage r st) = stage_text e st (c r)"
proof (cases st)
  case (StageTail mode)
  then show ?thesis
    by (cases mode) (simp_all add: tail_new_def absorb_new_def absorb_content_def stage_content_def undelivered_def tail_text_def)
next
  case (StageBat stage)
  then show ?thesis
    by (simp add: stage_content_def undelivered_def bat_new_def line_reader_new_def bat_rest_def line_rest_def
        emit_header_def bat_text_def bat_run)
qed (simp_all add: head_new_def head_content_def stage_content_def undelivered_def paste_new_def paste_rest_def
    serial_text_join column_new_def grep_new_def line_reader_new_def line_rest_def uniq_new_def uniq_run
    rev_text cut_new_def cut_run tr_new_def tr_rest_def wc_new_def absorb_new_def absorb_content_def)

text \<open>Stages that never panic: \<open>grep -o -i\<close> may.\<close>

fun stage_safe :: "stage \<Rightarrow> bool" where
  "stage_safe (StageGrep flags patterns) =
     (\<not> (only_matching flags \<and> grep_ignore_case flags) \<and> list_all valid_utf8 patterns)"
| "stage_safe st = True"

lemma wrap_good: "stage_safe st \<Longrightarrow> boxed_good g (wrap_stage r st) = g r"
proof (cases st)
  case (StageTail mode)
  then show ?thesis by (cases mode) (simp_all add: tail_new_def absorb_new_def tail_good_def)
qed (simp_all add: head_new_def head_good_def bat_new_def paste_new_def column_new_def grep_new_def
    grep_start_def grep_safe_def line_reader_new_def uniq_new_def cut_new_def tr_new_def incomplete_def
    wc_new_def absorb_new_def)

lemma wrap_inner: "box_inner (wrap_stage r st) = r"
  by (cases st) (simp_all add: head_new_def tail_new_def absorb_new_def bat_new_def paste_new_def column_new_def
      grep_new_def line_reader_new_def uniq_new_def cut_new_def tr_new_def wc_new_def)

section \<open>The boxes of a pipeline\<close>

interpretation boxes: reader "boxed_read e feed_read" "boxed_content e (feed_content future)"
  "feed_stalls \<circ> box_inner" "feed_waits \<circ> box_inner" "boxed_good (feed_good piped future)"
  for e piped future
  by (rule feed.boxed_reader)

interpretation tr_box: pumped "tr_pump feed_read" "tr_rest (feed_content future)" "\<lambda>r. feed_stalls (inner r)" "\<lambda>r. feed_waits (inner r)"
  "\<lambda>r. feed_good piped future (inner r) \<and> incomplete (tr_pending r)" "\<lambda>r. length (feed_content future (inner r))"
  for piped future
  by (rule reader.tr_pumped [OF feed.reader_axioms])

interpretation cut_box: line_stage feed_read "feed_content future" feed_stalls feed_waits "feed_good piped future"
  cut_handle no_output "\<lambda>_. True"
  for piped future
  by (rule reader.cut_line_stage [OF feed.reader_axioms])

interpretation tail_box: absorber feed_read "feed_content future" feed_stalls feed_waits "feed_good piped future"
  stage_take tail_process_chunk tail_finalize tail_text tail_good
  for piped future
  by (rule reader.tail_absorber [OF feed.reader_axioms])

end
