(* ===== verification/Stream_Process.thy ===== *)
theory Stream_Process
  imports Stream_Boxes
begin

text \<open>
  The processes of a streaming pipeline and their scheduler (\<^verbatim>\<open>wasmsh-runtime/lib.rs\<close>): a process reads
  from its stage's reader and writes to the bounded pipe behind it; the scheduler polls all
  processes, the last one first, and moves what reaches the last pipe to the standard output,
  until every process has exited or none makes progress.

  A process owns the pipe that it reads from, inside its reader; the process before it writes to that pipe.  The
  reader of a process that has exited is dropped, and a write to its pipe finds it broken.
\<close>

section \<open>Processes\<close>

datatype poll = PollReady | PendingRead | PendingWrite | Exited

record read_process =
  rp_reader :: "feed boxed option"
  rp_pending :: string
  rp_offset :: nat
  rp_stderr_offset :: nat
  rp_finished :: bool
  rp_stderr :: string
  rp_status :: int
  rp_label :: string
  rp_pipe_stderr :: bool
  rp_reader_done :: bool

definition read_process_new :: "feed boxed \<Rightarrow> string \<Rightarrow> int \<Rightarrow> bool \<Rightarrow> read_process" where
  "read_process_new b label status pipe_stderr =
     \<lparr>rp_reader = Some b, rp_pending = [], rp_offset = 0, rp_stderr_offset = 0, rp_finished = False,
      rp_stderr = [], rp_status = status, rp_label = label, rp_pipe_stderr = pipe_stderr,
      rp_reader_done = False\<rparr>"

record head_process =
  hp_input :: pipe_buffer
  hp_mode :: head_mode
  hp_pending :: string
  hp_offset :: nat
  hp_lines_seen :: nat
  hp_input_closed :: bool
  hp_complete :: bool
  hp_finished :: bool

definition head_process_new :: "pipe_buffer \<Rightarrow> head_mode \<Rightarrow> head_process" where
  "head_process_new input mode =
     \<lparr>hp_input = input, hp_mode = mode, hp_pending = [], hp_offset = 0, hp_lines_seen = 0,
      hp_input_closed = False, hp_complete = False, hp_finished = False\<rparr>"

datatype process = ReadProcess read_process | HeadProcess head_process

fun process_finished :: "process \<Rightarrow> bool" where
  "process_finished (ReadProcess rp) = rp_finished rp"
| "process_finished (HeadProcess hp) = hp_finished hp"

section \<open>Writing to the next process\<close>

text \<open>What is behind a process: the processes after it and the last pipe.\<close>

type_synonym downstream = "process list \<times> pipe_buffer"

text \<open>The bytes of a string, as a pipe holds them.\<close>

definition str_bytes :: "string \<Rightarrow> bytes" where
  "str_bytes s = map of_char s"

fun input_write :: "process \<Rightarrow> string \<Rightarrow> process \<times> write_result" where
  "input_write (ReadProcess rp) bs =
     (case rp_reader rp of
        None \<Rightarrow> (ReadProcess rp, BrokenPipe)
      | Some b \<Rightarrow>
          (case box_inner b of
             FromPipe p \<Rightarrow>
               let (p', res) = pipe_write p (str_bytes bs)
               in (ReadProcess (rp\<lparr>rp_reader := Some (set_box_inner (FromPipe p') b)\<rparr>), res)
           | _ \<Rightarrow> (ReadProcess rp, BrokenPipe)))"
| "input_write (HeadProcess hp) bs =
     (let (p', res) = pipe_write (hp_input hp) (str_bytes bs)
      in (HeadProcess (hp\<lparr>hp_input := p'\<rparr>), res))"

fun input_close :: "process \<Rightarrow> process" where
  "input_close (ReadProcess rp) =
     (case rp_reader rp of
        None \<Rightarrow> ReadProcess rp
      | Some b \<Rightarrow>
          (case box_inner b of
             FromPipe p \<Rightarrow>
               ReadProcess (rp\<lparr>rp_reader := Some (set_box_inner (FromPipe (pipe_close_write p)) b)\<rparr>)
           | _ \<Rightarrow> ReadProcess rp))"
| "input_close (HeadProcess hp) = HeadProcess (hp\<lparr>hp_input := pipe_close_write (hp_input hp)\<rparr>)"

fun down_write :: "downstream \<Rightarrow> string \<Rightarrow> downstream \<times> write_result" where
  "down_write ([], fin) bs = (let (fin', res) = pipe_write fin (str_bytes bs) in (([], fin'), res))"
| "down_write (p # ps, fin) bs = (let (p', res) = input_write p bs in ((p' # ps, fin), res))"

fun down_close :: "downstream \<Rightarrow> downstream" where
  "down_close ([], fin) = ([], pipe_close_write fin)"
| "down_close (p # ps, fin) = (input_close p # ps, fin)"

section \<open>Polling a reading process\<close>

definition read_finish :: "read_process \<Rightarrow> downstream \<Rightarrow> read_process \<times> downstream \<times> poll" where
  "read_finish rp d = (rp\<lparr>rp_reader := None, rp_finished := True\<rparr>, down_close d, Exited)"

text \<open>A step of a poll that may leave the loop.\<close>

definition some_poll :: "'a \<times> downstream \<times> poll \<Rightarrow> 'a \<times> downstream \<times> poll option" where
  "some_poll r = (case r of (p, d, poll) \<Rightarrow> (p, d, Some poll))"

definition poll_stderr :: "read_process \<Rightarrow> downstream \<Rightarrow> read_process \<times> downstream \<times> poll option" where
  "poll_stderr rp d =
     (if \<not> rp_pipe_stderr rp \<or> rp_stderr_offset rp \<ge> length (rp_stderr rp) then (rp, d, None)
      else
        (case down_write d (drop (rp_stderr_offset rp) (rp_stderr rp)) of
           (d', Written k) \<Rightarrow>
             if k > 0 then (rp\<lparr>rp_stderr_offset := rp_stderr_offset rp + k\<rparr>, d', Some PollReady)
             else (rp, d', Some PendingWrite)
         | (d', WriteWouldBlock k) \<Rightarrow>
             if k > 0 then (rp\<lparr>rp_stderr_offset := rp_stderr_offset rp + k\<rparr>, d', Some PollReady)
             else (rp, d', Some PendingWrite)
         | (d', BrokenPipe) \<Rightarrow> some_poll (read_finish rp d')))"

definition read_drain_pending :: "read_process \<Rightarrow> downstream \<Rightarrow> read_process \<times> downstream \<times> poll option" where
  "read_drain_pending rp d =
     (if rp_offset rp \<ge> length (rp_pending rp) then (rp, d, None)
      else
        (case down_write d (drop (rp_offset rp) (rp_pending rp)) of
           (d', Written k) \<Rightarrow>
             (if rp_offset rp + k = length (rp_pending rp) then rp\<lparr>rp_pending := [], rp_offset := 0\<rparr>
              else rp\<lparr>rp_offset := rp_offset rp + k\<rparr>, d', Some PollReady)
         | (d', WriteWouldBlock k) \<Rightarrow>
             if k = 0 then (rp, d', Some PendingWrite)
             else (rp\<lparr>rp_offset := rp_offset rp + k\<rparr>, d', Some PollReady)
         | (d', BrokenPipe) \<Rightarrow> some_poll (read_finish rp d')))"

definition read_error_message :: "string \<Rightarrow> io_error \<Rightarrow> string" where
  "read_error_message label err =
     ''wasmsh: '' @ label @ '': streaming pipeline read error: '' @ err_message err @ [ch_newline]"

definition read_fill_from_reader ::
  "stage_env \<Rightarrow> read_process \<Rightarrow> (read_process, poll option) io" where
  "read_fill_from_reader e rp =
     (case rp_reader rp of
        None \<Rightarrow> Some (rp, Panic ''pipe read process polled after reader finished'')
      | Some b \<Rightarrow>
          (case boxed_read e feed_read b 4096 of
             None \<Rightarrow> None
           | Some (b', Ok bs) \<Rightarrow>
               if bs = [] then Some (rp\<lparr>rp_reader := Some b', rp_reader_done := True\<rparr>, Ok None)
               else Some (rp\<lparr>rp_reader := Some b', rp_pending := rp_pending rp @ bs\<rparr>, Ok None)
           | Some (b', Err err) \<Rightarrow>
               if would_block err then Some (rp\<lparr>rp_reader := Some b'\<rparr>, Ok (Some PendingRead))
               else
                 Some (rp\<lparr>rp_reader := Some b', rp_status := 1,
                         rp_stderr := rp_stderr rp @ read_error_message (rp_label rp) err,
                         rp_reader_done := True\<rparr>, Ok None)
           | Some (b', Panic m) \<Rightarrow> Some (rp\<lparr>rp_reader := Some b'\<rparr>, Panic m)))"

partial_function (option) read_poll_loop ::
  "stage_env \<Rightarrow> read_process \<Rightarrow> downstream \<Rightarrow> (read_process \<times> downstream, poll) io" where
  "read_poll_loop e rp d =
     (case read_drain_pending rp d of
        (rp1, d1, Some poll) \<Rightarrow> Some ((rp1, d1), Ok poll)
      | (rp1, d1, None) \<Rightarrow>
          (case poll_stderr rp1 d1 of
             (rp2, d2, Some poll) \<Rightarrow> Some ((rp2, d2), Ok poll)
           | (rp2, d2, None) \<Rightarrow>
               if rp_reader_done rp2 then
                 (case read_finish rp2 d2 of (rp3, d3, poll) \<Rightarrow> Some ((rp3, d3), Ok poll))
               else
                 (case read_fill_from_reader e rp2 of
                    None \<Rightarrow> None
                  | Some (rp3, Ok (Some poll)) \<Rightarrow> Some ((rp3, d2), Ok poll)
                  | Some (rp3, Ok None) \<Rightarrow> read_poll_loop e rp3 d2
                  | Some (rp3, Err err) \<Rightarrow> Some ((rp3, d2), Err err)
                  | Some (rp3, Panic m) \<Rightarrow> Some ((rp3, d2), Panic m))))"

definition read_process_poll ::
  "stage_env \<Rightarrow> read_process \<Rightarrow> downstream \<Rightarrow> (read_process \<times> downstream, poll) io" where
  "read_process_poll e rp d =
     (if rp_finished rp then Some ((rp, d), Ok Exited) else read_poll_loop e rp d)"

section \<open>Polling \<open>head\<close>\<close>

definition head_close_input :: "head_process \<Rightarrow> head_process" where
  "head_close_input hp =
     (if hp_input_closed hp then hp
      else hp\<lparr>hp_input := pipe_close_read (hp_input hp), hp_input_closed := True\<rparr>)"

definition head_finish :: "head_process \<Rightarrow> downstream \<Rightarrow> head_process \<times> downstream \<times> poll" where
  "head_finish hp d = ((head_close_input hp)\<lparr>hp_finished := True\<rparr>, down_close d, Exited)"

definition head_try_flush_pending ::
  "head_process \<Rightarrow> downstream \<Rightarrow> head_process \<times> downstream \<times> poll option" where
  "head_try_flush_pending hp d =
     (if hp_offset hp \<ge> length (hp_pending hp) then (hp, d, None)
      else
        (case down_write d (drop (hp_offset hp) (hp_pending hp)) of
           (d', Written k) \<Rightarrow>
             if hp_offset hp + k = length (hp_pending hp) then
               let hp' = hp\<lparr>hp_pending := [], hp_offset := 0\<rparr>
               in if hp_complete hp' then some_poll (head_finish hp' d') else (hp', d', Some PollReady)
             else (hp\<lparr>hp_offset := hp_offset hp + k\<rparr>, d', Some PollReady)
         | (d', WriteWouldBlock k) \<Rightarrow>
             if k = 0 then (hp, d', Some PendingWrite)
             else (hp\<lparr>hp_offset := hp_offset hp + k\<rparr>, d', Some PollReady)
         | (d', BrokenPipe) \<Rightarrow> some_poll (head_finish hp d')))"

definition update_head_limit :: "head_process \<Rightarrow> char \<Rightarrow> nat \<Rightarrow> head_process" where
  "update_head_limit hp byte read =
     (case hp_mode hp of
        HeadBytes remaining \<Rightarrow>
          let hp' = hp\<lparr>hp_mode := HeadBytes (remaining - read)\<rparr>
          in if remaining - read = 0 then head_close_input (hp'\<lparr>hp_complete := True\<rparr>) else hp'
      | HeadLines limit \<Rightarrow>
          if byte = ch_newline then
            let hp' = hp\<lparr>hp_lines_seen := hp_lines_seen hp + 1\<rparr>
            in if hp_lines_seen hp' \<ge> limit then head_close_input (hp'\<lparr>hp_complete := True\<rparr>) else hp'
          else hp)"

partial_function (option) head_poll_loop ::
  "head_process \<Rightarrow> downstream \<Rightarrow> (head_process \<times> downstream, poll) io" where
  "head_poll_loop hp d =
     (case head_try_flush_pending hp d of
        (hp1, d1, Some poll) \<Rightarrow> Some ((hp1, d1), Ok poll)
      | (hp1, d1, None) \<Rightarrow>
          if hp_complete hp1 then
            (case head_finish hp1 d1 of (hp2, d2, poll) \<Rightarrow> Some ((hp2, d2), Ok poll))
          else
            (case pipe_read (hp_input hp1) [0] of
               Ok (p, one, Read k) \<Rightarrow>
                 head_poll_loop
                   (update_head_limit
                     (hp1\<lparr>hp_input := p, hp_pending := hp_pending hp1 @ map pipe_char (take k one)\<rparr>)
                     (pipe_char (hd one)) k) d1
             | Ok (p, one, ReadWouldBlock) \<Rightarrow> Some ((hp1\<lparr>hp_input := p\<rparr>, d1), Ok PendingRead)
             | Ok (p, one, Eof) \<Rightarrow>
                 head_poll_loop (head_close_input (hp1\<lparr>hp_input := p, hp_complete := True\<rparr>)) d1
             | Err _ \<Rightarrow> None
             | Panic m \<Rightarrow> Some ((hp1, d1), Panic m)))"

definition head_process_poll ::
  "head_process \<Rightarrow> downstream \<Rightarrow> (head_process \<times> downstream, poll) io" where
  "head_process_poll hp d =
     (if hp_finished hp then Some ((hp, d), Ok Exited) else head_poll_loop hp d)"

section \<open>The scheduler\<close>

fun process_poll :: "stage_env \<Rightarrow> process \<Rightarrow> downstream \<Rightarrow> (process \<times> downstream, poll) io" where
  "process_poll e (ReadProcess rp) d =
     map_option (\<lambda>((rp', d'), res). ((ReadProcess rp', d'), res)) (read_process_poll e rp d)"
| "process_poll e (HeadProcess hp) d =
     map_option (\<lambda>((hp', d'), res). ((HeadProcess hp', d'), res)) (head_process_poll hp d)"

text \<open>A round polls every process that has not exited, the last one first.\<close>

fun poll_streaming_processes ::
  "stage_env \<Rightarrow> process list \<Rightarrow> pipe_buffer \<Rightarrow> (downstream, bool) io" where
  "poll_streaming_processes e [] fin = Some (([], fin), Ok False)"
| "poll_streaming_processes e (p # ps) fin =
     (case poll_streaming_processes e ps fin of
        None \<Rightarrow> None
      | Some ((ps', fin'), Ok progressed) \<Rightarrow>
          if process_finished p then Some ((p # ps', fin'), Ok progressed)
          else
            (case process_poll e p (ps', fin') of
               None \<Rightarrow> None
             | Some ((p', (ps'', fin'')), Ok poll) \<Rightarrow>
                 Some ((p' # ps'', fin''), Ok (progressed \<or> poll = PollReady \<or> poll = Exited))
             | Some ((p', (ps'', fin'')), Err err) \<Rightarrow> Some ((p' # ps'', fin''), Err err)
             | Some ((p', (ps'', fin'')), Panic m) \<Rightarrow> Some ((p' # ps'', fin''), Panic m))
      | Some ((ps', fin'), Err err) \<Rightarrow> Some ((p # ps', fin'), Err err)
      | Some ((ps', fin'), Panic m) \<Rightarrow> Some ((p # ps', fin'), Panic m))"

text \<open>The last pipe is emptied into the standard output.\<close>

partial_function (option) drain_final_pipe :: "pipe_buffer \<Rightarrow> string \<Rightarrow> (pipe_buffer \<times> string) option" where
  "drain_final_pipe fin out =
     (case pipe_read fin (replicate 4096 0) of
        Ok (fin', buf, Read k) \<Rightarrow> drain_final_pipe fin' (out @ map pipe_char (take k buf))
      | Ok (fin', _, _) \<Rightarrow> Some (fin', out)
      | _ \<Rightarrow> None)"

text \<open>The driver, for runs that hit no resource limit.\<close>

partial_function (option) drive_streaming_pipeline ::
  "stage_env \<Rightarrow> process list \<Rightarrow> pipe_buffer \<Rightarrow> string \<Rightarrow> (downstream, string) io" where
  "drive_streaming_pipeline e ps fin out =
     (case poll_streaming_processes e ps fin of
        None \<Rightarrow> None
      | Some ((ps1, fin1), Ok polled) \<Rightarrow>
          (case drain_final_pipe fin1 [] of
             None \<Rightarrow> None
           | Some (fin2, bs) \<Rightarrow>
               if list_all process_finished ps1 \<or> \<not> (polled \<or> bs \<noteq> [])
               then Some ((ps1, fin2), Ok (out @ bs))
               else drive_streaming_pipeline e ps1 fin2 (out @ bs))
      | Some ((ps1, fin1), Err err) \<Rightarrow> Some ((ps1, fin1), Err err)
      | Some ((ps1, fin1), Panic m) \<Rightarrow> Some ((ps1, fin1), Panic m))"

text \<open>The processes of a pipeline: its source, and one for each later stage, behind pipes of one byte.\<close>

definition PIPEBUFFER_STREAMING_CAPACITY :: nat where
  "PIPEBUFFER_STREAMING_CAPACITY = 1"

definition source_process :: "feed \<Rightarrow> process" where
  "source_process f = ReadProcess (read_process_new (BoxCat f) ''source'' 0 False)"

definition later_process :: "stage \<Rightarrow> process" where
  "later_process st =
     (let input = pipe_new PIPEBUFFER_STREAMING_CAPACITY in
      case st of
        StageHead mode \<Rightarrow> HeadProcess (head_process_new input mode)
      | StageGrep _ _ \<Rightarrow>
          ReadProcess (read_process_new (wrap_stage (FromPipe input) st) ''stage'' 1 False)
      | _ \<Rightarrow> ReadProcess (read_process_new (wrap_stage (FromPipe input) st) ''stage'' 0 False))"

definition streaming_pipeline :: "stage_env \<Rightarrow> feed \<Rightarrow> stage list \<Rightarrow> (downstream, string) io" where
  "streaming_pipeline e f stages =
     drive_streaming_pipeline e (source_process f # map later_process stages)
       (pipe_new PIPEBUFFER_STREAMING_CAPACITY) []"

end
