(* ===== verification/Stream_Run.thy ===== *)
theory Stream_Run
  imports Stream_Process
begin

text \<open>
  What a streaming pipeline prints.  Each process has a rest, the bytes that it has still to write,
  as a function of what the process before it has still to write.  Polls move bytes from rests to
  pipes and keep the text that will come out at the end; a round without progress means that
  every process has exited; so the driver ends, and it has printed the stages' texts composed.
\<close>

section \<open>Pipes\<close>

lemma unat_of_char: "unat (of_char c :: 8 word) = (of_char c :: nat)"
proof -
  have "(of_char c :: nat) < 256" using mod_less_divisor [of 256 "of_char c :: nat"] by (simp del: mod_less_divisor)
  then have "unat (of_nat (of_char c) :: 8 word) = (of_char c :: nat)" by (simp add: unat_of_nat)
  then show ?thesis by (simp only: of_nat_of_char)
qed

lemma pipe_char_bytes [simp]: "map pipe_char (str_bytes s) = s"
  by (induction s) (simp_all add: str_bytes_def pipe_char_def unat_of_char)

lemma length_str_bytes [simp]: "length (str_bytes s) = length s"
  by (simp add: str_bytes_def)

lemma str_bytes_Nil [simp]: "str_bytes s = [] \<longleftrightarrow> s = []"
  by (simp add: str_bytes_def)

definition pipe_full :: "pipe_buffer \<Rightarrow> bool" where
  "pipe_full p \<longleftrightarrow> length (pipe_data p) \<ge> pipe_capacity p"

lemma pipe_write_cases:
  assumes "\<not> read_closed p" "bs \<noteq> []"
  obtains (some) k where "0 < k" "k \<le> length bs"
      "pipe_write p (str_bytes bs) = (p\<lparr>pipe_data := pipe_data p @ str_bytes (take k bs)\<rparr>,
         if k < length bs then WriteWouldBlock k else Written k)"
  | (full) "pipe_full p" "pipe_write p (str_bytes bs) = (p, WriteWouldBlock 0)"
proof (cases "pipe_full p")
  case True
  then show ?thesis using full assms by (simp add: pipe_write_def pipe_full_def)
next
  case False
  let ?k = "min (length bs) (pipe_capacity p - length (pipe_data p))"
  show ?thesis
    by (rule some [of ?k]) (use assms False in \<open>auto simp: pipe_write_def pipe_full_def Let_def str_bytes_def take_map\<close>)
qed

section \<open>What is still to be written\<close>

definition head_process_text :: "head_mode \<Rightarrow> nat \<Rightarrow> string \<Rightarrow> string" where
  "head_process_text mode seen s =
     (case mode of
        HeadBytes k \<Rightarrow> take (max 1 k) s
      | HeadLines limit \<Rightarrow> first_lines (max 1 (limit - seen)) s)"

fun process_rest :: "stage_env \<Rightarrow> string \<Rightarrow> process \<Rightarrow> string" where
  "process_rest e fut (ReadProcess rp) =
     (if rp_finished rp then []
      else drop (rp_offset rp) (rp_pending rp) @
        (if rp_reader_done rp then []
         else (case rp_reader rp of None \<Rightarrow> [] | Some b \<Rightarrow> boxed_content e (feed_content fut) b)))"
| "process_rest e fut (HeadProcess hp) =
     (if hp_finished hp then []
      else drop (hp_offset hp) (hp_pending hp) @
        (if hp_complete hp then []
         else head_process_text (hp_mode hp) (hp_lines_seen hp) (pipe_content fut (hp_input hp))))"

text \<open>The invariant of a process, and when its input will not stall.\<close>

fun process_ok :: "bool \<Rightarrow> string \<Rightarrow> process \<Rightarrow> bool" where
  "process_ok piped fut (ReadProcess rp) =
     (if rp_finished rp then rp_reader rp = None
      else rp_stderr rp = [] \<and> rp_offset rp \<le> length (rp_pending rp) \<and>
        (\<exists>b. rp_reader rp = Some b \<and> boxed_good (feed_good piped fut) b))"
| "process_ok piped fut (HeadProcess hp) =
     (if hp_finished hp then read_closed (hp_input hp)
      else hp_offset hp \<le> length (hp_pending hp) \<and> (hp_input_closed hp \<longleftrightarrow> hp_complete hp) \<and>
        (if hp_complete hp then read_closed (hp_input hp) else pipe_good fut (hp_input hp)))"

fun no_stall :: "process \<Rightarrow> bool" where
  "no_stall (ReadProcess rp) = (case rp_reader rp of None \<Rightarrow> True | Some b \<Rightarrow> feed_stalls (box_inner b) = 0)"
| "no_stall (HeadProcess hp) = (write_closed (hp_input hp) \<or> hp_complete hp \<or> hp_finished hp)"

text \<open>A process that reads nothing any more.\<close>

fun deaf :: "process \<Rightarrow> bool" where
  "deaf (ReadProcess rp) = rp_finished rp"
| "deaf (HeadProcess hp) = (hp_finished hp \<or> hp_complete hp)"

fun input_empty :: "process \<Rightarrow> bool" where
  "input_empty (ReadProcess rp) = (case rp_reader rp of None \<Rightarrow> False | Some b \<Rightarrow> feed_waits (box_inner b))"
| "input_empty (HeadProcess hp) = pipe_waits (hp_input hp)"

text \<open>The chain behind a process that has still \<open>fut\<close> to write.\<close>

fun chain_out :: "stage_env \<Rightarrow> string \<Rightarrow> process list \<Rightarrow> string" where
  "chain_out e fut [] = fut"
| "chain_out e fut (p # ps) = chain_out e (process_rest e fut p) ps"

fun chain_ok :: "stage_env \<Rightarrow> bool \<Rightarrow> string \<Rightarrow> bool \<Rightarrow> process list \<Rightarrow> pipe_buffer \<Rightarrow> bool" where
  "chain_ok e piped fut up [] fin = (\<not> read_closed fin \<and> 0 < pipe_capacity fin)"
| "chain_ok e piped fut up (p # ps) fin =
     (process_ok piped fut p \<and> (up \<longrightarrow> no_stall p) \<and>
      chain_ok e True (process_rest e fut p) (process_finished p) ps fin)"

fun rests :: "stage_env \<Rightarrow> string \<Rightarrow> process list \<Rightarrow> string list" where
  "rests e fut [] = []"
| "rests e fut (p # ps) = process_rest e fut p # rests e (process_rest e fut p) ps"

definition stream_out :: "stage_env \<Rightarrow> string \<Rightarrow> downstream \<Rightarrow> string" where
  "stream_out e fut d = map pipe_char (pipe_data (snd d)) @ chain_out e fut (fst d)"

section \<open>Writing downstream\<close>

lemma pipe_content_write:
  "k \<le> length bs \<Longrightarrow>
     pipe_content (drop k bs @ rest) (p\<lparr>pipe_data := pipe_data p @ str_bytes (take k bs)\<rparr>) = pipe_content (bs @ rest) p"
  by (simp add: pipe_content_def)

lemma deaf_rest: "deaf p \<Longrightarrow> process_rest e fut p = process_rest e fut' p"
  by (cases p) auto

lemma pipe_full_not_empty: "pipe_full p \<Longrightarrow> 0 < pipe_capacity p \<Longrightarrow> \<not> pipe_waits p"
  by (auto simp: pipe_full_def pipe_waits_def)

lemma input_write_cases:
  assumes "process_ok True (bs @ rest) p" "bs \<noteq> []"
  obtains (some) k p' where "0 < k" "k \<le> length bs"
      "input_write p bs = (p', if k < length bs then WriteWouldBlock k else Written k)"
      "process_rest e (drop k bs @ rest) p' = process_rest e (bs @ rest) p"
      "process_finished p' = process_finished p" "process_ok True (drop k bs @ rest) p'"
  | (full) "input_write p bs = (p, WriteWouldBlock 0)" "\<not> input_empty p" "\<not> deaf p"
  | (broken) "input_write p bs = (p, BrokenPipe)" "deaf p"
proof (cases p)
  case (ReadProcess rp)
  show ?thesis
  proof (cases "rp_finished rp")
    case True
    then show ?thesis using assms ReadProcess broken by simp
  next
    case False
    then obtain b where b: "rp_reader rp = Some b" "boxed_good (feed_good True (bs @ rest)) b"
      using assms(1) ReadProcess by auto
    then obtain q where q: "box_inner b = FromPipe q" "pipe_good (bs @ rest) q"
      using boxed_good_input [OF b(2)] by (cases "box_inner b") (auto simp: feed_good_def)
    have opn: "\<not> read_closed q" "0 < pipe_capacity q" "\<not> write_closed q"
      using q(2) assms(2) by (auto simp: pipe_good_def)
    from opn(1) assms(2) show ?thesis
    proof (cases rule: pipe_write_cases)
      case (some k)
      let ?q' = "q\<lparr>pipe_data := pipe_data q @ str_bytes (take k bs)\<rparr>"
      let ?b' = "set_box_inner (FromPipe ?q') b"
      have "feed_content (drop k bs @ rest) (FromPipe ?q') = feed_content (bs @ rest) (box_inner b)"
        using some(2) pipe_content_write by (simp add: feed_content_def q(1))
      then have "boxed_content e (feed_content (drop k bs @ rest)) ?b' = boxed_content e (feed_content (bs @ rest)) b"
        by (rule boxed_content_inner)
      moreover have "boxed_good (feed_good True (drop k bs @ rest)) ?b' = boxed_good (feed_good True (bs @ rest)) b"
        by (rule boxed_good_inner) (use q opn in \<open>simp add: feed_good_def pipe_good_def\<close>)
      ultimately show ?thesis
        by (intro that(1) [of k "ReadProcess (rp\<lparr>rp_reader := Some ?b'\<rparr>)"])
          (use some False b q assms(1) ReadProcess in \<open>auto\<close>)
    next
      case full
      moreover have "set_box_inner (FromPipe q) b = b" using q(1) by (cases b) auto
      ultimately show ?thesis using that(2) b q ReadProcess opn pipe_full_not_empty False
        by (simp add: feed_waits_def)
    qed
  qed
next
  case (HeadProcess hp)
  show ?thesis
  proof (cases "hp_finished hp \<or> hp_complete hp")
    case True
    then show ?thesis using assms(1,2) HeadProcess broken
      by (auto simp: pipe_write_def split: if_splits)
  next
    case False
    let ?q = "hp_input hp"
    have q: "pipe_good (bs @ rest) ?q" "\<not> read_closed ?q" "0 < pipe_capacity ?q" "\<not> write_closed ?q"
      using False assms(1,2) HeadProcess by (auto simp: pipe_good_def)
    from q(2) assms(2) show ?thesis
    proof (cases rule: pipe_write_cases)
      case (some k)
      then show ?thesis
        by (intro that(1) [of k "HeadProcess (hp\<lparr>hp_input := ?q\<lparr>pipe_data := pipe_data ?q @ str_bytes (take k bs)\<rparr>\<rparr>)"])
          (use False q assms(1) HeadProcess pipe_content_write in \<open>auto simp: pipe_good_def\<close>)
    next
      case full
      then show ?thesis using that(2) HeadProcess q pipe_full_not_empty False by simp
    qed
  qed
qed

text \<open>
  A write downstream moves bytes into the next pipe and keeps everything behind it; a broken pipe
  means that nobody listens.
\<close>

definition hears :: "downstream \<Rightarrow> bool" where
  "hears d = (case fst d of [] \<Rightarrow> True | p # _ \<Rightarrow> \<not> deaf p)"

definition down_empty :: "downstream \<Rightarrow> bool" where
  "down_empty d = (case fst d of [] \<Rightarrow> pipe_waits (snd d) | p # _ \<Rightarrow> input_empty p)"

abbreviation down_ok :: "stage_env \<Rightarrow> string \<Rightarrow> bool \<Rightarrow> downstream \<Rightarrow> bool" where
  "down_ok e fut up d \<equiv> chain_ok e True fut up (fst d) (snd d)"

abbreviation down_rests :: "stage_env \<Rightarrow> string \<Rightarrow> downstream \<Rightarrow> string list" where
  "down_rests e fut d \<equiv> rests e fut (fst d)"

lemma down_write_cases:
  assumes "down_ok e (bs @ rest) False d" "bs \<noteq> []"
  obtains (some) k d' where "0 < k" "k \<le> length bs"
      "down_write d bs = (d', if k < length bs then WriteWouldBlock k else Written k)"
      "down_ok e (drop k bs @ rest) False d'"
      "stream_out e (drop k bs @ rest) d' = stream_out e (bs @ rest) d"
      "down_rests e (drop k bs @ rest) d' = down_rests e (bs @ rest) d"
      "map process_finished (fst d') = map process_finished (fst d)"
  | (full) "down_write d bs = (d, WriteWouldBlock 0)" "\<not> down_empty d" "hears d"
  | (broken) "down_write d bs = (d, BrokenPipe)" "\<not> hears d"
proof (cases "fst d")
  case Nil
  obtain fin where d: "d = ([], fin)" using Nil by (cases d) auto
  have fin: "\<not> read_closed fin" "0 < pipe_capacity fin" using assms(1) by (simp_all add: d)
  from fin(1) assms(2) show ?thesis
  proof (cases rule: pipe_write_cases)
    case (some k)
    then show ?thesis
      by (intro that(1) [of k "([], fin\<lparr>pipe_data := pipe_data fin @ str_bytes (take k bs)\<rparr>)"])
        (use fin in \<open>auto simp: d stream_out_def\<close>)
  next
    case full
    then show ?thesis using that(2) fin pipe_full_not_empty by (simp add: d down_empty_def hears_def)
  qed
next
  case (Cons p ps)
  obtain fin where d: "d = (p # ps, fin)" using Cons by (cases d) auto
  have ok: "process_ok True (bs @ rest) p" using assms(1) by (simp add: d)
  from ok assms(2) show ?thesis
  proof (cases rule: input_write_cases [where e = e])
    case (some k p')
    then show ?thesis
      by (intro that(1) [of k "(p' # ps, fin)"]) (use assms(1) in \<open>auto simp: d stream_out_def\<close>)
  next
    case full
    then show ?thesis using that(2) by (simp add: d down_empty_def hears_def)
  next
    case broken
    then show ?thesis using that(3) by (simp add: d hears_def)
  qed
qed

lemma input_close_law:
  assumes "process_ok True fut p" "fut = [] \<or> deaf p"
  shows "process_ok True [] (input_close p)" "no_stall (input_close p)"
    "process_rest e [] (input_close p) = process_rest e fut p"
    "process_finished (input_close p) = process_finished p"
proof -
  have "process_ok True [] (input_close p) \<and> no_stall (input_close p) \<and>
    process_rest e [] (input_close p) = process_rest e fut p \<and>
    process_finished (input_close p) = process_finished p"
  proof (cases p)
    case (ReadProcess rp)
    show ?thesis
    proof (cases "rp_finished rp")
      case True
      then show ?thesis using assms ReadProcess by simp
    next
      case False
      then have fut: "fut = []" using assms(2) ReadProcess by simp
      from False obtain b where b: "rp_reader rp = Some b" "boxed_good (feed_good True []) b"
        using assms(1) ReadProcess fut by auto
      then obtain q where q: "box_inner b = FromPipe q" "pipe_good [] q"
        using boxed_good_input [OF b(2)] by (cases "box_inner b") (auto simp: feed_good_def)
      let ?b' = "set_box_inner (FromPipe (pipe_close_write q)) b"
      have "boxed_content e (feed_content []) ?b' = boxed_content e (feed_content []) b"
        by (rule boxed_content_inner) (simp add: q feed_content_def pipe_content_def pipe_close_write_def)
      moreover have "boxed_good (feed_good True []) ?b' = boxed_good (feed_good True []) b"
        by (rule boxed_good_inner) (use q in \<open>simp add: feed_good_def pipe_good_def pipe_close_write_def\<close>)
      moreover have "feed_stalls (FromPipe (pipe_close_write q)) = 0"
        by (simp add: feed_stalls_def pipe_stalls_def pipe_close_write_def)
      ultimately show ?thesis using assms(1) False b q fut ReadProcess by simp
    qed
  next
    case (HeadProcess hp)
    then show ?thesis using assms
      by (cases "hp_finished hp \<or> hp_complete hp")
        (auto simp: pipe_close_write_def pipe_good_def pipe_content_def)
  qed
  then show "process_ok True [] (input_close p)" "no_stall (input_close p)"
    "process_rest e [] (input_close p) = process_rest e fut p"
    "process_finished (input_close p) = process_finished p" by simp_all
qed

lemma down_close_law:
  assumes "down_ok e fut False d" "fut = [] \<or> \<not> hears d"
  shows "down_ok e [] True (down_close d)" "stream_out e [] (down_close d) = stream_out e fut d"
    "down_rests e [] (down_close d) = down_rests e fut d"
    "map process_finished (fst (down_close d)) = map process_finished (fst d)"
proof -
  have "down_ok e [] True (down_close d) \<and> stream_out e [] (down_close d) = stream_out e fut d \<and>
    down_rests e [] (down_close d) = down_rests e fut d \<and>
    map process_finished (fst (down_close d)) = map process_finished (fst d)"
  proof (cases "fst d")
    case Nil
    then show ?thesis using assms by (cases d) (auto simp: pipe_close_write_def stream_out_def hears_def)
  next
    case (Cons p ps)
    obtain fin where d: "d = (p # ps, fin)" using Cons by (cases d) auto
    have p: "process_ok True fut p" "fut = [] \<or> deaf p" using assms by (auto simp: d hears_def)
    show ?thesis using assms(1) input_close_law [OF p] by (auto simp: d stream_out_def)
  qed
  then show "down_ok e [] True (down_close d)" "stream_out e [] (down_close d) = stream_out e fut d"
    "down_rests e [] (down_close d) = down_rests e fut d"
    "map process_finished (fst (down_close d)) = map process_finished (fst d)" by simp_all
qed

section \<open>Polling\<close>

text \<open>What a poll of an unfinished process does.\<close>

definition poll_law ::
  "stage_env \<Rightarrow> bool \<Rightarrow> string \<Rightarrow> process \<Rightarrow> downstream \<Rightarrow> process \<Rightarrow> downstream \<Rightarrow> poll \<Rightarrow> bool" where
  "poll_law e piped fut p d p' d' poll \<longleftrightarrow>
     process_ok piped fut p' \<and> (no_stall p \<longrightarrow> no_stall p') \<and>
     down_ok e (process_rest e fut p') (process_finished p') d' \<and>
     stream_out e (process_rest e fut p') d' = stream_out e (process_rest e fut p) d \<and>
     down_rests e (process_rest e fut p') d' = down_rests e (process_rest e fut p) d \<and>
     map process_finished (fst d') = map process_finished (fst d) \<and>
     (case poll of
        PollReady \<Rightarrow> \<not> process_finished p' \<and> length (process_rest e fut p') < length (process_rest e fut p)
      | Exited \<Rightarrow> process_finished p'
      | PendingRead \<Rightarrow> \<not> process_finished p' \<and> process_rest e fut p' = process_rest e fut p \<and> d' = d \<and>
          \<not> no_stall p \<and> input_empty p'
      | PendingWrite \<Rightarrow> \<not> process_finished p' \<and> process_rest e fut p' = process_rest e fut p \<and> d' = d \<and>
          \<not> down_empty d \<and> hears d)"

lemma poll_law_from:
  assumes "poll_law e piped fut p1 d p' d' poll" "process_rest e fut p1 = process_rest e fut p"
    "no_stall p \<longrightarrow> no_stall p1"
  shows "poll_law e piped fut p d p' d' poll"
  using assms by (cases poll) (auto simp: poll_law_def)

text \<open>A finished process has closed the pipe behind it.\<close>

lemma poll_law_exit:
  assumes "down_ok e (process_rest e fut p) False d" "process_rest e fut p = [] \<or> \<not> hears d"
    and "process_ok piped fut p'" "no_stall p'" "process_finished p'" "process_rest e fut p' = []"
  shows "poll_law e piped fut p d p' (down_close d) Exited"
  using assms down_close_law [OF assms(1,2)] by (simp add: poll_law_def)

text \<open>A process that writes some of its pending bytes.\<close>

lemma poll_law_write:
  assumes "0 < k" "k \<le> length bs" "down_ok e (drop k bs @ rest) False d'"
      "stream_out e (drop k bs @ rest) d' = stream_out e (bs @ rest) d"
      "down_rests e (drop k bs @ rest) d' = down_rests e (bs @ rest) d"
      "map process_finished (fst d') = map process_finished (fst d)"
    and "process_rest e fut p = bs @ rest" "process_rest e fut p' = drop k bs @ rest"
      "process_ok piped fut p'" "no_stall p \<longrightarrow> no_stall p'" "\<not> process_finished p'"
  shows "poll_law e piped fut p d p' d' PollReady"
  using assms by (simp add: poll_law_def)

lemma poll_law_wait:
  assumes "\<not> down_empty d" "hears d" "process_ok piped fut p" "\<not> process_finished p"
    "down_ok e (process_rest e fut p) False d"
  shows "poll_law e piped fut p d p d PendingWrite"
  using assms by (simp add: poll_law_def)

lemma read_drain_law:
  assumes ok: "process_ok piped fut (ReadProcess rp)" "\<not> rp_finished rp" "rp_offset rp < length (rp_pending rp)"
    and down: "down_ok e (process_rest e fut (ReadProcess rp)) False d"
  shows "\<exists>rp' d' poll. read_drain_pending rp d = (rp', d', Some poll) \<and>
    poll_law e piped fut (ReadProcess rp) d (ReadProcess rp') d' poll"
proof -
  define bs where "bs = drop (rp_offset rp) (rp_pending rp)"
  define rest where "rest = (if rp_reader_done rp then []
    else (case rp_reader rp of None \<Rightarrow> [] | Some b \<Rightarrow> boxed_content e (feed_content fut) b))"
  have bs: "bs \<noteq> []" and len: "length bs = length (rp_pending rp) - rp_offset rp" using ok(3) by (simp_all add: bs_def)
  have r: "process_rest e fut (ReadProcess rp) = bs @ rest" using ok(2) by (simp add: bs_def rest_def)
  have d: "down_ok e (bs @ rest) False d" using down r by simp
  note here = read_drain_pending_def [of rp d, folded bs_def]
  from d bs show ?thesis
  proof (cases rule: down_write_cases)
    case (some k d')
    define rp' where "rp' = (if k = length bs then rp\<lparr>rp_pending := [], rp_offset := 0\<rparr>
      else rp\<lparr>rp_offset := rp_offset rp + k\<rparr>)"
    have "process_rest e fut (ReadProcess rp') = drop k bs @ rest"
      using ok(2) some(2) by (auto simp: rp'_def rest_def bs_def add.commute)
    then have "poll_law e piped fut (ReadProcess rp) d (ReadProcess rp') d' PollReady"
      using ok some(2) len by (intro poll_law_write [OF some(1,2,4-7) r]) (auto simp: rp'_def)
    moreover have "read_drain_pending rp d = (rp', d', Some PollReady)"
      using ok(3) some(1-3) len by (auto simp: here rp'_def)
    ultimately show ?thesis by blast
  next
    case full
    then show ?thesis using ok poll_law_wait [OF full(2,3) ok(1)] down by (simp add: here)
  next
    case broken
    let ?rp' = "rp\<lparr>rp_reader := None, rp_finished := True\<rparr>"
    have "poll_law e piped fut (ReadProcess rp) d (ReadProcess ?rp') (down_close d) Exited"
      by (rule poll_law_exit) (use down broken(2) in simp_all)
    then show ?thesis using ok(3) broken(1) by (simp add: here read_finish_def some_poll_def)
  qed
qed

lemma read_loop_law:
  assumes ok: "process_ok piped fut (ReadProcess rp)" "\<not> rp_finished rp"
    and down: "down_ok e (process_rest e fut (ReadProcess rp)) False d"
  shows "\<exists>rp' d' poll. read_poll_loop e rp d = Some ((rp', d'), Ok poll) \<and>
    poll_law e piped fut (ReadProcess rp) d (ReadProcess rp') d' poll"
proof -
  have drain: ?thesis if "process_ok piped fut (ReadProcess r)" "\<not> rp_finished r" "rp_offset r < length (rp_pending r)"
      "process_rest e fut (ReadProcess r) = process_rest e fut (ReadProcess rp)"
      "no_stall (ReadProcess rp) \<longrightarrow> no_stall (ReadProcess r)" "read_poll_loop e rp d = read_poll_loop e r d" for r
    using read_drain_law [OF that(1-3), of e d] down that(4-6) poll_law_from
    by (fastforce simp: read_poll_loop.simps [of e r])
  have finish: ?thesis if "rp_offset r \<ge> length (rp_pending r)" "rp_stderr r = []" "rp_reader_done r"
      "process_rest e fut (ReadProcess rp) = []" "read_poll_loop e rp d = read_poll_loop e r d" for r
  proof -
    have "poll_law e piped fut (ReadProcess rp) d (ReadProcess (r\<lparr>rp_reader := None, rp_finished := True\<rparr>)) (down_close d) Exited"
      by (rule poll_law_exit) (use down that(4) in simp_all)
    then show ?thesis using that
      by (simp add: read_poll_loop.simps [of e r] read_drain_pending_def poll_stderr_def read_finish_def)
  qed
  have std: "rp_stderr rp = []" and off: "rp_offset rp \<le> length (rp_pending rp)"
    using ok by auto
  obtain b where b: "rp_reader rp = Some b" "boxed_good (feed_good piped fut) b" using ok by auto
  consider (pending) "rp_offset rp < length (rp_pending rp)"
    | (ended) "rp_offset rp = length (rp_pending rp)" "rp_reader_done rp"
    | (fill) "rp_offset rp = length (rp_pending rp)" "\<not> rp_reader_done rp"
    using off by linarith
  then show ?thesis
  proof cases
    case pending
    then show ?thesis using drain [of rp] ok by simp
  next
    case ended
    then show ?thesis using finish [of rp] std by simp
  next
    case fill
    have here: "read_poll_loop e rp d = (case read_fill_from_reader e rp of
                    None \<Rightarrow> None
                  | Some (rp3, Ok (Some poll)) \<Rightarrow> Some ((rp3, d), Ok poll)
                  | Some (rp3, Ok None) \<Rightarrow> read_poll_loop e rp3 d
                  | Some (rp3, Err err) \<Rightarrow> Some ((rp3, d), Err err)
                  | Some (rp3, Panic m) \<Rightarrow> Some ((rp3, d), Panic m))"
      using fill std by (simp add: read_poll_loop.simps [of e rp] read_drain_pending_def poll_stderr_def)
    from b(2) show ?thesis
    proof (cases rule: boxes.read_cases [where n = 4096 and e = e])
      case (got b' bs)
      show ?thesis
      proof (cases "bs = []")
        case True
        then show ?thesis
          using got b fill std finish [of "rp\<lparr>rp_reader := Some b', rp_reader_done := True\<rparr>"] ok(2)
          by (simp add: here read_fill_from_reader_def)
      next
        case False
        let ?r = "rp\<lparr>rp_reader := Some b', rp_pending := rp_pending rp @ bs\<rparr>"
        show ?thesis
          by (rule drain [of ?r])
            (use got b fill std ok False in \<open>auto simp: here read_fill_from_reader_def\<close>)
      qed
    next
      case (stall b' err)
      have "poll_law e piped fut (ReadProcess rp) d (ReadProcess (rp\<lparr>rp_reader := Some b'\<rparr>)) d PendingRead"
        using stall b fill std ok down by (auto simp: poll_law_def)
      then show ?thesis using stall b by (simp add: here read_fill_from_reader_def)
    qed
  qed
qed

text \<open>The poll of \<open>head\<close>.\<close>

lemma poll_law_then_exit:
  assumes "poll_law e piped fut p d p1 d1 PollReady" "poll_law e piped fut p1 d1 p2 d2 Exited"
  shows "poll_law e piped fut p d p2 d2 Exited"
  using assms by (auto simp: poll_law_def)

lemma head_exit_law:
  assumes "process_ok piped fut (HeadProcess hp)" "\<not> hp_finished hp"
    and "down_ok e (process_rest e fut (HeadProcess hp)) False d"
    and "process_rest e fut (HeadProcess hp) = [] \<or> \<not> hears d"
  obtains hp' where "head_finish hp d = (hp', down_close d, Exited)"
    "poll_law e piped fut (HeadProcess hp) d (HeadProcess hp') (down_close d) Exited"
proof -
  let ?hp' = "(head_close_input hp)\<lparr>hp_finished := True\<rparr>"
  have "poll_law e piped fut (HeadProcess hp) d (HeadProcess ?hp') (down_close d) Exited"
    by (rule poll_law_exit [OF assms(3,4)]) (use assms(1,2) in \<open>auto simp: head_close_input_def pipe_close_read_def\<close>)
  then show ?thesis using that by (simp add: head_finish_def)
qed

lemma head_drain_law:
  assumes ok: "process_ok piped fut (HeadProcess hp)" "\<not> hp_finished hp" "hp_offset hp < length (hp_pending hp)"
    and down: "down_ok e (process_rest e fut (HeadProcess hp)) False d"
  shows "\<exists>hp' d' poll. head_try_flush_pending hp d = (hp', d', Some poll) \<and>
    poll_law e piped fut (HeadProcess hp) d (HeadProcess hp') d' poll"
proof -
  define bs where "bs = drop (hp_offset hp) (hp_pending hp)"
  define rest where "rest = (if hp_complete hp then []
    else head_process_text (hp_mode hp) (hp_lines_seen hp) (pipe_content fut (hp_input hp)))"
  have bs: "bs \<noteq> []" and len: "length bs = length (hp_pending hp) - hp_offset hp" using ok(3) by (simp_all add: bs_def)
  have r: "process_rest e fut (HeadProcess hp) = bs @ rest" using ok(2) by (simp add: bs_def rest_def)
  have d: "down_ok e (bs @ rest) False d" using down r by simp
  note here = head_try_flush_pending_def [of hp d, folded bs_def]
  from d bs show ?thesis
  proof (cases rule: down_write_cases)
    case (some k d')
    define hp' where "hp' = (if k = length bs then hp\<lparr>hp_pending := [], hp_offset := 0\<rparr>
      else hp\<lparr>hp_offset := hp_offset hp + k\<rparr>)"
    have r': "process_rest e fut (HeadProcess hp') = drop k bs @ rest"
      using ok(2) some(2) by (auto simp: hp'_def rest_def bs_def add.commute)
    have ok': "process_ok piped fut (HeadProcess hp')" "\<not> hp_finished hp'"
      using ok some(2) len by (auto simp: hp'_def)
    have step: "poll_law e piped fut (HeadProcess hp) d (HeadProcess hp') d' PollReady"
      by (rule poll_law_write [OF some(1,2,4-7) r r' ok'(1)]) (use ok in \<open>auto simp: hp'_def\<close>)
    show ?thesis
    proof (cases "k = length bs \<and> hp_complete hp")
      case True
      then have nil: "process_rest e fut (HeadProcess hp') = []" by (simp add: r' rest_def del: process_rest.simps)
      obtain hp'' where "head_finish hp' d' = (hp'', down_close d', Exited)"
          "poll_law e piped fut (HeadProcess hp') d' (HeadProcess hp'') (down_close d') Exited"
        using head_exit_law [OF ok', of e d'] some(4) r' nil by auto
      moreover from this step have "poll_law e piped fut (HeadProcess hp) d (HeadProcess hp'') (down_close d') Exited"
        by (blast intro: poll_law_then_exit)
      moreover have "head_try_flush_pending hp d = some_poll (head_finish hp' d')"
        using True ok(3) some(1-3) len by (simp add: here hp'_def)
      ultimately show ?thesis by (simp add: some_poll_def)
    next
      case False
      then have "head_try_flush_pending hp d = (hp', d', Some PollReady)"
        using ok(3) some(1-3) len by (auto simp: here hp'_def)
      then show ?thesis using step by blast
    qed
  next
    case full
    then show ?thesis using ok poll_law_wait [OF full(2,3) ok(1)] down by (simp add: here)
  next
    case broken
    then obtain hp' where "head_finish hp d = (hp', down_close d, Exited)"
        "poll_law e piped fut (HeadProcess hp) d (HeadProcess hp') (down_close d) Exited"
      using head_exit_law [OF ok(1,2) down] by blast
    then show ?thesis using broken ok(3) by (simp add: here some_poll_def)
  qed
qed

lemma first_lines_Nil [simp]: "first_lines k [] = []"
  by (cases k) simp_all

lemma first_lines_Cons: "0 < k \<Longrightarrow> first_lines k (c # s) = c # first_lines (if c = ch_newline then k - 1 else k) s"
  by (cases k) simp_all

lemma head_text_step:
  fixes hp c
  assumes "\<not> hp_complete hp" "\<not> hp_input_closed hp"
  defines "hp' \<equiv> update_head_limit hp c 1"
  shows "head_process_text (hp_mode hp) (hp_lines_seen hp) (c # s) =
      c # (if hp_complete hp' then [] else head_process_text (hp_mode hp') (hp_lines_seen hp') s)"
    and "hp_input_closed hp' \<longleftrightarrow> hp_complete hp'"
    and "hp_input hp' = (if hp_complete hp' then pipe_close_read (hp_input hp) else hp_input hp)"
    and "hp_pending hp' = hp_pending hp" "hp_offset hp' = hp_offset hp" "hp_finished hp' = hp_finished hp"
  using assms(1,2) unfolding hp'_def
  by (auto simp: update_head_limit_def head_process_text_def head_close_input_def Let_def max_def
      first_lines_Cons take_Cons' split: head_mode.splits)

lemma head_loop_law:
  assumes ok: "process_ok piped fut (HeadProcess hp)" "\<not> hp_finished hp"
    and down: "down_ok e (process_rest e fut (HeadProcess hp)) False d"
  shows "\<exists>hp' d' poll. head_poll_loop hp d = Some ((hp', d'), Ok poll) \<and>
    poll_law e piped fut (HeadProcess hp) d (HeadProcess hp') d' poll"
proof -
  have drain: ?thesis if "process_ok piped fut (HeadProcess h)" "\<not> hp_finished h" "hp_offset h < length (hp_pending h)"
      "process_rest e fut (HeadProcess h) = process_rest e fut (HeadProcess hp)"
      "no_stall (HeadProcess hp) \<longrightarrow> no_stall (HeadProcess h)" "head_poll_loop hp d = head_poll_loop h d" for h
    using head_drain_law [OF that(1-3), of e d] down that(4-6) poll_law_from
    by (fastforce simp: head_poll_loop.simps [of h])
  have finish: ?thesis if "process_ok piped fut (HeadProcess h)" "\<not> hp_finished h" "hp_offset h \<ge> length (hp_pending h)"
      "hp_complete h" "process_rest e fut (HeadProcess hp) = []" "head_poll_loop hp d = head_poll_loop h d" for h
  proof -
    note h = that
    have nil: "process_rest e fut (HeadProcess h) = []" using h by simp
    obtain h' where "head_finish h d = (h', down_close d, Exited)"
        "poll_law e piped fut (HeadProcess h) d (HeadProcess h') (down_close d) Exited"
      using head_exit_law [OF h(1,2), of e d] down h(5) nil by auto
    moreover from this(2) have "poll_law e piped fut (HeadProcess hp) d (HeadProcess h') (down_close d) Exited"
      by (rule poll_law_from) (use nil h in simp_all)
    ultimately show ?thesis using h
      by (simp add: head_poll_loop.simps [of h] head_try_flush_pending_def)
  qed
  have off: "hp_offset hp \<le> length (hp_pending hp)" using ok by auto
  consider (pending) "hp_offset hp < length (hp_pending hp)"
    | (ended) "hp_offset hp = length (hp_pending hp)" "hp_complete hp"
    | (input) "hp_offset hp = length (hp_pending hp)" "\<not> hp_complete hp"
    using off by linarith
  then show ?thesis
  proof cases
    case pending
    then show ?thesis using drain [of hp] ok by simp
  next
    case ended
    then show ?thesis using finish [of hp] ok by simp
  next
    case input
    have good: "pipe_good fut (hp_input hp)" "\<not> hp_input_closed hp" using ok input by simp_all
    show ?thesis
    proof (cases "pipe_data (hp_input hp)")
      case Nil
      show ?thesis
      proof (cases "write_closed (hp_input hp)")
        case True
        show ?thesis
          by (rule finish [of "head_close_input (hp\<lparr>hp_complete := True\<rparr>)"])
            (use True Nil input ok good in \<open>auto simp: head_poll_loop.simps [of hp] head_try_flush_pending_def pipe_read_def
               head_close_input_def pipe_close_read_def pipe_content_def pipe_good_def head_process_text_def
               split: head_mode.split\<close>)
      next
        case False
        then have "poll_law e piped fut (HeadProcess hp) d (HeadProcess hp) d PendingRead"
          using ok down input Nil by (simp add: poll_law_def pipe_waits_def)
        then show ?thesis using Nil False input
          by (simp add: head_poll_loop.simps [of hp] head_try_flush_pending_def pipe_read_def)
      qed
    next
      case (Cons w ws)
      let ?h = "hp\<lparr>hp_input := (hp_input hp)\<lparr>pipe_data := ws\<rparr>, hp_pending := hp_pending hp @ [pipe_char w]\<rparr>"
      let ?h' = "update_head_limit ?h (pipe_char w) 1"
      have "head_poll_loop hp d = head_poll_loop ?h' d"
        using Cons input by (simp add: head_poll_loop.simps [of hp] head_try_flush_pending_def pipe_read_def pop_slots_take)
      moreover note head_text_step [of ?h "pipe_char w"]
      ultimately show ?thesis
        by (intro drain [of ?h'])
          (use Cons input ok good in \<open>auto simp: pipe_content_def pipe_good_def pipe_close_read_def\<close>)
    qed
  qed
qed

section \<open>Rounds\<close>

lemma process_poll_law:
  assumes "process_ok piped fut p" "\<not> process_finished p" "down_ok e (process_rest e fut p) False d"
  shows "\<exists>p' d' poll. process_poll e p d = Some ((p', d'), Ok poll) \<and> poll_law e piped fut p d p' d' poll"
proof (cases p)
  case (ReadProcess rp)
  then show ?thesis using read_loop_law [of piped fut rp e d] assms by (fastforce simp: read_process_poll_def)
next
  case (HeadProcess hp)
  then show ?thesis using head_loop_law [of piped fut hp e d] assms by (fastforce simp: head_process_poll_def)
qed

definition work :: "stage_env \<Rightarrow> string \<Rightarrow> process list \<Rightarrow> nat" where
  "work e fut ps = sum_list (map length (rests e fut ps)) + length (filter (Not \<circ> process_finished) ps)"

lemma finished_rest: "process_finished p \<Longrightarrow> process_rest e fut p = []"
  by (cases p) simp_all

lemma finished_deaf: "process_finished p \<Longrightarrow> deaf p"
  by (cases p) simp_all

lemma work_Nil [simp]: "work e fut [] = 0"
  by (simp add: work_def)

lemma work_Cons [simp]: "work e fut (p # ps) =
  length (process_rest e fut p) + (if process_finished p then 0 else 1) + work e (process_rest e fut p) ps"
  by (simp add: work_def)

lemma poll_law_work:
  assumes "poll_law e piped fut p d p' d' poll" "\<not> process_finished p"
  shows "if poll = PollReady \<or> poll = Exited then work e fut (p' # fst d') < work e fut (p # fst d)
    else work e fut (p' # fst d') = work e fut (p # fst d)"
proof -
  have "length (filter (Not \<circ> process_finished) (fst d')) = length (filter (Not \<circ> process_finished) (fst d))"
    using assms(1) by (auto simp: poll_law_def simp flip: length_filter_map)
  then show ?thesis using assms
    by (cases poll) (auto simp: poll_law_def work_def finished_rest)
qed

text \<open>
  A round keeps the text to come; with an empty last pipe it does some work, or every process
  waits for one before it, which cannot be when the first one does not stall.
\<close>

definition round_law :: "stage_env \<Rightarrow> bool \<Rightarrow> string \<Rightarrow> bool \<Rightarrow> downstream \<Rightarrow> downstream \<Rightarrow> bool \<Rightarrow> bool" where
  "round_law e piped fut up d d' progressed \<longleftrightarrow>
     chain_ok e piped fut up (fst d') (snd d') \<and> stream_out e fut d' = stream_out e fut d \<and>
     (if progressed then work e fut (fst d') < work e fut (fst d)
      else work e fut (fst d') = work e fut (fst d) \<and> (hears d' \<longrightarrow> down_empty d') \<and>
        (up \<longrightarrow> list_all process_finished (fst d')))"

lemma round_law_poll:
  assumes IH: "round_law e True (process_rest e fut p) False (ps, fin) d1 prog"
    and p: "process_ok piped fut p" "up \<longrightarrow> no_stall p" "\<not> process_finished p"
    and poll: "poll_law e piped fut p d1 p' (ps', fin') poll"
  shows "round_law e piped fut up (p # ps, fin) (p' # ps', fin') (prog \<or> poll = PollReady \<or> poll = Exited)"
  using assms poll_law_work [OF poll p(3)]
  by (cases poll; cases prog)
    (auto simp: round_law_def poll_law_def stream_out_def hears_def down_empty_def)

lemma round_correct:
  assumes "chain_ok e piped fut up ps fin" "pipe_waits fin"
  shows "\<exists>d' progressed. poll_streaming_processes e ps fin = Some (d', Ok progressed) \<and>
    round_law e piped fut up (ps, fin) d' progressed"
  using assms
proof (induction ps arbitrary: piped fut up)
  case Nil
  then have "round_law e piped fut up ([], fin) ([], fin) False" by (simp add: round_law_def down_empty_def)
  then show ?case by auto
next
  case (Cons p ps)
  obtain d1 prog where d1: "poll_streaming_processes e ps fin = Some (d1, Ok prog)"
      "round_law e True (process_rest e fut p) (process_finished p) (ps, fin) d1 prog"
    using Cons.IH [of True "process_rest e fut p" "process_finished p"] Cons.prems by auto
  show ?case
  proof (cases "process_finished p")
    case True
    then show ?thesis using d1 Cons.prems
      by (cases d1; cases prog) (auto simp: round_law_def stream_out_def hears_def finished_deaf)
  next
    case False
    have "down_ok e (process_rest e fut p) False d1" using d1(2) False by (simp add: round_law_def)
    then obtain p' d' poll where poll: "process_poll e p d1 = Some ((p', d'), Ok poll)" "poll_law e piped fut p d1 p' d' poll"
      using process_poll_law [of piped fut p e d1] Cons.prems False by auto
    show ?thesis
      using round_law_poll [of e fut p ps fin d1 prog piped up p' "fst d'" "snd d'" poll] poll d1 False Cons.prems
      by (cases d1; cases d') auto
  qed
qed

section \<open>The driver\<close>

lemma pipe_read_some:
  assumes "pipe_data p \<noteq> []" "0 < n"
  obtains buf k where "pipe_read p (replicate n 0) = Ok (p\<lparr>pipe_data := drop n (pipe_data p)\<rparr>, buf, Read k)"
    "take k buf = take n (pipe_data p)"
  using assms by (cases "n \<le> length (pipe_data p)") (simp_all add: pipe_read_def pop_slots_take min_def Let_def)

lemma pipe_read_none:
  "pipe_data p = [] \<Longrightarrow> 0 < n \<Longrightarrow>
     pipe_read p (replicate n 0) = Ok (p\<lparr>pipe_data := []\<rparr>, replicate n 0, if write_closed p then Eof else ReadWouldBlock)"
  by (cases p) (simp add: pipe_read_def)

lemma drain_final_pipe_all:
  "drain_final_pipe fin out = Some (fin\<lparr>pipe_data := []\<rparr>, out @ map pipe_char (pipe_data fin))"
proof (induction "length (pipe_data fin)" arbitrary: fin out rule: less_induct)
  case less
  show ?case
  proof (cases "pipe_data fin")
    case Nil
    then show ?thesis using pipe_read_none [of fin 4096] by (simp add: drain_final_pipe.simps [of fin])
  next
    case (Cons w ws)
    then obtain buf k where "pipe_read fin (replicate 4096 0) = Ok (fin\<lparr>pipe_data := drop 4096 (pipe_data fin)\<rparr>, buf, Read k)"
        "take k buf = take 4096 (pipe_data fin)"
      using pipe_read_some [of fin 4096] by auto
    moreover have "length (drop 4096 (pipe_data fin)) < length (pipe_data fin)" by (simp add: Cons)
    ultimately show ?thesis using less [of "fin\<lparr>pipe_data := drop 4096 (pipe_data fin)\<rparr>"]
      by (simp add: drain_final_pipe.simps [of fin] flip: map_append)
  qed
qed

lemma chain_ok_fin:
  "read_closed fin' = read_closed fin \<Longrightarrow> pipe_capacity fin' = pipe_capacity fin \<Longrightarrow>
     chain_ok e piped fut up ps fin' = chain_ok e piped fut up ps fin"
  by (induction ps arbitrary: piped fut up) auto

lemma chain_out_finished: "list_all process_finished ps \<Longrightarrow> chain_out e [] ps = []"
  by (induction ps) (auto simp: finished_rest)

lemma drive_correct:
  assumes "chain_ok e False [] True ps fin" "pipe_data fin = []"
  shows "\<exists>d. drive_streaming_pipeline e ps fin out = Some (d, Ok (out @ chain_out e [] ps)) \<and> list_all process_finished (fst d)"
  using assms
proof (induction "work e [] ps" arbitrary: ps fin out rule: less_induct)
  case less
  obtain ps1 fin1 prog where r: "poll_streaming_processes e ps fin = Some ((ps1, fin1), Ok prog)"
      "round_law e False [] True (ps, fin) (ps1, fin1) prog"
    using round_correct [of e False "[]" True ps fin] less.prems by (auto simp: pipe_waits_def)
  let ?bs = "map pipe_char (pipe_data fin1)" and ?fin2 = "fin1\<lparr>pipe_data := []\<rparr>"
  have out: "?bs @ chain_out e [] ps1 = chain_out e [] ps" and ok: "chain_ok e False [] True ps1 ?fin2"
    using r(2) less.prems(2) chain_ok_fin [of ?fin2 fin1] by (simp_all add: round_law_def stream_out_def)
  show ?case
  proof (cases "list_all process_finished ps1")
    case True
    then show ?thesis using r(1) out chain_out_finished [OF True]
      by (simp add: drive_streaming_pipeline.simps [of e ps] drain_final_pipe_all)
  next
    case False
    then have "prog" "work e [] ps1 < work e [] ps" using r(2) by (auto simp: round_law_def split: if_splits)
    then show ?thesis using less.hyps [OF _ ok, of "out @ ?bs"] r(1) False
      by (simp add: drive_streaming_pipeline.simps [of e ps] drain_final_pipe_all out)
  qed
qed

section \<open>What a pipeline prints\<close>

text \<open>
  The text of a later stage, which is that of its filter except for \<open>head\<close>: the process for \<open>head\<close> looks at
  its limit only after a byte.
\<close>

definition later_text :: "stage_env \<Rightarrow> stage \<Rightarrow> string \<Rightarrow> string" where
  "later_text e st s = (case st of StageHead mode \<Rightarrow> head_process_text mode 0 s | _ \<Rightarrow> stage_text e st s)"

lemma new_pipe_law:
  "pipe_good fut (pipe_new PIPEBUFFER_STREAMING_CAPACITY)" "pipe_content fut (pipe_new PIPEBUFFER_STREAMING_CAPACITY) = fut"
  by (simp_all add: pipe_good_def pipe_content_def pipe_new_def PIPEBUFFER_STREAMING_CAPACITY_def)

lemma later_process_reads:
  assumes "\<nexists>mode. st = StageHead mode"
  obtains status where "later_process st =
    ReadProcess (read_process_new (wrap_stage (FromPipe (pipe_new PIPEBUFFER_STREAMING_CAPACITY)) st) ''stage'' status False)"
  using assms by (cases st) (simp_all add: later_process_def)

lemma later_process_law:
  assumes "stage_safe st"
  shows "process_ok True fut (later_process st) \<and> process_rest e fut (later_process st) = later_text e st fut \<and>
    \<not> process_finished (later_process st)"
proof (cases "\<exists>mode. st = StageHead mode")
  case True
  then show ?thesis
    by (auto simp: later_process_def head_process_new_def later_text_def new_pipe_law)
next
  case False
  then have "later_text e st fut = stage_text e st fut" by (cases st) (simp_all add: later_text_def)
  with False assms show ?thesis
    by (elim later_process_reads)
      (simp add: read_process_new_def new_pipe_law wrap_content wrap_good feed_content_def feed_good_def del: wrap_stage.simps)
qed

lemma later_chain:
  assumes "list_all stage_safe stages" "chain_ok e True fut False [] fin"
  shows "chain_ok e True fut False (map later_process stages) fin"
    "chain_out e fut (map later_process stages) = fold (later_text e) stages fut"
proof -
  show "chain_ok e True fut False (map later_process stages) fin"
    using assms by (induction stages arbitrary: fut) (auto simp: later_process_law)
  show "chain_out e fut (map later_process stages) = fold (later_text e) stages fut"
    using assms(1) by (induction stages arbitrary: fut) (auto simp: later_process_law)
qed

text \<open>A streaming pipeline runs to its end, and has then printed its stages' texts, composed.\<close>

lemma pipeline_runs:
  assumes "feed_good False [] f" "list_all stage_safe stages"
  shows "\<exists>ps fin. streaming_pipeline e f stages = Some ((ps, fin), Ok (fold (later_text e) stages (feed_content [] f))) \<and>
    list_all process_finished ps"
proof -
  let ?fin = "pipe_new PIPEBUFFER_STREAMING_CAPACITY"
  have fin: "chain_ok e True (feed_content [] f) False [] ?fin" "pipe_data ?fin = []"
    by (simp_all add: pipe_new_def PIPEBUFFER_STREAMING_CAPACITY_def)
  have "chain_ok e False [] True (source_process f # map later_process stages) ?fin"
    using later_chain(1) [OF assms(2) fin(1)] assms(1)
    by (simp add: source_process_def read_process_new_def feed_stalls_def feed_good_def split: feed.splits)
  from drive_correct [OF this fin(2), of "[]"] show ?thesis
    using later_chain(2) [OF assms(2) fin(1)]
    by (auto simp: streaming_pipeline_def source_process_def read_process_new_def)
qed

end
