(* ===== verification/Stream_Props.thy ===== *)
theory Stream_Props
  imports Stream_Run
begin

text \<open>
  The properties of the streaming pipelines: what a pipeline prints, that a filter gives the same
  text whatever the sizes of the reads, the texts of the single filters in terms of their input,
  and three behaviours that differ from what the commands promise.
\<close>

section \<open>Helpers\<close>

lemma one_stage_runs:
  assumes "feed_good False [] f" "stage_safe st"
  shows "\<exists>ps fin. streaming_pipeline e f [st] = Some ((ps, fin), Ok (later_text e st (feed_content [] f))) \<and>
    list_all process_finished ps"
  using pipeline_runs [of f "[st]" e] assms by simp

text \<open>Without options, the lines that start the runs of \<open>uniq\<close> are the lines without adjacent copies.\<close>

lemma line_runs_remdups:
  "inj_on key (set ls) \<Longrightarrow> map fst (line_runs key ls) = remdups_adj ls"
proof (induction key ls rule: line_runs.induct)
  case (2 key l ls)
  have same: "key m = key l \<longleftrightarrow> m = l" if "m \<in> set ls" for m
    using "2.prems" that by (auto simp: inj_on_def)
  have "dropWhile (\<lambda>m. key m = key l) ls = dropWhile (\<lambda>m. m = l) ls"
    by (rule dropWhile_cong) (simp_all add: same)
  moreover have "inj_on key (set (dropWhile (\<lambda>m. key m = key l) ls))"
    using "2.prems" by (rule inj_on_subset) (auto dest: set_dropWhileD)
  ultimately show ?case using "2.IH" by (simp add: remdups_adj_Cons')
qed simp

lemma inj_str_chars: "inj_on str_chars {s. valid_utf8 s}"
  by (rule inj_on_inverseI [where g = encode_str]) (simp add: encode_str_chars)

lemma text_lines_valid: "set (text_lines s) \<subseteq> {l. valid_utf8 l}"
  by (auto simp: text_lines_def valid_lossy)

lemma runs_total: "sum_list (map snd (line_runs key ls)) = length ls"
proof (induction key ls rule: line_runs.induct)
  case (2 key l ls)
  then show ?case using length_append [of "takeWhile (\<lambda>m. key m = key l) ls" "dropWhile (\<lambda>m. key m = key l) ls"]
    by simp
qed simp

text \<open>A text that ends in a newline is made of its lines.\<close>

definition ended_text :: "string \<Rightarrow> bool" where
  "ended_text s \<longleftrightarrow> s = [] \<or> last s = ch_newline"

lemma ended_text_lines:
  "ended_text s \<Longrightarrow> unlines (raw_lines s) = s \<and> list_all (\<lambda>l. ch_newline \<notin> set l) (raw_lines s)"
proof (induction "length s" arbitrary: s rule: less_induct)
  case less
  show ?case
  proof (cases "s = []")
    case False
    then have "ch_newline \<in> set s" using less.prems last_in_set [of s] by (auto simp: ended_text_def)
    then obtain l t where s: "s = l @ ch_newline # t" "ch_newline \<notin> set l" by (meson split_list_first)
    then have "ended_text t" using less.prems by (auto simp: ended_text_def split: if_splits)
    then show ?thesis using less.hyps [of t] s by (simp add: raw_lines_Cons unlines_def)
  qed (simp add: unlines_def)
qed

lemma unlines_append: "unlines (ls @ ms) = unlines ls @ unlines ms"
  by (simp add: unlines_def)

lemma unlines_count: "list_all (\<lambda>l. ch_newline \<notin> set l) ls \<Longrightarrow> count_list (unlines ls) ch_newline = length ls"
  by (induction ls) (simp_all add: unlines_def count_list_append count_notin)

lemma unlines_ended: "ended_text (unlines ls)"
  by (induction ls rule: rev_induct) (simp_all add: unlines_def ended_text_def)

lemma tail_lines_suffix:
  assumes "ended_text s"
  shows "\<exists>p. s = p @ unlines (last_n k (raw_lines s)) \<and> ended_text p \<and>
    count_list (unlines (last_n k (raw_lines s))) ch_newline = min k (count_list s ch_newline)"
proof -
  note lines = ended_text_lines [OF assms]
  have n: "count_list s ch_newline = length (raw_lines s)" using unlines_count [of "raw_lines s"] lines by simp
  let ?m = "length (raw_lines s) - k"
  have "s = unlines (take ?m (raw_lines s)) @ unlines (last_n k (raw_lines s))"
    using lines unlines_append [of "take ?m (raw_lines s)" "drop ?m (raw_lines s)"] by (simp add: last_n_def)
  moreover have "list_all (\<lambda>l. ch_newline \<notin> set l) (last_n k (raw_lines s))"
    using lines by (auto simp: last_n_def list_all_iff dest: in_set_dropD)
  then have "count_list (unlines (last_n k (raw_lines s))) ch_newline = min k (length (raw_lines s))"
    by (simp add: unlines_count last_n_def min_def)
  ultimately show ?thesis using n unlines_ended by auto
qed

section \<open>Pipelines\<close>

text \<open>
  C3 (liveness). A streaming pipeline over a source that is not a pipe, with stages that cannot panic, runs to its end:
  no process waits for another one for ever, every process exits, and what has been printed is the composition of
  the texts of the stages, whatever the pipes of one byte between them held on the way.
\<close>

theorem streaming_pipeline_correct:
  assumes "feed_good False [] f" "list_all stage_safe stages"
  shows "\<exists>ps fin. streaming_pipeline e f stages = Some ((ps, fin), Ok (fold (later_text e) stages (feed_content [] f))) \<and>
    list_all process_finished ps"
  by (rule pipeline_runs [OF assms])

definition plain_env :: stage_env where
  "plain_env = \<lparr>lower_chars = id, grep_env = \<lparr>to_lower = id, is_alphanumeric = (\<lambda>c. 97 \<le> c \<and> c \<le> 122), posix_matches = (\<lambda>_ _. None)\<rparr>\<rparr>"

definition literal_feed :: "string \<Rightarrow> feed" where
  "literal_feed s = FromCursor \<lparr>cursor_data = s, cursor_pos = 0\<rparr>"

lemma literal_feed_law [simp]: "feed_good False fut (literal_feed s)" "feed_content fut (literal_feed s) = s"
  by (simp_all add: literal_feed_def feed_good_def feed_content_def cursor_content_def)

theorem streaming_pipeline_witness:
  "\<exists>ps fin. streaming_pipeline plain_env (literal_feed [CHR ''b'', CHR ''a'', CHR ''c'']) [StageTail (TailBytes 2), StageHead (HeadBytes 1)] =
    Some ((ps, fin), Ok ''a'') \<and> list_all process_finished ps"
  using streaming_pipeline_correct [of "literal_feed ''bac''" "[StageTail (TailBytes 2), StageHead (HeadBytes 1)]" plain_env]
  by (simp add: later_text_def head_process_text_def last_n_def)

text \<open>
  C11 (equivalence). A filter is read with buffers of any sizes: enough reads give its text and then its end, whatever
  the sizes, so that chunks of the input and of the output never change a line, a count or a character.
\<close>

theorem filter_reads_exact:
  assumes "feed_good False [] f" "stage_safe st" "list_all (\<lambda>n. 0 < n) ns"
    "length (stage_text e st (feed_content [] f)) < length ns"
  shows "\<exists>r. read_seq (boxed_read e feed_read) (wrap_stage f st) ns = Some (r, stage_text e st (feed_content [] f), True)"
proof -
  have "(feed_stalls \<circ> box_inner) (wrap_stage f st) = 0"
    using assms(1) by (simp add: wrap_inner feed_stalls_def feed_good_def split: feed.splits)
  then show ?thesis
    using boxes.read_seq_all [of False "[]" "wrap_stage f st" ns e] assms by (simp add: wrap_good wrap_content)
qed

theorem filter_reads_witness:
  "\<exists>r. read_seq (boxed_read plain_env feed_read) (wrap_stage (literal_feed ''abc'') (StageTail (TailBytes 2))) [1, 5, 1] =
    Some (r, ''bc'', True)"
  using filter_reads_exact [of "literal_feed ''abc''" "StageTail (TailBytes 2)" "[1, 5, 1]" plain_env]
  by (simp add: last_n_def)

section \<open>Single filters\<close>

text \<open>
  \<open>wc\<close> at the end of a pipeline prints exactly the number of newlines, of words, of bytes and the
  length of the longest line of the text before it, each when asked for.
\<close>

theorem wc_pipeline_counts:
  assumes "feed_good False [] f"
  shows "\<exists>d. streaming_pipeline e f [StageWc flags] =
    Some (d, Ok (let s = feed_content [] f in wc_format
       ((if flag_lines flags then [count_list s ch_newline] else []) @
        (if flag_words flags then [word_starts s] else []) @
        (if flag_bytes flags then [length s] else []) @
        (if flag_max_line_length flags then [longest_line s] else []))))"
  using one_stage_runs [OF assms, of "StageWc flags" e] by (auto simp: later_text_def wc_text_start Let_def)

theorem wc_pipeline_witness:
  "\<exists>d. streaming_pipeline plain_env (literal_feed ''ab'')
      [StageWc \<lparr>flag_lines = False, flag_words = False, flag_bytes = True, flag_max_line_length = False\<rparr>] =
    Some (d, Ok (wc_format [2]))"
  using wc_pipeline_counts [of "literal_feed ''ab''" plain_env
      "\<lparr>flag_lines = False, flag_words = False, flag_bytes = True, flag_max_line_length = False\<rparr>"] by (simp add: numeral_2_eq_2)

text \<open>
  \<open>tail -n k\<close> at the end of a pipeline prints the last \<open>k\<close> lines of a text: what it prints is where
  the text ends, starts at the start of a line and has \<open>k\<close> lines, or all of them when there are fewer.
\<close>

theorem tail_pipeline_lines:
  assumes "feed_good False [] f" "ended_text (feed_content [] f)"
  shows "\<exists>d p out. streaming_pipeline e f [StageTail (TailLines k)] = Some (d, Ok out) \<and>
    feed_content [] f = p @ out \<and> ended_text p \<and> count_list out ch_newline = min k (count_list (feed_content [] f) ch_newline)"
  using one_stage_runs [OF assms(1), of "StageTail (TailLines k)" e] tail_lines_suffix [OF assms(2), of k]
  by (auto simp: later_text_def)

theorem tail_pipeline_witness:
  "\<exists>d p out. streaming_pipeline plain_env (literal_feed [CHR ''a'', ch_newline, CHR ''b'', ch_newline])
      [StageTail (TailLines 1)] = Some (d, Ok out) \<and>
    [CHR ''a'', ch_newline, CHR ''b'', ch_newline] = p @ out \<and> ended_text p \<and> count_list out ch_newline = 1"
  using tail_pipeline_lines [of "literal_feed [CHR ''a'', ch_newline, CHR ''b'', ch_newline]" plain_env 1]
  by (simp add: ended_text_def)

text \<open>
  \<open>uniq\<close> without options prints the lines of its input without adjacent copies.
\<close>

theorem uniq_pipeline_lines:
  assumes "feed_good False [] f"
  shows "\<exists>d. streaming_pipeline e f [StageUniq \<lparr>uniq_count = False, duplicates_only = False, unique_only = False,
      ignore_case = False, skip_fields = 0, skip_chars = 0, compare_chars = None\<rparr>] =
    Some (d, Ok (unlines (remdups_adj (text_lines (feed_content [] f)))))"
proof -
  let ?flags = "\<lparr>uniq_count = False, duplicates_only = False, unique_only = False,
      ignore_case = False, skip_fields = 0, skip_chars = 0, compare_chars = None\<rparr>"
  let ?ls = "text_lines (feed_content [] f)"
  have key: "streaming_uniq_compare_key lower l ?flags = str_chars l" for lower l
    by (simp add: streaming_uniq_compare_key_def)
  have "map fst (line_runs str_chars ?ls) = remdups_adj ?ls"
    by (intro line_runs_remdups inj_on_subset [OF inj_str_chars] text_lines_valid)
  moreover have "uniq_text lower ?flags s = unlines (map fst (line_runs str_chars (text_lines s)))" for lower s
    by (auto simp: uniq_text_def key emit_streaming_uniq_line_def unlines_def comp_def case_prod_unfold)
  ultimately show ?thesis
    using one_stage_runs [OF assms, of "StageUniq ?flags" e] by (auto simp: later_text_def)
qed

theorem uniq_pipeline_witness:
  "\<exists>d. streaming_pipeline plain_env (literal_feed [CHR ''a'', ch_newline, CHR ''a'', ch_newline]) [StageUniq \<lparr>uniq_count = False, duplicates_only = False, unique_only = False,
      ignore_case = False, skip_fields = 0, skip_chars = 0, compare_chars = None\<rparr>] = Some (d, Ok [CHR ''a'', ch_newline])"
proof -
  have "text_lines [CHR ''a'', ch_newline, CHR ''a'', ch_newline] = [''a'', ''a'']" by code_simp
  then show ?thesis
    using uniq_pipeline_lines [of "literal_feed [CHR ''a'', ch_newline, CHR ''a'', ch_newline]" plain_env]
    by (simp add: unlines_def)
qed

text \<open>
  C20 (functional). \<open>grep\<close> without \<open>-c\<close>, \<open>-q\<close>, \<open>-l\<close>, \<open>-o\<close> and context prints exactly the lines that match, in order,
  with their numbers when asked for, up to the limit of \<open>-m\<close>; with a limit of 0 it still prints the first match.
\<close>

theorem grep_pipeline_lines:
  assumes "feed_good False [] f" "grep_plain flags" "list_all valid_utf8 patterns"
  shows "\<exists>d. streaming_pipeline e f [StageGrep flags patterns] =
    Some (d, Ok (concat (map (\<lambda>(n, line). grep_prefix n flags @ line @ [ch_newline])
      ((case max_count flags of None \<Rightarrow> id | Some m \<Rightarrow> take (max 1 m))
        (filter (\<lambda>(_, line). streaming_grep_line_matches (grep_env e) line flags patterns)
          (List.enumerate 1 (text_lines (feed_content [] f))))))))"
  using one_stage_runs [OF assms(1), of "StageGrep flags patterns" e] assms(2,3)
    grep_plain_run [OF assms(2), of "grep_start flags patterns 1" patterns "grep_env e" "text_lines (feed_content [] f)"]
  by (auto simp: later_text_def grep_start_def grep_plain_def upto_max_def split: option.splits)

definition fixed_flags :: grep_flags where
  "fixed_flags = \<lparr>grep_ignore_case = False, grep_invert = False, count_only = False, show_line_numbers = False,
     files_only = False, word_match = False, only_matching = False, grep_quiet = False, grep_extended = False,
     grep_fixed = True, after_context = 0, before_context = 0, max_count = Some 0, show_filename = None\<rparr>"

theorem grep_pipeline_witness:
  "\<exists>d. streaming_pipeline plain_env (literal_feed [CHR ''a'', ch_newline]) [StageGrep fixed_flags [''a'']] =
    Some (d, Ok [CHR ''a'', ch_newline])"
proof -
  have "text_lines [CHR ''a'', ch_newline] = [''a'']" by code_simp
  moreover have "streaming_grep_line_matches (grep_env plain_env) ''a'' fixed_flags [''a'']" by code_simp
  moreover have "grep_plain fixed_flags" "valid_utf8 ''a''" "grep_prefix 1 fixed_flags = []" "max_count fixed_flags = Some 0"
    by code_simp+
  ultimately show ?thesis
    using grep_pipeline_lines [of "literal_feed [CHR ''a'', ch_newline]" fixed_flags "[''a'']" plain_env] by simp
qed

text \<open>
  C39 (functional). \<open>tr\<close> without \<open>-d\<close> and \<open>-s\<close> translates a text of valid UTF-8 character by character, although
  the pipe in front of it hands out single bytes of the characters.
\<close>

theorem tr_pipeline_translates:
  assumes "feed_good False [] f" "\<not> tr_delete stage" "\<not> tr_squeeze stage" "valid_utf8 (feed_content [] f)"
  shows "\<exists>d. streaming_pipeline e f [StageTr stage] =
    Some (d, Ok (encode_str (map (tr_translate stage) (str_chars (feed_content [] f)))))"
  using one_stage_runs [OF assms(1), of "StageTr stage" e] tr_translates [OF assms(2-4)]
  by (auto simp: later_text_def)

definition umlaut_stage :: tr_stage where
  "umlaut_stage = \<lparr>tr_delete = False, tr_squeeze = False, tr_complement = False, from_chars = [228], to_chars = [97]\<rparr>"

theorem tr_pipeline_witness:
  "\<exists>d. streaming_pipeline plain_env (literal_feed [char_of (195 :: nat), char_of (164 :: nat)]) [StageTr umlaut_stage] =
    Some (d, Ok ''a'')"
proof -
  have "encode_str (map (tr_translate umlaut_stage) (str_chars [char_of (195 :: nat), char_of (164 :: nat)])) = ''a''"
    "valid_utf8 [char_of (195 :: nat), char_of (164 :: nat)]" by code_simp+
  then show ?thesis
    using tr_pipeline_translates [of "literal_feed [char_of (195 :: nat), char_of (164 :: nat)]" umlaut_stage plain_env]
    by (simp add: umlaut_stage_def)
qed

section \<open>Departures\<close>

text \<open>
  \<open>head -n 0\<close> and \<open>head -c 0\<close> print nothing as filters of a reader, but as processes of a pipeline
  they look at their limit only after they have copied a byte, so that they print the first line or the first byte.
\<close>

theorem head_zero_prints:
  assumes "feed_good False [] f"
  shows "(\<exists>d. streaming_pipeline e f [StageHead (HeadLines 0)] = Some (d, Ok (first_lines 1 (feed_content [] f)))) \<and>
    (\<exists>d. streaming_pipeline e f [StageHead (HeadBytes 0)] = Some (d, Ok (take 1 (feed_content [] f)))) \<and>
    stage_text e (StageHead (HeadLines 0)) s = [] \<and> stage_text e (StageHead (HeadBytes 0)) s = []"
  using one_stage_runs [OF assms, of "StageHead (HeadLines 0)" e] one_stage_runs [OF assms, of "StageHead (HeadBytes 0)" e]
  by (auto simp: later_text_def head_process_text_def head_text_def)

theorem head_zero_witness:
  "\<exists>d. streaming_pipeline plain_env (literal_feed ''ab'') [StageHead (HeadBytes 0)] = Some (d, Ok ''a'')"
  using head_zero_prints [of "literal_feed ''ab''" plain_env] by simp

text \<open>
  \<open>grep -o -i\<close> searches the line in lower case but cuts the match out of the line itself: when lower case
  makes the text before the match longer, so that the match ends behind the end of the line, it panics.
\<close>

theorem grep_only_ignore_case_panics:
  assumes "grep_ignore_case flags" "\<not> word_match flags" "find_str (to_lower g pattern) (to_lower g line) = Some i"
    and "length line < i + length (to_lower g pattern)"
  shows "\<exists>m. streaming_grep_find_match g line pattern flags = Panic m"
  using assms by (simp add: streaming_grep_find_match_def grep_fold_case_def str_slice_def is_char_boundary_def Let_def)

text \<open>The Turkish capital \<open>I\<close> with a dot (U+0130) has a lower case of two characters.\<close>

definition dotted_lower :: "string \<Rightarrow> string" where
  "dotted_lower s =
     (case s of
        [a, b, c] \<Rightarrow> if of_char a = (196 :: nat) \<and> of_char b = (176 :: nat) then [CHR ''i'', char_of (204 :: nat), char_of (135 :: nat), c] else s
      | _ \<Rightarrow> s)"

theorem grep_only_ignore_case_witness:
  "\<exists>m. streaming_grep_find_match \<lparr>to_lower = dotted_lower, is_alphanumeric = (\<lambda>c. True), posix_matches = (\<lambda>_ _. None)\<rparr>
     [char_of (196 :: nat), char_of (176 :: nat), CHR ''x''] ''x'' (fixed_flags\<lparr>grep_ignore_case := True, only_matching := True\<rparr>) = Panic m"
proof -
  let ?g = "\<lparr>to_lower = dotted_lower, is_alphanumeric = (\<lambda>c. True), posix_matches = (\<lambda>_ _. None)\<rparr>"
  let ?line = "[char_of (196 :: nat), char_of (176 :: nat), CHR ''x'']"
  have "find_str (to_lower ?g ''x'') (to_lower ?g ?line) = Some 3" by code_simp
  then show ?thesis
    using grep_only_ignore_case_panics [of "fixed_flags\<lparr>grep_ignore_case := True, only_matching := True\<rparr>" ?g "''x''" ?line 3]
    by (simp add: fixed_flags_def dotted_lower_def)
qed

text \<open>
  The reader that limits the input of an external command casts its 64-bit limit to the 32-bit
  \<open>usize\<close> of the target: with a limit that is a positive multiple of \<open>2 ^ 32\<close> every read gives no
  byte, which its caller takes for the end of the input.
\<close>

theorem limited_reader_truncates:
  assumes "limited_remaining r \<noteq> 0" "2 ^ 32 dvd unat (limited_remaining r)"
  shows "\<exists>r'. limited_read cursor_read r n = Some (r', Ok [])"
proof -
  have "unat (ucast (limited_remaining r) :: usize) = 0"
    using assms(2) by (simp add: unsigned_ucast_eq take_bit_eq_mod)
  then show ?thesis using assms(1) by (simp add: limited_read_def cursor_read_def Let_def)
qed

theorem limited_reader_witness:
  "\<exists>r'. limited_read cursor_read \<lparr>limited_inner = \<lparr>cursor_data = ''abc'', cursor_pos = 0\<rparr>, limited_remaining = 4294967296\<rparr> 8 =
    Some (r', Ok [])"
  using limited_reader_truncates [of "\<lparr>limited_inner = \<lparr>cursor_data = ''abc'', cursor_pos = 0\<rparr>, limited_remaining = 4294967296\<rparr>" 8]
  by simp

end
