(* ===== verification/Arith.thy ===== *)
theory Arith
  imports Shell_State Unicode "HOL-Library.Signed_Division"
begin

text \<open>
  Arithmetic expansion (\<^verbatim>\<open>wasmsh-expand/lib.rs\<close>): the tokenizer and the recursive-descent evaluator
  of \<open>$((\<dots>))\<close>.  The evaluator computes while it parses, on 64-bit integers that wrap around, and
  reads and writes the variables of the shell; the value of a \<open>$\<close> reference is
  the business of the parameter expander, an argument here.

  A call returns the shell's state and its result; \<open>Err ()\<close> stands for a call that does not
  return, which only an assignment through a cycle of namerefs causes.
\<close>

unbundle bit_operations_syntax

section \<open>Integers\<close>

type_synonym i64 = "64 word"

definition i64_of_bool :: "bool \<Rightarrow> i64" where
  "i64_of_bool b = (if b then 1 else 0)"

definition wrapping_div :: "i64 \<Rightarrow> i64 \<Rightarrow> (i64, unit) result" where
  "wrapping_div x y =
     (if y = 0 then Panic ''attempt to divide by zero'' else Ok (word_of_int (sint x sdiv sint y)))"

definition wrapping_rem :: "i64 \<Rightarrow> i64 \<Rightarrow> (i64, unit) result" where
  "wrapping_rem x y =
     (if y = 0 then Panic ''attempt to calculate the remainder with a divisor of zero''
      else Ok (word_of_int (sint x smod sint y)))"

text \<open>Shifts take the count as \<open>u32\<close> and its low six bits.\<close>

definition wrapping_shl :: "i64 \<Rightarrow> i64 \<Rightarrow> i64" where
  "wrapping_shl x y = push_bit (unat (ucast y :: u32) mod 64) x"

definition wrapping_shr :: "i64 \<Rightarrow> i64 \<Rightarrow> i64" where
  "wrapping_shr x y = signed_drop_bit (unat (ucast y :: u32) mod 64) x"

text \<open>The loop of \<open>wrapping_pow\<close>: square and multiply.\<close>

function pow_loop :: "nat \<Rightarrow> i64 \<Rightarrow> i64 \<Rightarrow> i64" where
  "pow_loop e res b =
     (if e = 0 then res
      else pow_loop (e div 2) (if odd e then res * b else res) (b * b))"
  by pat_completeness auto
termination by (relation "measure fst") auto

declare pow_loop.simps [simp del]

definition wrapping_pow :: "i64 \<Rightarrow> i64 \<Rightarrow> i64" where
  "wrapping_pow base e = (if sint e < 0 then 0 else pow_loop (unat e) 1 base)"

text \<open>\<open>str::parse::<i64>\<close>: an optional sign, at least one digit, no overflow.\<close>

definition strip_sign :: "string \<Rightarrow> bool \<times> string" where
  "strip_sign s =
     (case s of
        [] \<Rightarrow> (False, [])
      | c # cs \<Rightarrow> if c = CHR ''-'' then (True, cs) else if c = CHR ''+'' then (False, cs) else (False, s))"

definition i64_in_range :: "bool \<Rightarrow> nat \<Rightarrow> i64 option" where
  "i64_in_range neg n =
     (if neg then (if n \<le> 2 ^ 63 then Some (- of_nat n) else None)
      else (if n < 2 ^ 63 then Some (of_nat n) else None))"

definition parse_i64 :: "string \<Rightarrow> i64 option" where
  "parse_i64 s =
     (let (neg, d) = strip_sign s in
      if d \<noteq> [] \<and> list_all is_digit d then i64_in_range neg (digits_val d) else None)"

definition show_i64 :: "i64 \<Rightarrow> string" where
  "show_i64 n = show_i n"

text \<open>\<open>char::to_digit\<close> and \<open>i64::from_str_radix\<close>, which panics on a radix above 36.\<close>

definition to_digit :: "nat \<Rightarrow> char \<Rightarrow> nat option" where
  "to_digit radix c =
     (let n = of_char c :: nat;
          d = (if 48 \<le> n \<and> n \<le> 57 then Some (n - 48)
               else if 97 \<le> n \<and> n \<le> 122 then Some (n - 87)
               else if 65 \<le> n \<and> n \<le> 90 then Some (n - 55) else None)
      in case d of None \<Rightarrow> None | Some v \<Rightarrow> if v < radix then Some v else None)"

fun radix_val :: "nat \<Rightarrow> nat \<Rightarrow> string \<Rightarrow> nat option" where
  "radix_val radix acc [] = Some acc"
| "radix_val radix acc (c # cs) =
     (case to_digit radix c of None \<Rightarrow> None | Some d \<Rightarrow> radix_val radix (acc * radix + d) cs)"

definition from_str_radix :: "string \<Rightarrow> nat \<Rightarrow> (i64 option, unit) result" where
  "from_str_radix s radix =
     (if radix < 2 \<or> 36 < radix then Panic ''from_ascii_radix: radix must lie in the range [2, 36]''
      else
        (let (neg, d) = strip_sign s in
         Ok (if d = [] then None else Option.bind (radix_val radix 0 d) (i64_in_range neg))))"

definition unwrap_or_0 :: "i64 option \<Rightarrow> i64" where
  "unwrap_or_0 n = (case n of None \<Rightarrow> 0 | Some v \<Rightarrow> v)"

section \<open>Tokens\<close>

datatype arith_token =
  Number i64 | Ident string
| Plus | Minus | Star | Slash | Percent | StarStar | LShift | RShift
| Lt | Gt | Le | Ge | EqEq | Ne | Amp | Caret | Pipe | AmpAmp | PipePipe | Bang | Tilde
| Question | Colon | Comma | LParen | RParen
| AEq | PlusEq | MinusEq | StarEq | SlashEq | PercentEq | LShiftEq | RShiftEq | AmpEq | CaretEq | PipeEq
| PlusPlus | MinusMinus

type_synonym lexeme = "arith_token list \<times> string"

definition name_byte :: "char \<Rightarrow> bool" where
  "name_byte c \<longleftrightarrow> is_alpha c \<or> is_digit c \<or> c = CHR ''_''"

definition is_hexdigit :: "char \<Rightarrow> bool" where
  "is_hexdigit c \<longleftrightarrow> to_digit 16 c \<noteq> None"

definition ascii_whitespace :: "char \<Rightarrow> bool" where
  "ascii_whitespace c \<longleftrightarrow> c \<in> {CHR '' '', ch_tab, ch_newline, CHR 0x0C, ch_return}"

text \<open>The digits that follow a prefix, their value in the radix and the rest of the text.\<close>

definition arith_take_radix_number ::
  "nat \<Rightarrow> (char \<Rightarrow> bool) \<Rightarrow> string \<Rightarrow> (i64 \<times> string, unit) result" where
  "arith_take_radix_number radix pred s =
     result_bind (from_str_radix (takeWhile pred s) radix) (\<lambda>n. Ok (unwrap_or_0 n, dropWhile pred s))"

definition arith_tokenize_prefixed_number :: "string \<Rightarrow> (i64 \<times> string, unit) result option" where
  "arith_tokenize_prefixed_number s =
     (case s of
        a # b # rest \<Rightarrow>
          if a \<noteq> CHR ''0'' then None
          else if b = CHR ''x'' \<or> b = CHR ''X'' then Some (arith_take_radix_number 16 is_hexdigit rest)
          else if b = CHR ''b'' \<or> b = CHR ''B'' then
            Some (arith_take_radix_number 2 (\<lambda>c. c = CHR ''0'' \<or> c = CHR ''1'') rest)
          else if is_digit b then Some (arith_take_radix_number 8 is_digit (b # rest))
          else None
      | _ \<Rightarrow> None)"

text \<open>\<open>base#value\<close>: the digits before the sharp sign and the text from it on.\<close>

definition arith_tokenize_base_syntax ::
  "string \<Rightarrow> string \<Rightarrow> (i64 \<times> string, unit) result option" where
  "arith_tokenize_base_syntax digits s =
     (case s of
        [] \<Rightarrow> None
      | c # rest \<Rightarrow>
          if c \<noteq> CHR ''#'' \<or> 2 ^ 32 \<le> digits_val digits then None
          else if digits_val digits < 2 \<or> 64 < digits_val digits then None
          else Some (arith_take_radix_number (digits_val digits) name_byte rest))"

definition arith_tokenize_number :: "string \<Rightarrow> (lexeme, unit) result" where
  "arith_tokenize_number s =
     (case arith_tokenize_prefixed_number s of
        Some r \<Rightarrow> result_bind r (\<lambda>(n, rest). Ok ([Number n], rest))
      | None \<Rightarrow>
          let digits = takeWhile is_digit s; after = dropWhile is_digit s in
          (case arith_tokenize_base_syntax digits after of
             Some r \<Rightarrow> result_bind r (\<lambda>(n, rest). Ok ([Number n], rest))
           | None \<Rightarrow> Ok ([Number (unwrap_or_0 (parse_i64 digits))], after)))"

definition arith_tokenize_ident :: "string \<Rightarrow> lexeme" where
  "arith_tokenize_ident s = ([Ident (takeWhile name_byte s)], dropWhile name_byte s)"

definition arith_push_op2 :: "string \<Rightarrow> char \<Rightarrow> arith_token \<Rightarrow> arith_token \<Rightarrow> lexeme" where
  "arith_push_op2 s nxt tok2 tok1 =
     (case s of
        _ # c # rest \<Rightarrow> if c = nxt then ([tok2], rest) else ([tok1], c # rest)
      | _ \<Rightarrow> ([tok1], tl s))"

text \<open>An operator of which two characters start a longer one.\<close>

definition arith_push_op3 ::
  "string \<Rightarrow> char \<Rightarrow> arith_token \<Rightarrow> char \<Rightarrow> arith_token \<Rightarrow> arith_token \<Rightarrow> lexeme" where
  "arith_push_op3 s n1 tok1 n2 tok2 tok =
     (case s of
        _ # c # rest \<Rightarrow>
          if c = n1 then ([tok1], rest) else if c = n2 then ([tok2], rest) else ([tok], c # rest)
      | _ \<Rightarrow> ([tok], tl s))"

definition arith_tokenize_plus_minus_star :: "string \<Rightarrow> lexeme" where
  "arith_tokenize_plus_minus_star s =
     (if hd s = CHR ''+'' then arith_push_op3 s (CHR ''+'') PlusPlus (CHR ''='') PlusEq Plus
      else if hd s = CHR ''-'' then arith_push_op3 s (CHR ''-'') MinusMinus (CHR ''='') MinusEq Minus
      else arith_push_op3 s (CHR ''*'') StarStar (CHR ''='') StarEq Star)"

definition arith_tokenize_left_angle :: "string \<Rightarrow> lexeme" where
  "arith_tokenize_left_angle s =
     (case tl s of
        c # d # rest \<Rightarrow>
          if c = CHR ''<'' \<and> d = CHR ''='' then ([LShiftEq], rest)
          else if c = CHR ''<'' then ([LShift], d # rest)
          else if c = CHR ''='' then ([Le], d # rest) else ([Lt], c # d # rest)
      | [c] \<Rightarrow>
          if c = CHR ''<'' then ([LShift], []) else if c = CHR ''='' then ([Le], []) else ([Lt], [c])
      | [] \<Rightarrow> ([Lt], []))"

definition arith_tokenize_right_angle :: "string \<Rightarrow> lexeme" where
  "arith_tokenize_right_angle s =
     (case tl s of
        c # d # rest \<Rightarrow>
          if c = CHR ''>'' \<and> d = CHR ''='' then ([RShiftEq], rest)
          else if c = CHR ''>'' then ([RShift], d # rest)
          else if c = CHR ''='' then ([Ge], d # rest) else ([Gt], c # d # rest)
      | [c] \<Rightarrow>
          if c = CHR ''>'' then ([RShift], []) else if c = CHR ''='' then ([Ge], []) else ([Gt], [c])
      | [] \<Rightarrow> ([Gt], []))"

definition arith_tokenize_angle :: "string \<Rightarrow> lexeme" where
  "arith_tokenize_angle s =
     (if hd s = CHR ''<'' then arith_tokenize_left_angle s else arith_tokenize_right_angle s)"

definition arith_tokenize_amp_pipe :: "string \<Rightarrow> lexeme" where
  "arith_tokenize_amp_pipe s =
     (if hd s = CHR ''&'' then arith_push_op3 s (CHR ''&'') AmpAmp (CHR ''='') AmpEq Amp
      else arith_push_op3 s (CHR ''|'') PipePipe (CHR ''='') PipeEq Pipe)"

definition arith_tokenize_single :: "string \<Rightarrow> arith_token \<Rightarrow> lexeme" where
  "arith_tokenize_single s tok = ([tok], tl s)"

definition arith_tokenize_operator :: "string \<Rightarrow> lexeme" where
  "arith_tokenize_operator s =
     (let c = hd s in
      if c = CHR ''+'' \<or> c = CHR ''-'' \<or> c = CHR ''*'' then arith_tokenize_plus_minus_star s
      else if c = CHR ''/'' then arith_push_op2 s (CHR ''='') SlashEq Slash
      else if c = CHR ''%'' then arith_push_op2 s (CHR ''='') PercentEq Percent
      else if c = CHR ''<'' \<or> c = CHR ''>'' then arith_tokenize_angle s
      else if c = CHR ''='' then arith_push_op2 s (CHR ''='') EqEq AEq
      else if c = CHR ''!'' then arith_push_op2 s (CHR ''='') Ne Bang
      else if c = CHR ''&'' \<or> c = CHR ''|'' then arith_tokenize_amp_pipe s
      else if c = CHR ''^'' then arith_push_op2 s (CHR ''='') CaretEq Caret
      else if c = CHR ''~'' then arith_tokenize_single s Tilde
      else if c = CHR ''?'' then arith_tokenize_single s Question
      else if c = CHR '':'' then arith_tokenize_single s Colon
      else if c = CHR '','' then arith_tokenize_single s Comma
      else if c = CHR ''('' then arith_tokenize_single s LParen
      else if c = CHR '')'' then arith_tokenize_single s RParen
      else ([], tl s))"

text \<open>The inside of a brace that was opened \<open>d\<close> times, and the text behind the one that closes it.\<close>

fun brace_body :: "nat \<Rightarrow> string \<Rightarrow> string \<times> string" where
  "brace_body d [] = ([], [])"
| "brace_body d (c # cs) =
     (if c = CHR ''}'' \<and> d \<le> 1 then ([], cs)
      else
        (let (inner, rest) =
           brace_body (if c = CHR ''{'' then d + 1 else if c = CHR ''}'' then d - 1 else d) cs
         in (c # inner, rest)))"

lemma brace_body_shorter: "brace_body d s = (inner, rest) \<Longrightarrow> length inner + length rest \<le> length s"
  by (induction d s arbitrary: inner rest rule: brace_body.induct) (auto split: if_splits prod.splits)

text \<open>The parameter expander: the value of a name, \<open>expand_parameter\<close> at depth 0.\<close>

type_synonym expander = "string \<Rightarrow> shell_state \<Rightarrow> (shell_state \<times> string, unit) result"

definition first_char_of :: "string \<Rightarrow> string" where
  "first_char_of s = (case utf8_at s of Decoded c k \<Rightarrow> take k s | _ \<Rightarrow> take 1 s)"

text \<open>The name behind a \<open>$\<close> and the rest of the text; \<open>None\<close> for a variable, which stays a live reference.\<close>

definition dollar_name :: "string \<Rightarrow> (string \<times> string) option" where
  "dollar_name s =
     (let nxt = hd s in
      if nxt = CHR ''{'' then Some (brace_body 1 (tl s))
      else if is_digit nxt then Some (takeWhile is_digit s, dropWhile is_digit s)
      else if is_alpha nxt \<or> nxt = CHR ''_'' then None
      else Some (first_char_of s, drop (length (first_char_of s)) s))"

definition arith_tokenize_dollar ::
  "expander \<Rightarrow> string \<Rightarrow> shell_state \<Rightarrow> (shell_state \<times> lexeme, unit) result" where
  "arith_tokenize_dollar ep s st =
     (if s = [] then Ok (st, [Number 0], [])
      else
        (case dollar_name s of
           None \<Rightarrow> Ok (st, [], s)
         | Some (name, rest) \<Rightarrow>
             result_bind (ep name st) (\<lambda>(st1, out).
               Ok (fst (take_nounset_error st1), [Number (unwrap_or_0 (parse_i64 (trim out)))], rest))))"

text \<open>One step of the tokenizer, at the start of a nonempty text.\<close>

definition arith_lexeme ::
  "expander \<Rightarrow> string \<Rightarrow> shell_state \<Rightarrow> (shell_state \<times> lexeme, unit) result" where
  "arith_lexeme ep s st =
     (let b = hd s in
      if ascii_whitespace b then Ok (st, [], tl s)
      else if b = CHR ''$'' then arith_tokenize_dollar ep (tl s) st
      else if is_digit b then result_bind (arith_tokenize_number s) (\<lambda>l. Ok (st, l))
      else if is_alpha b \<or> b = CHR ''_'' then Ok (st, arith_tokenize_ident s)
      else Ok (st, arith_tokenize_operator s))"

lemma radix_number_shorter:
  "arith_take_radix_number radix pred s = Ok (n, rest) \<Longrightarrow> length rest \<le> length s"
  by (auto simp: arith_take_radix_number_def result_bind_Ok_iff length_dropWhile_le)

lemma number_shorter:
  assumes "arith_tokenize_number s = Ok (toks, rest)" "s \<noteq> []" "is_digit (hd s)"
  shows "length rest < length s"
proof (cases "arith_tokenize_prefixed_number s")
  case (Some r)
  then obtain a b t n where s: "s = a # b # t" and r: "r = Ok (n, rest)"
    using assms(1)
    by (auto simp: arith_tokenize_number_def arith_tokenize_prefixed_number_def result_bind_Ok_iff split: list.splits)
  have "length rest \<le> length (b # t)"
    using Some r s radix_number_shorter [of _ _ "b # t" n rest] radix_number_shorter [of _ _ t n rest]
    by (fastforce simp: arith_tokenize_prefixed_number_def split: if_splits)
  then show ?thesis using s by simp
next
  case None
  let ?after = "dropWhile is_digit s"
  have after: "length ?after < length s"
    using assms(2,3) by (cases s) (simp_all add: le_imp_less_Suc length_dropWhile_le)
  show ?thesis
  proof (cases "arith_tokenize_base_syntax (takeWhile is_digit s) ?after")
    case None
    then show ?thesis using assms(1) \<open>arith_tokenize_prefixed_number s = None\<close> after
      by (simp add: arith_tokenize_number_def Let_def)
  next
    case (Some r)
    then obtain c t n where "?after = c # t" "r = Ok (n, rest)" "r = arith_take_radix_number (digits_val (takeWhile is_digit s)) name_byte t"
      using assms(1) None
      by (auto simp: arith_tokenize_number_def arith_tokenize_base_syntax_def Let_def result_bind_Ok_iff
          split: list.splits if_splits)
    then show ?thesis using radix_number_shorter [of _ _ t n rest] after by fastforce
  qed
qed

lemma operator_shorter: "arith_tokenize_operator s = (toks, rest) \<Longrightarrow> s \<noteq> [] \<Longrightarrow> length rest < length s"
  by (cases s) (auto simp: arith_tokenize_operator_def arith_tokenize_plus_minus_star_def arith_push_op2_def arith_push_op3_def
      arith_tokenize_angle_def arith_tokenize_left_angle_def arith_tokenize_right_angle_def arith_tokenize_amp_pipe_def
      arith_tokenize_single_def Let_def split: if_splits list.splits)

lemma ident_shorter:
  "arith_tokenize_ident s = (toks, rest) \<Longrightarrow> s \<noteq> [] \<Longrightarrow> name_byte (hd s) \<Longrightarrow> length rest < length s"
  by (cases s) (auto simp: arith_tokenize_ident_def le_imp_less_Suc length_dropWhile_le)

lemma dollar_shorter:
  assumes "arith_tokenize_dollar ep s st = Ok (st', toks, rest)"
  shows "length rest \<le> length s"
proof -
  have "length rest' \<le> length s" if "dollar_name s = Some (name, rest')" "s \<noteq> []" for name rest'
    using that brace_body_shorter [of 1 "tl s" name rest'] length_dropWhile_le [of is_digit s]
    by (auto simp: dollar_name_def Let_def split: if_splits)
  then show ?thesis using assms
    by (auto simp: arith_tokenize_dollar_def result_bind_Ok_iff split: if_splits option.splits)
qed

lemma lexeme_shorter:
  assumes "arith_lexeme ep s st = Ok (st', toks, rest)" "s \<noteq> []"
  shows "length rest < length s"
proof -
  obtain b t where s: "s = b # t" using assms(2) by (cases s) auto
  show ?thesis using assms s
    dollar_shorter [of ep t st st' toks rest] number_shorter [of s toks rest] ident_shorter [of s toks rest]
    operator_shorter [of s toks rest]
    by (auto simp: arith_lexeme_def Let_def result_bind_Ok_iff name_byte_def split: if_splits)
qed

function arith_tokenize ::
  "expander \<Rightarrow> string \<Rightarrow> shell_state \<Rightarrow> (shell_state \<times> arith_token list, unit) result" where
  "arith_tokenize ep s st =
     (if s = [] then Ok (st, [])
      else
        result_bind (arith_lexeme ep s st) (\<lambda>(st1, toks, rest).
          result_bind (arith_tokenize ep rest st1) (\<lambda>(st2, more). Ok (st2, toks @ more))))"
  by pat_completeness auto
termination
proof (relation "measure (\<lambda>(ep, s, st). length s)")
  fix ep s st x st1 y toks rest
  assume "s \<noteq> []" "arith_lexeme ep s st = Ok x" "(st1, y) = x" "(toks, rest) = y"
  then show "((ep, rest, st1), ep, s, st) \<in> measure (\<lambda>(ep, s, st). length s)"
    using lexeme_shorter [of ep s st st1 toks rest] by auto
qed simp

declare arith_tokenize.simps [simp del]

section \<open>The evaluator\<close>

text \<open>The state of \<open>ArithParser\<close>: the tokens from the position on, and the shell.\<close>

type_synonym arith = "arith_token list \<times> shell_state"
type_synonym arith_fn = "arith \<Rightarrow> (arith \<times> i64, unit) result"

definition MAX_ARITH_DEPTH :: nat where
  "MAX_ARITH_DEPTH = 64"

definition depth_error :: "arith \<Rightarrow> arith" where
  "depth_error s = (fst s, set_arith_error (snd s) ''expression recursion limit exceeded'')"

definition arith_peek :: "arith \<Rightarrow> arith_token option" where
  "arith_peek s = (case fst s of [] \<Rightarrow> None | t # _ \<Rightarrow> Some t)"

definition arith_skip :: "arith \<Rightarrow> arith" where
  "arith_skip s = (tl (fst s), snd s)"

text \<open>\<open>let _ = self.eat(t)\<close>: skip the token if it is there.\<close>

definition arith_eat :: "arith_token \<Rightarrow> arith \<Rightarrow> arith" where
  "arith_eat t s = (if arith_peek s = Some t then arith_skip s else s)"

definition var_get :: "string \<Rightarrow> arith_fn" where
  "var_get name s =
     (let (st, v) = get_var (snd s) name
      in Ok ((fst s, st), unwrap_or_0 (Option.bind v parse_i64)))"

definition var_set :: "string \<Rightarrow> i64 \<Rightarrow> arith_fn" where
  "var_set name val s =
     (case set_var (snd s) name (show_i64 val) of
        None \<Rightarrow> Err ()
      | Some st \<Rightarrow> Ok ((fst s, st), val))"

text \<open>\<open>cur\<close> is stored after a change, and the old or the new value returned.\<close>

definition step_var :: "string \<Rightarrow> i64 \<Rightarrow> bool \<Rightarrow> arith_fn" where
  "step_var name delta old s =
     result_bind (var_get name s) (\<lambda>(s1, cur).
       result_bind (var_set name (cur + delta) s1) (\<lambda>(s2, new). Ok (s2, if old then cur else new)))"

text \<open>Binary operators, which may record an error.\<close>

type_synonym binop = "i64 \<Rightarrow> i64 \<Rightarrow> shell_state \<Rightarrow> (shell_state \<times> i64, unit) result"

definition pure_op :: "(i64 \<Rightarrow> i64 \<Rightarrow> i64) \<Rightarrow> binop" where
  "pure_op f a b st = Ok (st, f a b)"

definition test_op :: "(i64 \<Rightarrow> i64 \<Rightarrow> bool) \<Rightarrow> binop" where
  "test_op f a b st = Ok (st, i64_of_bool (f a b))"

definition division_op :: "(i64 \<Rightarrow> i64 \<Rightarrow> (i64, unit) result) \<Rightarrow> binop" where
  "division_op f a b st =
     (if b = 0 then Ok (set_arith_error st ''division by 0'', 0) else result_bind (f a b) (\<lambda>v. Ok (st, v)))"

definition logical_or_op :: "arith_token \<Rightarrow> binop option" where
  "logical_or_op t = (if t = PipePipe then Some (test_op (\<lambda>a b. a \<noteq> 0 \<or> b \<noteq> 0)) else None)"

definition logical_and_op :: "arith_token \<Rightarrow> binop option" where
  "logical_and_op t = (if t = AmpAmp then Some (test_op (\<lambda>a b. a \<noteq> 0 \<and> b \<noteq> 0)) else None)"

definition bitwise_or_op :: "arith_token \<Rightarrow> binop option" where
  "bitwise_or_op t = (if t = Pipe then Some (pure_op (\<lambda>a b. a OR b)) else None)"

definition bitwise_xor_op :: "arith_token \<Rightarrow> binop option" where
  "bitwise_xor_op t = (if t = Caret then Some (pure_op (\<lambda>a b. a XOR b)) else None)"

definition bitwise_and_op :: "arith_token \<Rightarrow> binop option" where
  "bitwise_and_op t = (if t = Amp then Some (pure_op (\<lambda>a b. a AND b)) else None)"

definition equality_op :: "arith_token \<Rightarrow> binop option" where
  "equality_op t =
     (if t = EqEq then Some (test_op (\<lambda>a b. a = b))
      else if t = Ne then Some (test_op (\<lambda>a b. a \<noteq> b)) else None)"

definition relational_op :: "arith_token \<Rightarrow> binop option" where
  "relational_op t =
     (if t = Lt then Some (test_op (\<lambda>a b. sint a < sint b))
      else if t = Gt then Some (test_op (\<lambda>a b. sint b < sint a))
      else if t = Le then Some (test_op (\<lambda>a b. sint a \<le> sint b))
      else if t = Ge then Some (test_op (\<lambda>a b. sint b \<le> sint a)) else None)"

definition shift_op :: "arith_token \<Rightarrow> binop option" where
  "shift_op t =
     (if t = LShift then Some (pure_op wrapping_shl)
      else if t = RShift then Some (pure_op wrapping_shr) else None)"

definition additive_op :: "arith_token \<Rightarrow> binop option" where
  "additive_op t =
     (if t = Plus then Some (pure_op (\<lambda>a b. a + b))
      else if t = Minus then Some (pure_op (\<lambda>a b. a - b)) else None)"

definition multiplicative_op :: "arith_token \<Rightarrow> binop option" where
  "multiplicative_op t =
     (if t = Star then Some (pure_op (\<lambda>a b. a * b))
      else if t = Slash then Some (division_op wrapping_div)
      else if t = Percent then Some (division_op wrapping_rem) else None)"

text \<open>The loop of the methods for left-associative operators.\<close>

function binary_loop :: "(arith_token \<Rightarrow> binop option) \<Rightarrow> arith_fn \<Rightarrow> i64 \<Rightarrow> arith_fn" where
  "binary_loop ops sub val (ts, st) =
     (case ts of
        [] \<Rightarrow> Ok ((ts, st), val)
      | t # ts1 \<Rightarrow>
          (case ops t of
             None \<Rightarrow> Ok ((ts, st), val)
           | Some f \<Rightarrow>
               result_bind (sub (ts1, st)) (\<lambda>((ts2, st2), rhs).
                 if length ts2 \<le> length ts1
                 then result_bind (f val rhs st2) (\<lambda>(st3, v). binary_loop ops sub v (ts2, st3))
                 else Panic ''unreachable: the position moved back'')))"
  by pat_completeness auto
termination by (relation "measure (\<lambda>(ops, sub, val, ts, st). length ts)") auto

declare binary_loop.simps [simp del]

definition binary_level :: "(arith_token \<Rightarrow> binop option) \<Rightarrow> arith_fn \<Rightarrow> arith_fn" where
  "binary_level ops sub s = result_bind (sub s) (\<lambda>(s1, val). binary_loop ops sub val s1)"

text \<open>The methods from \<open>||\<close> to \<open>*\<close>, above the method for exponentiation.\<close>

definition parse_multiplicative :: "arith_fn \<Rightarrow> arith_fn" where
  "parse_multiplicative pw = binary_level multiplicative_op pw"

definition parse_additive :: "arith_fn \<Rightarrow> arith_fn" where
  "parse_additive pw = binary_level additive_op (parse_multiplicative pw)"

definition parse_shift :: "arith_fn \<Rightarrow> arith_fn" where
  "parse_shift pw = binary_level shift_op (parse_additive pw)"

definition parse_relational :: "arith_fn \<Rightarrow> arith_fn" where
  "parse_relational pw = binary_level relational_op (parse_shift pw)"

definition parse_equality :: "arith_fn \<Rightarrow> arith_fn" where
  "parse_equality pw = binary_level equality_op (parse_relational pw)"

definition parse_bitwise_and :: "arith_fn \<Rightarrow> arith_fn" where
  "parse_bitwise_and pw = binary_level bitwise_and_op (parse_equality pw)"

definition parse_bitwise_xor :: "arith_fn \<Rightarrow> arith_fn" where
  "parse_bitwise_xor pw = binary_level bitwise_xor_op (parse_bitwise_and pw)"

definition parse_bitwise_or :: "arith_fn \<Rightarrow> arith_fn" where
  "parse_bitwise_or pw = binary_level bitwise_or_op (parse_bitwise_xor pw)"

definition parse_logical_and :: "arith_fn \<Rightarrow> arith_fn" where
  "parse_logical_and pw = binary_level logical_and_op (parse_bitwise_or pw)"

definition parse_logical_or :: "arith_fn \<Rightarrow> arith_fn" where
  "parse_logical_or pw = binary_level logical_or_op (parse_logical_and pw)"

text \<open>Both branches are evaluated.\<close>

definition parse_ternary :: "arith_fn \<Rightarrow> arith_fn \<Rightarrow> arith_fn" where
  "parse_ternary assign pw s =
     result_bind (parse_logical_or pw s) (\<lambda>(s1, cond).
       if arith_peek s1 = Some Question then
         result_bind (assign (arith_skip s1)) (\<lambda>(s2, then_val).
           result_bind (assign (arith_eat Colon s2)) (\<lambda>(s3, else_val).
             Ok (s3, if cond \<noteq> 0 then then_val else else_val)))
       else Ok (s1, cond))"

definition is_assign_op :: "arith_token \<Rightarrow> bool" where
  "is_assign_op t \<longleftrightarrow>
     t \<in> {AEq, PlusEq, MinusEq, StarEq, SlashEq, PercentEq, LShiftEq, RShiftEq, AmpEq, CaretEq, PipeEq}"

definition apply_compound_op :: "arith_token \<Rightarrow> i64 \<Rightarrow> i64 \<Rightarrow> (i64, unit) result" where
  "apply_compound_op op cur rhs =
     (case op of
        PlusEq \<Rightarrow> Ok (cur + rhs)
      | MinusEq \<Rightarrow> Ok (cur - rhs)
      | StarEq \<Rightarrow> Ok (cur * rhs)
      | SlashEq \<Rightarrow> if rhs = 0 then Ok 0 else wrapping_div cur rhs
      | PercentEq \<Rightarrow> if rhs = 0 then Ok 0 else wrapping_rem cur rhs
      | LShiftEq \<Rightarrow> Ok (wrapping_shl cur rhs)
      | RShiftEq \<Rightarrow> Ok (wrapping_shr cur rhs)
      | AmpEq \<Rightarrow> Ok (cur AND rhs)
      | CaretEq \<Rightarrow> Ok (cur XOR rhs)
      | PipeEq \<Rightarrow> Ok (cur OR rhs)
      | _ \<Rightarrow> Ok rhs)"

text \<open>The effect of an assignment once its right-hand side is known.\<close>

definition assign_var :: "arith_token \<Rightarrow> string \<Rightarrow> i64 \<Rightarrow> arith_fn" where
  "assign_var op name rhs s =
     (if op = AEq then var_set name rhs s
      else
        result_bind (var_get name s) (\<lambda>(s1, cur).
          result_bind (apply_compound_op op cur rhs) (\<lambda>v. var_set name v s1)))"

definition try_compound_assign :: "arith_fn \<Rightarrow> string \<Rightarrow> arith \<Rightarrow> (arith \<times> i64, unit) result option" where
  "try_compound_assign assign name s =
     (case arith_peek s of
        None \<Rightarrow> None
      | Some op \<Rightarrow>
          if is_assign_op op
          then Some (result_bind (assign (arith_skip s)) (\<lambda>(s1, rhs). assign_var op name rhs s1))
          else None)"

text \<open>The body of \<open>parse_assign\<close>, inside its depth guard.\<close>

definition assign_body :: "arith_fn \<Rightarrow> arith_fn \<Rightarrow> arith_fn" where
  "assign_body assign ternary s =
     (case arith_peek s of
        Some (Ident name) \<Rightarrow>
          (case try_compound_assign assign name (arith_skip s) of
             Some r \<Rightarrow> r
           | None \<Rightarrow> ternary s)
      | _ \<Rightarrow> ternary s)"

definition comma_op :: "arith_token \<Rightarrow> binop option" where
  "comma_op t = (if t = Comma then Some (pure_op (\<lambda>a b. b)) else None)"

definition parse_expr :: "arith_fn \<Rightarrow> arith_fn" where
  "parse_expr assign = binary_level comma_op assign"

definition parse_primary :: "arith_fn \<Rightarrow> arith_fn" where
  "parse_primary expr s =
     (case arith_peek s of
        Some (Number n) \<Rightarrow> Ok (arith_skip s, n)
      | Some (Ident name) \<Rightarrow>
          let s1 = arith_skip s in
          if arith_peek s1 = Some PlusPlus then step_var name 1 True (arith_skip s1)
          else if arith_peek s1 = Some MinusMinus then step_var name (- 1) True (arith_skip s1)
          else var_get name s1
      | Some LParen \<Rightarrow> result_bind (expr (arith_skip s)) (\<lambda>(s1, val). Ok (arith_eat RParen s1, val))
      | _ \<Rightarrow> Ok (arith_skip s, 0))"

definition parse_pre_incdec :: "i64 \<Rightarrow> arith_fn" where
  "parse_pre_incdec delta s =
     (let s1 = arith_skip s in
      case arith_peek s1 of
        Some (Ident name) \<Rightarrow> step_var name delta False (arith_skip s1)
      | _ \<Rightarrow> Ok (s1, 0))"

definition parse_unary_inner :: "arith_fn \<Rightarrow> arith_fn \<Rightarrow> arith_fn" where
  "parse_unary_inner unary expr s =
     (case arith_peek s of
        Some Bang \<Rightarrow> result_bind (unary (arith_skip s)) (\<lambda>(s1, v). Ok (s1, i64_of_bool (v = 0)))
      | Some Tilde \<Rightarrow> result_bind (unary (arith_skip s)) (\<lambda>(s1, v). Ok (s1, NOT v))
      | Some Plus \<Rightarrow> unary (arith_skip s)
      | Some Minus \<Rightarrow> result_bind (unary (arith_skip s)) (\<lambda>(s1, v). Ok (s1, - v))
      | Some PlusPlus \<Rightarrow> parse_pre_incdec 1 s
      | Some MinusMinus \<Rightarrow> parse_pre_incdec (- 1) s
      | _ \<Rightarrow> parse_primary expr s)"

text \<open>
  The methods with a depth guard, on the number of levels that are still allowed:
  \<^const>\<open>MAX_ARITH_DEPTH\<close> less the depth.
\<close>

function parse_assign :: "nat \<Rightarrow> arith_fn"
  and parse_exponentiation :: "nat \<Rightarrow> arith_fn"
  and parse_unary :: "nat \<Rightarrow> arith_fn" where
  "parse_assign 0 s = Ok (depth_error s, 0)"
| "parse_assign (Suc n) s =
     assign_body (\<lambda>s. parse_assign n s)
       (parse_ternary (\<lambda>s. parse_assign n s) (\<lambda>s. parse_exponentiation n s)) s"
| "parse_exponentiation 0 s = Ok (depth_error s, 0)"
| "parse_exponentiation (Suc n) s =
     result_bind (parse_unary n s) (\<lambda>(s1, base).
       if arith_peek s1 = Some StarStar then
         result_bind (parse_exponentiation n (arith_skip s1)) (\<lambda>(s2, e). Ok (s2, wrapping_pow base e))
       else Ok (s1, base))"
| "parse_unary 0 s = Ok (depth_error s, 0)"
| "parse_unary (Suc n) s =
     parse_unary_inner (\<lambda>s. parse_unary n s) (parse_expr (\<lambda>s. parse_assign n s)) s"
  by pat_completeness auto
termination
  by (relation "measure (\<lambda>x. case x of Inl (n, _) \<Rightarrow> n | Inr (Inl (n, _)) \<Rightarrow> n | Inr (Inr (n, _)) \<Rightarrow> n)") auto

definition eval_arithmetic ::
  "expander \<Rightarrow> string \<Rightarrow> shell_state \<Rightarrow> (shell_state \<times> i64, unit) result" where
  "eval_arithmetic ep expr st =
     result_bind (arith_tokenize ep (trim expr) st) (\<lambda>(st1, tokens).
       if tokens = [] then Ok (st1, 0)
       else
         result_bind (parse_expr (parse_assign MAX_ARITH_DEPTH) (tokens, st1)) (\<lambda>((_, st2), v).
           Ok (st2, v)))"

end
