(* ===== verification/Arith_Props.thy ===== *)
theory Arith_Props
  imports Arith
begin

text \<open>
  Arithmetic expansion computes what the expression means: expression trees with their meaning, their
  tokens with the parentheses that precedence asks for, and the evaluator on these tokens.
\<close>

section \<open>Exponentiation\<close>

lemma pow_loop_correct: "pow_loop e res b = res * b ^ e"
proof (induction e res b rule: pow_loop.induct)
  case (1 e res b)
  show ?case
  proof (cases "e = 0")
    case False
    have "b ^ e = (b * b) ^ (e div 2) * (if odd e then b else 1)"
      using power_add [of b "2 * (e div 2)" "e mod 2"] by (auto simp: power_mult power2_eq_square odd_iff_mod_2_eq_one)
    then show ?thesis using 1 False by (simp add: pow_loop.simps [of e] ac_simps)
  qed (simp add: pow_loop.simps)
qed

section \<open>Expressions\<close>

datatype unop = LNot | BNot | UPlus | UMinus

datatype aexp =
  Num i64 | Var string | PreStep bool string | PostStep bool string
| Unary unop aexp | Bin arith_token aexp aexp | Pow aexp aexp
| Cond aexp aexp aexp | Asg arith_token string aexp | Seq aexp aexp

text \<open>The precedence of operators: a higher level binds more tightly.\<close>

definition tok_level :: "arith_token \<Rightarrow> nat" where
  "tok_level t =
     (case t of
        Comma \<Rightarrow> 1
      | Question \<Rightarrow> 3
      | PipePipe \<Rightarrow> 4
      | AmpAmp \<Rightarrow> 5
      | Pipe \<Rightarrow> 6
      | Caret \<Rightarrow> 7
      | Amp \<Rightarrow> 8
      | EqEq \<Rightarrow> 9 | Ne \<Rightarrow> 9
      | Lt \<Rightarrow> 10 | Gt \<Rightarrow> 10 | Le \<Rightarrow> 10 | Ge \<Rightarrow> 10
      | LShift \<Rightarrow> 11 | RShift \<Rightarrow> 11
      | Plus \<Rightarrow> 12 | Minus \<Rightarrow> 12
      | Star \<Rightarrow> 13 | Slash \<Rightarrow> 13 | Percent \<Rightarrow> 13
      | StarStar \<Rightarrow> 14
      | PlusPlus \<Rightarrow> 16 | MinusMinus \<Rightarrow> 16
      | _ \<Rightarrow> if is_assign_op t then 2 else 0)"

definition level_op :: "nat \<Rightarrow> arith_token \<Rightarrow> binop option" where
  "level_op k =
     (if k = 4 then logical_or_op else if k = 5 then logical_and_op else if k = 6 then bitwise_or_op
      else if k = 7 then bitwise_xor_op else if k = 8 then bitwise_and_op else if k = 9 then equality_op
      else if k = 10 then relational_op else if k = 11 then shift_op else if k = 12 then additive_op
      else multiplicative_op)"

definition op_run :: "arith_token \<Rightarrow> binop" where
  "op_run t = (case level_op (tok_level t) t of Some f \<Rightarrow> f | None \<Rightarrow> pure_op (\<lambda>a b. 0))"

lemma level_op_Some:
  "4 \<le> k \<Longrightarrow> k \<le> 13 \<Longrightarrow> level_op k t = (if tok_level t = k then Some (op_run t) else None)"
proof -
  assume "4 \<le> k" "k \<le> 13"
  then have "k = 4 \<or> k = 5 \<or> k = 6 \<or> k = 7 \<or> k = 8 \<or> k = 9 \<or> k = 10 \<or> k = 11 \<or> k = 12 \<or> k = 13"
    by arith
  then show ?thesis
    by (elim disjE) (auto simp: level_op_def tok_level_def op_run_def is_assign_op_def logical_or_op_def logical_and_op_def
        bitwise_or_op_def bitwise_xor_op_def bitwise_and_op_def equality_op_def relational_op_def shift_op_def
        additive_op_def multiplicative_op_def split: arith_token.splits)
qed

text \<open>The methods of the parser composed along an expression.\<close>

type_synonym meaning = "shell_state \<Rightarrow> (shell_state \<times> i64, unit) result"

definition on_state :: "arith_fn \<Rightarrow> meaning" where
  "on_state f st = result_bind (f ([], st)) (\<lambda>((_, st'), v). Ok (st', v))"

fun un_run :: "unop \<Rightarrow> i64 \<Rightarrow> i64" where
  "un_run LNot v = i64_of_bool (v = 0)"
| "un_run BNot v = NOT v"
| "un_run UPlus v = v"
| "un_run UMinus v = - v"

definition delta :: "bool \<Rightarrow> i64" where
  "delta up = (if up then 1 else - 1)"

fun run_exp :: "aexp \<Rightarrow> meaning" where
  "run_exp (Num n) st = Ok (st, n)"
| "run_exp (Var x) st = on_state (var_get x) st"
| "run_exp (PreStep up x) st = on_state (step_var x (delta up) False) st"
| "run_exp (PostStep up x) st = on_state (step_var x (delta up) True) st"
| "run_exp (Unary u e) st = result_bind (run_exp e st) (\<lambda>(st1, v). Ok (st1, un_run u v))"
| "run_exp (Bin t a b) st =
     result_bind (run_exp a st) (\<lambda>(st1, x).
       result_bind (run_exp b st1) (\<lambda>(st2, y). op_run t x y st2))"
| "run_exp (Pow a b) st =
     result_bind (run_exp a st) (\<lambda>(st1, x).
       result_bind (run_exp b st1) (\<lambda>(st2, y). Ok (st2, if sint y < 0 then 0 else x ^ unat y)))"
| "run_exp (Cond c a b) st =
     result_bind (run_exp c st) (\<lambda>(st1, x).
       result_bind (run_exp a st1) (\<lambda>(st2, y).
         result_bind (run_exp b st2) (\<lambda>(st3, z). Ok (st3, if x \<noteq> 0 then y else z))))"
| "run_exp (Asg t x e) st = result_bind (run_exp e st) (\<lambda>(st1, v). on_state (assign_var t x v) st1)"
| "run_exp (Seq a b) st = result_bind (run_exp a st) (\<lambda>(st1, _). run_exp b st1)"

fun exp_level :: "aexp \<Rightarrow> nat" where
  "exp_level (Bin t a b) = tok_level t"
| "exp_level (Pow a b) = 14"
| "exp_level (Cond c a b) = 3"
| "exp_level (Asg t x e) = 2"
| "exp_level (Seq a b) = 1"
| "exp_level (Unary u e) = 15"
| "exp_level (PreStep up x) = 15"
| "exp_level e = 16"

text \<open>Operators are binary operators, assignment operators are assignment operators.\<close>

fun wf_exp :: "aexp \<Rightarrow> bool" where
  "wf_exp (Bin t a b) \<longleftrightarrow> 4 \<le> tok_level t \<and> tok_level t \<le> 13 \<and> wf_exp a \<and> wf_exp b"
| "wf_exp (Pow a b) \<longleftrightarrow> wf_exp a \<and> wf_exp b"
| "wf_exp (Cond c a b) \<longleftrightarrow> wf_exp c \<and> wf_exp a \<and> wf_exp b"
| "wf_exp (Asg t x e) \<longleftrightarrow> is_assign_op t \<and> wf_exp e"
| "wf_exp (Seq a b) \<longleftrightarrow> wf_exp a \<and> wf_exp b"
| "wf_exp (Unary u e) \<longleftrightarrow> wf_exp e"
| "wf_exp e \<longleftrightarrow> True"

fun un_token :: "unop \<Rightarrow> arith_token" where
  "un_token LNot = Bang" | "un_token BNot = Tilde" | "un_token UPlus = Plus" | "un_token UMinus = Minus"

definition step_token :: "bool \<Rightarrow> arith_token" where
  "step_token up = (if up then PlusPlus else MinusMinus)"

definition parens :: "nat \<Rightarrow> nat \<Rightarrow> arith_token list \<Rightarrow> arith_token list" where
  "parens k l ts = (if l < k then LParen # ts @ [RParen] else ts)"

text \<open>
  The tokens of an expression, with parentheses where precedence asks for them, and also around a conditional that stands
  directly in an assignment or beside a comma, and around an assignment after the colon of a conditional: there the
  documents of the shell disagree about the precedence.
\<close>

definition side_level :: "aexp \<Rightarrow> nat" where
  "side_level e = (case e of Cond _ _ _ \<Rightarrow> 0 | _ \<Rightarrow> exp_level e)"

fun tokens_of :: "aexp \<Rightarrow> arith_token list" where
  "tokens_of (Num n) = [Number n]"
| "tokens_of (Var x) = [Ident x]"
| "tokens_of (PreStep up x) = [step_token up, Ident x]"
| "tokens_of (PostStep up x) = [Ident x, step_token up]"
| "tokens_of (Unary u e) = un_token u # parens 15 (exp_level e) (tokens_of e)"
| "tokens_of (Bin t a b) =
     parens (tok_level t) (exp_level a) (tokens_of a) @ t # parens (Suc (tok_level t)) (exp_level b) (tokens_of b)"
| "tokens_of (Pow a b) = parens 15 (exp_level a) (tokens_of a) @ StarStar # parens 14 (exp_level b) (tokens_of b)"
| "tokens_of (Cond c a b) =
     parens 4 (exp_level c) (tokens_of c) @ Question # parens 2 (exp_level a) (tokens_of a) @
       Colon # parens 3 (exp_level b) (tokens_of b)"
| "tokens_of (Asg t x e) = Ident x # t # parens 2 (side_level e) (tokens_of e)"
| "tokens_of (Seq a b) = parens 1 (side_level a) (tokens_of a) @ Comma # parens 2 (side_level b) (tokens_of b)"

text \<open>
  The levels of recursion of the evaluator: an atom takes three (an assignment, a power, a unary operand), a pair of
  parentheses three more, and binary operators none.
\<close>

definition paren_need :: "nat \<Rightarrow> nat \<Rightarrow> nat \<Rightarrow> nat" where
  "paren_need k l n = (if l < k then n + 3 else n)"

fun need :: "aexp \<Rightarrow> nat" where
  "need (Unary u e) = Suc (paren_need 15 (exp_level e) (need e))"
| "need (Bin t a b) = max (paren_need (tok_level t) (exp_level a) (need a)) (paren_need (Suc (tok_level t)) (exp_level b) (need b))"
| "need (Pow a b) = max (paren_need 15 (exp_level a) (need a)) (Suc (paren_need 14 (exp_level b) (need b)))"
| "need (Cond c a b) =
     max (paren_need 4 (exp_level c) (need c))
       (Suc (max (paren_need 2 (exp_level a) (need a)) (paren_need 3 (exp_level b) (need b))))"
| "need (Asg t x e) = Suc (paren_need 2 (side_level e) (need e))"
| "need (Seq a b) = max (paren_need 1 (side_level a) (need a)) (paren_need 2 (side_level b) (need b))"
| "need e = 3"

section \<open>Parsing\<close>

text \<open>
  A method that on the tokens \<open>ts\<close>, when no operator of a level above \<open>lim\<close> follows, has the effect \<open>m\<close>
  and goes on with \<open>c\<close>.
\<close>

definition follows :: "nat \<Rightarrow> arith_token list \<Rightarrow> bool" where
  "follows lim rest \<longleftrightarrow> (case rest of [] \<Rightarrow> True | t # _ \<Rightarrow> tok_level t \<le> lim)"

definition parses :: "arith_fn \<Rightarrow> (i64 \<Rightarrow> arith_fn) \<Rightarrow> nat \<Rightarrow> arith_token list \<Rightarrow> meaning \<Rightarrow> bool" where
  "parses p c lim ts m \<longleftrightarrow>
     (\<forall>rest st. follows lim rest \<longrightarrow>
        p (ts @ rest, st) = result_bind (m st) (\<lambda>(st', v). c v (rest, st')))"

definition ret :: "i64 \<Rightarrow> arith_fn" where
  "ret v s = Ok (s, v)"

lemma parsesD: "parses p c lim ts m \<Longrightarrow> follows lim rest \<Longrightarrow>
    p (ts @ rest, st) = result_bind (m st) (\<lambda>(st', v). c v (rest, st'))"
  by (simp add: parses_def)

lemma result_bind_assoc: "result_bind (result_bind r f) g = result_bind r (\<lambda>x. result_bind (f x) g)"
  by (cases r) simp_all

lemma follows_Cons [simp]: "follows lim (t # ts) \<longleftrightarrow> tok_level t \<le> lim"
  by (simp add: follows_def)

lemma follows_mono: "follows k rest \<Longrightarrow> k \<le> l \<Longrightarrow> follows l rest"
  by (auto simp: follows_def split: list.splits)

lemma result_bind_cong_Ok: "(\<And>x. r = Ok x \<Longrightarrow> f x = g x) \<Longrightarrow> result_bind r f = result_bind r g"
  by (cases r) simp_all

text \<open>From one method to the method of the level below it.\<close>

lemma loop_stops:
  assumes "follows lim rest" "lim < k" "\<And>t. ops t \<noteq> None \<Longrightarrow> tok_level t = k"
  shows "binary_loop ops p v (rest, st) = Ok ((rest, st), v)"
  using assms by (cases rest) (fastforce simp: binary_loop.simps split: option.splits)+

lemma climb:
  assumes "parses p ret lim ts m"
  shows "parses (binary_level ops p) (binary_loop ops p) lim ts m"
  using assms by (auto simp: parses_def binary_level_def ret_def result_bind_assoc intro: result_bind_cong_Ok)

lemma settle:
  assumes "parses q (binary_loop ops p) k ts m" "\<And>t. ops t \<noteq> None \<Longrightarrow> tok_level t = k" "lim < k"
  shows "parses q ret lim ts m"
  unfolding parses_def
proof (intro allI impI)
  fix rest st assume f: "follows lim rest"
  then have "q (ts @ rest, st) = result_bind (m st) (\<lambda>(st', v). binary_loop ops p v (rest, st'))"
    using parsesD [OF assms(1)] follows_mono [OF f, of k] assms(3) by simp
  then show "q (ts @ rest, st) = result_bind (m st) (\<lambda>(st', v). ret v (rest, st'))"
    using loop_stops [OF f assms(3,2)] by (auto simp: ret_def intro: result_bind_cong_Ok)
qed

text \<open>The methods for binary operators, from level \<open>k\<close> up to exponentiation.\<close>

function bin_parser :: "nat \<Rightarrow> arith_fn \<Rightarrow> arith_fn" where
  "bin_parser k p = (if 14 \<le> k then p else binary_level (level_op k) (bin_parser (Suc k) p))"
  by pat_completeness auto
termination by (relation "measure (\<lambda>(k, p). 14 - k)") auto

declare bin_parser.simps [simp del]

lemma parse_logical_or_levels: "parse_logical_or p = bin_parser 4 p"
  by (simp add: parse_logical_or_def parse_logical_and_def parse_bitwise_or_def parse_bitwise_xor_def parse_bitwise_and_def
      parse_equality_def parse_relational_def parse_shift_def parse_additive_def parse_multiplicative_def
      bin_parser.simps level_op_def)

abbreviation level_loop :: "nat \<Rightarrow> arith_fn \<Rightarrow> i64 \<Rightarrow> arith_fn" where
  "level_loop k p \<equiv> binary_loop (level_op k) (bin_parser (Suc k) p)"

lemma level_op_level: "4 \<le> k \<Longrightarrow> k \<le> 13 \<Longrightarrow> level_op k t \<noteq> None \<Longrightarrow> tok_level t = k"
  by (simp add: level_op_Some split: if_splits)

lemma level_settles:
  "parses (bin_parser k p) (level_loop k p) k ts m \<Longrightarrow> 4 \<le> k \<Longrightarrow> k \<le> 13 \<Longrightarrow> parses (bin_parser k p) ret (k - 1) ts m"
  by (rule settle) (auto intro: level_op_level)

lemma level_climbs:
  "parses (bin_parser (Suc k) p) ret k ts m \<Longrightarrow> k \<le> 13 \<Longrightarrow> parses (bin_parser k p) (level_loop k p) k ts m"
  using climb [of "bin_parser (Suc k) p" k ts m "level_op k"] by (simp add: bin_parser.simps [of k])

lemma levels_down:
  assumes "parses (bin_parser j p) ret (j - 1) ts m" "4 \<le> k" "k < j" "j \<le> 14"
  shows "parses (bin_parser k p) (level_loop k p) k ts m"
  using assms(3,2)
proof (induction "j - Suc k" arbitrary: k)
  case 0
  then have "j = Suc k" by simp
  then show ?case using assms(1,4) level_climbs [of k p ts m] by simp
next
  case (Suc d)
  have "parses (bin_parser (Suc k) p) (level_loop (Suc k) p) (Suc k) ts m"
    using Suc.hyps(1) [of "Suc k"] Suc.hyps(2) Suc.prems by simp
  then show ?case using level_settles [of "Suc k" p ts m] level_climbs [of k p ts m] Suc assms(4) by simp
qed

lemma levels_below:
  assumes "parses (bin_parser j p) (level_loop j p) j ts m" "4 \<le> k" "k \<le> j" "j \<le> 13"
  shows "parses (bin_parser k p) (level_loop k p) k ts m"
  using assms level_settles [of j p ts m] levels_down [of j p ts m k] by (cases "k = j") simp_all

lemma bin_step:
  assumes k: "4 \<le> k" "k \<le> 13" "tok_level t = k"
    and a: "parses (bin_parser k p) (level_loop k p) k tsa ma"
    and b: "parses (bin_parser (Suc k) p) ret k tsb mb"
  shows "parses (bin_parser k p) (level_loop k p) k (tsa @ t # tsb)
    (\<lambda>st. result_bind (ma st) (\<lambda>(st1, x). result_bind (mb st1) (\<lambda>(st2, y). op_run t x y st2)))"
  unfolding parses_def
proof (intro allI impI)
  fix rest st assume f: "follows k rest"
  have "level_loop k p x (t # tsb @ rest, st1) =
      result_bind (mb st1) (\<lambda>(st2, y). result_bind (op_run t x y st2) (\<lambda>(st3, v). level_loop k p v (rest, st3)))" for x st1
    using parsesD [OF b f] k
    by (auto simp: binary_loop.simps [of _ _ _ "t # tsb @ rest"] level_op_Some result_bind_assoc ret_def split_beta
        intro: result_bind_cong_Ok)
  then show "bin_parser k p ((tsa @ t # tsb) @ rest, st) =
      result_bind (result_bind (ma st) (\<lambda>(st1, x). result_bind (mb st1) (\<lambda>(st2, y). op_run t x y st2)))
       (\<lambda>(st', v). level_loop k p v (rest, st'))"
    using parsesD [OF a, of "t # tsb @ rest" st] k
    by (auto simp: result_bind_assoc split_beta intro!: result_bind_cong_Ok)
qed

section \<open>The guarded methods\<close>

definition no_assign :: "arith_token list \<Rightarrow> bool" where
  "no_assign ts \<longleftrightarrow> ts \<noteq> [] \<and> (\<forall>x u us. ts = Ident x # u # us \<longrightarrow> \<not> is_assign_op u)"

text \<open>The levels are counted at \<open>parse_assign\<close>; a power has one and a unary operand two fewer left.\<close>

definition handles :: "nat \<Rightarrow> arith_token list \<Rightarrow> meaning \<Rightarrow> nat \<Rightarrow> bool" where
  "handles N ts m l \<longleftrightarrow>
     (\<forall>n.
        (15 \<le> l \<longrightarrow> N \<le> n + 2 \<longrightarrow> parses (parse_unary n) ret 14 ts m) \<and>
        (14 \<le> l \<longrightarrow> N \<le> n + 1 \<longrightarrow> parses (parse_exponentiation n) ret 13 ts m) \<and>
        (\<forall>k. 4 \<le> k \<longrightarrow> k \<le> 13 \<longrightarrow> k \<le> l \<longrightarrow> N \<le> n + 1 \<longrightarrow>
           parses (bin_parser k (parse_exponentiation n)) (level_loop k (parse_exponentiation n)) k ts m) \<and>
        (3 \<le> l \<longrightarrow> N \<le> n + 1 \<longrightarrow> parses (parse_ternary (parse_assign n) (parse_exponentiation n)) ret 1 ts m) \<and>
        (2 \<le> l \<longrightarrow> N \<le> n \<longrightarrow> parses (parse_assign n) ret 1 ts m) \<and>
        (N \<le> n \<longrightarrow> parses (parse_expr (parse_assign n)) (binary_loop comma_op (parse_assign n)) 1 ts m))"

lemma assign_op_level: "is_assign_op t \<longleftrightarrow> tok_level t = 2"
  by (auto simp: is_assign_op_def tok_level_def split: arith_token.splits)

lemma expr_of_assign:
  assumes "parses (parse_assign n) ret 1 ts m"
  shows "parses (parse_expr (parse_assign n)) (binary_loop comma_op (parse_assign n)) 1 ts m"
  unfolding parse_expr_def using assms by (rule climb)

lemma handles_assign:
  assumes "\<And>n. N \<le> n \<Longrightarrow> parses (parse_assign n) ret 1 ts m"
  shows "handles N ts m 2"
  using assms expr_of_assign by (auto simp: handles_def)

lemma assign_of_ternary:
  assumes "parses (parse_ternary (parse_assign n) (parse_exponentiation n)) ret 1 ts m" "no_assign ts"
  shows "parses (parse_assign (Suc n)) ret 1 ts m"
  unfolding parses_def
proof (intro allI impI)
  fix rest st assume f: "follows 1 rest"
  have "assign_body (parse_assign n) tern (ts @ rest, st) = tern (ts @ rest, st)" for tern
  proof (cases ts)
    case (Cons t us)
    have "\<not> is_assign_op u" if "t = Ident x" "us @ rest = u # vs" for x u vs
      using that f assms(2) Cons by (cases us) (auto simp: no_assign_def assign_op_level)
    then show ?thesis using Cons
      by (cases t; cases "us @ rest")
        (auto simp: assign_body_def try_compound_assign_def arith_peek_def arith_skip_def split: option.splits)
  qed (use assms(2) in \<open>simp add: no_assign_def\<close>)
  then show "parse_assign (Suc n) (ts @ rest, st) = result_bind (m st) (\<lambda>(st', v). ret v (rest, st'))"
    using parsesD [OF assms(1) follows_mono [OF f]] by simp
qed

lemma handles_ternary:
  assumes "\<And>n. N \<le> n + 1 \<Longrightarrow> parses (parse_ternary (parse_assign n) (parse_exponentiation n)) ret 1 ts m" "no_assign ts" "0 < N"
  shows "handles N ts m 3"
proof -
  have "parses (parse_assign n) ret 1 ts m" if "N \<le> n" for n
    using assign_of_ternary [OF assms(1) [of "n - 1"] assms(2)] that assms(3) by (cases n) auto
  then show ?thesis using assms(1) expr_of_assign by (auto simp: handles_def)
qed

lemma ternary_of_level:
  assumes "parses (bin_parser 4 p) (level_loop 4 p) 4 ts m"
  shows "parses (parse_ternary a p) ret 1 ts m"
  unfolding parses_def
proof (intro allI impI)
  fix rest st assume f: "follows 1 rest"
  then have "arith_peek (rest, st') \<noteq> Some Question" for st'
    by (auto simp: follows_def arith_peek_def tok_level_def split: list.splits)
  then show "parse_ternary a p (ts @ rest, st) = result_bind (m st) (\<lambda>(st', v). ret v (rest, st'))"
    using parsesD [OF level_settles [OF assms] follows_mono [OF f], of st]
    by (auto simp: parse_ternary_def parse_logical_or_levels result_bind_assoc ret_def intro!: result_bind_cong_Ok)
qed

lemma handles_mono: "handles N ts m l \<Longrightarrow> N \<le> N' \<Longrightarrow> handles N' ts m l"
  by (simp add: handles_def)

lemma handles_weaken: "handles N ts m l \<Longrightarrow> l' \<le> l \<Longrightarrow> handles N ts m l'"
  by (auto simp: handles_def)

lemma handles_level:
  assumes "\<And>n. N \<le> n + 1 \<Longrightarrow> parses (bin_parser k (parse_exponentiation n)) (level_loop k (parse_exponentiation n)) k ts m"
    and "no_assign ts" "0 < N" "4 \<le> k" "k \<le> 13"
  shows "handles N ts m k"
proof -
  have L: "parses (bin_parser j (parse_exponentiation n)) (level_loop j (parse_exponentiation n)) j ts m"
    if "N \<le> n + 1" "4 \<le> j" "j \<le> k" for n j
    using levels_below [OF assms(1)] that assms(5) by blast
  have "handles N ts m 3"
    by (rule handles_ternary [OF ternary_of_level assms(2,3)], rule L) (use assms(4) in simp_all)
  then show ?thesis using L assms(4,5) by (auto simp: handles_def)
qed

lemma handles_exponentiation:
  assumes "\<And>n. N \<le> n + 1 \<Longrightarrow> parses (parse_exponentiation n) ret 13 ts m" "no_assign ts" "0 < N"
  shows "handles N ts m 14"
proof -
  have "parses (bin_parser 13 (parse_exponentiation n)) (level_loop 13 (parse_exponentiation n)) 13 ts m" if "N \<le> n + 1" for n
    using level_climbs [of 13 "parse_exponentiation n" ts m] assms(1) [OF that] by (simp add: bin_parser.simps [of 14])
  then have "handles N ts m 13" by (rule handles_level [OF _ assms(2,3)]) simp_all
  then show ?thesis using assms(1) by (auto simp: handles_def)
qed

lemma handles_unary:
  assumes "\<And>n. N \<le> n + 2 \<Longrightarrow> parses (parse_unary n) ret 14 ts m" "no_assign ts" "1 < N"
  shows "handles N ts m 16"
proof -
  have "parses (parse_exponentiation n) ret 13 ts m" if ge: "N \<le> n + 1" for n
    unfolding parses_def
  proof (intro allI impI)
    fix rest st assume f: "follows 13 rest"
    obtain m' where n: "n = Suc m'" "N \<le> m' + 2" using ge assms(3) by (cases n) auto
    have "arith_peek (rest, st') \<noteq> Some StarStar" for st'
      using f by (auto simp: follows_def arith_peek_def tok_level_def split: list.splits)
    then show "parse_exponentiation n (ts @ rest, st) = result_bind (m st) (\<lambda>(st', v). ret v (rest, st'))"
      using parsesD [OF assms(1) [OF n(2)] follows_mono [OF f], of st] n(1)
      by (auto simp: result_bind_assoc ret_def intro!: result_bind_cong_Ok)
  qed
  then have "handles N ts m 14" by (rule handles_exponentiation [OF _ assms(2)]) (use assms(3) in simp_all)
  then show ?thesis using assms(1) by (auto simp: handles_def)
qed

section \<open>The evaluator computes the meaning\<close>

lemma handles_paren:
  assumes "handles N ts m l"
  shows "handles (N + 3) (LParen # ts @ [RParen]) m 16"
proof -
  have "parses (parse_unary n) ret 14 (LParen # ts @ [RParen]) m" if ge: "N + 3 \<le> n + 2" for n
    unfolding parses_def
  proof (intro allI impI)
    fix rest st assume "follows 14 rest"
    obtain n' where n: "n = Suc n'" "N \<le> n'" using ge by (cases n) auto
    have e: "parses (parse_expr (parse_assign n')) (binary_loop comma_op (parse_assign n')) 1 ts m"
      using assms n(2) by (simp add: handles_def)
    have "binary_loop comma_op (parse_assign n') v (RParen # rest, st') = Ok ((RParen # rest, st'), v)" for v st'
      by (simp add: binary_loop.simps comma_op_def)
    then show "parse_unary n ((LParen # ts @ [RParen]) @ rest, st) = result_bind (m st) (\<lambda>(st', v). ret v (rest, st'))"
      using parsesD [OF e, of "RParen # rest" st] n(1)
      by (auto simp: parse_unary_inner_def parse_primary_def arith_peek_def arith_skip_def arith_eat_def tok_level_def
          is_assign_op_def result_bind_assoc ret_def intro!: result_bind_cong_Ok)
  qed
  then show ?thesis by (rule handles_unary) (simp_all add: no_assign_def)
qed

lemma handles_parens:
  assumes "handles N ts m l" "k \<le> 16" "l' \<le> l"
  shows "handles (paren_need k l' N) (parens k l' ts) m k"
  using assms handles_weaken [OF handles_paren [OF assms(1)], of k] handles_weaken [of N ts m l k]
  by (auto simp: parens_def paren_need_def)

lemma no_assign_append: "no_assign ts \<Longrightarrow> \<not> is_assign_op t \<Longrightarrow> no_assign (ts @ t # us)"
  by (cases ts rule: list.exhaust [case_product list.exhaust, of _ "tl ts"]) (auto simp: no_assign_def Cons_eq_append_conv)

lemma no_assign_parens: "(k \<le> l \<Longrightarrow> no_assign ts) \<Longrightarrow> no_assign (parens k l ts)"
  by (auto simp: parens_def no_assign_def)

lemma tokens_no_assign: "wf_exp e \<Longrightarrow> 3 \<le> exp_level e \<Longrightarrow> no_assign (tokens_of e)"
proof (induction e)
  case (Bin t a b)
  then show ?case by (auto simp: assign_op_level intro!: no_assign_append no_assign_parens)
next
  case (Pow a b)
  then show ?case by (auto simp: is_assign_op_def intro!: no_assign_append no_assign_parens)
next
  case (Cond c a b)
  then show ?case by (auto simp: is_assign_op_def intro!: no_assign_append no_assign_parens)
next
  case (Unary u e)
  then show ?case by (cases u) (simp_all add: no_assign_def)
qed (auto simp: no_assign_def step_token_def is_assign_op_def)

lemma var_frames:
  "var_get x (ts, st) = result_bind (on_state (var_get x) st) (\<lambda>(st', v). ret v (ts, st'))"
  "step_var x d old (ts, st) = result_bind (on_state (step_var x d old) st) (\<lambda>(st', v). ret v (ts, st'))"
  "assign_var t x v (ts, st) = result_bind (on_state (assign_var t x v) st) (\<lambda>(st', v). ret v (ts, st'))"
  by (auto simp: on_state_def ret_def var_get_def var_set_def step_var_def assign_var_def result_bind_assoc
      intro!: result_bind_cong_Ok split: prod.splits option.splits)

lemmas peek_simps = arith_peek_def arith_skip_def arith_eat_def

lemma leaf_handled:
  assumes "ts = t # us" "no_assign ts"
    and "\<And>n rest st. follows 14 rest \<Longrightarrow>
      parse_unary_inner (parse_unary n) (parse_expr (parse_assign n)) (ts @ rest, st) =
        result_bind (m st) (\<lambda>(st', v). ret v (rest, st'))"
  shows "handles 3 ts m 16"
proof -
  have "parses (parse_unary n) ret 14 ts m" if "3 \<le> n + 2" for n
    using that assms(3) by (cases n) (simp_all add: parses_def)
  then show ?thesis by (rule handles_unary [OF _ assms(2)]) simp_all
qed

lemma no_step_follows: "follows 14 rest \<Longrightarrow> arith_peek (rest, st) \<noteq> Some PlusPlus \<and> arith_peek (rest, st) \<noteq> Some MinusMinus"
  by (auto simp: follows_def arith_peek_def tok_level_def split: list.splits)

lemma unary_handled:
  assumes "handles N ts m 15" "1 < N"
  shows "handles (Suc N) (un_token u # ts) (\<lambda>st. result_bind (m st) (\<lambda>(st1, v). Ok (st1, un_run u v))) 16"
proof -
  have "parses (parse_unary n) ret 14 (un_token u # ts) (\<lambda>st. result_bind (m st) (\<lambda>(st1, v). Ok (st1, un_run u v)))"
    if ge: "Suc N \<le> n + 2" for n
    unfolding parses_def
  proof (intro allI impI)
    fix rest st assume f: "follows 14 rest"
    obtain n' where n: "n = Suc n'" "N \<le> n' + 2" using ge assms(2) by (cases n) auto
    then have "parses (parse_unary n') ret 14 ts m" using assms(1) by (simp add: handles_def)
    from parsesD [OF this f, of st]
    show "parse_unary n ((un_token u # ts) @ rest, st) =
        result_bind (result_bind (m st) (\<lambda>(st1, v). Ok (st1, un_run u v))) (\<lambda>(st', v). ret v (rest, st'))"
      using n(1) by (cases u)
        (auto simp: parse_unary_inner_def peek_simps result_bind_assoc ret_def intro!: result_bind_cong_Ok)
  qed
  then show ?thesis by (rule handles_unary) (use assms(2) in \<open>cases u; simp add: no_assign_def\<close>)+
qed

lemma pow_handled:
  assumes a: "handles N tsa ma 15" and b: "handles M tsb mb 14" and "no_assign tsa" "1 < N"
  shows "handles (max N (Suc M)) (tsa @ StarStar # tsb)
    (\<lambda>st. result_bind (ma st) (\<lambda>(st1, x). result_bind (mb st1) (\<lambda>(st2, y). Ok (st2, if sint y < 0 then 0 else x ^ unat y)))) 14"
    (is "handles _ ?ts ?m _")
proof -
  have "parses (parse_exponentiation n) ret 13 ?ts ?m" if ge: "max N (Suc M) \<le> n + 1" for n
    unfolding parses_def
  proof (intro allI impI)
    fix rest st assume f: "follows 13 rest"
    obtain n' where n: "n = Suc n'" "N \<le> n' + 2" "M \<le> n' + 1" using ge assms(4) by (cases n) auto
    have a': "parse_unary n' (tsa @ StarStar # tsb @ rest, st) = result_bind (ma st) (\<lambda>(st', v). ret v (StarStar # tsb @ rest, st'))"
      by (rule parsesD [where lim = 14]) (use a n(2) in \<open>simp_all add: handles_def tok_level_def\<close>)
    have b': "parse_exponentiation n' (tsb @ rest, st') = result_bind (mb st') (\<lambda>(st'', v). ret v (rest, st''))" for st'
      by (rule parsesD [where lim = 13]) (use b n(3) f in \<open>simp_all add: handles_def\<close>)
    show "parse_exponentiation n (?ts @ rest, st) = result_bind (?m st) (\<lambda>(st', v). ret v (rest, st'))"
      using n(1) a' b'
      by (auto simp: peek_simps result_bind_assoc ret_def wrapping_pow_def pow_loop_correct intro!: result_bind_cong_Ok)
  qed
  then show ?thesis
    by (rule handles_exponentiation) (use assms(3,4) in \<open>auto simp: is_assign_op_def intro!: no_assign_append\<close>)
qed

lemma cond_handled:
  assumes c: "handles N tsc mc 4" and a: "handles M tsa ma 2" and b: "handles M tsb mb 2" and "no_assign tsc"
  shows "handles (max N (Suc M)) (tsc @ Question # tsa @ Colon # tsb)
    (\<lambda>st. result_bind (mc st) (\<lambda>(st1, x). result_bind (ma st1) (\<lambda>(st2, y).
       result_bind (mb st2) (\<lambda>(st3, z). Ok (st3, if x \<noteq> 0 then y else z))))) 3"
    (is "handles _ ?ts ?m _")
proof -
  have "parses (parse_ternary (parse_assign n) (parse_exponentiation n)) ret 1 ?ts ?m" if n: "max N (Suc M) \<le> n + 1" for n
    unfolding parses_def
  proof (intro allI impI)
    fix rest st assume f: "follows 1 rest"
    let ?p = "parse_exponentiation n"
    have "parses (bin_parser 4 ?p) (level_loop 4 ?p) 4 tsc mc" using c n by (simp add: handles_def)
    then have "parses (bin_parser 4 ?p) ret 3 tsc mc" using level_settles [of 4 ?p tsc mc] by simp
    then have c': "parse_logical_or ?p (tsc @ Question # us, st) = result_bind (mc st) (\<lambda>(st', v). ret v (Question # us, st'))" for us
      unfolding parse_logical_or_levels by (rule parsesD) (simp add: tok_level_def)
    have a': "parse_assign n (tsa @ Colon # us, st') = result_bind (ma st') (\<lambda>(st'', v). ret v (Colon # us, st''))" for us st'
      by (rule parsesD [where lim = 1]) (use a n in \<open>simp_all add: handles_def tok_level_def is_assign_op_def\<close>)
    have b': "parse_assign n (tsb @ rest, st') = result_bind (mb st') (\<lambda>(st'', v). ret v (rest, st''))" for st'
      by (rule parsesD [where lim = 1]) (use b n f in \<open>simp_all add: handles_def\<close>)
    show "parse_ternary (parse_assign n) ?p (?ts @ rest, st) = result_bind (?m st) (\<lambda>(st', v). ret v (rest, st'))"
      using c' a' b'
      by (auto simp: parse_ternary_def peek_simps result_bind_assoc ret_def intro!: result_bind_cong_Ok)
  qed
  then show ?thesis
    by (rule handles_ternary) (use assms(4) in \<open>auto simp: is_assign_op_def intro!: no_assign_append\<close>)
qed

lemma assign_handled:
  assumes "handles N ts m 2" "is_assign_op t"
  shows "handles (Suc N) (Ident x # t # ts) (\<lambda>st. result_bind (m st) (\<lambda>(st1, v). on_state (assign_var t x v) st1)) 2"
    (is "handles _ ?ts ?m _")
proof -
  have "parses (parse_assign n) ret 1 ?ts ?m" if ge: "Suc N \<le> n" for n
    unfolding parses_def
  proof (intro allI impI)
    fix rest st assume f: "follows 1 rest"
    obtain n' where n: "n = Suc n'" "N \<le> n'" using ge by (cases n) auto
    have "parse_assign n' (ts @ rest, st) = result_bind (m st) (\<lambda>(st', v). ret v (rest, st'))"
      by (rule parsesD [where lim = 1]) (use assms(1) n(2) f in \<open>simp_all add: handles_def\<close>)
    then show "parse_assign n (?ts @ rest, st) = result_bind (?m st) (\<lambda>(st', v). ret v (rest, st'))"
      using n(1) assms(2)
      by (auto simp: assign_body_def try_compound_assign_def peek_simps result_bind_assoc ret_def var_frames(3)
          intro!: result_bind_cong_Ok)
  qed
  then show ?thesis by (rule handles_assign)
qed

lemma seq_handled:
  assumes a: "handles N tsa ma 1" and b: "handles N tsb mb 2"
  shows "handles N (tsa @ Comma # tsb) (\<lambda>st. result_bind (ma st) (\<lambda>(st1, _). mb st1)) 1"
    (is "handles _ ?ts ?m _")
proof -
  have "parses (parse_expr (parse_assign n)) (binary_loop comma_op (parse_assign n)) 1 ?ts ?m" if n: "N \<le> n" for n
    unfolding parses_def
  proof (intro allI impI)
    fix rest st assume f: "follows 1 rest"
    let ?loop = "binary_loop comma_op (parse_assign n)"
    have a': "parse_expr (parse_assign n) (tsa @ Comma # tsb @ rest, st) = result_bind (ma st) (\<lambda>(st', v). ?loop v (Comma # tsb @ rest, st'))"
      by (rule parsesD [where lim = 1]) (use a n in \<open>simp_all add: handles_def tok_level_def\<close>)
    have b': "parse_assign n (tsb @ rest, st') = result_bind (mb st') (\<lambda>(st'', v). ret v (rest, st''))" for st'
      by (rule parsesD [where lim = 1]) (use b n f in \<open>simp_all add: handles_def\<close>)
    have "?loop v (Comma # tsb @ rest, st') = result_bind (mb st') (\<lambda>(st'', v). ?loop v (rest, st''))" for v st'
      using b' by (auto simp: binary_loop.simps [of _ _ _ "Comma # tsb @ rest"] comma_op_def pure_op_def result_bind_assoc ret_def
          intro!: result_bind_cong_Ok)
    then show "parse_expr (parse_assign n) (?ts @ rest, st) = result_bind (?m st) (\<lambda>(st', v). ?loop v (rest, st'))"
      using a' by (auto simp: result_bind_assoc intro!: result_bind_cong_Ok)
  qed
  then show ?thesis by (simp add: handles_def)
qed

lemma bin_handled:
  assumes a: "handles N tsa ma (tok_level t)" and b: "handles N tsb mb (Suc (tok_level t))" and "no_assign tsa"
    and t: "4 \<le> tok_level t" "tok_level t \<le> 13" and "0 < N"
  shows "handles N (tsa @ t # tsb)
    (\<lambda>st. result_bind (ma st) (\<lambda>(st1, x). result_bind (mb st1) (\<lambda>(st2, y). op_run t x y st2))) (tok_level t)"
    (is "handles _ ?ts ?m _")
proof -
  let ?k = "tok_level t"
  have "parses (bin_parser ?k (parse_exponentiation n)) (level_loop ?k (parse_exponentiation n)) ?k ?ts ?m" if n: "N \<le> n + 1" for n
  proof (rule bin_step [OF t refl])
    let ?p = "parse_exponentiation n"
    show "parses (bin_parser ?k ?p) (level_loop ?k ?p) ?k tsa ma" using a t n by (simp add: handles_def)
    show "parses (bin_parser (Suc ?k) ?p) ret ?k tsb mb"
    proof (cases "?k = 13")
      case True
      then show ?thesis using b n by (simp add: handles_def bin_parser.simps)
    next
      case False
      then have "parses (bin_parser (Suc ?k) ?p) (level_loop (Suc ?k) ?p) (Suc ?k) tsb mb"
        using b t n by (simp add: handles_def)
      then show ?thesis using level_settles [of "Suc ?k" ?p tsb mb] t False by simp
    qed
  qed
  then show ?thesis
    by (rule handles_level) (use assms(3,6) t in \<open>auto simp: assign_op_level intro!: no_assign_append\<close>)
qed

lemma need_pos: "3 \<le> need e"
  by (induction e) (auto simp: paren_need_def max_def)

lemma paren_need_pos: "3 \<le> paren_need k l (need e)"
  using need_pos [of e] by (simp add: paren_need_def)

lemma side_level_le: "side_level e \<le> exp_level e"
  by (cases e) (simp_all add: side_level_def)

lemma tokens_handled: "wf_exp e \<Longrightarrow> handles (need e) (tokens_of e) (run_exp e) (exp_level e)"
proof (induction e)
  case (Num n)
  show ?case
    by (simp, rule leaf_handled) (auto simp: no_assign_def parse_unary_inner_def parse_primary_def peek_simps ret_def)
next
  case (Var x)
  show ?case
    by (simp, rule leaf_handled)
      (use no_step_follows in \<open>auto simp: no_assign_def parse_unary_inner_def parse_primary_def peek_simps var_frames\<close>)
next
  case (PreStep up x)
  have "handles 3 [step_token up, Ident x] (on_state (step_var x (delta up) False)) 16"
    by (rule leaf_handled)
      (auto simp: no_assign_def step_token_def delta_def parse_unary_inner_def parse_pre_incdec_def peek_simps var_frames)
  from handles_weaken [OF this, of 15] show ?case by simp
next
  case (PostStep up x)
  show ?case
    by (simp, rule leaf_handled)
      (auto simp: no_assign_def step_token_def is_assign_op_def delta_def parse_unary_inner_def parse_primary_def peek_simps var_frames)
next
  case (Unary u e)
  then have "handles (paren_need 15 (exp_level e) (need e)) (parens 15 (exp_level e) (tokens_of e)) (run_exp e) 15"
    by (auto intro!: handles_parens)
  from unary_handled [OF this, of u] show ?case
    using handles_weaken [of _ _ _ 16 15] paren_need_pos [of 15 "exp_level e" e] by simp
next
  case (Bin t a b)
  let ?N = "need (Bin t a b)"
  have "handles ?N (parens (tok_level t) (exp_level a) (tokens_of a)) (run_exp a) (tok_level t)"
    "handles ?N (parens (Suc (tok_level t)) (exp_level b) (tokens_of b)) (run_exp b) (Suc (tok_level t))"
    using Bin by (auto intro!: handles_mono [OF handles_parens])
  moreover have "no_assign (parens (tok_level t) (exp_level a) (tokens_of a))"
    using Bin.prems by (intro no_assign_parens tokens_no_assign) simp_all
  ultimately show ?case
    using Bin.prems bin_handled [of ?N] need_pos [of "Bin t a b"] by simp
next
  case (Pow a b)
  have "handles (paren_need 15 (exp_level a) (need a)) (parens 15 (exp_level a) (tokens_of a)) (run_exp a) 15"
    "handles (paren_need 14 (exp_level b) (need b)) (parens 14 (exp_level b) (tokens_of b)) (run_exp b) 14"
    using Pow by (auto intro!: handles_parens)
  moreover have "no_assign (parens 15 (exp_level a) (tokens_of a))"
    using Pow.prems by (intro no_assign_parens tokens_no_assign) simp_all
  ultimately show ?case
    using pow_handled paren_need_pos [of 15 "exp_level a" a] by simp
next
  case (Cond c a b)
  let ?M = "max (paren_need 2 (exp_level a) (need a)) (paren_need 3 (exp_level b) (need b))"
  have "handles (paren_need 4 (exp_level c) (need c)) (parens 4 (exp_level c) (tokens_of c)) (run_exp c) 4"
    "handles ?M (parens 2 (exp_level a) (tokens_of a)) (run_exp a) 2"
    using Cond by (auto intro!: handles_parens handles_mono [OF handles_parens])
  moreover have "handles ?M (parens 3 (exp_level b) (tokens_of b)) (run_exp b) 3"
    using Cond by (auto intro!: handles_mono [OF handles_parens])
  from handles_weaken [OF this, of 2] have "handles ?M (parens 3 (exp_level b) (tokens_of b)) (run_exp b) 2" by simp
  moreover have "no_assign (parens 4 (exp_level c) (tokens_of c))"
    using Cond.prems by (intro no_assign_parens tokens_no_assign) simp_all
  ultimately show ?case using cond_handled by simp
next
  case (Asg t x e)
  then have "handles (paren_need 2 (side_level e) (need e)) (parens 2 (side_level e) (tokens_of e)) (run_exp e) 2"
    using side_level_le by (intro handles_parens) simp_all
  from assign_handled [OF this, of t x] Asg.prems show ?case by simp
next
  case (Seq a b)
  let ?N = "need (Seq a b)"
  have "handles ?N (parens 1 (side_level a) (tokens_of a)) (run_exp a) 1"
    "handles ?N (parens 2 (side_level b) (tokens_of b)) (run_exp b) 2"
    using Seq side_level_le by (auto intro!: handles_mono [OF handles_parens])
  from seq_handled [OF this] show ?case by simp
qed

section \<open>The text of an expression\<close>

fun atoken_text :: "arith_token \<Rightarrow> string" where
  "atoken_text (Number n) = show_nat (unat n)"
| "atoken_text (Ident x) = x"
| "atoken_text Plus = ''+''" | "atoken_text Minus = ''-''" | "atoken_text Star = ''*''" | "atoken_text Slash = ''/''"
| "atoken_text Percent = ''%''" | "atoken_text StarStar = ''**''" | "atoken_text LShift = ''<<''" | "atoken_text RShift = ''>>''"
| "atoken_text Lt = ''<''" | "atoken_text Gt = ''>''" | "atoken_text Le = ''<=''" | "atoken_text Ge = ''>=''"
| "atoken_text EqEq = ''==''" | "atoken_text Ne = ''!=''" | "atoken_text Amp = ''&''" | "atoken_text Caret = ''^''"
| "atoken_text Pipe = ''|''" | "atoken_text AmpAmp = ''&&''" | "atoken_text PipePipe = ''||''" | "atoken_text Bang = ''!''"
| "atoken_text Tilde = ''~''" | "atoken_text Question = ''?''" | "atoken_text Colon = '':''" | "atoken_text Comma = '',''"
| "atoken_text LParen = ''(''" | "atoken_text RParen = '')''" | "atoken_text AEq = ''=''" | "atoken_text PlusEq = ''+=''"
| "atoken_text MinusEq = ''-=''" | "atoken_text StarEq = ''*=''" | "atoken_text SlashEq = ''/=''" | "atoken_text PercentEq = ''%=''"
| "atoken_text LShiftEq = ''<<=''" | "atoken_text RShiftEq = ''>>=''" | "atoken_text AmpEq = ''&=''" | "atoken_text CaretEq = ''^=''"
| "atoken_text PipeEq = ''|=''" | "atoken_text PlusPlus = ''++''" | "atoken_text MinusMinus = ''--''"

definition var_name :: "string \<Rightarrow> bool" where
  "var_name x \<longleftrightarrow> x \<noteq> [] \<and> \<not> is_digit (hd x) \<and> list_all name_byte x"

fun printable_token :: "arith_token \<Rightarrow> bool" where
  "printable_token (Number n) = (unat n < 2 ^ 63)"
| "printable_token (Ident x) = var_name x"
| "printable_token _ = True"

definition exp_text :: "aexp \<Rightarrow> string" where
  "exp_text e = join_with '' '' (map atoken_text (tokens_of e))"

lemma show_nat_head: "hd (show_nat n) = CHR ''0'' \<Longrightarrow> n = 0"
proof (induction n rule: show_nat.induct)
  case (1 n)
  show ?case
  proof (cases "n < 10")
    case True
    then have "show_nat n = [char_of (48 + n)]" by (subst show_nat.simps) simp
    then have "of_char (char_of (48 + n) :: char) = (of_char (CHR ''0'') :: nat)" using "1.prems" by simp
    then show ?thesis using True by (simp add: of_char_of take_bit_eq_mod)
  next
    case False
    then have "hd (show_nat n) = hd (show_nat (n div 10))"
      using show_nat_digits [of "n div 10"] by (simp add: show_nat.simps [of n])
    then show ?thesis using 1 False by auto
  qed
qed

lemma parse_i64_show_nat: "n < 2 ^ 63 \<Longrightarrow> parse_i64 (show_nat n) = Some (of_nat n)"
proof -
  assume n: "n < 2 ^ 63"
  obtain c cs where c: "show_nat n = c # cs" "is_digit c"
    using show_nat_digits [of n] by (cases "show_nat n") auto
  then have "c \<noteq> CHR ''-''" "c \<noteq> CHR ''+''" by (auto simp: is_digit_def)
  then have "strip_sign (show_nat n) = (False, show_nat n)" using c(1) by (simp add: strip_sign_def)
  then show ?thesis using n show_nat_digits [of n] digits_val_show_nat [of n] by (simp add: parse_i64_def i64_in_range_def)
qed

definition spaced :: "string \<Rightarrow> bool" where
  "spaced rest \<longleftrightarrow> rest = [] \<or> hd rest = CHR '' ''"

lemma spaced_cases: "spaced rest \<Longrightarrow> (rest = [] \<Longrightarrow> P) \<Longrightarrow> (\<And>r. rest = CHR '' '' # r \<Longrightarrow> P) \<Longrightarrow> P"
  by (cases rest) (auto simp: spaced_def)

lemma takeWhile_spaced:
  assumes "list_all P s" "spaced rest" "\<not> P (CHR '' '')"
  shows "takeWhile P (s @ rest) = s" "dropWhile P (s @ rest) = rest"
  using assms by (auto simp: list_all_iff takeWhile_append2 dropWhile_append2 elim!: spaced_cases)

lemma blank_not_digit: "\<not> is_digit (CHR '' '')" "\<not> name_byte (CHR '' '')"
  by (simp_all add: is_digit_def name_byte_def is_alpha_def)

lemma number_text:
  assumes "unat n < 2 ^ 63" "spaced rest"
  shows "arith_tokenize_number (show_nat (unat n) @ rest) = Ok ([Number n], rest)"
proof -
  let ?d = "show_nat (unat n)"
  obtain c cs where c: "?d = c # cs" "is_digit c" "list_all is_digit cs"
    using show_nat_digits [of "unat n"] by (cases ?d) auto
  have zero: "cs = []" if "c = CHR ''0''"
    using show_nat_head [of "unat n"] c(1) that show_nat.simps [of 0] by simp
  have pre: "arith_tokenize_prefixed_number (?d @ rest) = None"
    using assms(2) zero c(1) blank_not_digit
    by (cases "c = CHR ''0''") (auto simp: arith_tokenize_prefixed_number_def elim!: spaced_cases split: list.splits)
  have tw: "takeWhile is_digit (?d @ rest) = ?d" "dropWhile is_digit (?d @ rest) = rest"
    using takeWhile_spaced [of is_digit ?d rest] show_nat_digits [of "unat n"] assms(2) blank_not_digit by simp_all
  have "arith_tokenize_base_syntax ?d rest = None"
    using assms(2) by (auto simp: arith_tokenize_base_syntax_def elim!: spaced_cases)
  then show ?thesis
    using pre tw parse_i64_show_nat [OF assms(1)] by (simp add: arith_tokenize_number_def unwrap_or_0_def)
qed

lemma name_start: "var_name x \<Longrightarrow> \<exists>c cs. x = c # cs \<and> (is_alpha c \<or> c = CHR ''_'') \<and> \<not> is_digit c \<and> name_byte c \<and> list_all name_byte cs"
  by (cases x) (auto simp: var_name_def name_byte_def)

lemma name_chars: "is_alpha c \<or> is_digit c \<or> c = CHR ''_'' \<Longrightarrow> \<not> ascii_whitespace c \<and> c \<noteq> CHR ''$''"
  by (auto simp: is_alpha_def is_digit_def ascii_whitespace_def)

lemma lexeme_text:
  assumes "printable_token t" "spaced rest"
  shows "arith_lexeme ep (atoken_text t @ rest) st = Ok (st, [t], rest)"
proof (cases "(\<exists>n. t = Number n) \<or> (\<exists>x. t = Ident x)")
  case True
  then show ?thesis
  proof
    assume "\<exists>n. t = Number n"
    then obtain n where t: "t = Number n" by blast
    obtain c cs where c: "show_nat (unat n) = c # cs" "is_digit c"
      using show_nat_digits [of "unat n"] by (cases "show_nat (unat n)") auto
    show ?thesis using number_text [of n rest] assms t c name_chars [of c] by (simp add: arith_lexeme_def Let_def)
  next
    assume "\<exists>x. t = Ident x"
    then obtain x where t: "t = Ident x" by blast
    obtain c cs where x: "x = c # cs" "is_alpha c \<or> c = CHR ''_''" "\<not> is_digit c" "list_all name_byte x"
      using name_start [of x] assms(1) t by auto
    have "takeWhile name_byte (x @ rest) = x" "dropWhile name_byte (x @ rest) = rest"
      using takeWhile_spaced [OF x(4) assms(2)] blank_not_digit by simp_all
    then show ?thesis using x name_chars [of c] t
      by (auto simp: arith_lexeme_def arith_tokenize_ident_def Let_def)
  qed
next
  case False
  then show ?thesis using assms(2)
    by (cases t) (auto simp: arith_lexeme_def arith_tokenize_operator_def arith_tokenize_plus_minus_star_def
      arith_push_op2_def arith_push_op3_def arith_tokenize_angle_def arith_tokenize_left_angle_def
      arith_tokenize_right_angle_def arith_tokenize_amp_pipe_def arith_tokenize_single_def ascii_whitespace_def
      is_digit_def is_alpha_def Let_def elim!: spaced_cases split: list.split)
qed

lemma tokenize_step:
  assumes "s \<noteq> []" "arith_lexeme ep s st = Ok (st1, toks, rest)"
  shows "arith_tokenize ep s st = result_bind (arith_tokenize ep rest st1) (\<lambda>(st2, more). Ok (st2, toks @ more))"
  using assms by (simp add: arith_tokenize.simps [of ep s])

lemma atoken_text_not_Nil: "printable_token t \<Longrightarrow> atoken_text t \<noteq> []"
  using show_nat_digits by (cases t) (auto simp: var_name_def)

lemma tokenize_text:
  "list_all printable_token ts \<Longrightarrow> arith_tokenize ep (join_with '' '' (map atoken_text ts)) st = Ok (st, ts)"
proof (induction ts)
  case Nil
  then show ?case by (simp add: arith_tokenize.simps)
next
  case (Cons t ts)
  let ?rest = "if ts = [] then [] else CHR '' '' # join_with '' '' (map atoken_text ts)"
  have joined: "join_with '' '' (map atoken_text (t # ts)) = atoken_text t @ ?rest"
    by (cases ts) simp_all
  have "arith_tokenize ep ?rest st = Ok (st, ts)"
  proof (cases "ts = []")
    case False
    have "arith_lexeme ep (CHR '' '' # u) st = Ok (st, [], u)" for u
      by (simp add: arith_lexeme_def ascii_whitespace_def)
    then show ?thesis using Cons False by (simp add: tokenize_step)
  qed (simp add: arith_tokenize.simps)
  moreover have "arith_lexeme ep (atoken_text t @ ?rest) st = Ok (st, [t], ?rest)"
    using Cons.prems by (intro lexeme_text) (auto simp: spaced_def)
  ultimately show ?case
    unfolding joined using tokenize_step [of "atoken_text t @ ?rest" ep st st "[t]" ?rest] atoken_text_not_Nil [of t] Cons.prems
    by simp
qed

text \<open>Text between characters that are neither blanks nor outside ASCII is not trimmed.\<close>

definition graphic :: "char \<Rightarrow> bool" where
  "graphic c \<longleftrightarrow> 33 \<le> (of_char c :: nat) \<and> (of_char c :: nat) \<le> 126"

lemma strip_leading_id:
  assumes "\<And>w. w \<in> set ws \<Longrightarrow> w = [] \<or> \<not> graphic (hd w)" "s = [] \<or> graphic (hd s)"
  shows "strip_leading ws s = s"
proof -
  have "\<not> (w \<noteq> [] \<and> prefix w s)" if "w \<in> set ws" for w
    using assms(1) [OF that] assms(2) by (cases w; cases s) auto
  then have "List.find (\<lambda>w. w \<noteq> [] \<and> prefix w s) ws = None" by (auto simp: find_None_iff)
  then have "strip_one ws s = 0" by (simp add: strip_one_def)
  then show ?thesis by (simp add: strip_leading.simps)
qed

lemma trim_graphic:
  assumes "s = [] \<or> graphic (hd s) \<and> graphic (last s)"
  shows "trim s = s"
proof -
  have "w = [] \<or> \<not> graphic (hd w)" if "w \<in> set white_space \<union> set (map rev white_space)" for w
    using that by (auto simp: white_space_def graphic_def)
  then have "trim_start s = s" "trim_end s = s"
    using assms strip_leading_id [of white_space s] strip_leading_id [of "map rev white_space" "rev s"]
    by (auto simp: trim_start_def trim_end_def hd_rev)
  then show ?thesis by (simp add: trim_def)
qed

lemma name_byte_graphic: "name_byte c \<Longrightarrow> graphic c"
  by (auto simp: name_byte_def is_alpha_def is_digit_def graphic_def Let_def)

lemma atoken_text_graphic: "printable_token t \<Longrightarrow> list_all graphic (atoken_text t)"
proof (cases t)
  case (Number n)
  then show ?thesis using show_nat_digits [of "unat n"]
    by (auto simp: list_all_iff name_byte_def intro!: name_byte_graphic)
next
  case (Ident x)
  moreover assume "printable_token t"
  ultimately show ?thesis by (auto simp: list_all_iff var_name_def intro!: name_byte_graphic)
qed (simp_all add: graphic_def)

lemma trim_text:
  assumes "list_all printable_token ts"
  shows "trim (join_with '' '' (map atoken_text ts)) = join_with '' '' (map atoken_text ts)"
proof (cases ts)
  case (Cons t us)
  have "graphic (hd (join_with '' '' (map atoken_text (t # us))))" if "printable_token t" for t us
    using atoken_text_graphic [OF that] atoken_text_not_Nil [OF that]
    by (cases us; cases "atoken_text t") simp_all
  moreover have "graphic (last (join_with '' '' (map atoken_text (t # us))))" if "list_all printable_token (t # us)" for t us
    using that
  proof (induction us arbitrary: t)
    case Nil
    then show ?case using atoken_text_graphic [of t] atoken_text_not_Nil [of t] by (auto simp: list_all_iff)
  next
    case (Cons u us)
    have "join_with '' '' (map atoken_text (u # us)) \<noteq> []"
      using Cons.prems atoken_text_not_Nil [of u] by (cases us) simp_all
    then show ?case using Cons.IH [of u] Cons.prems by simp
  qed
  ultimately show ?thesis using assms Cons by (intro trim_graphic) simp
qed (simp add: trim_graphic)

section \<open>The meaning of an expression\<close>

text \<open>
  What an expression stands for, from left to right and without skipping any part: operators on 64-bit integers
  that wrap around, truncating division, shifts by the low six bits of the count.
\<close>

definition truth :: "bool \<Rightarrow> i64" where
  "truth b = of_bool b"

fun op_value :: "arith_token \<Rightarrow> i64 \<Rightarrow> i64 \<Rightarrow> i64" where
  "op_value PipePipe x y = truth (x \<noteq> 0 \<or> y \<noteq> 0)"
| "op_value AmpAmp x y = truth (x \<noteq> 0 \<and> y \<noteq> 0)"
| "op_value Pipe x y = (x OR y)"
| "op_value Caret x y = (x XOR y)"
| "op_value Amp x y = (x AND y)"
| "op_value EqEq x y = truth (x = y)"
| "op_value Ne x y = truth (x \<noteq> y)"
| "op_value Lt x y = truth (sint x < sint y)"
| "op_value Gt x y = truth (sint x > sint y)"
| "op_value Le x y = truth (sint x \<le> sint y)"
| "op_value Ge x y = truth (sint x \<ge> sint y)"
| "op_value LShift x y = word_of_int (sint x * 2 ^ nat (uint y mod 64))"
| "op_value RShift x y = word_of_int (sint x div 2 ^ nat (uint y mod 64))"
| "op_value Plus x y = word_of_int (sint x + sint y)"
| "op_value Minus x y = word_of_int (sint x - sint y)"
| "op_value Star x y = word_of_int (sint x * sint y)"
| "op_value Slash x y = word_of_int (sint x sdiv sint y)"
| "op_value Percent x y = word_of_int (sint x smod sint y)"
| "op_value _ x y = y"

definition op_meaning :: "arith_token \<Rightarrow> i64 \<Rightarrow> i64 \<Rightarrow> shell_state \<Rightarrow> shell_state \<times> i64" where
  "op_meaning t x y st =
     (if t \<in> {Slash, Percent} \<and> y = 0 then (set_arith_error st ''division by 0'', 0) else (st, op_value t x y))"

text \<open>The operator of a compound assignment; a division by zero stores zero.\<close>

fun base_op :: "arith_token \<Rightarrow> arith_token" where
  "base_op PlusEq = Plus" | "base_op MinusEq = Minus" | "base_op StarEq = Star" | "base_op SlashEq = Slash"
| "base_op PercentEq = Percent" | "base_op LShiftEq = LShift" | "base_op RShiftEq = RShift" | "base_op AmpEq = Amp"
| "base_op CaretEq = Caret" | "base_op PipeEq = Pipe" | "base_op t = t"

definition asg_value :: "arith_token \<Rightarrow> i64 \<Rightarrow> i64 \<Rightarrow> i64" where
  "asg_value t cur v = (if t \<in> {SlashEq, PercentEq} \<and> v = 0 then 0 else op_value (base_op t) cur v)"

text \<open>A variable holds the number its text denotes, and zero if it denotes none.\<close>

definition read_var :: "string \<Rightarrow> shell_state \<Rightarrow> shell_state \<times> i64" where
  "read_var x st =
     (let (st1, text) = get_var st x
      in (st1, case text of None \<Rightarrow> 0 | Some t \<Rightarrow> (case parse_i64 t of None \<Rightarrow> 0 | Some n \<Rightarrow> n)))"

definition write_var :: "string \<Rightarrow> i64 \<Rightarrow> meaning" where
  "write_var x n st = (case set_var st x (show_int (sint n)) of None \<Rightarrow> Err () | Some st1 \<Rightarrow> Ok (st1, n))"

fun meaning :: "aexp \<Rightarrow> meaning" where
  "meaning (Num n) st = Ok (st, n)"
| "meaning (Var x) st = Ok (read_var x st)"
| "meaning (PreStep up x) st =
     (let (st1, n) = read_var x st in write_var x (if up then n + 1 else n - 1) st1)"
| "meaning (PostStep up x) st =
     (let (st1, n) = read_var x st
      in result_bind (write_var x (if up then n + 1 else n - 1) st1) (\<lambda>(st2, _). Ok (st2, n)))"
| "meaning (Unary u e) st =
     result_bind (meaning e st) (\<lambda>(st1, v).
       Ok (st1, case u of LNot \<Rightarrow> truth (v = 0) | BNot \<Rightarrow> NOT v | UPlus \<Rightarrow> v | UMinus \<Rightarrow> - v))"
| "meaning (Bin t a b) st =
     result_bind (meaning a st) (\<lambda>(st1, x).
       result_bind (meaning b st1) (\<lambda>(st2, y). Ok (op_meaning t x y st2)))"
| "meaning (Pow a b) st =
     result_bind (meaning a st) (\<lambda>(st1, x).
       result_bind (meaning b st1) (\<lambda>(st2, y). Ok (st2, if sint y < 0 then 0 else x ^ unat y)))"
| "meaning (Cond c a b) st =
     result_bind (meaning c st) (\<lambda>(st1, x).
       result_bind (meaning a st1) (\<lambda>(st2, y).
         result_bind (meaning b st2) (\<lambda>(st3, z). Ok (st3, if x \<noteq> 0 then y else z))))"
| "meaning (Asg t x e) st =
     result_bind (meaning e st) (\<lambda>(st1, v).
       if t = AEq then write_var x v st1
       else (let (st2, cur) = read_var x st1 in write_var x (asg_value t cur v) st2))"
| "meaning (Seq a b) st = result_bind (meaning a st) (\<lambda>(st1, _). meaning b st1)"

lemma truth_of_bool: "i64_of_bool b = truth b"
  by (simp add: i64_of_bool_def truth_def)

lemma shift_count: "unat (ucast y :: u32) mod 64 = nat (uint (y :: i64) mod 64)"
proof -
  have "uint (ucast y :: u32) = uint y mod 2 ^ 32" by (simp add: unsigned_ucast_eq take_bit_eq_mod)
  then have "uint (ucast y :: u32) mod 64 = uint y mod 64" by (simp add: mod_mod_cancel)
  then have "nat (uint (ucast y :: u32) mod 64) = nat (uint y mod 64)" by simp
  then show ?thesis by (simp add: nat_mod_distrib flip: nat_uint_eq)
qed

lemma shifts:
  "wrapping_shl x y = word_of_int (sint x * 2 ^ nat (uint y mod 64))"
  "wrapping_shr x y = word_of_int (sint x div 2 ^ nat (uint y mod 64))"
  unfolding wrapping_shl_def wrapping_shr_def shift_count
  by (simp add: push_bit_eq_mult)
    (metis sint_signed_drop_bit_eq drop_bit_eq_div scast_eq scast_id)

lemma op_run_meaning: "4 \<le> tok_level t \<Longrightarrow> tok_level t \<le> 13 \<Longrightarrow> op_run t x y st = Ok (op_meaning t x y st)"
  by (cases t) (simp_all add: op_run_def op_meaning_def level_op_def tok_level_def is_assign_op_def logical_or_op_def logical_and_op_def
        bitwise_or_op_def bitwise_xor_op_def bitwise_and_op_def equality_op_def relational_op_def shift_op_def
        additive_op_def multiplicative_op_def pure_op_def test_op_def division_op_def truth_of_bool shifts
        wrapping_div_def wrapping_rem_def)

lemma apply_compound_value: "is_assign_op t \<Longrightarrow> t \<noteq> AEq \<Longrightarrow> apply_compound_op t cur v = Ok (asg_value t cur v)"
  by (cases t) (simp_all add: is_assign_op_def apply_compound_op_def asg_value_def shifts wrapping_div_def wrapping_rem_def)

lemma vars_meaning:
  "on_state (var_get x) st = Ok (read_var x st)"
  "on_state (var_set x n) st = write_var x n st"
  by (simp_all add: on_state_def var_get_def var_set_def read_var_def write_var_def unwrap_or_0_def show_i64_def show_i_def
      split: prod.splits option.splits)

lemma on_state_step:
  "on_state (step_var x d old) st =
     (let (st1, n) = read_var x st in result_bind (write_var x (n + d) st1) (\<lambda>(st2, m). Ok (st2, if old then n else m)))"
  by (auto simp: on_state_def step_var_def var_get_def var_set_def read_var_def write_var_def unwrap_or_0_def show_i64_def show_i_def
      split: prod.splits option.splits)

lemma on_state_assign:
  "is_assign_op t \<Longrightarrow> on_state (assign_var t x v) st =
     (if t = AEq then write_var x v st else (let (st1, cur) = read_var x st in write_var x (asg_value t cur v) st1))"
  by (auto simp: on_state_def assign_var_def var_get_def var_set_def read_var_def write_var_def unwrap_or_0_def show_i64_def show_i_def
      apply_compound_value split: prod.splits option.splits)

lemma write_var_value: "write_var x n st = Ok (st1, m) \<Longrightarrow> m = n"
  by (auto simp: write_var_def split: option.splits)

lemma run_exp_meaning: "wf_exp e \<Longrightarrow> run_exp e st = meaning e st"
proof (induction e arbitrary: st)
  case (PreStep up x)
  show ?case
    by (cases "read_var x st"; cases up) (auto simp: on_state_step delta_def write_var_def split: option.splits)
next
  case (PostStep up x)
  show ?case
    by (cases "read_var x st"; cases up) (auto simp: on_state_step delta_def write_var_def split: option.splits)
next
  case (Unary u e)
  then show ?case by (cases u) (simp_all add: truth_of_bool)
qed (simp_all add: vars_meaning op_run_meaning on_state_assign)

lemma eval_meaning:
  assumes "wf_exp e" "list_all printable_token (tokens_of e)" "need e \<le> MAX_ARITH_DEPTH"
  shows "eval_arithmetic ep (exp_text e) st = meaning e st"
proof -
  have tok: "arith_tokenize ep (trim (exp_text e)) st = Ok (st, tokens_of e)"
    unfolding exp_text_def trim_text [OF assms(2)] by (rule tokenize_text [OF assms(2)])
  have ne: "tokens_of e \<noteq> []" by (cases e) simp_all
  let ?a = "parse_assign MAX_ARITH_DEPTH"
  have "parses (parse_expr ?a) (binary_loop comma_op ?a) 1 (tokens_of e) (meaning e)"
    using tokens_handled [OF assms(1)] assms(3) ext [of "run_exp e" "meaning e", OF run_exp_meaning [OF assms(1)]] by (simp add: handles_def)
  from parsesD [OF this, of "[]" st]
  have "parse_expr ?a (tokens_of e, st) = result_bind (meaning e st) (\<lambda>(st', v). Ok (([], st'), v))"
    by (simp add: follows_def binary_loop.simps)
  then show ?thesis using tok ne
    by (cases "meaning e st") (auto simp: eval_arithmetic_def)
qed

text \<open>
  C7 (equivalence). Arithmetic expansion computes the expression: for every expression whose parser recursion fits
  the limit of 64 levels (binary operators take none, so a sum may be as long as it likes), the evaluator run on its
  text has exactly the value and the effects on the variables that the expression means, from left to right on wrapping
  64-bit integers. The text has parentheses only where precedence and associativity ask for them, and in the three places
  where the documents disagree on the precedence of \<open>?:\<close>: around a conditional in an assignment or beside
  a comma, and around an assignment after the colon of a conditional.
\<close>

theorem arithmetic_correct:
  assumes "wf_exp e" "list_all printable_token (tokens_of e)" "need e \<le> MAX_ARITH_DEPTH"
  shows "eval_arithmetic ep (exp_text e) st = meaning e st"
  using assms by (rule eval_meaning)

theorem arithmetic_correct_witness:
  "\<exists>e st. exp_text e = ''x = ( 1 + 2 ) * 3'' \<and> eval_arithmetic (\<lambda>_ st. Ok (st, [])) ''x = ( 1 + 2 ) * 3'' state_new = meaning e state_new \<and>
     meaning e state_new = Ok (st, 9)"
proof -
  let ?e = "Asg AEq ''x'' (Bin Star (Bin Plus (Num 1) (Num 2)) (Num 3))"
  have e: "exp_text ?e = ''x = ( 1 + 2 ) * 3''" "wf_exp ?e" "list_all printable_token (tokens_of ?e)" "need ?e \<le> MAX_ARITH_DEPTH"
  proof -
    have "show_nat 1 = ''1''" "show_nat 2 = ''2''" "show_nat 3 = ''3''" by code_simp+
    then show "exp_text ?e = ''x = ( 1 + 2 ) * 3''"
      by (simp add: exp_text_def parens_def side_level_def tok_level_def is_assign_op_def)
  qed (simp_all add: parens_def side_level_def paren_need_def tok_level_def is_assign_op_def var_name_def name_byte_def is_digit_def is_alpha_def
      MAX_ARITH_DEPTH_def)
  have "meaning ?e state_new = write_var ''x'' 9 state_new"
    by (simp add: op_meaning_def)
  moreover have "set_var_ref (env state_new) ''x'' = None" by code_simp
  then have "set_var state_new ''x'' (show_int 9) = Some (set_var_here state_new ''x'' (show_int 9))"
    by (simp add: set_var.simps)
  ultimately have "\<exists>st. meaning ?e state_new = Ok (st, 9)" by (simp add: write_var_def)
  then show ?thesis
    using e arithmetic_correct [OF e(2-4), of "\<lambda>_ st. Ok (st, [])" state_new] by auto
qed

section \<open>Panics\<close>

text \<open>A method only moves forward and does not panic.\<close>

fun fine :: "arith \<Rightarrow> (arith \<times> i64, unit) result \<Rightarrow> bool" where
  "fine s (Ok (s', v)) = (length (fst s') \<le> length (fst s))"
| "fine s (Err e) = True"
| "fine s (Panic m) = False"

definition forward :: "arith_fn \<Rightarrow> bool" where
  "forward p \<longleftrightarrow> (\<forall>s. fine s (p s))"

lemma forwardI: "(\<And>s. fine s (p s)) \<Longrightarrow> forward p"
  by (simp add: forward_def)

lemma fine_after: "forward p \<Longrightarrow> length (fst s') \<le> length (fst s) \<Longrightarrow> fine s (p s')"
  using spec [of "\<lambda>s. fine s (p s)" s'] by (cases "p s'") (auto simp: forward_def simp del: split_paired_All)

lemma fine_bind:
  "fine s r \<Longrightarrow> (\<And>s' v. length (fst s') \<le> length (fst s) \<Longrightarrow> fine s (f (s', v))) \<Longrightarrow> fine s (result_bind r f)"
  by (cases r) auto

text \<open>The operators of a level do not panic.\<close>

definition safe_ops :: "(arith_token \<Rightarrow> binop option) \<Rightarrow> bool" where
  "safe_ops ops \<longleftrightarrow> (\<forall>t f x y st. ops t = Some f \<longrightarrow> (\<exists>r. f x y st = Ok r))"

lemma level_ops_safe:
  "safe_ops comma_op" "safe_ops logical_or_op" "safe_ops logical_and_op" "safe_ops bitwise_or_op" "safe_ops bitwise_xor_op"
  "safe_ops bitwise_and_op" "safe_ops equality_op" "safe_ops relational_op" "safe_ops shift_op" "safe_ops additive_op"
  "safe_ops multiplicative_op"
  by (auto simp: safe_ops_def comma_op_def logical_or_op_def logical_and_op_def bitwise_or_op_def bitwise_xor_op_def
      bitwise_and_op_def equality_op_def relational_op_def shift_op_def additive_op_def multiplicative_op_def pure_op_def
      test_op_def division_op_def wrapping_div_def wrapping_rem_def split: if_splits)

lemma forward_loop:
  assumes "forward sub" "safe_ops ops"
  shows "forward (binary_loop ops sub val)"
proof (rule forwardI)
  fix s :: arith
  have "fine (ts, st) (binary_loop ops sub val (ts, st))" for ts st
  proof (induction "length ts" arbitrary: ts st val rule: less_induct)
    case less
    show ?case
    proof (cases ts)
      case (Cons t ts1)
      show ?thesis
      proof (cases "ops t")
        case (Some f)
        have "fine (ts1, st) (sub (ts1, st))" using assms(1) by (simp add: forward_def)
        then show ?thesis
        proof (cases "sub (ts1, st)")
          case (Ok x)
          obtain ts2 st2 rhs where x: "x = ((ts2, st2), rhs)" by (metis surj_pair)
          obtain st3 v where f: "f val rhs st2 = Ok (st3, v)" using assms(2) Some unfolding safe_ops_def by (metis surj_pair)
          have len: "length ts2 \<le> length ts1" using \<open>fine (ts1, st) (sub (ts1, st))\<close> Ok x by simp
          then have "fine (ts2, st3) (binary_loop ops sub v (ts2, st3))" using less Cons by simp
          then have "fine (ts, st) (binary_loop ops sub v (ts2, st3))"
            using len Cons by (cases "binary_loop ops sub v (ts2, st3)") auto
          then show ?thesis using Ok x f Cons Some len by (simp add: binary_loop.simps [of _ _ _ "t # ts1"])
        qed (simp_all add: Cons Some binary_loop.simps)
      qed (simp add: Cons binary_loop.simps)
    qed (simp add: binary_loop.simps)
  qed
  then show "fine s (binary_loop ops sub val s)" by (metis surj_pair)
qed

lemma forward_level: "forward sub \<Longrightarrow> safe_ops ops \<Longrightarrow> forward (binary_level ops sub)"
  by (rule forwardI, unfold binary_level_def, rule fine_bind)
    (auto intro: fine_after [OF forward_loop] simp: forward_def)

lemma forward_levels: "forward p \<Longrightarrow> forward (parse_logical_or p)"
  by (simp add: parse_logical_or_def parse_logical_and_def parse_bitwise_or_def parse_bitwise_xor_def parse_bitwise_and_def
      parse_equality_def parse_relational_def parse_shift_def parse_additive_def parse_multiplicative_def forward_level level_ops_safe)

lemma skip_le: "length (fst (arith_skip s)) \<le> length (fst s)" "length (fst (arith_eat t s)) \<le> length (fst s)"
  by (simp_all add: arith_eat_def arith_skip_def)

lemma compound_op_safe: "\<exists>v. apply_compound_op t cur rhs = Ok v"
  by (auto simp: apply_compound_op_def wrapping_div_def wrapping_rem_def split: arith_token.split)

lemma forward_vars: "forward (var_get x)" "forward (var_set x v)" "forward (step_var x d old)" "forward (assign_var t x v)"
proof -
  have "fine s (assign_var t x v s)" for s
    using compound_op_safe [of t "unwrap_or_0 (Option.bind (snd (get_var (snd s) x)) parse_i64)" v]
    by (auto simp: var_get_def var_set_def assign_var_def split: prod.splits option.splits)
  then show "forward (assign_var t x v)" by (rule forwardI)
qed (auto intro!: forwardI simp: var_get_def var_set_def step_var_def split: prod.splits option.splits)

lemmas forward_steps = fine_after [OF forward_vars(1)] fine_after [OF forward_vars(3)] fine_after [OF forward_vars(4)] fine_bind
  le_trans [OF skip_le(1)] le_trans [OF skip_le(2)] skip_le

lemma forward_ternary: "forward a \<Longrightarrow> forward p \<Longrightarrow> forward (parse_ternary a p)"
  by (rule forwardI) (auto simp: parse_ternary_def intro!: forward_steps fine_after [of "parse_logical_or p"] forward_levels fine_after [of a])

lemma forward_assign_body: "forward a \<Longrightarrow> forward t \<Longrightarrow> forward (assign_body a t)"
  by (rule forwardI)
    (auto simp: assign_body_def try_compound_assign_def intro!: forward_steps fine_after [of a] fine_after [of t]
      split: option.split arith_token.split)

lemma forward_unary_inner: "forward u \<Longrightarrow> forward e \<Longrightarrow> forward (parse_unary_inner u e)"
  by (rule forwardI)
    (auto simp: parse_unary_inner_def parse_primary_def parse_pre_incdec_def Let_def
      intro!: forward_steps fine_after [of u] fine_after [of e] split: option.split arith_token.split)

lemma forward_parser: "forward (parse_assign n) \<and> forward (parse_exponentiation n) \<and> forward (parse_unary n)"
proof (induction n)
  case 0
  then show ?case by (auto intro!: forwardI simp: depth_error_def)
next
  case (Suc n)
  have "fine s (parse_assign (Suc n) s)" for s
    using fine_after [OF forward_assign_body [OF _ forward_ternary], of "parse_assign n" "parse_assign n" "parse_exponentiation n" s s] Suc
    by simp
  moreover have "fine s (parse_exponentiation (Suc n) s)" for s
    using Suc by (auto intro!: forward_steps fine_after [of "parse_unary n"] fine_after [of "parse_exponentiation n"])
  moreover have "fine s (parse_unary (Suc n) s)" for s
    using fine_after [OF forward_unary_inner, of "parse_unary n" "parse_expr (parse_assign n)" s s] Suc
    by (simp add: parse_expr_def forward_level level_ops_safe)
  ultimately show ?case by (simp add: forward_def)
qed

text \<open>The tokenizer without the syntax \<open>base#value\<close>.\<close>

lemma strip_leading_set: "set (strip_leading ws s) \<subseteq> set s"
proof (induction ws s rule: strip_leading.induct)
  case (1 ws s)
  then show ?case using set_drop_subset [of "strip_one ws s" s] by (subst strip_leading.simps) auto
qed

lemma trim_set: "set (trim s) \<subseteq> set s"
  using strip_leading_set [of white_space s] strip_leading_set [of "map rev white_space" "rev (trim_start s)"]
  by (auto simp: trim_def trim_end_def trim_start_def)

lemma brace_body_set: "brace_body d s = (inner, rest) \<Longrightarrow> set rest \<subseteq> set s"
  by (induction d s arbitrary: inner rest rule: brace_body.induct) (auto split: if_splits prod.splits)

lemma radix_number_fine:
  "radix \<in> {2, 8, 16} \<Longrightarrow> set s \<subseteq> A \<Longrightarrow>
     \<exists>n pred u. arith_take_radix_number radix p s = Ok (n, dropWhile pred u) \<and> set u \<subseteq> A"
  by (auto simp: arith_take_radix_number_def from_str_radix_def split: prod.splits)

lemma number_fine:
  assumes "CHR ''#'' \<notin> set s"
  shows "\<exists>toks rest. arith_tokenize_number s = Ok (toks, rest) \<and> set rest \<subseteq> set s"
proof (cases "arith_tokenize_prefixed_number s")
  case None
  have "arith_tokenize_base_syntax (takeWhile is_digit s) (dropWhile is_digit s) = None"
  proof (cases "dropWhile is_digit s")
    case (Cons c t)
    then have "c \<in> set s" using set_dropWhileD [of c is_digit s] by simp
    then show ?thesis using Cons assms by (auto simp: arith_tokenize_base_syntax_def)
  next
    case Nil
    then show ?thesis by (simp add: arith_tokenize_base_syntax_def del: dropWhile_eq_Nil_conv)
  qed
  then show ?thesis using None by (auto simp: arith_tokenize_number_def dest: set_dropWhileD)
next
  case (Some r)
  then obtain a b t where s: "s = a # b # t"
    by (auto simp: arith_tokenize_prefixed_number_def split: list.splits)
  have "r = arith_take_radix_number 16 is_hexdigit t \<or> r = arith_take_radix_number 2 (\<lambda>c. c = CHR ''0'' \<or> c = CHR ''1'') t \<or>
      r = arith_take_radix_number 8 is_digit (b # t)"
    using Some by (auto simp: s arith_tokenize_prefixed_number_def split: if_splits)
  then have "\<exists>n pred u. r = Ok (n, dropWhile pred u) \<and> set u \<subseteq> set s"
    by (elim disjE) (simp_all only:, (rule radix_number_fine, (auto simp: s)[2])+)
  then show ?thesis using Some by (fastforce simp: arith_tokenize_number_def dest: set_dropWhileD)
qed

lemma operator_set: "arith_tokenize_operator s = (toks, rest) \<Longrightarrow> s \<noteq> [] \<Longrightarrow> set rest \<subseteq> set s"
  by (cases s) (auto simp: arith_tokenize_operator_def arith_tokenize_plus_minus_star_def arith_push_op2_def arith_push_op3_def
      arith_tokenize_angle_def arith_tokenize_left_angle_def arith_tokenize_right_angle_def arith_tokenize_amp_pipe_def
      arith_tokenize_single_def Let_def split: if_splits list.splits)

definition quiet :: "expander \<Rightarrow> bool" where
  "quiet ep \<longleftrightarrow> (\<forall>name st m. ep name st \<noteq> Panic m)"

lemma lexeme_fine:
  assumes "CHR ''#'' \<notin> set s" "s \<noteq> []" "quiet ep"
  shows "(\<exists>st' toks rest. arith_lexeme ep s st = Ok (st', toks, rest) \<and> set rest \<subseteq> set s) \<or> arith_lexeme ep s st = Err ()"
proof -
  obtain b t where s: "s = b # t" using assms(2) by (cases s) auto
  consider "ascii_whitespace b" | "b = CHR ''$''" | "\<not> ascii_whitespace b" "b \<noteq> CHR ''$''" "is_digit b"
    | "\<not> ascii_whitespace b" "b \<noteq> CHR ''$''" "\<not> is_digit b" by blast
  then show ?thesis
  proof cases
    case 2
    have "\<not> ascii_whitespace b" using 2 by (simp add: ascii_whitespace_def)
    moreover have "(\<exists>st' toks rest. arith_tokenize_dollar ep t st = Ok (st', toks, rest) \<and> set rest \<subseteq> set t) \<or>
      arith_tokenize_dollar ep t st = Err ()"
    proof (cases "t = [] \<or> dollar_name t = None")
      case True
      then show ?thesis by (auto simp: arith_tokenize_dollar_def)
    next
      case False
      then obtain name rest where d: "dollar_name t = Some (name, rest)" by auto
      then have "set rest \<subseteq> set t"
        using brace_body_set [of 1 "tl t" name rest] set_drop_subset [of _ t] False
        by (cases t) (auto simp: dollar_name_def Let_def dest: set_dropWhileD split: if_splits)
      then show ?thesis using d False assms(3)
        by (cases "ep name st") (auto simp: arith_tokenize_dollar_def quiet_def)
    qed
    ultimately show ?thesis using 2 s by (auto simp: arith_lexeme_def)
  next
    case 3
    then show ?thesis using number_fine [OF assms(1)] s by (auto simp: arith_lexeme_def)
  next
    case 4
    obtain toks rest where "arith_tokenize_operator s = (toks, rest)" by (cases "arith_tokenize_operator s")
    then show ?thesis using 4 operator_set [of s toks rest] s
      by (auto simp: arith_lexeme_def arith_tokenize_ident_def Let_def dest: set_dropWhileD split: if_splits)
  qed (auto simp: s arith_lexeme_def)
qed

lemma tokenize_fine:
  "CHR ''#'' \<notin> set s \<Longrightarrow> quiet ep \<Longrightarrow> arith_tokenize ep s st \<noteq> Panic m"
proof (induction "length s" arbitrary: s st rule: less_induct)
  case less
  show ?case
  proof (cases "s = []")
    case False
    from lexeme_fine [OF less.prems(1) False less.prems(2), of st] show ?thesis
    proof (elim disjE exE conjE)
      fix st' toks rest assume l: "arith_lexeme ep s st = Ok (st', toks, rest)" "set rest \<subseteq> set s"
      have "arith_tokenize ep rest st' \<noteq> Panic m" 
        using less.hyps [of rest] lexeme_shorter [OF l(1) False] l(2) less.prems by blast
      then show ?thesis using l(1) False
        by (auto simp: tokenize_step result_bind_Panic_iff)
    qed (use False in \<open>simp add: arith_tokenize.simps [of ep s]\<close>)
  qed (simp add: arith_tokenize.simps)
qed

text \<open>
  C37 (safety). Whatever the text, without a sharp sign, arithmetic expansion does not panic, unless the
  expansion of a parameter does: not by deep nesting, division by zero, overflow, or text that is no expression.
\<close>

theorem arithmetic_safe:
  assumes "CHR ''#'' \<notin> set expr" "\<forall>name st m. ep name st \<noteq> Panic m"
  shows "eval_arithmetic ep expr st \<noteq> Panic m"
proof -
  have q: "quiet ep" using assms(2) by (simp add: quiet_def)
  have "arith_tokenize ep (trim expr) st \<noteq> Panic m"
    using tokenize_fine [OF _ q] trim_set [of expr] assms(1) by blast
  moreover have "parse_expr (parse_assign MAX_ARITH_DEPTH) s \<noteq> Panic m" for s
  proof
    assume "parse_expr (parse_assign MAX_ARITH_DEPTH) s = Panic m"
    moreover have "fine s (parse_expr (parse_assign MAX_ARITH_DEPTH) s)"
      unfolding parse_expr_def by (rule fine_after [OF forward_level]) (simp_all add: forward_parser level_ops_safe)
    ultimately show False by simp
  qed
  ultimately show ?thesis by (auto simp: eval_arithmetic_def result_bind_Panic_iff)
qed

theorem arithmetic_safe_witness: "\<forall>m. eval_arithmetic (\<lambda>_ st. Ok (st, [])) ''1 / ( 0 $x }'' state_new \<noteq> Panic m"
  using arithmetic_safe [of "''1 / ( 0 $x }''" "\<lambda>_ st. Ok (st, [])" state_new] by simp

text \<open>
  A base from 37 to 64 is accepted by the check of the code, but the conversion of the digits panics on
  every base above 36.
\<close>

theorem arithmetic_base_panics:
  assumes "37 \<le> b" "b \<le> 64" "list_all name_byte digits"
  shows "\<exists>m. eval_arithmetic ep (show_nat b @ ''#'' @ digits) st = Panic m"
proof -
  let ?s = "show_nat b @ ''#'' @ digits"
  obtain c cs where c: "show_nat b = c # cs" "is_digit c" using show_nat_digits [of b] by (cases "show_nat b") auto
  have nz: "c \<noteq> CHR ''0''" using show_nat_head [of b] c(1) assms(1) by auto
  have tw: "takeWhile is_digit ?s = show_nat b" "dropWhile is_digit ?s = ''#'' @ digits"
    using show_nat_digits [of b] by (simp_all add: list_all_iff takeWhile_append2 dropWhile_append2 is_digit_def)
  have "arith_tokenize_prefixed_number ?s = None" using nz c(1) by (auto simp: arith_tokenize_prefixed_number_def split: list.splits)
  moreover have "\<exists>m. arith_tokenize_base_syntax (show_nat b) (''#'' @ digits) = Some (Panic m)"
    using assms(1,2) digits_val_show_nat [of b]
    by (simp add: arith_tokenize_base_syntax_def arith_take_radix_number_def from_str_radix_def)
  ultimately have "\<exists>m. arith_tokenize_number ?s = Panic m" using tw by (auto simp: arith_tokenize_number_def Let_def)
  then have lex: "\<exists>m. arith_lexeme ep ?s st = Panic m" using c name_chars [of c] by (auto simp: arith_lexeme_def Let_def)
  have "graphic (hd ?s)" "graphic (last ?s)"
    using c assms(3) name_byte_graphic [of c] name_byte_graphic [of "last digits"]
    by (auto simp: name_byte_def graphic_def list_all_iff)
  then have "trim ?s = ?s" by (intro trim_graphic) simp
  moreover have "\<exists>m. arith_tokenize ep ?s st = Panic m" using lex by (subst arith_tokenize.simps) auto
  ultimately show ?thesis by (auto simp: eval_arithmetic_def)
qed

theorem arithmetic_base_witness: "\<exists>m. eval_arithmetic (\<lambda>_ st. Ok (st, [])) ''37#1'' state_new = Panic m"
proof -
  have "show_nat 37 = ''37''" by code_simp
  then show ?thesis using arithmetic_base_panics [of 37 "''1''" "\<lambda>_ st. Ok (st, [])" state_new]
    by (simp add: name_byte_def is_digit_def)
qed

end
