(* ===== verification/Brace.thy ===== *)
theory Brace
  imports Arith
begin

text \<open>
  Brace expansion (\<^verbatim>\<open>expand_braces\<close> in \<^verbatim>\<open>wasmsh-expand/lib.rs\<close>): the first balanced pair of braces of a word
  is replaced by each of its items or numbers, and the words that result are expanded again, up to
  ten thousand words.  All slices are next to braces and commas, which are ASCII.
\<close>

section \<open>Finding braces\<close>

text \<open>
  The scan of \<open>find_brace_pair\<close>: the previous byte, the depth, the start of the outermost
  brace and the position.
\<close>

fun scan_braces :: "char \<Rightarrow> nat \<Rightarrow> nat \<Rightarrow> nat \<Rightarrow> string \<Rightarrow> (nat \<times> nat) option" where
  "scan_braces prev depth start i [] = None"
| "scan_braces prev depth start i (b # bs) =
     (if prev = ch_backslash then scan_braces b depth start (Suc i) bs
      else if b = CHR ''{'' then scan_braces b (Suc depth) (if depth = 0 then i else start) (Suc i) bs
      else if b = CHR ''}'' \<and> depth > 0 then
        if depth = 1 then Some (start, i) else scan_braces b (depth - 1) start (Suc i) bs
      else scan_braces b depth start (Suc i) bs)"

definition find_brace_pair :: "string \<Rightarrow> (nat \<times> nat) option" where
  "find_brace_pair word = scan_braces (CHR 0x00) 0 0 0 word"

definition MAX_BRACE_ITEMS :: nat where
  "MAX_BRACE_ITEMS = 10000"

section \<open>Items\<close>

text \<open>\<open>str::splitn(3, "..")\<close>.\<close>

fun split_dots :: "nat \<Rightarrow> string \<Rightarrow> string \<Rightarrow> string list" where
  "split_dots 0 acc s = [acc @ s]"
| "split_dots (Suc n) acc (a # b # s) =
     (if a = CHR ''.'' \<and> b = CHR ''.'' then acc # split_dots n [] s
      else split_dots (Suc n) (acc @ [a]) (b # s))"
| "split_dots (Suc n) acc s = [acc @ s]"

definition parse_brace_step :: "string list \<Rightarrow> i64 \<Rightarrow> i64 \<Rightarrow> i64 option" where
  "parse_brace_step parts start stop =
     (if length parts = 3 then
        (case parse_i64 (parts ! 2) of
           None \<Rightarrow> None
         | Some s \<Rightarrow> if s = 0 then None else Some s)
      else if sint start \<le> sint stop then Some 1 else Some (- 1))"

definition checked_add :: "i64 \<Rightarrow> i64 \<Rightarrow> i64 option" where
  "checked_add x y =
     (let s = sint x + sint y in if - (2 ^ 63) \<le> s \<and> s < 2 ^ 63 then Some (word_of_int s) else None)"

definition in_bounds :: "i64 \<Rightarrow> i64 \<Rightarrow> i64 \<Rightarrow> bool" where
  "in_bounds step stop c = (if 0 < sint step then sint c \<le> sint stop else sint stop \<le> sint c)"

text \<open>The loop of \<open>generate_range\<close>, with the number of items that are still allowed.\<close>

fun range_loop :: "nat \<Rightarrow> i64 \<Rightarrow> i64 \<Rightarrow> i64 \<Rightarrow> i64 list" where
  "range_loop 0 cur step stop = []"
| "range_loop (Suc n) cur step stop =
     (if in_bounds step stop cur
      then cur # (case checked_add cur step of None \<Rightarrow> [] | Some c \<Rightarrow> range_loop n c step stop)
      else [])"

text \<open>\<open>format!("{cur:0>width$}")\<close> fills with zeros on the left, in front of a sign.\<close>

definition pad_zero :: "nat \<Rightarrow> string \<Rightarrow> string" where
  "pad_zero width s = replicate (width - length s) CHR ''0'' @ s"

definition generate_range :: "i64 \<Rightarrow> i64 \<Rightarrow> i64 \<Rightarrow> nat \<Rightarrow> bool \<Rightarrow> string list" where
  "generate_range start stop step width needs_pad =
     map (\<lambda>c. if needs_pad then pad_zero width (show_i64 c) else show_i64 c)
       (range_loop MAX_BRACE_ITEMS start step stop)"

definition padded :: "string \<Rightarrow> bool" where
  "padded s \<longleftrightarrow> s \<noteq> [] \<and> hd s = CHR ''0'' \<and> 1 < length s"

definition try_brace_range :: "string \<Rightarrow> string list option" where
  "try_brace_range inner =
     (let parts = split_dots 2 [] inner in
      if length parts < 2 then None
      else
        (case (parse_i64 (parts ! 0), parse_i64 (parts ! 1)) of
           (Some start, Some stop) \<Rightarrow>
             (case parse_brace_step parts start stop of
                None \<Rightarrow> None
              | Some step \<Rightarrow>
                  let items = generate_range start stop step (max (length (parts ! 0)) (length (parts ! 1)))
                    (padded (parts ! 0) \<or> padded (parts ! 1))
                  in if items = [] then None else Some items)
         | _ \<Rightarrow> None))"

text \<open>The loop of \<open>split_brace_items\<close>: the depth, the current item and the items so far.\<close>

fun split_items :: "nat \<Rightarrow> string \<Rightarrow> string \<Rightarrow> string list" where
  "split_items depth item [] = [item]"
| "split_items depth item (b # bs) =
     (if b = CHR ''{'' then split_items (Suc depth) (item @ [b]) bs
      else if b = CHR ''}'' then split_items (depth - 1) (item @ [b]) bs
      else if b = CHR '','' \<and> depth = 0 then item # split_items depth [] bs
      else split_items depth (item @ [b]) bs)"

definition split_brace_items :: "string \<Rightarrow> string list option" where
  "split_brace_items inner =
     (let items = split_items 0 [] inner in if length items = 1 then None else Some items)"

section \<open>Expansion\<close>

definition brace_items :: "string \<Rightarrow> string list option" where
  "brace_items inner =
     (case try_brace_range inner of
        Some items \<Rightarrow> Some items
      | None \<Rightarrow>
          (case split_brace_items inner of
             Some items \<Rightarrow> if length items > 1 then Some items else None
           | None \<Rightarrow> None))"

text \<open>The loop over the items, which stops when the limit is reached.\<close>

fun brace_combine :: "(string \<Rightarrow> string list) \<Rightarrow> string \<Rightarrow> string \<Rightarrow> string list \<Rightarrow> string list \<Rightarrow> string list" where
  "brace_combine expand pre suf result [] = result"
| "brace_combine expand pre suf result (item # items) =
     (if length result \<ge> MAX_BRACE_ITEMS then result
      else brace_combine expand pre suf (result @ expand (pre @ item @ suf)) items)"

lemma brace_combine_same:
  "(\<And>item. item \<in> set items \<Longrightarrow> expand (pre @ item @ suf) = expand' (pre @ item @ suf)) \<Longrightarrow>
     brace_combine expand pre suf result items = brace_combine expand' pre suf result items"
proof (induction items arbitrary: result)
  case (Cons item items)
  have "expand (pre @ item @ suf) = expand' (pre @ item @ suf)" by (rule Cons.prems) simp
  moreover have "brace_combine expand pre suf r items = brace_combine expand' pre suf r items" for r
    by (rule Cons.IH, rule Cons.prems) simp
  ultimately show ?case by (simp only: brace_combine.simps)
qed simp

lemma brace_combine_cong [fundef_cong]:
  assumes "pre = pre'" "suf = suf'" "result = result'" "items = items'"
    "\<And>item. item \<in> set items' \<Longrightarrow> expand (pre' @ item @ suf') = expand' (pre' @ item @ suf')"
  shows "brace_combine expand pre suf result items = brace_combine expand' pre' suf' result' items'"
  unfolding assms(1-4) by (rule brace_combine_same) (rule assms(5))

text \<open>Every item has fewer opening braces than the word.\<close>

lemma scan_braces_pair:
  "scan_braces prev depth start i w = Some (s, e) \<Longrightarrow>
     i \<le> e \<and> e < i + length w \<and> w ! (e - i) = CHR ''}'' \<and>
     (if depth > 0 then s = start else i \<le> s \<and> s < e \<and> w ! (s - i) = CHR ''{'')"
proof (induction prev depth start i w rule: scan_braces.induct)
  case (2 prev depth start i b bs)
  have nth: "(b # bs) ! (j - i) = bs ! (j - Suc i)" if "Suc i \<le> j" for j
    using that by (simp add: nth_Cons' Suc_diff_le)
  consider (skip) "scan_braces b depth start (Suc i) bs = Some (s, e)"
    | (opened) "b = CHR ''{''" "scan_braces b (Suc depth) (if depth = 0 then i else start) (Suc i) bs = Some (s, e)"
    | (last) "b = CHR ''}''" "depth = 1" "s = start" "e = i"
    | (closed) "b = CHR ''}''" "depth > 1" "scan_braces b (depth - 1) start (Suc i) bs = Some (s, e)"
  proof (cases "prev = ch_backslash")
    case False
    show thesis
      using "2.prems" False that
      by (cases "b = CHR ''{''"; cases "b = CHR ''}'' \<and> depth > 0"; cases "depth = 1") (simp_all, linarith?)
  qed (use "2.prems" that(1) in simp)
  then show ?case
  proof cases
    case skip
    then show ?thesis using 2 nth [of e] nth [of s] by (cases "depth > 0") (auto split: if_splits)
  next
    case opened
    then show ?thesis using 2 nth [of e] nth [of s] by (cases "depth > 0") (auto split: if_splits)
  next
    case closed
    then show ?thesis using 2 nth [of e] by (auto split: if_splits)
  qed simp
qed simp

lemma find_brace_pair_split:
  assumes "find_brace_pair w = Some (s, e)"
  shows "s < e \<and> w = take s w @ CHR ''{'' # take (e - Suc s) (drop (Suc s) w) @ CHR ''}'' # drop (Suc e) w"
proof -
  have p: "e < length w" "w ! e = CHR ''}''" "s < e" "w ! s = CHR ''{''"
    using scan_braces_pair [of "CHR 0x00" 0 0 0 w s e] assms by (auto simp: find_brace_pair_def)
  have h: "CHR ''}'' # drop (Suc e) w = drop e w" "CHR ''{'' # drop (Suc s) w = drop s w"
    using Cons_nth_drop_Suc [of e w] Cons_nth_drop_Suc [of s w] p by simp_all
  have "take (e - Suc s) (drop (Suc s) w) @ drop e w = drop (Suc s) w"
    using append_take_drop_id [of "e - Suc s" "drop (Suc s) w"] p(3) by simp
  then show ?thesis using p(3) by (simp only: h append_take_drop_id simp_thms)
qed

lemma split_items_concat: "item \<in> set (split_items d acc s) \<Longrightarrow> count_list item c \<le> count_list acc c + count_list s c"
proof (induction d acc s rule: split_items.induct)
  case (2 d acc b bs)
  consider "item \<in> set (split_items (Suc d) (acc @ [b]) bs)" "b = CHR ''{''"
    | "item \<in> set (split_items (d - 1) (acc @ [b]) bs)" "b \<noteq> CHR ''{''" "b = CHR ''}''"
    | "item = acc" | "item \<in> set (split_items d [] bs)" "b = CHR '',''" "d = 0"
    | "item \<in> set (split_items d (acc @ [b]) bs)" "b \<noteq> CHR ''{''" "b \<noteq> CHR ''}''" "\<not> (b = CHR '','' \<and> d = 0)"
    using "2.prems" by (cases "b = CHR ''{''"; cases "b = CHR ''}''"; cases "b = CHR '','' \<and> d = 0") auto
  then show ?case using "2.IH" by cases (auto simp: count_list_append)
qed simp

lemma show_i64_braces: "count_list (show_i64 n) CHR ''{'' = 0"
proof -
  have "CHR ''{'' \<notin> set (show_nat k)" for k
    using show_nat_digits [of k] by (auto simp: list_all_iff is_digit_def)
  then show ?thesis by (auto simp: show_i64_def show_i_def show_int_def count_list_0_iff)
qed

lemma range_items_braces:
  assumes "try_brace_range inner = Some items" "item \<in> set items"
  shows "count_list item CHR ''{'' = 0"
  using assms show_i64_braces
  by (auto simp: try_brace_range_def generate_range_def pad_zero_def count_list_0_iff Let_def split: if_splits option.splits)

lemma brace_items_fewer: "brace_items inner = Some items \<Longrightarrow> item \<in> set items \<Longrightarrow> count_list item CHR ''{'' \<le> count_list inner CHR ''{''"
  using split_items_concat [of item 0 "[]" inner "CHR ''{''"] range_items_braces [of inner items item]
  by (auto simp: brace_items_def split_brace_items_def Let_def split: option.splits if_splits)

text \<open>The inside of the braces between two positions.\<close>

definition brace_inner :: "string \<Rightarrow> nat \<Rightarrow> nat \<Rightarrow> string" where
  "brace_inner word start stop = take (stop - Suc start) (drop (Suc start) word)"

lemma item_fewer_braces:
  assumes "find_brace_pair w = Some (s, e)" "brace_items (brace_inner w s e) = Some items" "item \<in> set items"
  shows "count_list (take s w @ item @ drop (Suc e) w) CHR ''{'' < count_list w CHR ''{''"
proof -
  have "count_list w CHR ''{'' = count_list (take s w) CHR ''{'' + Suc (count_list (brace_inner w s e) CHR ''{'' + count_list (drop (Suc e) w) CHR ''{'')"
    using arg_cong [OF conjunct2 [OF find_brace_pair_split [OF assms(1)]], of "\<lambda>w. count_list w CHR ''{''"]
    by (simp add: count_list_append brace_inner_def)
  then show ?thesis using brace_items_fewer [OF assms(2,3)] by (simp add: count_list_append)
qed

function expand_braces :: "string \<Rightarrow> string list" where
  "expand_braces word =
     (case find_brace_pair word of
        None \<Rightarrow> [word]
      | Some (start, stop) \<Rightarrow>
          (case brace_items (brace_inner word start stop) of
             None \<Rightarrow> [word]
           | Some items \<Rightarrow>
               take MAX_BRACE_ITEMS
                 (brace_combine expand_braces (take start word) (drop (Suc stop) word) [] items)))"
  by pat_completeness auto
termination
proof (relation "measure (\<lambda>w. count_list w CHR ''{'')")
  fix word p start stop items item
  assume "find_brace_pair word = Some p" "(start, stop) = p"
    "brace_items (brace_inner word start stop) = Some items" "item \<in> set items"
  then show "(take start word @ item @ drop (Suc stop) word, word) \<in> measure (\<lambda>w. count_list w CHR ''{'')"
    using item_fewer_braces by auto
qed simp

declare expand_braces.simps [simp del]

end
