(* ===== verification/Brace_Props.thy ===== *)
theory Brace_Props
  imports Brace Arith_Props
begin

text \<open>
  Brace expansion yields every choice of alternatives, in order: words with nested alternatives and
  ranges, their text, and the words they stand for.
\<close>

section \<open>Words with braces\<close>

datatype bword = WNil | WLit string bword | WRange int int bword | WAlt balts bword
  and balts = One bword | More bword balts

fun w_text :: "bword \<Rightarrow> string" and a_text :: "balts \<Rightarrow> string" where
  "w_text WNil = []"
| "w_text (WLit s w) = s @ w_text w"
| "w_text (WRange a b w) = ''{'' @ show_int a @ ''..'' @ show_int b @ ''}'' @ w_text w"
| "w_text (WAlt as w) = ''{'' @ a_text as @ ''}'' @ w_text w"
| "a_text (One w) = w_text w"
| "a_text (More w as) = w_text w @ '','' @ a_text as"

definition int_range :: "int \<Rightarrow> int \<Rightarrow> int list" where
  "int_range a b = (if a \<le> b then [a..b] else rev [b..a])"

definition pairs :: "string list \<Rightarrow> string list \<Rightarrow> string list" where
  "pairs us vs = concat (map (\<lambda>u. map (\<lambda>v. u @ v) vs) us)"

fun w_words :: "bword \<Rightarrow> string list" and a_words :: "balts \<Rightarrow> string list" where
  "w_words WNil = [[]]"
| "w_words (WLit s w) = pairs [s] (w_words w)"
| "w_words (WRange a b w) = pairs (map show_int (int_range a b)) (w_words w)"
| "w_words (WAlt as w) = pairs (a_words as) (w_words w)"
| "a_words (One w) = w_words w"
| "a_words (More w as) = w_words w @ a_words as"

text \<open>Literals have no special characters, alternatives are at least two, ranges are in range.\<close>

definition plain_char :: "char \<Rightarrow> bool" where
  "plain_char c \<longleftrightarrow> c \<notin> {CHR ''{'', CHR ''}'', CHR '','', ch_backslash}"

definition fits_i64 :: "int \<Rightarrow> bool" where
  "fits_i64 a \<longleftrightarrow> - (2 ^ 63) \<le> a \<and> a < 2 ^ 63"

fun wf_bword :: "bword \<Rightarrow> bool" and wf_balts :: "balts \<Rightarrow> bool" where
  "wf_bword WNil \<longleftrightarrow> True"
| "wf_bword (WLit s w) \<longleftrightarrow> list_all plain_char s \<and> wf_bword w"
| "wf_bword (WRange a b w) \<longleftrightarrow> fits_i64 a \<and> fits_i64 b \<and> wf_bword w"
| "wf_bword (WAlt as w) \<longleftrightarrow> (case as of One _ \<Rightarrow> False | _ \<Rightarrow> True) \<and> wf_balts as \<and> wf_bword w"
| "wf_balts (One w) \<longleftrightarrow> wf_bword w"
| "wf_balts (More w as) \<longleftrightarrow> wf_bword w \<and> wf_balts as"

fun w_app :: "bword \<Rightarrow> bword \<Rightarrow> bword" where
  "w_app WNil v = v"
| "w_app (WLit s w) v = WLit s (w_app w v)"
| "w_app (WRange a b w) v = WRange a b (w_app w v)"
| "w_app (WAlt as w) v = WAlt as (w_app w v)"

fun alts :: "balts \<Rightarrow> bword list" where
  "alts (One w) = [w]"
| "alts (More w as) = w # alts as"

lemma w_app_text: "w_text (w_app w v) = w_text w @ w_text v"
  by (induction w v rule: w_app.induct) simp_all

lemma w_app_wf: "wf_bword (w_app w v) \<longleftrightarrow> wf_bword w \<and> wf_bword v"
  by (induction w v rule: w_app.induct) auto

lemma pairs_Cons: "pairs (u # us) ws = pairs [u] ws @ pairs us ws"
  by (simp add: pairs_def)

lemma pairs_append: "pairs (us @ vs) ws = pairs us ws @ pairs vs ws"
  by (simp add: pairs_def)

lemma pairs_assoc: "pairs (pairs us vs) ws = pairs us (pairs vs ws)"
proof -
  have "pairs (map (\<lambda>v. u @ v) vs) ws = map (\<lambda>v. u @ v) (pairs vs ws)" for u
    by (induction vs) (simp_all add: pairs_def)
  then have "pairs (pairs [u] vs) ws = pairs [u] (pairs vs ws)" for u by (simp add: pairs_def)
  then show ?thesis
    by (induction us) (simp add: pairs_def, metis pairs_Cons pairs_append)
qed

lemma pairs_unit: "pairs [[]] ws = ws"
  by (induction ws) (simp_all add: pairs_def)

lemma pairs_concat: "pairs (concat (map g us)) ws = concat (map (\<lambda>u. pairs (g u) ws) us)"
  by (induction us) (simp_all add: pairs_append, simp add: pairs_def)

lemma pairs_singles: "concat (map (\<lambda>u. pairs [u] ws) us) = pairs us ws"
  by (simp add: pairs_def)

lemma pairs_prefix: "concat (map (\<lambda>u. pairs [pre @ u] ws) us) = pairs [pre] (pairs us ws)"
  by (induction us) (simp_all add: pairs_def)

lemma pairs_all: "concat (map (\<lambda>u. pairs [pre] (g u)) us) = pairs [pre] (concat (map g us))"
  by (induction us) (simp_all add: pairs_def)

lemma pairs_two: "pairs [pre] [s] = [pre @ s]"
  by (simp add: pairs_def)

lemma pairs_length: "length (pairs us vs) = length us * length vs"
  by (induction us) (simp_all add: pairs_def)

lemma w_app_words: "w_words (w_app w v) = pairs (w_words w) (w_words v)"
  by (induction w v rule: w_app.induct) (simp_all add: pairs_unit pairs_assoc)

lemma a_words_alts: "a_words as = concat (map w_words (alts as))"
  by (induction as rule: alts.induct) simp_all

lemma a_text_alts: "a_text as = join_with '','' (map w_text (alts as))"
proof (induction as rule: alts.induct)
  case (2 w as)
  then show ?case by (cases as) simp_all
qed simp

lemma wf_alts: "wf_balts as \<Longrightarrow> w \<in> set (alts as) \<Longrightarrow> wf_bword w"
  by (induction as rule: alts.induct) auto

lemma int_range_not_Nil: "int_range a b \<noteq> []"
  by (auto simp: int_range_def)

lemma pairs_not_Nil: "us \<noteq> [] \<Longrightarrow> vs \<noteq> [] \<Longrightarrow> pairs us vs \<noteq> []"
  by (cases us) (simp_all add: pairs_def)

lemma words_not_Nil: "w_words w \<noteq> []" "a_words as \<noteq> []"
  by (induction w and as) (simp_all add: pairs_not_Nil int_range_not_Nil)

section \<open>Scanning\<close>

lemma show_int_plain: "list_all plain_char (show_int a)"
proof -
  have "list_all plain_char (show_nat k)" for k
    using show_nat_digits [of k] by (auto simp: list_all_iff is_digit_def plain_char_def)
  then show ?thesis by (simp add: show_int_def plain_char_def)
qed

text \<open>The character before the text that follows.\<close>

definition last_char :: "char \<Rightarrow> string \<Rightarrow> char" where
  "last_char p s = (if s = [] then p else last s)"

lemma last_char_simps [simp]:
  "last_char p [] = p" "last_char p (c # s) = last_char c s" "last_char p (s @ t) = last_char (last_char p s) t"
  by (simp_all add: last_char_def)

lemma scan_plain:
  "list_all plain_char s \<Longrightarrow> p \<noteq> ch_backslash \<Longrightarrow>
     last_char p s \<noteq> ch_backslash \<and> scan_braces p d start i (s @ r) = scan_braces (last_char p s) d start (i + length s) r"
  by (induction s arbitrary: p i) (auto simp: plain_char_def)


lemma scan_open:
  "p \<noteq> ch_backslash \<Longrightarrow>
     scan_braces p d start i (CHR ''{'' # r) = scan_braces CHR ''{'' (Suc d) (if d = 0 then i else start) (Suc i) r"
  by simp

lemma scan_close:
  "p \<noteq> ch_backslash \<Longrightarrow> scan_braces p (Suc d) start i (CHR ''}'' # r) =
     (if d = 0 then Some (start, i) else scan_braces CHR ''}'' d start (Suc i) r)"
  by simp

lemma scan_text:
  "wf_bword w \<Longrightarrow> p \<noteq> ch_backslash \<Longrightarrow> 0 < d \<Longrightarrow>
     last_char p (w_text w) \<noteq> ch_backslash \<and>
     scan_braces p d start i (w_text w @ r) = scan_braces (last_char p (w_text w)) d start (i + length (w_text w)) r"
  "wf_balts as \<Longrightarrow> p \<noteq> ch_backslash \<Longrightarrow> 0 < d \<Longrightarrow>
     last_char p (a_text as) \<noteq> ch_backslash \<and>
     scan_braces p d start i (a_text as @ r) = scan_braces (last_char p (a_text as)) d start (i + length (a_text as)) r"
proof (induction w and as arbitrary: p d i r and p d i r)
  case (WLit s w)
  then show ?case using scan_plain [of s p d start i "w_text w @ r"] by (simp add: add.assoc)
next
  case (WRange a b w)
  let ?t = "show_int a @ ''..'' @ show_int b"
  have plain: "list_all plain_char ?t" using show_int_plain by (simp add: plain_char_def)
  have t: "w_text (WRange a b w) = CHR ''{'' # ?t @ CHR ''}'' # w_text w" by simp
  have "scan_braces p d start i ((CHR ''{'' # ?t @ CHR ''}'' # w_text w) @ r) =
        scan_braces CHR ''}'' d start (Suc (Suc i + length ?t)) (w_text w @ r)"
    using scan_plain [OF plain, of "CHR ''{''" "Suc d" start "Suc i" "CHR ''}'' # w_text w @ r"] WRange.prems
    by (simp only: append_Cons append_assoc scan_open) (simp add: scan_close)
  moreover have "last_char p (CHR ''{'' # ?t @ CHR ''}'' # w_text w) = last_char CHR ''}'' (w_text w)" by simp
  ultimately show ?case
    using WRange.IH [of "CHR ''}''" d "Suc (Suc i + length ?t)" r] WRange.prems unfolding t by (simp add: algebra_simps)
next
  case (WAlt as w)
  have t: "w_text (WAlt as w) = CHR ''{'' # a_text as @ CHR ''}'' # w_text w" by simp
  have "scan_braces p d start i ((CHR ''{'' # a_text as @ CHR ''}'' # w_text w) @ r) =
        scan_braces CHR ''}'' d start (Suc (Suc i + length (a_text as))) (w_text w @ r)"
    using WAlt.IH(1) [of "CHR ''{''" "Suc d" "Suc i" "CHR ''}'' # w_text w @ r"] WAlt.prems
    by (simp only: append_Cons append_assoc scan_open) (simp add: scan_close)
  moreover have "last_char p (CHR ''{'' # a_text as @ CHR ''}'' # w_text w) = last_char CHR ''}'' (w_text w)" by simp
  ultimately show ?case
    using WAlt.IH(2) [of "CHR ''}''" d "Suc (Suc i + length (a_text as))" r] WAlt.prems unfolding t by (simp add: algebra_simps)
next
  case (More w as)
  show ?case
    using More.prems More.IH(1) [of p d i "CHR '','' # a_text as @ r"] More.IH(2) [of "CHR '',''" d "Suc (i + length (w_text w))" r]
    by (simp add: algebra_simps)
qed simp_all

text \<open>The first pair of a word that starts with plain text and a brace.\<close>

lemma find_pair:
  assumes "list_all plain_char pre" "\<And>i r. scan_braces CHR ''{'' 1 s i (t @ r) = scan_braces (last_char CHR ''{'' t) 1 s (i + length t) r"
    "last_char CHR ''{'' t \<noteq> ch_backslash" "s = length pre"
  shows "find_brace_pair (pre @ CHR ''{'' # t @ CHR ''}'' # r) = Some (s, s + Suc (length t))"
  using scan_plain [OF assms(1), of "CHR 0x00" 0 0 0 "CHR ''{'' # t @ CHR ''}'' # r"] assms(2) [of "Suc (length pre)" "CHR ''}'' # r"] assms(3,4)
  by (simp add: find_brace_pair_def)

lemma find_pair_alts:
  assumes "list_all plain_char pre" "wf_balts as"
  shows "find_brace_pair (pre @ CHR ''{'' # a_text as @ CHR ''}'' # r) = Some (length pre, length pre + Suc (length (a_text as)))"
  using find_pair [OF assms(1) _ _ refl, of "a_text as" r] scan_text(2) [OF assms(2), of "CHR ''{''" 1 "length pre"] by simp

lemma find_pair_range:
  assumes "list_all plain_char pre"
  shows "find_brace_pair (pre @ CHR ''{'' # (show_int a @ ''..'' @ show_int b) @ CHR ''}'' # r) =
     Some (length pre, length pre + Suc (length (show_int a @ ''..'' @ show_int b)))"
proof -
  have "list_all plain_char (show_int a @ ''..'' @ show_int b)" using show_int_plain by (simp add: plain_char_def)
  from find_pair [OF assms _ _ refl, of "show_int a @ ''..'' @ show_int b" r] scan_plain [OF this, of "CHR ''{''" 1 "length pre"]
  show ?thesis by simp
qed

lemma find_pair_none: "list_all plain_char s \<Longrightarrow> find_brace_pair s = None"
  using scan_plain [of s "CHR 0x00" 0 0 0 "[]"] by (simp add: find_brace_pair_def)

lemma inner_at:
  "brace_inner (pre @ CHR ''{'' # t @ CHR ''}'' # r) (length pre) (length pre + Suc (length t)) = t"
  "take (length pre) (pre @ CHR ''{'' # t @ CHR ''}'' # r) = pre"
  "drop (Suc (length pre + Suc (length t))) (pre @ CHR ''{'' # t @ CHR ''}'' # r) = r"
  by (simp_all add: brace_inner_def)

section \<open>Items\<close>

text \<open>A scan that is inside braces leaves the depth as it was.\<close>

lemma split_plain:
  "list_all plain_char s \<Longrightarrow> split_items d item (s @ r) = split_items d (item @ s) r"
  by (induction s arbitrary: item) (auto simp: plain_char_def)

lemma split_plain_deep:
  "list_all (\<lambda>c. plain_char c \<or> c = CHR '','') s \<Longrightarrow> 0 < d \<Longrightarrow> split_items d item (s @ r) = split_items d (item @ s) r"
  by (induction s arbitrary: item) (auto simp: plain_char_def)

lemma split_text:
  "wf_bword w \<Longrightarrow> split_items d item (w_text w @ r) = split_items d (item @ w_text w) r"
  "wf_balts as \<Longrightarrow> 0 < d \<Longrightarrow> split_items d item (a_text as @ r) = split_items d (item @ a_text as) r"
proof (induction w and as arbitrary: d item r and d item r)
  case (WRange a b w)
  have "list_all plain_char (show_int a @ ''..'' @ show_int b)" using show_int_plain by (simp add: plain_char_def)
  from split_plain [OF this, of "Suc d" "item @ ''{''" "CHR ''}'' # w_text w @ r"] WRange show ?case by simp
qed (simp_all add: split_plain)

lemma split_alts: "wf_balts as \<Longrightarrow> split_items 0 [] (a_text as) = map w_text (alts as)"
proof (induction as rule: alts.induct)
  case (1 w)
  then show ?case using split_text(1) [of w 0 "[]" "[]"] by simp
next
  case (2 w as)
  then show ?case using split_text(1) [of w 0 "[]" "CHR '','' # a_text as"] by simp
qed

text \<open>An inside with a comma is not a range.\<close>

lemma split_dots_comma: "CHR '','' \<in> set s \<or> CHR '','' \<in> set acc \<Longrightarrow> \<exists>p \<in> set (split_dots n acc s). CHR '','' \<in> set p"
  by (induction n acc s rule: split_dots.induct) auto

lemma parse_i64_comma: "CHR '','' \<in> set s \<Longrightarrow> parse_i64 s = None"
  by (cases s) (auto simp: parse_i64_def strip_sign_def list_all_iff is_digit_def)

lemma split_dots_length: "length (split_dots n acc s) \<le> Suc n \<and> split_dots n acc s \<noteq> []"
  by (induction n acc s rule: split_dots.induct) auto

lemma range_comma:
  assumes "CHR '','' \<in> set s"
  shows "try_brace_range s = None"
proof -
  let ?p = "split_dots 2 [] s"
  obtain q where q: "q \<in> set ?p" "parse_i64 q = None"
    using split_dots_comma [of s "[]" 2] parse_i64_comma assms by blast
  then obtain j where j: "j < length ?p" "parse_i64 (?p ! j) = None" by (auto simp: in_set_conv_nth)
  have "j = 0 \<or> j = 1 \<or> (j = 2 \<and> length ?p = 3)" using j(1) split_dots_length [of 2 "[]" s] by linarith
  then show ?thesis
    using j(2) by (auto simp: try_brace_range_def parse_brace_step_def Let_def split: option.splits)
qed

lemma a_text_comma: "a_text (More w as) = w_text w @ CHR '','' # a_text as"
  by simp

lemma alts_items:
  assumes "wf_balts as" "alts as = v # v' # vs"
  shows "brace_items (a_text as) = Some (map w_text (alts as))"
proof -
  obtain u us where as: "as = More u us" using assms(2) by (cases as) auto
  have "CHR '','' \<in> set (a_text as)" by (simp add: as)
  then show ?thesis
    using range_comma split_alts [OF assms(1)] assms(2) by (simp add: brace_items_def split_brace_items_def)
qed

text \<open>Numbers.\<close>

lemma parse_i64_show:
  assumes "fits_i64 a"
  shows "parse_i64 (show_int a) = Some (word_of_int a)"
proof (cases "a < 0")
  case True
  then show ?thesis
    using assms show_nat_digits [of "nat (- a)"] digits_val_show_nat [of "nat (- a)"]
    by (simp add: show_int_def parse_i64_def strip_sign_def i64_in_range_def fits_i64_def nat_le_iff)
next
  case False
  then show ?thesis using assms parse_i64_show_nat [of "nat a"] by (simp add: show_int_def fits_i64_def nat_less_iff)
qed

lemma sint_fits: "fits_i64 a \<Longrightarrow> sint (word_of_int a :: i64) = a"
  by (simp add: fits_i64_def int_word_sint)

lemma show_int_not_padded: "\<not> padded (show_int a)"
  using show_nat_head [of "nat a"] by (auto simp: padded_def show_int_def show_nat.simps [of 0])

lemma checked_add_step:
  "fits_i64 a \<Longrightarrow> checked_add (word_of_int a) 1 = (if fits_i64 (a + 1) then Some (word_of_int (a + 1)) else None)"
  "fits_i64 a \<Longrightarrow> checked_add (word_of_int a) (- 1) = (if fits_i64 (a - 1) then Some (word_of_int (a - 1)) else None)"
  by (simp_all add: checked_add_def sint_fits Let_def) (simp_all add: fits_i64_def)

lemma range_up:
  "fits_i64 a \<Longrightarrow> fits_i64 b \<Longrightarrow> map sint (range_loop n (word_of_int a) 1 (word_of_int b)) = take n [a..b]"
proof (induction n arbitrary: a)
  case (Suc n)
  have "[a..b] = a # [a + 1..b]" if "a \<le> b" using that by (rule upto_rec1)
  moreover have "\<not> fits_i64 (a + 1) \<Longrightarrow> [a + 1..b] = []" using Suc.prems by (simp add: fits_i64_def)
  ultimately show ?case
    using Suc.IH [of "a + 1"] Suc.prems by (auto simp: in_bounds_def sint_fits checked_add_step)
qed simp

lemma range_down:
  "fits_i64 a \<Longrightarrow> fits_i64 b \<Longrightarrow> map sint (range_loop n (word_of_int a) (- 1) (word_of_int b)) = take n (rev [b..a])"
proof (induction n arbitrary: a)
  case (Suc n)
  have "[b..a] = [b..a - 1] @ [a]" if "b \<le> a" using that by (rule upto_rec2)
  moreover have "\<not> fits_i64 (a - 1) \<Longrightarrow> [b..a - 1] = []" using Suc.prems by (simp add: fits_i64_def)
  ultimately show ?case
    using Suc.IH [of "a - 1"] Suc.prems by (auto simp: in_bounds_def sint_fits checked_add_step)
qed simp

lemma split_dots_number:
  "list_all (\<lambda>c. c \<noteq> CHR ''.'') s \<Longrightarrow> split_dots (Suc n) acc (s @ CHR ''.'' # CHR ''.'' # r) = (acc @ s) # split_dots n [] r"
proof (induction s arbitrary: acc)
  case (Cons c s)
  then show ?case by (cases s) simp_all
qed simp

lemma split_dots_rest: "list_all (\<lambda>c. c \<noteq> CHR ''.'') s \<Longrightarrow> split_dots (Suc n) acc s = [acc @ s]"
proof (induction s arbitrary: acc)
  case (Cons c s)
  then show ?case by (cases s) simp_all
qed simp

lemma show_int_dots: "list_all (\<lambda>c. c \<noteq> CHR ''.'') (show_int a)"
proof -
  have "list_all (\<lambda>c. c \<noteq> CHR ''.'') (show_nat k)" for k
    using show_nat_digits [of k] by (auto simp: list_all_iff is_digit_def)
  then show ?thesis by (simp add: show_int_def)
qed

lemma range_items:
  assumes "fits_i64 a" "fits_i64 b"
  shows "brace_items (show_int a @ ''..'' @ show_int b) = Some (map show_int (take MAX_BRACE_ITEMS (int_range a b)))"
proof -
  let ?s = "show_int a @ ''..'' @ show_int b"
  have parts: "split_dots 2 [] ?s = [show_int a, show_int b]"
    using split_dots_number [OF show_int_dots, of 1 "[]" a "show_int b"] split_dots_rest [OF show_int_dots, of 0 "[]" b]
    by (simp add: numeral_2_eq_2)
  then have parts': "split_dots 2 [] (show_int a @ CHR ''.'' # CHR ''.'' # show_int b) = [show_int a, show_int b]" by simp
  let ?step = "if a \<le> b then 1 else - 1 :: i64"
  have step: "parse_brace_step [show_int a, show_int b] (word_of_int a) (word_of_int b) = Some ?step"
    using assms by (simp add: parse_brace_step_def sint_fits)
  have loop: "map show_i64 (range_loop MAX_BRACE_ITEMS (word_of_int a) ?step (word_of_int b)) =
      map show_int (take MAX_BRACE_ITEMS (int_range a b))"
    using range_up [OF assms, of MAX_BRACE_ITEMS] range_down [OF assms, of MAX_BRACE_ITEMS]
    by (cases "a \<le> b") (simp_all add: int_range_def show_i64_def [abs_def] show_i_def flip: map_map [unfolded comp_def])
  have "take MAX_BRACE_ITEMS (int_range a b) \<noteq> []" using int_range_not_Nil [of a b] by (simp add: MAX_BRACE_ITEMS_def)
  then have "try_brace_range ?s = Some (map show_int (take MAX_BRACE_ITEMS (int_range a b)))"
    using loop step by (simp add: try_brace_range_def parts' parse_i64_show assms Let_def generate_range_def show_int_not_padded)
  then show ?thesis by (simp add: brace_items_def)
qed

section \<open>Expansion\<close>

lemma brace_combine_all:
  "length (result @ concat (map (\<lambda>item. ex (pre @ item @ suf)) items)) \<le> MAX_BRACE_ITEMS \<Longrightarrow>
     (\<And>item. item \<in> set items \<Longrightarrow> ex (pre @ item @ suf) \<noteq> []) \<Longrightarrow>
     brace_combine ex pre suf result items = result @ concat (map (\<lambda>item. ex (pre @ item @ suf)) items)"
proof (induction items arbitrary: result)
  case (Cons item items)
  have "ex (pre @ item @ suf) \<noteq> []" by (rule Cons.prems(2)) simp
  then have "length result < length (result @ ex (pre @ item @ suf))" by simp
  also have "\<dots> \<le> MAX_BRACE_ITEMS" using Cons.prems(1) by simp
  finally have "length result < MAX_BRACE_ITEMS" .
  then show ?case using Cons by simp
qed simp

lemma expand_step:
  assumes "find_brace_pair t = Some (length pre, length pre + Suc (length inner))"
    "t = pre @ CHR ''{'' # inner @ CHR ''}'' # suf" "brace_items inner = Some items"
    "\<And>item. item \<in> set items \<Longrightarrow> expand_braces (pre @ item @ suf) \<noteq> []"
    "length (concat (map (\<lambda>item. expand_braces (pre @ item @ suf)) items)) \<le> MAX_BRACE_ITEMS"
  shows "expand_braces t = concat (map (\<lambda>item. expand_braces (pre @ item @ suf)) items)"
proof -
  have "brace_combine expand_braces pre suf [] items = concat (map (\<lambda>item. expand_braces (pre @ item @ suf)) items)"
    using brace_combine_all [of "[]" expand_braces pre suf items] assms(4,5) by simp
  then show ?thesis
    using assms(1,3,5) inner_at [of pre inner suf] unfolding assms(2) by (subst expand_braces.simps) simp
qed

text \<open>An alternative has at most the braces of all of them.\<close>

lemma alts_braces: "v \<in> set (alts as) \<Longrightarrow> count_list (w_text v) c \<le> count_list (a_text as) c"
  by (induction as rule: alts.induct) (auto simp: count_list_append)

lemma alts_words: "v \<in> set (alts as) \<Longrightarrow> length (w_words v) \<le> length (a_words as)"
  by (induction as rule: alts.induct) auto

lemma product_le: "0 < m \<Longrightarrow> 0 < n \<Longrightarrow> m * n \<le> k \<Longrightarrow> m \<le> k \<and> n \<le> (k :: nat)"
  by (metis le_trans mult_le_mono1 mult_le_mono2 nat_mult_1 nat_mult_1_right Suc_leI One_nat_def)

text \<open>The induction goes down in the number of braces, then in the size of the word.\<close>

definition expands :: "bword \<Rightarrow> bool" where
  "expands w \<longleftrightarrow> (wf_bword w \<longrightarrow> length (w_words w) \<le> MAX_BRACE_ITEMS \<longrightarrow>
     (\<forall>pre. list_all plain_char pre \<longrightarrow> expand_braces (pre @ w_text w) = pairs [pre] (w_words w)))"

lemma expands_at:
  "expands w \<Longrightarrow> wf_bword w \<Longrightarrow> length (w_words w) \<le> MAX_BRACE_ITEMS \<Longrightarrow> list_all plain_char pre \<Longrightarrow>
     expand_braces (pre @ w_text w) = pairs [pre] (w_words w)"
  by (simp add: expands_def)

lemma expands_range:
  assumes "expands v"
  shows "expands (WRange a b v)"
  unfolding expands_def
proof (intro impI allI)
  fix pre
  assume wf: "wf_bword (WRange a b v)" and len: "length (w_words (WRange a b v)) \<le> MAX_BRACE_ITEMS"
    and pre: "list_all plain_char pre"
  let ?items = "map show_int (int_range a b)"
  have small: "length (int_range a b) \<le> MAX_BRACE_ITEMS" "length (w_words v) \<le> MAX_BRACE_ITEMS"
    using len words_not_Nil int_range_not_Nil product_le [of "length (int_range a b)" "length (w_words v)"]
    by (simp_all add: pairs_length)
  have ex: "expand_braces (pre @ item @ w_text v) = pairs [pre @ item] (w_words v)" if "item \<in> set ?items" for item
    using that expands_at [OF assms, of "pre @ item"] wf pre small(2) show_int_plain by auto
  have same: "map (\<lambda>item. expand_braces (pre @ item @ w_text v)) ?items = map (\<lambda>item. pairs [pre @ item] (w_words v)) ?items"
    using ex by simp
  have all: "concat (map (\<lambda>item. expand_braces (pre @ item @ w_text v)) ?items) = pairs [pre] (w_words (WRange a b v))"
    unfolding same pairs_prefix by simp
  show "expand_braces (pre @ w_text (WRange a b v)) = pairs [pre] (w_words (WRange a b v))"
    using expand_step [OF find_pair_range [OF pre, of a b "w_text v"] refl, of ?items] range_items [of a b] wf small(1) ex all len
    by (simp add: pairs_not_Nil words_not_Nil pairs_length)
qed

lemma expands_alts:
  assumes "\<And>u. u \<in> set (alts as) \<Longrightarrow> expands (w_app u v)"
  shows "expands (WAlt as v)"
  unfolding expands_def
proof (intro impI allI)
  fix pre
  assume wf: "wf_bword (WAlt as v)" and len: "length (w_words (WAlt as v)) \<le> MAX_BRACE_ITEMS"
    and pre: "list_all plain_char pre"
  have wfs: "wf_balts as" "wf_bword v" using wf by simp_all
  obtain x y zs where two: "alts as = x # y # zs"
    using wf by (cases as) (auto, metis alts.elims)
  have ex: "expand_braces (pre @ w_text u @ w_text v) = pairs [pre] (pairs (w_words u) (w_words v))" if u: "u \<in> set (alts as)" for u
  proof -
    have "length (w_words u) * length (w_words v) \<le> length (a_words as) * length (w_words v)"
      using alts_words [OF u] by simp
    also have "\<dots> \<le> MAX_BRACE_ITEMS" using len by (simp add: pairs_length)
    finally have "length (w_words (w_app u v)) \<le> MAX_BRACE_ITEMS" by (simp add: w_app_words pairs_length)
    then show ?thesis
      using expands_at [OF assms [OF u] _ _ pre] wf_alts [OF wfs(1) u] wfs(2) by (simp add: w_app_text w_app_wf w_app_words)
  qed
  have some: "expand_braces (pre @ item @ w_text v) \<noteq> []" if "item \<in> set (map w_text (alts as))" for item
    using that ex by (auto simp: pairs_not_Nil words_not_Nil)
  have same: "map (\<lambda>item. expand_braces (pre @ item @ w_text v)) (map w_text (alts as)) =
      map (\<lambda>u. pairs [pre] (pairs (w_words u) (w_words v))) (alts as)"
    using ex by simp
  have all: "concat (map (\<lambda>item. expand_braces (pre @ item @ w_text v)) (map w_text (alts as))) = pairs [pre] (w_words (WAlt as v))"
    unfolding same by (simp add: a_words_alts pairs_concat pairs_all)
  show "expand_braces (pre @ w_text (WAlt as v)) = pairs [pre] (w_words (WAlt as v))"
    using expand_step [OF find_pair_alts [OF pre wfs(1), of "w_text v"] refl alts_items [OF wfs(1) two] some] all len
    by (simp add: pairs_length)
qed

lemma expands_all: "expands w"
proof (induction "(count_list (w_text w) CHR ''{'', size w)" arbitrary: w rule: wf_induct_rule [OF wf_lex_prod [OF wf_less wf_less]])
  case (1 w)
  show ?case
  proof (cases w)
    case WNil
    then show ?thesis using find_pair_none by (simp add: expands_def expand_braces.simps pairs_two)
  next
    case (WLit s v)
    have "expands v" using 1 [of v] by (simp add: WLit count_list_append) linarith
    then show ?thesis
      unfolding WLit by (auto simp: expands_def pairs_length pairs_two simp flip: pairs_assoc append_assoc)
  next
    case (WRange a b v)
    have "expands v" using 1 [of v] by (simp add: WRange count_list_append)
    then show ?thesis unfolding WRange by (rule expands_range)
  next
    case (WAlt as v)
    have "expands (w_app u v)" if "u \<in> set (alts as)" for u
      using 1 [of "w_app u v"] alts_braces [OF that, of "CHR ''{''"] by (simp add: WAlt count_list_append w_app_text)
    then show ?thesis unfolding WAlt by (rule expands_alts)
  qed
qed

section \<open>Properties\<close>

text \<open>
  C8 (functional). Brace expansion is the cartesian product of its alternatives in order: a word built of literals,
  integer ranges and nested comma lists expands to exactly the words it stands for, as long as they
  are at most ten thousand.
\<close>

theorem braces_expand_all:
  assumes "wf_bword w" "length (w_words w) \<le> MAX_BRACE_ITEMS"
  shows "expand_braces (w_text w) = w_words w"
  using expands_at [OF expands_all assms, of "[]"] by (simp add: pairs_unit)

theorem braces_expand_witness:
  "expand_braces ''a{b,c{2..1}}-{x,}'' = [''ab-x'', ''ab-'', ''ac2-x'', ''ac2-'', ''ac1-x'', ''ac1-'']"
proof -
  let ?w = "WLit ''a'' (WAlt (More (WLit ''b'' WNil) (One (WLit ''c'' (WRange 2 1 WNil))))
     (WLit ''-'' (WAlt (More (WLit ''x'' WNil) (One WNil)) WNil)))"
  have n: "show_int 1 = ''1''" "show_int 2 = ''2''" by code_simp+
  have r: "int_range 2 1 = [2, 1]" by (simp add: int_range_def upto.simps)
  have t: "w_text ?w = ''a{b,c{2..1}}-{x,}''" by (simp add: n)
  have ws: "w_words ?w = [''ab-x'', ''ab-'', ''ac2-x'', ''ac2-'', ''ac1-x'', ''ac1-'']" by (simp add: n r pairs_def)
  have wf: "wf_bword ?w" by (simp add: plain_char_def fits_i64_def)
  have "length (w_words ?w) \<le> MAX_BRACE_ITEMS" unfolding ws by (simp add: MAX_BRACE_ITEMS_def)
  from braces_expand_all [OF wf this] show ?thesis unfolding t ws .
qed

lemma brace_combine_some:
  "(result \<noteq> [] \<or> (items \<noteq> [] \<and> (\<forall>item \<in> set items. ex (pre @ item @ suf) \<noteq> []))) \<Longrightarrow>
     brace_combine ex pre suf result items \<noteq> []"
  by (induction items arbitrary: result) (auto simp: MAX_BRACE_ITEMS_def)

lemma brace_items_not_Nil: "brace_items inner = Some items \<Longrightarrow> items \<noteq> []"
  by (auto simp: brace_items_def try_brace_range_def Let_def split: option.splits if_splits)

text \<open>
  C38 (bounds). Whatever the word, brace expansion yields at least one and at most ten thousand words.
\<close>

theorem braces_bounded: "1 \<le> length (expand_braces w) \<and> length (expand_braces w) \<le> MAX_BRACE_ITEMS"
proof (induction w rule: expand_braces.induct)
  case (1 w)
  show ?case
  proof (cases "find_brace_pair w")
    case (Some p)
    then obtain s e where p: "find_brace_pair w = Some (s, e)" by (cases p) auto
    show ?thesis
    proof (cases "brace_items (brace_inner w s e)")
      case (Some items)
      have "brace_combine expand_braces (take s w) (drop (Suc e) w) [] items \<noteq> []"
      proof (rule brace_combine_some, intro disjI2 conjI ballI)
        fix item
        assume "item \<in> set items"
        then show "expand_braces (take s w @ item @ drop (Suc e) w) \<noteq> []"
          using "1.IH" [OF p refl Some] by fastforce
      qed (rule brace_items_not_Nil [OF Some])
      moreover have "expand_braces w =
          take MAX_BRACE_ITEMS (brace_combine expand_braces (take s w) (drop (Suc e) w) [] items)"
        by (simp add: expand_braces.simps [of w] p Some)
      ultimately show ?thesis by (simp add: MAX_BRACE_ITEMS_def Suc_le_eq)
    qed (simp add: p expand_braces.simps [of w] MAX_BRACE_ITEMS_def)
  qed (simp add: expand_braces.simps [of w] MAX_BRACE_ITEMS_def)
qed

text \<open>
  A pair of braces without items stops the expansion of the word: the list that follows it is not
  expanded.
\<close>

lemma braces_stop_at_single: "expand_braces ''{a}{b,c}'' = [''{a}{b,c}'']"
  by code_simp

end
