(* ===== verification/Expand_Glob.thy ===== *)
theory Expand_Glob
  imports Glob Unicode Str_Ops
begin

text \<open>
  The patterns of parameter expansion (\<^verbatim>\<open>wasmsh-expand/lib.rs\<close>): the matcher, the removal of prefixes and
  suffixes, and substitutions.  The code cuts the value at every byte, and a cut inside a
  character panics.
\<close>

section \<open>The matcher\<close>

datatype class_outcome = ClassMatched nat | ClassNoMatch | ClassInvalid

text \<open>The loop of \<open>bracket_class_matches\<close>.\<close>

function bracket_scan :: "string \<Rightarrow> char \<Rightarrow> bool \<Rightarrow> nat \<Rightarrow> nat \<Rightarrow> bool \<Rightarrow> class_outcome" where
  "bracket_scan p c negated i members matched =
     (if i < length p then
        (if p ! i = CHR '']'' then
           (if members = 0 then ClassInvalid
            else if (if negated then \<not> matched else matched) then ClassMatched (i + 1) else ClassNoMatch)
         else if i + 2 < length p \<and> p ! (i + 1) = CHR ''-'' \<and> p ! (i + 2) \<noteq> CHR '']''
         then bracket_scan p c negated (i + 3) (members + 1) (matched \<or> p ! i \<le> c \<and> c \<le> p ! (i + 2))
         else bracket_scan p c negated (i + 1) (members + 1) (matched \<or> p ! i = c))
      else ClassInvalid)"
  by pat_completeness auto
termination by (relation "measure (\<lambda>(p, c, negated, i, members, matched). length p - i)") auto

declare bracket_scan.simps [simp del]

definition bracket_class_matches :: "string \<Rightarrow> nat \<Rightarrow> char \<Rightarrow> class_outcome" where
  "bracket_class_matches p pi c =
     (let negated = (pi + 1 < length p \<and> (p ! (pi + 1) = CHR ''!'' \<or> p ! (pi + 1) = CHR ''^''));
          i = (if negated then pi + 2 else pi + 1)
      in if i < length p \<and> p ! i = CHR '']'' then bracket_scan p c negated (i + 1) 1 (c = CHR '']'')
         else bracket_scan p c negated i 0 False)"

definition match_single :: "string \<Rightarrow> nat \<Rightarrow> char \<Rightarrow> nat option" where
  "match_single p pi c =
     (if pi < length p then
        (if p ! pi = CHR ''?'' then Some (pi + 1)
         else if p ! pi = CHR ''['' then
           (case bracket_class_matches p pi c of
              ClassMatched n \<Rightarrow> Some n
            | ClassNoMatch \<Rightarrow> None
            | ClassInvalid \<Rightarrow> if p ! pi = c then Some (pi + 1) else None)
         else if p ! pi = c then Some (pi + 1) else None)
      else None)"

lemma bracket_scan_bound:
  "bracket_scan p c negated i members matched = ClassMatched n \<Longrightarrow> i < n \<and> n \<le> length p"
proof (induction p c negated i members matched rule: bracket_scan.induct)
  case (1 p c negated i members matched)
  from "1.prems" show ?case
    using "1.IH" by (subst (asm) bracket_scan.simps) (auto split: if_splits)
qed

lemma bracket_class_bound: "bracket_class_matches p pi c = ClassMatched n \<Longrightarrow> pi < n \<and> n \<le> length p"
  by (auto simp: bracket_class_matches_def Let_def dest!: bracket_scan_bound split: if_splits)

lemma match_single_bound: "match_single p pi c = Some n \<Longrightarrow> pi < n \<and> n \<le> length p"
  using bracket_class_bound [of p pi c]
  by (auto simp: match_single_def split: if_splits class_outcome.splits)

text \<open>The loop of \<open>simple_glob_match\<close>; \<open>star\<close> holds \<open>star_p\<close> and \<open>star_n\<close>.\<close>

function simple_glob_loop :: "string \<Rightarrow> string \<Rightarrow> nat \<Rightarrow> nat \<Rightarrow> (nat \<times> nat) option \<Rightarrow> bool" where
  "simple_glob_loop p n pi ni star =
     (if ni < length n then
        (if pi < length p \<and> p ! pi = CHR ''*'' then simple_glob_loop p n (pi + 1) ni (Some (pi, ni))
         else
           (case match_single p pi (n ! ni) of
              Some nxt \<Rightarrow> simple_glob_loop p n nxt (ni + 1) star
            | None \<Rightarrow>
                (case star of
                   Some (sp, sn) \<Rightarrow> simple_glob_loop p n (sp + 1) (sn + 1) (Some (sp, sn + 1))
                 | None \<Rightarrow> False)))
      else skip_stars p pi = length p)"
  by pat_completeness auto
termination
  by (relation "measures
      [\<lambda>(p, n, pi, ni, star). case star of None \<Rightarrow> 0 | Some (sp, sn) \<Rightarrow> of_bool (ni < sn),
       \<lambda>(p, n, pi, ni, star). case star of None \<Rightarrow> Suc (length n) | Some (sp, sn) \<Rightarrow> length n - sn,
       \<lambda>(p, n, pi, ni, star). length p - pi]")
    (auto dest!: match_single_bound split: option.splits)

declare simple_glob_loop.simps [simp del]

definition simple_glob_match :: "string \<Rightarrow> string \<Rightarrow> bool" where
  "simple_glob_match pattern val = simple_glob_loop pattern val 0 0 None"

section \<open>Its language\<close>

text \<open>A class that is closed, as its ranges and the pattern after it.\<close>

function bracket_items :: "string \<Rightarrow> ((char \<times> char) list \<times> string) option" where
  "bracket_items [] = None"
| "bracket_items (a # p) =
     (if a = CHR '']'' then Some ([], p)
      else if 2 \<le> length p \<and> p ! 0 = CHR ''-'' \<and> p ! 1 \<noteq> CHR '']''
      then map_option (\<lambda>(rs, rest). ((a, p ! 1) # rs, rest)) (bracket_items (drop 2 p))
      else map_option (\<lambda>(rs, rest). ((a, a) # rs, rest)) (bracket_items p))"
  by pat_completeness auto
termination by (relation "measure length") auto

declare bracket_items.simps(2) [simp del]

definition bracket_ranges :: "string \<Rightarrow> ((char \<times> char) list \<times> string) option" where
  "bracket_ranges p =
     (if p \<noteq> [] \<and> hd p = CHR '']''
      then map_option (\<lambda>(rs, rest). ((CHR '']'', CHR '']'') # rs, rest)) (bracket_items (tl p))
      else bracket_items p)"

definition bracket_of :: "string \<Rightarrow> ((char \<Rightarrow> bool) \<times> string) option" where
  "bracket_of p =
     (if p \<noteq> [] \<and> (hd p = CHR ''!'' \<or> hd p = CHR ''^'')
      then map_option (\<lambda>(rs, rest). (\<lambda>c. \<not> in_ranges rs c, rest)) (bracket_ranges (tl p))
      else map_option (\<lambda>(rs, rest). (in_ranges rs, rest)) (bracket_ranges p))"

lemma bracket_items_length: "bracket_items p = Some (rs, rest) \<Longrightarrow> length rest < length p"
proof (induction p arbitrary: rs rule: bracket_items.induct)
  case (2 a p)
  have "length rest < length p"
    if "a \<noteq> CHR '']''" "2 \<le> length p \<and> p ! 0 = CHR ''-'' \<and> p ! 1 \<noteq> CHR '']''" "bracket_items (drop 2 p) = Some (rs', rest)" for rs'
    using "2.IH"(1) [OF that] by simp
  moreover have "length rest < length p"
    if "a \<noteq> CHR '']''" "\<not> (2 \<le> length p \<and> p ! 0 = CHR ''-'' \<and> p ! 1 \<noteq> CHR '']'')" "bracket_items p = Some (rs', rest)" for rs'
    using "2.IH"(2) [OF that] .
  ultimately show ?case
    using "2.prems" by (fastforce simp: bracket_items.simps(2) split: if_splits)
qed simp

lemma bracket_of_length: "bracket_of p = Some (P, rest) \<Longrightarrow> length rest < length p"
  by (cases p) (auto simp: bracket_of_def bracket_ranges_def dest!: bracket_items_length split: if_splits)

function simple_tokens :: "string \<Rightarrow> glob_token list" where
  "simple_tokens [] = []"
| "simple_tokens (c # p) =
     (if c = CHR ''?'' then OneOf (\<lambda>_. True) # simple_tokens p
      else if c = CHR ''*'' then AnySeq # simple_tokens p
      else if c = CHR ''['' then
        (case bracket_of p of
           Some (P, rest) \<Rightarrow> OneOf P # simple_tokens rest
         | None \<Rightarrow> OneOf ((=) c) # simple_tokens p)
      else OneOf ((=) c) # simple_tokens p)"
  by pat_completeness auto
termination by (relation "measure length") (auto dest: bracket_of_length)

declare simple_tokens.simps(2) [simp del]

text \<open>The index loop over a class reads the same items as the list function.\<close>

lemma bracket_scan_items:
  "members \<noteq> 0 \<or> (i < length p \<and> p ! i \<noteq> CHR '']'') \<Longrightarrow> i \<le> length p \<Longrightarrow>
     bracket_scan p c negated i members matched =
       (case bracket_items (drop i p) of
          None \<Rightarrow> ClassInvalid
        | Some (rs, rest) \<Rightarrow>
            if (matched \<or> in_ranges rs c) \<noteq> negated then ClassMatched (length p - length rest) else ClassNoMatch)"
proof (induction p c negated i members matched rule: bracket_scan.induct)
  case (1 p c negated i members matched)
  show ?case
  proof (cases "i < length p")
    case True
    then have d: "drop i p = p ! i # drop (Suc i) p" by (simp add: Cons_nth_drop_Suc)
    have item: "bracket_items (drop i p) =
        (if p ! i = CHR '']'' then Some ([], drop (Suc i) p)
         else if i + 2 < length p \<and> p ! (i + 1) = CHR ''-'' \<and> p ! (i + 2) \<noteq> CHR '']''
         then map_option (\<lambda>(rs, rest). ((p ! i, p ! (i + 2)) # rs, rest)) (bracket_items (drop (i + 3) p))
         else map_option (\<lambda>(rs, rest). ((p ! i, p ! i) # rs, rest)) (bracket_items (drop (i + 1) p)))"
      unfolding d by (subst bracket_items.simps) (auto simp: eval_nat_numeral)
    have eqc: "p ! i \<le> c \<and> c \<le> p ! i \<longleftrightarrow> p ! i = c" by auto
    show ?thesis
      unfolding item using 1 True
      by (subst bracket_scan.simps)
        (auto simp: in_ranges_Cons in_ranges_Nil eqc option.case_eq_if case_prod_beta option.map_sel)
  qed (use 1 in \<open>simp add: bracket_scan.simps\<close>)
qed

lemma in_bracket_c: "c \<le> CHR '']'' \<and> CHR '']'' \<le> c \<longleftrightarrow> c = CHR '']''"
  by auto

lemma bracket_class_items:
  assumes "pi < length p"
  shows "bracket_class_matches p pi c =
    (case bracket_of (drop (Suc pi) p) of
       None \<Rightarrow> ClassInvalid
     | Some (P, rest) \<Rightarrow> if P c then ClassMatched (length p - length rest) else ClassNoMatch)"
proof -
  have ranges: "(if i < length p \<and> p ! i = CHR '']'' then bracket_scan p c negated (i + 1) 1 (c = CHR '']'')
      else bracket_scan p c negated i 0 False) =
      (case bracket_ranges (drop i p) of
         None \<Rightarrow> ClassInvalid
       | Some (rs, rest) \<Rightarrow>
           if in_ranges rs c \<noteq> negated then ClassMatched (length p - length rest) else ClassNoMatch)"
    if "i \<le> length p" for i negated
  proof (cases "i < length p")
    case True
    then have d: "drop i p \<noteq> []" "hd (drop i p) = p ! i" "tl (drop i p) = drop (i + 1) p"
      by (simp_all add: hd_drop_conv_nth tl_drop drop_Suc [symmetric] drop_tl [symmetric])
    show ?thesis
    proof (cases "p ! i = CHR '']''")
      case bracket: True
      have "c = CHR '']'' \<or> in_ranges rs c \<longleftrightarrow> in_ranges ((CHR '']'', CHR '']'') # rs) c" for rs
        by (auto simp: in_ranges_Cons)
      then show ?thesis
        using True bracket bracket_scan_items [of 1 "i + 1" p c negated "c = CHR '']''"] d
        by (simp add: bracket_ranges_def option.case_eq_if case_prod_beta option.map_sel)
    next
      case False
      then show ?thesis
        using True bracket_scan_items [of 0 i p c negated False] d
        by (simp add: bracket_ranges_def option.case_eq_if case_prod_beta)
    qed
  qed (use that in \<open>simp add: bracket_scan.simps bracket_ranges_def\<close>)
  show ?thesis
  proof (cases "pi + 1 < length p \<and> (p ! (pi + 1) = CHR ''!'' \<or> p ! (pi + 1) = CHR ''^'')")
    case True
    then have "drop (Suc pi) p \<noteq> []" "hd (drop (Suc pi) p) = p ! (pi + 1)" "tl (drop (Suc pi) p) = drop (pi + 2) p"
      by (simp_all add: hd_drop_conv_nth tl_drop drop_Suc [symmetric] drop_tl [symmetric])
    moreover have "bracket_class_matches p pi c =
        (case bracket_ranges (drop (pi + 2) p) of
           None \<Rightarrow> ClassInvalid
         | Some (rs, rest) \<Rightarrow>
             if in_ranges rs c \<noteq> True then ClassMatched (length p - length rest) else ClassNoMatch)"
      unfolding bracket_class_matches_def Let_def using True ranges [of "pi + 2" True] by (simp only: if_True simp_thms) simp
    ultimately show ?thesis
      using True by (cases "bracket_ranges (drop (pi + 2) p)") (auto simp: bracket_of_def)
  next
    case False
    then have "\<not> (drop (Suc pi) p \<noteq> [] \<and> (hd (drop (Suc pi) p) = CHR ''!'' \<or> hd (drop (Suc pi) p) = CHR ''^''))"
      by (auto simp: hd_drop_conv_nth)
    moreover have "bracket_class_matches p pi c =
        (case bracket_ranges (drop (pi + 1) p) of
           None \<Rightarrow> ClassInvalid
         | Some (rs, rest) \<Rightarrow>
             if in_ranges rs c \<noteq> False then ClassMatched (length p - length rest) else ClassNoMatch)"
      unfolding bracket_class_matches_def Let_def using False assms ranges [of "pi + 1" False] by (simp only: if_False simp_thms)
    ultimately show ?thesis
      by (cases "bracket_ranges (drop (pi + 1) p)") (auto simp: bracket_of_def)
  qed
qed

lemma bracket_items_suffix: "bracket_items p = Some (rs, rest) \<Longrightarrow> suffix rest p"
proof (induction p arbitrary: rs rule: bracket_items.induct)
  case (2 a p)
  have "suffix rest p"
    if "a \<noteq> CHR '']''" "2 \<le> length p \<and> p ! 0 = CHR ''-'' \<and> p ! 1 \<noteq> CHR '']''" "bracket_items (drop 2 p) = Some (rs', rest)" for rs'
    using "2.IH"(1) [OF that] suffix_drop [of 2 p] suffix_order.trans by blast
  moreover have "suffix rest p"
    if "a \<noteq> CHR '']''" "\<not> (2 \<le> length p \<and> p ! 0 = CHR ''-'' \<and> p ! 1 \<noteq> CHR '']'')" "bracket_items p = Some (rs', rest)" for rs'
    using "2.IH"(2) [OF that] .
  ultimately show ?case
    using "2.prems" by (fastforce simp: bracket_items.simps(2) suffix_Cons split: if_splits)
qed simp

lemma bracket_of_suffix: "bracket_of p = Some (P, rest) \<Longrightarrow> suffix rest p"
  by (cases p)
    (auto simp: bracket_of_def bracket_ranges_def suffix_Cons dest!: bracket_items_suffix split: if_splits;
     metis list.exhaust_sel list.sel(2) suffix_Cons)+

lemma simple_tokens_drop:
  assumes "pi < length p"
  shows "simple_tokens (drop pi p) = simple_tokens (p ! pi # drop (Suc pi) p)"
  using assms by (simp add: Cons_nth_drop_Suc)

definition simple_step :: "string \<Rightarrow> nat \<Rightarrow> char \<Rightarrow> glob_pattern_step" where
  "simple_step p pi c =
     (if pi < length p \<and> p ! pi = CHR ''*'' then Star
      else (case match_single p pi c of Some n \<Rightarrow> Consume n | None \<Rightarrow> Mismatch))"

lemma suffix_as_drop: "suffix rest p \<Longrightarrow> drop (length p - length rest) p = rest"
  by (auto simp: suffix_def)

lemma match_single_tokens:
  assumes "p ! pi \<noteq> CHR ''*''" "pi < length p"
  shows "\<exists>P rest. simple_tokens (drop pi p) = OneOf P # rest \<and>
    (case match_single p pi c of Some n \<Rightarrow> P c \<and> rest = simple_tokens (drop n p) | None \<Rightarrow> \<not> P c)"
proof (cases "p ! pi = CHR ''['' \<and> bracket_of (drop (Suc pi) p) \<noteq> None")
  case True
  then obtain P rest where b: "bracket_of (drop (Suc pi) p) = Some (P, rest)" by auto
  have "suffix rest p"
    using bracket_of_suffix [OF b] suffix_drop [of "Suc pi" p] suffix_order.trans by blast
  then have "drop (length p - length rest) p = rest" by (rule suffix_as_drop)
  then show ?thesis
    using True b bracket_class_items [OF assms(2), of c] simple_tokens_drop [OF assms(2)] assms
    by (simp add: match_single_def simple_tokens.simps(2))
next
  case False
  then have "bracket_of (drop (Suc pi) p) = None" if "p ! pi = CHR ''[''" using that by blast
  then show ?thesis
    using bracket_class_items [OF assms(2), of c] simple_tokens_drop [OF assms(2)] assms
    by (cases "p ! pi = CHR ''?''"; cases "p ! pi = CHR ''[''") (auto simp: match_single_def simple_tokens.simps(2))
qed

lemma skip_stars_simple:
  "pi \<le> length p \<Longrightarrow> skip_stars p pi = length p \<longleftrightarrow> [] \<in> glob_lang (simple_tokens (drop pi p))"
proof (induction p pi rule: skip_stars.induct)
  case (1 p pi)
  show ?case
  proof (cases "pi < length p")
    case True
    then have "p ! pi \<noteq> CHR ''*'' \<Longrightarrow> \<exists>P ts. simple_tokens (drop pi p) = OneOf P # ts"
      using match_single_tokens [of p pi] by blast
    moreover have "p ! pi = CHR ''*'' \<Longrightarrow> simple_tokens (drop pi p) = AnySeq # simple_tokens (drop (Suc pi) p)"
      using True simple_tokens_drop [of pi p] by (simp add: simple_tokens.simps(2))
    ultimately show ?thesis
      using 1 True by (subst skip_stars.simps) auto
  qed (use 1 in \<open>simp add: skip_stars.simps\<close>)
qed

interpretation value_matcher: backtracking_matcher "length p" "\<lambda>pi. simple_tokens (drop pi p)" "simple_step p"
  "\<lambda>pi. skip_stars p pi = length p" name "simple_glob_loop p name" for p name
proof unfold_locales
  show "simple_glob_loop p name pi ni star =
     (if ni < length name then
        (case simple_step p pi (name ! ni) of
           Star \<Rightarrow> simple_glob_loop p name (pi + 1) ni (Some (pi, ni))
         | Consume new_pi \<Rightarrow> simple_glob_loop p name new_pi (ni + 1) star
         | Class new_pi True \<Rightarrow> simple_glob_loop p name new_pi (ni + 1) star
         | _ \<Rightarrow>
             (case star of
                None \<Rightarrow> False
              | Some (star_pi, star_ni) \<Rightarrow>
                  simple_glob_loop p name (star_pi + 1) (star_ni + 1) (Some (star_pi, star_ni + 1))))
      else skip_stars p pi = length p)" for pi ni star
    by (subst simple_glob_loop.simps) (simp add: simple_step_def split: option.splits)
next
  fix pi c
  assume star: "simple_step p pi c = Star"
  then have "pi < length p" "p ! pi = CHR ''*''" by (auto simp: simple_step_def split: if_splits option.splits)
  then show "pi < length p \<and> simple_tokens (drop pi p) = AnySeq # simple_tokens (drop (pi + 1) p)"
    using simple_tokens_drop [of pi p] by (simp add: simple_tokens.simps(2))
next
  fix pi c n
  assume "simple_step p pi c = Consume n"
  then have s: "match_single p pi c = Some n" "\<not> (pi < length p \<and> p ! pi = CHR ''*'')"
    by (auto simp: simple_step_def split: if_splits option.splits)
  then show "pi < n \<and> n \<le> length p \<and> (\<exists>P. P c \<and> simple_tokens (drop pi p) = OneOf P # simple_tokens (drop n p))"
    using match_single_bound [OF s(1)] match_single_tokens [of p pi c] by fastforce
next
  fix pi c
  assume "simple_step p pi c = Mismatch"
  then have s: "match_single p pi c = None" "\<not> (pi < length p \<and> p ! pi = CHR ''*'')"
    by (auto simp: simple_step_def split: if_splits option.splits)
  then show "simple_tokens (drop pi p) = [] \<or> (\<exists>P ts. \<not> P c \<and> simple_tokens (drop pi p) = OneOf P # ts)"
    using match_single_tokens [of p pi c] by (cases "pi < length p") fastforce+
qed (auto simp: skip_stars_simple simple_step_def split: if_splits option.splits)

lemma simple_glob_match_iff: "simple_glob_match p s \<longleftrightarrow> s \<in> glob_lang (simple_tokens p)"
  using value_matcher.matches [of p s] by (simp add: simple_glob_match_def)

section \<open>Prefixes and suffixes\<close>

text \<open>
  The loops over the cuts of a value: the text at each of them is matched, and a match replaces the
  one chosen so far if it is better.
\<close>

fun scan_cuts ::
  "(nat \<Rightarrow> (string, unit) result) \<Rightarrow> (nat \<Rightarrow> nat \<Rightarrow> bool) \<Rightarrow> string \<Rightarrow> nat list \<Rightarrow> nat option \<Rightarrow> (nat option, unit) result" where
  "scan_cuts part better pattern [] chosen = Ok chosen"
| "scan_cuts part better pattern (i # is) chosen =
     result_bind (part i) (\<lambda>s.
       scan_cuts part better pattern is
         (if simple_glob_match pattern s \<and> (case chosen of None \<Rightarrow> True | Some best \<Rightarrow> better i best)
          then Some i else chosen))"

definition strip_prefix_glob :: "string \<Rightarrow> string \<Rightarrow> bool \<Rightarrow> (string option, unit) result" where
  "strip_prefix_glob val pattern greedy =
     result_bind
       (scan_cuts (str_slice val 0) (\<lambda>i best. if greedy then best < i else i < best) pattern [0..<Suc (length val)] None)
       (\<lambda>chosen.
          case chosen of
            None \<Rightarrow> Ok None
          | Some i \<Rightarrow> result_bind (str_slice val i (length val)) (\<lambda>s. Ok (Some s)))"

definition strip_suffix_glob :: "string \<Rightarrow> string \<Rightarrow> bool \<Rightarrow> (string option, unit) result" where
  "strip_suffix_glob val pattern greedy =
     result_bind
       (scan_cuts (\<lambda>i. str_slice val i (length val)) (\<lambda>i best. if greedy then i < best else best < i) pattern
          [0..<Suc (length val)] None)
       (\<lambda>chosen.
          case chosen of
            None \<Rightarrow> Ok None
          | Some i \<Rightarrow> result_bind (str_slice val 0 i) (\<lambda>s. Ok (Some s)))"

definition glob_match_at_start :: "string \<Rightarrow> string \<Rightarrow> (nat option, unit) result" where
  "glob_match_at_start val pattern =
     scan_cuts (str_slice val 0) (\<lambda>_ _. True) pattern [0..<Suc (length val)] None"

definition glob_match_at_end :: "string \<Rightarrow> string \<Rightarrow> (nat option, unit) result" where
  "glob_match_at_end val pattern =
     scan_cuts (\<lambda>i. str_slice val i (length val)) (\<lambda>_ _. True) pattern (rev [0..<Suc (length val)]) None"

section \<open>Substitution\<close>

definition is_glob_pattern :: "string \<Rightarrow> bool" where
  "is_glob_pattern pattern \<longleftrightarrow> CHR ''*'' \<in> set pattern \<or> CHR ''?'' \<in> set pattern \<or> CHR ''['' \<in> set pattern"

text \<open>The first of the given ends at which the text from a start matches.\<close>

fun first_end :: "string \<Rightarrow> string \<Rightarrow> nat \<Rightarrow> nat list \<Rightarrow> (nat option, unit) result" where
  "first_end val pattern start [] = Ok None"
| "first_end val pattern start (e # es) =
     result_bind (str_slice val start e) (\<lambda>s.
       if simple_glob_match pattern s then Ok (Some e) else first_end val pattern start es)"

fun first_start :: "string \<Rightarrow> string \<Rightarrow> nat list \<Rightarrow> ((nat \<times> nat) option, unit) result" where
  "first_start val pattern [] = Ok None"
| "first_start val pattern (start # starts) =
     result_bind (first_end val pattern start [start..<Suc (length val)]) (\<lambda>found.
       case found of
         Some e \<Rightarrow> Ok (Some (start, e))
       | None \<Rightarrow> first_start val pattern starts)"

definition glob_find_first :: "string \<Rightarrow> string \<Rightarrow> ((nat \<times> nat) option, unit) result" where
  "glob_find_first val pattern =
     (if pattern = [] then Ok (Some (0, 0)) else first_start val pattern [0..<Suc (length val)])"

text \<open>
  \<open>str::replacen(pattern, rep, 1)\<close> and \<open>str::replace\<close>; the empty pattern is found at every
  character boundary.
\<close>

definition replace_first :: "string \<Rightarrow> string \<Rightarrow> string \<Rightarrow> string" where
  "replace_first val pat rep =
     (case find_str pat val of
        None \<Rightarrow> val
      | Some i \<Rightarrow> take i val @ rep @ drop (i + length pat) val)"

function replace_each :: "string \<Rightarrow> string \<Rightarrow> string \<Rightarrow> string" where
  "replace_each pat rep s =
     (if s = [] then []
      else if pat \<noteq> [] \<and> prefix pat s then rep @ replace_each pat rep (drop (length pat) s)
      else hd s # replace_each pat rep (tl s))"
  by pat_completeness auto
termination by (relation "measure (\<lambda>(pat, rep, s). length s)") auto

declare replace_each.simps [simp del]

definition replace_all :: "string \<Rightarrow> string \<Rightarrow> string \<Rightarrow> string" where
  "replace_all val pat rep =
     (if pat = [] then rep @ concat (map (\<lambda>c. encode_utf8 c @ rep) (str_chars val))
      else replace_each pat rep val)"

definition glob_replace_first :: "string \<Rightarrow> string \<Rightarrow> string \<Rightarrow> (string, unit) result" where
  "glob_replace_first val pattern rep =
     (if \<not> is_glob_pattern pattern then Ok (replace_first val pattern rep)
      else
        result_bind (glob_find_first val pattern) (\<lambda>found.
          case found of
            None \<Rightarrow> Ok val
          | Some (start, stop) \<Rightarrow>
              result_bind (str_slice val 0 start) (\<lambda>before.
                result_bind (str_slice val stop (length val)) (\<lambda>after. Ok (before @ rep @ after)))))"

text \<open>The loop of \<open>glob_replace_all\<close>; a byte that is not replaced is pushed as a character of its own.\<close>

lemma first_end_in: "first_end val pattern start es = Ok (Some e) \<Longrightarrow> e \<in> set es"
proof (induction es)
  case (Cons a es)
  then show ?case by (cases "str_slice val start a :: (string, unit) result") (auto split: if_splits)
qed simp

function replace_loop :: "string \<Rightarrow> string \<Rightarrow> string \<Rightarrow> nat \<Rightarrow> string \<Rightarrow> (string, unit) result" where
  "replace_loop val pattern rep pos out =
     (if pos \<le> length val then
        (case first_end val pattern pos [pos..<Suc (length val)] of
           Ok (Some e) \<Rightarrow> replace_loop val pattern rep (if e = pos then e + 1 else e) (out @ rep)
         | Ok None \<Rightarrow>
             replace_loop val pattern rep (pos + 1)
               (if pos < length val then out @ encode_utf8 (of_char (val ! pos)) else out)
         | Err e \<Rightarrow> Err e
         | Panic m \<Rightarrow> Panic m)
      else Ok out)"
  by pat_completeness auto
termination
proof (relation "measure (\<lambda>(val, pattern, rep, pos, out). Suc (length val) - pos)")
  fix val pattern rep out :: string and pos :: nat and x y e
  assume "pos \<le> length val" "first_end val pattern pos [pos..<Suc (length val)] = Ok x" "x = Some e"
  then have "pos \<le> e" using first_end_in by fastforce
  then show "((val, pattern, rep, if e = pos then e + 1 else e, out @ rep), val, pattern, rep, pos, out)
      \<in> measure (\<lambda>(val, pattern, rep, pos, out). Suc (length val) - pos)"
    using \<open>pos \<le> length val\<close> by auto
qed auto

declare replace_loop.simps [simp del]

definition glob_replace_all :: "string \<Rightarrow> string \<Rightarrow> string \<Rightarrow> (string, unit) result" where
  "glob_replace_all val pattern rep =
     (if \<not> is_glob_pattern pattern then Ok (replace_all val pattern rep)
      else replace_loop val pattern rep 0 [])"

datatype subst_anchor = AnchorStart | AnchorEnd | AnchorNone

text \<open>The first part of a split at slashes.\<close>

definition before_slash :: "string \<Rightarrow> string" where
  "before_slash s = takeWhile (\<lambda>c. c \<noteq> CHR ''/'') s"

definition parse_subst_anchor :: "string \<Rightarrow> subst_anchor \<times> string" where
  "parse_subst_anchor rest =
     (case rest of
        c # p \<Rightarrow>
          if c = CHR ''#'' then (AnchorStart, before_slash p)
          else if c = CHR ''%'' then (AnchorEnd, before_slash p)
          else (AnchorNone, [])
      | [] \<Rightarrow> (AnchorNone, []))"

definition split_slash :: "string \<Rightarrow> string \<times> string" where
  "split_slash s =
     (case find_char CHR ''/'' s of
        Some sep \<Rightarrow> (take sep s, drop (sep + 1) s)
      | None \<Rightarrow> (s, []))"

definition parse_subst_pat_rep :: "string \<Rightarrow> subst_anchor \<Rightarrow> string \<times> string" where
  "parse_subst_pat_rep rest anchor =
     (case anchor of
        AnchorNone \<Rightarrow> split_slash rest
      | _ \<Rightarrow> split_slash (if rest \<noteq> [] \<and> (hd rest = CHR ''#'' \<or> hd rest = CHR ''%'') then tl rest else rest))"

definition substitution_at_start :: "string \<Rightarrow> string \<Rightarrow> string \<Rightarrow> (string, unit) result" where
  "substitution_at_start val pattern rep =
     result_bind (glob_match_at_start val pattern) (\<lambda>found.
       case found of
         None \<Rightarrow> Ok val
       | Some n \<Rightarrow> result_bind (str_slice val n (length val)) (\<lambda>s. Ok (rep @ s)))"

definition substitution_at_end :: "string \<Rightarrow> string \<Rightarrow> string \<Rightarrow> (string, unit) result" where
  "substitution_at_end val pattern rep =
     result_bind (glob_match_at_end val pattern) (\<lambda>found.
       case found of
         None \<Rightarrow> Ok val
       | Some n \<Rightarrow> result_bind (str_slice val 0 n) (\<lambda>s. Ok (s @ rep)))"

definition substitution_unanchored :: "string \<Rightarrow> string \<Rightarrow> string \<Rightarrow> bool \<Rightarrow> (string, unit) result" where
  "substitution_unanchored val pat rep global =
     (if global then glob_replace_all val pat rep else glob_replace_first val pat rep)"

definition substitution_result ::
  "string \<Rightarrow> subst_anchor \<Rightarrow> string \<Rightarrow> string \<Rightarrow> string \<Rightarrow> bool \<Rightarrow> (string, unit) result" where
  "substitution_result val anchor pat_str pat rep global =
     (case anchor of
        AnchorStart \<Rightarrow> substitution_at_start val pat_str rep
      | AnchorEnd \<Rightarrow> substitution_at_end val pat_str rep
      | AnchorNone \<Rightarrow> substitution_unanchored val pat rep global)"

end
