(* ===== verification/Expand.thy ===== *)
theory Expand
  imports Expand_Glob Arith Ast
begin

text \<open>
  Parameter expansion (\<^verbatim>\<open>wasmsh-expand/lib.rs\<close>): arrays, lengths, indirection, case, transformations,
  substitution, substrings, defaults and the removal of prefixes and suffixes; and the expansion of
  words into fields.  Texts that the code appends to its output are results; \<open>Err\<close> is an expansion
  that does not return (an assignment through a cycle of namerefs).  Slices of names are next to
  ASCII characters.
\<close>

section \<open>Strings and numbers\<close>

definition is_valid_identifier :: "string \<Rightarrow> bool" where
  "is_valid_identifier name \<longleftrightarrow> name \<noteq> [] \<and> list_all name_byte name"

definition strip_suffix :: "string \<Rightarrow> string \<Rightarrow> string option" where
  "strip_suffix suf s = (if suffix suf s then Some (take (length s - length suf) s) else None)"

definition starts_with :: "char \<Rightarrow> string \<Rightarrow> bool" where
  "starts_with c s \<longleftrightarrow> s \<noteq> [] \<and> hd s = c"

text \<open>\<open>str::split_once(':')\<close>.\<close>

definition split_colon :: "string \<Rightarrow> string \<times> string option" where
  "split_colon s =
     (case find_char CHR '':'' s of
        Some i \<Rightarrow> (take i s, Some (drop (i + 1) s))
      | None \<Rightarrow> (s, None))"

text \<open>\<open>str::parse::<i128>\<close>, and \<open>i128\<close> and \<open>i64\<close> sums that wrap around.\<close>

definition parse_i128 :: "string \<Rightarrow> int option" where
  "parse_i128 s =
     (let (neg, d) = strip_sign s in
      if d \<noteq> [] \<and> list_all is_digit d then
        (let n = int (digits_val d) in
         if neg then (if n \<le> 2 ^ 127 then Some (- n) else None)
         else (if n < 2 ^ 127 then Some n else None))
      else None)"

definition wrap_i128 :: "int \<Rightarrow> int" where
  "wrap_i128 i = (i + 2 ^ 127) mod 2 ^ 128 - 2 ^ 127"

definition wrap_i64 :: "int \<Rightarrow> int" where
  "wrap_i64 i = (i + 2 ^ 63) mod 2 ^ 64 - 2 ^ 63"

definition usize_from :: "int \<Rightarrow> nat option" where
  "usize_from i = (if 0 \<le> i \<and> i < 2 ^ 32 then Some (nat i) else None)"

text \<open>An unhandled form is \<open>None\<close>.\<close>

type_synonym attempt = "shell_state \<Rightarrow> shell_state \<times> string option"

section \<open>Arrays\<close>

definition strip_array_glob_suffix :: "string \<Rightarrow> string option" where
  "strip_array_glob_suffix s =
     (case (case strip_suffix ''[@]'' s of Some b \<Rightarrow> Some b | None \<Rightarrow> strip_suffix ''[*]'' s) of
        None \<Rightarrow> None
      | Some base \<Rightarrow> if base = [] then None else Some base)"

text \<open>The name before the first bracket, the text up to the next closing one, and what follows.\<close>

definition subscript :: "string \<Rightarrow> (string \<times> string \<times> string) option" where
  "subscript name =
     (case find_char CHR ''['' name of
        None \<Rightarrow> None
      | Some b \<Rightarrow>
          (case find_char CHR '']'' (drop b name) of
             None \<Rightarrow> None
           | Some e \<Rightarrow> Some (take b name, take (e - 1) (drop (b + 1) name), drop (b + e + 1) name)))"

definition apply_array_slice :: "string list \<Rightarrow> string \<Rightarrow> string list" where
  "apply_array_slice vals slice_spec =
     (let (offset_str, length_str) =
            (trim (fst (split_colon slice_spec)), map_option trim (snd (split_colon slice_spec)));
          len = int (length vals);
          offset = (case parse_i128 offset_str of None \<Rightarrow> 0 | Some n \<Rightarrow> n);
          offset = max (if offset < 0 then offset + len else offset) 0;
          start = (case usize_from (min offset len) of None \<Rightarrow> 0 | Some n \<Rightarrow> n);
          end_idx =
            (case length_str of
               Some spec \<Rightarrow>
                 (let count = (case parse_i128 spec of None \<Rightarrow> len | Some n \<Rightarrow> n) in
                  if count < 0 then (case usize_from (max (len + count) offset) of None \<Rightarrow> start | Some n \<Rightarrow> n)
                  else (case usize_from (min (wrap_i128 (offset + count)) len) of None \<Rightarrow> length vals | Some n \<Rightarrow> n))
             | None \<Rightarrow> length vals);
          lo = min start (length vals);
          hi = max (min end_idx (length vals)) lo
      in take (hi - lo) (drop lo vals))"

definition try_expand_array_length_or_keys :: "string \<Rightarrow> shell_state \<Rightarrow> string option" where
  "try_expand_array_length_or_keys name st =
     (case (if starts_with CHR ''#'' name then strip_array_glob_suffix (tl name) else None) of
        Some base \<Rightarrow> Some (show_nat (get_array_length st base))
      | None \<Rightarrow>
          (case (if starts_with CHR ''!'' name then strip_array_glob_suffix (tl name) else None) of
             Some base \<Rightarrow> Some (join_with '' '' (get_array_keys st base))
           | None \<Rightarrow> None))"

definition try_expand_array_slice :: "string \<Rightarrow> shell_state \<Rightarrow> string option" where
  "try_expand_array_slice name st =
     (case subscript name of
        None \<Rightarrow> None
      | Some (base, index, after) \<Rightarrow>
          if base = [] \<or> \<not> is_valid_identifier base \<or> (index \<noteq> ''@'' \<and> index \<noteq> ''*'') then None
          else if \<not> starts_with CHR '':'' after then None
          else Some (join_with '' '' (apply_array_slice (get_array_values st base) (tl after))))"

definition array_multi_expansion :: "string \<Rightarrow> shell_state \<Rightarrow> string list option" where
  "array_multi_expansion name st =
     (if name = ''@'' then Some (positional st)
      else
        (case subscript name of
           None \<Rightarrow> None
         | Some (base, index, after) \<Rightarrow>
             if index \<noteq> ''@'' then None
             else
               (let is_keys = starts_with CHR ''!'' base;
                    base = (if is_keys then tl base else base)
                in if base = [] \<or> starts_with CHR ''#'' base then None
                   else
                     (let elements = (if is_keys then get_array_keys st base else get_array_values st base)
                      in Some (if starts_with CHR '':'' after then apply_array_slice elements (tl after)
                               else elements)))))"

definition try_expand_array_all_values :: "string \<Rightarrow> shell_state \<Rightarrow> string option" where
  "try_expand_array_all_values name st =
     map_option (\<lambda>base. join_with '' '' (get_array_values st base)) (strip_array_glob_suffix name)"

text \<open>The index is expanded first when it has a \<open>$\<close>; \<open>ex\<close> is \<open>expand_string\<close>.\<close>

definition try_expand_array_single_element ::
  "expander \<Rightarrow> string \<Rightarrow> shell_state \<Rightarrow> (shell_state \<times> string option, unit) result" where
  "try_expand_array_single_element ex name st =
     (case subscript name of
        None \<Rightarrow> Ok (st, None)
      | Some (base, index, after) \<Rightarrow>
          if base = [] \<or> index = [] \<or> \<not> is_valid_identifier base then Ok (st, None)
          else
            result_bind (if CHR ''$'' \<in> set index then ex index st else Ok (st, index)) (\<lambda>(st1, expanded).
              Ok (st1, Some (case get_array_element st1 base expanded of None \<Rightarrow> [] | Some v \<Rightarrow> v))))"

definition try_expand_array_subscript ::
  "expander \<Rightarrow> string \<Rightarrow> shell_state \<Rightarrow> (shell_state \<times> string option, unit) result" where
  "try_expand_array_subscript ex name st =
     (case try_expand_array_length_or_keys name st of
        Some out \<Rightarrow> Ok (st, Some out)
      | None \<Rightarrow>
          (case try_expand_array_slice name st of
             Some out \<Rightarrow> Ok (st, Some out)
           | None \<Rightarrow>
               (case try_expand_array_all_values name st of
                  Some out \<Rightarrow> Ok (st, Some out)
                | None \<Rightarrow> try_expand_array_single_element ex name st)))"

section \<open>Lengths and indirection\<close>

definition try_expand_string_length :: "string \<Rightarrow> attempt" where
  "try_expand_string_length name st =
     (if starts_with CHR ''#'' name \<and> tl name \<noteq> [] then
        (if tl name = ''@'' \<or> tl name = ''*'' then (st, Some (show_nat (length (positional st))))
         else
           (let (st1, v) = get_var st (tl name)
            in (st1, Some (show_nat (case v of None \<Rightarrow> 0 | Some s \<Rightarrow> length s)))))
      else (st, None))"

definition try_expand_indirect_or_prefix :: "string \<Rightarrow> attempt" where
  "try_expand_indirect_or_prefix name st =
     (if starts_with CHR ''!'' name then
        (let rest = tl name;
             pre = (case strip_suffix ''*'' rest of Some p \<Rightarrow> Some p | None \<Rightarrow> strip_suffix ''@'' rest)
         in if pre \<noteq> None \<and> is_valid_identifier (the pre)
            then (st, Some (join_with '' '' (var_names_with_prefix st (the pre))))
            else if is_valid_identifier rest then
              (let (st1, v) = get_var st rest in
               case v of
                 None \<Rightarrow> (st1, Some [])
               | Some indirect \<Rightarrow>
                   (let (st2, v2) = get_var st1 indirect in (st2, Some (case v2 of None \<Rightarrow> [] | Some s \<Rightarrow> s))))
            else (st, None))
      else (st, None))"

section \<open>Case and transformations\<close>

text \<open>The case tables of the standard library, for characters and for strings.\<close>

record case_fns =
  char_upper :: "scalar \<Rightarrow> scalar list"
  char_lower :: "scalar \<Rightarrow> scalar list"
  str_upper :: "string \<Rightarrow> string"
  str_lower :: "string \<Rightarrow> string"

definition transform_first_char :: "(scalar \<Rightarrow> scalar list) \<Rightarrow> string \<Rightarrow> string" where
  "transform_first_char f s =
     (case str_chars s of
        [] \<Rightarrow> []
      | c # cs \<Rightarrow> encode_str (f c) @ encode_str cs)"

definition parse_case_modifier :: "string \<Rightarrow> string option" where
  "parse_case_modifier rest =
     (if prefix ''^^'' rest then Some ''^^''
      else if prefix ''^'' rest then Some ''^''
      else if prefix '',,'' rest then Some '',,''
      else if prefix '','' rest then Some '',''
      else None)"

definition try_case_modification :: "case_fns \<Rightarrow> string \<Rightarrow> attempt" where
  "try_case_modification cf name st =
     (let var_name = takeWhile name_byte name; rest = dropWhile name_byte name in
      if var_name = [] \<or> rest = [] then (st, None)
      else
        (case parse_case_modifier rest of
           None \<Rightarrow> (st, None)
         | Some modifier \<Rightarrow>
             (let (st1, v) = get_var st var_name in
              case v of
                None \<Rightarrow> (st1, None)
              | Some val \<Rightarrow>
                  (st1, Some (if modifier = ''^'' then transform_first_char (char_upper cf) val
                              else if modifier = ''^^'' then str_upper cf val
                              else if modifier = '','' then transform_first_char (char_lower cf) val
                              else str_lower cf val)))))"

definition simple_escape_char :: "char \<Rightarrow> char option" where
  "simple_escape_char b =
     (if b = CHR ''n'' then Some (CHR 0x0A)
      else if b = CHR ''t'' then Some (CHR 0x09)
      else if b = CHR ''r'' then Some (CHR 0x0D)
      else if b = CHR ''a'' then Some (CHR 0x07)
      else if b = CHR ''b'' then Some (CHR 0x08)
      else if b = CHR ''e'' \<or> b = CHR ''E'' then Some (CHR 0x1B)
      else if b = CHR ''f'' then Some (CHR 0x0C)
      else if b = CHR ''v'' then Some (CHR 0x0B)
      else if b = CHR 0x5C \<or> b = CHR 0x27 \<or> b = CHR 0x22 then Some b
      else None)"

text \<open>\<open>u8::from_str_radix(..).unwrap_or(0)\<close> on digits of the radix.\<close>

definition byte_radix :: "nat \<Rightarrow> string \<Rightarrow> nat" where
  "byte_radix radix d = (case radix_val radix 0 d of Some n \<Rightarrow> if n < 256 then n else 0 | None \<Rightarrow> 0)"

text \<open>The character of \<open>\0NNN\<close> and the text behind it, from behind the zero.\<close>

definition parse_octal_escape :: "string \<Rightarrow> string \<times> string" where
  "parse_octal_escape rest =
     (let d = takeWhile (\<lambda>c. CHR ''0'' \<le> c \<and> c \<le> CHR ''7'') (take 3 rest) in
      if d \<noteq> [] then (encode_utf8 (byte_radix 8 d), drop (length d) rest) else ([CHR 0x00], rest))"

text \<open>Likewise \<open>\xNN\<close>, which is kept when no digit follows.\<close>

definition parse_hex_escape :: "string \<Rightarrow> string \<times> string" where
  "parse_hex_escape rest =
     (let d = takeWhile is_hexdigit (take 2 rest) in
      if d \<noteq> [] then (encode_utf8 (byte_radix 16 d), drop (length d) rest) else ([CHR 0x5C, CHR ''x''], rest))"

lemma escape_shorter:
  "length (snd (parse_octal_escape rest)) \<le> length rest" "length (snd (parse_hex_escape rest)) \<le> length rest"
  by (simp_all add: parse_octal_escape_def parse_hex_escape_def Let_def)

definition byte_as_char :: "char \<Rightarrow> string" where
  "byte_as_char b = encode_utf8 (of_char b)"

function expand_backslash_escapes :: "string \<Rightarrow> string" where
  "expand_backslash_escapes [] = []"
| "expand_backslash_escapes [b] = byte_as_char b"
| "expand_backslash_escapes (b # c # rest) =
     (if b \<noteq> CHR 0x5C then byte_as_char b @ expand_backslash_escapes (c # rest)
      else
        (case simple_escape_char c of
           Some ch \<Rightarrow> ch # expand_backslash_escapes rest
         | None \<Rightarrow>
             if c = CHR ''0'' then fst (parse_octal_escape rest) @ expand_backslash_escapes (snd (parse_octal_escape rest))
             else if c = CHR ''x'' then fst (parse_hex_escape rest) @ expand_backslash_escapes (snd (parse_hex_escape rest))
             else CHR 0x5C # byte_as_char c @ expand_backslash_escapes rest))"
  by pat_completeness auto
termination by (relation "measure length") (auto simp: le_imp_less_Suc le_SucI escape_shorter)

definition quote_value :: "string \<Rightarrow> string" where
  "quote_value val =
     [CHR 0x27] @ concat (map (\<lambda>c. if c = CHR 0x27 then [CHR 0x27, CHR 0x5C, CHR 0x27, CHR 0x27] else [c]) val) @ [CHR 0x27]"

definition try_transform_operator :: "case_fns \<Rightarrow> string \<Rightarrow> attempt" where
  "try_transform_operator cf name st =
     (if length name < 3 \<or> name ! (length name - 2) \<noteq> CHR ''@'' then (st, None)
      else
        (let op = last name; var_name = take (length name - 2) name in
         if op \<notin> set ''QEULuaA'' \<or> \<not> is_valid_identifier var_name then (st, None)
         else
           (let (st1, v) = get_var st var_name; val = (case v of None \<Rightarrow> [] | Some s \<Rightarrow> s) in
            (st1, Some
               (if op = CHR ''Q'' then quote_value val
                else if op = CHR ''E'' then expand_backslash_escapes val
                else if op = CHR ''U'' then str_upper cf val
                else if op = CHR ''L'' then str_lower cf val
                else if op = CHR ''u'' then transform_first_char (char_upper cf) val
                else if op = CHR ''a'' then []
                else ''declare -- '' @ var_name @ [CHR ''='', CHR 0x22] @ val @ [CHR 0x22])))))"

section \<open>Substitution and substrings\<close>

definition try_expand_substitution ::
  "string \<Rightarrow> shell_state \<Rightarrow> (shell_state \<times> string option, unit) result" where
  "try_expand_substitution name st =
     (case find_char CHR ''/'' name of
        None \<Rightarrow> Ok (st, None)
      | Some slash_pos \<Rightarrow>
          (let var_name = take slash_pos name in
           if \<not> is_valid_identifier var_name then Ok (st, None)
           else
             (let rest = drop (slash_pos + 1) name;
                  global = starts_with CHR ''/'' rest;
                  rest = (if global then tl rest else rest);
                  (anchor, pat_str) = parse_subst_anchor rest;
                  (pat, rep) = parse_subst_pat_rep rest anchor;
                  (st1, v) = get_var st var_name
              in case v of
                   None \<Rightarrow> Ok (st1, Some [])
                 | Some val \<Rightarrow>
                     result_bind (substitution_result val anchor pat_str pat rep global) (\<lambda>out. Ok (st1, Some out)))))"

text \<open>The characters that a substring selects; \<open>start + count\<close> wraps around.\<close>

definition substring :: "scalar list \<Rightarrow> string \<Rightarrow> string option \<Rightarrow> (string, unit) result" where
  "substring chars offset_str length_str =
     (let len = int (length chars);
          offset = (case parse_i64 (trim offset_str) of None \<Rightarrow> 0 | Some n \<Rightarrow> sint n)
      in if offset < 0 \<and> len + offset < 0 then Ok []
         else
           (let start = (if offset < 0 then max (len + offset) 0 else min offset len);
                stop =
                  (case length_str of
                     Some spec \<Rightarrow>
                       (let count = (case parse_i64 (trim spec) of None \<Rightarrow> len - start | Some n \<Rightarrow> sint n) in
                        if count < 0 then max (len + count) start else min (wrap_i64 (start + count)) len)
                   | None \<Rightarrow> len);
                lo = nat start;
                hi = min (nat (max stop 0)) (length chars)
            in if lo \<le> hi then Ok (encode_str (take (hi - lo) (drop lo chars))) else Panic ''slice index''))"

definition try_expand_substring ::
  "string \<Rightarrow> shell_state \<Rightarrow> (shell_state \<times> string option, unit) result" where
  "try_expand_substring name st =
     (case find_char CHR '':'' name of
        None \<Rightarrow> Ok (st, None)
      | Some colon_pos \<Rightarrow>
          (let rest = drop (colon_pos + 1) name in
           if rest \<noteq> [] \<and> hd rest \<in> set ''-=+?'' then Ok (st, None)
           else
             (let trimmed = trim_start rest;
                  leading_ws = (length trimmed \<noteq> length rest)
              in if \<not> (trimmed \<noteq> [] \<and> (is_digit (hd trimmed) \<or> leading_ws \<and> hd trimmed = CHR ''-'')) then Ok (st, None)
                 else
                   (let (st1, v) = get_var st (take colon_pos name) in
                    case v of
                      None \<Rightarrow> Ok (st1, Some [])
                    | Some val \<Rightarrow>
                        result_bind (substring (str_chars val) (fst (split_colon trimmed)) (snd (split_colon trimmed)))
                          (\<lambda>out. Ok (st1, Some out))))))"

section \<open>Operators\<close>

text \<open>An operator at a position of a name.\<close>

definition operator_at :: "string \<Rightarrow> nat \<Rightarrow> bool" where
  "operator_at name i \<longleftrightarrow>
     (let b = name ! i in
      if i = 0 \<and> (b = CHR ''#'' \<or> b = CHR ''!'') then False
      else if b = CHR '':'' then i + 1 < length name \<and> name ! (i + 1) \<in> set ''-=+?''
      else if b \<in> set ''-=+?'' then i > 0 \<and> list_all name_byte (take i name)
      else (b = CHR ''#'' \<or> b = CHR ''%'') \<and> i > 0)"

definition find_param_operator :: "string \<Rightarrow> nat option" where
  "find_param_operator name = List.find (operator_at name) [0..<length name]"

definition param_op_len :: "string \<Rightarrow> nat \<Rightarrow> nat" where
  "param_op_len name pos =
     (if name ! pos = CHR '':'' \<or> (pos + 1 < length name \<and> name ! pos = name ! (pos + 1)) then 2 else 1)"

definition MAX_EXPAND_DEPTH :: nat where
  "MAX_EXPAND_DEPTH = 50"

definition param_has_value :: "string option \<Rightarrow> bool \<Rightarrow> bool" where
  "param_has_value val require_non_empty =
     (case val of Some v \<Rightarrow> if require_non_empty then v \<noteq> [] else True | None \<Rightarrow> False)"

definition text_of :: "string option \<Rightarrow> string" where
  "text_of val = (case val of None \<Rightarrow> [] | Some v \<Rightarrow> v)"

text \<open>The operand is expanded by \<open>ex\<close>, \<open>expand_operand_inner\<close> one level deeper.\<close>

definition expand_param_default_value :: "expander \<Rightarrow> string option \<Rightarrow> string \<Rightarrow> bool \<Rightarrow> shell_state \<Rightarrow> (shell_state \<times> string, unit) result" where
  "expand_param_default_value ex val operand require_non_empty st =
     (if param_has_value val require_non_empty then Ok (st, text_of val) else ex operand st)"

definition expand_param_assign_value ::
  "expander \<Rightarrow> string \<Rightarrow> string option \<Rightarrow> string \<Rightarrow> bool \<Rightarrow> shell_state \<Rightarrow> (shell_state \<times> string, unit) result" where
  "expand_param_assign_value ex var_name val operand require_non_empty st =
     (if param_has_value val require_non_empty then Ok (st, text_of val)
      else
        result_bind (ex operand st) (\<lambda>(st1, expanded).
          case set_var st1 var_name expanded of
            None \<Rightarrow> Err ()
          | Some st2 \<Rightarrow> Ok (st2, expanded)))"

definition expand_param_error_value :: "string \<Rightarrow> string option \<Rightarrow> string \<Rightarrow> bool \<Rightarrow> string" where
  "expand_param_error_value var_name val operand require_non_empty =
     (if param_has_value val require_non_empty then text_of val
      else if operand = [] then var_name @ '': parameter null or not set''
      else var_name @ '': '' @ operand)"

definition expand_param_alt_value :: "string option \<Rightarrow> string \<Rightarrow> bool \<Rightarrow> string" where
  "expand_param_alt_value val operand require_non_empty =
     (if param_has_value val require_non_empty then operand else [])"

text \<open>Whatever \<open>expand_param_error_value\<close> appends becomes the message of a fatal error.\<close>

definition expand_param_default_op ::
  "expander \<Rightarrow> string \<Rightarrow> string \<Rightarrow> string \<Rightarrow> string option \<Rightarrow> shell_state \<Rightarrow> (shell_state \<times> string, unit) result" where
  "expand_param_default_op ex var_name operator operand val st =
     (if operator = '':-'' then expand_param_default_value ex val operand True st
      else if operator = ''-'' then expand_param_default_value ex val operand False st
      else if operator = '':='' then expand_param_assign_value ex var_name val operand True st
      else if operator = ''='' then expand_param_assign_value ex var_name val operand False st
      else if operator = '':?'' \<or> operator = ''?'' then
        (let message = expand_param_error_value var_name val operand (operator = '':?'') in
         if message \<noteq> [] then Ok (set_fatal_shell_error st message, []) else Ok (st, []))
      else if operator = '':+'' then Ok (st, expand_param_alt_value val operand True)
      else Ok (st, expand_param_alt_value val operand False))"

definition expand_param_strip_op ::
  "expander \<Rightarrow> string \<Rightarrow> string \<Rightarrow> string \<Rightarrow> shell_state \<Rightarrow> (shell_state \<times> string, unit) result" where
  "expand_param_strip_op ex operator operand val st =
     result_bind (ex operand st) (\<lambda>(st1, pat).
       result_bind
         (if operator = ''#'' then strip_prefix_glob val pat False
          else if operator = ''##'' then strip_prefix_glob val pat True
          else if operator = ''%'' then strip_suffix_glob val pat False
          else strip_suffix_glob val pat True) (\<lambda>stripped.
       Ok (st1, case stripped of None \<Rightarrow> val | Some s \<Rightarrow> s)))"

definition expand_param_op_depth ::
  "expander \<Rightarrow> string \<Rightarrow> string \<Rightarrow> string \<Rightarrow> shell_state \<Rightarrow> (shell_state \<times> string, unit) result" where
  "expand_param_op_depth ex var_name operator operand st =
     (let (st1, val) = get_var st var_name in
      if operator \<in> {'':-'', ''-'', '':='', ''='', '':?'', '':+'', ''+''}
      then expand_param_default_op ex var_name operator operand val st1
      else if operator \<in> {''#'', ''##'', ''%'', ''%%''} then
        (case val of
           None \<Rightarrow> Ok (st1, [])
         | Some v \<Rightarrow> expand_param_strip_op ex operator operand v st1)
      else Ok (st1, text_of val))"

section \<open>Parameters and operands\<close>

text \<open>The forms of a parameter are tried in order; the first that applies ends the expansion.\<close>

definition or_else ::
  "(shell_state \<times> string option, unit) result \<Rightarrow> (shell_state \<Rightarrow> (shell_state \<times> string, unit) result) \<Rightarrow>
   (shell_state \<times> string, unit) result" where
  "or_else r k = result_bind r (\<lambda>(st, handled). case handled of Some out \<Rightarrow> Ok (st, out) | None \<Rightarrow> k st)"

definition is_special :: "string \<Rightarrow> bool" where
  "is_special name \<longleftrightarrow> name \<in> {''?'', ''#'', ''0'', ''@'', ''*'', ''-'', ''$'', ''!''} \<or> parse_usize name \<noteq> None"

definition expand_plain :: "string \<Rightarrow> shell_state \<Rightarrow> shell_state \<times> string" where
  "expand_plain name st =
     (let (st1, v) = get_var st name in
      case v of
        Some val \<Rightarrow> (st1, val)
      | None \<Rightarrow>
          (let (st2, u) = get_var st1 ''SHOPT_u'' in
           if u = Some ''1'' \<and> \<not> is_special name then (set_nounset_error st2 name, []) else (st2, [])))"

definition expand_operator :: "expander \<Rightarrow> expander" where
  "expand_operator ex_operand name st =
     (case find_param_operator name of
        Some op_pos \<Rightarrow>
          (let n = param_op_len name op_pos in
           expand_param_op_depth ex_operand (take op_pos name) (take n (drop op_pos name)) (drop (op_pos + n) name) st)
      | None \<Rightarrow> Ok (expand_plain name st))"

definition expand_parameter_with :: "case_fns \<Rightarrow> expander \<Rightarrow> expander \<Rightarrow> expander" where
  "expand_parameter_with cf ex_string ex_operand name st =
     or_else (try_expand_array_subscript ex_string name st) (\<lambda>st.
     or_else (Ok (try_expand_string_length name st)) (\<lambda>st.
     or_else (Ok (try_expand_indirect_or_prefix name st)) (\<lambda>st.
     or_else (Ok (try_case_modification cf name st)) (\<lambda>st.
     or_else (Ok (try_transform_operator cf name st)) (\<lambda>st.
     or_else (try_expand_substitution name st) (\<lambda>st.
     or_else (try_expand_substring name st) (\<lambda>st.
       expand_operator ex_operand name st)))))))"

lemma subscript_shorter: "subscript name = Some (base, index, after) \<Longrightarrow> length index < length name"
  by (auto simp: subscript_def dest!: find_char_Some split: option.splits)

lemma operand_shorter:
  "find_param_operator name = Some i \<Longrightarrow> length (drop (i + param_op_len name i) name) < length name"
  by (auto simp: find_param_operator_def param_op_len_def find_Some_iff)

lemma expand_parameter_with_cong [fundef_cong]:
  assumes "cf = cf'" "name = name'" "st = st'"
    and "\<And>n st. length n < length name' \<Longrightarrow> ex_string n st = ex_string' n st"
    and "\<And>n st. length n < length name' \<Longrightarrow> ex_operand n st = ex_operand' n st"
  shows "expand_parameter_with cf ex_string ex_operand name st = expand_parameter_with cf' ex_string' ex_operand' name' st'"
proof -
  have "try_expand_array_single_element ex_string name' st = try_expand_array_single_element ex_string' name' st" for st
    using assms(4) subscript_shorter [of name']
    by (auto simp: try_expand_array_single_element_def split: option.splits)
  then have sub: "try_expand_array_subscript ex_string name' st = try_expand_array_subscript ex_string' name' st" for st
    by (simp add: try_expand_array_subscript_def split: option.splits)
  have "expand_param_op_depth ex_operand var operator operand st = expand_param_op_depth ex_operand' var operator operand st"
    if "length operand < length name'" for var operator operand st
  proof -
    note same = assms(5) [OF that]
    have "expand_param_default_op ex_operand var operator operand val st = expand_param_default_op ex_operand' var operator operand val st" for val st
      by (simp add: expand_param_default_op_def expand_param_default_value_def expand_param_assign_value_def same)
    moreover have "expand_param_strip_op ex_operand operator operand val st = expand_param_strip_op ex_operand' operator operand val st" for val st
      by (simp add: expand_param_strip_op_def same)
    ultimately show ?thesis by (simp only: expand_param_op_depth_def)
  qed
  then have "expand_operator ex_operand name' st = expand_operator ex_operand' name' st" for st
    using operand_shorter [of name'] by (simp add: expand_operator_def Let_def split: option.splits)
  then have "expand_operator ex_operand name' = expand_operator ex_operand' name'" by (rule ext)
  then show ?thesis unfolding expand_parameter_with_def assms(1-3) sub by simp
qed

text \<open>The text between \<open>((\<close> and \<open>))\<close> and what follows it.\<close>

fun scan_arith :: "nat \<Rightarrow> string \<Rightarrow> (string \<times> string) option" where
  "scan_arith depth [] = None"
| "scan_arith depth (b # s) =
     (if b = CHR '')'' \<and> depth \<le> 1 then (if starts_with CHR '')'' s then Some ([], tl s) else None)
      else
        map_option (\<lambda>(inner, rest). (b # inner, rest))
          (scan_arith (if b = CHR ''('' then depth + 1 else if b = CHR '')'' then depth - 1 else depth) s))"

lemma scan_arith_shorter: "scan_arith d s = Some (inner, rest) \<Longrightarrow> length inner + length rest \<le> length s"
  by (induction d s arbitrary: inner rest rule: scan_arith.induct) (auto split: if_splits)

text \<open>
  The text behind a \<open>$\<close>: its expansion and the text that is left.  \<open>ep\<close> expands the parameter of a
  brace, \<open>ea\<close> the parameters of an arithmetic expression.
\<close>

definition expand_dollar_in_operand ::
  "expander \<Rightarrow> expander \<Rightarrow> string \<Rightarrow> shell_state \<Rightarrow> (shell_state \<times> string \<times> string, unit) result" where
  "expand_dollar_in_operand ep ea s st =
     (if starts_with CHR ''{'' s then
        (case brace_body 1 (tl s) of
           (inner, rest) \<Rightarrow> result_bind (ep inner st) (\<lambda>(st1, out). Ok (st1, out, rest)))
      else if prefix ''(('' s then
        (case scan_arith 1 (drop 2 s) of
           Some (inner, rest) \<Rightarrow>
             result_bind (eval_arithmetic ea inner st) (\<lambda>(st1, v). Ok (st1, show_i64 v, rest))
         | None \<Rightarrow> Ok (st, ''$'', s))
      else if s \<noteq> [] \<and> (is_alpha (hd s) \<or> hd s = CHR ''_'') then
        (let (st1, v) = get_var st (takeWhile name_byte s) in Ok (st1, text_of v, dropWhile name_byte s))
      else Ok (st, ''$'', s))"

lemma dollar_name_shorter: "dollar_name s = Some (name, rest) \<Longrightarrow> s \<noteq> [] \<Longrightarrow> length name \<le> length s"
  using brace_body_shorter [of 1 "tl s" name rest] length_takeWhile_le [of is_digit s]
  by (auto simp: dollar_name_def Let_def first_char_of_def split: if_splits utf8_step.splits)

lemma arith_tokenize_same:
  "(\<And>n st. length n < length s \<Longrightarrow> ep n st = ep' n st) \<Longrightarrow> arith_tokenize ep s st = arith_tokenize ep' s st"
proof (induction ep s st rule: arith_tokenize.induct)
  case (1 ep s st)
  show ?case
  proof (cases "s = []")
    case False
    have "arith_lexeme ep s st = arith_lexeme ep' s st"
    proof -
      have "arith_tokenize_dollar ep t st = arith_tokenize_dollar ep' t st" if "length t < length s" for t
        using "1.prems" dollar_name_shorter [of t] that
        by (fastforce simp: arith_tokenize_dollar_def split: option.splits)
      from this [of "tl s"] show ?thesis using False by (simp add: arith_lexeme_def Let_def)
    qed
    moreover have "arith_tokenize ep rest st1 = arith_tokenize ep' rest st1" if "arith_lexeme ep s st = Ok (st1, toks, rest)" for st1 toks rest
      using "1.IH" [OF False that refl refl] "1.prems" lexeme_shorter [OF that False] by simp
    ultimately show ?thesis
      using False by (simp add: arith_tokenize.simps [of ep s] arith_tokenize.simps [of ep' s] cong: result_bind_cong)
         (auto intro!: result_bind_cong)
  qed (simp add: arith_tokenize.simps)
qed

lemma strip_leading_shorter: "length (strip_leading ws s) \<le> length s"
proof (induction ws s rule: strip_leading.induct)
  case (1 ws s)
  then show ?case by (subst strip_leading.simps) auto
qed

lemma trim_shorter: "length (trim s) \<le> length s"
  using strip_leading_shorter [of white_space s] strip_leading_shorter [of "map rev white_space" "rev (trim_start s)"]
  by (simp add: trim_def trim_start_def trim_end_def)

lemma expand_dollar_cong [fundef_cong]:
  assumes "s = s'" "st = st'"
    and "\<And>n st. length n < length s' \<Longrightarrow> ep n st = ep' n st"
    and "\<And>n st. length n < length s' \<Longrightarrow> ea n st = ea' n st"
  shows "expand_dollar_in_operand ep ea s st = expand_dollar_in_operand ep' ea' s' st'"
proof -
  have "ep inner st = ep' inner st" if "brace_body 1 (tl s') = (inner, rest)" "s' \<noteq> []" for inner rest st
    using brace_body_shorter [OF that(1)] that(2) by (intro assms(3)) (cases s', auto)
  moreover have "eval_arithmetic ea inner st = eval_arithmetic ea' inner st"
    if "scan_arith 1 (drop 2 s') = Some (inner, rest)" "prefix ''(('' s'" for inner rest st
  proof -
    have "length inner < length s'" using scan_arith_shorter [OF that(1)] that(2) by (cases s') auto
    then have "arith_tokenize ea (trim inner) st = arith_tokenize ea' (trim inner) st"
      using trim_shorter [of inner] by (intro arith_tokenize_same assms(4)) simp
    then show ?thesis by (simp add: eval_arithmetic_def)
  qed
  ultimately show ?thesis
    unfolding assms(1,2) by (auto simp: expand_dollar_in_operand_def starts_with_def split: option.splits prod.splits)
qed

lemma dollar_operand_shorter:
  "expand_dollar_in_operand ep ea s st = Ok (st1, out, rest) \<Longrightarrow> length rest \<le> length s"
  using scan_arith_shorter [of 1 "drop 2 s" _ rest] brace_body_shorter [of 1 "tl s" _ rest] length_dropWhile_le [of name_byte s]
  by (fastforce simp: expand_dollar_in_operand_def starts_with_def result_bind_Ok_iff split: if_splits prod.splits option.splits)

function expand_parameter :: "case_fns \<Rightarrow> nat \<Rightarrow> expander"
  and expand_operand_inner :: "case_fns \<Rightarrow> nat \<Rightarrow> expander"
  and operand_loop :: "case_fns \<Rightarrow> nat \<Rightarrow> expander" where
  "expand_parameter cf depth name st =
     expand_parameter_with cf (\<lambda>s st. expand_operand_inner cf 0 s st) (\<lambda>s st. expand_operand_inner cf (depth + 1) s st) name st"
| "expand_operand_inner cf depth operand st =
     (if depth > MAX_EXPAND_DEPTH \<or> CHR ''$'' \<notin> set operand then Ok (st, operand)
      else operand_loop cf depth operand st)"
| "operand_loop cf depth s st =
     (case s of
        [] \<Rightarrow> Ok (st, [])
      | b # t \<Rightarrow>
          if b \<noteq> CHR ''$'' then
            result_bind (operand_loop cf depth t st) (\<lambda>(st1, out). Ok (st1, byte_as_char b @ out))
          else
            result_bind
              (expand_dollar_in_operand
                 (\<lambda>n st. if depth + 1 > MAX_EXPAND_DEPTH then Ok (st, n) else expand_parameter cf (depth + 1) n st)
                 (\<lambda>n st. expand_parameter cf 0 n st) t st) (\<lambda>(st1, out, rest).
            result_bind (operand_loop cf depth rest st1) (\<lambda>(st2, more_out). Ok (st2, out @ more_out))))"
  by pat_completeness auto
termination
  by (relation "measure (\<lambda>x. case x of
        Inl (cf, depth, s, st) \<Rightarrow> 2 * length s
      | Inr (Inl (cf, depth, s, st)) \<Rightarrow> 2 * length s + 1
      | Inr (Inr (cf, depth, s, st)) \<Rightarrow> 2 * length s)")
    (auto dest!: dollar_operand_shorter)

declare expand_parameter.simps [simp del] expand_operand_inner.simps [simp del] operand_loop.simps [simp del]

text \<open>\<open>expand_operand\<close> and \<open>expand_string\<close>.\<close>

definition expand_string :: "case_fns \<Rightarrow> expander" where
  "expand_string cf s st = expand_operand_inner cf 0 s st"

section \<open>Words\<close>

definition show_arith :: "case_fns \<Rightarrow> expander" where
  "show_arith cf expr st =
     result_bind (eval_arithmetic (expand_parameter cf 0) expr st) (\<lambda>(st1, v). Ok (st1, show_i64 v))"

text \<open>Substitutions of commands and processes are left to the runtime.\<close>

fun expand_part_depth :: "case_fns \<Rightarrow> nat \<Rightarrow> word_part \<Rightarrow> shell_state \<Rightarrow> (shell_state \<times> string, unit) result"
  and expand_parts_depth :: "case_fns \<Rightarrow> nat \<Rightarrow> word_part list \<Rightarrow> shell_state \<Rightarrow> (shell_state \<times> string, unit) result" where
  "expand_part_depth cf depth (Literal s) st = Ok (st, s)"
| "expand_part_depth cf depth (SingleQuoted s) st = Ok (st, s)"
| "expand_part_depth cf depth (DoubleQuoted parts) st =
     (if depth > MAX_EXPAND_DEPTH then Ok (st, []) else expand_parts_depth cf depth parts st)"
| "expand_part_depth cf depth (Parameter name) st =
     (if depth > MAX_EXPAND_DEPTH then Ok (st, name) else expand_parameter cf depth name st)"
| "expand_part_depth cf depth (Arithmetic expr) st =
     (if depth > MAX_EXPAND_DEPTH then Ok (st, []) else show_arith cf expr st)"
| "expand_part_depth cf depth (CommandSubstitution s) st = Ok (st, [])"
| "expand_part_depth cf depth (ProcessSubstIn s) st = Ok (st, [])"
| "expand_part_depth cf depth (ProcessSubstOut s) st = Ok (st, [])"
| "expand_parts_depth cf depth [] st = Ok (st, [])"
| "expand_parts_depth cf depth (p # ps) st =
     result_bind (expand_part_depth cf depth p st) (\<lambda>(st1, out).
       result_bind (expand_parts_depth cf depth ps st1) (\<lambda>(st2, outs). Ok (st2, out @ outs)))"

definition expand_part :: "case_fns \<Rightarrow> word_part \<Rightarrow> shell_state \<Rightarrow> (shell_state \<times> string, unit) result" where
  "expand_part cf part st = expand_part_depth cf 0 part st"

text \<open>A tilde that is the whole word, or is followed by a slash, becomes the home directory.\<close>

definition has_tilde :: "string \<Rightarrow> bool" where
  "has_tilde out \<longleftrightarrow> out = ''~'' \<or> prefix ''~/'' out"

definition tilde_expand :: "string \<Rightarrow> shell_state \<Rightarrow> shell_state \<times> string option" where
  "tilde_expand out st =
     (if has_tilde out then
        (let (st1, home) = get_var st ''HOME'' in (st1, map_option (\<lambda>h. h @ tl out) home))
      else (st, None))"

definition expand_word :: "case_fns \<Rightarrow> shell_word \<Rightarrow> shell_state \<Rightarrow> (shell_state \<times> string, unit) result" where
  "expand_word cf word st =
     result_bind (expand_parts_depth cf 0 (word_parts word) st) (\<lambda>(st1, out).
       let (st2, home) = tilde_expand out st1 in Ok (st2, case home of Some s \<Rightarrow> s | None \<Rightarrow> out))"

text \<open>\<open>str::split\<close> at the characters that satisfy a predicate.\<close>

fun split_by :: "(scalar \<Rightarrow> bool) \<Rightarrow> scalar list \<Rightarrow> scalar list list" where
  "split_by P [] = [[]]"
| "split_by P (c # cs) =
     (if P c then [] # split_by P cs
      else (case split_by P cs of [] \<Rightarrow> [[c]] | g # gs \<Rightarrow> (c # g) # gs))"

definition expand_word_split :: "case_fns \<Rightarrow> shell_word \<Rightarrow> shell_state \<Rightarrow> (shell_state \<times> string list, unit) result" where
  "expand_word_split cf word st =
     result_bind (expand_word cf word st) (\<lambda>(st1, expanded).
       let (st2, v) = get_var st1 ''IFS'';
           ifs = (case v of None \<Rightarrow> [CHR 0x20, CHR 0x09, CHR 0x0A] | Some s \<Rightarrow> s)
       in Ok (st2,
            if expanded = [] then []
            else if ifs = [] then [expanded]
            else map encode_str (filter (\<lambda>f. f \<noteq> []) (split_by (\<lambda>c. c \<in> set (str_chars ifs)) (str_chars expanded)))))"

fun expand_words :: "case_fns \<Rightarrow> shell_word list \<Rightarrow> shell_state \<Rightarrow> (shell_state \<times> string list, unit) result" where
  "expand_words cf [] st = Ok (st, [])"
| "expand_words cf (w # ws) st =
     result_bind (expand_word cf w st) (\<lambda>(st1, out).
       result_bind (expand_words cf ws st1) (\<lambda>(st2, outs). Ok (st2, out # outs)))"

section \<open>Arguments\<close>

record expanded_word =
  ew_text :: string
  was_quoted :: bool
  ew_literal :: "bool list"

text \<open>Text with one flag per byte: whether it came from a quoted part.\<close>

type_synonym masked = "string \<times> bool list"

definition masked_text :: "string \<Rightarrow> bool \<Rightarrow> masked" where
  "masked_text val literal = (val, replicate (length val) literal)"

definition push_masked :: "masked \<Rightarrow> masked \<Rightarrow> masked" where
  "push_masked m n = (fst m @ fst n, snd m @ snd n)"

fun expand_part_masked :: "case_fns \<Rightarrow> bool \<Rightarrow> nat \<Rightarrow> word_part \<Rightarrow> shell_state \<Rightarrow> (shell_state \<times> masked, unit) result"
  and expand_parts_masked :: "case_fns \<Rightarrow> bool \<Rightarrow> nat \<Rightarrow> word_part list \<Rightarrow> shell_state \<Rightarrow> (shell_state \<times> masked, unit) result" where
  "expand_part_masked cf quoted depth part st =
     (if depth > MAX_EXPAND_DEPTH then Ok (st, [], [])
      else
        (case part of
           Literal s \<Rightarrow> Ok (st, masked_text s quoted)
         | SingleQuoted s \<Rightarrow> Ok (st, masked_text s True)
         | DoubleQuoted parts \<Rightarrow> expand_parts_masked cf True (depth + 1) parts st
         | Parameter name \<Rightarrow>
             result_bind (expand_parameter cf (depth + 1) name st) (\<lambda>(st1, v). Ok (st1, masked_text v quoted))
         | Arithmetic expr \<Rightarrow>
             result_bind (show_arith cf expr st) (\<lambda>(st1, v). Ok (st1, masked_text v quoted))
         | _ \<Rightarrow> Ok (st, [], [])))"
| "expand_parts_masked cf quoted depth [] st = Ok (st, [], [])"
| "expand_parts_masked cf quoted depth (p # ps) st =
     result_bind (expand_part_masked cf quoted depth p st) (\<lambda>(st1, m).
       result_bind (expand_parts_masked cf quoted depth ps st1) (\<lambda>(st2, ms). Ok (st2, push_masked m ms)))"

declare expand_part_masked.simps [simp del]

definition expand_word_masked :: "case_fns \<Rightarrow> shell_word \<Rightarrow> shell_state \<Rightarrow> (shell_state \<times> masked, unit) result" where
  "expand_word_masked cf word st =
     result_bind (expand_parts_masked cf False 0 (word_parts word) st) (\<lambda>(st1, m).
       let (st2, home) = tilde_expand (fst m) st1
       in Ok (st2, case home of Some s \<Rightarrow> masked_text s False | None \<Rightarrow> m))"

definition is_multi_field_parameter_name :: "string \<Rightarrow> bool" where
  "is_multi_field_parameter_name name \<longleftrightarrow>
     name = ''@'' \<or>
     (case find_str ''[@]'' name of
        Some pos \<Rightarrow> (let rest = drop (pos + 3) name in rest = [] \<or> starts_with CHR '':'' rest)
      | None \<Rightarrow> False)"

fun part_has_multi_field_parameter :: "word_part \<Rightarrow> bool"
  and word_has_multi_field_parameter :: "word_part list \<Rightarrow> bool" where
  "part_has_multi_field_parameter (Parameter name) = is_multi_field_parameter_name name"
| "part_has_multi_field_parameter (DoubleQuoted inner) = word_has_multi_field_parameter inner"
| "part_has_multi_field_parameter _ = False"
| "word_has_multi_field_parameter [] = False"
| "word_has_multi_field_parameter (p # ps) = (part_has_multi_field_parameter p \<or> word_has_multi_field_parameter ps)"

datatype multi_atom = TextAtom string bool | FieldsAtom "string list" bool

fun collect_multi_atom :: "case_fns \<Rightarrow> bool \<Rightarrow> nat \<Rightarrow> word_part \<Rightarrow> shell_state \<Rightarrow> (shell_state \<times> multi_atom list, unit) result"
  and collect_multi_atoms :: "case_fns \<Rightarrow> bool \<Rightarrow> nat \<Rightarrow> word_part list \<Rightarrow> shell_state \<Rightarrow> (shell_state \<times> multi_atom list, unit) result"
  and collect_parts :: "case_fns \<Rightarrow> bool \<Rightarrow> nat \<Rightarrow> word_part list \<Rightarrow> shell_state \<Rightarrow> (shell_state \<times> multi_atom list, unit) result" where
  "collect_multi_atoms cf quoted depth parts st =
     (if depth > MAX_EXPAND_DEPTH then Ok (st, []) else collect_parts cf quoted depth parts st)"
| "collect_parts cf quoted depth [] st = Ok (st, [])"
| "collect_parts cf quoted depth (p # ps) st =
     result_bind (collect_multi_atom cf quoted depth p st) (\<lambda>(st1, as).
       result_bind (collect_parts cf quoted depth ps st1) (\<lambda>(st2, bs). Ok (st2, as @ bs)))"
| "collect_multi_atom cf quoted depth (Literal s) st = Ok (st, [TextAtom s quoted])"
| "collect_multi_atom cf quoted depth (SingleQuoted s) st = Ok (st, [TextAtom s True])"
| "collect_multi_atom cf quoted depth (DoubleQuoted inner) st = collect_multi_atoms cf True (depth + 1) inner st"
| "collect_multi_atom cf quoted depth (Parameter name) st =
     (case array_multi_expansion name st of
        Some elements \<Rightarrow> Ok (st, [FieldsAtom elements quoted])
      | None \<Rightarrow>
          result_bind (expand_parameter cf (depth + 1) name st) (\<lambda>(st1, v). Ok (st1, [TextAtom v quoted])))"
| "collect_multi_atom cf quoted depth (Arithmetic expr) st =
     result_bind (show_arith cf expr st) (\<lambda>(st1, v). Ok (st1, [TextAtom v quoted]))"
| "collect_multi_atom cf quoted depth (CommandSubstitution s) st = Ok (st, [])"
| "collect_multi_atom cf quoted depth (ProcessSubstIn s) st = Ok (st, [])"
| "collect_multi_atom cf quoted depth (ProcessSubstOut s) st = Ok (st, [])"

text \<open>The fields so far, which are never empty, and whether there was any text.\<close>

definition push_last :: "masked \<Rightarrow> masked list \<Rightarrow> masked list" where
  "push_last m fs = butlast fs @ [push_masked (last fs) m]"

fun push_atom :: "multi_atom \<Rightarrow> masked list \<times> bool \<Rightarrow> masked list \<times> bool" where
  "push_atom (TextAtom s literal) (fs, had) =
     (if s \<noteq> [] then (push_last (masked_text s literal) fs, True) else (fs, had))"
| "push_atom (FieldsAtom [] literal) (fs, had) = (fs, had)"
| "push_atom (FieldsAtom (e # es) literal) (fs, had) =
     (push_last (masked_text e literal) fs @ map (\<lambda>e. masked_text e literal) es, True)"

definition expanded_of :: "masked \<Rightarrow> expanded_word" where
  "expanded_of m = \<lparr>ew_text = fst m, was_quoted = list_ex id (snd m), ew_literal = snd m\<rparr>"

fun is_fields :: "multi_atom \<Rightarrow> bool" where
  "is_fields (FieldsAtom es literal) = True"
| "is_fields _ = False"

definition expand_word_multi ::
  "case_fns \<Rightarrow> shell_word \<Rightarrow> shell_state \<Rightarrow> (shell_state \<times> expanded_word list option, unit) result" where
  "expand_word_multi cf word st =
     result_bind (collect_multi_atoms cf False 0 (word_parts word) st) (\<lambda>(st1, atoms).
       if \<not> list_ex is_fields atoms then Ok (st1, None)
       else
         (let (fs, had_text) = fold push_atom atoms ([([], [])], False) in
          if \<not> had_text \<and> length fs = 1 \<and> fst (hd fs) = [] then Ok (st1, Some [])
          else Ok (st1, Some (map expanded_of fs))))"

fun expand_words_argv :: "case_fns \<Rightarrow> shell_word list \<Rightarrow> shell_state \<Rightarrow> (shell_state \<times> expanded_word list, unit) result" where
  "expand_words_argv cf [] st = Ok (st, [])"
| "expand_words_argv cf (w # ws) st =
     result_bind
       (if word_has_multi_field_parameter (word_parts w) then expand_word_multi cf w st else Ok (st, None)) (\<lambda>(st1, multi).
     result_bind
       (case multi of
          Some fs \<Rightarrow> Ok (st1, fs)
        | None \<Rightarrow> result_bind (expand_word_masked cf w st1) (\<lambda>(st2, m). Ok (st2, [expanded_of m]))) (\<lambda>(st2, fs).
     result_bind (expand_words_argv cf ws st2) (\<lambda>(st3, more_fields). Ok (st3, fs @ more_fields))))"

end
