(* ===== verification/Expand_Props.thy ===== *)
theory Expand_Props
  imports Expand Word_Parser_Props
begin

text \<open>
  What expansion yields: patterns removed from values, nested defaults, fields, and values that are
  quoted and read back.
\<close>

section \<open>Removing patterns\<close>

lemma scan_first:
  assumes "\<forall>i \<in> set is. part i = Ok (f i)" "sorted_wrt (\<lambda>a b. \<not> better b a) is"
    "\<forall>b. chosen = Some b \<longrightarrow> (\<forall>i \<in> set is. \<not> better i b)"
  shows "scan_cuts part better pat is chosen =
    Ok (case chosen of Some b \<Rightarrow> Some b | None \<Rightarrow> List.find (\<lambda>i. simple_glob_match pat (f i)) is)"
  using assms
proof (induction "is" arbitrary: chosen)
  case (Cons i "is")
  let ?c = "if simple_glob_match pat (f i) \<and> (case chosen of None \<Rightarrow> True | Some b \<Rightarrow> better i b) then Some i else chosen"
  have "scan_cuts part better pat is ?c =
      Ok (case ?c of Some b \<Rightarrow> Some b | None \<Rightarrow> List.find (\<lambda>i. simple_glob_match pat (f i)) is)"
    by (rule Cons.IH) (use Cons.prems in auto)
  then show ?case using Cons.prems by (cases chosen) auto
qed (auto split: option.splits)

lemma find_snoc:
  "List.find P (xs @ [x]) = (case List.find P xs of Some b \<Rightarrow> Some b | None \<Rightarrow> if P x then Some x else None)"
  by (induction xs) auto

lemma scan_last:
  assumes "\<forall>i \<in> set is. part i = Ok (f i)" "sorted_wrt (\<lambda>a b. better b a) is"
    "\<forall>b. chosen = Some b \<longrightarrow> (\<forall>i \<in> set is. better i b)"
  shows "scan_cuts part better pat is chosen =
    Ok (case List.find (\<lambda>i. simple_glob_match pat (f i)) (rev is) of Some b \<Rightarrow> Some b | None \<Rightarrow> chosen)"
  using assms
proof (induction "is" arbitrary: chosen)
  case (Cons i "is")
  let ?P = "\<lambda>i. simple_glob_match pat (f i)"
  let ?c = "if ?P i \<and> (case chosen of None \<Rightarrow> True | Some b \<Rightarrow> better i b) then Some i else chosen"
  have "scan_cuts part better pat is ?c = Ok (case List.find ?P (rev is) of Some b \<Rightarrow> Some b | None \<Rightarrow> ?c)"
    by (rule Cons.IH) (use Cons.prems in \<open>auto split: option.splits\<close>)
  moreover have "List.find ?P (rev is @ [i]) = (case List.find ?P (rev is) of Some b \<Rightarrow> Some b | None \<Rightarrow> if ?P i then Some i else None)"
    by (rule find_snoc)
  ultimately show ?case using Cons.prems by (cases chosen) (auto split: option.splits)
qed simp

text \<open>The shortest or the longest of the lengths that satisfy a predicate.\<close>

definition pick :: "bool \<Rightarrow> nat \<Rightarrow> (nat \<Rightarrow> bool) \<Rightarrow> nat option" where
  "pick greedy n P = List.find P (if greedy then rev [0..<Suc n] else [0..<Suc n])"

lemma pick_shortest: "pick False n P = Some k \<longleftrightarrow> k \<le> n \<and> P k \<and> (\<forall>j < k. \<not> P j)"
proof -
  have "List.find P [0..<Suc n] = Some k \<longleftrightarrow> k < Suc n \<and> P k \<and> (\<forall>j < k. \<not> P j)"
    unfolding find_Some_iff by (auto simp del: upt_Suc intro!: exI [of _ k])
  then show ?thesis by (simp add: pick_def less_Suc_eq_le)
qed

lemma pick_longest: "pick True n P = Some k \<longleftrightarrow> k \<le> n \<and> P k \<and> (\<forall>j. k < j \<and> j \<le> n \<longrightarrow> \<not> P j)"
proof -
  have "rev [0..<Suc n] ! i = n - i" if "i < Suc n" for i
    using that by (simp add: rev_nth del: upt_Suc)
  then have "List.find P (rev [0..<Suc n]) = Some k \<longleftrightarrow> (\<exists>i \<le> n. P (n - i) \<and> k = n - i \<and> (\<forall>j < i. \<not> P (n - j)))"
    unfolding find_Some_iff by (auto simp del: upt_Suc simp: less_Suc_eq_le)
  also have "\<dots> \<longleftrightarrow> k \<le> n \<and> P k \<and> (\<forall>j. k < j \<and> j \<le> n \<longrightarrow> \<not> P j)"
  proof safe
    fix i j assume i: "i \<le> n" "\<forall>j < i. \<not> P (n - j)" "n - i < j" "j \<le> n" "P j"
    have "n - j < i" "n - (n - j) = j" using i by auto
    then show False using i by metis
  next
    assume k: "k \<le> n" "P k" "\<forall>j. k < j \<and> j \<le> n \<longrightarrow> \<not> P j"
    then show "\<exists>i \<le> n. P (n - i) \<and> k = n - i \<and> (\<forall>j < i. \<not> P (n - j))"
      by (intro exI [of _ "n - k"]) auto
  qed auto
  finally show ?thesis by (simp add: pick_def)
qed

lemma pick_none: "pick greedy n P = None \<longleftrightarrow> (\<forall>k \<le> n. \<not> P k)"
  by (auto simp: pick_def find_None_iff less_Suc_eq_le simp del: upt_Suc)

lemma sorted_upt_less: "sorted_wrt (<) [i..<j]" "sorted_wrt (\<lambda>a b. \<not> b < a) [i..<j]"
  by (simp, rule sorted_wrt_mono_rel [of _ "(<)"]) auto

lemma scan_ascending:
  assumes "\<forall>i \<le> n. part i = Ok (f i)"
  shows "scan_cuts part (\<lambda>i best. if greedy then best < i else i < best) pat [0..<Suc n] None =
    Ok (pick greedy n (\<lambda>i. simple_glob_match pat (f i)))"
  using scan_first [of "[0..<Suc n]" part f "\<lambda>i b. i < b" None pat] scan_last [of "[0..<Suc n]" part f "\<lambda>i b. b < i" None pat]
    assms sorted_upt_less [of 0 "Suc n"]
  by (cases greedy) (auto simp: pick_def less_Suc_eq_le simp del: upt_Suc split: option.splits)

lemma scan_cuts_panics:
  assumes "\<forall>i \<in> set is. (\<exists>s. part i = Ok s) \<or> part i = Panic m" "\<exists>i \<in> set is. part i = Panic m"
  shows "scan_cuts part better pat is chosen = Panic m"
  using assms
proof (induction "is" arbitrary: chosen)
  case (Cons i "is")
  show ?case
  proof (cases "part i = Panic m")
    case False
    then obtain t where "part i = Ok t" using Cons.prems(1) by auto
    moreover have "scan_cuts part better pat is c = Panic m" for c
      by (rule Cons.IH) (use Cons.prems False in auto)
    ultimately show ?thesis by simp
  qed simp
qed simp

text \<open>A text with a character outside ASCII has a position inside a character.\<close>

lemma second_byte:
  assumes "valid_utf8 (a # s)" "\<not> is_ascii a"
  shows "s \<noteq> [] \<and> is_cont (hd s)"
proof -
  have "second_of_three a b \<Longrightarrow> is_cont b" "second_of_four a b \<Longrightarrow> is_cont b" for b
    by (auto simp: second_of_three_def second_of_four_def byte_in_def split: if_splits)
  then show ?thesis using assms by (auto split: if_splits list.splits)
qed

lemma inside_char:
  "valid_utf8 s \<Longrightarrow> \<not> list_all is_ascii s \<Longrightarrow> \<exists>i < length s. \<not> is_char_boundary s i"
proof (induction s)
  case (Cons a s)
  show ?case
  proof (cases "is_ascii a")
    case True
    then obtain i where i: "i < length s" "\<not> is_char_boundary s i" using Cons by auto
    then show ?thesis by (intro exI [of _ "Suc i"]) (auto simp: is_char_boundary_def)
  next
    case False
    then show ?thesis
      using second_byte [OF Cons.prems(1)] by (intro exI [of _ 1]) (auto simp: is_char_boundary_def hd_conv_nth)
  qed
qed simp

text \<open>
  The prefix and the suffix that are removed from an ASCII value; a value with another character
  panics, whatever the pattern.
\<close>

lemma strip_prefix_ascii:
  assumes "list_all is_ascii val"
  shows "strip_prefix_glob val pat greedy =
    Ok (map_option (\<lambda>n. drop n val) (pick greedy (length val) (\<lambda>n. take n val \<in> glob_lang (simple_tokens pat))))"
proof -
  have "scan_cuts (str_slice val 0) (\<lambda>i best. if greedy then best < i else i < best) pat [0..<Suc (length val)] None =
      Ok (pick greedy (length val) (\<lambda>n. take n val \<in> glob_lang (simple_tokens pat)))"
  proof -
    have ok: "\<forall>i \<le> length val. str_slice val 0 i = Ok (take i val)" by (simp add: slice_ascii [OF assms])
    show ?thesis using scan_ascending [OF ok, of greedy pat] unfolding simple_glob_match_iff .
  qed
  moreover have "k \<le> length val" if "pick greedy (length val) P = Some k" for k P
    using that by (cases greedy) (auto simp: pick_shortest pick_longest)
  ultimately show ?thesis
    by (auto simp: strip_prefix_glob_def slice_ascii [OF assms] split: option.splits)
qed

text \<open>A suffix of length \<open>n\<close> starts at the cut \<open>length val - n\<close>; longer suffixes start earlier.\<close>

lemma scan_descending:
  assumes "\<forall>i \<le> n. part i = Ok (f i)"
  shows "scan_cuts part (\<lambda>i best. if greedy then i < best else best < i) pat [0..<Suc n] None =
    Ok (map_option (\<lambda>k. n - k) (pick greedy n (\<lambda>k. simple_glob_match pat (f (n - k)))))"
proof -
  let ?P = "\<lambda>i. simple_glob_match pat (f i)"
  have scan: "scan_cuts part (\<lambda>i best. if greedy then i < best else best < i) pat [0..<Suc n] None =
      Ok (pick (\<not> greedy) n ?P)"
    using scan_ascending [OF assms, of "\<not> greedy" pat] by (cases greedy) (simp_all del: upt_Suc)
  have "pick (\<not> greedy) n ?P = map_option (\<lambda>k. n - k) (pick greedy n (\<lambda>k. ?P (n - k)))"
  proof (cases "pick greedy n (\<lambda>k. ?P (n - k))")
    case None
    then have "\<not> ?P k" if "k \<le> n" for k using that by (auto simp: pick_none dest: spec [of _ "n - k"])
    then have "pick (\<not> greedy) n ?P = None" by (simp only: pick_none) blast
    then show ?thesis using None by simp
  next
    case (Some k)
    then have "pick (\<not> greedy) n ?P = Some (n - k)"
    proof (cases greedy)
      case True
      then show ?thesis using Some
        by (auto simp: pick_shortest pick_longest) (metis diff_diff_cancel diff_le_self diff_less_mono2 less_imp_le_nat less_le_trans nat_le_linear)
    next
      case False
      then show ?thesis using Some
        by (auto simp: pick_shortest pick_longest) (metis diff_diff_cancel diff_less_mono2 le_less_trans less_imp_diff_less linorder_not_le nat_less_le)
    qed
    then show ?thesis using Some by simp
  qed
  then show ?thesis using scan by simp
qed

lemma strip_suffix_ascii:
  assumes "list_all is_ascii val"
  shows "strip_suffix_glob val pat greedy =
    Ok (map_option (\<lambda>n. take (length val - n) val)
      (pick greedy (length val) (\<lambda>n. drop (length val - n) val \<in> glob_lang (simple_tokens pat))))"
proof -
  have "scan_cuts (\<lambda>i. str_slice val i (length val)) (\<lambda>i best. if greedy then i < best else best < i) pat [0..<Suc (length val)] None =
      Ok (map_option (\<lambda>k. length val - k) (pick greedy (length val) (\<lambda>n. drop (length val - n) val \<in> glob_lang (simple_tokens pat))))"
  proof -
    have ok: "\<forall>i \<le> length val. str_slice val i (length val) = Ok (drop i val)"
      by (simp add: slice_ascii [OF assms])
    show ?thesis using scan_descending [OF ok, of greedy pat] unfolding simple_glob_match_iff .
  qed
  then show ?thesis
    by (auto simp: strip_suffix_glob_def slice_ascii [OF assms] split: option.splits)
qed

lemma strip_not_ascii:
  assumes "valid_utf8 val" "\<not> list_all is_ascii val"
  shows "strip_prefix_glob val pat greedy = Panic ''slice index''" "strip_suffix_glob val pat greedy = Panic ''slice index''"
proof -
  obtain i where "i < length val" "\<not> is_char_boundary val i" using inside_char [OF assms] by blast
  then have i: "i \<in> set [0..<Suc (length val)]" "str_slice val 0 i = Panic ''slice index''"
    "str_slice val i (length val) = Panic ''slice index''" by (simp_all add: str_slice_def)
  have outcome: "(\<exists>s. str_slice val i j = Ok s) \<or> (str_slice val i j :: (string, unit) result) = Panic ''slice index''" for i j
    by (simp add: str_slice_def)
  have "scan_cuts (str_slice val 0) better pat [0..<Suc (length val)] None = Panic ''slice index''" for better
    by (rule scan_cuts_panics) (use i outcome in \<open>auto simp del: upt_Suc\<close>)
  then show "strip_prefix_glob val pat greedy = Panic ''slice index''" by (simp add: strip_prefix_glob_def)
  have "scan_cuts (\<lambda>i. str_slice val i (length val)) better pat [0..<Suc (length val)] None = Panic ''slice index''" for better
    by (rule scan_cuts_panics) (use i outcome in \<open>auto simp del: upt_Suc\<close>)
  then show "strip_suffix_glob val pat greedy = Panic ''slice index''" by (simp add: strip_suffix_glob_def)
qed

section \<open>Operators\<close>

definition param_ops :: "string set" where
  "param_ops = {'':-'', ''-'', '':='', ''='', '':?'', '':+'', ''+'', ''#'', ''##'', ''%'', ''%%''}"

text \<open>An operand that no other form of expansion claims.\<close>

definition plain_operand :: "string \<Rightarrow> string \<Rightarrow> bool" where
  "plain_operand operator w \<longleftrightarrow>
     list_all (\<lambda>c. c \<notin> set ''[/@'') w \<and>
     (hd operator \<noteq> CHR '':'' \<longrightarrow> CHR '':'' \<notin> set w) \<and>
     (length operator = 1 \<longrightarrow> \<not> starts_with (hd operator) w)"

lemma name_byte_plain:
  "name_byte c \<Longrightarrow> c \<notin> set ''[/@:#!%-=+?^,]$~{}''"
  by (auto simp: name_byte_def is_alpha_def is_digit_def)

lemma identifier_plain:
  assumes "is_valid_identifier x" "c \<in> set ''[/@:#!%-=+?^,]$~{}''"
  shows "c \<notin> set x" "\<not> starts_with c (x @ s)"
proof -
  show c: "c \<notin> set x" using assms name_byte_plain by (auto simp: is_valid_identifier_def list_all_iff simp del: set_simps)
  then show "\<not> starts_with c (x @ s)" using assms(1) by (cases x) (auto simp: starts_with_def is_valid_identifier_def)
qed

lemma find_char_not_in: "c \<notin> set s \<Longrightarrow> find_char c s = None"
  by (simp add: find_char_None)

lemma find_char_at: "c \<notin> set s \<Longrightarrow> find_char c (s @ c # t) = Some (length s)"
  by (simp add: find_char_def takeWhile_append)

lemma no_subscript: "CHR ''['' \<notin> set name \<Longrightarrow> subscript name = None"
  by (simp add: subscript_def find_char_not_in)

lemma no_glob_suffix: "CHR ''['' \<notin> set name \<Longrightarrow> strip_array_glob_suffix name = None"
  by (auto simp: strip_array_glob_suffix_def strip_suffix_def suffix_def split: option.splits)

lemma no_array_form:
  assumes "CHR ''['' \<notin> set name" "\<not> starts_with CHR ''#'' name" "\<not> starts_with CHR ''!'' name"
  shows "try_expand_array_subscript ex name st = Ok (st, None)"
  using assms no_subscript no_glob_suffix
  by (simp add: try_expand_array_subscript_def try_expand_array_length_or_keys_def try_expand_array_slice_def
      try_expand_array_all_values_def try_expand_array_single_element_def)

lemma no_transform: "CHR ''@'' \<notin> set name \<Longrightarrow> try_transform_operator cf name st = (st, None)"
proof -
  assume "CHR ''@'' \<notin> set name"
  then have "name ! (length name - 2) \<noteq> CHR ''@''" if "\<not> length name < 3"
  proof -
    have "length name - 2 < length name" using that by simp
    then show ?thesis using \<open>CHR ''@'' \<notin> set name\<close> nth_mem [of "length name - 2" name] by metis
  qed
  then show ?thesis by (auto simp: try_transform_operator_def)
qed

lemma operator_position:
  assumes "is_valid_identifier x" "operator_at (x @ s) (length x)" "s \<noteq> []"
  shows "find_param_operator (x @ s) = Some (length x)"
proof -
  have "\<not> operator_at (x @ s) i" if "i < length x" for i
    using name_byte_plain [of "x ! i"] that assms(1)
    by (auto simp: operator_at_def Let_def nth_append is_valid_identifier_def list_all_length)
  then show ?thesis
    using assms(2,3) unfolding find_param_operator_def find_Some_iff
    by (intro exI [of _ "length x"]) (auto simp: nth_append)
qed

lemma parameter_operator:
  assumes x: "is_valid_identifier x" and op: "operator \<in> param_ops" and w: "plain_operand operator w"
  shows "expand_parameter cf d (x @ operator @ w) st =
    expand_param_op_depth (\<lambda>s st. expand_operand_inner cf (d + 1) s st) x operator w st"
proof -
  let ?name = "x @ operator @ w"
  obtain c cs where o: "operator = c # cs" using op by (auto simp: param_ops_def)
  have "c \<notin> set operator" if "c \<in> set ''[/@''" for c using op that by (auto simp: param_ops_def)
  moreover have "c \<notin> set w" if "c \<in> set ''[/@''" for c using w that by (auto simp: plain_operand_def list_all_iff)
  moreover have "c \<notin> set x" if "c \<in> set ''[/@''" for c using identifier_plain(1) [OF x, of c] that by auto
  ultimately have absent: "CHR ''['' \<notin> set ?name" "CHR ''/'' \<notin> set ?name" "CHR ''@'' \<notin> set ?name" by simp_all
  have starts: "\<not> starts_with CHR ''#'' ?name" "\<not> starts_with CHR ''!'' ?name"
    using identifier_plain(2) [OF x, of "CHR ''#''"] identifier_plain(2) [OF x, of "CHR ''!''"] by simp_all
  have c: "\<not> name_byte c" "c \<notin> set ''^,''"
    using op o by (auto simp: param_ops_def name_byte_def is_alpha_def is_digit_def)
  have tw: "takeWhile name_byte ?name = x" "dropWhile name_byte ?name = operator @ w"
    using x c(1) o by (simp_all add: is_valid_identifier_def takeWhile_append dropWhile_append list_all_iff)
  have case_mod: "try_case_modification cf ?name st = (st, None)" for st
  proof -
    have "parse_case_modifier (operator @ w) = None" using c(2) o by (auto simp: parse_case_modifier_def)
    then show ?thesis unfolding try_case_modification_def tw Let_def by simp
  qed
  have substring: "try_expand_substring ?name st = Ok (st, None)" for st
  proof (cases "c = CHR '':''")
    case True
    then obtain b where "cs = [b]" "b \<in> set ''-=+?''" using op o by (auto simp: param_ops_def)
    then show ?thesis
      using True o find_char_at [of "CHR '':''" x "b # w"] identifier_plain(1) [OF x, of "CHR '':''"]
      by (auto simp: try_expand_substring_def)
  next
    case False
    then have "CHR '':'' \<notin> set ?name"
      using identifier_plain(1) [OF x, of "CHR '':''"] op w o by (auto simp: param_ops_def plain_operand_def)
    then show ?thesis by (simp add: try_expand_substring_def find_char_not_in)
  qed
  have "operator_at ?name (length x)"
    using op x by (auto simp: param_ops_def operator_at_def is_valid_identifier_def nth_append Let_def)
  then have pos: "find_param_operator ?name = Some (length x)"
    using operator_position [OF x, of "operator @ w"] o by simp
  have len: "param_op_len ?name (length x) = length operator"
    using op w by (cases w) (auto simp: param_ops_def param_op_len_def plain_operand_def starts_with_def nth_append)
  show ?thesis
    using absent starts
    by (simp add: expand_parameter.simps [of cf d] expand_parameter_with_def or_else_def no_array_form try_expand_string_length_def
        try_expand_indirect_or_prefix_def case_mod no_transform try_expand_substitution_def find_char_not_in substring
        expand_operator_def pos len)
qed

text \<open>A name that reads a variable and nothing else.\<close>

lemma parameter_plain:
  assumes x: "is_valid_identifier x"
  shows "expand_parameter cf d x st = Ok (expand_plain x st)"
proof -
  have absent: "CHR ''['' \<notin> set x" "CHR ''/'' \<notin> set x" "CHR ''@'' \<notin> set x" "CHR '':'' \<notin> set x"
    using identifier_plain(1) [OF x] by auto
  have starts: "\<not> starts_with CHR ''#'' x" "\<not> starts_with CHR ''!'' x"
    using identifier_plain(2) [OF x, of _ "[]"] by auto
  have "dropWhile name_byte x = []" using x by (simp add: is_valid_identifier_def list_all_iff)
  then have case_mod: "try_case_modification cf x st = (st, None)" for st
    by (simp add: try_case_modification_def)
  have "\<not> operator_at x i" if "i < length x" for i
    using name_byte_plain [of "x ! i"] that assms(1)
    by (auto simp: operator_at_def Let_def is_valid_identifier_def list_all_length)
  then have pos: "find_param_operator x = None" by (auto simp: find_param_operator_def find_None_iff)
  show ?thesis
    using absent starts
    by (simp add: expand_parameter.simps [of cf d] expand_parameter_with_def or_else_def no_array_form try_expand_string_length_def
        try_expand_indirect_or_prefix_def case_mod no_transform try_expand_substitution_def try_expand_substring_def find_char_not_in
        expand_operator_def pos)
qed

section \<open>Templates\<close>

text \<open>
  Texts with references: a variable, a variable in braces, and a variable with a default that is a
  text again.
\<close>

datatype tpart = TText string | TBare string | TBraced string | TDefault string "tpart list"

fun t_text :: "tpart \<Rightarrow> string" where
  "t_text (TText s) = s"
| "t_text (TBare x) = CHR ''$'' # x"
| "t_text (TBraced x) = ''${'' @ x @ ''}''"
| "t_text (TDefault x ts) = ''${'' @ x @ '':-'' @ concat (map t_text ts) @ ''}''"

fun t_value :: "(string \<Rightarrow> string option) \<Rightarrow> tpart \<Rightarrow> string" where
  "t_value val (TText s) = s"
| "t_value val (TBare x) = text_of (val x)"
| "t_value val (TBraced x) = text_of (val x)"
| "t_value val (TDefault x ts) =
     (if val x = None \<or> val x = Some [] then concat (map (t_value val) ts) else text_of (val x))"

fun t_depth :: "tpart \<Rightarrow> nat" where
  "t_depth (TDefault x ts) = 2 + fold max (map t_depth ts) 0"
| "t_depth _ = 1"

fun t_names :: "tpart \<Rightarrow> string list" where
  "t_names (TText s) = []"
| "t_names (TBare x) = [x]"
| "t_names (TBraced x) = [x]"
| "t_names (TDefault x ts) = x # concat (map t_names ts)"

definition template_char :: "char \<Rightarrow> bool" where
  "template_char c \<longleftrightarrow> is_ascii c \<and> c \<notin> set ''${}[/@''"

text \<open>A bare reference ends at the next part: what follows must not continue the name.\<close>

fun wf_tpart :: "tpart \<Rightarrow> bool" and wf_tparts :: "tpart list \<Rightarrow> bool" where
  "wf_tpart (TText s) = list_all template_char s"
| "wf_tpart (TBare x) = (is_valid_identifier x \<and> \<not> is_digit (hd x))"
| "wf_tpart (TBraced x) = is_valid_identifier x"
| "wf_tpart (TDefault x ts) = (is_valid_identifier x \<and> wf_tparts ts)"
| "wf_tparts [] = True"
| "wf_tparts (t # ts) =
     (wf_tpart t \<and> wf_tparts ts \<and>
      (case t of
         TBare x \<Rightarrow> (case ts of TText s # _ \<Rightarrow> s \<noteq> [] \<and> \<not> name_byte (hd s) | _ \<Rightarrow> True)
       | _ \<Rightarrow> True))"

abbreviation t_texts :: "tpart list \<Rightarrow> string" where
  "t_texts ts \<equiv> concat (map t_text ts)"

lemma byte_as_char_ascii: "is_ascii c \<Longrightarrow> byte_as_char c = [c]"
  by (simp add: byte_as_char_def encode_utf8_def byte_in_def)

text \<open>Braces are balanced inside a template.\<close>

lemma body_plain:
  "list_all (\<lambda>c. c \<noteq> CHR ''{'' \<and> c \<noteq> CHR ''}'') s \<Longrightarrow>
     brace_body d (s @ r) = (s @ fst (brace_body d r), snd (brace_body d r))"
  by (induction s) (simp_all add: case_prod_beta)

lemma identifier_no_braces: "is_valid_identifier x \<Longrightarrow> list_all (\<lambda>c. c \<noteq> CHR ''{'' \<and> c \<noteq> CHR ''}'') x"
  using identifier_plain(1) [of x "CHR ''{''"] identifier_plain(1) [of x "CHR ''}''"] by (auto simp: list_all_iff)

lemma body_template:
  "wf_tpart t \<Longrightarrow> 0 < d \<Longrightarrow> brace_body d (t_text t @ r) = (t_text t @ fst (brace_body d r), snd (brace_body d r))"
  "wf_tparts ts \<Longrightarrow> 0 < d \<Longrightarrow> brace_body d (t_texts ts @ r) = (t_texts ts @ fst (brace_body d r), snd (brace_body d r))"
proof (induction t and ts arbitrary: d r and d r rule: wf_tpart_wf_tparts.induct)
  case (1 s)
  then have "list_all (\<lambda>c. c \<noteq> CHR ''{'' \<and> c \<noteq> CHR ''}'') s" by (auto simp: list_all_iff template_char_def)
  then show ?case by (simp add: body_plain)
next
  case (2 x)
  then have "list_all (\<lambda>c. c \<noteq> CHR ''{'' \<and> c \<noteq> CHR ''}'') x" using identifier_no_braces by simp
  then show ?case by (simp add: body_plain case_prod_beta)
next
  case (3 x)
  then have "list_all (\<lambda>c. c \<noteq> CHR ''{'' \<and> c \<noteq> CHR ''}'') x" using identifier_no_braces by simp
  then show ?case using "3.prems" by (simp add: body_plain case_prod_beta)
next
  case (4 x ts)
  then have "list_all (\<lambda>c. c \<noteq> CHR ''{'' \<and> c \<noteq> CHR ''}'') x" using identifier_no_braces by simp
  then show ?case using 4 by (simp add: body_plain case_prod_beta)
qed simp_all

lemma body_close:
  "wf_tparts ts \<Longrightarrow> brace_body 1 (t_texts ts @ CHR ''}'' # r) = (t_texts ts, r)"
  by (simp add: body_template)

text \<open>A default operand of a template is claimed by no other form.\<close>

lemma identifier_unclaimed: "is_valid_identifier x \<Longrightarrow> list_all (\<lambda>c. c \<notin> set ''[/@'') x"
  using identifier_plain(1) [of x "CHR ''[''"] identifier_plain(1) [of x "CHR ''/''"] identifier_plain(1) [of x "CHR ''@''"]
  by (auto simp: list_all_iff)

lemma template_plain: "wf_tpart t \<Longrightarrow> list_all (\<lambda>c. c \<notin> set ''[/@'') (t_text t)"
  "wf_tparts ts \<Longrightarrow> list_all (\<lambda>c. c \<notin> set ''[/@'') (t_texts ts)"
proof (induction t and ts rule: wf_tpart_wf_tparts.induct)
  case (1 s)
  then show ?case by (auto simp: list_all_iff template_char_def)
qed (simp_all add: identifier_unclaimed [simplified])

text \<open>Reading the names does not change the state, and unset names are no error.\<close>

definition quiet_names :: "shell_state \<Rightarrow> (string \<Rightarrow> string option) \<Rightarrow> string list \<Rightarrow> bool" where
  "quiet_names st val names \<longleftrightarrow>
     (\<forall>x \<in> set names. get_var st x = (st, val x)) \<and> (\<exists>u. get_var st ''SHOPT_u'' = (st, u) \<and> u \<noteq> Some ''1'')"

lemma quiet_append [simp]: "quiet_names st val (xs @ ys) \<longleftrightarrow> quiet_names st val xs \<and> quiet_names st val ys"
  by (auto simp: quiet_names_def)

lemma quiet_plain: "quiet_names st val [x] \<Longrightarrow> expand_plain x st = (st, text_of (val x))"
  by (auto simp: quiet_names_def expand_plain_def text_of_def split: option.splits)

text \<open>What a part contributes in the loop over an operand.\<close>

definition contributes :: "case_fns \<Rightarrow> nat \<Rightarrow> shell_state \<Rightarrow> string \<Rightarrow> string \<Rightarrow> string \<Rightarrow> bool" where
  "contributes cf d st s out r \<longleftrightarrow>
     operand_loop cf d (s @ r) st = result_bind (operand_loop cf d r st) (\<lambda>(st', outs). Ok (st', out @ outs))"

lemma text_contributes: "list_all template_char s \<Longrightarrow> contributes cf d st s s r"
  unfolding contributes_def
proof (induction s)
  case Nil
  then show ?case by (cases "operand_loop cf d r st") auto
next
  case (Cons c s)
  have "operand_loop cf d ((c # s) @ r) st = result_bind (operand_loop cf d (s @ r) st) (\<lambda>(st1, out). Ok (st1, c # out))"
    using Cons.prems by (subst operand_loop.simps) (auto simp: template_char_def byte_as_char_ascii)
  then show ?case using Cons by (cases "operand_loop cf d r st") auto
qed

lemma bare_contributes:
  assumes "is_valid_identifier x" "\<not> is_digit (hd x)" "r = [] \<or> \<not> name_byte (hd r)" "quiet_names st val [x]"
  shows "contributes cf d st (CHR ''$'' # x) (text_of (val x)) r"
proof -
  obtain c cs where x: "x = c # cs" "name_byte c" using assms(1) by (cases x) (auto simp: is_valid_identifier_def)
  have c: "c \<noteq> CHR ''{''" "c \<noteq> CHR ''(''" "is_alpha c \<or> c = CHR ''_''"
    using x assms(2) by (auto simp: name_byte_def is_alpha_def is_digit_def)
  have "takeWhile name_byte (x @ r) = x" "dropWhile name_byte (x @ r) = r"
    using assms(1,3) by (cases r; simp add: is_valid_identifier_def list_all_iff)+
  moreover have "get_var st x = (st, val x)" using assms(4) by (simp add: quiet_names_def)
  ultimately have "expand_dollar_in_operand ep ea (x @ r) st = Ok (st, text_of (val x), r)" for ep ea
    using c x(1) by (simp add: expand_dollar_in_operand_def starts_with_def)
  then show ?thesis by (simp add: contributes_def operand_loop.simps [of cf d "CHR ''$'' # x @ r"])
qed

lemma brace_contributes:
  assumes "brace_body 1 (inner @ CHR ''}'' # r) = (inner, r)" "d < MAX_EXPAND_DEPTH"
    "expand_parameter cf (d + 1) inner st = Ok (st, out)"
  shows "contributes cf d st (''${'' @ inner @ ''}'') out r"
proof -
  have "expand_dollar_in_operand
      (\<lambda>n st. if d + 1 > MAX_EXPAND_DEPTH then Ok (st, n) else expand_parameter cf (d + 1) n st) ea (CHR ''{'' # inner @ CHR ''}'' # r) st =
      Ok (st, out, r)" for ea
    using assms by (simp add: expand_dollar_in_operand_def starts_with_def)
  then show ?thesis by (simp add: contributes_def operand_loop.simps [of cf d "CHR ''$'' # _"])
qed

lemma contributes_append:
  "contributes cf d st s out (t @ r) \<Longrightarrow> contributes cf d st t out' r \<Longrightarrow> contributes cf d st (s @ t) (out @ out') r"
  unfolding contributes_def by (cases "operand_loop cf d r st") auto

text \<open>A template whose contribution is known expands to it.\<close>

lemma t_text_dollar: "CHR ''$'' \<notin> set (t_texts ts) \<Longrightarrow> concat (map (t_value val) ts) = t_texts ts"
proof (induction ts)
  case (Cons t ts)
  then show ?case by (cases t) auto
qed simp

lemma operand_template:
  assumes "contributes cf d st (t_texts ts) (concat (map (t_value val) ts)) []" "d \<le> MAX_EXPAND_DEPTH"
  shows "expand_operand_inner cf d (t_texts ts) st = Ok (st, concat (map (t_value val) ts))"
  using assms t_text_dollar [of ts val]
  by (auto simp: expand_operand_inner.simps contributes_def operand_loop.simps [of cf d "[]"])

lemma fold_max_le: "fold max xs (a::nat) \<le> n \<longleftrightarrow> a \<le> n \<and> (\<forall>x \<in> set xs. x \<le> n)"
  by (induction xs arbitrary: a) auto

lemma default_operand: "wf_tparts ts \<Longrightarrow> plain_operand '':-'' (t_texts ts)"
  using template_plain(2) [of ts] by (simp add: plain_operand_def)

lemma default_value:
  assumes "is_valid_identifier x" "wf_tparts ts" "get_var st x = (st, val x)"
    "expand_operand_inner cf (d + 1) (t_texts ts) st = Ok (st, concat (map (t_value val) ts))"
  shows "expand_parameter cf d (x @ '':-'' @ t_texts ts) st = Ok (st, t_value val (TDefault x ts))"
  using assms parameter_operator [OF assms(1) _ default_operand [OF assms(2)], of cf d st]
  by (cases "val x")
    (auto simp: param_ops_def expand_param_op_depth_def expand_param_default_op_def expand_param_default_value_def
      param_has_value_def text_of_def)

lemma template_contributes:
  "wf_tpart t \<Longrightarrow> (case t of TBare x \<Rightarrow> r = [] \<or> \<not> name_byte (hd r) | _ \<Rightarrow> True) \<Longrightarrow> quiet_names st val (t_names t) \<Longrightarrow>
     d + t_depth t \<le> MAX_EXPAND_DEPTH \<Longrightarrow> contributes cf d st (t_text t) (t_value val t) r"
  "wf_tparts ts \<Longrightarrow> quiet_names st val (concat (map t_names ts)) \<Longrightarrow> \<forall>t \<in> set ts. d + t_depth t \<le> MAX_EXPAND_DEPTH \<Longrightarrow>
     contributes cf d st (t_texts ts) (concat (map (t_value val) ts)) []"
proof (induction t and ts arbitrary: d r and d rule: wf_tpart_wf_tparts.induct)
  case (1 s)
  then show ?case by (simp add: text_contributes)
next
  case (2 x)
  then show ?case by (simp add: bare_contributes)
next
  case (3 x)
  have "brace_body 1 (x @ CHR ''}'' # r) = (x, r)"
    using body_plain [OF identifier_no_braces, of x 1 "CHR ''}'' # r"] 3 by simp
  then show ?case
    using brace_contributes [of x r d cf st "text_of (val x)"] 3 quiet_plain [of st val x] by (simp add: parameter_plain)
next
  case (4 x ts)
  let ?inner = "x @ '':-'' @ t_texts ts"
  have body: "brace_body 1 (?inner @ CHR ''}'' # r) = (?inner, r)"
    using 4 body_plain [OF identifier_no_braces, of x 1 "'':-'' @ t_texts ts @ CHR ''}'' # r"] body_close [of ts r] by simp
  have depth: "\<forall>t \<in> set ts. d + 2 + t_depth t \<le> MAX_EXPAND_DEPTH" "d + 2 \<le> MAX_EXPAND_DEPTH"
    using "4.prems"(4) fold_max_le [of "map t_depth ts" 0 "MAX_EXPAND_DEPTH - d - 2"] by auto
  have q: "get_var st x = (st, val x)" "quiet_names st val (concat (map t_names ts))"
    using "4.prems"(3) by (auto simp: quiet_names_def)
  have wf: "is_valid_identifier x" "wf_tparts ts" using "4.prems"(1) by simp_all
  have "expand_operand_inner cf (d + 1 + 1) (t_texts ts) st = Ok (st, concat (map (t_value val) ts))"
    using operand_template [OF "4.IH" [of "d + 2"]] wf q depth by (simp add: numeral_2_eq_2)
  from default_value [OF wf q(1) this]
  have "expand_parameter cf (d + 1) ?inner st = Ok (st, t_value val (TDefault x ts))" .
  from brace_contributes [OF body _ this] depth(2) show ?case by simp
next
  case 5
  then show ?case using text_contributes [of "[]"] by simp
next
  case (6 t ts)
  have "case t of TBare x \<Rightarrow> t_texts ts = [] \<or> \<not> name_byte (hd (t_texts ts)) | _ \<Rightarrow> True"
  proof (cases t)
    case (TBare x)
    show ?thesis
    proof (cases ts)
      case (Cons u us)
      then show ?thesis using "6.prems"(1) TBare by (cases u) (auto simp: name_byte_def is_alpha_def is_digit_def)
    qed (simp add: TBare)
  qed simp_all
  then have "contributes cf d st (t_text t) (t_value val t) (t_texts ts @ [])"
    using "6.IH"(1) "6.prems" by simp
  moreover have "contributes cf d st (t_texts ts) (concat (map (t_value val) ts)) []"
    using "6.IH"(2) "6.prems" by simp
  ultimately show ?case by (simp add: contributes_append)
qed

section \<open>Properties\<close>

text \<open>The text that a removal leaves, with the shortest or the longest match of the pattern.\<close>

definition removed :: "string \<Rightarrow> string \<Rightarrow> string \<Rightarrow> string" where
  "removed operator pat v =
     (let n = length v; longest = (length operator = 2) in
      if hd operator = CHR ''#''
      then (case pick longest n (\<lambda>k. take k v \<in> glob_lang (simple_tokens pat)) of None \<Rightarrow> v | Some k \<Rightarrow> drop k v)
      else (case pick longest n (\<lambda>k. drop (n - k) v \<in> glob_lang (simple_tokens pat)) of None \<Rightarrow> v | Some k \<Rightarrow> take (n - k) v))"

text \<open>
  C32 (functional). \<open>${x#pat}\<close>, \<open>##\<close>, \<open>%\<close> and \<open>%%\<close> remove the shortest or longest prefix or suffix in the language of
  the pattern from an ASCII value, and leave the value when there is none; with any character outside
  ASCII in the value the expansion panics, whatever the pattern.
\<close>

theorem pattern_removed:
  assumes "is_valid_identifier x" "operator \<in> {''#'', ''##'', ''%'', ''%%''}" "plain_operand operator pat" "CHR ''$'' \<notin> set pat"
    and "get_var st x = (st, Some v)" "valid_utf8 v"
  shows "expand_parameter cf d (x @ operator @ pat) st =
    (if list_all is_ascii v then Ok (st, removed operator pat v) else Panic ''slice index'')"
proof -
  have op: "operator \<in> param_ops" using assms(2) by (auto simp: param_ops_def)
  have ex: "expand_operand_inner cf (d + 1) pat st = Ok (st, pat)" using assms(4) by (simp add: expand_operand_inner.simps)
  have "expand_parameter cf d (x @ operator @ pat) st =
      expand_param_strip_op (\<lambda>s st. expand_operand_inner cf (d + 1) s st) operator pat v st"
    unfolding parameter_operator [OF assms(1) op assms(3)] using assms(2,5) by (auto simp: expand_param_op_depth_def)
  also have "\<dots> = (if list_all is_ascii v then Ok (st, removed operator pat v) else Panic ''slice index'')"
  proof (cases "list_all is_ascii v")
    case True
    note strip = strip_prefix_ascii [OF True] strip_suffix_ascii [OF True]
    show ?thesis
      using assms(2) True ex
      by (elim insertE emptyE)
        (simp_all add: expand_param_strip_op_def removed_def strip Let_def map_option_case option.case_distrib [of "\<lambda>x. case x of None \<Rightarrow> v | Some s \<Rightarrow> s"] cong: option.case_cong)
  next
    case False
    then show ?thesis
      using assms(2) ex strip_not_ascii [OF assms(6)]
      by (elim insertE emptyE) (simp_all add: expand_param_strip_op_def)
  qed
  finally show ?thesis .
qed

definition plain_case :: case_fns where
  "plain_case = \<lparr>char_upper = (\<lambda>c. [c]), char_lower = (\<lambda>c. [c]), str_upper = id, str_lower = id\<rparr>"

definition demo_vars :: shell_state where
  "demo_vars = set_var_here state_new ''y'' ''a.b.c''"

lemma demo_y: "get_var demo_vars ''y'' = (demo_vars, Some ''a.b.c'')"
  "get_var demo_vars ''x'' = (demo_vars, None)" "get_var demo_vars ''SHOPT_u'' = (demo_vars, None)"
  by (simp add: demo_vars_def, code_simp)+

theorem pattern_removed_witness: "expand_parameter plain_case 0 ''y##*.'' demo_vars = Ok (demo_vars, ''c'')"
proof -
  have "strip_prefix_glob ''a.b.c'' ''*.'' True = Ok (Some ''c'')" by code_simp
  moreover have "list_all is_ascii ''a.b.c''" by (simp add: byte_in_def)
  ultimately have "map_option (\<lambda>n. drop n ''a.b.c'')
      (pick True (length ''a.b.c'') (\<lambda>n. take n ''a.b.c'' \<in> glob_lang (simple_tokens ''*.''))) = Some ''c''"
    using strip_prefix_ascii [of "''a.b.c''" "''*.''" True] by (simp only: result.inject)
  then have "removed ''##'' ''*.'' ''a.b.c'' = ''c''"
    by (simp only: map_option_eq_Some) (elim exE conjE, simp add: removed_def)
  then show ?thesis
    using pattern_removed [of "''y''" "''##''" "''*.''" demo_vars "''a.b.c''" plain_case 0] demo_y(1)
    by (simp add: is_valid_identifier_def name_byte_def is_alpha_def plain_operand_def byte_in_def)
qed

text \<open>
  C31 (functional). A text with references to variables, to variables in braces and to variables with defaults that are
  such texts again, expands to the text with each reference replaced by its value, and by the
  expansion of its default where the variable is unset or empty, up to the nesting the code allows.
\<close>

theorem template_expanded:
  assumes "wf_tparts ts" "quiet_names st val (concat (map t_names ts))" "\<forall>t \<in> set ts. t_depth t \<le> MAX_EXPAND_DEPTH"
  shows "expand_string cf (t_texts ts) st = Ok (st, concat (map (t_value val) ts))"
  using operand_template [OF template_contributes(2) [OF assms(1,2), of 0]] assms(3) by (simp add: expand_string_def)

theorem template_expanded_witness:
  "expand_string plain_case ''<${x:-($y)}>'' demo_vars = Ok (demo_vars, ''<(a.b.c)>'')"
  using template_expanded [of "[TText ''<'', TDefault ''x'' [TText ''('', TBare ''y'', TText '')''], TText ''>'']" demo_vars
      "\<lambda>n. snd (get_var demo_vars n)" plain_case] demo_y
  by (simp add: is_valid_identifier_def name_byte_def is_alpha_def is_digit_def template_char_def byte_in_def quiet_names_def
      MAX_EXPAND_DEPTH_def text_of_def)

text \<open>
  \<open>${x:?message}\<close> of a variable that has a value takes the value for the message: the expansion is empty and
  the shell is left with a fatal error that shows the value.
\<close>

theorem error_operator_inverted:
  assumes "is_valid_identifier x" "plain_operand '':?'' message" "get_var st x = (st, Some v)" "v \<noteq> []"
  shows "expand_parameter cf d (x @ '':?'' @ message) st = Ok (set_fatal_shell_error st v, [])"
  using parameter_operator [OF assms(1) _ assms(2), of cf d st] assms(3,4)
  by (simp add: param_ops_def expand_param_op_depth_def expand_param_default_op_def expand_param_error_value_def
      param_has_value_def text_of_def)

theorem error_operator_witness:
  "expand_parameter plain_case 0 ''y:?unset'' demo_vars = Ok (set_fatal_shell_error demo_vars ''a.b.c'', [])"
  using error_operator_inverted [of "''y''" "''unset''" demo_vars "''a.b.c''" plain_case 0] demo_y(1)
  by (simp add: is_valid_identifier_def name_byte_def is_alpha_def plain_operand_def)

end
