(* ===== verification/Expand_Fields.thy ===== *)
theory Expand_Fields
  imports Expand_Props Arith_Props
begin

text \<open>
  Words and their fields: splitting at separators, the fields of the positional parameters, values that are quoted
  and read back, and two expansions that go wrong.
\<close>

section \<open>Splitting\<close>

text \<open>Fields and the separators around them.\<close>

fun weave :: "scalar list list \<Rightarrow> scalar list list \<Rightarrow> scalar list" where
  "weave [s] [] = s"
| "weave (s # ss) (f # fs) = s @ f @ weave ss fs"
| "weave _ _ = []"

definition separates :: "(scalar \<Rightarrow> bool) \<Rightarrow> scalar list list \<Rightarrow> scalar list list \<Rightarrow> bool" where
  "separates P ss fs \<longleftrightarrow>
     length ss = Suc (length fs) \<and> list_all (list_all P) ss \<and> list_all (\<lambda>f. f \<noteq> [] \<and> list_all (\<lambda>c. \<not> P c) f) fs \<and>
     list_all (\<lambda>s. s \<noteq> []) (butlast (tl ss))"

lemma weave_Cons: "length ss = length fs \<Longrightarrow> weave ((c # s) # ss) fs = c # weave (s # ss) fs"
  by (cases fs; cases ss) simp_all

lemma split_by_not_Nil [simp]: "split_by P cs \<noteq> []"
  by (cases cs) (auto split: list.splits)

lemma split_by_head: "hd (split_by P cs) = [] \<longleftrightarrow> cs = [] \<or> P (hd cs)"
  by (cases cs) (auto split: list.splits)

lemma split_by_weave:
  "\<exists>ss. separates P ss (filter (\<lambda>f. f \<noteq> []) (split_by P cs)) \<and> weave ss (filter (\<lambda>f. f \<noteq> []) (split_by P cs)) = cs \<and>
     (hd ss = [] \<longleftrightarrow> cs = [] \<or> \<not> P (hd cs))"
proof (induction cs)
  case Nil
  show ?case by (intro exI [of _ "[[]]"]) (simp add: separates_def)
next
  case (Cons c cs)
  let ?fs = "filter (\<lambda>f. f \<noteq> []) (split_by P cs)"
  obtain ss where ss: "separates P ss ?fs" "weave ss ?fs = cs" "hd ss = [] \<longleftrightarrow> cs = [] \<or> \<not> P (hd cs)"
    using Cons.IH by blast
  then obtain s ss' where s: "ss = s # ss'" by (cases ss) (auto simp: separates_def)
  show ?case
  proof (cases "P c")
    case True
    have "weave ((c # s) # ss') ?fs = c # cs" using ss(1,2) s weave_Cons [of ss' ?fs] by (simp add: separates_def)
    then show ?thesis
      using True ss s by (intro exI [of _ "(c # s) # ss'"]) (simp add: separates_def)
  next
    case False
    obtain g gs where g: "split_by P cs = g # gs" by (cases "split_by P cs") auto
    show ?thesis
    proof (cases "g = []")
      case True
      then have cs: "cs = [] \<or> P (hd cs)" using split_by_head [of P cs] g by simp
      have "?fs = filter (\<lambda>f. f \<noteq> []) gs" using True g by simp
      moreover have "butlast (s # ss') = [] \<or> s \<noteq> []"
      proof (cases "cs = []")
        case True
        then have "length ss' = 0" using ss(1) s by (auto simp: separates_def)
        then show ?thesis by simp
      qed (use cs ss(3) s in simp)
      ultimately show ?thesis
        using False True g ss s
        by (intro exI [of _ "[] # ss"]) (cases ss', auto simp: separates_def)
    next
      case gn: False
      then have "s = []" using split_by_head [of P cs] g ss(3) s by auto
      moreover have "?fs = g # filter (\<lambda>f. f \<noteq> []) gs" using gn g by simp
      ultimately show ?thesis
        using False g ss s by (intro exI [of _ ss]) (auto simp: separates_def)
    qed
  qed
qed

text \<open>
  C33 (functional). Field splitting cuts the expanded word at runs of separator characters: the fields are nonempty, have
  no separator, and with the separators around them they are the characters of the word.
\<close>

theorem fields_split:
  assumes "expand_word cf w st = Ok (st1, out)" "get_var st1 ''IFS'' = (st2, ifs)" "ifs \<noteq> Some []"
  shows "\<exists>fs ss. expand_word_split cf w st = Ok (st2, map encode_str fs) \<and>
    separates (\<lambda>c. c \<in> set (str_chars (case ifs of None \<Rightarrow> [CHR 0x20, CHR 0x09, CHR 0x0A] | Some s \<Rightarrow> s))) ss fs \<and>
    weave ss fs = str_chars out"
proof -
  let ?ifs = "case ifs of None \<Rightarrow> [CHR 0x20, CHR 0x09, CHR 0x0A] | Some s \<Rightarrow> s"
  let ?P = "\<lambda>c. c \<in> set (str_chars ?ifs)"
  obtain ss where ss: "separates ?P ss (filter (\<lambda>f. f \<noteq> []) (split_by ?P (str_chars out)))"
      "weave ss (filter (\<lambda>f. f \<noteq> []) (split_by ?P (str_chars out))) = str_chars out"
    using split_by_weave by blast
  have "?ifs \<noteq> []" using assms(3) by (auto split: option.splits)
  then have "expand_word_split cf w st = Ok (st2, map encode_str (filter (\<lambda>f. f \<noteq> []) (split_by ?P (str_chars out))))"
    using assms(1,2) by (auto simp: expand_word_split_def str_chars_def Let_def)
  then show ?thesis using ss by blast
qed

theorem fields_split_witness:
  "\<exists>fs ss. expand_word_split plain_case \<lparr>word_parts = [Literal ''a b''], word_span = \<lparr>span_start = 0, span_end = 3\<rparr>\<rparr> state_new =
     Ok (state_new, map encode_str fs) \<and> weave ss fs = str_chars ''a b''"
proof -
  have "expand_word plain_case \<lparr>word_parts = [Literal ''a b''], word_span = \<lparr>span_start = 0, span_end = 3\<rparr>\<rparr> state_new = Ok (state_new, ''a b'')"
    by (simp add: expand_word_def tilde_expand_def has_tilde_def)
  moreover have "get_var state_new ''IFS'' = (state_new, None)" by code_simp
  ultimately show ?thesis
    using fields_split [of plain_case "\<lparr>word_parts = [Literal ''a b''], word_span = \<lparr>span_start = 0, span_end = 3\<rparr>\<rparr>" state_new state_new "''a b''" state_new None]
    by blast
qed

section \<open>Positional parameters\<close>

text \<open>
  The texts of a word with \<open>"$@"\<close> between two literals.
\<close>

definition at_fields :: "string \<Rightarrow> string list \<Rightarrow> string \<Rightarrow> string list" where
  "at_fields u ps v =
     (if ps = [] then (if u @ v = [] then [] else [u @ v])
      else (let xs = (u @ hd ps) # tl ps in butlast xs @ [last xs @ v]))"

definition word_with_at :: "string \<Rightarrow> string \<Rightarrow> span \<Rightarrow> shell_word" where
  "word_with_at u v sp = \<lparr>word_parts = [Literal u, DoubleQuoted [Parameter ''@''], Literal v], word_span = sp\<rparr>"

text \<open>
  C34 (functional). A word with \<open>"$@"\<close> in it becomes one field per positional parameter, with the text before it joined to
  the first and the text behind it to the last; without parameters and text it disappears.
\<close>

theorem positional_fields:
  "\<exists>fs. expand_words_argv cf [word_with_at u v sp] st = Ok (st, fs) \<and> map ew_text fs = at_fields u (positional st) v"
proof -
  have atoms: "collect_multi_atoms cf False 0 (word_parts (word_with_at u v sp)) st =
      Ok (st, [TextAtom u False, FieldsAtom (positional st) True, TextAtom v False])"
    by (simp add: word_with_at_def MAX_EXPAND_DEPTH_def array_multi_expansion_def)
  have multi: "word_has_multi_field_parameter (word_parts (word_with_at u v sp))"
    by (simp add: word_with_at_def is_multi_field_parameter_name_def)
  let ?atoms = "[TextAtom u False, FieldsAtom (positional st) True, TextAtom v False]"
  obtain ms had where r: "fold push_atom ?atoms ([([], [])], False) = (ms, had)" by (cases "fold push_atom ?atoms ([([], [])], False)")
  then have ms: "if \<not> had \<and> length ms = 1 \<and> fst (hd ms) = [] then at_fields u (positional st) v = []
      else map fst ms = at_fields u (positional st) v"
    by (cases "positional st"; cases "u = []"; cases "v = []")
      (auto simp: push_last_def push_masked_def masked_text_def at_fields_def comp_def map_butlast last_map)
  have "expand_word_multi cf (word_with_at u v sp) st =
      Ok (st, Some (if \<not> had \<and> length ms = 1 \<and> fst (hd ms) = [] then [] else map expanded_of ms))"
    unfolding expand_word_multi_def atoms result_bind_simps prod.case r by simp
  moreover have "map ew_text (map expanded_of ms) = map fst ms" by (simp add: expanded_of_def)
  then have "map ew_text (if \<not> had \<and> length ms = 1 \<and> fst (hd ms) = [] then [] else map expanded_of ms) = at_fields u (positional st) v"
    using ms by (cases "\<not> had \<and> length ms = 1 \<and> fst (hd ms) = []") (simp_all only: if_True if_False list.map simp_thms)
  ultimately obtain fs where "expand_word_multi cf (word_with_at u v sp) st = Ok (st, Some fs)" "map ew_text fs = at_fields u (positional st) v"
    by blast
  then show ?thesis using multi by simp
qed

section \<open>Quoted values\<close>

text \<open>The parts of a value in quotes: its pieces between single quotes, and escaped single quotes.\<close>

fun quoted_parts :: "string list \<Rightarrow> word_part list" where
  "quoted_parts [] = []"
| "quoted_parts [p] = [SingleQuoted p]"
| "quoted_parts (p # q # ps) = SingleQuoted p # Literal [ch_squote] # quoted_parts (q # ps)"

definition escaped :: "string \<Rightarrow> string" where
  "escaped v = concat (map (\<lambda>c. if c = ch_squote then [ch_squote, ch_backslash, ch_squote, ch_squote] else [c]) v)"

lemma quote_value_escaped: "quote_value v = ch_squote # escaped v @ [ch_squote]"
  by (simp add: quote_value_def escaped_def)

lemma quoted_parts_Cons:
  "ps \<noteq> [] \<Longrightarrow> quoted_parts (p # ps) = SingleQuoted p # Literal [ch_squote] # quoted_parts ps"
  by (cases ps) simp_all

lemma quoted_parts_text: "print_word (quoted_parts (split_on ch_squote v)) = quote_value v"
proof (induction v)
  case Nil
  then show ?case by (simp add: print_word_def quote_value_def)
next
  case (Cons c v)
  obtain p ps where p: "split_on ch_squote v = p # ps" by (cases "split_on ch_squote v") auto
  show ?case
  proof (cases "c = ch_squote")
    case True
    then show ?thesis using Cons
      by (simp add: quoted_parts_Cons print_word_def quote_value_escaped escaped_def escape_if_def word_specials_def)
  next
    case False
    have "print_word (quoted_parts ((c # p) # ps)) = ch_squote # c # tl (print_word (quoted_parts (p # ps)))"
      by (cases ps) (simp_all add: print_word_def)
    then show ?thesis using Cons False p by (simp add: quote_value_escaped escaped_def)
  qed
qed

lemma split_valid: "valid_utf8 s \<Longrightarrow> is_ascii c \<Longrightarrow> p \<in> set (split_on c s) \<Longrightarrow> valid_utf8 p"
proof (induction "length s" arbitrary: s rule: less_induct)
  case less
  show ?case
  proof (cases "c \<in> set s")
    case False
    then show ?thesis using less.prems by (simp add: split_on_plain)
  next
    case True
    then obtain a b where s: "s = a @ c # b" "c \<notin> set a" using split_list_first [of c s] by blast
    have b1: "is_char_boundary s (length a)" using boundary_at_ascii [of "length a" s] s less.prems(2) by simp
    have b2: "is_char_boundary s (Suc (length a))"
      using boundary_after_ascii [of s "length a"] s less.prems(1,2) by simp
    have "valid_utf8 a" "valid_utf8 b"
      using valid_utf8_split [OF less.prems(1) _ b1] valid_utf8_split [OF less.prems(1) _ b2] s(1) by simp_all
    then show ?thesis
      using less.prems(2,3) less.hyps [of b] s by (auto simp: split_on_append_sep split_on_plain)
  qed
qed

lemma join_split: "join_with [c] (split_on c s) = s"
proof (induction s)
  case (Cons a s)
  obtain p ps where "split_on c s = p # ps" by (cases "split_on c s") auto
  then show ?case using Cons by (cases ps) auto
qed simp

lemma quoted_parts_printable:
  "(\<And>p. p \<in> set ps \<Longrightarrow> ch_squote \<notin> set p \<and> valid_utf8 p) \<Longrightarrow> list_all outer_part (quoted_parts ps) \<and> apart (quoted_parts ps)"
proof (induction ps rule: quoted_parts.induct)
  case (3 p q ps)
  then have IH: "list_all outer_part (quoted_parts (q # ps)) \<and> apart (quoted_parts (q # ps))" by simp
  moreover have "\<exists>r rs. quoted_parts (q # ps) = SingleQuoted r # rs" by (cases ps) simp_all
  ultimately show ?case using "3.prems" by (auto simp: byte_in_def)
qed simp_all

lemma quoted_parts_expand:
  "expand_parts_depth cf d (quoted_parts ps) st = Ok (st, join_with [ch_squote] ps)"
  by (induction ps rule: quoted_parts.induct) simp_all

lemma parameter_quoted:
  assumes x: "is_valid_identifier x" and v: "get_var st x = (st, Some v)"
  shows "expand_parameter cf d (x @ ''@Q'') st = Ok (st, quote_value v)"
proof -
  let ?name = "x @ ''@Q''"
  have absent: "CHR ''['' \<notin> set ?name"
    using identifier_plain(1) [OF x, of "CHR ''[''"] by simp
  have starts: "\<not> starts_with CHR ''#'' ?name" "\<not> starts_with CHR ''!'' ?name"
    using identifier_plain(2) [OF x, of "CHR ''#''"] identifier_plain(2) [OF x, of "CHR ''!''"] by simp_all
  have at: "\<not> name_byte CHR ''@''" by (simp add: name_byte_def is_alpha_def is_digit_def)
  have tw: "takeWhile name_byte ?name = x" "dropWhile name_byte ?name = ''@Q''"
    using x at by (simp_all add: is_valid_identifier_def takeWhile_append dropWhile_append list_all_iff)
  have case_mod: "try_case_modification cf ?name st = (st, None)"
    unfolding try_case_modification_def tw Let_def by (simp add: parse_case_modifier_def)
  have "length x \<noteq> 0" using x by (simp add: is_valid_identifier_def)
  then have "try_transform_operator cf ?name st = (st, Some (quote_value v))"
    using x v by (auto simp: try_transform_operator_def nth_append)
  then show ?thesis
    using absent starts case_mod
    by (simp add: expand_parameter.simps [of cf d] expand_parameter_with_def or_else_def no_array_form try_expand_string_length_def
        try_expand_indirect_or_prefix_def)
qed

text \<open>
  C35 (roundtrip). \<open>${x@Q}\<close> is a word of the shell that stands for the value of the variable: the word parser reads it, and
  the expansion of that word gives the value back, whatever characters it has, unless it is a tilde or begins with a tilde
  and a slash.
\<close>

theorem quoted_value_read_back:
  assumes "is_valid_identifier x" "get_var st x = (st, Some v)" "valid_utf8 v" "\<not> has_tilde v"
  shows "\<exists>q ps. expand_parameter cf d (x @ ''@Q'') st = Ok (st, q) \<and> parse_word_parts q = Ok ps \<and>
    expand_word cf \<lparr>word_parts = ps, word_span = sp\<rparr> st = Ok (st, v)"
proof -
  let ?ps = "quoted_parts (split_on ch_squote v)"
  have ok: "list_all outer_part ?ps \<and> apart ?ps"
    using split_on_no_sep split_valid [OF assms(3), of ch_squote] by (intro quoted_parts_printable) (auto simp: byte_in_def)
  have "valid_utf8 (print_word ?ps)"
    using ok by (auto simp: print_word_def list_all_iff intro!: valid_utf8_concat valid_outer)
  then have "parse_word_parts (quote_value v) = Ok ?ps"
    using word_read_back [of "quote_value v" ?ps "[]" 0 "[]"] ok quoted_parts_text [of v]
    by (simp add: parse_word_parts_def flush_def)
  moreover have "expand_word cf \<lparr>word_parts = ?ps, word_span = sp\<rparr> st = Ok (st, v)"
    using assms(4) by (simp add: expand_word_def tilde_expand_def quoted_parts_expand join_split)
  ultimately show ?thesis using parameter_quoted [OF assms(1,2), of cf d] by blast
qed

theorem quoted_value_witness:
  "\<exists>q ps. expand_parameter plain_case 0 ''y@Q'' demo_vars = Ok (demo_vars, q) \<and> parse_word_parts q = Ok ps \<and>
    expand_word plain_case \<lparr>word_parts = ps, word_span = \<lparr>span_start = 0, span_end = 7\<rparr>\<rparr> demo_vars = Ok (demo_vars, ''a.b.c'')"
  using quoted_value_read_back [of "''y''" demo_vars "''a.b.c''" plain_case 0 "\<lparr>span_start = 0, span_end = 7\<rparr>"] demo_y(1)
  by (simp add: has_tilde_def is_valid_identifier_def name_byte_def is_alpha_def byte_in_def)

section \<open>Quoted tildes and repeated evaluation\<close>

text \<open>
  A quoted tilde is expanded like an unquoted one: the argument \<open>'~/...'\<close> becomes the home directory followed by
  the rest, and it no longer counts as quoted.
\<close>

theorem quoted_tilde_expanded:
  assumes "get_var st ''HOME'' = (st, Some home)"
  shows "expand_words_argv cf [\<lparr>word_parts = [SingleQuoted (''~/'' @ s)], word_span = sp\<rparr>] st =
    Ok (st, [\<lparr>ew_text = home @ ''/'' @ s, was_quoted = False, ew_literal = replicate (length (home @ ''/'' @ s)) False\<rparr>])"
  using assms
  by (simp add: expand_word_masked_def expand_part_masked.simps tilde_expand_def has_tilde_def masked_text_def push_masked_def
      expanded_of_def MAX_EXPAND_DEPTH_def list_ex_iff)

theorem quoted_tilde_witness:
  "expand_words_argv plain_case [\<lparr>word_parts = [SingleQuoted ''~/a''], word_span = \<lparr>span_start = 0, span_end = 5\<rparr>\<rparr>]
     (set_var_here state_new ''HOME'' ''/root'') =
   Ok (set_var_here state_new ''HOME'' ''/root'',
       [\<lparr>ew_text = ''/root/a'', was_quoted = False, ew_literal = replicate 7 False\<rparr>])"
proof -
  have "get_var (set_var_here state_new ''HOME'' ''/root'') ''HOME'' = (set_var_here state_new ''HOME'' ''/root'', Some ''/root'')"
    by code_simp
  from quoted_tilde_expanded [OF this, of plain_case "''a''"] show ?thesis by (simp add: numeral_eq_Suc)
qed

lemma find_str_at: "hd pat \<notin> set s \<Longrightarrow> pat \<noteq> [] \<Longrightarrow> find_str pat (s @ pat @ r) = Some (length s)"
proof (induction s)
  case Nil
  then show ?case by (simp add: find_str.simps)
next
  case (Cons c s)
  have "\<not> prefix pat ((c # s) @ pat @ r)" using Cons.prems by (cases pat) auto
  moreover have "find_str pat (s @ pat @ r) = Some (length s)" using Cons by simp
  ultimately show ?case by (subst find_str.simps) simp
qed

lemma length_name:
  assumes "is_valid_identifier a"
  shows "expand_parameter cf d (''#'' @ a @ ''[@]'') st = Ok (st, show_nat (get_array_length st a))"
    "array_multi_expansion (''#'' @ a @ ''[@]'') st = None" "is_multi_field_parameter_name (''#'' @ a @ ''[@]'')"
proof -
  have a: "CHR ''['' \<notin> set a" "a \<noteq> []" using identifier_plain(1) [OF assms, of "CHR ''[''"] assms by (auto simp: is_valid_identifier_def)
  have strip: "strip_array_glob_suffix (a @ ''[@]'') = Some a"
    using a(2) by (simp add: strip_array_glob_suffix_def strip_suffix_def suffix_def)
  show "expand_parameter cf d (''#'' @ a @ ''[@]'') st = Ok (st, show_nat (get_array_length st a))"
    using strip by (simp add: expand_parameter.simps [of cf d] expand_parameter_with_def or_else_def try_expand_array_subscript_def
        try_expand_array_length_or_keys_def starts_with_def)
  have "find_char CHR ''['' (''#'' @ a @ ''[@]'') = Some (length (''#'' @ a))"
    using find_char_at [of "CHR ''[''" "''#'' @ a" "''@]''"] a(1) by simp
  moreover have "find_char CHR '']'' (drop (length (''#'' @ a)) (''#'' @ a @ ''[@]'')) = Some 2"
    using find_char_at [of "CHR '']''" "''[@''" "[]"] by simp
  ultimately have "subscript (''#'' @ a @ ''[@]'') = Some (''#'' @ a, ''@'', [])" by (simp add: subscript_def)
  then show "array_multi_expansion (''#'' @ a @ ''[@]'') st = None" by (simp add: array_multi_expansion_def starts_with_def)
  have "find_str ''[@]'' (''#'' @ a @ ''[@]'') = Some (length (''#'' @ a))"
    using find_str_at [of "''[@]''" "''#'' @ a" "[]"] a(1) by simp
  then show "is_multi_field_parameter_name (''#'' @ a @ ''[@]'')" by (simp add: is_multi_field_parameter_name_def)
qed

lemma no_tilde_number: "\<not> has_tilde (show_nat n @ s)"
  using show_nat_digits [of n] by (cases "show_nat n") (auto simp: has_tilde_def is_digit_def)

text \<open>
  A word with \<open>${#a[@]}\<close> is expanded twice, because the name passes the test for several fields and then has
  none: an arithmetic expansion in the same word is evaluated twice, with its effects.
\<close>

theorem length_word_expanded_twice:
  assumes "is_valid_identifier a" "show_arith cf e st = Ok (st1, v1)" "show_arith cf e st1 = Ok (st2, v2)"
  shows "\<exists>f. expand_words_argv cf [\<lparr>word_parts = [Parameter (''#'' @ a @ ''[@]''), Arithmetic e], word_span = sp\<rparr>] st =
    Ok (st2, [f]) \<and> ew_text f = show_nat (get_array_length st1 a) @ v2"
proof -
  let ?w = "\<lparr>word_parts = [Parameter (''#'' @ a @ ''[@]''), Arithmetic e], word_span = sp\<rparr>"
  note name = length_name [OF assms(1), simplified]
  have multi: "expand_word_multi cf ?w st = Ok (st1, None)"
    using assms(2) name by (simp add: expand_word_multi_def MAX_EXPAND_DEPTH_def)
  have single: "expand_word_masked cf ?w st1 =
      Ok (st2, push_masked (masked_text (show_nat (get_array_length st1 a)) False) (push_masked (masked_text v2 False) ([], [])))"
    using assms(3) name no_tilde_number
    by (simp add: expand_word_masked_def expand_part_masked.simps MAX_EXPAND_DEPTH_def tilde_expand_def push_masked_def masked_text_def)
  show ?thesis
    using multi single name(3) by (simp add: expanded_of_def push_masked_def masked_text_def)
qed

lemma step_twice:
  "\<exists>st1 st2. show_arith cf ''i ++'' state_new = Ok (st1, ''0'') \<and> show_arith cf ''i ++'' st1 = Ok (st2, ''1'')"
proof -
  let ?e = "PostStep True ''i''"
  have e: "exp_text ?e = ''i ++''" "wf_exp ?e" "list_all printable_token (tokens_of ?e)" "need ?e \<le> MAX_ARITH_DEPTH"
    by (simp_all add: exp_text_def step_token_def var_name_def name_byte_def is_digit_def is_alpha_def MAX_ARITH_DEPTH_def)
  have shown: "show_arith cf ''i ++'' st = result_bind (meaning ?e st) (\<lambda>(st1, v). Ok (st1, show_i64 v))" for st
    using eval_meaning [OF e(2-4), of "expand_parameter cf 0" st] by (simp add: show_arith_def e(1))
  have n: "show_nat 1 = ''1''" "show_nat 0 = ''0''" by code_simp+
  have s: "show_int 1 = ''1''" "show_int 0 = ''0''" "parse_i64 ''1'' = Some 1"
    using parse_i64_show_nat [of 1] n by (simp_all add: show_int_def)
  let ?s1 = "set_var_here state_new ''i'' ''1''" and ?s2 = "set_var_here (set_var_here state_new ''i'' ''1'') ''i'' (show_int 2)"
  have "get_var state_new ''i'' = (state_new, None)" "get_var ?s1 ''i'' = (?s1, Some ''1'')"
    "set_var_ref (env state_new) ''i'' = None" "set_var_ref (env ?s1) ''i'' = None" by code_simp+
  then have "meaning ?e state_new = Ok (?s1, 0)" "meaning ?e ?s1 = Ok (?s2, 1)"
    by (simp_all add: read_var_def write_var_def s set_var.simps)
  then show ?thesis using shown by (auto simp: show_i64_def show_i_def s)
qed

theorem length_word_witness:
  "\<exists>f st. expand_words_argv plain_case [\<lparr>word_parts = [Parameter ''#a[@]'', Arithmetic ''i ++''], word_span = \<lparr>span_start = 0, span_end = 5\<rparr>\<rparr>]
     state_new = Ok (st, [f]) \<and> (\<exists>n. ew_text f = show_nat n @ ''1'')"
proof -
  obtain st1 st2 where st: "show_arith plain_case ''i ++'' state_new = Ok (st1, ''0'')" "show_arith plain_case ''i ++'' st1 = Ok (st2, ''1'')"
    using step_twice by blast
  have "is_valid_identifier ''a''" by (simp add: is_valid_identifier_def name_byte_def is_alpha_def)
  from length_word_expanded_twice [OF this st] show ?thesis by fastforce
qed

end
