(* ===== verification/Stream_Sed.thy ===== *)
theory Stream_Sed
  imports Stream_Lines Expand_Glob
begin

text \<open>
  The filter \<open>sed\<close> of the streaming pipelines (\<^verbatim>\<open>wasmsh-runtime/streaming_sed.rs\<close>): scripts, addresses,
  substitution and the reader with one line of lookahead.  The crate \<open>posix_regex\<close> is an argument: a pattern compiles to
  a function that maps a text to the groups of its leftmost match, or does not compile.
\<close>

section \<open>Scripts\<close>

record sed_substitute =
  sub_pattern :: string
  sub_replacement :: string
  sub_global :: bool

datatype sed_addr = AddrNone | AddrLine nat | AddrLast | AddrRegex string | AddrRange sed_addr sed_addr

datatype sed_cmd =
  Substitute sed_substitute
| Delete
| Print
| Transliterate "scalar list" "scalar list"
| AppendText string
| InsertText string
| ChangeText string
| Quit

record sed_instruction =
  instr_addr :: sed_addr
  instr_cmd :: sed_cmd

record sed_stage =
  suppress_print :: bool
  instructions :: "sed_instruction list"

definition parse_streaming_sed_substitute :: "string \<Rightarrow> (sed_substitute option, unit) result" where
  "parse_streaming_sed_substitute expr =
     (if \<not> prefix ''s'' expr \<or> length expr < 4 then Ok None
      else result_bind (str_slice expr 2 (length expr)) (\<lambda>rest.
        let parts = split_on (expr ! 1) rest in
        if length parts < 2 then Ok None
        else Ok (Some \<lparr>sub_pattern = parts ! 0, sub_replacement = parts ! 1,
               sub_global = (2 < length parts \<and> CHR ''g'' \<in> set (parts ! 2))\<rparr>)))"

text \<open>The address at the start of a text, before a comma makes it a range.\<close>

definition single_addr :: "string \<Rightarrow> (sed_addr \<times> string) option" where
  "single_addr s =
     (case (if prefix ''/'' s then find_char CHR ''/'' (tl s) else None) of
        Some n \<Rightarrow> Some (AddrRegex (take n (tl s)), drop (Suc n) (tl s))
      | None \<Rightarrow>
          (if prefix ''$'' s then Some (AddrLast, tl s)
           else
             (let digits = takeWhile is_digit s in
              if digits = [] then None
              else map_option (\<lambda>n. (AddrLine (unat n), dropWhile is_digit s)) (parse_usize digits))))"

lemma single_addr_shorter: "single_addr s = Some (a, rest) \<Longrightarrow> length rest < length s"
  by (cases s) (auto simp: single_addr_def Let_def less_Suc_eq_le length_dropWhile_le split: option.splits if_splits)

function parse_streaming_sed_addr :: "string \<Rightarrow> sed_addr \<times> string" where
  "parse_streaming_sed_addr s =
     (case single_addr s of
        None \<Rightarrow> (AddrNone, s)
      | Some ar \<Rightarrow>
          (if prefix '','' (snd ar)
           then (let (addr2, rest2) = parse_streaming_sed_addr (tl (snd ar)) in (AddrRange (fst ar) addr2, rest2))
           else ar))"
  by pat_completeness auto
termination
proof (relation "measure length")
  fix s ar assume "single_addr s = Some ar" "prefix '','' (snd ar)"
  then show "(tl (snd ar), s) \<in> measure length" using single_addr_shorter [of s "fst ar" "snd ar"] by simp
qed simp

declare parse_streaming_sed_addr.simps [simp del]

definition parse_streaming_sed_cmd :: "string \<Rightarrow> (sed_cmd option, unit) result" where
  "parse_streaming_sed_cmd rest =
     (if prefix ''s'' rest then result_bind (parse_streaming_sed_substitute rest) (\<lambda>sub. Ok (map_option Substitute sub))
      else if rest = ''d'' then Ok (Some Delete)
      else if rest = ''p'' then Ok (Some Print)
      else if rest = ''q'' then Ok (Some Quit)
      else if prefix ''y/'' rest \<or> prefix ''y|'' rest then
        (let parts = split_on (rest ! 1) (drop 2 rest) in
         Ok (if length parts < 2 then None else Some (Transliterate (str_chars (parts ! 0)) (str_chars (parts ! 1)))))
      else Ok (case strip_prefix [CHR ''a'', CHR 0x5C] rest of
          Some s \<Rightarrow> Some (AppendText (trim_start s))
        | None \<Rightarrow> (case strip_prefix [CHR ''i'', CHR 0x5C] rest of
            Some s \<Rightarrow> Some (InsertText (trim_start s))
          | None \<Rightarrow> map_option (\<lambda>s. ChangeText (trim_start s)) (strip_prefix [CHR ''c'', CHR 0x5C] rest))))"

fun parse_sed_parts :: "string list \<Rightarrow> (sed_instruction list, unit) result" where
  "parse_sed_parts [] = Ok []"
| "parse_sed_parts (part # parts) =
     (let part = trim part in
      if part = [] then parse_sed_parts parts
      else
        (let (addr, rest) = parse_streaming_sed_addr part in
         result_bind (parse_streaming_sed_cmd (trim rest)) (\<lambda>cmd.
           result_bind (parse_sed_parts parts) (\<lambda>is.
             Ok ((case cmd of None \<Rightarrow> [] | Some c \<Rightarrow> [\<lparr>instr_addr = addr, instr_cmd = c\<rparr>]) @ is)))))"

definition parse_streaming_sed_script :: "string \<Rightarrow> (sed_instruction list, unit) result" where
  "parse_streaming_sed_script script = parse_sed_parts (split_on CHR '';'' script)"

section \<open>Addresses\<close>

type_synonym regex = "string \<Rightarrow> (nat \<times> nat) option list option"
type_synonym regex_compiler = "string \<Rightarrow> regex option"

definition streaming_simple_grep_match :: "string \<Rightarrow> string \<Rightarrow> bool" where
  "streaming_simple_grep_match line pattern =
     (if prefix ''^'' pattern then
        (let rest = tl pattern in if suffix ''$'' rest then line = butlast rest else prefix rest line)
      else if suffix ''$'' pattern then suffix (butlast pattern) line
      else find_str pattern line \<noteq> None)"

text \<open>Whether an address selects a line, and the new state of its range.\<close>

fun streaming_sed_addr_matches :: "regex_compiler \<Rightarrow> sed_addr \<Rightarrow> nat \<Rightarrow> bool \<Rightarrow> string \<Rightarrow> bool \<Rightarrow> bool \<times> bool" where
  "streaming_sed_addr_matches compile AddrNone n is_last line in_range = (True, in_range)"
| "streaming_sed_addr_matches compile (AddrLine k) n is_last line in_range = (n = k, in_range)"
| "streaming_sed_addr_matches compile AddrLast n is_last line in_range = (is_last, in_range)"
| "streaming_sed_addr_matches compile (AddrRegex pat) n is_last line in_range =
     (case compile pat of None \<Rightarrow> streaming_simple_grep_match line pat | Some re \<Rightarrow> re line \<noteq> None, in_range)"
| "streaming_sed_addr_matches compile (AddrRange first_addr last_addr) n is_last line in_range =
     (if in_range then (True, \<not> fst (streaming_sed_addr_matches compile last_addr n is_last line False))
      else if fst (streaming_sed_addr_matches compile first_addr n is_last line False) then (True, True)
      else (False, False))"

section \<open>Substitution\<close>

definition streaming_sed_has_trailing_anchor :: "string \<Rightarrow> bool" where
  "streaming_sed_has_trailing_anchor pattern \<longleftrightarrow>
     suffix ''$'' pattern \<and> even (length (takeWhile (\<lambda>c. c = CHR 0x5C) (rev (butlast pattern))))"

definition streaming_sed_split_anchors :: "string \<Rightarrow> string \<times> bool \<times> bool" where
  "streaming_sed_split_anchors pattern =
     (let anchored_start = prefix ''^'' pattern;
          pat = (if anchored_start then tl pattern else pattern);
          anchored_end = streaming_sed_has_trailing_anchor pat
      in (if anchored_end then butlast pat else pat, anchored_start, anchored_end))"

record sed_match =
  match_start :: nat
  match_end :: nat
  match_groups :: "(nat \<times> nat) option list"

definition leading_char :: "string \<Rightarrow> string" where
  "leading_char s = (case str_chars s of [] \<Rightarrow> [CHR 0x00] | c # _ \<Rightarrow> encode_utf8 c)"

lemma leading_char_pos: "0 < length (leading_char s)"
  by (auto simp: leading_char_def split: list.split)

text \<open>The match that the regular expression finds from an index on, if the anchors accept it.\<close>

definition anchored_match :: "regex \<Rightarrow> bool \<Rightarrow> bool \<Rightarrow> nat \<Rightarrow> nat \<Rightarrow> string \<Rightarrow> sed_match option" where
  "anchored_match re anchored_start anchored_end len pos remaining =
     (case re remaining of
        Some (Some (rs, re_end) # groups) \<Rightarrow>
          (if (anchored_start \<longrightarrow> pos + rs = 0) \<and> (anchored_end \<longrightarrow> pos + re_end = len)
           then Some \<lparr>match_start = pos + rs, match_end = pos + re_end,
                  match_groups = map (map_option (\<lambda>(s, e). (pos + s, pos + e))) (Some (rs, re_end) # groups)\<rparr>
           else None)
      | _ \<Rightarrow> None)"

function find_match_loop :: "regex \<Rightarrow> bool \<Rightarrow> bool \<Rightarrow> string \<Rightarrow> nat \<Rightarrow> (sed_match option, unit) result" where
  "find_match_loop re anchored_start anchored_end s pos =
     (if length s < pos then Ok None
      else result_bind (str_slice s pos (length s)) (\<lambda>remaining.
        case anchored_match re anchored_start anchored_end (length s) pos remaining of
          Some m \<Rightarrow> Ok (Some m)
        | None \<Rightarrow>
            (if anchored_start \<or> pos = length s then Ok None
             else find_match_loop re anchored_start anchored_end s
                    (pos + (if remaining = [] then 1 else length (leading_char remaining))))))"
  by pat_completeness auto
termination
proof (relation "measure (\<lambda>(re, a, z, s, pos). length s - pos)", goal_cases)
  case (2 re a z s pos remaining)
  then have "pos < length s" by simp
  moreover have "0 < (if remaining = [] then 1 else length (leading_char remaining))" using leading_char_pos [of remaining] by simp
  ultimately show ?case by (simp only: in_measure case_prod_conv)
qed simp

declare find_match_loop.simps [simp del]

definition streaming_sed_find_match :: "regex \<Rightarrow> bool \<Rightarrow> bool \<Rightarrow> string \<Rightarrow> nat \<Rightarrow> (sed_match option, unit) result" where
  "streaming_sed_find_match re anchored_start anchored_end s from =
     find_match_loop re anchored_start anchored_end s (if anchored_start then 0 else from)"

text \<open>\<open>str::get\<close> of the range of a group.\<close>

definition group_text :: "string \<Rightarrow> (nat \<times> nat) option list \<Rightarrow> nat \<Rightarrow> string" where
  "group_text s groups i =
     (if i < length groups then
        (case groups ! i of
           None \<Rightarrow> []
         | Some (b, e) \<Rightarrow> (case (str_slice s b e :: (string, unit) result) of Ok t \<Rightarrow> t | _ \<Rightarrow> []))
      else [])"

fun streaming_sed_expand_replacement :: "string \<Rightarrow> (nat \<times> nat) option list \<Rightarrow> scalar list \<Rightarrow> string" where
  "streaming_sed_expand_replacement s groups [] = []"
| "streaming_sed_expand_replacement s groups (c # cs) =
     (if c = 92 then
        (case cs of
           [] \<Rightarrow> [CHR 0x5C]
         | d # ds \<Rightarrow>
             (if 48 \<le> d \<and> d \<le> 57 then group_text s groups (d - 48)
              else if d = 110 then [CHR 0x0A]
              else if d = 116 then [CHR 0x09]
              else encode_utf8 d) @ streaming_sed_expand_replacement s groups ds)
      else (if c = 38 then group_text s groups 0 else encode_utf8 c) @ streaming_sed_expand_replacement s groups cs)"

text \<open>The loop of the substitution: the cursor and the text so far when it ends.\<close>

function substitute_loop ::
  "regex \<Rightarrow> string \<Rightarrow> bool \<Rightarrow> bool \<Rightarrow> bool \<Rightarrow> string \<Rightarrow> nat \<Rightarrow> bool \<Rightarrow> string \<Rightarrow> (nat \<times> string, unit) result" where
  "substitute_loop re replacement global anchored_start anchored_end s cursor suppress_empty_here out =
     result_bind (streaming_sed_find_match re anchored_start anchored_end s cursor) (\<lambda>found.
       case found of
         None \<Rightarrow> Ok (cursor, out)
       | Some m \<Rightarrow>
           (if match_start m = match_end m \<and> suppress_empty_here \<and> match_start m = cursor then
              (if length s \<le> cursor then Ok (cursor, out)
               else result_bind (str_slice s cursor (length s)) (\<lambda>rest.
                 substitute_loop re replacement global anchored_start anchored_end s
                   (cursor + length (leading_char rest)) False (out @ leading_char rest)))
            else result_bind (str_slice s cursor (match_start m)) (\<lambda>between.
              let out1 = out @ between @ streaming_sed_expand_replacement s (match_groups m) (str_chars replacement) in
              if match_start m < match_end m then
                (if global
                 then substitute_loop re replacement global anchored_start anchored_end s (match_end m) True out1
                 else Ok (match_end m, out1))
              else if length s \<le> match_start m then Ok (match_end m, out1)
              else result_bind (str_slice s (match_start m) (length s)) (\<lambda>rest.
                if global
                then substitute_loop re replacement global anchored_start anchored_end s
                       (match_start m + length (leading_char rest)) False (out1 @ leading_char rest)
                else Ok (match_start m + length (leading_char rest), out1 @ leading_char rest)))))"
  by pat_completeness auto
termination
proof (relation "measure (\<lambda>(re, replacement, global, a, z, s, cursor, sup, out). Suc (length s) - cursor)", goal_cases)
  case (2 re replacement global a z s cursor sup out found m rest)
  then have "cursor < length s" by simp
  then show ?case using leading_char_pos [of rest] by (simp only: in_measure case_prod_conv)
next
  case (3 re replacement global a z s cursor sup out found m between out1)
  then show ?case by (auto simp: str_slice_def split: if_splits)
next
  case (4 re replacement global a z s cursor sup out found m between out1 rest)
  then have "cursor \<le> match_start m" "match_start m < length s" by (auto simp: str_slice_def split: if_splits)
  then show ?case using leading_char_pos [of rest] by (simp only: in_measure case_prod_conv)
qed simp

declare substitute_loop.simps [simp del]

definition streaming_sed_substitute_regex ::
  "string \<Rightarrow> regex \<Rightarrow> string \<Rightarrow> bool \<Rightarrow> bool \<Rightarrow> bool \<Rightarrow> (string, unit) result" where
  "streaming_sed_substitute_regex s re replacement global anchored_start anchored_end =
     result_bind (substitute_loop re replacement global anchored_start anchored_end s 0 False []) (\<lambda>(cursor, out).
       if cursor \<le> length s then result_bind (str_slice s cursor (length s)) (\<lambda>rest. Ok (out @ rest)) else Ok out)"

definition streaming_sed_substitute_empty :: "string \<Rightarrow> string \<Rightarrow> bool \<Rightarrow> bool \<Rightarrow> string" where
  "streaming_sed_substitute_empty s replacement anchored_start anchored_end =
     (if anchored_start \<and> anchored_end then (if s = [] then replacement else s)
      else
        (let k = (if anchored_end then length s else 0) in take k s @ replacement @ drop k s))"

definition streaming_sed_substitute :: "regex_compiler \<Rightarrow> string \<Rightarrow> string \<Rightarrow> string \<Rightarrow> bool \<Rightarrow> (string, unit) result" where
  "streaming_sed_substitute compile s pattern replacement global =
     (let (bare_pattern, anchored_start, anchored_end) = streaming_sed_split_anchors pattern in
      if bare_pattern = [] then Ok (streaming_sed_substitute_empty s replacement anchored_start anchored_end)
      else case compile bare_pattern of
        Some re \<Rightarrow> streaming_sed_substitute_regex s re replacement global anchored_start anchored_end
      | None \<Rightarrow> Ok (if global then replace_all s bare_pattern replacement else replace_first s bare_pattern replacement))"

definition streaming_sed_transliterate :: "string \<Rightarrow> scalar list \<Rightarrow> scalar list \<Rightarrow> string" where
  "streaming_sed_transliterate s from to =
     encode_str (map (\<lambda>c.
       let pos = length (takeWhile (\<lambda>fc. fc \<noteq> c) from) in
       if pos < length from then (if pos < length to then to ! pos else if to = [] then c else last to) else c) (str_chars s))"

section \<open>Applying a script to a line\<close>

datatype sed_line_result = SedContinue | SedDelete | SedQuit

definition streaming_sed_emit_line :: "string \<Rightarrow> string" where
  "streaming_sed_emit_line line = line @ [ch_newline]"

text \<open>The new text of the line, whether it has been printed, the output, and the result when the script ends here.\<close>

definition apply_sed_instruction ::
  "regex_compiler \<Rightarrow> bool \<Rightarrow> sed_cmd \<Rightarrow> string \<Rightarrow> bool \<Rightarrow> (string \<times> bool \<times> string \<times> sed_line_result option, unit) result" where
  "apply_sed_instruction compile suppress cmd line printed =
     (case cmd of
        Substitute sub \<Rightarrow>
          result_bind (streaming_sed_substitute compile line (sub_pattern sub) (sub_replacement sub) (sub_global sub))
            (\<lambda>line'. Ok (line', printed, [], None))
      | Delete \<Rightarrow> Ok (line, printed, [], Some SedDelete)
      | Print \<Rightarrow> Ok (line, True, streaming_sed_emit_line line, None)
      | Transliterate from to \<Rightarrow> Ok (streaming_sed_transliterate line from to, printed, [], None)
      | AppendText t \<Rightarrow>
          (if \<not> suppress \<and> \<not> printed then Ok (line, True, streaming_sed_emit_line line @ streaming_sed_emit_line t, None)
           else Ok (line, printed, streaming_sed_emit_line t, None))
      | InsertText t \<Rightarrow> Ok (line, printed, streaming_sed_emit_line t, None)
      | ChangeText t \<Rightarrow> Ok (line, printed, streaming_sed_emit_line t, Some SedDelete)
      | Quit \<Rightarrow> Ok (line, printed, if \<not> suppress \<and> \<not> printed then streaming_sed_emit_line line else [], Some SedQuit))"

text \<open>The states of the ranges, the output and the result; instructions that are not reached keep the states of their ranges.\<close>

fun apply_from ::
  "regex_compiler \<Rightarrow> bool \<Rightarrow> nat \<Rightarrow> bool \<Rightarrow> (sed_instruction \<times> bool) list \<Rightarrow> string \<Rightarrow> bool \<Rightarrow>
   (bool list \<times> string \<times> sed_line_result, unit) result" where
  "apply_from compile suppress n is_last [] line printed =
     Ok ([], if \<not> suppress \<and> \<not> printed then streaming_sed_emit_line line else [], SedContinue)"
| "apply_from compile suppress n is_last ((i, in_range) # is) line printed =
     (let (matches, in_range') = streaming_sed_addr_matches compile (instr_addr i) n is_last line in_range in
      if \<not> matches then
        result_bind (apply_from compile suppress n is_last is line printed) (\<lambda>(bs, out, res). Ok (in_range' # bs, out, res))
      else
        result_bind (apply_sed_instruction compile suppress (instr_cmd i) line printed) (\<lambda>(line', printed', out, stop).
          case stop of
            Some res \<Rightarrow> Ok (in_range' # map snd is, out, res)
          | None \<Rightarrow>
              result_bind (apply_from compile suppress n is_last is line' printed')
                (\<lambda>(bs, out', res). Ok (in_range' # bs, out @ out', res))))"

definition apply_instructions ::
  "regex_compiler \<Rightarrow> sed_stage \<Rightarrow> nat \<Rightarrow> bool \<Rightarrow> bool list \<Rightarrow> string \<Rightarrow> (bool list \<times> string \<times> sed_line_result, unit) result" where
  "apply_instructions compile stage n is_last range_states line =
     apply_from compile (suppress_print stage) n is_last (zip (instructions stage) range_states) line False"

text \<open>A whole text, line by line; the last line is known to be the last.\<close>

fun sed_lines :: "regex_compiler \<Rightarrow> sed_stage \<Rightarrow> nat \<Rightarrow> bool list \<Rightarrow> string list \<Rightarrow> string" where
  "sed_lines compile stage n ranges [] = []"
| "sed_lines compile stage n ranges (l # ls) =
     (case apply_instructions compile stage n (ls = []) ranges l of
        Ok (ranges', out, res) \<Rightarrow> out @ (if res = SedQuit then [] else sed_lines compile stage (n + 1) ranges' ls)
      | _ \<Rightarrow> [])"

definition sed_text :: "regex_compiler \<Rightarrow> sed_stage \<Rightarrow> string \<Rightarrow> string" where
  "sed_text compile stage s = sed_lines compile stage 1 (replicate (length (instructions stage)) False) (text_lines s)"

section \<open>The reader\<close>

record 'r sed_reader = "'r stage_reader" +
  sed_script :: sed_stage
  sed_input :: string
  initialized :: bool
  current :: "(string \<times> bool) option"
  next_line :: "(string \<times> bool) option"
  line_num :: nat
  range_states :: "bool list"
  input_eof :: bool

definition sed_new :: "'r \<Rightarrow> sed_stage \<Rightarrow> 'r sed_reader" where
  "sed_new r stage =
     \<lparr>inner = r, output_pending = [], output_offset = 0, finished = False, sed_script = stage, sed_input = [], initialized = False,
      current = None, next_line = None, line_num = 1, range_states = replicate (length (instructions stage)) False, input_eof = False\<rparr>"

definition io_then :: "('s, unit) io \<Rightarrow> ('s \<Rightarrow> ('s, unit) io) \<Rightarrow> ('s, unit) io" where
  "io_then x f =
     (case x of
        None \<Rightarrow> None
      | Some (s, Ok _) \<Rightarrow> f s
      | Some (s, Err e) \<Rightarrow> Some (s, Err e)
      | Some (s, Panic m) \<Rightarrow> Some (s, Panic m))"

text \<open>Read a line and store it.\<close>

definition sed_take_line ::
  "'r read_fn \<Rightarrow> ((string \<times> bool) option \<Rightarrow> 'r sed_reader \<Rightarrow> 'r sed_reader) \<Rightarrow> 'r sed_reader \<Rightarrow> ('r sed_reader, unit) io" where
  "sed_take_line rd store r =
     (case streaming_read_next_line rd (inner r) (sed_input r) of
        None \<Rightarrow> None
      | Some ((i, p), Ok l) \<Rightarrow> Some (store l (r\<lparr>inner := i, sed_input := p\<rparr>), Ok ())
      | Some ((i, p), Err e) \<Rightarrow> Some (r\<lparr>inner := i, sed_input := p\<rparr>, Err e)
      | Some ((i, p), Panic m) \<Rightarrow> Some (r\<lparr>inner := i, sed_input := p\<rparr>, Panic m))"

definition fill_lookahead :: "'r read_fn \<Rightarrow> 'r sed_reader \<Rightarrow> ('r sed_reader, unit) io" where
  "fill_lookahead rd r =
     io_then (if current r = None then sed_take_line rd (\<lambda>l r. r\<lparr>current := l\<rparr>) r else Some (r, Ok ()))
       (\<lambda>r. if current r \<noteq> None \<and> next_line r = None \<and> \<not> input_eof r
            then sed_take_line rd (\<lambda>l r. case l of None \<Rightarrow> r\<lparr>input_eof := True\<rparr> | Some line \<Rightarrow> r\<lparr>next_line := Some line\<rparr>) r
            else Some (r, Ok ()))"

definition sed_initialize :: "'r read_fn \<Rightarrow> 'r sed_reader \<Rightarrow> ('r sed_reader, unit) io" where
  "sed_initialize rd r =
     (if initialized r then Some (r, Ok ())
      else io_then (fill_lookahead rd r) (\<lambda>r. Some (r\<lparr>initialized := True\<rparr>, Ok ())))"

text \<open>After a line: quit, or move on to the next line.\<close>

definition sed_advance :: "'r read_fn \<Rightarrow> sed_line_result \<Rightarrow> 'r sed_reader \<Rightarrow> ('r sed_reader, unit) io" where
  "sed_advance rd res r =
     (if res = SedQuit then Some (r\<lparr>finished := True\<rparr>, Ok ())
      else if next_line r \<noteq> None
        then fill_lookahead rd (r\<lparr>current := next_line r, next_line := None, line_num := line_num r + 1\<rparr>)
      else Some (r\<lparr>current := None, finished := True\<rparr>, Ok ()))"

text \<open>The current line edited, the next one moved up.\<close>

definition sed_line_step :: "regex_compiler \<Rightarrow> 'r read_fn \<Rightarrow> 'r sed_reader \<Rightarrow> ('r sed_reader, unit) io" where
  "sed_line_step compile rd r =
     (case current r of
        None \<Rightarrow> Some (r\<lparr>finished := True\<rparr>, Ok ())
      | Some (line, _) \<Rightarrow>
          (case apply_instructions compile (sed_script r) (line_num r) (input_eof r \<and> next_line r = None) (range_states r) line of
             Ok (ranges, out, res) \<Rightarrow>
               sed_advance rd res (r\<lparr>current := None, range_states := ranges, output_pending := output_pending r @ out\<rparr>)
           | Err _ \<Rightarrow> Some (r, Panic ''unreachable'')
           | Panic m \<Rightarrow> Some (r\<lparr>current := None\<rparr>, Panic m)))"

definition sed_pump :: "regex_compiler \<Rightarrow> 'r read_fn \<Rightarrow> 'r sed_reader \<Rightarrow> ('r sed_reader, unit) io" where
  "sed_pump compile rd r =
     io_then (sed_initialize rd r) (\<lambda>r. io_then (fill_lookahead rd r) (sed_line_step compile rd))"

definition sed_read :: "regex_compiler \<Rightarrow> 'r read_fn \<Rightarrow> 'r sed_reader read_fn" where
  "sed_read compile rd = stage_read (sed_pump compile rd)"

section \<open>What the reader delivers\<close>

text \<open>A script is safe for lines when its commands return, for a kind of lines that they keep.\<close>

definition sed_keeps :: "regex_compiler \<Rightarrow> (string \<Rightarrow> bool) \<Rightarrow> sed_cmd \<Rightarrow> bool" where
  "sed_keeps compile P cmd \<longleftrightarrow>
     (\<forall>suppress line printed. P line \<longrightarrow>
        (\<exists>line' printed' out stop. apply_sed_instruction compile suppress cmd line printed = Ok (line', printed', out, stop) \<and> P line'))"

definition sed_safe :: "regex_compiler \<Rightarrow> sed_stage \<Rightarrow> string list \<Rightarrow> bool" where
  "sed_safe compile stage ls \<longleftrightarrow>
     (\<exists>P. list_all (\<lambda>i. sed_keeps compile P (instr_cmd i)) (instructions stage) \<and> list_all P ls)"

lemma sed_safe_tl: "sed_safe compile stage (l # ls) \<Longrightarrow> sed_safe compile stage ls"
  by (auto simp: sed_safe_def)

lemma apply_from_returns:
  "list_all (\<lambda>i. sed_keeps compile P (instr_cmd (fst i))) is \<Longrightarrow> P line \<Longrightarrow>
   \<exists>bs out res. apply_from compile suppress n is_last is line printed = Ok (bs, out, res) \<and> length bs = length is"
proof (induction "is" arbitrary: line printed)
  case (Cons x "is")
  obtain i b where x: "x = (i, b)" by (cases x)
  obtain m b' where m: "streaming_sed_addr_matches compile (instr_addr i) n is_last line b = (m, b')" by fastforce
  obtain l p out stop where c: "apply_sed_instruction compile suppress (instr_cmd i) line printed = Ok (l, p, out, stop)" "P l"
    using Cons.prems x unfolding sed_keeps_def by fastforce
  have IH: "\<exists>bs out res. apply_from compile suppress n is_last is l p = Ok (bs, out, res) \<and> length bs = length is" if "P l" for l p
    using Cons that by simp
  obtain bs1 o1 r1 where "apply_from compile suppress n is_last is line printed = Ok (bs1, o1, r1)" "length bs1 = length is"
    using IH [OF Cons.prems(2)] by blast
  moreover obtain bs2 o2 r2 where "apply_from compile suppress n is_last is l p = Ok (bs2, o2, r2)" "length bs2 = length is"
    using IH [OF c(2)] by blast
  ultimately show ?case using x m c(1) by (cases m; cases stop) auto
qed simp

lemma apply_returns:
  assumes "sed_safe compile stage (line # ls)" "length ranges = length (instructions stage)"
  obtains ranges' out res where "apply_instructions compile stage n is_last ranges line = Ok (ranges', out, res)"
    "length ranges' = length (instructions stage)"
proof -
  obtain P where P: "list_all (\<lambda>i. sed_keeps compile P (instr_cmd i)) (instructions stage)" "P line"
    using assms(1) by (auto simp: sed_safe_def)
  have "list_all (\<lambda>i. sed_keeps compile P (instr_cmd (fst i))) (zip (instructions stage) ranges)"
    using P(1) by (auto simp: list_all_iff dest: set_zip_leftD)
  then obtain bs out res where "apply_instructions compile stage n is_last ranges line = Ok (bs, out, res)"
      "length bs = length (zip (instructions stage) ranges)"
    using apply_from_returns P(2) unfolding apply_instructions_def by blast
  then show ?thesis using that assms(2) by simp
qed

definition opt_line :: "(string \<times> bool) option \<Rightarrow> string list" where
  "opt_line l = (case l of None \<Rightarrow> [] | Some x \<Rightarrow> [fst x])"

definition sed_left :: "('r \<Rightarrow> string) \<Rightarrow> 'r sed_reader \<Rightarrow> string list" where
  "sed_left content r =
     opt_line (current r) @ opt_line (next_line r) @ (if input_eof r then [] else text_lines (sed_input r @ content (inner r)))"

definition sed_rest :: "regex_compiler \<Rightarrow> ('r \<Rightarrow> string) \<Rightarrow> 'r sed_reader \<Rightarrow> string" where
  "sed_rest compile content r = sed_lines compile (sed_script r) (line_num r) (range_states r) (sed_left content r)"

definition sed_wf :: "regex_compiler \<Rightarrow> ('r \<Rightarrow> string) \<Rightarrow> 'r sed_reader \<Rightarrow> bool" where
  "sed_wf compile content r \<longleftrightarrow> sed_safe compile (sed_script r) (sed_left content r) \<and> length (range_states r) = length (instructions (sed_script r)) \<and>
     (\<not> finished r \<and> current r = None \<longrightarrow> next_line r = None \<and> \<not> input_eof r)"

text \<open>Reading ahead changes nothing but where the lines are.\<close>

definition same_script :: "'r sed_reader \<Rightarrow> 'r sed_reader \<Rightarrow> bool" where
  "same_script r r' \<longleftrightarrow> sed_script r' = sed_script r \<and> line_num r' = line_num r \<and> range_states r' = range_states r \<and>
     output_pending r' = output_pending r \<and> output_offset r' = output_offset r \<and> finished r' = finished r"

context reader
begin

definition fill_end :: "'r sed_reader \<Rightarrow> 'r sed_reader \<Rightarrow> ('r sed_reader \<Rightarrow> bool) \<Rightarrow> unit io_result \<Rightarrow> bool" where
  "fill_end r r' post res \<longleftrightarrow>
     (case res of
        Ok _ \<Rightarrow> stalls (inner r') \<le> stalls (inner r) \<and> post r'
      | Err e \<Rightarrow> would_block e \<and> stuck (inner r') \<and> eSuc (stalls (inner r')) \<le> stalls (inner r)
      | Panic _ \<Rightarrow> False)"

definition fill_law :: "'r sed_reader \<Rightarrow> ('r sed_reader, unit) io \<Rightarrow> ('r sed_reader \<Rightarrow> bool) \<Rightarrow> bool" where
  "fill_law r x post \<longleftrightarrow>
     (\<exists>r' res. x = Some (r', res) \<and> good (inner r') \<and> same_script r r' \<and> sed_left content r' = sed_left content r \<and>
       (current r' = None \<longrightarrow> next_line r' = None \<and> \<not> input_eof r') \<and> fill_end r r' post res)"

lemma fill_lawE:
  assumes "fill_law r x post"
  obtains r' res where "x = Some (r', res)" "good (inner r')" "same_script r r'" "sed_left content r' = sed_left content r"
    "current r' = None \<longrightarrow> next_line r' = None \<and> \<not> input_eof r'" "fill_end r r' post res"
  using assms unfolding fill_law_def by (elim exE conjE) (rule that)

lemma fill_end_mono: "fill_end r1 r2 post res \<Longrightarrow> stalls (inner r1) \<le> stalls (inner r) \<Longrightarrow> fill_end r r2 post res"
  unfolding fill_end_def by (cases res) (simp_all, (meson order_trans)+)

lemma fill_law_then:
  assumes "fill_law r x post" "\<And>r'. good (inner r') \<Longrightarrow> post r' \<Longrightarrow> (current r' = None \<longrightarrow> next_line r' = None \<and> \<not> input_eof r') \<Longrightarrow>
    fill_law r' (f r') post'"
  shows "fill_law r (io_then x f) post'"
  using assms(1)
proof (rule fill_lawE)
  fix r1 res
  assume x: "x = Some (r1, res)" "good (inner r1)" "same_script r r1" "sed_left content r1 = sed_left content r"
    "current r1 = None \<longrightarrow> next_line r1 = None \<and> \<not> input_eof r1" "fill_end r r1 post res"
  show ?thesis
  proof (cases res)
    case (Ok u)
    then have le: "stalls (inner r1) \<le> stalls (inner r)" and "post r1" using x(6) by (simp_all add: fill_end_def)
    from assms(2) [OF x(2) this(2) x(5)] show ?thesis
    proof (rule fill_lawE)
      fix r2 res2
      assume y: "f r1 = Some (r2, res2)" "good (inner r2)" "same_script r1 r2" "sed_left content r2 = sed_left content r1"
        "current r2 = None \<longrightarrow> next_line r2 = None \<and> \<not> input_eof r2" "fill_end r1 r2 post' res2"
      have "io_then x f = Some (r2, res2)" using x(1) y(1) Ok by (simp add: io_then_def)
      moreover have "same_script r r2" using x(3) y(3) by (simp add: same_script_def)
      moreover have "sed_left content r2 = sed_left content r" using x(4) y(4) by simp
      ultimately show ?thesis unfolding fill_law_def
        using y(2,5) fill_end_mono [OF y(6) le] by (intro exI [of _ r2] exI [of _ res2] conjI)
    qed
  qed (use x in \<open>simp_all add: fill_law_def io_then_def fill_end_def\<close>)
qed

lemma take_line_law:
  assumes "good (inner r)" "current r = None \<longrightarrow> next_line r = None \<and> \<not> input_eof r" "\<not> input_eof r"
    and "\<And>i p l. good i \<Longrightarrow> line_law (sed_input r @ content (inner r)) (p @ content i) l \<Longrightarrow>
      (let r' = store l (r\<lparr>inner := i, sed_input := p\<rparr>) in
       inner r' = i \<and> same_script r r' \<and> sed_left content r' = sed_left content r \<and>
       (current r' = None \<longrightarrow> next_line r' = None \<and> \<not> input_eof r') \<and> post r')"
  shows "fill_law r (sed_take_line rd store r) post"
  using assms(1)
proof (cases rule: next_line [where p = "sed_input r"])
  case (found i p l)
  then show ?thesis using assms(4) [OF found(2,3)] by (auto simp: fill_law_def fill_end_def sed_take_line_def Let_def)
next
  case (stall i p e)
  then show ?thesis using assms(2,3) by (auto simp: fill_law_def fill_end_def sed_take_line_def same_script_def sed_left_def)
qed

definition sed_ready :: "'r sed_reader \<Rightarrow> bool" where
  "sed_ready r \<longleftrightarrow> (current r = None \<longrightarrow> sed_left content r = []) \<and> (current r \<noteq> None \<longrightarrow> next_line r \<noteq> None \<or> input_eof r)"

lemma fill_lookahead_law:
  assumes "good (inner r)" "current r = None \<longrightarrow> next_line r = None \<and> \<not> input_eof r"
  shows "fill_law r (fill_lookahead rd r) sed_ready"
  unfolding fill_lookahead_def
proof (rule fill_law_then)
  show "fill_law r (if current r = None then sed_take_line rd (\<lambda>l r. r\<lparr>current := l\<rparr>) r else Some (r, Ok ()))
      (\<lambda>r. current r = None \<longrightarrow> sed_left content r = [])"
  proof (cases "current r = None")
    case True
    then show ?thesis
      using assms by (auto intro!: take_line_law simp: same_script_def sed_left_def opt_line_def line_law_def text_lines_def Let_def
          split: option.splits)
  next
    case False
    then show ?thesis using assms by (auto simp: fill_law_def fill_end_def same_script_def)
  qed
next
  fix r' assume r': "good (inner r')" "current r' = None \<longrightarrow> sed_left content r' = []"
    "current r' = None \<longrightarrow> next_line r' = None \<and> \<not> input_eof r'"
  let ?store = "\<lambda>l r. case l of None \<Rightarrow> r\<lparr>input_eof := True\<rparr> | Some line \<Rightarrow> r\<lparr>next_line := Some line\<rparr>"
  show "fill_law r' (if current r' \<noteq> None \<and> next_line r' = None \<and> \<not> input_eof r' then sed_take_line rd ?store r' else Some (r', Ok ()))
      sed_ready"
  proof (cases "current r' \<noteq> None \<and> next_line r' = None \<and> \<not> input_eof r'")
    case True
    then show ?thesis
      using r' by (auto intro!: take_line_law simp: same_script_def sed_left_def opt_line_def line_law_def text_lines_def sed_ready_def
          Let_def split: option.splits)
  qed (use r' in \<open>auto simp: fill_law_def fill_end_def same_script_def sed_ready_def\<close>)
qed

lemma initialize_law:
  assumes "good (inner r)" "current r = None \<longrightarrow> next_line r = None \<and> \<not> input_eof r"
  shows "fill_law r (sed_initialize rd r) (\<lambda>_. True)"
proof (cases "initialized r")
  case True
  then show ?thesis using assms by (simp add: sed_initialize_def fill_law_def fill_end_def same_script_def)
next
  case False
  have "fill_law r (io_then (fill_lookahead rd r) (\<lambda>r. Some (r\<lparr>initialized := True\<rparr>, Ok ()))) (\<lambda>_. True)"
    by (rule fill_law_then [OF fill_lookahead_law [OF assms]]) (simp add: fill_law_def fill_end_def same_script_def sed_left_def)
  then show ?thesis using False by (simp add: sed_initialize_def)
qed

text \<open>A line taken from the input, edited, and the next one moved up.\<close>

definition pump_law :: "regex_compiler \<Rightarrow> 'r sed_reader \<Rightarrow> ('r sed_reader, unit) io \<Rightarrow> bool" where
  "pump_law compile r x \<longleftrightarrow>
     (\<exists>r' res. x = Some (r', res) \<and> good (inner r') \<and> sed_wf compile content r' \<and>
       stage_content (sed_rest compile content) r' = sed_rest compile content r \<and>
       fill_end r r' (\<lambda>r'. finished r' \<or> length (sed_left content r') < length (sed_left content r)) res)"

lemma finish_law:
  assumes "good (inner r)" "sed_wf compile content r" "stage_content (sed_rest compile content) (r\<lparr>finished := True\<rparr>) = sed_rest compile content r0"
    "stalls (inner r) \<le> stalls (inner r0)"
  shows "pump_law compile r0 (Some (r\<lparr>finished := True\<rparr>, Ok ()))"
  using assms by (auto simp: pump_law_def fill_end_def sed_wf_def sed_left_def)

lemma sed_line_law:
  assumes r: "good (inner r)" "sed_wf compile content r" "output_pending r = []" "output_offset r = 0" "\<not> finished r"
    and ready: "sed_ready r" and l: "current r = Some (line, had)"
    and ap: "apply_instructions compile (sed_script r) (line_num r) (input_eof r \<and> next_line r = None) (range_states r) line
      = Ok (ranges, out, res)" "length ranges = length (instructions (sed_script r))"
  shows "pump_law compile r (sed_advance rd res (r\<lparr>current := None, range_states := ranges, output_pending := output_pending r @ out\<rparr>))"
proof -
  define ls where "ls = opt_line (next_line r) @ (if input_eof r then [] else text_lines (sed_input r @ content (inner r)))"
  have left: "sed_left content r = line # ls" using l by (simp add: sed_left_def ls_def opt_line_def)
  have last: "(input_eof r \<and> next_line r = None) = (ls = [])"
    using ready l by (auto simp: ls_def sed_ready_def opt_line_def split: option.splits)
  let ?r2 = "r\<lparr>current := None, range_states := ranges, output_pending := out\<rparr>"
  have rest: "sed_rest compile content r = out @ (if res = SedQuit then [] else sed_lines compile (sed_script r) (line_num r + 1) ranges ls)"
    unfolding sed_rest_def left using ap(1) last by simp
  show ?thesis
  proof (cases "res = SedQuit \<or> next_line r = None")
    case True
    then have "res = SedQuit \<or> ls = []" using last ready l by (auto simp: sed_ready_def)
    moreover have "sed_left content (?r2\<lparr>finished := True\<rparr>) = ls" "sed_left content (?r2\<lparr>current := None, finished := True\<rparr>) = ls"
      by (simp_all add: ls_def sed_left_def opt_line_def)
    moreover have "sed_safe compile (sed_script r) ls"
      using r(2) sed_safe_tl [of compile "sed_script r" line ls] by (simp add: sed_wf_def left)
    ultimately show ?thesis using True r ap(2) rest
      by (auto simp: pump_law_def fill_end_def sed_advance_def sed_wf_def stage_content_def undelivered_def)
  next
    case False
    let ?r3 = "?r2\<lparr>current := next_line r, next_line := None, line_num := line_num r + 1\<rparr>"
    have left3: "sed_left content ?r3 = ls" by (simp add: ls_def sed_left_def opt_line_def)
    have "fill_law ?r3 (fill_lookahead rd ?r3) sed_ready" using r(1) False by (intro fill_lookahead_law) auto
    then show ?thesis
    proof (rule fill_lawE)
      fix r4 res4
      assume q: "fill_lookahead rd ?r3 = Some (r4, res4)" "good (inner r4)" "same_script ?r3 r4" "sed_left content r4 = sed_left content ?r3"
        "current r4 = None \<longrightarrow> next_line r4 = None \<and> \<not> input_eof r4" "fill_end ?r3 r4 sed_ready res4"
      note left4 = trans [OF q(4) left3]
      have "sed_wf compile content r4"
        using q(3,5) left4 r(2) ap(2) sed_safe_tl [of compile "sed_script r" line ls] by (simp add: sed_wf_def same_script_def left)
      moreover have "stage_content (sed_rest compile content) r4 = sed_rest compile content r"
        using q(3,4) left3 rest False r(4,5) by (simp add: stage_content_def undelivered_def sed_rest_def same_script_def)
      moreover have "fill_end r r4 (\<lambda>r'. finished r' \<or> length (sed_left content r') < length (sed_left content r)) res4"
        using q(4,6) left left3 by (cases res4) (simp_all add: fill_end_def)
      ultimately show ?thesis using q(1,2) False r(3) by (simp add: pump_law_def sed_advance_def)
    qed
  qed
qed

lemma sed_step_law:
  assumes r: "good (inner r)" "sed_wf compile content r" "output_pending r = []" "output_offset r = 0" "\<not> finished r" and ready: "sed_ready r"
  shows "pump_law compile r (sed_line_step compile rd r)"
proof (cases "current r")
  case None
  then have "sed_left content r = []" using ready by (simp add: sed_ready_def)
  then show ?thesis using None r by (simp add: sed_line_step_def finish_law stage_content_def undelivered_def sed_rest_def)
next
  case (Some lh)
  then obtain line had where l: "current r = Some (line, had)" by (cases lh) auto
  obtain ranges out res where ap: "apply_instructions compile (sed_script r) (line_num r) (input_eof r \<and> next_line r = None) (range_states r) line
      = Ok (ranges, out, res)" "length ranges = length (instructions (sed_script r))"
    using r(2) l by (auto simp: sed_wf_def sed_left_def opt_line_def elim!: apply_returns [where ranges = "range_states r"])
  show ?thesis using sed_line_law [OF r ready l ap] l ap(1) by (simp add: sed_line_step_def)
qed

lemma sed_pump_then: "sed_pump compile rd r = io_then (io_then (sed_initialize rd r) (fill_lookahead rd)) (sed_line_step compile rd)"
  by (auto simp: sed_pump_def io_then_def split: option.splits prod.splits result.splits)

lemma sed_pump_law:
  assumes r: "good (inner r)" "sed_wf compile content r" "\<not> finished r" "output_pending r = []" "output_offset r = 0"
  shows "pump_law compile r (sed_pump compile rd r)"
proof -
  have inv: "current r = None \<longrightarrow> next_line r = None \<and> \<not> input_eof r" using r(2,3) by (simp add: sed_wf_def)
  let ?fill = "io_then (sed_initialize rd r) (fill_lookahead rd)"
  have "fill_law r ?fill sed_ready"
    by (rule fill_law_then [OF initialize_law [OF r(1) inv]]) (rule fill_lookahead_law)
  then show ?thesis
  proof (rule fill_lawE)
    fix r1 res1
    assume f: "?fill = Some (r1, res1)" "good (inner r1)" "same_script r r1" "sed_left content r1 = sed_left content r"
      "current r1 = None \<longrightarrow> next_line r1 = None \<and> \<not> input_eof r1" "fill_end r r1 sed_ready res1"
    have wf1: "sed_wf compile content r1" using f(3-5) r(2) by (simp add: sed_wf_def same_script_def)
    have same1: "output_pending r1 = []" "output_offset r1 = 0" "\<not> finished r1" using f(3) r(3-5) by (simp_all add: same_script_def)
    have rest1: "sed_rest compile content r1 = sed_rest compile content r" using f(3,4) by (simp add: sed_rest_def same_script_def)
    have pump: "sed_pump compile rd r = io_then ?fill (sed_line_step compile rd)" by (simp add: sed_pump_then)
    show ?thesis
    proof (cases res1)
      case (Ok u)
      then have ready: "sed_ready r1" and le: "stalls (inner r1) \<le> stalls (inner r)" using f(6) by (simp_all add: fill_end_def)
      have "pump_law compile r1 (sed_line_step compile rd r1)"
        by (rule sed_step_law [OF f(2) wf1 same1 ready])
      then show ?thesis using pump f(1,4) Ok rest1 le fill_end_mono [OF _ le] by (auto simp: pump_law_def io_then_def)
    qed (use f pump rest1 wf1 same1 in \<open>simp_all add: pump_law_def fill_end_def io_then_def stage_content_def undelivered_def\<close>)
  qed
qed

text \<open>The filter is a reader of what the script makes of the lines.\<close>

lemma sed_pumped:
  "pumped (sed_pump compile rd) (sed_rest compile content) (\<lambda>r. stalls (inner r)) (\<lambda>r. stuck (inner r))
     (\<lambda>r. good (inner r) \<and> sed_wf compile content r) (\<lambda>r. length (sed_left content r))"
proof (unfold_locales, goal_cases)
  case (5 r)
  then show ?case using sed_pump_law [of r compile] by (simp add: pump_law_def fill_end_def)
qed (simp_all add: sed_rest_def sed_left_def sed_wf_def)

lemma sed_new_content: "stage_content (sed_rest compile content) (sed_new r stage) = sed_text compile stage (content r)"
  by (simp add: stage_content_def undelivered_def sed_new_def sed_rest_def sed_left_def opt_line_def sed_text_def)

end

end
