(* ===== verification/Sed_Props.thy ===== *)
theory Sed_Props
  imports Stream_Sed Stream_Props Arith_Props
begin

text \<open>
  What \<open>sed\<close> delivers.  On ASCII text, with a compiler of regular expressions that reports spans inside the text, a
  script without a global substitution anchored at the start never panics, and its reader delivers the edited lines
  whatever the sizes of the buffers.  The range \<open>a,b\<close> of line numbers, and the panic of \<open>s/^x/y/g\<close>.
\<close>

section \<open>ASCII text\<close>

lemma encode_ascii: "is_ascii c \<Longrightarrow> encode_utf8 (of_char c) = [c]"
  by (simp add: encode_utf8_def byte_in_def)

lemma decode_ascii: "list_all is_ascii s \<Longrightarrow> decode_lossy s = map of_char s"
proof (induction s)
  case (Cons c s)
  then have "is_scalar (of_char c)" by (simp add: is_scalar_def byte_in_def)
  then show ?case using decode_encode_Cons [of "of_char c" s] Cons encode_ascii [of c] by simp
qed simp

lemma leading_char_ascii: "list_all is_ascii s \<Longrightarrow> s \<noteq> [] \<Longrightarrow> leading_char s = [hd s]"
  by (cases s) (simp_all add: leading_char_def str_chars_def decode_ascii encode_ascii)

lemma ascii_cut: "list_all is_ascii s \<Longrightarrow> list_all is_ascii (take n s)" "list_all is_ascii s \<Longrightarrow> list_all is_ascii (drop n s)"
  by (auto simp: list_all_iff dest: in_set_takeD in_set_dropD)

lemma ascii_char: "n < 128 \<Longrightarrow> is_ascii (char_of n)" for n :: nat
  by (simp add: byte_in_def)

lemma ascii_encode: "c < 128 \<Longrightarrow> list_all is_ascii (encode_utf8 c)"
  by (simp add: encode_utf8_def ascii_char)

lemma ascii_lines:
  assumes "list_all is_ascii s"
  shows "text_lines s = raw_lines s \<and> list_all (list_all is_ascii) (raw_lines s)"
proof -
  have "list_all (list_all is_ascii) (split_on c s)" for c
    using assms by (induction s) (auto split: list.splits)
  then have "list_all (list_all is_ascii) (raw_lines s)"
    by (auto simp: raw_lines_def Let_def list_all_iff dest: in_set_butlastD bspec [OF _ last_in_set [OF split_on_not_Nil]])
  then show ?thesis unfolding text_lines_def by (auto simp: list_all_iff lossy_valid valid_utf8_ascii intro!: map_idI)
qed

section \<open>Commands that return\<close>

text \<open>The documented behaviour of the crate \<open>posix_regex\<close>: a match is a list of byte ranges of the text.\<close>

definition spans_ok :: "regex \<Rightarrow> bool" where
  "spans_ok re \<longleftrightarrow> (\<forall>s gs b e. re s = Some gs \<longrightarrow> Some (b, e) \<in> set gs \<longrightarrow> b \<le> e \<and> e \<le> length s)"

definition posix_spans :: "regex_compiler \<Rightarrow> bool" where
  "posix_spans compile \<longleftrightarrow> (\<forall>pat re. compile pat = Some re \<longrightarrow> spans_ok re)"

definition in_line :: "bool \<Rightarrow> string \<Rightarrow> nat \<Rightarrow> sed_match option \<Rightarrow> bool" where
  "in_line anchored s pos found \<longleftrightarrow>
     (\<forall>m. found = Some m \<longrightarrow> pos \<le> match_start m \<and> match_start m \<le> match_end m \<and> match_end m \<le> length s)"

lemma anchored_match_in_line:
  assumes "spans_ok re" "pos \<le> length s"
  shows "in_line anchored s pos (anchored_match re a z (length s) pos (drop pos s))"
proof (cases "re (drop pos s)")
  case (Some gs)
  then have "b \<le> e \<and> pos + e \<le> length s" if "gs = Some (b, e) # gs'" for b e gs'
    using assms that unfolding spans_ok_def by fastforce
  then show ?thesis using Some
    by (auto simp: in_line_def anchored_match_def split: list.splits option.splits if_splits)
qed (simp add: in_line_def anchored_match_def)

lemma sed_find_match_returns:
  assumes "list_all is_ascii s" "spans_ok re"
  shows "pos \<le> length s \<Longrightarrow> \<exists>found. find_match_loop re a z s pos = Ok found \<and> in_line a s pos found"
proof (induction "length s - pos" arbitrary: pos)
  case 0
  then show ?case using anchored_match_in_line [OF assms(2), of pos s a a z]
    by (simp add: find_match_loop.simps [of re a z s pos] slice_ascii assms(1) in_line_def split: option.split)
next
  case (Suc n)
  then have pos: "pos < length s" by simp
  have slice: "str_slice s pos (length s) = Ok (drop pos s)" using slice_ascii [OF assms(1), of pos "length s"] pos by simp
  have one: "leading_char (drop pos s) = [hd (drop pos s)]"
    using leading_char_ascii ascii_cut(2) [OF assms(1)] pos by simp
  obtain found where "find_match_loop re a z s (pos + 1) = Ok found" "in_line a s (pos + 1) found"
    using Suc.hyps(1) [of "pos + 1"] Suc.hyps(2) pos by (metis Suc_eq_plus1 Suc_leI diff_Suc_1 diff_Suc_eq_diff_pred diff_commute)
  then show ?case using anchored_match_in_line [OF assms(2), of pos s a a z] pos one
    by (auto simp: find_match_loop.simps [of re a z s pos] slice in_line_def split: option.splits)
qed

lemma group_text_ascii: "list_all is_ascii s \<Longrightarrow> list_all is_ascii (group_text s groups i)"
  by (auto simp: group_text_def str_slice_def ascii_cut split: option.splits)

lemma expand_replacement_ascii:
  "list_all is_ascii s \<Longrightarrow> list_all (\<lambda>c. c < 128) cs \<Longrightarrow> list_all is_ascii (streaming_sed_expand_replacement s groups cs)"
  by (induction s groups cs rule: streaming_sed_expand_replacement.induct)
    (auto simp: group_text_ascii ascii_encode byte_in_def split: list.splits)

lemma chars_ascii: "list_all is_ascii s \<Longrightarrow> list_all (\<lambda>c. c < 128) (str_chars s)"
  by (auto simp: str_chars_def decode_ascii list_all_iff byte_in_def less_Suc_eq_le)

lemma substitute_loop_returns:
  assumes "list_all is_ascii s" "spans_ok re" "list_all is_ascii rep" "\<not> (a \<and> global)"
  shows "cursor \<le> length s \<Longrightarrow> a \<longrightarrow> cursor = 0 \<and> \<not> skip \<Longrightarrow> list_all is_ascii out \<Longrightarrow>
    \<exists>cursor' out'. substitute_loop re rep global a z s cursor skip out = Ok (cursor', out') \<and> cursor' \<le> length s \<and> list_all is_ascii out'"
proof (induction "length s - cursor" arbitrary: cursor skip out rule: less_induct)
  case less
  note here = substitute_loop.simps [of re rep global a z s cursor skip out]
  have cut: "str_slice s i j = Ok (take (j - i) (drop i s))" if "i \<le> j" "j \<le> length s" for i j
    using slice_ascii [OF assms(1) that] .
  have one: "leading_char (drop i s) = [s ! i]" "is_ascii (s ! i)" if "i < length s" for i
    using that leading_char_ascii [OF ascii_cut(2) [OF assms(1)], of i] assms(1) by (simp_all add: hd_drop_conv_nth list_all_length)
  obtain found where f: "streaming_sed_find_match re a z s cursor = Ok found" "in_line a s cursor found"
    using sed_find_match_returns [OF assms(1,2), of cursor a z] less.prems(1,2) unfolding streaming_sed_find_match_def by (cases a) auto
  show ?case
  proof (cases found)
    case None
    then show ?thesis using f(1) less.prems by (simp add: here)
  next
    case (Some m)
    then have m: "cursor \<le> match_start m" "match_start m \<le> match_end m" "match_end m \<le> length s" using f(2) by (simp_all add: in_line_def)
    let ?out = "out @ take (match_start m - cursor) (drop cursor s) @ streaming_sed_expand_replacement s (match_groups m) (str_chars rep)"
    have out: "list_all is_ascii ?out"
      using less.prems(3) expand_replacement_ascii [OF assms(1) chars_ascii [OF assms(3)]] assms(1) by (simp add: ascii_cut)
    have again: "\<exists>cursor' out'. substitute_loop re rep global a z s c skip' o' = Ok (cursor', out') \<and> cursor' \<le> length s \<and> list_all is_ascii out'"
      if "cursor < c" "c \<le> length s" "\<not> a" "list_all is_ascii o'" for c skip' o'
      by (rule less.hyps) (use that m in auto)
    show ?thesis
    proof (cases "match_start m = match_end m \<and> skip \<and> match_start m = cursor")
      case True
      show ?thesis
      proof (cases "length s \<le> cursor")
        case False
        then have "\<not> a" "cursor < length s" using True less.prems(2) by auto
        then have "substitute_loop re rep global a z s cursor skip out = substitute_loop re rep global a z s (cursor + 1) False (out @ [s ! cursor])"
          unfolding here using True f(1) Some one(1) [of cursor] by (simp add: cut)
        then show ?thesis using again [of "cursor + 1" "out @ [s ! cursor]" False] \<open>\<not> a\<close> \<open>cursor < length s\<close> one(2) less.prems(3) by simp
      qed (unfold here, use True f(1) Some less.prems in simp)
    next
      case False
      then have step: "substitute_loop re rep global a z s cursor skip out =
          (if match_start m < match_end m then
             (if global then substitute_loop re rep global a z s (match_end m) True ?out else Ok (match_end m, ?out))
           else if length s \<le> match_start m then Ok (match_end m, ?out)
           else if global then substitute_loop re rep global a z s (match_start m + 1) False (?out @ [s ! match_start m])
           else Ok (match_start m + 1, ?out @ [s ! match_start m]))"
        using f(1) Some m one(1) by (auto simp: here cut Let_def)
      consider "match_start m < match_end m" | "length s \<le> match_start m" "match_start m = match_end m"
        | "match_start m = match_end m" "match_start m < length s" using m(2) by linarith
      then show ?thesis
      proof cases
        case 1
        then show ?thesis using step m out again [of "match_end m" ?out True] assms(4) by auto
      next
        case 2
        then show ?thesis using step m out by auto
      next
        case 3
        then show ?thesis using step m out one(2) [of "match_start m"] again [of "match_start m + 1" "?out @ [s ! match_start m]" False] assms(4)
          by auto
      qed
    qed
  qed
qed


text \<open>A command is safe on ASCII lines: its texts are ASCII, and a substitution anchored at the start is not global.\<close>

definition ascii_cmd :: "sed_cmd \<Rightarrow> bool" where
  "ascii_cmd cmd =
     (case cmd of
        Substitute sub \<Rightarrow>
          (let (bare, anchored_start, _) = streaming_sed_split_anchors (sub_pattern sub) in
           list_all is_ascii (sub_replacement sub) \<and> (bare = [] \<or> \<not> (anchored_start \<and> sub_global sub)))
      | Transliterate from to \<Rightarrow> list_all (\<lambda>c. c < 128) to
      | _ \<Rightarrow> True)"

lemma replace_ascii:
  assumes "list_all is_ascii rep"
  shows "list_all is_ascii s \<Longrightarrow> list_all is_ascii (replace_each pat rep s)"
    "list_all is_ascii s \<Longrightarrow> list_all is_ascii (replace_first s pat rep)"
proof -
  show "list_all is_ascii s \<Longrightarrow> list_all is_ascii (replace_each pat rep s)"
  proof (induction "length s" arbitrary: s rule: less_induct)
    case less
    then show ?case unfolding replace_each.simps [of pat rep s] using assms by (cases s) (auto simp: ascii_cut)
  qed
  show "list_all is_ascii s \<Longrightarrow> list_all is_ascii (replace_first s pat rep)"
    using assms by (auto simp: replace_first_def ascii_cut split: option.split)
qed

lemma substitute_returns:
  assumes "posix_spans compile" "ascii_cmd (Substitute sub)" "list_all is_ascii s"
  shows "\<exists>s'. streaming_sed_substitute compile s (sub_pattern sub) (sub_replacement sub) (sub_global sub) = Ok s' \<and> list_all is_ascii s'"
proof -
  obtain bare a z where anchors: "streaming_sed_split_anchors (sub_pattern sub) = (bare, a, z)" by (metis prod_cases3)
  then have rep: "list_all is_ascii (sub_replacement sub)" and safe: "bare \<noteq> [] \<Longrightarrow> \<not> (a \<and> sub_global sub)"
    using assms(2) by (auto simp: ascii_cmd_def)
  show ?thesis
  proof (cases "bare = [] \<or> compile bare = None")
    case True
    then show ?thesis using anchors rep assms(3)
      by (auto simp: streaming_sed_substitute_def streaming_sed_substitute_empty_def ascii_cut Let_def replace_ascii replace_all_def)
  next
    case False
    then obtain re where re: "compile bare = Some re" "spans_ok re" using assms(1) by (auto simp: posix_spans_def)
    obtain cursor out where loop: "substitute_loop re (sub_replacement sub) (sub_global sub) a z s 0 False [] = Ok (cursor, out)"
        "cursor \<le> length s" "list_all is_ascii out"
      using substitute_loop_returns [OF assms(3) re(2) rep safe, of 0 False "[]" z] False by auto
    have "streaming_sed_substitute_regex s re (sub_replacement sub) (sub_global sub) a z = Ok (out @ drop cursor s)"
      using loop by (simp add: streaming_sed_substitute_regex_def slice_ascii [OF assms(3)])
    then show ?thesis using anchors False re(1) loop(3) assms(3) by (auto simp: streaming_sed_substitute_def ascii_cut)
  qed
qed

lemma transliterate_ascii:
  assumes "list_all (\<lambda>c. c < 128) to" "list_all is_ascii s"
  shows "list_all is_ascii (streaming_sed_transliterate s from to)"
proof -
  have "list_all is_ascii (encode_str cs)" if "list_all (\<lambda>c. c < 128) cs" for cs
    using that by (induction cs) (simp_all add: ascii_encode)
  moreover have "list_all (\<lambda>c. c < 128) (map f (str_chars s))" if "\<And>c. c < 128 \<Longrightarrow> f c < 128" for f :: "scalar \<Rightarrow> scalar"
    using chars_ascii [OF assms(2)] that by (auto simp: list_all_iff)
  moreover have "to ! i < 128" if "i < length to" for i using assms(1) that by (simp add: list_all_length)
  ultimately show ?thesis unfolding streaming_sed_transliterate_def Let_def
    by (auto simp: last_conv_nth simp del: list.pred_map)
qed

lemma ascii_keeps:
  assumes "posix_spans compile" "ascii_cmd cmd"
  shows "sed_keeps compile (list_all is_ascii) cmd"
proof (cases cmd)
  case (Substitute sub)
  then show ?thesis using substitute_returns [OF assms(1)] assms(2) by (fastforce simp: sed_keeps_def apply_sed_instruction_def)
next
  case (Transliterate xs ys)
  then show ?thesis using assms(2) by (simp add: sed_keeps_def apply_sed_instruction_def ascii_cmd_def transliterate_ascii)
qed (auto simp: sed_keeps_def apply_sed_instruction_def)

lemma ascii_safe:
  assumes "posix_spans compile" "list_all (\<lambda>i. ascii_cmd (instr_cmd i)) (instructions stage)" "list_all is_ascii s"
  shows "sed_safe compile stage (text_lines s)"
  unfolding sed_safe_def
  by (rule exI [of _ "list_all is_ascii"]) (use assms ascii_keeps ascii_lines in \<open>auto simp: list_all_iff\<close>)

section \<open>The reader over the input of a pipeline\<close>

interpretation sed_box: pumped "sed_pump compile feed_read" "sed_rest compile (feed_content future)" "\<lambda>r. feed_stalls (inner r)"
  "\<lambda>r. feed_waits (inner r)" "\<lambda>r. feed_good piped future (inner r) \<and> sed_wf compile (feed_content future) r"
  "\<lambda>r. length (sed_left (feed_content future) r)"
  for compile piped future
  by (rule reader.sed_pumped [OF feed.reader_axioms])

lemma sed_delivers:
  assumes "feed_good False [] f" "sed_safe compile stage (text_lines (feed_content [] f))" "list_all (\<lambda>n. 0 < n) ns"
    "length (sed_text compile stage (feed_content [] f)) < length ns"
  shows "\<exists>r. read_seq (sed_read compile feed_read) (sed_new f stage) ns = Some (r, sed_text compile stage (feed_content [] f), True)"
proof -
  have wf: "sed_wf compile (feed_content []) (sed_new f stage)" and inner: "inner (sed_new f stage) = f"
    using assms(2) by (simp_all add: sed_wf_def sed_new_def sed_left_def opt_line_def)
  have "feed_stalls f = 0" using assms(1) by (simp add: feed_stalls_def feed_good_def split: feed.splits)
  then show ?thesis
    using sed_box.read_seq_all [of False "[]" "sed_new f stage" compile ns] wf inner assms
    by (simp add: sed_read_def reader.sed_new_content [OF feed.reader_axioms])
qed

section \<open>Ranges of line numbers\<close>

definition range_stage :: "nat \<Rightarrow> nat \<Rightarrow> sed_stage" where
  "range_stage a b =
     \<lparr>suppress_print = True, instructions = [\<lparr>instr_addr = AddrRange (AddrLine a) (AddrLine b), instr_cmd = Print\<rparr>]\<rparr>"

lemma unlines_part: "length (unlines (take k ls)) \<le> length (unlines ls)" "length (unlines (drop k ls)) \<le> length (unlines ls)"
  using unlines_append [of "take k ls" "drop k ls"] by simp_all

lemma range_after: "a < n \<Longrightarrow> sed_lines compile (range_stage a b) n [False] ls = []"
  by (induction ls arbitrary: n) (simp_all add: range_stage_def apply_instructions_def)

lemma range_inside:
  "a < n \<Longrightarrow> sed_lines compile (range_stage a b) n [True] ls = unlines (if n \<le> b then take (Suc b - n) ls else ls)"
proof (induction ls arbitrary: n)
  case (Cons l ls)
  then show ?case using range_after [of a "Suc n" compile b ls]
    by (cases "n = b") (auto simp: range_stage_def apply_instructions_def apply_sed_instruction_def streaming_sed_emit_line_def unlines_def
        take_Cons' Suc_diff_le not_less_eq_eq)
qed (simp add: unlines_def)

lemma range_lines:
  "n \<le> a \<Longrightarrow> sed_lines compile (range_stage a b) n [False] ls =
     unlines (if a < b then take (Suc b - a) (drop (a - n) ls) else drop (a - n) ls)"
proof (induction ls arbitrary: n)
  case (Cons l ls)
  show ?case
  proof (cases "n = a")
    case True
    then show ?thesis using range_inside [of a "Suc a" compile b ls]
      by (auto simp: range_stage_def apply_instructions_def apply_sed_instruction_def streaming_sed_emit_line_def unlines_def Suc_diff_le)
  next
    case False
    then have "drop (a - n) (l # ls) = drop (a - Suc n) ls" using Cons.prems by (simp add: drop_Cons' Suc_diff_le)
    then show ?thesis using False Cons by (simp add: range_stage_def apply_instructions_def)
  qed
qed (simp add: unlines_def)

lemma print_safe: "sed_safe compile (range_stage a b) ls"
  unfolding sed_safe_def
  by (rule exI [of _ "\<lambda>_. True"]) (auto simp: range_stage_def sed_keeps_def apply_sed_instruction_def list_all_iff)

lemma parse_line_range:
  assumes "a < 2 ^ 32" "b < 2 ^ 32"
  shows "parse_streaming_sed_script (show_nat a @ '','' @ show_nat b @ ''p'') = Ok (instructions (range_stage a b))"
proof -
  let ?s = "show_nat a @ '','' @ show_nat b @ ''p''"
  have d: "list_all is_digit (show_nat k)" "show_nat k \<noteq> []" for k using show_nat_digits by auto
  have digits: "takeWhile is_digit (show_nat k @ c # t) = show_nat k" "dropWhile is_digit (show_nat k @ c # t) = c # t"
    if "\<not> is_digit c" for k c t using d(1) [of k] that by (auto simp: list_all_iff takeWhile_append2 dropWhile_append2)
  have hd: "\<not> prefix ''/'' (show_nat k @ t)" "\<not> prefix ''$'' (show_nat k @ t)" for k t
    using d [of k] by (cases "show_nat k"; auto simp: is_digit_def)+
  have single: "single_addr (show_nat k @ c # t) = Some (AddrLine k, c # t)" if "k < 2 ^ 32" "\<not> is_digit c" for k c t
    using that hd [of k "c # t"] d(2) [of k] parse_usize_show_nat [OF that(1)]
    by (simp add: single_addr_def digits Let_def unat_of_nat)
  have "parse_streaming_sed_addr (show_nat b @ ''p'') = (AddrLine b, ''p'')"
    using single [OF assms(2), of "CHR ''p''" "[]"] by (subst parse_streaming_sed_addr.simps) (simp add: is_digit_def)
  then have addr: "parse_streaming_sed_addr ?s = (AddrRange (AddrLine a) (AddrLine b), ''p'')"
    using single [OF assms(1), of "CHR '',''" "show_nat b @ ''p''"] by (subst parse_streaming_sed_addr.simps) (simp add: is_digit_def)
  have "CHR '';'' \<notin> set (show_nat k)" for k using d(1) [of k] by (auto simp: list_all_iff is_digit_def)
  then have parts: "split_on CHR '';'' ?s = [?s]" by (intro split_on_plain) simp
  have "graphic (hd (show_nat a @ t))" for t using d [of a] by (cases "show_nat a") (auto simp: graphic_def is_digit_def)
  then have "trim ?s = ?s" by (intro trim_graphic) (simp add: graphic_def)
  moreover have "trim ''p'' = ''p''" by (rule trim_graphic) (simp add: graphic_def)
  ultimately show ?thesis
    unfolding parse_streaming_sed_script_def parts using addr by (simp add: parse_streaming_sed_cmd_def range_stage_def)
qed

section \<open>What \<open>sed\<close> delivers\<close>

text \<open>
  C26 (refinement). A script whose texts are ASCII and that has no global substitution anchored at the start, on ASCII
  input and with regular expressions that report spans of the text: \<open>sed\<close> never panics, and read with buffers of any
  sizes it delivers exactly the text that the script makes of the lines, one after the other, and then the end.
\<close>

theorem sed_reads_exact:
  assumes "posix_spans compile" "list_all (\<lambda>i. ascii_cmd (instr_cmd i)) (instructions stage)"
    "feed_good False [] f" "list_all is_ascii (feed_content [] f)" "list_all (\<lambda>n. 0 < n) ns"
    "length (sed_text compile stage (feed_content [] f)) < length ns"
  shows "\<exists>r. read_seq (sed_read compile feed_read) (sed_new f stage) ns = Some (r, sed_text compile stage (feed_content [] f), True)"
  using assms by (intro sed_delivers ascii_safe)

text \<open>A compiler of literal patterns, with the spans of the first occurrence.\<close>

definition literal_regex :: "regex_compiler" where
  "literal_regex pat = Some (\<lambda>s. map_option (\<lambda>i. [Some (i, i + length pat)]) (find_str pat s))"

lemma literal_regex_spans: "posix_spans literal_regex"
  by (auto simp: posix_spans_def spans_ok_def literal_regex_def dest!: find_str_Some prefix_length_le)

theorem sed_reads_witness:
  "\<exists>r. read_seq (sed_read literal_regex feed_read)
      (sed_new (literal_feed ''abb'')
        \<lparr>suppress_print = False,
         instructions = [\<lparr>instr_addr = AddrLast, instr_cmd = Substitute \<lparr>sub_pattern = ''b'', sub_replacement = ''&c'', sub_global = True\<rparr>\<rparr>]\<rparr>)
      [1, 2, 3, 1, 2, 3, 1] =
    Some (r, ''abcbc'' @ [CHR 0x0A], True)"
proof -
  let ?stage = "\<lparr>suppress_print = False,
     instructions = [\<lparr>instr_addr = AddrLast, instr_cmd = Substitute \<lparr>sub_pattern = ''b'', sub_replacement = ''&c'', sub_global = True\<rparr>\<rparr>]\<rparr>"
  have "sed_text literal_regex ?stage ''abb'' = ''abcbc'' @ [CHR 0x0A]" by code_simp
  then show ?thesis
    using sed_reads_exact [OF literal_regex_spans, of ?stage "literal_feed ''abb''" "[1, 2, 3, 1, 2, 3, 1]"]
    by (simp add: ascii_cmd_def streaming_sed_split_anchors_def byte_in_def Let_def del: read_seq.simps)
qed

text \<open>
  C27 (functional). The script \<open>a,bp\<close> of \<open>sed -n\<close> delivers the lines from a to b when a is less than b.  When b is not
  greater than a, the end of the range is never seen and everything from line a on is delivered.
\<close>

theorem sed_range_printed:
  assumes "1 \<le> a" "a < 2 ^ 32" "b < 2 ^ 32" "feed_good False [] f" "list_all (\<lambda>n. 0 < n) ns"
    "length (unlines (text_lines (feed_content [] f))) < length ns"
  shows "\<exists>is r. parse_streaming_sed_script (show_nat a @ '','' @ show_nat b @ ''p'') = Ok is \<and>
    read_seq (sed_read compile feed_read) (sed_new f \<lparr>suppress_print = True, instructions = is\<rparr>) ns =
      Some (r, unlines (let ls = drop (a - 1) (text_lines (feed_content [] f)) in if a < b then take (b + 1 - a) ls else ls), True)"
proof -
  let ?t = "unlines (let ls = drop (a - 1) (text_lines (feed_content [] f)) in if a < b then take (b + 1 - a) ls else ls)"
  have t: "sed_text compile (range_stage a b) (feed_content [] f) = ?t"
    using range_lines [of 1 a compile b] assms(1) by (simp add: sed_text_def range_stage_def Let_def)
  have "length ?t \<le> length (unlines (text_lines (feed_content [] f)))"
    using unlines_part order_trans [OF unlines_part(1) unlines_part(2)] by (simp add: Let_def)
  then have "length ?t < length ns" using assms(6) by linarith
  then obtain r where "read_seq (sed_read compile feed_read) (sed_new f (range_stage a b)) ns = Some (r, ?t, True)"
    using sed_delivers [OF assms(4) print_safe assms(5), of compile a b] t by auto
  then show ?thesis using parse_line_range [OF assms(2,3)] range_stage_def [of a b] by auto
qed

theorem sed_range_witness:
  "\<exists>is r. parse_streaming_sed_script (show_nat 2 @ '','' @ show_nat 2 @ ''p'') = Ok is \<and>
    read_seq (sed_read literal_regex feed_read)
      (sed_new (literal_feed [CHR ''a'', CHR 0x0A, CHR ''b'', CHR 0x0A, CHR ''c'']) \<lparr>suppress_print = True, instructions = is\<rparr>)
      [1, 1, 5, 1, 1, 1, 1] =
    Some (r, [CHR ''b'', CHR 0x0A, CHR ''c'', CHR 0x0A], True)"
proof -
  let ?s = "[CHR ''a'', CHR 0x0A, CHR ''b'', CHR 0x0A, CHR ''c'']"
  have ls: "text_lines ?s = [''a'', ''b'', ''c'']" by code_simp
  show ?thesis using sed_range_printed [of 2 2 "literal_feed ?s" "[1, 1, 5, 1, 1, 1, 1]" literal_regex] by (simp add: ls unlines_def del: read_seq.simps)
qed

text \<open>A global substitution anchored at the start panics on every line that it changes: the search for the next match
  starts again at the beginning, before the cursor.\<close>

lemma anchored_global_panics:
  assumes "list_all is_ascii s" "re s = Some (Some (0, e) # groups)" "0 < e" "e \<le> length s" "z \<longrightarrow> e = length s"
  shows "streaming_sed_substitute_regex s re replacement True True z = Panic ''slice index''"
proof -
  let ?m = "\<lparr>match_start = 0, match_end = e, match_groups = map (map_option (\<lambda>(s, e). (0 + s, 0 + e))) (Some (0, e) # groups)\<rparr>"
  have found: "streaming_sed_find_match re True z s c = Ok (Some ?m)" for c
    using assms by (simp add: streaming_sed_find_match_def find_match_loop.simps [of re True z s 0] slice_ascii [OF assms(1)] anchored_match_def)
  have again: "substitute_loop re replacement True True z s e True out = Panic ''slice index''" for out
    unfolding substitute_loop.simps [of re replacement True True z s e True out] found
    using assms(3) by (simp add: str_slice_def)
  have "substitute_loop re replacement True True z s 0 False [] = Panic ''slice index''"
    unfolding substitute_loop.simps [of re replacement True True z s 0 False "[]"] found
    using assms(3) again by (simp add: slice_ascii [OF assms(1)] Let_def)
  then show ?thesis by (simp add: streaming_sed_substitute_regex_def)
qed

end
