(* ===== verification/Regex.thy ===== *)
theory Regex
  imports Extglob Str_Ops
begin

text \<open>
  The regular expressions of the operator \<open>=~\<close> (\<^verbatim>\<open>crates/wasmsh-runtime/src/pattern.rs\<close>): a backtracking
  matcher on bytes with groups and captures.  A position in a pattern is the pattern from there on; a
  position in the text is an index, because captures are pairs of indices.  A continuation stands for the
  call that matches the rest of the pattern.  The vector of captures is threaded through every call, so a
  failed attempt returns it too.
\<close>

section \<open>Trying one alternative after the other\<close>

fun first_some :: "('a \<Rightarrow> 'b option) \<Rightarrow> 'a list \<Rightarrow> 'b option" where
  "first_some f [] = None"
| "first_some f (x # xs) = (case f x of None \<Rightarrow> first_some f xs | Some y \<Rightarrow> Some y)"

lemma first_some_cong [fundef_cong]:
  "xs = ys \<Longrightarrow> (\<And>x. x \<in> set ys \<Longrightarrow> f x = g x) \<Longrightarrow> first_some f xs = first_some g ys"
  by (induction ys arbitrary: xs) (auto split: option.splits)

fun first_attempt :: "('a \<Rightarrow> 's \<Rightarrow> 's \<times> 'b option) \<Rightarrow> 'a list \<Rightarrow> 's \<Rightarrow> 's \<times> 'b option" where
  "first_attempt f [] s = (s, None)"
| "first_attempt f (x # xs) s =
     (case f x s of (s', None) \<Rightarrow> first_attempt f xs s' | (s', Some y) \<Rightarrow> (s', Some y))"

section \<open>Reading a pattern\<close>

definition regex_strip_anchors :: "string \<Rightarrow> string \<times> bool \<times> bool" where
  "regex_strip_anchors pattern =
     (let anchored_start = prefix ''^'' pattern;
          anchored_end = suffix ''$'' pattern \<and> \<not> suffix [CHR 0x5C, CHR ''$''] pattern;
          core = (if anchored_start \<and> anchored_end \<and> 2 \<le> length pattern then butlast (tl pattern)
                  else if anchored_start then tl pattern
                  else if anchored_end then butlast pattern
                  else pattern)
      in (core, anchored_start, anchored_end))"

definition has_regex_metachar :: "string \<Rightarrow> bool" where
  "has_regex_metachar core \<longleftrightarrow> list_ex (\<lambda>c. c \<in> set ''.+*?[(|'') core"

definition byte_range :: "char \<Rightarrow> char \<Rightarrow> string" where
  "byte_range lo hi = map char_of [of_char lo..<Suc (of_char hi :: nat)]"

fun class_chars :: "string \<Rightarrow> string \<times> string" where
  "class_chars [] = ([], [])"
| "class_chars (c # pat) =
     (if c = CHR '']'' then ([], pat)
      else case pat of
        m # hi # pat' \<Rightarrow>
          (if m = CHR ''-'' then (let (cs, rest) = class_chars pat' in (byte_range c hi @ cs, rest))
           else (let (cs, rest) = class_chars pat in (c # cs, rest)))
      | _ \<Rightarrow> (let (cs, rest) = class_chars pat in (c # cs, rest)))"

definition regex_char_class_matches :: "string \<Rightarrow> bool \<Rightarrow> char \<Rightarrow> bool" where
  "regex_char_class_matches chars negate c = (if negate then c \<notin> set chars else c \<in> set chars)"

text \<open>The argument is the pattern after the opening bracket.\<close>

definition parse_regex_char_class :: "string \<Rightarrow> (char \<Rightarrow> bool) \<times> string" where
  "parse_regex_char_class pat =
     (let negate = prefix ''^'' pat \<or> prefix ''!'' pat;
          (chars, rest) = class_chars (if negate then tl pat else pat)
      in (regex_char_class_matches chars negate, rest))"

fun parse_regex_elem :: "string \<Rightarrow> (char \<Rightarrow> bool) \<times> string" where
  "parse_regex_elem [] = ((\<lambda>_. False), [])"
| "parse_regex_elem (ch # pat) =
     (if ch = CHR ''.'' then ((\<lambda>_. True), pat)
      else if ch = CHR ''['' then parse_regex_char_class pat
      else if ch = CHR 0x5C \<and> pat \<noteq> [] then ((\<lambda>c. c = hd pat), tl pat)
      else ((\<lambda>c. c = ch), pat))"

fun parse_quantifier :: "string \<Rightarrow> char option \<times> string" where
  "parse_quantifier [] = (None, [])"
| "parse_quantifier (q # pat) = (if q \<in> set ''*+?'' then (Some q, pat) else (None, q # pat))"

text \<open>The offset of the parenthesis that closes a group, from the start of its inside.\<close>

fun matching_paren :: "nat \<Rightarrow> string \<Rightarrow> nat option" where
  "matching_paren depth [] = None"
| "matching_paren depth (c # pat) =
     (if c = CHR 0x5C then (case pat of [] \<Rightarrow> None | _ # pat' \<Rightarrow> map_option ((+) 2) (matching_paren depth pat'))
      else if c = CHR ''('' then map_option Suc (matching_paren (depth + 1) pat)
      else if c = CHR '')'' then (if depth = 1 then Some 0 else map_option Suc (matching_paren (depth - 1) pat))
      else map_option Suc (matching_paren depth pat))"

definition find_matching_paren_bytes :: "string \<Rightarrow> nat option" where
  "find_matching_paren_bytes pat = matching_paren 1 pat"

definition parse_group_quantifier :: "string \<Rightarrow> nat \<Rightarrow> char option \<times> string" where
  "parse_group_quantifier pat close = parse_quantifier (drop (Suc close) pat)"

definition split_alt_classify_byte :: "char \<Rightarrow> int \<times> string \<times> string list \<Rightarrow> int \<times> string \<times> string list" where
  "split_alt_classify_byte byte = (\<lambda>(depth, current, alternatives).
     if byte = CHR ''('' then (depth + 1, current @ [byte], alternatives)
     else if byte = CHR '')'' then (depth - 1, current @ [byte], alternatives)
     else if byte = CHR ''|'' \<and> depth = 0 then (depth, [], alternatives @ [current])
     else (depth, current @ [byte], alternatives))"

fun split_alternatives_loop :: "string \<Rightarrow> int \<times> string \<times> string list \<Rightarrow> int \<times> string \<times> string list" where
  "split_alternatives_loop [] s = s"
| "split_alternatives_loop (c # pat) s =
     (if c = CHR 0x5C \<and> pat \<noteq> []
      then (case s of (depth, current, alternatives) \<Rightarrow>
              split_alternatives_loop (tl pat) (depth, current @ [c, hd pat], alternatives))
      else split_alternatives_loop pat (split_alt_classify_byte c s))"

definition split_alternatives_bytes :: "string \<Rightarrow> string list" where
  "split_alternatives_bytes pat =
     (case split_alternatives_loop pat (0, [], []) of (depth, current, alternatives) \<Rightarrow> alternatives @ [current])"

text \<open>Every element consumes some of the pattern, and alternatives are no longer than their group.\<close>

declare class_chars.simps(2) [simp del]

lemma class_chars_shorter: "length (snd (class_chars pat)) \<le> length pat"
proof (induction "length pat" arbitrary: pat rule: less_induct)
  case less
  show ?case
  proof (cases pat)
    case (Cons c r)
    have "length (snd (class_chars r)) \<le> length r" using less Cons by simp
    moreover have "length (snd (class_chars r')) \<le> length r'" if "r = m # hi # r'" for m hi r' using less Cons that by simp
    ultimately show ?thesis
      unfolding Cons class_chars.simps
      by (auto simp: Let_def case_prod_beta split: list.split)
  qed simp
qed

lemma elem_shorter: "pat \<noteq> [] \<Longrightarrow> length (snd (parse_regex_elem pat)) < length pat"
proof (cases pat)
  case (Cons ch r)
  have "length (snd (parse_regex_char_class r)) \<le> length r"
    using class_chars_shorter [of r] class_chars_shorter [of "tl r"]
    by (auto simp: parse_regex_char_class_def Let_def split: prod.splits)
  then show ?thesis using Cons by (auto simp: less_Suc_eq_le)
qed simp

lemma quantifier_shorter: "length (snd (parse_quantifier pat)) \<le> length pat"
  by (cases pat) auto

lemma elem_rest: "(f, r) = parse_regex_elem pat \<Longrightarrow> pat \<noteq> [] \<Longrightarrow> length r < length pat"
  using elem_shorter [of pat] by (metis snd_conv)

lemma quantifier_rest: "(q, r) = parse_quantifier pat \<Longrightarrow> length r \<le> length pat"
  using quantifier_shorter [of pat] by (metis snd_conv)

lemma matching_paren_less: "matching_paren depth pat = Some n \<Longrightarrow> n < length pat"
  by (induction depth pat arbitrary: n rule: matching_paren.induct) (auto split: if_splits list.splits)

lemma split_loop_lengths:
  "split_alternatives_loop pat (d, cur, alts) = (d', cur', alts') \<Longrightarrow>
   length cur \<le> n \<Longrightarrow> \<forall>a \<in> set alts. length a \<le> n + length pat \<Longrightarrow>
   length cur' \<le> n + length pat \<and> (\<forall>a \<in> set alts'. length a \<le> n + length pat)"
proof (induction pat "(d, cur, alts)" arbitrary: d cur alts n rule: split_alternatives_loop.induct)
  case (2 c pat)
  show ?case
  proof (cases "c = CHR 0x5C \<and> pat \<noteq> []")
    case True
    then obtain x r where "pat = x # r" by (cases pat) auto
    then show ?thesis using "2.hyps"(1) [of d "(cur, alts)" cur alts "n + 2"] "2.prems" True by auto
  next
    case False
    then have "split_alternatives_loop pat (split_alt_classify_byte c (d, cur, alts)) = (d', cur', alts')"
      using "2.prems"(1) by (simp only: split_alternatives_loop.simps if_False)
    then show ?thesis
      using "2.hyps"(2) [OF False, of "d + 1" "cur @ [c]" alts "Suc n"] "2.hyps"(2) [OF False, of "d - 1" "cur @ [c]" alts "Suc n"]
        "2.hyps"(2) [OF False, of d "[]" "alts @ [cur]" "Suc n"] "2.hyps"(2) [OF False, of d "cur @ [c]" alts "Suc n"] "2.prems"(2,3)
      by (auto simp: split_alt_classify_byte_def split: if_splits)
  qed
qed auto

lemma alternatives_shorter: "alt \<in> set (split_alternatives_bytes pat) \<Longrightarrow> length alt \<le> length pat"
  using split_loop_lengths [of pat 0 "[]" "[]" _ _ _ 0]
  by (cases "split_alternatives_loop pat (0, [], [])") (auto simp: split_alternatives_bytes_def)

section \<open>Matching the inside of a group\<close>

text \<open>How many bytes of the text from an index on satisfy the predicate.\<close>

definition count_regex_matches :: "string \<Rightarrow> nat \<Rightarrow> (char \<Rightarrow> bool) \<Rightarrow> nat" where
  "count_regex_matches subject ti matches_fn = length (takeWhile matches_fn (drop ti subject))"

definition regex_try_match_repeated_elem ::
  "(nat \<Rightarrow> nat option) \<Rightarrow> string \<Rightarrow> nat \<Rightarrow> char \<Rightarrow> (char \<Rightarrow> bool) \<Rightarrow> nat option" where
  "regex_try_match_repeated_elem cont subject ti quant matches_fn =
     (let least = (if quant = CHR ''+'' then 1 else 0); count = count_regex_matches subject ti matches_fn
      in first_some (\<lambda>c. cont (ti + c)) (rev [least..<Suc count]))"

definition regex_try_match_optional_elem ::
  "(nat \<Rightarrow> nat option) \<Rightarrow> string \<Rightarrow> nat \<Rightarrow> (char \<Rightarrow> bool) \<Rightarrow> nat option" where
  "regex_try_match_optional_elem cont subject ti matches_fn =
     (case (if ti < length subject \<and> matches_fn (subject ! ti) then cont (ti + 1) else None) of
        Some e \<Rightarrow> Some e
      | None \<Rightarrow> cont ti)"

definition regex_try_match_single_elem ::
  "(nat \<Rightarrow> nat option) \<Rightarrow> string \<Rightarrow> nat \<Rightarrow> (char \<Rightarrow> bool) \<Rightarrow> nat option" where
  "regex_try_match_single_elem cont subject ti matches_fn =
     (if ti < length subject \<and> matches_fn (subject ! ti) then cont (ti + 1) else None)"

definition regex_try_apply_quant ::
  "(nat \<Rightarrow> nat option) \<Rightarrow> string \<Rightarrow> nat \<Rightarrow> char option \<Rightarrow> (char \<Rightarrow> bool) \<Rightarrow> nat option" where
  "regex_try_apply_quant cont subject ti quant matches_fn =
     (case quant of
        None \<Rightarrow> regex_try_match_single_elem cont subject ti matches_fn
      | Some q \<Rightarrow>
          (if q = CHR ''?'' then regex_try_match_optional_elem cont subject ti matches_fn
           else regex_try_match_repeated_elem cont subject ti q matches_fn))"

function regex_try_match_inner :: "string \<Rightarrow> nat \<Rightarrow> string \<Rightarrow> nat option" where
  "regex_try_match_inner subject ti pat =
     (if pat = [] then Some ti
      else if hd pat = CHR ''('' then
        (case find_matching_paren_bytes (tl pat) of
           None \<Rightarrow> None
         | Some close \<Rightarrow>
             first_some
               (\<lambda>alt. case regex_try_match_inner subject ti alt of
                        None \<Rightarrow> None
                      | Some after_alt \<Rightarrow> regex_try_match_inner subject after_alt (drop (Suc close) (tl pat)))
               (split_alternatives_bytes (take close (tl pat))))
      else
        (let (matches_fn, elem_end) = parse_regex_elem pat;
             (quant, after_quant) = parse_quantifier elem_end
         in regex_try_apply_quant (\<lambda>ti'. regex_try_match_inner subject ti' after_quant) subject ti quant matches_fn))"
  by pat_completeness auto
termination
proof (relation "measure (\<lambda>(subject, ti, pat). length pat)", goal_cases)
  case (2 subject ti pat n alt)
  then show ?case using alternatives_shorter [of alt] by (cases pat) (fastforce simp: less_Suc_eq_le)+
next
  case (4 subject ti pat x matches_fn elem_end y quant after_quant ti')
  then show ?case using elem_rest [of matches_fn elem_end pat] quantifier_rest [of quant after_quant elem_end] by auto
qed auto

declare regex_try_match_inner.simps [simp del]

definition regex_try_match_at :: "string \<Rightarrow> nat \<Rightarrow> string \<Rightarrow> nat option" where
  "regex_try_match_at subject start pat = regex_try_match_inner subject start pat"

text \<open>Can the alternatives be matched one after the other to fill the text between two indices?\<close>

function regex_match_group_repeated :: "string \<Rightarrow> string list \<Rightarrow> nat \<Rightarrow> nat \<Rightarrow> nat \<Rightarrow> bool" where
  "regex_match_group_repeated subject alternatives start stop min_reps =
     (if start = stop then min_reps = 0
      else if stop < start then False
      else
        list_ex
          (\<lambda>alt. case regex_try_match_inner subject start alt of
                   None \<Rightarrow> False
                 | Some after \<Rightarrow>
                     (if after \<le> start \<or> stop < after then False
                      else if after = stop \<and> min_reps \<le> 1 then True
                      else regex_match_group_repeated subject alternatives after stop (min_reps - 1)))
          alternatives)"
  by pat_completeness auto
termination by (relation "measure (\<lambda>(subject, alternatives, start, stop, min_reps). stop - start)") auto

declare regex_match_group_repeated.simps [simp del]

section \<open>Matching with captures\<close>

type_synonym captures = "(nat \<times> nat) list"
type_synonym regex_cont = "nat \<Rightarrow> captures \<Rightarrow> captures \<times> nat option"

definition regex_check_end :: "nat \<Rightarrow> nat \<Rightarrow> bool \<Rightarrow> nat option" where
  "regex_check_end ti text_len must_end = (if must_end \<and> ti < text_len then None else Some ti)"

definition insert_capture :: "nat \<Rightarrow> nat \<times> nat \<Rightarrow> captures \<Rightarrow> captures" where
  "insert_capture save c caps = take save caps @ c # drop save caps"

definition regex_try_group_rep_at ::
  "regex_cont \<Rightarrow> string \<Rightarrow> string list \<Rightarrow> nat \<Rightarrow> nat \<Rightarrow> nat \<Rightarrow> nat \<Rightarrow> captures \<Rightarrow> captures \<times> nat option" where
  "regex_try_group_rep_at cont subject alternatives min_reps ti end_pos save caps =
     (if \<not> regex_match_group_repeated subject alternatives ti end_pos min_reps then (caps, None)
      else case cont end_pos caps of
        (caps', None) \<Rightarrow> (caps', None)
      | (caps', Some final_end) \<Rightarrow> (insert_capture save (ti, end_pos) caps', Some final_end))"

definition regex_match_group_rep ::
  "regex_cont \<Rightarrow> string \<Rightarrow> string list \<Rightarrow> nat \<Rightarrow> nat \<Rightarrow> captures \<Rightarrow> captures \<times> nat option" where
  "regex_match_group_rep cont subject alternatives min_reps ti caps =
     (let save = length caps in
      case first_attempt
             (\<lambda>end_pos caps. regex_try_group_rep_at cont subject alternatives min_reps ti end_pos save (take save caps))
             (rev [ti..<Suc (length subject)]) caps of
        (caps', None) \<Rightarrow> (take save caps', None)
      | (caps', Some e) \<Rightarrow> (caps', Some e))"

definition regex_try_alt_then_continue ::
  "regex_cont \<Rightarrow> string \<Rightarrow> nat \<Rightarrow> string \<Rightarrow> nat \<Rightarrow> captures \<Rightarrow> captures \<times> nat option" where
  "regex_try_alt_then_continue cont subject ti alt save caps =
     (case regex_try_match_at subject ti alt of
        None \<Rightarrow> (caps, None)
      | Some e \<Rightarrow>
          (case cont e caps of
             (caps', None) \<Rightarrow> (caps', None)
           | (caps', Some final_end) \<Rightarrow> (insert_capture save (ti, e) caps', Some final_end)))"

definition regex_try_group_one_alt ::
  "regex_cont \<Rightarrow> string \<Rightarrow> string list \<Rightarrow> nat \<Rightarrow> nat \<Rightarrow> captures \<Rightarrow> captures \<times> nat option" where
  "regex_try_group_one_alt cont subject alternatives ti save caps =
     first_attempt
       (\<lambda>alt caps. case regex_try_alt_then_continue cont subject ti alt save (take save caps) of
          (caps', None) \<Rightarrow> (take save caps', None)
        | (caps', Some e) \<Rightarrow> (caps', Some e))
       alternatives caps"

definition regex_match_group_opt ::
  "regex_cont \<Rightarrow> string \<Rightarrow> string list \<Rightarrow> nat \<Rightarrow> captures \<Rightarrow> captures \<times> nat option" where
  "regex_match_group_opt cont subject alternatives ti caps =
     (let save = length caps in
      case regex_try_group_one_alt cont subject alternatives ti save caps of
        (caps1, Some e) \<Rightarrow> (caps1, Some e)
      | (caps1, None) \<Rightarrow>
          (case cont ti (take save caps1) of
             (caps2, Some final_end) \<Rightarrow> (insert_capture save (ti, ti) caps2, Some final_end)
           | (caps2, None) \<Rightarrow> (take save caps2, None)))"

definition regex_match_group_exact ::
  "regex_cont \<Rightarrow> string \<Rightarrow> string list \<Rightarrow> nat \<Rightarrow> captures \<Rightarrow> captures \<times> nat option" where
  "regex_match_group_exact cont subject alternatives ti caps =
     regex_try_group_one_alt cont subject alternatives ti (length caps) caps"

definition regex_dispatch_group_quant ::
  "regex_cont \<Rightarrow> string \<Rightarrow> string list \<Rightarrow> char option \<Rightarrow> nat \<Rightarrow> captures \<Rightarrow> captures \<times> nat option" where
  "regex_dispatch_group_quant cont subject alternatives quant ti caps =
     (if quant = Some CHR ''+'' then regex_match_group_rep cont subject alternatives 1 ti caps
      else if quant = Some CHR ''*'' then regex_match_group_rep cont subject alternatives 0 ti caps
      else if quant = Some CHR ''?'' then regex_match_group_opt cont subject alternatives ti caps
      else regex_match_group_exact cont subject alternatives ti caps)"

definition regex_match_repeated_elem ::
  "regex_cont \<Rightarrow> string \<Rightarrow> nat \<Rightarrow> char \<Rightarrow> (char \<Rightarrow> bool) \<Rightarrow> captures \<Rightarrow> captures \<times> nat option" where
  "regex_match_repeated_elem cont subject ti quant matches_fn caps =
     (let least = (if quant = CHR ''+'' then 1 else 0); count = count_regex_matches subject ti matches_fn
      in first_attempt (\<lambda>c. cont (ti + c)) (rev [least..<Suc count]) caps)"

definition regex_match_optional_elem ::
  "regex_cont \<Rightarrow> string \<Rightarrow> nat \<Rightarrow> (char \<Rightarrow> bool) \<Rightarrow> captures \<Rightarrow> captures \<times> nat option" where
  "regex_match_optional_elem cont subject ti matches_fn caps =
     (case (if ti < length subject \<and> matches_fn (subject ! ti) then cont (ti + 1) caps else (caps, None)) of
        (caps', Some e) \<Rightarrow> (caps', Some e)
      | (caps', None) \<Rightarrow> cont ti caps')"

definition regex_match_single_elem ::
  "regex_cont \<Rightarrow> string \<Rightarrow> nat \<Rightarrow> (char \<Rightarrow> bool) \<Rightarrow> captures \<Rightarrow> captures \<times> nat option" where
  "regex_match_single_elem cont subject ti matches_fn caps =
     (if ti < length subject \<and> matches_fn (subject ! ti) then cont (ti + 1) caps else (caps, None))"

definition regex_match_elem ::
  "regex_cont \<Rightarrow> string \<Rightarrow> nat \<Rightarrow> char option \<Rightarrow> (char \<Rightarrow> bool) \<Rightarrow> captures \<Rightarrow> captures \<times> nat option" where
  "regex_match_elem cont subject ti quant matches_fn caps =
     (case quant of
        None \<Rightarrow> regex_match_single_elem cont subject ti matches_fn caps
      | Some q \<Rightarrow>
          (if q = CHR ''?'' then regex_match_optional_elem cont subject ti matches_fn caps
           else regex_match_repeated_elem cont subject ti q matches_fn caps))"

function regex_match_capturing :: "string \<Rightarrow> bool \<Rightarrow> string \<Rightarrow> regex_cont" where
  "regex_match_capturing subject must_end pat ti caps =
     (if pat = [] then (caps, regex_check_end ti (length subject) must_end)
      else if hd pat = CHR ''('' then
        (case find_matching_paren_bytes (tl pat) of
           None \<Rightarrow> (caps, None)
         | Some close \<Rightarrow>
             (let (quant, after_quant) = parse_group_quantifier (tl pat) close
              in regex_dispatch_group_quant (\<lambda>ti' caps'. regex_match_capturing subject must_end after_quant ti' caps') subject
                   (split_alternatives_bytes (take close (tl pat))) quant ti caps))
      else
        (let (matches_fn, elem_end) = parse_regex_elem pat;
             (quant, after_quant) = parse_quantifier elem_end
         in regex_match_elem (\<lambda>ti' caps'. regex_match_capturing subject must_end after_quant ti' caps') subject ti quant matches_fn caps))"
  by pat_completeness auto
termination
proof (relation "measure (\<lambda>(subject, must_end, pat, ti, caps). length pat)", goal_cases)
  case (2 subject must_end pat ti caps n x quant after_quant ti' caps')
  then show ?case using quantifier_rest [of quant after_quant "drop (Suc n) (tl pat)"] by (cases pat) (auto simp: parse_group_quantifier_def)
next
  case (3 subject must_end pat ti caps x matches_fn elem_end y quant after_quant ti' caps')
  then show ?case using elem_rest [of matches_fn elem_end pat] quantifier_rest [of quant after_quant elem_end] by auto
qed auto

declare regex_match_capturing.simps [simp del]

section \<open>Searching a match\<close>

definition literal_match_range :: "string \<Rightarrow> string \<Rightarrow> bool \<Rightarrow> bool \<Rightarrow> (nat \<times> nat) option" where
  "literal_match_range subject core start stop =
     (if start then
        (if stop then (if subject = core then Some (0, length subject) else None)
         else if prefix core subject then Some (0, length core) else None)
      else if stop then (if suffix core subject then Some (length subject - length core, length subject) else None)
      else map_option (\<lambda>pos. (pos, pos + length core)) (find_str core subject))"

fun slices :: "string \<Rightarrow> captures \<Rightarrow> (string list, unit) result" where
  "slices subject [] = Ok []"
| "slices subject ((s, e) # caps) = result_bind (str_slice subject s e) (\<lambda>x. result_bind (slices subject caps) (\<lambda>xs. Ok (x # xs)))"

definition regex_build_capture_list :: "string \<Rightarrow> nat \<Rightarrow> nat \<Rightarrow> captures \<Rightarrow> (string list, unit) result" where
  "regex_build_capture_list subject start stop group_caps = slices subject ((start, stop) # group_caps)"

definition regex_match_literal_with_captures :: "string \<Rightarrow> string \<Rightarrow> bool \<Rightarrow> bool \<Rightarrow> (string list option, unit) result" where
  "regex_match_literal_with_captures subject core anchored_start anchored_end =
     (case literal_match_range subject core anchored_start anchored_end of
        None \<Rightarrow> Ok None
      | Some (s, e) \<Rightarrow> result_bind (str_slice subject s e) (\<lambda>m. Ok (Some [m])))"

definition regex_match_from_start :: "string \<Rightarrow> string \<Rightarrow> bool \<Rightarrow> nat \<Rightarrow> (string list option, unit) result" where
  "regex_match_from_start subject core anchored_end start =
     (case regex_match_capturing subject anchored_end core start [] of
        (caps, None) \<Rightarrow> Ok None
      | (caps, Some e) \<Rightarrow> result_bind (regex_build_capture_list subject start e caps) (\<lambda>r. Ok (Some r)))"

fun first_match :: "string \<Rightarrow> string \<Rightarrow> bool \<Rightarrow> nat list \<Rightarrow> (string list option, unit) result" where
  "first_match subject core anchored_end [] = Ok None"
| "first_match subject core anchored_end (start # starts) =
     result_bind (regex_match_from_start subject core anchored_end start)
       (\<lambda>r. case r of None \<Rightarrow> first_match subject core anchored_end starts | Some caps \<Rightarrow> Ok (Some caps))"

definition regex_find_first_match :: "string \<Rightarrow> string \<Rightarrow> bool \<Rightarrow> bool \<Rightarrow> (string list option, unit) result" where
  "regex_find_first_match subject core anchored_start anchored_end =
     first_match subject core anchored_end [0..<Suc (if anchored_start then 0 else length subject)]"

definition regex_match_with_captures :: "string \<Rightarrow> string \<Rightarrow> (string list option, unit) result" where
  "regex_match_with_captures subject pattern =
     (let (core, anchored_start, anchored_end) = regex_strip_anchors pattern in
      if has_regex_metachar core then regex_find_first_match subject core anchored_start anchored_end
      else regex_match_literal_with_captures subject core anchored_start anchored_end)"

section \<open>The matcher without groups\<close>

text \<open>
  \<open>simple_regex_match\<close> and what it calls: a second matcher, for patterns without groups and without captures.
\<close>

function regex_backtrack_star_loop :: "(nat \<Rightarrow> bool) \<Rightarrow> string \<Rightarrow> (char \<Rightarrow> bool) \<Rightarrow> nat \<Rightarrow> bool" where
  "regex_backtrack_star_loop cont subject matches_fn i =
     (if cont i then True
      else if i < length subject \<and> matches_fn (subject ! i) then regex_backtrack_star_loop cont subject matches_fn (i + 1)
      else False)"
  by pat_completeness auto
termination by (relation "measure (\<lambda>(cont, subject, matches_fn, i). length subject - i)") auto

declare regex_backtrack_star_loop.simps [simp del]

definition regex_backtrack_star :: "(nat \<Rightarrow> bool) \<Rightarrow> string \<Rightarrow> nat \<Rightarrow> (char \<Rightarrow> bool) \<Rightarrow> bool" where
  "regex_backtrack_star cont subject ti matches_fn = regex_backtrack_star_loop cont subject matches_fn ti"

definition regex_backtrack_plus :: "(nat \<Rightarrow> bool) \<Rightarrow> string \<Rightarrow> nat \<Rightarrow> (char \<Rightarrow> bool) \<Rightarrow> bool" where
  "regex_backtrack_plus cont subject ti matches_fn =
     list_ex (\<lambda>matched. cont (ti + matched)) [1..<Suc (count_regex_matches subject ti matches_fn)]"

definition regex_backtrack_optional :: "(nat \<Rightarrow> bool) \<Rightarrow> string \<Rightarrow> nat \<Rightarrow> (char \<Rightarrow> bool) \<Rightarrow> bool" where
  "regex_backtrack_optional cont subject ti matches_fn \<longleftrightarrow>
     cont ti \<or> (ti < length subject \<and> matches_fn (subject ! ti) \<and> cont (ti + 1))"

definition regex_backtrack_single :: "(nat \<Rightarrow> bool) \<Rightarrow> string \<Rightarrow> nat \<Rightarrow> (char \<Rightarrow> bool) \<Rightarrow> bool" where
  "regex_backtrack_single cont subject ti matches_fn \<longleftrightarrow>
     ti < length subject \<and> matches_fn (subject ! ti) \<and> cont (ti + 1)"

function regex_backtrack :: "string \<Rightarrow> bool \<Rightarrow> string \<Rightarrow> nat \<Rightarrow> bool" where
  "regex_backtrack subject must_end pat ti =
     (if pat = [] then (if must_end then length subject \<le> ti else True)
      else
        (let (matches_fn, elem_end) = parse_regex_elem pat;
             (quant, after_quant) = parse_quantifier elem_end;
             cont = (\<lambda>ti'. regex_backtrack subject must_end after_quant ti')
         in if quant = Some CHR ''*'' then regex_backtrack_star cont subject ti matches_fn
            else if quant = Some CHR ''+'' then regex_backtrack_plus cont subject ti matches_fn
            else if quant = Some CHR ''?'' then regex_backtrack_optional cont subject ti matches_fn
            else regex_backtrack_single cont subject ti matches_fn))"
  by pat_completeness auto
termination
proof (relation "measure (\<lambda>(subject, must_end, pat, ti). length pat)", goal_cases)
  case (2 subject must_end pat ti x matches_fn elem_end y quant after_quant ti')
  then show ?case using elem_rest [of matches_fn elem_end pat] quantifier_rest [of quant after_quant elem_end] by auto
qed auto

declare regex_backtrack.simps [simp del]

definition regex_match_at :: "string \<Rightarrow> nat \<Rightarrow> string \<Rightarrow> bool \<Rightarrow> bool" where
  "regex_match_at subject start core must_end = regex_backtrack subject must_end core start"

definition regex_like_match :: "string \<Rightarrow> string \<Rightarrow> bool" where
  "regex_like_match subject pattern =
     (let (core, anchored_start, anchored_end) = regex_strip_anchors pattern in
      if anchored_start then regex_match_at subject 0 core anchored_end
      else list_ex (\<lambda>start. regex_match_at subject start core anchored_end) [0..<Suc (length subject)])"

definition simple_regex_match :: "string \<Rightarrow> string \<Rightarrow> bool" where
  "simple_regex_match subject pattern =
     (let (core, anchored_start, anchored_end) = regex_strip_anchors pattern in
      if has_regex_metachar core then regex_like_match subject pattern
      else literal_match_range subject core anchored_start anchored_end \<noteq> None)"

end
