(* ===== verification/Regex_Props.thy ===== *)
theory Regex_Props
  imports Regex
begin

text \<open>
  What the matcher of \<open>=~\<close> finds: on the text of a pattern given by its elements and groups it returns the
  first match, at the leftmost start, in the order in which a backtracking search prefers longer repetitions and earlier
  alternatives, with one capture per group.  Only the first match of an alternative counts, which is
  where the code departs from the regular expressions that it implements.
\<close>

section \<open>Patterns\<close>

datatype atom = AnyByte | Lit char | Class bool "(char \<times> char option) list"
datatype times = Once | Star | Plus | Opt
datatype ritem = Elem atom times | Group "(atom \<times> times) list list" times

fun member_chars :: "char \<times> char option \<Rightarrow> string" where
  "member_chars (c, None) = [c]"
| "member_chars (c, Some hi) = byte_range c hi"

fun atom_has :: "atom \<Rightarrow> char \<Rightarrow> bool" where
  "atom_has AnyByte c = True"
| "atom_has (Lit x) c = (c = x)"
| "atom_has (Class negate ms) c = ((c \<in> set (concat (map member_chars ms))) \<noteq> negate)"

fun member_text :: "char \<times> char option \<Rightarrow> string" where
  "member_text (c, None) = [c]"
| "member_text (c, Some hi) = [c, CHR ''-'', hi]"

fun atom_text :: "atom \<Rightarrow> string" where
  "atom_text AnyByte = ''.''"
| "atom_text (Lit c) = (if c \<in> set ''.+*?[(|)^$'' \<union> {CHR 0x5C} then [CHR 0x5C, c] else [c])"
| "atom_text (Class negate ms) = ''['' @ (if negate then ''^'' else []) @ concat (map member_text ms) @ '']''"

fun times_text :: "times \<Rightarrow> string" where
  "times_text Once = []" | "times_text Star = ''*''" | "times_text Plus = ''+''" | "times_text Opt = ''?''"

definition elem_text :: "atom \<times> times \<Rightarrow> string" where
  "elem_text e = atom_text (fst e) @ times_text (snd e)"

definition alt_text :: "(atom \<times> times) list \<Rightarrow> string" where
  "alt_text es = concat (map elem_text es)"

fun item_text :: "ritem \<Rightarrow> string" where
  "item_text (Elem a q) = atom_text a @ times_text q"
| "item_text (Group alts q) = ''('' @ join_with ''|'' (map alt_text alts) @ '')'' @ times_text q"

definition items_text :: "ritem list \<Rightarrow> string" where
  "items_text is = concat (map item_text is)"

text \<open>The members of a class are not the characters that the readers of groups and classes look for.\<close>

definition class_member :: "char \<Rightarrow> bool" where
  "class_member c \<longleftrightarrow> c \<notin> set '']-()|'' \<union> {CHR 0x5C}"

fun wf_atom :: "atom \<Rightarrow> bool" where
  "wf_atom (Class negate ms) \<longleftrightarrow>
     (\<forall>(c, hi) \<in> set ms. class_member c \<and> (case hi of None \<Rightarrow> True | Some h \<Rightarrow> class_member h)) \<and>
     (negate \<or> ms = [] \<or> fst (hd ms) \<notin> {CHR ''^'', CHR ''!''})"
| "wf_atom _ = True"

fun wf_ritem :: "ritem \<Rightarrow> bool" where
  "wf_ritem (Elem a q) = wf_atom a"
| "wf_ritem (Group alts q) \<longleftrightarrow> alts \<noteq> [] \<and> (\<forall>alt \<in> set alts. \<forall>(a, q) \<in> set alt. wf_atom a)"

section \<open>The order of the matches\<close>

text \<open>The ends of the matches of an element that starts at an index, longest first.\<close>

fun elem_ends :: "string \<Rightarrow> atom \<Rightarrow> times \<Rightarrow> nat \<Rightarrow> nat list" where
  "elem_ends s a q i =
     (let n = length (takeWhile (atom_has a) (drop i s)) in
      map ((+) i) (case q of
        Once \<Rightarrow> (if n = 0 then [] else [1])
      | Star \<Rightarrow> rev [0..<Suc n]
      | Plus \<Rightarrow> rev [1..<Suc n]
      | Opt \<Rightarrow> (if n = 0 then [0] else [1, 0])))"

fun alt_ends :: "string \<Rightarrow> (atom \<times> times) list \<Rightarrow> nat \<Rightarrow> nat list" where
  "alt_ends s [] i = [i]"
| "alt_ends s ((a, q) # es) i = concat (map (alt_ends s es) (elem_ends s a q i))"

text \<open>The first match of an alternative.\<close>

definition preferred :: "string \<Rightarrow> (atom \<times> times) list \<Rightarrow> nat \<Rightarrow> nat option" where
  "preferred s es i = (case alt_ends s es i of [] \<Rightarrow> None | e # _ \<Rightarrow> Some e)"

text \<open>First matches of alternatives, none of them empty, one after the other.\<close>

function fills :: "string \<Rightarrow> (atom \<times> times) list list \<Rightarrow> nat \<Rightarrow> nat \<Rightarrow> bool" where
  "fills s alts i k \<longleftrightarrow>
     i = k \<or>
     list_ex (\<lambda>alt. case preferred s alt i of None \<Rightarrow> False | Some j \<Rightarrow> if i < j \<and> j \<le> k then fills s alts j k else False) alts"
  by pat_completeness auto
termination by (relation "measure (\<lambda>(s, alts, i, k). k - i)") auto

declare fills.simps [simp del]

definition group_ends :: "string \<Rightarrow> (atom \<times> times) list list \<Rightarrow> times \<Rightarrow> nat \<Rightarrow> nat list" where
  "group_ends s alts q i =
     (let one = List.map_filter (\<lambda>alt. preferred s alt i) alts in
      case q of
        Once \<Rightarrow> one
      | Opt \<Rightarrow> one @ [i]
      | Star \<Rightarrow> filter (fills s alts i) (rev [i..<Suc (length s)])
      | Plus \<Rightarrow> filter (\<lambda>k. i < k \<and> fills s alts i k) (rev [i..<Suc (length s)]))"

fun item_matches :: "string \<Rightarrow> ritem \<Rightarrow> nat \<Rightarrow> (nat \<times> captures) list" where
  "item_matches s (Elem a q) i = map (\<lambda>e. (e, [])) (elem_ends s a q i)"
| "item_matches s (Group alts q) i = map (\<lambda>e. (e, [(i, e)])) (group_ends s alts q i)"

fun pattern_matches :: "string \<Rightarrow> ritem list \<Rightarrow> nat \<Rightarrow> (nat \<times> captures) list" where
  "pattern_matches s [] i = [(i, [])]"
| "pattern_matches s (it # is) i =
     concat (map (\<lambda>(e, cs). map (\<lambda>(e', cs'). (e', cs @ cs')) (pattern_matches s is e)) (item_matches s it i))"

section \<open>Reading the text of a pattern\<close>

definition no_quant :: "string \<Rightarrow> bool" where
  "no_quant r \<longleftrightarrow> r = [] \<or> hd r \<notin> set ''*+?''"

fun quant_char :: "times \<Rightarrow> char option" where
  "quant_char Once = None" | "quant_char Star = Some CHR ''*''" | "quant_char Plus = Some CHR ''+''" | "quant_char Opt = Some CHR ''?''"

lemma quantifier_text: "no_quant r \<Longrightarrow> parse_quantifier (times_text q @ r) = (quant_char q, r)"
  by (cases q; cases r) (auto simp: no_quant_def)

lemma class_text:
  "\<forall>(c, hi) \<in> set ms. class_member c \<and> (case hi of None \<Rightarrow> True | Some h \<Rightarrow> class_member h) \<Longrightarrow>
   class_chars (concat (map member_text ms) @ CHR '']'' # r) = (concat (map member_chars ms), r)"
proof (induction ms)
  case Nil
  then show ?case by (simp add: class_chars.simps)
next
  case (Cons m ms)
  obtain c hi where m: "m = (c, hi)" by (cases m)
  have c: "c \<noteq> CHR '']''" using Cons.prems m by (auto simp: class_member_def)
  have IH: "class_chars (concat (map member_text ms) @ CHR '']'' # r) = (concat (map member_chars ms), r)" using Cons by simp
  show ?case
  proof (cases hi)
    case (Some h)
    then show ?thesis using IH c m by (simp add: class_chars.simps(2) [of c])
  next
    case None
    obtain x xs where x: "concat (map member_text ms) @ CHR '']'' # r = x # xs"
      by (cases "concat (map member_text ms) @ CHR '']'' # r") auto
    have "x \<noteq> CHR ''-''"
    proof (cases ms)
      case (Cons m' ms')
      then show ?thesis using Cons.prems x by (cases m'; cases "snd m'") (auto simp: class_member_def)
    qed (use x in auto)
    then show ?thesis using IH c m None x by (simp add: class_chars.simps(2) [of c] split: list.split)
  qed
qed

lemma elem_parsed: "wf_atom a \<Longrightarrow> parse_regex_elem (atom_text a @ r) = (atom_has a, r)"
proof (cases a)
  case (Class negate ms)
  assume "wf_atom a"
  then have ms: "\<forall>(c, hi) \<in> set ms. class_member c \<and> (case hi of None \<Rightarrow> True | Some h \<Rightarrow> class_member h)"
    and hd: "negate \<or> ms = [] \<or> fst (hd ms) \<notin> {CHR ''^'', CHR ''!''}" using Class by auto
  let ?t = "concat (map member_text ms) @ CHR '']'' # r"
  have "\<not> prefix ''^'' ?t \<and> \<not> prefix ''!'' ?t" if "\<not> negate"
  proof (cases ms)
    case (Cons m ms')
    then show ?thesis using hd that by (cases m; cases "snd m") auto
  qed simp
  then show ?thesis
    using Class class_text [OF ms, of r]
    by (auto simp: parse_regex_char_class_def Let_def regex_char_class_matches_def fun_eq_iff)
qed auto

lemma atom_text_hd: "hd (atom_text a @ r) \<notin> set ''*+?(''" "atom_text a \<noteq> []"
  by (cases a; auto)+

text \<open>The readers of a group pass over the elements inside it.\<close>

definition plain :: "char \<Rightarrow> bool" where
  "plain c \<longleftrightarrow> c \<notin> set ''()|'' \<union> {CHR 0x5C}"

lemma shift_0: "map_option ((+) (0 :: nat)) x = x"
  by (cases x) simp_all

lemma plain_skipped:
  "list_all plain t \<Longrightarrow> matching_paren d (t @ r) = map_option ((+) (length t)) (matching_paren d r)"
  "list_all plain t \<Longrightarrow> split_alternatives_loop (t @ r) (0, cur, alts) = split_alternatives_loop r (0, cur @ t, alts)"
  by (induction t arbitrary: cur)
    (auto simp: plain_def split_alt_classify_byte_def option.map_comp comp_def shift_0 intro: option.map_cong)

lemma members_plain:
  "\<forall>(c, hi) \<in> set ms. class_member c \<and> (case hi of None \<Rightarrow> True | Some h \<Rightarrow> class_member h) \<Longrightarrow>
   list_all plain (concat (map member_text ms))"
proof (induction ms)
  case (Cons m ms)
  have p: "class_member c \<Longrightarrow> plain c" for c by (simp add: class_member_def plain_def)
  have "plain CHR ''-''" by (simp add: plain_def)
  then have "list_all plain (member_text m)" using Cons.prems p by (cases m; cases "snd m") auto
  then show ?case using Cons by simp
qed simp

lemma times_plain: "list_all plain (times_text q)"
  by (cases q) (auto simp: plain_def)

lemma atom_skipped:
  assumes "wf_atom a"
  shows "matching_paren d (atom_text a @ r) = map_option ((+) (length (atom_text a))) (matching_paren d r)"
    and "split_alternatives_loop (atom_text a @ r) (0, cur, alts) = split_alternatives_loop r (0, cur @ atom_text a, alts)"
proof -
  consider c where "a = Lit c" "atom_text a = [CHR 0x5C, c]" | "list_all plain (atom_text a)"
  proof (cases a)
    case (Lit c)
    then show ?thesis by (cases "c \<in> set ''.+*?[(|)^$'' \<union> {CHR 0x5C}") (auto intro: that simp: plain_def)
  next
    case (Class negate ms)
    then have "list_all plain (concat (map member_text ms))" using assms by (intro members_plain) simp
    then show ?thesis using Class by (intro that(2)) (simp add: plain_def)
  qed (auto intro: that simp: plain_def)
  then have "matching_paren d (atom_text a @ r) = map_option ((+) (length (atom_text a))) (matching_paren d r) \<and>
    split_alternatives_loop (atom_text a @ r) (0, cur, alts) = split_alternatives_loop r (0, cur @ atom_text a, alts)"
    by cases (use plain_skipped in \<open>simp_all del: atom_text.simps add: numeral_2_eq_2\<close>)
  then show "matching_paren d (atom_text a @ r) = map_option ((+) (length (atom_text a))) (matching_paren d r)"
    "split_alternatives_loop (atom_text a @ r) (0, cur, alts) = split_alternatives_loop r (0, cur @ atom_text a, alts)" by simp_all
qed

lemma alt_skipped:
  "\<forall>(a, q) \<in> set es. wf_atom a \<Longrightarrow> matching_paren d (alt_text es @ r) = map_option ((+) (length (alt_text es))) (matching_paren d r)"
  "\<forall>(a, q) \<in> set es. wf_atom a \<Longrightarrow>
   split_alternatives_loop (alt_text es @ r) (0, cur, alts) = split_alternatives_loop r (0, cur @ alt_text es, alts)"
  by (induction es arbitrary: cur)
    (auto simp: alt_text_def elem_text_def atom_skipped plain_skipped [OF times_plain] option.map_comp comp_def shift_0 add.assoc
      intro!: option.map_cong)

lemma group_closed:
  "alts \<noteq> [] \<Longrightarrow> \<forall>alt \<in> set alts. \<forall>(a, q) \<in> set alt. wf_atom a \<Longrightarrow>
   find_matching_paren_bytes (join_with ''|'' (map alt_text alts) @ CHR '')'' # r) = Some (length (join_with ''|'' (map alt_text alts)))"
  unfolding find_matching_paren_bytes_def
proof (induction alts)
  case (Cons alt alts)
  then show ?case by (cases alts) (simp_all add: alt_skipped)
qed simp

lemma group_split_loop:
  "alts \<noteq> [] \<Longrightarrow> \<forall>alt \<in> set alts. \<forall>(a, q) \<in> set alt. wf_atom a \<Longrightarrow>
   split_alternatives_loop (join_with ''|'' (map alt_text alts)) (0, [], acc) =
     (0, alt_text (last alts), acc @ map alt_text (butlast alts))"
proof (induction alts arbitrary: acc)
  case (Cons alt alts)
  show ?case
  proof (cases alts)
    case Nil
    then show ?thesis using alt_skipped(2) [of alt "[]"] Cons.prems by simp
  next
    case (Cons b bs)
    then show ?thesis
      using Cons.IH [of "acc @ [alt_text alt]"] Cons.prems
      by (simp add: alt_skipped split_alt_classify_byte_def)
  qed
qed simp

lemma group_split:
  "alts \<noteq> [] \<Longrightarrow> \<forall>alt \<in> set alts. \<forall>(a, q) \<in> set alt. wf_atom a \<Longrightarrow>
   split_alternatives_bytes (join_with ''|'' (map alt_text alts)) = map alt_text alts"
  by (simp add: split_alternatives_bytes_def group_split_loop snoc_eq_iff_butlast map_butlast last_map)

section \<open>The matcher and the order of the matches\<close>

lemma first_some_concat:
  "first_some (\<lambda>x. case h x of [] \<Rightarrow> None | y # _ \<Rightarrow> Some y) xs = (case concat (map h xs) of [] \<Rightarrow> None | y # _ \<Rightarrow> Some y)"
proof (induction xs)
  case (Cons x xs)
  then show ?case by (cases "h x") simp_all
qed simp

lemma takeWhile_pos: "0 < length (takeWhile P (drop i s)) \<longleftrightarrow> i < length s \<and> P (s ! i)"
proof (cases "i < length s")
  case True
  then show ?thesis by (simp add: Cons_nth_drop_Suc [OF True, symmetric])
qed simp

lemma once_ends: "elem_ends s a Once i = (if i < length s \<and> atom_has a (s ! i) then [i + 1] else [])"
  using takeWhile_pos [of "atom_has a" i s] by (auto simp: Let_def)

lemma opt_ends: "elem_ends s a Opt i = (if i < length s \<and> atom_has a (s ! i) then [i + 1, i] else [i])"
  using takeWhile_pos [of "atom_has a" i s] by (auto simp: Let_def)

lemma repeated_ends:
  "elem_ends s a Star i = map ((+) i) (rev [0..<Suc (count_regex_matches s i (atom_has a))])"
  "elem_ends s a Plus i = map ((+) i) (rev [1..<Suc (count_regex_matches s i (atom_has a))])"
  by (simp_all add: Let_def count_regex_matches_def)

lemma quantifier_tried:
  "regex_try_apply_quant (\<lambda>j. case h j of [] \<Rightarrow> None | y # _ \<Rightarrow> Some y) s i (quant_char q) (atom_has a) =
     (case concat (map h (elem_ends s a q i)) of [] \<Rightarrow> None | y # _ \<Rightarrow> Some y)"
proof (cases q)
  case Star
  then show ?thesis
    unfolding repeated_ends Star map_map first_some_concat [symmetric] comp_def
    by (simp add: regex_try_apply_quant_def regex_try_match_repeated_elem_def Let_def first_some_concat del: upt_Suc)
next
  case Plus
  then show ?thesis
    unfolding repeated_ends Plus map_map first_some_concat [symmetric] comp_def
    by (simp add: regex_try_apply_quant_def regex_try_match_repeated_elem_def Let_def first_some_concat del: upt_Suc)
qed (auto simp: once_ends opt_ends regex_try_apply_quant_def regex_try_match_single_elem_def
    regex_try_match_optional_elem_def simp del: elem_ends.simps split: list.splits)

lemma alt_no_quant: "no_quant (alt_text es)"
  using atom_text_hd by (cases es) (auto simp: no_quant_def alt_text_def elem_text_def)

lemma alternative_tried:
  "\<forall>(a, q) \<in> set es. wf_atom a \<Longrightarrow> regex_try_match_inner s i (alt_text es) = preferred s es i"
proof (induction es arbitrary: i)
  case Nil
  then show ?case by (simp add: regex_try_match_inner.simps alt_text_def preferred_def)
next
  case (Cons e es)
  obtain a q where e: "e = (a, q)" by (cases e)
  have ne: "alt_text (e # es) \<noteq> []" "hd (alt_text (e # es)) \<noteq> CHR ''(''"
    using atom_text_hd e by (auto simp: alt_text_def elem_text_def)
  have "parse_regex_elem (alt_text (e # es)) = (atom_has a, times_text q @ alt_text es)"
    using elem_parsed [of a] Cons.prems e by (simp add: alt_text_def elem_text_def)
  moreover have "regex_try_match_inner s j (alt_text es) = (case alt_ends s es j of [] \<Rightarrow> None | y # _ \<Rightarrow> Some y)" for j
    using Cons by (auto simp: preferred_def)
  ultimately show ?case
    unfolding regex_try_match_inner.simps [of s i "alt_text (e # es)"]
    using ne quantifier_text [OF alt_no_quant] quantifier_tried [of "alt_ends s es" s i q a] e
    by (simp add: preferred_def)
qed

lemma repetition_tried:
  assumes "\<forall>alt \<in> set alts. \<forall>(a, q) \<in> set alt. wf_atom a" "m \<le> 1"
  shows "regex_match_group_repeated s (map alt_text alts) i k m = (if i = k then m = 0 else i < k \<and> fills s alts i k)"
  using assms(2)
proof (induction "k - i" arbitrary: i m rule: less_induct)
  case less
  have tried: "regex_try_match_inner s i (alt_text alt) = preferred s alt i" if "alt \<in> set alts" for alt
    using assms(1) that by (simp add: alternative_tried)
  have "fills s alts k k" by (simp add: fills.simps)
  then have body: "(case preferred s alt i of None \<Rightarrow> False
      | Some j \<Rightarrow> if j \<le> i \<or> k < j then False else if j = k \<and> m \<le> 1 then True
                 else regex_match_group_repeated s (map alt_text alts) j k (m - 1)) =
    (case preferred s alt i of None \<Rightarrow> False | Some j \<Rightarrow> if i < j \<and> j \<le> k then fills s alts j k else False)" for alt
    using less by (auto split: option.splits if_splits)
  show ?case
  proof (cases "i < k")
    case True
    then have "regex_match_group_repeated s (map alt_text alts) i k m \<longleftrightarrow>
      (\<exists>alt \<in> set alts. case preferred s alt i of None \<Rightarrow> False | Some j \<Rightarrow> if i < j \<and> j \<le> k then fills s alts j k else False)"
      unfolding regex_match_group_repeated.simps [of s "map alt_text alts" i k m]
      by (simp only: list_ex_iff set_map bex_simps tried body if_False less_imp_neq less_not_sym cong: bex_cong)
    then show ?thesis using True unfolding fills.simps [of s alts i k] by (simp add: list_ex_iff)
  qed (auto simp: regex_match_group_repeated.simps)
qed

text \<open>A search that keeps the captures it was given and adds those of the first match.\<close>

definition pick_match :: "captures \<Rightarrow> (nat \<times> captures) list \<Rightarrow> captures \<times> nat option" where
  "pick_match caps ms = (case ms of [] \<Rightarrow> (caps, None) | (e, cs) # _ \<Rightarrow> (caps @ cs, Some e))"

lemma pick_match_simps [simp]:
  "pick_match caps [] = (caps, None)" "pick_match caps ((e, cs) # ms) = (caps @ cs, Some e)"
  by (simp_all add: pick_match_def)

lemma first_attempt_concat:
  "(\<And>x. x \<in> set xs \<Longrightarrow> f x caps = pick_match caps (h x)) \<Longrightarrow> first_attempt f xs caps = pick_match caps (concat (map h xs))"
proof (induction xs)
  case (Cons x xs)
  then show ?case by (cases "h x") auto
qed simp

definition captured :: "nat \<times> nat \<Rightarrow> (nat \<times> captures) list \<Rightarrow> (nat \<times> captures) list" where
  "captured c ms = map (\<lambda>(e, cs). (e, c # cs)) ms"

lemma capture_inserted:
  "(case pick_match caps ms of (caps', None) \<Rightarrow> (caps', None) | (caps', Some e) \<Rightarrow> (insert_capture (length caps) c caps', Some e)) =
     pick_match caps (captured c ms)"
  by (cases ms) (auto simp: insert_capture_def captured_def)

lemma pick_take: "(case pick_match caps ms of (caps', None) \<Rightarrow> (take (length caps) caps', None) | (caps', Some e) \<Rightarrow> (caps', Some e)) =
    pick_match caps ms"
  by (cases ms) auto

lemma pick_or:
  "(case pick_match caps ms of (c, None) \<Rightarrow> (case pick_match (take (length caps) c) ms' of
       (c', None) \<Rightarrow> (take (length caps) c', None) | (c', Some e) \<Rightarrow> (insert_capture (length caps) p c', Some e))
     | (c, Some e) \<Rightarrow> (c, Some e)) = pick_match caps (ms @ captured p ms')"
  by (cases ms; cases ms') (auto simp: insert_capture_def captured_def)

lemma one_alternative:
  assumes "\<And>i caps. cont i caps = pick_match caps (h i)" "\<forall>alt \<in> set alts. \<forall>(a, q) \<in> set alt. wf_atom a"
  shows "regex_try_group_one_alt cont s (map alt_text alts) i (length caps) caps =
    pick_match caps (concat (map (\<lambda>e. captured (i, e) (h e)) (List.map_filter (\<lambda>alt. preferred s alt i) alts)))"
proof -
  let ?h = "\<lambda>t. case regex_try_match_inner s i t of None \<Rightarrow> [] | Some e \<Rightarrow> captured (i, e) (h e)"
  have "regex_try_alt_then_continue cont s i t (length caps) caps = pick_match caps (?h t)" for t
    by (simp add: regex_try_alt_then_continue_def regex_try_match_at_def assms(1) capture_inserted split: option.split)
  then have "regex_try_group_one_alt cont s (map alt_text alts) i (length caps) caps = pick_match caps (concat (map ?h (map alt_text alts)))"
    unfolding regex_try_group_one_alt_def by (intro first_attempt_concat) (simp add: pick_take)
  also have "concat (map ?h (map alt_text alts)) =
      concat (map (\<lambda>e. captured (i, e) (h e)) (List.map_filter (\<lambda>alt. preferred s alt i) alts))"
    using assms(2) by (induction alts) (auto simp: alternative_tried map_filter_simps split: option.split)
  finally show ?thesis .
qed

lemma repeated_group:
  assumes "\<And>i caps. cont i caps = pick_match caps (h i)" "\<forall>alt \<in> set alts. \<forall>(a, q) \<in> set alt. wf_atom a" "m \<le> 1"
  shows "regex_match_group_rep cont s (map alt_text alts) m i caps =
    pick_match caps (concat (map (\<lambda>e. captured (i, e) (h e))
      (filter (\<lambda>k. if i = k then m = 0 else i < k \<and> fills s alts i k) (rev [i..<Suc (length s)]))))"
proof -
  let ?P = "\<lambda>k. if i = k then m = 0 else i < k \<and> fills s alts i k"
  let ?h = "\<lambda>k. if ?P k then captured (i, k) (h k) else []"
  have "regex_try_group_rep_at cont s (map alt_text alts) m i k (length caps) (take (length caps) caps) = pick_match caps (?h k)" for k
    unfolding regex_try_group_rep_at_def repetition_tried [OF assms(2,3)]
    by (simp add: assms(1) capture_inserted)
  then have "first_attempt (\<lambda>k c. regex_try_group_rep_at cont s (map alt_text alts) m i k (length caps) (take (length caps) c))
      (rev [i..<Suc (length s)]) caps = pick_match caps (concat (map ?h (rev [i..<Suc (length s)])))"
    by (intro first_attempt_concat) simp
  moreover have "concat (map ?h ks) = concat (map (\<lambda>e. captured (i, e) (h e)) (filter ?P ks))" for ks
    by (induction ks) auto
  ultimately show ?thesis by (simp add: regex_match_group_rep_def pick_take del: upt_Suc)
qed

lemma group_dispatched:
  assumes "\<And>i caps. cont i caps = pick_match caps (h i)" "\<forall>alt \<in> set alts. \<forall>(a, q) \<in> set alt. wf_atom a"
  shows "regex_dispatch_group_quant cont s (map alt_text alts) (quant_char q) i caps =
    pick_match caps (concat (map (\<lambda>e. captured (i, e) (h e)) (group_ends s alts q i)))"
proof (cases q)
  case Once
  then show ?thesis
    by (simp add: regex_dispatch_group_quant_def regex_match_group_exact_def one_alternative [OF assms] group_ends_def)
next
  case Opt
  let ?one = "concat (map (\<lambda>e. captured (i, e) (h e)) (List.map_filter (\<lambda>alt. preferred s alt i) alts))"
  have "regex_dispatch_group_quant cont s (map alt_text alts) (quant_char q) i caps = pick_match caps (?one @ captured (i, i) (h i))"
    unfolding Opt
    by (simp add: regex_dispatch_group_quant_def regex_match_group_opt_def one_alternative [OF assms] assms(1) Let_def pick_or)
  then show ?thesis using Opt by (simp add: group_ends_def)
next
  case Star
  have "fills s alts i i" by (simp add: fills.simps)
  then have "filter (\<lambda>k. if i = k then (0 :: nat) = 0 else i < k \<and> fills s alts i k) (rev [i..<Suc (length s)]) =
      filter (fills s alts i) (rev [i..<Suc (length s)])"
    by (intro filter_cong) auto
  then show ?thesis using repeated_group [OF assms, where m = 0 and s = s and i = i and caps = caps] Star
    by (simp add: regex_dispatch_group_quant_def group_ends_def Let_def del: upt_Suc)
next
  case Plus
  have "filter (\<lambda>k. if i = k then (1 :: nat) = 0 else i < k \<and> fills s alts i k) (rev [i..<Suc (length s)]) =
      filter (\<lambda>k. i < k \<and> fills s alts i k) (rev [i..<Suc (length s)])"
    by (intro filter_cong) auto
  then show ?thesis using repeated_group [OF assms, where m = 1 and s = s and i = i and caps = caps] Plus
    by (simp add: regex_dispatch_group_quant_def group_ends_def Let_def del: upt_Suc)
qed

lemma elem_dispatched:
  assumes "\<And>i caps. cont i caps = pick_match caps (h i)"
  shows "regex_match_elem cont s i (quant_char q) (atom_has a) caps = pick_match caps (concat (map h (elem_ends s a q i)))"
proof (cases q)
  case Star
  have "first_attempt (\<lambda>c. cont (i + c)) ks caps = pick_match caps (concat (map h (map ((+) i) ks)))" for ks
    unfolding map_map comp_def by (intro first_attempt_concat) (simp add: assms)
  then show ?thesis using Star
    by (simp add: regex_match_elem_def regex_match_repeated_elem_def Let_def count_regex_matches_def del: upt_Suc)
next
  case Plus
  have "first_attempt (\<lambda>c. cont (i + c)) ks caps = pick_match caps (concat (map h (map ((+) i) ks)))" for ks
    unfolding map_map comp_def by (intro first_attempt_concat) (simp add: assms)
  then show ?thesis using Plus
    by (simp add: regex_match_elem_def regex_match_repeated_elem_def Let_def count_regex_matches_def del: upt_Suc)
next
  case Opt
  then show ?thesis
    by (cases "h (i + 1)") (auto simp: opt_ends regex_match_elem_def regex_match_optional_elem_def assms simp del: elem_ends.simps)
qed (simp add: once_ends regex_match_elem_def regex_match_single_elem_def assms del: elem_ends.simps)

definition ends_ok :: "string \<Rightarrow> bool \<Rightarrow> nat \<times> captures \<Rightarrow> bool" where
  "ends_ok s must_end m \<longleftrightarrow> must_end \<longrightarrow> length s \<le> fst m"

lemma items_no_quant: "no_quant (items_text is)"
proof (cases "is")
  case (Cons it r)
  then show ?thesis using atom_text_hd by (cases it) (auto simp: no_quant_def items_text_def)
qed (simp add: no_quant_def items_text_def)

lemma filter_extended:
  "filter (ends_ok s me) (concat (map (\<lambda>(e, cs). map (\<lambda>(e', cs'). (e', cs @ cs')) (f e)) ms)) =
     concat (map (\<lambda>(e, cs). map (\<lambda>(e', cs'). (e', cs @ cs')) (filter (ends_ok s me) (f e))) ms)"
  by (induction ms) (auto simp: filter_map comp_def ends_ok_def case_prod_beta)

text \<open>The matcher with captures finds the first match in the order of preference.\<close>

lemma capturing_first:
  "list_all wf_ritem is \<Longrightarrow>
   regex_match_capturing s me (items_text is) i caps = pick_match caps (filter (ends_ok s me) (pattern_matches s is i))"
proof (induction "is" arbitrary: i caps)
  case Nil
  then show ?case by (simp add: regex_match_capturing.simps items_text_def regex_check_end_def ends_ok_def)
next
  case (Cons it r)
  let ?h = "\<lambda>i. filter (ends_ok s me) (pattern_matches s r i)"
  have cont: "regex_match_capturing s me (items_text r) i caps = pick_match caps (?h i)" for i caps using Cons by simp
  show ?case
  proof (cases it)
    case (Elem a q)
    have t: "items_text (it # r) = atom_text a @ times_text q @ items_text r" using Elem by (simp add: items_text_def)
    have "items_text (it # r) \<noteq> []" "hd (items_text (it # r)) \<noteq> CHR ''(''" using atom_text_hd t by auto
    moreover have "parse_regex_elem (items_text (it # r)) = (atom_has a, times_text q @ items_text r)"
      using elem_parsed [of a] Cons.prems Elem t by simp
    ultimately have "regex_match_capturing s me (items_text (it # r)) i caps = pick_match caps (concat (map ?h (elem_ends s a q i)))"
      unfolding regex_match_capturing.simps [of s me "items_text (it # r)"]
      using quantifier_text [OF items_no_quant] elem_dispatched [OF cont] by simp
    then show ?thesis
      using Elem unfolding pattern_matches.simps filter_extended by (simp add: comp_def del: elem_ends.simps)
  next
    case (Group alts q)
    let ?j = "join_with ''|'' (map alt_text alts)"
    have t: "items_text (it # r) = CHR ''('' # ?j @ CHR '')'' # times_text q @ items_text r" using Group by (simp add: items_text_def)
    have wf: "alts \<noteq> []" "\<forall>alt \<in> set alts. \<forall>(a, q) \<in> set alt. wf_atom a" using Cons.prems Group by simp_all
    have "parse_group_quantifier (?j @ CHR '')'' # times_text q @ items_text r) (length ?j) = (quant_char q, items_text r)"
      using quantifier_text [OF items_no_quant] by (simp add: parse_group_quantifier_def)
    then have "regex_match_capturing s me (items_text (it # r)) i caps =
        pick_match caps (concat (map (\<lambda>e. captured (i, e) (?h e)) (group_ends s alts q i)))"
      unfolding regex_match_capturing.simps [of s me "items_text (it # r)"]
      using group_closed [OF wf] group_split [OF wf] group_dispatched [OF cont wf(2)] t by simp
    then show ?thesis
      using Group unfolding pattern_matches.simps filter_extended by (simp add: comp_def captured_def)
  qed
qed

section \<open>Bounds\<close>








section \<open>The whole pattern\<close>

definition pattern_text :: "bool \<Rightarrow> ritem list \<Rightarrow> bool \<Rightarrow> string" where
  "pattern_text a is z = (if a then ''^'' else []) @ items_text is @ (if z then ''$'' else [])"

text \<open>
  A text with escapes but without any special character is taken literally, backslashes included, and a dollar sign after a
  backslash is no anchor, even if the backslash is itself escaped: such patterns are left out.
\<close>

definition wf_regex :: "ritem list \<Rightarrow> bool \<Rightarrow> bool" where
  "wf_regex is z \<longleftrightarrow> list_all wf_ritem is \<and> (has_regex_metachar (items_text is) \<or> CHR 0x5C \<notin> set (items_text is)) \<and>
     (z \<longrightarrow> \<not> suffix [CHR 0x5C] (items_text is))"

lemma items_hd: "items_text is = c # r \<Longrightarrow> c \<noteq> CHR ''^''"
proof (cases "is")
  case (Cons it js)
  assume "items_text is = c # r"
  then show ?thesis
    using Cons by (cases it rule: item_text.cases; cases "case it of Elem a q \<Rightarrow> a | _ \<Rightarrow> AnyByte")
      (auto simp: items_text_def split: if_splits)
qed (simp add: items_text_def)

lemma suffix_last: "suffix [c] t \<longleftrightarrow> t \<noteq> [] \<and> last t = c" "suffix [b, c] t \<longleftrightarrow> suffix [c] t \<and> suffix [b] (butlast t)"
  by (cases t rule: rev_cases; auto simp: suffix_def; fail)+

lemma items_last: "suffix ''$'' (items_text is) \<Longrightarrow> suffix [CHR 0x5C, CHR ''$''] (items_text is)"
proof (cases "is" rule: rev_cases)
  case (snoc js it)
  assume d: "suffix ''$'' (items_text is)"
  show ?thesis
  proof (cases it)
    case (Elem a q)
    show ?thesis
    proof (cases "q = Once \<and> a = Lit CHR ''$''")
      case True
      then show ?thesis using snoc Elem by (simp add: items_text_def suffix_def)
    next
      case False
      then have "last (item_text it) \<noteq> CHR ''$''" "item_text it \<noteq> []"
        using Elem atom_text_hd(2) by (cases q; cases a; auto)+
      then show ?thesis using d snoc by (simp add: items_text_def suffix_last)
    qed
  next
    case (Group alts q)
    then have "last (item_text it) \<noteq> CHR ''$''" "item_text it \<noteq> []" by (cases q; simp)+
    then show ?thesis using d snoc by (simp add: items_text_def suffix_last)
  qed
qed (simp add: items_text_def)

lemma anchors_stripped:
  assumes "wf_regex is z"
  shows "regex_strip_anchors (pattern_text a is z) = (items_text is, a, z)"
proof -
  have "prefix ''^'' (pattern_text a is z) = a"
    using items_hd [of "is"] by (cases "items_text is") (auto simp: pattern_text_def)
  moreover have "(suffix ''$'' (pattern_text a is z) \<and> \<not> suffix [CHR 0x5C, CHR ''$''] (pattern_text a is z)) = z"
  proof (cases z)
    case True
    then have "\<not> suffix [CHR 0x5C] (items_text is)" using assms by (simp add: wf_regex_def)
    then show ?thesis using True by (auto simp: pattern_text_def suffix_last butlast_append)
  next
    case False
    then show ?thesis
      using items_last [of "is"] by (cases "items_text is" rule: rev_cases) (auto simp: pattern_text_def suffix_last butlast_append split: if_splits)
  qed
  ultimately show ?thesis
    by (simp add: regex_strip_anchors_def Let_def) (simp add: pattern_text_def butlast_append)
qed

section \<open>The first match\<close>
















section \<open>The language of a pattern\<close>





























section \<open>Leftmost and longest\<close>







definition first_of :: "'a list \<Rightarrow> 'a option" where
  "first_of xs = (case xs of [] \<Rightarrow> None | x # _ \<Rightarrow> Some x)"

lemma first_of_simps [simp]: "first_of [] = None" "first_of (x # xs) = Some x"
  by (simp_all add: first_of_def)










































text \<open>The alternatives of a group are tried in order: the first that leads to a match is taken, even if another is longer.\<close>

lemma alternatives_in_order: "regex_match_with_captures ''ab'' ''(a|ab)'' = Ok (Some [''a'', ''a''])"
  by code_simp

text \<open>
  The inside of a group is matched once and never tried again shorter: the pattern \<open>(a*)a\<close>, which every text
  with the letter matches, matches nothing.
\<close>

theorem group_never_shortened: "regex_match_with_captures s ''(a*)a'' = Ok None"
proof -
  let ?is = "[Group [[(Lit CHR ''a'', Star)]] Once, Elem (Lit CHR ''a'') Once]"
  let ?n = "\<lambda>i. length (takeWhile (\<lambda>c. c = CHR ''a'') (drop i s))"
  have texts: "items_text ?is = ''(a*)a''" "pattern_text False ?is False = ''(a*)a''"
    by (simp_all add: pattern_text_def items_text_def alt_text_def elem_text_def)
  have wf: "wf_regex ?is False" by (simp add: wf_regex_def texts has_regex_metachar_def)
  have lit: "atom_has (Lit CHR ''a'') = (\<lambda>c. c = CHR ''a'')" by (simp add: fun_eq_iff)
  have "preferred s [(Lit CHR ''a'', Star)] i = Some (i + ?n i)" for i
    by (simp add: preferred_def Let_def lit)
  then have "group_ends s [[(Lit CHR ''a'', Star)]] Once i = [i + ?n i]" for i
    by (simp add: group_ends_def map_filter_simps)
  moreover have "\<not> (i + ?n i < length s \<and> s ! (i + ?n i) = CHR ''a'')" for i
  proof
    assume a: "i + ?n i < length s \<and> s ! (i + ?n i) = CHR ''a''"
    then have "?n i < length (drop i s)" by auto
    from nth_length_takeWhile [OF this] show False using a by simp
  qed
  ultimately have "pattern_matches s ?is i = []" for i
    by (simp add: once_ends atom_has.simps del: elem_ends.simps)
  then have "regex_match_from_start s ''(a*)a'' False i = Ok None" for i
    using capturing_first [of ?is s False i "[]"] by (simp add: regex_match_from_start_def texts del: pattern_matches.simps)
  then have "first_match s ''(a*)a'' False starts = Ok None" for starts by (induction starts) simp_all
  then show ?thesis
    using anchors_stripped [OF wf, of False] by (simp add: regex_match_with_captures_def texts has_regex_metachar_def regex_find_first_match_def)
qed

section \<open>The two matchers\<close>

text \<open>A continuation that leaves the captures alone and succeeds at given indices.\<close>

definition decides :: "regex_cont \<Rightarrow> (nat \<Rightarrow> bool) \<Rightarrow> bool" where
  "decides cont P \<longleftrightarrow> (\<forall>i caps. fst (cont i caps) = caps \<and> (snd (cont i caps) \<noteq> None \<longleftrightarrow> P i))"

lemma decides_cases:
  assumes "decides cont P"
  obtains "\<not> P i" "cont i caps = (caps, None)" | e where "P i" "cont i caps = (caps, Some e)"
proof -
  have "fst (cont i caps) = caps" "snd (cont i caps) \<noteq> None \<longleftrightarrow> P i" using assms by (simp_all add: decides_def)
  then show ?thesis using that by (cases "cont i caps") auto
qed

lemma first_attempt_decides:
  "\<forall>x \<in> set xs. fst (f x caps) = caps \<Longrightarrow>
   fst (first_attempt f xs caps) = caps \<and> (snd (first_attempt f xs caps) \<noteq> None \<longleftrightarrow> (\<exists>x \<in> set xs. snd (f x caps) \<noteq> None))"
proof (induction xs)
  case (Cons x xs)
  then show ?case by (cases "f x caps"; cases "snd (f x caps)") auto
qed simp

lemma star_loop_iff:
  "regex_backtrack_star_loop P s f i \<longleftrightarrow> (\<exists>k \<le> length (takeWhile f (drop i s)). P (i + k))"
proof (induction "length s - i" arbitrary: i rule: less_induct)
  case less
  show ?case
  proof (cases "i < length s \<and> f (s ! i)")
    case True
    then have n: "length (takeWhile f (drop i s)) = Suc (length (takeWhile f (drop (Suc i) s)))"
      by (simp add: Cons_nth_drop_Suc [symmetric])
    have "regex_backtrack_star_loop P s f (Suc i) \<longleftrightarrow> (\<exists>k \<le> length (takeWhile f (drop (Suc i) s)). P (Suc i + k))"
      using less [of "Suc i"] True by (simp only: diff_less_mono2 lessI)
    also have "\<dots> \<longleftrightarrow> (\<exists>k. 0 < k \<and> k \<le> length (takeWhile f (drop i s)) \<and> P (i + k))"
      unfolding n by (metis Suc_le_mono add_Suc_shift gr0_implies_Suc zero_less_Suc)
    finally show ?thesis
      using True by (subst regex_backtrack_star_loop.simps) (auto, metis Nat.add_0_right gr0I)
  next
    case False
    then have "length (takeWhile f (drop i s)) = 0" using takeWhile_pos [of f i s] by blast
    then show ?thesis using False by (subst regex_backtrack_star_loop.simps) auto
  qed
qed

lemma elem_decides:
  assumes "decides cont P"
  shows "fst (regex_match_elem cont s i quant f caps) = caps"
    and "q \<in> {CHR ''*'', CHR ''+'', CHR ''?''} \<Longrightarrow> snd (regex_match_elem cont s i (Some q) f caps) \<noteq> None \<longleftrightarrow>
      (if q = CHR ''*'' then regex_backtrack_star P s i f else if q = CHR ''+'' then regex_backtrack_plus P s i f
       else regex_backtrack_optional P s i f)"
    and "snd (regex_match_elem cont s i None f caps) \<noteq> None \<longleftrightarrow> regex_backtrack_single P s i f"
proof -
  have c: "fst (cont i caps) = caps" "snd (cont i caps) \<noteq> None \<longleftrightarrow> P i" for i caps using assms by (simp_all add: decides_def)
  note rep = first_attempt_decides [of _ "\<lambda>c. cont (i + c)" caps]
  have opt: "fst (regex_match_optional_elem cont s i f caps) = caps \<and>
      (snd (regex_match_optional_elem cont s i f caps) \<noteq> None \<longleftrightarrow> regex_backtrack_optional P s i f)"
    using c [of i caps] c [of "i + 1" caps]
    by (cases "cont (i + 1) caps"; cases "snd (cont (i + 1) caps)") (auto simp: regex_match_optional_elem_def regex_backtrack_optional_def)
  show "fst (regex_match_elem cont s i quant f caps) = caps"
    using opt rep c by (auto simp: regex_match_elem_def regex_match_repeated_elem_def regex_match_single_elem_def Let_def
        simp del: upt_Suc split: option.split)
  show "snd (regex_match_elem cont s i None f caps) \<noteq> None \<longleftrightarrow> regex_backtrack_single P s i f"
    using c [of "i + 1" caps] by (auto simp: regex_match_elem_def regex_match_single_elem_def regex_backtrack_single_def)
  show "snd (regex_match_elem cont s i (Some q) f caps) \<noteq> None \<longleftrightarrow>
      (if q = CHR ''*'' then regex_backtrack_star P s i f else if q = CHR ''+'' then regex_backtrack_plus P s i f
       else regex_backtrack_optional P s i f)" if "q \<in> {CHR ''*'', CHR ''+'', CHR ''?''}"
    using that
  proof (elim insertE)
    assume "q = CHR ''*''"
    then show ?thesis using rep c
      by (simp add: regex_match_elem_def regex_match_repeated_elem_def Let_def regex_backtrack_star_def star_loop_iff
          count_regex_matches_def less_Suc_eq_le Bex_def del: upt_Suc)
  next
    assume "q = CHR ''+''"
    then show ?thesis using rep c
      by (simp add: regex_match_elem_def regex_match_repeated_elem_def Let_def regex_backtrack_plus_def list_ex_iff del: upt_Suc)
  qed (use opt in \<open>simp_all add: regex_match_elem_def\<close>)
qed

lemma class_rest_subset: "set (snd (class_chars pat)) \<subseteq> set pat"
proof (induction "length pat" arbitrary: pat rule: less_induct)
  case less
  show ?case
  proof (cases pat)
    case (Cons c r)
    have "set (snd (class_chars r)) \<subseteq> set r" using less Cons by simp
    moreover have "set (snd (class_chars r')) \<subseteq> set r'" if "r = m # hi # r'" for m hi r' using less Cons that by simp
    ultimately show ?thesis
      unfolding Cons class_chars.simps by (auto simp: Let_def case_prod_beta split: list.split)
  qed simp
qed

lemma rest_subset:
  "set (snd (parse_regex_elem pat)) \<subseteq> set pat" "set (snd (parse_quantifier pat)) \<subseteq> set pat"
proof -
  have "set (snd (parse_regex_char_class (tl pat))) \<subseteq> set (tl pat)"
    using class_rest_subset [of "tl pat"] class_rest_subset [of "tl (tl pat)"]
    by (cases "tl pat") (auto simp: parse_regex_char_class_def Let_def case_prod_beta)
  then show "set (snd (parse_regex_elem pat)) \<subseteq> set pat" by (cases pat; cases "tl pat") auto
  show "set (snd (parse_quantifier pat)) \<subseteq> set pat" by (cases pat) auto
qed

lemma quantifier_is: "parse_quantifier pat = (Some q, r) \<Longrightarrow> q \<in> {CHR ''*'', CHR ''+'', CHR ''?''}"
  by (cases pat) (auto split: if_splits)

text \<open>On patterns without groups the two matchers of the file agree.\<close>

lemma matchers_agree:
  "CHR ''('' \<notin> set pat \<Longrightarrow> decides (regex_match_capturing s me pat) (regex_backtrack s me pat)"
proof (induction "length pat" arbitrary: pat rule: less_induct)
  case less
  show ?case
  proof (cases "pat = []")
    case True
    then show ?thesis by (auto simp: decides_def regex_match_capturing.simps regex_backtrack.simps regex_check_end_def)
  next
    case False
    obtain f r where e: "parse_regex_elem pat = (f, r)" by (cases "parse_regex_elem pat")
    obtain q r' where q: "parse_quantifier r = (q, r')" by (cases "parse_quantifier r")
    have "length r' < length pat" using elem_rest [OF e [symmetric] False] quantifier_rest [OF q [symmetric]] by simp
    moreover have "CHR ''('' \<notin> set r'" using less.prems rest_subset(1) [of pat] rest_subset(2) [of r] e q by auto
    ultimately have d: "decides (regex_match_capturing s me r') (regex_backtrack s me r')" using less.hyps by blast
    have "hd pat \<noteq> CHR ''(''" using less.prems False by (cases pat) auto
    then have "regex_match_capturing s me pat i caps = regex_match_elem (regex_match_capturing s me r') s i q f caps" for i caps
      using False e q by (simp add: regex_match_capturing.simps [of s me pat])
    moreover have "regex_backtrack s me pat i \<longleftrightarrow> snd (regex_match_elem (regex_match_capturing s me r') s i q f caps) \<noteq> None" for i caps
      using False e q elem_decides(2,3) [OF d] quantifier_is [of r]
      by (cases q) (auto simp: regex_backtrack.simps [of s me pat])
    ultimately show ?thesis using elem_decides(1) [OF d] by (simp add: decides_def)
  qed
qed

end
