(* ===== verification/Cond.thy ===== *)
theory Cond
  imports Regex_Props Expand_Props Memfs_Props Arith
begin

text \<open>
  The evaluator of \<open>[[ ... ]]\<close> (\<^verbatim>\<open>crates/wasmsh-runtime/src/dbl_bracket.rs\<close>): a recursive descent over
  the expanded words, with string, pattern, file and integer tests.  The position in the vector of tokens is the list of
  the tokens from there on.
\<close>

section \<open>Tests\<close>

definition resolve_test_path :: "string \<Rightarrow> string \<Rightarrow> string" where
  "resolve_test_path dir path = (if prefix ''/'' path then normalize_path path else normalize_path (dir @ ''/'' @ path))"

definition eval_file_test :: "char \<Rightarrow> string \<Rightarrow> memory_fs \<Rightarrow> string \<Rightarrow> (bool, unit) result" where
  "eval_file_test flag path fs dir =
     (if flag = CHR ''t'' then Ok (path = ''0'')
      else case memfs_stat fs (resolve_test_path dir path) of
        Ok meta \<Rightarrow>
          Ok (if flag = CHR ''f'' then \<not> is_dir meta
              else if flag = CHR ''d'' then is_dir meta
              else if flag \<in> {CHR ''s'', CHR ''N''} then 0 < size_of meta
              else flag \<in> set ''erwxOG'')
      | Err _ \<Rightarrow> Ok False
      | Panic m \<Rightarrow> Panic m)"

definition eval_int_cmp :: "string \<Rightarrow> string \<Rightarrow> string \<Rightarrow> bool" where
  "eval_int_cmp lhs op rhs =
     (let a = sint (unwrap_or_0 (parse_i64 (trim lhs))); b = sint (unwrap_or_0 (parse_i64 (trim rhs))) in
      if op = ''-eq'' then a = b
      else if op = ''-ne'' then a \<noteq> b
      else if op = ''-lt'' then a < b
      else if op = ''-le'' then a \<le> b
      else if op = ''-gt'' then b < a
      else if op = ''-ge'' then b \<le> a
      else False)"

definition glob_cmp :: "case_fns \<Rightarrow> string \<Rightarrow> string \<Rightarrow> shell_state \<Rightarrow> shell_state \<times> bool" where
  "glob_cmp cf lhs rhs st =
     (let (st', v) = get_var st ''SHOPT_nocasematch'' in
      (st', if v = Some ''1'' then glob_match_inner (str_lower cf rhs) (str_lower cf lhs) else glob_match_inner rhs lhs))"

fun store_captures :: "nat \<Rightarrow> string list \<Rightarrow> shell_state \<Rightarrow> shell_state" where
  "store_captures i [] st = st"
| "store_captures i (cap # caps) st = store_captures (Suc i) caps (set_array_element st ''BASH_REMATCH'' (show_nat i) cap)"

definition eval_regex_match :: "string \<Rightarrow> string \<Rightarrow> shell_state \<Rightarrow> (bool \<times> shell_state, unit) result" where
  "eval_regex_match lhs rhs st =
     result_bind (regex_match_with_captures lhs rhs)
       (\<lambda>captures. case captures of
          None \<Rightarrow> Ok (False, init_indexed_array st ''BASH_REMATCH'')
        | Some caps \<Rightarrow> Ok (True, store_captures 0 caps (init_indexed_array st ''BASH_REMATCH'')))"

definition is_binary_op :: "string \<Rightarrow> bool" where
  "is_binary_op s \<longleftrightarrow>
     s \<in> {''=='', ''!='', ''=~'', ''='', ''<'', ''>'', ''-eq'', ''-ne'', ''-lt'', ''-le'', ''-gt'', ''-ge'', ''-ef'', ''-nt'', ''-ot''}"

definition eval_binary_op ::
  "case_fns \<Rightarrow> memory_fs \<Rightarrow> string \<Rightarrow> string \<Rightarrow> string \<Rightarrow> shell_state \<Rightarrow> (bool \<times> shell_state, unit) result" where
  "eval_binary_op cf fs lhs op rhs st =
     (if op = ''=='' \<or> op = ''='' then (let (st', v) = glob_cmp cf lhs rhs st in Ok (v, st'))
      else if op = ''!='' then (let (st', v) = glob_cmp cf lhs rhs st in Ok (\<not> v, st'))
      else if op = ''=~'' then eval_regex_match lhs rhs st
      else if op = ''<'' then Ok (lhs < rhs, st)
      else if op = ''>'' then Ok (rhs < lhs, st)
      else if op = ''-ef'' then Ok (resolve_test_path (cwd st) lhs = resolve_test_path (cwd st) rhs, st)
      else if op = ''-nt'' \<or> op = ''-ot'' then
        result_bind (eval_file_test CHR ''e'' lhs fs (cwd st)) (\<lambda>l.
          result_bind (eval_file_test CHR ''e'' rhs fs (cwd st)) (\<lambda>r.
            Ok (if op = ''-nt'' then l \<and> \<not> r else \<not> l \<and> r, st)))
      else Ok (eval_int_cmp lhs op rhs, st))"

section \<open>Primaries\<close>

type_synonym cond_result = "(bool \<times> string list \<times> shell_state, unit) result"

definition dbl_bracket_take_truthy_token :: "string list \<Rightarrow> bool \<times> string list" where
  "dbl_bracket_take_truthy_token tokens =
     (case tokens of [] \<Rightarrow> (False, []) | token # rest \<Rightarrow> (token \<noteq> [], rest))"

definition dbl_bracket_parse_unary_flag :: "string \<Rightarrow> char option" where
  "dbl_bracket_parse_unary_flag op = (if prefix ''-'' op \<and> length op = 2 then Some (op ! 1) else None)"

definition dbl_bracket_eval_string_test :: "char \<Rightarrow> string list \<Rightarrow> bool \<times> string list" where
  "dbl_bracket_eval_string_test flag tokens =
     (let arg = tokens ! 1 in (if flag = CHR ''z'' then arg = [] else arg \<noteq> [], drop 2 tokens))"

definition dbl_bracket_eval_file_test ::
  "memory_fs \<Rightarrow> string \<Rightarrow> char \<Rightarrow> string list \<Rightarrow> ((bool \<times> string list) option, unit) result" where
  "dbl_bracket_eval_file_test fs dir flag tokens =
     (if 2 < length tokens \<and> is_binary_op (tokens ! 2) then Ok None
      else result_bind (eval_file_test flag (tokens ! 1) fs dir) (\<lambda>v. Ok (Some (v, drop 2 tokens))))"

definition dbl_bracket_try_unary ::
  "memory_fs \<Rightarrow> string \<Rightarrow> string list \<Rightarrow> ((bool \<times> string list) option, unit) result" where
  "dbl_bracket_try_unary fs dir tokens =
     (if length tokens < 2 then Ok None
      else case dbl_bracket_parse_unary_flag (hd tokens) of
        None \<Rightarrow> Ok None
      | Some flag \<Rightarrow>
          (if flag \<in> {CHR ''z'', CHR ''n''} then Ok (Some (dbl_bracket_eval_string_test flag tokens))
           else if flag \<in> set ''fdesrwxLhpStNOG'' then dbl_bracket_eval_file_test fs dir flag tokens
           else Ok None))"

fun dbl_bracket_collect_regex_rhs :: "string list \<Rightarrow> string \<times> string list" where
  "dbl_bracket_collect_regex_rhs [] = ([], [])"
| "dbl_bracket_collect_regex_rhs (t # ts) =
     (if t = ''&&'' \<or> t = ''||'' then ([], t # ts)
      else (let (rhs, rest) = dbl_bracket_collect_regex_rhs ts in (t @ rhs, rest)))"

definition dbl_bracket_collect_rhs :: "string \<Rightarrow> string list \<Rightarrow> string \<times> string list" where
  "dbl_bracket_collect_rhs op tokens =
     (case tokens of
        [] \<Rightarrow> ([], [])
      | t # ts \<Rightarrow> if op = ''=~'' then dbl_bracket_collect_regex_rhs tokens else (t, ts))"

definition dbl_bracket_try_binary ::
  "case_fns \<Rightarrow> memory_fs \<Rightarrow> string list \<Rightarrow> shell_state \<Rightarrow> ((bool \<times> string list \<times> shell_state) option, unit) result" where
  "dbl_bracket_try_binary cf fs tokens st =
     (if length tokens < 2 \<or> \<not> is_binary_op (tokens ! 1) then Ok None
      else
        (let lhs = hd tokens; op = tokens ! 1; (rhs, rest) = dbl_bracket_collect_rhs op (drop 2 tokens)
         in result_bind (eval_binary_op cf fs lhs op rhs st) (\<lambda>(v, st'). Ok (Some (v, rest, st')))))"

text \<open>A primary that is no group; the list of tokens is not empty.\<close>

definition eval_test :: "case_fns \<Rightarrow> memory_fs \<Rightarrow> string list \<Rightarrow> shell_state \<Rightarrow> cond_result" where
  "eval_test cf fs tokens st =
     result_bind (dbl_bracket_try_unary fs (cwd st) tokens) (\<lambda>unary.
       case unary of
         Some (v, rest) \<Rightarrow> Ok (v, rest, st)
       | None \<Rightarrow>
           (if length tokens = 1 then (let (v, rest) = dbl_bracket_take_truthy_token tokens in Ok (v, rest, st))
            else result_bind (dbl_bracket_try_binary cf fs tokens st) (\<lambda>binary.
              case binary of
                Some r \<Rightarrow> Ok r
              | None \<Rightarrow> (let (v, rest) = dbl_bracket_take_truthy_token tokens in Ok (v, rest, st)))))"

lemma collect_regex_shorter: "length (snd (dbl_bracket_collect_regex_rhs ts)) \<le> length ts"
  by (induction ts) (auto simp: case_prod_beta Let_def)

lemma unary_shorter: "dbl_bracket_try_unary fs dir tokens = Ok (Some r) \<Longrightarrow> length (snd r) \<le> length tokens"
  by (auto simp: dbl_bracket_try_unary_def dbl_bracket_eval_string_test_def dbl_bracket_eval_file_test_def result_bind_Ok_iff Let_def
      split: if_splits option.splits)

lemma rhs_shorter: "length (snd (dbl_bracket_collect_rhs op tokens)) \<le> length tokens"
  using collect_regex_shorter [of tokens] by (cases tokens) (simp_all add: dbl_bracket_collect_rhs_def del: dbl_bracket_collect_regex_rhs.simps)

lemma binary_shorter: "dbl_bracket_try_binary cf fs tokens st = Ok (Some r) \<Longrightarrow> length (fst (snd r)) \<le> length tokens"
  using rhs_shorter [of "tokens ! 1" "drop 2 tokens"]
  by (auto simp: dbl_bracket_try_binary_def result_bind_Ok_iff Let_def case_prod_beta split: if_splits)

lemma truthy_shorter: "length (snd (dbl_bracket_take_truthy_token tokens)) \<le> length tokens"
  by (cases tokens) (simp_all add: dbl_bracket_take_truthy_token_def)

lemma eval_test_shorter: "eval_test cf fs tokens st = Ok r \<Longrightarrow> length (fst (snd r)) \<le> length tokens"
  unfolding eval_test_def
  using unary_shorter [of fs "cwd st" tokens] binary_shorter [of cf fs tokens st] truthy_shorter [of tokens]
  by (auto simp: result_bind_Ok_iff Let_def case_prod_beta split: option.splits if_splits)

section \<open>Precedence\<close>

function dbl_bracket_eval_or :: "case_fns \<Rightarrow> memory_fs \<Rightarrow> string list \<Rightarrow> shell_state \<Rightarrow> cond_result"
  and or_loop :: "case_fns \<Rightarrow> memory_fs \<Rightarrow> bool \<Rightarrow> string list \<Rightarrow> shell_state \<Rightarrow> cond_result"
  and dbl_bracket_eval_and :: "case_fns \<Rightarrow> memory_fs \<Rightarrow> string list \<Rightarrow> shell_state \<Rightarrow> cond_result"
  and and_loop :: "case_fns \<Rightarrow> memory_fs \<Rightarrow> bool \<Rightarrow> string list \<Rightarrow> shell_state \<Rightarrow> cond_result"
  and dbl_bracket_eval_not :: "case_fns \<Rightarrow> memory_fs \<Rightarrow> string list \<Rightarrow> shell_state \<Rightarrow> cond_result"
  and dbl_bracket_eval_primary :: "case_fns \<Rightarrow> memory_fs \<Rightarrow> string list \<Rightarrow> shell_state \<Rightarrow> cond_result" where
  "dbl_bracket_eval_or cf fs tokens st =
     result_bind (dbl_bracket_eval_and cf fs tokens st) (\<lambda>r. or_loop cf fs (fst r) (fst (snd r)) (snd (snd r)))"
| "or_loop cf fs v tokens st =
     (if tokens \<noteq> [] \<and> hd tokens = ''||''
      then result_bind (dbl_bracket_eval_and cf fs (tl tokens) st)
             (\<lambda>r. or_loop cf fs (v \<or> fst r) (fst (snd r)) (snd (snd r)))
      else Ok (v, tokens, st))"
| "dbl_bracket_eval_and cf fs tokens st =
     result_bind (dbl_bracket_eval_not cf fs tokens st) (\<lambda>r. and_loop cf fs (fst r) (fst (snd r)) (snd (snd r)))"
| "and_loop cf fs v tokens st =
     (if tokens \<noteq> [] \<and> hd tokens = ''&&''
      then result_bind (dbl_bracket_eval_not cf fs (tl tokens) st)
             (\<lambda>r. and_loop cf fs (v \<and> fst r) (fst (snd r)) (snd (snd r)))
      else Ok (v, tokens, st))"
| "dbl_bracket_eval_not cf fs tokens st =
     (if tokens \<noteq> [] \<and> hd tokens = ''!''
      then result_bind (dbl_bracket_eval_not cf fs (tl tokens) st) (\<lambda>r. Ok (\<not> fst r, snd r))
      else dbl_bracket_eval_primary cf fs tokens st)"
| "dbl_bracket_eval_primary cf fs tokens st =
     (if tokens = [] then Ok (False, [], st)
      else if hd tokens = ''('' then
        result_bind (dbl_bracket_eval_or cf fs (tl tokens) st)
          (\<lambda>r. let rest = fst (snd r) in
             Ok (fst r, if rest \<noteq> [] \<and> hd rest = '')'' then tl rest else rest, snd (snd r)))
      else eval_test cf fs tokens st)"
  by pat_completeness auto

text \<open>Every evaluator leaves a part of its tokens, which is why the loops and the recursion end.\<close>

abbreviation (input) eval_dom where "eval_dom \<equiv> dbl_bracket_eval_or_or_loop_dbl_bracket_eval_and_and_loop_dbl_bracket_eval_not_dbl_bracket_eval_primary_dom"

lemma eval_shorter:
  "eval_dom (Inl (Inl (cf, fs, tokens, st))) \<Longrightarrow> dbl_bracket_eval_or cf fs tokens st = Ok r \<Longrightarrow> length (fst (snd r)) \<le> length tokens"
  "eval_dom (Inl (Inr (Inl (cf, fs, v, tokens, st)))) \<Longrightarrow> or_loop cf fs v tokens st = Ok r \<Longrightarrow> length (fst (snd r)) \<le> length tokens"
  "eval_dom (Inl (Inr (Inr (cf, fs, tokens, st)))) \<Longrightarrow> dbl_bracket_eval_and cf fs tokens st = Ok r \<Longrightarrow> length (fst (snd r)) \<le> length tokens"
  "eval_dom (Inr (Inl (cf, fs, v, tokens, st))) \<Longrightarrow> and_loop cf fs v tokens st = Ok r \<Longrightarrow> length (fst (snd r)) \<le> length tokens"
  "eval_dom (Inr (Inr (Inl (cf, fs, tokens, st)))) \<Longrightarrow> dbl_bracket_eval_not cf fs tokens st = Ok r \<Longrightarrow> length (fst (snd r)) \<le> length tokens"
  "eval_dom (Inr (Inr (Inr (cf, fs, tokens, st)))) \<Longrightarrow> dbl_bracket_eval_primary cf fs tokens st = Ok r \<Longrightarrow> length (fst (snd r)) \<le> length tokens"
proof (induction cf fs tokens st and cf fs v tokens st and cf fs tokens st and cf fs v tokens st and cf fs tokens st and cf fs tokens st
    arbitrary: r and r and r and r and r and r rule: dbl_bracket_eval_or_or_loop_dbl_bracket_eval_and_and_loop_dbl_bracket_eval_not_dbl_bracket_eval_primary.pinduct)
  case (1 cf fs tokens st)
  from "1.prems" obtain x where "dbl_bracket_eval_and cf fs tokens st = Ok x" "or_loop cf fs (fst x) (fst (snd x)) (snd (snd x)) = Ok r"
    by (auto simp: dbl_bracket_eval_or.psimps [OF "1.hyps"] result_bind_Ok_iff)
  then show ?case using "1.IH" by fastforce
next
  case (2 cf fs v tokens st)
  show ?case
  proof (cases "tokens \<noteq> [] \<and> hd tokens = ''||''")
    case True
    with "2.prems" obtain x where "dbl_bracket_eval_and cf fs (tl tokens) st = Ok x"
        "or_loop cf fs (v \<or> fst x) (fst (snd x)) (snd (snd x)) = Ok r"
      by (auto simp: or_loop.psimps [OF "2.hyps"] result_bind_Ok_iff)
    then show ?thesis using "2.IH" True by fastforce
  qed (use "2.prems" or_loop.psimps [OF "2.hyps"] in auto)
next
  case (3 cf fs tokens st)
  from "3.prems" obtain x where "dbl_bracket_eval_not cf fs tokens st = Ok x" "and_loop cf fs (fst x) (fst (snd x)) (snd (snd x)) = Ok r"
    by (auto simp: dbl_bracket_eval_and.psimps [OF "3.hyps"] result_bind_Ok_iff)
  then show ?case using "3.IH" by fastforce
next
  case (4 cf fs v tokens st)
  show ?case
  proof (cases "tokens \<noteq> [] \<and> hd tokens = ''&&''")
    case True
    with "4.prems" obtain x where "dbl_bracket_eval_not cf fs (tl tokens) st = Ok x"
        "and_loop cf fs (v \<and> fst x) (fst (snd x)) (snd (snd x)) = Ok r"
      by (auto simp: and_loop.psimps [OF "4.hyps"] result_bind_Ok_iff)
    then show ?thesis using "4.IH" True by fastforce
  qed (use "4.prems" and_loop.psimps [OF "4.hyps"] in auto)
next
  case (5 cf fs tokens st)
  show ?case
  proof (cases "tokens \<noteq> [] \<and> hd tokens = ''!''")
    case True
    with "5.prems" obtain x where "dbl_bracket_eval_not cf fs (tl tokens) st = Ok x" "snd r = snd x"
      by (auto simp: dbl_bracket_eval_not.psimps [OF "5.hyps"] result_bind_Ok_iff)
    then show ?thesis using "5.IH"(1) True by (cases tokens) fastforce+
  next
    case False
    then have "dbl_bracket_eval_primary cf fs tokens st = Ok r" using "5.prems" by (auto simp: dbl_bracket_eval_not.psimps [OF "5.hyps"])
    then show ?thesis using "5.IH"(2) [OF False] by simp
  qed
next
  case (6 cf fs tokens st)
  show ?case
  proof (cases "tokens \<noteq> [] \<and> hd tokens = ''(''")
    case True
    with "6.prems" obtain x where x: "dbl_bracket_eval_or cf fs (tl tokens) st = Ok x"
        "fst (snd r) = (if fst (snd x) \<noteq> [] \<and> hd (fst (snd x)) = '')'' then tl (fst (snd x)) else fst (snd x))"
      by (auto simp: dbl_bracket_eval_primary.psimps [OF "6.hyps"] result_bind_Ok_iff Let_def)
    then have "length (fst (snd x)) \<le> length (tl tokens)" using "6.IH" True by simp
    then show ?thesis using x(2) True by (cases tokens; cases "fst (snd x)") auto
  next
    case False
    then show ?thesis
      using "6.prems" [unfolded dbl_bracket_eval_primary.psimps [OF "6.hyps"]] eval_test_shorter [of cf fs tokens st r]
      by (cases "tokens = []") auto
  qed
qed

termination dbl_bracket_eval_or
proof (relation "measure (\<lambda>x. case x of
    Inl (Inl (cf, fs, tokens, st)) \<Rightarrow> 6 * length tokens + 5
  | Inl (Inr (Inl (cf, fs, v, tokens, st))) \<Rightarrow> 6 * length tokens + 4
  | Inl (Inr (Inr (cf, fs, tokens, st))) \<Rightarrow> 6 * length tokens + 3
  | Inr (Inl (cf, fs, v, tokens, st)) \<Rightarrow> 6 * length tokens + 2
  | Inr (Inr (Inl (cf, fs, tokens, st))) \<Rightarrow> 6 * length tokens + 1
  | Inr (Inr (Inr (cf, fs, tokens, st))) \<Rightarrow> 6 * length tokens)", goal_cases)
  case (3 cf fs tokens st r)
  then show ?case using eval_shorter(3) [of cf fs tokens st r] by (cases r) simp
next
  case (5 cf fs v tokens st r)
  then show ?case using eval_shorter(3) [of cf fs "tl tokens" st r] by (cases tokens; cases r) auto
next
  case (7 cf fs tokens st r)
  then show ?case using eval_shorter(5) [of cf fs tokens st r] by (cases r) simp
next
  case (9 cf fs v tokens st r)
  then show ?case using eval_shorter(5) [of cf fs "tl tokens" st r] by (cases tokens; cases r) auto
qed (auto simp: neq_Nil_conv)

declare dbl_bracket_eval_or.simps [simp del] or_loop.simps [simp del] dbl_bracket_eval_and.simps [simp del]
  and_loop.simps [simp del] dbl_bracket_eval_not.simps [simp del] dbl_bracket_eval_primary.simps [simp del]

section \<open>Conditions\<close>




text \<open>
  A word that starts a test must not look like an operator of its own, and the closing parenthesis of a group must not follow a regular
  expression, whose text the code takes up to the next \<open>&&\<close> or \<open>||\<close>.
\<close>

definition operand :: "string \<Rightarrow> bool" where
  "operand s \<longleftrightarrow> s \<notin> {''('', ''!''} \<and> dbl_bracket_parse_unary_flag s = None"



definition then_rest :: "(bool \<times> shell_state, unit) result \<Rightarrow> string list \<Rightarrow> cond_result" where
  "then_rest r rest = result_bind r (\<lambda>(v, st). Ok (v, rest, st))"



lemma not_first_op: "operand s \<Longrightarrow> s \<noteq> ''!'' \<and> s \<noteq> ''(''"
  by (simp add: operand_def)
















text \<open>
  The closing parenthesis of a group is taken into the regular expression in front of it.
\<close>

theorem group_swallowed_by_regex:
  assumes "operand s" "pat \<notin> {''&&'', ''||''}"
  shows "dbl_bracket_eval_or cf fs [''('', s, ''=~'', pat, '')''] st = then_rest (eval_regex_match s (pat @ '')'') st) []"
proof -
  have "dbl_bracket_try_unary fs (cwd st) [s, ''=~'', pat, '')''] = Ok None"
    using assms(1) by (simp add: dbl_bracket_try_unary_def operand_def)
  moreover have "dbl_bracket_collect_rhs ''=~'' [pat, '')''] = (pat @ '')'', [])" using assms(2) by (simp add: dbl_bracket_collect_rhs_def)
  ultimately have "eval_test cf fs [s, ''=~'', pat, '')''] st = then_rest (eval_regex_match s (pat @ '')'') st) []"
    by (cases "eval_regex_match s (pat @ '')'') st")
      (auto simp: eval_test_def dbl_bracket_try_binary_def is_binary_op_def eval_binary_op_def then_rest_def)
  then have inner: "dbl_bracket_eval_or cf fs [s, ''=~'', pat, '')''] st = then_rest (eval_regex_match s (pat @ '')'') st) []"
    using not_first_op [OF assms(1)]
    by (cases "eval_regex_match s (pat @ '')'') st")
      (auto simp: dbl_bracket_eval_or.simps dbl_bracket_eval_and.simps dbl_bracket_eval_not.simps dbl_bracket_eval_primary.simps
        or_loop.simps and_loop.simps then_rest_def)
  then show ?thesis
    by (cases "eval_regex_match s (pat @ '')'') st")
      (auto simp: dbl_bracket_eval_or.simps [of cf fs "''('' # _"] dbl_bracket_eval_and.simps [of cf fs "''('' # _"]
        dbl_bracket_eval_not.simps [of cf fs "''('' # _"] dbl_bracket_eval_primary.simps [of cf fs "''('' # _"]
        or_loop.simps and_loop.simps then_rest_def Let_def)
qed

theorem group_swallowed_witness:
  "\<exists>st. dbl_bracket_eval_or plain_case memfs_new [''('', ''a'', ''=~'', ''a'', '')''] state_new = Ok (False, [], st)"
proof -
  have "operand ''a''" by (simp add: operand_def dbl_bracket_parse_unary_flag_def)
  moreover have "regex_match_with_captures ''a'' ''a)'' = Ok None" by code_simp
  then have "eval_regex_match ''a'' ''a)'' state_new = Ok (False, init_indexed_array state_new ''BASH_REMATCH'')"
    by (simp add: eval_regex_match_def)
  ultimately show ?thesis
    using group_swallowed_by_regex [of "''a''" "''a''" plain_case memfs_new state_new] by (simp add: then_rest_def)
qed

end
