(* ===== verification/Signals.thy ===== *)
theory Signals
  imports Arith
begin

text \<open>
  The signals that the runtime knows (\<^verbatim>\<open>crates/wasmsh-runtime/src/signals.rs\<close>) and their lookup by number or name.
\<close>

datatype signal_default_action = Terminate | Ignore | StopLike | ContinueLike

record runtime_signal_spec =
  signal_name :: string
  number :: int
  handler_var :: string
  ignore_var :: string
  default_action :: signal_default_action
  trappable :: bool

definition RUNTIME_SIGNAL_SPECS :: "runtime_signal_spec list" where
  "RUNTIME_SIGNAL_SPECS =
     [
      \<lparr>signal_name = ''HUP'', number = 1, handler_var = ''_TRAP_SIG_HUP'',
       ignore_var = ''_TRAP_IGNORE_SIG_HUP'', default_action = Terminate, trappable = True\<rparr>,
      \<lparr>signal_name = ''INT'', number = 2, handler_var = ''_TRAP_SIG_INT'',
       ignore_var = ''_TRAP_IGNORE_SIG_INT'', default_action = Terminate, trappable = True\<rparr>,
      \<lparr>signal_name = ''QUIT'', number = 3, handler_var = ''_TRAP_SIG_QUIT'',
       ignore_var = ''_TRAP_IGNORE_SIG_QUIT'', default_action = Terminate, trappable = True\<rparr>,
      \<lparr>signal_name = ''ILL'', number = 4, handler_var = ''_TRAP_SIG_ILL'',
       ignore_var = ''_TRAP_IGNORE_SIG_ILL'', default_action = Terminate, trappable = True\<rparr>,
      \<lparr>signal_name = ''ABRT'', number = 6, handler_var = ''_TRAP_SIG_ABRT'',
       ignore_var = ''_TRAP_IGNORE_SIG_ABRT'', default_action = Terminate, trappable = True\<rparr>,
      \<lparr>signal_name = ''FPE'', number = 8, handler_var = ''_TRAP_SIG_FPE'',
       ignore_var = ''_TRAP_IGNORE_SIG_FPE'', default_action = Terminate, trappable = True\<rparr>,
      \<lparr>signal_name = ''KILL'', number = 9, handler_var = ''_TRAP_SIG_KILL'',
       ignore_var = ''_TRAP_IGNORE_SIG_KILL'', default_action = Terminate, trappable = False\<rparr>,
      \<lparr>signal_name = ''USR1'', number = 10, handler_var = ''_TRAP_SIG_USR1'',
       ignore_var = ''_TRAP_IGNORE_SIG_USR1'', default_action = Terminate, trappable = True\<rparr>,
      \<lparr>signal_name = ''SEGV'', number = 11, handler_var = ''_TRAP_SIG_SEGV'',
       ignore_var = ''_TRAP_IGNORE_SIG_SEGV'', default_action = Terminate, trappable = True\<rparr>,
      \<lparr>signal_name = ''USR2'', number = 12, handler_var = ''_TRAP_SIG_USR2'',
       ignore_var = ''_TRAP_IGNORE_SIG_USR2'', default_action = Terminate, trappable = True\<rparr>,
      \<lparr>signal_name = ''PIPE'', number = 13, handler_var = ''_TRAP_SIG_PIPE'',
       ignore_var = ''_TRAP_IGNORE_SIG_PIPE'', default_action = Terminate, trappable = True\<rparr>,
      \<lparr>signal_name = ''ALRM'', number = 14, handler_var = ''_TRAP_SIG_ALRM'',
       ignore_var = ''_TRAP_IGNORE_SIG_ALRM'', default_action = Terminate, trappable = True\<rparr>,
      \<lparr>signal_name = ''TERM'', number = 15, handler_var = ''_TRAP_SIG_TERM'',
       ignore_var = ''_TRAP_IGNORE_SIG_TERM'', default_action = Terminate, trappable = True\<rparr>,
      \<lparr>signal_name = ''CHLD'', number = 17, handler_var = ''_TRAP_SIG_CHLD'',
       ignore_var = ''_TRAP_IGNORE_SIG_CHLD'', default_action = Ignore, trappable = True\<rparr>,
      \<lparr>signal_name = ''CONT'', number = 18, handler_var = ''_TRAP_SIG_CONT'',
       ignore_var = ''_TRAP_IGNORE_SIG_CONT'', default_action = ContinueLike, trappable = True\<rparr>,
      \<lparr>signal_name = ''STOP'', number = 19, handler_var = ''_TRAP_SIG_STOP'',
       ignore_var = ''_TRAP_IGNORE_SIG_STOP'', default_action = StopLike, trappable = False\<rparr>,
      \<lparr>signal_name = ''TSTP'', number = 20, handler_var = ''_TRAP_SIG_TSTP'',
       ignore_var = ''_TRAP_IGNORE_SIG_TSTP'', default_action = StopLike, trappable = True\<rparr>,
      \<lparr>signal_name = ''TTIN'', number = 21, handler_var = ''_TRAP_SIG_TTIN'',
       ignore_var = ''_TRAP_IGNORE_SIG_TTIN'', default_action = StopLike, trappable = True\<rparr>,
      \<lparr>signal_name = ''TTOU'', number = 22, handler_var = ''_TRAP_SIG_TTOU'',
       ignore_var = ''_TRAP_IGNORE_SIG_TTOU'', default_action = StopLike, trappable = True\<rparr>,
      \<lparr>signal_name = ''WINCH'', number = 28, handler_var = ''_TRAP_SIG_WINCH'',
       ignore_var = ''_TRAP_IGNORE_SIG_WINCH'', default_action = Ignore, trappable = True\<rparr>
     ]"

text \<open>\<open>str::parse::<i32>\<close> and \<open>str::to_ascii_uppercase\<close>.\<close>

definition parse_i32 :: "string \<Rightarrow> int option" where
  "parse_i32 s =
     (let (neg, d) = strip_sign s; n = int (digits_val d) in
      if d \<noteq> [] \<and> list_all is_digit d \<and> (if neg then n \<le> 2 ^ 31 else n < 2 ^ 31) then Some (if neg then - n else n) else None)"

definition ascii_upper :: "char \<Rightarrow> char" where
  "ascii_upper c = (if 97 \<le> (of_char c :: nat) \<and> (of_char c :: nat) \<le> 122 then char_of ((of_char c :: nat) - 32) else c)"

definition find_runtime_signal_spec :: "string \<Rightarrow> runtime_signal_spec option" where
  "find_runtime_signal_spec name =
     (case parse_i32 name of
        Some n \<Rightarrow> List.find (\<lambda>spec. number spec = n) RUNTIME_SIGNAL_SPECS
      | None \<Rightarrow>
          (let normalized = map ascii_upper (case strip_prefix ''SIG'' name of Some s \<Rightarrow> s | None \<Rightarrow> name)
           in List.find (\<lambda>spec. signal_name spec = normalized) RUNTIME_SIGNAL_SPECS))"

section \<open>Lookup\<close>

definition wf_specs :: "runtime_signal_spec list \<Rightarrow> bool" where
  "wf_specs specs \<longleftrightarrow> distinct (map number specs) \<and> distinct (map signal_name specs) \<and>
     list_all (\<lambda>spec. 0 < number spec \<and> number spec < 2 ^ 31 \<and> signal_name spec \<noteq> [] \<and> hd (signal_name spec) \<notin> set ''+-'' \<and>
       \<not> is_digit (hd (signal_name spec)) \<and> map ascii_upper (signal_name spec) = signal_name spec \<and>
       strip_prefix ''SIG'' (signal_name spec) = None) specs"

lemma specs_wf: "wf_specs RUNTIME_SIGNAL_SPECS"
  by code_simp

lemma find_unique: "distinct (map f xs) \<Longrightarrow> x \<in> set xs \<Longrightarrow> List.find (\<lambda>y. f y = f x) xs = Some x"
  by (induction xs) (auto simp: image_iff)

lemma parse_show_i32: "n < 2 ^ 31 \<Longrightarrow> parse_i32 (show_nat n) = Some (int n)"
proof -
  assume n: "n < 2 ^ 31"
  obtain c cs where s: "show_nat n = c # cs" "is_digit c" using show_nat_digits [of n] by (cases "show_nat n") auto
  then have "strip_sign (show_nat n) = (False, show_nat n)" by (auto simp: strip_sign_def is_digit_def)
  then show ?thesis using n show_nat_digits [of n] digits_val_show_nat [of n] by (simp add: parse_i32_def)
qed

lemma parse_word_i32: "s \<noteq> [] \<Longrightarrow> hd s \<notin> set ''+-'' \<Longrightarrow> \<not> is_digit (hd s) \<Longrightarrow> parse_i32 s = None"
  by (cases s) (auto simp: parse_i32_def strip_sign_def)

text \<open>
  Every signal is found by its number, by its name and by its name with the prefix, and whatever is found has the number
  or the name that was asked for.
\<close>

lemma signal_lookup:
  assumes "spec \<in> set RUNTIME_SIGNAL_SPECS"
  shows "find_runtime_signal_spec (show_int (number spec)) = Some spec"
    and "find_runtime_signal_spec (signal_name spec) = Some spec"
    and "find_runtime_signal_spec (''SIG'' @ signal_name spec) = Some spec"
proof -
  have d: "distinct (map number RUNTIME_SIGNAL_SPECS)" "distinct (map signal_name RUNTIME_SIGNAL_SPECS)"
    and sp: "0 < number spec" "number spec < 2 ^ 31" "signal_name spec \<noteq> []" "hd (signal_name spec) \<notin> set ''+-''"
      "\<not> is_digit (hd (signal_name spec))" "map ascii_upper (signal_name spec) = signal_name spec"
      "strip_prefix ''SIG'' (signal_name spec) = None"
    using specs_wf assms by (auto simp: wf_specs_def list_all_iff)
  have "parse_i32 (show_int (number spec)) = Some (number spec)"
    using parse_show_i32 [of "nat (number spec)"] sp(1,2) by (simp add: show_int_def)
  then show "find_runtime_signal_spec (show_int (number spec)) = Some spec"
    using find_unique [OF d(1) assms] by (simp add: find_runtime_signal_spec_def)
  show "find_runtime_signal_spec (signal_name spec) = Some spec"
    using find_unique [OF d(2) assms] parse_word_i32 [OF sp(3-5)] sp(6,7) by (simp add: find_runtime_signal_spec_def)
  have "parse_i32 (''SIG'' @ signal_name spec) = None" by (rule parse_word_i32) (auto simp: is_digit_def)
  moreover have "strip_prefix ''SIG'' (''SIG'' @ signal_name spec) = Some (signal_name spec)" by (simp add: strip_prefix_def)
  ultimately show "find_runtime_signal_spec (''SIG'' @ signal_name spec) = Some spec"
    using find_unique [OF d(2) assms] sp(6) by (simp add: find_runtime_signal_spec_def)
qed

end
