(* ===== verification/Spec2Isabelle.thy ===== *)
theory Spec2Isabelle
  imports Pipe Memfs_Props Vm_Props Fd_Table Extglob Parser_Lines Stream_Props Arith_Props Brace_Props Expand_Fields Sed_Props Cond Signals
begin

text \<open>
  A verification library of wasmsh, a Bash-compatible shell that runs in a sandbox (compiled to
  WebAssembly), written in Rust under \<^verbatim>\<open>src/crates\<close>.

  \<^bold>\<open>The program.\<close>  A source text is cut into tokens by the lexer (\<^verbatim>\<open>wasmsh-lex\<close>), parsed by a
  recursive-descent parser (\<^verbatim>\<open>wasmsh-parse\<close>, with a second parser for the inside of words) into
  the syntax tree of \<^verbatim>\<open>wasmsh-ast\<close>, lowered to the intermediate representation of \<^verbatim>\<open>wasmsh-hir\<close>
  and, for the supported subset, to the instructions of \<^verbatim>\<open>wasmsh-ir\<close>, which the machine of
  \<^verbatim>\<open>wasmsh-vm\<close> runs under budgets of steps and output.  Commands work on the variables of
  \<^verbatim>\<open>wasmsh-state\<close>, on an in-memory filesystem (\<^verbatim>\<open>wasmsh-fs\<close>), on pipes (\<^verbatim>\<open>wasmsh-vm/pipe.rs\<close>)
  and on the descriptor table of \<^verbatim>\<open>wasmsh-runtime\<close>, which also matches file name patterns and runs
  pipelines of its own filters as processes that it polls, with pipes of one byte between them.

  \<^bold>\<open>The theories.\<close>
  \<^item> \<open>Prelude\<close>: results with a \<open>Panic\<close> outcome, words with saturating operations, association
    lists, strings; \<open>Utf8\<close>: valid UTF-8, character boundaries and slices that panic off them;
    \<open>Str_Ops\<close>: trimming, splitting and lines of \<open>str\<close>.
  \<^item> \<open>Pipe\<close> (\<^verbatim>\<open>pipe.rs\<close>): the bounded pipe; first in, first out whatever the interleaving; end of
    stream; the memory cap.  Its client lemmas live in the locales \<open>byte_stream\<close> and \<open>draining_stream\<close>.
  \<^item> \<open>Vfs\<close>, \<open>Memfs\<close>, \<open>Memfs_Inv\<close>, \<open>Memfs_Props\<close> (\<^verbatim>\<open>wasmsh-fs\<close>): path normalisation, every operation of
    the in-memory filesystem and its write sinks; the invariant of nodes, limits and the byte counter
    over arbitrary sequences of operations; write then read; directory listings; links.
  \<^item> \<open>Ast\<close>, \<open>Hir\<close>, \<open>Ir\<close>: the trees and the two lowerings; the first is a bijection onto
    well-formed trees, the second is defined exactly on the supported subset and jumps only forward.
  \<^item> \<open>Shell_State\<close>, \<open>Shell_State_Props\<close> (\<^verbatim>\<open>wasmsh-state\<close>): scopes, variables with their
    attributes, namerefs, arrays, random numbers; what an assignment does through a chain of namerefs,
    readonly variables, scopes, appending to arrays (locale \<open>named_store\<close>).
  \<^item> \<open>Vm\<close>, \<open>Vm_Props\<close> (\<^verbatim>\<open>wasmsh-vm\<close>): budgets, cancellation, the instruction loop; running lowered
    code equals the short-circuit meaning of the list for every executor (locale \<open>vm_executor\<close>), runs end
    and stay within limits.
  \<^item> \<open>Fd_Table\<close> (\<^verbatim>\<open>fd_table.rs\<close> and the output routing of \<^verbatim>\<open>wasmsh-runtime/lib.rs\<close>): where output
    goes after redirections and duplications, in their order.
  \<^item> \<open>Lexer\<close>, \<open>Lexer_Props\<close>, \<open>Lexer_Stops\<close> (\<^verbatim>\<open>wasmsh-lex\<close>): every scanner; tokens cover the
    source up to blanks and comments, nothing panics, and errors leave the lexer at a boundary.
  \<^item> \<open>Word_Parser\<close>, \<open>Word_Parser_Props\<close> (\<^verbatim>\<open>word_parser.rs\<close>): the parts of a word; printing and
    parsing is a round trip; no valid word panics.
  \<^item> \<open>Parser\<close>, \<open>Parser_Logic\<close>, \<open>Parser_Props\<close>, \<open>Parser_Lines\<close> (\<^verbatim>\<open>wasmsh-parse/lib.rs\<close>): the parser; a
    program logic for its methods; no valid source makes it panic or loop and its programs
    are well formed and of bounded nesting (locale \<open>command_level\<close>, one per nesting depth); the
    exact result on lines of words and on assignments.
  \<^item> \<open>Glob\<close>, \<open>Extglob\<close> (\<^verbatim>\<open>wasmsh-runtime/pattern.rs\<close>): the matcher with one backtracking point against
    the language of a pattern; extended patterns by rewriting a group into its alternatives, and a group as any
    number of occurrences of literal alternatives for names of up to twenty characters, the bound of the code on repetitions.
  \<^item> \<open>Unicode\<close>: the characters of UTF-8 text, lossy decoding, and that decoding undoes encoding.
  \<^item> \<open>Stream_Core\<close> (\<^verbatim>\<open>wasmsh-runtime/lib.rs\<close>): what a reader promises (locale \<open>reader\<close>: a read gives the next part of
    its contents, or says that it would block, which happens only so often); that any sequence of
    reads gives the contents; the shapes that the filters share, as locales over a reader
    (\<open>pumped\<close>: fill an output buffer and hand it out; \<open>line_stage\<close>: handle line by line).
  \<^item> \<open>Stream_Sources\<close>: literals, \<open>yes\<close>, the reading end of a pipe and the limited reader;
    \<open>Stream_Head\<close>, \<open>Stream_Absorb\<close> (\<open>tail\<close>, \<open>wc\<close>: locale \<open>absorber\<close>), \<open>Stream_Lines\<close> (\<open>rev\<close>, \<^verbatim>\<open>streaming_cut.rs\<close>,
    \<^verbatim>\<open>streaming_uniq.rs\<close>), \<open>Stream_Paste\<close> (\<open>paste\<close>, \<open>column\<close>, \<open>bat\<close>), \<open>Stream_Tr\<close> (\<^verbatim>\<open>streaming_tr.rs\<close>), \<open>Stream_Grep\<close>
    (\<^verbatim>\<open>streaming_grep.rs\<close>): the filters, each with the text it makes of its input; \<open>Stream_Boxes\<close>: the
    stages of a pipeline, each of which turns a reader into a reader.
  \<^item> \<open>Stream_Process\<close>, \<open>Stream_Run\<close>, \<open>Stream_Props\<close>: processes, rounds of polls and the driver; every poll keeps the text
    that is still to come and does some of the remaining work, so a pipeline ends and prints its
    stages' texts composed; the single filters at the end of a pipeline.
  \<^item> \<open>Stream_Sed\<close>, \<open>Sed_Props\<close> (\<^verbatim>\<open>streaming_sed.rs\<close>): scripts, addresses, substitution and the reader of \<open>sed\<close> with its line of
    lookahead, a reader by the locale \<open>pumped\<close>; what it delivers on ASCII text, ranges of line numbers, and a substitution
    that panics.
  \<^item> \<open>Arith\<close>, \<open>Arith_Props\<close> (\<^verbatim>\<open>wasmsh-expand\<close>): the tokenizer and the recursive evaluator of arithmetic expansion on wrapping
    64-bit integers; on the text of an expression tree it has the value and the effects that the tree means, and no text
    without \<open>#\<close> makes it panic, although a division by zero would.
  \<^item> \<open>Brace\<close>, \<open>Brace_Props\<close> (\<^verbatim>\<open>wasmsh-expand\<close>): brace expansion; it yields the product of the alternatives in order, and
    at most ten thousand words.
  \<^item> \<open>Expand_Glob\<close>, \<open>Expand\<close>, \<open>Expand_Props\<close>, \<open>Expand_Fields\<close> (\<^verbatim>\<open>wasmsh-expand\<close>): the patterns of parameter
    expansion, every operator of \<open>${...}\<close>, arrays, quoting, the expansion of words, field splitting and the argument
    list; templates with nested defaults, removed prefixes and suffixes, fields, \<open>$@\<close>, the round trip of
    quoting, and three expansions that go wrong.  Its matcher and the one of \<open>Glob\<close> are instances of the locale
    \<open>backtracking_matcher\<close>, a search with one backtracking point.
  \<^item> \<open>Regex\<close>, \<open>Regex_Props\<close> (\<^verbatim>\<open>wasmsh-runtime/pattern.rs\<close>): the backtracking matcher of \<open>=~\<close> with groups and captures, and
    the one without groups; that it matches when a part of the text is in the language of the pattern, and that its match is
    the leftmost and longest with the captures of POSIX, each for the patterns on which the code does so; the two
    matchers agree where both apply.
  \<^item> \<open>Cond\<close> (\<^verbatim>\<open>wasmsh-runtime/dbl_bracket.rs\<close>): the evaluator of \<open>[[ ]]\<close> against the short-circuit value of a condition by the precedence of
    its operators; \<open>Signals\<close> (\<^verbatim>\<open>signals.rs\<close>): the table of signals and its lookup.
  \<^item> This theory: an assignment from its source text to the variable it sets.

  \<^bold>\<open>Conventions.\<close>  \<open>usize\<close> has 32 bits, as on the target; spans and indices that the program keeps as
  machine integers are words, counters that the length of the source bounds are natural numbers.  The counters of the filters
  (\<open>wc\<close>, line numbers) are natural numbers too, also over the endless source \<open>yes\<close>: they are those of the code as long
  as the counted input is below 4 GiB.  \<open>token_text\<close> is a plain slice, without the panic of \<open>Token::text\<close>, because the tokens are proved
  to lie on boundaries.
  Strings are lists of UTF-8 bytes.  Maps are association lists in insertion order.  A method
  that changes its receiver takes and returns it.  \<open>Err\<close> is an error of the program, \<open>Panic\<close> the end of
  the process; a function that may not return is an option, with \<open>None\<close> for not returning.  There
  is no fuel: loops whose termination depends on an invariant check it and panic otherwise
  (the lexer's nested scans, the parser's loops and its nesting levels), and the properties prove
  these branches dead.  Code outside the modelled parts is an argument of the definitions: the
  word expander (which the property of this theory ties to \<open>expand_word\<close>) and the builtin registry of the machine, the
  case tables of the standard library, the opening of substitution targets, and in the
  filters the lower case and the class of alphanumeric characters of Rust's standard library and the
  regular expressions of the crate \<^verbatim>\<open>posix_regex\<close>, for which nothing is assumed except, by \<open>sed\<close>, that a
  match is a list of ranges of the text.  They are total functions: a panic or an endless search of that crate is outside
  the model.

  \<^bold>\<open>Not modelled.\<close>  The builtins and the interpreter of \<^verbatim>\<open>wasmsh-runtime/lib.rs\<close>; of the pipelines the options of the filters, \<open>sed\<close> as a stage among others,
  sources other than a literal or \<open>yes\<close> (files, and the first stage that is given its source, where \<open>head\<close> is another reader), \<open>|&\<close>,
  the processes for \<open>tee\<close>, external and buffered commands, and runs that hit a resource limit; the
  utilities (each a tool of its own), the network tools, and the hosts around the shell, which are
  glue to JavaScript, Python, and HTTP.
\<close>

section \<open>From source syntax to the shell's variables\<close>

lemma begin_step_free:
  assumes "\<not> cancel_flag v" "stop_reason (budget v) = None" "step_limit (limits v) = 0"
  shows "begin_step v = (v\<lparr>budget := (budget v)\<lparr>budget_steps := budget_steps (budget v) + 1\<rparr>,
    vm_steps := budget_steps (budget v) + 1\<rparr>, None)"
  using assms by (simp add: begin_step_def check_output_limit_def budget_begin_step_def)

text \<open>
  C36 (an assignment, end to end): the source \<open>name=value\<close>, with a value of ordinary characters,
  is parsed into one command, which lowers to instructions, and the machine with the expander of
  the code, when it is not limited or cancelled, runs them to completion with status 0; the variable at the end of the
  name's chain of namerefs, if it is neither readonly nor an indexed array, then holds the value, and every other variable is as it was.
\<close>

theorem assignment_end_to_end:
  assumes "is_name name" "list_all word_char val" "length (name @ ''='' @ val) < 2 ^ 32"
    and "\<not> cancel_flag v" "stop_reason (budget v) = None" "step_limit (limits v) = 0"
    and "\<And>w st st' s. expand_word cf w st = Ok (st', s) \<Longrightarrow> expander w st = (st', s)"
    and "env (vm_state v) \<noteq> []" "resolves (env (vm_state v)) name t" "\<not> is_var_readonly (vm_state v) t"
    and "\<not> indexed_array (vm_state v) t"
  shows "\<exists>and_or sp program v'.
    parse (name @ ''='' @ val) = Ok [CompleteCommand [and_or] sp] \<and>
    lower_supported_and_or (lower_and_or and_or) = Ok program \<and>
    vm_run expander builtins v program = Some (v', Done 0) \<and>
    map_option var_val (env_get (env (vm_state v')) t) = Some (Scalar val) \<and>
    (\<forall>m. m \<noteq> t \<longrightarrow> env_get (env (vm_state v')) m = env_get (env (vm_state v)) m)"
proof -
  let ?a = "assignment_to name val" and ?sp = "\<lparr>span_start = 0, span_end = of_nat (length (name @ ''='' @ val))\<rparr>"
  let ?program = "[Assign (assign_name ?a) (assign_value ?a), ReturnLastStatus]"
  let ?ao = "AndOrList (Pipeline False False False [SimpleCommand [?a] [] [] ?sp] []) []"
  have name: "assign_name ?a = name" by (simp add: assignment_to_def Let_def)
  have parsed: "parse (name @ ''='' @ val) = Ok [CompleteCommand [?ao] ?sp]"
    using assignment_source_parsed [of "name @ ''='' @ val" name val] assms(1-3) by (simp add: single_program_def)
  have low: "lower_supported_and_or (lower_and_or ?ao) = Ok ?program"
    by (simp add: lower_simple_command_def lower_assignment_def Let_def)
  obtain v1 where b1: "begin_step v = (v1, None)" and v1: "vm_state v1 = vm_state v"
      "cancel_flag v1 = cancel_flag v" "stop_reason (budget v1) = None" "limits v1 = limits v"
    using begin_step_free [OF assms(4-6)] assms(5) by simp
  have "\<not> has_tilde val" using assms(2) by (auto simp: has_tilde_def word_char_def is_alpha_def is_digit_def prefix_def)
  then have expanded: "(case assign_value ?a of None \<Rightarrow> (vm_state v, []) | Some w \<Rightarrow> expander w (vm_state v)) = (vm_state v, val)"
    by (auto simp: assignment_to_def Let_def expand_word_def tilde_expand_def intro!: assms(7))
  define v2 where "v2 = v1\<lparr>vm_state := (set_var_here (vm_state v) t val)\<lparr>last_status := 0\<rparr>\<rparr>"
  have asg: "builtin_assign expander builtins v1 (assign_name ?a) (assign_value ?a) = Some (builtins, v2)"
    unfolding builtin_assign_def v1(1) expanded name by (simp add: set_var_resolved [OF assms(9)] v2_def)
  obtain v3 where b2: "begin_step v2 = (v3, None)" and v3: "vm_state v3 = vm_state v2"
    using begin_step_free [of v2] assms(4-6) v1 by (simp add: v2_def)
  have "vm_run expander builtins v ?program = Some (v3, Done 0)"
    using b1 b2 asg v3
    by (simp add: vm_run_def run_with_executor_def run_loop.simps [of _ _ "[_, _]" _ _ 0]
        run_loop.simps [of _ _ "[_, _]" _ _ "Suc 0"] v2_def)
  moreover have "env (vm_state v3) = env (set_var_here (vm_state v) t val)" using v3 by (simp add: v2_def)
  ultimately show ?thesis
    using parsed low set_var_here_effect(4) [OF assms(8,10)] set_var_here_effect(2) [OF assms(8)] by auto
qed

text \<open>The expander of the code as a function of the machine, where the expansion returns.\<close>

definition code_expander :: "shell_word \<Rightarrow> shell_state \<Rightarrow> shell_state \<times> string" where
  "code_expander w st = (case expand_word plain_case w st of Ok r \<Rightarrow> r | _ \<Rightarrow> (st, []))"

theorem assignment_end_to_end_witness:
  "\<exists>and_or sp program v'. parse ''r=a'' = Ok [CompleteCommand [and_or] sp] \<and>
     vm_run code_expander demo_registry (vm_new demo_state 0) program = Some (v', Done 0) \<and>
     map_option var_val (env_get (env (vm_state v')) ''x'') = Some (Scalar ''a'')"
proof -
  have "resolves (env demo_state) ''r'' ''x''"
    by (rule resolves.there [of _ _ "''x''"], simp add: demo_simps)
      (rule resolves.here, simp add: demo_simps)
  then show ?thesis
    using assignment_end_to_end [where v = "vm_new demo_state 0" and name = "''r''" and val = "''a''"
        and expander = code_expander and cf = plain_case and t = "''x''" and builtins = demo_registry]
    by (auto simp: vm_new_def vm_with_limits_def budget_default_def demo_simps is_var_readonly_def indexed_array_def
        is_name_def is_alpha_def word_char_def code_expander_def)
qed

end
